(* ===== verification/Prelude.thy ===== *)
theory Prelude
  imports Main "HOL-Library.Word" "HOL-Library.List_Lexorder" "HOL-Library.Char_ord"
begin

text \<open>
  The vocabulary every component of the gateway model shares: machine integers and bytes,
  the error value of the SQL layer, sequencing of fallible calls, big-endian byte encodings
  of integers and their order, Rust strings as their UTF-8 bytes, and lemmas on lists.

  \<^item> \<open>u8 .. u64\<close> and \<open>i16 .. i64\<close> are words; a signed integer is the word with its
    two's complement bits and is read with \<open>sint\<close>. \<open>usize\<close> is \<open>nat\<close>.
  \<^item> \<open>PgWireResult<T>\<close> is \<open>pg_error + 'a\<close>: \<open>Inl\<close> is \<open>Err\<close>, \<open>Inr\<close> is \<open>Ok\<close>. The
    \<open>?\<close> operator is \<open>res_bind\<close>.
  \<^item> byte slices are \<open>byte list\<close>, ordered lexicographically as Rust orders \<open>[u8]\<close>.
\<close>

section \<open>Machine integers and errors\<close>

type_synonym byte = "8 word"
type_synonym bytes = "8 word list"
type_synonym u16 = "16 word"
type_synonym u32 = "32 word"
type_synonym u64 = "64 word"
type_synonym i16 = "16 word"
type_synonym i32 = "32 word"
type_synonym i64 = "64 word"

text \<open>\<open>PgWireError::UserError\<close> with its SQLSTATE and message (\<open>error.rs\<close>).\<close>

datatype pg_error = UserError (sqlstate: string) (message: string)

type_synonym 'a res = "pg_error + 'a"

definition user_error :: "string \<Rightarrow> string \<Rightarrow> pg_error" where
  "user_error code msg = UserError code msg"

definition unsupported :: "string \<Rightarrow> pg_error" where
  "unsupported msg = user_error ''0A000'' msg"

named_theorems res_simps \<open>rules that open a sequence of fallible calls\<close>
named_theorems enc_simps \<open>lengths and read-back rules of the byte encodings\<close>

subsection \<open>Sequencing fallible calls\<close>

fun res_bind :: "'e + 'a \<Rightarrow> ('a \<Rightarrow> 'e + 'b) \<Rightarrow> 'e + 'b" where
  "res_bind (Inl e) f = Inl e"
| "res_bind (Inr x) f = f x"

lemma res_bind_cong [fundef_cong]:
  "m = m' \<Longrightarrow> (\<And>x. m' = Inr x \<Longrightarrow> f x = g x) \<Longrightarrow> res_bind m f = res_bind m' g"
  by (cases m') auto

lemma res_bind_eq_Inr [res_simps]:
  "(res_bind m f = Inr y) = (\<exists>x. m = Inr x \<and> f x = Inr y)"
  by (cases m) auto

lemma res_bind_eq_Inl:
  "(res_bind m f = Inl e) = (m = Inl e \<or> (\<exists>x. m = Inr x \<and> f x = Inl e))"
  by (cases m) auto

definition ok_or :: "'a option \<Rightarrow> 'e \<Rightarrow> 'e + 'a" where
  "ok_or o' e = (case o' of None \<Rightarrow> Inl e | Some x \<Rightarrow> Inr x)"

lemma ok_or_simps [simp]: "ok_or None e = Inl e" "ok_or (Some x) e = Inr x"
  by (simp_all add: ok_or_def)

lemma ok_or_eq_Inr [res_simps]: "(ok_or o' e = Inr x) = (o' = Some x)"
  by (cases o') auto

text \<open>\<open>usize::checked_add\<close> on a 64-bit target.\<close>

definition checked_add_usize :: "nat \<Rightarrow> nat \<Rightarrow> nat option" where
  "checked_add_usize a b = (if a + b < 2 ^ 64 then Some (a + b) else None)"

definition saturating_mul_usize :: "nat \<Rightarrow> nat \<Rightarrow> nat" where
  "saturating_mul_usize a b = min (a * b) (2 ^ 64 - 1)"

definition saturating_add_usize :: "nat \<Rightarrow> nat \<Rightarrow> nat" where
  "saturating_add_usize a b = min (a + b) (2 ^ 64 - 1)"

text \<open>\<open>xs.get(i)\<close> on a slice.\<close>

definition slice_get :: "'a list \<Rightarrow> nat \<Rightarrow> 'a option" where
  "slice_get xs i = (if i < length xs then Some (xs ! i) else None)"

lemma slice_get_eq_Some [simp]: "(slice_get xs i = Some x) = (i < length xs \<and> xs ! i = x)"
  by (simp add: slice_get_def)

lemma slice_get_eq_None [simp]: "(slice_get xs i = None) = (length xs \<le> i)"
  by (simp add: slice_get_def not_less)

text \<open>\<open>&xs[a..b]\<close> for in-range \<open>a \<le> b\<close>.\<close>

definition slice :: "'a list \<Rightarrow> nat \<Rightarrow> nat \<Rightarrow> 'a list" where
  "slice xs a b = take (b - a) (drop a xs)"

lemma length_slice [simp]: "b \<le> length xs \<Longrightarrow> length (slice xs a b) = b - a"
  by (simp add: slice_def)

lemma slice_append_mid:
  "a = length us \<Longrightarrow> b = a + length vs \<Longrightarrow> slice (us @ vs @ ws) a b = vs"
  by (simp add: slice_def)

text \<open>\<open>key.strip_prefix(prefix)\<close> and \<open>bytes.strip_suffix(&[z])\<close>.\<close>

definition strip_prefix :: "'a list \<Rightarrow> 'a list \<Rightarrow> 'a list option" where
  "strip_prefix p xs = (if take (length p) xs = p then Some (drop (length p) xs) else None)"

lemma strip_prefix_append [simp]: "strip_prefix p (p @ xs) = Some xs"
  by (simp add: strip_prefix_def)

lemma strip_prefix_eq_Some: "(strip_prefix p xs = Some ys) = (xs = p @ ys)"
  by (metis append_eq_conv_conj append_take_drop_id option.inject option.simps(3) strip_prefix_def
      strip_prefix_append)

definition strip_last :: "'a \<Rightarrow> 'a list \<Rightarrow> 'a list option" where
  "strip_last z xs = (if xs \<noteq> [] \<and> last xs = z then Some (butlast xs) else None)"

lemma strip_last_snoc [simp]: "strip_last z (xs @ [z]) = Some xs"
  by (simp add: strip_last_def)

definition starts_with :: "'a list \<Rightarrow> 'a list \<Rightarrow> bool" where
  "starts_with xs p = (take (length p) xs = p)"

lemma starts_with_iff: "starts_with xs p = (\<exists>ys. xs = p @ ys)"
  by (metis append_eq_conv_conj append_take_drop_id starts_with_def)

section \<open>Big-endian encodings\<close>

fun nat_be :: "nat \<Rightarrow> nat \<Rightarrow> bytes" where
  "nat_be 0 x = []"
| "nat_be (Suc n) x = word_of_nat (x div 256 ^ n) # nat_be n x"

fun be_nat :: "bytes \<Rightarrow> nat" where
  "be_nat [] = 0"
| "be_nat (b # bs) = unat b * 256 ^ length bs + be_nat bs"

text \<open>\<open>x.to_be_bytes()\<close> and \<open>uN::from_be_bytes\<close>, at every width.\<close>

definition to_be_bytes :: "'a::len word \<Rightarrow> bytes" where
  "to_be_bytes w = nat_be (LENGTH('a) div 8) (unat w)"

definition from_be_bytes :: "bytes \<Rightarrow> 'a::len word" where
  "from_be_bytes bs = word_of_nat (be_nat bs)"

lemma length_nat_be [simp]: "length (nat_be n x) = n"
  by (induction n) auto

lemma be_nat_bound: "be_nat bs < 256 ^ length bs"
proof (induction bs)
  case (Cons b bs)
  have "unat b < 256" using unsigned_less [of b, where 'a = nat] by simp
  then have "unat b * 256 ^ length bs \<le> 255 * 256 ^ length bs"
    by (intro mult_right_mono) simp_all
  with Cons have "unat b * 256 ^ length bs + be_nat bs < 256 * 256 ^ length bs" by linarith
  then show ?case by simp
qed simp

lemma be_nat_nat_be: "be_nat (nat_be n x) = x mod 256 ^ n"
proof (induction n)
  case (Suc n)
  have "x mod 256 ^ Suc n = 256 ^ n * (x div 256 ^ n mod 256) + x mod 256 ^ n"
    by (metis mod_mult2_eq mult.commute power_Suc)
  with Suc show ?case by (simp add: unat_of_nat mult.commute)
qed simp

lemma nat_be_be_nat: "nat_be (length bs) (be_nat bs) = bs"
proof -
  have shift: "nat_be n (k * 256 ^ n + x) = nat_be n x" for n k x
  proof (induction n arbitrary: k)
    case (Suc n)
    have "(k * 256 ^ Suc n + x) div 256 ^ n = (x + (k * 256) * 256 ^ n) div 256 ^ n"
      by (simp add: mult.assoc add.commute)
    also have "\<dots> = k * 256 + x div 256 ^ n" by (rule div_mult_self1) simp
    finally have "(k * 256 ^ Suc n + x) div 256 ^ n = k * 256 + x div 256 ^ n" .
    moreover have "(word_of_nat (k * 256 + x div 256 ^ n) :: byte) = word_of_nat (x div 256 ^ n)"
    proof -
      have "(256 :: byte) = 0" by (simp add: word_eq_iff_unsigned)
      then show ?thesis
        by (simp only: of_nat_add of_nat_mult of_nat_numeral mult_zero_right add_0_left)
    qed
    moreover have "nat_be n (k * 256 ^ Suc n + x) = nat_be n x"
      using Suc [of "k * 256"] by (simp add: mult.assoc)
    ultimately show ?case by simp
  qed simp
  show ?thesis
  proof (induction bs)
    case (Cons b bs)
    have "(unat b * 256 ^ length bs + be_nat bs) div 256 ^ length bs = unat b"
      using be_nat_bound [of bs] by simp
    with Cons show ?case by (simp add: shift)
  qed simp
qed

lemma length_to_be_bytes:
  "length (to_be_bytes (w :: 'a::len word)) = LENGTH('a) div 8"
  by (simp add: to_be_bytes_def)

lemma length_to_be_bytes_fixed [simp, enc_simps]:
  "length (to_be_bytes (w16 :: u16)) = 2"
  "length (to_be_bytes (w32 :: u32)) = 4"
  "length (to_be_bytes (w64 :: u64)) = 8"
  by (simp_all add: length_to_be_bytes)

lemma from_to_be_bytes:
  assumes "8 dvd LENGTH('a::len)"
  shows "from_be_bytes (to_be_bytes (w :: 'a word)) = w"
proof -
  from assms obtain k where k: "LENGTH('a) = 8 * k" by (elim dvdE)
  have "(256::nat) ^ k = (2 ^ 8) ^ k" by simp
  also have "\<dots> = 2 ^ (8 * k)" by (simp only: power_mult)
  finally have "(256::nat) ^ (LENGTH('a) div 8) = 2 ^ LENGTH('a)" using k by simp
  moreover have "unat w < 2 ^ LENGTH('a)" by (rule unsigned_less)
  ultimately show ?thesis by (simp add: from_be_bytes_def to_be_bytes_def be_nat_nat_be)
qed

lemma from_to_be_bytes_fixed [simp, enc_simps]:
  "from_be_bytes (to_be_bytes w16) = (w16 :: u16)"
  "from_be_bytes (to_be_bytes w32) = (w32 :: u32)"
  "from_be_bytes (to_be_bytes w64) = (w64 :: u64)"
  by (simp_all add: from_to_be_bytes)

lemma to_from_be_bytes:
  assumes "8 * length bs = LENGTH('a::len)"
  shows "to_be_bytes (from_be_bytes bs :: 'a word) = bs"
proof -
  have "(256::nat) ^ length bs = 2 ^ (8 * length bs)" by (simp add: power_mult)
  with assms be_nat_bound [of bs] have "be_nat bs < 2 ^ LENGTH('a)" by simp
  moreover from assms have "LENGTH('a) div 8 = length bs" by linarith
  ultimately show ?thesis
    by (simp add: to_be_bytes_def from_be_bytes_def unat_of_nat nat_be_be_nat)
qed

text \<open>
  The order of equally long byte strings is the order of the numbers they encode: the fact
  every ordered key of the storage layer rests on.
\<close>

lemma be_nat_less_iff:
  "length bs = length cs \<Longrightarrow> (bs < cs) = (be_nat bs < be_nat cs)"
proof (induction bs cs rule: list_induct2)
  case (Cons b bs c cs)
  let ?p = "(256::nat) ^ length bs"
  have bound: "be_nat bs < ?p" "be_nat cs < ?p"
    using be_nat_bound [of bs] be_nat_bound [of cs] Cons.hyps by simp_all
  show ?case
  proof (cases "b = c")
    case True
    with Cons show ?thesis by simp
  next
    case False
    have lt: "x * ?p + be_nat xs < y * ?p + k" if "x < y" "be_nat xs < ?p" for x y k xs
    proof -
      from that have "(x + 1) * ?p \<le> y * ?p" by (intro mult_right_mono) simp_all
      with that show ?thesis by (simp add: algebra_simps)
    qed
    have "(b < c) = (unat b * ?p + be_nat bs < unat c * ?p + be_nat cs)"
      using lt [of "unat b" "unat c" bs "be_nat cs"] lt [of "unat c" "unat b" cs "be_nat bs"]
        bound False by (metis linorder_less_linear order.asym word_less_nat_alt)
    with False Cons.hyps show ?thesis by simp
  qed
qed simp

lemma to_be_bytes_less_iff:
  assumes "8 dvd LENGTH('a::len)"
  shows "(to_be_bytes (v :: 'a word) < to_be_bytes w) = (v < w)"
proof -
  from assms obtain k where k: "LENGTH('a) = 8 * k" by (elim dvdE)
  have "(256::nat) ^ k = 2 ^ (8 * k)" by (simp add: power_mult)
  with k have "unat x mod 256 ^ (LENGTH('a) div 8) = unat x" for x :: "'a word"
    using unsigned_less [of x, where 'a = nat] by simp
  then show ?thesis
    by (simp add: be_nat_less_iff length_to_be_bytes)
       (simp add: to_be_bytes_def be_nat_nat_be word_less_nat_alt)
qed

lemma to_be_bytes_less_fixed [simp]:
  "(to_be_bytes (v16 :: u16) < to_be_bytes w16) = (v16 < w16)"
  "(to_be_bytes (v32 :: u32) < to_be_bytes w32) = (v32 < w32)"
  "(to_be_bytes (v64 :: u64) < to_be_bytes w64) = (v64 < w64)"
  by (simp_all add: to_be_bytes_less_iff)

lemma to_be_bytes_inject_fixed [simp]:
  "(to_be_bytes (v16 :: u16) = to_be_bytes w16) = (v16 = w16)"
  "(to_be_bytes (v32 :: u32) = to_be_bytes w32) = (v32 = w32)"
  "(to_be_bytes (v64 :: u64) = to_be_bytes w64) = (v64 = w64)"
  by (metis from_to_be_bytes_fixed)+

subsection \<open>Lexicographic order of concatenations\<close>

lemma append_less_iff [simp]: "(xs @ ys < xs @ zs) = ((ys :: 'a::order list) < zs)"
  by (induction xs) auto

lemma append_le_iff [simp]: "(xs @ ys \<le> xs @ zs) = ((ys :: 'a::order list) \<le> zs)"
  by (induction xs) auto

lemma append_less_append:
  "length xs = length ys \<Longrightarrow>
   (xs @ us < ys @ vs) = (xs < ys \<or> xs = ys \<and> us < (vs :: 'a::linorder list))"
  by (induction xs ys rule: list_induct2) auto

lemma le_append_self [simp]: "(xs :: 'a::order list) \<le> xs @ ys"
  by (induction xs) auto

text \<open>The successor of a byte string in the order is the string with a zero byte added.\<close>

lemma less_snoc_zero_iff: "((xs :: bytes) < ys @ [0]) = (xs \<le> ys)"
proof (induction ys arbitrary: xs)
  case Nil
  then show ?case by (cases xs) (auto simp: word_less_nat_alt)
next
  case (Cons y ys)
  then show ?case by (cases xs) auto
qed

lemma snoc_zero_le_iff: "(ys @ [0] \<le> (xs :: bytes)) = (ys < xs)"
  using less_snoc_zero_iff [of xs ys] by (meson linorder_not_le)

section \<open>Rust strings\<close>

text \<open>
  A Rust \<open>String\<close> is a vector of bytes that is valid UTF-8. The model uses HOL's
  \<open>string\<close> (a list of 8-bit characters) for those bytes, so that \<open>len()\<close> is
  \<open>length\<close> and the order of strings is the order of their bytes. \<open>utf8_error\<close> is
  the validation loop of \<open>String::from_utf8\<close>: the first invalid position with the
  length of the offending sequence, or \<open>None\<close> for an input that ends too early.
\<close>

definition as_bytes :: "string \<Rightarrow> bytes" where
  "as_bytes s = map of_char s"

definition string_of_bytes :: "bytes \<Rightarrow> string" where
  "string_of_bytes bs = map (\<lambda>b. char_of (unat b)) bs"

definition utf8_cont :: "byte \<Rightarrow> bool" where
  "utf8_cont b = (0x80 \<le> b \<and> b \<le> 0xBF)"

text \<open>The second byte a lead byte of a three or four byte sequence admits.\<close>

definition utf8_second3 :: "byte \<Rightarrow> byte \<Rightarrow> bool" where
  "utf8_second3 a b =
     ((a = 0xE0 \<and> 0xA0 \<le> b \<and> b \<le> 0xBF)
    \<or> (0xE1 \<le> a \<and> a \<le> 0xEC \<and> utf8_cont b)
    \<or> (a = 0xED \<and> 0x80 \<le> b \<and> b \<le> 0x9F)
    \<or> (0xEE \<le> a \<and> a \<le> 0xEF \<and> utf8_cont b))"

definition utf8_second4 :: "byte \<Rightarrow> byte \<Rightarrow> bool" where
  "utf8_second4 a b =
     ((a = 0xF0 \<and> 0x90 \<le> b \<and> b \<le> 0xBF)
    \<or> (0xF1 \<le> a \<and> a \<le> 0xF3 \<and> utf8_cont b)
    \<or> (a = 0xF4 \<and> 0x80 \<le> b \<and> b \<le> 0x8F))"

text \<open>One step of the loop: how many bytes the sequence at the head of the input has
  (\<open>Inr\<close>), or why it is refused (\<open>Inl\<close>: \<open>None\<close> when the input ends inside it).\<close>

definition utf8_step :: "byte \<Rightarrow> bytes \<Rightarrow> nat option + nat" where
  "utf8_step a rest =
     (if a < 0x80 then Inr 1
      else if 0xC2 \<le> a \<and> a \<le> 0xDF then
        (case rest of [] \<Rightarrow> Inl None
         | b # _ \<Rightarrow> if utf8_cont b then Inr 2 else Inl (Some 1))
      else if 0xE0 \<le> a \<and> a \<le> 0xEF then
        (case rest of [] \<Rightarrow> Inl None
         | b # rest' \<Rightarrow>
             if \<not> utf8_second3 a b then Inl (Some 1)
             else (case rest' of [] \<Rightarrow> Inl None
                   | c # _ \<Rightarrow> if utf8_cont c then Inr 3 else Inl (Some 2)))
      else if 0xF0 \<le> a \<and> a \<le> 0xF4 then
        (case rest of [] \<Rightarrow> Inl None
         | b # rest' \<Rightarrow>
             if \<not> utf8_second4 a b then Inl (Some 1)
             else (case rest' of [] \<Rightarrow> Inl None
                   | c # rest'' \<Rightarrow>
                       if \<not> utf8_cont c then Inl (Some 2)
                       else (case rest'' of [] \<Rightarrow> Inl None
                             | d # _ \<Rightarrow> if utf8_cont d then Inr 4 else Inl (Some 3))))
      else Inl (Some 1))"

function utf8_error :: "nat \<Rightarrow> bytes \<Rightarrow> (nat \<times> nat option) option" where
  "utf8_error i [] = None"
| "utf8_error i (a # rest) =
     (case utf8_step a rest of
        Inl e \<Rightarrow> Some (i, e)
      | Inr n \<Rightarrow> utf8_error (i + n) (drop (n - 1) rest))"
  by pat_completeness auto
termination
  by (relation "measure (\<lambda>(i, bs). length bs)") auto

definition utf8_valid :: "bytes \<Rightarrow> bool" where
  "utf8_valid bs = (utf8_error 0 bs = None)"

text \<open>Decimal rendering of integers (\<open>to_string\<close>).\<close>

fun show_nat :: "nat \<Rightarrow> string" where
  "show_nat n = (if n < 10 then [char_of (48 + n)]
                 else show_nat (n div 10) @ [char_of (48 + n mod 10)])"

declare show_nat.simps [simp del]

definition show_int :: "int \<Rightarrow> string" where
  "show_int k = (if k < 0 then ''-'' @ show_nat (nat (- k)) else show_nat (nat k))"

text \<open>\<open>Utf8Error\<close>'s \<open>Display\<close>.\<close>

definition show_utf8_error :: "nat \<times> nat option \<Rightarrow> string" where
  "show_utf8_error e =
     (case snd e of
        Some n \<Rightarrow> ''invalid utf-8 sequence of '' @ show_nat n @ '' bytes from index ''
                  @ show_nat (fst e)
      | None \<Rightarrow> ''incomplete utf-8 byte sequence from index '' @ show_nat (fst e))"

text \<open>\<open>String::from_utf8(bytes).map_err(|e| user_error("XX000", format!("<what>: {e}")))\<close>.\<close>

definition from_utf8 :: "string \<Rightarrow> bytes \<Rightarrow> string res" where
  "from_utf8 what bs =
     (case utf8_error 0 bs of
        None \<Rightarrow> Inr (string_of_bytes bs)
      | Some e \<Rightarrow> Inl (user_error ''XX000'' (what @ '': '' @ show_utf8_error e)))"

definition valid_string :: "string \<Rightarrow> bool" where
  "valid_string s = utf8_valid (as_bytes s)"

text \<open>\<open>to_ascii_lowercase\<close>: ASCII capitals only.\<close>

definition ascii_lower_char :: "char \<Rightarrow> char" where
  "ascii_lower_char c =
     (let n = (of_char c :: nat) in if 65 \<le> n \<and> n \<le> 90 then char_of (n + 32) else c)"

definition to_ascii_lowercase :: "string \<Rightarrow> string" where
  "to_ascii_lowercase s = map ascii_lower_char s"

lemma ascii_lower_char_idem [simp]: "ascii_lower_char (ascii_lower_char c) = ascii_lower_char c"
  by (simp add: ascii_lower_char_def Let_def)

lemma to_ascii_lowercase_idem [simp]:
  "to_ascii_lowercase (to_ascii_lowercase s) = to_ascii_lowercase s"
  by (simp add: to_ascii_lowercase_def)

lemma length_as_bytes [simp]: "length (as_bytes s) = length s"
  by (simp add: as_bytes_def)

lemma char_of_unat_of_char: "char_of (unat (of_char c :: byte)) = (c :: char)"
proof -
  have "(of_char c :: byte) = word_of_nat (of_char c)" by (metis of_char_of of_nat_of_char)
  moreover have "of_char c < (256 :: nat)" by simp
  ultimately show ?thesis by (simp add: unat_of_nat)
qed

lemma string_of_as_bytes [simp]: "string_of_bytes (as_bytes s) = s"
  by (simp add: string_of_bytes_def as_bytes_def char_of_unat_of_char comp_def)

lemma as_bytes_inject [simp]: "(as_bytes s = as_bytes t) = (s = t)"
  by (metis string_of_as_bytes)

lemma from_utf8_as_bytes [simp]: "valid_string s \<Longrightarrow> from_utf8 what (as_bytes s) = Inr s"
  by (simp add: from_utf8_def valid_string_def utf8_valid_def)

text \<open>ASCII text is valid UTF-8.\<close>

lemma ascii_utf8_valid: "(\<forall>b \<in> set bs. b < 0x80) \<Longrightarrow> utf8_error i bs = None"
  by (induction bs arbitrary: i) (auto simp: utf8_step_def)

end
