(* ===== verification/Rust_Str.thy ===== *)
theory Rust_Str
  imports Prelude "HOL-Library.Sublist"
begin

text \<open>
  The operations of Rust's \<open>str\<close> the source uses, on the bytes of a string: trimming and
  splitting at whitespace, splitting at a character, replacing, parsing integers, counting and
  slicing by characters. Every character the source looks for is ASCII and no byte of a longer
  UTF-8 sequence is, so looking at bytes finds the same places as looking at characters.
\<close>

section \<open>Whitespace\<close>

text \<open>\<open>str::trim\<close>: the UTF-8 encodings of the characters with the Unicode property
  \<open>White_Space\<close>.\<close>

definition whitespace :: "string list" where
  "whitespace =
     map (\<lambda>n. [char_of (n :: nat)]) [9, 10, 11, 12, 13, 32]
     @ map (map (\<lambda>n. char_of (n :: nat)))
         ([[0xC2, 0x85], [0xC2, 0xA0], [0xE1, 0x9A, 0x80]]
          @ map (\<lambda>k. [0xE2, 0x80, 0x80 + k]) [0, 1, 2, 3, 4, 5, 6, 7, 8, 9, 10]
          @ [[0xE2, 0x80, 0xA8], [0xE2, 0x80, 0xA9], [0xE2, 0x80, 0xAF], [0xE2, 0x81, 0x9F],
             [0xE3, 0x80, 0x80]])"

text \<open>One whitespace character at the head, by its length.\<close>

definition ws_len :: "string \<Rightarrow> nat" where
  "ws_len s = (case find (\<lambda>w. starts_with s w) whitespace of Some w \<Rightarrow> length w | None \<Rightarrow> 0)"

function trim_start :: "string \<Rightarrow> string" where
  "trim_start s = (if ws_len s = 0 \<or> s = [] then s else trim_start (drop (ws_len s) s))"
  by pat_completeness auto
termination
  by (relation "measure length") auto

declare trim_start.simps [simp del]

definition ws_suffix_len :: "string \<Rightarrow> nat" where
  "ws_suffix_len s =
     (case find (\<lambda>w. starts_with (rev s) (rev w)) whitespace of Some w \<Rightarrow> length w | None \<Rightarrow> 0)"

function trim_end :: "string \<Rightarrow> string" where
  "trim_end s =
     (if ws_suffix_len s = 0 \<or> s = [] then s else trim_end (take (length s - ws_suffix_len s) s))"
  by pat_completeness auto
termination
  by (relation "measure length") auto

declare trim_end.simps [simp del]

definition trim :: "string \<Rightarrow> string" where
  "trim s = trim_end (trim_start s)"

definition is_digit :: "char \<Rightarrow> bool" where
  "is_digit c = (CHR ''0'' \<le> c \<and> c \<le> CHR ''9'')"

definition digit_val :: "char \<Rightarrow> nat" where
  "digit_val c = of_char c - 48"

fun digits_nat :: "string \<Rightarrow> nat" where
  "digits_nat [] = 0"
| "digits_nat (c # cs) = digit_val c * 10 ^ length cs + digits_nat cs"

section \<open>Integers\<close>

text \<open>\<open>str::parse\<close> for a signed type of \<open>n\<close> bits: an optional sign, at least one digit, no
  overflow; and for an unsigned one, which takes no minus.\<close>

definition parse_signed :: "nat \<Rightarrow> string \<Rightarrow> int option" where
  "parse_signed n s =
     (let (neg, ds) = (case s of
            c # cs \<Rightarrow> if c = CHR ''-'' then (True, cs) else if c = CHR ''+'' then (False, cs)
                      else (False, s)
          | [] \<Rightarrow> (False, []));
          x = (if neg then - int (digits_nat ds) else int (digits_nat ds))
      in if ds = [] \<or> \<not> list_all is_digit ds \<or> x < - (2 ^ (n - 1)) \<or> 2 ^ (n - 1) \<le> x then None
         else Some x)"

definition parse_unsigned :: "nat \<Rightarrow> string \<Rightarrow> nat option" where
  "parse_unsigned n s =
     (let ds = (case s of c # cs \<Rightarrow> if c = CHR ''+'' then cs else s | [] \<Rightarrow> [])
      in if ds = [] \<or> \<not> list_all is_digit ds \<or> 2 ^ n \<le> digits_nat ds then None
         else Some (digits_nat ds))"

section \<open>Splitting and replacing\<close>

text \<open>\<open>s.split(c)\<close>, \<open>s.split_once(c)\<close> and \<open>s.rsplit_once(c)\<close>.\<close>

fun split_char :: "char \<Rightarrow> string \<Rightarrow> string list" where
  "split_char c [] = [[]]"
| "split_char c (x # xs) =
     (if x = c then [] # split_char c xs
      else case split_char c xs of [] \<Rightarrow> [[x]] | w # ws \<Rightarrow> (x # w) # ws)"

definition split_once :: "char \<Rightarrow> string \<Rightarrow> (string \<times> string) option" where
  "split_once c s =
     (case dropWhile (\<lambda>x. x \<noteq> c) s of [] \<Rightarrow> None | _ # r \<Rightarrow> Some (takeWhile (\<lambda>x. x \<noteq> c) s, r))"

definition rsplit_once :: "char \<Rightarrow> string \<Rightarrow> (string \<times> string) option" where
  "rsplit_once c s = map_option (\<lambda>(a, b). (rev b, rev a)) (split_once c (rev s))"

text \<open>\<open>s.split_whitespace()\<close>, with the word being read.\<close>

function split_ws :: "string \<Rightarrow> string \<Rightarrow> string list" where
  "split_ws cur s =
     (if s = [] then (if cur = [] then [] else [cur])
      else if ws_len s \<noteq> 0 then (if cur = [] then [] else [cur]) @ split_ws [] (drop (ws_len s) s)
      else split_ws (cur @ [hd s]) (tl s))"
  by pat_completeness auto
termination
  by (relation "measure (\<lambda>(cur, s). length s)") auto

declare split_ws.simps [simp del]

definition split_whitespace :: "string \<Rightarrow> string list" where
  "split_whitespace s = split_ws [] s"

definition has_whitespace :: "string \<Rightarrow> bool" where
  "has_whitespace s = (\<exists>w \<in> set whitespace. sublist w s)"

definition replace_char :: "char \<Rightarrow> string \<Rightarrow> string \<Rightarrow> string" where
  "replace_char c t s = concat (map (\<lambda>x. if x = c then t else [x]) s)"

fun join :: "string \<Rightarrow> string list \<Rightarrow> string" where
  "join sep [] = []"
| "join sep [x] = x"
| "join sep (x # y # zs) = x @ sep @ join sep (y # zs)"

definition strip_suffix :: "string \<Rightarrow> string \<Rightarrow> string option" where
  "strip_suffix p s = map_option rev (strip_prefix (rev p) (rev s))"

definition ends_with :: "string \<Rightarrow> string \<Rightarrow> bool" where
  "ends_with s p = starts_with (rev s) (rev p)"

text \<open>\<open>s.trim_start_matches(cs)\<close> and \<open>s.trim_matches(c)\<close>.\<close>

definition trim_start_matches :: "char list \<Rightarrow> string \<Rightarrow> string" where
  "trim_start_matches cs s = dropWhile (\<lambda>x. x \<in> set cs) s"

definition trim_matches :: "char \<Rightarrow> string \<Rightarrow> string" where
  "trim_matches c s = rev (dropWhile (\<lambda>x. x = c) (rev (dropWhile (\<lambda>x. x = c) s)))"

definition ascii_upper_char :: "char \<Rightarrow> char" where
  "ascii_upper_char c =
     (let n = (of_char c :: nat) in if 97 \<le> n \<and> n \<le> 122 then char_of (n - 32) else c)"

definition to_ascii_uppercase :: "string \<Rightarrow> string" where
  "to_ascii_uppercase s = map ascii_upper_char s"

definition eq_ignore_ascii_case :: "string \<Rightarrow> string \<Rightarrow> bool" where
  "eq_ignore_ascii_case a b = (to_ascii_lowercase a = to_ascii_lowercase b)"

section \<open>Characters\<close>

definition is_cont_char :: "char \<Rightarrow> bool" where
  "is_cont_char c = (let n = (of_char c :: nat) in 128 \<le> n \<and> n < 192)"

definition chars_count :: "string \<Rightarrow> nat" where
  "chars_count s = length (filter (\<lambda>c. \<not> is_cont_char c) s)"

definition is_char_boundary :: "string \<Rightarrow> nat \<Rightarrow> bool" where
  "is_char_boundary s i =
     (i = 0 \<or> i = length s \<or> i < length s \<and> \<not> is_cont_char (s ! i))"

text \<open>A panic, as an error value with a code that is no SQLSTATE; \<open>&s[a..b]\<close> panics outside the
  string and inside a character.\<close>

definition panic :: "string \<Rightarrow> pg_error" where
  "panic msg = UserError ''panic'' msg"

definition str_slice :: "string \<Rightarrow> nat \<Rightarrow> nat \<Rightarrow> string res" where
  "str_slice s a b =
     (if a \<le> b \<and> b \<le> length s \<and> is_char_boundary s a \<and> is_char_boundary s b
      then Inr (slice s a b) else Inl (panic ''byte index is not a char boundary''))"

text \<open>\<open>iter.map(f).collect::<Result<Vec<_>, _>>()\<close>: the results, or the first error.\<close>

fun collect_res :: "('a \<Rightarrow> 'b res) \<Rightarrow> 'a list \<Rightarrow> 'b list res" where
  "collect_res f [] = Inr []"
| "collect_res f (x # xs) = res_bind (f x) (\<lambda>y. res_bind (collect_res f xs) (\<lambda>ys. Inr (y # ys)))"

lemma collect_res_cong [fundef_cong]:
  "xs = ys \<Longrightarrow> (\<And>x. x \<in> set ys \<Longrightarrow> f x = g x) \<Longrightarrow> collect_res f xs = collect_res g ys"
  by (induction ys arbitrary: xs) auto

lemma collect_res_eq_Inr:
  "(collect_res f xs = Inr ys) = list_all2 (\<lambda>x y. f x = Inr y) xs ys"
  by (induction xs arbitrary: ys) (auto simp: res_simps list_all2_Cons1)

lemma collect_res_map_Inr:
  "(\<And>x. x \<in> set xs \<Longrightarrow> f (g x) = Inr x) \<Longrightarrow> collect_res f (map g xs) = Inr xs"
  by (induction xs) auto

section \<open>Digits\<close>

lemma digit_val_less: "is_digit c \<Longrightarrow> digit_val c < 10"
  by (auto simp: is_digit_def digit_val_def less_eq_char_def)

lemma digit_val_pos: "is_digit c \<Longrightarrow> c \<noteq> CHR ''0'' \<Longrightarrow> 1 \<le> digit_val c"
proof -
  assume *: "is_digit c" "c \<noteq> CHR ''0''"
  then have "of_char c \<noteq> (of_char (CHR ''0'') :: nat)" by (simp only: of_char_eq_iff) simp
  then have "of_char c \<noteq> (48 :: nat)" by simp
  then show ?thesis using *(1) by (auto simp: is_digit_def digit_val_def less_eq_char_def)
qed

lemma digit_val_less_iff: "is_digit x \<Longrightarrow> is_digit y \<Longrightarrow> (x < y) = (digit_val x < digit_val y)"
  by (auto simp: is_digit_def digit_val_def less_char_def less_eq_char_def)

lemma digit_val_eq_iff: "is_digit x \<Longrightarrow> is_digit y \<Longrightarrow> (x = y) = (digit_val x = digit_val y)"
  using digit_val_less_iff [of x y] digit_val_less_iff [of y x] by (metis linorder_neq_iff)

lemma digits_nat_bound: "list_all is_digit ds \<Longrightarrow> digits_nat ds < 10 ^ length ds"
proof (induction ds)
  case (Cons c ds)
  then have "digit_val c * 10 ^ length ds \<le> 9 * 10 ^ length ds"
    using digit_val_less [of c] by (intro mult_right_mono) auto
  moreover have "digits_nat ds < 10 ^ length ds" using Cons by simp
  ultimately have "digit_val c * 10 ^ length ds + digits_nat ds < 9 * 10 ^ length ds + 10 ^ length ds"
    by linarith
  then show ?case by simp
qed simp

lemma digits_nat_lower:
  "list_all is_digit ds \<Longrightarrow> ds \<noteq> [] \<Longrightarrow> hd ds \<noteq> CHR ''0'' \<Longrightarrow> 10 ^ (length ds - 1) \<le> digits_nat ds"
proof (cases ds)
  case (Cons c cs)
  assume "list_all is_digit ds" "hd ds \<noteq> CHR ''0''"
  then have "1 * 10 ^ length cs \<le> digit_val c * 10 ^ length cs"
    using digit_val_pos [of c] Cons by (intro mult_right_mono) auto
  then have "10 ^ length cs \<le> digit_val c * 10 ^ length cs + digits_nat cs" by linarith
  then show ?thesis using Cons by simp
qed simp

lemma whitespace_ends:
  "list_all (\<lambda>w. w \<noteq> [] \<and> \<not> is_digit (hd w) \<and> (of_char (hd w) :: nat) \<noteq> 45 \<and> \<not> is_digit (last w)) whitespace"
  by (simp add: whitespace_def is_digit_def less_eq_char_def)

lemma ws_len_plain: "is_digit c \<or> c = CHR ''-'' \<Longrightarrow> ws_len (c # cs) = 0"
proof -
  assume "is_digit c \<or> c = CHR ''-''"
  then have "\<not> starts_with (c # cs) w" if "w \<in> set whitespace" for w
    using whitespace_ends that by (cases w) (auto simp: list_all_iff starts_with_def)
  then have "find (\<lambda>w. starts_with (c # cs) w) whitespace = None" by (simp add: find_None_iff)
  then show ?thesis by (simp add: ws_len_def)
qed

lemma ws_suffix_len_plain: "is_digit c \<Longrightarrow> ws_suffix_len (cs @ [c]) = 0"
proof -
  assume "is_digit c"
  then have "\<not> starts_with (c # rev cs) (rev w)" if "w \<in> set whitespace" for w
    using whitespace_ends that by (cases w rule: rev_cases) (auto simp: list_all_iff starts_with_def)
  then have "find (\<lambda>w. starts_with (c # rev cs) (rev w)) whitespace = None" by (simp add: find_None_iff)
  then show ?thesis by (simp add: ws_suffix_len_def)
qed


text \<open>The decimal rendering of a number is its digits, and parses back.\<close>

lemma digits_nat_snoc: "digits_nat (ds @ [d]) = digits_nat ds * 10 + digit_val d"
  by (induction ds) (simp_all add: algebra_simps)

lemma digit_char: "n < 10 \<Longrightarrow> is_digit (char_of (48 + n))" "n < 10 \<Longrightarrow> digit_val (char_of (48 + n)) = n"
  by (simp_all add: is_digit_def digit_val_def less_eq_char_def)

lemma show_nat_digits:
  "show_nat n \<noteq> [] \<and> list_all is_digit (show_nat n) \<and> digits_nat (show_nat n) = n"
proof (induction n rule: show_nat.induct)
  case (1 n)
  show ?case
  proof (cases "n < 10")
    case True
    then show ?thesis by (simp add: show_nat.simps [of n] digit_char)
  next
    case False
    with 1 have "list_all is_digit (show_nat (n div 10))" "digits_nat (show_nat (n div 10)) = n div 10"
      by simp_all
    with False show ?thesis
      by (simp add: show_nat.simps [of n] digit_char digits_nat_snoc mult.commute)
  qed
qed

lemma show_nat_not_sign: "hd (show_nat n) \<noteq> CHR ''-''" "hd (show_nat n) \<noteq> CHR ''+''"
  using show_nat_digits [of n]
  by (cases "show_nat n"; auto simp: is_digit_def less_eq_char_def)+

lemma parse_unsigned_show_nat: "k < 2 ^ n \<Longrightarrow> parse_unsigned n (show_nat k) = Some k"
  using show_nat_digits [of k] show_nat_not_sign [of k]
  by (cases "show_nat k") (auto simp: parse_unsigned_def Let_def)

lemma parse_signed_show_int:
  assumes "- (2 ^ (n - 1)) \<le> k" "k < 2 ^ (n - 1)"
  shows "parse_signed n (show_int k) = Some k"
proof (cases "k < 0")
  case True
  then show ?thesis
    using assms show_nat_digits [of "nat (- k)"] by (simp add: parse_signed_def show_int_def)
next
  case False
  then show ?thesis
    using assms show_nat_digits [of "nat k"] show_nat_not_sign [of "nat k"]
    by (cases "show_nat (nat k)") (auto simp: parse_signed_def show_int_def)
qed

end
