(* ===== verification/Value_Types.thy ===== *)
theory Value_Types
  imports Prelude
begin

text \<open>
  The data the whole gateway computes with: cell values (\<open>types/column_value.rs\<close>), column
  types (\<open>types/data_type.rs\<close>) and table schemas (\<open>types/schema.rs\<close>,
  \<open>types/row.rs\<close>). Constructors of \<open>ColumnValue\<close> carry the prefix \<open>V\<close>, those of
  \<open>DataType\<close> the prefix \<open>T\<close>. A \<open>f32\<close> or \<open>f64\<close> is its IEEE bit pattern
  (\<open>to_bits\<close>). A \<open>RowMap\<close> is a partial map from column names to values.
\<close>

section \<open>Cell values\<close>

datatype column_value =
    is_VNull: VNull
  | is_VInt16: VInt16 i16
  | is_VInt32: VInt32 i32
  | is_VInt64: VInt64 i64
  | is_VFloat32: VFloat32 u32
  | is_VFloat64: VFloat64 u64
  | is_VNumeric: VNumeric string
  | is_VText: VText string
  | is_VBoolean: VBoolean bool
  | is_VDate: VDate string
  | is_VTimestamp: VTimestamp string
  | is_VTimestampTz: VTimestampTz string
  | is_VUuid: VUuid string
  | is_VBytea: VBytea bytes
  | is_VJson: VJson string
  | is_VJsonb: VJsonb string
  | is_VArray: VArray "column_value list"

definition is_null :: "column_value \<Rightarrow> bool" where
  "is_null v = (v = VNull)"

section \<open>Column types\<close>

datatype my_sql_int_kind = Tiny | Small | Medium | IntKind | Big

datatype data_type =
    TInt16
  | TInt32
  | TInt64
  | TMySqlInt my_sql_int_kind bool
  | TFloat32
  | TFloat64
  | TMySqlFloat "nat option"
  | TMySqlDouble "nat option"
  | TNumeric "nat option" "nat option"
  | TText
  | TMySqlText "nat option" string
  | TVarChar "nat option"
  | TChar "nat option"
  | TBinary "nat option"
  | TVarBinary "nat option"
  | TBlob "nat option" string
  | TBoolean
  | TBit "nat option"
  | TYear
  | TDate
  | TTime
  | TMySqlTime "nat option"
  | TTimeTz
  | TInterval
  | TTimestamp
  | TMySqlDateTime "nat option"
  | TMySqlTimestamp "nat option"
  | TTimestampTz
  | TUuid
  | TBytea
  | TJson
  | TJsonb
  | TArray data_type
  | TDomain string
  | TEnum "string list"
  | TSet "string list"
  | TGeometry string

section \<open>Schemas and rows\<close>

record column_schema =
  column_id :: u32
  col_name :: string
  col_type :: data_type
  col_primary_key :: bool
  col_nullable :: bool
  col_default :: "string option"
  col_on_update :: "string option"
  col_character_set :: "string option"
  col_collation :: "string option"

record check_constraint_schema =
  check_name :: string
  check_expr :: string

record unique_constraint_schema =
  unique_name :: string
  unique_columns :: "string list"
  unique_primary_key :: bool

record foreign_key_constraint_schema =
  fk_name :: string
  fk_columns :: "string list"
  fk_foreign_table :: string
  fk_referred_columns :: "string list"

record table_schema =
  table_name :: string
  table_id :: u32
  schema_version :: u32
  table_epoch :: u64
  primary_key :: string
  check_constraints :: "check_constraint_schema list"
  unique_constraints :: "unique_constraint_schema list"
  foreign_keys :: "foreign_key_constraint_schema list"
  columns :: "column_schema list"

type_synonym row_map = "string \<rightharpoonup> column_value"

definition INTERNAL_ROWID_TYPE :: data_type where
  "INTERNAL_ROWID_TYPE = TInt64"

text \<open>\<open>normalize_descriptor\<close>: versions of zero become one, and a column without an id
  takes its position.\<close>

fun normalize_columns :: "nat \<Rightarrow> column_schema list \<Rightarrow> column_schema list" where
  "normalize_columns idx [] = []"
| "normalize_columns idx (c # cs) =
     (if column_id c = 0 then c\<lparr>column_id := word_of_nat idx + 1\<rparr> else c)
       # normalize_columns (Suc idx) cs"

definition normalize_descriptor :: "table_schema \<Rightarrow> table_schema" where
  "normalize_descriptor s =
     (let s1 = (if schema_version s = 0 then s\<lparr>schema_version := 1\<rparr> else s);
          s2 = (if table_epoch s1 = 0 then s1\<lparr>table_epoch := 1\<rparr> else s1)
      in s2\<lparr>columns := normalize_columns 0 (columns s2)\<rparr>)"

definition pk_data_type :: "table_schema \<Rightarrow> data_type" where
  "pk_data_type s =
     (case find col_primary_key (columns s) of
        Some c \<Rightarrow> col_type c
      | None \<Rightarrow> INTERNAL_ROWID_TYPE)"

definition find_column :: "table_schema \<Rightarrow> string \<Rightarrow> column_schema option" where
  "find_column s name = find (\<lambda>c. col_name c = name) (columns s)"

definition find_column_by_id :: "table_schema \<Rightarrow> u32 \<Rightarrow> column_schema option" where
  "find_column_by_id s cid = find (\<lambda>c. column_id c = cid) (columns s)"

definition column_names :: "table_schema \<Rightarrow> string list" where
  "column_names s = map col_name (columns s)"

definition has_user_primary_key :: "table_schema \<Rightarrow> bool" where
  "has_user_primary_key s = (\<exists>c \<in> set (columns s). col_primary_key c)"

fun apply_assignments :: "row_map \<Rightarrow> (string \<times> column_value) list \<Rightarrow> row_map" where
  "apply_assignments row [] = row"
| "apply_assignments row ((c, v) # rest) = apply_assignments (row(c \<mapsto> v)) rest"

section \<open>Well-formed values\<close>

text \<open>
  What Rust's types and the 32-bit length fields of the encodings demand of a value: strings
  are UTF-8, and strings, byte strings and arrays have fewer than $2^{32}$ elements.
\<close>

definition str_ok :: "string \<Rightarrow> bool" where
  "str_ok s = (valid_string s \<and> length s < 2 ^ 32)"

fun value_ok :: "column_value \<Rightarrow> bool" where
  "value_ok (VNumeric s) = str_ok s"
| "value_ok (VText s) = str_ok s"
| "value_ok (VDate s) = str_ok s"
| "value_ok (VTimestamp s) = str_ok s"
| "value_ok (VTimestampTz s) = str_ok s"
| "value_ok (VUuid s) = str_ok s"
| "value_ok (VJson s) = str_ok s"
| "value_ok (VJsonb s) = str_ok s"
| "value_ok (VBytea bs) = (length bs < 2 ^ 32)"
| "value_ok (VArray vs) = (length vs < 2 ^ 32 \<and> (\<forall>v \<in> set vs. value_ok v))"
| "value_ok _ = True"

text \<open>Does a value have the shape a column type stores?\<close>

definition mysql_int_has_type :: "my_sql_int_kind \<Rightarrow> bool \<Rightarrow> column_value \<Rightarrow> bool" where
  "mysql_int_has_type kind uns v =
     (case kind of
        Tiny \<Rightarrow> (if uns then is_VInt32 v else is_VInt16 v)
      | Small \<Rightarrow> (if uns then is_VInt32 v else is_VInt16 v)
      | Medium \<Rightarrow> is_VInt32 v
      | IntKind \<Rightarrow> (if uns then is_VInt64 v else is_VInt32 v)
      | Big \<Rightarrow> (if uns then is_VNumeric v else is_VInt64 v))"

primrec has_shape :: "data_type \<Rightarrow> column_value \<Rightarrow> bool" where
  "has_shape TInt16 v = is_VInt16 v"
| "has_shape TInt32 v = is_VInt32 v"
| "has_shape TInt64 v = is_VInt64 v"
| "has_shape (TMySqlInt k u) v = mysql_int_has_type k u v"
| "has_shape TFloat32 v = is_VFloat32 v"
| "has_shape TFloat64 v = is_VFloat64 v"
| "has_shape (TMySqlFloat p) v = is_VFloat32 v"
| "has_shape (TMySqlDouble p) v = is_VFloat64 v"
| "has_shape (TNumeric p s) v = is_VNumeric v"
| "has_shape TText v = is_VText v"
| "has_shape (TMySqlText m n) v = is_VText v"
| "has_shape (TVarChar n) v = is_VText v"
| "has_shape (TChar n) v = is_VText v"
| "has_shape (TBinary n) v = is_VBytea v"
| "has_shape (TVarBinary n) v = is_VBytea v"
| "has_shape (TBlob m n) v = is_VBytea v"
| "has_shape TBoolean v = is_VBoolean v"
| "has_shape (TBit n) v = is_VInt64 v"
| "has_shape TYear v = is_VInt32 v"
| "has_shape TDate v = is_VDate v"
| "has_shape TTime v = is_VText v"
| "has_shape (TMySqlTime f) v = is_VText v"
| "has_shape TTimeTz v = is_VText v"
| "has_shape TInterval v = is_VText v"
| "has_shape TTimestamp v = is_VTimestamp v"
| "has_shape (TMySqlDateTime f) v = is_VTimestamp v"
| "has_shape (TMySqlTimestamp f) v = is_VTimestamp v"
| "has_shape TTimestampTz v = is_VTimestampTz v"
| "has_shape TUuid v = is_VUuid v"
| "has_shape TBytea v = is_VBytea v"
| "has_shape TJson v = is_VJson v"
| "has_shape TJsonb v = is_VJsonb v"
| "has_shape (TArray dt) v =
     (case v of VArray xs \<Rightarrow> (\<forall>x \<in> set xs. x = VNull \<or> has_shape dt x) | _ \<Rightarrow> False)"
| "has_shape (TDomain n) v = is_VText v"
| "has_shape (TEnum vs) v = is_VText v"
| "has_shape (TSet vs) v = is_VText v"
| "has_shape (TGeometry n) v = is_VText v"

definition has_type :: "data_type \<Rightarrow> column_value \<Rightarrow> bool" where
  "has_type dt v = (v = VNull \<or> has_shape dt v)"

lemma has_type_Null [simp]: "has_type dt VNull"
  by (simp add: has_type_def)

lemma has_type_Array [simp]:
  "has_type (TArray dt) (VArray xs) = (\<forall>x \<in> set xs. has_type dt x)"
  by (auto simp: has_type_def)

end
