(* ===== verification/Value_Text.thy ===== *)
theory Value_Text
  imports Rust_Str Value_Types
begin

text \<open>
  The text form of cell values and back: \<open>ColumnValue::to_text\<close>
  (\<open>types/column_value.rs\<close>), the parsers and range checks of
  \<open>sql/values/scalar_parsers.rs\<close> and \<open>sql/values/mysql.rs\<close>, and \<open>parse_text_for_type\<close>
  (\<open>sql/values/text_parse.rs\<close>). The conversions between decimal text and binary floating
  point, the JSON parser of the external \<open>serde_json\<close> and the derived debug rendering are
  parameters, collected in \<open>text_env\<close>.
\<close>

record text_env =
  show_f32 :: "u32 \<Rightarrow> string"
  show_f64 :: "u64 \<Rightarrow> string"
  read_f32 :: "string \<Rightarrow> u32 option"
  read_f64 :: "string \<Rightarrow> u64 option"
  json_error :: "string \<Rightarrow> string option"
  debug_value :: "column_value \<Rightarrow> string"

section \<open>Printing\<close>

definition hex_digit :: "nat \<Rightarrow> char" where
  "hex_digit n = ''0123456789abcdef'' ! n"

definition hex_encode :: "bytes \<Rightarrow> string" where
  "hex_encode bs = concat (map (\<lambda>b. [hex_digit (unat b div 16), hex_digit (unat b mod 16)]) bs)"

definition array_text_quoted :: "string \<Rightarrow> bool" where
  "array_text_quoted v =
     (v = [] \<or> CHR '','' \<in> set v \<or> CHR ''{'' \<in> set v \<or> CHR ''}'' \<in> set v \<or> CHR 0x22 \<in> set v
      \<or> CHR 0x5C \<in> set v \<or> has_whitespace v)"

definition escape_array_text :: "string \<Rightarrow> string" where
  "escape_array_text v =
     (if array_text_quoted v
      then [CHR 0x22] @ replace_char (CHR 0x22) [CHR 0x5C, CHR 0x22]
                          (replace_char (CHR 0x5C) [CHR 0x5C, CHR 0x5C] v) @ [CHR 0x22]
      else v)"

definition show_bool :: "bool \<Rightarrow> string" where
  "show_bool b = (if b then ''true'' else ''false'')"

fun to_text :: "text_env \<Rightarrow> column_value \<Rightarrow> string option" where
  "to_text env VNull = None"
| "to_text env (VInt16 v) = Some (show_int (sint v))"
| "to_text env (VInt32 v) = Some (show_int (sint v))"
| "to_text env (VInt64 v) = Some (show_int (sint v))"
| "to_text env (VFloat32 v) = Some (show_f32 env v)"
| "to_text env (VFloat64 v) = Some (show_f64 env v)"
| "to_text env (VNumeric v) = Some v"
| "to_text env (VText v) = Some v"
| "to_text env (VBoolean v) = Some (show_bool v)"
| "to_text env (VDate v) = Some v"
| "to_text env (VTimestamp v) = Some v"
| "to_text env (VTimestampTz v) = Some v"
| "to_text env (VUuid v) = Some v"
| "to_text env (VBytea v) = Some ([CHR 0x5C, CHR ''x''] @ hex_encode v)"
| "to_text env (VJson v) = Some v"
| "to_text env (VJsonb v) = Some v"
| "to_text env (VArray vs) =
     Some (''{'' @ join '','' (map (\<lambda>v. case to_text env v of
                                       Some t \<Rightarrow> escape_array_text t | None \<Rightarrow> ''NULL'') vs) @ ''}'')"

section \<open>Scalars\<close>

definition parse_int16_text :: "string \<Rightarrow> column_value res" where
  "parse_int16_text raw =
     ok_or (map_option (\<lambda>k. VInt16 (word_of_int k)) (parse_signed 16 raw))
       (user_error ''22P02'' (''invalid input for INT2: '' @ [CHR 0x27] @ raw @ [CHR 0x27]))"

definition parse_int32_text :: "string \<Rightarrow> column_value res" where
  "parse_int32_text raw =
     ok_or (map_option (\<lambda>k. VInt32 (word_of_int k)) (parse_signed 32 raw))
       (user_error ''22P02'' (''invalid input for INT4: '' @ [CHR 0x27] @ raw @ [CHR 0x27]))"

definition parse_int64_text :: "string \<Rightarrow> column_value res" where
  "parse_int64_text raw =
     ok_or (map_option (\<lambda>k. VInt64 (word_of_int k)) (parse_signed 64 raw))
       (user_error ''22P02'' (''invalid input for INT8: '' @ [CHR 0x27] @ raw @ [CHR 0x27]))"

definition parse_float32_text :: "text_env \<Rightarrow> string \<Rightarrow> column_value res" where
  "parse_float32_text env raw =
     ok_or (map_option VFloat32 (read_f32 env raw))
       (user_error ''22P02'' (''invalid input for FLOAT4: '' @ [CHR 0x27] @ raw @ [CHR 0x27]))"

definition parse_float64_text :: "text_env \<Rightarrow> string \<Rightarrow> column_value res" where
  "parse_float64_text env raw =
     ok_or (map_option VFloat64 (read_f64 env raw))
       (user_error ''22P02'' (''invalid input for FLOAT8: '' @ [CHR 0x27] @ raw @ [CHR 0x27]))"

definition parse_bool_text :: "string \<Rightarrow> column_value res" where
  "parse_bool_text raw =
     (if raw \<in> set [''t'', ''T'', ''true'', ''TRUE'', ''True'', ''1'', ''yes'', ''YES'', ''Yes'', ''on'',
                    ''ON'', ''On''] then Inr (VBoolean True)
      else if raw \<in> set [''f'', ''F'', ''false'', ''FALSE'', ''False'', ''0'', ''no'', ''NO'', ''No'', ''off'',
                    ''OFF'', ''Off''] then Inr (VBoolean False)
      else if to_ascii_lowercase raw \<in> set [''true'', ''yes'', ''on''] then Inr (VBoolean True)
      else if to_ascii_lowercase raw \<in> set [''false'', ''no'', ''off''] then Inr (VBoolean False)
      else Inl (user_error ''22P02'' (''invalid input for BOOL: '' @ [CHR 0x27] @ raw @ [CHR 0x27])))"

definition validate_decimal_precision :: "string \<Rightarrow> nat option \<Rightarrow> nat option \<Rightarrow> unit res" where
  "validate_decimal_precision v precision scale =
     (let trimmed = trim_start_matches [CHR ''+'', CHR ''-''] v;
          parts = split_char (CHR ''.'') trimmed;
          int_part = (case parts of p # _ \<Rightarrow> p | [] \<Rightarrow> []);
          frac = (case parts of _ # p # _ \<Rightarrow> p | _ \<Rightarrow> []);
          digit_count = length (filter is_digit int_part) + length (filter is_digit frac)
      in if \<exists>sc \<in> set_option scale. sc < length frac
           then Inl (user_error ''22003'' (''numeric scale exceeds DECIMAL scale ''
                  @ show_nat (the scale) @ '': '' @ [CHR 0x27] @ v @ [CHR 0x27]))
         else if \<exists>p \<in> set_option precision. p < digit_count
           then Inl (user_error ''22003'' (''numeric precision exceeds DECIMAL precision ''
                  @ show_nat (the precision) @ '': '' @ [CHR 0x27] @ v @ [CHR 0x27]))
         else Inr ())"

definition coerce_decimal_text :: "text_env \<Rightarrow> string \<Rightarrow> data_type \<Rightarrow> column_value res" where
  "coerce_decimal_text env v dt =
     (case read_f64 env v of
        None \<Rightarrow> Inl (user_error ''22P02'' (''invalid input for NUMERIC: '' @ [CHR 0x27] @ v @ [CHR 0x27]))
      | Some _ \<Rightarrow>
          (case dt of
             TNumeric precision scale \<Rightarrow>
               res_bind (validate_decimal_precision v precision scale) (\<lambda>_. Inr (VNumeric v))
           | _ \<Rightarrow> Inr (VNumeric v)))"

section \<open>Lengths\<close>

definition coerce_varchar :: "string \<Rightarrow> nat option \<Rightarrow> column_value res" where
  "coerce_varchar v limit =
     (case limit of
        Some n \<Rightarrow> if n < chars_count v
                  then Inl (user_error ''22001'' (''value too long for type character varying('' @ show_nat n @ '')''))
                  else Inr (VText v)
      | None \<Rightarrow> Inr (VText v))"

definition coerce_char :: "string \<Rightarrow> nat option \<Rightarrow> column_value res" where
  "coerce_char v limit =
     (case limit of
        None \<Rightarrow> Inr (VText v)
      | Some n \<Rightarrow>
          if n < chars_count v
          then Inl (user_error ''22001'' (''value too long for type character('' @ show_nat n @ '')''))
          else Inr (VText (v @ replicate (n - chars_count v) (CHR '' ''))))"

definition coerce_binary :: "bytes \<Rightarrow> nat option \<Rightarrow> column_value res" where
  "coerce_binary v limit =
     (let n = (case limit of Some n \<Rightarrow> n | None \<Rightarrow> 1) in
      if n < length v
      then Inl (user_error ''22001'' (''value too long for type binary('' @ show_nat n @ '')''))
      else Inr (VBytea (v @ replicate (n - length v) 0)))"

definition coerce_varbinary :: "bytes \<Rightarrow> nat option \<Rightarrow> column_value res" where
  "coerce_varbinary v limit =
     (case limit of
        Some n \<Rightarrow> if n < length v
                  then Inl (user_error ''22001'' (''value too long for type varbinary('' @ show_nat n @ '')''))
                  else Inr (VBytea v)
      | None \<Rightarrow> Inr (VBytea v))"

definition coerce_blob :: "bytes \<Rightarrow> nat option \<Rightarrow> string \<Rightarrow> column_value res" where
  "coerce_blob v max_len type_name =
     (case max_len of
        Some n \<Rightarrow> if n < length v then Inl (user_error ''22001'' (''value too long for type '' @ type_name))
                  else Inr (VBytea v)
      | None \<Rightarrow> Inr (VBytea v))"

definition coerce_mysql_text :: "string \<Rightarrow> nat option \<Rightarrow> string \<Rightarrow> column_value res" where
  "coerce_mysql_text v max_len type_name =
     (case max_len of
        Some n \<Rightarrow> if n < length v then Inl (user_error ''22001'' (''value too long for type '' @ type_name))
                  else Inr (VText v)
      | None \<Rightarrow> Inr (VText v))"

section \<open>Dates and times\<close>

definition is_leap_year :: "int \<Rightarrow> bool" where
  "is_leap_year year = ((year mod 4 = 0 \<and> year mod 100 \<noteq> 0) \<or> year mod 400 = 0)"

definition max_day :: "int \<Rightarrow> nat \<Rightarrow> nat" where
  "max_day year month =
     (if month \<in> {1, 3, 5, 7, 8, 10, 12} then 31
      else if month \<in> {4, 6, 9, 11} then 30
      else if month = 2 then (if is_leap_year year then 29 else 28)
      else 0)"

definition date_error :: "string \<Rightarrow> pg_error" where
  "date_error raw = user_error ''22007'' (''invalid DATE value '' @ [CHR 0x27] @ raw @ [CHR 0x27])"

definition date_shape :: "string \<Rightarrow> bool" where
  "date_shape raw =
     (length raw = 10 \<and> raw ! 4 = CHR ''-'' \<and> raw ! 7 = CHR ''-''
      \<and> list_all (\<lambda>i. i = 4 \<or> i = 7 \<or> is_digit (raw ! i)) [0..<10])"

definition validate_date :: "string \<Rightarrow> unit res" where
  "validate_date raw =
     (if \<not> date_shape raw then Inl (date_error raw)
      else
        res_bind (ok_or (parse_signed 32 (slice raw 0 4)) (date_error raw)) (\<lambda>year.
        res_bind (ok_or (parse_unsigned 32 (slice raw 5 7)) (date_error raw)) (\<lambda>month.
        res_bind (ok_or (parse_unsigned 32 (slice raw 8 10)) (date_error raw)) (\<lambda>day.
          if year = 0 \<or> \<not> (1 \<le> month \<and> month \<le> 12) then Inl (date_error raw)
          else if day = 0 \<or> max_day year month < day then Inl (date_error raw)
          else Inr ()))))"

definition validate_timestamp :: "string \<Rightarrow> unit res" where
  "validate_timestamp raw =
     (if 10 \<le> length raw then res_bind (str_slice raw 0 10) validate_date
      else Inl (user_error ''22007'' (''invalid TIMESTAMP value '' @ [CHR 0x27] @ raw @ [CHR 0x27])))"

text \<open>\<open>split([c, d, e]).next()\<close>: up to the first of the characters.\<close>

definition validate_time :: "string \<Rightarrow> bool \<Rightarrow> unit res" where
  "validate_time raw allow_tz =
     (let err = Inl (user_error ''22007'' (''invalid TIME value '' @ [CHR 0x27] @ raw @ [CHR 0x27]));
          time = (case split_whitespace raw of t # _ \<Rightarrow> t | [] \<Rightarrow> raw);
          parts = split_char (CHR '':'') time
      in if length parts < 2 \<or> 3 < length parts then err
         else
           let second_part = (if 2 < length parts then parts ! 2 else ''0'');
               second_digits = takeWhile (\<lambda>c. c \<notin> set ''.+-Z'') second_part
           in if (\<exists>h \<in> set_option (parse_unsigned 32 (parts ! 0)). h < 24)
                 \<and> (\<exists>m \<in> set_option (parse_unsigned 32 (parts ! 1)). m < 60)
                 \<and> (\<exists>s \<in> set_option (parse_unsigned 32 second_digits). s < 60)
                 \<and> (allow_tz \<or> CHR ''+'' \<notin> set raw \<and> \<not> ends_with raw ''Z'')
              then Inr () else err)"

definition validate_interval :: "string \<Rightarrow> unit res" where
  "validate_interval raw =
     (if trim raw = [] then Inl (user_error ''22007'' ''invalid INTERVAL value'') else Inr ())"

definition is_hexdigit :: "char \<Rightarrow> bool" where
  "is_hexdigit c =
     (is_digit c \<or> CHR ''a'' \<le> c \<and> c \<le> CHR ''f'' \<or> CHR ''A'' \<le> c \<and> c \<le> CHR ''F'')"

definition validate_uuid :: "string \<Rightarrow> unit res" where
  "validate_uuid raw =
     (if length raw = 36 \<and> list_all (\<lambda>i. raw ! i = CHR ''-'') [8, 13, 18, 23]
         \<and> list_all (\<lambda>i. i \<in> set [8, 13, 18, 23] \<or> is_hexdigit (raw ! i)) [0..<36]
      then Inr ()
      else Inl (user_error ''22P02'' (''invalid UUID value '' @ [CHR 0x27] @ raw @ [CHR 0x27])))"

definition validate_json :: "text_env \<Rightarrow> string \<Rightarrow> unit res" where
  "validate_json env raw =
     (case json_error env raw of
        None \<Rightarrow> Inr ()
      | Some e \<Rightarrow> Inl (user_error ''22P02'' (''invalid JSON value: '' @ e)))"

section \<open>Byte strings\<close>

definition hex_value :: "char \<Rightarrow> nat option" where
  "hex_value c =
     (if is_digit c then Some (of_char c - 48)
      else if CHR ''a'' \<le> c \<and> c \<le> CHR ''f'' then Some (of_char c - 87)
      else if CHR ''A'' \<le> c \<and> c \<le> CHR ''F'' then Some (of_char c - 55)
      else None)"

text \<open>\<open>u8::from_str_radix(s, 16)\<close> on two characters, the first of which may be a plus sign.\<close>

definition u8_from_hex :: "string \<Rightarrow> byte option" where
  "u8_from_hex s =
     (case s of
        [a, b] \<Rightarrow>
          if a = CHR ''+'' then map_option word_of_nat (hex_value b)
          else Option.bind (hex_value a) (\<lambda>x. map_option (\<lambda>y. word_of_nat (16 * x + y)) (hex_value b))
      | _ \<Rightarrow> None)"

definition parse_bytea :: "string \<Rightarrow> bytes res" where
  "parse_bytea raw =
     (case (case strip_prefix [CHR 0x5C, CHR ''x''] raw of
              Some h \<Rightarrow> Some h | None \<Rightarrow> strip_prefix [CHR 0x5C, CHR ''X''] raw) of
        None \<Rightarrow> Inr (as_bytes raw)
      | Some hex \<Rightarrow>
          let err = user_error ''22P02'' (''invalid BYTEA hex value '' @ [CHR 0x27] @ raw @ [CHR 0x27]) in
          if odd (length hex) then Inl err
          else collect_res
                 (\<lambda>i. res_bind (str_slice hex (2 * i) (2 * i + 2)) (\<lambda>s. ok_or (u8_from_hex s) err))
                 [0..<length hex div 2])"

section \<open>Arrays\<close>

datatype array_item = NullItem | ValueItem string

definition array_item_from_text :: "string \<Rightarrow> bool \<Rightarrow> array_item" where
  "array_item_from_text v quoted =
     (if quoted then ValueItem v
      else let v' = trim v in
        if eq_ignore_ascii_case v' ''NULL'' then NullItem else ValueItem v')"

record array_state =
  as_items :: "array_item list"
  as_current :: string
  as_in_quotes :: bool
  as_quoted :: bool
  as_escaped :: bool
  as_depth :: nat

definition array_error :: "string \<Rightarrow> pg_error" where
  "array_error raw = user_error ''22P02'' (''invalid ARRAY value '' @ [CHR 0x27] @ raw @ [CHR 0x27])"

definition array_push :: "char \<Rightarrow> array_state \<Rightarrow> array_state" where
  "array_push ch st = st\<lparr>as_current := as_current st @ [ch]\<rparr>"

definition array_step :: "string \<Rightarrow> char \<Rightarrow> array_state \<Rightarrow> array_state res" where
  "array_step raw ch st =
     (if as_escaped st then Inr ((array_push ch st)\<lparr>as_escaped := False\<rparr>)
      else if ch = CHR 0x5C then Inr (st\<lparr>as_escaped := True\<rparr>)
      else if ch = CHR 0x22 then Inr (st\<lparr>as_in_quotes := \<not> as_in_quotes st, as_quoted := True\<rparr>)
      else if \<not> as_in_quotes st \<and> ch = CHR ''{'' then
        Inr ((array_push ch st)\<lparr>as_depth := as_depth st + 1\<rparr>)
      else if \<not> as_in_quotes st \<and> ch = CHR ''}'' then
        (if as_depth st = 0 then Inl (array_error raw)
         else Inr ((array_push ch st)\<lparr>as_depth := as_depth st - 1\<rparr>))
      else if \<not> as_in_quotes st \<and> ch = CHR '','' \<and> as_depth st = 0 then
        Inr (st\<lparr>as_items := as_items st @ [array_item_from_text (as_current st) (as_quoted st)],
                as_current := [], as_quoted := False\<rparr>)
      else Inr (array_push ch st))"

fun array_loop :: "string \<Rightarrow> string \<Rightarrow> array_state \<Rightarrow> array_state res" where
  "array_loop raw [] st = Inr st"
| "array_loop raw (ch # rest) st = res_bind (array_step raw ch st) (array_loop raw rest)"

definition parse_array_items :: "string \<Rightarrow> string \<Rightarrow> array_item list res" where
  "parse_array_items body raw =
     res_bind (array_loop raw body
       \<lparr>as_items = [], as_current = [], as_in_quotes = False, as_quoted = False,
        as_escaped = False, as_depth = 0\<rparr>) (\<lambda>st.
       if as_escaped st \<or> as_in_quotes st \<or> as_depth st \<noteq> 0 then Inl (array_error raw)
       else Inr (as_items st @ [array_item_from_text (as_current st) (as_quoted st)]))"

definition parse_array_text :: "(string \<Rightarrow> column_value res) \<Rightarrow> string \<Rightarrow> column_value res" where
  "parse_array_text inner raw =
     (case Option.bind (strip_prefix ''{'' raw) (strip_suffix ''}'') of
        None \<Rightarrow> Inl (array_error raw)
      | Some body \<Rightarrow>
          if body = [] then Inr (VArray [])
          else
            res_bind (parse_array_items body raw) (\<lambda>items.
            res_bind (collect_res (\<lambda>item. case item of NullItem \<Rightarrow> Inr VNull | ValueItem v \<Rightarrow> inner v) items)
              (\<lambda>vs. Inr (VArray vs))))"

end
