(* ===== verification/Ieee.thy ===== *)
theory Ieee
  imports Prelude
begin

text \<open>
  IEEE 754 binary32 and binary64 as Rust uses them, on their bit patterns: classification,
  \<open>partial_cmp\<close> and \<open>==\<close>, the conversions \<open>as f64\<close> and \<open>as f32\<close> of the source, and
  the addition and division the aggregates perform. A finite value is
  \<open>(-1)^s * m * 2^e\<close>; rounding is to nearest, ties to even. A NaN result is the quiet NaN.
\<close>

section \<open>Formats\<close>

text \<open>A format has \<open>p\<close> fraction bits and \<open>w\<close> exponent bits; its fields are read from
  the pattern taken as a number: binary32 is \<open>23, 8\<close> and binary64 is \<open>52, 11\<close>.\<close>

definition fp_neg :: "nat \<Rightarrow> nat \<Rightarrow> nat \<Rightarrow> bool" where
  "fp_neg p w b = odd (b div 2 ^ (p + w))"

definition fp_exp :: "nat \<Rightarrow> nat \<Rightarrow> nat \<Rightarrow> nat" where
  "fp_exp p w b = b div 2 ^ p mod 2 ^ w"

definition fp_frac :: "nat \<Rightarrow> nat \<Rightarrow> nat" where
  "fp_frac p b = b mod 2 ^ p"

definition fp_bias :: "nat \<Rightarrow> int" where
  "fp_bias w = 2 ^ (w - 1) - 1"

definition fp_is_nan :: "nat \<Rightarrow> nat \<Rightarrow> nat \<Rightarrow> bool" where
  "fp_is_nan p w b = (fp_exp p w b = 2 ^ w - 1 \<and> fp_frac p b \<noteq> 0)"

definition fp_is_inf :: "nat \<Rightarrow> nat \<Rightarrow> nat \<Rightarrow> bool" where
  "fp_is_inf p w b = (fp_exp p w b = 2 ^ w - 1 \<and> fp_frac p b = 0)"

definition fp_inf :: "nat \<Rightarrow> nat \<Rightarrow> bool \<Rightarrow> nat" where
  "fp_inf p w neg = (if neg then 2 ^ (p + w) else 0) + (2 ^ w - 1) * 2 ^ p"

definition fp_qnan :: "nat \<Rightarrow> nat \<Rightarrow> nat" where
  "fp_qnan p w = (2 ^ w - 1) * 2 ^ p + 2 ^ (p - 1)"

text \<open>Significand and exponent of a finite value: it is \<open>m * 2^e\<close> in magnitude.\<close>

definition fp_mant :: "nat \<Rightarrow> nat \<Rightarrow> nat \<Rightarrow> nat" where
  "fp_mant p w b = (if fp_exp p w b = 0 then fp_frac p b else 2 ^ p + fp_frac p b)"

definition fp_scale :: "nat \<Rightarrow> nat \<Rightarrow> nat \<Rightarrow> int" where
  "fp_scale p w b = (if fp_exp p w b = 0 then 1 else int (fp_exp p w b)) - fp_bias w - int p"

section \<open>Comparison\<close>

text \<open>The magnitude bits of two patterns compare as their values do, so the order is that of
  the signed magnitudes; the two zeros are equal and a NaN compares with nothing.\<close>

definition fp_key :: "nat \<Rightarrow> nat \<Rightarrow> nat \<Rightarrow> int" where
  "fp_key p w b = (let m = int (b mod 2 ^ (p + w)) in if fp_neg p w b then - m else m)"

datatype ordering = Less | Equal | Greater

definition cmp :: "'a::linorder \<Rightarrow> 'a \<Rightarrow> ordering" where
  "cmp a b = (if a < b then Less else if a = b then Equal else Greater)"

definition fp_partial_cmp :: "nat \<Rightarrow> nat \<Rightarrow> nat \<Rightarrow> nat \<Rightarrow> ordering option" where
  "fp_partial_cmp p w a b =
     (if fp_is_nan p w a \<or> fp_is_nan p w b then None else Some (cmp (fp_key p w a) (fp_key p w b)))"

definition f32_partial_cmp :: "u32 \<Rightarrow> u32 \<Rightarrow> ordering option" where
  "f32_partial_cmp a b = fp_partial_cmp 23 8 (unat a) (unat b)"

definition f64_partial_cmp :: "u64 \<Rightarrow> u64 \<Rightarrow> ordering option" where
  "f64_partial_cmp a b = fp_partial_cmp 52 11 (unat a) (unat b)"

definition f32_eq :: "u32 \<Rightarrow> u32 \<Rightarrow> bool" where
  "f32_eq a b = (f32_partial_cmp a b = Some Equal)"

definition f64_eq :: "u64 \<Rightarrow> u64 \<Rightarrow> bool" where
  "f64_eq a b = (f64_partial_cmp a b = Some Equal)"

section \<open>Rounding\<close>

fun bit_len :: "nat \<Rightarrow> nat" where
  "bit_len n = (if n = 0 then 0 else Suc (bit_len (n div 2)))"

declare bit_len.simps [simp del]

text \<open>\<open>m / 2^k\<close> rounded to nearest, ties to even.\<close>

definition round_half_even :: "nat \<Rightarrow> nat \<Rightarrow> nat" where
  "round_half_even m k =
     (let q = m div 2 ^ k; r = m mod 2 ^ k
      in if 2 * r > 2 ^ k \<or> 2 * r = 2 ^ k \<and> odd q then q + 1 else q)"

text \<open>The pattern of \<open>m * 2^e\<close>, \<open>m > 0\<close>: keep \<open>p + 1\<close> significant bits, fewer below the
  smallest normal number, and go to infinity past the largest.\<close>

definition fp_round :: "nat \<Rightarrow> nat \<Rightarrow> bool \<Rightarrow> nat \<Rightarrow> int \<Rightarrow> nat" where
  "fp_round p w neg m e =
     (let q = max (e + int (bit_len m) - int (p + 1)) (1 - fp_bias w - int p);
          m' = (if e \<ge> q then m * 2 ^ nat (e - q) else round_half_even m (nat (q - e)));
          mag = (if m' < 2 ^ p then m'
                 else nat (q + int p + fp_bias w) * 2 ^ p + (m' - 2 ^ p))
      in if mag \<ge> (2 ^ w - 1) * 2 ^ p then fp_inf p w neg
         else (if neg then 2 ^ (p + w) else 0) + mag)"

definition fp_zero :: "nat \<Rightarrow> nat \<Rightarrow> bool \<Rightarrow> nat" where
  "fp_zero p w neg = (if neg then 2 ^ (p + w) else 0)"

definition fp_of_int :: "nat \<Rightarrow> nat \<Rightarrow> int \<Rightarrow> nat" where
  "fp_of_int p w k = (if k = 0 then 0 else fp_round p w (k < 0) (nat \<bar>k\<bar>) 0)"

section \<open>Conversions and arithmetic\<close>

text \<open>\<open>x as f32\<close> and \<open>x as f64\<close> of a signed integer.\<close>

definition int_as_f32 :: "int \<Rightarrow> u32" where
  "int_as_f32 k = word_of_nat (fp_of_int 23 8 k)"

definition int_as_f64 :: "int \<Rightarrow> u64" where
  "int_as_f64 k = word_of_nat (fp_of_int 52 11 k)"

definition f32_as_f64 :: "u32 \<Rightarrow> u64" where
  "f32_as_f64 x =
     (let b = unat x; neg = fp_neg 23 8 b
      in word_of_nat
          (if fp_is_nan 23 8 b then fp_zero 52 11 neg
             + (fp_qnan 52 11 - 2 ^ 51) + 2 ^ 51 * (if fp_frac 23 b < 2 ^ 22 then 1 else 0)
             + fp_frac 23 b * 2 ^ 29
           else if fp_is_inf 23 8 b then fp_inf 52 11 neg
           else if fp_mant 23 8 b = 0 then fp_zero 52 11 neg
           else fp_round 52 11 neg (fp_mant 23 8 b) (fp_scale 23 8 b)))"

text \<open>\<open>x as f32\<close> of a binary64: rounded, a NaN keeps its top fraction bits and becomes quiet.\<close>

definition f64_as_f32 :: "u64 \<Rightarrow> u32" where
  "f64_as_f32 x =
     (let b = unat x; neg = fp_neg 52 11 b
      in word_of_nat
          (if fp_is_nan 52 11 b then fp_zero 23 8 neg
             + (fp_qnan 23 8 - 2 ^ 22) + 2 ^ 22 * (if fp_frac 52 b < 2 ^ 51 then 1 else 0)
             + fp_frac 52 b div 2 ^ 29
           else if fp_is_inf 52 11 b then fp_inf 23 8 neg
           else if fp_mant 52 11 b = 0 then fp_zero 23 8 neg
           else fp_round 23 8 neg (fp_mant 52 11 b) (fp_scale 52 11 b)))"

text \<open>\<open>x as i<n>\<close>: towards zero, saturating, and zero for a NaN.\<close>

definition fp_trunc :: "nat \<Rightarrow> nat \<Rightarrow> nat \<Rightarrow> nat \<Rightarrow> int" where
  "fp_trunc p w n b =
     (let lo = - (2 ^ (n - 1)); hi = 2 ^ (n - 1) - 1;
          mag = (if 0 \<le> fp_scale p w b then int (fp_mant p w b) * 2 ^ nat (fp_scale p w b)
                 else int (fp_mant p w b) div 2 ^ nat (- fp_scale p w b))
      in if fp_is_nan p w b then 0
         else if fp_is_inf p w b then (if fp_neg p w b then lo else hi)
         else max lo (min hi (if fp_neg p w b then - mag else mag)))"

definition f32_as_int :: "nat \<Rightarrow> u32 \<Rightarrow> int" where
  "f32_as_int n x = fp_trunc 23 8 n (unat x)"

definition f64_as_int :: "nat \<Rightarrow> u64 \<Rightarrow> int" where
  "f64_as_int n x = fp_trunc 52 11 n (unat x)"

definition fp_add :: "nat \<Rightarrow> nat \<Rightarrow> nat \<Rightarrow> nat \<Rightarrow> nat" where
  "fp_add p w a b =
     (if fp_is_nan p w a \<or> fp_is_nan p w b then fp_qnan p w
      else if fp_is_inf p w a then
        (if fp_is_inf p w b \<and> fp_neg p w a \<noteq> fp_neg p w b then fp_qnan p w else a)
      else if fp_is_inf p w b then b
      else
        let e = min (fp_scale p w a) (fp_scale p w b);
            sig = (\<lambda>x. let k = int (fp_mant p w x * 2 ^ nat (fp_scale p w x - e))
                      in if fp_neg p w x then - k else k);
            s = sig a + sig b
        in if s = 0 then fp_zero p w (fp_neg p w a \<and> fp_neg p w b)
           else fp_round p w (s < 0) (nat \<bar>s\<bar>) e)"

definition fp_div :: "nat \<Rightarrow> nat \<Rightarrow> nat \<Rightarrow> nat \<Rightarrow> nat" where
  "fp_div p w a b =
     (let neg = (fp_neg p w a \<noteq> fp_neg p w b)
      in if fp_is_nan p w a \<or> fp_is_nan p w b then fp_qnan p w
         else if fp_is_inf p w a then (if fp_is_inf p w b then fp_qnan p w else fp_inf p w neg)
         else if fp_is_inf p w b then fp_zero p w neg
         else if fp_mant p w b = 0 then
           (if fp_mant p w a = 0 then fp_qnan p w else fp_inf p w neg)
         else if fp_mant p w a = 0 then fp_zero p w neg
         else
           let k = p + 3 + bit_len (fp_mant p w b);
               n = fp_mant p w a * 2 ^ k;
               q = n div fp_mant p w b;
               sticky = (if n mod fp_mant p w b = 0 then 0 else 1)
           in fp_round p w neg (2 * q + sticky)
                (fp_scale p w a - fp_scale p w b - int k - 1))"

definition f64_add :: "u64 \<Rightarrow> u64 \<Rightarrow> u64" where
  "f64_add a b = word_of_nat (fp_add 52 11 (unat a) (unat b))"

definition f64_div :: "u64 \<Rightarrow> u64 \<Rightarrow> u64" where
  "f64_div a b = word_of_nat (fp_div 52 11 (unat a) (unat b))"

end
