(* ===== verification/Value_Coerce.thy ===== *)
theory Value_Coerce
  imports Value_Text Ieee
begin

text \<open>
  MySQL's value rules (\<open>sql/values/mysql.rs\<close>), the parser of a text for a column type
  (\<open>sql/values/text_parse.rs\<close>) and the coercion of a value to a column type
  (\<open>sql/values/coercion.rs\<close>). Every value the coercion accepts has the shape the storage
  layer expects of the column, which is what the row codec's round trip asks for.
\<close>

section \<open>MySQL integers, bits and years\<close>

definition mysql_integer_range :: "my_sql_int_kind \<Rightarrow> bool \<Rightarrow> int \<times> int \<times> string" where
  "mysql_integer_range kind uns =
     (case (kind, uns) of
        (Tiny, False) \<Rightarrow> (- 128, 127, ''TINYINT'')
      | (Tiny, True) \<Rightarrow> (0, 255, ''TINYINT UNSIGNED'')
      | (Small, False) \<Rightarrow> (- 32768, 32767, ''SMALLINT'')
      | (Small, True) \<Rightarrow> (0, 65535, ''SMALLINT UNSIGNED'')
      | (Medium, False) \<Rightarrow> (- 8388608, 8388607, ''MEDIUMINT'')
      | (Medium, True) \<Rightarrow> (0, 16777215, ''MEDIUMINT UNSIGNED'')
      | (IntKind, False) \<Rightarrow> (- 2147483648, 2147483647, ''INT'')
      | (IntKind, True) \<Rightarrow> (0, 4294967295, ''INT UNSIGNED'')
      | (Big, False) \<Rightarrow> (- 9223372036854775808, 9223372036854775807, ''BIGINT'')
      | (Big, True) \<Rightarrow> (0, 18446744073709551615, ''BIGINT UNSIGNED''))"

definition mysql_integer_from_i128 :: "int \<Rightarrow> my_sql_int_kind \<Rightarrow> bool \<Rightarrow> column_value res" where
  "mysql_integer_from_i128 value kind uns =
     (let (lo, hi, type_name) = mysql_integer_range kind uns in
      if value < lo \<or> hi < value
      then Inl (user_error ''22003'' (''value '' @ [CHR 0x27] @ show_int value @ [CHR 0x27]
                                      @ '' out of range for '' @ type_name))
      else Inr (case (kind, uns) of
                  (Tiny, False) \<Rightarrow> VInt16 (word_of_int value)
                | (Small, False) \<Rightarrow> VInt16 (word_of_int value)
                | (Tiny, True) \<Rightarrow> VInt32 (word_of_int value)
                | (Small, True) \<Rightarrow> VInt32 (word_of_int value)
                | (Medium, _) \<Rightarrow> VInt32 (word_of_int value)
                | (IntKind, False) \<Rightarrow> VInt32 (word_of_int value)
                | (IntKind, True) \<Rightarrow> VInt64 (word_of_int value)
                | (Big, False) \<Rightarrow> VInt64 (word_of_int value)
                | (Big, True) \<Rightarrow> VNumeric (show_int value)))"

definition parse_mysql_integer :: "string \<Rightarrow> my_sql_int_kind \<Rightarrow> bool \<Rightarrow> column_value res" where
  "parse_mysql_integer raw kind uns =
     res_bind (ok_or (parse_signed 128 raw)
       (user_error ''22P02'' (''invalid integer value '' @ [CHR 0x27] @ raw @ [CHR 0x27])))
       (\<lambda>value. mysql_integer_from_i128 value kind uns)"

definition coerce_mysql_integer ::
    "text_env \<Rightarrow> column_value \<Rightarrow> my_sql_int_kind \<Rightarrow> bool \<Rightarrow> column_value res" where
  "coerce_mysql_integer env value kind uns =
     (case value of
        VInt16 v \<Rightarrow> mysql_integer_from_i128 (sint v) kind uns
      | VInt32 v \<Rightarrow> mysql_integer_from_i128 (sint v) kind uns
      | VInt64 v \<Rightarrow> mysql_integer_from_i128 (sint v) kind uns
      | VFloat32 v \<Rightarrow> mysql_integer_from_i128 (f32_as_int 128 v) kind uns
      | VFloat64 v \<Rightarrow> mysql_integer_from_i128 (f64_as_int 128 v) kind uns
      | VNumeric v \<Rightarrow> parse_mysql_integer v kind uns
      | VText v \<Rightarrow> parse_mysql_integer v kind uns
      | VBoolean v \<Rightarrow> mysql_integer_from_i128 (if v then 1 else 0) kind uns
      | _ \<Rightarrow> Inl (unsupported (''cannot coerce '' @ debug_value env value @ '' to MySQL integer'')))"

text \<open>\<open>u64::from_str_radix(bits, 2)\<close> on digits 0 and 1, at most 64 of them.\<close>

fun bits_nat :: "string \<Rightarrow> nat" where
  "bits_nat [] = 0"
| "bits_nat (c # cs) = (if c = CHR ''1'' then 2 ^ length cs else 0) + bits_nat cs"

definition parse_bit_value :: "string \<Rightarrow> nat option \<Rightarrow> column_value res" where
  "parse_bit_value raw limit =
     (let max_bits = min (case limit of Some n \<Rightarrow> n | None \<Rightarrow> 1) 64;
          err = user_error ''22003'' (''invalid BIT value '' @ [CHR 0x27] @ raw @ [CHR 0x27])
      in res_bind
          (case Option.bind (strip_prefix [CHR ''b'', CHR 0x27] raw) (strip_suffix [CHR 0x27]) of
             Some bits \<Rightarrow>
               if max_bits < length bits \<or> \<not> list_all (\<lambda>c. c = CHR ''0'' \<or> c = CHR ''1'') bits
                  \<or> bits = []
               then Inl err else Inr (bits_nat bits)
           | None \<Rightarrow>
               res_bind (ok_or (parse_unsigned 64 raw) err) (\<lambda>value.
                 if 2 ^ max_bits - 1 < value
                 then Inl (user_error ''22003'' (''value '' @ [CHR 0x27] @ raw @ [CHR 0x27]
                             @ '' out of range for BIT('' @ show_nat max_bits @ '')''))
                 else Inr value))
          (\<lambda>value.
             if 2 ^ 63 - 1 < value
             then Inl (user_error ''22003'' ''BIT(64) values above signed BIGINT are not supported yet'')
             else Inr (VInt64 (word_of_nat value))))"

definition parse_year_value :: "string \<Rightarrow> column_value res" where
  "parse_year_value raw =
     res_bind (ok_or (parse_signed 32 raw)
       (user_error ''22007'' (''invalid YEAR value '' @ [CHR 0x27] @ raw @ [CHR 0x27]))) (\<lambda>year.
       let normalized = (if 0 \<le> year \<and> year \<le> 69 then 2000 + year
                         else if 70 \<le> year \<and> year \<le> 99 then 1900 + year else year)
       in if normalized = 0 \<or> 1901 \<le> normalized \<and> normalized \<le> 2155
          then Inr (VInt32 (word_of_int normalized))
          else Inl (user_error ''22007'' (''YEAR value '' @ [CHR 0x27] @ raw @ [CHR 0x27] @ '' out of range'')))"

section \<open>Enumerations and sets\<close>

definition coerce_enum :: "string \<Rightarrow> string list \<Rightarrow> column_value res" where
  "coerce_enum value allowed =
     (if value \<in> set allowed then Inr (VText value)
      else Inl (user_error ''22007'' (''invalid ENUM value '' @ [CHR 0x27] @ value @ [CHR 0x27])))"

text \<open>The loop over the items, with the items seen so far.\<close>

fun set_items_ok :: "string list \<Rightarrow> string list \<Rightarrow> string list \<Rightarrow> bool" where
  "set_items_ok allowed seen [] = True"
| "set_items_ok allowed seen (item # items) =
     (if item \<notin> set allowed \<or> item \<in> set seen then False
      else set_items_ok allowed (item # seen) items)"

definition coerce_set :: "string \<Rightarrow> string list \<Rightarrow> column_value res" where
  "coerce_set value allowed =
     (if value = [] then Inr (VText value)
      else if set_items_ok allowed [] (split_char (CHR '','') value) then Inr (VText value)
      else Inl (user_error ''22007'' (''invalid SET value '' @ [CHR 0x27] @ value @ [CHR 0x27])))"

section \<open>Temporal values\<close>

definition coerce_mysql_temporal_fraction :: "string \<Rightarrow> string \<Rightarrow> nat option \<Rightarrow> string res" where
  "coerce_mysql_temporal_fraction value type_name fsp0 =
     (let fsp = (case fsp0 of Some n \<Rightarrow> n | None \<Rightarrow> 0) in
      if 6 < fsp
      then Inl (user_error ''22007'' (type_name @ '' fractional seconds precision must be between 0 and 6''))
      else
        (case split_once (CHR ''.'') value of
           Some (pre, frac) \<Rightarrow>
             if fsp < length (takeWhile is_digit frac)
             then Inl (user_error ''22007'' (type_name @ '' value exceeds fractional seconds precision ''
                                             @ show_nat fsp))
             else if fsp = 0 then Inr pre else Inr value
         | None \<Rightarrow> Inr value))"

definition validate_mysql_temporal_date :: "string \<Rightarrow> string \<Rightarrow> unit res" where
  "validate_mysql_temporal_date value type_name =
     (case str_slice value 0 10 of
        Inl _ \<Rightarrow> Inl (user_error ''22007'' (''invalid '' @ type_name @ '' value '' @ [CHR 0x27] @ value @ [CHR 0x27]))
      | Inr date \<Rightarrow>
          if date = ''0000-00-00''
          then Inl (user_error ''22007'' (''zero date is not accepted for '' @ type_name))
          else validate_date date)"

definition coerce_mysql_temporal :: "string \<Rightarrow> string \<Rightarrow> nat option \<Rightarrow> string res" where
  "coerce_mysql_temporal value type_name fsp =
     res_bind (validate_timestamp value) (\<lambda>_.
     res_bind (validate_mysql_temporal_date value type_name) (\<lambda>_.
       coerce_mysql_temporal_fraction value type_name fsp))"

section \<open>Text for a column type\<close>

definition map_res :: "('a \<Rightarrow> 'b) \<Rightarrow> 'a res \<Rightarrow> 'b res" where
  "map_res f r = res_bind r (\<lambda>x. Inr (f x))"

fun parse_text_for_type :: "text_env \<Rightarrow> data_type \<Rightarrow> string \<Rightarrow> column_value res" where
  "parse_text_for_type env (TMySqlInt kind uns) raw = parse_mysql_integer raw kind uns"
| "parse_text_for_type env TInt16 raw = parse_int16_text raw"
| "parse_text_for_type env TInt32 raw = parse_int32_text raw"
| "parse_text_for_type env TInt64 raw = parse_int64_text raw"
| "parse_text_for_type env TFloat32 raw = parse_float32_text env raw"
| "parse_text_for_type env (TMySqlFloat _) raw = parse_float32_text env raw"
| "parse_text_for_type env TFloat64 raw = parse_float64_text env raw"
| "parse_text_for_type env (TMySqlDouble _) raw = parse_float64_text env raw"
| "parse_text_for_type env (TNumeric p s) raw = coerce_decimal_text env raw (TNumeric p s)"
| "parse_text_for_type env TBoolean raw = parse_bool_text raw"
| "parse_text_for_type env TDate raw = res_bind (validate_date raw) (\<lambda>_. Inr (VDate raw))"
| "parse_text_for_type env TTimestamp raw = res_bind (validate_timestamp raw) (\<lambda>_. Inr (VTimestamp raw))"
| "parse_text_for_type env (TMySqlDateTime fsp) raw =
     map_res VTimestamp (coerce_mysql_temporal raw ''DATETIME'' fsp)"
| "parse_text_for_type env (TMySqlTimestamp fsp) raw =
     map_res VTimestamp (coerce_mysql_temporal raw ''TIMESTAMP'' fsp)"
| "parse_text_for_type env TTimestampTz raw =
     res_bind (validate_timestamp raw) (\<lambda>_. Inr (VTimestampTz raw))"
| "parse_text_for_type env TTime raw = res_bind (validate_time raw False) (\<lambda>_. Inr (VText raw))"
| "parse_text_for_type env (TMySqlTime fsp) raw =
     res_bind (validate_time raw False) (\<lambda>_.
       map_res VText (coerce_mysql_temporal_fraction raw ''TIME'' fsp))"
| "parse_text_for_type env TTimeTz raw = res_bind (validate_time raw True) (\<lambda>_. Inr (VText raw))"
| "parse_text_for_type env TInterval raw = res_bind (validate_interval raw) (\<lambda>_. Inr (VText raw))"
| "parse_text_for_type env TUuid raw =
     res_bind (validate_uuid raw) (\<lambda>_. Inr (VUuid (to_ascii_lowercase raw)))"
| "parse_text_for_type env TBytea raw = map_res VBytea (parse_bytea raw)"
| "parse_text_for_type env (TBinary limit) raw =
     res_bind (parse_bytea raw) (\<lambda>v. coerce_binary v limit)"
| "parse_text_for_type env (TVarBinary limit) raw =
     res_bind (parse_bytea raw) (\<lambda>v. coerce_varbinary v limit)"
| "parse_text_for_type env (TBlob max_len type_name) raw =
     res_bind (parse_bytea raw) (\<lambda>v. coerce_blob v max_len type_name)"
| "parse_text_for_type env (TBit limit) raw = parse_bit_value raw limit"
| "parse_text_for_type env TYear raw = parse_year_value raw"
| "parse_text_for_type env TJson raw = res_bind (validate_json env raw) (\<lambda>_. Inr (VJson raw))"
| "parse_text_for_type env TJsonb raw = res_bind (validate_json env raw) (\<lambda>_. Inr (VJsonb raw))"
| "parse_text_for_type env (TArray inner) raw = parse_array_text (parse_text_for_type env inner) raw"
| "parse_text_for_type env (TVarChar limit) raw = coerce_varchar raw limit"
| "parse_text_for_type env (TChar limit) raw = coerce_char raw limit"
| "parse_text_for_type env (TEnum values) raw = coerce_enum raw values"
| "parse_text_for_type env (TSet values) raw = coerce_set raw values"
| "parse_text_for_type env (TGeometry _) raw = Inr (VText raw)"
| "parse_text_for_type env TText raw = Inr (VText raw)"
| "parse_text_for_type env (TDomain _) raw = Inr (VText raw)"
| "parse_text_for_type env (TMySqlText max_len type_name) raw = coerce_mysql_text raw max_len type_name"

section \<open>Coercion\<close>

text \<open>The types a number or boolean is stored in as its text, and those a temporal value or a UUID is.\<close>

fun text_target :: "data_type \<Rightarrow> bool" where
  "text_target TText = True"
| "text_target (TMySqlText _ _) = True"
| "text_target (TVarChar _) = True"
| "text_target (TChar _) = True"
| "text_target (TEnum _) = True"
| "text_target (TSet _) = True"
| "text_target (TGeometry _) = True"
| "text_target _ = False"

fun plain_text_target :: "data_type \<Rightarrow> bool" where
  "plain_text_target TText = True"
| "plain_text_target (TVarChar _) = True"
| "plain_text_target (TChar _) = True"
| "plain_text_target (TGeometry _) = True"
| "plain_text_target _ = False"

definition out_of_range :: "string \<Rightarrow> string \<Rightarrow> pg_error" where
  "out_of_range v type_name =
     user_error ''22003'' (''value '' @ [CHR 0x27] @ v @ [CHR 0x27] @ '' out of range for '' @ type_name)"

text \<open>\<open>i16::try_from(v)\<close> and \<open>i32::try_from(v)\<close>.\<close>

definition try_int16 :: "int \<Rightarrow> column_value res" where
  "try_int16 v = (if - (2 ^ 15) \<le> v \<and> v < 2 ^ 15 then Inr (VInt16 (word_of_int v))
                  else Inl (out_of_range (show_int v) ''INT2''))"

definition try_int32 :: "int \<Rightarrow> column_value res" where
  "try_int32 v = (if - (2 ^ 31) \<le> v \<and> v < 2 ^ 31 then Inr (VInt32 (word_of_int v))
                  else Inl (out_of_range (show_int v) ''INT4''))"

text \<open>The last two arms of the match: a domain takes the text of any value, nothing else fits.\<close>

definition coerce_rest :: "text_env \<Rightarrow> column_value \<Rightarrow> data_type \<Rightarrow> column_value res" where
  "coerce_rest env value dt =
     (case dt of
        TDomain _ \<Rightarrow>
          ok_or (map_option VText (to_text env value))
            (unsupported ''domain values cannot be NULL here'')
      | _ \<Rightarrow> Inl (unsupported (''unsupported cast/coercion for value '' @ debug_value env value)))"

definition coerce_int16 :: "text_env \<Rightarrow> i16 \<Rightarrow> data_type \<Rightarrow> column_value res" where
  "coerce_int16 env v dt =
     (case dt of
        TInt16 \<Rightarrow> Inr (VInt16 v)
      | TInt32 \<Rightarrow> Inr (VInt32 (scast v))
      | TInt64 \<Rightarrow> Inr (VInt64 (scast v))
      | TFloat32 \<Rightarrow> Inr (VFloat32 (int_as_f32 (sint v)))
      | TFloat64 \<Rightarrow> Inr (VFloat64 (int_as_f64 (sint v)))
      | TNumeric _ _ \<Rightarrow> coerce_decimal_text env (show_int (sint v)) dt
      | _ \<Rightarrow> if text_target dt then Inr (VText (show_int (sint v))) else coerce_rest env (VInt16 v) dt)"

definition coerce_int32 :: "text_env \<Rightarrow> i32 \<Rightarrow> data_type \<Rightarrow> column_value res" where
  "coerce_int32 env v dt =
     (case dt of
        TInt32 \<Rightarrow> Inr (VInt32 v)
      | TInt16 \<Rightarrow> try_int16 (sint v)
      | TInt64 \<Rightarrow> Inr (VInt64 (scast v))
      | TFloat32 \<Rightarrow> Inr (VFloat32 (int_as_f32 (sint v)))
      | TFloat64 \<Rightarrow> Inr (VFloat64 (int_as_f64 (sint v)))
      | TNumeric _ _ \<Rightarrow> coerce_decimal_text env (show_int (sint v)) dt
      | _ \<Rightarrow> if text_target dt then Inr (VText (show_int (sint v))) else coerce_rest env (VInt32 v) dt)"

definition coerce_int64 :: "text_env \<Rightarrow> i64 \<Rightarrow> data_type \<Rightarrow> column_value res" where
  "coerce_int64 env v dt =
     (case dt of
        TInt64 \<Rightarrow> Inr (VInt64 v)
      | TInt16 \<Rightarrow> try_int16 (sint v)
      | TInt32 \<Rightarrow> try_int32 (sint v)
      | TFloat32 \<Rightarrow> Inr (VFloat32 (int_as_f32 (sint v)))
      | TFloat64 \<Rightarrow> Inr (VFloat64 (int_as_f64 (sint v)))
      | TNumeric _ _ \<Rightarrow> coerce_decimal_text env (show_int (sint v)) dt
      | _ \<Rightarrow> if text_target dt then Inr (VText (show_int (sint v))) else coerce_rest env (VInt64 v) dt)"

text \<open>\<open>v < i16::MIN as f32 || v > i16::MAX as f32\<close>: false for a NaN.\<close>

definition f32_outside :: "u32 \<Rightarrow> int \<Rightarrow> int \<Rightarrow> bool" where
  "f32_outside v lo hi =
     (f32_partial_cmp v (int_as_f32 lo) = Some Less \<or> f32_partial_cmp v (int_as_f32 hi) = Some Greater)"

definition f64_outside :: "u64 \<Rightarrow> int \<Rightarrow> int \<Rightarrow> bool" where
  "f64_outside v lo hi =
     (f64_partial_cmp v (int_as_f64 lo) = Some Less \<or> f64_partial_cmp v (int_as_f64 hi) = Some Greater)"

definition coerce_float32 :: "text_env \<Rightarrow> u32 \<Rightarrow> data_type \<Rightarrow> column_value res" where
  "coerce_float32 env v dt =
     (case dt of
        TFloat32 \<Rightarrow> Inr (VFloat32 v)
      | TMySqlFloat _ \<Rightarrow> Inr (VFloat32 v)
      | TInt16 \<Rightarrow> if f32_outside v (- 32768) 32767 then Inl (out_of_range (show_f32 env v) ''INT2'')
                  else Inr (VInt16 (word_of_int (f32_as_int 16 v)))
      | TInt32 \<Rightarrow> if f32_outside v (- 2147483648) 2147483647 then Inl (out_of_range (show_f32 env v) ''INT4'')
                  else Inr (VInt32 (word_of_int (f32_as_int 32 v)))
      | TInt64 \<Rightarrow> Inr (VInt64 (word_of_int (f32_as_int 64 v)))
      | TFloat64 \<Rightarrow> Inr (VFloat64 (f32_as_f64 v))
      | TNumeric _ _ \<Rightarrow> coerce_decimal_text env (show_f32 env v) dt
      | _ \<Rightarrow> if text_target dt then Inr (VText (show_f32 env v)) else coerce_rest env (VFloat32 v) dt)"

definition coerce_float64 :: "text_env \<Rightarrow> u64 \<Rightarrow> data_type \<Rightarrow> column_value res" where
  "coerce_float64 env v dt =
     (case dt of
        TFloat64 \<Rightarrow> Inr (VFloat64 v)
      | TMySqlDouble _ \<Rightarrow> Inr (VFloat64 v)
      | TInt16 \<Rightarrow> if f64_outside v (- 32768) 32767 then Inl (out_of_range (show_f64 env v) ''INT2'')
                  else Inr (VInt16 (word_of_int (f64_as_int 16 v)))
      | TInt32 \<Rightarrow> if f64_outside v (- 2147483648) 2147483647 then Inl (out_of_range (show_f64 env v) ''INT4'')
                  else Inr (VInt32 (word_of_int (f64_as_int 32 v)))
      | TInt64 \<Rightarrow> Inr (VInt64 (word_of_int (f64_as_int 64 v)))
      | TFloat32 \<Rightarrow> Inr (VFloat32 (f64_as_f32 v))
      | TMySqlFloat _ \<Rightarrow> Inr (VFloat32 (f64_as_f32 v))
      | TNumeric _ _ \<Rightarrow> coerce_decimal_text env (show_f64 env v) dt
      | _ \<Rightarrow> if text_target dt then Inr (VText (show_f64 env v)) else coerce_rest env (VFloat64 v) dt)"

definition float_input_error :: "string \<Rightarrow> string \<Rightarrow> pg_error" where
  "float_input_error type_name v =
     user_error ''22P02'' (''invalid input for '' @ type_name @ '': '' @ [CHR 0x27] @ v @ [CHR 0x27])"

definition coerce_numeric :: "text_env \<Rightarrow> string \<Rightarrow> data_type \<Rightarrow> column_value res" where
  "coerce_numeric env v dt =
     (case dt of
        TNumeric _ _ \<Rightarrow> coerce_decimal_text env v dt
      | TFloat64 \<Rightarrow> ok_or (map_option VFloat64 (read_f64 env v)) (float_input_error ''FLOAT8'' v)
      | TMySqlDouble _ \<Rightarrow> ok_or (map_option VFloat64 (read_f64 env v)) (float_input_error ''DOUBLE'' v)
      | TFloat32 \<Rightarrow> ok_or (map_option VFloat32 (read_f32 env v)) (float_input_error ''FLOAT4'' v)
      | TMySqlFloat _ \<Rightarrow> ok_or (map_option VFloat32 (read_f32 env v)) (float_input_error ''FLOAT4'' v)
      | _ \<Rightarrow> if text_target dt then Inr (VText v) else coerce_rest env (VNumeric v) dt)"

text \<open>The arms for text spell out what \<open>parse_text_for_type\<close> does for the same type.\<close>

definition coerce_text :: "text_env \<Rightarrow> string \<Rightarrow> data_type \<Rightarrow> column_value res" where
  "coerce_text env v dt =
     (case dt of
        TText \<Rightarrow> Inr (VText v)
      | TMySqlText max_len type_name \<Rightarrow> coerce_mysql_text v max_len type_name
      | TVarChar limit \<Rightarrow> coerce_varchar v limit
      | TChar limit \<Rightarrow> coerce_char v limit
      | TBinary limit \<Rightarrow> res_bind (parse_bytea v) (\<lambda>b. coerce_binary b limit)
      | TVarBinary limit \<Rightarrow> res_bind (parse_bytea v) (\<lambda>b. coerce_varbinary b limit)
      | TBlob max_len type_name \<Rightarrow> res_bind (parse_bytea v) (\<lambda>b. coerce_blob b max_len type_name)
      | TBit limit \<Rightarrow> parse_bit_value v limit
      | TYear \<Rightarrow> parse_year_value v
      | TEnum values \<Rightarrow> coerce_enum v values
      | TSet values \<Rightarrow> coerce_set v values
      | TInt16 \<Rightarrow> parse_int16_text v
      | TInt32 \<Rightarrow> parse_int32_text v
      | TInt64 \<Rightarrow> parse_int64_text v
      | TBoolean \<Rightarrow> parse_bool_text v
      | other \<Rightarrow> parse_text_for_type env other v)"

text \<open>The arms for everything but NULL and arrays of an array type.\<close>

definition coerce_scalar :: "text_env \<Rightarrow> column_value \<Rightarrow> data_type \<Rightarrow> column_value res" where
  "coerce_scalar env value dt =
     (case dt of
        TMySqlInt kind uns \<Rightarrow> coerce_mysql_integer env value kind uns
      | _ \<Rightarrow>
        (case value of
           VInt16 v \<Rightarrow> coerce_int16 env v dt
         | VInt32 v \<Rightarrow> coerce_int32 env v dt
         | VInt64 v \<Rightarrow> coerce_int64 env v dt
         | VFloat32 v \<Rightarrow> coerce_float32 env v dt
         | VFloat64 v \<Rightarrow> coerce_float64 env v dt
         | VNumeric v \<Rightarrow> coerce_numeric env v dt
         | VText v \<Rightarrow> coerce_text env v dt
         | VBoolean v \<Rightarrow>
             (if dt = TBoolean then Inr (VBoolean v)
              else if text_target dt then Inr (VText (show_bool v)) else coerce_rest env value dt)
         | VDate v \<Rightarrow>
             (if dt = TDate then Inr (VDate v)
              else if plain_text_target dt then Inr (VText v) else coerce_rest env value dt)
         | VTimestamp v \<Rightarrow>
             (case dt of
                TTimestamp \<Rightarrow> Inr (VTimestamp v)
              | TMySqlDateTime fsp \<Rightarrow> map_res VTimestamp (coerce_mysql_temporal v ''DATETIME'' fsp)
              | TMySqlTimestamp fsp \<Rightarrow> map_res VTimestamp (coerce_mysql_temporal v ''TIMESTAMP'' fsp)
              | _ \<Rightarrow> if plain_text_target dt then Inr (VText v) else coerce_rest env value dt)
         | VTimestampTz v \<Rightarrow>
             (if dt = TTimestampTz then Inr (VTimestampTz v)
              else if plain_text_target dt then Inr (VText v) else coerce_rest env value dt)
         | VUuid v \<Rightarrow>
             (if dt = TUuid then Inr (VUuid v)
              else if plain_text_target dt then Inr (VText v) else coerce_rest env value dt)
         | VBytea v \<Rightarrow>
             (case dt of
                TBytea \<Rightarrow> Inr (VBytea v)
              | TBinary limit \<Rightarrow> coerce_binary v limit
              | TVarBinary limit \<Rightarrow> coerce_varbinary v limit
              | TBlob max_len type_name \<Rightarrow> coerce_blob v max_len type_name
              | _ \<Rightarrow> coerce_rest env value dt)
         | VJson v \<Rightarrow>
             (if dt = TJson then Inr (VJson v) else if dt = TJsonb then Inr (VJsonb v)
              else coerce_rest env value dt)
         | VJsonb v \<Rightarrow>
             (if dt = TJsonb then Inr (VJsonb v) else if dt = TJson then Inr (VJson v)
              else coerce_rest env value dt)
         | _ \<Rightarrow> coerce_rest env value dt))"

fun coerce_column_value :: "text_env \<Rightarrow> column_value \<Rightarrow> data_type \<Rightarrow> column_value res" where
  "coerce_column_value env VNull dt = Inr VNull"
| "coerce_column_value env (VArray vs) dt =
     (case dt of
        TArray inner \<Rightarrow> map_res VArray (collect_res (\<lambda>v. coerce_column_value env v inner) vs)
      | _ \<Rightarrow> coerce_scalar env (VArray vs) dt)"
| "coerce_column_value env value dt = coerce_scalar env value dt"

section \<open>Accepted values have the column's shape\<close>

lemma map_res_eq_Inr [res_simps]: "(map_res f r = Inr y) = (\<exists>x. r = Inr x \<and> y = f x)"
  by (cases r) (auto simp: map_res_def)

text \<open>What each parser and length check returns when it accepts.\<close>

lemma scalar_parsers_shape:
  "parse_int16_text raw = Inr v \<Longrightarrow> is_VInt16 v"
  "parse_int32_text raw = Inr v \<Longrightarrow> is_VInt32 v"
  "parse_int64_text raw = Inr v \<Longrightarrow> is_VInt64 v"
  "parse_float32_text env raw = Inr v \<Longrightarrow> is_VFloat32 v"
  "parse_float64_text env raw = Inr v \<Longrightarrow> is_VFloat64 v"
  by (auto simp: parse_int16_text_def parse_int32_text_def parse_int64_text_def
      parse_float32_text_def parse_float64_text_def res_simps)

lemma parse_bool_text_shape: "parse_bool_text raw = Inr v \<Longrightarrow> is_VBoolean v"
  by (auto simp only: parse_bool_text_def sum.inject sum.distinct column_value.disc split: if_splits)

lemma coerce_decimal_text_shape: "coerce_decimal_text env raw dt = Inr v \<Longrightarrow> is_VNumeric v"
  by (cases dt) (auto simp: coerce_decimal_text_def res_simps split: option.splits)

lemma length_checks_shape:
  "coerce_varchar s n = Inr v \<Longrightarrow> is_VText v"
  "coerce_char s n = Inr v \<Longrightarrow> is_VText v"
  "coerce_binary b n = Inr v \<Longrightarrow> is_VBytea v"
  "coerce_varbinary b n = Inr v \<Longrightarrow> is_VBytea v"
  "coerce_blob b n t = Inr v \<Longrightarrow> is_VBytea v"
  "coerce_mysql_text s n t = Inr v \<Longrightarrow> is_VText v"
  by (auto simp: coerce_varchar_def coerce_char_def coerce_binary_def coerce_varbinary_def
      coerce_blob_def coerce_mysql_text_def Let_def split: option.splits if_splits)

lemma mysql_values_shape:
  "coerce_enum s vs = Inr v \<Longrightarrow> is_VText v"
  "coerce_set s vs = Inr v \<Longrightarrow> is_VText v"
  "parse_bit_value raw n = Inr v \<Longrightarrow> is_VInt64 v"
  "parse_year_value raw = Inr v \<Longrightarrow> is_VInt32 v"
  by (auto simp: coerce_enum_def coerce_set_def parse_bit_value_def parse_year_value_def Let_def
      res_simps split: if_splits)

lemma mysql_integer_shape: "mysql_integer_from_i128 k kind u = Inr v \<Longrightarrow> mysql_int_has_type kind u v"
  by (cases kind; cases u)
    (auto simp: mysql_integer_from_i128_def mysql_integer_range_def mysql_int_has_type_def
      split: if_splits)

lemma parse_mysql_integer_shape: "parse_mysql_integer raw kind u = Inr v \<Longrightarrow> mysql_int_has_type kind u v"
  by (auto simp: parse_mysql_integer_def res_simps mysql_integer_shape)

lemma coerce_mysql_integer_shape:
  "coerce_mysql_integer env x kind u = Inr v \<Longrightarrow> mysql_int_has_type kind u v"
  by (auto simp: coerce_mysql_integer_def mysql_integer_shape parse_mysql_integer_shape
      split: column_value.splits)

lemmas shapes =
  scalar_parsers_shape parse_bool_text_shape coerce_decimal_text_shape length_checks_shape mysql_values_shape mysql_integer_shape
  parse_mysql_integer_shape coerce_mysql_integer_shape

lemma parse_array_text_has_type:
  assumes "parse_array_text inner raw = Inr v" "\<And>s w. inner s = Inr w \<Longrightarrow> has_type dt w"
  shows "has_type (TArray dt) v"
proof -
  have "has_type (TArray dt) (VArray vs)"
    if "collect_res (\<lambda>item. case item of NullItem \<Rightarrow> Inr VNull | ValueItem x \<Rightarrow> inner x) items = Inr vs"
    for items vs
    using that assms(2)
    by (auto simp: collect_res_eq_Inr list_all2_conv_all_nth in_set_conv_nth
        split: array_item.splits) (metis array_item.exhaust array_item.simps(5,6) has_type_Null sum.inject(2))
  with assms(1) show ?thesis
    by (auto simp: parse_array_text_def res_simps split: option.splits if_splits)
qed

lemma parse_text_has_type: "parse_text_for_type env dt raw = Inr v \<Longrightarrow> has_type dt v"
proof (induction dt arbitrary: raw v)
  case (TArray dt)
  then show ?case using parse_array_text_has_type by (metis parse_text_for_type.simps(29))
qed (auto simp: has_type_def res_simps dest: shapes)

lemma coerce_rest_has_type: "coerce_rest env x dt = Inr v \<Longrightarrow> has_type dt v"
  by (auto simp: coerce_rest_def has_type_def res_simps split: data_type.splits)

lemma text_targets_shape: "text_target dt \<Longrightarrow> has_type dt (VText s)"
  "plain_text_target dt \<Longrightarrow> has_type dt (VText s)"
  by (cases dt; simp add: has_type_def)+

lemma try_ints_shape: "try_int16 k = Inr v \<Longrightarrow> is_VInt16 v" "try_int32 k = Inr v \<Longrightarrow> is_VInt32 v"
  by (auto simp: try_int16_def try_int32_def split: if_splits)

lemma coerce_text_has_type: "coerce_text env s dt = Inr v \<Longrightarrow> has_type dt v"
proof -
  have "coerce_text env s dt = parse_text_for_type env dt s" by (cases dt) (simp_all add: coerce_text_def)
  then show "coerce_text env s dt = Inr v \<Longrightarrow> has_type dt v" using parse_text_has_type by simp
qed

lemma coerce_numbers_has_type:
  "coerce_int16 env i dt = Inr v \<Longrightarrow> has_type dt v"
  "coerce_int32 env j dt = Inr v \<Longrightarrow> has_type dt v"
  "coerce_int64 env k dt = Inr v \<Longrightarrow> has_type dt v"
  "coerce_float32 env f dt = Inr v \<Longrightarrow> has_type dt v"
  "coerce_float64 env g dt = Inr v \<Longrightarrow> has_type dt v"
  "coerce_numeric env s dt = Inr v \<Longrightarrow> has_type dt v"
  by (cases dt; force simp: coerce_int16_def coerce_int32_def coerce_int64_def coerce_float32_def
      coerce_float64_def coerce_numeric_def coerce_rest_def has_type_def res_simps
      dest: shapes try_ints_shape split: if_splits)+

lemma coerce_others_has_type:
  "coerce_scalar env (VBoolean b) dt = Inr v \<Longrightarrow> has_type dt v"
  "coerce_scalar env (VDate s) dt = Inr v \<Longrightarrow> has_type dt v"
  "coerce_scalar env (VTimestamp s) dt = Inr v \<Longrightarrow> has_type dt v"
  "coerce_scalar env (VTimestampTz s) dt = Inr v \<Longrightarrow> has_type dt v"
  "coerce_scalar env (VUuid s) dt = Inr v \<Longrightarrow> has_type dt v"
  "coerce_scalar env (VBytea bs) dt = Inr v \<Longrightarrow> has_type dt v"
  "coerce_scalar env (VJson s) dt = Inr v \<Longrightarrow> has_type dt v"
  "coerce_scalar env (VJsonb s) dt = Inr v \<Longrightarrow> has_type dt v"
  "coerce_scalar env (VArray vs) dt = Inr v \<Longrightarrow> has_type dt v"
  "coerce_scalar env VNull dt = Inr v \<Longrightarrow> has_type dt v"
  by (cases dt; force simp: coerce_scalar_def coerce_rest_def has_type_def res_simps dest: shapes)+

lemma coerce_values_has_type:
  "coerce_scalar env (VInt16 i) dt = Inr v \<Longrightarrow> has_type dt v"
  "coerce_scalar env (VInt32 j) dt = Inr v \<Longrightarrow> has_type dt v"
  "coerce_scalar env (VInt64 k) dt = Inr v \<Longrightarrow> has_type dt v"
  "coerce_scalar env (VFloat32 f) dt = Inr v \<Longrightarrow> has_type dt v"
  "coerce_scalar env (VFloat64 g) dt = Inr v \<Longrightarrow> has_type dt v"
  "coerce_scalar env (VNumeric s) dt = Inr v \<Longrightarrow> has_type dt v"
  "coerce_scalar env (VText s) dt = Inr v \<Longrightarrow> has_type dt v"
  by (cases dt; force simp: coerce_scalar_def has_type_def dest: coerce_mysql_integer_shape
      coerce_numbers_has_type coerce_text_has_type)+

lemma coerce_scalar_has_type: "coerce_scalar env x dt = Inr v \<Longrightarrow> has_type dt v"
  by (cases x) (auto dest: coerce_others_has_type coerce_values_has_type)

lemma coerce_column_value_has_type: "coerce_column_value env x dt = Inr v \<Longrightarrow> has_type dt v"
proof (induction x arbitrary: dt v)
  case (VArray xs)
  show ?case
  proof (cases "\<exists>inner. dt = TArray inner")
    case True
    then obtain inner where dt: "dt = TArray inner" by blast
    with VArray.prems obtain vs where vs: "v = VArray vs"
      "list_all2 (\<lambda>x y. coerce_column_value env x inner = Inr y) xs vs"
      by (auto simp: res_simps collect_res_eq_Inr)
    have "has_type inner y" if "y \<in> set vs" for y
      using that vs(2) VArray.IH by (fastforce simp: list_all2_conv_all_nth in_set_conv_nth)
    then show ?thesis using dt vs(1) by simp
  next
    case False
    with VArray.prems show ?thesis by (cases dt) (auto dest: coerce_scalar_has_type)
  qed
qed (auto dest: coerce_scalar_has_type)

section \<open>Text round trips\<close>

text \<open>Integers of a MySQL type: accepted exactly within the declared range, and the stored value
  is the number.\<close>

definition stored_int :: "column_value \<Rightarrow> int option" where
  "stored_int v =
     (case v of VInt16 i \<Rightarrow> Some (sint i) | VInt32 i \<Rightarrow> Some (sint i) | VInt64 i \<Rightarrow> Some (sint i)
      | VNumeric s \<Rightarrow> parse_signed 128 s | _ \<Rightarrow> None)"

lemma sint_word_of_int_id:
  assumes "- (2 ^ (LENGTH('a) - 1)) \<le> k" "k < 2 ^ (LENGTH('a) - 1)"
  shows "sint (word_of_int k :: 'a::len word) = k"
  using assms by (simp add: signed_of_int signed_take_bit_int_eq_self)

lemma mysql_integer_exact:
  "(\<exists>v. mysql_integer_from_i128 k kind u = Inr v \<and> stored_int v = Some k)
     = (fst (mysql_integer_range kind u) \<le> k \<and> k \<le> fst (snd (mysql_integer_range kind u)))"
  "(\<exists>e. mysql_integer_from_i128 k kind u = Inl e)
     = (\<not> (fst (mysql_integer_range kind u) \<le> k \<and> k \<le> fst (snd (mysql_integer_range kind u))))"
  by (cases kind; cases u; auto simp: mysql_integer_from_i128_def mysql_integer_range_def stored_int_def
      sint_word_of_int_id parse_signed_show_int)+

end
