(* ===== verification/Text_Roundtrip.thy ===== *)
theory Text_Roundtrip
  imports Value_Coerce
begin

text \<open>
  Printing a value with \<open>to_text\<close> and parsing the text for the value's type: byte strings,
  numbers, booleans and texts come back, and so do arrays of anything that comes back, to any
  depth, except for an element whose text is the unquoted word \<open>NULL\<close>.
\<close>

section \<open>Byte strings\<close>

lemma less_16_cases:
  "n < (16 :: nat) \<Longrightarrow> n \<in> {0, 1, 2, 3, 4, 5, 6, 7, 8, 9, 10, 11, 12, 13, 14, 15}"
  by (simp; presburger)

lemma hex_digit_facts:
  assumes "n < 16"
  shows "hex_value (hex_digit n) = Some n" "hex_digit n \<noteq> CHR ''+''" "\<not> is_cont_char (hex_digit n)"
  using less_16_cases [OF assms]
  by (auto simp: hex_digit_def hex_value_def is_digit_def is_cont_char_def less_eq_char_def)

lemma length_hex_encode [simp]: "length (hex_encode bs) = 2 * length bs"
  by (induction bs) (simp_all add: hex_encode_def)

lemma hex_encode_nth:
  "i < length bs \<Longrightarrow> hex_encode bs ! (2 * i) = hex_digit (unat (bs ! i) div 16)"
  "i < length bs \<Longrightarrow> hex_encode bs ! Suc (2 * i) = hex_digit (unat (bs ! i) mod 16)"
proof (induction bs arbitrary: i)
  case (Cons b bs)
  { case 1 with Cons show ?case by (cases i) (simp_all add: hex_encode_def) }
  { case 2 with Cons show ?case by (cases i) (simp_all add: hex_encode_def) }
qed simp_all

lemma slice_two: "a + 1 < length xs \<Longrightarrow> slice xs a (a + 2) = [xs ! a, xs ! (a + 1)]"
  by (simp add: slice_def numeral_2_eq_2 Cons_nth_drop_Suc [symmetric])

lemma hex_nibbles: "unat (b :: byte) div 16 < 16" "unat b mod 16 < 16"
proof -
  have "unat b < 16 * 16" using unsigned_less [of b] by simp
  then show "unat b div 16 < 16" "unat b mod 16 < 16" by (simp_all add: less_mult_imp_div_less)
qed

lemma hex_byte: "(16 :: byte) * word_of_nat (unat b div 16) + word_of_nat (unat b mod 16) = b"
proof -
  have "word_of_nat (16 * (unat b div 16) + unat b mod 16) = b" by simp
  then show ?thesis by (simp only: of_nat_add of_nat_mult) simp
qed

lemma hex_encode_boundary: "i \<le> length bs \<Longrightarrow> is_char_boundary (hex_encode bs) (2 * i)"
  by (cases "i = length bs")
    (simp_all add: is_char_boundary_def hex_encode_nth hex_digit_facts hex_nibbles)

lemma parse_bytea_hex: "parse_bytea ([CHR 0x5C, CHR ''x''] @ hex_encode bs) = Inr bs"
proof -
  let ?h = "hex_encode bs"
  let ?f = "\<lambda>err i. res_bind (str_slice ?h (2 * i) (2 * i + 2)) (\<lambda>s. ok_or (u8_from_hex s) err)"
  have "?f err i = Inr (bs ! i)" if "i < length bs" for err i
  proof -
    have "is_char_boundary ?h (2 * i)" "is_char_boundary ?h (2 * Suc i)"
      using that by (intro hex_encode_boundary; simp)+
    then have "str_slice ?h (2 * i) (2 * i + 2) = Inr [?h ! (2 * i), ?h ! (2 * i + 1)]"
      using that slice_two [of "2 * i" ?h] by (simp add: str_slice_def)
    then show ?thesis
      using that by (simp add: hex_encode_nth hex_digit_facts hex_nibbles u8_from_hex_def hex_byte)
  qed
  then have "collect_res (?f err) [0..<length bs] = Inr (map (\<lambda>i. bs ! i) [0..<length bs])" for err
    by (simp add: collect_res_eq_Inr list_all2_conv_all_nth)
  then show ?thesis
    by (simp add: parse_bytea_def strip_prefix_def map_nth)
qed

section \<open>Scalars\<close>

lemma parse_ints_show:
  "parse_int16_text (show_int (sint i)) = Inr (VInt16 i)"
  "parse_int32_text (show_int (sint j)) = Inr (VInt32 j)"
  "parse_int64_text (show_int (sint k)) = Inr (VInt64 k)"
  using sint_range_size [of i] sint_range_size [of j] sint_range_size [of k]
  by (simp_all add: parse_int16_text_def parse_int32_text_def parse_int64_text_def
      parse_signed_show_int word_size)

lemma parse_bool_show: "parse_bool_text (show_bool b) = Inr (VBoolean b)"
  by (cases b) (simp_all add: parse_bool_text_def show_bool_def)

section \<open>Arrays\<close>

abbreviation clean :: "array_item list \<Rightarrow> string \<Rightarrow> bool \<Rightarrow> array_state" where
  "clean items cur q \<equiv> \<lparr>as_items = items, as_current = cur, as_in_quotes = False, as_quoted = q,
     as_escaped = False, as_depth = 0\<rparr>"

abbreviation inside :: "array_item list \<Rightarrow> string \<Rightarrow> array_state" where
  "inside items cur \<equiv> \<lparr>as_items = items, as_current = cur, as_in_quotes = True, as_quoted = True,
     as_escaped = False, as_depth = 0\<rparr>"

lemma array_loop_append:
  "array_loop raw (xs @ ys) st = res_bind (array_loop raw xs st) (array_loop raw ys)"
proof (induction xs arbitrary: st)
  case (Cons x xs)
  then show ?case by (cases "array_step raw x st") simp_all
qed simp

text \<open>Both replacements at once: a quote or a backslash gets a backslash in front.\<close>

abbreviation escaped :: "string \<Rightarrow> string" where
  "escaped v \<equiv> replace_char (CHR 0x22) [CHR 0x5C, CHR 0x22] (replace_char (CHR 0x5C) [CHR 0x5C, CHR 0x5C] v)"

lemma escaped_Cons:
  "escaped (c # v) = (if c = CHR 0x22 \<or> c = CHR 0x5C then [CHR 0x5C, c] else [c]) @ escaped v"
  by (simp add: replace_char_def)

lemma array_loop_escaped:
  "array_loop raw (escaped v) (inside items cur) = Inr (inside items (cur @ v))"
proof (induction v arbitrary: cur)
  case Nil
  then show ?case by (simp add: replace_char_def)
next
  case (Cons c v)
  have "array_loop raw (if c = CHR 0x22 \<or> c = CHR 0x5C then [CHR 0x5C, c] else [c]) (inside items cur)
      = Inr (inside items (cur @ [c]))"
    by (simp add: array_step_def array_push_def)
  with Cons [of "cur @ [c]"] show ?case
    unfolding escaped_Cons array_loop_append by simp
qed

lemma array_loop_plain:
  assumes "\<forall>c \<in> set v. c \<notin> {CHR '','', CHR ''{'', CHR ''}'', CHR 0x22, CHR 0x5C}"
  shows "array_loop raw v (clean items cur q) = Inr (clean items (cur @ v) q)"
  using assms
  by (induction v arbitrary: cur) (simp_all add: array_step_def array_push_def)

lemma array_loop_item:
  "array_loop raw (escape_array_text v) (clean items [] False)
     = Inr (clean items v (array_text_quoted v))"
proof (cases "array_text_quoted v")
  case True
  have "array_loop raw [CHR 0x22] (clean items [] False) = Inr (inside items [])"
    "array_loop raw [CHR 0x22] (inside items v) = Inr (clean items v True)"
    by (simp_all add: array_step_def)
  with array_loop_escaped [of raw v items "[]"] True show ?thesis
    by (simp only: escape_array_text_def if_True array_loop_append res_bind.simps append_Nil)
next
  case False
  then have "\<forall>c \<in> set v. c \<notin> {CHR '','', CHR ''{'', CHR ''}'', CHR 0x22, CHR 0x5C}"
    by (auto simp: array_text_quoted_def)
  from array_loop_plain [OF this] False show ?thesis by (simp add: escape_array_text_def)
qed

text \<open>A text without whitespace is its own trimmed form.\<close>

lemma ws_len_none: "\<not> has_whitespace v \<Longrightarrow> ws_len v = 0"
proof -
  assume no: "\<not> has_whitespace v"
  have "\<not> starts_with v w" if "w \<in> set whitespace" for w
    using no that prefix_imp_sublist [of w v] by (auto simp: has_whitespace_def starts_with_iff prefix_def)
  then have "find (\<lambda>w. starts_with v w) whitespace = None" by (simp add: find_None_iff)
  then show ?thesis by (simp add: ws_len_def)
qed

lemma ws_suffix_len_none: "\<not> has_whitespace v \<Longrightarrow> ws_suffix_len v = 0"
proof -
  assume no: "\<not> has_whitespace v"
  have "\<not> starts_with (rev v) (rev w)" if "w \<in> set whitespace" for w
  proof
    assume "starts_with (rev v) (rev w)"
    then obtain ys where "rev v = rev w @ ys" by (auto simp: starts_with_iff)
    then have "v = rev ys @ w" by (metis rev_append rev_rev_ident)
    then have "sublist w v" by auto
    with no that show False by (auto simp: has_whitespace_def)
  qed
  then have "find (\<lambda>w. starts_with (rev v) (rev w)) whitespace = None" by (simp add: find_None_iff)
  then show ?thesis by (simp add: ws_suffix_len_def)
qed

lemma trim_none: "\<not> has_whitespace v \<Longrightarrow> trim v = v"
  by (simp add: trim_def trim_start.simps [of v] trim_end.simps [of v] ws_len_none ws_suffix_len_none)

lemma array_item_of_text:
  "\<not> eq_ignore_ascii_case v ''NULL'' \<Longrightarrow> array_item_from_text v (array_text_quoted v) = ValueItem v"
  by (cases "array_text_quoted v")
    (auto simp: array_item_from_text_def array_text_quoted_def trim_none Let_def)

text \<open>The printed element of an optional text and the item it is read as.\<close>

definition element_text :: "string option \<Rightarrow> string" where
  "element_text t = (case t of Some v \<Rightarrow> escape_array_text v | None \<Rightarrow> ''NULL'')"

definition element_item :: "string option \<Rightarrow> array_item" where
  "element_item t = (case t of Some v \<Rightarrow> ValueItem v | None \<Rightarrow> NullItem)"

lemma null_plain: "array_text_quoted ''NULL'' = False"
proof -
  have "\<forall>w \<in> set whitespace. \<not> sublist w ''NULL''"
    by (simp add: whitespace_def sublist_code char_of_eq_iff)
  then show ?thesis by (simp add: array_text_quoted_def has_whitespace_def)
qed

lemma array_loop_element:
  assumes "\<forall>v. t = Some v \<longrightarrow> \<not> eq_ignore_ascii_case v ''NULL''"
  obtains cur q where "array_loop raw (element_text t) (clean items [] False) = Inr (clean items cur q)"
    and "array_item_from_text cur q = element_item t"
proof (cases t)
  case None
  have "array_loop raw ''NULL'' (clean items [] False) = Inr (clean items ''NULL'' False)"
    using array_loop_item [of raw "''NULL''" items] null_plain by (simp add: escape_array_text_def)
  moreover have "array_item_from_text ''NULL'' False = NullItem"
    using trim_none [of "''NULL''"] null_plain
    by (simp add: array_item_from_text_def array_text_quoted_def eq_ignore_ascii_case_def)
  ultimately show ?thesis
    using that [of "''NULL''" False] None by (simp add: element_text_def element_item_def del: array_loop.simps)
next
  case (Some v)
  then show ?thesis
    using that array_loop_item [of raw v items] array_item_of_text [of v] assms
    by (simp add: element_text_def element_item_def)
qed

lemma array_loop_elements:
  assumes "ts \<noteq> []" "\<forall>t \<in> set ts. \<forall>v. t = Some v \<longrightarrow> \<not> eq_ignore_ascii_case v ''NULL''"
  shows "\<exists>cur q. array_loop raw (join '','' (map element_text ts)) (clean items [] False)
      = Inr (clean (items @ map element_item (butlast ts)) cur q)
    \<and> array_item_from_text cur q = element_item (last ts)"
  using assms
proof (induction ts arbitrary: items rule: induct_list012)
  case (2 t)
  obtain cur q where
    "array_loop raw (element_text t) (clean items [] False) = Inr (clean items cur q)"
    "array_item_from_text cur q = element_item t"
    using array_loop_element [of t raw items] 2 by auto
  then show ?case by auto
next
  case (3 t t' ts)
  obtain cur q where
    e: "array_loop raw (element_text t) (clean items [] False) = Inr (clean items cur q)"
      "array_item_from_text cur q = element_item t"
    using array_loop_element [of t raw items] 3 by auto
  have comma: "array_loop raw '','' (clean items cur q) = Inr (clean (items @ [element_item t]) [] False)"
    using e(2) by (simp add: array_step_def)
  have "array_loop raw (join '','' (map element_text (t # t' # ts))) (clean items [] False)
      = array_loop raw (join '','' (map element_text (t' # ts))) (clean (items @ [element_item t]) [] False)"
    by (simp only: list.map join.simps array_loop_append e(1) comma res_bind.simps)
  then show ?case using "3.IH"(2) [of "items @ [element_item t]"] "3.prems" by simp
qed simp

lemma parse_array_items_join:
  assumes "ts \<noteq> []" "\<forall>t \<in> set ts. \<forall>v. t = Some v \<longrightarrow> \<not> eq_ignore_ascii_case v ''NULL''"
  shows "parse_array_items (join '','' (map element_text ts)) raw = Inr (map element_item ts)"
proof -
  obtain cur q where
    "array_loop raw (join '','' (map element_text ts)) (clean [] [] False)
       = Inr (clean (map element_item (butlast ts)) cur q)"
    "array_item_from_text cur q = element_item (last ts)"
    using array_loop_elements [OF assms, of raw "[]"] by auto
  moreover have "map element_item ts = map element_item (butlast ts) @ [element_item (last ts)]"
    using assms(1) by (metis append_butlast_last_id list.simps(8,9) map_append)
  ultimately show ?thesis by (simp add: parse_array_items_def)
qed

lemma element_text_not_empty: "element_text t \<noteq> []"
  by (cases t) (auto simp: element_text_def escape_array_text_def array_text_quoted_def)

lemma join_not_empty: "xs \<noteq> [] \<Longrightarrow> \<forall>x \<in> set xs. x \<noteq> [] \<Longrightarrow> join sep xs \<noteq> []"
  by (cases "(sep, xs)" rule: join.cases) auto

text \<open>Does a value of a type survive printing and parsing, as an element of an array?\<close>

definition text_stable :: "text_env \<Rightarrow> data_type \<Rightarrow> column_value \<Rightarrow> bool" where
  "text_stable env dt v =
     (\<exists>t. to_text env v = Some t \<and> parse_text_for_type env dt t = Inr v
          \<and> \<not> eq_ignore_ascii_case t ''NULL'')"

lemma array_text_stable:
  assumes "\<forall>v \<in> set vs. v = VNull \<or> text_stable env dt v"
  shows "text_stable env (TArray dt) (VArray vs)"
proof -
  let ?ts = "map (to_text env) vs"
  let ?body = "join '','' (map element_text ?ts)"
  have printed: "to_text env (VArray vs) = Some (''{'' @ ?body @ ''}'')"
    by (simp add: element_text_def comp_def)
  have strip: "Option.bind (strip_prefix ''{'' (''{'' @ ?body @ ''}'')) (strip_suffix ''}'') = Some ?body"
    by (simp add: strip_prefix_def strip_suffix_def)
  have "parse_text_for_type env (TArray dt) (''{'' @ ?body @ ''}'') = Inr (VArray vs)"
  proof (cases "vs = []")
    case True
    then show ?thesis using strip by (simp add: parse_array_text_def)
  next
    case False
    then have ne: "?body \<noteq> []" by (intro join_not_empty) (auto simp: element_text_not_empty)
    have items: "parse_array_items ?body raw = Inr (map (\<lambda>v. element_item (to_text env v)) vs)" for raw
    proof -
      have "\<forall>t \<in> set ?ts. \<forall>v. t = Some v \<longrightarrow> \<not> eq_ignore_ascii_case v ''NULL''"
        using assms by (fastforce simp: text_stable_def)
      from parse_array_items_join [OF _ this] False show ?thesis by (simp add: comp_def)
    qed
    have "(case element_item (to_text env v) of NullItem \<Rightarrow> Inr VNull
        | ValueItem s \<Rightarrow> parse_text_for_type env dt s) = Inr v" if "v \<in> set vs" for v
      using assms that by (auto simp: element_item_def text_stable_def)
    then have "collect_res (\<lambda>item. case item of NullItem \<Rightarrow> Inr VNull
        | ValueItem s \<Rightarrow> parse_text_for_type env dt s) (map (\<lambda>v. element_item (to_text env v)) vs) = Inr vs"
      by (rule collect_res_map_Inr)
    then show ?thesis using ne items strip by (simp add: parse_array_text_def)
  qed
  moreover have "\<not> eq_ignore_ascii_case (''{'' @ ?body @ ''}'') ''NULL''"
    by (simp add: eq_ignore_ascii_case_def to_ascii_lowercase_def ascii_lower_char_def
        eq_commute [of "CHR ''{''"] char_of_eq_iff)
  ultimately show ?thesis unfolding text_stable_def printed by blast
qed

section \<open>What survives\<close>

text \<open>The scalar types whose values survive with no condition on the values, and texts that are not
  the word \<open>NULL\<close>.\<close>

lemma of_char_lower:
  "(of_char (ascii_lower_char c) :: nat) = (let n = of_char c in if 65 \<le> n \<and> n \<le> 90 then n + 32 else n)"
  by (auto simp: ascii_lower_char_def Let_def)

lemma null_word_first: "eq_ignore_ascii_case (c # s) ''NULL'' \<Longrightarrow> of_char c \<in> {78, 110 :: nat}"
proof -
  assume "eq_ignore_ascii_case (c # s) ''NULL''"
  then have "ascii_lower_char c = ascii_lower_char (CHR ''N'')"
    by (simp add: eq_ignore_ascii_case_def to_ascii_lowercase_def)
  then have "(of_char (ascii_lower_char c) :: nat) = of_char (ascii_lower_char (CHR ''N''))" by simp
  then show ?thesis by (simp add: of_char_lower Let_def split: if_splits)
qed

lemma show_int_not_null: "\<not> eq_ignore_ascii_case (show_int k) ''NULL''"
proof -
  obtain c cs where "show_int k = c # cs" "c = CHR ''-'' \<or> is_digit c"
    using show_nat_digits [of "nat k"] by (cases "k < 0"; cases "show_nat (nat k)") (auto simp: show_int_def)
  then show ?thesis
    using null_word_first [of c cs] by (auto simp: is_digit_def less_eq_char_def)
qed

lemma scalar_text_stable:
  "text_stable env TInt16 (VInt16 i)" "text_stable env TInt32 (VInt32 j)" "text_stable env TInt64 (VInt64 k)"
  "text_stable env TBoolean (VBoolean b)" "text_stable env TBytea (VBytea bs)"
  "\<not> eq_ignore_ascii_case s ''NULL'' \<Longrightarrow> text_stable env TText (VText s)"
proof -
  have "\<not> eq_ignore_ascii_case (show_bool b) ''NULL''"
    using null_word_first [of "CHR ''t''" "''rue''"] null_word_first [of "CHR ''f''" "''alse''"]
    by (auto simp: show_bool_def)
  then show "text_stable env TBoolean (VBoolean b)"
    using parse_bool_show [of b] by (simp add: text_stable_def)
  have "\<not> eq_ignore_ascii_case ([CHR 0x5C, CHR ''x''] @ hex_encode bs) ''NULL''"
    using null_word_first [of "CHR 0x5C"] by auto
  then show "text_stable env TBytea (VBytea bs)"
    using parse_bytea_hex [of bs] by (simp add: text_stable_def map_res_def)
qed (simp_all add: text_stable_def parse_ints_show show_int_not_null)

text \<open>The word itself does not: it is printed without quotes and read as a NULL.\<close>

lemma no_ws_letters: "\<forall>c \<in> set s. 97 \<le> (of_char c :: nat) \<and> of_char c \<le> (122 :: nat) \<Longrightarrow> \<not> has_whitespace s"
proof -
  assume az: "\<forall>c \<in> set s. 97 \<le> (of_char c :: nat) \<and> of_char c \<le> (122 :: nat)"
  have "list_all (\<lambda>w. w \<noteq> [] \<and> \<not> (97 \<le> (of_char (hd w) :: nat) \<and> of_char (hd w) \<le> (122 :: nat))) whitespace"
    by (simp add: whitespace_def)
  then have "\<not> sublist w s" if "w \<in> set whitespace" for w
    using az that by (cases w) (auto simp: list_all_iff sublist_def)
  then show ?thesis by (auto simp: has_whitespace_def)
qed

lemma null_word_lost:
  "to_text env (VArray [VText ''null'']) = Some ''{null}''"
  "parse_text_for_type env (TArray TText) ''{null}'' = Inr (VArray [VNull])"
proof -
  have plain: "\<not> array_text_quoted ''null''"
    using no_ws_letters [of "''null''"] by (simp add: array_text_quoted_def)
  then show "to_text env (VArray [VText ''null'']) = Some ''{null}''"
    by (simp add: escape_array_text_def)
  have "array_loop raw ''null'' (clean [] [] False) = Inr (clean [] ''null'' False)" for raw
    using array_loop_item [of raw "''null''" "[]"] plain by (simp add: escape_array_text_def)
  moreover have "array_item_from_text ''null'' False = NullItem"
    using trim_none [of "''null''"] no_ws_letters [of "''null''"]
    by (simp add: array_item_from_text_def eq_ignore_ascii_case_def to_ascii_lowercase_def
        ascii_lower_char_def char_of_eq_iff eq_commute [of "CHR ''n''"] eq_commute [of "CHR ''u''"]
        eq_commute [of "CHR ''l''"])
  ultimately have "parse_array_items ''null'' raw = Inr [NullItem]" for raw
    by (simp add: parse_array_items_def del: array_loop.simps)
  then show "parse_text_for_type env (TArray TText) ''{null}'' = Inr (VArray [VNull])"
    by (simp add: parse_array_text_def strip_prefix_def strip_suffix_def)
qed

text \<open>A hexadecimal byte string whose pairs split a two-byte character makes the slicing panic.\<close>

lemma parse_bytea_panics:
  "valid_string [CHR 0x5C, CHR ''x'', CHR ''a'', CHR 0xC3, CHR 0xA9, CHR ''b'']"
  "parse_bytea [CHR 0x5C, CHR ''x'', CHR ''a'', CHR 0xC3, CHR 0xA9, CHR ''b'']
     = Inl (panic ''byte index is not a char boundary'')"
  by (simp_all add: valid_string_def utf8_valid_def as_bytes_def utf8_step_def utf8_cont_def
      parse_bytea_def strip_prefix_def str_slice_def is_char_boundary_def is_cont_char_def upt_rec)

end
