(* ===== verification/Cursor.thy ===== *)
theory Cursor
  imports Value_Types
begin

text \<open>
  The read cursor of the row and statistics formats (\<open>storage_layout/cursor.rs\<close>): a byte
  slice and a position. Every read checks the bound, returns the value and advances. The
  lemmas describe a read by what is left of the slice (\<open>rest\<close>): reading an encoding
  returns the value and leaves exactly the bytes behind it.

  The locale \<open>cursor_codec\<close> is the contract between an encoder and a cursor decoder:
  decoding at the start of an encoding gives the value back and leaves what follows. Its
  lemmas (sequences with a count, injectivity, no encoding being a proper prefix of another)
  are proved once here and used for every format through interpretations.
\<close>

record cursor =
  cbytes :: bytes
  pos :: nat

definition cursor_new :: "bytes \<Rightarrow> cursor" where
  "cursor_new bs = \<lparr>cbytes = bs, pos = 0\<rparr>"

definition is_done :: "cursor \<Rightarrow> bool" where
  "is_done c = (pos c = length (cbytes c))"

definition cursor_u8 :: "cursor \<Rightarrow> (byte \<times> cursor) res" where
  "cursor_u8 c =
     (case slice_get (cbytes c) (pos c) of
        None \<Rightarrow> Inl (user_error ''XX000'' ''truncated u8'')
      | Some b \<Rightarrow> Inr (b, c\<lparr>pos := pos c + 1\<rparr>))"

text \<open>The fixed-width reads share their body: bound check, read of \<open>n\<close> bytes, advance.\<close>

definition cursor_fixed :: "string \<Rightarrow> nat \<Rightarrow> cursor \<Rightarrow> ('a::len word \<times> cursor) res" where
  "cursor_fixed what n c =
     (if length (cbytes c) < pos c + n then Inl (user_error ''XX000'' (''truncated '' @ what))
      else Inr (from_be_bytes (slice (cbytes c) (pos c) (pos c + n)), c\<lparr>pos := pos c + n\<rparr>))"

definition cursor_u32 :: "cursor \<Rightarrow> (u32 \<times> cursor) res" where
  "cursor_u32 = cursor_fixed ''u32'' 4"

definition cursor_u64 :: "cursor \<Rightarrow> (u64 \<times> cursor) res" where
  "cursor_u64 = cursor_fixed ''u64'' 8"

definition cursor_i16 :: "cursor \<Rightarrow> (i16 \<times> cursor) res" where
  "cursor_i16 = cursor_fixed ''i16'' 2"

definition cursor_i32 :: "cursor \<Rightarrow> (i32 \<times> cursor) res" where
  "cursor_i32 = cursor_fixed ''i32'' 4"

definition cursor_i64 :: "cursor \<Rightarrow> (i64 \<times> cursor) res" where
  "cursor_i64 = cursor_fixed ''i64'' 8"

definition cursor_f32 :: "cursor \<Rightarrow> (u32 \<times> cursor) res" where
  "cursor_f32 = cursor_fixed ''f32'' 4"

definition cursor_f64 :: "cursor \<Rightarrow> (u64 \<times> cursor) res" where
  "cursor_f64 = cursor_fixed ''f64'' 8"

text \<open>\<open>push_bytes_segment\<close> and \<open>read_bytes_segment\<close> (\<open>tuple_codec.rs\<close>): a 32-bit length
  and the bytes.\<close>

definition push_bytes_segment :: "bytes \<Rightarrow> bytes" where
  "push_bytes_segment bs = to_be_bytes (word_of_nat (length bs) :: u32) @ bs"

definition read_bytes_segment :: "bytes \<Rightarrow> (bytes \<times> nat) res" where
  "read_bytes_segment bs =
     (if length bs < 4 then Inl (user_error ''XX000'' ''truncated bytes segment length'')
      else let len = unat (from_be_bytes (take 4 bs) :: u32)
           in if length bs < 4 + len then Inl (user_error ''XX000'' ''truncated bytes segment'')
              else Inr (slice bs 4 (4 + len), 4 + len))"

definition cursor_bytes_segment :: "cursor \<Rightarrow> (bytes \<times> cursor) res" where
  "cursor_bytes_segment c =
     res_bind (read_bytes_segment (drop (pos c) (cbytes c)))
       (\<lambda>(bs, consumed). Inr (bs, c\<lparr>pos := pos c + consumed\<rparr>))"

definition cursor_skip :: "nat \<Rightarrow> cursor \<Rightarrow> cursor res" where
  "cursor_skip len c =
     (if length (cbytes c) < pos c + len
      then Inl (user_error ''XX000'' ''truncated tuple value'')
      else Inr (c\<lparr>pos := pos c + len\<rparr>))"

definition cursor_skip_bytes_segment :: "cursor \<Rightarrow> cursor res" where
  "cursor_skip_bytes_segment c =
     res_bind (read_bytes_segment (drop (pos c) (cbytes c)))
       (\<lambda>(_, consumed). Inr (c\<lparr>pos := pos c + consumed\<rparr>))"

section \<open>What a read leaves\<close>

definition rest :: "cursor \<Rightarrow> bytes" where
  "rest c = drop (pos c) (cbytes c)"

definition advance :: "nat \<Rightarrow> cursor \<Rightarrow> cursor" where
  "advance n c = c\<lparr>pos := pos c + n\<rparr>"

text \<open>A position never passes the end of the slice.\<close>

definition cursor_ok :: "cursor \<Rightarrow> bool" where
  "cursor_ok c = (pos c \<le> length (cbytes c))"

lemma cursor_new_simps [simp]: "rest (cursor_new bs) = bs" "cursor_ok (cursor_new bs)"
  by (simp_all add: rest_def cursor_new_def cursor_ok_def)

lemma advance_0 [simp]: "advance 0 c = c"
  by (simp add: advance_def)

lemma advance_advance [simp]: "advance m (advance n c) = advance (n + m) c"
  by (simp add: advance_def)

lemma rest_advance: "rest c = xs @ ys \<Longrightarrow> rest (advance (length xs) c) = ys"
proof -
  assume "rest c = xs @ ys"
  then have "drop (length xs) (drop (pos c) (cbytes c)) = ys" by (simp add: rest_def)
  then show ?thesis by (simp add: rest_def advance_def add.commute)
qed

lemma rest_append_bound:
  "rest c = xs @ ys \<Longrightarrow> xs \<noteq> [] \<Longrightarrow> pos c + length xs \<le> length (cbytes c)"
proof -
  assume *: "rest c = xs @ ys" "xs \<noteq> []"
  then have "length (cbytes c) - pos c = length xs + length ys"
    by (metis length_append length_drop rest_def)
  moreover from * have "0 < length xs" by simp
  ultimately show ?thesis by linarith
qed

lemma is_done_iff_rest: "cursor_ok c \<Longrightarrow> is_done c = (rest c = [])"
  by (auto simp: is_done_def rest_def cursor_ok_def)

lemma length_rest_advance [simp]: "length (rest (advance n c)) = length (rest c) - n"
  by (simp add: rest_def advance_def)

lemma cursor_ok_advance: "cursor_ok c \<Longrightarrow> n \<le> length (rest c) \<Longrightarrow> cursor_ok (advance n c)"
  by (simp add: cursor_ok_def advance_def rest_def)

lemma cbytes_advance [simp]: "cbytes (advance n c) = cbytes c" "pos (advance n c) = pos c + n"
  by (simp_all add: advance_def)

lemma rest_ConsD: "rest c = b # xs \<Longrightarrow> pos c < length (cbytes c) \<and> cbytes c ! pos c = b"
  by (metis drop_eq_Nil2 hd_drop_conv_nth leI list.sel(1) neq_Nil_conv rest_def)

subsection \<open>Reading an encoding back\<close>

lemma cursor_u8_rest [simp]: "rest c = b # xs \<Longrightarrow> cursor_u8 c = Inr (b, advance 1 c)"
  using rest_ConsD [of c b xs] by (auto simp: cursor_u8_def advance_def split: option.splits)

lemma cursor_fixed_rest:
  assumes "rest c = bs @ xs" "length bs = n" "0 < n"
  shows "cursor_fixed what n c = Inr (from_be_bytes bs, advance n c)"
proof -
  from assms have "pos c + n \<le> length (cbytes c)" using rest_append_bound [of c bs xs] by auto
  moreover from assms have "slice (cbytes c) (pos c) (pos c + n) = bs"
    by (simp add: slice_def rest_def)
  ultimately show ?thesis by (simp add: cursor_fixed_def advance_def)
qed

lemmas cursor_fixed_defs =
  cursor_u32_def cursor_u64_def cursor_i16_def cursor_i32_def cursor_i64_def
  cursor_f32_def cursor_f64_def

lemma cursor_words_rest [simp]:
  "rest c = to_be_bytes w32 @ xs \<Longrightarrow> cursor_u32 c = Inr (w32, advance 4 c)"
  "rest c = to_be_bytes w64 @ xs \<Longrightarrow> cursor_u64 c = Inr (w64, advance 8 c)"
  "rest c = to_be_bytes w16 @ xs \<Longrightarrow> cursor_i16 c = Inr (w16, advance 2 c)"
  "rest c = to_be_bytes w32 @ xs \<Longrightarrow> cursor_i32 c = Inr (w32, advance 4 c)"
  "rest c = to_be_bytes w64 @ xs \<Longrightarrow> cursor_i64 c = Inr (w64, advance 8 c)"
  "rest c = to_be_bytes w32 @ xs \<Longrightarrow> cursor_f32 c = Inr (w32, advance 4 c)"
  "rest c = to_be_bytes w64 @ xs \<Longrightarrow> cursor_f64 c = Inr (w64, advance 8 c)"
  by (simp_all add: cursor_fixed_defs cursor_fixed_rest)

lemma length_push_bytes_segment [simp, enc_simps]:
  "length (push_bytes_segment bs) = 4 + length bs"
  by (simp add: push_bytes_segment_def)

lemma read_push_bytes_segment [simp]:
  "length bs < 2 ^ 32 \<Longrightarrow>
   read_bytes_segment (push_bytes_segment bs @ xs) = Inr (bs, 4 + length bs)"
  by (simp add: read_bytes_segment_def push_bytes_segment_def slice_def unat_of_nat)

lemma cursor_segment_rest [simp]:
  assumes "rest c = push_bytes_segment bs @ xs" "length bs < 2 ^ 32"
  shows "cursor_bytes_segment c = Inr (bs, advance (4 + length bs) c)"
    and "cursor_skip_bytes_segment c = Inr (advance (4 + length bs) c)"
  using assms
  by (simp_all add: cursor_bytes_segment_def cursor_skip_bytes_segment_def advance_def flip: rest_def)

subsection \<open>Progress\<close>

text \<open>Every successful read moves the cursor forward over the same slice.\<close>

lemma cursor_u8_progress:
  "cursor_u8 c = Inr (b, c') \<Longrightarrow> c' = advance 1 c \<and> pos c < length (cbytes c) \<and> b = cbytes c ! pos c"
  by (auto simp: cursor_u8_def advance_def split: option.splits)

lemma cursor_fixed_progress:
  "cursor_fixed what n c = Inr (w, c') \<Longrightarrow> c' = advance n c \<and> pos c + n \<le> length (cbytes c)"
  by (auto simp: cursor_fixed_def advance_def split: if_splits)

lemma read_bytes_segment_progress:
  "read_bytes_segment bs = Inr (s, n) \<Longrightarrow> n = 4 + length s \<and> n \<le> length bs \<and> s = slice bs 4 n"
  by (auto simp: read_bytes_segment_def Let_def split: if_splits)

lemma cursor_segment_progress:
  assumes "cursor_bytes_segment c = Inr (s, c')" "cursor_ok c"
  shows "c' = advance (4 + length s) c \<and> pos c + (4 + length s) \<le> length (cbytes c)"
  using assms
  by (auto simp: cursor_bytes_segment_def advance_def res_simps cursor_ok_def
      dest!: read_bytes_segment_progress)

lemma cursor_skip_progress:
  "cursor_skip n c = Inr c' \<Longrightarrow> c' = advance n c \<and> pos c + n \<le> length (cbytes c)"
  by (auto simp: cursor_skip_def advance_def split: if_splits)

lemma cursor_skip_segment_iff:
  "cursor_skip_bytes_segment c = res_bind (cursor_bytes_segment c) (\<lambda>(_, c'). Inr c')"
  by (cases "read_bytes_segment (drop (pos c) (cbytes c))")
     (auto simp: cursor_skip_bytes_segment_def cursor_bytes_segment_def)

lemma cursor_skip_rest [simp]:
  "rest c = xs @ ys \<Longrightarrow> length xs = n \<Longrightarrow> cursor_ok c \<Longrightarrow> cursor_skip n c = Inr (advance n c)"
  using rest_append_bound [of c xs ys]
  by (cases "xs = []") (auto simp: cursor_skip_def advance_def cursor_ok_def)

section \<open>The contract of a cursor format\<close>

text \<open>The decode loop \<open>for _ in 0..count { values.push(decode(cursor)?) }\<close>.\<close>

fun repeat_dec :: "(cursor \<Rightarrow> ('a \<times> cursor) res) \<Rightarrow> nat \<Rightarrow> cursor \<Rightarrow> ('a list \<times> cursor) res" where
  "repeat_dec dec 0 c = Inr ([], c)"
| "repeat_dec dec (Suc n) c =
     res_bind (dec c) (\<lambda>(v, c'). res_bind (repeat_dec dec n c') (\<lambda>(vs, c''). Inr (v # vs, c'')))"

locale cursor_codec =
  fixes enc :: "'a \<Rightarrow> bytes"
    and dec :: "cursor \<Rightarrow> ('a \<times> cursor) res"
    and ok :: "'a \<Rightarrow> bool"
  assumes dec_enc:
    "ok x \<Longrightarrow> cursor_ok c \<Longrightarrow> rest c = enc x @ ys \<Longrightarrow> dec c = Inr (x, advance (length (enc x)) c)"
begin

lemma repeat_dec_enc:
  assumes "\<forall>x \<in> set xs. ok x" "cursor_ok c" "rest c = concat (map enc xs) @ ys"
  shows "repeat_dec dec (length xs) c = Inr (xs, advance (length (concat (map enc xs))) c)"
  using assms
proof (induction xs arbitrary: c)
  case (Cons x xs)
  let ?c = "advance (length (enc x)) c"
  from Cons.prems have "dec c = Inr (x, ?c)"
    using dec_enc [of x c "concat (map enc xs) @ ys"] by simp
  moreover have "rest ?c = concat (map enc xs) @ ys" using Cons.prems rest_advance by fastforce
  moreover have "cursor_ok ?c" using Cons.prems by (simp add: cursor_ok_advance)
  ultimately show ?case using Cons.IH [of ?c] Cons.prems by (simp add: add.commute)
qed simp

lemma enc_prefix_free:
  assumes "ok x" "ok y" "enc x @ us = enc y @ vs"
  shows "x = y \<and> us = vs"
proof -
  let ?c = "cursor_new (enc x @ us)"
  have "dec ?c = Inr (x, advance (length (enc x)) ?c)" using assms(1) dec_enc [of x ?c us] by simp
  moreover have "dec ?c = Inr (y, advance (length (enc y)) ?c)"
    using assms(2,3) dec_enc [of y ?c vs] by simp
  ultimately show ?thesis using assms(3) by simp
qed

lemma enc_inj: "ok x \<Longrightarrow> ok y \<Longrightarrow> enc x = enc y \<Longrightarrow> x = y"
  using enc_prefix_free [of x y "[]" "[]"] by simp

end

end
