(* ===== verification/Tuple_Codec.thy ===== *)
theory Tuple_Codec
  imports Cursor Ieee
begin

text \<open>
  The self-describing value format of \<open>storage_layout/tuple_codec.rs\<close>: a tag byte and a
  payload. It is what variable-length columns, legacy rows, column chunks and zone maps are
  written in. \<open>encode_tuple_value\<close> returns the bytes the Rust function appends to its
  buffer; \<open>decode_tuple_value\<close> and \<open>skip_tuple_value\<close> read from a cursor. The theory
  shows that every well-formed value decodes to itself whatever follows it, that skipping
  moves the cursor exactly as decoding does, and that the numeric fast decoder agrees with
  the general one.
\<close>

section \<open>Encoding\<close>

fun encode_tuple_value :: "column_value \<Rightarrow> bytes" where
  "encode_tuple_value VNull = [0]"
| "encode_tuple_value (VBoolean v) = [1, if v then 1 else 0]"
| "encode_tuple_value (VInt16 v) = 16 # to_be_bytes v"
| "encode_tuple_value (VInt32 v) = 2 # to_be_bytes v"
| "encode_tuple_value (VInt64 v) = 3 # to_be_bytes v"
| "encode_tuple_value (VText v) = 4 # push_bytes_segment (as_bytes v)"
| "encode_tuple_value (VFloat32 v) = 5 # to_be_bytes v"
| "encode_tuple_value (VFloat64 v) = 6 # to_be_bytes v"
| "encode_tuple_value (VBytea v) = 7 # push_bytes_segment v"
| "encode_tuple_value (VArray vs) =
     8 # to_be_bytes (word_of_nat (length vs) :: u32) @ concat (map encode_tuple_value vs)"
| "encode_tuple_value (VNumeric v) = 9 # push_bytes_segment (as_bytes v)"
| "encode_tuple_value (VDate v) = 10 # push_bytes_segment (as_bytes v)"
| "encode_tuple_value (VTimestamp v) = 11 # push_bytes_segment (as_bytes v)"
| "encode_tuple_value (VTimestampTz v) = 12 # push_bytes_segment (as_bytes v)"
| "encode_tuple_value (VUuid v) = 13 # push_bytes_segment (as_bytes v)"
| "encode_tuple_value (VJson v) = 14 # push_bytes_segment (as_bytes v)"
| "encode_tuple_value (VJsonb v) = 15 # push_bytes_segment (as_bytes v)"

section \<open>Decoding\<close>

definition decode_tuple_string :: "cursor \<Rightarrow> (string \<times> cursor) res" where
  "decode_tuple_string c =
     res_bind (cursor_bytes_segment c) (\<lambda>(bs, c').
     res_bind (from_utf8 ''invalid UTF-8 in tuple'' bs) (\<lambda>s. Inr (s, c')))"

text \<open>\<open>Result::map\<close> on the value a cursor read returns.\<close>

definition map_read :: "('a \<Rightarrow> 'b) \<Rightarrow> ('a \<times> cursor) res \<Rightarrow> ('b \<times> cursor) res" where
  "map_read f r = res_bind r (\<lambda>(v, c). Inr (f v, c))"

function decode_tuple_value :: "cursor \<Rightarrow> (column_value \<times> cursor) res"
  and decode_tuple_values :: "nat \<Rightarrow> cursor \<Rightarrow> (column_value list \<times> cursor) res"
where
  "decode_tuple_value c =
     res_bind (cursor_u8 c) (\<lambda>(tag, c1).
       if tag = 0 then Inr (VNull, c1)
       else if tag = 1 then map_read (\<lambda>b. VBoolean (b \<noteq> 0)) (cursor_u8 c1)
       else if tag = 16 then map_read VInt16 (cursor_i16 c1)
       else if tag = 2 then map_read VInt32 (cursor_i32 c1)
       else if tag = 3 then map_read VInt64 (cursor_i64 c1)
       else if tag = 4 then map_read VText (decode_tuple_string c1)
       else if tag = 5 then map_read VFloat32 (cursor_f32 c1)
       else if tag = 6 then map_read VFloat64 (cursor_f64 c1)
       else if tag = 7 then map_read VBytea (cursor_bytes_segment c1)
       else if tag = 8 then
         res_bind (cursor_u32 c1) (\<lambda>(count, c2).
         res_bind (decode_tuple_values (unat count) c2) (\<lambda>(vs, c3). Inr (VArray vs, c3)))
       else if tag = 9 then map_read VNumeric (decode_tuple_string c1)
       else if tag = 10 then map_read VDate (decode_tuple_string c1)
       else if tag = 11 then map_read VTimestamp (decode_tuple_string c1)
       else if tag = 12 then map_read VTimestampTz (decode_tuple_string c1)
       else if tag = 13 then map_read VUuid (decode_tuple_string c1)
       else if tag = 14 then map_read VJson (decode_tuple_string c1)
       else if tag = 15 then map_read VJsonb (decode_tuple_string c1)
       else Inl (user_error ''XX000'' ''unknown tuple value tag''))"
| "decode_tuple_values 0 c = Inr ([], c)"
| "decode_tuple_values (Suc n) c =
     res_bind (decode_tuple_value c) (\<lambda>(v, c').
     res_bind (decode_tuple_values n c') (\<lambda>(vs, c''). Inr (v # vs, c'')))"
  by pat_completeness auto

text \<open>
  An array's elements are read from where the previous element ended, so the recursion is
  well-founded because every decoded value consumes at least its tag byte. That fact is
  proved on the domain of the function first.
\<close>

definition consumes :: "cursor \<Rightarrow> cursor \<Rightarrow> bool" where
  "consumes c c' = (cbytes c' = cbytes c \<and> pos c < pos c' \<and> pos c' \<le> length (cbytes c))"

definition reaches :: "cursor \<Rightarrow> cursor \<Rightarrow> bool" where
  "reaches c c' = (c' = c \<or> consumes c c')"

lemma consumes_trans: "consumes a b \<Longrightarrow> consumes b c \<Longrightarrow> consumes a c"
  by (auto simp: consumes_def)

lemma consumes_reaches_trans: "consumes a b \<Longrightarrow> reaches b c \<Longrightarrow> consumes a c"
  by (auto simp: consumes_def reaches_def)

lemma reaches_trans: "reaches a b \<Longrightarrow> reaches b c \<Longrightarrow> reaches a c"
  by (auto simp: consumes_def reaches_def)

lemma consumes_reaches: "consumes c c' \<Longrightarrow> reaches c c'"
  by (simp add: reaches_def)

lemma consumes_cursor_ok: "consumes c c' \<Longrightarrow> cursor_ok c'"
  by (simp add: consumes_def cursor_ok_def)

lemma consumes_rest: "consumes c c' \<Longrightarrow> length (rest c') < length (rest c)"
  by (auto simp: consumes_def rest_def)

lemma consumes_u8: "cursor_u8 c = Inr (b, c') \<Longrightarrow> consumes c c'"
  by (auto simp: consumes_def dest!: cursor_u8_progress)

lemma consumes_fixed: "cursor_fixed what n c = Inr (w, c') \<Longrightarrow> 0 < n \<Longrightarrow> consumes c c'"
  by (auto simp: consumes_def dest!: cursor_fixed_progress)

lemma consumes_segment: "cursor_bytes_segment c = Inr (s, c') \<Longrightarrow> consumes c c'"
proof -
  assume *: "cursor_bytes_segment c = Inr (s, c')"
  have "cursor_ok c"
  proof (rule ccontr)
    assume "\<not> cursor_ok c"
    then have "drop (pos c) (cbytes c) = []" by (simp add: cursor_ok_def)
    with * show False by (simp add: cursor_bytes_segment_def read_bytes_segment_def)
  qed
  with * show ?thesis by (auto simp: consumes_def dest!: cursor_segment_progress)
qed

lemma consumes_string: "decode_tuple_string c = Inr (s, c') \<Longrightarrow> consumes c c'"
  by (auto simp: decode_tuple_string_def res_simps dest: consumes_segment)

lemma map_read_eq_Inr [res_simps]: "(map_read f r = Inr (y, c)) = (\<exists>x. r = Inr (x, c) \<and> y = f x)"
  by (cases r) (auto simp: map_read_def)

lemma map_read_Inr [simp]: "map_read f (Inr (x, c)) = Inr (f x, c)"
  by (simp add: map_read_def)

lemmas consumes_reads =
  consumes_u8 consumes_string consumes_segment
  consumes_fixed [of "''u32''" 4] consumes_fixed [of "''u64''" 8] consumes_fixed [of "''i16''" 2]
  consumes_fixed [of "''i32''" 4] consumes_fixed [of "''i64''" 8] consumes_fixed [of "''f32''" 4]
  consumes_fixed [of "''f64''" 8]

lemma decode_tuple_dom_consumes:
  "decode_tuple_value_decode_tuple_values_dom (Inl c) \<Longrightarrow>
     decode_tuple_value c = Inr (v, c') \<Longrightarrow> consumes c c'"
  "decode_tuple_value_decode_tuple_values_dom (Inr (n, c)) \<Longrightarrow>
     decode_tuple_values n c = Inr (vs, c') \<Longrightarrow> reaches c c'"
proof (induction c and n c arbitrary: v c' and vs c'
    rule: decode_tuple_value_decode_tuple_values.pinduct)
  case (1 c)
  from "1.prems" obtain tag c1 where u8: "cursor_u8 c = Inr (tag, c1)"
    by (auto simp: decode_tuple_value.psimps [OF "1.hyps"] res_simps)
  then have c1: "consumes c c1" by (rule consumes_u8)
  show ?case
  proof (cases "tag = 8")
    case True
    with "1.prems" u8 obtain count c2 vs where
      "cursor_u32 c1 = Inr (count, c2)" "decode_tuple_values (unat count) c2 = Inr (vs, c')"
      by (auto simp: decode_tuple_value.psimps [OF "1.hyps"] res_simps)
    moreover from this have "consumes c1 c2"
      by (auto simp: cursor_fixed_defs intro: consumes_fixed)
    moreover have "reaches c2 c'" by (rule "1.IH"[OF u8 refl]) (use calculation True in simp_all)
    ultimately show ?thesis using c1 by (blast intro: consumes_trans consumes_reaches_trans)
  next
    case False
    with "1.prems" u8 c1 show ?thesis
      by (auto simp: decode_tuple_value.psimps [OF "1.hyps"] res_simps cursor_fixed_defs
          dest!: consumes_reads intro: consumes_trans split: if_splits)
  qed
next
  case (2 c)
  then show ?case by (simp add: decode_tuple_values.psimps reaches_def)
next
  case (3 n c)
  then obtain v c1 vs' where "decode_tuple_value c = Inr (v, c1)"
    "decode_tuple_values n c1 = Inr (vs', c')"
    by (auto simp: decode_tuple_values.psimps res_simps)
  with "3.IH" show ?case by (blast intro: reaches_trans consumes_reaches)
qed

termination decode_tuple_value
proof (relation "measures [case_sum (\<lambda>c. length (rest c)) (\<lambda>(n, c). length (rest c)),
                           case_sum (\<lambda>c. 0) (\<lambda>(n, c). Suc n)]", goal_cases)
  case (2 c x tag c1 y count c2)
  then have "consumes c c1" "consumes c1 c2"
    by (auto simp: cursor_fixed_defs intro: consumes_u8 consumes_fixed)
  then have "length (rest c2) < length (rest c)" by (meson consumes_rest consumes_trans)
  then show ?case by simp
next
  case (4 n c x v c')
  then have "consumes c c'" using decode_tuple_dom_consumes(1) by auto
  then show ?case by (auto dest: consumes_rest)
qed auto

declare decode_tuple_value.simps [simp del]

lemmas decode_tuple_consumes =
  decode_tuple_dom_consumes [OF "decode_tuple_value_decode_tuple_values.termination" [rule_format]]

lemma decode_tuple_values_repeat: "decode_tuple_values n c = repeat_dec decode_tuple_value n c"
  by (induction n arbitrary: c) auto

text \<open>\<open>skip_tuple_value\<close>: the same walk without building the value.\<close>

function skip_tuple_value :: "cursor \<Rightarrow> cursor res"
  and skip_tuple_values :: "nat \<Rightarrow> cursor \<Rightarrow> cursor res"
where
  "skip_tuple_value c =
     res_bind (cursor_u8 c) (\<lambda>(tag, c1).
       if tag = 0 then Inr c1
       else if tag = 1 then cursor_skip 1 c1
       else if tag = 16 then cursor_skip 2 c1
       else if tag = 2 then cursor_skip 4 c1
       else if tag = 3 then cursor_skip 8 c1
       else if tag \<in> {4, 7, 9, 10, 11, 12, 13, 14, 15} then cursor_skip_bytes_segment c1
       else if tag = 5 then cursor_skip 4 c1
       else if tag = 6 then cursor_skip 8 c1
       else if tag = 8 then
         res_bind (cursor_u32 c1) (\<lambda>(count, c2). skip_tuple_values (unat count) c2)
       else Inl (user_error ''XX000'' ''unknown tuple value tag''))"
| "skip_tuple_values 0 c = Inr c"
| "skip_tuple_values (Suc n) c = res_bind (skip_tuple_value c) (\<lambda>c'. skip_tuple_values n c')"
  by pat_completeness auto

lemma consumes_skip: "cursor_skip n c = Inr c' \<Longrightarrow> 0 < n \<Longrightarrow> consumes c c'"
  by (auto simp: consumes_def dest!: cursor_skip_progress)

lemma consumes_skip_segment: "cursor_skip_bytes_segment c = Inr c' \<Longrightarrow> consumes c c'"
  by (auto simp: cursor_skip_segment_iff res_simps dest: consumes_segment)

lemma skip_tuple_dom_consumes:
  "skip_tuple_value_skip_tuple_values_dom (Inl c) \<Longrightarrow>
     skip_tuple_value c = Inr c' \<Longrightarrow> consumes c c'"
  "skip_tuple_value_skip_tuple_values_dom (Inr (n, c)) \<Longrightarrow>
     skip_tuple_values n c = Inr c' \<Longrightarrow> reaches c c'"
proof (induction c and n c arbitrary: c' and c' rule: skip_tuple_value_skip_tuple_values.pinduct)
  case (1 c)
  from "1.prems" obtain tag c1 where u8: "cursor_u8 c = Inr (tag, c1)"
    by (auto simp: skip_tuple_value.psimps [OF "1.hyps"] res_simps)
  then have c1: "consumes c c1" by (rule consumes_u8)
  show ?case
  proof (cases "tag = 8")
    case True
    with "1.prems" u8 obtain count c2 where
      "cursor_u32 c1 = Inr (count, c2)" "skip_tuple_values (unat count) c2 = Inr c'"
      by (auto simp: skip_tuple_value.psimps [OF "1.hyps"] res_simps)
    moreover from this have "consumes c1 c2"
      by (auto simp: cursor_fixed_defs intro: consumes_fixed)
    moreover have "reaches c2 c'" by (rule "1.IH"[OF u8 refl]) (use calculation True in simp_all)
    ultimately show ?thesis using c1 by (blast intro: consumes_trans consumes_reaches_trans)
  next
    case False
    with "1.prems" u8 c1 show ?thesis
      by (auto simp: skip_tuple_value.psimps [OF "1.hyps"]
          dest!: consumes_skip consumes_skip_segment intro: consumes_trans split: if_splits)
  qed
next
  case (2 c)
  then show ?case by (simp add: skip_tuple_values.psimps reaches_def)
next
  case (3 n c)
  then obtain c1 where "skip_tuple_value c = Inr c1" "skip_tuple_values n c1 = Inr c'"
    by (auto simp: skip_tuple_values.psimps res_simps)
  with "3.IH" show ?case by (blast intro: reaches_trans consumes_reaches)
qed

termination skip_tuple_value
proof (relation "measures [case_sum (\<lambda>c. length (rest c)) (\<lambda>(n, c). length (rest c)),
                           case_sum (\<lambda>c. 0) (\<lambda>(n, c). Suc n)]", goal_cases)
  case (2 c x tag c1 y count c2)
  then have "consumes c c1" "consumes c1 c2"
    by (auto simp: cursor_fixed_defs intro: consumes_u8 consumes_fixed)
  then have "length (rest c2) < length (rest c)" by (meson consumes_rest consumes_trans)
  then show ?case by simp
next
  case (4 n c c')
  then have "consumes c c'" using skip_tuple_dom_consumes(1) by auto
  then show ?case by (auto dest: consumes_rest)
qed auto

declare skip_tuple_value.simps [simp del]

section \<open>The numeric fast decoder\<close>

datatype fast_numeric_value = FNull | FI64 i64 | FF64 u64

definition decode_tuple_numeric_value :: "cursor \<Rightarrow> (fast_numeric_value \<times> cursor) res" where
  "decode_tuple_numeric_value c =
     res_bind (cursor_u8 c) (\<lambda>(tag, c1).
       if tag = 0 then Inr (FNull, c1)
       else if tag = 16 then map_read (\<lambda>v. FI64 (scast v)) (cursor_i16 c1)
       else if tag = 2 then map_read (\<lambda>v. FI64 (scast v)) (cursor_i32 c1)
       else if tag = 3 then map_read FI64 (cursor_i64 c1)
       else if tag = 5 then map_read (\<lambda>v. FF64 (f32_as_f64 v)) (cursor_f32 c1)
       else if tag = 6 then map_read FF64 (cursor_f64 c1)
       else Inl (user_error ''XX000'' ''tuple value is not numeric''))"

text \<open>\<open>column_value_to_fast_numeric\<close> (\<open>kv_engine_store/fast_numeric_plan.rs\<close>).\<close>

definition column_value_to_fast_numeric :: "column_value \<Rightarrow> fast_numeric_value option" where
  "column_value_to_fast_numeric v =
     (case v of
        VNull \<Rightarrow> Some FNull
      | VInt16 x \<Rightarrow> Some (FI64 (scast x))
      | VInt32 x \<Rightarrow> Some (FI64 (scast x))
      | VInt64 x \<Rightarrow> Some (FI64 x)
      | VFloat32 x \<Rightarrow> Some (FF64 (f32_as_f64 x))
      | VFloat64 x \<Rightarrow> Some (FF64 x)
      | _ \<Rightarrow> None)"

section \<open>Decoding what was encoded\<close>

lemma decode_tuple_string_rest [simp]:
  "rest c = push_bytes_segment (as_bytes s) @ xs \<Longrightarrow> str_ok s \<Longrightarrow>
   decode_tuple_string c = Inr (s, advance (4 + length s) c)"
  by (simp add: decode_tuple_string_def str_ok_def)

lemma rest_advance1 [simp]: "rest c = b # xs \<Longrightarrow> rest (advance (Suc 0) c) = xs"
  using rest_advance [of c "[b]" xs] by simp

lemma cursor_ok_advance1: "rest c = b # xs \<Longrightarrow> cursor_ok (advance (Suc 0) c)"
  using rest_ConsD [of c b xs] by (simp add: cursor_ok_def)

text \<open>The array case: the elements are decoded one after another.\<close>

lemma decode_tuple_values_enc:
  assumes "\<And>v c xs. v \<in> set vs \<Longrightarrow> rest c = encode_tuple_value v @ xs \<Longrightarrow>
      decode_tuple_value c = Inr (v, advance (length (encode_tuple_value v)) c)"
    and "rest c = concat (map encode_tuple_value vs) @ xs"
  shows "decode_tuple_values (length vs) c =
    Inr (vs, advance (length (concat (map encode_tuple_value vs))) c)"
  using assms
proof (induction vs arbitrary: c)
  case (Cons v vs)
  let ?c = "advance (length (encode_tuple_value v)) c"
  have "decode_tuple_value c = Inr (v, ?c)" using Cons.prems by simp
  moreover have "rest ?c = concat (map encode_tuple_value vs) @ xs"
    using Cons.prems(2) rest_advance by fastforce
  ultimately show ?case using Cons.IH [of ?c] Cons.prems(1) by (simp add: add.commute)
qed simp

lemma decode_encode_tuple_value:
  "value_ok v \<Longrightarrow> rest c = encode_tuple_value v @ xs \<Longrightarrow>
   decode_tuple_value c = Inr (v, advance (length (encode_tuple_value v)) c)"
proof (induction v arbitrary: c xs rule: encode_tuple_value.induct)
  case (10 vs)
  let ?n = "word_of_nat (length vs) :: u32"
  let ?e = "concat (map encode_tuple_value vs)"
  let ?c = "advance 5 c"
  from "10.prems"(2) have r: "rest c = 8 # to_be_bytes ?n @ ?e @ xs" by simp
  then have r1: "rest (advance (Suc 0) c) = to_be_bytes ?n @ ?e @ xs" by simp
  then have "rest ?c = ?e @ xs" using rest_advance [of "advance (Suc 0) c"] by fastforce
  then have "decode_tuple_values (length vs) ?c = Inr (vs, advance (length ?e) ?c)"
    using "10.IH" "10.prems"(1) by (intro decode_tuple_values_enc) auto
  moreover have "unat ?n = length vs" using "10.prems"(1) by (simp add: unat_of_nat)
  ultimately show ?case using r r1 by (simp add: decode_tuple_value.simps [of c])
qed (simp_all add: decode_tuple_value.simps)

interpretation tuple: cursor_codec encode_tuple_value decode_tuple_value value_ok
  by unfold_locales (simp add: decode_encode_tuple_value)

text \<open>Skipping is decoding without the value, on every input the decoder accepts.\<close>

lemma cursor_skip_of_fixed:
  "cursor_fixed what n c = Inr (w, c') \<Longrightarrow> cursor_skip n c = Inr c'"
  by (auto simp: cursor_fixed_def cursor_skip_def split: if_splits)

lemma cursor_skip_of_u8: "cursor_u8 c = Inr (b, c') \<Longrightarrow> cursor_skip 1 c = Inr c'"
  by (auto simp: cursor_u8_def cursor_skip_def split: option.splits)

lemma skip_segment_of_string:
  "decode_tuple_string c = Inr (s, c') \<Longrightarrow> cursor_skip_bytes_segment c = Inr c'"
  by (auto simp: decode_tuple_string_def cursor_skip_segment_iff res_simps)

lemmas skip_of_reads =
  cursor_skip_of_u8 cursor_skip_of_fixed [of "''u32''" 4] cursor_skip_of_fixed [of "''u64''" 8]
  cursor_skip_of_fixed [of "''i16''" 2] cursor_skip_of_fixed [of "''i32''" 4]
  cursor_skip_of_fixed [of "''i64''" 8] cursor_skip_of_fixed [of "''f32''" 4]
  cursor_skip_of_fixed [of "''f64''" 8] skip_segment_of_string

lemma skip_tuple_of_decode:
  "decode_tuple_value c = Inr (v, c') \<Longrightarrow> skip_tuple_value c = Inr c'"
  "decode_tuple_values n c = Inr (vs, c') \<Longrightarrow> skip_tuple_values n c = Inr c'"
proof (induction c and n c arbitrary: v c' and vs c'
    rule: decode_tuple_value_decode_tuple_values.induct)
  case (1 c)
  from "1.prems" obtain tag c1 where u8: "cursor_u8 c = Inr (tag, c1)"
    by (auto simp: decode_tuple_value.simps [of c] res_simps)
  show ?case
  proof (cases "tag = 8")
    case True
    with "1.prems" u8 obtain count c2 vs where *: "cursor_u32 c1 = Inr (count, c2)"
      "decode_tuple_values (unat count) c2 = Inr (vs, c')"
      by (auto simp: decode_tuple_value.simps [of c] res_simps)
    then have "skip_tuple_values (unat count) c2 = Inr c'"
      using "1.IH"[OF u8 refl] True by simp
    with True u8 * show ?thesis by (simp add: skip_tuple_value.simps [of c])
  next
    case False
    with "1.prems" u8 show ?thesis
      by (auto simp: decode_tuple_value.simps [of c] skip_tuple_value.simps [of c] res_simps
          cursor_fixed_defs cursor_skip_segment_iff [of c1] dest!: skip_of_reads split: if_splits)
  qed
next
  case (3 n c)
  then show ?case by (fastforce simp: res_simps)
qed simp

text \<open>The numeric decoder and the general one read the same value.\<close>

lemma decode_tuple_numeric_of_decode:
  assumes "decode_tuple_value c = Inr (v, c')"
  shows "decode_tuple_numeric_value c =
    (case column_value_to_fast_numeric v of
       Some x \<Rightarrow> Inr (x, c')
     | None \<Rightarrow> Inl (user_error ''XX000'' ''tuple value is not numeric''))"
  using assms
  by (auto simp: decode_tuple_value.simps [of c] decode_tuple_numeric_value_def res_simps
      column_value_to_fast_numeric_def split: if_splits)

end
