(* ===== verification/Fixed_Codec.thy ===== *)
theory Fixed_Codec
  imports Tuple_Codec
begin

text \<open>
  The fixed-width half of \<open>storage_layout/tuple_codec.rs\<close>: which column types have a fixed
  width, where their slots lie, and how a slot is written and read back. Columns without a
  fixed width are numbered in the variable directory.
\<close>

section \<open>Widths and offsets\<close>

definition fixed_width :: "data_type \<Rightarrow> nat option" where
  "fixed_width dt =
     (case dt of
        TBoolean \<Rightarrow> Some 1
      | TInt16 \<Rightarrow> Some 2
      | TInt32 \<Rightarrow> Some 4
      | TMySqlInt kind uns \<Rightarrow>
          (if kind \<in> {Tiny, Small} \<and> \<not> uns then Some 2
           else if kind = IntKind \<and> uns then Some 8
           else if kind \<in> {Tiny, Small, Medium} then Some 4
           else if kind = Big \<and> \<not> uns then Some 8
           else if kind = Big \<and> uns then None
           else None)
      | TInt64 \<Rightarrow> Some 8
      | TYear \<Rightarrow> Some 4
      | TBit _ \<Rightarrow> Some 8
      | TFloat32 \<Rightarrow> Some 4
      | TMySqlFloat _ \<Rightarrow> Some 4
      | TFloat64 \<Rightarrow> Some 8
      | TMySqlDouble _ \<Rightarrow> Some 8
      | _ \<Rightarrow> None)"

text \<open>The mapping closures carry the running offset; the recursion has it as an argument.\<close>

fun fixed_offsets_from :: "nat \<Rightarrow> column_schema list \<Rightarrow> nat option list" where
  "fixed_offsets_from offset [] = []"
| "fixed_offsets_from offset (column # cols) =
     (case fixed_width (col_type column) of
        Some width \<Rightarrow> Some offset # fixed_offsets_from (offset + width) cols
      | None \<Rightarrow> None # fixed_offsets_from offset cols)"

definition fixed_offsets_for_columns :: "column_schema list \<Rightarrow> nat option list" where
  "fixed_offsets_for_columns cols = fixed_offsets_from 0 cols"

definition fixed_offsets :: "table_schema \<Rightarrow> nat option list" where
  "fixed_offsets s = fixed_offsets_for_columns (columns s)"

fun variable_positions_from :: "nat \<Rightarrow> column_schema list \<Rightarrow> nat option list" where
  "variable_positions_from position [] = []"
| "variable_positions_from position (column # cols) =
     (if fixed_width (col_type column) \<noteq> None
      then None # variable_positions_from position cols
      else Some position # variable_positions_from (position + 1) cols)"

definition variable_positions_for_columns :: "column_schema list \<Rightarrow> nat option list" where
  "variable_positions_for_columns cols = variable_positions_from 0 cols"

section \<open>Slots\<close>

text \<open>\<open>encode_fixed_value(dst, value)\<close> overwrites the slot \<open>dst\<close> when the value fits it and
  leaves it alone otherwise.\<close>

definition encode_fixed_value :: "bytes \<Rightarrow> column_value \<Rightarrow> bytes" where
  "encode_fixed_value dst v =
     (case v of
        VBoolean b \<Rightarrow> if length dst = 1 then [if b then 1 else 0] else dst
      | VInt16 x \<Rightarrow> if length dst = 2 then to_be_bytes x else dst
      | VInt32 x \<Rightarrow> if length dst = 4 then to_be_bytes x else dst
      | VInt64 x \<Rightarrow> if length dst = 8 then to_be_bytes x else dst
      | VFloat32 x \<Rightarrow> if length dst = 4 then to_be_bytes x else dst
      | VFloat64 x \<Rightarrow> if length dst = 8 then to_be_bytes x else dst
      | _ \<Rightarrow> dst)"

definition decode_mysql_fixed_int :: "my_sql_int_kind \<Rightarrow> bool \<Rightarrow> bytes \<Rightarrow> column_value res" where
  "decode_mysql_fixed_int kind uns bs =
     (if kind \<in> {Tiny, Small} \<and> \<not> uns \<and> length bs = 2 then Inr (VInt16 (from_be_bytes bs))
      else if (kind \<in> {Tiny, Small} \<and> uns \<or> kind = Medium \<or> kind = IntKind \<and> \<not> uns)
              \<and> length bs = 4 then Inr (VInt32 (from_be_bytes bs))
      else if (kind = IntKind \<and> uns \<or> kind = Big \<and> \<not> uns) \<and> length bs = 8
        then Inr (VInt64 (from_be_bytes bs))
      else Inl (user_error ''XX000'' ''fixed MySQL integer type/width mismatch''))"

definition decode_fixed_value :: "data_type \<Rightarrow> bytes \<Rightarrow> column_value res" where
  "decode_fixed_value dt bs =
     (let mismatch = Inl (user_error ''XX000'' ''fixed value type/width mismatch'')
      in case dt of
           TBoolean \<Rightarrow> if length bs = 1 then Inr (VBoolean (bs ! 0 \<noteq> 0)) else mismatch
         | TMySqlInt kind uns \<Rightarrow> decode_mysql_fixed_int kind uns bs
         | TBit _ \<Rightarrow> if length bs = 8 then Inr (VInt64 (from_be_bytes bs)) else mismatch
         | TYear \<Rightarrow> if length bs = 4 then Inr (VInt32 (from_be_bytes bs)) else mismatch
         | TInt16 \<Rightarrow> if length bs = 2 then Inr (VInt16 (from_be_bytes bs)) else mismatch
         | TInt32 \<Rightarrow> if length bs = 4 then Inr (VInt32 (from_be_bytes bs)) else mismatch
         | TInt64 \<Rightarrow> if length bs = 8 then Inr (VInt64 (from_be_bytes bs)) else mismatch
         | TFloat32 \<Rightarrow> if length bs = 4 then Inr (VFloat32 (from_be_bytes bs)) else mismatch
         | TMySqlFloat _ \<Rightarrow> if length bs = 4 then Inr (VFloat32 (from_be_bytes bs)) else mismatch
         | TFloat64 \<Rightarrow> if length bs = 8 then Inr (VFloat64 (from_be_bytes bs)) else mismatch
         | TMySqlDouble _ \<Rightarrow> if length bs = 8 then Inr (VFloat64 (from_be_bytes bs)) else mismatch
         | _ \<Rightarrow> mismatch)"

definition decode_fixed_numeric_value :: "data_type \<Rightarrow> bytes \<Rightarrow> fast_numeric_value res" where
  "decode_fixed_numeric_value dt bs =
     (let mismatch = Inl (user_error ''XX000'' ''fixed numeric type/width mismatch'')
      in case dt of
           TMySqlInt kind uns \<Rightarrow>
             res_bind (decode_mysql_fixed_int kind uns bs) (\<lambda>v.
               case v of
                 VInt16 x \<Rightarrow> Inr (FI64 (scast x))
               | VInt32 x \<Rightarrow> Inr (FI64 (scast x))
               | VInt64 x \<Rightarrow> Inr (FI64 x)
               | _ \<Rightarrow> mismatch)
         | TBit _ \<Rightarrow> if length bs = 8 then Inr (FI64 (from_be_bytes bs)) else mismatch
         | TYear \<Rightarrow>
             if length bs = 4 then Inr (FI64 (scast (from_be_bytes bs :: i32))) else mismatch
         | TInt16 \<Rightarrow>
             if length bs = 2 then Inr (FI64 (scast (from_be_bytes bs :: i16))) else mismatch
         | TInt32 \<Rightarrow>
             if length bs = 4 then Inr (FI64 (scast (from_be_bytes bs :: i32))) else mismatch
         | TInt64 \<Rightarrow> if length bs = 8 then Inr (FI64 (from_be_bytes bs)) else mismatch
         | TFloat32 \<Rightarrow>
             if length bs = 4 then Inr (FF64 (f32_as_f64 (from_be_bytes bs))) else mismatch
         | TMySqlFloat _ \<Rightarrow>
             if length bs = 4 then Inr (FF64 (f32_as_f64 (from_be_bytes bs))) else mismatch
         | TFloat64 \<Rightarrow> if length bs = 8 then Inr (FF64 (from_be_bytes bs)) else mismatch
         | TMySqlDouble _ \<Rightarrow> if length bs = 8 then Inr (FF64 (from_be_bytes bs)) else mismatch
         | _ \<Rightarrow> mismatch)"

section \<open>Slots read back\<close>

lemma length_encode_fixed_value [simp]: "length (encode_fixed_value dst v) = length dst"
  by (simp add: encode_fixed_value_def split: column_value.splits)

lemma decode_encode_fixed_value:
  assumes "fixed_width dt = Some (length dst)" "has_type dt v" "v \<noteq> VNull"
  shows "decode_fixed_value dt (encode_fixed_value dst v) = Inr v"
proof -
  from assms(2,3) have "has_shape dt v" by (simp add: has_type_def)
  with assms(1) show ?thesis
    by (cases dt; cases v)
       (auto simp: fixed_width_def encode_fixed_value_def decode_fixed_value_def
         decode_mysql_fixed_int_def mysql_int_has_type_def split: if_splits my_sql_int_kind.splits)
qed

text \<open>The numeric reader of a slot is the general reader followed by the conversion.\<close>

lemma decode_fixed_numeric_of_decode:
  assumes "decode_fixed_value dt bs = Inr v" "dt \<noteq> TBoolean"
  shows "\<exists>x. column_value_to_fast_numeric v = Some x \<and> decode_fixed_numeric_value dt bs = Inr x"
  using assms
  by (cases dt)
     (auto simp: decode_fixed_value_def decode_fixed_numeric_value_def decode_mysql_fixed_int_def
       column_value_to_fast_numeric_def Let_def split: if_splits)

section \<open>Where the slots lie\<close>

definition width_of :: "column_schema \<Rightarrow> nat" where
  "width_of c = (case fixed_width (col_type c) of Some w \<Rightarrow> w | None \<Rightarrow> 0)"

definition is_variable :: "column_schema \<Rightarrow> bool" where
  "is_variable c = (fixed_width (col_type c) = None)"

definition fixed_region_len :: "column_schema list \<Rightarrow> nat" where
  "fixed_region_len cols = sum_list (List.map_filter (\<lambda>c. fixed_width (col_type c)) cols)"

lemma fixed_region_len_sum: "fixed_region_len cols = sum_list (map width_of cols)"
  by (induction cols)
     (auto simp: fixed_region_len_def width_of_def List.map_filter_def split: option.splits)

lemma length_fixed_offsets [simp]: "length (fixed_offsets_from k cols) = length cols"
  by (induction cols arbitrary: k) (auto split: option.splits)

lemma length_variable_positions [simp]: "length (variable_positions_from k cols) = length cols"
  by (induction cols arbitrary: k) auto

lemma fixed_offsets_nth:
  "i < length cols \<Longrightarrow> fixed_offsets_from k cols ! i =
     (if is_variable (cols ! i) then None else Some (k + sum_list (map width_of (take i cols))))"
proof (induction cols arbitrary: i k)
  case (Cons c cols)
  then show ?case
    by (cases i) (auto simp: is_variable_def [of c] width_of_def [of c] split: option.splits)
qed simp

lemma variable_positions_nth:
  "i < length cols \<Longrightarrow> variable_positions_from k cols ! i =
     (if is_variable (cols ! i) then Some (k + length (filter is_variable (take i cols))) else None)"
proof (induction cols arbitrary: i k)
  case (Cons c cols)
  then show ?case by (cases i) (auto simp: is_variable_def [of c])
qed simp

lemma count_variable_positions:
  "length (filter (\<lambda>p. p \<noteq> None) (variable_positions_from k cols)) = length (filter is_variable cols)"
  by (induction cols arbitrary: k) (auto simp: is_variable_def)

end
