(* ===== verification/Type_Names.thy ===== *)
theory Type_Names
  imports Text_Roundtrip Fixed_Codec
begin

text \<open>
  The names of column types (\<open>types/data_type.rs\<close>): \<open>from_sql\<close> and \<open>from_mysql_sql\<close> read a type
  name, \<open>to_str\<close> prints one. The catalog keeps a column's type as its printed name, so the two
  together decide what a table looks like after it has been stored. The theory shows which types
  come back unchanged and that no type comes back with another shape of stored values.
\<close>

section \<open>Reading and printing\<close>

text \<open>\<open>mysql_type_numbers\<close>: the numbers between the first parentheses.\<close>

definition mysql_type_numbers :: "string \<Rightarrow> nat list" where
  "mysql_type_numbers raw =
     (case split_once CHR ''('' raw of
        None \<Rightarrow> []
      | Some (_, after) \<Rightarrow>
          (case split_once CHR '')'' after of
             None \<Rightarrow> []
           | Some (inner, _) \<Rightarrow>
               List.map_filter (\<lambda>part. parse_unsigned 32 (trim part)) (split_char CHR '','' inner)))"

text \<open>\<open>parse_mysql_string_list\<close>: a state machine over the characters of the list. Pushing a
  character is pushing its bytes, and the characters the machine looks for are ASCII.\<close>

record list_parser =
  lp_values :: "string list"
  lp_current :: string
  lp_in_quote :: bool
  lp_escaped :: bool

definition list_value :: "string \<Rightarrow> string" where
  "list_value s = trim_matches (CHR 0x22) (trim s)"

definition list_char :: "char \<Rightarrow> list_parser \<Rightarrow> list_parser" where
  "list_char ch p =
     (if lp_escaped p then p\<lparr>lp_current := lp_current p @ [ch], lp_escaped := False\<rparr>
      else if ch = CHR 0x5C then p\<lparr>lp_escaped := True\<rparr>
      else if ch = CHR 0x27 then p\<lparr>lp_in_quote := \<not> lp_in_quote p\<rparr>
      else if ch = CHR '','' \<and> \<not> lp_in_quote p then
        p\<lparr>lp_values := lp_values p @ [list_value (lp_current p)], lp_current := []\<rparr>
      else p\<lparr>lp_current := lp_current p @ [ch]\<rparr>)"

definition parse_list_inner :: "string \<Rightarrow> string list" where
  "parse_list_inner inner =
     (let p = fold list_char inner \<lparr>lp_values = [], lp_current = [], lp_in_quote = False, lp_escaped = False\<rparr>
      in if lp_current p \<noteq> [] \<or> ends_with inner '','' then lp_values p @ [list_value (lp_current p)]
         else lp_values p)"

definition parse_mysql_string_list :: "string \<Rightarrow> string list" where
  "parse_mysql_string_list raw =
     (case split_once CHR ''('' raw of
        None \<Rightarrow> []
      | Some (_, after) \<Rightarrow>
          (case rsplit_once CHR '')'' after of None \<Rightarrow> [] | Some (inner, _) \<Rightarrow> parse_list_inner inner))"

definition quote_value :: "string \<Rightarrow> string" where
  "quote_value v =
     [CHR 0x27] @ replace_char (CHR 0x27) [CHR 0x5C, CHR 0x27] (replace_char (CHR 0x5C) [CHR 0x5C, CHR 0x5C] v)
       @ [CHR 0x27]"

definition quote_mysql_string_list :: "string list \<Rightarrow> string" where
  "quote_mysql_string_list values = join '','' (map quote_value values)"

fun as_mysql_name :: "my_sql_int_kind \<Rightarrow> string" where
  "as_mysql_name Tiny = ''TINYINT''"
| "as_mysql_name Small = ''SMALLINT''"
| "as_mysql_name Medium = ''MEDIUMINT''"
| "as_mysql_name IntKind = ''INT''"
| "as_mysql_name Big = ''BIGINT''"

definition or_one :: "nat option \<Rightarrow> nat option" where
  "or_one n = (case n of None \<Rightarrow> Some 1 | Some k \<Rightarrow> Some k)"

text \<open>The \<open>match\<close> on the first word of the name.\<close>

definition named_type :: "bool \<Rightarrow> string \<Rightarrow> string \<Rightarrow> string \<Rightarrow> nat list \<Rightarrow> data_type" where
  "named_type mysql_mode raw upper normalized numbers =
     (let first_number = (case numbers of [] \<Rightarrow> None | n # _ \<Rightarrow> Some n);
          second_number = (case numbers of _ # n # _ \<Rightarrow> Some n | _ \<Rightarrow> None);
          starts = starts_with upper;
          varchar_len = (if starts ''VARCHAR('' \<or> starts ''CHARACTER VARYING('' then first_number else None);
          char_len = (if starts ''CHAR('' \<or> starts ''CHARACTER('' \<or> starts ''BPCHAR('' then first_number else None);
          binary_len = (if starts ''BINARY('' then first_number else None);
          varbinary_len = (if starts ''VARBINARY('' then first_number else None);
          unsigned = (''UNSIGNED'' \<in> set (split_whitespace upper));
          is = (\<lambda>names. normalized \<in> set names);
          zoned = sublist ''WITH TIME ZONE'' upper
      in if is [''TINYINT'', ''UTINYINT''] then TMySqlInt Tiny (unsigned \<or> normalized = ''UTINYINT'')
         else if is [''SMALLINT''] \<and> (mysql_mode \<or> unsigned) then TMySqlInt Small unsigned
         else if is [''MEDIUMINT''] then TMySqlInt Medium unsigned
         else if is [''INT'', ''INTEGER''] \<and> (mysql_mode \<or> unsigned) then TMySqlInt IntKind unsigned
         else if is [''BIGINT''] \<and> (mysql_mode \<or> unsigned) then TMySqlInt Big unsigned
         else if is [''SMALLINT'', ''INT2'', ''SMALLSERIAL'', ''SERIAL2''] then TInt16
         else if is [''INT'', ''INTEGER'', ''INT4'', ''SERIAL''] then TInt32
         else if is [''BIGINT'', ''INT8'', ''BIGSERIAL''] then TInt64
         else if is [''FLOAT''] \<and> numbers \<noteq> [] then TMySqlFloat first_number
         else if is [''REAL'', ''FLOAT'', ''FLOAT4''] then TFloat32
         else if is [''DOUBLE''] \<and> numbers \<noteq> [] then TMySqlDouble first_number
         else if is [''DOUBLE'', ''DOUBLEPRECISION'', ''FLOAT8''] then TFloat64
         else if is [''DECIMAL'', ''NUMERIC''] then TNumeric first_number second_number
         else if is [''BOOL'', ''BOOLEAN''] then TBoolean
         else if is [''TEXT'', ''STRING''] then TText
         else if is [''MYSQL_TEXT''] then TMySqlText (Some 65535) ''text''
         else if is [''TINYTEXT''] then TMySqlText (Some 255) ''tinytext''
         else if is [''MEDIUMTEXT''] then TMySqlText (Some 16777215) ''mediumtext''
         else if is [''LONGTEXT''] then TMySqlText (Some 4294967295) ''longtext''
         else if is [''VARCHAR''] then TVarChar varchar_len
         else if is [''CHAR'', ''CHARACTER'', ''BPCHAR''] then TChar (or_one char_len)
         else if is [''BINARY''] then TBinary (or_one binary_len)
         else if is [''VARBINARY''] then TVarBinary varbinary_len
         else if is [''BIT''] then TBit (or_one first_number)
         else if is [''YEAR''] then TYear
         else if is [''TIME''] then
           (if zoned then TTimeTz else if numbers \<noteq> [] then TMySqlTime first_number else TTime)
         else if is [''TIMETZ''] then TTimeTz
         else if is [''INTERVAL''] then TInterval
         else if is [''DATE''] then TDate
         else if is [''DATETIME''] then TMySqlDateTime first_number
         else if is [''TIMESTAMP''] then
           (if zoned then TTimestampTz else if numbers \<noteq> [] then TMySqlTimestamp first_number else TTimestamp)
         else if is [''TIMESTAMPTZ''] then TTimestampTz
         else if is [''UUID''] then TUuid
         else if is [''BYTEA''] then TBytea
         else if is [''TINYBLOB''] then TBlob (Some 255) ''tinyblob''
         else if is [''BLOB''] then TBlob (Some 65535) ''blob''
         else if is [''MEDIUMBLOB''] then TBlob (Some 16777215) ''mediumblob''
         else if is [''LONGBLOB''] then TBlob (Some 4294967295) ''longblob''
         else if is [''JSON''] then TJson
         else if is [''JSONB''] then TJsonb
         else if is [''GEOMETRY'', ''POINT'', ''LINESTRING'', ''POLYGON'', ''MULTIPOINT'', ''MULTILINESTRING'',
                     ''MULTIPOLYGON'', ''GEOMETRYCOLLECTION''] then TGeometry (to_ascii_lowercase normalized)
         else TDomain raw)"

text \<open>\<open>upper.split_whitespace().next().unwrap_or("").split('(').next()\<close>.\<close>

definition first_word :: "string \<Rightarrow> string" where
  "first_word upper = hd (split_char CHR ''('' (case split_whitespace upper of [] \<Rightarrow> [] | w # _ \<Rightarrow> w))"

lemma length_trim_start: "length (trim_start s) \<le> length s"
proof (induction s rule: trim_start.induct)
  case (1 s)
  then show ?case by (subst trim_start.simps) (auto simp: Let_def)
qed

lemma length_trim_end: "length (trim_end s) \<le> length s"
proof (induction s rule: trim_end.induct)
  case (1 s)
  then show ?case by (subst trim_end.simps) auto
qed

lemma length_trim: "length (trim s) \<le> length s"
  using length_trim_end [of "trim_start s"] length_trim_start [of s] by (simp add: trim_def)

lemma strip_suffix_eq_Some: "(strip_suffix p s = Some t) = (s = t @ p)"
  unfolding strip_suffix_def map_option_eq_Some strip_prefix_eq_Some
  by (metis rev_append rev_rev_ident)

lemma strip_suffix_trim_less: "strip_suffix ''[]'' (trim s) = Some t \<Longrightarrow> length t < length s"
  using length_trim [of s] by (simp add: strip_suffix_eq_Some)

lemma upper_starts_trim: "starts_with (to_ascii_uppercase (trim s)) (c # cs) \<Longrightarrow> trim s \<noteq> []"
  by (auto simp: starts_with_def to_ascii_uppercase_def)

lemma slice_trim_less:
  "starts_with (to_ascii_uppercase (trim s)) ''ARRAY<'' \<Longrightarrow> length (slice (trim s) 6 (length (trim s) - 1)) < length s"
  using length_trim [of s] upper_starts_trim [of s] by (cases "trim s") (auto simp: slice_def)

lemma drop_trim_less: "starts_with (to_ascii_uppercase (trim s)) ''_'' \<Longrightarrow> length (trim s) - Suc 0 < length s"
  using length_trim [of s] upper_starts_trim [of s] by (cases "trim s") auto

function from_sql_with_mode :: "string \<Rightarrow> bool \<Rightarrow> data_type" where
  "from_sql_with_mode sql_type mysql_mode =
     (let raw = trim sql_type; upper = to_ascii_uppercase raw in
      case (case strip_prefix ''DOMAIN('' raw of None \<Rightarrow> None | Some s \<Rightarrow> strip_suffix '')'' s) of
        Some inner \<Rightarrow> TDomain inner
      | None \<Rightarrow>
          (case strip_suffix ''[]'' raw of
             Some inner \<Rightarrow> TArray (from_sql_with_mode inner mysql_mode)
           | None \<Rightarrow>
               if starts_with upper ''ENUM('' then TEnum (parse_mysql_string_list raw)
               else if starts_with upper ''SET('' then TSet (parse_mysql_string_list raw)
               else if starts_with upper ''ARRAY<'' \<and> ends_with upper ''>'' then
                 TArray (from_sql_with_mode (slice raw 6 (length raw - 1)) mysql_mode)
               else if starts_with upper ''_'' then TArray (from_sql_with_mode (drop 1 raw) mysql_mode)
               else named_type mysql_mode raw upper (first_word upper) (mysql_type_numbers raw)))"
  by pat_completeness auto
termination
  by (relation "measure (length \<circ> fst)") (auto dest: strip_suffix_trim_less slice_trim_less drop_trim_less)

declare from_sql_with_mode.simps [simp del]

definition from_sql :: "string \<Rightarrow> data_type" where
  "from_sql sql_type = from_sql_with_mode sql_type False"

definition from_mysql_sql :: "string \<Rightarrow> data_type" where
  "from_mysql_sql sql_type = from_sql_with_mode sql_type True"

definition with_number :: "string \<Rightarrow> nat option \<Rightarrow> string" where
  "with_number name n = (case n of Some k \<Rightarrow> name @ ''('' @ show_nat k @ '')'' | None \<Rightarrow> name)"

primrec to_str :: "data_type \<Rightarrow> string" where
  "to_str TInt16 = ''INT2''"
| "to_str TInt32 = ''INT4''"
| "to_str TInt64 = ''INT8''"
| "to_str (TMySqlInt kind uns) = as_mysql_name kind @ (if uns then '' UNSIGNED'' else [])"
| "to_str TFloat32 = ''FLOAT4''"
| "to_str TFloat64 = ''FLOAT8''"
| "to_str (TMySqlFloat p) = with_number ''FLOAT'' p"
| "to_str (TMySqlDouble p) = with_number ''DOUBLE'' p"
| "to_str (TNumeric p s) =
     (case (p, s) of
        (Some p1, Some s1) \<Rightarrow> ''NUMERIC('' @ show_nat p1 @ '','' @ show_nat s1 @ '')''
      | (Some p1, None) \<Rightarrow> ''NUMERIC('' @ show_nat p1 @ '')''
      | _ \<Rightarrow> ''NUMERIC'')"
| "to_str TText = ''TEXT''"
| "to_str (TMySqlText m n) = (if n = ''text'' then ''MYSQL_TEXT'' else to_ascii_uppercase n)"
| "to_str (TVarChar n) = with_number ''VARCHAR'' n"
| "to_str (TChar n) = with_number ''CHAR'' n"
| "to_str (TBinary n) = with_number ''BINARY'' n"
| "to_str (TVarBinary n) = with_number ''VARBINARY'' n"
| "to_str (TBlob m n) = to_ascii_uppercase n"
| "to_str TBoolean = ''BOOL''"
| "to_str (TBit n) = with_number ''BIT'' n"
| "to_str TYear = ''YEAR''"
| "to_str TDate = ''DATE''"
| "to_str TTime = ''TIME''"
| "to_str (TMySqlTime f) = with_number ''TIME'' f"
| "to_str TTimeTz = ''TIMETZ''"
| "to_str TInterval = ''INTERVAL''"
| "to_str TTimestamp = ''TIMESTAMP''"
| "to_str (TMySqlDateTime f) = with_number ''DATETIME'' f"
| "to_str (TMySqlTimestamp f) = with_number ''TIMESTAMP'' f"
| "to_str TTimestampTz = ''TIMESTAMPTZ''"
| "to_str TUuid = ''UUID''"
| "to_str TBytea = ''BYTEA''"
| "to_str TJson = ''JSON''"
| "to_str TJsonb = ''JSONB''"
| "to_str (TArray inner) = to_str inner @ ''[]''"
| "to_str (TDomain name) = ''DOMAIN('' @ name @ '')''"
| "to_str (TEnum values) = ''ENUM('' @ quote_mysql_string_list values @ '')''"
| "to_str (TSet values) = ''SET('' @ quote_mysql_string_list values @ '')''"
| "to_str (TGeometry name) = to_ascii_uppercase name"

section \<open>Texts without whitespace\<close>

definition plain_char :: "char \<Rightarrow> bool" where
  "plain_char c = (33 \<le> (of_char c :: nat) \<and> of_char c \<le> (126 :: nat))"

lemma plain_no_whitespace: "list_all plain_char s \<Longrightarrow> \<not> has_whitespace s"
proof -
  assume plain: "list_all plain_char s"
  have "list_all (\<lambda>w. w \<noteq> [] \<and> \<not> plain_char (hd w)) whitespace"
    by (simp add: whitespace_def plain_char_def)
  then have "\<not> sublist w s" if "w \<in> set whitespace" for w
    using plain that by (cases w) (auto simp: list_all_iff sublist_def)
  then show ?thesis by (auto simp: has_whitespace_def)
qed

lemma trim_plain: "list_all plain_char s \<Longrightarrow> trim s = s"
  by (simp add: trim_none plain_no_whitespace)

lemma split_ws_plain: "list_all plain_char s \<Longrightarrow> split_ws cur s = (if cur @ s = [] then [] else [cur @ s])"
proof (induction s arbitrary: cur)
  case (Cons c s)
  have "ws_len (c # s) = 0" using Cons.prems by (intro ws_len_none plain_no_whitespace)
  then show ?case using Cons by (subst split_ws.simps) simp
qed (simp add: split_ws.simps)

lemma split_whitespace_plain: "list_all plain_char s \<Longrightarrow> s \<noteq> [] \<Longrightarrow> split_whitespace s = [s]"
  by (simp add: split_whitespace_def split_ws_plain)

lemma split_char_none [simp]: "c \<notin> set a \<Longrightarrow> split_char c a = [a]"
  by (induction a) auto

lemma split_char_append: "c \<notin> set a \<Longrightarrow> split_char c (a @ c # r) = a # split_char c r"
  by (induction a) auto

lemma split_once_append: "c \<notin> set a \<Longrightarrow> split_once c (a @ c # r) = Some (a, r)"
proof -
  assume "c \<notin> set a"
  then have "dropWhile (\<lambda>x. x \<noteq> c) (a @ c # r) = c # r" "takeWhile (\<lambda>x. x \<noteq> c) (a @ c # r) = a"
    by (induction a) auto
  then show ?thesis by (simp add: split_once_def)
qed

lemma rsplit_once_append: "c \<notin> set r \<Longrightarrow> rsplit_once c (a @ c # r) = Some (a, r)"
  using split_once_append [of c "rev r" "rev a"] by (simp add: rsplit_once_def)

text \<open>A text that neither begins nor ends with whitespace; every whitespace character ends with a
  byte above 126 or below 33.\<close>

lemma trim_ends:
  assumes "plain_char a" "plain_char b"
  shows "trim (a # s @ [b]) = a # s @ [b]" "trim [a] = [a]"
proof -
  have ends: "list_all (\<lambda>w. w \<noteq> [] \<and> \<not> plain_char (hd w) \<and> \<not> plain_char (last w)) whitespace"
    by (simp add: whitespace_def plain_char_def)
  have "find (\<lambda>w. starts_with (a # t) w) whitespace = None" for t
    using ends assms(1) by (fastforce simp: find_None_iff list_all_iff starts_with_iff Cons_eq_append_conv)
  then have 1: "ws_len (a # t) = 0" for t by (simp add: ws_len_def)
  have "\<not> starts_with (b # t) (rev w)" if "w \<in> set whitespace" for w t
    using ends assms(2) that by (cases w rule: rev_cases) (auto simp: list_all_iff starts_with_def)
  then have "find (\<lambda>w. starts_with (b # t) (rev w)) whitespace = None" for t by (simp add: find_None_iff)
  then have 2: "ws_suffix_len (t @ [b]) = 0" for t by (simp add: ws_suffix_len_def)
  show "trim (a # s @ [b]) = a # s @ [b]"
    using 1 2 [of "a # s"] by (simp add: trim_def trim_start.simps [of "a # _"] trim_end.simps [of "a # _"])
  show "trim [a] = [a]" using trim_plain [of "[a]"] assms(1) by simp
qed

section \<open>Lists of values\<close>

definition escape_char :: "char \<Rightarrow> string" where
  "escape_char c = (if c = CHR 0x5C \<or> c = CHR 0x27 then [CHR 0x5C, c] else [c])"

lemma quote_value_chars: "quote_value v = CHR 0x27 # concat (map escape_char v) @ [CHR 0x27]"
proof -
  have "replace_char (CHR 0x27) [CHR 0x5C, CHR 0x27] (replace_char (CHR 0x5C) [CHR 0x5C, CHR 0x5C] v)
      = concat (map escape_char v)"
    by (induction v) (simp_all add: replace_char_def escape_char_def)
  then show ?thesis by (simp add: quote_value_def)
qed

abbreviation at_item :: "string list \<Rightarrow> string \<Rightarrow> list_parser" where
  "at_item out cur \<equiv> \<lparr>lp_values = out, lp_current = cur, lp_in_quote = False, lp_escaped = False\<rparr>"

lemma fold_list_char_quoted: "fold list_char (quote_value v) (at_item out cur) = at_item out (cur @ v)"
proof -
  have "fold list_char (concat (map escape_char v)) ((at_item out cur)\<lparr>lp_in_quote := True\<rparr>) =
      (at_item out (cur @ v))\<lparr>lp_in_quote := True\<rparr>"
    by (induction v arbitrary: cur) (simp_all add: escape_char_def list_char_def)
  then show ?thesis by (simp add: quote_value_chars list_char_def)
qed

lemma fold_list_char_join:
  "vs \<noteq> [] \<Longrightarrow> fold list_char (join '','' (map quote_value vs)) (at_item out []) =
     at_item (out @ map list_value (butlast vs)) (last vs)"
proof (induction vs arbitrary: out rule: induct_list012)
  case (3 x y zs)
  have "fold list_char '','' (at_item out x) = at_item (out @ [list_value x]) []"
    by (simp add: list_char_def)
  with 3 show ?case by (simp add: fold_list_char_quoted)
qed (simp_all add: fold_list_char_quoted)

text \<open>What a printed list of out is read as: each value loses the whitespace and the double
  quotes around it, and a list that ends with the empty value loses that value.\<close>

definition reread_values :: "string list \<Rightarrow> string list" where
  "reread_values vs = (if vs = [] \<or> last vs \<noteq> [] then map list_value vs else map list_value (butlast vs))"

lemma parse_quoted_list: "parse_list_inner (quote_mysql_string_list vs) = reread_values vs"
proof (cases "vs = []")
  case False
  then obtain us v where vs: "vs = us @ [v]" by (metis rev_exhaust)
  have "join '','' (map quote_value (us @ [v])) = t @ [CHR 0x27] \<Longrightarrow> \<not> ends_with (join '','' (map quote_value (us @ [v]))) '',''" for t
    by (simp add: ends_with_def starts_with_def)
  moreover have "\<exists>t. join '','' (map quote_value (us @ [v])) = t @ [CHR 0x27]"
    by (induction us rule: induct_list012) (auto simp: quote_value_chars)
  ultimately have "\<not> ends_with (quote_mysql_string_list vs) '',''" by (auto simp: quote_mysql_string_list_def vs)
  then show ?thesis
    using False fold_list_char_join [OF False, of "[]"]
    by (simp add: parse_list_inner_def reread_values_def quote_mysql_string_list_def Let_def vs)
qed (simp add: parse_list_inner_def reread_values_def quote_mysql_string_list_def ends_with_def starts_with_def)

lemma parse_mysql_list:
  "CHR ''('' \<notin> set name \<Longrightarrow> parse_mysql_string_list (name @ ''('' @ quote_mysql_string_list vs @ '')'') = reread_values vs"
  using split_once_append [of "CHR ''(''" name "quote_mysql_string_list vs @ '')''"]
    rsplit_once_append [of "CHR '')''" "[]" "quote_mysql_string_list vs"]
  by (simp add: parse_mysql_string_list_def parse_quoted_list)

section \<open>A type through its name\<close>

text \<open>The types the program builds: numbers are 32 bits wide, and the names of MySQL texts, blobs and
  geometries are the ones \<open>from_sql_with_mode\<close> gives.\<close>

definition num_ok :: "nat option \<Rightarrow> bool" where
  "num_ok n = (\<forall>k. n = Some k \<longrightarrow> k < 2 ^ 32)"

definition mysql_texts :: "(nat option \<times> string) list" where
  "mysql_texts =
     [(Some 65535, ''text''), (Some 255, ''tinytext''), (Some 16777215, ''mediumtext''), (Some 4294967295, ''longtext'')]"

definition mysql_blobs :: "(nat option \<times> string) list" where
  "mysql_blobs =
     [(Some 255, ''tinyblob''), (Some 65535, ''blob''), (Some 16777215, ''mediumblob''), (Some 4294967295, ''longblob'')]"

definition geometries :: "string list" where
  "geometries = [''geometry'', ''point'', ''linestring'', ''polygon'', ''multipoint'', ''multilinestring'',
     ''multipolygon'', ''geometrycollection'']"

primrec type_wf :: "data_type \<Rightarrow> bool" where
  "type_wf TInt16 = True"
| "type_wf TInt32 = True"
| "type_wf TInt64 = True"
| "type_wf (TMySqlInt k u) = True"
| "type_wf TFloat32 = True"
| "type_wf TFloat64 = True"
| "type_wf (TMySqlFloat p) = num_ok p"
| "type_wf (TMySqlDouble p) = num_ok p"
| "type_wf (TNumeric p s) = (num_ok p \<and> num_ok s)"
| "type_wf TText = True"
| "type_wf (TMySqlText m n) = ((m, n) \<in> set mysql_texts)"
| "type_wf (TVarChar n) = num_ok n"
| "type_wf (TChar n) = num_ok n"
| "type_wf (TBinary n) = num_ok n"
| "type_wf (TVarBinary n) = num_ok n"
| "type_wf (TBlob m n) = ((m, n) \<in> set mysql_blobs)"
| "type_wf TBoolean = True"
| "type_wf (TBit n) = num_ok n"
| "type_wf TYear = True"
| "type_wf TDate = True"
| "type_wf TTime = True"
| "type_wf (TMySqlTime f) = num_ok f"
| "type_wf TTimeTz = True"
| "type_wf TInterval = True"
| "type_wf TTimestamp = True"
| "type_wf (TMySqlDateTime f) = num_ok f"
| "type_wf (TMySqlTimestamp f) = num_ok f"
| "type_wf TTimestampTz = True"
| "type_wf TUuid = True"
| "type_wf TBytea = True"
| "type_wf TJson = True"
| "type_wf TJsonb = True"
| "type_wf (TArray d) = type_wf d"
| "type_wf (TDomain n) = True"
| "type_wf (TEnum vs) = True"
| "type_wf (TSet vs) = True"
| "type_wf (TGeometry n) = (n \<in> set geometries)"

text \<open>What a type is read back as.\<close>

fun reloaded :: "data_type \<Rightarrow> data_type" where
  "reloaded (TMySqlInt Small False) = TInt16"
| "reloaded (TMySqlInt IntKind False) = TInt32"
| "reloaded (TMySqlInt Big False) = TInt64"
| "reloaded (TMySqlFloat None) = TFloat32"
| "reloaded (TMySqlDouble None) = TFloat64"
| "reloaded (TNumeric None s) = TNumeric None None"
| "reloaded (TChar None) = TChar (Some 1)"
| "reloaded (TBinary None) = TBinary (Some 1)"
| "reloaded (TBit None) = TBit (Some 1)"
| "reloaded (TMySqlTime None) = TTime"
| "reloaded (TMySqlTimestamp None) = TTimestamp"
| "reloaded (TArray d) = TArray (reloaded d)"
| "reloaded (TEnum vs) = TEnum (reread_values vs)"
| "reloaded (TSet vs) = TSet (reread_values vs)"
| "reloaded dt = dt"

lemma show_nat_plain: "list_all plain_char (show_nat n)"
  using show_nat_digits [of n] by (auto simp: list_all_iff is_digit_def plain_char_def less_eq_char_def)

lemma show_nat_free: "\<not> is_digit c \<Longrightarrow> c \<notin> set (show_nat n)"
  using show_nat_digits [of n] by (auto simp: list_all_iff)

lemma show_nat_upper: "to_ascii_uppercase (show_nat n) = show_nat n"
  using show_nat_digits [of n] unfolding to_ascii_uppercase_def
  by (intro map_idI) (auto simp: list_all_iff is_digit_def ascii_upper_char_def less_eq_char_def Let_def)

text \<open>A name of capitals with arguments that hold no space.\<close>

definition capitals :: "string \<Rightarrow> bool" where
  "capitals s = (s \<noteq> [] \<and> list_all (\<lambda>c. CHR ''A'' \<le> c \<and> c \<le> CHR ''Z'') s)"

lemma capitals_facts:
  assumes "capitals name"
  shows "list_all plain_char name" "CHR ''('' \<notin> set name" "to_ascii_uppercase name = name"
proof -
  show "list_all plain_char name"
    using assms by (auto simp: capitals_def list_all_iff plain_char_def less_eq_char_def)
  show "CHR ''('' \<notin> set name" using assms by (auto simp: capitals_def list_all_iff less_eq_char_def)
  show "to_ascii_uppercase name = name" using assms unfolding to_ascii_uppercase_def
    by (intro map_idI) (auto simp: capitals_def list_all_iff ascii_upper_char_def less_eq_char_def Let_def)
qed

lemma from_sql_arguments:
  assumes "capitals name" "name \<notin> {''DOMAIN'', ''ENUM'', ''SET''}" "list_all plain_char args"
    "to_ascii_uppercase args = args"
  defines "raw \<equiv> name @ ''('' @ args @ '')''"
  shows "from_sql_with_mode raw mode = named_type mode raw raw name (mysql_type_numbers raw)"
    and "split_whitespace raw = [raw]" and "CHR '' '' \<notin> set raw"
proof -
  note facts = capitals_facts [OF assms(1)]
  have plain: "list_all plain_char raw" using facts(1) assms(3) by (simp add: raw_def plain_char_def)
  have upper: "to_ascii_uppercase raw = raw"
    using facts(3) assms(4) by (simp add: raw_def to_ascii_uppercase_def ascii_upper_char_def)
  show words: "split_whitespace raw = [raw]" by (rule split_whitespace_plain [OF plain]) (simp add: raw_def)
  show "CHR '' '' \<notin> set raw" using plain by (auto simp: list_all_iff plain_char_def)
  have first: "first_word raw = name"
    using split_char_append [OF facts(2)] by (simp add: first_word_def words) (simp add: raw_def)
  have no_prefix: "\<not> starts_with raw (p @ ''('')" if "name \<noteq> p" "CHR ''('' \<notin> set p" for p
    using that facts(2) by (auto simp: raw_def starts_with_iff append_eq_append_conv2 append_eq_Cons_conv Cons_eq_append_conv)
  have others: "\<not> starts_with raw ''_''" "\<not> ends_with raw ''>''" "strip_suffix ''[]'' raw = None"
    using assms(1) by (auto simp: raw_def starts_with_def capitals_def ends_with_def strip_suffix_def strip_prefix_def
        Cons_eq_append_conv less_eq_char_def neq_Nil_conv)
  have "strip_prefix ''DOMAIN('' raw = None" "\<not> starts_with raw ''ENUM(''" "\<not> starts_with raw ''SET(''"
    using no_prefix [of "''DOMAIN''"] no_prefix [of "''ENUM''"] no_prefix [of "''SET''"] assms(2)
    by (auto simp: strip_prefix_def starts_with_def)
  then show "from_sql_with_mode raw mode = named_type mode raw raw name (mysql_type_numbers raw)"
    by (subst from_sql_with_mode.simps) (simp add: trim_plain [OF plain] upper others first Let_def)
qed

lemma numbers_one: "CHR ''('' \<notin> set name \<Longrightarrow> k < 2 ^ 32 \<Longrightarrow> mysql_type_numbers (name @ ''('' @ show_nat k @ '')'') = [k]"
  using split_once_append [of "CHR ''(''" name "show_nat k @ '')''"] split_once_append [of "CHR '')''" "show_nat k" "[]"]
  by (simp add: mysql_type_numbers_def show_nat_free is_digit_def less_eq_char_def List.map_filter_simps
      trim_plain [OF show_nat_plain] parse_unsigned_show_nat)

lemma numbers_two:
  assumes "CHR ''('' \<notin> set name" "k < 2 ^ 32" "l < 2 ^ 32"
  shows "mysql_type_numbers (name @ ''('' @ show_nat k @ '','' @ show_nat l @ '')'') = [k, l]"
  using split_once_append [OF assms(1), of "show_nat k @ '','' @ show_nat l @ '')''"]
    split_once_append [of "CHR '')''" "show_nat k @ '','' @ show_nat l" "[]"]
    split_char_append [of "CHR '',''" "show_nat k" "show_nat l"] assms(2,3)
  by (simp add: mysql_type_numbers_def show_nat_free is_digit_def less_eq_char_def List.map_filter_simps
      trim_plain [OF show_nat_plain] parse_unsigned_show_nat)

lemma no_space_no_zone: "CHR '' '' \<notin> set s \<Longrightarrow> \<not> sublist ''WITH TIME ZONE'' s"
  by (auto simp: sublist_def)

lemma from_sql_with_number:
  assumes "capitals name" "name \<notin> {''DOMAIN'', ''ENUM'', ''SET''}" "k < 2 ^ 32"
  defines "raw \<equiv> name @ ''('' @ show_nat k @ '')''"
  shows "from_sql_with_mode raw mode = named_type mode raw raw name [k]"
    and "split_whitespace raw = [raw]" and "\<not> sublist ''WITH TIME ZONE'' raw"
  using from_sql_arguments [OF assms(1,2) show_nat_plain show_nat_upper, of k] assms(3)
    capitals_facts(2) [OF assms(1)]
  by (simp_all add: raw_def numbers_one no_space_no_zone del: append_Cons append.simps)

lemmas named_type_eval = named_type_def Let_def starts_with_def or_one_def

lemma reload_numbered:
  assumes "k < 2 ^ 32"
  shows "from_sql_with_mode (''FLOAT('' @ show_nat k @ '')'') False = TMySqlFloat (Some k)"
    "from_sql_with_mode (''DOUBLE('' @ show_nat k @ '')'') False = TMySqlDouble (Some k)"
    "from_sql_with_mode (''NUMERIC('' @ show_nat k @ '')'') False = TNumeric (Some k) None"
    "from_sql_with_mode (''VARCHAR('' @ show_nat k @ '')'') False = TVarChar (Some k)"
    "from_sql_with_mode (''CHAR('' @ show_nat k @ '')'') False = TChar (Some k)"
    "from_sql_with_mode (''BINARY('' @ show_nat k @ '')'') False = TBinary (Some k)"
    "from_sql_with_mode (''VARBINARY('' @ show_nat k @ '')'') False = TVarBinary (Some k)"
    "from_sql_with_mode (''BIT('' @ show_nat k @ '')'') False = TBit (Some k)"
    "from_sql_with_mode (''TIME('' @ show_nat k @ '')'') False = TMySqlTime (Some k)"
    "from_sql_with_mode (''DATETIME('' @ show_nat k @ '')'') False = TMySqlDateTime (Some k)"
    "from_sql_with_mode (''TIMESTAMP('' @ show_nat k @ '')'') False = TMySqlTimestamp (Some k)"
proof -
  note rules = from_sql_with_number [OF _ _ assms] and evals = capitals_def less_eq_char_def named_type_eval
  show "from_sql_with_mode (''FLOAT('' @ show_nat k @ '')'') False = TMySqlFloat (Some k)"
    using rules [of "''FLOAT''"] by (simp add: evals)
  show "from_sql_with_mode (''DOUBLE('' @ show_nat k @ '')'') False = TMySqlDouble (Some k)"
    using rules [of "''DOUBLE''"] by (simp add: evals)
  show "from_sql_with_mode (''NUMERIC('' @ show_nat k @ '')'') False = TNumeric (Some k) None"
    using rules [of "''NUMERIC''"] by (simp add: evals)
  show "from_sql_with_mode (''VARCHAR('' @ show_nat k @ '')'') False = TVarChar (Some k)"
    using rules [of "''VARCHAR''"] by (simp add: evals)
  show "from_sql_with_mode (''CHAR('' @ show_nat k @ '')'') False = TChar (Some k)"
    using rules [of "''CHAR''"] by (simp add: evals)
  show "from_sql_with_mode (''BINARY('' @ show_nat k @ '')'') False = TBinary (Some k)"
    using rules [of "''BINARY''"] by (simp add: evals)
  show "from_sql_with_mode (''VARBINARY('' @ show_nat k @ '')'') False = TVarBinary (Some k)"
    using rules [of "''VARBINARY''"] by (simp add: evals)
  show "from_sql_with_mode (''BIT('' @ show_nat k @ '')'') False = TBit (Some k)"
    using rules [of "''BIT''"] by (simp add: evals)
  show "from_sql_with_mode (''TIME('' @ show_nat k @ '')'') False = TMySqlTime (Some k)"
    using rules [of "''TIME''"] by (simp add: evals)
  show "from_sql_with_mode (''DATETIME('' @ show_nat k @ '')'') False = TMySqlDateTime (Some k)"
    using rules [of "''DATETIME''"] by (simp add: evals)
  show "from_sql_with_mode (''TIMESTAMP('' @ show_nat k @ '')'') False = TMySqlTimestamp (Some k)"
    using rules [of "''TIMESTAMP''"] by (simp add: evals)
qed

lemma reload_numeric:
  assumes "k < 2 ^ 32" "l < 2 ^ 32"
  shows "from_sql_with_mode (''NUMERIC('' @ show_nat k @ '','' @ show_nat l @ '')'') False = TNumeric (Some k) (Some l)"
proof -
  let ?args = "show_nat k @ '','' @ show_nat l"
  have plain: "list_all plain_char ?args" by (simp add: show_nat_plain plain_char_def)
  have upper: "to_ascii_uppercase ?args = ?args"
    using show_nat_upper [of k] show_nat_upper [of l] by (simp add: to_ascii_uppercase_def ascii_upper_char_def)
  show ?thesis
    using from_sql_arguments [of "''NUMERIC''", OF _ _ plain upper] numbers_two [of "''NUMERIC''" k l] assms
    by (simp add: capitals_def less_eq_char_def named_type_eval)
qed

text \<open>A name without arguments.\<close>

lemma from_sql_no_arguments:
  assumes "trim raw = raw" "to_ascii_uppercase raw = raw" "CHR ''('' \<notin> set raw" "raw \<noteq> []"
    "hd raw \<noteq> CHR ''_''" "last raw \<noteq> CHR '']''" "last raw \<noteq> CHR ''>''"
  shows "from_sql_with_mode raw mode = named_type mode raw raw (first_word raw) []"
proof -
  have open_free: "\<not> starts_with raw (p @ ''('')" "strip_prefix (p @ ''('') raw = None" for p
    using assms(3) by (auto simp: starts_with_iff strip_prefix_eq_Some simp flip: not_Some_eq)
  have none: "dropWhile (\<lambda>x. x \<noteq> CHR ''('') raw = []" using assms(3) by auto
  have "\<not> starts_with raw ''_''" "\<not> ends_with raw ''>''" "strip_suffix ''[]'' raw = None"
    using assms(4-7) by (auto simp: starts_with_iff ends_with_def strip_suffix_eq_Some simp flip: not_Some_eq)
  then show ?thesis
    using open_free [of "''DOMAIN''"] open_free [of "''ENUM''"] open_free [of "''SET''"]
    by (subst from_sql_with_mode.simps)
      (simp add: assms(1,2) mysql_type_numbers_def split_once_def none Let_def)
qed

lemma from_sql_word:
  assumes "list_all plain_char raw" "to_ascii_uppercase raw = raw" "CHR ''('' \<notin> set raw" "raw \<noteq> []"
    "hd raw \<noteq> CHR ''_''" "last raw \<noteq> CHR '']''" "last raw \<noteq> CHR ''>''"
  shows "from_sql_with_mode raw mode = named_type mode raw raw raw []"
    and "split_whitespace raw = [raw]" and "\<not> sublist ''WITH TIME ZONE'' raw"
proof -
  show words: "split_whitespace raw = [raw]" by (rule split_whitespace_plain [OF assms(1,4)])
  have "CHR '' '' \<notin> set raw" using assms(1) by (auto simp: list_all_iff plain_char_def)
  then show "\<not> sublist ''WITH TIME ZONE'' raw" by (rule no_space_no_zone)
  show "from_sql_with_mode raw mode = named_type mode raw raw raw []"
    using from_sql_no_arguments [OF trim_plain [OF assms(1)] assms(2-7)] assms(3) by (simp add: first_word_def words)
qed

lemmas word_eval = from_sql_word plain_char_def to_ascii_uppercase_def ascii_upper_char_def named_type_eval

lemma reload_words:
  "list_all (\<lambda>dt. from_sql_with_mode (to_str dt) False = reloaded dt)
     [TInt16, TInt32, TInt64, TFloat32, TFloat64, TMySqlFloat None, TMySqlDouble None, TNumeric None None, TText,
      TVarChar None, TChar None, TBinary None, TVarBinary None, TBoolean, TBit None, TYear]"
  "list_all (\<lambda>dt. from_sql_with_mode (to_str dt) False = reloaded dt)
     [TDate, TTime, TMySqlTime None, TTimeTz, TInterval, TTimestamp, TMySqlDateTime None, TMySqlTimestamp None,
      TTimestampTz, TUuid, TBytea, TJson, TJsonb]"
  "list_all (\<lambda>k. from_sql_with_mode (to_str (TMySqlInt k False)) False = reloaded (TMySqlInt k False))
     [Tiny, Small, Medium, IntKind, Big]"
  by (simp_all add: word_eval with_number_def)

lemma upper_names:
  "map to_ascii_uppercase [''text'', ''tinytext'', ''mediumtext'', ''longtext'']
     = [''TEXT'', ''TINYTEXT'', ''MEDIUMTEXT'', ''LONGTEXT'']"
  "map to_ascii_uppercase [''tinyblob'', ''blob'', ''mediumblob'', ''longblob'']
     = [''TINYBLOB'', ''BLOB'', ''MEDIUMBLOB'', ''LONGBLOB'']"
  "map to_ascii_uppercase geometries = [''GEOMETRY'', ''POINT'', ''LINESTRING'', ''POLYGON'', ''MULTIPOINT'',
     ''MULTILINESTRING'', ''MULTIPOLYGON'', ''GEOMETRYCOLLECTION'']"
  by code_simp+

lemma lower_geometries: "map (to_ascii_lowercase \<circ> to_ascii_uppercase) geometries = geometries"
  by code_simp

lemma reload_mysql_words:
  "list_all (\<lambda>(m, n). from_sql_with_mode (to_str (TMySqlText m n)) False = TMySqlText m n) mysql_texts"
  "list_all (\<lambda>(m, n). from_sql_with_mode (to_str (TBlob m n)) False = TBlob m n) mysql_blobs"
  using upper_names(1,2) by (simp_all add: mysql_texts_def mysql_blobs_def) (simp_all add: word_eval)

lemma reload_geometries: "list_all (\<lambda>n. from_sql_with_mode (to_str (TGeometry n)) False = TGeometry n) geometries"
  using upper_names(3) lower_geometries by (simp add: geometries_def) (simp add: word_eval)

text \<open>The unsigned integers, the only names of two words.\<close>

lemma ws_len_plain_char: "plain_char c \<Longrightarrow> ws_len (c # s) = 0"
proof -
  assume "plain_char c"
  moreover have "list_all (\<lambda>w. w \<noteq> [] \<and> \<not> plain_char (hd w)) whitespace"
    by (simp add: whitespace_def plain_char_def)
  ultimately have "find (\<lambda>w. starts_with (c # s) w) whitespace = None"
    by (fastforce simp: find_None_iff list_all_iff starts_with_iff Cons_eq_append_conv)
  then show ?thesis by (simp add: ws_len_def)
qed

lemma ws_len_space: "ws_len (CHR '' '' # s) = 1"
proof -
  have "(CHR '' '' = char_of (n :: nat)) = (n mod 256 = 32)" for n
    using char_of_eq_iff [of n "CHR '' ''"] by (auto simp: take_bit_eq_mod)
  then show ?thesis by (simp add: ws_len_def whitespace_def starts_with_def)
qed

lemma split_ws_space:
  "list_all plain_char a \<Longrightarrow> split_ws cur (a @ CHR '' '' # r) = (if cur @ a = [] then [] else [cur @ a]) @ split_ws [] r"
proof (induction a arbitrary: cur)
  case Nil
  then show ?case by (subst split_ws.simps) (simp add: ws_len_space)
next
  case (Cons c a)
  then show ?case by (subst split_ws.simps) (simp add: ws_len_plain_char)
qed

lemma reload_unsigned: "from_sql_with_mode (to_str (TMySqlInt k True)) False = TMySqlInt k True"
proof -
  let ?n = "as_mysql_name k" and ?raw = "as_mysql_name k @ '' UNSIGNED''"
  have name: "capitals ?n" by (cases k) (simp_all add: capitals_def less_eq_char_def)
  note facts = capitals_facts [OF this]
  have upper: "to_ascii_uppercase ?raw = ?raw" using facts(3) by (simp add: to_ascii_uppercase_def ascii_upper_char_def)
  obtain c s where "?n = c # s" "plain_char c" using name facts(1) by (cases ?n) (auto simp: capitals_def)
  then have trim: "trim ?raw = ?raw" using trim_ends(1) [of c "CHR ''D''" "s @ '' UNSIGNE''"] by (simp add: plain_char_def)
  have words: "split_whitespace ?raw = [?n, ''UNSIGNED'']"
    using split_ws_space [OF facts(1), of "[]" "''UNSIGNED''"] name
    by (simp add: split_whitespace_def split_ws_plain plain_char_def capitals_def)
  have "first_word ?raw = ?n" by (simp only: first_word_def words list.case split_char_none [OF facts(2)] list.sel)
  moreover have "hd ?raw \<noteq> CHR ''_''" using name by (cases k) simp_all
  ultimately have "from_sql_with_mode ?raw False = named_type False ?raw ?raw ?n []"
    using from_sql_no_arguments [OF trim upper, of False] facts(2) by simp
  moreover have "''UNSIGNED'' \<in> set (split_whitespace ?raw)" by (simp add: words)
  ultimately show ?thesis by (cases k) (simp_all add: named_type_eval)
qed

text \<open>The first and the last character of a printed type.\<close>

lemma to_str_ends: "type_wf dt \<Longrightarrow> \<exists>a s b. to_str dt = a # s @ [b] \<and> plain_char a \<and> plain_char b"
proof -
  have ends: "\<exists>a s b. t = a # s @ [b] \<and> plain_char a \<and> plain_char b"
    if "1 < length t" "plain_char (hd t)" "plain_char (last t)" for t
    using that by (cases t; cases "tl t" rule: rev_cases) auto
  assume "type_wf dt"
  then have "1 < length (to_str dt) \<and> plain_char (hd (to_str dt)) \<and> plain_char (last (to_str dt))"
  proof (induction dt)
    case (TMySqlInt k u)
    then show ?case by (cases k) (simp_all add: plain_char_def)
  next
    case (TGeometry n)
    then show ?case using upper_names(3) by (auto simp: geometries_def plain_char_def)
  next
    case (TMySqlText m n)
    then show ?case using upper_names(1) by (auto simp: mysql_texts_def plain_char_def)
  next
    case (TBlob m n)
    then show ?case using upper_names(2) by (auto simp: mysql_blobs_def plain_char_def)
  next
    case (TArray dt)
    then show ?case by (cases "to_str dt") (simp_all add: plain_char_def)
  qed (auto simp: with_number_def plain_char_def split: option.splits)
  then show ?thesis using ends by blast
qed

lemma trim_to_str: "type_wf dt \<Longrightarrow> trim (to_str dt) = to_str dt"
  using to_str_ends [of dt] trim_ends by fastforce

lemma reload_listed:
  shows "from_sql_with_mode (to_str (TEnum vs)) mode = TEnum (reread_values vs)"
    and "from_sql_with_mode (to_str (TSet vs)) mode = TSet (reread_values vs)"
    and "from_sql_with_mode (to_str (TDomain n)) mode = TDomain n"
proof -
  note open_eval = strip_prefix_def starts_with_def to_ascii_uppercase_def ascii_upper_char_def
  have no_array: "strip_suffix ''[]'' (s @ '')'') = None" for s by (simp add: strip_suffix_def strip_prefix_def)
  show "from_sql_with_mode (to_str (TEnum vs)) mode = TEnum (reread_values vs)"
    using trim_to_str [of "TEnum vs"] parse_mysql_list [of "''ENUM''" vs] no_array [of "''ENUM('' @ quote_mysql_string_list vs"]
    by (subst from_sql_with_mode.simps) (simp add: Let_def open_eval)
  show "from_sql_with_mode (to_str (TSet vs)) mode = TSet (reread_values vs)"
    using trim_to_str [of "TSet vs"] parse_mysql_list [of "''SET''" vs] no_array [of "''SET('' @ quote_mysql_string_list vs"]
    by (subst from_sql_with_mode.simps) (simp add: Let_def open_eval)
  show "from_sql_with_mode (to_str (TDomain n)) mode = TDomain n"
    using trim_to_str [of "TDomain n"] strip_suffix_eq_Some [of "'')''" "n @ '')''" n]
    by (subst from_sql_with_mode.simps) (simp add: Let_def open_eval)
qed

lemma reload_type: "type_wf dt \<Longrightarrow> from_sql_with_mode (to_str dt) False = reloaded dt"
proof (induction dt)
  case (TArray dt)
  have "last (to_str dt @ ''[]'') \<noteq> CHR '')''" by simp
  then have domain: "(case strip_prefix ''DOMAIN('' (to_str dt @ ''[]'') of None \<Rightarrow> None | Some s \<Rightarrow> strip_suffix '')'' s) = None"
    by (auto simp: strip_prefix_eq_Some strip_suffix_eq_Some split: option.splits simp flip: not_Some_eq)
  have "strip_suffix ''[]'' (to_str dt @ ''[]'') = Some (to_str dt)" by (simp add: strip_suffix_eq_Some)
  with domain show ?case
    using TArray trim_to_str [of "TArray dt"] by (subst from_sql_with_mode.simps) (simp add: Let_def)
next
  case (TMySqlInt k u)
  then show ?case using reload_words(3) reload_unsigned [of k] by (cases k; cases u) simp_all
next
  case (TMySqlText m n)
  then show ?case using reload_mysql_words(1) by (auto simp: list_all_iff simp del: to_str.simps)
next
  case (TBlob m n)
  then show ?case using reload_mysql_words(2) by (auto simp: list_all_iff simp del: to_str.simps)
next
  case (TGeometry n)
  then show ?case using reload_geometries by (auto simp: list_all_iff simp del: to_str.simps)
next
  case (TNumeric p s)
  then show ?case using reload_words(1) reload_numbered(3) reload_numeric
    by (cases p; cases s) (simp_all add: num_ok_def)
qed (use reload_words(1,2) reload_numbered reload_listed in \<open>simp_all add: num_ok_def with_number_def split: option.splits\<close>)

text \<open>A reloaded type stores the same values, and all types but one store them in the same place of
  a record: the MySQL type \<open>INT\<close> has no fixed slot, the type it is read back as has one.\<close>

lemma reloaded_shape: "has_shape (reloaded dt) v = has_shape dt v"
proof (induction dt arbitrary: v rule: reloaded.induct)
  case (12 d)
  then show ?case by (auto split: column_value.splits)
qed (simp_all add: mysql_int_has_type_def)

lemma reloaded_type: "has_type (reloaded dt) v = has_type dt v"
  by (simp add: has_type_def reloaded_shape)

lemma reloaded_width: "(fixed_width (reloaded dt) = fixed_width dt) = (dt \<noteq> TMySqlInt IntKind False)"
  by (induction dt rule: reloaded.induct) (simp_all add: fixed_width_def)

lemma list_values_stable: "vs \<noteq> [] \<longrightarrow> last vs \<noteq> [] \<Longrightarrow> \<forall>v \<in> set vs. list_value v = v \<Longrightarrow> reread_values vs = vs"
  by (auto simp: reread_values_def intro: map_idI)

text \<open>Reloading twice is reloading once, unless trimming the values of an enumeration goes on.\<close>

fun stable_lists :: "data_type \<Rightarrow> bool" where
  "stable_lists (TEnum vs) = (reread_values vs = vs)"
| "stable_lists (TSet vs) = (reread_values vs = vs)"
| "stable_lists (TArray d) = stable_lists d"
| "stable_lists dt = True"

lemma reloaded_idem: "stable_lists dt \<Longrightarrow> reloaded (reloaded dt) = reloaded dt"
  by (induction dt rule: reloaded.induct) simp_all

end
