(* ===== verification/Key_Codec.thy ===== *)
theory Key_Codec
  imports Fixed_Codec
begin

text \<open>
  The typed key segments of \<open>storage_layout/olap_stats.rs\<close> and the ordered float patterns of
  \<open>tuple_codec.rs\<close>. Row, version and index keys are built from these segments, so two facts
  matter: a segment decodes to its value whatever follows it, and the order of the segments
  is the order of the values. The first holds for every well-formed value; the second holds
  for integers and floats and fails for text, whose length comes first.
\<close>

unbundle bit_operations_syntax

section \<open>Order-preserving patterns\<close>

definition encode_ordered_f32 :: "u32 \<Rightarrow> bytes" where
  "encode_ordered_f32 bits =
     to_be_bytes (if bits AND 0x80000000 = 0 then bits XOR 0x80000000 else NOT bits)"

definition decode_ordered_f32 :: "bytes \<Rightarrow> u32" where
  "decode_ordered_f32 bs =
     (let ordered = from_be_bytes bs :: u32
      in if ordered AND 0x80000000 \<noteq> 0 then ordered XOR 0x80000000 else NOT ordered)"

definition encode_ordered_f64 :: "u64 \<Rightarrow> bytes" where
  "encode_ordered_f64 bits =
     to_be_bytes (if bits AND 0x8000000000000000 = 0 then bits XOR 0x8000000000000000
                  else NOT bits)"

definition decode_ordered_f64 :: "bytes \<Rightarrow> u64" where
  "decode_ordered_f64 bs =
     (let ordered = from_be_bytes bs :: u64
      in if ordered AND 0x8000000000000000 \<noteq> 0 then ordered XOR 0x8000000000000000
         else NOT ordered)"

subsection \<open>Flipping the sign bit\<close>

lemma uint_xor_top:
  fixes v :: "'a::len word"
  assumes "t = push_bit (LENGTH('a) - 1) 1"
  shows "uint (v XOR t) = sint v + 2 ^ (LENGTH('a) - 1)"
proof -
  let ?n = "LENGTH('a) - 1"
  have n: "?n < LENGTH('a)" by simp
  have "uint (v XOR t) = uint v XOR push_bit ?n 1"
  proof -
    have "uint (word_of_int (2 ^ ?n) :: 'a word) = take_bit LENGTH('a) (2 ^ ?n)"
      by (rule uint_word_of_int_eq)
    then have "uint t = 2 ^ ?n" using n by (simp add: assms take_bit_of_exp)
    then show ?thesis by (simp add: unsigned_xor_eq)
  qed
  also have "\<dots> = flip_bit ?n (uint v)" by (simp add: flip_bit_eq_xor)
  also have "\<dots> = (if bit v ?n then uint v - 2 ^ ?n else uint v + 2 ^ ?n)"
    using n by (simp add: flip_bit_eq_if set_bit_eq unset_bit_eq bit_uint_iff)
  also have "\<dots> = sint v + 2 ^ ?n"
  proof -
    have "sint v = uint v - 2 ^ LENGTH('a) * of_bool (bit v ?n)"
      using n by (simp add: sint_uint signed_take_bit_eq_take_bit_minus bit_uint_iff
          take_bit_int_eq_self)
    moreover have "(2::int) ^ LENGTH('a) = 2 ^ ?n + 2 ^ ?n"
      by (metis Suc_pred' len_gt_0 mult_2 power_Suc)
    ultimately show ?thesis by simp
  qed
  finally show ?thesis .
qed

lemma xor_top_less_iff:
  fixes v w :: "'a::len word"
  assumes "t = push_bit (LENGTH('a) - 1) 1"
  shows "(v XOR t < w XOR t) = (sint v < sint w)"
  by (simp add: word_less_def uint_xor_top [OF assms])

lemma flip_less_fixed [simp]:
  "((v16 :: i16) XOR 0x8000 < w16 XOR 0x8000) = (sint v16 < sint w16)"
  "((v32 :: i32) XOR 0x80000000 < w32 XOR 0x80000000) = (sint v32 < sint w32)"
  "((v64 :: i64) XOR 0x8000000000000000 < w64 XOR 0x8000000000000000) = (sint v64 < sint w64)"
  by (simp_all add: xor_top_less_iff)

lemma flip_inject [simp]: "((v :: 'a::len word) XOR t = w XOR t) = (v = w)"
  by (metis xor.assoc xor.right_neutral xor_self_eq)

lemma flip_flip [simp]: "((v :: 'a::len word) XOR t) XOR t = v"
  by (simp add: xor.assoc)

subsection \<open>Floats\<close>

lemma uint_not: "uint (NOT (v :: 'a::len word)) = 2 ^ LENGTH('a) - 1 - uint v"
proof -
  have "uint (NOT v) = (- uint v - 1) mod 2 ^ LENGTH('a)"
    by (simp only: word_not_def uint_word_of_int not_int_def)
  also have "\<dots> = (2 ^ LENGTH('a) + (- uint v - 1)) mod 2 ^ LENGTH('a)" by simp
  also have "\<dots> = 2 ^ LENGTH('a) + (- uint v - 1)"
    using uint_bounded [of v] unsigned_greater_eq [of v, where 'a = int]
    by (intro mod_pos_pos_trivial) linarith+
  finally show ?thesis by simp
qed

text \<open>A pattern's sign bit, as the code tests it and as the format reads it.\<close>

lemma and_top_iff:
  fixes v :: "'a::len word"
  assumes "t = push_bit (LENGTH('a) - 1) 1"
  shows "(v AND t = 0) = (\<not> bit v (LENGTH('a) - 1))"
proof
  assume "v AND t = 0"
  then have "\<not> bit (v AND t) (LENGTH('a) - 1)" by simp
  then show "\<not> bit v (LENGTH('a) - 1)" by (simp add: assms bit_and_iff bit_push_bit_iff bit_exp_iff)
next
  assume *: "\<not> bit v (LENGTH('a) - 1)"
  show "v AND t = 0"
    by (rule bit_word_eqI) (use * in \<open>auto simp: assms bit_and_iff bit_push_bit_iff bit_exp_iff\<close>)
qed

lemma bit_top_iff: "bit (v :: 'a::len word) (LENGTH('a) - 1) = (2 ^ (LENGTH('a) - 1) \<le> unat v)"
proof -
  let ?n = "LENGTH('a) - 1"
  have "bit v ?n = odd (unat v div 2 ^ ?n)"
    by (simp add: bit_unsigned_iff flip: bit_iff_odd)
  moreover have "unat v < 2 * 2 ^ ?n"
    by (metis Suc_pred' len_gt_0 power_Suc unsigned_less)
  then have "unat v div 2 ^ ?n < 2" by (simp add: less_mult_imp_div_less)
  ultimately show ?thesis
    by (metis One_nat_def Suc_1 div_eq_0_iff div_greater_zero_iff even_zero less_2_cases_iff
        linorder_not_less odd_one power_not_zero zero_neq_numeral)
qed

text \<open>The ordered pattern is the signed magnitude of the float, shifted, with the negative
  zero just below the positive one.\<close>

lemma ordered_pattern_key:
  fixes v :: "'a::len word"
  assumes t: "t = push_bit (LENGTH('a) - 1) 1" and pw: "LENGTH('a) = Suc (p + w)"
  shows "uint (if v AND t = 0 then v XOR t else NOT v) =
    2 ^ (p + w) + fp_key p w (unat v) - of_bool (fp_neg p w (unat v))"
proof -
  have half: "(2::int) ^ LENGTH('a) = 2 * 2 ^ (p + w)" by (simp add: pw)
  have bound: "unat v < 2 * 2 ^ (p + w)" using unsigned_less [of v, where 'a = nat] by (simp add: pw)
  then have "unat v div 2 ^ (p + w) < 2" by (simp add: less_mult_imp_div_less)
  then have neg: "fp_neg p w (unat v) = (2 ^ (p + w) \<le> unat v)"
    by (metis bit_top_iff bit_iff_odd bit_unsigned_iff diff_Suc_1 fp_neg_def possible_bit_nat pw)
  show ?thesis
  proof (cases "bit v (p + w)")
    case False
    then have small: "unat v < 2 ^ (p + w)" using bit_top_iff [of v] by (simp add: pw)
    from small have "int (unat v) < int (2 ^ (p + w))" by (simp only: of_nat_less_iff)
    then have "uint v < 2 ^ (p + w)" by simp
    then have "take_bit (p + w) (uint v) = uint v" by (simp add: take_bit_int_eq_self)
    then have "sint v = uint v" using False
      by (simp add: sint_uint pw signed_take_bit_eq_if_positive bit_uint_iff)
    with False small show ?thesis
      by (simp add: and_top_iff [OF t] uint_xor_top [OF t] neg fp_key_def pw)
  next
    case True
    then have big: "2 ^ (p + w) \<le> unat v" using bit_top_iff [of v] by (simp add: pw)
    then have "unat v mod 2 ^ (p + w) = unat v - 2 ^ (p + w)"
      using bound by (simp add: mod_if le_mod_geq)
    with True big show ?thesis
      by (simp add: and_top_iff [OF t] uint_not neg fp_key_def pw of_nat_diff)
  qed
qed

lemma fp_key_sign:
  "fp_neg p w b \<Longrightarrow> fp_key p w b \<le> 0" "\<not> fp_neg p w b \<Longrightarrow> 0 \<le> fp_key p w b"
  by (simp_all add: fp_key_def Let_def)

lemma ordered_pattern_less_iff:
  fixes v u :: "'a::len word"
  assumes "t = push_bit (LENGTH('a) - 1) 1" and "LENGTH('a) = Suc (p + w)"
  shows "((if v AND t = 0 then v XOR t else NOT v) < (if u AND t = 0 then u XOR t else NOT u)) =
    (fp_key p w (unat v) < fp_key p w (unat u) \<or>
     fp_key p w (unat v) = fp_key p w (unat u) \<and> fp_neg p w (unat v) \<and> \<not> fp_neg p w (unat u))"
  using fp_key_sign [of p w "unat v"] fp_key_sign [of p w "unat u"]
  unfolding word_less_def ordered_pattern_key [OF assms]
  by (cases "fp_neg p w (unat v)"; cases "fp_neg p w (unat u)") (simp; linarith)+

lemma encode_ordered_f32_less_iff:
  "(encode_ordered_f32 a < encode_ordered_f32 b) =
    (fp_key 23 8 (unat a) < fp_key 23 8 (unat b) \<or>
     fp_key 23 8 (unat a) = fp_key 23 8 (unat b) \<and> fp_neg 23 8 (unat a) \<and> \<not> fp_neg 23 8 (unat b))"
  unfolding encode_ordered_f32_def to_be_bytes_less_fixed
  by (rule ordered_pattern_less_iff) simp_all

lemma encode_ordered_f64_less_iff:
  "(encode_ordered_f64 a < encode_ordered_f64 b) =
    (fp_key 52 11 (unat a) < fp_key 52 11 (unat b) \<or>
     fp_key 52 11 (unat a) = fp_key 52 11 (unat b) \<and> fp_neg 52 11 (unat a) \<and> \<not> fp_neg 52 11 (unat b))"
  unfolding encode_ordered_f64_def to_be_bytes_less_fixed
  by (rule ordered_pattern_less_iff) simp_all

lemma ordered_pattern_inverse:
  fixes v :: "'a::len word"
  assumes t: "t = push_bit (LENGTH('a) - 1) 1"
    and o: "ordered = (if v AND t = 0 then v XOR t else NOT v)"
  shows "(if ordered AND t \<noteq> 0 then ordered XOR t else NOT ordered) = v"
proof -
  have "bit (v XOR t) (LENGTH('a) - 1) = (\<not> bit v (LENGTH('a) - 1))"
    by (simp add: t bit_xor_iff bit_exp_iff)
  moreover have "bit (NOT v) (LENGTH('a) - 1) = (\<not> bit v (LENGTH('a) - 1))"
    by (simp add: bit_not_iff)
  ultimately show ?thesis by (auto simp: and_top_iff [OF t] o)
qed

lemma decode_encode_ordered [simp]:
  "decode_ordered_f32 (encode_ordered_f32 a) = a"
  "decode_ordered_f64 (encode_ordered_f64 b) = b"
  unfolding decode_ordered_f32_def encode_ordered_f32_def decode_ordered_f64_def
    encode_ordered_f64_def Let_def from_to_be_bytes_fixed
  by (rule ordered_pattern_inverse [OF _ refl]; simp)+

lemma length_encode_ordered [simp]:
  "length (encode_ordered_f32 a) = 4" "length (encode_ordered_f64 b) = 8"
  by (simp_all add: encode_ordered_f32_def encode_ordered_f64_def)

section \<open>Key segments\<close>

fun encode_key_value :: "column_value \<Rightarrow> bytes" where
  "encode_key_value VNull = [0]"
| "encode_key_value (VBoolean b) = (if b then [1, 1] else [1, 0])"
| "encode_key_value (VInt16 v) = 16 # to_be_bytes (v XOR 0x8000)"
| "encode_key_value (VInt32 v) = 2 # to_be_bytes (v XOR 0x80000000)"
| "encode_key_value (VInt64 v) = 3 # to_be_bytes (v XOR 0x8000000000000000)"
| "encode_key_value (VFloat32 v) = 5 # encode_ordered_f32 v"
| "encode_key_value (VFloat64 v) = 6 # encode_ordered_f64 v"
| "encode_key_value (VNumeric v) = 4 # push_bytes_segment (as_bytes v)"
| "encode_key_value (VText v) = 4 # push_bytes_segment (as_bytes v)"
| "encode_key_value (VDate v) = 4 # push_bytes_segment (as_bytes v)"
| "encode_key_value (VTimestamp v) = 4 # push_bytes_segment (as_bytes v)"
| "encode_key_value (VTimestampTz v) = 4 # push_bytes_segment (as_bytes v)"
| "encode_key_value (VUuid v) = 4 # push_bytes_segment (as_bytes v)"
| "encode_key_value (VJson v) = 4 # push_bytes_segment (as_bytes v)"
| "encode_key_value (VJsonb v) = 4 # push_bytes_segment (as_bytes v)"
| "encode_key_value (VBytea v) = 7 # push_bytes_segment v"
| "encode_key_value (VArray vs) =
     8 # to_be_bytes (word_of_nat (length vs) :: u32)
       @ concat (map (\<lambda>v. push_bytes_segment (encode_key_value v)) vs)"

text \<open>The arms of \<open>decode_key_value\<close> for a non-null tag. Each arm is guarded by the tag the
  column type expects; a mismatch falls through to the last arm of the match.\<close>

definition key_mismatch :: "(column_value \<times> nat) res" where
  "key_mismatch = Inl (user_error ''XX000'' ''typed key value does not match column type'')"

definition decode_key_int16 :: "bytes \<Rightarrow> (column_value \<times> nat) res" where
  "decode_key_int16 bs =
     (if length bs < 3 then Inl (user_error ''XX000'' ''truncated INT2 key value'')
      else Inr (VInt16 (from_be_bytes (slice bs 1 3) XOR 0x8000), 3))"

definition decode_key_int32 :: "bytes \<Rightarrow> (column_value \<times> nat) res" where
  "decode_key_int32 bs =
     (if length bs < 5 then Inl (user_error ''XX000'' ''truncated INT4 key value'')
      else Inr (VInt32 (from_be_bytes (slice bs 1 5) XOR 0x80000000), 5))"

definition decode_key_int64 :: "bytes \<Rightarrow> (column_value \<times> nat) res" where
  "decode_key_int64 bs =
     (if length bs < 9 then Inl (user_error ''XX000'' ''truncated INT8 key value'')
      else Inr (VInt64 (from_be_bytes (slice bs 1 9) XOR 0x8000000000000000), 9))"

definition decode_key_text :: "(string \<Rightarrow> column_value) \<Rightarrow> bytes \<Rightarrow> (column_value \<times> nat) res" where
  "decode_key_text con bs =
     res_bind (read_bytes_segment (drop 1 bs)) (\<lambda>(text, consumed).
     res_bind (from_utf8 ''invalid UTF-8 in v2 key'' text) (\<lambda>s. Inr (con s, consumed + 1)))"

definition decode_key_bytea :: "bytes \<Rightarrow> (column_value \<times> nat) res" where
  "decode_key_bytea bs =
     res_bind (read_bytes_segment (drop 1 bs)) (\<lambda>(v, consumed). Inr (VBytea v, consumed + 1))"

definition decode_key_f32 :: "bytes \<Rightarrow> (column_value \<times> nat) res" where
  "decode_key_f32 bs =
     (if length bs < 5 then Inl (user_error ''XX000'' ''truncated FLOAT4 key value'')
      else Inr (VFloat32 (decode_ordered_f32 (slice bs 1 5)), 5))"

definition decode_key_f64 :: "bytes \<Rightarrow> (column_value \<times> nat) res" where
  "decode_key_f64 bs =
     (if length bs < 9 then Inl (user_error ''XX000'' ''truncated FLOAT8 key value'')
      else Inr (VFloat64 (decode_ordered_f64 (slice bs 1 9)), 9))"

definition decode_mysql_int_key_value ::
    "byte \<Rightarrow> my_sql_int_kind \<Rightarrow> bool \<Rightarrow> bytes \<Rightarrow> (column_value \<times> nat) res" where
  "decode_mysql_int_key_value tag kind uns bs =
     (if kind \<in> {Tiny, Small} \<and> \<not> uns \<and> tag = 16 then decode_key_int16 bs
      else if (kind \<in> {Tiny, Small} \<and> uns \<or> kind = Medium \<or> kind = IntKind \<and> \<not> uns) \<and> tag = 2
        then decode_key_int32 bs
      else if (kind = IntKind \<and> uns \<or> kind = Big \<and> \<not> uns) \<and> tag = 3 then decode_key_int64 bs
      else if kind = Big \<and> uns \<and> tag = 4 then decode_key_text VNumeric bs
      else Inl (user_error ''XX000'' ''typed key value does not match MySQL integer type''))"

text \<open>The loop over the elements of an array key.\<close>

fun key_array_loop ::
    "(bytes \<Rightarrow> (column_value \<times> nat) res) \<Rightarrow> nat \<Rightarrow> bytes \<Rightarrow> nat \<Rightarrow> (column_value list \<times> nat) res"
where
  "key_array_loop dec 0 bs offset = Inr ([], offset)"
| "key_array_loop dec (Suc n) bs offset =
     res_bind (read_bytes_segment (drop offset bs)) (\<lambda>(encoded, consumed).
     res_bind (dec encoded) (\<lambda>(value, value_consumed).
       if value_consumed \<noteq> length encoded
       then Inl (user_error ''XX000'' ''trailing bytes in ARRAY key element'')
       else res_bind (key_array_loop dec n bs (offset + consumed))
              (\<lambda>(vs, end). Inr (value # vs, end))))"

lemma key_array_loop_cong [fundef_cong]:
  assumes "\<And>b. dec b = dec' b" "n = n'" "bs = bs'" "off = off'"
  shows "key_array_loop dec n bs off = key_array_loop dec' n' bs' off'"
proof -
  have "dec = dec'" by (rule ext) (rule assms)
  then show ?thesis by (simp add: assms)
qed

function decode_key_value :: "data_type \<Rightarrow> bytes \<Rightarrow> (column_value \<times> nat) res" where
  "decode_key_value dt bs =
     (case bs of
        [] \<Rightarrow> Inl (user_error ''XX000'' ''empty typed key value'')
      | tag # _ \<Rightarrow>
          if tag = 0 then Inr (VNull, 1)
          else case dt of
            TBoolean \<Rightarrow>
              if tag = 1 then
                (case slice_get bs 1 of
                   None \<Rightarrow> Inl (user_error ''XX000'' ''truncated BOOL key value'')
                 | Some b \<Rightarrow> Inr (VBoolean (b \<noteq> 0), 2))
              else key_mismatch
          | TMySqlInt kind uns \<Rightarrow> decode_mysql_int_key_value tag kind uns bs
          | TInt16 \<Rightarrow> if tag = 16 then decode_key_int16 bs else key_mismatch
          | TInt32 \<Rightarrow> if tag = 2 then decode_key_int32 bs else key_mismatch
          | TInt64 \<Rightarrow> if tag = 3 then decode_key_int64 bs else key_mismatch
          | TText \<Rightarrow> if tag = 4 then decode_key_text VText bs else key_mismatch
          | TMySqlText _ _ \<Rightarrow> if tag = 4 then decode_key_text VText bs else key_mismatch
          | TVarChar _ \<Rightarrow> if tag = 4 then decode_key_text VText bs else key_mismatch
          | TChar _ \<Rightarrow> if tag = 4 then decode_key_text VText bs else key_mismatch
          | TTime \<Rightarrow> if tag = 4 then decode_key_text VText bs else key_mismatch
          | TTimeTz \<Rightarrow> if tag = 4 then decode_key_text VText bs else key_mismatch
          | TInterval \<Rightarrow> if tag = 4 then decode_key_text VText bs else key_mismatch
          | TNumeric _ _ \<Rightarrow> if tag = 4 then decode_key_text VNumeric bs else key_mismatch
          | TDate \<Rightarrow> if tag = 4 then decode_key_text VDate bs else key_mismatch
          | TMySqlTime _ \<Rightarrow> if tag = 4 then decode_key_text VText bs else key_mismatch
          | TTimestamp \<Rightarrow> if tag = 4 then decode_key_text VTimestamp bs else key_mismatch
          | TMySqlDateTime _ \<Rightarrow> if tag = 4 then decode_key_text VTimestamp bs else key_mismatch
          | TMySqlTimestamp _ \<Rightarrow> if tag = 4 then decode_key_text VTimestamp bs else key_mismatch
          | TTimestampTz \<Rightarrow> if tag = 4 then decode_key_text VTimestampTz bs else key_mismatch
          | TUuid \<Rightarrow> if tag = 4 then decode_key_text VUuid bs else key_mismatch
          | TJson \<Rightarrow> if tag = 4 then decode_key_text VJson bs else key_mismatch
          | TJsonb \<Rightarrow> if tag = 4 then decode_key_text VJsonb bs else key_mismatch
          | TDomain _ \<Rightarrow> if tag = 4 then decode_key_text VText bs else key_mismatch
          | TEnum _ \<Rightarrow> if tag = 4 then decode_key_text VText bs else key_mismatch
          | TSet _ \<Rightarrow> if tag = 4 then decode_key_text VText bs else key_mismatch
          | TGeometry _ \<Rightarrow> if tag = 4 then decode_key_text VText bs else key_mismatch
          | TFloat32 \<Rightarrow> if tag = 5 then decode_key_f32 bs else key_mismatch
          | TMySqlFloat _ \<Rightarrow> if tag = 5 then decode_key_f32 bs else key_mismatch
          | TFloat64 \<Rightarrow> if tag = 6 then decode_key_f64 bs else key_mismatch
          | TMySqlDouble _ \<Rightarrow> if tag = 6 then decode_key_f64 bs else key_mismatch
          | TBytea \<Rightarrow> if tag = 7 then decode_key_bytea bs else key_mismatch
          | TBinary _ \<Rightarrow> if tag = 7 then decode_key_bytea bs else key_mismatch
          | TVarBinary _ \<Rightarrow> if tag = 7 then decode_key_bytea bs else key_mismatch
          | TBlob _ _ \<Rightarrow> if tag = 7 then decode_key_bytea bs else key_mismatch
          | TArray inner \<Rightarrow>
              if tag = 8 then
                if length bs < 5 then Inl (user_error ''XX000'' ''truncated ARRAY key value'')
                else res_bind
                       (key_array_loop (decode_key_value inner)
                          (unat (from_be_bytes (slice bs 1 5) :: u32)) bs 5)
                       (\<lambda>(vs, offset). Inr (VArray vs, offset))
              else key_mismatch
          | _ \<Rightarrow> key_mismatch)"
  by pat_completeness auto
termination
  by (relation "measure (\<lambda>(dt, bs). size dt)") auto

declare decode_key_value.simps [simp del]

section \<open>Segments read back\<close>

text \<open>As \<open>value_ok\<close>, with the length fields of array elements measured on their encodings.\<close>

fun key_ok :: "column_value \<Rightarrow> bool" where
  "key_ok (VArray vs) =
     (length vs < 2 ^ 32 \<and> (\<forall>v \<in> set vs. key_ok v \<and> length (encode_key_value v) < 2 ^ 32))"
| "key_ok v = value_ok v"

lemma slice_Cons_append:
  "length vs = n \<Longrightarrow> slice (b # vs @ ws) (Suc 0) (Suc n) = vs"
  "length vs = n \<Longrightarrow> slice (b # vs @ ws) 1 (Suc n) = vs"
  by (simp_all add: slice_def)

lemma decode_key_scalar_rest [simp]:
  "decode_key_int16 (16 # to_be_bytes (a XOR 0x8000) @ xs) = Inr (VInt16 a, 3)"
  "decode_key_int32 (2 # to_be_bytes (b XOR 0x80000000) @ xs) = Inr (VInt32 b, 5)"
  "decode_key_int64 (3 # to_be_bytes (c XOR 0x8000000000000000) @ xs) = Inr (VInt64 c, 9)"
  "decode_key_f32 (5 # encode_ordered_f32 b @ xs) = Inr (VFloat32 b, 5)"
  "decode_key_f64 (6 # encode_ordered_f64 c @ xs) = Inr (VFloat64 c, 9)"
  by (simp_all add: decode_key_int16_def decode_key_int32_def decode_key_int64_def
      decode_key_f32_def decode_key_f64_def slice_def)

lemma decode_key_segment_rest [simp]:
  "str_ok s \<Longrightarrow> decode_key_text con (4 # push_bytes_segment (as_bytes s) @ xs) = Inr (con s, 5 + length s)"
  "length bs < 2 ^ 32 \<Longrightarrow> decode_key_bytea (7 # push_bytes_segment bs @ xs) = Inr (VBytea bs, 5 + length bs)"
  by (simp_all add: decode_key_text_def decode_key_bytea_def str_ok_def)

abbreviation key_elems :: "column_value list \<Rightarrow> bytes" where
  "key_elems vs \<equiv> concat (map (\<lambda>v. push_bytes_segment (encode_key_value v)) vs)"

lemma key_array_loop_enc:
  assumes "\<forall>v \<in> set vs. length (encode_key_value v) < 2 ^ 32
      \<and> dec (encode_key_value v) = Inr (v, length (encode_key_value v))"
    and "drop offset bs = key_elems vs @ xs"
  shows "key_array_loop dec (length vs) bs offset = Inr (vs, offset + length (key_elems vs))"
  using assms
proof (induction vs arbitrary: offset)
  case (Cons v vs)
  let ?e = "push_bytes_segment (encode_key_value v)"
  have "drop (length ?e) (drop offset bs) = key_elems vs @ xs" using Cons.prems(2) by simp
  then have "drop (offset + length ?e) bs = key_elems vs @ xs" by (simp add: add.commute)
  with Cons show ?case by (simp add: add.assoc)
qed simp

lemma has_type_cases:
  "has_type dt v \<Longrightarrow> v \<noteq> VNull \<Longrightarrow> has_shape dt v"
  by (simp add: has_type_def)

text \<open>The column types whose segments can be read: the decoder has no arm for \<open>Bit\<close> and
  \<open>Year\<close>.\<close>

fun key_type_readable :: "data_type \<Rightarrow> bool" where
  "key_type_readable (TBit n) = False"
| "key_type_readable TYear = False"
| "key_type_readable (TArray dt) = key_type_readable dt"
| "key_type_readable _ = True"

lemma decode_encode_key_value:
  assumes "has_type dt v" "key_ok v" "key_type_readable dt"
  shows "decode_key_value dt (encode_key_value v @ xs) = Inr (v, length (encode_key_value v))"
  using assms
proof (induction dt arbitrary: v xs)
  case (TArray dt)
  show ?case
  proof (cases v)
    case VNull
    then show ?thesis by (simp add: decode_key_value.simps)
  next
    case (VArray vs)
    let ?n = "word_of_nat (length vs) :: u32"
    let ?bs = "encode_key_value v @ xs"
    have "drop 5 ?bs = key_elems vs @ xs" by (simp add: VArray)
    moreover have "\<forall>x \<in> set vs. length (encode_key_value x) < 2 ^ 32
        \<and> decode_key_value dt (encode_key_value x) = Inr (x, length (encode_key_value x))"
      using TArray VArray
      by (metis append_Nil2 has_type_Array key_ok.simps(1) key_type_readable.simps(3))
    ultimately have "key_array_loop (decode_key_value dt) (length vs) ?bs 5 =
        Inr (vs, 5 + length (key_elems vs))"
      by (rule key_array_loop_enc [rotated])
    moreover have "unat ?n = length vs" using TArray.prems VArray by (simp add: unat_of_nat)
    moreover have "slice ?bs 1 5 = to_be_bytes ?n" by (simp add: VArray slice_def)
    ultimately show ?thesis using VArray by (simp add: decode_key_value.simps [of "TArray dt"])
  qed (use TArray.prems in \<open>simp_all add: has_type_def\<close>)
next
  case (TMySqlInt k u)
  then show ?case
    by (cases v) (auto simp: decode_key_value.simps has_type_def mysql_int_has_type_def
        decode_mysql_int_key_value_def split: my_sql_int_kind.splits if_splits)
qed (case_tac v; auto simp: decode_key_value.simps has_type_def slice_get_def)+

text \<open>
  A segment at the head of a longer string determines the value and where it ends. For the
  unreadable types this is seen through a readable type with the same values.
\<close>

fun readable_twin :: "data_type \<Rightarrow> data_type" where
  "readable_twin (TBit n) = TInt64"
| "readable_twin TYear = TInt32"
| "readable_twin (TArray dt) = TArray (readable_twin dt)"
| "readable_twin dt = dt"

lemma has_shape_twin: "has_shape (readable_twin dt) v = has_shape dt v"
proof (induction dt arbitrary: v)
  case (TArray dt)
  then show ?case by (cases v) simp_all
qed simp_all

lemma has_type_twin [simp]: "has_type (readable_twin dt) v = has_type dt v"
  unfolding has_type_def has_shape_twin by (rule refl)

lemma readable_twin_readable [simp]: "key_type_readable (readable_twin dt)"
  by (induction dt) simp_all

lemma encode_key_value_prefix_free:
  assumes "has_type dt v" "key_ok v" "has_type dt w" "key_ok w"
    and "encode_key_value v @ xs = encode_key_value w @ ys"
  shows "v = w \<and> xs = ys"
  using decode_encode_key_value [of "readable_twin dt" v xs]
    decode_encode_key_value [of "readable_twin dt" w ys] assms by auto

text \<open>A \<open>Year\<close> or \<open>Bit\<close> key is written and never read back.\<close>

lemma decode_key_year_bit:
  "decode_key_value TYear (encode_key_value (VInt32 y) @ xs) = key_mismatch"
  "decode_key_value (TBit n) (encode_key_value (VInt64 b) @ xs) = key_mismatch"
  by (simp_all add: decode_key_value.simps)

end
