(* ===== verification/Keys.thy ===== *)
theory Keys
  imports Key_Codec
begin

text \<open>
  The key space of the storage layer (\<open>storage_layout/keys.rs\<close>): the byte keys of rows, row
  versions, index entries, column chunks, statistics and catalog descriptors, the ranges a
  scan runs over, and the primary key read back from a key. The results: a prefix range holds
  exactly the keys with that prefix, no two objects of the store share a key, versions of a
  row are met newest first, and a range over integer or float primary keys holds exactly the
  rows within its bounds.
\<close>

section \<open>Prefixes\<close>

definition VERSION :: byte where "VERSION = 2"
definition FAST_ROW_VERSION :: byte where "FAST_ROW_VERSION = 3"
definition FIXED_ROW_VERSION :: byte where "FIXED_ROW_VERSION = 4"
definition ROW_PREFIX :: byte where "ROW_PREFIX = 0x72"
definition ROW_VERSION_PREFIX :: byte where "ROW_VERSION_PREFIX = 0x76"
definition INDEX_PREFIX :: byte where "INDEX_PREFIX = 0x69"
definition OLAP_PREFIX :: byte where "OLAP_PREFIX = 0x6F"
definition STATS_PREFIX :: byte where "STATS_PREFIX = 0x73"
definition CATALOG_PREFIX :: byte where "CATALOG_PREFIX = 0x63"
definition DESC_VERSION_MAX :: u64 where "DESC_VERSION_MAX = - 1"

lemmas key_constants =
  VERSION_def ROW_PREFIX_def ROW_VERSION_PREFIX_def INDEX_PREFIX_def OLAP_PREFIX_def
  STATS_PREFIX_def CATALOG_PREFIX_def

text \<open>\<open>next_prefix\<close>: the loop over the positions from the last to the first.\<close>

fun next_prefix_loop :: "nat \<Rightarrow> bytes \<Rightarrow> bytes option" where
  "next_prefix_loop 0 upper = None"
| "next_prefix_loop (Suc idx) upper =
     (if upper ! idx \<noteq> 255 then Some (take (idx + 1) (upper[idx := upper ! idx + 1]))
      else next_prefix_loop idx upper)"

definition next_prefix :: "bytes \<Rightarrow> bytes option" where
  "next_prefix prefix = next_prefix_loop (length prefix) prefix"

record range_scan =
  range_start :: bytes
  range_end :: "bytes option"
  range_limit :: "nat option"
  range_reverse :: bool

text \<open>The keys a scan of a range visits: from \<open>start\<close> on, below \<open>end\<close> when there is one.\<close>

definition in_bounds :: "bytes \<Rightarrow> bytes option \<Rightarrow> bytes \<Rightarrow> bool" where
  "in_bounds start end' key = (start \<le> key \<and> (case end' of None \<Rightarrow> True | Some e \<Rightarrow> key < e))"

definition in_range :: "range_scan \<Rightarrow> bytes \<Rightarrow> bool" where
  "in_range r key = in_bounds (range_start r) (range_end r) key"

definition prefix_range :: "bytes \<Rightarrow> nat option \<Rightarrow> range_scan" where
  "prefix_range start limit =
     \<lparr>range_start = start, range_end = next_prefix start, range_limit = limit,
      range_reverse = False\<rparr>"

section \<open>Keys\<close>

definition catalog_descriptor_key :: "string \<Rightarrow> u32 \<Rightarrow> bytes" where
  "catalog_descriptor_key kind i =
     [VERSION, CATALOG_PREFIX] @ push_bytes_segment (as_bytes kind) @ to_be_bytes i"

definition row_prefix :: "u32 \<Rightarrow> u64 \<Rightarrow> bytes" where
  "row_prefix tid epoch = [VERSION, ROW_PREFIX] @ to_be_bytes tid @ to_be_bytes epoch"

definition row_key :: "u32 \<Rightarrow> u64 \<Rightarrow> column_value \<Rightarrow> bytes" where
  "row_key tid epoch pk = row_prefix tid epoch @ encode_key_value pk"

definition row_version_prefix :: "u32 \<Rightarrow> u64 \<Rightarrow> column_value \<Rightarrow> bytes" where
  "row_version_prefix tid epoch pk =
     [VERSION, ROW_VERSION_PREFIX] @ to_be_bytes tid @ to_be_bytes epoch @ encode_key_value pk"

definition row_version_key :: "u32 \<Rightarrow> u64 \<Rightarrow> column_value \<Rightarrow> u64 \<Rightarrow> bytes" where
  "row_version_key tid epoch pk version =
     row_version_prefix tid epoch pk @ to_be_bytes (DESC_VERSION_MAX - version)"

definition row_version_range :: "u32 \<Rightarrow> u64 \<Rightarrow> column_value \<Rightarrow> nat option \<Rightarrow> range_scan" where
  "row_version_range tid epoch pk limit = prefix_range (row_version_prefix tid epoch pk) limit"

text \<open>The prefix of all versions of a table, built inline in \<open>row_versions_range\<close> and
  \<open>decode_pk_from_row_version_key\<close>.\<close>

definition row_versions_prefix :: "u32 \<Rightarrow> u64 \<Rightarrow> bytes" where
  "row_versions_prefix tid epoch =
     [VERSION, ROW_VERSION_PREFIX] @ to_be_bytes tid @ to_be_bytes epoch"

definition row_versions_range :: "u32 \<Rightarrow> u64 \<Rightarrow> nat option \<Rightarrow> range_scan" where
  "row_versions_range tid epoch limit = prefix_range (row_versions_prefix tid epoch) limit"

definition decode_pk_from_row_version_key ::
    "bytes \<Rightarrow> u32 \<Rightarrow> u64 \<Rightarrow> data_type \<Rightarrow> (column_value \<times> u64) res" where
  "decode_pk_from_row_version_key key tid epoch dt =
     res_bind (ok_or (strip_prefix (row_versions_prefix tid epoch) key)
                 (user_error ''XX000'' ''v2 row version key missing expected prefix'')) (\<lambda>suffix.
     res_bind (decode_key_value dt suffix) (\<lambda>(v, consumed).
       if length suffix \<noteq> consumed + 8
       then Inl (user_error ''XX000'' ''malformed v2 row version key suffix'')
       else Inr (v, DESC_VERSION_MAX - from_be_bytes (slice suffix consumed (consumed + 8)))))"

definition decode_pk_from_row_key :: "bytes \<Rightarrow> u32 \<Rightarrow> u64 \<Rightarrow> data_type \<Rightarrow> column_value res" where
  "decode_pk_from_row_key key tid epoch dt =
     res_bind (ok_or (strip_prefix (row_prefix tid epoch) key)
                 (user_error ''XX000'' ''v2 row key missing expected prefix'')) (\<lambda>suffix.
     res_bind (decode_key_value dt suffix) (\<lambda>(v, consumed).
       if consumed \<noteq> length suffix
       then Inl (user_error ''XX000'' ''malformed v2 row key suffix'')
       else Inr v))"

definition row_range :: "u32 \<Rightarrow> u64 \<Rightarrow> nat option \<Rightarrow> range_scan" where
  "row_range tid epoch limit = prefix_range (row_prefix tid epoch) limit"

definition row_range_between ::
    "u32 \<Rightarrow> u64 \<Rightarrow> (column_value \<times> bool) option \<Rightarrow> (column_value \<times> bool) option
       \<Rightarrow> nat option \<Rightarrow> range_scan" where
  "row_range_between tid epoch lower upper limit =
     \<lparr>range_start =
        (case lower of
           Some (v, True) \<Rightarrow> row_key tid epoch v
         | Some (v, False) \<Rightarrow> row_key tid epoch v @ [0]
         | None \<Rightarrow> row_prefix tid epoch),
      range_end =
        (case upper of
           Some (v, True) \<Rightarrow> Some (row_key tid epoch v @ [0])
         | Some (v, False) \<Rightarrow> Some (row_key tid epoch v)
         | None \<Rightarrow> next_prefix (row_prefix tid epoch)),
      range_limit = limit, range_reverse = False\<rparr>"

definition index_all_prefix :: "u32 \<Rightarrow> bytes" where
  "index_all_prefix iid = [VERSION, INDEX_PREFIX] @ to_be_bytes iid"

definition index_prefix :: "u32 \<Rightarrow> column_value \<Rightarrow> bytes" where
  "index_prefix iid v = [VERSION, INDEX_PREFIX] @ to_be_bytes iid @ encode_key_value v"

definition index_entry_key :: "u32 \<Rightarrow> column_value \<Rightarrow> column_value \<Rightarrow> bytes" where
  "index_entry_key iid v pk = index_prefix iid v @ encode_key_value pk"

definition decode_pk_from_index_entry_key ::
    "bytes \<Rightarrow> u32 \<Rightarrow> column_value \<Rightarrow> data_type \<Rightarrow> column_value res" where
  "decode_pk_from_index_entry_key key iid v dt =
     res_bind (ok_or (strip_prefix (index_prefix iid v) key)
                 (user_error ''XX000'' ''v2 index key missing expected prefix'')) (\<lambda>suffix.
     res_bind (decode_key_value dt suffix) (\<lambda>(pk, consumed).
       if consumed \<noteq> length suffix
       then Inl (user_error ''XX000'' ''malformed v2 index key suffix'')
       else Inr pk))"

definition olap_chunk_meta_prefix :: "u32 \<Rightarrow> u64 \<Rightarrow> bytes" where
  "olap_chunk_meta_prefix tid epoch =
     [VERSION, OLAP_PREFIX, 0x6D] @ to_be_bytes tid @ to_be_bytes epoch"

definition olap_chunk_meta_key :: "u32 \<Rightarrow> u64 \<Rightarrow> u64 \<Rightarrow> bytes" where
  "olap_chunk_meta_key tid epoch chunk =
     [VERSION, OLAP_PREFIX, 0x6D] @ to_be_bytes tid @ to_be_bytes epoch @ to_be_bytes chunk"

definition olap_chunk_column_prefix :: "u32 \<Rightarrow> u64 \<Rightarrow> bytes" where
  "olap_chunk_column_prefix tid epoch =
     [VERSION, OLAP_PREFIX, 0x63] @ to_be_bytes tid @ to_be_bytes epoch"

definition olap_chunk_meta_range :: "u32 \<Rightarrow> u64 \<Rightarrow> range_scan" where
  "olap_chunk_meta_range tid epoch = prefix_range (olap_chunk_meta_prefix tid epoch) None"

definition olap_chunk_column_key :: "u32 \<Rightarrow> u64 \<Rightarrow> u64 \<Rightarrow> u32 \<Rightarrow> bytes" where
  "olap_chunk_column_key tid epoch chunk cid =
     [VERSION, OLAP_PREFIX, 0x63] @ to_be_bytes tid @ to_be_bytes epoch @ to_be_bytes chunk
       @ to_be_bytes cid"

definition stats_prefix :: "u32 \<Rightarrow> u64 \<Rightarrow> bytes" where
  "stats_prefix tid epoch = [VERSION, STATS_PREFIX] @ to_be_bytes tid @ to_be_bytes epoch"

definition stats_key :: "u32 \<Rightarrow> u64 \<Rightarrow> u32 option \<Rightarrow> bytes" where
  "stats_key tid epoch cid =
     [VERSION, STATS_PREFIX] @ to_be_bytes tid @ to_be_bytes epoch
       @ to_be_bytes (case cid of None \<Rightarrow> 0 | Some c \<Rightarrow> c)"

section \<open>Prefix ranges\<close>

text \<open>The end of a prefix range is the least byte string above everything with the prefix.\<close>

lemma byte_succ_less: "(x :: byte) \<noteq> 255 \<Longrightarrow> (y < x + 1) = (y \<le> x)"
proof -
  assume "x \<noteq> 255"
  then have "unat x \<noteq> 255" using word_unat_eq_iff [of x 255] by simp
  moreover have "unat x < 256" using unsigned_less [of x, where 'a = nat] by simp
  ultimately have "unat (x + 1) = unat x + 1" by (simp add: unat_word_ariths)
  then show ?thesis by (simp add: word_less_nat_alt word_le_nat_alt less_Suc_eq_le)
qed

lemma byte_max_not_less [simp]: "\<not> (255 :: byte) < y"
  using unsigned_less [of y, where 'a = nat] by (simp add: word_less_nat_alt)

lemma next_prefix_Nil [simp]: "next_prefix [] = None"
  by (simp add: next_prefix_def)

lemma next_prefix_loop_Cons:
  "idx \<le> length ps \<Longrightarrow>
   next_prefix_loop (Suc idx) (p # ps) =
     (case next_prefix_loop idx ps of
        Some e \<Rightarrow> Some (p # e)
      | None \<Rightarrow> if p \<noteq> 255 then Some [p + 1] else None)"
  by (induction idx) (auto split: option.splits)

lemma next_prefix_Cons:
  "next_prefix (p # ps) =
     (case next_prefix ps of
        Some e \<Rightarrow> Some (p # e)
      | None \<Rightarrow> if p \<noteq> 255 then Some [p + 1] else None)"
  using next_prefix_loop_Cons [of "length ps" ps p] by (simp add: next_prefix_def)

lemma in_bounds_next_prefix: "in_bounds p (next_prefix p) k = starts_with k p"
proof (induction p arbitrary: k)
  case Nil
  then show ?case by (simp add: in_bounds_def starts_with_def)
next
  case (Cons b p)
  show ?case
  proof (cases k)
    case (Cons c k')
    have IH: "in_bounds p (next_prefix p) k' = starts_with k' p" by (rule Cons.IH)
    have sw: "starts_with k (b # p) = (c = b \<and> starts_with k' p)"
      using Cons by (auto simp: starts_with_def)
    show ?thesis
    proof (cases "next_prefix p")
      case None
      with IH have "(p \<le> k') = starts_with k' p" by (simp add: in_bounds_def)
      then show ?thesis
        unfolding sw using None Cons byte_succ_less [of b c]
        by (auto simp: in_bounds_def next_prefix_Cons)
    next
      case (Some e)
      with IH show ?thesis unfolding sw
        by (auto simp: in_bounds_def next_prefix_Cons Cons)
    qed
  qed (auto simp: in_bounds_def starts_with_def)
qed

lemma in_prefix_range [simp]: "in_range (prefix_range p limit) k = starts_with k p"
  by (simp add: in_range_def prefix_range_def in_bounds_next_prefix)

section \<open>Keys read back\<close>

lemma decode_pk_from_row_key_row_key:
  assumes "has_type dt pk" "key_ok pk" "key_type_readable dt"
  shows "decode_pk_from_row_key (row_key tid epoch pk) tid epoch dt = Inr pk"
  using decode_encode_key_value [OF assms, of "[]"]
  by (simp add: decode_pk_from_row_key_def row_key_def)

lemma decode_pk_from_row_version_key_row_version_key:
  assumes "has_type dt pk" "key_ok pk" "key_type_readable dt"
  shows "decode_pk_from_row_version_key (row_version_key tid epoch pk ver) tid epoch dt
    = Inr (pk, ver)"
proof -
  have "strip_prefix (row_versions_prefix tid epoch) (row_version_key tid epoch pk ver) =
      Some (encode_key_value pk @ to_be_bytes (DESC_VERSION_MAX - ver))"
    by (simp add: row_version_key_def row_version_prefix_def row_versions_prefix_def
        strip_prefix_eq_Some)
  then show ?thesis
    using decode_encode_key_value [OF assms, of "to_be_bytes (DESC_VERSION_MAX - ver)"]
    by (simp add: decode_pk_from_row_version_key_def slice_def)
qed

lemma decode_pk_from_index_entry_key_index_entry_key:
  assumes "has_type dt pk" "key_ok pk" "key_type_readable dt"
  shows "decode_pk_from_index_entry_key (index_entry_key iid v pk) iid v dt = Inr pk"
  using decode_encode_key_value [OF assms, of "[]"]
  by (simp add: decode_pk_from_index_entry_key_def index_entry_key_def)

section \<open>One key per object\<close>

text \<open>The objects of the store and their keys. A schema fixes the type of a table's primary
  key, of an indexed column, and of the primary key of the indexed table.\<close>

datatype storage_key =
    KRow u32 u64 column_value
  | KRowVersion u32 u64 column_value u64
  | KIndexEntry u32 column_value column_value
  | KChunkMeta u32 u64 u64
  | KChunkColumn u32 u64 u64 u32
  | KStats u32 u64 "u32 option"
  | KDescriptor string u32

fun key_bytes :: "storage_key \<Rightarrow> bytes" where
  "key_bytes (KRow t e pk) = row_key t e pk"
| "key_bytes (KRowVersion t e pk v) = row_version_key t e pk v"
| "key_bytes (KIndexEntry i v pk) = index_entry_key i v pk"
| "key_bytes (KChunkMeta t e c) = olap_chunk_meta_key t e c"
| "key_bytes (KChunkColumn t e c col) = olap_chunk_column_key t e c col"
| "key_bytes (KStats t e col) = stats_key t e col"
| "key_bytes (KDescriptor kind i) = catalog_descriptor_key kind i"

text \<open>A column id of zero is the marker for the statistics of the whole table;
  \<open>normalize_descriptor\<close> gives no column that id.\<close>

fun key_typed :: "(u32 \<Rightarrow> data_type) \<Rightarrow> (u32 \<Rightarrow> data_type) \<Rightarrow> (u32 \<Rightarrow> data_type) \<Rightarrow> storage_key \<Rightarrow> bool"
where
  "key_typed pkt ixt ipkt (KRow t e pk) = (has_type (pkt t) pk \<and> key_ok pk)"
| "key_typed pkt ixt ipkt (KRowVersion t e pk v) = (has_type (pkt t) pk \<and> key_ok pk)"
| "key_typed pkt ixt ipkt (KIndexEntry i v pk) =
     (has_type (ixt i) v \<and> key_ok v \<and> has_type (ipkt i) pk \<and> key_ok pk)"
| "key_typed pkt ixt ipkt (KStats t e col) = (col \<noteq> Some 0)"
| "key_typed pkt ixt ipkt (KDescriptor kind i) = (length kind < 2 ^ 32)"
| "key_typed pkt ixt ipkt _ = True"

lemma encode_key_value_inj:
  "has_type dt v \<Longrightarrow> key_ok v \<Longrightarrow> has_type dt w \<Longrightarrow> key_ok w \<Longrightarrow>
   encode_key_value v = encode_key_value w \<Longrightarrow> v = w"
  using encode_key_value_prefix_free [of dt v w "[]" "[]"] by simp

lemma push_bytes_segment_prefix_free:
  assumes "length bs < 2 ^ 32" "length cs < 2 ^ 32"
    "push_bytes_segment bs @ xs = push_bytes_segment cs @ ys"
  shows "bs = cs \<and> xs = ys"
  using read_push_bytes_segment [OF assms(1), of xs] read_push_bytes_segment [OF assms(2), of ys]
    assms(3) by auto

lemma push_bytes_segment_inject:
  "length bs < 2 ^ 32 \<Longrightarrow> length cs < 2 ^ 32 \<Longrightarrow>
   (push_bytes_segment bs = push_bytes_segment cs) = (bs = cs)"
  using push_bytes_segment_prefix_free [of bs cs "[]" "[]"] by auto

lemmas key_defs =
  row_key_def row_prefix_def row_version_key_def row_version_prefix_def index_entry_key_def
  index_prefix_def olap_chunk_meta_key_def olap_chunk_column_key_def stats_key_def
  catalog_descriptor_key_def

lemma be_bytes_append_inject [simp]:
  "(to_be_bytes (v32 :: u32) @ xs = to_be_bytes w32 @ ys) = (v32 = w32 \<and> xs = ys)"
  "(to_be_bytes (v64 :: u64) @ xs = to_be_bytes w64 @ ys) = (v64 = w64 \<and> xs = ys)"
  by (simp_all add: append_eq_append_conv)

lemma key_bytes_inj:
  assumes "key_typed pkt ixt ipkt j" "key_typed pkt ixt ipkt k" "key_bytes j = key_bytes k"
  shows "j = k"
proof (cases j)
  case (KRow t e pk)
  with assms show ?thesis
    by (cases k) (auto simp: key_defs key_constants dest: encode_key_value_inj)
next
  case (KRowVersion t e pk v)
  with assms show ?thesis
    by (cases k) (auto simp: key_defs key_constants dest: encode_key_value_prefix_free)
next
  case (KIndexEntry i v pk)
  with assms show ?thesis
    by (cases k) (auto simp: key_defs key_constants dest: encode_key_value_prefix_free
        encode_key_value_inj)
next
  case (KStats t e col)
  with assms show ?thesis
    by (cases k) (auto simp: key_defs key_constants split: option.splits)
next
  case (KDescriptor kind i)
  with assms show ?thesis
    by (cases k) (auto simp: key_defs key_constants push_bytes_segment_inject)
qed (use assms in \<open>cases k; auto simp: key_defs key_constants\<close>)+

section \<open>Ranges over primary keys\<close>

text \<open>
  What a class of primary keys must promise for range scans: segments of one length, ordered
  as the keys are. Within the contract \<open>row_range_between\<close> is exact.
\<close>

locale key_order =
  fixes val :: "'k \<Rightarrow> column_value" and less_key :: "'k \<Rightarrow> 'k \<Rightarrow> bool" and width :: nat
  assumes enc_length: "length (encode_key_value (val x)) = width"
    and enc_less: "(encode_key_value (val x) < encode_key_value (val y)) = less_key x y"
begin

definition above :: "('k \<times> bool) option \<Rightarrow> 'k \<Rightarrow> bool" where
  "above lower x = (case lower of None \<Rightarrow> True
     | Some (a, incl) \<Rightarrow> if incl then \<not> less_key x a else less_key a x)"

definition below :: "('k \<times> bool) option \<Rightarrow> 'k \<Rightarrow> bool" where
  "below upper x = (case upper of None \<Rightarrow> True
     | Some (b, incl) \<Rightarrow> if incl then \<not> less_key b x else less_key x b)"

definition bound :: "('k \<times> bool) option \<Rightarrow> (column_value \<times> bool) option" where
  "bound b = map_option (apfst val) b"

lemma enc_le: "(encode_key_value (val x) \<le> encode_key_value (val y)) = (\<not> less_key y x)"
  unfolding enc_less [symmetric] by (rule linorder_not_less [symmetric])

lemmas row_key_order = row_key_def snoc_zero_le_iff less_snoc_zero_iff enc_less enc_le

lemma range_start_le:
  "(range_start (row_range_between t e (bound lower) upper lim) \<le> row_key t e (val x))
    = above lower x"
  by (auto simp: row_range_between_def bound_def above_def row_key_order simp del: append_assoc
      split: option.splits bool.splits)

lemma key_below_end:
  "in_bounds (row_prefix t e) (range_end (row_range_between t e lower (bound upper) lim))
     (row_key t e (val x)) = below upper x"
proof (cases upper)
  case None
  then show ?thesis
    by (simp add: row_range_between_def bound_def below_def in_bounds_next_prefix row_key_def
        starts_with_iff)
next
  case (Some b)
  then show ?thesis
    by (cases b) (auto simp: row_range_between_def bound_def below_def row_key_order in_bounds_def
        simp del: append_assoc split: bool.splits)
qed

lemma row_range_between_exact:
  "in_range (row_range_between t e (bound lower) (bound upper) lim) (row_key t e (val x)) =
    (above lower x \<and> below upper x)"
  using range_start_le [of t e lower "bound upper" lim x]
    key_below_end [of t e "bound lower" upper lim x]
  by (auto simp: in_range_def in_bounds_def row_key_def)

end

interpretation i16_keys: key_order VInt16 "\<lambda>x y. sint x < sint y" 3
  by unfold_locales simp_all

interpretation i32_keys: key_order VInt32 "\<lambda>x y. sint x < sint y" 5
  by unfold_locales simp_all

interpretation i64_keys: key_order VInt64 "\<lambda>x y. sint x < sint y" 9
  by unfold_locales simp_all

text \<open>The total order of float keys: by value, the negative zero before the positive.\<close>

definition fp_key_less :: "nat \<Rightarrow> nat \<Rightarrow> nat \<Rightarrow> nat \<Rightarrow> bool" where
  "fp_key_less p w a b =
     (fp_key p w a < fp_key p w b \<or> fp_key p w a = fp_key p w b \<and> fp_neg p w a \<and> \<not> fp_neg p w b)"

interpretation f32_keys: key_order VFloat32 "\<lambda>x y. fp_key_less 23 8 (unat x) (unat y)" 5
  by unfold_locales (simp_all add: encode_ordered_f32_less_iff fp_key_less_def)

interpretation f64_keys: key_order VFloat64 "\<lambda>x y. fp_key_less 52 11 (unat x) (unat y)" 9
  by unfold_locales (simp_all add: encode_ordered_f64_less_iff fp_key_less_def)

section \<open>What the ranges hold\<close>

lemma starts_with_append_same: "starts_with (p @ xs) (p @ q) = starts_with xs q"
  by (auto simp: starts_with_iff)

text \<open>The range of a table holds its rows and no row of another table or epoch.\<close>

lemma row_range_rows:
  "in_range (row_range t e lim) (row_key t' e' pk) = (t = t' \<and> e = e')"
  by (auto simp: row_range_def row_key_def row_prefix_def starts_with_iff)

text \<open>The range of a row's versions holds exactly the versions of that row.\<close>

lemma row_version_range_versions:
  assumes "has_type dt pk" "key_ok pk" "has_type dt pk'" "key_ok pk'"
  shows "in_range (row_version_range t e pk lim) (row_version_key t' e' pk' ver) =
    (t = t' \<and> e = e' \<and> pk = pk')"
  using encode_key_value_prefix_free [OF assms]
  by (auto simp: row_version_range_def row_version_key_def row_version_prefix_def starts_with_iff)
     metis

text \<open>The prefix of an indexed value holds exactly the entries of that value.\<close>

lemma index_prefix_entries:
  assumes "has_type dt v" "key_ok v" "has_type dt v'" "key_ok v'"
  shows "starts_with (index_entry_key i' v' pk) (index_prefix i v) = (i = i' \<and> v = v')"
  using encode_key_value_prefix_free [OF assms]
  by (auto simp: index_entry_key_def index_prefix_def starts_with_iff) metis

lemma starts_with_index_all [simp]:
  "starts_with (index_entry_key i' v pk) (index_all_prefix i) = (i = i')"
  by (auto simp: index_entry_key_def index_prefix_def index_all_prefix_def starts_with_iff)

text \<open>Within a row, a higher version comes first.\<close>

lemma row_version_key_less_iff:
  "(row_version_key t e pk v < row_version_key t e pk w) = (w < v)"
proof -
  have "(- 1 - v < - 1 - w) = (w < v)" for v w :: u64
  proof -
    have "- 1 - x = NOT x" for x :: u64 by (simp add: not_eq_complement)
    then show ?thesis by (simp add: word_less_def uint_not)
  qed
  then show ?thesis by (simp add: row_version_key_def DESC_VERSION_MAX_def)
qed

subsection \<open>Text keys\<close>

lemma unat_of_char: "unat (of_char c :: byte) = of_char c"
proof -
  have "(of_char c :: byte) = word_of_nat (of_char c)" by (metis of_char_of of_nat_of_char)
  moreover have "of_char c < (256 :: nat)" by simp
  ultimately show ?thesis by (simp add: unat_of_nat)
qed

lemma as_bytes_less_iff: "(as_bytes s < as_bytes t) = (s < t)"
proof (induction s arbitrary: t)
  case Nil
  then show ?case by (cases t) (auto simp: as_bytes_def)
next
  case (Cons c s)
  have char: "((of_char c :: byte) < of_char d) = (c < d)" for c d :: char
    by (simp add: word_less_nat_alt less_char_def unat_of_char)
  show ?case
  proof (cases t)
    case (Cons d t')
    with Cons.IH [of t'] show ?thesis
      using char char_of_unat_of_char by (auto simp: as_bytes_def) (metis char_of_unat_of_char)
  qed (simp add: as_bytes_def)
qed

text \<open>Text segments are ordered by length first.\<close>

lemma encode_key_text_less_iff:
  assumes "length s < 2 ^ 32" "length t < 2 ^ 32"
  shows "(encode_key_value (VText s) < encode_key_value (VText t)) =
    (length s < length t \<or> length s = length t \<and> s < t)"
proof -
  have "((word_of_nat (length s) :: u32) < word_of_nat (length t)) = (length s < length t)"
    using assms by (simp add: word_less_nat_alt unat_of_nat)
  moreover have "((word_of_nat (length s) :: u32) = word_of_nat (length t)) = (length s = length t)"
    using assms by (simp add: word_unat_eq_iff unat_of_nat)
  ultimately show ?thesis
    by (simp add: push_bytes_segment_def append_less_append as_bytes_less_iff)
qed

subsection \<open>Float keys and the IEEE order\<close>

lemma f64_key_less_cmp:
  assumes "f64_partial_cmp x a \<noteq> None" "f64_partial_cmp x a = Some Equal \<longrightarrow> x = a"
  shows "fp_key_less 52 11 (unat x) (unat a) = (f64_partial_cmp x a = Some Less)"
  using assms
  by (auto simp: f64_partial_cmp_def fp_partial_cmp_def fp_key_less_def cmp_def split: if_splits)

end
