(* ===== verification/Cell_Codec.thy ===== *)
theory Cell_Codec
  imports Keys Rust_Str
begin

text \<open>
  The older storage format of \<open>codec.rs\<close>: one entry per cell under a readable key, a marker per
  row, and index entries by name. The gateway still writes its index entries, reads its rows and
  deletes its cells. A key segment exists only for some values: the others make the encoder panic,
  so every key is a result. Names that clash with \<open>Keys\<close> carry the prefix \<open>legacy\<close>.
\<close>

section \<open>Cell values\<close>

definition push_bytes :: "bytes \<Rightarrow> bytes" where
  "push_bytes bs = to_be_bytes (word_of_nat (length bs) :: u32) @ bs"

definition read_bytes :: "bytes \<Rightarrow> (bytes \<times> nat) res" where
  "read_bytes bs =
     (if length bs < 4 then Inl (user_error ''XX000'' ''truncated value length'')
      else let len = unat (from_be_bytes (take 4 bs) :: u32)
           in if length bs < 4 + len then Inl (user_error ''XX000'' ''truncated value bytes'')
              else Inr (slice bs 4 (4 + len), 4 + len))"

definition read_string :: "bytes \<Rightarrow> (string \<times> nat) res" where
  "read_string bs =
     res_bind (read_bytes bs) (\<lambda>(b, consumed).
     res_bind (from_utf8 ''invalid UTF-8'' b) (\<lambda>s. Inr (s, consumed)))"

function encode_cell_value :: "column_value \<Rightarrow> bytes"
  and encode_non_null_column_value :: "column_value \<Rightarrow> bytes" where
  "encode_cell_value v = (case v of VNull \<Rightarrow> [0] | _ \<Rightarrow> 1 # encode_non_null_column_value v)"
| "encode_non_null_column_value v =
     (case v of
        VInt16 i \<Rightarrow> to_be_bytes i
      | VInt32 i \<Rightarrow> to_be_bytes i
      | VInt64 i \<Rightarrow> to_be_bytes i
      | VFloat32 f \<Rightarrow> to_be_bytes f
      | VFloat64 f \<Rightarrow> to_be_bytes f
      | VNumeric s \<Rightarrow> push_bytes (as_bytes s)
      | VText s \<Rightarrow> push_bytes (as_bytes s)
      | VDate s \<Rightarrow> push_bytes (as_bytes s)
      | VTimestamp s \<Rightarrow> push_bytes (as_bytes s)
      | VTimestampTz s \<Rightarrow> push_bytes (as_bytes s)
      | VUuid s \<Rightarrow> push_bytes (as_bytes s)
      | VJson s \<Rightarrow> push_bytes (as_bytes s)
      | VJsonb s \<Rightarrow> push_bytes (as_bytes s)
      | VBytea b \<Rightarrow> push_bytes b
      | VBoolean b \<Rightarrow> [if b then 1 else 0]
      | VArray vs \<Rightarrow>
          to_be_bytes (word_of_nat (length vs) :: u32) @ concat (map (\<lambda>x. push_bytes (encode_cell_value x)) vs)
      | VNull \<Rightarrow> [])"
  by pat_completeness auto
termination
  by (relation "measure (\<lambda>x. case x of Inl v \<Rightarrow> 2 * size v + 1 | Inr v \<Rightarrow> 2 * size v)")
    (auto dest: size_list_estimation' [where y = 0] simp: less_Suc_eq_le size_list_estimation')

declare encode_cell_value.simps [simp del] encode_non_null_column_value.simps [simp del]

definition encode_index_value_segment :: "column_value \<Rightarrow> bytes" where
  "encode_index_value_segment v = (case v of VNull \<Rightarrow> [0] | _ \<Rightarrow> 1 # encode_non_null_column_value v)"

definition truncated :: "string \<Rightarrow> 'a res" where
  "truncated what = Inl (user_error ''XX000'' (''truncated '' @ what))"

text \<open>A number of \<open>n\<close> bytes at the head.\<close>

definition read_word :: "string \<Rightarrow> nat \<Rightarrow> ('a::len word \<Rightarrow> column_value) \<Rightarrow> bytes \<Rightarrow> (column_value \<times> nat) res" where
  "read_word what n con bs = (if length bs < n then truncated what else Inr (con (from_be_bytes (take n bs)), n))"

definition read_text :: "(string \<Rightarrow> column_value) \<Rightarrow> bytes \<Rightarrow> (column_value \<times> nat) res" where
  "read_text con bs = res_bind (read_string bs) (\<lambda>(s, consumed). Inr (con s, consumed))"

definition decode_mysql_int_value :: "my_sql_int_kind \<Rightarrow> bool \<Rightarrow> bytes \<Rightarrow> (column_value \<times> nat) res" where
  "decode_mysql_int_value kind uns bs =
     (if kind \<in> {Tiny, Small} \<and> \<not> uns then read_word ''MySQL integer value'' 2 VInt16 bs
      else if kind \<in> {Tiny, Small, Medium} \<or> kind = IntKind \<and> \<not> uns then
        read_word ''MySQL integer value'' 4 VInt32 bs
      else if kind = IntKind \<or> kind = Big \<and> \<not> uns then read_word ''MySQL integer value'' 8 VInt64 bs
      else read_text VNumeric bs)"

text \<open>\<open>decode_cell_value\<close> around the decoder of a value that is not null, and the loop over the
  elements of an array.\<close>

definition decode_cell_with :: "(bytes \<Rightarrow> (column_value \<times> nat) res) \<Rightarrow> bytes \<Rightarrow> column_value res" where
  "decode_cell_with dec bs =
     (case bs of
        [] \<Rightarrow> Inl (user_error ''XX000'' ''empty cell data'')
      | b # r \<Rightarrow>
          if b = 0 then Inr VNull
          else res_bind (dec r) (\<lambda>(v, consumed).
            if consumed + 1 \<noteq> length bs then Inl (user_error ''XX000'' ''malformed cell data'') else Inr v))"

fun cell_array_loop :: "(bytes \<Rightarrow> column_value res) \<Rightarrow> nat \<Rightarrow> bytes \<Rightarrow> nat \<Rightarrow> (column_value list \<times> nat) res" where
  "cell_array_loop dec 0 bs offset = Inr ([], offset)"
| "cell_array_loop dec (Suc n) bs offset =
     res_bind (read_bytes (drop offset bs)) (\<lambda>(encoded, consumed).
     res_bind (dec encoded) (\<lambda>v.
     res_bind (cell_array_loop dec n bs (offset + consumed)) (\<lambda>(vs, end'). Inr (v # vs, end'))))"

definition read_array :: "(bytes \<Rightarrow> column_value res) \<Rightarrow> bytes \<Rightarrow> (column_value \<times> nat) res" where
  "read_array dec bs =
     (if length bs < 4 then truncated ''ARRAY length''
      else res_bind (cell_array_loop dec (unat (from_be_bytes (take 4 bs) :: u32)) bs 4)
             (\<lambda>(vs, offset). Inr (VArray vs, offset)))"

primrec decode_non_null_column_value :: "data_type \<Rightarrow> bytes \<Rightarrow> (column_value \<times> nat) res" where
  "decode_non_null_column_value (TMySqlInt kind uns) bs = decode_mysql_int_value kind uns bs"
| "decode_non_null_column_value (TBit n) bs = read_word ''BIT value'' 8 VInt64 bs"
| "decode_non_null_column_value TYear bs = read_word ''YEAR value'' 4 VInt32 bs"
| "decode_non_null_column_value TInt16 bs = read_word ''INT2 value'' 2 VInt16 bs"
| "decode_non_null_column_value TInt32 bs = read_word ''INT4 value'' 4 VInt32 bs"
| "decode_non_null_column_value TInt64 bs = read_word ''INT8 value'' 8 VInt64 bs"
| "decode_non_null_column_value TFloat32 bs = read_word ''FLOAT4 value'' 4 VFloat32 bs"
| "decode_non_null_column_value (TMySqlFloat p) bs = read_word ''FLOAT4 value'' 4 VFloat32 bs"
| "decode_non_null_column_value TFloat64 bs = read_word ''FLOAT8 value'' 8 VFloat64 bs"
| "decode_non_null_column_value (TMySqlDouble p) bs = read_word ''FLOAT8 value'' 8 VFloat64 bs"
| "decode_non_null_column_value (TNumeric p s) bs = read_text VNumeric bs"
| "decode_non_null_column_value TText bs = read_text VText bs"
| "decode_non_null_column_value (TMySqlText m n) bs = read_text VText bs"
| "decode_non_null_column_value (TVarChar n) bs = read_text VText bs"
| "decode_non_null_column_value (TChar n) bs = read_text VText bs"
| "decode_non_null_column_value TDate bs = read_text VDate bs"
| "decode_non_null_column_value TTime bs = read_text VText bs"
| "decode_non_null_column_value (TMySqlTime f) bs = read_text VText bs"
| "decode_non_null_column_value TTimeTz bs = read_text VText bs"
| "decode_non_null_column_value TInterval bs = read_text VText bs"
| "decode_non_null_column_value TTimestamp bs = read_text VTimestamp bs"
| "decode_non_null_column_value (TMySqlDateTime f) bs = read_text VTimestamp bs"
| "decode_non_null_column_value (TMySqlTimestamp f) bs = read_text VTimestamp bs"
| "decode_non_null_column_value TTimestampTz bs = read_text VTimestampTz bs"
| "decode_non_null_column_value TUuid bs = read_text VUuid bs"
| "decode_non_null_column_value TJson bs = read_text VJson bs"
| "decode_non_null_column_value TJsonb bs = read_text VJsonb bs"
| "decode_non_null_column_value (TDomain n) bs = read_text VText bs"
| "decode_non_null_column_value (TEnum vs) bs = read_text VText bs"
| "decode_non_null_column_value (TSet vs) bs = read_text VText bs"
| "decode_non_null_column_value (TGeometry n) bs = read_text VText bs"
| "decode_non_null_column_value TBoolean bs =
     (case bs of [] \<Rightarrow> truncated ''BOOL value'' | b # _ \<Rightarrow> Inr (VBoolean (b \<noteq> 0), 1))"
| "decode_non_null_column_value TBytea bs = res_bind (read_bytes bs) (\<lambda>(v, consumed). Inr (VBytea v, consumed))"
| "decode_non_null_column_value (TBinary n) bs = res_bind (read_bytes bs) (\<lambda>(v, consumed). Inr (VBytea v, consumed))"
| "decode_non_null_column_value (TVarBinary n) bs = res_bind (read_bytes bs) (\<lambda>(v, consumed). Inr (VBytea v, consumed))"
| "decode_non_null_column_value (TBlob m n) bs = res_bind (read_bytes bs) (\<lambda>(v, consumed). Inr (VBytea v, consumed))"
| "decode_non_null_column_value (TArray inner) bs =
     read_array (decode_cell_with (decode_non_null_column_value inner)) bs"

definition decode_cell_value :: "data_type \<Rightarrow> bytes \<Rightarrow> column_value res" where
  "decode_cell_value dt bs = decode_cell_with (decode_non_null_column_value dt) bs"

section \<open>Key segments\<close>

definition encode_primary_key_segment :: "column_value \<Rightarrow> bytes res" where
  "encode_primary_key_segment v =
     (case v of
        VInt32 i \<Rightarrow> Inr (to_be_bytes (i XOR 0x80000000))
      | VInt16 i \<Rightarrow> Inr (to_be_bytes (i XOR 0x8000))
      | VInt64 i \<Rightarrow> Inr (to_be_bytes (i XOR 0x8000000000000000))
      | VFloat32 f \<Rightarrow> Inr (encode_ordered_f32 f)
      | VFloat64 f \<Rightarrow> Inr (encode_ordered_f64 f)
      | VText s \<Rightarrow> Inr (as_bytes s @ [0])
      | VNumeric s \<Rightarrow> Inr (as_bytes s @ [0])
      | VDate s \<Rightarrow> Inr (as_bytes s @ [0])
      | VTimestamp s \<Rightarrow> Inr (as_bytes s @ [0])
      | VTimestampTz s \<Rightarrow> Inr (as_bytes s @ [0])
      | VUuid s \<Rightarrow> Inr (as_bytes s @ [0])
      | VJson s \<Rightarrow> Inr (as_bytes s @ [0])
      | VJsonb s \<Rightarrow> Inr (as_bytes s @ [0])
      | VBytea b \<Rightarrow> Inr (b @ [0])
      | _ \<Rightarrow> Inl (panic ''unsupported primary key type''))"

definition key_segment_word :: "string \<Rightarrow> nat \<Rightarrow> (bytes \<Rightarrow> column_value) \<Rightarrow> bytes \<Rightarrow> column_value res" where
  "key_segment_word what n con bs =
     (if length bs \<noteq> n then Inl (user_error ''XX000'' (''malformed '' @ what @ '' primary key segment'')) else Inr (con bs))"

definition key_segment_int16 :: "bytes \<Rightarrow> column_value res" where
  "key_segment_int16 = key_segment_word ''INT2'' 2 (\<lambda>bs. VInt16 (from_be_bytes bs XOR 0x8000))"

definition key_segment_int32 :: "bytes \<Rightarrow> column_value res" where
  "key_segment_int32 = key_segment_word ''INT4'' 4 (\<lambda>bs. VInt32 (from_be_bytes bs XOR 0x80000000))"

definition key_segment_int64 :: "bytes \<Rightarrow> column_value res" where
  "key_segment_int64 = key_segment_word ''INT8'' 8 (\<lambda>bs. VInt64 (from_be_bytes bs XOR 0x8000000000000000))"

definition key_segment_text :: "(string \<Rightarrow> column_value) \<Rightarrow> bytes \<Rightarrow> column_value res" where
  "key_segment_text con bs =
     res_bind (ok_or (strip_last 0 bs) (user_error ''XX000'' ''malformed TEXT primary key segment'')) (\<lambda>t.
     res_bind (from_utf8 ''invalid UTF-8 in key'' t) (\<lambda>s. Inr (con s)))"

definition key_segment_bytea :: "bytes \<Rightarrow> column_value res" where
  "key_segment_bytea bs =
     res_bind (ok_or (strip_last 0 bs) (user_error ''XX000'' ''malformed BYTEA primary key segment'')) (\<lambda>v. Inr (VBytea v))"

definition decode_mysql_int_key :: "my_sql_int_kind \<Rightarrow> bool \<Rightarrow> bytes \<Rightarrow> column_value res" where
  "decode_mysql_int_key kind uns bs =
     (if kind \<in> {Tiny, Small} \<and> \<not> uns then key_segment_int16 bs
      else if kind \<in> {Tiny, Small, Medium} \<or> kind = IntKind \<and> \<not> uns then key_segment_int32 bs
      else if kind = IntKind \<or> kind = Big \<and> \<not> uns then key_segment_int64 bs
      else key_segment_text VNumeric bs)"

definition decode_primary_key_segment :: "data_type \<Rightarrow> bytes \<Rightarrow> column_value res" where
  "decode_primary_key_segment dt bs =
     (case dt of
        TMySqlInt kind uns \<Rightarrow> decode_mysql_int_key kind uns bs
      | TInt32 \<Rightarrow> key_segment_int32 bs
      | TInt16 \<Rightarrow> key_segment_int16 bs
      | TInt64 \<Rightarrow> key_segment_int64 bs
      | TFloat32 \<Rightarrow> key_segment_word ''FLOAT4'' 4 (\<lambda>b. VFloat32 (decode_ordered_f32 b)) bs
      | TMySqlFloat _ \<Rightarrow> key_segment_word ''FLOAT4'' 4 (\<lambda>b. VFloat32 (decode_ordered_f32 b)) bs
      | TFloat64 \<Rightarrow> key_segment_word ''FLOAT8'' 8 (\<lambda>b. VFloat64 (decode_ordered_f64 b)) bs
      | TMySqlDouble _ \<Rightarrow> key_segment_word ''FLOAT8'' 8 (\<lambda>b. VFloat64 (decode_ordered_f64 b)) bs
      | TNumeric _ _ \<Rightarrow> key_segment_text VNumeric bs
      | TDate \<Rightarrow> key_segment_text VDate bs
      | TTimestamp \<Rightarrow> key_segment_text VTimestamp bs
      | TMySqlDateTime _ \<Rightarrow> key_segment_text VTimestamp bs
      | TMySqlTimestamp _ \<Rightarrow> key_segment_text VTimestamp bs
      | TTimestampTz \<Rightarrow> key_segment_text VTimestampTz bs
      | TUuid \<Rightarrow> key_segment_text VUuid bs
      | TJson \<Rightarrow> key_segment_text VJson bs
      | TJsonb \<Rightarrow> key_segment_text VJsonb bs
      | TBytea \<Rightarrow> key_segment_bytea bs
      | TBinary _ \<Rightarrow> key_segment_bytea bs
      | TVarBinary _ \<Rightarrow> key_segment_bytea bs
      | TBlob _ _ \<Rightarrow> key_segment_bytea bs
      | TBit _ \<Rightarrow> key_segment_int64 bs
      | TYear \<Rightarrow> key_segment_int32 bs
      | TBoolean \<Rightarrow> Inl (user_error ''XX000'' ''primary key type is not supported for key encoding'')
      | TArray _ \<Rightarrow> Inl (user_error ''XX000'' ''primary key type is not supported for key encoding'')
      | _ \<Rightarrow> key_segment_text VText bs)"

section \<open>Keys\<close>

definition SCHEMA_PREFIX :: string where "SCHEMA_PREFIX = ''__schema__:''"
definition TABLE_DATA_PREFIX :: string where "TABLE_DATA_PREFIX = ''__table__''"
definition INDEX_DATA_PREFIX :: string where "INDEX_DATA_PREFIX = ''__index__''"
definition ROW_MARKER_COLUMN :: string where "ROW_MARKER_COLUMN = ''__row__''"

text \<open>\<open>format!("{a}:{b}:...:")\<close>.\<close>

definition colon_path :: "string list \<Rightarrow> string" where
  "colon_path parts = concat (map (\<lambda>p. p @ '':'') parts)"

definition table_data_prefix :: "string \<Rightarrow> string \<Rightarrow> string \<Rightarrow> bytes" where
  "table_data_prefix db schema table = as_bytes (colon_path [TABLE_DATA_PREFIX, db, schema, table])"

definition row_marker_prefix :: "string \<Rightarrow> string \<Rightarrow> string \<Rightarrow> bytes" where
  "row_marker_prefix db schema table = as_bytes (colon_path [TABLE_DATA_PREFIX, db, schema, table, ROW_MARKER_COLUMN])"

definition row_marker_key :: "string \<Rightarrow> string \<Rightarrow> string \<Rightarrow> column_value \<Rightarrow> bytes res" where
  "row_marker_key db schema table pk =
     res_bind (encode_primary_key_segment pk) (\<lambda>seg. Inr (row_marker_prefix db schema table @ seg))"

definition cell_prefix :: "string \<Rightarrow> string \<Rightarrow> string \<Rightarrow> string \<Rightarrow> bytes" where
  "cell_prefix db schema table column = as_bytes (colon_path [TABLE_DATA_PREFIX, db, schema, table, column])"

definition cell_key :: "string \<Rightarrow> string \<Rightarrow> string \<Rightarrow> string \<Rightarrow> column_value \<Rightarrow> bytes res" where
  "cell_key db schema table column pk =
     res_bind (encode_primary_key_segment pk) (\<lambda>seg. Inr (cell_prefix db schema table column @ seg))"

definition index_table_prefix :: "string \<Rightarrow> string \<Rightarrow> string \<Rightarrow> bytes" where
  "index_table_prefix db schema table = as_bytes (colon_path [INDEX_DATA_PREFIX, db, schema, table])"

definition index_entry_prefix :: "string \<Rightarrow> string \<Rightarrow> string \<Rightarrow> string \<Rightarrow> column_value \<Rightarrow> bytes" where
  "index_entry_prefix db schema table index v =
     as_bytes (colon_path [INDEX_DATA_PREFIX, db, schema, table, index]) @ encode_index_value_segment v @ [of_char CHR '':'']"

definition legacy_index_entry_key ::
    "string \<Rightarrow> string \<Rightarrow> string \<Rightarrow> string \<Rightarrow> column_value \<Rightarrow> column_value \<Rightarrow> bytes res" where
  "legacy_index_entry_key db schema table index v pk =
     res_bind (encode_primary_key_segment pk) (\<lambda>seg. Inr (index_entry_prefix db schema table index v @ seg))"

definition schema_key :: "string \<Rightarrow> string" where
  "schema_key table = SCHEMA_PREFIX @ table"

definition pk_after_prefix :: "string \<Rightarrow> bytes \<Rightarrow> data_type \<Rightarrow> bytes \<Rightarrow> column_value res" where
  "pk_after_prefix what p dt key =
     res_bind (ok_or (strip_prefix p key) (user_error ''XX000'' (what @ '' missing expected prefix'')))
       (decode_primary_key_segment dt)"

definition decode_pk_from_row_marker_key ::
    "bytes \<Rightarrow> string \<Rightarrow> string \<Rightarrow> string \<Rightarrow> data_type \<Rightarrow> column_value res" where
  "decode_pk_from_row_marker_key key db schema table dt =
     pk_after_prefix ''row marker key'' (row_marker_prefix db schema table) dt key"

definition decode_pk_from_cell_key ::
    "bytes \<Rightarrow> string \<Rightarrow> string \<Rightarrow> string \<Rightarrow> string \<Rightarrow> data_type \<Rightarrow> column_value res" where
  "decode_pk_from_cell_key key db schema table column dt =
     pk_after_prefix ''cell key'' (cell_prefix db schema table column) dt key"

definition legacy_decode_pk_from_index_entry_key ::
    "bytes \<Rightarrow> string \<Rightarrow> string \<Rightarrow> string \<Rightarrow> string \<Rightarrow> column_value \<Rightarrow> data_type \<Rightarrow> column_value res" where
  "legacy_decode_pk_from_index_entry_key key db schema table index v pk_type =
     pk_after_prefix ''index entry key'' (index_entry_prefix db schema table index v) pk_type key"

section \<open>Cells read back\<close>

text \<open>What the 32-bit lengths ask of a value: also the encoded elements of an array must fit.\<close>

fun cell_ok :: "column_value \<Rightarrow> bool" where
  "cell_ok (VArray vs) =
     (length vs < 2 ^ 32 \<and> (\<forall>v \<in> set vs. cell_ok v \<and> length (encode_cell_value v) < 2 ^ 32))"
| "cell_ok v = value_ok v"

lemma length_push_bytes [simp, enc_simps]: "length (push_bytes bs) = 4 + length bs"
  by (simp add: push_bytes_def)

lemma read_push_bytes [simp]:
  "length bs < 2 ^ 32 \<Longrightarrow> read_bytes (push_bytes bs @ xs) = Inr (bs, 4 + length bs)"
  by (simp add: read_bytes_def push_bytes_def slice_def unat_of_nat Let_def)

lemma read_text_rest [simp]:
  "str_ok s \<Longrightarrow> read_text con (push_bytes (as_bytes s) @ xs) = Inr (con s, 4 + length s)"
  by (simp add: read_text_def read_string_def str_ok_def)

lemma read_word_rest [simp]:
  "read_word what 2 con16 (to_be_bytes (a :: u16) @ xs) = Inr (con16 a, 2)"
  "read_word what 4 con32 (to_be_bytes (b :: u32) @ xs) = Inr (con32 b, 4)"
  "read_word what 8 con64 (to_be_bytes (c :: u64) @ xs) = Inr (con64 c, 8)"
  by (simp_all add: read_word_def)

abbreviation cell_elems :: "column_value list \<Rightarrow> bytes" where
  "cell_elems vs \<equiv> concat (map (\<lambda>v. push_bytes (encode_cell_value v)) vs)"

lemma cell_array_loop_enc:
  assumes "\<forall>v \<in> set vs. length (encode_cell_value v) < 2 ^ 32 \<and> dec (encode_cell_value v) = Inr v"
    and "drop offset bs = cell_elems vs @ xs"
  shows "cell_array_loop dec (length vs) bs offset = Inr (vs, offset + length (cell_elems vs))"
  using assms
proof (induction vs arbitrary: offset)
  case (Cons v vs)
  let ?e = "push_bytes (encode_cell_value v)"
  have "drop (length ?e) (drop offset bs) = cell_elems vs @ xs" using Cons.prems(2) by simp
  then have "drop (offset + length ?e) bs = cell_elems vs @ xs" by (simp add: add.commute)
  with Cons show ?case by (simp add: add.assoc)
qed simp

lemma decode_cell_with_enc:
  assumes "v \<noteq> VNull \<Longrightarrow> dec (encode_non_null_column_value v) = Inr (v, length (encode_non_null_column_value v))"
  shows "decode_cell_with dec (encode_cell_value v) = Inr v"
  using assms by (cases "v = VNull") (auto simp: encode_cell_value.simps decode_cell_with_def split: column_value.splits)

lemma decode_encode_non_null:
  assumes "has_type dt v" "cell_ok v" "v \<noteq> VNull"
  shows "decode_non_null_column_value dt (encode_non_null_column_value v @ xs) =
    Inr (v, length (encode_non_null_column_value v))"
  using assms
proof (induction dt arbitrary: v xs)
  case (TArray dt)
  then obtain vs where v: "v = VArray vs" by (cases v) (simp_all add: has_type_def)
  have "decode_cell_with (decode_non_null_column_value dt) (encode_cell_value x) = Inr x" if "x \<in> set vs" for x
    using TArray v that decode_cell_with_enc [of x]
    by (metis append_Nil2 has_type_Array cell_ok.simps(1))
  moreover have "drop 4 (encode_non_null_column_value v @ xs) = cell_elems vs @ xs"
    by (simp add: v encode_non_null_column_value.simps)
  ultimately have "cell_array_loop (decode_cell_with (decode_non_null_column_value dt)) (length vs)
      (encode_non_null_column_value v @ xs) 4 = Inr (vs, 4 + length (cell_elems vs))"
    using TArray.prems v by (intro cell_array_loop_enc) simp_all
  then show ?case using TArray.prems
    by (simp add: v read_array_def encode_non_null_column_value.simps unat_of_nat)
next
  case (TMySqlInt k u)
  then show ?case
    by (cases v) (auto simp: encode_non_null_column_value.simps has_type_def mysql_int_has_type_def
        decode_mysql_int_value_def split: my_sql_int_kind.splits if_splits)
qed (case_tac v; auto simp: encode_non_null_column_value.simps has_type_def)+

lemma decode_encode_cell_value: "has_type dt v \<Longrightarrow> cell_ok v \<Longrightarrow> decode_cell_value dt (encode_cell_value v) = Inr v"
  unfolding decode_cell_value_def
  using decode_encode_non_null [of dt v "[]"] by (intro decode_cell_with_enc) simp

section \<open>Keys read back\<close>

definition segment_type :: "data_type \<Rightarrow> bool" where
  "segment_type dt = (case dt of TBoolean \<Rightarrow> False | TArray _ \<Rightarrow> False | _ \<Rightarrow> True)"

lemma key_segment_rest [simp]:
  "key_segment_int16 (to_be_bytes (a XOR 0x8000)) = Inr (VInt16 a)"
  "key_segment_int32 (to_be_bytes (b XOR 0x80000000)) = Inr (VInt32 b)"
  "key_segment_int64 (to_be_bytes (c XOR 0x8000000000000000)) = Inr (VInt64 c)"
  "key_segment_bytea (bs @ [0]) = Inr (VBytea bs)"
  "str_ok s \<Longrightarrow> key_segment_text con (as_bytes s @ [0]) = Inr (con s)"
  by (simp_all add: key_segment_int16_def key_segment_int32_def key_segment_int64_def key_segment_word_def
      key_segment_bytea_def key_segment_text_def str_ok_def)

lemma primary_key_segment_exists:
  assumes "has_shape dt v" "segment_type dt"
  obtains seg where "encode_primary_key_segment v = Inr seg"
  using assms by (cases dt; cases v)
    (auto simp: segment_type_def encode_primary_key_segment_def mysql_int_has_type_def split: my_sql_int_kind.splits if_splits)

lemma decode_encode_primary_key_segment:
  assumes "has_shape dt v" "segment_type dt" "value_ok v" "encode_primary_key_segment v = Inr seg"
  shows "decode_primary_key_segment dt seg = Inr v"
  using assms by (cases dt; cases v)
    (auto simp: segment_type_def encode_primary_key_segment_def decode_primary_key_segment_def mysql_int_has_type_def
      decode_mysql_int_key_def key_segment_word_def split: my_sql_int_kind.splits if_splits)

lemma decode_pk_of_legacy_keys:
  assumes "has_shape dt pk" "segment_type dt" "value_ok pk"
  shows "\<exists>key. row_marker_key db schema table pk = Inr key \<and> decode_pk_from_row_marker_key key db schema table dt = Inr pk"
    and "\<exists>key. cell_key db schema table column pk = Inr key \<and> decode_pk_from_cell_key key db schema table column dt = Inr pk"
    and "\<exists>key. legacy_index_entry_key db schema table index v pk = Inr key \<and>
      legacy_decode_pk_from_index_entry_key key db schema table index v dt = Inr pk"
proof -
  obtain seg where seg: "encode_primary_key_segment pk = Inr seg" using primary_key_segment_exists assms(1,2) .
  note dec = decode_encode_primary_key_segment [OF assms seg]
  show "\<exists>key. row_marker_key db schema table pk = Inr key \<and> decode_pk_from_row_marker_key key db schema table dt = Inr pk"
    by (simp add: row_marker_key_def seg decode_pk_from_row_marker_key_def pk_after_prefix_def dec)
  show "\<exists>key. cell_key db schema table column pk = Inr key \<and> decode_pk_from_cell_key key db schema table column dt = Inr pk"
    by (simp add: cell_key_def seg decode_pk_from_cell_key_def pk_after_prefix_def dec)
  show "\<exists>key. legacy_index_entry_key db schema table index v pk = Inr key \<and>
      legacy_decode_pk_from_index_entry_key key db schema table index v dt = Inr pk"
    by (simp add: legacy_index_entry_key_def seg legacy_decode_pk_from_index_entry_key_def pk_after_prefix_def dec)
qed

text \<open>Numbers keep their order in the segments.\<close>

lemma segment_less_iff:
  "encode_primary_key_segment (VInt32 a) = Inr x \<Longrightarrow> encode_primary_key_segment (VInt32 b) = Inr y \<Longrightarrow>
     (x < y) = (sint a < sint b)"
  "encode_primary_key_segment (VInt64 c) = Inr x \<Longrightarrow> encode_primary_key_segment (VInt64 d) = Inr y \<Longrightarrow>
     (x < y) = (sint c < sint d)"
  by (auto simp: encode_primary_key_segment_def flip_less_fixed)

text \<open>A boolean key panics; a column named like the marker shares its keys; and the names in a
  key run into one another when they hold a colon.\<close>

lemma boolean_key_panics:
  "row_marker_key db schema table (VBoolean b) = Inl (panic ''unsupported primary key type'')"
  "cell_key db schema table column (VBoolean b) = Inl (panic ''unsupported primary key type'')"
  by (simp_all add: row_marker_key_def cell_key_def encode_primary_key_segment_def)

lemma marker_column_clash: "cell_key db schema table ''__row__'' pk = row_marker_key db schema table pk"
  by (simp add: cell_key_def row_marker_key_def cell_prefix_def row_marker_prefix_def ROW_MARKER_COLUMN_def)

lemma colon_names_clash:
  "legacy_index_entry_key db schema (t @ '':'' @ u) i v pk = legacy_index_entry_key db schema t (u @ '':'' @ i) v pk"
  by (simp add: legacy_index_entry_key_def index_entry_prefix_def colon_path_def)

section \<open>Index values\<close>

text \<open>An index value is the value of one column or the array of the values of several, each of the
  type of its column.\<close>

definition index_typed :: "data_type list \<Rightarrow> column_value \<Rightarrow> bool" where
  "index_typed dts v =
     (case dts of [dt] \<Rightarrow> has_type dt v | _ \<Rightarrow> \<exists>vs. v = VArray vs \<and> list_all2 has_type dts vs)"

lemma concat_push_inject:
  assumes "concat (map push_bytes xs) @ us = concat (map push_bytes ys) @ vs" "length xs = length ys"
    "\<forall>x \<in> set xs. length x < 2 ^ 32" "\<forall>y \<in> set ys. length y < 2 ^ 32"
  shows "xs = ys \<and> us = vs"
  using assms(2,1,3,4)
proof (induction xs ys rule: list_induct2)
  case (Cons x xs y ys)
  have "read_bytes (push_bytes x @ concat (map push_bytes xs) @ us) = Inr (x, 4 + length x)"
    "read_bytes (push_bytes y @ concat (map push_bytes ys) @ vs) = Inr (y, 4 + length y)"
    using Cons.prems by (simp_all del: append_assoc)
  then show ?case using Cons by simp
qed simp

lemma encode_cell_value_inj:
  "has_type dt v \<Longrightarrow> has_type dt w \<Longrightarrow> cell_ok v \<Longrightarrow> cell_ok w \<Longrightarrow> encode_cell_value v = encode_cell_value w \<Longrightarrow> v = w"
  by (metis decode_encode_cell_value sum.inject(2))

lemma encode_cells_inj:
  "list_all2 has_type dts vs \<Longrightarrow> list_all2 has_type dts ws \<Longrightarrow> \<forall>v \<in> set vs. cell_ok v \<Longrightarrow> \<forall>w \<in> set ws. cell_ok w
     \<Longrightarrow> map encode_cell_value vs = map encode_cell_value ws \<Longrightarrow> vs = ws"
proof (induction dts arbitrary: vs ws)
  case (Cons dt dts)
  then show ?case by (auto simp: list_all2_Cons1 dest: encode_cell_value_inj)
qed simp

lemma index_value_segment_prefix_free:
  assumes "index_typed dts v" "index_typed dts w" "cell_ok v" "cell_ok w"
    and "encode_index_value_segment v @ xs = encode_index_value_segment w @ ys"
  shows "v = w \<and> xs = ys"
proof (cases "\<exists>dt. dts = [dt]")
  case True
  then obtain dt where t: "has_type dt v" "has_type dt w" using assms(1,2) by (auto simp: index_typed_def)
  show ?thesis
  proof (cases "v = VNull \<or> w = VNull")
    case True
    then show ?thesis using assms(5) by (cases v; cases w) (simp_all add: encode_index_value_segment_def)
  next
    case False
    then have "encode_non_null_column_value v @ xs = encode_non_null_column_value w @ ys"
      using assms(5) by (cases v; cases w) (simp_all add: encode_index_value_segment_def)
    then show ?thesis
      using decode_encode_non_null [OF t(1) assms(3), of xs] decode_encode_non_null [OF t(2) assms(4), of ys] False
      by auto
  qed
next
  case False
  then obtain vs ws where v: "v = VArray vs" "list_all2 has_type dts vs" and w: "w = VArray ws" "list_all2 has_type dts ws"
    using assms(1,2) by (auto simp: index_typed_def split: list.splits)
  have len: "length vs = length ws" using v(2) w(2) by (metis list_all2_lengthD)
  have "concat (map push_bytes (map encode_cell_value vs)) @ xs = concat (map push_bytes (map encode_cell_value ws)) @ ys"
    using assms(5) len by (simp add: encode_index_value_segment_def v w encode_non_null_column_value.simps comp_def)
  then have "map encode_cell_value vs = map encode_cell_value ws \<and> xs = ys"
    using assms(3,4) len by (intro concat_push_inject) (simp_all add: v w)
  then show ?thesis using encode_cells_inj [OF v(2) w(2)] assms(3,4) by (simp add: v w)
qed

end
