(* ===== verification/Catalog_Codec.thy ===== *)
theory Catalog_Codec
  imports Type_Names Cell_Codec Ordered_Map
begin

text \<open>
  The descriptors of the catalog and their JSON documents (\<open>catalog/types.rs\<close>,
  \<open>catalog/codec.rs\<close>, \<open>types/schema.rs\<close>), and the keys they are stored under.

  \<open>serde_json\<close> is outside the repository: a document is a value of \<open>json\<close>, with the accessors as
  the library documents them, and printing and reading documents are parameters (\<open>json_lib\<close>) with
  the hypothesis that a printed document is read back (\<open>json_reads_back\<close>). An object is the sorted
  map the library keeps.
\<close>

section \<open>Documents\<close>

datatype json =
    JNull
  | JBool bool
  | JNumber int
  | JString string
  | JArray "json list"
  | JObject "(string \<times> json) list"

definition json_object :: "(string \<times> json) list \<Rightarrow> json" where
  "json_object kvs = JObject (bt_extend kvs [])"

definition json_get :: "string \<Rightarrow> json \<Rightarrow> json option" where
  "json_get key v = (case v of JObject kvs \<Rightarrow> bt_get kvs key | _ \<Rightarrow> None)"

fun as_u64 :: "json \<Rightarrow> u64 option" where
  "as_u64 (JNumber n) = (if 0 \<le> n \<and> n < 2 ^ 64 then Some (word_of_int n) else None)"
| "as_u64 _ = None"

fun as_str :: "json \<Rightarrow> string option" where
  "as_str (JString s) = Some s"
| "as_str _ = None"

fun as_bool :: "json \<Rightarrow> bool option" where
  "as_bool (JBool b) = Some b"
| "as_bool _ = None"

fun as_array :: "json \<Rightarrow> json list option" where
  "as_array (JArray vs) = Some vs"
| "as_array _ = None"

text \<open>\<open>value.get(key).and_then(f)\<close>.\<close>

definition json_field :: "(json \<Rightarrow> 'a option) \<Rightarrow> string \<Rightarrow> json \<Rightarrow> 'a option" where
  "json_field f key v = Option.bind (json_get key v) f"

definition or_default :: "'a \<Rightarrow> 'a option \<Rightarrow> 'a" where
  "or_default d x = (case x of None \<Rightarrow> d | Some y \<Rightarrow> y)"

definition json_u32 :: "u32 \<Rightarrow> json" where
  "json_u32 x = JNumber (uint x)"

definition json_u64 :: "u64 \<Rightarrow> json" where
  "json_u64 x = JNumber (uint x)"

definition json_opt :: "string option \<Rightarrow> json" where
  "json_opt s = (case s of None \<Rightarrow> JNull | Some t \<Rightarrow> JString t)"

definition json_strings :: "string list \<Rightarrow> json" where
  "json_strings ss = JArray (map JString ss)"

text \<open>The documents of the library: sorted objects, and numbers of 64 bits.\<close>

fun json_wf :: "json \<Rightarrow> bool" where
  "json_wf (JNumber n) = (- (2 ^ 63) \<le> n \<and> n < 2 ^ 64)"
| "json_wf (JArray vs) = (\<forall>v \<in> set vs. json_wf v)"
| "json_wf (JObject kvs) = (sorted_wrt (<) (map fst kvs) \<and> (\<forall>kv \<in> set kvs. json_wf (snd kv)))"
| "json_wf _ = True"

text \<open>Printing and reading, with the texts of their errors.\<close>

record json_lib =
  to_vec :: "json \<Rightarrow> string + bytes"
  from_slice :: "bytes \<Rightarrow> string + json"

definition json_reads_back :: "json_lib \<Rightarrow> bool" where
  "json_reads_back lib = (\<forall>v. json_wf v \<longrightarrow> (\<exists>bs. to_vec lib v = Inr bs \<and> from_slice lib bs = Inr v))"

definition encode_document :: "json_lib \<Rightarrow> string \<Rightarrow> json \<Rightarrow> bytes res" where
  "encode_document lib what v =
     (case to_vec lib v of
        Inl e \<Rightarrow> Inl (user_error ''XX000'' (what @ '' encode error: '' @ e))
      | Inr bs \<Rightarrow> Inr bs)"

definition decode_document :: "json_lib \<Rightarrow> string \<Rightarrow> bytes \<Rightarrow> json res" where
  "decode_document lib what bs =
     (case from_slice lib bs of
        Inl e \<Rightarrow> Inl (user_error ''XX000'' (what @ '' decode error: '' @ e))
      | Inr v \<Rightarrow> Inr v)"

section \<open>Descriptors\<close>

record database_catalog =
  dc_id :: u32
  dc_name :: string

record schema_catalog =
  sc_id :: u32
  sc_database_id :: u32
  sc_name :: string

record table_catalog =
  tc_database_id :: u32
  tc_schema_id :: u32
  tc_schema_name :: string
  tc_table_name :: string
  tc_schema :: table_schema

record index_catalog =
  ix_id :: u32
  ix_database_id :: u32
  ix_schema_id :: u32
  ix_table_id :: u32
  ix_schema_name :: string
  ix_table_name :: string
  ix_name :: string
  ix_column_name :: string
  ix_column_names :: "string list"
  ix_unique :: bool

record view_catalog =
  vc_id :: u32
  vc_database_id :: u32
  vc_schema_id :: u32
  vc_schema_name :: string
  vc_name :: string
  vc_definition :: string

definition DEFAULT_DATABASE_NAME :: string where "DEFAULT_DATABASE_NAME = ''defaultdb''"
definition DEFAULT_SCHEMA_NAME :: string where "DEFAULT_SCHEMA_NAME = ''public''"

definition malformed :: "string \<Rightarrow> 'a res" where
  "malformed what = Inl (user_error ''XX000'' (''catalog '' @ what @ '' is malformed''))"

definition req_u32 :: "string \<Rightarrow> json \<Rightarrow> u32 res" where
  "req_u32 key v = (case json_field as_u64 key v of None \<Rightarrow> malformed key | Some n \<Rightarrow> Inr (ucast n))"

definition req_str :: "string \<Rightarrow> json \<Rightarrow> string res" where
  "req_str key v = (case json_field as_str key v of None \<Rightarrow> malformed key | Some s \<Rightarrow> Inr s)"

definition encode_database_catalog :: "json_lib \<Rightarrow> database_catalog \<Rightarrow> bytes res" where
  "encode_database_catalog lib d =
     encode_document lib ''database'' (json_object
       [(''database_id'', json_u32 (dc_id d)), (''database_name'', JString (dc_name d))])"

definition decode_database_catalog :: "json_lib \<Rightarrow> bytes \<Rightarrow> database_catalog res" where
  "decode_database_catalog lib bs =
     res_bind (decode_document lib ''database'' bs) (\<lambda>v.
     res_bind (req_u32 ''database_id'' v) (\<lambda>i.
     res_bind (req_str ''database_name'' v) (\<lambda>n. Inr \<lparr>dc_id = i, dc_name = n\<rparr>)))"

definition encode_schema_catalog :: "json_lib \<Rightarrow> schema_catalog \<Rightarrow> bytes res" where
  "encode_schema_catalog lib s =
     encode_document lib ''schema'' (json_object
       [(''schema_id'', json_u32 (sc_id s)), (''database_id'', json_u32 (sc_database_id s)),
        (''schema_name'', JString (sc_name s))])"

definition decode_schema_catalog :: "json_lib \<Rightarrow> bytes \<Rightarrow> schema_catalog res" where
  "decode_schema_catalog lib bs =
     res_bind (decode_document lib ''schema'' bs) (\<lambda>v.
     res_bind (req_u32 ''schema_id'' v) (\<lambda>i.
     res_bind (req_u32 ''database_id'' v) (\<lambda>d.
     res_bind (req_str ''schema_name'' v) (\<lambda>n. Inr \<lparr>sc_id = i, sc_database_id = d, sc_name = n\<rparr>))))"

definition json_check :: "check_constraint_schema \<Rightarrow> json" where
  "json_check c = json_object [(''name'', JString (check_name c)), (''expr'', JString (check_expr c))]"

definition json_unique :: "unique_constraint_schema \<Rightarrow> json" where
  "json_unique c = json_object
     [(''name'', JString (unique_name c)), (''columns'', json_strings (unique_columns c)),
      (''primary_key'', JBool (unique_primary_key c))]"

definition json_foreign_key :: "foreign_key_constraint_schema \<Rightarrow> json" where
  "json_foreign_key c = json_object
     [(''name'', JString (fk_name c)), (''columns'', json_strings (fk_columns c)),
      (''foreign_table'', JString (fk_foreign_table c)), (''referred_columns'', json_strings (fk_referred_columns c))]"

definition json_column :: "column_schema \<Rightarrow> json" where
  "json_column c = json_object
     [(''column_id'', json_u32 (column_id c)), (''name'', JString (col_name c)),
      (''data_type'', JString (to_str (col_type c))), (''primary_key'', JBool (col_primary_key c)),
      (''nullable'', JBool (col_nullable c)), (''default'', json_opt (col_default c)),
      (''on_update'', json_opt (col_on_update c)), (''character_set'', json_opt (col_character_set c)),
      (''collation'', json_opt (col_collation c))]"

text \<open>The fields both documents of a table share.\<close>

definition table_fields :: "table_schema \<Rightarrow> (string \<times> json) list" where
  "table_fields s =
     [(''table_id'', json_u32 (table_id s)), (''schema_version'', json_u32 (schema_version s)),
      (''table_epoch'', json_u64 (table_epoch s)), (''primary_key'', JString (primary_key s)),
      (''check_constraints'', JArray (map json_check (check_constraints s))),
      (''unique_constraints'', JArray (map json_unique (unique_constraints s))),
      (''foreign_keys'', JArray (map json_foreign_key (foreign_keys s))),
      (''columns'', JArray (map json_column (columns s)))]"

definition encode_table_catalog :: "json_lib \<Rightarrow> table_catalog \<Rightarrow> bytes res" where
  "encode_table_catalog lib t =
     encode_document lib ''table'' (json_object
       ([(''database_id'', json_u32 (tc_database_id t)), (''schema_id'', json_u32 (tc_schema_id t)),
         (''schema_name'', JString (tc_schema_name t)), (''table_name'', JString (tc_table_name t))]
        @ table_fields (tc_schema t)))"

definition encode_legacy_table_schema :: "json_lib \<Rightarrow> table_schema \<Rightarrow> bytes res" where
  "encode_legacy_table_schema lib s =
     encode_document lib ''schema'' (json_object ((''table_name'', JString (table_name s)) # table_fields s))"

definition parse_string_array :: "json option \<Rightarrow> string \<Rightarrow> string list res" where
  "parse_string_array value field =
     (case value of
        None \<Rightarrow> Inr []
      | Some v \<Rightarrow>
          (case as_array v of
             None \<Rightarrow> malformed field
           | Some items \<Rightarrow> collect_res (\<lambda>item. case as_str item of None \<Rightarrow> malformed field | Some s \<Rightarrow> Inr s) items))"

definition parse_check :: "json \<Rightarrow> check_constraint_schema res" where
  "parse_check item =
     (case json_field as_str ''expr'' item of
        None \<Rightarrow> malformed ''check constraint''
      | Some e \<Rightarrow> Inr \<lparr>check_name = or_default [] (json_field as_str ''name'' item), check_expr = e\<rparr>)"

definition parse_check_constraints :: "json \<Rightarrow> check_constraint_schema list res" where
  "parse_check_constraints v =
     (case json_field as_array ''check_constraints'' v of None \<Rightarrow> Inr [] | Some items \<Rightarrow> collect_res parse_check items)"

definition parse_unique :: "json \<Rightarrow> unique_constraint_schema res" where
  "parse_unique item =
     res_bind (parse_string_array (json_get ''columns'' item) ''unique constraint columns'') (\<lambda>cs.
       Inr \<lparr>unique_name = or_default [] (json_field as_str ''name'' item), unique_columns = cs,
            unique_primary_key = or_default False (json_field as_bool ''primary_key'' item)\<rparr>)"

definition parse_unique_constraints :: "json \<Rightarrow> unique_constraint_schema list res" where
  "parse_unique_constraints v =
     (case json_field as_array ''unique_constraints'' v of None \<Rightarrow> Inr [] | Some items \<Rightarrow> collect_res parse_unique items)"

definition parse_foreign_key :: "json \<Rightarrow> foreign_key_constraint_schema res" where
  "parse_foreign_key item =
     res_bind (parse_string_array (json_get ''columns'' item) ''foreign key columns'') (\<lambda>cs.
     res_bind (case json_field as_str ''foreign_table'' item of None \<Rightarrow> malformed ''foreign key'' | Some t \<Rightarrow> Inr t) (\<lambda>t.
     res_bind (parse_string_array (json_get ''referred_columns'' item) ''foreign key referred columns'') (\<lambda>rs.
       Inr \<lparr>fk_name = or_default [] (json_field as_str ''name'' item), fk_columns = cs, fk_foreign_table = t,
            fk_referred_columns = rs\<rparr>)))"

definition parse_foreign_keys :: "json \<Rightarrow> foreign_key_constraint_schema list res" where
  "parse_foreign_keys v =
     (case json_field as_array ''foreign_keys'' v of None \<Rightarrow> Inr [] | Some items \<Rightarrow> collect_res parse_foreign_key items)"

definition parse_column_schema :: "json \<Rightarrow> column_schema res" where
  "parse_column_schema v =
     (case json_field as_str ''name'' v of
        None \<Rightarrow> Inl (user_error ''XX000'' ''schema column name is malformed'')
      | Some n \<Rightarrow> Inr
          \<lparr>column_id = ucast (or_default 0 (json_field as_u64 ''column_id'' v)), col_name = n,
           col_type = from_sql (or_default ''TEXT'' (json_field as_str ''data_type'' v)),
           col_primary_key = or_default False (json_field as_bool ''primary_key'' v),
           col_nullable = or_default True (json_field as_bool ''nullable'' v),
           col_default = json_field as_str ''default'' v, col_on_update = json_field as_str ''on_update'' v,
           col_character_set = json_field as_str ''character_set'' v,
           col_collation = json_field as_str ''collation'' v\<rparr>)"

definition decode_table_catalog :: "json_lib \<Rightarrow> bytes \<Rightarrow> table_catalog res" where
  "decode_table_catalog lib bs =
     res_bind (decode_document lib ''table'' bs) (\<lambda>v.
     res_bind (req_str ''table_name'' v) (\<lambda>n.
     res_bind (req_u32 ''table_id'' v) (\<lambda>i.
     res_bind (req_str ''primary_key'' v) (\<lambda>pk.
     res_bind (case json_field as_array ''columns'' v of
         None \<Rightarrow> Inl (user_error ''XX000'' ''catalog columns are malformed'')
       | Some items \<Rightarrow> collect_res parse_column_schema items) (\<lambda>cs.
     res_bind (parse_check_constraints v) (\<lambda>checks.
     res_bind (parse_unique_constraints v) (\<lambda>uniques.
     res_bind (parse_foreign_keys v) (\<lambda>fks.
       let schema = normalize_descriptor
             \<lparr>table_name = n, table_id = i,
              schema_version = ucast (or_default 1 (json_field as_u64 ''schema_version'' v)),
              table_epoch = or_default 1 (json_field as_u64 ''table_epoch'' v), primary_key = pk,
              check_constraints = checks, unique_constraints = uniques, foreign_keys = fks, columns = cs\<rparr>
       in Inr \<lparr>tc_database_id = ucast (or_default 1 (json_field as_u64 ''database_id'' v)),
               tc_schema_id = ucast (or_default 1 (json_field as_u64 ''schema_id'' v)),
               tc_schema_name = or_default DEFAULT_SCHEMA_NAME (json_field as_str ''schema_name'' v),
               tc_table_name = n, tc_schema = schema\<rparr>))))))))"

definition decode_table_schema :: "json_lib \<Rightarrow> string \<Rightarrow> bytes \<Rightarrow> table_schema res" where
  "decode_table_schema lib name bs = res_bind (decode_table_catalog lib bs) (\<lambda>t. Inr (tc_schema t))"

definition encode_index_catalog :: "json_lib \<Rightarrow> index_catalog \<Rightarrow> bytes res" where
  "encode_index_catalog lib x =
     encode_document lib ''index'' (json_object
       [(''index_id'', json_u32 (ix_id x)), (''database_id'', json_u32 (ix_database_id x)),
        (''schema_id'', json_u32 (ix_schema_id x)), (''table_id'', json_u32 (ix_table_id x)),
        (''schema_name'', JString (ix_schema_name x)), (''table_name'', JString (ix_table_name x)),
        (''index_name'', JString (ix_name x)), (''column_name'', JString (ix_column_name x)),
        (''column_names'', json_strings (ix_column_names x)), (''unique'', JBool (ix_unique x))])"

definition index_columns :: "json \<Rightarrow> string list res" where
  "index_columns v =
     (case json_field as_array ''column_names'' v of
        Some items \<Rightarrow> collect_res (\<lambda>item. case as_str item of None \<Rightarrow> malformed ''column_names'' | Some s \<Rightarrow> Inr s) items
      | None \<Rightarrow> Inr (case json_field as_str ''column_name'' v of None \<Rightarrow> [] | Some n \<Rightarrow> [n]))"

definition decode_index_catalog :: "json_lib \<Rightarrow> bytes \<Rightarrow> index_catalog res" where
  "decode_index_catalog lib bs =
     res_bind (decode_document lib ''index'' bs) (\<lambda>v.
     res_bind (req_u32 ''index_id'' v) (\<lambda>i.
     res_bind (req_u32 ''database_id'' v) (\<lambda>d.
     res_bind (req_u32 ''schema_id'' v) (\<lambda>s.
     res_bind (req_u32 ''table_id'' v) (\<lambda>t.
     res_bind (req_str ''schema_name'' v) (\<lambda>sn.
     res_bind (req_str ''table_name'' v) (\<lambda>tn.
     res_bind (req_str ''index_name'' v) (\<lambda>n.
     res_bind (req_str ''column_name'' v) (\<lambda>c.
     res_bind (index_columns v) (\<lambda>cs.
       Inr \<lparr>ix_id = i, ix_database_id = d, ix_schema_id = s, ix_table_id = t, ix_schema_name = sn,
            ix_table_name = tn, ix_name = n, ix_column_name = c, ix_column_names = cs,
            ix_unique = or_default False (json_field as_bool ''unique'' v)\<rparr>))))))))))"

definition encode_view_catalog :: "json_lib \<Rightarrow> view_catalog \<Rightarrow> bytes res" where
  "encode_view_catalog lib w =
     encode_document lib ''view'' (json_object
       [(''view_id'', json_u32 (vc_id w)), (''database_id'', json_u32 (vc_database_id w)),
        (''schema_id'', json_u32 (vc_schema_id w)), (''schema_name'', JString (vc_schema_name w)),
        (''view_name'', JString (vc_name w)), (''definition'', JString (vc_definition w))])"

definition decode_view_catalog :: "json_lib \<Rightarrow> bytes \<Rightarrow> view_catalog res" where
  "decode_view_catalog lib bs =
     res_bind (decode_document lib ''view'' bs) (\<lambda>v.
     res_bind (req_u32 ''view_id'' v) (\<lambda>i.
     res_bind (req_u32 ''database_id'' v) (\<lambda>d.
     res_bind (req_u32 ''schema_id'' v) (\<lambda>s.
     res_bind (req_str ''schema_name'' v) (\<lambda>sn.
     res_bind (req_str ''view_name'' v) (\<lambda>n.
     res_bind (case json_field as_str ''definition'' v of None \<Rightarrow> malformed ''view definition'' | Some t \<Rightarrow> Inr t) (\<lambda>t.
       Inr \<lparr>vc_id = i, vc_database_id = d, vc_schema_id = s, vc_schema_name = sn, vc_name = n,
            vc_definition = t\<rparr>)))))))"

text \<open>\<open>resolve_table_reference\<close>: a table, or a schema and a table.\<close>

definition resolve_table_reference :: "string \<Rightarrow> (string \<times> string) res" where
  "resolve_table_reference name =
     (case split_char CHR ''.'' name of
        [t] \<Rightarrow> Inr (DEFAULT_SCHEMA_NAME, t)
      | [s, t] \<Rightarrow> Inr (s, t)
      | _ \<Rightarrow> Inl (unsupported ''only table or schema.table references are supported''))"

section \<open>Keys of the catalog\<close>

definition database_by_name_key :: "string \<Rightarrow> string" where
  "database_by_name_key n = ''__catalog__/databases/by-name/'' @ n"

definition database_by_id_key :: "u32 \<Rightarrow> string" where
  "database_by_id_key i = ''__catalog__/databases/by-id/'' @ show_nat (unat i)"

definition schema_by_name_key :: "u32 \<Rightarrow> string \<Rightarrow> string" where
  "schema_by_name_key d n = ''__catalog__/schemas/by-name/'' @ show_nat (unat d) @ ''/'' @ n"

definition schema_by_id_key :: "u32 \<Rightarrow> string" where
  "schema_by_id_key i = ''__catalog__/schemas/by-id/'' @ show_nat (unat i)"

definition table_by_name_key :: "u32 \<Rightarrow> u32 \<Rightarrow> string \<Rightarrow> string" where
  "table_by_name_key d s n = ''__catalog__/tables/by-name/'' @ show_nat (unat d) @ ''/'' @ show_nat (unat s) @ ''/'' @ n"

definition table_by_id_key :: "u32 \<Rightarrow> string" where
  "table_by_id_key i = ''__catalog__/tables/by-id/'' @ show_nat (unat i)"

definition index_by_name_key :: "u32 \<Rightarrow> u32 \<Rightarrow> string \<Rightarrow> string" where
  "index_by_name_key d s n = ''__catalog__/indexes/by-name/'' @ show_nat (unat d) @ ''/'' @ show_nat (unat s) @ ''/'' @ n"

definition index_by_id_key :: "u32 \<Rightarrow> string" where
  "index_by_id_key i = ''__catalog__/indexes/by-id/'' @ show_nat (unat i)"

definition index_by_table_prefix :: "u32 \<Rightarrow> string" where
  "index_by_table_prefix t = ''__catalog__/indexes/by-table/'' @ show_nat (unat t) @ ''/''"

definition index_by_table_key :: "u32 \<Rightarrow> u32 \<Rightarrow> string" where
  "index_by_table_key t i = index_by_table_prefix t @ show_nat (unat i)"

definition view_by_name_key :: "u32 \<Rightarrow> u32 \<Rightarrow> string \<Rightarrow> string" where
  "view_by_name_key d s n = ''__catalog__/views/by-name/'' @ show_nat (unat d) @ ''/'' @ show_nat (unat s) @ ''/'' @ n"

definition view_by_id_key :: "u32 \<Rightarrow> string" where
  "view_by_id_key i = ''__catalog__/views/by-id/'' @ show_nat (unat i)"

section \<open>Documents read back\<close>

lemma json_get_object [simp]: "json_get key (json_object kvs) = map_of (rev kvs) key"
  using bt.get_fold_ins [OF bt.inv_empty, of kvs key]
  by (simp add: json_get_def json_object_def bt_extend_def split: option.splits)

lemma bt_insert_values: "snd ` set (bt_insert k v m) \<subseteq> insert v (snd ` set m)"
  by (induction k v m rule: bt_insert.induct) auto

lemma bt_extend_values: "snd ` set (bt_extend kvs m) \<subseteq> snd ` set kvs \<union> snd ` set m"
proof (induction kvs arbitrary: m)
  case (Cons kv kvs)
  have "bt_extend (kv # kvs) m = bt_extend kvs (bt_insert (fst kv) (snd kv) m)"
    by (simp add: bt_extend_def case_prod_beta)
  then have "snd ` set (bt_extend (kv # kvs) m) \<subseteq> snd ` set kvs \<union> snd ` set (bt_insert (fst kv) (snd kv) m)"
    using Cons by metis
  then show ?case using bt_insert_values [of "fst kv" "snd kv" m] by auto
qed (simp add: bt_extend_def)

lemma json_wf_object: "(\<And>kv. kv \<in> set kvs \<Longrightarrow> json_wf (snd kv)) \<Longrightarrow> json_wf (json_object kvs)"
  using bt.inv_fold_ins [OF bt.inv_empty, of kvs] bt_extend_values [of kvs "[]"]
  by (fastforce simp: json_object_def bt_extend_def bt_inv_def)

lemma uint_u32_less: "uint (x :: u32) < 2 ^ 64"
  using unsigned_less [of x, where 'a = int] by simp

lemma json_wf_uint: "0 \<le> n \<Longrightarrow> n < 2 ^ 64 \<Longrightarrow> json_wf (JNumber n)"
  by simp

lemma as_u64_json [simp]: "as_u64 (json_u32 x) = Some (ucast x)" "as_u64 (json_u64 y) = Some y"
  using uint_u32_less [of x] unsigned_less [of y, where 'a = int] by (simp_all add: json_u32_def json_u64_def)

lemma json_leaf_wf [simp]: "json_wf (json_u32 x)" "json_wf (json_u64 y)" "json_wf (json_opt o')" "json_wf (json_strings ss)"
proof -
  show "json_wf (json_u32 x)" unfolding json_u32_def using uint_u32_less by (intro json_wf_uint) simp_all
  show "json_wf (json_u64 y)" unfolding json_u64_def
    using unsigned_less [of y, where 'a = int] by (intro json_wf_uint) simp_all
qed (auto simp: json_opt_def json_strings_def split: option.splits)

lemma as_str_opt [simp]: "as_str (json_opt s) = s"
  by (cases s) (simp_all add: json_opt_def)

lemma ucast_u32_u64 [simp]: "ucast (ucast (x :: u32) :: u64) = x"
  by (rule bit_word_eqI) (simp add: bit_unsigned_iff)

lemmas field_simps = json_field_def req_u32_def req_str_def or_default_def

text \<open>A printed document is read back.\<close>

lemma document_roundtrip:
  assumes "json_reads_back lib" "\<And>kv. kv \<in> set kvs \<Longrightarrow> json_wf (snd kv)" "dec (json_object kvs) = Inr x"
  shows "\<exists>bs. encode_document lib what (json_object kvs) = Inr bs \<and> res_bind (decode_document lib what' bs) dec = Inr x"
  using assms(1,3) json_wf_object [OF assms(2)]
  by (fastforce simp: json_reads_back_def encode_document_def decode_document_def)

lemma collect_str_strings: "collect_res (\<lambda>item. case as_str item of None \<Rightarrow> malformed f | Some s \<Rightarrow> Inr s) (map JString ss) = Inr ss"
  by (rule collect_res_map_Inr) simp

lemma parse_strings [simp]: "parse_string_array (Some (json_strings ss)) field = Inr ss"
  by (simp add: parse_string_array_def json_strings_def collect_str_strings)

text \<open>A column through its document: the type is read back as \<open>reloaded\<close> says.\<close>

definition reload_column :: "column_schema \<Rightarrow> column_schema" where
  "reload_column c = c\<lparr>col_type := reloaded (col_type c)\<rparr>"

definition reload_schema :: "table_schema \<Rightarrow> table_schema" where
  "reload_schema s = normalize_descriptor (s\<lparr>columns := map reload_column (columns s)\<rparr>)"

definition schema_wf :: "table_schema \<Rightarrow> bool" where
  "schema_wf s = (\<forall>c \<in> set (columns s). type_wf (col_type c))"

lemma parse_json_parts:
  "parse_check (json_check c) = Inr c"
  "parse_unique (json_unique u) = Inr u"
  "parse_foreign_key (json_foreign_key f) = Inr f"
  "type_wf (col_type k) \<Longrightarrow> parse_column_schema (json_column k) = Inr (reload_column k)"
  by (simp_all add: parse_check_def json_check_def parse_unique_def json_unique_def parse_foreign_key_def
      json_foreign_key_def parse_column_schema_def json_column_def reload_column_def from_sql_def reload_type field_simps)

lemma json_parts_wf [simp]: "json_wf (json_check c)" "json_wf (json_unique u)" "json_wf (json_foreign_key f)" "json_wf (json_column k)"
  unfolding json_check_def json_unique_def json_foreign_key_def json_column_def
  by (rule json_wf_object; auto)+

lemma table_fields_wf: "kv \<in> set (table_fields s) \<Longrightarrow> json_wf (snd kv)"
  by (auto simp: table_fields_def)

lemma collect_parts:
  "collect_res parse_check (map json_check cs) = Inr cs"
  "collect_res parse_unique (map json_unique us) = Inr us"
  "collect_res parse_foreign_key (map json_foreign_key fs) = Inr fs"
  by (rule collect_res_map_Inr; simp add: parse_json_parts)+

lemma collect_columns:
  "\<forall>c \<in> set ks. type_wf (col_type c) \<Longrightarrow> collect_res parse_column_schema (map json_column ks) = Inr (map reload_column ks)"
  by (induction ks) (simp_all add: parse_json_parts)

text \<open>Every descriptor comes back; a table with its types reloaded.\<close>

lemma descriptor_roundtrips:
  assumes "json_reads_back lib"
  shows "\<exists>bs. encode_database_catalog lib d = Inr bs \<and> decode_database_catalog lib bs = Inr d"
    and "\<exists>bs. encode_schema_catalog lib s = Inr bs \<and> decode_schema_catalog lib bs = Inr s"
    and "\<exists>bs. encode_index_catalog lib x = Inr bs \<and> decode_index_catalog lib bs = Inr x"
    and "\<exists>bs. encode_view_catalog lib w = Inr bs \<and> decode_view_catalog lib bs = Inr w"
proof -
  have columns: "json_field as_array ''column_names'' v = Some (map JString cs) \<Longrightarrow> index_columns v = Inr cs" for v cs
    by (simp add: index_columns_def collect_str_strings)
  show "\<exists>bs. encode_database_catalog lib d = Inr bs \<and> decode_database_catalog lib bs = Inr d"
    unfolding encode_database_catalog_def decode_database_catalog_def
    by (rule document_roundtrip [OF assms]) (auto simp: field_simps)
  show "\<exists>bs. encode_schema_catalog lib s = Inr bs \<and> decode_schema_catalog lib bs = Inr s"
    unfolding encode_schema_catalog_def decode_schema_catalog_def
    by (rule document_roundtrip [OF assms]) (auto simp: field_simps)
  show "\<exists>bs. encode_index_catalog lib x = Inr bs \<and> decode_index_catalog lib bs = Inr x"
    unfolding encode_index_catalog_def decode_index_catalog_def
    by (rule document_roundtrip [OF assms]) (auto simp: field_simps columns [unfolded json_field_def] json_strings_def)
  show "\<exists>bs. encode_view_catalog lib w = Inr bs \<and> decode_view_catalog lib bs = Inr w"
    unfolding encode_view_catalog_def decode_view_catalog_def
    by (rule document_roundtrip [OF assms]) (auto simp: field_simps)
qed

lemmas table_reads = table_fields_def field_simps collect_parts collect_columns schema_wf_def
  parse_check_constraints_def parse_unique_constraints_def parse_foreign_keys_def reload_schema_def

lemma table_catalog_roundtrip:
  assumes "json_reads_back lib" "schema_wf (tc_schema t)" "tc_table_name t = table_name (tc_schema t)"
  shows "\<exists>bs. encode_table_catalog lib t = Inr bs \<and>
    decode_table_catalog lib bs = Inr (t\<lparr>tc_schema := reload_schema (tc_schema t)\<rparr>)"
  unfolding encode_table_catalog_def decode_table_catalog_def
proof (rule document_roundtrip [OF assms(1)], goal_cases)
  case (1 kv)
  then show ?case using table_fields_wf [of kv "tc_schema t"] by auto
next
  case 2
  show ?case using assms(2,3) by (cases t; cases "tc_schema t") (simp add: table_reads)
qed

lemma legacy_table_roundtrip:
  assumes "json_reads_back lib" "schema_wf s"
  shows "\<exists>bs. encode_legacy_table_schema lib s = Inr bs \<and>
    decode_table_catalog lib bs = Inr \<lparr>tc_database_id = 1, tc_schema_id = 1, tc_schema_name = DEFAULT_SCHEMA_NAME,
      tc_table_name = table_name s, tc_schema = reload_schema s\<rparr>"
  unfolding encode_legacy_table_schema_def decode_table_catalog_def
proof (rule document_roundtrip [OF assms(1)], goal_cases)
  case (1 kv)
  then show ?case using table_fields_wf [of kv s] by auto
next
  case 2
  show ?case using assms(2) by (cases s) (simp add: table_reads)
qed

end
