(* ===== verification/Kv_Store.thy ===== *)
theory Kv_Store
  imports Keys Ordered_Map "HOL-Library.AList"
begin

text \<open>
  The in-memory key-value store and its transactions (\<open>mem_store.rs\<close>, from
  \<open>MemoryKvStore\<close> on). The store is a \<open>HashMap\<close>: an association list with distinct keys
  in no particular order. A transaction holds the snapshot taken at its start, a sorted write
  buffer of puts and deletes, and a stack of saved buffers. The locale \<open>kv_space\<close> is the
  contract of a key space with point reads, writes and ordered scans; the store and an open
  transaction both implement it, and the table-level lemmas are proved once from it.
\<close>

section \<open>The store\<close>

type_synonym kv_rows = "(bytes \<times> bytes) list"
type_synonym hash_map = "(bytes \<times> bytes) list"

definition mem_put :: "bytes \<Rightarrow> bytes \<Rightarrow> hash_map \<Rightarrow> hash_map" where
  "mem_put key v store = AList.update key v store"

definition mem_put_batch :: "kv_rows \<Rightarrow> hash_map \<Rightarrow> hash_map" where
  "mem_put_batch entries store = fold (\<lambda>(k, v). AList.update k v) entries store"

definition mem_get :: "hash_map \<Rightarrow> bytes \<Rightarrow> bytes option" where
  "mem_get store key = map_of store key"

definition mem_multi_get :: "hash_map \<Rightarrow> bytes list \<Rightarrow> bytes option list" where
  "mem_multi_get store keys = map (mem_get store) keys"

definition mem_delete :: "bytes \<Rightarrow> hash_map \<Rightarrow> hash_map" where
  "mem_delete key store = AList.delete key store"

definition mem_scan_prefix :: "hash_map \<Rightarrow> bytes \<Rightarrow> kv_rows" where
  "mem_scan_prefix store p = sort_key fst (filter (\<lambda>(k, _). starts_with k p) store)"

definition take_limit :: "nat option \<Rightarrow> 'a list \<Rightarrow> 'a list" where
  "take_limit limit xs = (case limit of None \<Rightarrow> xs | Some n \<Rightarrow> take n xs)"

definition mem_scan_range ::
    "hash_map \<Rightarrow> bytes \<Rightarrow> bytes option \<Rightarrow> nat option \<Rightarrow> bool \<Rightarrow> kv_rows" where
  "mem_scan_range store start end' limit reverse =
     (let rows = sort_key fst (filter (\<lambda>(k, _). in_bounds start end' k) store);
          rows1 = (if reverse then rev rows else rows)
      in take_limit limit rows1)"

text \<open>The trait's default \<open>scan_range_projected\<close> and \<open>count_range\<close>.\<close>

datatype kv_scan_projection = KeyOnly | KeyValue

definition mem_scan_range_projected ::
    "hash_map \<Rightarrow> bytes \<Rightarrow> bytes option \<Rightarrow> nat option \<Rightarrow> bool \<Rightarrow> kv_scan_projection
       \<Rightarrow> (bytes \<times> bytes option) list" where
  "mem_scan_range_projected store start end' limit reverse projection =
     map (\<lambda>(k, v). (k, case projection of KeyOnly \<Rightarrow> None | KeyValue \<Rightarrow> Some v))
       (mem_scan_range store start end' limit reverse)"

definition mem_count_range :: "hash_map \<Rightarrow> bytes \<Rightarrow> bytes option \<Rightarrow> nat" where
  "mem_count_range store start end' =
     length (mem_scan_range_projected store start end' None False KeyOnly)"

section \<open>Transactions\<close>

type_synonym write_buffer = "(bytes, bytes option) btree_map"

record mem_txn =
  txn_snapshot :: hash_map
  txn_pending :: write_buffer
  txn_savepoints :: "(string \<times> write_buffer) list"

definition begin_transaction :: "hash_map \<Rightarrow> mem_txn" where
  "begin_transaction store =
     \<lparr>txn_snapshot = store, txn_pending = [], txn_savepoints = []\<rparr>"

text \<open>\<open>overlay_pending\<close>: \<open>guard\<close> is the outcome of \<open>try_read\<close>, \<open>None\<close> while a
  writer holds the buffer.\<close>

definition overlay_one :: "(bytes \<Rightarrow> bool) \<Rightarrow> bytes \<times> bytes option \<Rightarrow> (bytes, bytes) btree_map
    \<Rightarrow> (bytes, bytes) btree_map" where
  "overlay_one inside entry rows =
     (let (key, value) = entry in
      if \<not> inside key then rows
      else case value of Some v \<Rightarrow> bt_insert key v rows | None \<Rightarrow> bt_remove key rows)"

definition overlay_pending ::
    "write_buffer option \<Rightarrow> (bytes \<Rightarrow> bool) \<Rightarrow> (bytes, bytes) btree_map \<Rightarrow> (bytes, bytes) btree_map"
where
  "overlay_pending guard inside rows =
     (case guard of None \<Rightarrow> rows | Some pending \<Rightarrow> fold (overlay_one inside) pending rows)"

definition collect_range :: "(bytes, bytes) btree_map \<Rightarrow> nat option \<Rightarrow> bool \<Rightarrow> kv_rows" where
  "collect_range rows limit reverse = take_limit limit (if reverse then rev rows else rows)"

text \<open>\<open>materialize_prefix\<close>, \<open>materialize_range\<close> and their snapshot variants differ in the
  base map only.\<close>

definition materialize_prefix :: "hash_map \<Rightarrow> mem_txn \<Rightarrow> bytes \<Rightarrow> kv_rows" where
  "materialize_prefix base t p =
     (let rows = bt_extend (filter (\<lambda>(k, _). starts_with k p) base) []
      in overlay_pending (Some (txn_pending t)) (\<lambda>k. starts_with k p) rows)"

definition materialize_range ::
    "hash_map \<Rightarrow> mem_txn \<Rightarrow> bytes \<Rightarrow> bytes option \<Rightarrow> nat option \<Rightarrow> bool \<Rightarrow> kv_rows" where
  "materialize_range base t start end' limit reverse =
     (let rows = bt_extend (filter (\<lambda>(k, _). in_bounds start end' k) base) []
      in collect_range (overlay_pending (Some (txn_pending t)) (in_bounds start end') rows)
           limit reverse)"

definition txn_put :: "bytes \<Rightarrow> bytes \<Rightarrow> mem_txn \<Rightarrow> mem_txn" where
  "txn_put key v t = t\<lparr>txn_pending := bt_insert key (Some v) (txn_pending t)\<rparr>"

definition txn_put_batch :: "kv_rows \<Rightarrow> mem_txn \<Rightarrow> mem_txn" where
  "txn_put_batch entries t =
     t\<lparr>txn_pending := fold (\<lambda>(k, v). bt_insert k (Some v)) entries (txn_pending t)\<rparr>"

definition txn_delete :: "bytes \<Rightarrow> mem_txn \<Rightarrow> mem_txn" where
  "txn_delete key t = t\<lparr>txn_pending := bt_insert key None (txn_pending t)\<rparr>"

definition txn_get :: "hash_map \<Rightarrow> mem_txn \<Rightarrow> bytes \<Rightarrow> bytes option" where
  "txn_get store t key =
     (case bt_get (txn_pending t) key of Some v \<Rightarrow> v | None \<Rightarrow> mem_get store key)"

definition txn_snapshot_get :: "mem_txn \<Rightarrow> bytes \<Rightarrow> bytes option" where
  "txn_snapshot_get t key =
     (case bt_get (txn_pending t) key of Some v \<Rightarrow> v | None \<Rightarrow> mem_get (txn_snapshot t) key)"

definition txn_has_pending_key :: "mem_txn \<Rightarrow> bytes \<Rightarrow> bool" where
  "txn_has_pending_key t key = (bt_get (txn_pending t) key \<noteq> None)"

definition txn_scan_prefix :: "hash_map \<Rightarrow> mem_txn \<Rightarrow> bytes \<Rightarrow> kv_rows" where
  "txn_scan_prefix store t p = materialize_prefix store t p"

definition txn_snapshot_scan_prefix :: "mem_txn \<Rightarrow> bytes \<Rightarrow> kv_rows" where
  "txn_snapshot_scan_prefix t p = materialize_prefix (txn_snapshot t) t p"

definition txn_scan_range ::
    "hash_map \<Rightarrow> mem_txn \<Rightarrow> bytes \<Rightarrow> bytes option \<Rightarrow> nat option \<Rightarrow> bool \<Rightarrow> kv_rows" where
  "txn_scan_range store t start end' limit reverse =
     materialize_range store t start end' limit reverse"

definition txn_snapshot_scan_range ::
    "mem_txn \<Rightarrow> bytes \<Rightarrow> bytes option \<Rightarrow> nat option \<Rightarrow> bool \<Rightarrow> kv_rows" where
  "txn_snapshot_scan_range t start end' limit reverse =
     materialize_range (txn_snapshot t) t start end' limit reverse"

definition commit_one :: "bytes \<times> bytes option \<Rightarrow> hash_map \<Rightarrow> hash_map" where
  "commit_one entry store =
     (let (key, value) = entry in
      case value of Some v \<Rightarrow> AList.update key v store | None \<Rightarrow> AList.delete key store)"

definition txn_commit :: "mem_txn \<Rightarrow> hash_map \<Rightarrow> hash_map" where
  "txn_commit t store = fold commit_one (txn_pending t) store"

definition txn_rollback :: "mem_txn \<Rightarrow> hash_map \<Rightarrow> hash_map" where
  "txn_rollback t store = store"

text \<open>\<open>rposition\<close>: the last position of a saved name.\<close>

definition rposition :: "('a \<Rightarrow> bool) \<Rightarrow> 'a list \<Rightarrow> nat option" where
  "rposition p xs =
     (let hits = filter (\<lambda>i. p (xs ! i)) [0..<length xs]
      in if hits = [] then None else Some (last hits))"

definition txn_savepoint :: "string \<Rightarrow> mem_txn \<Rightarrow> mem_txn" where
  "txn_savepoint name t =
     t\<lparr>txn_savepoints := txn_savepoints t @ [(to_ascii_lowercase name, txn_pending t)]\<rparr>"

definition savepoint_missing :: "string \<Rightarrow> string" where
  "savepoint_missing name = ''savepoint '' @ [CHR 0x27] @ name @ [CHR 0x27] @ '' does not exist''"

definition txn_rollback_to_savepoint :: "string \<Rightarrow> mem_txn \<Rightarrow> string + mem_txn" where
  "txn_rollback_to_savepoint name t =
     (let lname = to_ascii_lowercase name in
      case rposition (\<lambda>(saved, _). saved = lname) (txn_savepoints t) of
        None \<Rightarrow> Inl (savepoint_missing lname)
      | Some i \<Rightarrow> Inr (t\<lparr>txn_savepoints := take (i + 1) (txn_savepoints t),
                        txn_pending := snd (txn_savepoints t ! i)\<rparr>))"

definition txn_release_savepoint :: "string \<Rightarrow> mem_txn \<Rightarrow> string + mem_txn" where
  "txn_release_savepoint name t =
     (let lname = to_ascii_lowercase name in
      case rposition (\<lambda>(saved, _). saved = lname) (txn_savepoints t) of
        None \<Rightarrow> Inl (savepoint_missing lname)
      | Some i \<Rightarrow> Inr (t\<lparr>txn_savepoints := take i (txn_savepoints t)\<rparr>))"

section \<open>The contract of a key space\<close>

text \<open>The scan a key space owes its clients: the keys of a set in ascending order, each with
  its value.\<close>

definition scan_spec :: "(bytes \<rightharpoonup> bytes) \<Rightarrow> (bytes \<Rightarrow> bool) \<Rightarrow> kv_rows" where
  "scan_spec view inside =
     map (\<lambda>k. (k, the (view k))) (sorted_list_of_set {k \<in> dom view. inside k})"

lemma scan_spec_unique:
  assumes "sorted_wrt (<) (map fst rows)"
    and "\<And>k v. ((k, v) \<in> set rows) = (inside k \<and> view k = Some v)"
  shows "rows = scan_spec view inside"
proof -
  let ?S = "{k \<in> dom view. inside k}"
  have keys: "fst ` set rows = ?S"
  proof (intro set_eqI iffI)
    fix k assume "k \<in> fst ` set rows"
    then obtain v where "(k, v) \<in> set rows" by force
    then show "k \<in> ?S" using assms(2) by auto
  next
    fix k assume "k \<in> ?S"
    then obtain v where "view k = Some v" "inside k" by auto
    then have "(k, v) \<in> set rows" using assms(2) by simp
    then show "k \<in> fst ` set rows" by force
  qed
  then have "finite ?S" by (metis List.finite_set finite_imageI)
  then have "map fst rows = sorted_list_of_set ?S"
    using keys assms(1) by (intro strict_sorted_equal) simp_all
  moreover have "map (\<lambda>k. (k, the (view k))) (map fst rows) = rows"
    using assms(2) by (auto intro!: map_idI simp: prod_eq_iff)
  ultimately show ?thesis by (simp add: scan_spec_def)
qed

lemma scan_spec_props:
  assumes "finite (dom view)"
  shows "sorted_wrt (<) (map fst (scan_spec view inside))"
    and "((k, v) \<in> set (scan_spec view inside)) = (inside k \<and> view k = Some v)"
proof -
  have "finite {k \<in> dom view. inside k}" using assms by simp
  then show "sorted_wrt (<) (map fst (scan_spec view inside))"
    and "((k, v) \<in> set (scan_spec view inside)) = (inside k \<and> view k = Some v)"
    by (auto simp: scan_spec_def comp_def image_iff)
qed

lemma scan_spec_cong:
  "(\<And>k. inside k \<Longrightarrow> view k = view' k) \<Longrightarrow> scan_spec view inside = scan_spec view' inside"
proof -
  assume *: "\<And>k. inside k \<Longrightarrow> view k = view' k"
  then have "{k \<in> dom view. inside k} = {k \<in> dom view'. inside k}" by (auto simp: dom_def)
  moreover have "the (view k) = the (view' k)" if "k \<in> set (sorted_list_of_set {k \<in> dom view'. inside k})" for k
    using that * by (cases "finite {k \<in> dom view'. inside k}") auto
  ultimately show ?thesis by (simp add: scan_spec_def)
qed

locale kv_space =
  fixes get :: "'s \<Rightarrow> bytes \<Rightarrow> bytes option"
    and put :: "bytes \<Rightarrow> bytes \<Rightarrow> 's \<Rightarrow> 's"
    and del :: "bytes \<Rightarrow> 's \<Rightarrow> 's"
    and scan :: "'s \<Rightarrow> bytes \<Rightarrow> bytes option \<Rightarrow> kv_rows"
    and inv :: "'s \<Rightarrow> bool"
  assumes inv_put: "inv s \<Longrightarrow> inv (put k v s)"
    and inv_del: "inv s \<Longrightarrow> inv (del k s)"
    and get_put: "inv s \<Longrightarrow> get (put k v s) = (get s)(k \<mapsto> v)"
    and get_del: "inv s \<Longrightarrow> get (del k s) = (get s)(k := None)"
    and finite_view: "inv s \<Longrightarrow> finite (dom (get s))"
    and scan_view: "inv s \<Longrightarrow> scan s a b = scan_spec (get s) (in_bounds a b)"
begin

definition table_rows :: "'s \<Rightarrow> u32 \<Rightarrow> u64 \<Rightarrow> kv_rows" where
  "table_rows s t e =
     scan s (range_start (row_range t e None)) (range_end (row_range t e None))"

lemma table_rows_view:
  "inv s \<Longrightarrow> table_rows s t e = scan_spec (get s) (\<lambda>k. starts_with k (row_prefix t e))"
  by (simp add: table_rows_def scan_view row_range_def prefix_range_def in_bounds_next_prefix [abs_def])

lemma table_rows_mem:
  "inv s \<Longrightarrow> ((k, v) \<in> set (table_rows s t e)) = (starts_with k (row_prefix t e) \<and> get s k = Some v)"
  by (simp add: table_rows_view scan_spec_props finite_view)

text \<open>A row written to a table is found by a scan of the table, in place of an earlier row with
  the same key, and by no scan of another table.\<close>

lemma table_rows_put:
  assumes "inv s"
  shows "set (table_rows (put (row_key t e pk) v s) t e) =
    insert (row_key t e pk, v) {kv \<in> set (table_rows s t e). fst kv \<noteq> row_key t e pk}"
proof -
  have "starts_with (row_key t e pk) (row_prefix t e)"
    by (auto simp: row_key_def starts_with_iff)
  then show ?thesis
    using assms inv_put [OF assms]
    by (auto simp: table_rows_mem get_put split: if_splits)
qed

lemma table_rows_put_other:
  assumes "inv s" "(t, e) \<noteq> (t', e')"
  shows "table_rows (put (row_key t e pk) v s) t' e' = table_rows s t' e'"
proof -
  have "\<not> starts_with (row_key t e pk) (row_prefix t' e')"
    using assms(2) row_range_rows [of t' e' None t e pk] by (auto simp: row_range_def)
  then show ?thesis
    using assms(1) inv_put [OF assms(1)]
    by (auto simp: table_rows_view get_put intro!: scan_spec_cong)
qed

lemma table_rows_del:
  assumes "inv s"
  shows "set (table_rows (del (row_key t e pk) s) t e) =
    {kv \<in> set (table_rows s t e). fst kv \<noteq> row_key t e pk}"
  using assms inv_del [OF assms] by (auto simp: table_rows_mem get_del split: if_splits)

end

section \<open>The store is a key space\<close>

definition store_inv :: "hash_map \<Rightarrow> bool" where
  "store_inv store = distinct (map fst store)"

lemma mem_get_put: "mem_get (mem_put k v store) = (mem_get store)(k \<mapsto> v)"
  by (rule ext) (simp add: mem_get_def mem_put_def update_conv')

lemma mem_get_delete: "mem_get (mem_delete k store) = (mem_get store)(k := None)"
  by (rule ext) (simp add: mem_get_def mem_delete_def delete_conv')

lemma store_inv_put: "store_inv store \<Longrightarrow> store_inv (mem_put k v store)"
  by (simp add: store_inv_def mem_put_def distinct_update)

lemma store_inv_delete: "store_inv store \<Longrightarrow> store_inv (mem_delete k store)"
  by (simp add: store_inv_def mem_delete_def distinct_delete)

lemma sorted_filter_spec:
  assumes "store_inv store"
  shows "sort_key fst (filter (\<lambda>(k, _). inside k) store) = scan_spec (mem_get store) inside"
proof (rule scan_spec_unique)
  let ?f = "filter (\<lambda>(k, _). inside k) store"
  have "distinct (map fst ?f)" using assms by (simp add: store_inv_def distinct_map_filter)
  then have "distinct (map fst (sort_key fst ?f))" by (simp add: distinct_map)
  then show "sorted_wrt (<) (map fst (sort_key fst ?f))"
    by (simp add: strict_sorted_iff)
  show "((k, v) \<in> set (sort_key fst ?f)) = (inside k \<and> mem_get store k = Some v)" for k v
    using assms by (auto simp: store_inv_def mem_get_def map_of_eq_Some_iff)
qed

lemma mem_scan_range_spec:
  assumes "store_inv store"
  shows "mem_scan_range store a b limit reverse =
    take_limit limit ((if reverse then rev else id) (scan_spec (mem_get store) (in_bounds a b)))"
  using sorted_filter_spec [OF assms, of "in_bounds a b"]
  by (simp add: mem_scan_range_def Let_def case_prod_unfold)

interpretation mem: kv_space mem_get mem_put mem_delete
  "\<lambda>store a b. mem_scan_range store a b None False" store_inv
proof
  show "mem_scan_range s a b None False = scan_spec (mem_get s) (in_bounds a b)"
    if "store_inv s" for s a b
    using mem_scan_range_spec [OF that] by (simp add: take_limit_def)
  show "finite (dom (mem_get s))" for s by (simp add: mem_get_def [abs_def] finite_dom_map_of)
qed (simp_all add: mem_get_put mem_get_delete store_inv_put store_inv_delete)

section \<open>A transaction is a key space\<close>

text \<open>What a transaction sees over a base map: its own writes first.\<close>

definition txn_view :: "hash_map \<Rightarrow> mem_txn \<Rightarrow> (bytes \<rightharpoonup> bytes)" where
  "txn_view base t = (\<lambda>k. case bt_get (txn_pending t) k of Some v \<Rightarrow> v | None \<Rightarrow> mem_get base k)"

definition txn_inv :: "mem_txn \<Rightarrow> bool" where
  "txn_inv t =
     (bt_inv (txn_pending t) \<and> store_inv (txn_snapshot t)
      \<and> (\<forall>p \<in> set (txn_savepoints t). bt_inv (snd p)))"

lemma txn_get_view: "txn_get store t = txn_view store t"
  "txn_snapshot_get t = txn_view (txn_snapshot t) t"
  by (auto simp: txn_get_def txn_snapshot_get_def txn_view_def)

lemma overlay_one_get:
  "bt_get (overlay_one inside (key, value) rows) k =
     (if inside key \<and> k = key then value else bt_get rows k)"
  by (simp add: overlay_one_def bt_get_insert bt_get_remove split: option.splits)

lemma overlay_one_inv: "bt_inv rows \<Longrightarrow> bt_inv (overlay_one inside entry rows)"
  by (cases entry) (simp add: overlay_one_def bt_inv_insert bt_inv_remove split: option.splits)

lemma overlay_fold_inv: "bt_inv rows \<Longrightarrow> bt_inv (fold (overlay_one inside) pending rows)"
  by (induction pending arbitrary: rows) (simp_all add: overlay_one_inv)

lemma overlay_fold_get:
  "distinct (map fst pending) \<Longrightarrow> bt_get (fold (overlay_one inside) pending rows) k =
     (case bt_get pending k of Some v \<Rightarrow> if inside k then v else bt_get rows k | None \<Rightarrow> bt_get rows k)"
proof (induction pending arbitrary: rows)
  case (Cons entry pending)
  obtain key val where e: "entry = (key, val)" by (cases entry)
  have "bt_get pending key = None" using Cons.prems e by (simp add: bt_get_def map_of_eq_None_iff)
  with Cons e show ?case
    by (auto simp: overlay_one_get split: option.splits)
qed simp

lemma bt_extend_filter_get:
  assumes "store_inv base"
  shows "bt_get (bt_extend (filter (\<lambda>(k, _). inside k) base) []) k =
    (if inside k then mem_get base k else None)"
proof -
  let ?f = "filter (\<lambda>(k, _). inside k) base"
  have d: "distinct (map fst ?f)" using assms by (simp add: store_inv_def distinct_map_filter)
  then have "map_of (rev ?f) k = map_of ?f k"
    by (metis (no_types, lifting) distinct_rev map_of_eqI map_of_eq_Some_iff rev_map set_rev
        option.exhaust map_of_eq_None_iff list.set_map)
  moreover have "map_of ?f k = (if inside k then map_of base k else None)"
    by (induction base) auto
  ultimately show ?thesis
    using bt.get_fold_ins [OF bt.inv_empty, of ?f k]
    by (simp add: bt_extend_def mem_get_def bt.get_empty split: option.splits)
qed

lemma materialize_view:
  assumes "store_inv base" "bt_inv pending"
  shows "overlay_pending (Some pending) inside (bt_extend (filter (\<lambda>(k, _). inside k) base) []) =
    scan_spec (\<lambda>k. case bt_get pending k of Some v \<Rightarrow> v | None \<Rightarrow> mem_get base k) inside"
proof (rule scan_spec_unique)
  let ?rows = "bt_extend (filter (\<lambda>(k, _). inside k) base) []"
  let ?out = "overlay_pending (Some pending) inside ?rows"
  have "bt_inv ?rows" unfolding bt_extend_def by (intro bt.inv_fold_ins bt.inv_empty)
  then have out: "bt_inv ?out" by (simp add: overlay_pending_def overlay_fold_inv)
  then show "sorted_wrt (<) (map fst ?out)" by (simp add: bt_inv_def)
  have "bt_get ?out k = (if inside k
      then case bt_get pending k of Some v \<Rightarrow> v | None \<Rightarrow> mem_get base k else None)" for k
    using overlay_fold_get [OF bt.distinct_keys [OF assms(2)], of inside ?rows k]
      bt_extend_filter_get [OF assms(1), of inside k]
    by (simp add: overlay_pending_def split: option.splits)
  then show "((k, v) \<in> set ?out) = (inside k \<and>
      (case bt_get pending k of Some v \<Rightarrow> v | None \<Rightarrow> mem_get base k) = Some v)" for k v
    using bt.entries_mem [OF out, of k v] by auto
qed

lemma materialize_range_view:
  assumes "store_inv base" "txn_inv t"
  shows "materialize_range base t a b limit reverse =
    take_limit limit ((if reverse then rev else id) (scan_spec (txn_view base t) (in_bounds a b)))"
  using materialize_view [OF assms(1), of "txn_pending t" "in_bounds a b"] assms(2)
  by (simp add: materialize_range_def collect_range_def txn_inv_def txn_view_def Let_def)

lemma materialize_prefix_view:
  assumes "store_inv base" "txn_inv t"
  shows "materialize_prefix base t p = scan_spec (txn_view base t) (\<lambda>k. starts_with k p)"
  using materialize_view [OF assms(1), of "txn_pending t" "\<lambda>k. starts_with k p"] assms(2)
  by (simp add: materialize_prefix_def txn_inv_def txn_view_def Let_def)

lemma finite_dom_view: "finite (dom (txn_view base t))"
proof (rule finite_subset)
  show "dom (txn_view base t) \<subseteq> dom (map_of (txn_pending t)) \<union> dom (map_of base)"
    by (auto simp: txn_view_def bt_get_def mem_get_def split: option.splits)
  show "finite (dom (map_of (txn_pending t)) \<union> dom (map_of base))"
    by (simp add: finite_dom_map_of)
qed

interpretation txn: kv_space "\<lambda>(store, t). txn_get store t"
  "\<lambda>k v (store, t). (store, txn_put k v t)" "\<lambda>k (store, t). (store, txn_delete k t)"
  "\<lambda>(store, t) a b. txn_scan_range store t a b None False"
  "\<lambda>(store, t). store_inv store \<and> txn_inv t"
proof (unfold_locales, goal_cases)
  case (5 s)
  then show ?case by (auto simp: txn_get_view finite_dom_view)
next
  case (6 s a b)
  then show ?case
    by (auto simp: txn_scan_range_def materialize_range_view take_limit_def txn_get_view)
qed (auto simp: txn_inv_def txn_put_def txn_delete_def bt_inv_insert txn_get_view
    txn_view_def bt_get_insert intro!: ext)

section \<open>Commit, isolation, savepoints\<close>

lemma store_inv_commit_one: "store_inv store \<Longrightarrow> store_inv (commit_one entry store)"
  by (cases entry)
     (auto simp: commit_one_def store_inv_def distinct_update intro: distinct_delete
       split: option.splits)

lemma mem_get_commit_one:
  "mem_get (commit_one (key, value) store) k = (if k = key then value else mem_get store k)"
  using mem_get_put [of key _ store] mem_get_delete [of key store]
  by (auto simp: commit_one_def mem_put_def mem_delete_def split: option.splits)

lemma mem_get_commit_fold:
  "distinct (map fst pending) \<Longrightarrow> mem_get (fold commit_one pending store) k =
     (case bt_get pending k of Some v \<Rightarrow> v | None \<Rightarrow> mem_get store k)"
proof (induction pending arbitrary: store)
  case (Cons entry pending)
  obtain key val where e: "entry = (key, val)" by (cases entry)
  have "bt_get pending key = None" using Cons.prems e by (simp add: bt_get_def map_of_eq_None_iff)
  with Cons e show ?case
    by (auto simp: mem_get_commit_one split: option.splits)
qed simp

text \<open>Commit installs exactly what the transaction saw.\<close>

lemma txn_commit_view:
  assumes "txn_inv t"
  shows "mem_get (txn_commit t store) = txn_view store t"
  using assms mem_get_commit_fold [OF bt.distinct_keys, of "txn_pending t"]
  by (auto simp: txn_commit_def txn_view_def txn_inv_def)

lemma store_inv_commit: "store_inv store \<Longrightarrow> store_inv (txn_commit t store)"
proof -
  have "store_inv store \<Longrightarrow> store_inv (fold commit_one es store)" for es
    by (induction es arbitrary: store) (simp_all add: store_inv_commit_one)
  then show "store_inv store \<Longrightarrow> ?thesis" by (simp add: txn_commit_def)
qed

subsection \<open>Savepoints\<close>

lemma rposition_append:
  "rposition p (xs @ [x]) = (if p x then Some (length xs) else rposition p xs)"
proof -
  have "filter (\<lambda>i. p ((xs @ [x]) ! i)) [0..<length xs] = filter (\<lambda>i. p (xs ! i)) [0..<length xs]"
    by (rule filter_cong) (auto simp: nth_append)
  then show ?thesis by (simp add: rposition_def Let_def)
qed

lemma rposition_bound: "rposition p xs = Some i \<Longrightarrow> i < length xs \<and> p (xs ! i)"
proof -
  let ?hits = "filter (\<lambda>i. p (xs ! i)) [0..<length xs]"
  assume "rposition p xs = Some i"
  then have "i = last ?hits" "?hits \<noteq> []" by (auto simp: rposition_def Let_def split: if_splits)
  then have "i \<in> set ?hits" using last_in_set by blast
  then show ?thesis by simp
qed

text \<open>Between a savepoint and the return to it the transaction may write and set further
  savepoints; the buffer comes back as it was.\<close>

inductive saved_step :: "mem_txn \<Rightarrow> mem_txn \<Rightarrow> bool" where
  ss_put: "saved_step t (txn_put k v t)"
| ss_batch: "saved_step t (txn_put_batch es t)"
| ss_delete: "saved_step t (txn_delete k t)"

lemma saved_steps_keep:
  "saved_step\<^sup>*\<^sup>* t t' \<Longrightarrow> txn_savepoints t' = txn_savepoints t \<and> txn_snapshot t' = txn_snapshot t"
  by (induction rule: rtranclp_induct)
     (auto elim!: saved_step.cases simp: txn_put_def txn_put_batch_def txn_delete_def)

lemma rollback_to_savepoint_restores:
  assumes "saved_step\<^sup>*\<^sup>* (txn_savepoint name t) t'" "to_ascii_lowercase name' = to_ascii_lowercase name"
  shows "txn_rollback_to_savepoint name' t' = Inr (txn_savepoint name t)"
proof -
  let ?s = "txn_savepoint name t"
  have "txn_savepoints t' = txn_savepoints ?s" "txn_snapshot t' = txn_snapshot ?s"
    using saved_steps_keep [OF assms(1)] by simp_all
  moreover have "txn_savepoints ?s = txn_savepoints t @ [(to_ascii_lowercase name, txn_pending t)]"
    and "txn_pending ?s = txn_pending t"
    by (simp_all add: txn_savepoint_def)
  ultimately show ?thesis using assms(2)
    by (simp add: txn_rollback_to_savepoint_def rposition_append)
qed

subsection \<open>Interleaved sessions\<close>

text \<open>Sessions over one store: each may open a transaction, work in it and end it; a write
  outside a transaction goes to the store at once. A step carries the session that takes it.\<close>

record mem_sys =
  sys_store :: hash_map
  sys_txns :: "nat \<Rightarrow> mem_txn option"

inductive mem_step :: "nat \<Rightarrow> mem_sys \<Rightarrow> mem_sys \<Rightarrow> bool" where
  st_begin: "sys_txns g i = None \<Longrightarrow>
    mem_step i g (g\<lparr>sys_txns := (sys_txns g)(i \<mapsto> begin_transaction (sys_store g))\<rparr>)"
| st_put: "sys_txns g i = Some t \<Longrightarrow>
    mem_step i g (g\<lparr>sys_txns := (sys_txns g)(i \<mapsto> txn_put k v t)\<rparr>)"
| st_put_batch: "sys_txns g i = Some t \<Longrightarrow>
    mem_step i g (g\<lparr>sys_txns := (sys_txns g)(i \<mapsto> txn_put_batch es t)\<rparr>)"
| st_delete: "sys_txns g i = Some t \<Longrightarrow>
    mem_step i g (g\<lparr>sys_txns := (sys_txns g)(i \<mapsto> txn_delete k t)\<rparr>)"
| st_savepoint: "sys_txns g i = Some t \<Longrightarrow>
    mem_step i g (g\<lparr>sys_txns := (sys_txns g)(i \<mapsto> txn_savepoint n t)\<rparr>)"
| st_rollback_to: "sys_txns g i = Some t \<Longrightarrow> txn_rollback_to_savepoint n t = Inr t' \<Longrightarrow>
    mem_step i g (g\<lparr>sys_txns := (sys_txns g)(i \<mapsto> t')\<rparr>)"
| st_release: "sys_txns g i = Some t \<Longrightarrow> txn_release_savepoint n t = Inr t' \<Longrightarrow>
    mem_step i g (g\<lparr>sys_txns := (sys_txns g)(i \<mapsto> t')\<rparr>)"
| st_commit: "sys_txns g i = Some t \<Longrightarrow>
    mem_step i g (g\<lparr>sys_store := txn_commit t (sys_store g), sys_txns := (sys_txns g)(i := None)\<rparr>)"
| st_rollback: "sys_txns g i = Some t \<Longrightarrow>
    mem_step i g (g\<lparr>sys_store := txn_rollback t (sys_store g), sys_txns := (sys_txns g)(i := None)\<rparr>)"
| st_direct_put: "sys_txns g i = None \<Longrightarrow> mem_step i g (g\<lparr>sys_store := mem_put k v (sys_store g)\<rparr>)"
| st_direct_delete: "sys_txns g i = None \<Longrightarrow> mem_step i g (g\<lparr>sys_store := mem_delete k (sys_store g)\<rparr>)"

inductive_cases mem_stepE: "mem_step i g g'"

definition sys_inv :: "mem_sys \<Rightarrow> bool" where
  "sys_inv g = (store_inv (sys_store g) \<and> (\<forall>i t. sys_txns g i = Some t \<longrightarrow> txn_inv t))"

lemma txn_inv_writes:
  assumes "txn_inv t"
  shows "txn_inv (txn_put k v t)" "txn_inv (txn_delete k t)" "txn_inv (txn_put_batch es t)"
    "txn_inv (txn_savepoint n t)"
proof -
  have "bt_inv m \<Longrightarrow> bt_inv (fold (\<lambda>(k, v). bt_insert k (Some v)) es m)" for m :: write_buffer
    by (induction es arbitrary: m) (auto intro: bt_inv_insert)
  then show "txn_inv (txn_put_batch es t)" using assms by (simp add: txn_inv_def txn_put_batch_def)
  show "txn_inv (txn_put k v t)" "txn_inv (txn_delete k t)" "txn_inv (txn_savepoint n t)"
    using assms
    by (auto simp: txn_inv_def txn_put_def txn_delete_def txn_savepoint_def bt_inv_insert)
qed

lemma txn_inv_savepoints:
  assumes "txn_inv t"
  shows "txn_rollback_to_savepoint n t = Inr t' \<Longrightarrow> txn_inv t'"
    and "txn_release_savepoint n t = Inr t' \<Longrightarrow> txn_inv t'"
proof -
  show "txn_inv t'" if r: "txn_rollback_to_savepoint n t = Inr t'"
  proof -
    from r obtain i where i: "i < length (txn_savepoints t)"
      "t' = t\<lparr>txn_savepoints := take (i + 1) (txn_savepoints t),
              txn_pending := snd (txn_savepoints t ! i)\<rparr>"
      by (auto simp: txn_rollback_to_savepoint_def Let_def dest: rposition_bound split: option.splits)
    then have "txn_savepoints t ! i \<in> set (txn_savepoints t)" by simp
    then have "bt_inv (snd (txn_savepoints t ! i))" using assms unfolding txn_inv_def by fastforce
    with assms i show ?thesis by (auto simp: txn_inv_def dest: in_set_takeD)
  qed
  show "txn_release_savepoint n t = Inr t' \<Longrightarrow> txn_inv t'"
    using assms
    by (auto simp: txn_release_savepoint_def txn_inv_def Let_def dest!: in_set_takeD
        split: option.splits)
qed

lemma sys_inv_updates:
  assumes "sys_inv g"
  shows "txn_inv t \<Longrightarrow> sys_inv (g\<lparr>sys_txns := (sys_txns g)(i \<mapsto> t)\<rparr>)"
    and "store_inv st \<Longrightarrow> sys_inv (g\<lparr>sys_store := st\<rparr>)"
    and "store_inv st \<Longrightarrow> sys_inv (g\<lparr>sys_store := st, sys_txns := (sys_txns g)(i := None)\<rparr>)"
    and "sys_inv (g\<lparr>sys_txns := (sys_txns g)(i := None)\<rparr>)"
  using assms by (auto simp: sys_inv_def)

lemma txn_inv_begin: "store_inv store \<Longrightarrow> txn_inv (begin_transaction store)"
  by (simp add: txn_inv_def begin_transaction_def bt.inv_empty)

lemma mem_step_inv:
  assumes "mem_step i g g'" "sys_inv g"
  shows "sys_inv g'"
proof -
  have store: "store_inv (sys_store g)" and txns: "\<And>i t. sys_txns g i = Some t \<Longrightarrow> txn_inv t"
    using assms(2) by (auto simp: sys_inv_def)
  note upd = sys_inv_updates [OF assms(2)]
  from assms(1) show ?thesis
  proof cases
    case (st_rollback_to t n t')
    then show ?thesis using upd(1) txn_inv_savepoints(1) [OF txns] by simp
  next
    case (st_release t n t')
    then show ?thesis using upd(1) txn_inv_savepoints(2) [OF txns] by simp
  qed (use store txns in \<open>simp_all add: upd txn_inv_begin txn_inv_writes store_inv_commit
      store_inv_put store_inv_delete txn_rollback_def\<close>)
qed

text \<open>Another session's steps leave a transaction alone: what it reads from its snapshot cannot
  change.\<close>

lemma mem_step_other:
  "mem_step j g g' \<Longrightarrow> j \<noteq> i \<Longrightarrow> sys_txns g' i = sys_txns g i"
  by (auto elim!: mem_stepE)

definition others_step :: "nat \<Rightarrow> mem_sys \<Rightarrow> mem_sys \<Rightarrow> bool" where
  "others_step i g g' = (\<exists>j. j \<noteq> i \<and> mem_step j g g')"

lemma others_steps_keep: "(others_step i)\<^sup>*\<^sup>* g g' \<Longrightarrow> sys_txns g' i = sys_txns g i"
  by (induction rule: rtranclp_induct) (auto simp: others_step_def dest: mem_step_other)

text \<open>Only a commit or a write outside a transaction changes the store.\<close>

lemma mem_step_store:
  "mem_step j g g' \<Longrightarrow>
   sys_store g' = sys_store g
   \<or> (\<exists>t. sys_txns g j = Some t \<and> sys_store g' = txn_commit t (sys_store g) \<and> sys_txns g' j = None)
   \<or> (\<exists>k v. sys_txns g j = None \<and> sys_store g' = mem_put k v (sys_store g))
   \<or> (\<exists>k. sys_txns g j = None \<and> sys_store g' = mem_delete k (sys_store g))"
  by (cases rule: mem_step.cases, assumption) (auto simp: txn_rollback_def)

end
