(* ===== verification/Olap_Stats.thy ===== *)
theory Olap_Stats
  imports Keys
begin

text \<open>
  Column chunks, zone maps and table statistics (\<open>storage_layout/olap_stats.rs\<close>, and the
  zone map codec of \<open>tuple_codec.rs\<close>): versioned records read with a cursor that must end
  at the end of the record. The record decoders are instances of one contract.
\<close>

record column_zone_map =
  zone_column_id :: u32
  zone_null_count :: u64
  zone_min :: "column_value option"
  zone_max :: "column_value option"

record olap_chunk_meta =
  chunk_id :: u64
  chunk_row_count :: u32
  chunk_zones :: "column_zone_map list"

record table_stats =
  stats_row_count :: u64
  stats_zones :: "column_zone_map list"

section \<open>Zone maps\<close>

definition encode_zone_bound :: "column_value option \<Rightarrow> bytes" where
  "encode_zone_bound b = (case b of Some v \<Rightarrow> 1 # encode_tuple_value v | None \<Rightarrow> [0])"

definition encode_zone :: "column_zone_map \<Rightarrow> bytes" where
  "encode_zone z =
     to_be_bytes (zone_column_id z) @ to_be_bytes (zone_null_count z)
       @ encode_zone_bound (zone_min z) @ encode_zone_bound (zone_max z)"

definition encode_zone_maps :: "column_zone_map list \<Rightarrow> bytes" where
  "encode_zone_maps zones =
     to_be_bytes (word_of_nat (length zones) :: u32) @ concat (map encode_zone zones)"

definition decode_zone_bound :: "string \<Rightarrow> cursor \<Rightarrow> (column_value option \<times> cursor) res" where
  "decode_zone_bound what c =
     res_bind (cursor_u8 c) (\<lambda>(tag, c1).
       if tag = 0 then Inr (None, c1)
       else if tag = 1 then map_read Some (decode_tuple_value c1)
       else Inl (user_error ''XX000'' (''unknown zone '' @ what @ '' tag'')))"

definition decode_zone :: "cursor \<Rightarrow> (column_zone_map \<times> cursor) res" where
  "decode_zone c =
     res_bind (cursor_u32 c) (\<lambda>(cid, c1).
     res_bind (cursor_u64 c1) (\<lambda>(nulls, c2).
     res_bind (decode_zone_bound ''min'' c2) (\<lambda>(mn, c3).
     res_bind (decode_zone_bound ''max'' c3) (\<lambda>(mx, c4).
       Inr (\<lparr>zone_column_id = cid, zone_null_count = nulls, zone_min = mn, zone_max = mx\<rparr>, c4)))))"

definition decode_zone_maps :: "cursor \<Rightarrow> (column_zone_map list \<times> cursor) res" where
  "decode_zone_maps c =
     res_bind (cursor_u32 c) (\<lambda>(count, c1). repeat_dec decode_zone (unat count) c1)"

section \<open>Records\<close>

definition encode_olap_chunk_meta :: "olap_chunk_meta \<Rightarrow> bytes" where
  "encode_olap_chunk_meta m =
     [VERSION] @ to_be_bytes (chunk_id m) @ to_be_bytes (chunk_row_count m)
       @ encode_zone_maps (chunk_zones m)"

definition decode_olap_chunk_meta :: "bytes \<Rightarrow> olap_chunk_meta res" where
  "decode_olap_chunk_meta bs =
     res_bind (cursor_u8 (cursor_new bs)) (\<lambda>(version, c1).
       if version \<noteq> VERSION then Inl (user_error ''XX000'' ''unsupported OLAP chunk meta version'')
       else
         res_bind (cursor_u64 c1) (\<lambda>(cid, c2).
         res_bind (cursor_u32 c2) (\<lambda>(rows, c3).
         res_bind (decode_zone_maps c3) (\<lambda>(zones, c4).
           if \<not> is_done c4 then Inl (user_error ''XX000'' ''trailing bytes in OLAP chunk meta'')
           else Inr \<lparr>chunk_id = cid, chunk_row_count = rows, chunk_zones = zones\<rparr>))))"

definition encode_olap_column_chunk :: "column_value list \<Rightarrow> bytes" where
  "encode_olap_column_chunk vs =
     [VERSION] @ to_be_bytes (word_of_nat (length vs) :: u32) @ concat (map encode_tuple_value vs)"

definition decode_olap_column_chunk :: "bytes \<Rightarrow> column_value list res" where
  "decode_olap_column_chunk bs =
     res_bind (cursor_u8 (cursor_new bs)) (\<lambda>(version, c1).
       if version \<noteq> VERSION
       then Inl (user_error ''XX000'' ''unsupported OLAP column chunk version'')
       else
         res_bind (cursor_u32 c1) (\<lambda>(count, c2).
         res_bind (repeat_dec decode_tuple_value (unat count) c2) (\<lambda>(vs, c3).
           if \<not> is_done c3 then Inl (user_error ''XX000'' ''trailing bytes in OLAP column chunk'')
           else Inr vs)))"

definition encode_table_stats :: "table_stats \<Rightarrow> bytes" where
  "encode_table_stats s =
     [VERSION] @ to_be_bytes (stats_row_count s) @ encode_zone_maps (stats_zones s)"

definition decode_table_stats :: "bytes \<Rightarrow> table_stats res" where
  "decode_table_stats bs =
     res_bind (cursor_u8 (cursor_new bs)) (\<lambda>(version, c1).
       if version \<noteq> VERSION then Inl (user_error ''XX000'' ''unsupported table stats version'')
       else
         res_bind (cursor_u64 c1) (\<lambda>(rows, c2).
         res_bind (decode_zone_maps c2) (\<lambda>(zones, c3).
           if \<not> is_done c3 then Inl (user_error ''XX000'' ''trailing bytes in table stats'')
           else Inr \<lparr>stats_row_count = rows, stats_zones = zones\<rparr>)))"

section \<open>Read back\<close>

fun bound_ok :: "column_value option \<Rightarrow> bool" where
  "bound_ok None = True"
| "bound_ok (Some v) = value_ok v"

definition zone_ok :: "column_zone_map \<Rightarrow> bool" where
  "zone_ok z = (bound_ok (zone_min z) \<and> bound_ok (zone_max z))"

definition zones_ok :: "column_zone_map list \<Rightarrow> bool" where
  "zones_ok zs = (length zs < 2 ^ 32 \<and> (\<forall>z \<in> set zs. zone_ok z))"

text \<open>A cursor advanced over the head of what is left still lies within its slice.\<close>

lemma cursor_ok_advance_rest:
  "cursor_ok c \<Longrightarrow> rest c = xs @ ys \<Longrightarrow> cursor_ok (advance (length xs) c)"
  by (simp add: cursor_ok_advance)

interpretation zone_bound: cursor_codec encode_zone_bound "decode_zone_bound what" bound_ok
proof
  fix x c ys
  assume *: "bound_ok x" "cursor_ok c" "rest c = encode_zone_bound x @ ys"
  show "decode_zone_bound what c = Inr (x, advance (length (encode_zone_bound x)) c)"
  proof (cases x)
    case (Some v)
    with * have "decode_tuple_value (advance (Suc 0) c) =
        Inr (v, advance (length (encode_tuple_value v)) (advance (Suc 0) c))"
      by (intro tuple.dec_enc) (auto simp: encode_zone_bound_def intro: cursor_ok_advance1)
    with Some * show ?thesis by (simp add: decode_zone_bound_def encode_zone_bound_def)
  qed (use * in \<open>simp add: decode_zone_bound_def encode_zone_bound_def\<close>)
qed

text \<open>Reading the four fields of a zone in turn.\<close>

interpretation zone: cursor_codec encode_zone decode_zone zone_ok
proof
  fix z c ys
  assume ok: "zone_ok z" and c: "cursor_ok c" and r: "rest c = encode_zone z @ ys"
  let ?mn = "encode_zone_bound (zone_min z)" and ?mx = "encode_zone_bound (zone_max z)"
  from r have r1: "rest (advance 4 c) = to_be_bytes (zone_null_count z) @ ?mn @ ?mx @ ys"
    using rest_advance [of c "to_be_bytes (zone_column_id z)"] by (simp add: encode_zone_def)
  then have r2: "rest (advance 12 c) = ?mn @ ?mx @ ys"
    using rest_advance [of "advance 4 c" "to_be_bytes (zone_null_count z)"] by simp
  then have r3: "rest (advance (12 + length ?mn) c) = ?mx @ ys"
    using rest_advance [of "advance 12 c" ?mn] by simp
  have c2: "cursor_ok (advance 12 c)"
    using c r by (intro cursor_ok_advance) (simp_all add: encode_zone_def)
  then have c3: "cursor_ok (advance (12 + length ?mn) c)"
    using cursor_ok_advance_rest [of "advance 12 c" ?mn] r2 by simp
  have "decode_zone_bound ''min'' (advance 12 c) = Inr (zone_min z, advance (12 + length ?mn) c)"
    using zone_bound.dec_enc [OF _ c2 r2] ok by (simp add: zone_ok_def)
  moreover have "decode_zone_bound ''max'' (advance (12 + length ?mn) c) =
      Inr (zone_max z, advance (12 + length ?mn + length ?mx) c)"
    using zone_bound.dec_enc [OF _ c3 r3] ok by (simp add: zone_ok_def)
  ultimately show "decode_zone c = Inr (z, advance (length (encode_zone z)) c)"
    using r r1 by (simp add: decode_zone_def encode_zone_def add.assoc)
qed

interpretation zone_maps: cursor_codec encode_zone_maps decode_zone_maps zones_ok
proof
  fix zs c ys
  assume ok: "zones_ok zs" and c: "cursor_ok c" and r: "rest c = encode_zone_maps zs @ ys"
  let ?n = "to_be_bytes (word_of_nat (length zs) :: u32)"
  have "rest (advance 4 c) = concat (map encode_zone zs) @ ys"
    using r rest_advance [of c ?n] by (simp add: encode_zone_maps_def)
  moreover have "cursor_ok (advance 4 c)"
    using c r by (intro cursor_ok_advance) (simp_all add: encode_zone_maps_def)
  ultimately have "repeat_dec decode_zone (length zs) (advance 4 c) =
      Inr (zs, advance (length (concat (map encode_zone zs))) (advance 4 c))"
    using ok by (intro zone.repeat_dec_enc) (simp_all add: zones_ok_def)
  moreover have "unat (word_of_nat (length zs) :: u32) = length zs"
    using ok by (simp add: zones_ok_def unat_of_nat)
  ultimately show "decode_zone_maps c = Inr (zs, advance (length (encode_zone_maps zs)) c)"
    using r by (simp add: decode_zone_maps_def encode_zone_maps_def)
qed

text \<open>The whole record: after the last field the cursor is at the end.\<close>

lemma is_done_advance: "is_done (advance n (cursor_new bs)) = (n = length bs)"
  by (simp add: is_done_def cursor_new_def advance_def)

lemma rest_cursor_new_advance: "rest (advance n (cursor_new bs)) = drop n bs"
  by (simp add: rest_def advance_def cursor_new_def)

lemma cursor_ok_new_advance: "cursor_ok (advance n (cursor_new bs)) = (n \<le> length bs)"
  by (simp add: cursor_ok_def advance_def cursor_new_def)

lemma decode_encode_olap_chunk_meta:
  assumes "zones_ok (chunk_zones m)"
  shows "decode_olap_chunk_meta (encode_olap_chunk_meta m) = Inr m"
proof -
  let ?c = "cursor_new (encode_olap_chunk_meta m)"
  have "decode_zone_maps (advance 13 ?c) =
      Inr (chunk_zones m, advance (length (encode_zone_maps (chunk_zones m))) (advance 13 ?c))"
    using assms by (intro zone_maps.dec_enc [where ys = "[]"])
      (simp_all add: rest_cursor_new_advance cursor_ok_new_advance encode_olap_chunk_meta_def)
  then show ?thesis
    by (simp add: decode_olap_chunk_meta_def rest_cursor_new_advance is_done_advance
        encode_olap_chunk_meta_def)
qed

lemma decode_encode_table_stats:
  assumes "zones_ok (stats_zones s)"
  shows "decode_table_stats (encode_table_stats s) = Inr s"
proof -
  let ?c = "cursor_new (encode_table_stats s)"
  have "decode_zone_maps (advance 9 ?c) =
      Inr (stats_zones s, advance (length (encode_zone_maps (stats_zones s))) (advance 9 ?c))"
    using assms by (intro zone_maps.dec_enc [where ys = "[]"])
      (simp_all add: rest_cursor_new_advance cursor_ok_new_advance encode_table_stats_def)
  then show ?thesis
    by (simp add: decode_table_stats_def rest_cursor_new_advance is_done_advance
        encode_table_stats_def)
qed

lemma decode_encode_olap_column_chunk:
  assumes "length vs < 2 ^ 32" "\<forall>v \<in> set vs. value_ok v"
  shows "decode_olap_column_chunk (encode_olap_column_chunk vs) = Inr vs"
proof -
  let ?c = "cursor_new (encode_olap_column_chunk vs)"
  have "repeat_dec decode_tuple_value (length vs) (advance 5 ?c) =
      Inr (vs, advance (length (concat (map encode_tuple_value vs))) (advance 5 ?c))"
    using assms by (intro tuple.repeat_dec_enc [where ys = "[]"])
      (simp_all add: rest_cursor_new_advance cursor_ok_new_advance encode_olap_column_chunk_def)
  then show ?thesis using assms
    by (simp add: decode_olap_column_chunk_def rest_cursor_new_advance is_done_advance
        encode_olap_column_chunk_def unat_of_nat)
qed

end
