(* ===== verification/Row_Records.thy ===== *)
theory Row_Records
  imports Olap_Stats Ordered_Map
begin

text \<open>
  Row records without a schema (\<open>decode_row_record_raw\<close> and the version-3 directory format of
  \<open>storage_layout/fast_row_decode.rs\<close>), tombstones, and the visibility test of
  \<open>olap_stats.rs\<close>.
\<close>

record mvcc_meta =
  xmin :: u64
  xmax :: u64

definition mvcc_default :: mvcc_meta where
  "mvcc_default = \<lparr>xmin = 1, xmax = 0\<rparr>"

record row_record =
  rec_schema_version :: u32
  rec_table_epoch :: u64
  rec_mvcc :: mvcc_meta
  rec_values :: "(u32, column_value) btree_map"

definition is_row_tombstone :: "row_record \<Rightarrow> bool" where
  "is_row_tombstone r = (xmax (rec_mvcc r) \<noteq> 0 \<and> rec_values r = [])"

definition is_row_visible :: "row_record \<Rightarrow> u64 \<Rightarrow> bool" where
  "is_row_visible r snapshot =
     (if is_row_tombstone r then xmin (rec_mvcc r) \<le> snapshot
      else xmin (rec_mvcc r) \<le> snapshot
           \<and> (xmax (rec_mvcc r) = 0 \<or> xmax (rec_mvcc r) > snapshot))"

section \<open>Raw decoding\<close>

text \<open>The header fields after the version byte, in the order every row reader takes them.\<close>

record row_header =
  hdr_schema_version :: u32
  hdr_table_epoch :: u64
  hdr_mvcc :: mvcc_meta
  hdr_count :: nat

definition read_row_header :: "cursor \<Rightarrow> (row_header \<times> cursor) res" where
  "read_row_header c =
     res_bind (cursor_u32 c) (\<lambda>(sv, c1).
     res_bind (cursor_u64 c1) (\<lambda>(epoch, c2).
     res_bind (cursor_u64 c2) (\<lambda>(mn, c3).
     res_bind (cursor_u64 c3) (\<lambda>(mx, c4).
     res_bind (cursor_u32 c4) (\<lambda>(count, c5).
       Inr (\<lparr>hdr_schema_version = sv, hdr_table_epoch = epoch,
             hdr_mvcc = \<lparr>xmin = mn, xmax = mx\<rparr>, hdr_count = unat count\<rparr>, c5))))))"

definition record_of :: "row_header \<Rightarrow> (u32, column_value) btree_map \<Rightarrow> row_record" where
  "record_of h vs =
     \<lparr>rec_schema_version = hdr_schema_version h, rec_table_epoch = hdr_table_epoch h,
      rec_mvcc = hdr_mvcc h, rec_values = vs\<rparr>"

definition fast_row_header :: "bytes \<Rightarrow> (row_header \<times> nat \<times> nat) res" where
  "fast_row_header bs =
     res_bind (cursor_u8 (cursor_new bs)) (\<lambda>(version, c1).
       if version \<noteq> FAST_ROW_VERSION
       then Inl (user_error ''XX000'' ''unsupported fast row record version'')
       else
         res_bind (read_row_header c1) (\<lambda>(h, c2).
         res_bind (ok_or (checked_add_usize (pos c2) (saturating_mul_usize (hdr_count h) 12))
                     (user_error ''XX000'' ''fast row directory overflow'')) (\<lambda>payload_start.
           if length bs < payload_start
           then Inl (user_error ''XX000'' ''truncated fast row directory'')
           else Inr (h, pos c2, payload_start))))"

definition fast_row_directory_entry :: "bytes \<Rightarrow> nat \<Rightarrow> nat \<Rightarrow> nat \<Rightarrow> (u32 \<times> nat \<times> nat) res" where
  "fast_row_directory_entry bs directory_start entry_idx payload_start =
     (let start = directory_start + entry_idx * 12
      in if length bs < start + 12
         then Inl (user_error ''XX000'' ''truncated fast row directory entry'')
         else
           (let column_id = from_be_bytes (slice bs start (start + 4));
                offset = unat (from_be_bytes (slice bs (start + 4) (start + 8)) :: u32);
                len = unat (from_be_bytes (slice bs (start + 8) (start + 12)) :: u32)
            in res_bind (ok_or (checked_add_usize payload_start offset)
                           (user_error ''XX000'' ''fast row payload offset overflow'')) (\<lambda>value_start.
               res_bind (ok_or (checked_add_usize value_start len)
                           (user_error ''XX000'' ''fast row payload length overflow'')) (\<lambda>value_end.
                 if length bs < value_end
                 then Inl (user_error ''XX000'' ''truncated fast row payload'')
                 else Inr (column_id, value_start, value_end)))))"

text \<open>A value that must fill its slice: cursor, decode, end test.\<close>

definition decode_whole :: "(cursor \<Rightarrow> ('a \<times> cursor) res) \<Rightarrow> string \<Rightarrow> bytes \<Rightarrow> 'a res" where
  "decode_whole dec what bs =
     res_bind (dec (cursor_new bs)) (\<lambda>(v, c).
       if \<not> is_done c then Inl (user_error ''XX000'' what) else Inr v)"

text \<open>The loop over the directory, \<open>for entry_idx in idx..idx + n\<close>.\<close>

fun fast_row_values ::
    "bytes \<Rightarrow> nat \<Rightarrow> nat \<Rightarrow> nat \<Rightarrow> nat \<Rightarrow> (u32, column_value) btree_map
       \<Rightarrow> (u32, column_value) btree_map res" where
  "fast_row_values bs dir payload idx 0 vs = Inr vs"
| "fast_row_values bs dir payload idx (Suc n) vs =
     res_bind (fast_row_directory_entry bs dir idx payload) (\<lambda>(cid, vstart, vend).
     res_bind (decode_whole decode_tuple_value ''trailing bytes in fast row value''
                 (slice bs vstart vend)) (\<lambda>v.
       fast_row_values bs dir payload (Suc idx) n (bt_insert cid v vs)))"

definition decode_fast_row_record_raw :: "bytes \<Rightarrow> row_record res" where
  "decode_fast_row_record_raw bs =
     res_bind (fast_row_header bs) (\<lambda>(h, dir, payload).
     res_bind (fast_row_values bs dir payload 0 (hdr_count h) []) (\<lambda>vs.
       Inr (record_of h vs)))"

fun legacy_row_values ::
    "nat \<Rightarrow> cursor \<Rightarrow> (u32, column_value) btree_map
       \<Rightarrow> ((u32, column_value) btree_map \<times> cursor) res" where
  "legacy_row_values 0 c vs = Inr (vs, c)"
| "legacy_row_values (Suc n) c vs =
     res_bind (cursor_u32 c) (\<lambda>(cid, c1).
     res_bind (decode_tuple_value c1) (\<lambda>(v, c2).
       legacy_row_values n c2 (bt_insert cid v vs)))"

definition decode_row_record_raw :: "bytes \<Rightarrow> row_record res" where
  "decode_row_record_raw bs =
     res_bind (cursor_u8 (cursor_new bs)) (\<lambda>(version, c1).
       if version = FAST_ROW_VERSION then decode_fast_row_record_raw bs
       else if version \<noteq> VERSION
         then Inl (user_error ''XX000'' ''unsupported row record version'')
       else
         res_bind (read_row_header c1) (\<lambda>(h, c2).
         res_bind (legacy_row_values (hdr_count h) c2 []) (\<lambda>(vs, c3).
           if \<not> is_done c3 then Inl (user_error ''XX000'' ''trailing bytes in v2 row record'')
           else Inr (record_of h vs))))"

section \<open>Tombstones\<close>

definition encode_row_tombstone :: "table_schema \<Rightarrow> u64 \<Rightarrow> bytes" where
  "encode_row_tombstone s version =
     [VERSION] @ to_be_bytes (schema_version s) @ to_be_bytes (table_epoch s)
       @ to_be_bytes version @ to_be_bytes version @ to_be_bytes (0 :: u32)"

text \<open>Reading the header back, for any record that starts with these fields.\<close>

lemma read_row_header_rest:
  assumes "rest c = to_be_bytes sv @ to_be_bytes ep @ to_be_bytes mn @ to_be_bytes mx
      @ to_be_bytes (n :: u32) @ xs"
  shows "read_row_header c =
    Inr (\<lparr>hdr_schema_version = sv, hdr_table_epoch = ep, hdr_mvcc = \<lparr>xmin = mn, xmax = mx\<rparr>,
          hdr_count = unat n\<rparr>, advance 32 c)"
proof -
  have r1: "rest (advance 4 c) = to_be_bytes ep @ to_be_bytes mn @ to_be_bytes mx @ to_be_bytes n @ xs"
    using rest_advance [OF assms] by simp
  from rest_advance [OF this]
  have r2: "rest (advance 12 c) = to_be_bytes mn @ to_be_bytes mx @ to_be_bytes n @ xs" by simp
  from rest_advance [OF this]
  have r3: "rest (advance 20 c) = to_be_bytes mx @ to_be_bytes n @ xs" by simp
  from rest_advance [OF this] have r4: "rest (advance 28 c) = to_be_bytes n @ xs" by simp
  show ?thesis using assms r1 r2 r3 r4 by (simp add: read_row_header_def)
qed

text \<open>A tombstone decodes to a record that is a tombstone, visible from its version on.\<close>

lemma decode_row_tombstone:
  "decode_row_record_raw (encode_row_tombstone s ver) =
    Inr \<lparr>rec_schema_version = schema_version s, rec_table_epoch = table_epoch s,
         rec_mvcc = \<lparr>xmin = ver, xmax = ver\<rparr>, rec_values = []\<rparr>"
proof -
  let ?c = "advance 1 (cursor_new (encode_row_tombstone s ver))"
  have "rest ?c = to_be_bytes (schema_version s) @ to_be_bytes (table_epoch s)
      @ to_be_bytes ver @ to_be_bytes ver @ to_be_bytes (0 :: u32) @ []"
    by (simp add: rest_cursor_new_advance encode_row_tombstone_def)
  from read_row_header_rest [OF this] show ?thesis
    by (simp add: decode_row_record_raw_def record_of_def encode_row_tombstone_def
        is_done_advance VERSION_def FAST_ROW_VERSION_def)
qed

section \<open>Invariants of decoding\<close>

lemma legacy_row_values_inv:
  "legacy_row_values n c vs = Inr (vs', c') \<Longrightarrow> bt_inv vs \<Longrightarrow> bt_inv vs'"
proof (induction n arbitrary: c vs)
  case (Suc n)
  then show ?case by (auto simp: res_simps intro: bt_inv_insert)
qed simp

lemma fast_row_values_inv:
  "fast_row_values bs d p i n vs = Inr vs' \<Longrightarrow> bt_inv vs \<Longrightarrow> bt_inv vs'"
proof (induction n arbitrary: i vs)
  case (Suc n)
  then show ?case by (auto simp: res_simps intro: bt_inv_insert)
qed simp

text \<open>Whatever the bytes, a decoded record has its values in column id order.\<close>

lemma decode_row_record_raw_inv:
  "decode_row_record_raw bs = Inr r \<Longrightarrow> bt_inv (rec_values r)"
  by (auto simp: decode_row_record_raw_def decode_fast_row_record_raw_def record_of_def res_simps
      bt.inv_empty intro: legacy_row_values_inv fast_row_values_inv split: if_splits)

end
