(* ===== verification/Row_Codec.thy ===== *)
theory Row_Codec
  imports Row_Records
begin

text \<open>
  The row format in use, version 4 (\<open>storage_layout/row_codec.rs\<close> and the fixed row part of
  \<open>fast_row_decode.rs\<close>): header, null bitmap, slots of the fixed-width columns, a directory
  of offset and length for each other column, and the payload the directory points into.
  The encoder fills one buffer in place while it walks the columns; it is shown equal to a
  description section by section, from which the decoder is shown to read every column back,
  also with a schema that has gained columns since.
\<close>

section \<open>Encoding\<close>

text \<open>\<open>buf[start..start + len].copy_from_slice(bytes)\<close>.\<close>

definition write_at :: "nat \<Rightarrow> bytes \<Rightarrow> bytes \<Rightarrow> bytes" where
  "write_at start bs buf = take start buf @ bs @ drop (start + length bs) buf"

definition div_ceil :: "nat \<Rightarrow> nat \<Rightarrow> nat" where
  "div_ceil a b = (a + b - 1) div b"

definition row_value :: "row_map \<Rightarrow> column_schema \<Rightarrow> column_value" where
  "row_value row column = (case row (col_name column) of Some v \<Rightarrow> v | None \<Rightarrow> VNull)"

text \<open>The variables of the encoder's loop.\<close>

record row_enc =
  re_buf :: bytes
  re_fixed_offset :: nat
  re_payload :: bytes
  re_variable_idx :: nat

definition saturating_sub_u32 :: "u32 \<Rightarrow> u32 \<Rightarrow> u32" where
  "saturating_sub_u32 a b = (if a < b then 0 else a - b)"

definition encode_row_column ::
    "nat \<Rightarrow> nat \<Rightarrow> nat \<Rightarrow> row_map \<Rightarrow> nat \<Rightarrow> column_schema \<Rightarrow> row_enc \<Rightarrow> row_enc" where
  "encode_row_column null_start fixed_start dir_start row idx column st =
     (let v = row_value row column;
          at = null_start + idx div 8;
          buf1 = (if is_null v
                  then (re_buf st)[at := re_buf st ! at OR push_bit (idx mod 8) 1]
                  else re_buf st)
      in case fixed_width (col_type column) of
           Some width \<Rightarrow>
             (let start = fixed_start + re_fixed_offset st;
                  buf2 = (if is_null v then buf1
                          else write_at start
                                 (encode_fixed_value (slice buf1 start (start + width)) v) buf1)
              in st\<lparr>re_buf := buf2, re_fixed_offset := re_fixed_offset st + width\<rparr>)
         | None \<Rightarrow>
             (let offset = word_of_nat (length (re_payload st)) :: u32;
                  payload = (if is_null v then re_payload st
                             else re_payload st @ encode_tuple_value v);
                  len = saturating_sub_u32 (word_of_nat (length payload)) offset;
                  entry = dir_start + re_variable_idx st * 8
              in st\<lparr>re_buf := write_at (entry + 4) (to_be_bytes len)
                               (write_at entry (to_be_bytes offset) buf1),
                    re_payload := payload, re_variable_idx := re_variable_idx st + 1\<rparr>))"

fun encode_row_columns ::
    "nat \<Rightarrow> nat \<Rightarrow> nat \<Rightarrow> row_map \<Rightarrow> nat \<Rightarrow> column_schema list \<Rightarrow> row_enc \<Rightarrow> row_enc" where
  "encode_row_columns ns fs ds row idx [] st = st"
| "encode_row_columns ns fs ds row idx (column # cols) st =
     encode_row_columns ns fs ds row (idx + 1) cols (encode_row_column ns fs ds row idx column st)"

text \<open>The first six fields.\<close>

definition row_header_bytes :: "table_schema \<Rightarrow> mvcc_meta \<Rightarrow> bytes" where
  "row_header_bytes s mvcc =
     [FIXED_ROW_VERSION] @ to_be_bytes (schema_version s) @ to_be_bytes (table_epoch s)
       @ to_be_bytes (xmin mvcc) @ to_be_bytes (xmax mvcc)
       @ to_be_bytes (word_of_nat (length (columns s)) :: u32)"

definition encode_row_record_with_mvcc :: "table_schema \<Rightarrow> row_map \<Rightarrow> mvcc_meta \<Rightarrow> bytes" where
  "encode_row_record_with_mvcc s row mvcc =
     (let header = row_header_bytes s mvcc;
          null_bitmap_len = div_ceil (length (columns s)) 8;
          null_bitmap_start = length header;
          fixed_len = fixed_region_len (columns s);
          fixed_region_start = null_bitmap_start + null_bitmap_len;
          variable_columns = filter (\<lambda>c. fixed_width (col_type c) = None) (columns s);
          variable_directory_start = fixed_region_start + fixed_len;
          buf = header @ replicate null_bitmap_len 0 @ replicate fixed_len 0
                  @ replicate (length variable_columns * 8) 0;
          st = encode_row_columns null_bitmap_start fixed_region_start variable_directory_start row 0
                 (columns s)
                 \<lparr>re_buf = buf, re_fixed_offset = 0, re_payload = [], re_variable_idx = 0\<rparr>
      in re_buf st @ re_payload st)"

definition encode_row_record :: "table_schema \<Rightarrow> row_map \<Rightarrow> bytes" where
  "encode_row_record s row = encode_row_record_with_mvcc s row mvcc_default"

section \<open>Decoding\<close>

record fixed_row_layout =
  stored_column_count :: nat
  null_bitmap_start :: nat
  fixed_region_start :: nat
  variable_directory_start :: nat
  variable_payload_start :: nat
  layout_fixed_offsets :: "nat option list"
  layout_variable_positions :: "nat option list"

definition fixed_row_layout :: "table_schema \<Rightarrow> bytes \<Rightarrow> fixed_row_layout res" where
  "fixed_row_layout s bs =
     res_bind (cursor_u8 (cursor_new bs)) (\<lambda>(version, c1).
       if version \<noteq> FIXED_ROW_VERSION
       then Inl (user_error ''XX000'' ''unsupported fixed row record version'')
       else
         res_bind (read_row_header c1) (\<lambda>(h, c2).
           let count = hdr_count h in
           if length (columns s) < count
           then Inl (user_error ''XX000'' ''fixed row schema column count mismatch'')
           else
             (let stored = take count (columns s);
                  fixed_start = pos c2 + div_ceil count 8;
                  dir_start = fixed_start + fixed_region_len stored;
                  positions = variable_positions_for_columns stored;
                  variable_count = length (filter (\<lambda>p. p \<noteq> None) positions);
                  payload_start = dir_start + variable_count * 8
              in if length bs < payload_start
                 then Inl (user_error ''XX000'' ''truncated fixed row header'')
                 else Inr \<lparr>stored_column_count = count, null_bitmap_start = pos c2,
                           fixed_region_start = fixed_start,
                           variable_directory_start = dir_start,
                           variable_payload_start = payload_start,
                           layout_fixed_offsets = fixed_offsets_for_columns stored,
                           layout_variable_positions = positions\<rparr>)))"

definition fixed_row_is_null :: "bytes \<Rightarrow> fixed_row_layout \<Rightarrow> nat \<Rightarrow> bool res" where
  "fixed_row_is_null bs layout idx =
     (if stored_column_count layout \<le> idx then Inr True
      else
        res_bind (ok_or (slice_get bs (null_bitmap_start layout + idx div 8))
                    (user_error ''XX000'' ''truncated fixed row null bitmap'')) (\<lambda>b.
          Inr (b AND push_bit (idx mod 8) 1 \<noteq> 0)))"

definition decode_fixed_row_column ::
    "table_schema \<Rightarrow> bytes \<Rightarrow> fixed_row_layout \<Rightarrow> nat \<Rightarrow> column_value res" where
  "decode_fixed_row_column s bs layout idx =
     res_bind (ok_or (slice_get (columns s) idx)
                 (user_error ''XX000'' ''fixed row column index out of bounds'')) (\<lambda>column.
       if stored_column_count layout \<le> idx then Inr VNull
       else
         res_bind (fixed_row_is_null bs layout idx) (\<lambda>null.
           if null then Inr VNull
           else
             case Option.bind (slice_get (layout_fixed_offsets layout) idx) (\<lambda>o'. o') of
               Some offset \<Rightarrow>
                 (let width = (case fixed_width (col_type column) of Some w \<Rightarrow> w | None \<Rightarrow> 0);
                      start = fixed_region_start layout + offset;
                      end' = start + width
                  in if length bs < end'
                     then Inl (user_error ''XX000'' ''truncated fixed row fixed value'')
                     else decode_fixed_value (col_type column) (slice bs start end'))
             | None \<Rightarrow>
                 res_bind (ok_or (Option.bind (slice_get (layout_variable_positions layout) idx)
                                    (\<lambda>p. p))
                             (user_error ''XX000'' ''fixed row missing variable column position''))
                   (\<lambda>position.
                   let entry = variable_directory_start layout + position * 8 in
                   if length bs < entry + 8
                   then Inl (user_error ''XX000'' ''truncated fixed row variable directory'')
                   else
                     (let offset = unat (from_be_bytes (slice bs entry (entry + 4)) :: u32);
                          len = unat (from_be_bytes (slice bs (entry + 4) (entry + 8)) :: u32)
                      in res_bind (ok_or (checked_add_usize (variable_payload_start layout) offset)
                                     (user_error ''XX000'' ''fixed row variable offset overflow''))
                           (\<lambda>value_start.
                         res_bind (ok_or (checked_add_usize value_start len)
                                     (user_error ''XX000'' ''fixed row variable length overflow''))
                           (\<lambda>value_end.
                           if length bs < value_end
                           then Inl (user_error ''XX000'' ''truncated fixed row variable value'')
                           else decode_whole decode_tuple_value
                                  ''trailing bytes in fixed row variable value''
                                  (slice bs value_start value_end)))))))"

text \<open>The loop over the schema's columns.\<close>

fun fixed_row_insert ::
    "table_schema \<Rightarrow> bytes \<Rightarrow> fixed_row_layout \<Rightarrow> nat \<Rightarrow> column_schema list \<Rightarrow> row_map \<Rightarrow> row_map res"
where
  "fixed_row_insert s bs layout idx [] row = Inr row"
| "fixed_row_insert s bs layout idx (column # cols) row =
     res_bind (decode_fixed_row_column s bs layout idx) (\<lambda>v.
       fixed_row_insert s bs layout (idx + 1) cols (row(col_name column \<mapsto> v)))"

definition decode_fixed_row_record :: "table_schema \<Rightarrow> bytes \<Rightarrow> row_map res" where
  "decode_fixed_row_record s bs =
     res_bind (fixed_row_layout s bs) (\<lambda>layout.
       fixed_row_insert s bs layout 0 (columns s) Map.empty)"

text \<open>The row of a raw record: every column of the schema, absent ids as NULL.\<close>

fun insert_record_columns ::
    "(u32, column_value) btree_map \<Rightarrow> column_schema list \<Rightarrow> row_map \<Rightarrow> row_map" where
  "insert_record_columns vs [] row = row"
| "insert_record_columns vs (c # cols) row =
     insert_record_columns vs cols
       (row(col_name c \<mapsto> (case bt_get vs (column_id c) of Some v \<Rightarrow> v | None \<Rightarrow> VNull)))"

definition decode_row_record :: "table_schema \<Rightarrow> bytes \<Rightarrow> row_map res" where
  "decode_row_record s bs =
     (if slice_get bs 0 = Some FIXED_ROW_VERSION then decode_fixed_row_record s bs
      else res_bind (decode_row_record_raw bs) (\<lambda>record.
             Inr (insert_record_columns (rec_values record) (columns s) Map.empty)))"

definition is_fast_row_record :: "bytes \<Rightarrow> bool" where
  "is_fast_row_record bs =
     (slice_get bs 0 = Some FAST_ROW_VERSION \<or> slice_get bs 0 = Some FIXED_ROW_VERSION)"

definition reencode_row_record_fast :: "table_schema \<Rightarrow> bytes \<Rightarrow> bytes option res" where
  "reencode_row_record_fast s bs =
     (if slice_get bs 0 = Some FIXED_ROW_VERSION then Inr None
      else
        res_bind (decode_row_record_raw bs) (\<lambda>record.
          if is_row_tombstone record then Inr None
          else Inr (Some (encode_row_record_with_mvcc s
                            (insert_record_columns (rec_values record) (columns s) Map.empty)
                            (rec_mvcc record)))))"

section \<open>The encoding section by section\<close>

definition slot_bytes :: "row_map \<Rightarrow> column_schema \<Rightarrow> bytes" where
  "slot_bytes row c =
     (case fixed_width (col_type c) of
        None \<Rightarrow> []
      | Some w \<Rightarrow> if is_null (row_value row c) then replicate w 0
                  else encode_fixed_value (replicate w 0) (row_value row c))"

definition var_bytes :: "row_map \<Rightarrow> column_schema \<Rightarrow> bytes" where
  "var_bytes row c =
     (if is_variable c \<and> \<not> is_null (row_value row c) then encode_tuple_value (row_value row c)
      else [])"

definition fixed_sec :: "row_map \<Rightarrow> column_schema list \<Rightarrow> bytes" where
  "fixed_sec row cols = concat (map (slot_bytes row) cols)"

definition payload_sec :: "row_map \<Rightarrow> column_schema list \<Rightarrow> bytes" where
  "payload_sec row cols = concat (map (var_bytes row) cols)"

fun dir_sec :: "row_map \<Rightarrow> nat \<Rightarrow> column_schema list \<Rightarrow> bytes" where
  "dir_sec row off [] = []"
| "dir_sec row off (c # cols) =
     (if is_variable c
      then to_be_bytes (word_of_nat off :: u32) @ to_be_bytes (word_of_nat (length (var_bytes row c)) :: u32)
             @ dir_sec row (off + length (var_bytes row c)) cols
      else dir_sec row off cols)"

definition set_null_bit :: "nat \<Rightarrow> bytes \<Rightarrow> bytes" where
  "set_null_bit idx bm = bm[idx div 8 := bm ! (idx div 8) OR push_bit (idx mod 8) 1]"

fun bitmap_sec :: "row_map \<Rightarrow> nat \<Rightarrow> column_schema list \<Rightarrow> bytes \<Rightarrow> bytes" where
  "bitmap_sec row idx [] bm = bm"
| "bitmap_sec row idx (c # cols) bm =
     bitmap_sec row (idx + 1) cols (if is_null (row_value row c) then set_null_bit idx bm else bm)"

lemma length_set_null_bit [simp]: "length (set_null_bit idx bm) = length bm"
  by (simp add: set_null_bit_def)

lemma length_bitmap_sec [simp]: "length (bitmap_sec row idx cols bm) = length bm"
  by (induction cols arbitrary: idx bm) auto

lemma length_slot_bytes [simp]: "length (slot_bytes row c) = width_of c"
  by (simp add: slot_bytes_def width_of_def split: option.splits)

lemma fixed_region_len_Cons [simp]:
  "fixed_region_len (c # cols) = width_of c + fixed_region_len cols" "fixed_region_len [] = 0"
  by (simp_all add: fixed_region_len_sum)

lemma length_fixed_sec [simp]: "length (fixed_sec row cols) = fixed_region_len cols"
  by (induction cols) (simp_all add: fixed_sec_def)

lemma length_dir_sec [simp]: "length (dir_sec row off cols) = 8 * length (filter is_variable cols)"
  by (induction cols arbitrary: off) auto

lemma write_at_mid:
  "start = length us \<Longrightarrow> length vs = length bs \<Longrightarrow> write_at start bs (us @ vs @ ws) = us @ bs @ ws"
  by (simp add: write_at_def)

text \<open>The bitmap update inside the whole buffer.\<close>

lemma update_in_bitmap:
  assumes "idx div 8 < length bm" "buf = hd' @ bm @ tl'" "ns = length hd'"
  shows "buf[ns + idx div 8 := buf ! (ns + idx div 8) OR push_bit (idx mod 8) 1]
    = hd' @ set_null_bit idx bm @ tl'"
  using assms by (simp add: set_null_bit_def list_update_append nth_append)

text \<open>What the buffer looks like between two columns: sections filled so far, then zeros.\<close>

definition enc_shape ::
    "bytes \<Rightarrow> bytes \<Rightarrow> bytes \<Rightarrow> bytes \<Rightarrow> column_schema list \<Rightarrow> row_enc \<Rightarrow> bool" where
  "enc_shape hdr bm fx dir cols st =
     (re_buf st = hdr @ bm @ fx @ replicate (fixed_region_len cols) 0 @ dir
        @ replicate (8 * length (filter is_variable cols)) 0
      \<and> re_fixed_offset st = length fx \<and> length dir = 8 * re_variable_idx st)"

lemma encode_row_column_fixed:
  assumes "enc_shape hdr bm fx dir (c # cols) st" "idx div 8 < length bm" "\<not> is_variable c"
    and "ns = length hdr" "fs = ns + length bm" "bm' = (if is_null (row_value row c) then set_null_bit idx bm else bm)"
  shows "enc_shape hdr bm' (fx @ slot_bytes row c) dir cols (encode_row_column ns fs ds row idx c st)"
    and "re_payload (encode_row_column ns fs ds row idx c st) = re_payload st @ var_bytes row c"
proof -
  from assms(3) obtain w where w: "fixed_width (col_type c) = Some w" by (auto simp: is_variable_def)
  let ?tail = "replicate (fixed_region_len cols) 0 @ dir
      @ replicate (8 * length (filter is_variable cols)) 0 :: bytes"
  have buf: "re_buf st = hdr @ bm @ (fx @ replicate w 0 @ ?tail)"
    and off: "re_fixed_offset st = length fx" "length dir = 8 * re_variable_idx st"
    using assms(1,3) w by (simp_all add: enc_shape_def width_of_def replicate_add)
  have slot: "slice ((hdr @ bm @ fx) @ replicate w 0 @ ?tail) (fs + length fx) (fs + length fx + w)
      = replicate w 0"
    by (rule slice_append_mid) (simp_all add: assms(4,5))
  have wr: "write_at (fs + length fx) x ((hdr @ bm @ fx) @ replicate w 0 @ ?tail)
      = (hdr @ bm @ fx) @ x @ ?tail" if "length x = w" for x
    by (rule write_at_mid) (simp_all add: assms(4,5) that)
  show "enc_shape hdr bm' (fx @ slot_bytes row c) dir cols (encode_row_column ns fs ds row idx c st)"
  proof (cases "is_null (row_value row c)")
    case True
    then show ?thesis
      using update_in_bitmap [OF assms(2) buf assms(4)] assms(6) w off
      by (simp add: encode_row_column_def enc_shape_def slot_bytes_def Let_def)
  next
    case False
    then show ?thesis
      using slot wr [of "encode_fixed_value (replicate w 0) (row_value row c)"] assms(6) w off buf
      by (simp add: encode_row_column_def enc_shape_def slot_bytes_def Let_def)
  qed
  show "re_payload (encode_row_column ns fs ds row idx c st) = re_payload st @ var_bytes row c"
    using assms(3) w by (simp add: encode_row_column_def var_bytes_def Let_def)
qed

lemma saturating_sub_word_of_nat:
  assumes "a + b < 2 ^ 32"
  shows "saturating_sub_u32 (word_of_nat (a + b)) (word_of_nat a) = word_of_nat b"
proof -
  have "unat (word_of_nat (a + b) :: u32) = a + b" "unat (word_of_nat a :: u32) = a"
    using assms by (simp_all only: unat_of_nat) simp_all
  then have "\<not> (word_of_nat (a + b) :: u32) < word_of_nat a" by (simp only: word_less_nat_alt)
  then show ?thesis by (simp add: saturating_sub_u32_def)
qed

lemma encode_row_column_variable:
  assumes "enc_shape hdr bm fx dir (c # cols) st" "idx div 8 < length bm" "is_variable c"
    and "ns = length hdr" "ds = ns + length bm + length fx + fixed_region_len cols"
    and "bm' = (if is_null (row_value row c) then set_null_bit idx bm else bm)"
    and "length (re_payload st @ var_bytes row c) < 2 ^ 32"
  shows "enc_shape hdr bm' fx
      (dir @ to_be_bytes (word_of_nat (length (re_payload st)) :: u32)
           @ to_be_bytes (word_of_nat (length (var_bytes row c)) :: u32))
      cols (encode_row_column ns fs ds row idx c st)"
    and "re_payload (encode_row_column ns fs ds row idx c st) = re_payload st @ var_bytes row c"
proof -
  from assms(3) have w: "fixed_width (col_type c) = None" by (simp add: is_variable_def)
  define front where "front b = hdr @ b @ fx @ replicate (fixed_region_len cols) 0 @ dir" for b
  define tl' where "tl' = replicate (8 * length (filter is_variable cols)) (0 :: byte)"
  have zeros: "replicate (8 + n) (0::byte) = replicate 4 0 @ replicate 4 0 @ replicate n 0" for n
    by (simp flip: replicate_add)
  have buf: "re_buf st = hdr @ bm @ (fx @ replicate (fixed_region_len cols) 0 @ dir
        @ replicate 4 0 @ replicate 4 0 @ tl')"
    and off: "re_fixed_offset st = length fx" "length dir = 8 * re_variable_idx st"
    using assms(1,3) w by (simp_all add: enc_shape_def width_of_def zeros tl'_def)
  let ?entry = "ds + re_variable_idx st * 8"
  have wr: "write_at (?entry + 4) y (write_at ?entry x (front b @ replicate 4 0 @ replicate 4 0 @ tl'))
      = front b @ x @ y @ tl'" if "length x = 4" "length y = 4" "length b = length bm" for x y b
  proof -
    have "length (front b) = ?entry" using that off assms(4,5) by (simp add: front_def)
    then have "write_at ?entry x (front b @ replicate 4 0 @ (replicate 4 0 @ tl'))
        = front b @ x @ (replicate 4 0 @ tl')"
      using that by (intro write_at_mid) simp_all
    moreover have "write_at (?entry + 4) y ((front b @ x) @ replicate 4 0 @ tl')
        = (front b @ x) @ y @ tl'"
      using that \<open>length (front b) = ?entry\<close> by (intro write_at_mid) simp_all
    ultimately show ?thesis by simp
  qed
  have payload: "(if is_null (row_value row c) then re_payload st
      else re_payload st @ encode_tuple_value (row_value row c)) = re_payload st @ var_bytes row c"
    using assms(3) by (simp add: var_bytes_def)
  have buf1: "(if is_null (row_value row c)
      then (re_buf st)[ns + idx div 8 := re_buf st ! (ns + idx div 8) OR push_bit (idx mod 8) 1]
      else re_buf st) = front bm' @ replicate 4 0 @ replicate 4 0 @ tl'"
    using update_in_bitmap [OF assms(2) buf assms(4)] assms(6) buf by (simp add: front_def)
  have len: "saturating_sub_u32 (word_of_nat (length (re_payload st @ var_bytes row c)))
      (word_of_nat (length (re_payload st))) = word_of_nat (length (var_bytes row c))"
    using saturating_sub_word_of_nat [of "length (re_payload st)" "length (var_bytes row c)"]
      assms(7) by simp
  have bml: "length bm' = length bm" using assms(6) by simp
  have st': "encode_row_column ns fs ds row idx c st =
      st\<lparr>re_buf := front bm' @ to_be_bytes (word_of_nat (length (re_payload st)) :: u32)
             @ to_be_bytes (word_of_nat (length (var_bytes row c)) :: u32) @ tl',
         re_payload := re_payload st @ var_bytes row c,
         re_variable_idx := re_variable_idx st + 1\<rparr>"
    unfolding encode_row_column_def Let_def w option.case payload buf1 len
    using wr [OF _ _ bml] by simp
  show "enc_shape hdr bm' fx
      (dir @ to_be_bytes (word_of_nat (length (re_payload st)) :: u32)
           @ to_be_bytes (word_of_nat (length (var_bytes row c)) :: u32))
      cols (encode_row_column ns fs ds row idx c st)"
    and "re_payload (encode_row_column ns fs ds row idx c st) = re_payload st @ var_bytes row c"
    unfolding st' by (simp_all add: enc_shape_def front_def tl'_def off)
qed

lemma bitmap_index_step:
  assumes "\<forall>i < Suc n. (idx + i) div 8 < m"
  shows "idx div 8 < m" "\<forall>i < n. (idx + 1 + i) div 8 < m"
proof -
  from assms have "(idx + 0) div 8 < m" by blast
  then show "idx div 8 < m" by simp
  have "(idx + Suc i) div 8 < m" if "i < n" for i using assms that by blast
  then show "\<forall>i < n. (idx + 1 + i) div 8 < m" by simp
qed

lemma encode_row_columns_sections:
  assumes "enc_shape hdr bm fx dir cols st"
    and "\<forall>i < length cols. (idx + i) div 8 < length bm"
    and "ns = length hdr" "fs = ns + length bm"
    and "ds = ns + length bm + length fx + fixed_region_len cols"
    and "length (re_payload st @ payload_sec row cols) < 2 ^ 32"
  shows "re_buf (encode_row_columns ns fs ds row idx cols st) =
      hdr @ bitmap_sec row idx cols bm @ fx @ fixed_sec row cols @ dir
        @ dir_sec row (length (re_payload st)) cols \<and>
    re_payload (encode_row_columns ns fs ds row idx cols st) = re_payload st @ payload_sec row cols"
  using assms
proof (induction cols arbitrary: bm fx dir st idx)
  case Nil
  then show ?case by (simp add: enc_shape_def fixed_sec_def payload_sec_def)
next
  case (Cons c cols)
  let ?st = "encode_row_column ns fs ds row idx c st"
  define bm' where "bm' = (if is_null (row_value row c) then set_null_bit idx bm else bm)"
  have bml: "length bm' = length bm" by (simp add: bm'_def)
  note step = bitmap_index_step [OF Cons.prems(2) [unfolded list.size(4) add_0_right add_Suc_right]]
  have idx: "idx div 8 < length bm" by (rule step(1))
  have idx': "\<forall>i < length cols. (idx + 1 + i) div 8 < length bm'"
    using step(2) bml by simp
  have pl: "length (re_payload st @ var_bytes row c) < 2 ^ 32"
    using Cons.prems(6) by (simp add: payload_sec_def)
  show ?case
  proof (cases "is_variable c")
    case True
    have ds: "ds = ns + length bm + length fx + fixed_region_len cols"
      using Cons.prems(5) True by (simp add: width_of_def is_variable_def)
    note st = encode_row_column_variable [OF Cons.prems(1) idx True Cons.prems(3) ds bm'_def pl, of fs]
    from Cons.IH [OF st(1) idx' Cons.prems(3)] show ?thesis
      using Cons.prems ds bml True st(2)
      by (simp add: fixed_sec_def payload_sec_def slot_bytes_def is_variable_def bm'_def [symmetric])
  next
    case False
    note st = encode_row_column_fixed [OF Cons.prems(1) idx False Cons.prems(3,4) bm'_def, of ds]
    from Cons.IH [OF st(1) idx' Cons.prems(3)] show ?thesis
      using Cons.prems bml False st(2)
      by (simp add: fixed_sec_def payload_sec_def var_bytes_def bm'_def [symmetric])
  qed
qed

lemma filter_is_variable: "filter (\<lambda>c. fixed_width (col_type c) = None) cols = filter is_variable cols"
  by (simp add: is_variable_def [abs_def])

abbreviation null_bitmap :: "row_map \<Rightarrow> column_schema list \<Rightarrow> bytes" where
  "null_bitmap row cols \<equiv> bitmap_sec row 0 cols (replicate (div_ceil (length cols) 8) 0)"

lemma bitmap_index: "i < n \<Longrightarrow> i div 8 < div_ceil n 8"
  unfolding div_ceil_def by linarith

text \<open>The in-place encoder writes the four sections and the payload.\<close>

lemma encode_row_record_sections:
  assumes "length (payload_sec row (columns s)) < 2 ^ 32"
  shows "encode_row_record_with_mvcc s row mvcc =
    row_header_bytes s mvcc @ null_bitmap row (columns s) @ fixed_sec row (columns s)
      @ dir_sec row 0 (columns s) @ payload_sec row (columns s)"
proof -
  let ?st = "\<lparr>re_buf = row_header_bytes s mvcc @ replicate (div_ceil (length (columns s)) 8) 0
      @ replicate (fixed_region_len (columns s)) 0
      @ replicate (length (filter (\<lambda>c. fixed_width (col_type c) = None) (columns s)) * 8) 0,
      re_fixed_offset = 0, re_payload = [], re_variable_idx = 0\<rparr>"
  have "enc_shape (row_header_bytes s mvcc) (replicate (div_ceil (length (columns s)) 8) 0) [] []
      (columns s) ?st"
    by (simp add: enc_shape_def filter_is_variable mult.commute)
  from encode_row_columns_sections [OF this _ refl refl, of 0 _ row] show ?thesis
    using assms by (simp add: encode_row_record_with_mvcc_def Let_def bitmap_index)
qed

section \<open>Columns read back\<close>

subsection \<open>The null bitmap\<close>

lemma bit_set_null_bit:
  assumes "j div 8 < length bm" "idx div 8 < length bm"
  shows "bit (set_null_bit idx bm ! (j div 8)) (j mod 8) = (bit (bm ! (j div 8)) (j mod 8) \<or> j = idx)"
proof (cases "j div 8 = idx div 8")
  case True
  then have "(j mod 8 = idx mod 8) = (j = idx)" by (metis mod_div_mult_eq)
  moreover have "j mod 8 < LENGTH(8)" by simp
  ultimately show ?thesis
    using assms True by (auto simp: set_null_bit_def bit_or_iff bit_exp_iff)
next
  case False
  then show ?thesis using assms by (auto simp: set_null_bit_def)
qed

lemma bit_bitmap_sec:
  assumes "j div 8 < length bm" "\<forall>i < length cols. (idx + i) div 8 < length bm"
  shows "bit (bitmap_sec row idx cols bm ! (j div 8)) (j mod 8) =
    (bit (bm ! (j div 8)) (j mod 8) \<or>
     (idx \<le> j \<and> j < idx + length cols \<and> is_null (row_value row (cols ! (j - idx)))))"
  using assms
proof (induction cols arbitrary: idx bm)
  case (Cons c cols)
  note step = bitmap_index_step [OF Cons.prems(2) [unfolded list.size(4) add_0_right add_Suc_right]]
  have idx: "idx div 8 < length bm" by (rule step(1))
  have idx': "\<forall>i < length cols. (idx + 1 + i) div 8 < length bm" by (rule step(2))
  show ?case
  proof (cases "j = idx")
    case True
    then show ?thesis
      using Cons.IH [of "if is_null (row_value row c) then set_null_bit idx bm else bm" "idx + 1"]
        Cons.prems idx' bit_set_null_bit [OF Cons.prems(1) idx] by auto
  next
    case False
    then have "(idx + 1 \<le> j) = (idx \<le> j)" "idx \<le> j \<Longrightarrow> (c # cols) ! (j - idx) = cols ! (j - (idx + 1))"
      by auto
    then show ?thesis
      using Cons.IH [of "if is_null (row_value row c) then set_null_bit idx bm else bm" "idx + 1"]
        Cons.prems idx' bit_set_null_bit [OF Cons.prems(1) idx] False by auto
  qed
qed auto

lemma null_bitmap_test:
  assumes "i < length cols"
  shows "(null_bitmap row cols ! (i div 8) AND push_bit (i mod 8) 1 \<noteq> 0) =
    is_null (row_value row (cols ! i))"
proof -
  have "bit (null_bitmap row cols ! (i div 8)) (i mod 8) = is_null (row_value row (cols ! i))"
    using assms bitmap_index [OF assms]
    by (subst bit_bitmap_sec) (auto intro: bitmap_index)
  moreover have "(b AND push_bit k 1 \<noteq> 0) = bit b k" for b :: byte and k
    by (simp add: and_exp_eq_0_iff_not_bit push_bit_of_1)
  ultimately show ?thesis by simp
qed

subsection \<open>Slots, directory and payload\<close>

lemma fixed_sec_append: "fixed_sec row (xs @ ys) = fixed_sec row xs @ fixed_sec row ys"
  by (simp add: fixed_sec_def)

lemma payload_sec_append: "payload_sec row (xs @ ys) = payload_sec row xs @ payload_sec row ys"
  by (simp add: payload_sec_def)

lemma dir_sec_append:
  "dir_sec row off (xs @ ys) = dir_sec row off xs @ dir_sec row (off + length (payload_sec row xs)) ys"
  by (induction xs arbitrary: off) (auto simp: payload_sec_def var_bytes_def add.assoc)

lemma columns_split: "i < length cols \<Longrightarrow> cols = take i cols @ cols ! i # drop (Suc i) cols"
  by (rule id_take_nth_drop)

lemma slice_shift: "slice (us @ xs) (length us + a) (length us + b) = slice xs a b"
  by (simp add: slice_def)

lemma slice_fixed_sec:
  assumes "i < length cols" "off = sum_list (map width_of (take i cols))"
  shows "slice (fixed_sec row cols @ ys) off (off + width_of (cols ! i)) = slot_bytes row (cols ! i)"
proof -
  have "fixed_sec row cols @ ys = fixed_sec row (take i cols) @ slot_bytes row (cols ! i)
      @ (fixed_sec row (drop (Suc i) cols) @ ys)"
    using columns_split [OF assms(1)] fixed_sec_append [of row "take i cols" "cols ! i # drop (Suc i) cols"]
    by (simp add: fixed_sec_def)
  then show ?thesis
    using slice_append_mid [of off "fixed_sec row (take i cols)" _ "slot_bytes row (cols ! i)"] assms(2)
    by (simp add: fixed_region_len_sum)
qed

lemma slice_dir_sec:
  assumes "i < length cols" "is_variable (cols ! i)"
    and "entry = length (filter is_variable (take i cols)) * 8"
  shows "slice (dir_sec row 0 cols @ ys) entry (entry + 4) =
      to_be_bytes (word_of_nat (length (payload_sec row (take i cols))) :: u32)"
    and "slice (dir_sec row 0 cols @ ys) (entry + 4) (entry + 8) =
      to_be_bytes (word_of_nat (length (var_bytes row (cols ! i))) :: u32)"
proof -
  let ?p = "length (payload_sec row (take i cols))"
  obtain zs where d: "dir_sec row 0 cols @ ys = dir_sec row 0 (take i cols)
      @ to_be_bytes (word_of_nat ?p :: u32)
      @ to_be_bytes (word_of_nat (length (var_bytes row (cols ! i))) :: u32) @ zs"
    using dir_sec_append [of row 0 "take i cols" "cols ! i # drop (Suc i) cols"]
      columns_split [OF assms(1)] assms(2) by simp
  have len: "length (dir_sec row 0 (take i cols)) = entry"
    using assms(3) by simp
  show "slice (dir_sec row 0 cols @ ys) entry (entry + 4) = to_be_bytes (word_of_nat ?p :: u32)"
    unfolding d by (rule slice_append_mid) (simp_all add: len [simplified])
  show "slice (dir_sec row 0 cols @ ys) (entry + 4) (entry + 8) =
      to_be_bytes (word_of_nat (length (var_bytes row (cols ! i))) :: u32)"
    unfolding d append_assoc [symmetric, of "dir_sec row 0 (take i cols)"]
    by (rule slice_append_mid) (simp_all add: len [simplified])
qed

lemma slice_payload_sec:
  assumes "i < length cols" "off = length (payload_sec row (take i cols))"
  shows "slice (payload_sec row cols) off (off + length (var_bytes row (cols ! i))) =
      var_bytes row (cols ! i)"
    and "off + length (var_bytes row (cols ! i)) \<le> length (payload_sec row cols)"
proof -
  have p: "payload_sec row cols = payload_sec row (take i cols) @ var_bytes row (cols ! i)
      @ payload_sec row (drop (Suc i) cols)"
    using columns_split [OF assms(1)] payload_sec_append [of row "take i cols" "cols ! i # drop (Suc i) cols"]
    by (simp add: payload_sec_def)
  show "slice (payload_sec row cols) off (off + length (var_bytes row (cols ! i))) =
      var_bytes row (cols ! i)"
    unfolding p by (rule slice_append_mid) (simp_all add: assms(2))
  show "off + length (var_bytes row (cols ! i)) \<le> length (payload_sec row cols)"
    unfolding p assms(2) by simp
qed

lemma decode_whole_encode:
  "value_ok v \<Longrightarrow> decode_whole decode_tuple_value what (encode_tuple_value v) = Inr v"
  using tuple.dec_enc [of v "cursor_new (encode_tuple_value v)" "[]"]
  by (simp add: decode_whole_def is_done_advance)

subsection \<open>The layout\<close>

lemma length_row_header_bytes [simp]: "length (row_header_bytes s mvcc) = 33"
  by (simp add: row_header_bytes_def)

definition layout_of :: "column_schema list \<Rightarrow> fixed_row_layout" where
  "layout_of cols =
     (let fixed_start = 33 + div_ceil (length cols) 8;
          dir_start = fixed_start + fixed_region_len cols
      in \<lparr>stored_column_count = length cols, null_bitmap_start = 33,
          fixed_region_start = fixed_start, variable_directory_start = dir_start,
          variable_payload_start = dir_start + length (filter is_variable cols) * 8,
          layout_fixed_offsets = fixed_offsets_for_columns cols,
          layout_variable_positions = variable_positions_for_columns cols\<rparr>)"

text \<open>A reader may know more columns than the writer did.\<close>

lemma fixed_row_layout_encode:
  assumes "length (columns s) < 2 ^ 32" "columns s' = columns s @ extra"
    and "length (payload_sec row (columns s)) < 2 ^ 32"
  shows "fixed_row_layout s' (encode_row_record_with_mvcc s row mvcc) = Inr (layout_of (columns s))"
proof -
  let ?bs = "encode_row_record_with_mvcc s row mvcc"
  let ?n = "word_of_nat (length (columns s)) :: u32"
  note bs = encode_row_record_sections [OF assms(3), of mvcc]
  have n: "unat ?n = length (columns s)" using assms(1) by (simp add: unat_of_nat)
  have u8: "cursor_u8 (cursor_new ?bs) = Inr (FIXED_ROW_VERSION, advance 1 (cursor_new ?bs))"
    by (rule cursor_u8_rest) (simp add: bs row_header_bytes_def)
  have hdr: "read_row_header (advance 1 (cursor_new ?bs)) =
      Inr (\<lparr>hdr_schema_version = schema_version s, hdr_table_epoch = table_epoch s,
            hdr_mvcc = \<lparr>xmin = xmin mvcc, xmax = xmax mvcc\<rparr>, hdr_count = length (columns s)\<rparr>,
           advance 33 (cursor_new ?bs))"
    using read_row_header_rest [of "advance 1 (cursor_new ?bs)" "schema_version s" "table_epoch s"
        "xmin mvcc" "xmax mvcc" ?n] n
    by (simp add: rest_cursor_new_advance bs row_header_bytes_def)
  have vc: "length (filter (\<lambda>p. p \<noteq> None) (variable_positions_for_columns (columns s)))
      = length (filter is_variable (columns s))"
    unfolding variable_positions_for_columns_def by (rule count_variable_positions)
  have len: "33 + div_ceil (length (columns s)) 8 + fixed_region_len (columns s)
      + length (filter is_variable (columns s)) * 8 \<le> length ?bs"
    by (simp add: bs)
  have pos: "pos (advance 33 (cursor_new ?bs)) = 33" by (simp add: cursor_new_def advance_def)
  show ?thesis
    unfolding fixed_row_layout_def u8 res_bind.simps split_conv hdr Let_def row_header.simps
      pos
    using len vc by (simp add: assms(2) layout_of_def Let_def)
qed

subsection \<open>A column\<close>

lemma slice_within:
  "length us = n \<Longrightarrow> slice (us @ xs) (n + a) (n + b) = slice xs a b"
  using slice_shift by metis

text \<open>Size limits of a record: 32-bit column count and offsets, a length that is a \<open>usize\<close>.\<close>

definition record_fits :: "table_schema \<Rightarrow> row_map \<Rightarrow> bool" where
  "record_fits s row =
     (length (columns s) < 2 ^ 32 \<and> length (payload_sec row (columns s)) < 2 ^ 32 \<and>
      33 + div_ceil (length (columns s)) 8 + fixed_region_len (columns s)
        + length (filter is_variable (columns s)) * 8 + length (payload_sec row (columns s))
        < 2 ^ 64)"

definition row_typed :: "table_schema \<Rightarrow> row_map \<Rightarrow> bool" where
  "row_typed s row =
     (\<forall>c \<in> set (columns s). has_type (col_type c) (row_value row c) \<and> value_ok (row_value row c))"

lemma decode_fixed_slot:
  assumes "\<not> is_variable c" "\<not> is_null (row_value row c)" "has_type (col_type c) (row_value row c)"
  shows "decode_fixed_value (col_type c) (slot_bytes row c) = Inr (row_value row c)"
proof -
  from assms(1) obtain w where w: "fixed_width (col_type c) = Some w" by (auto simp: is_variable_def)
  then show ?thesis
    using decode_encode_fixed_value [of "col_type c" "replicate w 0"] assms
    by (simp add: slot_bytes_def is_null_def)
qed

lemma fixed_row_is_null_encode:
  assumes "record_fits s row" "i < length (columns s)"
  shows "fixed_row_is_null (encode_row_record_with_mvcc s row mvcc) (layout_of (columns s)) i =
    Inr (is_null (row_value row (columns s ! i)))"
proof -
  let ?bs = "encode_row_record_with_mvcc s row mvcc"
  have fits: "length (payload_sec row (columns s)) < 2 ^ 32"
    using assms(1) by (simp only: record_fits_def) 
  note bs = encode_row_record_sections [OF fits, of mvcc]
  have "slice_get ?bs (33 + i div 8) = Some (null_bitmap row (columns s) ! (i div 8))"
    using bitmap_index [OF assms(2)] by (simp add: bs nth_append)
  then show ?thesis
    using assms(2) null_bitmap_test [OF assms(2), of row]
    by (simp only: fixed_row_is_null_def layout_of_def Let_def fixed_row_layout.simps ok_or_simps
        res_bind.simps linorder_not_le [symmetric] if_False)
qed

text \<open>The two ways a stored column is read, and what they read.\<close>

lemma decode_fixed_row_column_slot:
  assumes "slice_get (columns s) idx = Some c" "idx < stored_column_count l"
    and "fixed_row_is_null bs l idx = Inr False"
    and "slice_get (layout_fixed_offsets l) idx = Some (Some off)"
    and "start = fixed_region_start l + off" "start + width_of c \<le> length bs"
  shows "decode_fixed_row_column s bs l idx =
    decode_fixed_value (col_type c) (slice bs start (start + width_of c))"
proof -
  have "(case fixed_width (col_type c) of None \<Rightarrow> 0 | Some w \<Rightarrow> w) = width_of c"
    by (simp add: width_of_def split: option.splits)
  then show ?thesis
    using assms by (simp add: decode_fixed_row_column_def Let_def not_le not_less del: slice_get_eq_Some)
qed

lemma decode_fixed_row_column_variable:
  assumes "slice_get (columns s) idx = Some c" "idx < stored_column_count l"
    and "fixed_row_is_null bs l idx = Inr False"
    and "slice_get (layout_fixed_offsets l) idx = Some None"
    and "slice_get (layout_variable_positions l) idx = Some (Some p)"
    and "entry = variable_directory_start l + p * 8" "entry + 8 \<le> length bs"
    and "slice bs entry (entry + 4) = to_be_bytes (word_of_nat off :: u32)"
    and "slice bs (entry + 4) (entry + 8) = to_be_bytes (word_of_nat len :: u32)"
    and "start = variable_payload_start l + off" "start + len \<le> length bs"
    and "off < 2 ^ 32" "len < 2 ^ 32" "length bs < 2 ^ 64"
  shows "decode_fixed_row_column s bs l idx =
    decode_whole decode_tuple_value ''trailing bytes in fixed row variable value''
      (slice bs start (start + len))"
proof -
  have "unat (word_of_nat off :: u32) = off" "unat (word_of_nat len :: u32) = len"
    using assms(12,13) by (simp_all add: unat_of_nat)
  moreover have "checked_add_usize (variable_payload_start l) off = Some start"
    "checked_add_usize start len = Some (start + len)"
    using assms(10,11,14) by (simp_all add: checked_add_usize_def)
  ultimately show ?thesis
    using assms(1-9,11)
    by (simp add: decode_fixed_row_column_def Let_def not_le not_less del: slice_get_eq_Some)
qed

lemma layout_of_slices:
  assumes "record_fits s row" "bs = encode_row_record_with_mvcc s row mvcc" "l = layout_of (columns s)"
  shows "slice bs (fixed_region_start l + a) (fixed_region_start l + b) =
      slice (fixed_sec row (columns s) @ dir_sec row 0 (columns s) @ payload_sec row (columns s)) a b"
    and "slice bs (variable_directory_start l + a) (variable_directory_start l + b) =
      slice (dir_sec row 0 (columns s) @ payload_sec row (columns s)) a b"
    and "slice bs (variable_payload_start l + a) (variable_payload_start l + b) =
      slice (payload_sec row (columns s)) a b"
    and "length bs = variable_payload_start l + length (payload_sec row (columns s))"
    and "variable_payload_start l = variable_directory_start l + length (filter is_variable (columns s)) * 8"
    and "variable_directory_start l = fixed_region_start l + fixed_region_len (columns s)"
    and "length bs < 2 ^ 64"
proof -
  have len: "length (payload_sec row (columns s)) < 2 ^ 32" using assms(1) by (simp only: record_fits_def)
  let ?h = "row_header_bytes s mvcc @ null_bitmap row (columns s)"
  have bs: "bs = ?h @ fixed_sec row (columns s) @ dir_sec row 0 (columns s) @ payload_sec row (columns s)"
    using encode_row_record_sections [OF len, of mvcc] assms(2) by simp
  show "slice bs (fixed_region_start l + a) (fixed_region_start l + b) =
      slice (fixed_sec row (columns s) @ dir_sec row 0 (columns s) @ payload_sec row (columns s)) a b"
    unfolding bs by (rule slice_within) (simp add: assms(3) layout_of_def Let_def)
  have bs2: "bs = (?h @ fixed_sec row (columns s)) @ dir_sec row 0 (columns s) @ payload_sec row (columns s)"
    by (simp add: bs)
  show "slice bs (variable_directory_start l + a) (variable_directory_start l + b) =
      slice (dir_sec row 0 (columns s) @ payload_sec row (columns s)) a b"
    unfolding bs2 by (rule slice_within) (simp add: assms(3) layout_of_def Let_def)
  have bs3: "bs = (?h @ fixed_sec row (columns s) @ dir_sec row 0 (columns s)) @ payload_sec row (columns s)"
    by (simp add: bs)
  show "slice bs (variable_payload_start l + a) (variable_payload_start l + b) =
      slice (payload_sec row (columns s)) a b"
    unfolding bs3 by (rule slice_within) (simp add: assms(3) layout_of_def Let_def)
  show "length bs < 2 ^ 64" using assms(1) by (simp add: bs record_fits_def)
qed (simp_all add: assms(3) layout_of_def Let_def encode_row_record_sections
    [OF conjunct1 [OF conjunct2 [OF assms(1) [unfolded record_fits_def]]]] assms(2))

lemma take_part_le:
  assumes "i < length cols"
  shows "sum_list (map width_of (take i cols)) + width_of (cols ! i) \<le> fixed_region_len cols"
    and "is_variable (cols ! i) \<Longrightarrow>
      length (filter is_variable (take i cols)) < length (filter is_variable cols)"
proof -
  have c: "cols = take i cols @ cols ! i # drop (Suc i) cols" by (rule columns_split [OF assms])
  have "fixed_region_len cols = sum_list (map width_of (take i cols)) + width_of (cols ! i)
      + sum_list (map width_of (drop (Suc i) cols))"
    unfolding fixed_region_len_sum by (subst c) simp
  then show "sum_list (map width_of (take i cols)) + width_of (cols ! i) \<le> fixed_region_len cols"
    by simp
  have "length (filter is_variable cols) = length (filter is_variable (take i cols))
      + length (filter is_variable (cols ! i # drop (Suc i) cols))"
    by (subst c) (simp only: filter_append length_append)
  then show "is_variable (cols ! i) \<Longrightarrow>
      length (filter is_variable (take i cols)) < length (filter is_variable cols)" by simp
qed

text \<open>What the layout records about the columns.\<close>

lemma layout_of_columns:
  assumes "i < length cols" "l = layout_of cols"
  shows "i < stored_column_count l"
    and "slice_get (layout_fixed_offsets l) i =
      Some (if is_variable (cols ! i) then None else Some (sum_list (map width_of (take i cols))))"
    and "slice_get (layout_variable_positions l) i =
      Some (if is_variable (cols ! i) then Some (length (filter is_variable (take i cols))) else None)"
  using assms fixed_offsets_nth [OF assms(1), of 0] variable_positions_nth [OF assms(1), of 0]
  by (simp_all add: layout_of_def Let_def fixed_offsets_for_columns_def
      variable_positions_for_columns_def)

lemma decode_fixed_column_encode:
  assumes fits: "record_fits s row" and bs: "bs = encode_row_record_with_mvcc s row mvcc"
    and l: "l = layout_of (columns s)" and i: "i < length (columns s)"
    and get: "slice_get (columns s') i = Some c" and c: "c = columns s ! i"
    and nonnull: "\<not> is_null (row_value row c)" and fixed: "\<not> is_variable c"
    and ty: "has_type (col_type c) (row_value row c)"
  shows "decode_fixed_row_column s' bs l i = Inr (row_value row c)"
proof -
  note sl = layout_of_slices [OF fits bs l] and lay = layout_of_columns [OF i l]
  define off where "off = sum_list (map width_of (take i (columns s)))"
  let ?a = "fixed_region_start l + off"
  have "?a + width_of c \<le> length bs"
    using take_part_le(1) [OF i] sl(4-6) by (simp add: off_def c)
  moreover have "fixed_row_is_null bs l i = Inr False"
    using fixed_row_is_null_encode [OF fits i] nonnull by (simp add: bs l c)
  ultimately have "decode_fixed_row_column s' bs l i =
      decode_fixed_value (col_type c) (slice bs ?a (?a + width_of c))"
    using get lay fixed c
    by (intro decode_fixed_row_column_slot) (simp_all add: off_def del: slice_get_eq_Some)
  also have "slice bs ?a (?a + width_of c) = slot_bytes row c"
    using sl(1) [of off "off + width_of c"] slice_fixed_sec [OF i off_def, of row]
    by (simp add: add.assoc c)
  finally show ?thesis using decode_fixed_slot [OF fixed nonnull ty] by simp
qed

lemma decode_variable_column_encode:
  assumes fits: "record_fits s row" and bs: "bs = encode_row_record_with_mvcc s row mvcc"
    and l: "l = layout_of (columns s)" and i: "i < length (columns s)"
    and get: "slice_get (columns s') i = Some c" and c: "c = columns s ! i"
    and nonnull: "\<not> is_null (row_value row c)" and var: "is_variable c"
    and ok: "value_ok (row_value row c)"
  shows "decode_fixed_row_column s' bs l i = Inr (row_value row c)"
proof -
  note sl = layout_of_slices [OF fits bs l] and lay = layout_of_columns [OF i l]
  have var': "is_variable (columns s ! i)" using var c by simp
  define p where "p = length (filter is_variable (take i (columns s)))"
  define off where "off = length (payload_sec row (take i (columns s)))"
  let ?e = "variable_directory_start l + p * 8" and ?n = "length (var_bytes row c)"
  let ?a = "variable_payload_start l + off"
  have e: "slice bs ?e (?e + 4) = to_be_bytes (word_of_nat off :: u32)"
    "slice bs (?e + 4) (?e + 8) = to_be_bytes (word_of_nat ?n :: u32)"
    using sl(2) [of "p * 8" "p * 8 + 4"] sl(2) [of "p * 8 + 4" "p * 8 + 8"]
      slice_dir_sec [OF i var' refl, of row "payload_sec row (columns s)"]
    by (simp_all add: p_def off_def add.assoc c)
  note pay = slice_payload_sec [OF i off_def, folded c]
  have small: "length (payload_sec row (columns s)) < 2 ^ 32"
    using fits by (simp only: record_fits_def)
  have null: "fixed_row_is_null bs l i = Inr False"
    using fixed_row_is_null_encode [OF fits i] nonnull by (simp add: bs l c)
  have "decode_fixed_row_column s' bs l i =
      decode_whole decode_tuple_value ''trailing bytes in fixed row variable value''
        (slice bs ?a (?a + ?n))"
    using get lay null c var e
  proof (intro decode_fixed_row_column_variable)
    show "?e + 8 \<le> length bs" using take_part_le(2) [OF i var'] sl(4,5) by (simp add: p_def)
    show "off < 2 ^ 32" "?n < 2 ^ 32" using pay(2) small by simp_all
    show "?a + ?n \<le> length bs" using pay(2) sl(4) by simp
    show "length bs < 2 ^ 64" by (rule sl(7))
  qed (simp_all add: p_def del: slice_get_eq_Some)
  also have "slice bs ?a (?a + ?n) = var_bytes row c"
    using sl(3) [of off "off + ?n"] pay(1) by (simp add: add.assoc)
  finally show ?thesis using decode_whole_encode [OF ok] nonnull var by (simp add: var_bytes_def)
qed

text \<open>Every stored column reads back, whatever columns the reader's schema adds.\<close>

lemma decode_fixed_row_column_encode:
  assumes "record_fits s row" "row_typed s row" "columns s' = columns s @ extra"
    and i: "i < length (columns s)"
  shows "decode_fixed_row_column s' (encode_row_record_with_mvcc s row mvcc)
      (layout_of (columns s)) i = Inr (row_value row (columns s ! i))"
proof -
  let ?c = "columns s ! i"
  have get: "slice_get (columns s') i = Some ?c" using assms(3) i by (simp add: nth_append)
  have ty: "has_type (col_type ?c) (row_value row ?c)" "value_ok (row_value row ?c)"
    using assms(2) i by (simp_all add: row_typed_def)
  show ?thesis
  proof (cases "is_null (row_value row ?c)")
    case True
    with fixed_row_is_null_encode [OF assms(1) i] get i layout_of_columns(1) [OF i refl]
    show ?thesis by (simp add: decode_fixed_row_column_def is_null_def del: slice_get_eq_Some)
  next
    case False
    then show ?thesis
      using decode_fixed_column_encode [OF assms(1) refl refl i get refl False]
        decode_variable_column_encode [OF assms(1) refl refl i get refl False] ty by blast
  qed
qed

lemma decode_fixed_row_column_added:
  assumes "length cols \<le> i" "i < length (columns s')"
  shows "decode_fixed_row_column s' bs (layout_of cols) i = Inr VNull"
  using assms by (simp add: decode_fixed_row_column_def layout_of_def Let_def slice_get_def)

section \<open>Records read back\<close>

lemma fixed_row_insert_upds:
  assumes "length vs = length cols"
    and "\<forall>i < length cols. decode_fixed_row_column s bs l (idx + i) = Inr (vs ! i)"
  shows "fixed_row_insert s bs l idx cols row = Inr (row(map col_name cols [\<mapsto>] vs))"
  using assms
proof (induction cols arbitrary: idx vs row)
  case (Cons c cols)
  from Cons.prems(1) obtain v ws where vs: "vs = v # ws" "length ws = length cols"
    by (cases vs) auto
  have "decode_fixed_row_column s bs l idx = Inr v" using Cons.prems(2) vs by force
  moreover have "\<forall>i < length cols. decode_fixed_row_column s bs l (idx + 1 + i) = Inr (ws ! i)"
    using Cons.prems(2) vs by (auto dest: spec [of _ "Suc _"])
  ultimately show ?case using Cons.IH [of ws "idx + 1"] vs by simp
qed simp

text \<open>The values a reader with columns \<open>columns s @ extra\<close> sees.\<close>

abbreviation read_values :: "table_schema \<Rightarrow> row_map \<Rightarrow> column_schema list \<Rightarrow> column_value list" where
  "read_values s row extra \<equiv> map (row_value row) (columns s) @ replicate (length extra) VNull"

lemma decode_encode_row_record_upds:
  assumes "record_fits s row" "row_typed s row" "columns s' = columns s @ extra"
  shows "decode_row_record s' (encode_row_record_with_mvcc s row mvcc) =
    Inr [map col_name (columns s') [\<mapsto>] read_values s row extra]"
proof -
  let ?bs = "encode_row_record_with_mvcc s row mvcc"
  have len: "length (columns s) < 2 ^ 32" "length (payload_sec row (columns s)) < 2 ^ 32"
    using assms(1) by (simp_all only: record_fits_def)
  have "slice_get ?bs 0 = Some FIXED_ROW_VERSION"
    by (simp add: encode_row_record_sections [OF len(2)] row_header_bytes_def)
  moreover have "decode_fixed_row_column s' ?bs (layout_of (columns s)) (0 + i) =
      Inr (read_values s row extra ! i)" if "i < length (columns s')" for i
    using decode_fixed_row_column_encode [OF assms] decode_fixed_row_column_added [of "columns s" i s']
      that assms(3) by (cases "i < length (columns s)") (simp_all add: nth_append)
  then have "fixed_row_insert s' ?bs (layout_of (columns s)) 0 (columns s') Map.empty =
      Inr [map col_name (columns s') [\<mapsto>] read_values s row extra]"
    by (intro fixed_row_insert_upds) (simp_all add: assms(3))
  ultimately show ?thesis
    by (simp add: decode_row_record_def decode_fixed_row_record_def
        fixed_row_layout_encode [OF len(1) assms(3) len(2)])
qed

lemma map_upds_nth:
  "distinct xs \<Longrightarrow> length ys = length xs \<Longrightarrow> i < length xs \<Longrightarrow> (m(xs [\<mapsto>] ys)) (xs ! i) = Some (ys ! i)"
proof (induction xs arbitrary: ys i m)
  case (Cons x xs)
  then obtain z zs where "ys = z # zs" by (cases ys) auto
  with Cons show ?case by (cases i) auto
qed simp

lemma decode_encode_row_record:
  assumes "record_fits s row" "row_typed s row" "columns s' = columns s @ extra"
    and "distinct (column_names s')"
  shows "\<exists>out. decode_row_record s' (encode_row_record_with_mvcc s row mvcc) = Inr out \<and>
    dom out = set (column_names s') \<and>
    (\<forall>c \<in> set (columns s). out (col_name c) = Some (row_value row c)) \<and>
    (\<forall>c \<in> set extra. out (col_name c) = Some VNull)"
proof -
  let ?names = "map col_name (columns s')" and ?vs = "read_values s row extra"
  let ?out = "[?names [\<mapsto>] ?vs]"
  have len: "length ?vs = length ?names" by (simp add: assms(3))
  have nth: "?out (col_name (columns s' ! i)) = Some (?vs ! i)" if "i < length (columns s')" for i
    using map_upds_nth [of ?names ?vs i Map.empty] that assms(4) len by (simp add: column_names_def)
  have "dom ?out = set ?names" using len by (auto simp: map_upds_def dom_map_of_conv_image_fst
        simp flip: set_map simp: map_fst_zip)
  moreover have "\<forall>c \<in> set (columns s). ?out (col_name c) = Some (row_value row c)"
  proof
    fix c assume "c \<in> set (columns s)"
    then obtain i where "i < length (columns s)" "c = columns s ! i" by (auto simp: in_set_conv_nth)
    with nth [of i] show "?out (col_name c) = Some (row_value row c)"
      by (simp add: assms(3) nth_append)
  qed
  moreover have "\<forall>c \<in> set extra. ?out (col_name c) = Some VNull"
  proof
    fix c assume "c \<in> set extra"
    then obtain i where "i < length extra" "c = extra ! i" by (auto simp: in_set_conv_nth)
    with nth [of "length (columns s) + i"] show "?out (col_name c) = Some VNull"
      by (simp add: assms(3) nth_append)
  qed
  ultimately show ?thesis
    using decode_encode_row_record_upds [OF assms(1-3)] by (auto simp: column_names_def)
qed

section \<open>Rewriting and altering\<close>

lemma insert_record_columns_upds:
  "insert_record_columns vs cols m =
    m(map col_name cols [\<mapsto>] map (\<lambda>c. case bt_get vs (column_id c) of Some v \<Rightarrow> v | None \<Rightarrow> VNull) cols)"
  by (induction cols arbitrary: m) simp_all

lemma row_value_insert_record_columns:
  assumes "distinct (map col_name cols)" "c \<in> set cols"
  shows "row_value (insert_record_columns vs cols Map.empty) c =
    (case bt_get vs (column_id c) of Some v \<Rightarrow> v | None \<Rightarrow> VNull)"
proof -
  let ?f = "\<lambda>c. case bt_get vs (column_id c) of Some v \<Rightarrow> v | None \<Rightarrow> VNull"
  from assms(2) obtain i where i: "i < length cols" "c = cols ! i" by (auto simp: in_set_conv_nth)
  have "[map col_name cols [\<mapsto>] map ?f cols] (map col_name cols ! i) = Some (map ?f cols ! i)"
    using assms(1) i(1) by (intro map_upds_nth) simp_all
  then show ?thesis using i by (simp add: row_value_def insert_record_columns_upds)
qed

lemma raw_not_fixed: "decode_row_record_raw bs = Inr r \<Longrightarrow> slice_get bs 0 \<noteq> Some FIXED_ROW_VERSION"
  by (auto simp: decode_row_record_raw_def res_simps cursor_u8_def cursor_new_def VERSION_def
      FAST_ROW_VERSION_def FIXED_ROW_VERSION_def split: if_splits option.splits)

text \<open>A record rewritten in the format in use reads as it did.\<close>

lemma reencode_row_record_fast_reads:
  assumes raw: "decode_row_record_raw bs = Inr r" and "\<not> is_row_tombstone r"
    and row: "row = insert_record_columns (rec_values r) (columns s) Map.empty"
    and "record_fits s row" "row_typed s row" and names: "distinct (column_names s)"
  shows "\<exists>bs'. reencode_row_record_fast s bs = Inr (Some bs') \<and>
    decode_row_record s bs' = decode_row_record s bs \<and> decode_row_record s bs = Inr row"
proof -
  let ?bs' = "encode_row_record_with_mvcc s row (rec_mvcc r)"
  have vals: "map (row_value row) (columns s) =
      map (\<lambda>c. case bt_get (rec_values r) (column_id c) of Some v \<Rightarrow> v | None \<Rightarrow> VNull) (columns s)"
    using names row_value_insert_record_columns by (auto simp: row column_names_def)
  have "row = [map col_name (columns s) [\<mapsto>] map (row_value row) (columns s)]"
    unfolding vals by (simp add: row insert_record_columns_upds)
  then have "decode_row_record s ?bs' = Inr row"
    using decode_encode_row_record_upds [OF assms(4,5), of s "[]"] by simp
  moreover have "decode_row_record s bs = Inr row"
    using raw raw_not_fixed [OF raw] by (simp add: decode_row_record_def row del: slice_get_eq_Some)
  ultimately show ?thesis
    using raw raw_not_fixed [OF raw] assms(2)
    by (simp add: reencode_row_record_fast_def row del: slice_get_eq_Some)
qed

end
