(* ===== verification/Engine_Store.thy ===== *)
theory Engine_Store
  imports Kv_Store Row_Codec
begin

text \<open>
  The store and the transactions over the external storage engine
  (\<open>kv_engine_store/store.rs\<close>, \<open>transaction.rs\<close>, \<open>profile.rs\<close>). The engine is a record of
  parameters; \<open>engine_contract\<close> states what the code relies on: reads see the last writes, a
  batch is written as a whole, and a cursor hands out the records of its range in order, in
  finitely many batches. The scan loops, which run until the cursor says it is exhausted, may not
  end for an arbitrary engine; under the contract they do, and return what the in-memory store
  returns.
\<close>

section \<open>The engine\<close>

datatype scan_order = Asc | Desc

record range_query =
  q_start :: "bytes option"
  q_end :: "bytes option"
  q_prefix :: "bytes option"
  q_projection :: kv_scan_projection
  q_order :: scan_order
  q_max_records :: "nat option"

definition default_query :: range_query where
  "default_query =
     \<lparr>q_start = None, q_end = None, q_prefix = None, q_projection = KeyValue, q_order = Asc,
      q_max_records = None\<rparr>"

datatype write_op = WPut bytes bytes | WDelete bytes

type_synonym kv_record = "bytes option \<times> bytes option"

text \<open>\<open>eng_next_batch\<close> returns the records of a batch and whether the cursor is exhausted;
  \<open>eng_scan_ref\<close> the keys and values it would hand to a visitor that never stops, and the error
  it ends with.\<close>

record ('e, 'c) kv_engine =
  eng_put :: "bytes \<Rightarrow> bytes \<Rightarrow> 'e \<Rightarrow> 'e res"
  eng_delete :: "bytes \<Rightarrow> 'e \<Rightarrow> 'e res"
  eng_write :: "write_op list \<Rightarrow> 'e \<Rightarrow> 'e res"
  eng_sync_wal :: "'e \<Rightarrow> 'e res"
  eng_get :: "'e \<Rightarrow> bytes \<Rightarrow> bytes option res"
  eng_range_query :: "'e \<Rightarrow> range_query \<Rightarrow> 'c res"
  eng_next_batch :: "'c \<Rightarrow> ((kv_record list \<times> bool) \<times> 'c) res"
  eng_scan_ref :: "'c \<Rightarrow> kv_rows \<times> pg_error option"
  eng_multi_get :: "'e \<Rightarrow> bytes list \<Rightarrow> bytes option list res"

section \<open>Scans\<close>

text \<open>\<open>loop { next_batch; ...; if exhausted || full break }\<close>: \<open>None\<close> when it never ends.\<close>

partial_function (option) batch_loop ::
    "('c \<Rightarrow> ((kv_record list \<times> bool) \<times> 'c) res) \<Rightarrow> (kv_record list \<Rightarrow> 'a \<Rightarrow> 'a res) \<Rightarrow> ('a \<Rightarrow> bool)
       \<Rightarrow> 'c \<Rightarrow> 'a \<Rightarrow> 'a res option" where
  "batch_loop next step full c acc =
     (case next c of
        Inl e \<Rightarrow> Some (Inl e)
      | Inr ((records, exhausted), c1) \<Rightarrow>
          (case step records acc of
             Inl e \<Rightarrow> Some (Inl e)
           | Inr acc1 \<Rightarrow>
               if exhausted \<or> full acc1 then Some (Inr acc1) else batch_loop next step full c1 acc1))"

definition reached :: "nat option \<Rightarrow> 'a list \<Rightarrow> bool" where
  "reached limit rows = (case limit of None \<Rightarrow> False | Some n \<Rightarrow> n \<le> length rows)"

text \<open>The loop over the records of a batch, which stops at the limit; \<open>keep\<close> is what is pushed.\<close>

fun push_records :: "(kv_record \<Rightarrow> 'r option) \<Rightarrow> nat option \<Rightarrow> kv_record list \<Rightarrow> 'r list \<Rightarrow> 'r list" where
  "push_records keep limit [] rows = rows"
| "push_records keep limit (r # rs) rows =
     (let rows1 = (case keep r of Some x \<Rightarrow> rows @ [x] | None \<Rightarrow> rows)
      in if reached limit rows1 then rows1 else push_records keep limit rs rows1)"

definition key_value :: "kv_record \<Rightarrow> (bytes \<times> bytes) option" where
  "key_value r = (case r of (Some k, Some v) \<Rightarrow> Some (k, v) | _ \<Rightarrow> None)"

definition key_and_maybe_value :: "kv_record \<Rightarrow> (bytes \<times> bytes option) option" where
  "key_and_maybe_value r = map_option (\<lambda>k. (k, snd r)) (fst r)"

text \<open>A query and its loop.\<close>

definition run_query ::
    "('e, 'c) kv_engine \<Rightarrow> 'e \<Rightarrow> range_query \<Rightarrow> (kv_record list \<Rightarrow> 'a \<Rightarrow> 'a res) \<Rightarrow> ('a \<Rightarrow> bool) \<Rightarrow> 'a
       \<Rightarrow> 'a res option" where
  "run_query eng e q step full acc =
     (case eng_range_query eng e q of
        Inl err \<Rightarrow> Some (Inl err)
      | Inr c \<Rightarrow> batch_loop (eng_next_batch eng) step full c acc)"

definition order_of :: "bool \<Rightarrow> scan_order" where
  "order_of reverse = (if reverse then Desc else Asc)"

definition limited_query :: "bytes \<Rightarrow> bytes option \<Rightarrow> nat option \<Rightarrow> bool \<Rightarrow> range_query" where
  "limited_query start end' limit reverse =
     default_query\<lparr>q_start := Some start, q_end := end', q_order := order_of reverse,
       q_max_records := map_option (max 1) limit\<rparr>"

section \<open>The store\<close>

definition store_put :: "('e, 'c) kv_engine \<Rightarrow> bytes \<Rightarrow> bytes \<Rightarrow> 'e \<Rightarrow> 'e res" where
  "store_put eng key v e = eng_put eng key v e"

definition store_put_batch :: "('e, 'c) kv_engine \<Rightarrow> kv_rows \<Rightarrow> 'e \<Rightarrow> 'e res" where
  "store_put_batch eng entries e = eng_write eng (map (\<lambda>(k, v). WPut k v) entries) e"

definition store_delete :: "('e, 'c) kv_engine \<Rightarrow> bytes \<Rightarrow> 'e \<Rightarrow> 'e res" where
  "store_delete eng key e = eng_delete eng key e"

definition store_get :: "('e, 'c) kv_engine \<Rightarrow> 'e \<Rightarrow> bytes \<Rightarrow> bytes option res" where
  "store_get eng e key = eng_get eng e key"

definition store_multi_get :: "('e, 'c) kv_engine \<Rightarrow> 'e \<Rightarrow> bytes list \<Rightarrow> bytes option list res" where
  "store_multi_get eng e keys = eng_multi_get eng e keys"

definition store_scan_prefix :: "('e, 'c) kv_engine \<Rightarrow> 'e \<Rightarrow> bytes \<Rightarrow> kv_rows res option" where
  "store_scan_prefix eng e p =
     run_query eng e (default_query\<lparr>q_prefix := Some p\<rparr>)
       (\<lambda>rs rows. Inr (push_records key_value None rs rows)) (\<lambda>_. False) []"

definition store_scan_range ::
    "('e, 'c) kv_engine \<Rightarrow> 'e \<Rightarrow> bytes \<Rightarrow> bytes option \<Rightarrow> nat option \<Rightarrow> bool \<Rightarrow> kv_rows res option" where
  "store_scan_range eng e start end' limit reverse =
     run_query eng e (limited_query start end' limit reverse)
       (\<lambda>rs rows. Inr (push_records key_value limit rs rows)) (reached limit) []"

definition store_scan_range_projected ::
    "('e, 'c) kv_engine \<Rightarrow> 'e \<Rightarrow> bytes \<Rightarrow> bytes option \<Rightarrow> nat option \<Rightarrow> bool \<Rightarrow> kv_scan_projection
       \<Rightarrow> (bytes \<times> bytes option) list res option" where
  "store_scan_range_projected eng e start end' limit reverse proj =
     run_query eng e
       (default_query\<lparr>q_start := Some start, q_end := end', q_projection := proj, q_order := order_of reverse,
          q_max_records := Some (max 1 (case limit of Some n \<Rightarrow> n | None \<Rightarrow> 65536))\<rparr>)
       (\<lambda>rs rows. Inr (push_records key_and_maybe_value limit rs rows)) (reached limit) []"

definition saturating_add_u64 :: "u64 \<Rightarrow> nat \<Rightarrow> u64" where
  "saturating_add_u64 n k = (if unat n + k < 2 ^ 64 then n + of_nat k else - 1)"

definition store_count_range :: "('e, 'c) kv_engine \<Rightarrow> 'e \<Rightarrow> bytes \<Rightarrow> bytes option \<Rightarrow> u64 res option" where
  "store_count_range eng e start end' =
     run_query eng e
       (default_query\<lparr>q_start := Some start, q_end := end', q_projection := KeyOnly, q_max_records := Some 65536\<rparr>)
       (\<lambda>rs n. Inr (saturating_add_u64 n (length rs))) (\<lambda>_. False) 0"

text \<open>A visitor returns whether it wants to go on; its effects are a state.\<close>

type_synonym 's visitor = "bytes \<Rightarrow> bytes option \<Rightarrow> 's \<Rightarrow> (bool \<times> 's) res"

fun visit_rows :: "'s visitor \<Rightarrow> (bytes \<times> bytes option) list \<Rightarrow> 's \<Rightarrow> (bool \<times> 's) res" where
  "visit_rows visitor [] s = Inr (True, s)"
| "visit_rows visitor ((k, v) # rows) s =
     res_bind (visitor k v s) (\<lambda>(go, s1). if go then visit_rows visitor rows s1 else Inr (False, s1))"

text \<open>The default \<open>visit_range\<close> of the two traits.\<close>

definition mem_visit_range ::
    "hash_map \<Rightarrow> bytes \<Rightarrow> bytes option \<Rightarrow> bool \<Rightarrow> kv_scan_projection \<Rightarrow> 's visitor \<Rightarrow> 's \<Rightarrow> 's res" where
  "mem_visit_range store start end' reverse proj visitor s =
     res_bind (visit_rows visitor (mem_scan_range_projected store start end' None reverse proj) s)
       (\<lambda>(_, s1). Inr s1)"

definition txn_visit_range ::
    "hash_map \<Rightarrow> mem_txn \<Rightarrow> bytes \<Rightarrow> bytes option \<Rightarrow> bool \<Rightarrow> kv_scan_projection \<Rightarrow> 's visitor \<Rightarrow> 's \<Rightarrow> 's res"
where
  "txn_visit_range store t start end' reverse proj visitor s =
     res_bind (visit_rows visitor
         (map (\<lambda>(k, v). (k, case proj of KeyOnly \<Rightarrow> None | KeyValue \<Rightarrow> Some v))
            (txn_scan_range store t start end' None reverse)) s)
       (\<lambda>(_, s1). Inr s1)"

text \<open>The engine's \<open>visit_range\<close> hands every value on, whatever the projection; an error of the cursor
  counts only when the visitor did not stop.\<close>

definition store_visit_range ::
    "('e, 'c) kv_engine \<Rightarrow> 'e \<Rightarrow> bytes \<Rightarrow> bytes option \<Rightarrow> bool \<Rightarrow> kv_scan_projection \<Rightarrow> 's visitor \<Rightarrow> 's \<Rightarrow> 's res"
where
  "store_visit_range eng e start end' reverse proj visitor s =
     res_bind (eng_range_query eng e
         (default_query\<lparr>q_start := Some start, q_end := end', q_projection := proj, q_order := order_of reverse,
            q_max_records := Some 65536\<rparr>)) (\<lambda>c.
       let (rows, failure) = eng_scan_ref eng c in
       res_bind (visit_rows visitor (map (\<lambda>(k, v). (k, Some v)) rows) s) (\<lambda>(go, s1).
         case failure of Some err \<Rightarrow> if go then Inl err else Inr s1 | None \<Rightarrow> Inr s1))"

subsection \<open>Rewriting rows\<close>

record 'e rewrite_state =
  rw_engine :: 'e
  rw_scanned :: nat
  rw_rewritten :: nat
  rw_pending :: kv_rows

definition flush_pending :: "('e, 'c) kv_engine \<Rightarrow> 'e rewrite_state \<Rightarrow> 'e rewrite_state res" where
  "flush_pending eng st =
     res_bind (eng_write eng (map (\<lambda>(k, v). WPut k v) (rw_pending st)) (rw_engine st)) (\<lambda>e.
       Inr (st\<lparr>rw_engine := e, rw_pending := []\<rparr>))"

fun rewrite_records ::
    "('e, 'c) kv_engine \<Rightarrow> table_schema \<Rightarrow> nat \<Rightarrow> kv_record list \<Rightarrow> 'e rewrite_state \<Rightarrow> 'e rewrite_state res"
where
  "rewrite_records eng schema batch_size [] st = Inr st"
| "rewrite_records eng schema batch_size (r # rs) st =
     (case key_value r of
        None \<Rightarrow> rewrite_records eng schema batch_size rs st
      | Some (key, value) \<Rightarrow>
          res_bind (reencode_row_record_fast schema value) (\<lambda>encoded.
            let st1 = st\<lparr>rw_scanned := rw_scanned st + 1\<rparr>;
                st2 = (case encoded of
                         Some bs \<Rightarrow> st1\<lparr>rw_pending := rw_pending st1 @ [(key, bs)],
                                      rw_rewritten := rw_rewritten st1 + 1\<rparr>
                       | None \<Rightarrow> st1)
            in res_bind (if max 1 batch_size \<le> length (rw_pending st2) then flush_pending eng st2 else Inr st2)
                 (\<lambda>st3. rewrite_records eng schema batch_size rs st3)))"

definition finish_rewrite :: "('e, 'c) kv_engine \<Rightarrow> 'e rewrite_state \<Rightarrow> ('e \<times> nat \<times> nat) res" where
  "finish_rewrite eng st =
     res_bind (if rw_pending st \<noteq> [] then flush_pending eng st else Inr st) (\<lambda>st1.
     res_bind (eng_sync_wal eng (rw_engine st1)) (\<lambda>e.
       Inr (e, rw_scanned st1, rw_rewritten st1)))"

definition rewrite_table_rows_to_fast_format ::
    "('e, 'c) kv_engine \<Rightarrow> table_schema \<Rightarrow> nat \<Rightarrow> 'e \<Rightarrow> ('e \<times> nat \<times> nat) res option" where
  "rewrite_table_rows_to_fast_format eng schema batch_size e =
     (let range = row_range (table_id schema) (table_epoch schema) None
      in map_option (\<lambda>r. res_bind r (finish_rewrite eng))
           (run_query eng e
             (default_query\<lparr>q_start := Some (range_start range), q_end := range_end range\<rparr>)
             (rewrite_records eng schema batch_size) (\<lambda>_. False)
             \<lparr>rw_engine = e, rw_scanned = 0, rw_rewritten = 0, rw_pending = []\<rparr>))"

section \<open>Transactions\<close>

text \<open>A \<open>KvEngineTransaction\<close> is its pending writes.\<close>

definition engine_begin_transaction :: write_buffer where
  "engine_begin_transaction = []"

definition etxn_put :: "bytes \<Rightarrow> bytes \<Rightarrow> write_buffer \<Rightarrow> write_buffer" where
  "etxn_put key v pending = bt_insert key (Some v) pending"

definition etxn_put_batch :: "kv_rows \<Rightarrow> write_buffer \<Rightarrow> write_buffer" where
  "etxn_put_batch entries pending = fold (\<lambda>(k, v). bt_insert k (Some v)) entries pending"

definition etxn_delete :: "bytes \<Rightarrow> write_buffer \<Rightarrow> write_buffer" where
  "etxn_delete key pending = bt_insert key None pending"

definition etxn_get :: "('e, 'c) kv_engine \<Rightarrow> 'e \<Rightarrow> write_buffer \<Rightarrow> bytes \<Rightarrow> bytes option res" where
  "etxn_get eng e pending key =
     (case bt_get pending key of Some v \<Rightarrow> Inr v | None \<Rightarrow> eng_get eng e key)"

definition etxn_has_pending_key :: "write_buffer \<Rightarrow> bytes \<Rightarrow> bool" where
  "etxn_has_pending_key pending key = (bt_get pending key \<noteq> None)"

text \<open>The loop over a batch that fills a map; the limit is tested against the size of the map.\<close>

fun insert_records ::
    "nat option \<Rightarrow> kv_record list \<Rightarrow> (bytes, bytes) btree_map \<Rightarrow> (bytes, bytes) btree_map" where
  "insert_records limit [] rows = rows"
| "insert_records limit (r # rs) rows =
     (let rows1 = (case key_value r of Some (k, v) \<Rightarrow> bt_insert k v rows | None \<Rightarrow> rows)
      in if reached limit rows1 then rows1 else insert_records limit rs rows1)"

definition etxn_scan_prefix :: "('e, 'c) kv_engine \<Rightarrow> 'e \<Rightarrow> write_buffer \<Rightarrow> bytes \<Rightarrow> kv_rows res option" where
  "etxn_scan_prefix eng e pending p =
     map_option (\<lambda>r. res_bind r (\<lambda>rows. Inr (fold (overlay_one (\<lambda>k. starts_with k p)) pending rows)))
       (run_query eng e (default_query\<lparr>q_prefix := Some p\<rparr>)
          (\<lambda>rs rows. Inr (insert_records None rs rows)) (\<lambda>_. False) [])"

definition etxn_scan_range ::
    "('e, 'c) kv_engine \<Rightarrow> 'e \<Rightarrow> write_buffer \<Rightarrow> bytes \<Rightarrow> bytes option \<Rightarrow> nat option \<Rightarrow> bool
       \<Rightarrow> kv_rows res option" where
  "etxn_scan_range eng e pending start end' limit reverse =
     map_option (\<lambda>r. res_bind r (\<lambda>rows.
         let rows1 = fold (overlay_one (in_bounds start end')) pending rows
         in Inr (collect_range rows1 limit reverse)))
       (run_query eng e (limited_query start end' limit reverse)
          (\<lambda>rs rows. Inr (insert_records limit rs rows)) (reached limit) [])"

definition write_ops :: "write_buffer \<Rightarrow> write_op list" where
  "write_ops pending = map (\<lambda>(k, v). case v of Some x \<Rightarrow> WPut k x | None \<Rightarrow> WDelete k) pending"

text \<open>The pending writes are taken before they are written; the transaction is empty afterwards,
  also when the write fails.\<close>

definition etxn_commit :: "('e, 'c) kv_engine \<Rightarrow> write_buffer \<Rightarrow> 'e \<Rightarrow> write_buffer \<times> 'e res" where
  "etxn_commit eng pending e =
     (if pending = [] then ([], Inr e) else ([], eng_write eng (write_ops pending) e))"

definition etxn_rollback :: "write_buffer \<Rightarrow> write_buffer" where
  "etxn_rollback pending = []"

section \<open>The contract\<close>

inductive cursor_batches ::
    "('c \<Rightarrow> ((kv_record list \<times> bool) \<times> 'c) res) \<Rightarrow> 'c \<Rightarrow> kv_record list list \<Rightarrow> bool" for "next"
where
  last_batch: "next c = Inr ((rs, True), c1) \<Longrightarrow> cursor_batches next c [rs]"
| more_batches: "next c = Inr ((rs, False), c1) \<Longrightarrow> cursor_batches next c1 bs \<Longrightarrow> cursor_batches next c (rs # bs)"

definition in_query :: "range_query \<Rightarrow> bytes \<Rightarrow> bool" where
  "in_query q k =
     ((case q_start q of None \<Rightarrow> True | Some s \<Rightarrow> s \<le> k) \<and>
      (case q_end q of None \<Rightarrow> True | Some e \<Rightarrow> k < e) \<and>
      (case q_prefix q of None \<Rightarrow> True | Some p \<Rightarrow> starts_with k p))"

definition query_records :: "(bytes \<rightharpoonup> bytes) \<Rightarrow> range_query \<Rightarrow> kv_record list" where
  "query_records view q =
     map (\<lambda>(k, v). (Some k, case q_projection q of KeyOnly \<Rightarrow> None | KeyValue \<Rightarrow> Some v))
       ((case q_order q of Asc \<Rightarrow> id | Desc \<Rightarrow> rev) (scan_spec view (in_query q)))"

fun apply_op :: "write_op \<Rightarrow> (bytes \<rightharpoonup> bytes) \<Rightarrow> (bytes \<rightharpoonup> bytes)" where
  "apply_op (WPut k v) view = view(k \<mapsto> v)"
| "apply_op (WDelete k) view = view(k := None)"

text \<open>\<open>R e view\<close>: the engine's state \<open>e\<close> holds the entries \<open>view\<close>.\<close>

definition engine_contract :: "('e, 'c) kv_engine \<Rightarrow> ('e \<Rightarrow> (bytes \<rightharpoonup> bytes) \<Rightarrow> bool) \<Rightarrow> bool" where
  "engine_contract eng R =
     (\<forall>e view. R e view \<longrightarrow>
        finite (dom view) \<and>
        (\<forall>k. eng_get eng e k = Inr (view k)) \<and>
        (\<forall>k v. \<exists>e'. eng_put eng k v e = Inr e' \<and> R e' (view(k \<mapsto> v))) \<and>
        (\<forall>k. \<exists>e'. eng_delete eng k e = Inr e' \<and> R e' (view(k := None))) \<and>
        (\<forall>ops. \<exists>e'. eng_write eng ops e = Inr e' \<and> R e' (fold apply_op ops view)) \<and>
        (\<exists>e'. eng_sync_wal eng e = Inr e' \<and> R e' view) \<and>
        (\<forall>q. \<exists>c bs. eng_range_query eng e q = Inr c \<and> cursor_batches (eng_next_batch eng) c bs \<and>
           concat bs = query_records view q \<and>
           (q_projection q = KeyValue \<longrightarrow> eng_scan_ref eng c =
              ((case q_order q of Asc \<Rightarrow> id | Desc \<Rightarrow> rev) (scan_spec view (in_query q)), None))) \<and>
        (\<forall>ks. eng_multi_get eng e ks = Inr (map view ks)))"

lemma contract_facts:
  assumes "engine_contract eng R" "R e view"
  shows "finite (dom view)" "eng_get eng e k = Inr (view k)"
    "\<exists>e'. eng_write eng ops e = Inr e' \<and> R e' (fold apply_op ops view)"
    "\<exists>e'. eng_sync_wal eng e = Inr e' \<and> R e' view"
    "\<exists>c. eng_range_query eng e q = Inr c \<and> (q_projection q = KeyValue \<longrightarrow> eng_scan_ref eng c =
       ((case q_order q of Asc \<Rightarrow> id | Desc \<Rightarrow> rev) (scan_spec view (in_query q)), None))"
    "eng_multi_get eng e ks = Inr (map view ks)"
  using assms unfolding engine_contract_def by blast+

lemma res_bind_assoc: "res_bind (res_bind r f) g = res_bind r (\<lambda>x. res_bind (f x) g)"
  by (cases r) simp_all

section \<open>The loops end\<close>

text \<open>What the loop computes from the batches.\<close>

fun over_batches ::
    "(kv_record list \<Rightarrow> 'a \<Rightarrow> 'a res) \<Rightarrow> ('a \<Rightarrow> bool) \<Rightarrow> kv_record list list \<Rightarrow> 'a \<Rightarrow> 'a res" where
  "over_batches step full [] acc = Inr acc"
| "over_batches step full (rs # bs) acc =
     res_bind (step rs acc) (\<lambda>acc1. if full acc1 then Inr acc1 else over_batches step full bs acc1)"

lemma batch_loop_ends:
  "cursor_batches next c bs \<Longrightarrow> batch_loop next step full c acc = Some (over_batches step full bs acc)"
proof (induction arbitrary: acc rule: cursor_batches.induct)
  case (last_batch c rs c1)
  then show ?case by (subst batch_loop.simps) (simp split: sum.splits)
next
  case (more_batches c rs c1 bs)
  then show ?case by (subst batch_loop.simps) (simp split: sum.splits)
qed

lemma run_query_ends:
  assumes "engine_contract eng R" "R e view"
    and "\<And>bs. concat bs = query_records view q \<Longrightarrow> over_batches step full bs acc = r"
  shows "run_query eng e q step full acc = Some r"
proof -
  obtain c bs where "eng_range_query eng e q = Inr c" "cursor_batches (eng_next_batch eng) c bs"
    "concat bs = query_records view q"
    using assms(1,2) unfolding engine_contract_def by blast
  then show ?thesis by (auto simp: run_query_def batch_loop_ends assms(3))
qed

text \<open>A step that goes over the records one by one does not depend on the batches.\<close>

lemma over_batches_steps:
  assumes "\<And>rs rs' acc. step (rs @ rs') acc = res_bind (step rs acc) (step rs')"
    and "\<And>acc. step [] acc = Inr acc"
  shows "over_batches step (\<lambda>_. False) bs acc = step (concat bs) acc"
  by (induction bs arbitrary: acc) (simp_all add: assms cong: res_bind_cong)

lemma push_records_unlimited:
  "push_records keep None rs rows = rows @ List.map_filter keep rs"
  by (induction rs arbitrary: rows) (auto simp: reached_def List.map_filter_simps split: option.splits)

lemma push_records_limited:
  "length rows < n \<Longrightarrow>
     push_records keep (Some n) rs rows = rows @ take (n - length rows) (List.map_filter keep rs)"
proof (induction rs arbitrary: rows)
  case (Cons r rs)
  show ?case
  proof (cases "keep r")
    case None
    then show ?thesis using Cons by (simp add: reached_def List.map_filter_simps)
  next
    case (Some x)
    show ?thesis
    proof (cases "n \<le> length rows + 1")
      case True
      then have "n - length rows = 1" using Cons.prems by simp
      then show ?thesis using Some True by (simp add: reached_def List.map_filter_simps)
    next
      case False
      then have "n - length rows = Suc (n - length (rows @ [x]))" by simp
      then show ?thesis using Some False Cons.IH [of "rows @ [x]"]
        by (simp add: reached_def List.map_filter_simps)
    qed
  qed
qed (simp add: List.map_filter_simps)

lemma over_batches_push:
  assumes "limit \<noteq> Some 0"
  shows "over_batches (\<lambda>rs rows. Inr (push_records keep limit rs rows)) (reached limit) bs [] =
    Inr (take_limit limit (List.map_filter keep (concat bs)))"
proof (cases limit)
  case None
  have "over_batches (\<lambda>rs rows. Inr (push_records keep None rs rows)) (reached None) bs rows =
      Inr (rows @ List.map_filter keep (concat bs))" for rows
    by (induction bs arbitrary: rows) (simp_all add: push_records_unlimited reached_def List.map_filter_def)
  from this [of "[]"] show ?thesis by (simp add: None take_limit_def)
next
  case (Some n)
  have "over_batches (\<lambda>rs rows. Inr (push_records keep (Some n) rs rows)) (reached (Some n)) bs rows =
      Inr (rows @ take (n - length rows) (List.map_filter keep (concat bs)))" if "length rows < n" for rows
    using that
  proof (induction bs arbitrary: rows)
    case (Cons rs bs)
    let ?rows1 = "rows @ take (n - length rows) (List.map_filter keep rs)"
    have app: "List.map_filter keep (rs @ concat bs) = List.map_filter keep rs @ List.map_filter keep (concat bs)"
      by (simp add: List.map_filter_def)
    show ?case
    proof (cases "n \<le> length ?rows1")
      case True
      then have "n - length rows \<le> length (List.map_filter keep rs)" using Cons.prems by simp
      then show ?thesis using True Cons.prems by (simp add: push_records_limited reached_def app)
    next
      case False
      then have short: "length (List.map_filter keep rs) < n - length rows" using Cons.prems by simp
      then show ?thesis using False Cons.prems Cons.IH [of "rows @ List.map_filter keep rs"]
        by (simp add: push_records_limited reached_def app)
    qed
  qed (simp add: List.map_filter_simps)
  from this [of "[]"] show ?thesis using assms Some by (simp add: take_limit_def)
qed

section \<open>Scans of the store\<close>

abbreviation ordered_scan :: "(bytes \<rightharpoonup> bytes) \<Rightarrow> (bytes \<Rightarrow> bool) \<Rightarrow> bool \<Rightarrow> kv_rows" where
  "ordered_scan view inside reverse \<equiv> (if reverse then rev else id) (scan_spec view inside)"

lemma in_limited_query [simp]: "in_query (limited_query start end' limit reverse) = in_bounds start end'"
  by (auto simp: fun_eq_iff in_query_def limited_query_def default_query_def in_bounds_def split: option.splits)

lemma map_filter_key_value:
  "List.map_filter key_value (map (\<lambda>(k, v). (Some k, Some v)) rows) = rows"
  by (induction rows) (auto simp: List.map_filter_simps key_value_def)

lemma query_records_values:
  "q_projection q = KeyValue \<Longrightarrow>
     query_records view q = map (\<lambda>(k, v). (Some k, Some v)) (ordered_scan view (in_query q) (q_order q = Desc))"
  by (cases "q_order q") (simp_all add: query_records_def)

lemma limited_query_simps [simp]:
  "q_projection (limited_query start end' limit reverse) = KeyValue"
  "(q_order (limited_query start end' limit reverse) = Desc) = reverse"
  by (simp_all add: limited_query_def default_query_def order_of_def)

lemma default_query_simps [simp]:
  "q_projection default_query = KeyValue" "q_order default_query = Asc"
  "in_query (default_query\<lparr>q_prefix := Some p\<rparr>) = (\<lambda>k. starts_with k p)"
  "in_query (default_query\<lparr>q_start := Some start, q_end := end'\<rparr>) = in_bounds start end'"
  "in_query (default_query\<lparr>q_start := Some start, q_end := end', q_projection := proj, q_order := ord,
      q_max_records := m\<rparr>) = in_bounds start end'"
  "in_query (default_query\<lparr>q_start := Some start, q_end := end', q_projection := proj, q_max_records := m\<rparr>) =
     in_bounds start end'"
  by (auto simp: default_query_def in_query_def in_bounds_def fun_eq_iff split: option.splits)

lemma store_scan_range_ends:
  assumes "engine_contract eng R" "R e view" "limit \<noteq> Some 0"
  shows "store_scan_range eng e start end' limit reverse =
    Some (Inr (take_limit limit (ordered_scan view (in_bounds start end') reverse)))"
  unfolding store_scan_range_def
  by (rule run_query_ends [OF assms(1,2)])
    (simp add: over_batches_push [OF assms(3)] query_records_values map_filter_key_value)

lemma over_batches_push_all:
  "over_batches (\<lambda>rs rows. Inr (push_records keep None rs rows)) (\<lambda>_. False) bs [] =
     Inr (List.map_filter keep (concat bs))"
  by (subst over_batches_steps) (simp_all add: push_records_unlimited List.map_filter_def)

lemma store_scan_prefix_ends:
  assumes "engine_contract eng R" "R e view"
  shows "store_scan_prefix eng e p = Some (Inr (scan_spec view (\<lambda>k. starts_with k p)))"
  unfolding store_scan_prefix_def
  by (rule run_query_ends [OF assms])
    (simp add: over_batches_push_all query_records_values map_filter_key_value)

lemma store_scan_range_projected_ends:
  assumes "engine_contract eng R" "R e view" "limit \<noteq> Some 0"
  shows "store_scan_range_projected eng e start end' limit reverse proj =
    Some (Inr (take_limit limit (map (\<lambda>(k, v). (k, case proj of KeyOnly \<Rightarrow> None | KeyValue \<Rightarrow> Some v))
      (ordered_scan view (in_bounds start end') reverse))))"
proof -
  have keep: "List.map_filter key_and_maybe_value (map (\<lambda>(k, v). (Some k, f v)) rows) =
      map (\<lambda>(k, v). (k, f v)) rows" for rows and f :: "bytes \<Rightarrow> bytes option"
    by (induction rows) (auto simp: List.map_filter_simps key_and_maybe_value_def)
  show ?thesis
    unfolding store_scan_range_projected_def
    by (rule run_query_ends [OF assms(1,2)])
      (simp add: over_batches_push [OF assms(3)] query_records_def keep order_of_def)
qed

lemma store_count_range_ends:
  assumes "engine_contract eng R" "R e view" "length (scan_spec view (in_bounds start end')) < 2 ^ 64"
  shows "store_count_range eng e start end' = Some (Inr (of_nat (length (scan_spec view (in_bounds start end')))))"
proof -
  have sum: "over_batches (\<lambda>rs n. Inr (saturating_add_u64 n (length rs))) (\<lambda>_. False) bs (of_nat m) =
      Inr (of_nat (m + length (concat bs)))" if "m + length (concat bs) < 2 ^ 64" for bs m
    using that
  proof (induction bs arbitrary: m)
    case (Cons rs bs)
    have "unat (of_nat m :: u64) = m" using Cons.prems by (simp add: unat_of_nat)
    then have "saturating_add_u64 (of_nat m) (length rs) = of_nat (m + length rs)"
      using Cons.prems by (simp add: saturating_add_u64_def)
    then show ?case using Cons.IH [of "m + length rs"] Cons.prems by (simp add: add.assoc)
  qed simp
  show ?thesis
    unfolding store_count_range_def
    by (rule run_query_ends [OF assms(1,2)])
      (use sum [of 0] assms(3) in \<open>simp add: query_records_def\<close>)
qed

text \<open>Visiting a range of the engine meets what visiting the in-memory store meets.\<close>

lemma store_visit_range_like_memory:
  assumes "engine_contract eng R" "R e (mem_get store)" "store_inv store"
  shows "store_visit_range eng e start end' reverse KeyValue visitor s =
    mem_visit_range store start end' reverse KeyValue visitor s"
proof -
  let ?q = "default_query\<lparr>q_start := Some start, q_end := end', q_projection := KeyValue, q_order := order_of reverse,
      q_max_records := Some 65536\<rparr>"
  have "q_projection ?q = KeyValue" by simp
  with contract_facts(5) [OF assms(1,2), of ?q] obtain c where "eng_range_query eng e ?q = Inr c"
    "eng_scan_ref eng c = ((case q_order ?q of Asc \<Rightarrow> id | Desc \<Rightarrow> rev) (scan_spec (mem_get store) (in_query ?q)), None)"
    by blast
  then show ?thesis
    by (simp add: store_visit_range_def mem_visit_range_def mem_scan_range_projected_def order_of_def
        mem_scan_range_spec [OF assms(3)] take_limit_def case_prod_beta)
qed

section \<open>Transactions\<close>

definition pending_view :: "(bytes \<rightharpoonup> bytes) \<Rightarrow> write_buffer \<Rightarrow> (bytes \<rightharpoonup> bytes)" where
  "pending_view view pending = (\<lambda>k. case bt_get pending k of Some v \<Rightarrow> v | None \<Rightarrow> view k)"

lemma insert_records_unlimited:
  "insert_records None rs rows = fold (\<lambda>(k, v). bt_insert k v) (List.map_filter key_value rs) rows"
  by (induction rs arbitrary: rows) (auto simp: reached_def List.map_filter_simps split: option.splits)

lemma over_batches_insert_all:
  "over_batches (\<lambda>rs rows. Inr (insert_records None rs rows)) (reached None) bs [] =
     Inr (fold (\<lambda>(k, v). bt_insert k v) (List.map_filter key_value (concat bs)) [])"
proof -
  have "reached None = (\<lambda>_. False)" by (simp add: fun_eq_iff reached_def)
  then show ?thesis
    by (subst \<open>reached None = (\<lambda>_. False)\<close>, subst over_batches_steps)
      (simp_all add: insert_records_unlimited List.map_filter_def)
qed

text \<open>The records in a map, with the pending writes over them, are the scan of the view.\<close>

lemma overlay_records:
  assumes "finite (dom view)" "bt_inv pending" "set rows = set (scan_spec view inside)" "distinct (map fst rows)"
  shows "fold (overlay_one inside) pending (fold (\<lambda>(k, v). bt_insert k v) rows []) =
    scan_spec (pending_view view pending) inside"
proof (rule scan_spec_unique)
  let ?m = "fold (\<lambda>(k, v). bt_insert k v) rows []"
  let ?out = "fold (overlay_one inside) pending ?m"
  have "bt_inv ?m" by (intro bt.inv_fold_ins bt.inv_empty)
  then have out: "bt_inv ?out" by (rule overlay_fold_inv)
  then show "sorted_wrt (<) (map fst ?out)" by (simp add: bt_inv_def)
  have "map_of (rev rows) k = (if inside k then view k else None)" for k
  proof -
    have "(map_of (rev rows) k = Some v) = (inside k \<and> view k = Some v)" for v
      using assms(3,4) scan_spec_props(2) [OF assms(1), of k v inside] by (simp add: rev_map [symmetric])
    then show ?thesis by (metis option.exhaust option.simps(3))
  qed
  then have "bt_get ?m k = (if inside k then view k else None)" for k
    using bt.get_fold_ins [OF bt.inv_empty, of rows k] by (simp split: option.splits)
  then have "bt_get ?out k = (if inside k then pending_view view pending k else None)" for k
    using overlay_fold_get [OF bt.distinct_keys [OF assms(2)], of inside ?m k]
    by (simp add: pending_view_def split: option.splits)
  then show "((k, v) \<in> set ?out) = (inside k \<and> pending_view view pending k = Some v)" for k v
    using bt.entries_mem [OF out, of k v] by auto
qed

lemma ordered_scan_set:
  assumes "finite (dom view)"
  shows "set (ordered_scan view inside reverse) = set (scan_spec view inside)"
    and "distinct (map fst (ordered_scan view inside reverse))"
proof -
  have "distinct (map fst (scan_spec view inside))"
    using scan_spec_props(1) [OF assms, of inside] by (simp add: strict_sorted_iff)
  then show "distinct (map fst (ordered_scan view inside reverse))" by (simp add: rev_map [symmetric])
qed simp

lemma etxn_scan_range_ends:
  assumes "engine_contract eng R" "R e view" "bt_inv pending"
  shows "etxn_scan_range eng e pending start end' None reverse =
    Some (Inr (ordered_scan (pending_view view pending) (in_bounds start end') reverse))"
proof -
  have fin: "finite (dom view)" by (rule contract_facts [OF assms(1,2)])
  let ?rows = "ordered_scan view (in_bounds start end') reverse"
  have "run_query eng e (limited_query start end' None reverse)
      (\<lambda>rs rows. Inr (insert_records None rs rows)) (reached None) [] =
      Some (Inr (fold (\<lambda>(k, v). bt_insert k v) ?rows []))"
    by (rule run_query_ends [OF assms(1,2)])
      (simp add: over_batches_insert_all query_records_values map_filter_key_value)
  moreover have "fold (overlay_one (in_bounds start end')) pending (fold (\<lambda>(k, v). bt_insert k v) ?rows []) =
      scan_spec (pending_view view pending) (in_bounds start end')"
    by (rule overlay_records [OF fin assms(3) ordered_scan_set [OF fin]])
  ultimately show ?thesis by (simp add: etxn_scan_range_def collect_range_def take_limit_def)
qed

lemma etxn_scan_prefix_ends:
  assumes "engine_contract eng R" "R e view" "bt_inv pending"
  shows "etxn_scan_prefix eng e pending p = Some (Inr (scan_spec (pending_view view pending) (\<lambda>k. starts_with k p)))"
proof -
  have fin: "finite (dom view)" by (rule contract_facts [OF assms(1,2)])
  have none: "reached None = (\<lambda>_. False)" by (simp add: fun_eq_iff reached_def)
  let ?rows = "scan_spec view (\<lambda>k. starts_with k p)"
  have "run_query eng e (default_query\<lparr>q_prefix := Some p\<rparr>)
      (\<lambda>rs rows. Inr (insert_records None rs rows)) (\<lambda>_. False) [] =
      Some (Inr (fold (\<lambda>(k, v). bt_insert k v) ?rows []))"
    by (rule run_query_ends [OF assms(1,2)])
      (simp add: over_batches_insert_all [unfolded none] query_records_values map_filter_key_value)
  moreover have "fold (overlay_one (\<lambda>k. starts_with k p)) pending (fold (\<lambda>(k, v). bt_insert k v) ?rows []) =
      scan_spec (pending_view view pending) (\<lambda>k. starts_with k p)"
    using ordered_scan_set [OF fin, where reverse = False] by (intro overlay_records [OF fin assms(3)]) simp_all
  ultimately show ?thesis by (simp add: etxn_scan_prefix_def)
qed

lemma etxn_get_view:
  assumes "engine_contract eng R" "R e view"
  shows "etxn_get eng e pending k = Inr (pending_view view pending k)"
  using assms by (simp add: etxn_get_def pending_view_def engine_contract_def split: option.splits)

lemma write_ops_view:
  "distinct (map fst pending) \<Longrightarrow> fold apply_op (write_ops pending) view = pending_view view pending"
proof (induction pending arbitrary: view)
  case (Cons entry pending)
  obtain k v where e: "entry = (k, v)" by (cases entry)
  have "bt_get pending k = None" using Cons.prems by (simp add: e bt_get_def map_of_eq_None_iff)
  moreover have "fold apply_op (write_ops pending) view' = pending_view view' pending" for view'
    using Cons by simp
  ultimately show ?case
    by (cases v) (auto simp: e write_ops_def pending_view_def fun_eq_iff split: option.splits)
qed (simp add: write_ops_def pending_view_def bt_get_def)

lemma etxn_commit_view:
  assumes "engine_contract eng R" "R e view" "bt_inv pending"
  shows "\<exists>e'. etxn_commit eng pending e = ([], Inr e') \<and> R e' (pending_view view pending)"
proof (cases "pending = []")
  case True
  then show ?thesis using assms(2) by (simp add: etxn_commit_def pending_view_def bt_get_def)
next
  case False
  have "distinct (map fst pending)" by (rule bt.distinct_keys [OF assms(3)])
  then show ?thesis using contract_facts(3) [OF assms(1,2), of "write_ops pending"] False
    by (simp add: etxn_commit_def write_ops_view)
qed

text \<open>The transaction of the in-memory store over the same entries sees the same.\<close>

lemma engine_txn_like_memory:
  assumes "engine_contract eng R" "R e (mem_get store)" "store_inv store" "txn_inv t"
  shows "etxn_scan_range eng e (txn_pending t) start end' None reverse =
      Some (Inr (txn_scan_range store t start end' None reverse))"
    and "etxn_scan_prefix eng e (txn_pending t) p = Some (Inr (txn_scan_prefix store t p))"
    and "etxn_get eng e (txn_pending t) k = Inr (txn_get store t k)"
    and "\<exists>e'. etxn_commit eng (txn_pending t) e = ([], Inr e') \<and> R e' (mem_get (txn_commit t store))"
proof -
  have inv: "bt_inv (txn_pending t)" using assms(4) by (simp add: txn_inv_def)
  have view: "pending_view (mem_get store) (txn_pending t) = txn_view store t"
    by (simp add: pending_view_def txn_view_def)
  show "etxn_scan_range eng e (txn_pending t) start end' None reverse =
      Some (Inr (txn_scan_range store t start end' None reverse))"
    using etxn_scan_range_ends [OF assms(1,2) inv]
    by (simp add: view txn_scan_range_def materialize_range_view [OF assms(3,4)] take_limit_def)
  show "etxn_scan_prefix eng e (txn_pending t) p = Some (Inr (txn_scan_prefix store t p))"
    using etxn_scan_prefix_ends [OF assms(1,2) inv]
    by (simp add: view txn_scan_prefix_def materialize_prefix_view [OF assms(3,4)])
  show "etxn_get eng e (txn_pending t) k = Inr (txn_get store t k)"
    using etxn_get_view [OF assms(1,2)] by (simp add: view txn_get_view)
  have "mem_get (txn_commit t store) = txn_view store t"
    using txn_commit_view [OF assms(4)] by (simp add: fun_eq_iff)
  then show "\<exists>e'. etxn_commit eng (txn_pending t) e = ([], Inr e') \<and> R e' (mem_get (txn_commit t store))"
    using etxn_commit_view [OF assms(1,2) inv] by (simp add: view)
qed

section \<open>Rewriting rows\<close>

text \<open>The records that a rewrite replaces.\<close>

definition rewritten :: "table_schema \<Rightarrow> kv_rows \<Rightarrow> kv_rows" where
  "rewritten schema rows =
     List.map_filter (\<lambda>(k, v). case reencode_row_record_fast schema v of
        Inr (Some bs) \<Rightarrow> Some (k, bs) | _ \<Rightarrow> None) rows"

abbreviation puts :: "kv_rows \<Rightarrow> write_op list" where
  "puts rows \<equiv> map (\<lambda>(k, v). WPut k v) rows"

definition rewrite_inv :: "('e \<Rightarrow> (bytes \<rightharpoonup> bytes) \<Rightarrow> bool) \<Rightarrow> (bytes \<rightharpoonup> bytes) \<Rightarrow> kv_rows \<Rightarrow> 'e rewrite_state \<Rightarrow> bool"
where
  "rewrite_inv R view done st =
     (\<exists>flushed. done = flushed @ rw_pending st \<and> R (rw_engine st) (fold apply_op (puts flushed) view))"

lemma flush_inv:
  assumes "engine_contract eng R" "rewrite_inv R view done st"
  shows "\<exists>e. flush_pending eng st = Inr (st\<lparr>rw_engine := e, rw_pending := []\<rparr>) \<and>
    rewrite_inv R view done (st\<lparr>rw_engine := e, rw_pending := []\<rparr>)"
proof -
  obtain flushed where f: "done = flushed @ rw_pending st" "R (rw_engine st) (fold apply_op (puts flushed) view)"
    using assms(2) by (auto simp: rewrite_inv_def)
  then obtain e where "eng_write eng (puts (rw_pending st)) (rw_engine st) = Inr e"
    "R e (fold apply_op (puts (rw_pending st)) (fold apply_op (puts flushed) view))"
    using contract_facts(3) [OF assms(1) f(2)] by blast
  then show ?thesis using f(1) by (auto simp: flush_pending_def rewrite_inv_def)
qed

lemma rewrite_records_inv:
  assumes "engine_contract eng R" "\<forall>(k, v) \<in> set rows. \<exists>o'. reencode_row_record_fast schema v = Inr o'"
    and "rewrite_inv R view done st"
  shows "\<exists>st'. rewrite_records eng schema n (map (\<lambda>(k, v). (Some k, Some v)) rows) st = Inr st' \<and>
    rewrite_inv R view (done @ rewritten schema rows) st' \<and> rw_scanned st' = rw_scanned st + length rows \<and>
    rw_rewritten st' = rw_rewritten st + length (rewritten schema rows)"
  using assms(2,3)
proof (induction rows arbitrary: st "done")
  case (Cons kv rows)
  obtain k v where kv: "kv = (k, v)" by (cases kv)
  obtain enc where enc: "reencode_row_record_fast schema v = Inr enc" using Cons.prems(1) by (auto simp: kv)
  define out where "out = (case enc of Some bs \<Rightarrow> [(k, bs)] | None \<Rightarrow> [])"
  define st2 where "st2 = st\<lparr>rw_scanned := rw_scanned st + 1, rw_pending := rw_pending st @ out,
      rw_rewritten := rw_rewritten st + length out\<rparr>"
  have rw: "rewritten schema (kv # rows) = out @ rewritten schema rows"
    by (simp add: rewritten_def kv enc out_def List.map_filter_simps split: option.splits)
  have inv2: "rewrite_inv R view (done @ out) st2"
    using Cons.prems(2) by (auto simp: rewrite_inv_def st2_def)
  obtain st3 where st3: "(if max 1 n \<le> length (rw_pending st2) then flush_pending eng st2 else Inr st2) = Inr st3"
    "rewrite_inv R view (done @ out) st3" "rw_scanned st3 = rw_scanned st + 1"
    "rw_rewritten st3 = rw_rewritten st + length out"
  proof (cases "max 1 n \<le> length (rw_pending st2)")
    case True
    obtain e where e: "flush_pending eng st2 = Inr (st2\<lparr>rw_engine := e, rw_pending := []\<rparr>)"
      "rewrite_inv R view (done @ out) (st2\<lparr>rw_engine := e, rw_pending := []\<rparr>)"
      using flush_inv [OF assms(1) inv2] by blast
    show thesis
    proof (rule that)
      show "(if max 1 n \<le> length (rw_pending st2) then flush_pending eng st2 else Inr st2) =
          Inr (st2\<lparr>rw_engine := e, rw_pending := []\<rparr>)" using True e(1) by (simp only: if_True)
    qed (rule e(2), simp_all add: st2_def)
  next
    case False
    show thesis
    proof (rule that)
      show "(if max 1 n \<le> length (rw_pending st2) then flush_pending eng st2 else Inr st2) = Inr st2"
        using False by (simp only: if_False)
    qed (rule inv2, simp_all add: st2_def)
  qed
  have step: "rewrite_records eng schema n (map (\<lambda>(k, v). (Some k, Some v)) (kv # rows)) st =
      rewrite_records eng schema n (map (\<lambda>(k, v). (Some k, Some v)) rows) st3"
  proof -
    have "(let st1 = st\<lparr>rw_scanned := rw_scanned st + 1\<rparr>
        in case enc of Some bs \<Rightarrow> st1\<lparr>rw_pending := rw_pending st1 @ [(k, bs)], rw_rewritten := rw_rewritten st1 + 1\<rparr>
           | None \<Rightarrow> st1) = st2"
      by (cases enc; cases st) (simp_all add: st2_def out_def)
    then have "rewrite_records eng schema n (map (\<lambda>(k, v). (Some k, Some v)) (kv # rows)) st =
        res_bind (if max 1 n \<le> length (rw_pending st2) then flush_pending eng st2 else Inr st2)
          (rewrite_records eng schema n (map (\<lambda>(k, v). (Some k, Some v)) rows))"
      by (simp only: kv key_value_def enc Let_def list.map prod.case option.case rewrite_records.simps res_bind.simps)
    then show ?thesis by (simp only: st3(1) res_bind.simps)
  qed
  show ?case
    using Cons.IH [OF _ st3(2)] Cons.prems(1) st3(3,4) unfolding step rw by (auto simp: kv)
qed (simp add: rewritten_def List.map_filter_simps)

lemma rewrite_records_append:
  "rewrite_records eng schema n (rs @ rs') st =
     res_bind (rewrite_records eng schema n rs st) (rewrite_records eng schema n rs')"
  by (induction rs arbitrary: st) (auto simp: Let_def res_bind_assoc split: option.splits intro!: res_bind_cong)

lemma rewrite_table_rows:
  assumes "engine_contract eng R" "R e view" "rows = scan_spec view (in_range (row_range (table_id s) (table_epoch s) None))"
    and "\<forall>(k, v) \<in> set rows. \<exists>o'. reencode_row_record_fast s v = Inr o'"
  shows "\<exists>e'. rewrite_table_rows_to_fast_format eng s n e =
      Some (Inr (e', length rows, length (rewritten s rows))) \<and>
    R e' (fold apply_op (puts (rewritten s rows)) view)"
proof -
  let ?range = "row_range (table_id s) (table_epoch s) None"
  let ?st = "\<lparr>rw_engine = e, rw_scanned = 0, rw_rewritten = 0, rw_pending = []\<rparr>"
  let ?q = "default_query\<lparr>q_start := Some (range_start ?range), q_end := range_end ?range\<rparr>"
  have rows: "scan_spec view (in_bounds (range_start ?range) (range_end ?range)) = rows"
    by (simp add: assms(3) in_range_def [abs_def])
  have "rewrite_inv R view [] ?st" using assms(2) by (simp add: rewrite_inv_def)
  from rewrite_records_inv [OF assms(1,4) this, of n] obtain st' where st':
    "rewrite_records eng s n (map (\<lambda>(k, v). (Some k, Some v)) rows) ?st = Inr st'"
    "rewrite_inv R view (rewritten s rows) st'" "rw_scanned st' = length rows"
    "rw_rewritten st' = length (rewritten s rows)" by auto
  have run: "run_query eng e ?q (rewrite_records eng s n) (\<lambda>_. False) ?st = Some (Inr st')"
    by (rule run_query_ends [OF assms(1,2)])
      (simp add: over_batches_steps rewrite_records_append query_records_values rows st'(1))
  obtain st'' where st'': "(if rw_pending st' \<noteq> [] then flush_pending eng st' else Inr st') = Inr st''"
    "rewrite_inv R view (rewritten s rows) st''" "rw_pending st'' = []"
    "rw_scanned st'' = length rows" "rw_rewritten st'' = length (rewritten s rows)"
    using flush_inv [OF assms(1) st'(2)] st' by (cases "rw_pending st' = []") auto
  then have "R (rw_engine st'') (fold apply_op (puts (rewritten s rows)) view)"
    by (auto simp: rewrite_inv_def)
  from contract_facts(4) [OF assms(1) this] obtain e' where "eng_sync_wal eng (rw_engine st'') = Inr e'"
    "R e' (fold apply_op (puts (rewritten s rows)) view)"
    by blast
  with st'' show ?thesis
    by (simp add: rewrite_table_rows_to_fast_format_def Let_def run finish_rewrite_def)
qed

section \<open>A reference engine\<close>

text \<open>An engine over the map of the in-memory store, handing out \<open>n + 1\<close> records per batch: it shows
  that the contract can hold.\<close>

definition ref_apply :: "write_op \<Rightarrow> hash_map \<Rightarrow> hash_map" where
  "ref_apply op e = (case op of WPut k v \<Rightarrow> mem_put k v e | WDelete k \<Rightarrow> mem_delete k e)"

definition ref_records :: "hash_map \<Rightarrow> range_query \<Rightarrow> kv_record list" where
  "ref_records e q =
     map (\<lambda>(k, v). (Some k, case q_projection q of KeyOnly \<Rightarrow> None | KeyValue \<Rightarrow> Some v))
       ((case q_order q of Asc \<Rightarrow> id | Desc \<Rightarrow> rev) (sort_key fst (filter (\<lambda>(k, _). in_query q k) e)))"

definition ref_engine :: "nat \<Rightarrow> (hash_map, kv_record list) kv_engine" where
  "ref_engine n =
     \<lparr>eng_put = (\<lambda>k v e. Inr (mem_put k v e)), eng_delete = (\<lambda>k e. Inr (mem_delete k e)),
      eng_write = (\<lambda>ops e. Inr (fold ref_apply ops e)), eng_sync_wal = Inr,
      eng_get = (\<lambda>e k. Inr (mem_get e k)), eng_range_query = (\<lambda>e q. Inr (ref_records e q)),
      eng_next_batch = (\<lambda>c. Inr ((take (Suc n) c, length c \<le> Suc n), drop (Suc n) c)),
      eng_scan_ref = (\<lambda>c. (map (\<lambda>(k, v). (the k, case v of Some x \<Rightarrow> x | None \<Rightarrow> [])) c, None)),
      eng_multi_get = (\<lambda>e ks. Inr (map (mem_get e) ks))\<rparr>"

definition ref_holds :: "hash_map \<Rightarrow> (bytes \<rightharpoonup> bytes) \<Rightarrow> bool" where
  "ref_holds e view = (store_inv e \<and> view = mem_get e)"

lemma ref_batches: "\<exists>bs. cursor_batches (eng_next_batch (ref_engine n)) c bs \<and> concat bs = c"
proof (induction c rule: length_induct)
  case (1 c)
  show ?case
  proof (cases "length c \<le> Suc n")
    case True
    then have "cursor_batches (eng_next_batch (ref_engine n)) c [take (Suc n) c]"
      by (intro last_batch [where ?c1.0 = "drop (Suc n) c"]) (simp add: ref_engine_def)
    then show ?thesis using True by (intro exI [of _ "[take (Suc n) c]"]) simp
  next
    case False
    then obtain bs where "cursor_batches (eng_next_batch (ref_engine n)) (drop (Suc n) c) bs"
      "concat bs = drop (Suc n) c" using 1 by (metis diff_less length_drop length_greater_0_conv list.size(3) zero_le zero_less_Suc)
    moreover from this have "cursor_batches (eng_next_batch (ref_engine n)) c (take (Suc n) c # bs)"
      using False by (intro more_batches [where ?c1.0 = "drop (Suc n) c"]) (simp_all add: ref_engine_def)
    ultimately show ?thesis by (intro exI [of _ "take (Suc n) c # bs"]) simp
  qed
qed

lemma ref_apply_view:
  "store_inv e \<Longrightarrow> store_inv (ref_apply op e) \<and> mem_get (ref_apply op e) = apply_op op (mem_get e)"
  by (cases op) (auto simp: ref_apply_def store_inv_put store_inv_delete mem_get_put mem_get_delete fun_eq_iff)

lemma ref_fold_view:
  "store_inv e \<Longrightarrow> store_inv (fold ref_apply ops e) \<and> mem_get (fold ref_apply ops e) = fold apply_op ops (mem_get e)"
  by (induction ops arbitrary: e) (simp_all add: ref_apply_view)

lemma ref_engine_contract: "engine_contract (ref_engine n) ref_holds"
  unfolding engine_contract_def
proof (intro allI impI conjI, goal_cases)
  case (1 e view)
  then show ?case by (simp add: ref_holds_def mem.finite_view)
next
  case (7 e view q)
  then have rs: "ref_records e q = query_records view q"
    by (simp add: ref_holds_def ref_records_def query_records_def sorted_filter_spec)
  obtain bs where "cursor_batches (eng_next_batch (ref_engine n)) (ref_records e q) bs"
    "concat bs = ref_records e q" using ref_batches by blast
  moreover have "eng_range_query (ref_engine n) e q = Inr (ref_records e q)" by (simp add: ref_engine_def)
  moreover have "eng_scan_ref (ref_engine n) (ref_records e q) =
      ((case q_order q of Asc \<Rightarrow> id | Desc \<Rightarrow> rev) (scan_spec view (in_query q)), None)" if "q_projection q = KeyValue"
    unfolding rs by (simp add: ref_engine_def query_records_def that comp_def case_prod_beta)
  ultimately show ?case using rs by auto
qed (auto simp: ref_holds_def ref_engine_def store_inv_put store_inv_delete mem_get_put mem_get_delete
    ref_fold_view)

end
