(* ===== verification/Store_Ops.thy ===== *)
theory Store_Ops
  imports Engine_Store
begin

text \<open>
  The interface the components above the store are written against: the trait \<open>KvStore\<close>
  (\<open>mem_store.rs\<close>) as a record of operations, programs over it, and what such a program computes.

  A program maps the state of the store to its result and the state it leaves; \<open>None\<close> when it does
  not return. A program that fails keeps the writes it has made, as the code does. Under the
  contract of the locale \<open>kv_implementation\<close> a program is understood through the view of the store,
  the map from keys to values: \<open>computes\<close> says what it returns and which view it leaves, from every
  state with the given view.
\<close>

section \<open>Programs\<close>

type_synonym ('s, 'a) prog = "'s \<Rightarrow> ('a res \<times> 's) option"

definition st_return :: "'a \<Rightarrow> ('s, 'a) prog" where
  "st_return x s = Some (Inr x, s)"

definition st_raise :: "pg_error \<Rightarrow> ('s, 'a) prog" where
  "st_raise e s = Some (Inl e, s)"

text \<open>A result computed without the store.\<close>

definition st_lift :: "'a res \<Rightarrow> ('s, 'a) prog" where
  "st_lift r s = Some (r, s)"

definition st_bind :: "('s, 'a) prog \<Rightarrow> ('a \<Rightarrow> ('s, 'b) prog) \<Rightarrow> ('s, 'b) prog" where
  "st_bind m f s =
     (case m s of
        None \<Rightarrow> None
      | Some (Inl e, s') \<Rightarrow> Some (Inl e, s')
      | Some (Inr x, s') \<Rightarrow> f x s')"

definition st_seq :: "('s, unit) prog \<Rightarrow> ('s, 'b) prog \<Rightarrow> ('s, 'b) prog" where
  "st_seq m m' = st_bind m (\<lambda>_. m')"

text \<open>\<open>map_err(|e| user_error("XX000", e))\<close>: the store reports a text, the caller gives it a code.\<close>

definition xx000 :: "pg_error \<Rightarrow> pg_error" where
  "xx000 e = user_error ''XX000'' (message e)"

definition st_catch :: "('s, 'a) prog \<Rightarrow> ('s, 'a) prog" where
  "st_catch m s =
     (case m s of
        None \<Rightarrow> None
      | Some (Inl e, s') \<Rightarrow> Some (Inl (xx000 e), s')
      | Some (Inr x, s') \<Rightarrow> Some (Inr x, s'))"

text \<open>A loop over a list, and one that collects.\<close>

fun st_each :: "('a \<Rightarrow> ('s, unit) prog) \<Rightarrow> 'a list \<Rightarrow> ('s, unit) prog" where
  "st_each f [] = st_return ()"
| "st_each f (x # xs) = st_seq (f x) (st_each f xs)"

fun st_collect :: "('a \<Rightarrow> ('s, 'b) prog) \<Rightarrow> 'a list \<Rightarrow> ('s, 'b list) prog" where
  "st_collect f [] = st_return []"
| "st_collect f (x # xs) = st_bind (f x) (\<lambda>y. st_bind (st_collect f xs) (\<lambda>ys. st_return (y # ys)))"

lemma st_bind_cong [fundef_cong]:
  "m s = m' s \<Longrightarrow> (\<And>x s'. m' s = Some (Inr x, s') \<Longrightarrow> f x s' = g x s') \<Longrightarrow> st_bind m f s = st_bind m' g s"
  by (auto simp: st_bind_def split: option.splits sum.splits)

section \<open>The operations of a store\<close>

record 's kv_ops =
  kv_get :: "bytes \<Rightarrow> ('s, bytes option) prog"
  kv_put :: "bytes \<Rightarrow> bytes \<Rightarrow> ('s, unit) prog"
  kv_delete :: "bytes \<Rightarrow> ('s, unit) prog"
  kv_put_batch :: "kv_rows \<Rightarrow> ('s, unit) prog"
  kv_scan_prefix :: "bytes \<Rightarrow> ('s, kv_rows) prog"
  kv_scan_range :: "bytes \<Rightarrow> bytes option \<Rightarrow> nat option \<Rightarrow> bool \<Rightarrow> ('s, kv_rows) prog"

definition mem_ops :: "hash_map kv_ops" where
  "mem_ops =
     \<lparr>kv_get = (\<lambda>k s. Some (Inr (mem_get s k), s)),
      kv_put = (\<lambda>k v s. Some (Inr (), mem_put k v s)),
      kv_delete = (\<lambda>k s. Some (Inr (), mem_delete k s)),
      kv_put_batch = (\<lambda>es s. Some (Inr (), mem_put_batch es s)),
      kv_scan_prefix = (\<lambda>p s. Some (Inr (mem_scan_prefix s p), s)),
      kv_scan_range = (\<lambda>a b limit reverse s. Some (Inr (mem_scan_range s a b limit reverse), s))\<rparr>"

text \<open>A write that fails leaves the state the engine had.\<close>

definition wrote :: "'e res \<Rightarrow> 'e \<Rightarrow> (unit res \<times> 'e) option" where
  "wrote r e = (case r of Inl err \<Rightarrow> Some (Inl err, e) | Inr e' \<Rightarrow> Some (Inr (), e'))"

definition engine_ops :: "('e, 'c) kv_engine \<Rightarrow> 'e kv_ops" where
  "engine_ops eng =
     \<lparr>kv_get = (\<lambda>k e. Some (store_get eng e k, e)),
      kv_put = (\<lambda>k v e. wrote (store_put eng k v e) e),
      kv_delete = (\<lambda>k e. wrote (store_delete eng k e) e),
      kv_put_batch = (\<lambda>es e. wrote (store_put_batch eng es e) e),
      kv_scan_prefix = (\<lambda>p e. map_option (\<lambda>r. (r, e)) (store_scan_prefix eng e p)),
      kv_scan_range = (\<lambda>a b limit reverse e.
        map_option (\<lambda>r. (r, e)) (store_scan_range eng e a b limit reverse))\<rparr>"

section \<open>What a program computes\<close>

text \<open>From every state that shows the view \<open>w\<close>, the program returns \<open>r\<close> in a state that shows
  \<open>w'\<close>.\<close>

definition computes ::
    "('s \<Rightarrow> 'v \<Rightarrow> bool) \<Rightarrow> ('s, 'a) prog \<Rightarrow> 'v \<Rightarrow> 'a res \<Rightarrow> 'v \<Rightarrow> bool" where
  "computes R m w r w' = (\<forall>s. R s w \<longrightarrow> (\<exists>s'. m s = Some (r, s') \<and> R s' w'))"

named_theorems computes_intros \<open>rules that run a program on the view\<close>

lemma computes_return [computes_intros]: "computes R (st_return x) w (Inr x) w"
  by (simp add: computes_def st_return_def)

lemma computes_raise [computes_intros]: "computes R (st_raise e) w (Inl e) w"
  by (simp add: computes_def st_raise_def)

lemma computes_lift [computes_intros]: "computes R (st_lift r) w r w"
  by (simp add: computes_def st_lift_def)

lemma computes_lift_eq: "r = r' \<Longrightarrow> computes R (st_lift r) w r' w"
  by (simp add: computes_lift)

lemma computes_bind:
  "computes R m w (Inr x) w1 \<Longrightarrow> computes R (f x) w1 r w2 \<Longrightarrow> computes R (st_bind m f) w r w2"
  by (fastforce simp: computes_def st_bind_def)

lemma computes_bind_error: "computes R m w (Inl e) w1 \<Longrightarrow> computes R (st_bind m f) w (Inl e) w1"
  by (fastforce simp: computes_def st_bind_def)

lemma computes_seq: "computes R m w (Inr ()) w1 \<Longrightarrow> computes R m' w1 r w2 \<Longrightarrow> computes R (st_seq m m') w r w2"
  unfolding st_seq_def by (rule computes_bind)

lemma computes_catch: "computes R m w (Inr x) w1 \<Longrightarrow> computes R (st_catch m) w (Inr x) w1"
  by (fastforce simp: computes_def st_catch_def)

lemma computes_unique:
  "computes R m w r w1 \<Longrightarrow> R s w \<Longrightarrow> m s = Some (r', s') \<Longrightarrow> r' = r \<and> R s' w1"
  by (fastforce simp: computes_def)

lemma computes_each:
  "(\<And>x w. x \<in> set xs \<Longrightarrow> computes R (f x) w (Inr ()) (g x w)) \<Longrightarrow> computes R (st_each f xs) w (Inr ()) (fold g xs w)"
proof (induction xs arbitrary: w)
  case Nil
  show ?case by (simp add: computes_return)
next
  case (Cons x xs)
  then show ?case by (auto intro: computes_seq)
qed

lemma computes_collect:
  "(\<And>x. x \<in> set xs \<Longrightarrow> computes R (f x) w (Inr (g x)) w) \<Longrightarrow> computes R (st_collect f xs) w (Inr (map g xs)) w"
  by (induction xs) (auto intro!: computes_bind computes_return)

text \<open>The contract of a store.\<close>

locale kv_implementation =
  fixes ops :: "'s kv_ops" and R :: "'s \<Rightarrow> (bytes \<rightharpoonup> bytes) \<Rightarrow> bool"
  assumes finite_view: "R s w \<Longrightarrow> finite (dom w)"
    and get: "computes R (kv_get ops k) w (Inr (w k)) w"
    and put: "computes R (kv_put ops k v) w (Inr ()) (w(k \<mapsto> v))"
    and delete: "computes R (kv_delete ops k) w (Inr ()) (w(k := None))"
    and put_batch: "computes R (kv_put_batch ops es) w (Inr ()) (fold (\<lambda>(k, v) w. w(k \<mapsto> v)) es w)"
    and scan_prefix: "computes R (kv_scan_prefix ops p) w (Inr (scan_spec w (\<lambda>k. starts_with k p))) w"
    and scan_range: "limit \<noteq> Some 0 \<Longrightarrow> computes R (kv_scan_range ops a b limit reverse) w
       (Inr (take_limit limit ((if reverse then rev else id) (scan_spec w (in_bounds a b))))) w"
begin

lemmas store_calls = computes_catch [OF get] computes_catch [OF put] computes_catch [OF delete]
  computes_catch [OF put_batch] computes_catch [OF scan_prefix] computes_catch [OF scan_range]

end

text \<open>The in-memory store fulfils it, and so does the adapter over every engine that fulfils its own
  contract.\<close>

lemma mem_get_put_batch: "mem_get (mem_put_batch es s) = fold (\<lambda>(k, v) w. w(k \<mapsto> v)) es (mem_get s)"
proof (induction es arbitrary: s)
  case (Cons e es)
  have "mem_put_batch (e # es) s = mem_put_batch es (mem_put (fst e) (snd e) s)"
    by (simp add: mem_put_batch_def mem_put_def case_prod_beta)
  then show ?case using Cons by (simp add: mem_get_put case_prod_beta)
qed (simp add: mem_put_batch_def)

lemma store_inv_put_batch: "store_inv s \<Longrightarrow> store_inv (mem_put_batch es s)"
proof (induction es arbitrary: s)
  case (Cons e es)
  then show ?case using store_inv_put [of s "fst e" "snd e"] by (simp add: mem_put_batch_def mem_put_def case_prod_beta)
qed (simp add: mem_put_batch_def)

interpretation mem_store: kv_implementation mem_ops ref_holds
proof (unfold_locales, goal_cases)
  case (1 s w)
  moreover have "mem_get s = map_of s" by (simp add: fun_eq_iff mem_get_def)
  ultimately show ?case by (simp add: ref_holds_def finite_dom_map_of)
next
  case (6 p w)
  then show ?case
    using sorted_filter_spec [of _ "\<lambda>k. starts_with k p"] by (simp add: computes_def mem_ops_def ref_holds_def mem_scan_prefix_def)
qed (auto simp: computes_def mem_ops_def ref_holds_def store_inv_put store_inv_delete mem_get_put mem_get_delete
      mem_get_put_batch store_inv_put_batch mem_scan_range_spec)

lemma computes_wrote:
  "(\<And>e. R e w \<Longrightarrow> \<exists>e'. f e = Inr e' \<and> R e' w') \<Longrightarrow> computes R (\<lambda>e. wrote (f e) e) w (Inr ()) w'"
  by (fastforce simp: computes_def wrote_def)

locale engine_store =
  fixes eng :: "('e, 'c) kv_engine" and R :: "'e \<Rightarrow> (bytes \<rightharpoonup> bytes) \<Rightarrow> bool"
  assumes contract: "engine_contract eng R"
begin

lemma writes:
  assumes "R e w"
  shows "\<exists>e'. store_put eng k v e = Inr e' \<and> R e' (w(k \<mapsto> v))" "\<exists>e'. store_delete eng k e = Inr e' \<and> R e' (w(k := None))"
  using contract assms unfolding engine_contract_def store_put_def store_delete_def by blast+

lemma batch_view: "fold apply_op (map (\<lambda>(k, v). WPut k v) es) w = fold (\<lambda>(k, v) w. w(k \<mapsto> v)) es w"
  by (induction es arbitrary: w) auto

end

sublocale engine_store \<subseteq> kv_implementation "engine_ops eng" R
proof (unfold_locales, goal_cases)
  case (1 s w)
  then show ?case using contract_facts(1) [OF contract] by blast
next
  case (2 k w)
  then show ?case using contract_facts(2) [OF contract] by (simp add: computes_def engine_ops_def store_get_def)
next
  case (3 k v w)
  show ?case unfolding engine_ops_def kv_ops.simps by (rule computes_wrote) (rule writes(1))
next
  case (4 k w)
  show ?case unfolding engine_ops_def kv_ops.simps by (rule computes_wrote) (rule writes(2))
next
  case (5 es w)
  show ?case unfolding engine_ops_def kv_ops.simps store_put_batch_def
    by (rule computes_wrote) (rule contract_facts(3) [OF contract, where ops = "map (\<lambda>(k, v). WPut k v) es", unfolded batch_view])
next
  case (6 p w)
  then show ?case using store_scan_prefix_ends [OF contract] by (simp add: computes_def engine_ops_def)
next
  case (7 limit a b reverse w)
  then show ?case using store_scan_range_ends [OF contract]
    by (simp add: computes_def engine_ops_def)
qed

interpretation ref_store: engine_store "ref_engine n" ref_holds for n
  by unfold_locales (rule ref_engine_contract)

end
