(* ===== verification/Catalog_Store.thy ===== *)
theory Catalog_Store
  imports Catalog_Codec Store_Ops
begin

text \<open>
  The catalog of databases, schemas, tables, indexes and views over a key-value store
  (\<open>catalog/store.rs\<close>, \<open>catalog/legacy.rs\<close>, \<open>mode.rs\<close>). Every operation is a program over the
  operations of the store; it starts by creating the default database when there is none, as each
  method of \<open>CatalogStore\<close> does.
\<close>

section \<open>The mode of the gateway\<close>

datatype gateway_mode = Postgres | MySql

fun mode_as_str :: "gateway_mode \<Rightarrow> string" where
  "mode_as_str Postgres = ''postgres''"
| "mode_as_str MySql = ''mysql''"

definition parse_mode :: "string \<Rightarrow> gateway_mode option" where
  "parse_mode s =
     (let v = to_ascii_lowercase (trim s)
      in if v \<in> {''postgres'', ''postgresql'', ''pg''} then Some Postgres
         else if v \<in> {''mysql'', ''my''} then Some MySql else None)"

section \<open>Calls to the store\<close>

definition cat_get :: "'s kv_ops \<Rightarrow> string \<Rightarrow> ('s, bytes option) prog" where
  "cat_get ops key = st_catch (kv_get ops (as_bytes key))"

definition cat_put :: "'s kv_ops \<Rightarrow> string \<Rightarrow> bytes \<Rightarrow> ('s, unit) prog" where
  "cat_put ops key v = st_catch (kv_put ops (as_bytes key) v)"

definition cat_delete :: "'s kv_ops \<Rightarrow> string \<Rightarrow> ('s, unit) prog" where
  "cat_delete ops key = st_catch (kv_delete ops (as_bytes key))"

definition cat_scan :: "'s kv_ops \<Rightarrow> string \<Rightarrow> ('s, kv_rows) prog" where
  "cat_scan ops p = st_catch (kv_scan_prefix ops (as_bytes p))"

definition NEXT_DATABASE_ID_KEY :: string where "NEXT_DATABASE_ID_KEY = ''__catalog__/next_database_id''"
definition NEXT_SCHEMA_ID_KEY :: string where "NEXT_SCHEMA_ID_KEY = ''__catalog__/next_schema_id''"
definition NEXT_TABLE_ID_KEY :: string where "NEXT_TABLE_ID_KEY = ''__catalog__/next_table_id''"
definition NEXT_INDEX_ID_KEY :: string where "NEXT_INDEX_ID_KEY = ''__catalog__/next_index_id''"
definition NEXT_VIEW_ID_KEY :: string where "NEXT_VIEW_ID_KEY = ''__catalog__/next_view_id''"
definition COMPAT_MODE_KEY :: string where "COMPAT_MODE_KEY = ''__catalog__/compat_mode''"

lemmas counter_keys = NEXT_DATABASE_ID_KEY_def NEXT_SCHEMA_ID_KEY_def NEXT_TABLE_ID_KEY_def NEXT_INDEX_ID_KEY_def
  NEXT_VIEW_ID_KEY_def COMPAT_MODE_KEY_def

text \<open>\<open>legacy.rs\<close>: the id is the number stored, or 1 when there is none; the increment wraps.\<close>

definition stored_id :: "bytes option \<Rightarrow> u32" where
  "stored_id cur = (case cur of Some bs \<Rightarrow> if length bs = 4 then from_be_bytes bs else 1 | None \<Rightarrow> 1)"

definition allocate_id :: "'s kv_ops \<Rightarrow> string \<Rightarrow> ('s, u32) prog" where
  "allocate_id ops key =
     st_bind (cat_get ops key) (\<lambda>cur.
       let i = stored_id cur in st_seq (cat_put ops key (to_be_bytes (i + 1))) (st_return i))"

definition decode_u32 :: "bytes \<Rightarrow> string \<Rightarrow> u32 res" where
  "decode_u32 bs field = (if length bs \<noteq> 4 then malformed field else Inr (from_be_bytes bs))"

definition write_database_inner :: "json_lib \<Rightarrow> 's kv_ops \<Rightarrow> database_catalog \<Rightarrow> ('s, unit) prog" where
  "write_database_inner lib ops d =
     st_bind (st_lift (encode_database_catalog lib d)) (\<lambda>payload.
     st_seq (cat_put ops (database_by_id_key (dc_id d)) payload)
       (cat_put ops (database_by_name_key (dc_name d)) (to_be_bytes (dc_id d))))"

definition write_schema_inner :: "json_lib \<Rightarrow> 's kv_ops \<Rightarrow> schema_catalog \<Rightarrow> ('s, unit) prog" where
  "write_schema_inner lib ops s =
     st_bind (st_lift (encode_schema_catalog lib s)) (\<lambda>payload.
     st_seq (cat_put ops (schema_by_id_key (sc_id s)) payload)
       (cat_put ops (schema_by_name_key (sc_database_id s) (sc_name s)) (to_be_bytes (sc_id s))))"

definition write_index :: "json_lib \<Rightarrow> 's kv_ops \<Rightarrow> index_catalog \<Rightarrow> ('s, unit) prog" where
  "write_index lib ops x =
     st_bind (st_lift (encode_index_catalog lib x)) (\<lambda>payload.
     st_seq (cat_put ops (index_by_id_key (ix_id x)) payload)
     (st_seq (cat_put ops (index_by_name_key (ix_database_id x) (ix_schema_id x) (ix_name x)) (to_be_bytes (ix_id x)))
       (cat_put ops (index_by_table_key (ix_table_id x) (ix_id x)) (to_be_bytes (ix_id x)))))"

definition write_view :: "json_lib \<Rightarrow> 's kv_ops \<Rightarrow> view_catalog \<Rightarrow> ('s, unit) prog" where
  "write_view lib ops v =
     st_bind (st_lift (encode_view_catalog lib v)) (\<lambda>payload.
     st_seq (cat_put ops (view_by_id_key (vc_id v)) payload)
       (cat_put ops (view_by_name_key (vc_database_id v) (vc_schema_id v) (vc_name v)) (to_be_bytes (vc_id v))))"

definition drop_index_by_id :: "'s kv_ops \<Rightarrow> index_catalog \<Rightarrow> ('s, unit) prog" where
  "drop_index_by_id ops x =
     st_seq (cat_delete ops (index_by_id_key (ix_id x)))
     (st_seq (cat_delete ops (index_by_name_key (ix_database_id x) (ix_schema_id x) (ix_name x)))
       (cat_delete ops (index_by_table_key (ix_table_id x) (ix_id x))))"

section \<open>Bootstrap and mode\<close>

definition default_database :: database_catalog where
  "default_database = \<lparr>dc_id = 1, dc_name = DEFAULT_DATABASE_NAME\<rparr>"

definition default_schema :: schema_catalog where
  "default_schema = \<lparr>sc_id = 1, sc_database_id = 1, sc_name = DEFAULT_SCHEMA_NAME\<rparr>"

definition ensure_bootstrap :: "json_lib \<Rightarrow> 's kv_ops \<Rightarrow> ('s, unit) prog" where
  "ensure_bootstrap lib ops =
     st_bind (cat_get ops (database_by_name_key DEFAULT_DATABASE_NAME)) (\<lambda>found.
       if found \<noteq> None then st_return ()
       else st_seq (cat_put ops NEXT_DATABASE_ID_KEY (to_be_bytes (2 :: u32)))
        (st_seq (cat_put ops NEXT_SCHEMA_ID_KEY (to_be_bytes (2 :: u32)))
        (st_seq (cat_put ops NEXT_TABLE_ID_KEY (to_be_bytes (1 :: u32)))
        (st_seq (cat_put ops NEXT_INDEX_ID_KEY (to_be_bytes (1 :: u32)))
        (st_seq (cat_put ops NEXT_VIEW_ID_KEY (to_be_bytes (1 :: u32)))
        (st_seq (write_database_inner lib ops default_database)
          (write_schema_inner lib ops default_schema)))))))"

definition compat_mode :: "'s kv_ops \<Rightarrow> ('s, gateway_mode option) prog" where
  "compat_mode ops =
     st_bind (cat_get ops COMPAT_MODE_KEY) (\<lambda>found.
       case found of
         None \<Rightarrow> st_return None
       | Some bs \<Rightarrow>
           st_bind (st_lift (from_utf8 ''catalog compat mode is malformed'' bs)) (\<lambda>s.
             case parse_mode s of
               Some m \<Rightarrow> st_return (Some m)
             | None \<Rightarrow> st_raise (user_error ''XX000'' (''catalog compat mode '' @ [CHR 0x27] @ s @ [CHR 0x27] @ '' is not supported''))))"

definition ensure_bootstrap_for_mode :: "json_lib \<Rightarrow> 's kv_ops \<Rightarrow> gateway_mode \<Rightarrow> ('s, unit) prog" where
  "ensure_bootstrap_for_mode lib ops mode =
     st_seq (ensure_bootstrap lib ops)
     (st_bind (compat_mode ops) (\<lambda>found.
       case found of
         Some existing \<Rightarrow>
           if existing = mode then st_return ()
           else st_raise (user_error ''XX000'' (''catalog was created in '' @ mode_as_str existing
             @ '' mode and cannot be opened in '' @ mode_as_str mode @ '' mode''))
       | None \<Rightarrow> cat_put ops COMPAT_MODE_KEY (as_bytes (mode_as_str mode))))"

section \<open>Databases and schemas\<close>

definition payload_missing :: "string \<Rightarrow> ('s, 'a) prog" where
  "payload_missing what = st_raise (user_error ''XX000'' (''catalog '' @ what @ '' payload missing''))"

text \<open>An id under a name, then the payload under the id.\<close>

definition by_name ::
    "'s kv_ops \<Rightarrow> string \<Rightarrow> string \<Rightarrow> (u32 \<Rightarrow> string) \<Rightarrow> (bytes \<Rightarrow> 'o res) \<Rightarrow> bytes option \<Rightarrow> ('s, 'o option) prog \<Rightarrow> ('s, 'o option) prog" where
  "by_name ops what field id_key dec found absent =
     (case found of
        None \<Rightarrow> absent
      | Some id_bytes \<Rightarrow>
          st_bind (st_lift (decode_u32 id_bytes field)) (\<lambda>i.
          st_bind (cat_get ops (id_key i)) (\<lambda>p.
            case p of
              None \<Rightarrow> payload_missing what
            | Some payload \<Rightarrow> st_bind (st_lift (dec payload)) (\<lambda>x. st_return (Some x)))))"

definition get_database :: "json_lib \<Rightarrow> 's kv_ops \<Rightarrow> string \<Rightarrow> ('s, database_catalog option) prog" where
  "get_database lib ops n =
     st_seq (ensure_bootstrap lib ops)
     (st_bind (cat_get ops (database_by_name_key n)) (\<lambda>found.
       by_name ops ''database'' ''database id'' database_by_id_key (decode_database_catalog lib) found (st_return None)))"

definition create_database :: "json_lib \<Rightarrow> 's kv_ops \<Rightarrow> string \<Rightarrow> bool \<Rightarrow> ('s, database_catalog) prog" where
  "create_database lib ops n if_not_exists =
     st_seq (ensure_bootstrap lib ops)
     (st_bind (get_database lib ops n) (\<lambda>found.
       case found of
         Some existing \<Rightarrow>
           if if_not_exists then st_return existing
           else st_raise (user_error ''42P04'' (''database '' @ [CHR 0x27] @ n @ [CHR 0x27] @ '' already exists''))
       | None \<Rightarrow>
           st_bind (allocate_id ops NEXT_DATABASE_ID_KEY) (\<lambda>i.
           let d = \<lparr>dc_id = i, dc_name = n\<rparr> in
           st_seq (write_database_inner lib ops d)
           (st_bind (allocate_id ops NEXT_SCHEMA_ID_KEY) (\<lambda>j.
           st_seq (write_schema_inner lib ops \<lparr>sc_id = j, sc_database_id = i, sc_name = DEFAULT_SCHEMA_NAME\<rparr>)
             (st_return d))))))"

definition get_schema :: "json_lib \<Rightarrow> 's kv_ops \<Rightarrow> u32 \<Rightarrow> string \<Rightarrow> ('s, schema_catalog option) prog" where
  "get_schema lib ops d n =
     st_seq (ensure_bootstrap lib ops)
     (st_bind (cat_get ops (schema_by_name_key d n)) (\<lambda>found.
       by_name ops ''schema'' ''schema id'' schema_by_id_key (decode_schema_catalog lib) found (st_return None)))"

definition quoted :: "string \<Rightarrow> string \<Rightarrow> string \<Rightarrow> string" where
  "quoted before name after = before @ [CHR 0x27] @ name @ [CHR 0x27] @ after"

definition no_database :: "string \<Rightarrow> pg_error" where
  "no_database n = user_error ''3D000'' (quoted ''database '' n '' does not exist'')"

definition no_schema :: "string \<Rightarrow> pg_error" where
  "no_schema n = user_error ''3F000'' (quoted ''schema '' n '' does not exist'')"

definition no_table :: "string \<Rightarrow> pg_error" where
  "no_table n = user_error ''42P01'' (quoted ''table '' n '' does not exist'')"

text \<open>\<open>get_database(..).await?.ok_or_else(..)?\<close>.\<close>

definition st_require :: "pg_error \<Rightarrow> ('s, 'a option) prog \<Rightarrow> ('s, 'a) prog" where
  "st_require e m = st_bind m (\<lambda>x. case x of None \<Rightarrow> st_raise e | Some y \<Rightarrow> st_return y)"

text \<open>\<open>let Some(x) = .. else { return Ok(..) }\<close>.\<close>

definition st_else :: "('s, 'b) prog \<Rightarrow> ('s, 'a option) prog \<Rightarrow> ('a \<Rightarrow> ('s, 'b) prog) \<Rightarrow> ('s, 'b) prog" where
  "st_else otherwise m f = st_bind m (\<lambda>x. case x of None \<Rightarrow> otherwise | Some y \<Rightarrow> f y)"

definition create_schema :: "json_lib \<Rightarrow> 's kv_ops \<Rightarrow> string \<Rightarrow> string \<Rightarrow> bool \<Rightarrow> ('s, schema_catalog) prog" where
  "create_schema lib ops db n if_not_exists =
     st_seq (ensure_bootstrap lib ops)
     (st_bind (st_require (no_database db) (get_database lib ops db)) (\<lambda>d.
     st_bind (get_schema lib ops (dc_id d) n) (\<lambda>found.
       case found of
         Some existing \<Rightarrow>
           if if_not_exists then st_return existing
           else st_raise (user_error ''42P06'' (quoted ''schema '' n '' already exists''))
       | None \<Rightarrow>
           st_bind (allocate_id ops NEXT_SCHEMA_ID_KEY) (\<lambda>i.
           let s = \<lparr>sc_id = i, sc_database_id = dc_id d, sc_name = n\<rparr> in
           st_seq (write_schema_inner lib ops s) (st_return s)))))"

definition list_schemas :: "json_lib \<Rightarrow> 's kv_ops \<Rightarrow> string \<Rightarrow> ('s, schema_catalog list) prog" where
  "list_schemas lib ops db =
     st_seq (ensure_bootstrap lib ops)
     (st_else (st_return []) (get_database lib ops db) (\<lambda>d.
     st_bind (cat_scan ops ''__catalog__/schemas/by-id/'') (\<lambda>entries.
     st_bind (st_lift (collect_res (decode_schema_catalog lib) (map snd entries))) (\<lambda>ss.
       st_return (sort_key sc_name (filter (\<lambda>s. sc_database_id s = dc_id d) ss))))))"

definition list_databases :: "json_lib \<Rightarrow> 's kv_ops \<Rightarrow> ('s, database_catalog list) prog" where
  "list_databases lib ops =
     st_seq (ensure_bootstrap lib ops)
     (st_bind (cat_scan ops ''__catalog__/databases/by-id/'') (\<lambda>entries.
     st_bind (st_lift (collect_res (decode_database_catalog lib) (map snd entries))) (\<lambda>ds.
       st_return (sort_key dc_name ds))))"

definition drop_schema :: "json_lib \<Rightarrow> 's kv_ops \<Rightarrow> string \<Rightarrow> string \<Rightarrow> ('s, schema_catalog option) prog" where
  "drop_schema lib ops db n =
     st_seq (ensure_bootstrap lib ops)
     (st_else (st_return None) (get_database lib ops db) (\<lambda>d.
     st_else (st_return None) (get_schema lib ops (dc_id d) n) (\<lambda>s.
     st_seq (cat_delete ops (schema_by_id_key (sc_id s)))
     (st_seq (cat_delete ops (schema_by_name_key (dc_id d) n)) (st_return (Some s))))))"

definition drop_database :: "json_lib \<Rightarrow> 's kv_ops \<Rightarrow> string \<Rightarrow> ('s, database_catalog option) prog" where
  "drop_database lib ops n =
     st_seq (ensure_bootstrap lib ops)
     (st_else (st_return None) (get_database lib ops n) (\<lambda>d.
     st_seq (cat_delete ops (database_by_id_key (dc_id d)))
     (st_seq (cat_delete ops (database_by_name_key n)) (st_return (Some d)))))"

section \<open>Tables\<close>

definition allocate_table_id :: "json_lib \<Rightarrow> 's kv_ops \<Rightarrow> ('s, u32) prog" where
  "allocate_table_id lib ops = st_seq (ensure_bootstrap lib ops) (allocate_id ops NEXT_TABLE_ID_KEY)"

definition is_default_schema :: "string \<Rightarrow> string \<Rightarrow> bool" where
  "is_default_schema db sn = (db = DEFAULT_DATABASE_NAME \<and> sn = DEFAULT_SCHEMA_NAME)"

definition store_table :: "json_lib \<Rightarrow> 's kv_ops \<Rightarrow> string \<Rightarrow> string \<Rightarrow> table_schema \<Rightarrow> ('s, unit) prog" where
  "store_table lib ops db sn schema =
     st_seq (ensure_bootstrap lib ops)
     (st_bind (st_require (no_database db) (get_database lib ops db)) (\<lambda>d.
     st_bind (st_require (no_schema sn) (get_schema lib ops (dc_id d) sn)) (\<lambda>s.
     let normalized = normalize_descriptor schema;
         t = \<lparr>tc_database_id = dc_id d, tc_schema_id = sc_id s, tc_schema_name = sn,
              tc_table_name = table_name normalized, tc_schema = normalized\<rparr> in
     st_bind (st_lift (encode_table_catalog lib t)) (\<lambda>payload.
     st_seq (cat_put ops (table_by_id_key (table_id normalized)) payload)
     (st_seq (cat_put ops (table_by_name_key (dc_id d) (sc_id s) (table_name normalized)) (to_be_bytes (table_id normalized)))
     (if is_default_schema db sn then
        st_bind (st_lift (encode_legacy_table_schema lib normalized)) (\<lambda>legacy.
          cat_put ops (schema_key (table_name normalized)) legacy)
      else st_return ()))))))"

definition load_legacy_default_table :: "json_lib \<Rightarrow> 's kv_ops \<Rightarrow> string \<Rightarrow> ('s, table_catalog option) prog" where
  "load_legacy_default_table lib ops n =
     st_else (st_return None) (cat_get ops (schema_key n)) (\<lambda>payload.
       st_bind (st_lift (decode_table_catalog lib payload)) (\<lambda>t. st_return (Some t)))"

definition load_table :: "json_lib \<Rightarrow> 's kv_ops \<Rightarrow> string \<Rightarrow> string \<Rightarrow> string \<Rightarrow> ('s, table_catalog option) prog" where
  "load_table lib ops db sn n =
     st_seq (ensure_bootstrap lib ops)
     (st_else (st_return None) (get_database lib ops db) (\<lambda>d.
     st_else (st_return None) (get_schema lib ops (dc_id d) sn) (\<lambda>s.
     st_bind (cat_get ops (table_by_name_key (dc_id d) (sc_id s) n)) (\<lambda>found.
       by_name ops ''table'' ''table id'' table_by_id_key (decode_table_catalog lib) found
         (if is_default_schema db sn then load_legacy_default_table lib ops n else st_return None)))))"

text \<open>The legacy tables of the default schema that are not listed yet, in order.\<close>

fun append_legacy :: "table_catalog list \<Rightarrow> table_catalog list \<Rightarrow> table_catalog list" where
  "append_legacy tables [] = tables"
| "append_legacy tables (t # ts) =
     (if tc_database_id t \<noteq> 1 \<or> tc_schema_name t \<noteq> DEFAULT_SCHEMA_NAME
         \<or> (\<exists>e \<in> set tables. table_id (tc_schema e) = table_id (tc_schema t) \<or> tc_table_name e = tc_table_name t)
      then append_legacy tables ts else append_legacy (tables @ [t]) ts)"

definition append_legacy_default_tables ::
    "json_lib \<Rightarrow> 's kv_ops \<Rightarrow> table_catalog list \<Rightarrow> ('s, table_catalog list) prog" where
  "append_legacy_default_tables lib ops tables =
     st_bind (cat_scan ops SCHEMA_PREFIX) (\<lambda>entries.
     st_bind (st_lift (collect_res (decode_table_catalog lib) (map snd entries))) (\<lambda>ts.
       st_return (append_legacy tables ts)))"

definition list_tables :: "json_lib \<Rightarrow> 's kv_ops \<Rightarrow> string \<Rightarrow> ('s, table_catalog list) prog" where
  "list_tables lib ops db =
     st_seq (ensure_bootstrap lib ops)
     (st_else (st_return []) (get_database lib ops db) (\<lambda>d.
     st_bind (cat_scan ops ''__catalog__/tables/by-id/'') (\<lambda>entries.
     st_bind (st_lift (collect_res (decode_table_catalog lib) (map snd entries))) (\<lambda>ts.
     let tables = filter (\<lambda>t. tc_database_id t = dc_id d) ts in
     if db = DEFAULT_DATABASE_NAME then append_legacy_default_tables lib ops tables else st_return tables))))"

definition bump_epoch :: "table_schema \<Rightarrow> table_schema" where
  "bump_epoch s =
     s\<lparr>table_epoch := max (if table_epoch s = - 1 then - 1 else table_epoch s + 1) 1,
       schema_version := max (schema_version s) 1\<rparr>"

definition bump_table_epoch :: "json_lib \<Rightarrow> 's kv_ops \<Rightarrow> string \<Rightarrow> string \<Rightarrow> string \<Rightarrow> ('s, table_catalog) prog" where
  "bump_table_epoch lib ops db sn n =
     st_bind (st_require (no_table n) (load_table lib ops db sn n)) (\<lambda>t.
     let t' = t\<lparr>tc_schema := bump_epoch (tc_schema t)\<rparr> in
     st_seq (store_table lib ops db sn (tc_schema t')) (st_return t'))"

definition rename_table :: "json_lib \<Rightarrow> 's kv_ops \<Rightarrow> string \<Rightarrow> string \<Rightarrow> string \<Rightarrow> string \<Rightarrow> ('s, table_catalog) prog" where
  "rename_table lib ops db sn old new =
     st_seq (ensure_bootstrap lib ops)
     (st_bind (st_require (no_database db) (get_database lib ops db)) (\<lambda>d.
     st_bind (st_require (no_schema sn) (get_schema lib ops (dc_id d) sn)) (\<lambda>s.
     st_bind (load_table lib ops db sn new) (\<lambda>existing.
     if existing \<noteq> None then st_raise (user_error ''42P07'' (quoted ''table '' new '' already exists''))
     else st_bind (st_require (no_table old) (load_table lib ops db sn old)) (\<lambda>t.
     st_seq (cat_delete ops (table_by_name_key (dc_id d) (sc_id s) old))
     (st_seq (if is_default_schema db sn then cat_delete ops (schema_key old) else st_return ())
     (let t' = t\<lparr>tc_table_name := new, tc_schema := (tc_schema t)\<lparr>table_name := new\<rparr>\<rparr> in
      st_seq (store_table lib ops db sn (tc_schema t')) (st_return t'))))))))"

section \<open>Indexes\<close>

definition get_index :: "json_lib \<Rightarrow> 's kv_ops \<Rightarrow> u32 \<Rightarrow> u32 \<Rightarrow> string \<Rightarrow> ('s, index_catalog option) prog" where
  "get_index lib ops d s n =
     st_seq (ensure_bootstrap lib ops)
     (st_bind (cat_get ops (index_by_name_key d s n)) (\<lambda>found.
       by_name ops ''index'' ''index id'' index_by_id_key (decode_index_catalog lib) found (st_return None)))"

definition load_index :: "json_lib \<Rightarrow> 's kv_ops \<Rightarrow> bytes \<Rightarrow> ('s, index_catalog) prog" where
  "load_index lib ops id_bytes =
     st_bind (st_lift (decode_u32 id_bytes ''index id'')) (\<lambda>i.
     st_bind (cat_get ops (index_by_id_key i)) (\<lambda>p.
       case p of None \<Rightarrow> payload_missing ''index'' | Some payload \<Rightarrow> st_lift (decode_index_catalog lib payload)))"

definition list_indexes_for_table :: "json_lib \<Rightarrow> 's kv_ops \<Rightarrow> u32 \<Rightarrow> ('s, index_catalog list) prog" where
  "list_indexes_for_table lib ops t =
     st_seq (ensure_bootstrap lib ops)
     (st_bind (cat_scan ops (index_by_table_prefix t)) (\<lambda>entries.
     st_bind (st_collect (load_index lib ops) (map snd entries)) (\<lambda>xs.
       st_return (sort_key ix_name xs))))"

definition create_index ::
    "json_lib \<Rightarrow> 's kv_ops \<Rightarrow> string \<Rightarrow> string \<Rightarrow> string \<Rightarrow> string \<Rightarrow> string list \<Rightarrow> bool \<Rightarrow> bool \<Rightarrow>
       ('s, index_catalog option) prog" where
  "create_index lib ops db sn tn n cols uniq if_not_exists =
     st_seq (ensure_bootstrap lib ops)
     (st_bind (st_require (no_table tn) (load_table lib ops db sn tn)) (\<lambda>t.
     st_bind (get_index lib ops (tc_database_id t) (tc_schema_id t) n) (\<lambda>existing.
     if existing \<noteq> None then
       (if if_not_exists then st_return None
        else st_raise (user_error ''42P07'' (quoted ''relation '' n '' already exists'')))
     else case cols of
       [] \<Rightarrow> st_raise (user_error ''42601'' ''CREATE INDEX requires at least one column'')
     | c # _ \<Rightarrow>
         st_bind (allocate_id ops NEXT_INDEX_ID_KEY) (\<lambda>i.
         let x = \<lparr>ix_id = i, ix_database_id = tc_database_id t, ix_schema_id = tc_schema_id t,
                  ix_table_id = table_id (tc_schema t), ix_schema_name = sn, ix_table_name = tn, ix_name = n,
                  ix_column_name = c, ix_column_names = cols, ix_unique = uniq\<rparr> in
         st_seq (write_index lib ops x) (st_return (Some x))))))"

definition drop_index :: "json_lib \<Rightarrow> 's kv_ops \<Rightarrow> u32 \<Rightarrow> u32 \<Rightarrow> string \<Rightarrow> ('s, index_catalog option) prog" where
  "drop_index lib ops d s n =
     st_seq (ensure_bootstrap lib ops)
     (st_else (st_return None) (get_index lib ops d s n) (\<lambda>x.
     st_seq (drop_index_by_id ops x) (st_return (Some x))))"

definition drop_table :: "json_lib \<Rightarrow> 's kv_ops \<Rightarrow> string \<Rightarrow> string \<Rightarrow> string \<Rightarrow> ('s, table_catalog option) prog" where
  "drop_table lib ops db sn n =
     st_seq (ensure_bootstrap lib ops)
     (st_else (st_return None) (load_table lib ops db sn n) (\<lambda>t.
     st_seq (cat_delete ops (table_by_id_key (table_id (tc_schema t))))
     (st_seq (cat_delete ops (table_by_name_key (tc_database_id t) (tc_schema_id t) n))
     (st_bind (list_indexes_for_table lib ops (table_id (tc_schema t))) (\<lambda>xs.
     st_seq (st_each (drop_index_by_id ops) xs)
     (st_seq (if is_default_schema db sn then cat_delete ops (schema_key n) else st_return ())
       (st_return (Some t))))))))"

section \<open>Views\<close>

definition load_view :: "json_lib \<Rightarrow> 's kv_ops \<Rightarrow> string \<Rightarrow> string \<Rightarrow> string \<Rightarrow> ('s, view_catalog option) prog" where
  "load_view lib ops db sn n =
     st_seq (ensure_bootstrap lib ops)
     (st_else (st_return None) (get_database lib ops db) (\<lambda>d.
     st_else (st_return None) (get_schema lib ops (dc_id d) sn) (\<lambda>s.
     st_bind (cat_get ops (view_by_name_key (dc_id d) (sc_id s) n)) (\<lambda>found.
       by_name ops ''view'' ''view id'' view_by_id_key (decode_view_catalog lib) found (st_return None)))))"

definition store_view ::
    "json_lib \<Rightarrow> 's kv_ops \<Rightarrow> string \<Rightarrow> string \<Rightarrow> string \<Rightarrow> string \<Rightarrow> bool \<Rightarrow> bool \<Rightarrow> ('s, view_catalog option) prog" where
  "store_view lib ops db sn n def or_replace if_not_exists =
     st_seq (ensure_bootstrap lib ops)
     (st_bind (st_require (no_database db) (get_database lib ops db)) (\<lambda>d.
     st_bind (st_require (no_schema sn) (get_schema lib ops (dc_id d) sn)) (\<lambda>s.
     st_bind (load_table lib ops db sn n) (\<lambda>table.
     if table \<noteq> None then st_raise (user_error ''42P07'' (quoted ''relation '' n '' already exists''))
     else st_bind (load_view lib ops db sn n) (\<lambda>found.
       case found of
         Some existing \<Rightarrow>
           if if_not_exists then st_return None
           else if \<not> or_replace then st_raise (user_error ''42P07'' (quoted ''view '' n '' already exists''))
           else (let v = existing\<lparr>vc_definition := def\<rparr> in st_seq (write_view lib ops v) (st_return (Some v)))
       | None \<Rightarrow>
           st_bind (allocate_id ops NEXT_VIEW_ID_KEY) (\<lambda>i.
           let v = \<lparr>vc_id = i, vc_database_id = dc_id d, vc_schema_id = sc_id s, vc_schema_name = sn,
                    vc_name = n, vc_definition = def\<rparr> in
           st_seq (write_view lib ops v) (st_return (Some v))))))))"

definition list_views :: "json_lib \<Rightarrow> 's kv_ops \<Rightarrow> string \<Rightarrow> ('s, view_catalog list) prog" where
  "list_views lib ops db =
     st_seq (ensure_bootstrap lib ops)
     (st_else (st_return []) (get_database lib ops db) (\<lambda>d.
     st_bind (cat_scan ops ''__catalog__/views/by-id/'') (\<lambda>entries.
     st_bind (st_lift (collect_res (decode_view_catalog lib) (map snd entries))) (\<lambda>vs.
       st_return (sort_key (\<lambda>v. [vc_schema_name v, vc_name v]) (filter (\<lambda>v. vc_database_id v = dc_id d) vs))))))"

definition drop_view :: "json_lib \<Rightarrow> 's kv_ops \<Rightarrow> string \<Rightarrow> string \<Rightarrow> string \<Rightarrow> ('s, view_catalog option) prog" where
  "drop_view lib ops db sn n =
     st_seq (ensure_bootstrap lib ops)
     (st_else (st_return None) (load_view lib ops db sn n) (\<lambda>v.
     st_seq (cat_delete ops (view_by_id_key (vc_id v)))
     (st_seq (cat_delete ops (view_by_name_key (vc_database_id v) (vc_schema_id v) n)) (st_return (Some v)))))"

end
