(* ===== verification/Catalog_Laws.thy ===== *)
theory Catalog_Laws
  imports Catalog_Store
begin

text \<open>
  What the catalog keeps. Each kind of object (databases, schemas, tables, indexes, views) is stored
  in two places: its id under its name and its document under its id. The locale \<open>catalog_kind\<close>
  states what both together mean on the view of the store and how writing, replacing and removing an
  object changes it; it is interpreted on the keys and decoders of the five kinds.
\<close>

section \<open>Objects under a name and an id\<close>

type_synonym kv_view = "bytes \<rightharpoonup> bytes"

abbreviation kv_at :: "kv_view \<Rightarrow> string \<Rightarrow> bytes option" where
  "kv_at w key \<equiv> w (as_bytes key)"

locale catalog_kind =
  fixes name_key :: "'n \<Rightarrow> string" and id_key :: "u32 \<Rightarrow> string" and dec :: "bytes \<Rightarrow> 'o res"
    and name :: "'o \<Rightarrow> 'n" and ident :: "'o \<Rightarrow> u32"
  assumes name_inj: "name_key m = name_key n \<Longrightarrow> m = n"
    and id_inj: "id_key i = id_key j \<Longrightarrow> i = j"
    and apart: "name_key n \<noteq> id_key i"
begin

text \<open>An object is found under its name.\<close>

definition holds :: "kv_view \<Rightarrow> 'n \<Rightarrow> 'o \<Rightarrow> bool" where
  "holds w n x =
     (\<exists>p. kv_at w (name_key n) = Some (to_be_bytes (ident x)) \<and> kv_at w (id_key (ident x)) = Some p \<and> dec p = Inr x \<and> name x = n)"

text \<open>Every name leads to an object of that name, and every document is the one its name leads to.\<close>

definition consistent :: "kv_view \<Rightarrow> bool" where
  "consistent w =
     ((\<forall>n b. kv_at w (name_key n) = Some b \<longrightarrow> (\<exists>x. holds w n x)) \<and>
      (\<forall>i p. kv_at w (id_key i) = Some p \<longrightarrow> (\<exists>x. dec p = Inr x \<and> ident x = i \<and> holds w (name x) x)))"

lemma key_eq [simp]:
  "(name_key m = name_key n) = (m = n)" "(id_key i = id_key j) = (i = j)" "name_key n \<noteq> id_key i" "id_key i \<noteq> name_key n"
  using name_inj id_inj apart by metis+

lemma consistentD:
  assumes "consistent w"
  shows "kv_at w (name_key n) = Some b \<Longrightarrow> \<exists>x. holds w n x"
    and "kv_at w (id_key i) = Some p \<Longrightarrow> \<exists>x. dec p = Inr x \<and> ident x = i \<and> holds w (name x) x"
  using assms unfolding consistent_def by blast+

lemma holds_unique: "holds w n x \<Longrightarrow> holds w n y \<Longrightarrow> x = y"
  by (auto simp: holds_def)

lemma holds_same_id: "holds w m x \<Longrightarrow> holds w n y \<Longrightarrow> ident x = ident y \<Longrightarrow> x = y \<and> m = n"
  by (auto simp: holds_def)

lemma absent: "consistent w \<Longrightarrow> (kv_at w (name_key n) = None) = (\<forall>x. \<not> holds w n x)"
  by (metis (no_types, lifting) consistent_def holds_def not_None_eq option.distinct(1))

text \<open>Keys of other kinds do not matter.\<close>

lemma frame:
  assumes "\<And>n. kv_at w' (name_key n) = kv_at w (name_key n)" "\<And>i. kv_at w' (id_key i) = kv_at w (id_key i)"
  shows "holds w' = holds w" "consistent w' = consistent w"
  by (simp_all add: fun_eq_iff holds_def consistent_def assms)

definition written :: "kv_view \<Rightarrow> bytes \<Rightarrow> 'o \<Rightarrow> kv_view" where
  "written w p x = w(as_bytes (id_key (ident x)) \<mapsto> p, as_bytes (name_key (name x)) \<mapsto> to_be_bytes (ident x))"

definition removed :: "kv_view \<Rightarrow> 'o \<Rightarrow> kv_view" where
  "removed w x = w(as_bytes (id_key (ident x)) := None, as_bytes (name_key (name x)) := None)"

lemma at_written:
  "kv_at (written w p x) (name_key n) = (if n = name x then Some (to_be_bytes (ident x)) else kv_at w (name_key n))"
  "kv_at (written w p x) (id_key i) = (if i = ident x then Some p else kv_at w (id_key i))"
  by (simp_all add: written_def)

lemma at_removed:
  "kv_at (removed w x) (name_key n) = (if n = name x then None else kv_at w (name_key n))"
  "kv_at (removed w x) (id_key i) = (if i = ident x then None else kv_at w (id_key i))"
  by (simp_all add: removed_def)

text \<open>A new object needs a fresh id and a free name; a replaced one keeps both.\<close>

definition room_for :: "kv_view \<Rightarrow> 'o \<Rightarrow> bool" where
  "room_for w x =
     (kv_at w (id_key (ident x)) = None \<and> kv_at w (name_key (name x)) = None \<or> (\<exists>y. holds w (name x) y \<and> ident y = ident x))"

lemma ident_apart:
  assumes "consistent w" "room_for w x" "holds w n y" "n \<noteq> name x"
  shows "ident y \<noteq> ident x"
proof
  assume same: "ident y = ident x"
  with assms(3) have "kv_at w (id_key (ident x)) \<noteq> None" by (auto simp: holds_def)
  with assms(2) obtain z where "holds w (name x) z" "ident z = ident x" by (auto simp: room_for_def)
  with holds_same_id [OF assms(3), of "name x" z] same assms(4) show False by simp
qed

lemma holds_written:
  assumes "consistent w" "room_for w x" "dec p = Inr x"
  shows "holds (written w p x) n y = (if n = name x then y = x else holds w n y)"
proof (cases "n = name x")
  case True
  then show ?thesis using assms(3) by (auto simp: holds_def at_written)
next
  case False
  then show ?thesis using assms(3) ident_apart [OF assms(1,2), of n y]
    by (cases "ident y = ident x") (auto simp: holds_def at_written)
qed

lemma consistent_written:
  assumes "consistent w" "room_for w x" "dec p = Inr x"
  shows "consistent (written w p x)"
  unfolding consistent_def
proof (intro conjI allI impI)
  fix n b assume "kv_at (written w p x) (name_key n) = Some b"
  then show "\<exists>y. holds (written w p x) n y"
    using consistentD(1) [OF assms(1)] by (cases "n = name x") (auto simp: holds_written [OF assms] at_written)
next
  fix i q assume q: "kv_at (written w p x) (id_key i) = Some q"
  show "\<exists>y. dec q = Inr y \<and> ident y = i \<and> holds (written w p x) (name y) y"
  proof (cases "i = ident x")
    case True
    then have "q = p" using q by (simp add: at_written)
    then show ?thesis using True assms(3) by (simp add: holds_written [OF assms])
  next
    case False
    with q consistentD(2) [OF assms(1), of i q] obtain y where y: "dec q = Inr y" "ident y = i" "holds w (name y) y"
      by (auto simp: at_written)
    have "name y \<noteq> name x"
    proof
      assume "name y = name x"
      then have "kv_at w (name_key (name x)) \<noteq> None" using y(3) by (auto simp: holds_def)
      with assms(2) obtain z where "holds w (name x) z" "ident z = ident x" by (auto simp: room_for_def)
      with y \<open>name y = name x\<close> False show False using holds_unique by metis
    qed
    then show ?thesis using y by (auto simp: holds_written [OF assms])
  qed
qed

lemma holds_removed:
  assumes "holds w (name x) x"
  shows "holds (removed w x) n y = (n \<noteq> name x \<and> holds w n y)"
proof (cases "n = name x")
  case False
  have "ident y \<noteq> ident x" if "holds w n y" using holds_same_id [OF that assms] False by auto
  then show ?thesis using False by (auto simp: holds_def at_removed)
qed (auto simp: holds_def at_removed)

lemma consistent_removed:
  assumes "consistent w" "holds w (name x) x"
  shows "consistent (removed w x)"
  unfolding consistent_def
proof (intro conjI allI impI)
  fix n b assume "kv_at (removed w x) (name_key n) = Some b"
  then show "\<exists>y. holds (removed w x) n y"
    using consistentD(1) [OF assms(1)] by (auto simp: holds_removed [OF assms(2)] at_removed split: if_splits)
next
  fix i q assume "kv_at (removed w x) (id_key i) = Some q"
  then have i: "i \<noteq> ident x" "kv_at w (id_key i) = Some q" by (auto simp: at_removed split: if_splits)
  from consistentD(2) [OF assms(1) i(2)] obtain y where y: "dec q = Inr y" "ident y = i" "holds w (name y) y" by blast
  then have "name y \<noteq> name x" using holds_unique assms(2) i(1) by metis
  then show "\<exists>y. dec q = Inr y \<and> ident y = i \<and> holds (removed w x) (name y) y"
    using y by (auto simp: holds_removed [OF assms(2)])
qed

end

section \<open>The five kinds\<close>

lemma show_nat_inject [simp]: "(show_nat a = show_nat b) = (a = b)"
  by (metis show_nat_digits)

lemma show_nat_slash [simp]: "(show_nat a @ CHR ''/'' # x = show_nat b @ CHR ''/'' # y) = (a = b \<and> x = y)"
proof
  assume eq: "show_nat a @ CHR ''/'' # x = show_nat b @ CHR ''/'' # y"
  have free: "CHR ''/'' \<notin> set (show_nat n)" for n by (rule show_nat_free) (simp add: is_digit_def less_eq_char_def)
  have "Some (show_nat a, x) = split_once CHR ''/'' (show_nat a @ CHR ''/'' # x)"
    by (rule split_once_append [OF free, symmetric])
  also have "\<dots> = Some (show_nat b, y)" unfolding eq by (rule split_once_append [OF free])
  finally show "a = b \<and> x = y" by simp
qed simp

lemma unat_inject [simp]: "(unat a = unat b) = (a = b)"
  by (auto intro: unsigned_word_eqI)

lemmas catalog_keys = database_by_name_key_def database_by_id_key_def schema_by_name_key_def schema_by_id_key_def
  table_by_name_key_def table_by_id_key_def index_by_name_key_def index_by_id_key_def index_by_table_prefix_def
  index_by_table_key_def view_by_name_key_def view_by_id_key_def

interpretation databases: catalog_kind database_by_name_key database_by_id_key "decode_database_catalog lib" dc_name dc_id for lib
  by unfold_locales (simp_all add: catalog_keys)

interpretation schemas: catalog_kind "\<lambda>(d, n). schema_by_name_key d n" schema_by_id_key "decode_schema_catalog lib"
  "\<lambda>s. (sc_database_id s, sc_name s)" sc_id for lib
  by unfold_locales (auto simp: catalog_keys)

interpretation tables: catalog_kind "\<lambda>(d, s, n). table_by_name_key d s n" table_by_id_key "decode_table_catalog lib"
  "\<lambda>t. (tc_database_id t, tc_schema_id t, tc_table_name t)" "\<lambda>t. table_id (tc_schema t)" for lib
  by unfold_locales (auto simp: catalog_keys)

interpretation indexes: catalog_kind "\<lambda>(d, s, n). index_by_name_key d s n" index_by_id_key "decode_index_catalog lib"
  "\<lambda>x. (ix_database_id x, ix_schema_id x, ix_name x)" ix_id for lib
  by unfold_locales (auto simp: catalog_keys)

interpretation views: catalog_kind "\<lambda>(d, s, n). view_by_name_key d s n" view_by_id_key "decode_view_catalog lib"
  "\<lambda>v. (vc_database_id v, vc_schema_id v, vc_name v)" vc_id for lib
  by unfold_locales (auto simp: catalog_keys)

section \<open>What the operations compute\<close>

definition booted :: "kv_view \<Rightarrow> bool" where
  "booted w = (kv_at w (database_by_name_key DEFAULT_DATABASE_NAME) \<noteq> None)"

text \<open>The schema a database and a schema name lead to.\<close>

definition in_schema :: "json_lib \<Rightarrow> kv_view \<Rightarrow> string \<Rightarrow> string \<Rightarrow> database_catalog \<Rightarrow> schema_catalog \<Rightarrow> bool" where
  "in_schema lib w db sn d s = (booted w \<and> databases.holds lib w db d \<and> schemas.holds lib w (dc_id d, sn) s)"

context kv_implementation
begin

lemma call_get: "computes R (cat_get ops key) w (Inr (kv_at w key)) w"
  unfolding cat_get_def by (rule store_calls)

lemma call_put: "computes R (cat_put ops key v) w (Inr ()) (w(as_bytes key \<mapsto> v))"
  unfolding cat_put_def by (rule store_calls)

lemma call_delete: "computes R (cat_delete ops key) w (Inr ()) (w(as_bytes key := None))"
  unfolding cat_delete_def by (rule store_calls)

lemma call_scan: "computes R (cat_scan ops p) w (Inr (scan_spec w (\<lambda>k. starts_with k (as_bytes p)))) w"
  unfolding cat_scan_def by (rule store_calls)

lemma bootstrapped: "booted w \<Longrightarrow> computes R (ensure_bootstrap lib ops) w (Inr ()) w"
  unfolding ensure_bootstrap_def booted_def by (rule computes_bind [OF call_get]) (simp add: computes_return)

lemma allocated:
  "kv_at w key = Some (to_be_bytes i) \<Longrightarrow> computes R (allocate_id ops key) w (Inr i) (w(as_bytes key \<mapsto> to_be_bytes (i + 1)))"
  unfolding allocate_id_def
  by (rule computes_bind [OF call_get]) (simp add: stored_id_def Let_def computes_seq [OF call_put computes_return])

lemma by_name_found:
  assumes "kv_at w (id_key i) = Some p" "dec p = Inr x"
  shows "computes R (by_name ops what field id_key dec (Some (to_be_bytes i)) absent) w (Inr (Some x)) w"
  unfolding by_name_def option.case
proof (intro computes_bind)
  show "computes R (st_lift (decode_u32 (to_be_bytes i) field)) w (Inr i) w"
    by (rule computes_lift_eq) (simp add: decode_u32_def)
  show "computes R (cat_get ops (id_key i)) w (Inr (Some p)) w" using call_get [of "id_key i" w] assms(1) by simp
  show "computes R (case Some p of None \<Rightarrow> payload_missing what | Some payload \<Rightarrow> st_bind (st_lift (dec payload)) (\<lambda>x. st_return (Some x))) w
      (Inr (Some x)) w"
    by (simp add: assms(2) computes_bind [OF computes_lift_eq computes_return])
qed

lemma by_name_absent: "computes R absent w r w' \<Longrightarrow> computes R (by_name ops what field id_key dec None absent) w r w'"
  by (simp add: by_name_def)

lemma computes_require: "computes R m w (Inr (Some x)) w1 \<Longrightarrow> computes R (st_require e m) w (Inr x) w1"
  unfolding st_require_def by (rule computes_bind, assumption) (simp add: computes_return)

lemma computes_require_none: "computes R m w (Inr None) w1 \<Longrightarrow> computes R (st_require e m) w (Inl e) w1"
  unfolding st_require_def by (rule computes_bind, assumption) (simp add: computes_raise)

lemma computes_else: "computes R m w (Inr (Some x)) w1 \<Longrightarrow> computes R (f x) w1 r w2 \<Longrightarrow> computes R (st_else o' m f) w r w2"
  unfolding st_else_def by (rule computes_bind, assumption) simp

lemma computes_else_none: "computes R m w (Inr None) w1 \<Longrightarrow> computes R o' w1 r w2 \<Longrightarrow> computes R (st_else o' m f) w r w2"
  unfolding st_else_def by (rule computes_bind, assumption) simp

text \<open>Reading an object by its name.\<close>

lemma get_database_found:
  "booted w \<Longrightarrow> databases.holds lib w n d \<Longrightarrow> computes R (get_database lib ops n) w (Inr (Some d)) w"
  unfolding get_database_def databases.holds_def
  by (rule computes_seq [OF bootstrapped], assumption, rule computes_bind [OF call_get]) (auto intro: by_name_found)

lemma get_database_absent:
  "booted w \<Longrightarrow> kv_at w (database_by_name_key n) = None \<Longrightarrow> computes R (get_database lib ops n) w (Inr None) w"
  unfolding get_database_def
  by (rule computes_seq [OF bootstrapped], assumption, rule computes_bind [OF call_get])
    (simp add: by_name_absent computes_return)

lemma get_schema_found:
  "booted w \<Longrightarrow> schemas.holds lib w (d, n) s \<Longrightarrow> computes R (get_schema lib ops d n) w (Inr (Some s)) w"
  unfolding get_schema_def schemas.holds_def
  by (rule computes_seq [OF bootstrapped], assumption, rule computes_bind [OF call_get]) (auto intro: by_name_found)

lemma get_schema_absent:
  "booted w \<Longrightarrow> kv_at w (schema_by_name_key d n) = None \<Longrightarrow> computes R (get_schema lib ops d n) w (Inr None) w"
  unfolding get_schema_def
  by (rule computes_seq [OF bootstrapped], assumption, rule computes_bind [OF call_get])
    (simp add: by_name_absent computes_return)

lemma get_index_found:
  "booted w \<Longrightarrow> indexes.holds lib w (d, s, n) x \<Longrightarrow> computes R (get_index lib ops d s n) w (Inr (Some x)) w"
  unfolding get_index_def indexes.holds_def
  by (rule computes_seq [OF bootstrapped], assumption, rule computes_bind [OF call_get]) (auto intro: by_name_found)

lemma get_index_absent:
  "booted w \<Longrightarrow> kv_at w (index_by_name_key d s n) = None \<Longrightarrow> computes R (get_index lib ops d s n) w (Inr None) w"
  unfolding get_index_def
  by (rule computes_seq [OF bootstrapped], assumption, rule computes_bind [OF call_get])
    (simp add: by_name_absent computes_return)

lemma in_schema_else:
  assumes "in_schema lib w db sn d s" "computes R (f d s) w r w2"
  shows "computes R (st_seq (ensure_bootstrap lib ops) (st_else o1 (get_database lib ops db) (\<lambda>d.
    st_else (o2 d) (get_schema lib ops (dc_id d) sn) (f d)))) w r w2"
proof -
  have w: "booted w" "databases.holds lib w db d" "schemas.holds lib w (dc_id d, sn) s"
    using assms(1) by (simp_all add: in_schema_def)
  show ?thesis
    by (rule computes_seq [OF bootstrapped [OF w(1)]], rule computes_else [OF get_database_found [OF w(1,2)]],
        rule computes_else [OF get_schema_found [OF w(1,3)]], rule assms(2))
qed

lemma in_schema_require:
  assumes "in_schema lib w db sn d s" "computes R (f d s) w r w2"
  shows "computes R (st_seq (ensure_bootstrap lib ops) (st_bind (st_require e1 (get_database lib ops db)) (\<lambda>d.
    st_bind (st_require (e2 d) (get_schema lib ops (dc_id d) sn)) (f d)))) w r w2"
proof -
  have w: "booted w" "databases.holds lib w db d" "schemas.holds lib w (dc_id d, sn) s"
    using assms(1) by (simp_all add: in_schema_def)
  show ?thesis
    by (rule computes_seq [OF bootstrapped [OF w(1)]], rule computes_bind [OF computes_require [OF get_database_found [OF w(1,2)]]],
        rule computes_bind [OF computes_require [OF get_schema_found [OF w(1,3)]]], rule assms(2))
qed

lemma load_table_found:
  assumes "in_schema lib w db sn d s" "tables.holds lib w (dc_id d, sc_id s, n) t"
  shows "computes R (load_table lib ops db sn n) w (Inr (Some t)) w"
  unfolding load_table_def
  by (rule in_schema_else [OF assms(1)], rule computes_bind [OF call_get])
    (use assms(2) in \<open>auto simp: tables.holds_def intro: by_name_found\<close>)

lemma load_table_absent:
  assumes "in_schema lib w db sn d s" "kv_at w (table_by_name_key (dc_id d) (sc_id s) n) = None"
    "is_default_schema db sn \<longrightarrow> kv_at w (schema_key n) = None"
  shows "computes R (load_table lib ops db sn n) w (Inr None) w"
proof -
  have "computes R (load_legacy_default_table lib ops n) w (Inr None) w" if "is_default_schema db sn"
    unfolding load_legacy_default_table_def
    by (rule computes_else_none [OF _ computes_return]) (use call_get [of "schema_key n" w] assms(3) that in simp)
  then have "computes R (if is_default_schema db sn then load_legacy_default_table lib ops n else st_return None) w (Inr None) w"
    by (simp add: computes_return)
  then show ?thesis unfolding load_table_def
    by (intro in_schema_else [OF assms(1)], intro computes_bind [OF call_get]) (simp add: assms(2) by_name_absent)
qed

lemma load_view_found:
  assumes "in_schema lib w db sn d s" "views.holds lib w (dc_id d, sc_id s, n) v"
  shows "computes R (load_view lib ops db sn n) w (Inr (Some v)) w"
  unfolding load_view_def
  by (rule in_schema_else [OF assms(1)], rule computes_bind [OF call_get])
    (use assms(2) in \<open>auto simp: views.holds_def intro: by_name_found\<close>)

lemma load_view_absent:
  assumes "in_schema lib w db sn d s" "kv_at w (view_by_name_key (dc_id d) (sc_id s) n) = None"
  shows "computes R (load_view lib ops db sn n) w (Inr None) w"
  unfolding load_view_def
  by (rule in_schema_else [OF assms(1)], rule computes_bind [OF call_get])
    (simp add: assms(2) by_name_absent computes_return)

text \<open>Writing an object: its document under its id, its id under its name.\<close>

lemma write_database_computes:
  assumes "json_reads_back lib"
  shows "\<exists>p. decode_database_catalog lib p = Inr d \<and>
    (\<forall>w. computes R (write_database_inner lib ops d) w (Inr ()) (databases.written w p d))"
  using descriptor_roundtrips(1) [OF assms, of d] unfolding write_database_inner_def databases.written_def
  by (auto intro!: computes_bind [OF computes_lift_eq] computes_seq [OF call_put] call_put)

lemma write_schema_computes:
  assumes "json_reads_back lib"
  shows "\<exists>p. decode_schema_catalog lib p = Inr s \<and>
    (\<forall>w. computes R (write_schema_inner lib ops s) w (Inr ()) (schemas.written w p s))"
  using descriptor_roundtrips(2) [OF assms, of s] unfolding write_schema_inner_def schemas.written_def
  by (auto intro!: computes_bind [OF computes_lift_eq] computes_seq [OF call_put] call_put)

lemma write_view_computes:
  assumes "json_reads_back lib"
  shows "\<exists>p. decode_view_catalog lib p = Inr v \<and>
    (\<forall>w. computes R (write_view lib ops v) w (Inr ()) (views.written w p v))"
  using descriptor_roundtrips(4) [OF assms, of v] unfolding write_view_def views.written_def
  by (auto intro!: computes_bind [OF computes_lift_eq] computes_seq [OF call_put] call_put)

lemma write_index_computes:
  assumes "json_reads_back lib"
  shows "\<exists>p. decode_index_catalog lib p = Inr x \<and>
    (\<forall>w. computes R (write_index lib ops x) w (Inr ())
      ((indexes.written w p x)(as_bytes (index_by_table_key (ix_table_id x) (ix_id x)) \<mapsto> to_be_bytes (ix_id x))))"
  using descriptor_roundtrips(3) [OF assms, of x] unfolding write_index_def indexes.written_def
  by (auto intro!: computes_bind [OF computes_lift_eq] computes_seq [OF call_put] call_put)

end

end
