(* ===== verification/Catalog_Invariant.thy ===== *)
theory Catalog_Invariant
  imports Catalog_Laws
begin

text \<open>
  The invariant of the catalog: the objects of each kind are consistent, the counters are above
  every id in use, and the list of a table's indexes names exactly its indexes. Every write the
  operations make keeps it: raising a counter, writing an object under an id below its counter,
  removing an object.
\<close>

section \<open>Objects with a counter\<close>

definition below :: "kv_view \<Rightarrow> string \<Rightarrow> u32 \<Rightarrow> bool" where
  "below w key j = (\<exists>c. kv_at w key = Some (to_be_bytes c) \<and> j < c)"

lemma word_step: "i \<noteq> - 1 \<Longrightarrow> i < i + 1" for i :: u32
  using inc_less_eq_iff [of i i] by (auto simp: not_le [symmetric])

lemma word_less_step: "j < i \<Longrightarrow> i \<noteq> - 1 \<Longrightarrow> j < i + 1" for i j :: u32
  by (rule order.strict_trans [OF _ word_step])

locale counted_kind = catalog_kind +
  fixes counter :: string
  assumes counter_apart: "counter \<noteq> name_key n" "counter \<noteq> id_key i"
begin

lemma counter_key [simp]: "counter \<noteq> name_key n" "counter \<noteq> id_key i" "name_key n \<noteq> counter" "id_key i \<noteq> counter"
  using counter_apart by metis+

definition kind_ok :: "kv_view \<Rightarrow> bool" where
  "kind_ok w =
     (consistent w \<and> (\<exists>c. kv_at w counter = Some (to_be_bytes (c :: u32))) \<and>
      (\<forall>j p. kv_at w (id_key j) = Some p \<longrightarrow> below w counter j))"

lemma kind_ok_counter:
  assumes "kind_ok w"
  obtains i :: u32 where "kv_at w counter = Some (to_be_bytes i)" "kv_at w (id_key i) = None"
proof -
  from assms obtain i :: u32 where i: "kv_at w counter = Some (to_be_bytes i)" by (auto simp: kind_ok_def)
  have "kv_at w (id_key i) = None"
    using assms i by (cases "kv_at w (id_key i)") (auto simp: kind_ok_def below_def)
  with i show ?thesis using that by blast
qed

lemma kind_ok_frame:
  assumes "\<And>n. kv_at w' (name_key n) = kv_at w (name_key n)" "\<And>i. kv_at w' (id_key i) = kv_at w (id_key i)" "kv_at w' counter = kv_at w counter"
  shows "kind_ok w' = kind_ok w"
  using frame(2) [OF assms(1,2)] by (simp add: kind_ok_def below_def assms(2,3))

lemma kind_ok_bump:
  assumes "kind_ok w" "kv_at w counter = Some (to_be_bytes (i :: u32))" "i \<noteq> - 1"
  shows "kind_ok (w(as_bytes counter \<mapsto> to_be_bytes (i + 1)))"
proof -
  let ?w = "w(as_bytes counter \<mapsto> to_be_bytes (i + 1))"
  have "consistent ?w = consistent w" by (rule frame(2)) simp_all
  moreover have "j < i + 1" if "kv_at w (id_key j) = Some p" for j p
    using assms that word_less_step [of j i] by (auto simp: kind_ok_def below_def)
  ultimately show ?thesis using assms(1) by (auto simp: kind_ok_def below_def)
qed

lemma kind_ok_written:
  assumes "kind_ok w" "room_for w x" "dec p = Inr x" "below w counter (ident x)"
  shows "kind_ok (written w p x)"
  using assms consistent_written [OF _ assms(2,3)]
  by (auto simp: kind_ok_def at_written below_def) (simp_all add: written_def)

lemma kind_ok_removed:
  assumes "kind_ok w" "holds w (name x) x"
  shows "kind_ok (removed w x)"
  using assms consistent_removed [OF _ assms(2)]
  by (auto simp: kind_ok_def at_removed below_def split: if_splits) (simp_all add: removed_def)

lemma stored_below: "kind_ok w \<Longrightarrow> holds w n x \<Longrightarrow> below w counter (ident x)"
  by (auto simp: kind_ok_def holds_def)

text \<open>A raised counter leaves room for an object under the id it gave out.\<close>

lemma allocated_room:
  assumes "kind_ok w" "kv_at w counter = Some (to_be_bytes (i :: u32))" "i \<noteq> - 1" "ident x = i" "kv_at w (name_key (name x)) = None"
  shows "room_for (w(as_bytes counter \<mapsto> to_be_bytes (i + 1))) x"
    and "below (w(as_bytes counter \<mapsto> to_be_bytes (i + 1))) counter (ident x)"
proof -
  have "kv_at w (id_key i) = None" using assms(1,2) by (cases "kv_at w (id_key i)") (auto simp: kind_ok_def below_def)
  then show "room_for (w(as_bytes counter \<mapsto> to_be_bytes (i + 1))) x" using assms(4,5) by (simp add: room_for_def)
  show "below (w(as_bytes counter \<mapsto> to_be_bytes (i + 1))) counter (ident x)"
    using word_step [OF assms(3)] assms(4) by (auto simp: below_def)
qed

end

lemmas key_defs = catalog_keys counter_keys

interpretation databases: counted_kind database_by_name_key database_by_id_key "decode_database_catalog lib" dc_name dc_id
  NEXT_DATABASE_ID_KEY for lib
  by unfold_locales (simp_all add: key_defs)

interpretation schemas: counted_kind "\<lambda>(d, n). schema_by_name_key d n" schema_by_id_key "decode_schema_catalog lib"
  "\<lambda>s. (sc_database_id s, sc_name s)" sc_id NEXT_SCHEMA_ID_KEY for lib
  by unfold_locales (auto simp: key_defs)

interpretation tables: counted_kind "\<lambda>(d, s, n). table_by_name_key d s n" table_by_id_key "decode_table_catalog lib"
  "\<lambda>t. (tc_database_id t, tc_schema_id t, tc_table_name t)" "\<lambda>t. table_id (tc_schema t)" NEXT_TABLE_ID_KEY for lib
  by unfold_locales (auto simp: key_defs)

interpretation indexes: counted_kind "\<lambda>(d, s, n). index_by_name_key d s n" index_by_id_key "decode_index_catalog lib"
  "\<lambda>x. (ix_database_id x, ix_schema_id x, ix_name x)" ix_id NEXT_INDEX_ID_KEY for lib
  by unfold_locales (auto simp: key_defs)

interpretation views: counted_kind "\<lambda>(d, s, n). view_by_name_key d s n" view_by_id_key "decode_view_catalog lib"
  "\<lambda>v. (vc_database_id v, vc_schema_id v, vc_name v)" vc_id NEXT_VIEW_ID_KEY for lib
  by unfold_locales (auto simp: key_defs)

section \<open>The invariant\<close>

definition listed :: "json_lib \<Rightarrow> kv_view \<Rightarrow> u32 \<Rightarrow> string \<Rightarrow> bytes \<Rightarrow> bool" where
  "listed lib w t r b =
     (\<exists>i p x. r = show_nat (unat i) \<and> b = to_be_bytes i \<and>
        kv_at w (index_by_id_key i) = Some p \<and> decode_index_catalog lib p = Inr x \<and> ix_table_id x = t)"

definition index_lists_ok :: "json_lib \<Rightarrow> kv_view \<Rightarrow> bool" where
  "index_lists_ok lib w = (\<forall>t r b. (kv_at w (index_by_table_prefix t @ r) = Some b) = listed lib w t r b)"

text \<open>The database of a schema has been given out, so a new database has no schemas yet.\<close>

definition owners_ok :: "json_lib \<Rightarrow> kv_view \<Rightarrow> bool" where
  "owners_ok lib w = (\<forall>k s. schemas.holds lib w k s \<longrightarrow> below w NEXT_DATABASE_ID_KEY (sc_database_id s))"

definition catalog_inv :: "json_lib \<Rightarrow> kv_view \<Rightarrow> bool" where
  "catalog_inv lib w =
     (booted w \<and> databases.kind_ok lib w \<and> schemas.kind_ok lib w \<and> tables.kind_ok lib w \<and> indexes.kind_ok lib w \<and>
      views.kind_ok lib w \<and> index_lists_ok lib w \<and> owners_ok lib w)"

section \<open>Frames\<close>

text \<open>The keys of the catalog by the first letter after \<open>__catalog__/\<close>: databases, schemas, tables,
  indexes, views, and the counters (\<open>next_\<close>). Two views agree on a letter.\<close>

definition same_dir :: "char \<Rightarrow> kv_view \<Rightarrow> kv_view \<Rightarrow> bool" where
  "same_dir c w w' = (\<forall>r. kv_at w' (''__catalog__/'' @ c # r) = kv_at w (''__catalog__/'' @ c # r))"

lemma same_dirD: "same_dir c w w' \<Longrightarrow> key = ''__catalog__/'' @ c # r \<Longrightarrow> kv_at w' key = kv_at w key"
  by (simp add: same_dir_def)

lemma frame_databases:
  assumes "same_dir CHR ''d'' w w'"
  shows "databases.holds lib w' = databases.holds lib w" "booted w' = booted w"
    "kv_at w' NEXT_DATABASE_ID_KEY = kv_at w NEXT_DATABASE_ID_KEY \<Longrightarrow> databases.kind_ok lib w' = databases.kind_ok lib w"
proof -
  have keys: "kv_at w' (database_by_name_key n) = kv_at w (database_by_name_key n)" "kv_at w' (database_by_id_key i) = kv_at w (database_by_id_key i)"
    for n i using same_dirD [OF assms] by (simp_all add: catalog_keys)
  show "databases.holds lib w' = databases.holds lib w" by (rule databases.frame) (rule keys)+
  show "booted w' = booted w" by (simp add: booted_def keys)
  show "databases.kind_ok lib w' = databases.kind_ok lib w" if "kv_at w' NEXT_DATABASE_ID_KEY = kv_at w NEXT_DATABASE_ID_KEY"
    by (rule databases.kind_ok_frame) (rule keys that)+
qed

lemma frame_schemas:
  assumes "same_dir CHR ''s'' w w'"
  shows "schemas.holds lib w' = schemas.holds lib w"
    "kv_at w' NEXT_SCHEMA_ID_KEY = kv_at w NEXT_SCHEMA_ID_KEY \<Longrightarrow> schemas.kind_ok lib w' = schemas.kind_ok lib w"
proof -
  have keys: "kv_at w' (case k of (d, n) \<Rightarrow> schema_by_name_key d n) = kv_at w (case k of (d, n) \<Rightarrow> schema_by_name_key d n)"
    "kv_at w' (schema_by_id_key i) = kv_at w (schema_by_id_key i)"
    for k i using same_dirD [OF assms] by (simp_all add: catalog_keys case_prod_beta)
  show "schemas.holds lib w' = schemas.holds lib w" by (rule schemas.frame) (rule keys)+
  show "schemas.kind_ok lib w' = schemas.kind_ok lib w" if "kv_at w' NEXT_SCHEMA_ID_KEY = kv_at w NEXT_SCHEMA_ID_KEY"
    by (rule schemas.kind_ok_frame) (rule keys that)+
qed

lemma frame_tables:
  assumes "same_dir CHR ''t'' w w'"
  shows "tables.holds lib w' = tables.holds lib w"
    "kv_at w' NEXT_TABLE_ID_KEY = kv_at w NEXT_TABLE_ID_KEY \<Longrightarrow> tables.kind_ok lib w' = tables.kind_ok lib w"
proof -
  have keys: "kv_at w' (case k of (d, s, n) \<Rightarrow> table_by_name_key d s n) = kv_at w (case k of (d, s, n) \<Rightarrow> table_by_name_key d s n)"
    "kv_at w' (table_by_id_key i) = kv_at w (table_by_id_key i)"
    for k i using same_dirD [OF assms] by (simp_all add: catalog_keys case_prod_beta)
  show "tables.holds lib w' = tables.holds lib w" by (rule tables.frame) (rule keys)+
  show "tables.kind_ok lib w' = tables.kind_ok lib w" if "kv_at w' NEXT_TABLE_ID_KEY = kv_at w NEXT_TABLE_ID_KEY"
    by (rule tables.kind_ok_frame) (rule keys that)+
qed

lemma frame_indexes:
  assumes "same_dir CHR ''i'' w w'"
  shows "indexes.holds lib w' = indexes.holds lib w" "index_lists_ok lib w' = index_lists_ok lib w"
    "kv_at w' NEXT_INDEX_ID_KEY = kv_at w NEXT_INDEX_ID_KEY \<Longrightarrow> indexes.kind_ok lib w' = indexes.kind_ok lib w"
proof -
  have keys: "kv_at w' (case k of (d, s, n) \<Rightarrow> index_by_name_key d s n) = kv_at w (case k of (d, s, n) \<Rightarrow> index_by_name_key d s n)"
    "kv_at w' (index_by_id_key i) = kv_at w (index_by_id_key i)" "kv_at w' (index_by_table_prefix t @ r) = kv_at w (index_by_table_prefix t @ r)"
    for k i t r using same_dirD [OF assms] by (simp_all add: catalog_keys case_prod_beta)
  show "indexes.holds lib w' = indexes.holds lib w" by (rule indexes.frame) (rule keys)+
  show "index_lists_ok lib w' = index_lists_ok lib w" by (simp add: index_lists_ok_def listed_def keys)
  show "indexes.kind_ok lib w' = indexes.kind_ok lib w" if "kv_at w' NEXT_INDEX_ID_KEY = kv_at w NEXT_INDEX_ID_KEY"
    by (rule indexes.kind_ok_frame) (rule keys that)+
qed

lemma frame_views:
  assumes "same_dir CHR ''v'' w w'"
  shows "views.holds lib w' = views.holds lib w"
    "kv_at w' NEXT_VIEW_ID_KEY = kv_at w NEXT_VIEW_ID_KEY \<Longrightarrow> views.kind_ok lib w' = views.kind_ok lib w"
proof -
  have keys: "kv_at w' (case k of (d, s, n) \<Rightarrow> view_by_name_key d s n) = kv_at w (case k of (d, s, n) \<Rightarrow> view_by_name_key d s n)"
    "kv_at w' (view_by_id_key i) = kv_at w (view_by_id_key i)"
    for k i using same_dirD [OF assms] by (simp_all add: catalog_keys case_prod_beta)
  show "views.holds lib w' = views.holds lib w" by (rule views.frame) (rule keys)+
  show "views.kind_ok lib w' = views.kind_ok lib w" if "kv_at w' NEXT_VIEW_ID_KEY = kv_at w NEXT_VIEW_ID_KEY"
    by (rule views.kind_ok_frame) (rule keys that)+
qed

lemma frame_owners:
  assumes "same_dir CHR ''s'' w w'" "kv_at w' NEXT_DATABASE_ID_KEY = kv_at w NEXT_DATABASE_ID_KEY"
  shows "owners_ok lib w' = owners_ok lib w"
  by (simp add: owners_ok_def below_def frame_schemas(1) [OF assms(1)] assms(2))

lemmas frames = frame_databases frame_schemas frame_tables frame_indexes frame_views

text \<open>What each write leaves alone: the directories of the other kinds.\<close>

lemma same_dir_upd: "(\<And>r. key \<noteq> ''__catalog__/'' @ c # r) \<Longrightarrow> same_dir c w (w(as_bytes key := v))"
  by (auto simp: same_dir_def)

definition COUNTERS :: "string set" where
  "COUNTERS = {NEXT_DATABASE_ID_KEY, NEXT_SCHEMA_ID_KEY, NEXT_TABLE_ID_KEY, NEXT_INDEX_ID_KEY, NEXT_VIEW_ID_KEY}"

lemma same_dir_counter:
  assumes "c \<noteq> CHR ''n''" "key \<in> COUNTERS"
  shows "same_dir c w (w(as_bytes key := v))"
  by (rule same_dir_upd) (use assms in \<open>auto simp: counter_keys COUNTERS_def\<close>)

lemma same_dir_legacy: "same_dir c w (w(as_bytes (schema_key n) := v))"
  by (rule same_dir_upd) (simp add: schema_key_def SCHEMA_PREFIX_def)

lemma same_dir_objects:
  "c \<noteq> CHR ''d'' \<Longrightarrow> same_dir c w (databases.written w p d)"
  "c \<noteq> CHR ''d'' \<Longrightarrow> same_dir c w (databases.removed w d)"
  "c \<noteq> CHR ''s'' \<Longrightarrow> same_dir c w (schemas.written w p s)"
  "c \<noteq> CHR ''s'' \<Longrightarrow> same_dir c w (schemas.removed w s)"
  "c \<noteq> CHR ''t'' \<Longrightarrow> same_dir c w (tables.written w p t)"
  "c \<noteq> CHR ''t'' \<Longrightarrow> same_dir c w (tables.removed w t)"
  "c \<noteq> CHR ''i'' \<Longrightarrow> same_dir c w (indexes.written w p x)"
  "c \<noteq> CHR ''i'' \<Longrightarrow> same_dir c w (indexes.removed w x)"
  "c \<noteq> CHR ''v'' \<Longrightarrow> same_dir c w (views.written w p v)"
  "c \<noteq> CHR ''v'' \<Longrightarrow> same_dir c w (views.removed w v)"
  unfolding same_dir_def databases.written_def databases.removed_def schemas.written_def schemas.removed_def
    tables.written_def tables.removed_def indexes.written_def indexes.removed_def views.written_def views.removed_def
  by (simp_all add: catalog_keys)

text \<open>The counters are in a directory of their own.\<close>

lemma same_counters:
  assumes "same_dir CHR ''n'' w w'" "key \<in> COUNTERS"
  shows "kv_at w' key = kv_at w key"
  using same_dirD [OF assms(1)] assms(2) by (auto simp: counter_keys COUNTERS_def)

lemma COUNTERS [simp]: "NEXT_DATABASE_ID_KEY \<in> COUNTERS" "NEXT_SCHEMA_ID_KEY \<in> COUNTERS" "NEXT_TABLE_ID_KEY \<in> COUNTERS"
  "NEXT_INDEX_ID_KEY \<in> COUNTERS" "NEXT_VIEW_ID_KEY \<in> COUNTERS"
  by (simp_all add: COUNTERS_def)

section \<open>The writes keep the invariant\<close>

lemma other_counters:
  "NEXT_DATABASE_ID_KEY \<noteq> NEXT_SCHEMA_ID_KEY" "NEXT_DATABASE_ID_KEY \<noteq> NEXT_TABLE_ID_KEY" "NEXT_DATABASE_ID_KEY \<noteq> NEXT_INDEX_ID_KEY"
  "NEXT_DATABASE_ID_KEY \<noteq> NEXT_VIEW_ID_KEY" "NEXT_SCHEMA_ID_KEY \<noteq> NEXT_TABLE_ID_KEY" "NEXT_SCHEMA_ID_KEY \<noteq> NEXT_INDEX_ID_KEY"
  "NEXT_SCHEMA_ID_KEY \<noteq> NEXT_VIEW_ID_KEY" "NEXT_TABLE_ID_KEY \<noteq> NEXT_INDEX_ID_KEY" "NEXT_TABLE_ID_KEY \<noteq> NEXT_VIEW_ID_KEY"
  "NEXT_INDEX_ID_KEY \<noteq> NEXT_VIEW_ID_KEY"
  by (simp_all add: counter_keys)

text \<open>A changed view keeps the invariant when each kind is either untouched or still in order.\<close>

lemma inv_change:
  assumes "catalog_inv lib w"
    and "same_dir CHR ''d'' w w' \<or> booted w'"
    and "same_dir CHR ''d'' w w' \<and> kv_at w' NEXT_DATABASE_ID_KEY = kv_at w NEXT_DATABASE_ID_KEY \<or> databases.kind_ok lib w'"
    and "same_dir CHR ''s'' w w' \<and> kv_at w' NEXT_SCHEMA_ID_KEY = kv_at w NEXT_SCHEMA_ID_KEY \<or> schemas.kind_ok lib w'"
    and "same_dir CHR ''t'' w w' \<and> kv_at w' NEXT_TABLE_ID_KEY = kv_at w NEXT_TABLE_ID_KEY \<or> tables.kind_ok lib w'"
    and "same_dir CHR ''i'' w w' \<and> kv_at w' NEXT_INDEX_ID_KEY = kv_at w NEXT_INDEX_ID_KEY \<or> indexes.kind_ok lib w'"
    and "same_dir CHR ''v'' w w' \<and> kv_at w' NEXT_VIEW_ID_KEY = kv_at w NEXT_VIEW_ID_KEY \<or> views.kind_ok lib w'"
    and "same_dir CHR ''i'' w w' \<or> index_lists_ok lib w'"
    and "same_dir CHR ''s'' w w' \<and> kv_at w' NEXT_DATABASE_ID_KEY = kv_at w NEXT_DATABASE_ID_KEY \<or> owners_ok lib w'"
  shows "catalog_inv lib w'"
  unfolding catalog_inv_def
proof (intro conjI)
  note inv = assms(1) [unfolded catalog_inv_def]
  show "booted w'" using assms(2) inv frame_databases(2) [of w w'] by blast
  show "databases.kind_ok lib w'" using assms(3) inv frame_databases(3) [of w w' lib] by blast
  show "schemas.kind_ok lib w'" using assms(4) inv frame_schemas(2) [of w w' lib] by blast
  show "tables.kind_ok lib w'" using assms(5) inv frame_tables(2) [of w w' lib] by blast
  show "indexes.kind_ok lib w'" using assms(6) inv frame_indexes(3) [of w w' lib] by blast
  show "views.kind_ok lib w'" using assms(7) inv frame_views(2) [of w w' lib] by blast
  show "index_lists_ok lib w'" using assms(8) inv frame_indexes(2) [of w w' lib] by blast
  show "owners_ok lib w'" using assms(9) inv frame_owners [of w w' lib] by blast
qed

lemmas untouched = same_dir_counter same_dir_legacy same_dir_objects same_dir_objects [THEN same_counters]
  same_dir_legacy [THEN same_counters] other_counters other_counters [symmetric]

lemma owners_bump:
  assumes "owners_ok lib w" "kv_at w NEXT_DATABASE_ID_KEY = Some (to_be_bytes (i :: u32))" "i \<noteq> - 1"
  shows "owners_ok lib (w(as_bytes NEXT_DATABASE_ID_KEY \<mapsto> to_be_bytes (i + 1)))"
  using assms word_less_step [of _ i] frame_schemas(1) [of w "w(as_bytes NEXT_DATABASE_ID_KEY \<mapsto> to_be_bytes (i + 1))" lib]
  by (auto simp: owners_ok_def below_def same_dir_counter)

lemma inv_bump:
  assumes "catalog_inv lib w" "i \<noteq> - 1" "kv_at w key = Some (to_be_bytes (i :: u32))" "key \<in> COUNTERS"
  shows "catalog_inv lib (w(as_bytes key \<mapsto> to_be_bytes (i + 1)))"
  by (rule inv_change [OF assms(1)])
    (use assms databases.kind_ok_bump [of lib w i] schemas.kind_ok_bump [of lib w i] tables.kind_ok_bump [of lib w i]
      indexes.kind_ok_bump [of lib w i] views.kind_ok_bump [of lib w i] owners_bump [of lib w i] in \<open>auto simp: catalog_inv_def untouched COUNTERS_def\<close>)

lemma legacy_apart: "key \<in> COUNTERS \<Longrightarrow> key \<noteq> schema_key n"
  by (auto simp: COUNTERS_def counter_keys schema_key_def SCHEMA_PREFIX_def)

lemma inv_legacy: "catalog_inv lib w \<Longrightarrow> catalog_inv lib (w(as_bytes (schema_key n) := v))"
  by (erule inv_change) (simp_all add: untouched legacy_apart)

lemma inv_database_written:
  assumes "catalog_inv lib w" "databases.room_for lib w d" "decode_database_catalog lib p = Inr d" "below w NEXT_DATABASE_ID_KEY (dc_id d)"
  shows "catalog_inv lib (databases.written w p d)"
  by (rule inv_change [OF assms(1)])
    (use assms databases.kind_ok_written [OF _ assms(2-4)]
      in \<open>auto simp: untouched catalog_inv_def booted_def databases.at_written\<close>)

lemma inv_schema_written:
  assumes "catalog_inv lib w" "schemas.room_for lib w s" "decode_schema_catalog lib p = Inr s" "below w NEXT_SCHEMA_ID_KEY (sc_id s)"
    "below w NEXT_DATABASE_ID_KEY (sc_database_id s)"
  shows "catalog_inv lib (schemas.written w p s)"
proof -
  have "schemas.consistent lib w" using assms(1) by (simp add: catalog_inv_def schemas.kind_ok_def)
  then have "owners_ok lib w \<Longrightarrow> owners_ok lib (schemas.written w p s)"
    using assms(5) by (auto simp: owners_ok_def below_def schemas.holds_written [OF _ assms(2,3)] untouched)
  then show ?thesis
    by (intro inv_change [OF assms(1)])
      (use assms(1) schemas.kind_ok_written [OF _ assms(2-4)] in \<open>auto simp: untouched catalog_inv_def\<close>)
qed

lemma inv_table_written:
  assumes "catalog_inv lib w" "tables.room_for lib w t" "decode_table_catalog lib p = Inr t" "below w NEXT_TABLE_ID_KEY (table_id (tc_schema t))"
  shows "catalog_inv lib (tables.written w p t)"
  by (rule inv_change [OF assms(1)])
    (use assms(1) tables.kind_ok_written [OF _ assms(2-4)] in \<open>auto simp: untouched catalog_inv_def\<close>)

lemma inv_view_written:
  assumes "catalog_inv lib w" "views.room_for lib w v" "decode_view_catalog lib p = Inr v" "below w NEXT_VIEW_ID_KEY (vc_id v)"
  shows "catalog_inv lib (views.written w p v)"
  by (rule inv_change [OF assms(1)])
    (use assms(1) views.kind_ok_written [OF _ assms(2-4)] in \<open>auto simp: untouched catalog_inv_def\<close>)

lemma owners_removed:
  "owners_ok lib w \<Longrightarrow> schemas.holds lib w (sc_database_id s, sc_name s) s \<Longrightarrow> owners_ok lib (schemas.removed w s)"
  by (auto simp: owners_ok_def below_def schemas.holds_removed untouched)

lemma inv_removed:
  assumes "catalog_inv lib w"
  shows "databases.holds lib w (dc_name d) d \<Longrightarrow> dc_name d \<noteq> DEFAULT_DATABASE_NAME \<Longrightarrow> catalog_inv lib (databases.removed w d)"
    and "schemas.holds lib w (sc_database_id s, sc_name s) s \<Longrightarrow> catalog_inv lib (schemas.removed w s)"
    and "tables.holds lib w (tc_database_id t, tc_schema_id t, tc_table_name t) t \<Longrightarrow> catalog_inv lib (tables.removed w t)"
    and "views.holds lib w (vc_database_id v, vc_schema_id v, vc_name v) v \<Longrightarrow> catalog_inv lib (views.removed w v)"
  by (rule inv_change [OF assms]; use assms databases.kind_ok_removed [of lib w d] schemas.kind_ok_removed [of lib w s]
    tables.kind_ok_removed [of lib w t] views.kind_ok_removed [of lib w v] owners_removed [of lib w s]
    in \<open>auto simp: untouched catalog_inv_def booted_def databases.at_removed\<close>)+

text \<open>An index is also listed under its table.\<close>

definition index_written :: "kv_view \<Rightarrow> bytes \<Rightarrow> index_catalog \<Rightarrow> kv_view" where
  "index_written w p x =
     (indexes.written w p x)(as_bytes (index_by_table_key (ix_table_id x) (ix_id x)) \<mapsto> to_be_bytes (ix_id x))"

definition index_removed :: "kv_view \<Rightarrow> index_catalog \<Rightarrow> kv_view" where
  "index_removed w x = (indexes.removed w x)(as_bytes (index_by_table_key (ix_table_id x) (ix_id x)) := None)"

lemma prefix_keys [simp]:
  "(index_by_table_prefix t @ r = index_by_table_key t' i) = (t = t' \<and> r = show_nat (unat i))"
  "index_by_table_prefix t @ r \<noteq> index_by_id_key i" "index_by_id_key i \<noteq> index_by_table_prefix t @ r"
  "index_by_table_prefix t @ r \<noteq> index_by_name_key d s n" "index_by_name_key d s n \<noteq> index_by_table_prefix t @ r"
  "index_by_id_key i \<noteq> index_by_name_key d s n" "index_by_id_key i \<noteq> index_by_table_key t j" "index_by_name_key d s n \<noteq> index_by_table_key t j"
  by (simp_all add: catalog_keys)

lemma same_dir_index:
  "c \<noteq> CHR ''i'' \<Longrightarrow> same_dir c w (index_written w p x)" "c \<noteq> CHR ''i'' \<Longrightarrow> same_dir c w (index_removed w x)"
  unfolding same_dir_def index_written_def index_removed_def indexes.written_def indexes.removed_def
  by (simp_all add: catalog_keys)

lemma at_index_written:
  "kv_at (index_written w p x) (index_by_id_key i) = (if i = ix_id x then Some p else kv_at w (index_by_id_key i))"
  "kv_at (index_written w p x) (index_by_table_prefix t @ r) =
     (if t = ix_table_id x \<and> r = show_nat (unat (ix_id x)) then Some (to_be_bytes (ix_id x)) else kv_at w (index_by_table_prefix t @ r))"
  by (simp_all add: index_written_def indexes.written_def)

lemma at_index_removed:
  "kv_at (index_removed w x) (index_by_id_key i) = (if i = ix_id x then None else kv_at w (index_by_id_key i))"
  "kv_at (index_removed w x) (index_by_table_prefix t @ r) =
     (if t = ix_table_id x \<and> r = show_nat (unat (ix_id x)) then None else kv_at w (index_by_table_prefix t @ r))"
  by (simp_all add: index_removed_def indexes.removed_def)

lemma index_frames:
  "indexes.holds lib (index_written w p x) = indexes.holds lib (indexes.written w p x)"
  "indexes.kind_ok lib (index_written w p x) = indexes.kind_ok lib (indexes.written w p x)"
  "indexes.holds lib (index_removed w x) = indexes.holds lib (indexes.removed w x)"
  "indexes.kind_ok lib (index_removed w x) = indexes.kind_ok lib (indexes.removed w x)"
  by (rule indexes.frame indexes.kind_ok_frame;
      auto simp: index_written_def index_removed_def indexes.at_written indexes.at_removed catalog_keys counter_keys)+

lemma listed_other:
  assumes "r \<noteq> show_nat (unat j)" "\<And>i. i \<noteq> j \<Longrightarrow> kv_at w' (index_by_id_key i) = kv_at w (index_by_id_key i)"
  shows "listed lib w' t r b = listed lib w t r b"
  using assms by (auto simp: listed_def)

lemma index_lists_written:
  assumes "index_lists_ok lib w" "kv_at w (index_by_id_key (ix_id x)) = None" "decode_index_catalog lib p = Inr x"
  shows "index_lists_ok lib (index_written w p x)"
  unfolding index_lists_ok_def
proof (intro allI)
  fix t r b
  show "(kv_at (index_written w p x) (index_by_table_prefix t @ r) = Some b) = listed lib (index_written w p x) t r b"
  proof (cases "r = show_nat (unat (ix_id x))")
    case True
    have none: "kv_at w (index_by_table_prefix t @ r) = None"
      using assms(1,2) True by (cases "kv_at w (index_by_table_prefix t @ r)") (auto simp: index_lists_ok_def listed_def)
    then show ?thesis using True assms(3) by (auto simp: at_index_written listed_def)
  next
    case False
    then have "listed lib (index_written w p x) t r b = listed lib w t r b"
      by (rule listed_other) (simp add: at_index_written)
    then show ?thesis using False assms(1) by (simp add: at_index_written index_lists_ok_def)
  qed
qed

lemma index_lists_removed:
  assumes "index_lists_ok lib w" "indexes.holds lib w n x"
  shows "index_lists_ok lib (index_removed w x)"
  unfolding index_lists_ok_def
proof (intro allI)
  fix t r b
  show "(kv_at (index_removed w x) (index_by_table_prefix t @ r) = Some b) = listed lib (index_removed w x) t r b"
  proof (cases "r = show_nat (unat (ix_id x))")
    case True
    have "kv_at w (index_by_table_prefix t @ r) = None" if "t \<noteq> ix_table_id x"
      using assms True that
      by (cases "kv_at w (index_by_table_prefix t @ r)") (auto simp: index_lists_ok_def listed_def indexes.holds_def)
    then show ?thesis using True by (auto simp: at_index_removed listed_def)
  next
    case False
    then have "listed lib (index_removed w x) t r b = listed lib w t r b"
      by (rule listed_other) (simp add: at_index_removed)
    then show ?thesis using False assms(1) by (simp add: at_index_removed index_lists_ok_def)
  qed
qed

lemma inv_index_written:
  assumes "catalog_inv lib w" "indexes.room_for lib w x" "kv_at w (index_by_id_key (ix_id x)) = None"
    "decode_index_catalog lib p = Inr x" "below w NEXT_INDEX_ID_KEY (ix_id x)"
  shows "catalog_inv lib (index_written w p x)"
  by (rule inv_change [OF assms(1)])
    (use assms indexes.kind_ok_written [OF _ assms(2,4,5)] index_lists_written [of lib w x p]
      in \<open>auto simp: catalog_inv_def index_frames same_dir_index same_dir_index [THEN same_counters]\<close>)

lemma inv_index_removed:
  assumes "catalog_inv lib w" "indexes.holds lib w (ix_database_id x, ix_schema_id x, ix_name x) x"
  shows "catalog_inv lib (index_removed w x)"
  by (rule inv_change [OF assms(1)])
    (use assms indexes.kind_ok_removed [OF _ assms(2)] index_lists_removed [of lib w _ x]
      in \<open>auto simp: catalog_inv_def index_frames same_dir_index same_dir_index [THEN same_counters]\<close>)

end
