(* ===== verification/Catalog_Ops.thy ===== *)
theory Catalog_Ops
  imports Catalog_Invariant
begin

text \<open>
  What the operations of the catalog do, on every store that fulfils the contract of \<open>Store_Ops\<close>:
  the results of creating, reading, replacing, renaming, listing and dropping, the errors, and that
  each keeps the invariant.
\<close>

section \<open>Creating an object\<close>

definition exhausted :: "kv_view \<Rightarrow> string \<Rightarrow> bool" where
  "exhausted w key = (kv_at w key = Some (to_be_bytes (- 1 :: u32)))"

abbreviation bumped :: "kv_view \<Rightarrow> string \<Rightarrow> u32 \<Rightarrow> kv_view" where
  "bumped w key i \<equiv> w(as_bytes key \<mapsto> to_be_bytes (i + 1))"

lemma inv_kinds:
  assumes "catalog_inv lib w"
  shows "booted w" "databases.consistent lib w" "schemas.consistent lib w" "tables.consistent lib w" "indexes.consistent lib w"
    "views.consistent lib w"
  using assms by (simp_all add: catalog_inv_def databases.kind_ok_def schemas.kind_ok_def tables.kind_ok_def
    indexes.kind_ok_def views.kind_ok_def)

text \<open>The id a counter gives out.\<close>

lemma next_id:
  assumes "catalog_inv lib w" "key \<in> COUNTERS" "\<not> exhausted w key"
  obtains i :: u32 where "kv_at w key = Some (to_be_bytes i)" "i \<noteq> - 1"
proof -
  have "\<exists>i :: u32. kv_at w key = Some (to_be_bytes i)"
    using assms(1,2) by (auto simp: catalog_inv_def COUNTERS_def databases.kind_ok_def schemas.kind_ok_def tables.kind_ok_def
      indexes.kind_ok_def views.kind_ok_def)
  then show ?thesis using assms(3) that by (auto simp: exhausted_def)
qed

lemma holds_bumped:
  assumes "key \<in> COUNTERS"
  shows "databases.holds lib (bumped w key i) = databases.holds lib w" "schemas.holds lib (bumped w key i) = schemas.holds lib w"
    "tables.holds lib (bumped w key i) = tables.holds lib w" "indexes.holds lib (bumped w key i) = indexes.holds lib w"
    "views.holds lib (bumped w key i) = views.holds lib w" "booted (bumped w key i) = booted w"
  by (rule frames(1,2) frame_schemas(1) frame_tables(1) frame_indexes(1) frame_views(1); simp add: same_dir_counter assms)+

lemma new_database_has_no_schema:
  assumes "catalog_inv lib w" "kv_at w NEXT_DATABASE_ID_KEY = Some (to_be_bytes (i :: u32))"
  shows "kv_at w (schema_by_name_key i n) = None"
proof -
  have "\<not> schemas.holds lib w (i, n) s" for s
  proof
    assume s: "schemas.holds lib w (i, n) s"
    then have "below w NEXT_DATABASE_ID_KEY (sc_database_id s)" using assms(1) by (auto simp: catalog_inv_def owners_ok_def)
    moreover have "sc_database_id s = i" using s by (auto simp: schemas.holds_def)
    ultimately show False using assms(2) by (simp add: below_def)
  qed
  then show ?thesis using schemas.absent [OF inv_kinds(3) [OF assms(1)], of "(i, n)"] by simp
qed

context kv_implementation
begin

lemma insert_database:
  assumes "json_reads_back lib" "catalog_inv lib w" "kv_at w (database_by_name_key (dc_name d)) = None"
    "kv_at w NEXT_DATABASE_ID_KEY = Some (to_be_bytes (dc_id d))" "dc_id d \<noteq> - 1"
  obtains p where
    "computes R (write_database_inner lib ops d) (bumped w NEXT_DATABASE_ID_KEY (dc_id d)) (Inr ())
       (databases.written (bumped w NEXT_DATABASE_ID_KEY (dc_id d)) p d)"
    "catalog_inv lib (databases.written (bumped w NEXT_DATABASE_ID_KEY (dc_id d)) p d)"
    "\<And>n. databases.holds lib (databases.written (bumped w NEXT_DATABASE_ID_KEY (dc_id d)) p d) n =
       (if n = dc_name d then (\<lambda>x. x = d) else databases.holds lib w n)"
proof -
  let ?w = "bumped w NEXT_DATABASE_ID_KEY (dc_id d)"
  obtain p where p: "decode_database_catalog lib p = Inr d"
    and run: "computes R (write_database_inner lib ops d) ?w (Inr ()) (databases.written ?w p d)"
    using write_database_computes [OF assms(1), of d] by blast
  have ok: "databases.kind_ok lib w" using assms(2) by (simp add: catalog_inv_def)
  have inv: "catalog_inv lib ?w" by (rule inv_bump [OF assms(2,5,4)]) simp
  note room = databases.allocated_room [OF ok assms(4,5) refl assms(3)]
  show ?thesis
    by (rule that [OF run inv_database_written [OF inv room(1) p room(2)]])
      (simp add: fun_eq_iff databases.holds_written [OF inv_kinds(2) [OF inv] room(1) p] holds_bumped)
qed

lemma insert_schema:
  assumes "json_reads_back lib" "catalog_inv lib w" "kv_at w (schema_by_name_key (sc_database_id s) (sc_name s)) = None"
    "kv_at w NEXT_SCHEMA_ID_KEY = Some (to_be_bytes (sc_id s))" "sc_id s \<noteq> - 1" "below w NEXT_DATABASE_ID_KEY (sc_database_id s)"
  obtains p where
    "computes R (write_schema_inner lib ops s) (bumped w NEXT_SCHEMA_ID_KEY (sc_id s)) (Inr ())
       (schemas.written (bumped w NEXT_SCHEMA_ID_KEY (sc_id s)) p s)"
    "catalog_inv lib (schemas.written (bumped w NEXT_SCHEMA_ID_KEY (sc_id s)) p s)"
    "\<And>k. schemas.holds lib (schemas.written (bumped w NEXT_SCHEMA_ID_KEY (sc_id s)) p s) k =
       (if k = (sc_database_id s, sc_name s) then (\<lambda>x. x = s) else schemas.holds lib w k)"
proof -
  let ?w = "bumped w NEXT_SCHEMA_ID_KEY (sc_id s)"
  obtain p where p: "decode_schema_catalog lib p = Inr s"
    and run: "computes R (write_schema_inner lib ops s) ?w (Inr ()) (schemas.written ?w p s)"
    using write_schema_computes [OF assms(1), of s] by blast
  have ok: "schemas.kind_ok lib w" using assms(2) by (simp add: catalog_inv_def)
  have inv: "catalog_inv lib ?w" by (rule inv_bump [OF assms(2,5,4)]) simp
  have owner: "below ?w NEXT_DATABASE_ID_KEY (sc_database_id s)" using assms(6) by (simp add: below_def other_counters)
  note room = schemas.allocated_room [OF ok assms(4,5), of s, simplified, OF assms(3)]
  show ?thesis
    by (rule that [OF run inv_schema_written [OF inv room(1) p room(2) owner]])
      (simp add: fun_eq_iff schemas.holds_written [OF inv_kinds(3) [OF inv] room(1) p] holds_bumped)
qed

lemma insert_view:
  assumes "json_reads_back lib" "catalog_inv lib w" "kv_at w (view_by_name_key (vc_database_id v) (vc_schema_id v) (vc_name v)) = None"
    "kv_at w NEXT_VIEW_ID_KEY = Some (to_be_bytes (vc_id v))" "vc_id v \<noteq> - 1"
  obtains p where
    "computes R (write_view lib ops v) (bumped w NEXT_VIEW_ID_KEY (vc_id v)) (Inr ())
       (views.written (bumped w NEXT_VIEW_ID_KEY (vc_id v)) p v)"
    "catalog_inv lib (views.written (bumped w NEXT_VIEW_ID_KEY (vc_id v)) p v)"
    "\<And>k. views.holds lib (views.written (bumped w NEXT_VIEW_ID_KEY (vc_id v)) p v) k =
       (if k = (vc_database_id v, vc_schema_id v, vc_name v) then (\<lambda>x. x = v) else views.holds lib w k)"
proof -
  let ?w = "bumped w NEXT_VIEW_ID_KEY (vc_id v)"
  obtain p where p: "decode_view_catalog lib p = Inr v"
    and run: "computes R (write_view lib ops v) ?w (Inr ()) (views.written ?w p v)"
    using write_view_computes [OF assms(1), of v] by blast
  have ok: "views.kind_ok lib w" using assms(2) by (simp add: catalog_inv_def)
  have inv: "catalog_inv lib ?w" by (rule inv_bump [OF assms(2,5,4)]) simp
  note room = views.allocated_room [OF ok assms(4,5), of v, simplified, OF assms(3)]
  show ?thesis
    by (rule that [OF run inv_view_written [OF inv room(1) p room(2)]])
      (simp add: fun_eq_iff views.holds_written [OF inv_kinds(6) [OF inv] room(1) p] holds_bumped)
qed

lemma insert_index:
  assumes "json_reads_back lib" "catalog_inv lib w" "kv_at w (index_by_name_key (ix_database_id x) (ix_schema_id x) (ix_name x)) = None"
    "kv_at w NEXT_INDEX_ID_KEY = Some (to_be_bytes (ix_id x))" "ix_id x \<noteq> - 1"
  obtains p where
    "computes R (write_index lib ops x) (bumped w NEXT_INDEX_ID_KEY (ix_id x)) (Inr ())
       (index_written (bumped w NEXT_INDEX_ID_KEY (ix_id x)) p x)"
    "catalog_inv lib (index_written (bumped w NEXT_INDEX_ID_KEY (ix_id x)) p x)"
    "\<And>k. indexes.holds lib (index_written (bumped w NEXT_INDEX_ID_KEY (ix_id x)) p x) k =
       (if k = (ix_database_id x, ix_schema_id x, ix_name x) then (\<lambda>y. y = x) else indexes.holds lib w k)"
proof -
  let ?w = "bumped w NEXT_INDEX_ID_KEY (ix_id x)"
  obtain p where p: "decode_index_catalog lib p = Inr x"
    and run: "computes R (write_index lib ops x) ?w (Inr ()) (index_written ?w p x)"
    using write_index_computes [OF assms(1), of x] by (auto simp: index_written_def)
  have ok: "indexes.kind_ok lib w" using assms(2) by (simp add: catalog_inv_def)
  have inv: "catalog_inv lib ?w" by (rule inv_bump [OF assms(2,5,4)]) simp
  note room = indexes.allocated_room [OF ok assms(4,5), of x, simplified, OF assms(3)]
  have fresh: "kv_at ?w (index_by_id_key (ix_id x)) = None"
    using ok assms(4) by (cases "kv_at w (index_by_id_key (ix_id x))") (auto simp: indexes.kind_ok_def below_def)
  show ?thesis
    by (rule that [OF run inv_index_written [OF inv room(1) fresh p room(2)]])
      (simp add: index_frames fun_eq_iff indexes.holds_written [OF inv_kinds(5) [OF inv] room(1) p] holds_bumped)
qed

section \<open>Databases and schemas\<close>

lemma create_database_new:
  assumes "json_reads_back lib" "catalog_inv lib w" "\<And>d. \<not> databases.holds lib w n d"
    "\<not> exhausted w NEXT_DATABASE_ID_KEY" "\<not> exhausted w NEXT_SCHEMA_ID_KEY"
  shows "\<exists>d s w'. computes R (create_database lib ops n ine) w (Inr d) w' \<and> catalog_inv lib w' \<and> dc_name d = n \<and>
    databases.holds lib w' = (databases.holds lib w)(n := (\<lambda>x. x = d)) \<and>
    schemas.holds lib w' = (schemas.holds lib w)((dc_id d, DEFAULT_SCHEMA_NAME) := (\<lambda>x. x = s))"
proof -
  obtain i :: u32 where i: "kv_at w NEXT_DATABASE_ID_KEY = Some (to_be_bytes i)" "i \<noteq> - 1" using next_id [OF assms(2) _ assms(4)] by auto
  obtain j :: u32 where j: "kv_at w NEXT_SCHEMA_ID_KEY = Some (to_be_bytes j)" "j \<noteq> - 1" using next_id [OF assms(2) _ assms(5)] by auto
  let ?d = "\<lparr>dc_id = i, dc_name = n\<rparr>" and ?s = "\<lparr>sc_id = j, sc_database_id = i, sc_name = DEFAULT_SCHEMA_NAME\<rparr>"
  let ?w1 = "bumped w NEXT_DATABASE_ID_KEY i"
  have free: "kv_at w (database_by_name_key n) = None" using databases.absent [OF inv_kinds(2) [OF assms(2)]] assms(3) by blast
  obtain p where p: "computes R (write_database_inner lib ops ?d) ?w1 (Inr ()) (databases.written ?w1 p ?d)"
      "catalog_inv lib (databases.written ?w1 p ?d)"
      "\<And>m. databases.holds lib (databases.written ?w1 p ?d) m = (if m = n then (\<lambda>x. x = ?d) else databases.holds lib w m)"
    using insert_database [OF assms(1,2), of ?d] free i by auto
  let ?w2 = "databases.written ?w1 p ?d"
  have keep: "same_dir CHR ''s'' ?w1 ?w2" "same_dir CHR ''s'' w ?w1" by (simp_all add: untouched)
  have j2: "kv_at ?w2 NEXT_SCHEMA_ID_KEY = Some (to_be_bytes j)" using j by (simp add: untouched)
  have free2: "kv_at ?w2 (schema_by_name_key i DEFAULT_SCHEMA_NAME) = None"
    using new_database_has_no_schema [OF assms(2) i(1)] same_dirD [OF keep(1)] same_dirD [OF keep(2)]
    by (simp add: catalog_keys)
  have owner: "below ?w2 NEXT_DATABASE_ID_KEY i" using word_step [OF i(2)] by (simp add: below_def untouched)
  obtain q where q: "computes R (write_schema_inner lib ops ?s) (bumped ?w2 NEXT_SCHEMA_ID_KEY j) (Inr ())
        (schemas.written (bumped ?w2 NEXT_SCHEMA_ID_KEY j) q ?s)"
      "catalog_inv lib (schemas.written (bumped ?w2 NEXT_SCHEMA_ID_KEY j) q ?s)"
      "\<And>k. schemas.holds lib (schemas.written (bumped ?w2 NEXT_SCHEMA_ID_KEY j) q ?s) k =
        (if k = (i, DEFAULT_SCHEMA_NAME) then (\<lambda>x. x = ?s) else schemas.holds lib ?w2 k)"
    using insert_schema [OF assms(1) p(2), of ?s] free2 j2 j(2) owner by auto
  let ?w3 = "schemas.written (bumped ?w2 NEXT_SCHEMA_ID_KEY j) q ?s"
  have run: "computes R (create_database lib ops n ine) w (Inr ?d) ?w3"
    unfolding create_database_def Let_def
    by (rule computes_seq [OF bootstrapped [OF inv_kinds(1) [OF assms(2)]]],
        rule computes_bind [OF get_database_absent [OF inv_kinds(1) [OF assms(2)] free]], simp only: option.case,
        rule computes_bind [OF allocated [of w NEXT_DATABASE_ID_KEY, OF i(1)]], rule computes_seq [OF p(1)],
        rule computes_bind [OF allocated [of ?w2 NEXT_SCHEMA_ID_KEY, OF j2]], rule computes_seq [OF q(1) computes_return])
  have "databases.holds lib ?w3 = databases.holds lib ?w2"
    using frame_databases(1) [of "bumped ?w2 NEXT_SCHEMA_ID_KEY j" ?w3 lib] by (simp add: untouched holds_bumped)
  moreover have "schemas.holds lib ?w2 = schemas.holds lib w"
    using frame_schemas(1) [OF keep(1)] by (simp add: holds_bumped)
  ultimately show ?thesis using run q(2,3) p(3) by (intro exI [of _ ?d] exI [of _ ?s] exI [of _ ?w3]) (auto simp: fun_eq_iff)
qed

lemma create_database_existing:
  assumes "catalog_inv lib w" "databases.holds lib w n d"
  shows "computes R (create_database lib ops n ine) w
    (if ine then Inr d else Inl (user_error ''42P04'' (''database '' @ [CHR 0x27] @ n @ [CHR 0x27] @ '' already exists''))) w"
  unfolding create_database_def
  by (rule computes_seq [OF bootstrapped [OF inv_kinds(1) [OF assms(1)]]],
      rule computes_bind [OF get_database_found [OF inv_kinds(1) [OF assms(1)] assms(2)]])
    (simp add: computes_return computes_raise)

lemma create_schema_new:
  assumes "json_reads_back lib" "catalog_inv lib w" "databases.holds lib w db d" "\<And>s. \<not> schemas.holds lib w (dc_id d, n) s"
    "\<not> exhausted w NEXT_SCHEMA_ID_KEY"
  shows "\<exists>s w'. computes R (create_schema lib ops db n ine) w (Inr s) w' \<and> catalog_inv lib w' \<and>
    sc_database_id s = dc_id d \<and> sc_name s = n \<and> schemas.holds lib w' = (schemas.holds lib w)((dc_id d, n) := (\<lambda>x. x = s)) \<and>
    databases.holds lib w' = databases.holds lib w"
proof -
  obtain j :: u32 where j: "kv_at w NEXT_SCHEMA_ID_KEY = Some (to_be_bytes j)" "j \<noteq> - 1" using next_id [OF assms(2) _ assms(5)] by auto
  let ?s = "\<lparr>sc_id = j, sc_database_id = dc_id d, sc_name = n\<rparr>"
  have free: "kv_at w (schema_by_name_key (dc_id d) n) = None"
    using schemas.absent [OF inv_kinds(3) [OF assms(2)], of "(dc_id d, n)"] assms(4) by simp
  have owner: "below w NEXT_DATABASE_ID_KEY (dc_id d)"
    using databases.stored_below assms(2,3) by (auto simp: catalog_inv_def)
  obtain q where q: "computes R (write_schema_inner lib ops ?s) (bumped w NEXT_SCHEMA_ID_KEY j) (Inr ())
        (schemas.written (bumped w NEXT_SCHEMA_ID_KEY j) q ?s)"
      "catalog_inv lib (schemas.written (bumped w NEXT_SCHEMA_ID_KEY j) q ?s)"
      "\<And>k. schemas.holds lib (schemas.written (bumped w NEXT_SCHEMA_ID_KEY j) q ?s) k =
        (if k = (dc_id d, n) then (\<lambda>x. x = ?s) else schemas.holds lib w k)"
    using insert_schema [OF assms(1,2), of ?s] free j owner by auto
  let ?w = "schemas.written (bumped w NEXT_SCHEMA_ID_KEY j) q ?s"
  have b: "booted w" by (rule inv_kinds(1) [OF assms(2)])
  have run: "computes R (create_schema lib ops db n ine) w (Inr ?s) ?w"
    unfolding create_schema_def Let_def
    by (rule computes_seq [OF bootstrapped [OF b]], rule computes_bind [OF computes_require [OF get_database_found [OF b assms(3)]]],
        rule computes_bind [OF get_schema_absent [OF b free]], simp only: option.case,
        rule computes_bind [OF allocated [of w NEXT_SCHEMA_ID_KEY, OF j(1)]], rule computes_seq [OF q(1) computes_return])
  have "databases.holds lib ?w = databases.holds lib w"
    using frame_databases(1) [of "bumped w NEXT_SCHEMA_ID_KEY j" ?w lib] by (simp add: untouched holds_bumped)
  then show ?thesis using run q(2,3) by (intro exI [of _ ?s] exI [of _ ?w]) (auto simp: fun_eq_iff)
qed

lemma create_schema_existing:
  assumes "catalog_inv lib w" "databases.holds lib w db d" "schemas.holds lib w (dc_id d, n) s"
  shows "computes R (create_schema lib ops db n ine) w
    (if ine then Inr s else Inl (user_error ''42P06'' (quoted ''schema '' n '' already exists''))) w"
proof -
  have b: "booted w" by (rule inv_kinds(1) [OF assms(1)])
  show ?thesis unfolding create_schema_def
    by (rule computes_seq [OF bootstrapped [OF b]], rule computes_bind [OF computes_require [OF get_database_found [OF b assms(2)]]],
        rule computes_bind [OF get_schema_found [OF b assms(3)]]) (simp add: computes_return computes_raise)
qed

lemma create_schema_no_database:
  assumes "catalog_inv lib w" "\<And>d. \<not> databases.holds lib w db d"
  shows "computes R (create_schema lib ops db n ine) w (Inl (no_database db)) w"
proof -
  have b: "booted w" by (rule inv_kinds(1) [OF assms(1)])
  have free: "kv_at w (database_by_name_key db) = None" using databases.absent [OF inv_kinds(2) [OF assms(1)]] assms(2) by blast
  show ?thesis unfolding create_schema_def
    by (rule computes_seq [OF bootstrapped [OF b]],
        rule computes_bind_error [OF computes_require_none [OF get_database_absent [OF b free]]])
qed

lemma drop_schema_computes:
  assumes "catalog_inv lib w" "databases.holds lib w db d" "schemas.holds lib w (dc_id d, n) s"
  shows "computes R (drop_schema lib ops db n) w (Inr (Some s)) (schemas.removed w s)" "catalog_inv lib (schemas.removed w s)"
    "schemas.holds lib (schemas.removed w s) = (schemas.holds lib w)((dc_id d, n) := (\<lambda>_. False))"
proof -
  have b: "booted w" by (rule inv_kinds(1) [OF assms(1)])
  have s: "dc_id d = sc_database_id s" "n = sc_name s" using assms(3) by (auto simp: schemas.holds_def)
  have own: "schemas.holds lib w (sc_database_id s, sc_name s) s" using assms(3) s by simp
  show "computes R (drop_schema lib ops db n) w (Inr (Some s)) (schemas.removed w s)"
    unfolding drop_schema_def schemas.removed_def s
    by (rule computes_seq [OF bootstrapped [OF b]], rule computes_else [OF get_database_found [OF b assms(2)]],
        rule computes_else [OF get_schema_found [OF b assms(3) [unfolded s(2)]]], unfold s split, rule computes_seq [OF call_delete],
        rule computes_seq [OF call_delete computes_return])
  show "catalog_inv lib (schemas.removed w s)" by (rule inv_removed(2) [OF assms(1) own])
  show "schemas.holds lib (schemas.removed w s) = (schemas.holds lib w)((dc_id d, n) := (\<lambda>_. False))"
    using schemas.holds_removed [OF own] by (auto simp: fun_eq_iff s)
qed

text \<open>The default database is created again by the next operation when it is dropped.\<close>

lemma drop_database_computes:
  assumes "catalog_inv lib w" "databases.holds lib w n d" "n \<noteq> DEFAULT_DATABASE_NAME"
  shows "computes R (drop_database lib ops n) w (Inr (Some d)) (databases.removed w d)" "catalog_inv lib (databases.removed w d)"
    "databases.holds lib (databases.removed w d) = (databases.holds lib w)(n := (\<lambda>_. False))"
proof -
  have b: "booted w" by (rule inv_kinds(1) [OF assms(1)])
  have d: "n = dc_name d" using assms(2) by (auto simp: databases.holds_def)
  have own: "databases.holds lib w (dc_name d) d" using assms(2) d by simp
  show "computes R (drop_database lib ops n) w (Inr (Some d)) (databases.removed w d)"
    unfolding drop_database_def databases.removed_def d
    by (rule computes_seq [OF bootstrapped [OF b]], rule computes_else [OF get_database_found [OF b own]],
        rule computes_seq [OF call_delete], rule computes_seq [OF call_delete computes_return])
  show "catalog_inv lib (databases.removed w d)" by (rule inv_removed(1) [OF assms(1) own assms(3) [unfolded d]])
  show "databases.holds lib (databases.removed w d) = (databases.holds lib w)(n := (\<lambda>_. False))"
    using databases.holds_removed [OF own] by (auto simp: fun_eq_iff d)
qed

end

section \<open>Tables\<close>

lemma normalize_columns_types: "map col_type (normalize_columns i cs) = map col_type cs"
  by (induction i cs rule: normalize_columns.induct) simp_all

lemma normalize_keeps [simp]:
  "table_name (normalize_descriptor s) = table_name s" "table_id (normalize_descriptor s) = table_id s"
  by (simp_all add: normalize_descriptor_def Let_def)

lemma reload_keeps [simp]: "table_name (reload_schema s) = table_name s" "table_id (reload_schema s) = table_id s"
  by (simp_all add: reload_schema_def)

lemma schema_wf_types: "schema_wf s = (\<forall>dt \<in> set (map col_type (columns s)). type_wf dt)"
  by (simp add: schema_wf_def)

lemma schema_wf_normalize [simp]: "schema_wf (normalize_descriptor s) = schema_wf s"
  unfolding schema_wf_types by (simp add: normalize_descriptor_def Let_def normalize_columns_types del: set_map)

text \<open>The table as it is read back.\<close>

definition stored_table :: "database_catalog \<Rightarrow> schema_catalog \<Rightarrow> string \<Rightarrow> table_schema \<Rightarrow> table_catalog" where
  "stored_table d s sn sch =
     \<lparr>tc_database_id = dc_id d, tc_schema_id = sc_id s, tc_schema_name = sn, tc_table_name = table_name sch,
      tc_schema = reload_schema (normalize_descriptor sch)\<rparr>"

lemma stored_table_fields [simp]:
  "tc_database_id (stored_table d s sn sch) = dc_id d" "tc_schema_id (stored_table d s sn sch) = sc_id s"
  "tc_table_name (stored_table d s sn sch) = table_name sch" "table_id (tc_schema (stored_table d s sn sch)) = table_id sch"
  by (simp_all add: stored_table_def)

text \<open>Tables of the default schema are also kept in the legacy form.\<close>

definition with_legacy :: "string \<Rightarrow> string \<Rightarrow> string \<Rightarrow> bytes option \<Rightarrow> kv_view \<Rightarrow> kv_view" where
  "with_legacy db sn n l w = (if is_default_schema db sn then w(as_bytes (schema_key n) := l) else w)"

lemma inv_with_legacy: "catalog_inv lib w \<Longrightarrow> catalog_inv lib (with_legacy db sn n l w)"
  by (simp add: with_legacy_def inv_legacy)

lemma same_dir_with_legacy: "same_dir c w (with_legacy db sn n l w)"
  by (simp add: with_legacy_def same_dir_legacy) (simp add: same_dir_def)

lemma tables_with_legacy [simp]: "tables.holds lib (with_legacy db sn n l w) = tables.holds lib w"
  by (rule frame_tables(1) [OF same_dir_with_legacy])

lemma in_schema_frame:
  assumes "same_dir CHR ''d'' w w'" "same_dir CHR ''s'' w w'"
  shows "in_schema lib w' db sn d s = in_schema lib w db sn d s"
  by (simp add: in_schema_def frame_databases(1,2) [OF assms(1)] frame_schemas(1) [OF assms(2)])

lemma in_schema_table_written [simp]:
  "in_schema lib (with_legacy db' sn' n l (tables.written w p t)) db sn d s = in_schema lib w db sn d s"
  by (subst in_schema_frame [OF same_dir_with_legacy same_dir_with_legacy], rule in_schema_frame) (simp_all add: same_dir_objects)

text \<open>A table written under a fresh or its own id is the one found, and every other one stays.\<close>

lemma table_kept:
  assumes "catalog_inv lib w" "tables.room_for lib w (stored_table d s sn sch)" "below w NEXT_TABLE_ID_KEY (table_id sch)"
    "decode_table_catalog lib p = Inr (stored_table d s sn sch)"
  shows "catalog_inv lib (with_legacy db sn n l (tables.written w p (stored_table d s sn sch)))"
    "tables.holds lib (with_legacy db sn n l (tables.written w p (stored_table d s sn sch))) =
       (tables.holds lib w)((dc_id d, sc_id s, table_name sch) := (\<lambda>t. t = stored_table d s sn sch))"
proof -
  have "catalog_inv lib (tables.written w p (stored_table d s sn sch))"
    by (rule inv_table_written [OF assms(1,2,4)]) (simp add: assms(3))
  then show "catalog_inv lib (with_legacy db sn n l (tables.written w p (stored_table d s sn sch)))" by (rule inv_with_legacy)
  show "tables.holds lib (with_legacy db sn n l (tables.written w p (stored_table d s sn sch))) =
       (tables.holds lib w)((dc_id d, sc_id s, table_name sch) := (\<lambda>t. t = stored_table d s sn sch))"
    by (simp add: fun_eq_iff tables.holds_written [OF inv_kinds(4) [OF assms(1)] assms(2,4)])
qed

lemma at_table_removed:
  "kv_at (tables.removed w t) (table_by_name_key a b n) =
     (if (a, b, n) = (tc_database_id t, tc_schema_id t, tc_table_name t) then None else kv_at w (table_by_name_key a b n))"
  "kv_at (tables.removed w t) (table_by_id_key i) = (if i = table_id (tc_schema t) then None else kv_at w (table_by_id_key i))"
  using tables.at_removed(1) [of w t "(a, b, n)"] tables.at_removed(2) [of w t i] by simp_all

lemma at_with_legacy:
  "kv_at (with_legacy db sn n l w) (''__catalog__/'' @ r) = kv_at w (''__catalog__/'' @ r)"
  "key \<in> COUNTERS \<Longrightarrow> kv_at (with_legacy db sn n l w) key = kv_at w key"
  by (auto simp: with_legacy_def schema_key_def SCHEMA_PREFIX_def counter_keys COUNTERS_def)

lemma at_with_legacy_keys [simp]:
  "kv_at (with_legacy db sn n l w) (table_by_name_key a b m) = kv_at w (table_by_name_key a b m)"
  "kv_at (with_legacy db sn n l w) (table_by_id_key i) = kv_at w (table_by_id_key i)"
  using at_with_legacy(1) [of db sn n l w] by (simp_all add: catalog_keys)

lemma legacy_key_apart [simp]:
  "schema_key n \<noteq> table_by_name_key a b m" "schema_key n \<noteq> table_by_id_key i"
  "table_by_name_key a b m \<noteq> schema_key n" "table_by_id_key i \<noteq> schema_key n"
  "table_by_name_key a b m \<noteq> table_by_id_key i" "table_by_id_key i \<noteq> table_by_name_key a b m"
  by (simp_all add: schema_key_def SCHEMA_PREFIX_def catalog_keys)

context kv_implementation
begin

lemma store_table_computes:
  assumes "json_reads_back lib" "in_schema lib w db sn d s" "schema_wf sch"
  obtains p l where "decode_table_catalog lib p = Inr (stored_table d s sn sch)"
    "computes R (store_table lib ops db sn sch) w (Inr ())
       (with_legacy db sn (table_name sch) (Some l) (tables.written w p (stored_table d s sn sch)))"
proof -
  let ?n = "normalize_descriptor sch"
  let ?t = "\<lparr>tc_database_id = dc_id d, tc_schema_id = sc_id s, tc_schema_name = sn, tc_table_name = table_name ?n, tc_schema = ?n\<rparr>"
  obtain p where p: "encode_table_catalog lib ?t = Inr p" "decode_table_catalog lib p = Inr (stored_table d s sn sch)"
    using table_catalog_roundtrip [OF assms(1), of ?t] assms(3) by (auto simp: stored_table_def)
  obtain l where l: "encode_legacy_table_schema lib ?n = Inr l"
    using legacy_table_roundtrip [OF assms(1), of ?n] assms(3) by auto
  have "computes R (store_table lib ops db sn sch) w (Inr ())
       (with_legacy db sn (table_name sch) (Some l) (tables.written w p (stored_table d s sn sch)))"
    unfolding store_table_def Let_def
    by (rule in_schema_require [OF assms(2)], rule computes_bind [OF computes_lift_eq [OF p(1)]],
        rule computes_seq [OF call_put], rule computes_seq [OF call_put])
      (auto simp: with_legacy_def tables.written_def l intro!: computes_bind [OF computes_lift_eq] call_put computes_return)
  with p(2) show ?thesis by (rule that)
qed

text \<open>\<open>CREATE TABLE\<close> allocates the id and stores the descriptor under it.\<close>

lemma allocate_table_id_computes:
  assumes "catalog_inv lib w" "\<not> exhausted w NEXT_TABLE_ID_KEY"
  obtains i where "i \<noteq> - 1" "kv_at w NEXT_TABLE_ID_KEY = Some (to_be_bytes i)"
    "computes R (allocate_table_id lib ops) w (Inr i) (bumped w NEXT_TABLE_ID_KEY i)"
    "catalog_inv lib (bumped w NEXT_TABLE_ID_KEY i)"
proof -
  obtain i :: u32 where i: "kv_at w NEXT_TABLE_ID_KEY = Some (to_be_bytes i)" "i \<noteq> - 1" using next_id [OF assms(1) _ assms(2)] by auto
  have "computes R (allocate_table_id lib ops) w (Inr i) (bumped w NEXT_TABLE_ID_KEY i)"
    unfolding allocate_table_id_def
    by (rule computes_seq [OF bootstrapped [OF inv_kinds(1) [OF assms(1)]] allocated [of w NEXT_TABLE_ID_KEY, OF i(1)]])
  then show ?thesis using that i inv_bump [OF assms(1) i(2,1)] by simp
qed

text \<open>Renaming: the old name goes, the descriptor is stored again under the new one.\<close>

lemma rename_table_computes:
  assumes "json_reads_back lib" "catalog_inv lib w" "in_schema lib w db sn d s" "tables.holds lib w (dc_id d, sc_id s, old) t"
    "schema_wf (tc_schema t)" "\<And>t'. \<not> tables.holds lib w (dc_id d, sc_id s, new) t'"
    "is_default_schema db sn \<longrightarrow> kv_at w (schema_key new) = None"
  defines "t' \<equiv> t\<lparr>tc_table_name := new, tc_schema := (tc_schema t)\<lparr>table_name := new\<rparr>\<rparr>"
  shows "\<exists>w'. computes R (rename_table lib ops db sn old new) w (Inr t') w' \<and> catalog_inv lib w' \<and>
    tables.holds lib w' = (tables.holds lib w)((dc_id d, sc_id s, old) := (\<lambda>_. False),
      (dc_id d, sc_id s, new) := (\<lambda>x. x = stored_table d s sn (tc_schema t')))"
proof -
  let ?T = "stored_table d s sn (tc_schema t')" and ?w1 = "with_legacy db sn old None (tables.removed w t)"
  let ?w2 = "with_legacy db sn old None (w(as_bytes (table_by_name_key (dc_id d) (sc_id s) old) := None))"
  have t: "dc_id d = tc_database_id t" "sc_id s = tc_schema_id t" "old = tc_table_name t" using assms(4) by (auto simp: tables.holds_def)
  have own: "tables.holds lib w (tc_database_id t, tc_schema_id t, tc_table_name t) t" using assms(4) t by simp
  have free: "kv_at w (table_by_name_key (dc_id d) (sc_id s) new) = None"
    using tables.absent [OF inv_kinds(4) [OF assms(2)], of "(dc_id d, sc_id s, new)"] assms(6) by simp
  have wf: "schema_wf (tc_schema t')" using assms(5) by (simp add: t'_def schema_wf_def)
  have "same_dir c w (w(as_bytes (table_by_name_key (dc_id d) (sc_id s) old) := None))" if "c \<noteq> CHR ''t''" for c
    by (rule same_dir_upd) (use that in \<open>simp add: catalog_keys\<close>)
  then have in2: "in_schema lib ?w2 db sn d s"
    using assms(3) by (simp add: in_schema_frame [OF same_dir_with_legacy same_dir_with_legacy] in_schema_frame [of w])
  obtain p l where p: "decode_table_catalog lib p = Inr ?T"
    and run: "computes R (store_table lib ops db sn (tc_schema t')) ?w2 (Inr ()) (with_legacy db sn new (Some l) (tables.written ?w2 p ?T))"
    using store_table_computes [OF assms(1) in2 wf] by (auto simp: t'_def)
  have same: "tables.written ?w2 p ?T = tables.written ?w1 p ?T"
    unfolding tables.written_def tables.removed_def with_legacy_def by (auto simp: fun_eq_iff t'_def t)
  have room: "tables.room_for lib ?w1 ?T"
    using free by (simp add: tables.room_for_def t'_def at_table_removed)
  have id: "below ?w1 NEXT_TABLE_ID_KEY (table_id (tc_schema t'))"
    using tables.stored_below [OF _ own] assms(2) by (auto simp: t'_def below_def at_with_legacy untouched catalog_inv_def)
  note kept = table_kept [OF inv_with_legacy [OF inv_removed(3) [OF assms(2) own]] room id p, of db new "Some l"]
  have "computes R (rename_table lib ops db sn old new) w (Inr t') (with_legacy db sn new (Some l) (tables.written ?w2 p ?T))"
    unfolding rename_table_def Let_def t'_def [symmetric]
    by (rule in_schema_require [OF assms(3)],
        rule computes_bind [OF load_table_absent [OF assms(3) free assms(7)]], simp only: simp_thms if_False,
        rule computes_bind [OF computes_require [OF load_table_found [OF assms(3,4)]]], rule computes_seq [OF call_delete],
        rule computes_seq [of _ _ _ ?w2], simp add: with_legacy_def call_delete computes_return,
        fold t'_def, rule computes_seq [OF run computes_return])
  moreover have "tables.holds lib ?w1 = (tables.holds lib w)((dc_id d, sc_id s, old) := (\<lambda>_. False))"
    using tables.holds_removed [OF own] by (auto simp: fun_eq_iff t)
  ultimately show ?thesis using kept unfolding same by (intro exI conjI) (assumption, simp_all add: t'_def)
qed

end

section \<open>Indexes\<close>

definition table_indexes :: "json_lib \<Rightarrow> kv_view \<Rightarrow> u32 \<Rightarrow> index_catalog set" where
  "table_indexes lib w t = {x. ix_table_id x = t \<and> indexes.holds lib w (ix_database_id x, ix_schema_id x, ix_name x) x}"

text \<open>The indexes of a table in the order they are listed.\<close>

definition stored_index :: "json_lib \<Rightarrow> kv_view \<Rightarrow> bytes \<times> bytes \<Rightarrow> index_catalog" where
  "stored_index lib w kb = projr (decode_index_catalog lib (the (kv_at w (index_by_id_key (from_be_bytes (snd kb))))))"

definition index_list :: "json_lib \<Rightarrow> kv_view \<Rightarrow> u32 \<Rightarrow> index_catalog list" where
  "index_list lib w t =
     sort_key ix_name (map (stored_index lib w) (scan_spec w (\<lambda>k. starts_with k (as_bytes (index_by_table_prefix t)))))"

lemma of_char_of_byte: "of_char (char_of (unat b) :: char) = (b :: byte)"
proof -
  have "(of_char (char_of (unat b) :: char) :: byte) = word_of_nat (of_char (char_of (unat b) :: char))"
    by (metis of_nat_of_char)
  also have "\<dots> = b" using unsigned_less [of b, where 'a = nat] by simp
  finally show ?thesis .
qed

lemma bytes_of_string: "as_bytes (string_of_bytes bs) = bs"
  by (simp add: as_bytes_def string_of_bytes_def comp_def of_char_of_byte)

lemma starts_with_string:
  assumes "starts_with k (as_bytes p)"
  obtains r where "k = as_bytes (p @ r)"
proof -
  obtain r where "k = as_bytes p @ r" using assms by (auto simp: starts_with_iff)
  then have "k = as_bytes (p @ string_of_bytes r)" using bytes_of_string [of r] by (simp add: as_bytes_def)
  then show ?thesis by (rule that)
qed

text \<open>Nothing outside the catalog's keys matters to it.\<close>

definition same_catalog :: "kv_view \<Rightarrow> kv_view \<Rightarrow> bool" where
  "same_catalog w w' = (\<forall>r. kv_at w' (''__catalog__/'' @ r) = kv_at w (''__catalog__/'' @ r))"

lemma same_catalog_dir: "same_catalog w w' \<Longrightarrow> same_dir c w w'"
  by (simp add: same_catalog_def same_dir_def)

lemma index_list_frame:
  assumes "same_dir CHR ''i'' w w'"
  shows "index_list lib w' t = index_list lib w t"
proof -
  have "w' k = w k" if pre: "starts_with k (as_bytes (index_by_table_prefix t))" for k
  proof -
    obtain r where "k = as_bytes (index_by_table_prefix t @ r)" using starts_with_string [OF pre] .
    then show ?thesis using same_dirD [OF assms, of "index_by_table_prefix t @ r"] by (simp add: catalog_keys)
  qed
  then have "scan_spec w' (\<lambda>k. starts_with k (as_bytes (index_by_table_prefix t))) =
      scan_spec w (\<lambda>k. starts_with k (as_bytes (index_by_table_prefix t)))"
    by (rule scan_spec_cong)
  moreover have "kv_at w' (index_by_id_key i) = kv_at w (index_by_id_key i)" for i
    using same_dirD [OF assms] by (simp add: catalog_keys)
  ultimately show ?thesis by (simp add: index_list_def stored_index_def [abs_def])
qed

lemma catalog_frame:
  assumes "same_catalog w w'"
  shows "catalog_inv lib w \<Longrightarrow> catalog_inv lib w'" "index_list lib w' t = index_list lib w t"
    "in_schema lib w' db sn d s = in_schema lib w db sn d s" "tables.holds lib w' = tables.holds lib w"
    "indexes.holds lib w' = indexes.holds lib w"
proof -
  note dir = same_catalog_dir [OF assms]
  show "catalog_inv lib w \<Longrightarrow> catalog_inv lib w'"
    by (erule inv_change) (use dir same_counters [OF dir] frame_owners [OF dir] in \<open>auto simp: catalog_inv_def\<close>)
  show "index_list lib w' t = index_list lib w t" by (rule index_list_frame [OF dir])
  show "in_schema lib w' db sn d s = in_schema lib w db sn d s" by (rule in_schema_frame [OF dir dir])
  show "tables.holds lib w' = tables.holds lib w" "indexes.holds lib w' = indexes.holds lib w"
    by (rule frame_tables(1) [OF dir] frame_indexes(1) [OF dir])+
qed

text \<open>The keys under a table's prefix name its indexes.\<close>

lemma index_row:
  assumes "catalog_inv lib w" "starts_with k (as_bytes (index_by_table_prefix t))" "w k = Some b"
  shows "\<exists>x p. k = as_bytes (index_by_table_key t (ix_id x)) \<and> b = to_be_bytes (ix_id x) \<and> x \<in> table_indexes lib w t \<and>
    kv_at w (index_by_id_key (ix_id x)) = Some p \<and> decode_index_catalog lib p = Inr x"
proof -
  obtain r where k: "k = as_bytes (index_by_table_prefix t @ r)"
    using starts_with_string [OF assms(2)] by blast
  have "listed lib w t r b" using assms(1,3) k by (auto simp: catalog_inv_def index_lists_ok_def)
  then obtain i p x where i: "r = show_nat (unat i)" "b = to_be_bytes i" "kv_at w (index_by_id_key i) = Some p"
      "decode_index_catalog lib p = Inr x" "ix_table_id x = t" by (auto simp: listed_def)
  with indexes.consistentD(2) [OF inv_kinds(5) [OF assms(1)], of i p]
  have "ix_id x = i" "x \<in> table_indexes lib w t" by (auto simp: table_indexes_def)
  then show ?thesis using i k by (intro exI [of _ x] exI [of _ p]) (simp add: index_by_table_key_def)
qed

context kv_implementation
begin

lemma load_index_computes:
  "kv_at w (index_by_id_key i) = Some p \<Longrightarrow> decode_index_catalog lib p = Inr x \<Longrightarrow> computes R (load_index lib ops (to_be_bytes i)) w (Inr x) w"
  unfolding load_index_def
  by (rule computes_bind [OF computes_lift_eq], simp add: decode_u32_def, rule computes_bind [OF call_get])
    (simp add: computes_lift_eq)

lemma computes_collect_map:
  "(\<And>x. x \<in> set xs \<Longrightarrow> computes R (f (h x)) w (Inr (g x)) w) \<Longrightarrow> computes R (st_collect f (map h xs)) w (Inr (map g xs)) w"
  by (induction xs) (auto intro!: computes_bind computes_return)

lemma index_list_computes:
  assumes "catalog_inv lib w" "finite (dom w)"
  shows "computes R (list_indexes_for_table lib ops t) w (Inr (index_list lib w t)) w"
    and "set (index_list lib w t) = table_indexes lib w t" "distinct (index_list lib w t)"
proof -
  let ?rows = "scan_spec w (\<lambda>k. starts_with k (as_bytes (index_by_table_prefix t)))"
  have mem: "((k, b) \<in> set ?rows) = (starts_with k (as_bytes (index_by_table_prefix t)) \<and> w k = Some b)" for k b
    by (rule scan_spec_props(2) [OF assms(2)])
  let ?g = "stored_index lib w"
  have g: "fst kb = as_bytes (index_by_table_key t (ix_id (?g kb)))" "snd kb = to_be_bytes (ix_id (?g kb))"
      "?g kb \<in> table_indexes lib w t" "computes R (load_index lib ops (snd kb)) w (Inr (?g kb)) w" if "kb \<in> set ?rows" for kb
  proof -
    have kb: "starts_with (fst kb) (as_bytes (index_by_table_prefix t))" "w (fst kb) = Some (snd kb)"
      using mem [of "fst kb" "snd kb"] that by simp_all
    from index_row [OF assms(1) kb] obtain x p where x: "fst kb = as_bytes (index_by_table_key t (ix_id x))" "snd kb = to_be_bytes (ix_id x)"
        "x \<in> table_indexes lib w t" "kv_at w (index_by_id_key (ix_id x)) = Some p" "decode_index_catalog lib p = Inr x" by blast
    then have "?g kb = x" by (simp add: stored_index_def)
    then show "fst kb = as_bytes (index_by_table_key t (ix_id (?g kb)))" "snd kb = to_be_bytes (ix_id (?g kb))"
      "?g kb \<in> table_indexes lib w t" "computes R (load_index lib ops (snd kb)) w (Inr (?g kb)) w"
      using x load_index_computes [of w "ix_id x" p lib x] by simp_all
  qed
  have "distinct ?rows" using scan_spec_props(1) [OF assms(2)] by (auto simp: strict_sorted_iff distinct_map)
  moreover have "inj_on ?g (set ?rows)" by (rule inj_onI) (metis g(1,2) prod_eqI)
  ultimately have "distinct (map ?g ?rows)" by (simp add: distinct_map)
  moreover have "x \<in> ?g ` set ?rows" if x: "x \<in> table_indexes lib w t" for x
  proof -
    have holds: "ix_table_id x = t" "indexes.holds lib w (ix_database_id x, ix_schema_id x, ix_name x) x"
      using x by (simp_all add: table_indexes_def)
    then have "listed lib w t (show_nat (unat (ix_id x))) (to_be_bytes (ix_id x))" by (auto simp: listed_def indexes.holds_def)
    then have "kv_at w (index_by_table_key t (ix_id x)) = Some (to_be_bytes (ix_id x))"
      using assms(1) by (simp add: catalog_inv_def index_lists_ok_def index_by_table_key_def)
    then have row: "(as_bytes (index_by_table_key t (ix_id x)), to_be_bytes (ix_id x)) \<in> set ?rows" (is "?r \<in> _")
      unfolding mem by (simp add: starts_with_iff index_by_table_key_def as_bytes_def)
    have "ix_id (?g ?r) = ix_id x" using g(2) [OF row] by simp
    then have "?g ?r = x" using g(3) [OF row] holds(2) indexes.holds_same_id by (auto simp: table_indexes_def)
    then show ?thesis using imageI [OF row, of ?g] by simp
  qed
  then have "set (map ?g ?rows) = table_indexes lib w t" using g(3) by auto
  moreover have "computes R (st_collect (load_index lib ops) (map snd ?rows)) w (Inr (map ?g ?rows)) w"
    by (rule computes_collect_map) (rule g(4))
  then have "computes R (list_indexes_for_table lib ops t) w (Inr (sort_key ix_name (map ?g ?rows))) w"
    unfolding list_indexes_for_table_def
    by (intro computes_seq [OF bootstrapped [OF inv_kinds(1) [OF assms(1)]]] computes_bind [OF call_scan] computes_bind [OF _ computes_return])
  ultimately show "computes R (list_indexes_for_table lib ops t) w (Inr (index_list lib w t)) w"
    "set (index_list lib w t) = table_indexes lib w t" "distinct (index_list lib w t)"
    by (simp_all add: index_list_def)
qed

lemma list_indexes_computes:
  assumes "catalog_inv lib w" "finite (dom w)"
  obtains xs where "computes R (list_indexes_for_table lib ops t) w (Inr xs) w" "set xs = table_indexes lib w t" "distinct xs"
    "sorted (map ix_name xs)"
  by (rule that [of "index_list lib w t"]) (simp_all add: index_list_computes [OF assms], simp add: index_list_def)

lemma drop_index_by_id_computes: "computes R (drop_index_by_id ops x) w (Inr ()) (index_removed w x)"
  unfolding drop_index_by_id_def index_removed_def indexes.removed_def split
  by (rule computes_seq [OF call_delete], rule computes_seq [OF call_delete call_delete])

lemma drop_index_computes:
  assumes "catalog_inv lib w" "indexes.holds lib w (d, s, n) x"
  shows "computes R (drop_index lib ops d s n) w (Inr (Some x)) (index_removed w x)"
  unfolding drop_index_def
  by (rule computes_seq [OF bootstrapped [OF inv_kinds(1) [OF assms(1)]]],
      rule computes_else [OF get_index_found [OF inv_kinds(1) [OF assms(1)] assms(2)]],
      rule computes_seq [OF drop_index_by_id_computes computes_return])

lemma create_index_new:
  assumes "json_reads_back lib" "catalog_inv lib w" "in_schema lib w db sn d s" "tables.holds lib w (dc_id d, sc_id s, tn) t"
    "\<And>x. \<not> indexes.holds lib w (dc_id d, sc_id s, n) x" "\<not> exhausted w NEXT_INDEX_ID_KEY"
  shows "\<exists>x w'. computes R (create_index lib ops db sn tn n (c # cs) uniq ine) w (Inr (Some x)) w' \<and> catalog_inv lib w' \<and>
    ix_table_id x = table_id (tc_schema t) \<and> ix_name x = n \<and> ix_column_names x = c # cs \<and> ix_unique x = uniq \<and>
    indexes.holds lib w' = (indexes.holds lib w)((dc_id d, sc_id s, n) := (\<lambda>y. y = x)) \<and> tables.holds lib w' = tables.holds lib w \<and>
    in_schema lib w' db sn d s"
proof -
  obtain i :: u32 where i: "kv_at w NEXT_INDEX_ID_KEY = Some (to_be_bytes i)" "i \<noteq> - 1" using next_id [OF assms(2) _ assms(6)] by auto
  have t: "dc_id d = tc_database_id t" "sc_id s = tc_schema_id t" using assms(4) by (auto simp: tables.holds_def)
  let ?x = "\<lparr>ix_id = i, ix_database_id = tc_database_id t, ix_schema_id = tc_schema_id t, ix_table_id = table_id (tc_schema t),
    ix_schema_name = sn, ix_table_name = tn, ix_name = n, ix_column_name = c, ix_column_names = c # cs, ix_unique = uniq\<rparr>"
  have free: "kv_at w (index_by_name_key (tc_database_id t) (tc_schema_id t) n) = None"
    using indexes.absent [OF inv_kinds(5) [OF assms(2)], of "(dc_id d, sc_id s, n)"] assms(5) t by simp
  let ?w1 = "bumped w NEXT_INDEX_ID_KEY i"
  obtain p where p: "computes R (write_index lib ops ?x) ?w1 (Inr ()) (index_written ?w1 p ?x)" "catalog_inv lib (index_written ?w1 p ?x)"
      "\<And>k. indexes.holds lib (index_written ?w1 p ?x) k =
        (if k = (tc_database_id t, tc_schema_id t, n) then (\<lambda>y. y = ?x) else indexes.holds lib w k)"
    using insert_index [OF assms(1,2), of ?x] free i by auto
  have b: "booted w" by (rule inv_kinds(1) [OF assms(2)])
  have run: "computes R (create_index lib ops db sn tn n (c # cs) uniq ine) w (Inr (Some ?x)) (index_written ?w1 p ?x)"
    unfolding create_index_def Let_def list.case
    by (rule computes_seq [OF bootstrapped [OF b]], rule computes_bind [OF computes_require [OF load_table_found [OF assms(3,4)]]],
        rule computes_bind [OF get_index_absent [OF b free]], simp only: simp_thms if_False,
        rule computes_bind [OF allocated [of w NEXT_INDEX_ID_KEY, OF i(1)]], rule computes_seq [OF p(1) computes_return])
  have "tables.holds lib (index_written ?w1 p ?x) = tables.holds lib w"
    using frame_tables(1) [of ?w1 "index_written ?w1 p ?x" lib] by (simp add: same_dir_index holds_bumped)
  moreover have "in_schema lib (index_written ?w1 p ?x) db sn d s"
    using assms(3) in_schema_frame [of ?w1 "index_written ?w1 p ?x"] by (simp add: same_dir_index in_schema_def holds_bumped)
  ultimately show ?thesis using run p(2,3) by (intro exI [of _ ?x] exI) (auto simp: fun_eq_iff t)
qed

lemma create_index_existing:
  assumes "catalog_inv lib w" "in_schema lib w db sn d s" "tables.holds lib w (dc_id d, sc_id s, tn) t"
    "indexes.holds lib w (dc_id d, sc_id s, n) x"
  shows "computes R (create_index lib ops db sn tn n cols uniq ine) w
    (if ine then Inr None else Inl (user_error ''42P07'' (quoted ''relation '' n '' already exists''))) w"
proof -
  have t: "dc_id d = tc_database_id t" "sc_id s = tc_schema_id t" using assms(3) by (auto simp: tables.holds_def)
  have b: "booted w" by (rule inv_kinds(1) [OF assms(1)])
  show ?thesis unfolding create_index_def
    by (rule computes_seq [OF bootstrapped [OF b]], rule computes_bind [OF computes_require [OF load_table_found [OF assms(2,3)]]],
        rule computes_bind [OF get_index_found [OF b assms(4) [unfolded t]]]) (simp add: computes_return computes_raise)
qed

end

text \<open>The indexes of a table removed one after the other.\<close>

abbreviation index_name :: "index_catalog \<Rightarrow> u32 \<times> u32 \<times> string" where
  "index_name x \<equiv> (ix_database_id x, ix_schema_id x, ix_name x)"

lemma indexes_removed:
  assumes "catalog_inv lib w" "\<And>x. x \<in> set xs \<Longrightarrow> indexes.holds lib w (index_name x) x" "distinct xs"
  shows "catalog_inv lib (fold (\<lambda>x w. index_removed w x) xs w) \<and>
    (\<forall>k y. indexes.holds lib (fold (\<lambda>x w. index_removed w x) xs w) k y = (indexes.holds lib w k y \<and> y \<notin> set xs))"
  using assms
proof (induction xs arbitrary: w)
  case (Cons x xs)
  have x: "indexes.holds lib w (index_name x) x" using Cons.prems(2) by simp
  have gone: "indexes.holds lib (index_removed w x) k y = (indexes.holds lib w k y \<and> y \<noteq> x)" for k y
  proof -
    have "k = index_name y" if "indexes.holds lib w k y" using that by (auto simp: indexes.holds_def)
    then show ?thesis using indexes.holds_removed [OF x, of k y] indexes.holds_unique [OF x, of y] by (auto simp: index_frames)
  qed
  have "catalog_inv lib (index_removed w x)" by (rule inv_index_removed [OF Cons.prems(1) x])
  from Cons.IH [OF this] Cons.prems(2,3) gone show ?case by auto
qed simp

lemma same_dir_indexes_removed: "c \<noteq> CHR ''i'' \<Longrightarrow> same_dir c w (fold (\<lambda>x w. index_removed w x) xs w)"
proof (induction xs arbitrary: w)
  case (Cons x xs)
  then show ?case using same_dir_index(2) [of c w x] Cons.IH [of "index_removed w x"] by (simp add: same_dir_def)
qed (simp add: same_dir_def)

context kv_implementation
begin

lemma drop_table_computes:
  assumes "catalog_inv lib w" "finite (dom w)" "in_schema lib w db sn d s" "tables.holds lib w (dc_id d, sc_id s, n) t"
  shows "\<exists>w'. computes R (drop_table lib ops db sn n) w (Inr (Some t)) w' \<and> catalog_inv lib w' \<and>
    tables.holds lib w' = (tables.holds lib w)((dc_id d, sc_id s, n) := (\<lambda>_. False)) \<and>
    (\<forall>k x. indexes.holds lib w' k x = (indexes.holds lib w k x \<and> ix_table_id x \<noteq> table_id (tc_schema t)))"
proof -
  have t: "dc_id d = tc_database_id t" "sc_id s = tc_schema_id t" "n = tc_table_name t" using assms(4) by (auto simp: tables.holds_def)
  have own: "tables.holds lib w (tc_database_id t, tc_schema_id t, tc_table_name t) t" using assms(4) t by simp
  let ?w1 = "tables.removed w t"
  have inv1: "catalog_inv lib ?w1" by (rule inv_removed(3) [OF assms(1) own])
  have fin: "finite (dom ?w1)" using assms(2) by (simp add: tables.removed_def)
  obtain xs where xs: "computes R (list_indexes_for_table lib ops (table_id (tc_schema t))) ?w1 (Inr xs) ?w1"
      "set xs = table_indexes lib ?w1 (table_id (tc_schema t))" "distinct xs"
    by (rule list_indexes_computes [OF inv1 fin])
  have same: "indexes.holds lib ?w1 = indexes.holds lib w" by (rule frame_indexes(1)) (simp add: same_dir_objects)
  let ?w2 = "fold (\<lambda>x w. index_removed w x) xs ?w1"
  have gone: "catalog_inv lib ?w2" "\<And>k y. indexes.holds lib ?w2 k y = (indexes.holds lib w k y \<and> y \<notin> set xs)"
    using indexes_removed [OF inv1 _ xs(3)] xs(2) by (auto simp: table_indexes_def same)
  have w1: "?w1 = w(as_bytes (table_by_id_key (table_id (tc_schema t))) := None,
      as_bytes (table_by_name_key (tc_database_id t) (tc_schema_id t) n) := None)" by (simp add: tables.removed_def t(3))
  have last: "computes R (if is_default_schema db sn then cat_delete ops (schema_key n) else st_return ()) ?w2 (Inr ())
      (with_legacy db sn n None ?w2)" by (simp add: with_legacy_def call_delete computes_return)
  have run: "computes R (drop_table lib ops db sn n) w (Inr (Some t)) (with_legacy db sn n None ?w2)"
    unfolding drop_table_def
    by (rule computes_seq [OF bootstrapped [OF inv_kinds(1) [OF assms(1)]]], rule computes_else [OF load_table_found [OF assms(3,4)]],
        rule computes_seq [OF call_delete], rule computes_seq [OF call_delete], fold w1, rule computes_bind [OF xs(1)],
        rule computes_seq [OF computes_each [OF drop_index_by_id_computes]], rule computes_seq [OF last computes_return])
  have "tables.holds lib ?w2 = tables.holds lib ?w1" by (rule frame_tables(1)) (simp add: same_dir_indexes_removed)
  moreover have "tables.holds lib ?w1 = (tables.holds lib w)((dc_id d, sc_id s, n) := (\<lambda>_. False))"
    using tables.holds_removed [OF own] by (auto simp: fun_eq_iff t)
  moreover have "indexes.holds lib (with_legacy db sn n None ?w2) = indexes.holds lib ?w2"
    by (rule frame_indexes(1) [OF same_dir_with_legacy])
  moreover have "(y \<notin> set xs) = (ix_table_id y \<noteq> table_id (tc_schema t))" if "indexes.holds lib w k y" for k y
    using xs(2) that by (auto simp: table_indexes_def same indexes.holds_def)
  ultimately show ?thesis using run inv_with_legacy [OF gone(1)] gone(2) by (intro exI conjI) (assumption, simp_all, blast)
qed

section \<open>Views\<close>

text \<open>A name free for a view has no table; views and tables share their names this way only.\<close>

definition no_table_named :: "json_lib \<Rightarrow> kv_view \<Rightarrow> string \<Rightarrow> string \<Rightarrow> database_catalog \<Rightarrow> schema_catalog \<Rightarrow> string \<Rightarrow> bool" where
  "no_table_named lib w db sn d s n =
     ((\<forall>t. \<not> tables.holds lib w (dc_id d, sc_id s, n) t) \<and> (is_default_schema db sn \<longrightarrow> kv_at w (schema_key n) = None))"

lemma load_table_none:
  assumes "catalog_inv lib w" "in_schema lib w db sn d s" "no_table_named lib w db sn d s n"
  shows "computes R (load_table lib ops db sn n) w (Inr None) w"
proof (rule load_table_absent [OF assms(2)])
  show "kv_at w (table_by_name_key (dc_id d) (sc_id s) n) = None"
    using tables.absent [OF inv_kinds(4) [OF assms(1)], of "(dc_id d, sc_id s, n)"] assms(3) by (simp add: no_table_named_def)
qed (use assms(3) in \<open>simp add: no_table_named_def\<close>)

lemma store_view_new:
  assumes "json_reads_back lib" "catalog_inv lib w" "in_schema lib w db sn d s" "no_table_named lib w db sn d s n"
    "\<And>v. \<not> views.holds lib w (dc_id d, sc_id s, n) v" "\<not> exhausted w NEXT_VIEW_ID_KEY"
  shows "\<exists>v w'. computes R (store_view lib ops db sn n txt' orr ine) w (Inr (Some v)) w' \<and> catalog_inv lib w' \<and>
    vc_definition v = txt' \<and> views.holds lib w' = (views.holds lib w)((dc_id d, sc_id s, n) := (\<lambda>x. x = v))"
proof -
  obtain i :: u32 where i: "kv_at w NEXT_VIEW_ID_KEY = Some (to_be_bytes i)" "i \<noteq> - 1" using next_id [OF assms(2) _ assms(6)] by auto
  let ?v = "\<lparr>vc_id = i, vc_database_id = dc_id d, vc_schema_id = sc_id s, vc_schema_name = sn, vc_name = n, vc_definition = txt'\<rparr>"
  have free: "kv_at w (view_by_name_key (dc_id d) (sc_id s) n) = None"
    using views.absent [OF inv_kinds(6) [OF assms(2)], of "(dc_id d, sc_id s, n)"] assms(5) by simp
  let ?w1 = "bumped w NEXT_VIEW_ID_KEY i"
  obtain p where p: "computes R (write_view lib ops ?v) ?w1 (Inr ()) (views.written ?w1 p ?v)" "catalog_inv lib (views.written ?w1 p ?v)"
      "\<And>k. views.holds lib (views.written ?w1 p ?v) k = (if k = (dc_id d, sc_id s, n) then (\<lambda>y. y = ?v) else views.holds lib w k)"
    using insert_view [OF assms(1,2), of ?v] free i by auto
  have "computes R (store_view lib ops db sn n txt' orr ine) w (Inr (Some ?v)) (views.written ?w1 p ?v)"
    unfolding store_view_def Let_def
    by (rule in_schema_require [OF assms(3)], rule computes_bind [OF load_table_none [OF assms(2-4)]], simp only: simp_thms if_False,
        rule computes_bind [OF load_view_absent [OF assms(3) free]], simp only: option.case,
        rule computes_bind [OF allocated [of w NEXT_VIEW_ID_KEY, OF i(1)]], rule computes_seq [OF p(1) computes_return])
  then show ?thesis using p(2,3) by (intro exI [of _ ?v] exI) (auto simp: fun_eq_iff)
qed

text \<open>\<open>CREATE OR REPLACE VIEW\<close> keeps the id and the place of the view.\<close>

lemma store_view_replace:
  assumes "json_reads_back lib" "catalog_inv lib w" "in_schema lib w db sn d s" "no_table_named lib w db sn d s n"
    "views.holds lib w (dc_id d, sc_id s, n) v"
  shows "\<exists>w'. computes R (store_view lib ops db sn n txt' True False) w (Inr (Some (v\<lparr>vc_definition := txt'\<rparr>))) w' \<and>
    catalog_inv lib w' \<and> views.holds lib w' = (views.holds lib w)((dc_id d, sc_id s, n) := (\<lambda>x. x = v\<lparr>vc_definition := txt'\<rparr>))"
proof -
  let ?v = "v\<lparr>vc_definition := txt'\<rparr>"
  have v: "(dc_id d, sc_id s, n) = (vc_database_id v, vc_schema_id v, vc_name v)" using assms(5) by (auto simp: views.holds_def)
  obtain p where p: "decode_view_catalog lib p = Inr ?v" and run: "computes R (write_view lib ops ?v) w (Inr ()) (views.written w p ?v)"
    using write_view_computes [OF assms(1), of ?v] by blast
  have room: "views.room_for lib w ?v" using assms(5) v by (auto simp: views.room_for_def)
  have "below w NEXT_VIEW_ID_KEY (vc_id ?v)" using views.stored_below [OF _ assms(5)] assms(2) by (simp add: catalog_inv_def)
  then have inv: "catalog_inv lib (views.written w p ?v)" by (rule inv_view_written [OF assms(2) room p])
  have "computes R (store_view lib ops db sn n txt' True False) w (Inr (Some ?v)) (views.written w p ?v)"
    unfolding store_view_def Let_def
    by (rule in_schema_require [OF assms(3)], rule computes_bind [OF load_table_none [OF assms(2-4)]], simp only: simp_thms if_False,
        rule computes_bind [OF load_view_found [OF assms(3,5)]], simp only: option.case simp_thms if_False,
        rule computes_seq [OF run computes_return])
  moreover have "views.holds lib (views.written w p ?v) = (views.holds lib w)((dc_id d, sc_id s, n) := (\<lambda>x. x = ?v))"
    using views.holds_written [OF inv_kinds(6) [OF assms(2)] room p] v by (simp add: fun_eq_iff)
  ultimately show ?thesis using inv by (intro exI conjI) simp_all
qed

text \<open>Without \<open>OR REPLACE\<close> an existing view is an error, or left alone; a table of the name always is one.\<close>

lemma store_view_existing:
  assumes "catalog_inv lib w" "in_schema lib w db sn d s" "no_table_named lib w db sn d s n" "views.holds lib w (dc_id d, sc_id s, n) v"
    "ine \<or> \<not> orr"
  shows "computes R (store_view lib ops db sn n txt' orr ine) w
    (if ine then Inr None else Inl (user_error ''42P07'' (quoted ''view '' n '' already exists''))) w"
  unfolding store_view_def
  by (rule in_schema_require [OF assms(2)], rule computes_bind [OF load_table_none [OF assms(1-3)]], simp only: simp_thms if_False,
      rule computes_bind [OF load_view_found [OF assms(2,4)]])
    (use assms(5) in \<open>auto simp: computes_return computes_raise\<close>)

lemma store_view_over_table:
  assumes "in_schema lib w db sn d s" "tables.holds lib w (dc_id d, sc_id s, n) t"
  shows "computes R (store_view lib ops db sn n txt' orr ine) w (Inl (user_error ''42P07'' (quoted ''relation '' n '' already exists''))) w"
  unfolding store_view_def
  by (rule in_schema_require [OF assms(1)], rule computes_bind [OF load_table_found [OF assms]]) (simp add: computes_raise)

lemma drop_view_computes:
  assumes "catalog_inv lib w" "in_schema lib w db sn d s" "views.holds lib w (dc_id d, sc_id s, n) v"
  shows "computes R (drop_view lib ops db sn n) w (Inr (Some v)) (views.removed w v)" "catalog_inv lib (views.removed w v)"
proof -
  have v: "dc_id d = vc_database_id v" "sc_id s = vc_schema_id v" "n = vc_name v" using assms(3) by (auto simp: views.holds_def)
  show "computes R (drop_view lib ops db sn n) w (Inr (Some v)) (views.removed w v)"
    unfolding drop_view_def views.removed_def split v(3) [symmetric]
    by (rule computes_seq [OF bootstrapped [OF inv_kinds(1) [OF assms(1)]]], rule computes_else [OF load_view_found [OF assms(2,3)]],
        rule computes_seq [OF call_delete], rule computes_seq [OF call_delete computes_return])
  show "catalog_inv lib (views.removed w v)" using inv_removed(4) [OF assms(1)] assms(3) v by simp
qed

end

section \<open>Truncation\<close>

lemma decoded_table_name: "decode_table_catalog lib p = Inr t \<Longrightarrow> table_name (tc_schema t) = tc_table_name t"
  by (auto simp: decode_table_catalog_def Let_def res_simps)

lemma bump_epoch_keeps [simp]:
  "table_name (bump_epoch s) = table_name s" "table_id (bump_epoch s) = table_id s" "schema_wf (bump_epoch s) = schema_wf s"
  by (simp_all add: bump_epoch_def schema_wf_def)

context kv_implementation
begin

lemma bump_table_epoch_computes:
  assumes "json_reads_back lib" "catalog_inv lib w" "in_schema lib w db sn d s" "tables.holds lib w (dc_id d, sc_id s, n) t"
    "schema_wf (tc_schema t)"
  shows "\<exists>w'. computes R (bump_table_epoch lib ops db sn n) w (Inr (t\<lparr>tc_schema := bump_epoch (tc_schema t)\<rparr>)) w' \<and> catalog_inv lib w' \<and>
    tables.holds lib w' = (tables.holds lib w)((dc_id d, sc_id s, n) := (\<lambda>x. x = stored_table d s sn (bump_epoch (tc_schema t))))"
proof -
  let ?sch = "bump_epoch (tc_schema t)"
  have t: "dc_id d = tc_database_id t" "sc_id s = tc_schema_id t" "n = table_name (tc_schema t)" "n = tc_table_name t"
    using assms(4) decoded_table_name by (auto simp: tables.holds_def)
  have room: "tables.room_for lib w (stored_table d s sn ?sch)" using assms(4) t by (auto simp: tables.room_for_def)
  have id: "below w NEXT_TABLE_ID_KEY (table_id ?sch)" using tables.stored_below [OF _ assms(4)] assms(2) by (simp add: catalog_inv_def)
  have wf: "schema_wf ?sch" using assms(5) by simp
  obtain p l where p: "decode_table_catalog lib p = Inr (stored_table d s sn ?sch)"
    and run: "computes R (store_table lib ops db sn ?sch) w (Inr ())
      (with_legacy db sn (table_name ?sch) (Some l) (tables.written w p (stored_table d s sn ?sch)))"
    by (rule store_table_computes [OF assms(1,3) wf])
  have sel: "tc_schema (t\<lparr>tc_schema := ?sch\<rparr>) = ?sch" by simp
  have "computes R (bump_table_epoch lib ops db sn n) w (Inr (t\<lparr>tc_schema := ?sch\<rparr>))
      (with_legacy db sn (table_name ?sch) (Some l) (tables.written w p (stored_table d s sn ?sch)))"
    unfolding bump_table_epoch_def Let_def
    by (rule computes_bind [OF computes_require [OF load_table_found [OF assms(3,4)]]],
        unfold sel, rule computes_seq [OF run computes_return])
  then show ?thesis using table_kept [OF assms(2) room id p, of db "table_name ?sch" "Some l"] t(3)
    by (intro exI conjI) (assumption, simp_all)
qed

end

section \<open>Bootstrap\<close>

context counted_kind
begin

lemma kind_ok_empty:
  "(\<And>n. kv_at w (name_key n) = None) \<Longrightarrow> (\<And>i. kv_at w (id_key i) = None) \<Longrightarrow> kv_at w counter = Some (to_be_bytes (c :: u32)) \<Longrightarrow> kind_ok w"
  by (simp add: kind_ok_def consistent_def)

end

definition counted_view :: "kv_view \<Rightarrow> kv_view" where
  "counted_view w = w(
     as_bytes NEXT_DATABASE_ID_KEY \<mapsto> to_be_bytes (2 :: u32), as_bytes NEXT_SCHEMA_ID_KEY \<mapsto> to_be_bytes (2 :: u32),
     as_bytes NEXT_TABLE_ID_KEY \<mapsto> to_be_bytes (1 :: u32), as_bytes NEXT_INDEX_ID_KEY \<mapsto> to_be_bytes (1 :: u32),
     as_bytes NEXT_VIEW_ID_KEY \<mapsto> to_be_bytes (1 :: u32))"

definition booted_view :: "kv_view \<Rightarrow> bytes \<Rightarrow> bytes \<Rightarrow> kv_view" where
  "booted_view w p q = schemas.written (databases.written (counted_view w) p default_database) q default_schema"

lemma counted_view_counters:
  "kv_at (counted_view w) NEXT_DATABASE_ID_KEY = Some (to_be_bytes (2 :: u32))" "kv_at (counted_view w) NEXT_SCHEMA_ID_KEY = Some (to_be_bytes (2 :: u32))"
  "kv_at (counted_view w) NEXT_TABLE_ID_KEY = Some (to_be_bytes (1 :: u32))" "kv_at (counted_view w) NEXT_INDEX_ID_KEY = Some (to_be_bytes (1 :: u32))"
  "kv_at (counted_view w) NEXT_VIEW_ID_KEY = Some (to_be_bytes (1 :: u32))"
  by (simp_all add: counted_view_def other_counters)

lemma counted_view_none:
  assumes "\<And>r. kv_at w (''__catalog__/'' @ r) = None" "c \<noteq> CHR ''n''"
  shows "kv_at (counted_view w) (''__catalog__/'' @ c # r) = None"
  using assms(1) [of "c # r"] assms(2) by (simp add: counted_view_def counter_keys)

lemma counted_view_empty:
  assumes "\<And>r. kv_at w (''__catalog__/'' @ r) = None"
  shows "databases.kind_ok lib (counted_view w)" "schemas.kind_ok lib (counted_view w)" "tables.kind_ok lib (counted_view w)"
    "indexes.kind_ok lib (counted_view w)" "views.kind_ok lib (counted_view w)" "index_lists_ok lib (counted_view w)"
    "\<not> schemas.holds lib (counted_view w) k s"
proof -
  note none = counted_view_none [of w, OF assms]
  have keys: "kv_at (counted_view w) (database_by_name_key n) = None" "kv_at (counted_view w) (database_by_id_key i) = None"
    "kv_at (counted_view w) (schema_by_name_key a n) = None" "kv_at (counted_view w) (schema_by_id_key i) = None"
    "kv_at (counted_view w) (table_by_name_key a b n) = None" "kv_at (counted_view w) (table_by_id_key i) = None"
    "kv_at (counted_view w) (index_by_name_key a b n) = None" "kv_at (counted_view w) (index_by_id_key i) = None"
    "kv_at (counted_view w) (view_by_name_key a b n) = None" "kv_at (counted_view w) (view_by_id_key i) = None"
    "kv_at (counted_view w) (index_by_table_prefix a @ n) = None" for n i a b
    using none [of "CHR ''d''"] none [of "CHR ''s''"] none [of "CHR ''t''"] none [of "CHR ''i''"] none [of "CHR ''v''"]
    by (simp_all add: catalog_keys)
  note empty = databases.kind_ok_empty schemas.kind_ok_empty tables.kind_ok_empty indexes.kind_ok_empty views.kind_ok_empty
  show "databases.kind_ok lib (counted_view w)" by (rule empty(1); simp add: keys counted_view_counters)
  show "schemas.kind_ok lib (counted_view w)" by (rule empty(2); simp add: keys counted_view_counters split: prod.split)
  show "tables.kind_ok lib (counted_view w)" by (rule empty(3); simp add: keys counted_view_counters split: prod.split)
  show "indexes.kind_ok lib (counted_view w)" by (rule empty(4); simp add: keys counted_view_counters split: prod.split)
  show "views.kind_ok lib (counted_view w)" by (rule empty(5); simp add: keys counted_view_counters split: prod.split)
  show "index_lists_ok lib (counted_view w)" by (simp add: index_lists_ok_def listed_def keys)
  show "\<not> schemas.holds lib (counted_view w) k s" by (simp add: schemas.holds_def keys)
qed

lemma booted_view_inv:
  assumes "\<And>r. kv_at w (''__catalog__/'' @ r) = None"
    "decode_database_catalog lib p = Inr default_database" "decode_schema_catalog lib q = Inr default_schema"
  shows "catalog_inv lib (booted_view w p q)"
    "in_schema lib (booted_view w p q) DEFAULT_DATABASE_NAME DEFAULT_SCHEMA_NAME default_database default_schema"
    "databases.holds lib (booted_view w p q) n d = (n = DEFAULT_DATABASE_NAME \<and> d = default_database)"
    "\<not> tables.holds lib (booted_view w p q) k t" "\<not> indexes.holds lib (booted_view w p q) k x"
    "key \<in> COUNTERS \<Longrightarrow> \<not> exhausted (booted_view w p q) key"
    "kv_at (booted_view w p q) (schema_key m) = kv_at w (schema_key m)"
proof -
  let ?w0 = "counted_view w" and ?w1 = "databases.written (counted_view w) p default_database"
  note empty = counted_view_empty [of w lib, OF assms(1)]
  have none: "kv_at ?w0 (database_by_id_key i) = None" "kv_at ?w0 (database_by_name_key n) = None" for i n
    using counted_view_none [of w "CHR ''d''", OF assms(1)] by (simp_all add: catalog_keys)
  have room: "databases.room_for lib ?w0 default_database" by (simp add: databases.room_for_def none)
  have id: "below ?w0 NEXT_DATABASE_ID_KEY (dc_id default_database)" by (simp add: below_def counted_view_counters default_database_def)
  have "\<not> databases.holds lib ?w0 n d" for n d by (simp add: databases.holds_def none)
  then have holds1: "databases.holds lib ?w1 n d = (n = DEFAULT_DATABASE_NAME \<and> d = default_database)" for n d
    using databases.holds_written [OF _ room assms(2)] empty(1) by (simp add: databases.kind_ok_def default_database_def)
  then have holds0: "databases.holds lib ?w1 DEFAULT_DATABASE_NAME default_database" by simp
  have keep: "same_dir c ?w0 ?w1" if "c \<noteq> CHR ''d''" for c using that by (simp add: same_dir_objects)
  have noschema: "\<not> schemas.holds lib ?w1 k s" for k s using frame_schemas(1) [OF keep] empty(7) by simp
  have inv1: "catalog_inv lib ?w1"
    unfolding catalog_inv_def
  proof (intro conjI)
    show "booted ?w1" using holds0 by (auto simp: booted_def databases.holds_def)
    show "databases.kind_ok lib ?w1" by (rule databases.kind_ok_written [OF empty(1) room assms(2) id])
    show "schemas.kind_ok lib ?w1" using frame_schemas(2) [of ?w0 ?w1 lib] empty(2) by (simp add: untouched)
    show "tables.kind_ok lib ?w1" using frame_tables(2) [of ?w0 ?w1 lib] empty(3) by (simp add: untouched)
    show "indexes.kind_ok lib ?w1" using frame_indexes(3) [of ?w0 ?w1 lib] empty(4) by (simp add: untouched)
    show "views.kind_ok lib ?w1" using frame_views(2) [of ?w0 ?w1 lib] empty(5) by (simp add: untouched)
    show "index_lists_ok lib ?w1" using frame_indexes(2) [of ?w0 ?w1 lib] empty(6) by (simp add: untouched)
    show "owners_ok lib ?w1" by (simp add: owners_ok_def noschema)
  qed
  have "kv_at ?w1 (schema_by_id_key i) = None" "kv_at ?w1 (schema_by_name_key a n) = None" for i a n
    using same_dirD [OF keep [of "CHR ''s''"]] counted_view_none [of w "CHR ''s''", OF assms(1)] by (simp_all add: catalog_keys)
  then have room1: "schemas.room_for lib ?w1 default_schema" by (simp add: schemas.room_for_def)
  have ids: "below ?w1 NEXT_SCHEMA_ID_KEY (sc_id default_schema)" "below ?w1 NEXT_DATABASE_ID_KEY (sc_database_id default_schema)"
    by (simp_all add: below_def counted_view_counters untouched default_schema_def)
  show inv: "catalog_inv lib (booted_view w p q)"
    unfolding booted_view_def by (rule inv_schema_written [OF inv1 room1 assms(3) ids])
  have "schemas.holds lib (booted_view w p q) (1, DEFAULT_SCHEMA_NAME) default_schema"
    unfolding booted_view_def using schemas.holds_written [OF inv_kinds(3) [OF inv1] room1 assms(3)] by (simp add: default_schema_def)
  moreover have same: "databases.holds lib (booted_view w p q) = databases.holds lib ?w1"
    unfolding booted_view_def by (rule frame_databases(1)) (simp add: same_dir_objects)
  ultimately show "in_schema lib (booted_view w p q) DEFAULT_DATABASE_NAME DEFAULT_SCHEMA_NAME default_database default_schema"
    using holds0 inv_kinds(1) [OF inv] by (simp add: in_schema_def default_database_def)
  show "databases.holds lib (booted_view w p q) n d = (n = DEFAULT_DATABASE_NAME \<and> d = default_database)" using same holds1 by simp
  have keep2: "same_dir c ?w0 (booted_view w p q)" if "c \<noteq> CHR ''d''" "c \<noteq> CHR ''s''" for c
    using keep [OF that(1)] same_dir_objects(3) [OF that(2), of ?w1 q default_schema] by (simp add: same_dir_def booted_view_def)
  have "kv_at ?w0 (table_by_id_key i) = None" "kv_at ?w0 (index_by_id_key i) = None" for i
    using counted_view_none [of w "CHR ''t''", OF assms(1)] counted_view_none [of w "CHR ''i''", OF assms(1)] by (simp_all add: catalog_keys)
  then show "\<not> tables.holds lib (booted_view w p q) k t" "\<not> indexes.holds lib (booted_view w p q) k x"
    using frame_tables(1) [OF keep2, of lib] frame_indexes(1) [OF keep2, of lib] by (simp_all add: tables.holds_def indexes.holds_def)
  show "\<not> exhausted (booted_view w p q) key" if "key \<in> COUNTERS"
    using that same_counters [OF keep2, of key] by (auto simp: exhausted_def counted_view_counters COUNTERS_def)
  show "kv_at (booted_view w p q) (schema_key m) = kv_at w (schema_key m)"
    unfolding booted_view_def schemas.written_def databases.written_def counted_view_def split
    by (simp add: schema_key_def SCHEMA_PREFIX_def key_defs)
qed

context kv_implementation
begin

lemma bootstrap_computes:
  assumes "json_reads_back lib" "\<And>r. kv_at w (''__catalog__/'' @ r) = None"
  obtains p q where "decode_database_catalog lib p = Inr default_database" "decode_schema_catalog lib q = Inr default_schema"
    "computes R (ensure_bootstrap lib ops) w (Inr ()) (booted_view w p q)"
proof -
  obtain p where p: "decode_database_catalog lib p = Inr default_database"
    "\<And>w. computes R (write_database_inner lib ops default_database) w (Inr ()) (databases.written w p default_database)"
    using write_database_computes [OF assms(1), of default_database] by blast
  obtain q where q: "decode_schema_catalog lib q = Inr default_schema"
    "\<And>w. computes R (write_schema_inner lib ops default_schema) w (Inr ()) (schemas.written w q default_schema)"
    using write_schema_computes [OF assms(1), of default_schema] by blast
  have none: "kv_at w (database_by_name_key DEFAULT_DATABASE_NAME) = None"
    using assms(2) [of "''databases/by-name/'' @ DEFAULT_DATABASE_NAME"] by (simp add: catalog_keys)
  have "computes R (ensure_bootstrap lib ops) w (Inr ()) (booted_view w p q)"
    unfolding ensure_bootstrap_def booted_view_def counted_view_def
    by (rule computes_bind [OF call_get], unfold none, simp only: simp_thms if_False, (rule computes_seq [OF call_put])+,
        rule computes_seq [OF p(2) q(2)])
  with p(1) q(1) show ?thesis by (rule that)
qed

lemma schema_key_inject: "(schema_key a = schema_key b) = (a = b)"
  by (simp add: schema_key_def)

text \<open>\<open>CREATE TABLE\<close>: allocate the id, then store the descriptor under it.\<close>

lemma create_table_computes:
  assumes "json_reads_back lib" "catalog_inv lib w" "in_schema lib w db sn d s" "schema_wf sch"
    "\<And>t. \<not> tables.holds lib w (dc_id d, sc_id s, table_name sch) t" "\<not> exhausted w NEXT_TABLE_ID_KEY"
  shows "\<exists>i w1 w2. computes R (allocate_table_id lib ops) w (Inr i) w1 \<and>
    computes R (store_table lib ops db sn (sch\<lparr>table_id := i\<rparr>)) w1 (Inr ()) w2 \<and> catalog_inv lib w2 \<and>
    computes R (load_table lib ops db sn (table_name sch)) w2 (Inr (Some (stored_table d s sn (sch\<lparr>table_id := i\<rparr>)))) w2 \<and>
    (\<forall>k t. tables.holds lib w k t \<longrightarrow> table_id (tc_schema t) \<noteq> i) \<and> in_schema lib w2 db sn d s \<and>
    (\<forall>n. n \<noteq> table_name sch \<longrightarrow> kv_at w2 (schema_key n) = kv_at w (schema_key n)) \<and>
    (exhausted w2 NEXT_INDEX_ID_KEY = exhausted w NEXT_INDEX_ID_KEY) \<and> indexes.holds lib w2 = indexes.holds lib w \<and>
    tables.holds lib w2 = (tables.holds lib w)((dc_id d, sc_id s, table_name sch) := (\<lambda>t. t = stored_table d s sn (sch\<lparr>table_id := i\<rparr>)))"
proof -
  obtain i where i: "i \<noteq> - 1" "kv_at w NEXT_TABLE_ID_KEY = Some (to_be_bytes i)"
    and run: "computes R (allocate_table_id lib ops) w (Inr i) (bumped w NEXT_TABLE_ID_KEY i)"
    and inv: "catalog_inv lib (bumped w NEXT_TABLE_ID_KEY i)"
    by (rule allocate_table_id_computes [OF assms(2,6)])
  let ?w1 = "bumped w NEXT_TABLE_ID_KEY i" and ?sch = "sch\<lparr>table_id := i\<rparr>"
  have in1: "in_schema lib ?w1 db sn d s" using assms(3) by (simp add: in_schema_def holds_bumped)
  have ok: "tables.kind_ok lib w" using assms(2) by (simp add: catalog_inv_def)
  have "kv_at w (table_by_name_key (dc_id d) (sc_id s) (table_name sch)) = None"
    using tables.absent [OF inv_kinds(4) [OF assms(2)], of "(dc_id d, sc_id s, table_name sch)"] assms(5) by simp
  then have free: "kv_at w (case (dc_id d, sc_id s, table_name sch) of (d, s, n) \<Rightarrow> table_by_name_key d s n) = None" by simp
  have room: "tables.room_for lib ?w1 (stored_table d s sn ?sch)" "below ?w1 NEXT_TABLE_ID_KEY (table_id ?sch)"
    using tables.allocated_room [OF ok i(2,1), of "stored_table d s sn ?sch"] free by simp_all
  have wf: "schema_wf ?sch" using assms(4) by (simp add: schema_wf_def)
  obtain p l where p: "decode_table_catalog lib p = Inr (stored_table d s sn ?sch)"
    and store: "computes R (store_table lib ops db sn ?sch) ?w1 (Inr ())
      (with_legacy db sn (table_name ?sch) (Some l) (tables.written ?w1 p (stored_table d s sn ?sch)))"
    by (rule store_table_computes [OF assms(1) in1 wf])
  let ?w2 = "with_legacy db sn (table_name ?sch) (Some l) (tables.written ?w1 p (stored_table d s sn ?sch))"
  note kept = table_kept [OF inv room p, of db "table_name ?sch" "Some l"]
  have "computes R (load_table lib ops db sn (table_name sch)) ?w2 (Inr (Some (stored_table d s sn ?sch))) ?w2"
  proof (rule load_table_found)
    show "in_schema lib ?w2 db sn d s" using in1 by simp
    show "tables.holds lib ?w2 (dc_id d, sc_id s, table_name sch) (stored_table d s sn ?sch)" using kept(2) by simp
  qed
  moreover have "table_id (tc_schema t) \<noteq> i" if "tables.holds lib w k t" for k t
    using tables.stored_below [OF ok that] i(2) by (auto simp: below_def)
  moreover have "kv_at ?w2 (schema_key n) = kv_at w (schema_key n)" if "n \<noteq> table_name sch" for n
  proof -
    have "schema_key n \<noteq> NEXT_TABLE_ID_KEY" using legacy_apart [of NEXT_TABLE_ID_KEY n] by auto
    then show ?thesis using that
      by (simp add: with_legacy_def tables.written_def schema_key_inject)
  qed
  moreover have "in_schema lib ?w2 db sn d s" using in1 by simp
  moreover have "exhausted ?w2 NEXT_INDEX_ID_KEY = exhausted w NEXT_INDEX_ID_KEY"
    by (simp add: exhausted_def at_with_legacy untouched)
  moreover have "same_dir CHR ''i'' ?w1 ?w2"
    using same_dir_with_legacy same_dir_objects(5) [of "CHR ''i''"] unfolding same_dir_def by simp
  then have "indexes.holds lib ?w2 = indexes.holds lib w" using frame_indexes(1) [of ?w1 ?w2 lib] by (simp add: holds_bumped)
  ultimately show ?thesis using run store kept by (intro exI conjI) (assumption, assumption, simp_all add: holds_bumped)
qed

end

section \<open>The in-memory store\<close>

definition catalog_state :: "json_lib \<Rightarrow> hash_map \<Rightarrow> bool" where
  "catalog_state lib s = (store_inv s \<and> catalog_inv lib (mem_get s))"

lemma mem_runs:
  assumes "computes ref_holds m w r w'" "store_inv s" "mem_get s = w"
  obtains s' where "m s = Some (r, s')" "store_inv s'" "mem_get s' = w'"
  using assms by (auto simp: computes_def ref_holds_def)

lemma mem_runs_ex:
  "computes ref_holds m (mem_get s) r w' \<Longrightarrow> store_inv s \<Longrightarrow> \<exists>s'. m s = Some (r, s') \<and> store_inv s' \<and> mem_get s' = w'"
  by (auto simp: computes_def ref_holds_def)

text \<open>The adapter over an engine that fulfils its contract is a store like the others.\<close>

context engine_store
begin

lemma implementation: "kv_implementation (engine_ops eng) R"
  by unfold_locales

end

lemmas engine_create_table = kv_implementation.create_table_computes [OF engine_store.implementation, OF engine_store.intro]

end
