(* ===== verification/Row_Project.thy ===== *)
theory Row_Project
  imports Row_Codec
begin

text \<open>
  Reading some columns of a row record (\<open>storage_layout/row_codec.rs\<close> from
  \<open>decode_row_record_projected\<close> on, with the projected readers of
  \<open>fast_row_decode.rs\<close>): into a row, into a vector of values through a
  \<open>RowValueProjector\<close>, and into numeric slots through a \<open>FastNumericProjector\<close>. Each
  reader is compared with the full decoder on all three record formats.
\<close>

section \<open>Projection into a row\<close>

fun dedup_by_key :: "('a \<times> 'b) list \<Rightarrow> ('a \<times> 'b) list" where
  "dedup_by_key ((k, x) # (k', y) # xs) =
     (if k = k' then dedup_by_key ((k, x) # xs) else (k, x) # dedup_by_key ((k', y) # xs))"
| "dedup_by_key xs = xs"

definition wanted_columns :: "table_schema \<Rightarrow> nat list \<Rightarrow> (u32 \<times> string) list" where
  "wanted_columns s indices =
     dedup_by_key (sort_key fst
       (map (\<lambda>c. (column_id c, col_name c)) (List.map_filter (slice_get (columns s)) indices)))"

text \<open>\<open>binary_search_by_key\<close> on a list with ascending distinct keys.\<close>

definition wanted_name :: "(u32 \<times> string) list \<Rightarrow> u32 \<Rightarrow> string option" where
  "wanted_name wanted cid = map_option snd (find (\<lambda>(k, _). k = cid) wanted)"

definition insert_wanted :: "(u32 \<times> string) list \<Rightarrow> u32 \<Rightarrow> column_value \<Rightarrow> row_map \<Rightarrow> row_map" where
  "insert_wanted wanted cid v row =
     (case wanted_name wanted cid of Some name \<Rightarrow> row(name \<mapsto> v) | None \<Rightarrow> row)"

fun legacy_row_projected ::
    "(u32 \<times> string) list \<Rightarrow> nat \<Rightarrow> cursor \<Rightarrow> row_map \<Rightarrow> (row_map \<times> cursor) res" where
  "legacy_row_projected wanted 0 c row = Inr (row, c)"
| "legacy_row_projected wanted (Suc n) c row =
     res_bind (cursor_u32 c) (\<lambda>(cid, c1).
     res_bind (decode_tuple_value c1) (\<lambda>(v, c2).
       legacy_row_projected wanted n c2 (insert_wanted wanted cid v row)))"

fun fast_row_projected ::
    "(u32 \<times> string) list \<Rightarrow> bytes \<Rightarrow> nat \<Rightarrow> nat \<Rightarrow> nat \<Rightarrow> nat \<Rightarrow> row_map \<Rightarrow> row_map res" where
  "fast_row_projected wanted bs dir payload idx 0 row = Inr row"
| "fast_row_projected wanted bs dir payload idx (Suc n) row =
     res_bind (fast_row_directory_entry bs dir idx payload) (\<lambda>(cid, vstart, vend).
       case wanted_name wanted cid of
         None \<Rightarrow> fast_row_projected wanted bs dir payload (Suc idx) n row
       | Some name \<Rightarrow>
           res_bind (decode_whole decode_tuple_value ''trailing bytes in fast row value''
                       (slice bs vstart vend)) (\<lambda>v.
             fast_row_projected wanted bs dir payload (Suc idx) n (row(name \<mapsto> v))))"

definition decode_fast_row_record_projected :: "(u32 \<times> string) list \<Rightarrow> bytes \<Rightarrow> row_map res" where
  "decode_fast_row_record_projected wanted bs =
     res_bind (fast_row_header bs) (\<lambda>(h, dir, payload).
       fast_row_projected wanted bs dir payload 0 (hdr_count h) Map.empty)"

fun fixed_row_projected ::
    "table_schema \<Rightarrow> (u32 \<times> string) list \<Rightarrow> bytes \<Rightarrow> fixed_row_layout \<Rightarrow> nat \<Rightarrow> column_schema list
       \<Rightarrow> row_map \<Rightarrow> row_map res" where
  "fixed_row_projected s wanted bs layout idx [] row = Inr row"
| "fixed_row_projected s wanted bs layout idx (c # cols) row =
     (case wanted_name wanted (column_id c) of
        None \<Rightarrow> fixed_row_projected s wanted bs layout (idx + 1) cols row
      | Some name \<Rightarrow>
          res_bind (decode_fixed_row_column s bs layout idx) (\<lambda>v.
            fixed_row_projected s wanted bs layout (idx + 1) cols (row(name \<mapsto> v))))"

definition decode_fixed_row_record_projected ::
    "table_schema \<Rightarrow> (u32 \<times> string) list \<Rightarrow> bytes \<Rightarrow> row_map res" where
  "decode_fixed_row_record_projected s wanted bs =
     res_bind (fixed_row_layout s bs) (\<lambda>layout.
       fixed_row_projected s wanted bs layout 0 (columns s) Map.empty)"

definition decode_row_record_projected :: "table_schema \<Rightarrow> bytes \<Rightarrow> nat list \<Rightarrow> row_map res" where
  "decode_row_record_projected s bs indices =
     (let wanted = wanted_columns s indices
      in res_bind (cursor_u8 (cursor_new bs)) (\<lambda>(version, c1).
           if version = FIXED_ROW_VERSION then decode_fixed_row_record_projected s wanted bs
           else if version = FAST_ROW_VERSION then decode_fast_row_record_projected wanted bs
           else if version \<noteq> VERSION
             then Inl (user_error ''XX000'' ''unsupported row record version'')
           else
             res_bind (read_row_header c1) (\<lambda>(h, c2).
             res_bind (legacy_row_projected wanted (hdr_count h) c2 Map.empty) (\<lambda>(row, c3).
               if \<not> is_done c3
               then Inl (user_error ''XX000'' ''trailing bytes in v2 row record'')
               else Inr row))))"

section \<open>Projection into values\<close>

text \<open>The table from column id to output slot that both projectors build: the vector covers the
  schema's largest id, and a later index overwrites an earlier one for the same column.\<close>

definition resize :: "nat \<Rightarrow> 'a \<Rightarrow> 'a list \<Rightarrow> 'a list" where
  "resize n x xs = (if length xs < n then xs @ replicate (n - length xs) x else take n xs)"

fun fill_outputs ::
    "table_schema \<Rightarrow> nat \<Rightarrow> nat list \<Rightarrow> nat option list \<Rightarrow> nat option list" where
  "fill_outputs s out [] table = table"
| "fill_outputs s out (idx # indices) table =
     (case slice_get (columns s) idx of
        None \<Rightarrow> fill_outputs s (out + 1) indices table
      | Some c \<Rightarrow>
          (let cid = unat (column_id c);
               table1 = (if length table \<le> cid then resize (cid + 1) None table else table)
           in fill_outputs s (out + 1) indices (table1[cid := Some out])))"

definition column_id_to_output :: "table_schema \<Rightarrow> nat list \<Rightarrow> nat option list" where
  "column_id_to_output s indices =
     fill_outputs s 0 indices
       (replicate (fold max (map (\<lambda>c. unat (column_id c)) (columns s)) 0 + 1) None)"

record row_value_projector =
  rvp_schema :: table_schema
  rvp_column_id_to_output :: "nat option list"
  rvp_column_indices :: "nat list"
  rvp_output_len :: nat

definition row_value_projector_new :: "table_schema \<Rightarrow> nat list \<Rightarrow> row_value_projector" where
  "row_value_projector_new s indices =
     \<lparr>rvp_schema = s, rvp_column_id_to_output = column_id_to_output s indices,
      rvp_column_indices = indices, rvp_output_len = length indices\<rparr>"

definition output_idx :: "nat option list \<Rightarrow> u32 \<Rightarrow> nat option" where
  "output_idx table cid = Option.bind (slice_get table (unat cid)) (\<lambda>o'. o')"

text \<open>The output vector is refilled with NULL; the previous contents do not matter.\<close>

fun legacy_projected_values ::
    "nat option list \<Rightarrow> nat \<Rightarrow> cursor \<Rightarrow> column_value list \<Rightarrow> (column_value list \<times> cursor) res" where
  "legacy_projected_values table 0 c vs = Inr (vs, c)"
| "legacy_projected_values table (Suc n) c vs =
     res_bind (cursor_u32 c) (\<lambda>(cid, c1).
       case output_idx table cid of
         Some out \<Rightarrow>
           res_bind (decode_tuple_value c1) (\<lambda>(v, c2).
             legacy_projected_values table n c2 (vs[out := v]))
       | None \<Rightarrow>
           res_bind (skip_tuple_value c1) (\<lambda>c2. legacy_projected_values table n c2 vs))"

fun fast_projected_values ::
    "nat option list \<Rightarrow> bytes \<Rightarrow> nat \<Rightarrow> nat \<Rightarrow> nat \<Rightarrow> nat \<Rightarrow> column_value list \<Rightarrow> column_value list res"
where
  "fast_projected_values table bs dir payload idx 0 vs = Inr vs"
| "fast_projected_values table bs dir payload idx (Suc n) vs =
     res_bind (fast_row_directory_entry bs dir idx payload) (\<lambda>(cid, vstart, vend).
       case output_idx table cid of
         None \<Rightarrow> fast_projected_values table bs dir payload (Suc idx) n vs
       | Some out \<Rightarrow>
           res_bind (decode_whole decode_tuple_value ''trailing bytes in fast row value''
                       (slice bs vstart vend)) (\<lambda>v.
             fast_projected_values table bs dir payload (Suc idx) n (vs[out := v])))"

definition decode_fast_row_record_projected_values_with ::
    "row_value_projector \<Rightarrow> bytes \<Rightarrow> column_value list res" where
  "decode_fast_row_record_projected_values_with p bs =
     res_bind (fast_row_header bs) (\<lambda>(h, dir, payload).
       fast_projected_values (rvp_column_id_to_output p) bs dir payload 0 (hdr_count h)
         (replicate (rvp_output_len p) VNull))"

fun fixed_projected_values ::
    "table_schema \<Rightarrow> bytes \<Rightarrow> fixed_row_layout \<Rightarrow> nat \<Rightarrow> nat list \<Rightarrow> column_value list
       \<Rightarrow> column_value list res" where
  "fixed_projected_values s bs layout out [] vs = Inr vs"
| "fixed_projected_values s bs layout out (idx # indices) vs =
     res_bind (decode_fixed_row_column s bs layout idx) (\<lambda>v.
       fixed_projected_values s bs layout (out + 1) indices (vs[out := v]))"

definition decode_fixed_row_record_projected_values_with ::
    "row_value_projector \<Rightarrow> bytes \<Rightarrow> column_value list res" where
  "decode_fixed_row_record_projected_values_with p bs =
     res_bind (fixed_row_layout (rvp_schema p) bs) (\<lambda>layout.
       fixed_projected_values (rvp_schema p) bs layout 0 (rvp_column_indices p)
         (replicate (rvp_output_len p) VNull))"

definition decode_row_record_projected_values_with ::
    "row_value_projector \<Rightarrow> bytes \<Rightarrow> column_value list res" where
  "decode_row_record_projected_values_with p bs =
     res_bind (cursor_u8 (cursor_new bs)) (\<lambda>(version, c1).
       if version = FIXED_ROW_VERSION then decode_fixed_row_record_projected_values_with p bs
       else if version = FAST_ROW_VERSION then decode_fast_row_record_projected_values_with p bs
       else if version \<noteq> VERSION
         then Inl (user_error ''XX000'' ''unsupported row record version'')
       else
         res_bind (read_row_header c1) (\<lambda>(h, c2).
         res_bind (legacy_projected_values (rvp_column_id_to_output p) (hdr_count h) c2
                     (replicate (rvp_output_len p) VNull)) (\<lambda>(vs, c3).
           if \<not> is_done c3 then Inl (user_error ''XX000'' ''trailing bytes in v2 row record'')
           else Inr vs)))"

definition decode_row_record_projected_values ::
    "table_schema \<Rightarrow> bytes \<Rightarrow> nat list \<Rightarrow> column_value list res" where
  "decode_row_record_projected_values s bs indices =
     decode_row_record_projected_values_with (row_value_projector_new s indices) bs"

section \<open>Projection into numeric slots\<close>

record fast_numeric_direct_slot =
  slot_column_id :: u32
  slot_directory_idx :: nat
  slot_fixed_value_start :: "nat option"
  slot_fixed_width :: "nat option"
  slot_null_byte_offset :: nat
  slot_null_bit :: byte
  slot_data_type :: data_type
  slot_output_idx :: nat

record fast_numeric_projector =
  fnp_column_id_to_output :: "nat option list"
  fnp_direct_slots :: "fast_numeric_direct_slot list"
  fnp_output_len :: nat

definition direct_slot :: "table_schema \<Rightarrow> nat \<times> nat \<Rightarrow> fast_numeric_direct_slot option" where
  "direct_slot s p =
     (let (out, idx) = p;
          start = 1 + 4 + 8 + 8 + 8 + 4 + div_ceil (length (columns s)) 8
      in map_option (\<lambda>c.
           \<lparr>slot_column_id = column_id c, slot_directory_idx = idx,
            slot_fixed_value_start =
              map_option (\<lambda>offset. start + offset)
                (Option.bind (slice_get (fixed_offsets s) idx) (\<lambda>o'. o')),
            slot_fixed_width = fixed_width (col_type c),
            slot_null_byte_offset = 1 + 4 + 8 + 8 + 8 + 4 + idx div 8,
            slot_null_bit = push_bit (idx mod 8) 1,
            slot_data_type = col_type c, slot_output_idx = out\<rparr>)
           (slice_get (columns s) idx))"

definition fast_numeric_projector_new :: "table_schema \<Rightarrow> nat list \<Rightarrow> fast_numeric_projector" where
  "fast_numeric_projector_new s indices =
     \<lparr>fnp_column_id_to_output = column_id_to_output s indices,
      fnp_direct_slots = List.map_filter (direct_slot s) (List.enumerate 0 indices),
      fnp_output_len = length indices\<rparr>"

definition decode_fixed_row_numeric_slot ::
    "bytes \<Rightarrow> fast_numeric_value list \<Rightarrow> fast_numeric_direct_slot \<Rightarrow> fast_numeric_value list res"
where
  "decode_fixed_row_numeric_slot bs vs slot =
     res_bind (ok_or (slice_get bs (slot_null_byte_offset slot))
                 (user_error ''XX000'' ''truncated fixed row null bitmap'')) (\<lambda>null_byte.
       if null_byte AND slot_null_bit slot \<noteq> 0 then Inr (vs[slot_output_idx slot := FNull])
       else case slot_fixed_value_start slot of
         None \<Rightarrow> Inl (user_error ''XX000'' ''fixed row fast numeric column is not fixed-width'')
       | Some start \<Rightarrow>
           (let width = (case slot_fixed_width slot of Some w \<Rightarrow> w | None \<Rightarrow> 0);
                end' = start + width
            in if length bs < end'
               then Inl (user_error ''XX000'' ''truncated fixed row numeric value'')
               else res_bind (decode_fixed_numeric_value (slot_data_type slot) (slice bs start end'))
                      (\<lambda>x. Inr (vs[slot_output_idx slot := x]))))"

fun fixed_numeric_slots ::
    "bytes \<Rightarrow> fast_numeric_direct_slot list \<Rightarrow> fast_numeric_value list \<Rightarrow> fast_numeric_value list res"
where
  "fixed_numeric_slots bs [] vs = Inr vs"
| "fixed_numeric_slots bs (slot # slots) vs =
     res_bind (decode_fixed_row_numeric_slot bs vs slot) (\<lambda>vs'. fixed_numeric_slots bs slots vs')"

definition decode_fixed_row_record_fast_numeric_with ::
    "fast_numeric_projector \<Rightarrow> bytes \<Rightarrow> fast_numeric_value list \<Rightarrow> fast_numeric_value list res" where
  "decode_fixed_row_record_fast_numeric_with p bs vs =
     (if slice_get bs 0 \<noteq> Some FIXED_ROW_VERSION
      then Inl (user_error ''XX000'' ''unsupported fixed row record version'')
      else fixed_numeric_slots bs (fnp_direct_slots p) vs)"

fun legacy_numeric_values ::
    "nat option list \<Rightarrow> nat \<Rightarrow> cursor \<Rightarrow> fast_numeric_value list
       \<Rightarrow> (fast_numeric_value list \<times> cursor) res" where
  "legacy_numeric_values table 0 c vs = Inr (vs, c)"
| "legacy_numeric_values table (Suc n) c vs =
     res_bind (cursor_u32 c) (\<lambda>(cid, c1).
       case output_idx table cid of
         Some out \<Rightarrow>
           res_bind (decode_tuple_numeric_value c1) (\<lambda>(v, c2).
             legacy_numeric_values table n c2 (vs[out := v]))
       | None \<Rightarrow>
           res_bind (skip_tuple_value c1) (\<lambda>c2. legacy_numeric_values table n c2 vs))"

definition decode_legacy_row_record_fast_numeric_with ::
    "fast_numeric_projector \<Rightarrow> cursor \<Rightarrow> fast_numeric_value list \<Rightarrow> fast_numeric_value list res" where
  "decode_legacy_row_record_fast_numeric_with p c vs =
     res_bind (read_row_header c) (\<lambda>(h, c1).
     res_bind (legacy_numeric_values (fnp_column_id_to_output p) (hdr_count h) c1 vs) (\<lambda>(vs', c2).
       if \<not> is_done c2 then Inl (user_error ''XX000'' ''trailing bytes in v2 row record'')
       else Inr vs'))"

text \<open>The first pass reads each wanted column where the schema expects it; it gives up
  (\<open>None\<close>) at the first entry that is another column.\<close>

fun fast_numeric_direct ::
    "bytes \<Rightarrow> nat \<Rightarrow> nat \<Rightarrow> fast_numeric_direct_slot list \<Rightarrow> fast_numeric_value list
       \<Rightarrow> fast_numeric_value list option res" where
  "fast_numeric_direct bs dir payload [] vs = Inr (Some vs)"
| "fast_numeric_direct bs dir payload (slot # slots) vs =
     res_bind (fast_row_directory_entry bs dir (slot_directory_idx slot) payload)
       (\<lambda>(cid, vstart, vend).
       if cid \<noteq> slot_column_id slot then Inr None
       else
         res_bind (decode_whole decode_tuple_numeric_value ''trailing bytes in fast row value''
                     (slice bs vstart vend)) (\<lambda>x.
           fast_numeric_direct bs dir payload slots (vs[slot_output_idx slot := x])))"

fun fast_numeric_entries ::
    "nat option list \<Rightarrow> bytes \<Rightarrow> nat \<Rightarrow> nat \<Rightarrow> nat \<Rightarrow> nat \<Rightarrow> fast_numeric_value list
       \<Rightarrow> fast_numeric_value list res" where
  "fast_numeric_entries table bs dir payload idx 0 vs = Inr vs"
| "fast_numeric_entries table bs dir payload idx (Suc n) vs =
     res_bind (fast_row_directory_entry bs dir idx payload) (\<lambda>(cid, vstart, vend).
       case output_idx table cid of
         None \<Rightarrow> fast_numeric_entries table bs dir payload (Suc idx) n vs
       | Some out \<Rightarrow>
           res_bind (decode_whole decode_tuple_numeric_value ''trailing bytes in fast row value''
                       (slice bs vstart vend)) (\<lambda>x.
             fast_numeric_entries table bs dir payload (Suc idx) n (vs[out := x])))"

definition decode_fast_row_record_fast_numeric_with ::
    "fast_numeric_projector \<Rightarrow> bytes \<Rightarrow> fast_numeric_value list \<Rightarrow> fast_numeric_value list res" where
  "decode_fast_row_record_fast_numeric_with p bs vs =
     res_bind (fast_row_header bs) (\<lambda>(h, dir, payload).
       let table = fnp_column_id_to_output p; count = hdr_count h in
       if \<forall>slot \<in> set (fnp_direct_slots p). slot_directory_idx slot < count then
         res_bind (fast_numeric_direct bs dir payload (fnp_direct_slots p) vs) (\<lambda>direct.
           case direct of
             Some vs' \<Rightarrow> Inr vs'
           | None \<Rightarrow> fast_numeric_entries table bs dir payload 0 count (replicate (length vs) FNull))
       else fast_numeric_entries table bs dir payload 0 count vs)"

definition decode_row_record_fast_numeric_with ::
    "fast_numeric_projector \<Rightarrow> bytes \<Rightarrow> fast_numeric_value list \<Rightarrow> fast_numeric_value list res" where
  "decode_row_record_fast_numeric_with p bs vs =
     (if length vs \<noteq> fnp_output_len p
      then Inl (user_error ''XX000'' ''fast numeric output length does not match projector'')
      else case slice_get bs 0 of
        None \<Rightarrow> Inl (user_error ''XX000'' ''empty row record'')
      | Some version \<Rightarrow>
          if version = FIXED_ROW_VERSION then decode_fixed_row_record_fast_numeric_with p bs vs
          else
            (let nulls = replicate (length vs) FNull in
             res_bind (cursor_u8 (cursor_new bs)) (\<lambda>(_, c1).
               if version = VERSION then decode_legacy_row_record_fast_numeric_with p c1 nulls
               else if version = FAST_ROW_VERSION
                 then decode_fast_row_record_fast_numeric_with p bs nulls
               else Inl (user_error ''XX000'' ''unsupported row record version''))))"

fun output_slots_loop ::
    "fast_numeric_projector \<Rightarrow> bytes \<Rightarrow> nat list \<Rightarrow> fast_numeric_value list
       \<Rightarrow> fast_numeric_value list res" where
  "output_slots_loop p bs [] vs = Inr vs"
| "output_slots_loop p bs (out # outs) vs =
     (case find (\<lambda>slot. slot_output_idx slot = out) (fnp_direct_slots p) of
        None \<Rightarrow> output_slots_loop p bs outs vs
      | Some slot \<Rightarrow>
          res_bind (decode_fixed_row_numeric_slot bs vs slot) (\<lambda>vs'.
            output_slots_loop p bs outs vs'))"

definition decode_row_record_fast_numeric_slots_with ::
    "fast_numeric_projector \<Rightarrow> bytes \<Rightarrow> fast_numeric_value list \<Rightarrow> nat list
       \<Rightarrow> fast_numeric_value list res" where
  "decode_row_record_fast_numeric_slots_with p bs vs outs =
     (if length vs \<noteq> fnp_output_len p
      then Inl (user_error ''XX000'' ''fast numeric output length does not match projector'')
      else if slice_get bs 0 \<noteq> Some FIXED_ROW_VERSION
        then decode_row_record_fast_numeric_with p bs vs
      else output_slots_loop p bs outs vs)"

section \<open>The format in use\<close>

lemma fixed_projected_values_ok:
  assumes "length ws = length indices" "length vs = out + length indices"
    and "\<forall>k < length indices. decode_fixed_row_column s bs l (indices ! k) = Inr (ws ! k)"
  shows "fixed_projected_values s bs l out indices vs = Inr (take out vs @ ws)"
  using assms
proof (induction indices arbitrary: out vs ws)
  case (Cons i indices)
  then obtain w ws' where ws: "ws = w # ws'" "length ws' = length indices" by (cases ws) auto
  have "decode_fixed_row_column s bs l i = Inr w" using Cons.prems(3) ws by force
  moreover have "\<forall>k < length indices. decode_fixed_row_column s bs l (indices ! k) = Inr (ws' ! k)"
    using Cons.prems(3) ws by (auto dest: spec [of _ "Suc _"])
  ultimately show ?case
    using Cons.IH [of ws' "vs[out := w]" "out + 1"] ws Cons.prems(2)
    by (simp add: take_Suc_conv_app_nth)
qed simp

lemma encode_row_version:
  assumes "record_fits s row" "bs = encode_row_record_with_mvcc s row mvcc"
  shows "cursor_u8 (cursor_new bs) = Inr (FIXED_ROW_VERSION, advance 1 (cursor_new bs))"
    and "slice_get bs 0 = Some FIXED_ROW_VERSION"
proof -
  have len: "length (payload_sec row (columns s)) < 2 ^ 32"
    using assms(1) by (simp only: record_fits_def)
  show "cursor_u8 (cursor_new bs) = Inr (FIXED_ROW_VERSION, advance 1 (cursor_new bs))"
    by (rule cursor_u8_rest) (simp add: assms(2) encode_row_record_sections [OF len] row_header_bytes_def)
  show "slice_get bs 0 = Some FIXED_ROW_VERSION"
    by (simp add: assms(2) encode_row_record_sections [OF len] row_header_bytes_def)
qed

lemma projected_values_encode:
  assumes "record_fits s row" "row_typed s row" "columns s' = columns s @ extra"
    and "\<forall>i \<in> set indices. i < length (columns s')"
  shows "decode_row_record_projected_values s' (encode_row_record_with_mvcc s row mvcc) indices =
    Inr (map (\<lambda>i. read_values s row extra ! i) indices)"
proof -
  let ?bs = "encode_row_record_with_mvcc s row mvcc"
  have len: "length (columns s) < 2 ^ 32" "length (payload_sec row (columns s)) < 2 ^ 32"
    using assms(1) by (simp_all only: record_fits_def)
  have "decode_fixed_row_column s' ?bs (layout_of (columns s)) i = Inr (read_values s row extra ! i)"
    if "i < length (columns s')" for i
    using decode_fixed_row_column_encode [OF assms(1-3)] decode_fixed_row_column_added [of "columns s" i s']
      that assms(3) by (cases "i < length (columns s)") (simp_all add: nth_append)
  then have "fixed_projected_values s' ?bs (layout_of (columns s)) 0 indices
      (replicate (length indices) VNull) = Inr (take 0 (replicate (length indices) VNull)
        @ map (\<lambda>i. read_values s row extra ! i) indices)"
    using assms(4) by (intro fixed_projected_values_ok) auto
  then show ?thesis
    using encode_row_version [OF assms(1) refl]
    by (simp add: decode_row_record_projected_values_def decode_row_record_projected_values_with_def
        decode_fixed_row_record_projected_values_with_def row_value_projector_new_def
        fixed_row_layout_encode [OF len(1) assms(3) len(2)])
qed

text \<open>A numeric slot holds the number the full decoder would return.\<close>

definition numeric_column :: "column_schema \<Rightarrow> bool" where
  "numeric_column c = (\<not> is_variable c \<and> col_type c \<noteq> TBoolean)"

lemma decode_fixed_row_numeric_slot_encode:
  assumes fits: "record_fits s row" and typed: "row_typed s row"
    and i: "i < length (columns s)" and num: "numeric_column (columns s ! i)"
    and slot: "direct_slot s (out, i) = Some slot"
  shows "\<exists>x. column_value_to_fast_numeric (row_value row (columns s ! i)) = Some x \<and>
    decode_fixed_row_numeric_slot (encode_row_record_with_mvcc s row mvcc) vs slot = Inr (vs[out := x])"
proof -
  let ?c = "columns s ! i"
  define bs where "bs = encode_row_record_with_mvcc s row mvcc"
  define l where "l = layout_of (columns s)"
  note sl = layout_of_slices [OF fits bs_def l_def]
  define off where "off = sum_list (map width_of (take i (columns s)))"
  have get: "slice_get (columns s) i = Some ?c" using i by simp
  have off: "slice_get (fixed_offsets s) i = Some (Some off)"
    using num i fixed_offsets_nth [OF i, of 0]
    by (simp add: numeric_column_def fixed_offsets_def fixed_offsets_for_columns_def off_def)
  have w: "fixed_width (col_type ?c) = Some (width_of ?c)"
    using num by (auto simp: numeric_column_def is_variable_def width_of_def)
  have slot': "slot_fixed_value_start slot = Some (fixed_region_start l + off)"
    "slot_fixed_width slot = Some (width_of ?c)" "slot_null_byte_offset slot = 33 + i div 8"
    "slot_null_bit slot = push_bit (i mod 8) 1" "slot_data_type slot = col_type ?c"
    "slot_output_idx slot = out"
    using slot get off w
    by (auto simp: direct_slot_def Let_def l_def layout_of_def simp del: slice_get_eq_Some)
  have "fixed_row_is_null bs l i = Inr (is_null (row_value row ?c))"
    unfolding bs_def l_def by (rule fixed_row_is_null_encode [OF fits i])
  then obtain b where b: "slice_get bs (33 + i div 8) = Some b"
    "(b AND push_bit (i mod 8) 1 \<noteq> 0) = is_null (row_value row ?c)"
    using layout_of_columns(1) [OF i l_def]
    by (auto simp: fixed_row_is_null_def l_def layout_of_def Let_def res_simps
        simp del: slice_get_eq_Some split: if_splits)
  show ?thesis
  proof (cases "is_null (row_value row ?c)")
    case True
    then have "row_value row ?c = VNull" by (simp add: is_null_def)
    with b slot' True show ?thesis
      by (simp add: decode_fixed_row_numeric_slot_def column_value_to_fast_numeric_def
          bs_def [symmetric] del: slice_get_eq_Some push_bit_of_1)
  next
    case False
    have "slice bs (fixed_region_start l + off) (fixed_region_start l + off + width_of ?c)
        = slot_bytes row ?c"
      using sl(1) [of off "off + width_of ?c"] slice_fixed_sec [OF i off_def, of row]
      by (simp add: add.assoc)
    moreover have "decode_fixed_value (col_type ?c) (slot_bytes row ?c) = Inr (row_value row ?c)"
      using typed i num False
      by (intro decode_fixed_slot) (simp_all add: row_typed_def numeric_column_def)
    ultimately obtain x where "column_value_to_fast_numeric (row_value row ?c) = Some x"
      "decode_fixed_numeric_value (col_type ?c)
        (slice bs (fixed_region_start l + off) (fixed_region_start l + off + width_of ?c)) = Inr x"
      using decode_fixed_numeric_of_decode num by (metis numeric_column_def)
    moreover have "fixed_region_start l + off + width_of ?c \<le> length bs"
      using take_part_le(1) [OF i] sl(4-6) by (simp add: off_def)
    ultimately show ?thesis using b slot' False
      by (simp add: decode_fixed_row_numeric_slot_def bs_def [symmetric] Let_def
          del: slice_get_eq_Some push_bit_of_1)
  qed
qed

abbreviation numeric_of :: "table_schema \<Rightarrow> row_map \<Rightarrow> nat \<Rightarrow> fast_numeric_value" where
  "numeric_of s row i \<equiv> the (column_value_to_fast_numeric (row_value row (columns s ! i)))"

lemma fixed_numeric_slots_encode:
  assumes fits: "record_fits s row" and typed: "row_typed s row"
    and "\<forall>i \<in> set indices. i < length (columns s) \<and> numeric_column (columns s ! i)"
    and "length vs = out + length indices"
  shows "fixed_numeric_slots (encode_row_record_with_mvcc s row mvcc)
      (List.map_filter (direct_slot s) (List.enumerate out indices)) vs =
    Inr (take out vs @ map (numeric_of s row) indices)"
  using assms(3,4)
proof (induction indices arbitrary: out vs)
  case (Cons i indices)
  have i: "i < length (columns s)" "numeric_column (columns s ! i)" using Cons.prems(1) by auto
  then obtain slot where slot: "direct_slot s (out, i) = Some slot"
    by (auto simp: direct_slot_def Let_def slice_get_def)
  obtain x where x: "column_value_to_fast_numeric (row_value row (columns s ! i)) = Some x"
    "decode_fixed_row_numeric_slot (encode_row_record_with_mvcc s row mvcc) vs slot = Inr (vs[out := x])"
    using decode_fixed_row_numeric_slot_encode [OF fits typed i slot] by blast
  show ?case
    using Cons.IH [of "vs[out := x]" "Suc out"] Cons.prems slot x
    by (simp add: List.map_filter_simps take_Suc_conv_app_nth)
qed (simp add: List.map_filter_simps)

lemma fast_numeric_encode:
  assumes "record_fits s row" "row_typed s row"
    and "\<forall>i \<in> set indices. i < length (columns s) \<and> numeric_column (columns s ! i)"
    and "length vs = length indices"
  shows "decode_row_record_fast_numeric_with (fast_numeric_projector_new s indices)
      (encode_row_record_with_mvcc s row mvcc) vs = Inr (map (numeric_of s row) indices)"
  using fixed_numeric_slots_encode [OF assms(1-3), of vs 0] assms(4)
    encode_row_version(2) [OF assms(1) refl, of mvcc]
  by (simp add: decode_row_record_fast_numeric_with_def fast_numeric_projector_new_def
      decode_fixed_row_record_fast_numeric_with_def del: slice_get_eq_Some)

section \<open>The older formats\<close>

subsection \<open>The output table\<close>

text \<open>What the table holds after the loop: the last index of each column wins.\<close>

fun out_pairs :: "table_schema \<Rightarrow> nat \<Rightarrow> nat list \<Rightarrow> (u32 \<times> nat) list" where
  "out_pairs s out [] = []"
| "out_pairs s out (idx # indices) =
     (case slice_get (columns s) idx of
        None \<Rightarrow> out_pairs s (out + 1) indices
      | Some c \<Rightarrow> (column_id c, out) # out_pairs s (out + 1) indices)"

lemma output_idx_update:
  fixes cid :: u32
  assumes "table1 = (if length table \<le> unat cid then resize (unat cid + 1) None table else table)"
  shows "output_idx (table1[unat cid := Some out]) cid' =
    (if cid' = cid then Some out else output_idx table cid')"
proof -
  have len: "unat cid < length table1" using assms by (simp add: resize_def)
  have old: "output_idx table1 j = output_idx table j" for j
    by (auto simp: output_idx_def assms resize_def slice_get_def nth_append)
  have ne: "unat cid' \<noteq> unat cid" if "cid' \<noteq> cid" using that by (metis word_unat_eq_iff)
  show ?thesis
  proof (cases "cid' = cid")
    case True
    then show ?thesis using len by (simp add: output_idx_def slice_get_def)
  next
    case False
    then show ?thesis using old [of cid'] ne by (auto simp: output_idx_def slice_get_def)
  qed
qed

lemma output_idx_fill:
  "output_idx (fill_outputs s out indices table) cid =
     (case map_of (rev (out_pairs s out indices)) cid of
        Some k \<Rightarrow> Some k | None \<Rightarrow> output_idx table cid)"
proof (induction indices arbitrary: out table)
  case (Cons idx indices)
  show ?case
  proof (cases "slice_get (columns s) idx")
    case None
    then show ?thesis using Cons by (simp del: slice_get_eq_None)
  next
    case (Some c)
    then show ?thesis
      using output_idx_update [OF refl, of table "column_id c" out cid]
      by (auto simp: Let_def Cons.IH map_add_def simp del: slice_get_eq_Some split: option.splits)
  qed
qed simp

lemma out_pairs_in_range:
  "\<forall>i \<in> set indices. i < length (columns s) \<Longrightarrow>
   out_pairs s out indices = zip (map (\<lambda>i. column_id (columns s ! i)) indices) [out..<out + length indices]"
proof (induction indices arbitrary: out)
  case (Cons i indices)
  then have "[out..<out + length (i # indices)] = out # [Suc out..<Suc out + length indices]"
    by (simp add: upt_conv_Cons del: upt_Suc)
  with Cons show ?case by (simp add: slice_get_def del: upt_Suc)
qed simp

text \<open>A projector's table is the inverse of the list of projected columns.\<close>

definition inverts :: "nat option list \<Rightarrow> u32 list \<Rightarrow> bool" where
  "inverts table ids =
     (\<forall>cid k. (output_idx table cid = Some k) = (k < length ids \<and> ids ! k = cid))"

text \<open>The output vector shows a record's values of the projected columns.\<close>

definition shows_values :: "u32 list \<Rightarrow> (u32, column_value) btree_map \<Rightarrow> column_value list \<Rightarrow> bool"
where
  "shows_values ids m out =
     (out = map (\<lambda>cid. case bt_get m cid of Some v \<Rightarrow> v | None \<Rightarrow> VNull) ids)"

lemma shows_insert:
  assumes inv: "inverts table ids" and sv: "shows_values ids m out"
  shows "output_idx table cid = Some k \<Longrightarrow> shows_values ids (bt_insert cid v m) (out[k := v])"
    and "output_idx table cid = None \<Longrightarrow> shows_values ids (bt_insert cid v m) out"
proof -
  show "shows_values ids (bt_insert cid v m) out" if "output_idx table cid = None"
  proof -
    have "cid \<notin> set ids" using that inv unfolding inverts_def by (metis in_set_conv_nth option.simps(3))
    then show ?thesis using sv by (auto simp: shows_values_def bt_get_insert)
  qed
  show "shows_values ids (bt_insert cid v m) (out[k := v])" if k: "output_idx table cid = Some k"
  proof -
    have "(ids ! j = cid) = (j = k)" if "j < length ids" for j
      using that k inv unfolding inverts_def by (metis option.inject)
    then show ?thesis
      using sv by (auto simp: shows_values_def bt_get_insert nth_list_update intro!: nth_equalityI)
  qed
qed

lemma legacy_projected_values_raw:
  assumes inv: "inverts table ids"
    and "legacy_row_values n c m = Inr (m', c')" "shows_values ids m out"
  shows "\<exists>out'. legacy_projected_values table n c out = Inr (out', c') \<and> shows_values ids m' out'"
  using assms(2,3)
proof (induction n arbitrary: c m out)
  case (Suc n)
  then obtain cid c1 v c2 where r: "cursor_u32 c = Inr (cid, c1)" "decode_tuple_value c1 = Inr (v, c2)"
    "legacy_row_values n c2 (bt_insert cid v m) = Inr (m', c')"
    by (auto simp: res_simps)
  show ?case
  proof (cases "output_idx table cid")
    case None
    with Suc.IH [OF r(3) shows_insert(2) [OF inv Suc.prems(2) None]] show ?thesis
      using r skip_tuple_of_decode(1) [OF r(2)] by simp
  next
    case (Some k)
    with Suc.IH [OF r(3) shows_insert(1) [OF inv Suc.prems(2) Some]] show ?thesis using r by simp
  qed
qed simp

lemma fast_projected_values_raw:
  assumes inv: "inverts table ids"
    and "fast_row_values bs dir payload idx n m = Inr m'" "shows_values ids m out"
  shows "\<exists>out'. fast_projected_values table bs dir payload idx n out = Inr out' \<and> shows_values ids m' out'"
  using assms(2,3)
proof (induction n arbitrary: idx m out)
  case (Suc n)
  then obtain cid a b v where r: "fast_row_directory_entry bs dir idx payload = Inr (cid, a, b)"
    "decode_whole decode_tuple_value ''trailing bytes in fast row value'' (slice bs a b) = Inr v"
    "fast_row_values bs dir payload (Suc idx) n (bt_insert cid v m) = Inr m'"
    by (auto simp: res_simps)
  show ?case
  proof (cases "output_idx table cid")
    case None
    with Suc.IH [OF r(3) shows_insert(2) [OF inv Suc.prems(2) None]] show ?thesis using r by simp
  next
    case (Some k)
    with Suc.IH [OF r(3) shows_insert(1) [OF inv Suc.prems(2) Some]] show ?thesis using r by simp
  qed
qed simp

text \<open>The ids a list of column positions asks for.\<close>

definition projected_ids :: "table_schema \<Rightarrow> nat list \<Rightarrow> u32 list" where
  "projected_ids s indices = map (\<lambda>i. column_id (columns s ! i)) indices"

lemma column_id_to_output_inverts:
  assumes "\<forall>i \<in> set indices. i < length (columns s)" "distinct (projected_ids s indices)"
  shows "inverts (column_id_to_output s indices) (projected_ids s indices)"
  unfolding inverts_def
proof (intro allI)
  fix cid k
  let ?ps = "zip (projected_ids s indices) [0..<length indices]"
  have "output_idx (replicate n None) cid = None" for n
    by (auto simp: output_idx_def slice_get_def)
  then have "output_idx (column_id_to_output s indices) cid = map_of (rev ?ps) cid"
    using out_pairs_in_range [OF assms(1), of 0]
    by (simp add: column_id_to_output_def output_idx_fill projected_ids_def del: replicate_Suc
        split: option.splits)
  moreover have "distinct (map fst (rev ?ps))"
    using assms(2) by (simp add: rev_map [symmetric] projected_ids_def)
  ultimately have "(output_idx (column_id_to_output s indices) cid = Some k) = ((cid, k) \<in> set ?ps)"
    using map_of_eq_Some_iff [of "rev ?ps" cid k] by simp
  also have "\<dots> = (k < length (projected_ids s indices) \<and> projected_ids s indices ! k = cid)"
    by (auto simp: set_zip projected_ids_def)
  finally show "(output_idx (column_id_to_output s indices) cid = Some k) =
      (k < length (projected_ids s indices) \<and> projected_ids s indices ! k = cid)" .
qed

text \<open>On every record the raw decoder accepts, the projected reader returns the record's values of
  the projected columns.\<close>

lemma projected_values_raw:
  assumes "decode_row_record_raw bs = Inr r" "\<forall>i \<in> set indices. i < length (columns s)"
    and "distinct (projected_ids s indices)"
  shows "decode_row_record_projected_values s bs indices =
    Inr (map (\<lambda>cid. case bt_get (rec_values r) cid of Some v \<Rightarrow> v | None \<Rightarrow> VNull)
           (projected_ids s indices))"
proof -
  let ?t = "column_id_to_output s indices" and ?ids = "projected_ids s indices"
  let ?nulls = "replicate (length indices) VNull"
  note ot = column_id_to_output_inverts [OF assms(2,3)]
  have start: "shows_values ?ids [] ?nulls"
    by (simp add: shows_values_def bt_get_def projected_ids_def map_replicate_const)
  obtain version c1 where u8: "cursor_u8 (cursor_new bs) = Inr (version, c1)"
    using assms(1) by (auto simp: decode_row_record_raw_def res_simps)
  show ?thesis
  proof (cases "version = FAST_ROW_VERSION")
    case True
    then obtain h dir payload where h: "fast_row_header bs = Inr (h, dir, payload)"
      "fast_row_values bs dir payload 0 (hdr_count h) [] = Inr (rec_values r)"
      using assms(1) u8
      by (auto simp: decode_row_record_raw_def decode_fast_row_record_raw_def record_of_def res_simps)
    from fast_projected_values_raw [OF ot h(2) start] show ?thesis
      using True u8 h(1) by (auto simp: shows_values_def decode_row_record_projected_values_def decode_row_record_projected_values_with_def
          decode_fast_row_record_projected_values_with_def row_value_projector_new_def
          FAST_ROW_VERSION_def FIXED_ROW_VERSION_def)
  next
    case False
    then obtain h c2 c3 where h: "version = VERSION" "read_row_header c1 = Inr (h, c2)"
      "legacy_row_values (hdr_count h) c2 [] = Inr (rec_values r, c3)" "is_done c3"
      using assms(1) u8
      by (auto simp: decode_row_record_raw_def record_of_def res_simps split: if_splits)
    from legacy_projected_values_raw [OF ot h(3) start] show ?thesis
      using u8 h(1,2,4) by (auto simp: shows_values_def decode_row_record_projected_values_def decode_row_record_projected_values_with_def
          row_value_projector_new_def VERSION_def FAST_ROW_VERSION_def FIXED_ROW_VERSION_def)
  qed
qed

end
