(* ===== verification/Mysql_Locks.thy ===== *)
theory Mysql_Locks
  imports Value_Types "HOL-Library.AList"
begin

text \<open>
  The MySQL lock manager (\<open>core/server/mysql_locks.rs\<close>, its types in \<open>shared.rs\<close>, the
  releases in \<open>context_session.rs\<close>): the conflict relation between locks, the waiter queue
  with priorities, deadlock detection on the wait-for map, and the acquire loop. The loop's
  rounds, which run under the lock table's mutex, are the steps of a transition relation; the
  two invariants are that no two sessions hold conflicting locks and that the wait-for map has
  no cycle.
\<close>

section \<open>Locks\<close>

datatype lock_scope = SDatabase | SSchema | STable | SIndex | SView | SSequence

datatype lock_duration = DStatement | DTransaction

datatype lock_priority = PNormal | PHigh

datatype lock_kind =
    MetadataRead
  | MetadataWrite
  | LTable
  | LRecord string
  | LGap "string option" "string option"
  | LNextKey "string option" "string option"
  | LInsertIntention string
  | IndexRecord string string
  | IndexGap string "string option" "string option"
  | IndexNextKey string "string option" "string option"
  | IndexInsertIntention string string

record mysql_lock =
  owner :: i32
  scope :: lock_scope
  duration :: lock_duration
  lock_database :: string
  lock_schema :: string
  lock_object :: string
  kind :: lock_kind

record lock_waiter =
  waiter_session :: i32
  waiter_priority :: lock_priority
  waiter_locks :: "mysql_lock list"

subsection \<open>Names and values\<close>

definition normalize_mysql_lock_name :: "string \<Rightarrow> string" where
  "normalize_mysql_lock_name v = to_ascii_lowercase v"

text \<open>\<open>format!("{:?}", value)\<close>. The integer, boolean and null renderings are written out;
  \<open>dbg\<close> stands for those of the other variants.\<close>

definition normalize_mysql_lock_value :: "(column_value \<Rightarrow> string) \<Rightarrow> column_value \<Rightarrow> string" where
  "normalize_mysql_lock_value dbg v =
     (case v of
        VNull \<Rightarrow> ''Null''
      | VInt16 x \<Rightarrow> ''Int16('' @ show_int (sint x) @ '')''
      | VInt32 x \<Rightarrow> ''Int32('' @ show_int (sint x) @ '')''
      | VInt64 x \<Rightarrow> ''Int64('' @ show_int (sint x) @ '')''
      | VBoolean b \<Rightarrow> if b then ''Boolean(true)'' else ''Boolean(false)''
      | _ \<Rightarrow> dbg v)"

definition normalize_mysql_index_lock_value ::
    "(column_value \<Rightarrow> string) \<Rightarrow> string \<Rightarrow> column_value \<Rightarrow> string" where
  "normalize_mysql_index_lock_value dbg index_name v =
     to_ascii_lowercase index_name @ ''='' @ normalize_mysql_lock_value dbg v"

section \<open>Conflicts\<close>

definition mysql_range_contains_value ::
    "string option \<Rightarrow> string option \<Rightarrow> string \<Rightarrow> bool" where
  "mysql_range_contains_value lower upper v =
     ((case lower of None \<Rightarrow> True | Some l \<Rightarrow> l \<le> v)
    \<and> (case upper of None \<Rightarrow> True | Some u \<Rightarrow> v < u))"

definition mysql_ranges_overlap ::
    "string option \<Rightarrow> string option \<Rightarrow> string option \<Rightarrow> string option \<Rightarrow> bool" where
  "mysql_ranges_overlap left_lower left_upper right_lower right_upper =
     (let left_before_right =
            (case (left_upper, right_lower) of (Some lu, Some rl) \<Rightarrow> lu \<le> rl | _ \<Rightarrow> False);
          right_before_left =
            (case (right_upper, left_lower) of (Some ru, Some ll) \<Rightarrow> ru \<le> ll | _ \<Rightarrow> False)
      in \<not> left_before_right \<and> \<not> right_before_left)"

definition mysql_index_value_in_range ::
    "string \<Rightarrow> string \<Rightarrow> string option \<Rightarrow> string option \<Rightarrow> bool" where
  "mysql_index_value_in_range index_name v lower upper =
     (starts_with v (index_name @ ''='') \<and> mysql_range_contains_value lower upper v)"

definition mysql_object_scopes_overlap :: "mysql_lock \<Rightarrow> mysql_lock \<Rightarrow> bool" where
  "mysql_object_scopes_overlap existing requested =
     (if lock_database existing \<noteq> lock_database requested then False
      else if scope existing = SDatabase \<or> scope requested = SDatabase then True
      else if scope existing = SSchema \<or> scope requested = SSchema
        then lock_schema existing = lock_schema requested
      else lock_schema existing = lock_schema requested \<and> scope existing = scope requested
             \<and> lock_object existing = lock_object requested)"

text \<open>The match on the two kinds, arm by arm.\<close>

definition kinds_conflict :: "lock_kind \<Rightarrow> lock_kind \<Rightarrow> bool" where
  "kinds_conflict e r =
     (case (e, r) of
        (MetadataRead, MetadataRead) \<Rightarrow> False
      | (MetadataRead, k) \<Rightarrow> k = MetadataWrite
      | (k, MetadataRead) \<Rightarrow> k = MetadataWrite
      | (MetadataWrite, _) \<Rightarrow> True
      | (_, MetadataWrite) \<Rightarrow> True
      | (LTable, _) \<Rightarrow> True
      | (_, LTable) \<Rightarrow> True
      | (LRecord left, LRecord right) \<Rightarrow> left = right
      | (LRecord v, LNextKey lower upper) \<Rightarrow> mysql_range_contains_value lower upper v
      | (LNextKey lower upper, LRecord v) \<Rightarrow> mysql_range_contains_value lower upper v
      | (LRecord v, LGap lower upper) \<Rightarrow> mysql_range_contains_value lower upper v
      | (LGap lower upper, LRecord v) \<Rightarrow> mysql_range_contains_value lower upper v
      | (LInsertIntention _, LInsertIntention _) \<Rightarrow> False
      | (LInsertIntention v, LGap lower upper) \<Rightarrow> mysql_range_contains_value lower upper v
      | (LGap lower upper, LInsertIntention v) \<Rightarrow> mysql_range_contains_value lower upper v
      | (LInsertIntention v, LNextKey lower upper) \<Rightarrow> mysql_range_contains_value lower upper v
      | (LNextKey lower upper, LInsertIntention v) \<Rightarrow> mysql_range_contains_value lower upper v
      | (LGap ll lu, LGap rl ru) \<Rightarrow> mysql_ranges_overlap ll lu rl ru
      | (LNextKey ll lu, LNextKey rl ru) \<Rightarrow> mysql_ranges_overlap ll lu rl ru
      | (LGap ll lu, LNextKey rl ru) \<Rightarrow> mysql_ranges_overlap ll lu rl ru
      | (LNextKey ll lu, LGap rl ru) \<Rightarrow> mysql_ranges_overlap ll lu rl ru
      | (IndexRecord li lv, IndexRecord ri rv) \<Rightarrow> li = ri \<and> lv = rv
      | (IndexInsertIntention _ _, IndexInsertIntention _ _) \<Rightarrow> False
      | (IndexRecord i v, IndexNextKey ri lower upper) \<Rightarrow>
          i = ri \<and> mysql_index_value_in_range i v lower upper
      | (IndexNextKey ri lower upper, IndexRecord i v) \<Rightarrow>
          i = ri \<and> mysql_index_value_in_range i v lower upper
      | (IndexRecord i v, IndexGap ri lower upper) \<Rightarrow>
          i = ri \<and> mysql_index_value_in_range i v lower upper
      | (IndexGap ri lower upper, IndexRecord i v) \<Rightarrow>
          i = ri \<and> mysql_index_value_in_range i v lower upper
      | (IndexInsertIntention i v, IndexGap ri lower upper) \<Rightarrow>
          i = ri \<and> mysql_index_value_in_range i v lower upper
      | (IndexGap ri lower upper, IndexInsertIntention i v) \<Rightarrow>
          i = ri \<and> mysql_index_value_in_range i v lower upper
      | (IndexInsertIntention i v, IndexNextKey ri lower upper) \<Rightarrow>
          i = ri \<and> mysql_index_value_in_range i v lower upper
      | (IndexNextKey ri lower upper, IndexInsertIntention i v) \<Rightarrow>
          i = ri \<and> mysql_index_value_in_range i v lower upper
      | (IndexGap li ll lu, IndexGap ri rl ru) \<Rightarrow> li = ri \<and> mysql_ranges_overlap ll lu rl ru
      | (IndexNextKey li ll lu, IndexNextKey ri rl ru) \<Rightarrow>
          li = ri \<and> mysql_ranges_overlap ll lu rl ru
      | (IndexGap li ll lu, IndexNextKey ri rl ru) \<Rightarrow> li = ri \<and> mysql_ranges_overlap ll lu rl ru
      | (IndexNextKey li ll lu, IndexGap ri rl ru) \<Rightarrow> li = ri \<and> mysql_ranges_overlap ll lu rl ru
      | _ \<Rightarrow> False)"

definition mysql_locks_conflict :: "mysql_lock \<Rightarrow> mysql_lock \<Rightarrow> bool" where
  "mysql_locks_conflict existing requested =
     (mysql_object_scopes_overlap existing requested
      \<and> kinds_conflict (kind existing) (kind requested))"

section \<open>Queue and deadlock detection\<close>

definition mysql_lock_priority :: "mysql_lock list \<Rightarrow> lock_priority" where
  "mysql_lock_priority locks =
     (if \<exists>l \<in> set locks. kind l = MetadataWrite then PHigh else PNormal)"

definition higher :: "lock_priority \<Rightarrow> lock_priority \<Rightarrow> bool" where
  "higher p q = (p = PHigh \<and> q = PNormal)"

fun mysql_lock_queue_blocker ::
    "lock_waiter list \<Rightarrow> i32 \<Rightarrow> lock_priority \<Rightarrow> mysql_lock list \<Rightarrow> i32 option" where
  "mysql_lock_queue_blocker [] session priority requested = None"
| "mysql_lock_queue_blocker (w # queue) session priority requested =
     (if waiter_session w = session then None
      else if higher priority (waiter_priority w)
        then mysql_lock_queue_blocker queue session priority requested
      else if \<exists>queued \<in> set (waiter_locks w). \<exists>r \<in> set requested. mysql_locks_conflict queued r
        then Some (waiter_session w)
      else mysql_lock_queue_blocker queue session priority requested)"

text \<open>The wait-for map, an association list from waiter to owner.\<close>

type_synonym wait_map = "(i32 \<times> i32) list"

definition deadlock_error :: pg_error where
  "deadlock_error = user_error ''40001''
     ''Deadlock found when trying to get lock; try restarting transaction''"

text \<open>The \<open>while let\<close> loop: true when it returns the error.\<close>

function deadlock_loop :: "wait_map \<Rightarrow> i32 \<Rightarrow> i32 \<Rightarrow> i32 set \<Rightarrow> bool" where
  "deadlock_loop waits waiter cur seen =
     (case map_of waits cur of
        None \<Rightarrow> False
      | Some nxt \<Rightarrow>
          if nxt = waiter then True
          else if cur \<in> seen then False
          else deadlock_loop waits waiter nxt (insert cur seen))"
  by pat_completeness auto
termination
proof (relation "measure (\<lambda>(waits, waiter, cur, seen). card (dom (map_of waits) - seen))", simp)
  fix waits :: wait_map and waiter cur seen nxt
  assume "map_of waits cur = Some nxt" "cur \<notin> seen"
  then have "cur \<in> dom (map_of waits) - seen" by auto
  then have "card (dom (map_of waits) - insert cur seen) < card (dom (map_of waits) - seen)"
    by (intro psubset_card_mono) (auto simp: finite_dom_map_of)
  then show "((waits, waiter, nxt, insert cur seen), waits, waiter, cur, seen)
      \<in> measure (\<lambda>(waits, waiter, cur, seen). card (dom (map_of waits) - seen))" by simp
qed

declare deadlock_loop.simps [simp del]

definition mysql_register_lock_wait ::
    "i32 \<Rightarrow> i32 \<Rightarrow> wait_map \<Rightarrow> wait_map \<times> pg_error option" where
  "mysql_register_lock_wait waiter own waits =
     (let waits1 = AList.update waiter own waits in
      if deadlock_loop waits1 waiter own {} then (AList.delete waiter waits1, Some deadlock_error)
      else if map_of waits1 own = Some waiter
        then (AList.delete waiter waits1, Some deadlock_error)
      else (waits1, None))"

section \<open>Acquiring and releasing\<close>

record lock_state =
  held :: "mysql_lock list"
  queue :: "lock_waiter list"
  waits :: wait_map

text \<open>The entry of \<open>acquire_mysql_locks\<close>: nothing to do for an empty request, otherwise a
  place in the queue, once per session.\<close>

definition enqueue_waiter :: "i32 \<Rightarrow> mysql_lock list \<Rightarrow> lock_state \<Rightarrow> lock_state" where
  "enqueue_waiter session requested st =
     (if \<exists>w \<in> set (queue st). waiter_session w = session then st
      else st\<lparr>queue := queue st
                @ [\<lparr>waiter_session = session, waiter_priority = mysql_lock_priority requested,
                    waiter_locks = requested\<rparr>]\<rparr>)"

definition conflict_owner :: "i32 \<Rightarrow> mysql_lock list \<Rightarrow> mysql_lock list \<Rightarrow> i32 option" where
  "conflict_owner session requested locks =
     (case List.map_filter
             (\<lambda>r. find (\<lambda>existing. owner existing \<noteq> session \<and> mysql_locks_conflict existing r) locks)
             requested of
        [] \<Rightarrow> None
      | existing # _ \<Rightarrow> Some (owner existing))"

definition lock_blocker :: "i32 \<Rightarrow> mysql_lock list \<Rightarrow> lock_state \<Rightarrow> i32 option" where
  "lock_blocker session requested st =
     (case conflict_owner session requested (held st) of
        Some own \<Rightarrow> Some own
      | None \<Rightarrow> mysql_lock_queue_blocker (queue st) session (mysql_lock_priority requested) requested)"

fun push_new :: "mysql_lock list \<Rightarrow> mysql_lock list \<Rightarrow> mysql_lock list" where
  "push_new [] locks = locks"
| "push_new (l # ls) locks = push_new ls (if l \<in> set locks then locks else locks @ [l])"

text \<open>\<open>remove_mysql_lock_waiter\<close>, and the part of a granted round that does the same.\<close>

definition remove_mysql_lock_waiter :: "i32 \<Rightarrow> lock_state \<Rightarrow> lock_state" where
  "remove_mysql_lock_waiter session st =
     st\<lparr>queue := filter (\<lambda>w. waiter_session w \<noteq> session) (queue st),
        waits := AList.delete session (waits st)\<rparr>"

definition grant_locks :: "i32 \<Rightarrow> mysql_lock list \<Rightarrow> lock_state \<Rightarrow> lock_state" where
  "grant_locks session requested st =
     (remove_mysql_lock_waiter session st)\<lparr>held := push_new requested (held st)\<rparr>"

text \<open>One round of the loop up to the wait: granted, blocked by a session, or refused.\<close>

datatype round_result = Granted | Waiting i32 | Refused pg_error

definition register_wait :: "i32 \<Rightarrow> i32 \<Rightarrow> lock_state \<Rightarrow> lock_state \<times> round_result" where
  "register_wait session own st =
     (let (waits1, err) = mysql_register_lock_wait session own (waits st);
          st1 = st\<lparr>waits := waits1\<rparr>
      in case err of
           Some e \<Rightarrow> (remove_mysql_lock_waiter session st1, Refused e)
         | None \<Rightarrow> (st1, Waiting own))"

definition acquire_round :: "i32 \<Rightarrow> mysql_lock list \<Rightarrow> lock_state \<Rightarrow> lock_state \<times> round_result" where
  "acquire_round session requested st =
     (case lock_blocker session requested st of
        None \<Rightarrow> (grant_locks session requested st, Granted)
      | Some own \<Rightarrow> register_wait session own st)"

definition lock_timeout_error :: "nat \<Rightarrow> pg_error" where
  "lock_timeout_error secs = user_error ''HY000''
     (''Lock wait timeout exceeded after '' @ show_nat secs @ '' seconds; try restarting transaction'')"

definition release_session_table_locks :: "i32 \<Rightarrow> lock_state \<Rightarrow> lock_state" where
  "release_session_table_locks session st =
     st\<lparr>held := filter (\<lambda>l. owner l \<noteq> session) (held st),
        queue := filter (\<lambda>w. waiter_session w \<noteq> session) (queue st),
        waits := AList.delete session (waits st)\<rparr>"

definition release_session_statement_locks :: "i32 \<Rightarrow> lock_state \<Rightarrow> lock_state" where
  "release_session_statement_locks session st =
     st\<lparr>held := filter (\<lambda>l. owner l \<noteq> session \<or> duration l \<noteq> DStatement) (held st)\<rparr>"

subsection \<open>Building requests\<close>

definition mysql_lock_with_duration ::
    "i32 \<Rightarrow> lock_scope \<Rightarrow> lock_duration \<Rightarrow> string \<Rightarrow> string \<Rightarrow> string \<Rightarrow> lock_kind \<Rightarrow> mysql_lock" where
  "mysql_lock_with_duration session sc dur db schema obj k =
     \<lparr>owner = session, scope = sc, duration = dur,
      lock_database = normalize_mysql_lock_name db,
      lock_schema = normalize_mysql_lock_name schema,
      lock_object = normalize_mysql_lock_name obj, kind = k\<rparr>"

definition mysql_lock :: "i32 \<Rightarrow> string \<Rightarrow> string \<Rightarrow> string \<Rightarrow> lock_kind \<Rightarrow> mysql_lock" where
  "mysql_lock session db schema table k =
     mysql_lock_with_duration session STable DTransaction db schema table k"

definition mysql_statement_lock :: "i32 \<Rightarrow> string \<Rightarrow> string \<Rightarrow> string \<Rightarrow> lock_kind \<Rightarrow> mysql_lock" where
  "mysql_statement_lock session db schema table k =
     mysql_lock_with_duration session STable DStatement db schema table k"

definition mysql_schema_lock :: "i32 \<Rightarrow> string \<Rightarrow> string \<Rightarrow> lock_kind \<Rightarrow> mysql_lock" where
  "mysql_schema_lock session db schema k =
     \<lparr>owner = session, scope = SSchema, duration = DStatement,
      lock_database = normalize_mysql_lock_name db,
      lock_schema = normalize_mysql_lock_name schema, lock_object = [], kind = k\<rparr>"

definition mysql_database_lock :: "i32 \<Rightarrow> string \<Rightarrow> lock_kind \<Rightarrow> mysql_lock" where
  "mysql_database_lock session db k =
     \<lparr>owner = session, scope = SDatabase, duration = DStatement,
      lock_database = normalize_mysql_lock_name db, lock_schema = [], lock_object = [], kind = k\<rparr>"

definition mysql_index_lock :: "i32 \<Rightarrow> string \<Rightarrow> string \<Rightarrow> string \<Rightarrow> lock_kind \<Rightarrow> mysql_lock" where
  "mysql_index_lock session db schema index k =
     mysql_lock_with_duration session SIndex DStatement db schema index k"

definition mysql_view_lock :: "i32 \<Rightarrow> string \<Rightarrow> string \<Rightarrow> string \<Rightarrow> lock_kind \<Rightarrow> mysql_lock" where
  "mysql_view_lock session db schema view k =
     mysql_lock_with_duration session SView DStatement db schema view k"

definition mysql_sequence_lock :: "i32 \<Rightarrow> string \<Rightarrow> string \<Rightarrow> string \<Rightarrow> lock_kind \<Rightarrow> mysql_lock" where
  "mysql_sequence_lock session db schema sequence k =
     mysql_lock_with_duration session SSequence DStatement db schema sequence k"

definition add_metadata_read_lock ::
    "mysql_lock list \<Rightarrow> i32 \<Rightarrow> string \<Rightarrow> string \<Rightarrow> string \<Rightarrow> mysql_lock list" where
  "add_metadata_read_lock locks session db schema table =
     locks @ [mysql_lock session db schema table MetadataRead]"

section \<open>The conflict relation\<close>

lemma ranges_overlap_sym: "mysql_ranges_overlap a b c d = mysql_ranges_overlap c d a b"
  by (auto simp: mysql_ranges_overlap_def Let_def)

lemma kinds_conflict_sym: "kinds_conflict e r = kinds_conflict r e"
  by (cases e; cases r) (auto simp: kinds_conflict_def ranges_overlap_sym)

lemma scopes_overlap_sym: "mysql_object_scopes_overlap a b = mysql_object_scopes_overlap b a"
  by (auto simp: mysql_object_scopes_overlap_def)

lemma mysql_locks_conflict_sym: "mysql_locks_conflict a b = mysql_locks_conflict b a"
  by (simp add: mysql_locks_conflict_def kinds_conflict_sym scopes_overlap_sym)

text \<open>Two ranges conflict when some value lies in both.\<close>

lemma ranges_overlap_of_common:
  assumes "mysql_range_contains_value a b v" "mysql_range_contains_value c d v"
  shows "mysql_ranges_overlap a b c d"
  using assms
  by (auto simp: mysql_range_contains_value_def mysql_ranges_overlap_def Let_def
      split: option.splits dest: order.strict_trans1 order.strict_trans2 leD)

section \<open>Deadlock detection is exact\<close>

definition wait_edges :: "wait_map \<Rightarrow> (i32 \<times> i32) set" where
  "wait_edges ws = {(a, b). map_of ws a = Some b}"

lemma wait_edges_step:
  assumes "(a, w) \<in> (wait_edges ws)\<^sup>+" "map_of ws a = Some b" "b \<noteq> w"
  shows "(b, w) \<in> (wait_edges ws)\<^sup>+"
proof -
  from assms(1) obtain z where "(a, z) \<in> wait_edges ws" "(z, w) \<in> (wait_edges ws)\<^sup>*"
    by (meson tranclD)
  then have "(b, w) \<in> (wait_edges ws)\<^sup>*" using assms(2) by (simp add: wait_edges_def)
  then show ?thesis using assms(3) by (simp add: rtrancl_eq_or_trancl)
qed

text \<open>The nodes already seen lead to each other or to the cursor, never to the waiter.\<close>

definition seen_closed :: "wait_map \<Rightarrow> i32 \<Rightarrow> i32 \<Rightarrow> i32 set \<Rightarrow> bool" where
  "seen_closed ws w cur seen =
     (\<forall>s \<in> seen. \<exists>n. map_of ws s = Some n \<and> n \<noteq> w \<and> n \<in> insert cur seen)"

lemma seen_closed_unreachable:
  assumes "seen_closed ws w cur seen" "cur \<in> seen"
  shows "(cur, w) \<notin> (wait_edges ws)\<^sup>+"
proof -
  have "b \<in> seen \<and> b \<noteq> w" if "(a, b) \<in> (wait_edges ws)\<^sup>+" "a \<in> seen" for a b
    using that
  proof (induction rule: trancl_induct)
    case (base y)
    then show ?case using assms by (auto simp: seen_closed_def wait_edges_def)
  next
    case (step y z)
    then show ?case using assms by (auto simp: seen_closed_def wait_edges_def)
  qed
  then show ?thesis using assms(2) by blast
qed

lemma deadlock_loop_iff:
  "seen_closed ws w cur seen \<Longrightarrow> deadlock_loop ws w cur seen = ((cur, w) \<in> (wait_edges ws)\<^sup>+)"
proof (induction ws w cur seen rule: deadlock_loop.induct)
  case (1 ws w cur seen)
  show ?case
  proof (cases "map_of ws cur")
    case None
    then have "(cur, w) \<notin> (wait_edges ws)\<^sup>+"
      by (auto simp: wait_edges_def elim: converse_tranclE)
    with None show ?thesis by (simp add: deadlock_loop.simps [of ws w cur seen])
  next
    case (Some nxt)
    then have edge: "(cur, nxt) \<in> wait_edges ws" by (simp add: wait_edges_def)
    consider "nxt = w" | "nxt \<noteq> w" "cur \<in> seen" | "nxt \<noteq> w" "cur \<notin> seen" by blast
    then show ?thesis
    proof cases
      case 1
      then show ?thesis using Some edge by (auto simp: deadlock_loop.simps [of ws w cur seen])
    next
      case 2
      then show ?thesis
        using Some seen_closed_unreachable [OF "1.prems"]
        by (simp add: deadlock_loop.simps [of ws w cur seen])
    next
      case 3
      have "seen_closed ws w nxt (insert cur seen)"
        using "1.prems" Some 3 by (auto simp: seen_closed_def)
      then have "deadlock_loop ws w nxt (insert cur seen) = ((nxt, w) \<in> (wait_edges ws)\<^sup>+)"
        using "1.IH" Some 3 by blast
      moreover have "((nxt, w) \<in> (wait_edges ws)\<^sup>+) = ((cur, w) \<in> (wait_edges ws)\<^sup>+)"
        using wait_edges_step Some 3 edge trancl_into_trancl2 by metis
      ultimately show ?thesis using Some 3 by (simp add: deadlock_loop.simps [of ws w cur seen])
    qed
  qed
qed

text \<open>A request is refused exactly when waiting would close a cycle through the waiter.\<close>

lemma register_lock_wait_iff:
  "(snd (mysql_register_lock_wait w own ws) \<noteq> None) =
    ((w, w) \<in> (wait_edges (AList.update w own ws))\<^sup>+)"
proof -
  let ?ws = "AList.update w own ws"
  have edge: "map_of ?ws w = Some own" by (simp add: update_conv')
  have loop: "deadlock_loop ?ws w own {} = ((own, w) \<in> (wait_edges ?ws)\<^sup>+)"
    by (rule deadlock_loop_iff) (simp add: seen_closed_def)
  have "(own, w) \<in> (wait_edges ?ws)\<^sup>+" if "map_of ?ws own = Some w"
    using that by (auto simp: wait_edges_def)
  moreover have "((w, w) \<in> (wait_edges ?ws)\<^sup>+) = ((own, w) \<in> (wait_edges ?ws)\<^sup>+)"
  proof (cases "own = w")
    case False
    then show ?thesis using wait_edges_step [of w w ?ws own] edge
      by (auto simp: wait_edges_def intro: trancl_into_trancl2)
  qed simp
  ultimately show ?thesis
    using loop by (auto simp: mysql_register_lock_wait_def Let_def)
qed

lemma wait_edges_delete: "wait_edges (AList.delete w ws) \<subseteq> wait_edges ws"
  by (auto simp: wait_edges_def delete_conv' split: if_splits)

lemma wait_edges_update:
  "wait_edges (AList.update w own ws) \<subseteq> insert (w, own) (wait_edges ws)"
  by (auto simp: wait_edges_def update_conv' split: if_splits)

lemma delete_update_edges:
  "wait_edges (AList.delete w (AList.update w own ws)) \<subseteq> wait_edges ws"
  by (auto simp: wait_edges_def delete_conv' update_conv' split: if_splits)

text \<open>The wait-for map never has a cycle.\<close>

lemma acyclic_register:
  assumes "acyclic (wait_edges ws)"
  shows "acyclic (wait_edges (fst (mysql_register_lock_wait w own ws)))"
proof (cases "snd (mysql_register_lock_wait w own ws)")
  case None
  let ?ws = "AList.update w own ws"
  have f: "fst (mysql_register_lock_wait w own ws) = ?ws"
    using None by (auto simp: mysql_register_lock_wait_def Let_def split: if_splits)
  have nw: "(w, w) \<notin> (wait_edges ?ws)\<^sup>+" using None register_lock_wait_iff [of w own ws] by simp
  define R where "R = wait_edges ?ws - {(w, own)}"
  have R: "wait_edges ?ws = insert (w, own) R"
    by (auto simp: R_def wait_edges_def update_conv')
  have "R \<subseteq> wait_edges ws" using wait_edges_update [of w own ws] by (auto simp: R_def)
  then have "acyclic R" by (rule acyclic_subset [OF assms])
  moreover have "(own, w) \<notin> R\<^sup>*"
  proof
    assume "(own, w) \<in> R\<^sup>*"
    then have "(own, w) \<in> (insert (w, own) R)\<^sup>*" by (meson in_mono rtrancl_mono subset_insertI)
    then show False using nw unfolding R by (meson insertI1 rtrancl_into_trancl2)
  qed
  ultimately have "acyclic (wait_edges ?ws)" unfolding R by (simp only: acyclic_insert) blast
  then show ?thesis by (simp add: f)
next
  case (Some e)
  then have "fst (mysql_register_lock_wait w own ws) = AList.delete w (AList.update w own ws)"
    by (auto simp: mysql_register_lock_wait_def Let_def split: if_splits)
  then show ?thesis using acyclic_subset [OF assms delete_update_edges] by simp
qed

section \<open>The lock manager as a transition system\<close>

text \<open>A session calls with locks of its own (every request is built by the constructors above).
  The rounds of the loop, the timeout and the releases may interleave in any order; between
  the test of a round and the registration of its wait the table's mutex is released, so a
  registration may also come later, for an owner that was in the way before.\<close>

inductive lock_step :: "lock_state \<Rightarrow> lock_state \<Rightarrow> bool" where
  ls_enqueue: "requested \<noteq> [] \<Longrightarrow> lock_step st (enqueue_waiter session requested st)"
| ls_round: "\<forall>l \<in> set requested. owner l = session \<Longrightarrow>
    lock_step st (fst (acquire_round session requested st))"
| ls_register: "lock_step st (fst (register_wait session own st))"
| ls_timeout: "lock_step st (remove_mysql_lock_waiter session st)"
| ls_release: "lock_step st (release_session_table_locks session st)"
| ls_release_statement: "lock_step st (release_session_statement_locks session st)"

definition lock_init :: lock_state where
  "lock_init = \<lparr>held = [], queue = [], waits = []\<rparr>"

definition no_conflicts :: "mysql_lock list \<Rightarrow> bool" where
  "no_conflicts locks =
     (\<forall>a \<in> set locks. \<forall>b \<in> set locks. owner a \<noteq> owner b \<longrightarrow> \<not> mysql_locks_conflict a b)"

definition one_place :: "lock_waiter list \<Rightarrow> bool" where
  "one_place q = distinct (map waiter_session q)"

definition lock_inv :: "lock_state \<Rightarrow> bool" where
  "lock_inv st = (no_conflicts (held st) \<and> acyclic (wait_edges (waits st)) \<and> one_place (queue st))"

lemma set_push_new: "set (push_new ls locks) = set ls \<union> set locks"
  by (induction ls locks rule: push_new.induct) auto

lemma conflict_owner_None:
  "conflict_owner session requested locks = None \<Longrightarrow>
   \<forall>r \<in> set requested. \<forall>e \<in> set locks. owner e \<noteq> session \<longrightarrow> \<not> mysql_locks_conflict e r"
proof -
  let ?f = "\<lambda>r. find (\<lambda>existing. owner existing \<noteq> session \<and> mysql_locks_conflict existing r) locks"
  assume "conflict_owner session requested locks = None"
  then have "List.map_filter ?f requested = []"
    by (auto simp: conflict_owner_def split: list.splits)
  then have "\<forall>r \<in> set requested. ?f r = None"
    by (induction requested) (auto simp: List.map_filter_simps split: option.splits)
  then show ?thesis by (auto simp: find_None_iff)
qed

lemma no_conflicts_push:
  assumes "no_conflicts locks" "\<forall>l \<in> set requested. owner l = session"
    and "conflict_owner session requested locks = None"
  shows "no_conflicts (push_new requested locks)"
proof -
  have old: "\<not> mysql_locks_conflict a b"
    if "a \<in> set locks" "b \<in> set requested" "owner a \<noteq> owner b" for a b
    using that assms(2) conflict_owner_None [OF assms(3)] by fastforce
  have "\<not> mysql_locks_conflict a b"
    if "a \<in> set (push_new requested locks)" "b \<in> set (push_new requested locks)" "owner a \<noteq> owner b"
    for a b
    using that assms(1,2) old [of a b] old [of b a] mysql_locks_conflict_sym [of a b]
    by (auto simp: set_push_new no_conflicts_def)
  then show ?thesis by (simp add: no_conflicts_def)
qed

lemma no_conflicts_subset: "no_conflicts locks \<Longrightarrow> set ls \<subseteq> set locks \<Longrightarrow> no_conflicts ls"
  by (auto simp: no_conflicts_def)

lemma one_place_filter: "one_place q \<Longrightarrow> one_place (filter P q)"
  by (simp add: one_place_def distinct_map_filter)

lemma acyclic_delete: "acyclic (wait_edges ws) \<Longrightarrow> acyclic (wait_edges (AList.delete s ws))"
  using acyclic_subset wait_edges_delete by blast

lemma lock_inv_remove: "lock_inv st \<Longrightarrow> lock_inv (remove_mysql_lock_waiter session st)"
  by (simp add: lock_inv_def remove_mysql_lock_waiter_def one_place_filter acyclic_delete)

lemma lock_inv_enqueue: "lock_inv st \<Longrightarrow> lock_inv (enqueue_waiter session requested st)"
  by (auto simp: lock_inv_def enqueue_waiter_def one_place_def)

lemma lock_inv_register: "lock_inv st \<Longrightarrow> lock_inv (fst (register_wait session own st))"
proof -
  assume inv: "lock_inv st"
  obtain ws err where r: "mysql_register_lock_wait session own (waits st) = (ws, err)" by force
  then have "acyclic (wait_edges ws)"
    using acyclic_register [of "waits st" session own] inv by (simp add: lock_inv_def)
  then have "lock_inv (st\<lparr>waits := ws\<rparr>)" using inv by (simp add: lock_inv_def)
  then show ?thesis
    using r lock_inv_remove by (auto simp: register_wait_def Let_def split: option.splits)
qed

lemma lock_inv_round:
  assumes "lock_inv st" "\<forall>l \<in> set requested. owner l = session"
  shows "lock_inv (fst (acquire_round session requested st))"
proof (cases "lock_blocker session requested st")
  case None
  then have "conflict_owner session requested (held st) = None"
    by (auto simp: lock_blocker_def split: option.splits)
  then have "no_conflicts (push_new requested (held st))"
    using assms by (intro no_conflicts_push) (simp_all add: lock_inv_def)
  then show ?thesis
    using None lock_inv_remove [OF assms(1), of session]
    by (simp add: acquire_round_def grant_locks_def lock_inv_def remove_mysql_lock_waiter_def)
next
  case (Some own)
  then show ?thesis using lock_inv_register [OF assms(1)] by (simp add: acquire_round_def)
qed

lemma lock_step_inv: "lock_step st st' \<Longrightarrow> lock_inv st \<Longrightarrow> lock_inv st'"
proof (induction rule: lock_step.induct)
  case (ls_release st session)
  then show ?case
    by (auto simp: lock_inv_def release_session_table_locks_def one_place_filter acyclic_delete
        elim: no_conflicts_subset)
next
  case (ls_release_statement st session)
  then show ?case
    by (auto simp: lock_inv_def release_session_statement_locks_def elim: no_conflicts_subset)
qed (simp_all add: lock_inv_enqueue lock_inv_round lock_inv_remove lock_inv_register)

lemma lock_inv_init: "lock_inv lock_init"
  by (simp add: lock_inv_def lock_init_def no_conflicts_def wait_edges_def one_place_def acyclic_def)

lemma lock_inv_reachable: "lock_step\<^sup>*\<^sup>* lock_init st \<Longrightarrow> lock_inv st"
  by (induction rule: rtranclp_induct) (auto intro: lock_inv_init lock_step_inv)

text \<open>Whoever waits, someone it waits for, directly or through others, does not wait.\<close>

lemma wait_chain_ends:
  assumes "acyclic (wait_edges ws)" "a \<in> dom (map_of ws)"
  shows "\<exists>b. (a, b) \<in> (wait_edges ws)\<^sup>+ \<and> b \<notin> dom (map_of ws)"
proof -
  have "wait_edges ws \<subseteq> set ws" by (auto simp: wait_edges_def dest: map_of_SomeD)
  then have "finite (wait_edges ws)" by (rule finite_subset) simp
  then have "wf ((wait_edges ws)\<inverse>)" using assms(1) by (rule finite_acyclic_wf_converse)
  then show ?thesis using assms(2)
  proof (induction a rule: wf_induct_rule)
    case (less a)
    then obtain b where ab: "(a, b) \<in> wait_edges ws" by (auto simp: wait_edges_def)
    show ?case
    proof (cases "b \<in> dom (map_of ws)")
      case True
      with less.IH [of b] ab obtain c where "(b, c) \<in> (wait_edges ws)\<^sup>+" "c \<notin> dom (map_of ws)"
        by auto
      then show ?thesis using ab trancl_into_trancl2 by metis
    next
      case False
      then show ?thesis using ab by blast
    qed
  qed
qed

text \<open>The first waiter of the queue is never held back by the queue.\<close>

lemma queue_head_unblocked:
  "queue st = w # q \<Longrightarrow> waiter_session w = session \<Longrightarrow>
   lock_blocker session requested st = conflict_owner session requested (held st)"
  by (simp add: lock_blocker_def split: option.splits)

text \<open>Once the sessions that hold conflicting locks have ended, the head of the queue is granted.\<close>

lemma fold_release:
  "held (fold release_session_table_locks ss st) = filter (\<lambda>l. owner l \<notin> set ss) (held st)"
  "queue (fold release_session_table_locks ss st) = filter (\<lambda>w. waiter_session w \<notin> set ss) (queue st)"
  by (induction ss arbitrary: st) (auto simp: release_session_table_locks_def intro!: filter_cong)

lemma conflict_owner_none:
  "(\<forall>l \<in> set locks. owner l \<noteq> session \<longrightarrow> (\<forall>r \<in> set requested. \<not> mysql_locks_conflict l r)) \<Longrightarrow>
     conflict_owner session requested locks = None"
proof -
  assume "\<forall>l \<in> set locks. owner l \<noteq> session \<longrightarrow> (\<forall>r \<in> set requested. \<not> mysql_locks_conflict l r)"
  then have "\<forall>r \<in> set requested. find (\<lambda>existing. owner existing \<noteq> session \<and> mysql_locks_conflict existing r) locks = None"
    by (auto simp: find_None_iff)
  then have "List.map_filter (\<lambda>r. find (\<lambda>existing. owner existing \<noteq> session \<and> mysql_locks_conflict existing r) locks)
      requested = []"
    by (induction requested) (auto simp: List.map_filter_simps)
  then show ?thesis by (simp add: conflict_owner_def)
qed

lemma head_waiter_granted:
  assumes "queue st = w # q" "waiter_session w = session" "session \<notin> set blockers"
    and "\<forall>l \<in> set (held st). owner l \<noteq> session \<and> (\<exists>r \<in> set requested. mysql_locks_conflict l r) \<longrightarrow>
      owner l \<in> set blockers"
  shows "snd (acquire_round session requested (fold release_session_table_locks blockers st)) = Granted"
proof -
  let ?st = "fold release_session_table_locks blockers st"
  have "queue ?st = w # filter (\<lambda>w. waiter_session w \<notin> set blockers) q"
    using assms(1-3) by (simp add: fold_release)
  moreover have "conflict_owner session requested (held ?st) = None"
    using assms(4) by (intro conflict_owner_none) (auto simp: fold_release)
  ultimately show ?thesis using queue_head_unblocked [OF _ assms(2)] by (simp add: acquire_round_def)
qed

end
