(* ===== verification/Decimal.thy ===== *)
theory Decimal
  imports Complex_Main Ieee Rust_Str
begin

text \<open>
  The text form of \<open>NUMERIC\<close> values as \<open>types/column_value.rs\<close> compares them:
  \<open>NormalizedDecimal::parse\<close> (sign, significant digits, scale) and its order. The order is
  shown to be that of the rational numbers the texts denote.
\<close>

section \<open>Parsing\<close>

definition i64_checked :: "int \<Rightarrow> int option" where
  "i64_checked x = (if - (2 ^ 63) \<le> x \<and> x < 2 ^ 63 then Some x else None)"

definition i64_wrap :: "int \<Rightarrow> int" where
  "i64_wrap x = sint (word_of_int x :: i64)"

record normalized_decimal =
  nd_sign :: int
  nd_digits :: string
  nd_scale :: int

text \<open>The loop over the bytes of the mantissa: digits, digits after the dot, dot seen.\<close>

fun mantissa_loop :: "string \<Rightarrow> string \<Rightarrow> int \<Rightarrow> bool \<Rightarrow> (string \<times> int) option" where
  "mantissa_loop [] digits frac_len saw_dot = Some (digits, frac_len)"
| "mantissa_loop (b # bs) digits frac_len saw_dot =
     (if is_digit b then
        (if saw_dot then
           Option.bind (i64_checked (frac_len + 1)) (\<lambda>f. mantissa_loop bs (digits @ [b]) f saw_dot)
         else mantissa_loop bs (digits @ [b]) frac_len saw_dot)
      else if b = CHR ''.'' \<and> \<not> saw_dot then mantissa_loop bs digits frac_len True
      else None)"

text \<open>\<open>while digits.last() == Some(&b'0')\<close>, on the reversed digits.\<close>

fun strip_zeros :: "string \<Rightarrow> int \<Rightarrow> (string \<times> int) option" where
  "strip_zeros [] scale = Some ([], scale)"
| "strip_zeros (c # cs) scale =
     (if c = CHR ''0'' then Option.bind (i64_checked (scale - 1)) (strip_zeros cs)
      else Some (c # cs, scale))"

definition normalize_digits :: "int \<Rightarrow> string \<Rightarrow> int \<Rightarrow> normalized_decimal option" where
  "normalize_digits sign digits scale =
     (let sig = dropWhile (\<lambda>c. c = CHR ''0'') digits in
      if sig = [] then Some \<lparr>nd_sign = 1, nd_digits = [], nd_scale = 0\<rparr>
      else Option.bind (strip_zeros (rev sig) scale) (\<lambda>(rds, sc).
             Some \<lparr>nd_sign = sign, nd_digits = rev rds, nd_scale = sc\<rparr>))"

text \<open>Sign, mantissa and exponent of the trimmed text.\<close>

definition split_sign :: "string \<Rightarrow> int \<times> string" where
  "split_sign raw =
     (case raw of
        c # cs \<Rightarrow> if c = CHR ''-'' then (- 1, cs) else if c = CHR ''+'' then (1, cs) else (1, raw)
      | [] \<Rightarrow> (1, []))"

definition is_e :: "char \<Rightarrow> bool" where
  "is_e c = (c = CHR ''e'' \<or> c = CHR ''E'')"

definition split_exponent :: "string \<Rightarrow> (string \<times> int) option" where
  "split_exponent s =
     (case dropWhile (\<lambda>c. \<not> is_e c) s of
        [] \<Rightarrow> Some (s, 0)
      | _ # ex \<Rightarrow> map_option (\<lambda>e. (takeWhile (\<lambda>c. \<not> is_e c) s, e)) (parse_signed 64 ex))"

definition parse_decimal :: "string \<Rightarrow> normalized_decimal option" where
  "parse_decimal raw0 =
     (let raw = trim raw0 in
      if raw = [] then None
      else
        (let (sign, body) = split_sign raw in
         Option.bind (split_exponent body) (\<lambda>(mantissa, exponent).
         Option.bind (mantissa_loop mantissa [] 0 False) (\<lambda>(digits, frac_len).
           if digits = [] then None
           else Option.bind (i64_checked (frac_len - exponent)) (\<lambda>scale.
                  normalize_digits sign digits scale)))))"

section \<open>Order\<close>

definition digit_at :: "string \<Rightarrow> nat \<Rightarrow> char" where
  "digit_at ds i = (if i < length ds then ds ! i else CHR ''0'')"

fun cmp_digits :: "nat \<Rightarrow> nat \<Rightarrow> string \<Rightarrow> string \<Rightarrow> ordering" where
  "cmp_digits 0 idx a b = Equal"
| "cmp_digits (Suc n) idx a b =
     (case cmp (digit_at a idx) (digit_at b idx) of
        Equal \<Rightarrow> cmp_digits n (idx + 1) a b
      | o' \<Rightarrow> o')"

definition cmp_abs :: "normalized_decimal \<Rightarrow> normalized_decimal \<Rightarrow> ordering" where
  "cmp_abs a b =
     (let a_exp = i64_wrap (int (length (nd_digits a)) - nd_scale a);
          b_exp = i64_wrap (int (length (nd_digits b)) - nd_scale b)
      in case cmp a_exp b_exp of
           Equal \<Rightarrow> cmp_digits (max (length (nd_digits a)) (length (nd_digits b))) 0
                      (nd_digits a) (nd_digits b)
         | o' \<Rightarrow> o')"

definition nd_cmp :: "normalized_decimal \<Rightarrow> normalized_decimal \<Rightarrow> ordering" where
  "nd_cmp a b =
     (if nd_digits a = [] \<and> nd_digits b = [] then Equal
      else if nd_digits a = [] then cmp 0 (nd_sign b)
      else if nd_digits b = [] then cmp (nd_sign a) 0
      else case cmp (nd_sign a) (nd_sign b) of
             Equal \<Rightarrow> if nd_sign a < 0 then cmp_abs b a else cmp_abs a b
           | o' \<Rightarrow> o')"

definition numeric_cmp :: "string \<Rightarrow> string \<Rightarrow> ordering option" where
  "numeric_cmp a b =
     (case (parse_decimal a, parse_decimal b) of
        (Some x, Some y) \<Rightarrow> Some (nd_cmp x y)
      | _ \<Rightarrow> Some (cmp a b))"

section \<open>The numbers the digits denote\<close>

definition abs_value :: "normalized_decimal \<Rightarrow> rat" where
  "abs_value d = of_nat (digits_nat (nd_digits d)) * 10 powi (- nd_scale d)"

definition nd_value :: "normalized_decimal \<Rightarrow> rat" where
  "nd_value d = of_int (nd_sign d) * abs_value d"

text \<open>The normal form the parser produces, with an exponent that fits the comparison.\<close>

definition nd_ok :: "normalized_decimal \<Rightarrow> bool" where
  "nd_ok d =
     (list_all is_digit (nd_digits d) \<and> nd_sign d \<in> {1, - 1}
      \<and> (nd_digits d \<noteq> [] \<longrightarrow> hd (nd_digits d) \<noteq> CHR ''0'')
      \<and> - (2 ^ 63) \<le> int (length (nd_digits d)) - nd_scale d
      \<and> int (length (nd_digits d)) - nd_scale d < 2 ^ 63)"

lemma digits_nat_pad: "digits_nat (ds @ replicate k (CHR ''0'')) = digits_nat ds * 10 ^ k"
proof (induction ds)
  case Nil
  have "digits_nat (replicate k (CHR ''0'')) = 0"
    by (induction k) (simp_all add: digit_val_def)
  then show ?case by simp
next
  case (Cons c ds)
  then show ?case by (simp add: power_add algebra_simps)
qed

lemma digits_nat_less_iff:
  "length xs = length ys \<Longrightarrow> list_all is_digit xs \<Longrightarrow> list_all is_digit ys \<Longrightarrow>
   (xs < ys) = (digits_nat xs < digits_nat ys)"
proof (induction xs ys rule: list_induct2)
  case (Cons x xs y ys)
  let ?p = "(10::nat) ^ length xs"
  have b: "digits_nat xs < ?p" "digits_nat ys < ?p"
    using digits_nat_bound [of xs] digits_nat_bound [of ys] Cons.hyps Cons.prems by simp_all
  have val: "(x < y) = (digit_val x < digit_val y)" "(x = y) = (digit_val x = digit_val y)"
    using Cons.prems digit_val_less_iff digit_val_eq_iff by simp_all
  show ?case
  proof (cases "x = y")
    case True
    with Cons show ?thesis by simp
  next
    case False
    have lt: "u * ?p + digits_nat us < w * ?p + k" if "u < w" "digits_nat us < ?p" for u w k us
    proof -
      from that have "(u + 1) * ?p \<le> w * ?p" by (intro mult_right_mono) simp_all
      with that show ?thesis by (simp add: algebra_simps)
    qed
    have "(x < y) = (digit_val x * ?p + digits_nat xs < digit_val y * ?p + digits_nat ys)"
      using lt [of "digit_val x" "digit_val y" xs "digits_nat ys"]
        lt [of "digit_val y" "digit_val x" ys "digits_nat xs"] b False val
      by (metis linorder_less_linear order.asym)
    with False Cons.hyps show ?thesis by simp
  qed
qed simp

subsection \<open>Comparing digits\<close>

lemma cmp_simps:
  "(cmp a b = Less) = (a < b)" "(cmp a b = Equal) = (a = b)" "(cmp a b = Greater) = (b < a)"
  by (auto simp: cmp_def)

lemma cmp_cong: "(a < b) = (c < d) \<Longrightarrow> (a = b) = (c = d) \<Longrightarrow> cmp a b = cmp c d"
  by (simp add: cmp_def)

abbreviation padded :: "nat \<Rightarrow> string \<Rightarrow> string" where
  "padded m ds \<equiv> ds @ replicate (m - length ds) (CHR ''0'')"

lemma cmp_digits_padded:
  assumes "length a \<le> m" "length b \<le> m" "idx + n = m"
  shows "cmp_digits n idx a b = cmp (drop idx (padded m a)) (drop idx (padded m b))"
  using assms(3)
proof (induction n arbitrary: idx)
  case 0
  then show ?case using assms(1,2) by (simp add: cmp_def)
next
  case (Suc n)
  have at: "digit_at ds idx = padded m ds ! idx" if "length ds \<le> m" for ds
    using Suc.prems that by (simp add: digit_at_def nth_append)
  have dr: "drop idx (padded m ds) = padded m ds ! idx # drop (idx + 1) (padded m ds)"
    if "length ds \<le> m" for ds
    using Suc.prems that Cons_nth_drop_Suc [of idx "padded m ds", symmetric]
    by (simp del: drop_append)
  have IH: "cmp_digits n (idx + 1) a b = cmp (drop (idx + 1) (padded m a)) (drop (idx + 1) (padded m b))"
    using Suc by simp
  show ?case
    unfolding cmp_digits.simps at [OF assms(1)] at [OF assms(2)] IH dr [OF assms(1)] dr [OF assms(2)]
    by (auto simp: cmp_def)
qed

lemma list_all_padded: "list_all is_digit ds \<Longrightarrow> list_all is_digit (padded m ds)"
  by (auto simp: list_all_iff is_digit_def)

lemma cmp_digits_nat:
  assumes "length xs = length ys" "list_all is_digit xs" "list_all is_digit ys"
  shows "cmp xs ys = cmp (digits_nat xs) (digits_nat ys)"
proof -
  have "(xs < ys) = (digits_nat xs < digits_nat ys)" "(ys < xs) = (digits_nat ys < digits_nat xs)"
    using digits_nat_less_iff assms by metis+
  then show ?thesis by (auto simp: cmp_def)
qed

lemma i64_wrap_id: "- (2 ^ 63) \<le> x \<Longrightarrow> x < 2 ^ 63 \<Longrightarrow> i64_wrap x = x"
  by (simp add: i64_wrap_def signed_of_int signed_take_bit_int_eq_self)

lemma cmp_scale: "0 < (k :: rat) \<Longrightarrow> cmp (of_nat x * k) (of_nat y * k) = cmp x y"
  by (intro cmp_cong) auto

text \<open>A digit string with its scale, stretched to \<open>m\<close> digits.\<close>

lemma abs_value_padded:
  assumes "length (nd_digits d) \<le> m"
  shows "abs_value d = of_nat (digits_nat (padded m (nd_digits d)))
    * 10 powi (int (length (nd_digits d)) - nd_scale d - int m)"
proof -
  let ?k = "m - length (nd_digits d)"
  have "(10 :: rat) ^ ?k * 10 powi (int (length (nd_digits d)) - nd_scale d - int m)
      = 10 powi (int ?k + (int (length (nd_digits d)) - nd_scale d - int m))"
    by (simp add: power_int_add)
  also have "int ?k + (int (length (nd_digits d)) - nd_scale d - int m) = - nd_scale d"
    using assms by simp
  finally show ?thesis by (simp add: abs_value_def digits_nat_pad mult.assoc)
qed

lemma abs_value_bounds:
  assumes "nd_ok d" "nd_digits d \<noteq> []"
  defines "e \<equiv> int (length (nd_digits d)) - nd_scale d"
  shows "10 powi (e - 1) \<le> abs_value d" "abs_value d < 10 powi e"
proof -
  let ?n = "length (nd_digits d)" and ?D = "digits_nat (nd_digits d)"
  have D: "10 ^ (?n - 1) \<le> ?D" "?D < 10 ^ ?n"
    using assms digits_nat_lower digits_nat_bound by (auto simp: nd_ok_def)
  have pos: "0 < (10 :: rat) powi (- nd_scale d)" by simp
  have "(10 :: rat) powi (e - 1) = 10 ^ (?n - 1) * 10 powi (- nd_scale d)"
  proof -
    have "e - 1 = int (?n - 1) + (- nd_scale d)" using assms(2) by (cases "nd_digits d") (simp_all add: e_def)
    then show ?thesis by (simp only:) (subst power_int_add, simp_all)
  qed
  also have "\<dots> \<le> of_nat ?D * 10 powi (- nd_scale d)"
  proof (rule mult_right_mono)
    have "of_nat (10 ^ (?n - 1)) \<le> (of_nat ?D :: rat)" using D(1) by (simp only: of_nat_le_iff)
    then show "(10 :: rat) ^ (?n - 1) \<le> of_nat ?D" by simp
  qed (use pos in simp)
  finally show "10 powi (e - 1) \<le> abs_value d" by (simp add: abs_value_def)
  have "of_nat ?D * 10 powi (- nd_scale d) < (10 :: rat) ^ ?n * 10 powi (- nd_scale d)"
  proof (rule mult_strict_right_mono [OF _ pos])
    have "(of_nat ?D :: rat) < of_nat (10 ^ ?n)" using D(2) by (simp only: of_nat_less_iff)
    then show "of_nat ?D < (10 :: rat) ^ ?n" by simp
  qed
  also have "\<dots> = 10 powi e"
  proof -
    have "e = int ?n + (- nd_scale d)" by (simp add: e_def)
    then show ?thesis by (simp only:) (subst power_int_add, simp_all)
  qed
  finally show "abs_value d < 10 powi e" by (simp add: abs_value_def)
qed


lemma cmp_abs_value:
  assumes "nd_ok x" "nd_ok y" "nd_digits x \<noteq> []" "nd_digits y \<noteq> []"
  shows "cmp_abs x y = cmp (abs_value x) (abs_value y)"
proof -
  let ?ex = "int (length (nd_digits x)) - nd_scale x" and ?ey = "int (length (nd_digits y)) - nd_scale y"
  have wrap: "i64_wrap ?ex = ?ex" "i64_wrap ?ey = ?ey"
    using assms(1,2) by (simp_all add: nd_ok_def i64_wrap_id)
  have apart: "abs_value u < abs_value v"
    if "nd_ok u" "nd_ok v" "nd_digits u \<noteq> []" "nd_digits v \<noteq> []"
      "int (length (nd_digits u)) - nd_scale u < int (length (nd_digits v)) - nd_scale v" for u v
  proof -
    let ?eu = "int (length (nd_digits u)) - nd_scale u" and ?ev = "int (length (nd_digits v)) - nd_scale v"
    have "abs_value u < 10 powi ?eu" by (rule abs_value_bounds(2) [OF that(1,3)])
    also have "\<dots> \<le> 10 powi (?ev - 1)" using that(5) by (intro power_int_increasing) simp_all
    also have "\<dots> \<le> abs_value v" by (rule abs_value_bounds(1) [OF that(2,4)])
    finally show ?thesis .
  qed
  show ?thesis
  proof (cases "?ex = ?ey")
    case True
    let ?m = "max (length (nd_digits x)) (length (nd_digits y))"
    have "cmp_abs x y = cmp (padded ?m (nd_digits x)) (padded ?m (nd_digits y))"
      using cmp_digits_padded [of "nd_digits x" ?m "nd_digits y" 0 ?m] True wrap
      by (simp add: cmp_abs_def cmp_def del: drop_append)
    also have "\<dots> = cmp (digits_nat (padded ?m (nd_digits x))) (digits_nat (padded ?m (nd_digits y)))"
      by (rule cmp_digits_nat [OF _ list_all_padded list_all_padded]) (use assms(1,2) in \<open>simp_all add: nd_ok_def\<close>)
    also have "\<dots> = cmp (abs_value x) (abs_value y)"
      using cmp_scale [of "10 powi (?ex - int ?m)"] True
      by (simp add: abs_value_padded [of x ?m] abs_value_padded [of y ?m])
    finally show ?thesis .
  next
    case False
    then consider "?ex < ?ey" | "?ey < ?ex" by linarith
    then show ?thesis
    proof cases
      case 1
      with apart [OF assms(1,2) assms(3,4)] wrap show ?thesis by (simp add: cmp_abs_def cmp_def Let_def)
    next
      case 2
      with apart [OF assms(2,1) assms(4,3)] wrap show ?thesis by (simp add: cmp_abs_def cmp_def Let_def)
    qed
  qed
qed

lemma abs_value_pos: "nd_ok d \<Longrightarrow> nd_digits d \<noteq> [] \<Longrightarrow> 0 < abs_value d"
  by (rule less_le_trans [OF _ abs_value_bounds(1)]) simp_all

lemma abs_value_empty [simp]: "nd_digits d = [] \<Longrightarrow> abs_value d = 0"
  by (simp add: abs_value_def)

text \<open>The comparison is that of the rationals.\<close>

lemma nd_cmp_value:
  assumes "nd_ok x" "nd_ok y"
  shows "nd_cmp x y = cmp (nd_value x) (nd_value y)"
proof -
  have sign: "nd_sign x = 1 \<or> nd_sign x = - 1" "nd_sign y = 1 \<or> nd_sign y = - 1"
    using assms by (auto simp: nd_ok_def)
  have pos: "nd_digits x \<noteq> [] \<Longrightarrow> 0 < abs_value x" "nd_digits y \<noteq> [] \<Longrightarrow> 0 < abs_value y"
    using assms abs_value_pos by auto
  show ?thesis
  proof (cases "nd_digits x = [] \<or> nd_digits y = []")
    case True
    then show ?thesis using sign pos by (auto simp: nd_cmp_def nd_value_def cmp_def)
  next
    case False
    then have "nd_digits x \<noteq> []" "nd_digits y \<noteq> []" by auto
    note abs = cmp_abs_value [OF assms this] cmp_abs_value [OF assms(2,1) this(2,1)] pos(1) [OF this(1)] pos(2) [OF this(2)]
    show ?thesis
      using sign False abs by (auto simp: nd_cmp_def nd_value_def cmp_def)
  qed
qed

section \<open>Decimal texts\<close>

text \<open>The plain text of a decimal: an optional minus sign, digits, and optionally a dot and more
  digits.\<close>

definition decimal_text :: "bool \<Rightarrow> string \<Rightarrow> string \<Rightarrow> string" where
  "decimal_text neg ip fp = (if neg then ''-'' else []) @ ip @ (if fp = [] then [] else ''.'' @ fp)"

definition decimal_value :: "bool \<Rightarrow> string \<Rightarrow> string \<Rightarrow> rat" where
  "decimal_value neg ip fp =
     (if neg then - 1 else 1) * (of_nat (digits_nat (ip @ fp)) / 10 ^ length fp)"

definition decimal_ok :: "string \<Rightarrow> string \<Rightarrow> bool" where
  "decimal_ok ip fp =
     (list_all is_digit ip \<and> list_all is_digit fp \<and> ip \<noteq> [] \<and> length ip + length fp < 2 ^ 63)"

lemma decimal_text_trim: "decimal_ok ip fp \<Longrightarrow> trim (decimal_text neg ip fp) = decimal_text neg ip fp"
proof -
  assume ok: "decimal_ok ip fp"
  obtain c cs where c: "decimal_text neg ip fp = c # cs" "is_digit c \<or> c = CHR ''-''"
    using ok by (cases neg; cases ip) (auto simp: decimal_text_def decimal_ok_def)
  obtain ds d where d: "decimal_text neg ip fp = ds @ [d]" "is_digit d"
    using ok by (cases ip rule: rev_cases; cases fp rule: rev_cases)
      (auto simp: decimal_text_def decimal_ok_def)
  have "trim_start (decimal_text neg ip fp) = decimal_text neg ip fp"
    using ws_len_plain [OF c(2)] c(1) by (simp add: trim_start.simps)
  moreover have "trim_end (decimal_text neg ip fp) = decimal_text neg ip fp"
    using ws_suffix_len_plain [OF d(2)] d(1) by (simp add: trim_end.simps)
  ultimately show ?thesis by (simp add: trim_def)
qed

lemma mantissa_loop_digits:
  "list_all is_digit ds \<Longrightarrow> mantissa_loop (ds @ rest) acc f False = mantissa_loop rest (acc @ ds) f False"
  by (induction ds arbitrary: acc) auto

lemma mantissa_loop_frac:
  "list_all is_digit ds \<Longrightarrow> 0 \<le> f \<Longrightarrow> f + int (length ds) < 2 ^ 63 \<Longrightarrow>
   mantissa_loop ds acc f True = Some (acc @ ds, f + int (length ds))"
  by (induction ds arbitrary: acc f) (auto simp: i64_checked_def)

lemma mantissa_loop_text:
  assumes "decimal_ok ip fp"
  shows "mantissa_loop (ip @ (if fp = [] then [] else ''.'' @ fp)) [] 0 False
    = Some (ip @ fp, int (length fp))"
proof -
  have "\<not> is_digit (CHR ''.'')" by (simp add: is_digit_def less_eq_char_def)
  then show ?thesis
    using assms by (simp add: decimal_ok_def mantissa_loop_digits mantissa_loop_frac)
qed

lemma no_exponent: "decimal_ok ip fp \<Longrightarrow>
  split_exponent (ip @ (if fp = [] then [] else ''.'' @ fp)) = Some (ip @ (if fp = [] then [] else ''.'' @ fp), 0)"
proof -
  assume ok: "decimal_ok ip fp"
  have "\<forall>c \<in> set (ip @ (if fp = [] then [] else ''.'' @ fp)). \<not> is_e c"
    using ok by (auto simp: decimal_ok_def list_all_iff is_e_def is_digit_def less_eq_char_def)
  then have "dropWhile (\<lambda>c. \<not> is_e c) (ip @ (if fp = [] then [] else ''.'' @ fp)) = []"
    by (simp only: dropWhile_eq_Nil_conv)
  then show ?thesis by (simp only: split_exponent_def list.simps)
qed

lemma strip_zeros_spec:
  "- (2 ^ 63) + int (length rds) \<le> sc \<Longrightarrow> sc < 2 ^ 63 \<Longrightarrow>
   \<exists>k ds. rds = replicate k (CHR ''0'') @ ds \<and> (ds \<noteq> [] \<longrightarrow> hd ds \<noteq> CHR ''0'')
     \<and> strip_zeros rds sc = Some (ds, sc - int k)"
proof (induction rds arbitrary: sc)
  case (Cons c rds)
  show ?case
  proof (cases "c = CHR ''0''")
    case True
    with Cons.IH [of "sc - 1"] Cons.prems obtain k ds where
      "rds = replicate k (CHR ''0'') @ ds" "ds \<noteq> [] \<longrightarrow> hd ds \<noteq> CHR ''0''"
      "strip_zeros rds (sc - 1) = Some (ds, sc - 1 - int k)" by auto
    with True Cons.prems show ?thesis
      by (intro exI [of _ "Suc k"] exI [of _ ds]) (simp add: i64_checked_def)
  next
    case False
    then show ?thesis by (intro exI [of _ 0] exI [of _ "c # rds"]) simp
  qed
qed simp

lemma digits_nat_zeros_front: "digits_nat (replicate k (CHR ''0'') @ ds) = digits_nat ds"
  by (induction k) (simp_all add: digit_val_def)

lemma digits_nat_dropWhile: "digits_nat (dropWhile (\<lambda>c. c = CHR ''0'') ds) = digits_nat ds"
  by (induction ds) (simp_all add: digit_val_def)

lemma power_int_neg_nat: "0 \<le> sc \<Longrightarrow> (10 :: rat) powi (- sc) = 1 / 10 ^ nat sc"
  by (elim nonneg_int_cases) (simp only: power_int_minus power_int_of_nat nat_int inverse_eq_divide)

lemma normalize_digits_spec:
  assumes "list_all is_digit ds" "sign = 1 \<or> sign = - 1" "0 \<le> sc" "sc < 2 ^ 63" "int (length ds) < 2 ^ 63"
  shows "\<exists>d. normalize_digits sign ds sc = Some d \<and> nd_ok d
    \<and> nd_value d = of_int sign * of_nat (digits_nat ds) / 10 ^ nat sc"
proof -
  let ?sig = "dropWhile (\<lambda>c. c = CHR ''0'') ds"
  have len: "length ?sig \<le> length ds" by (rule length_dropWhile_le)
  have dig: "list_all is_digit ?sig" using assms(1) by (auto simp: list_all_iff dest: set_dropWhileD)
  show ?thesis
  proof (cases "?sig = []")
    case True
    then have "digits_nat ds = 0" using digits_nat_dropWhile [of ds] by (metis digits_nat.simps(1))
    with True show ?thesis by (simp add: normalize_digits_def nd_ok_def nd_value_def)
  next
    case False
    obtain k rs where k: "rev ?sig = replicate k (CHR ''0'') @ rs" "rs \<noteq> [] \<longrightarrow> hd rs \<noteq> CHR ''0''"
      "strip_zeros (rev ?sig) sc = Some (rs, sc - int k)"
    proof -
      have "- (2 ^ 63) + int (length (rev ?sig)) \<le> sc" using len assms(3-5) by simp
      from strip_zeros_spec [OF this assms(4)] show thesis using that by blast
    qed
    let ?d = "\<lparr>nd_sign = sign, nd_digits = rev rs, nd_scale = sc - int k\<rparr>"
    have sig: "?sig = rev rs @ replicate k (CHR ''0'')"
      using arg_cong [OF k(1), of rev] by simp
    have hd: "hd ?sig \<noteq> CHR ''0''" using hd_dropWhile [OF False] by simp
    have ne: "rs \<noteq> []" using sig hd False by (cases k) auto
    have lrs: "length rs + k \<le> length ds" using len arg_cong [OF sig, of length] by simp
    have hrs: "hd (rev rs) \<noteq> CHR ''0''" using hd unfolding sig by (simp add: ne)
    have drs: "list_all is_digit rs" using dig unfolding sig by simp
    have "nd_ok ?d"
      using hrs ne drs assms(2-5) lrs by (simp add: nd_ok_def)
    moreover have "nd_value ?d = of_int sign * of_nat (digits_nat ds) / 10 ^ nat sc"
    proof -
      have "(10 :: rat) powi (- (sc - int k)) = 10 powi (int k + - sc)" by (simp add: algebra_simps)
      also have "\<dots> = 10 ^ k * 10 powi (- sc)" by (subst power_int_add) simp_all
      also have "(10 :: rat) powi (- sc) = 1 / 10 ^ nat sc"
        by (rule power_int_neg_nat [OF assms(3)])
      finally have "(10 :: rat) powi (- (sc - int k)) = 10 ^ k / 10 ^ nat sc" by simp
      moreover have "digits_nat ds = digits_nat (rev rs) * 10 ^ k"
        using digits_nat_dropWhile [of ds] sig digits_nat_pad by metis
      ultimately show ?thesis by (simp add: nd_value_def abs_value_def)
    qed
    moreover have "normalize_digits sign ds sc = Some ?d"
      using False k(3) by (auto simp: normalize_digits_def)
    ultimately show ?thesis by blast
  qed
qed

lemma split_sign_text: "decimal_ok ip fp \<Longrightarrow>
  split_sign (decimal_text neg ip fp) = (if neg then - 1 else 1, ip @ (if fp = [] then [] else ''.'' @ fp))"
  by (cases ip) (auto simp: split_sign_def decimal_text_def decimal_ok_def is_digit_def less_eq_char_def)

lemma parse_decimal_text:
  assumes "decimal_ok ip fp"
  shows "\<exists>d. parse_decimal (decimal_text neg ip fp) = Some d \<and> nd_ok d
    \<and> nd_value d = decimal_value neg ip fp"
proof -
  let ?sign = "if neg then - 1 else 1 :: int"
  obtain d where d: "normalize_digits ?sign (ip @ fp) (int (length fp)) = Some d" "nd_ok d"
    "nd_value d = of_int ?sign * of_nat (digits_nat (ip @ fp)) / 10 ^ nat (int (length fp))"
    using normalize_digits_spec [of "ip @ fp" ?sign "int (length fp)"] assms
    by (force simp: decimal_ok_def simp del: of_nat_add)
  have ne: "decimal_text neg ip fp \<noteq> []" "ip @ fp \<noteq> []" using assms by (auto simp: decimal_text_def decimal_ok_def)
  have "parse_decimal (decimal_text neg ip fp) = Some d"
    unfolding parse_decimal_def decimal_text_trim [OF assms] Let_def split_sign_text [OF assms]
      prod.case no_exponent [OF assms] Option.bind.simps mantissa_loop_text [OF assms]
    using ne d(1) assms by (simp add: i64_checked_def decimal_ok_def)
  then show ?thesis using d(2,3) by (auto simp: decimal_value_def)
qed

lemma numeric_cmp_text:
  assumes "decimal_ok ip fp" "decimal_ok ip' fp'"
  shows "numeric_cmp (decimal_text neg ip fp) (decimal_text neg' ip' fp')
    = Some (cmp (decimal_value neg ip fp) (decimal_value neg' ip' fp'))"
  using parse_decimal_text [OF assms(1), of neg] parse_decimal_text [OF assms(2), of neg'] nd_cmp_value
  by (fastforce simp: numeric_cmp_def)

end
