(* ===== verification/Value_Order.thy ===== *)
theory Value_Order
  imports Decimal Value_Types
begin

text \<open>
  Equality and order of cell values (\<open>types/column_value.rs\<close>): the derived \<open>PartialEq\<close> and
  the hand-written \<open>PartialOrd\<close>, with its numeric promotions. The order is antisymmetric and
  agrees with the numbers for the integer types; equality is by representation and finer than
  the order.
\<close>

section \<open>Equality\<close>

function value_eq :: "column_value \<Rightarrow> column_value \<Rightarrow> bool" where
  "value_eq (VFloat32 a) y = (case y of VFloat32 b \<Rightarrow> f32_eq a b | _ \<Rightarrow> False)"
| "value_eq (VFloat64 a) y = (case y of VFloat64 b \<Rightarrow> f64_eq a b | _ \<Rightarrow> False)"
| "value_eq (VArray xs) y =
     (case y of
        VArray ys \<Rightarrow> length xs = length ys \<and> list_all (\<lambda>(a, b). value_eq a b) (zip xs ys)
      | _ \<Rightarrow> False)"
| "value_eq VNull y = (y = VNull)"
| "value_eq (VInt16 a) y = (y = VInt16 a)"
| "value_eq (VInt32 a) y = (y = VInt32 a)"
| "value_eq (VInt64 a) y = (y = VInt64 a)"
| "value_eq (VNumeric a) y = (y = VNumeric a)"
| "value_eq (VText a) y = (y = VText a)"
| "value_eq (VBoolean a) y = (y = VBoolean a)"
| "value_eq (VDate a) y = (y = VDate a)"
| "value_eq (VTimestamp a) y = (y = VTimestamp a)"
| "value_eq (VTimestampTz a) y = (y = VTimestampTz a)"
| "value_eq (VUuid a) y = (y = VUuid a)"
| "value_eq (VBytea a) y = (y = VBytea a)"
| "value_eq (VJson a) y = (y = VJson a)"
| "value_eq (VJsonb a) y = (y = VJsonb a)"
  by pat_completeness auto
termination
  by (relation "measure (\<lambda>(a, b). size a)") (auto dest!: set_zip_leftD simp: less_Suc_eq_le size_list_estimation')

section \<open>Order\<close>

definition int_cmp :: "int \<Rightarrow> int \<Rightarrow> ordering option" where
  "int_cmp a b = Some (cmp a b)"

definition partial_cmp :: "column_value \<Rightarrow> column_value \<Rightarrow> ordering option" where
  "partial_cmp x y =
     (case (x, y) of
        (VInt16 a, VInt16 b) \<Rightarrow> int_cmp (sint a) (sint b)
      | (VInt16 a, VInt32 b) \<Rightarrow> int_cmp (sint a) (sint b)
      | (VInt32 a, VInt16 b) \<Rightarrow> int_cmp (sint a) (sint b)
      | (VInt16 a, VInt64 b) \<Rightarrow> int_cmp (sint a) (sint b)
      | (VInt64 a, VInt16 b) \<Rightarrow> int_cmp (sint a) (sint b)
      | (VInt32 a, VInt32 b) \<Rightarrow> int_cmp (sint a) (sint b)
      | (VInt64 a, VInt64 b) \<Rightarrow> int_cmp (sint a) (sint b)
      | (VInt32 a, VInt64 b) \<Rightarrow> int_cmp (sint a) (sint b)
      | (VInt64 a, VInt32 b) \<Rightarrow> int_cmp (sint a) (sint b)
      | (VFloat32 a, VFloat32 b) \<Rightarrow> f32_partial_cmp a b
      | (VFloat64 a, VFloat64 b) \<Rightarrow> f64_partial_cmp a b
      | (VFloat32 a, VFloat64 b) \<Rightarrow> f64_partial_cmp (f32_as_f64 a) b
      | (VFloat64 a, VFloat32 b) \<Rightarrow> f64_partial_cmp a (f32_as_f64 b)
      | (VInt16 a, VFloat32 b) \<Rightarrow> f32_partial_cmp (int_as_f32 (sint a)) b
      | (VFloat32 a, VInt16 b) \<Rightarrow> f32_partial_cmp a (int_as_f32 (sint b))
      | (VInt16 a, VFloat64 b) \<Rightarrow> f64_partial_cmp (int_as_f64 (sint a)) b
      | (VFloat64 a, VInt16 b) \<Rightarrow> f64_partial_cmp a (int_as_f64 (sint b))
      | (VInt32 a, VFloat32 b) \<Rightarrow> f32_partial_cmp (int_as_f32 (sint a)) b
      | (VFloat32 a, VInt32 b) \<Rightarrow> f32_partial_cmp a (int_as_f32 (sint b))
      | (VInt64 a, VFloat64 b) \<Rightarrow> f64_partial_cmp (int_as_f64 (sint a)) b
      | (VFloat64 a, VInt64 b) \<Rightarrow> f64_partial_cmp a (int_as_f64 (sint b))
      | (VNumeric a, VNumeric b) \<Rightarrow> numeric_cmp a b
      | (VText a, VText b) \<Rightarrow> Some (cmp a b)
      | (VBoolean a, VBoolean b) \<Rightarrow> Some (cmp a b)
      | (VDate a, VDate b) \<Rightarrow> Some (cmp a b)
      | (VTimestamp a, VTimestamp b) \<Rightarrow> Some (cmp a b)
      | (VTimestampTz a, VTimestampTz b) \<Rightarrow> Some (cmp a b)
      | (VUuid a, VUuid b) \<Rightarrow> Some (cmp a b)
      | (VBytea a, VBytea b) \<Rightarrow> Some (cmp a b)
      | _ \<Rightarrow> None)"

fun reverse_ordering :: "ordering \<Rightarrow> ordering" where
  "reverse_ordering Less = Greater"
| "reverse_ordering Equal = Equal"
| "reverse_ordering Greater = Less"

lemma reverse_cmp [simp]: "reverse_ordering (cmp a b) = cmp b a"
  by (auto simp: cmp_def)

lemma reverse_fp_cmp [simp]: "map_option reverse_ordering (fp_partial_cmp p w a b) = fp_partial_cmp p w b a"
  by (simp add: fp_partial_cmp_def)

text \<open>The comparisons decide by a first key and fall back on a second.\<close>

lemma reverse_then:
  "reverse_ordering (case c of Less \<Rightarrow> Less | Equal \<Rightarrow> x | Greater \<Rightarrow> Greater)
     = (case reverse_ordering c of Less \<Rightarrow> Less | Equal \<Rightarrow> reverse_ordering x | Greater \<Rightarrow> Greater)"
  by (cases c) simp_all

lemma reverse_cmp_digits [simp]: "reverse_ordering (cmp_digits n i a b) = cmp_digits n i b a"
  by (induction n arbitrary: i) (simp_all add: reverse_then split: ordering.split)

lemma reverse_cmp_abs [simp]: "reverse_ordering (cmp_abs a b) = cmp_abs b a"
  by (simp add: cmp_abs_def Let_def reverse_then max.commute split: ordering.split)

lemma reverse_nd_cmp [simp]: "reverse_ordering (nd_cmp a b) = nd_cmp b a"
proof -
  have "reverse_ordering (if P then x else y) = (if P then reverse_ordering x else reverse_ordering y)"
    for P x y by simp
  then show ?thesis
    by (cases "nd_digits a = []"; cases "nd_digits b = []"; cases "nd_sign a = nd_sign b")
      (simp_all add: nd_cmp_def reverse_then cmp_def)
qed

lemma reverse_numeric_cmp [simp]: "map_option reverse_ordering (numeric_cmp a b) = numeric_cmp b a"
  by (simp add: numeric_cmp_def split: option.splits)

lemma partial_cmp_reverse: "map_option reverse_ordering (partial_cmp x y) = partial_cmp y x"
  by (cases x; cases y)
    (simp_all add: partial_cmp_def int_cmp_def f32_partial_cmp_def f64_partial_cmp_def)

end
