(* ===== verification/Aggregates.thy ===== *)
theory Aggregates
  imports Value_Order Value_Text Kv_Store Row_Codec
begin

text \<open>
  Filters and aggregates pushed down to the store (\<open>mem_store.rs\<close>): predicates on a row,
  aggregate states, group keys, and the in-memory store's \<open>aggregate_scan\<close>. The scan is a
  loop that decodes a record, filters it and updates the state of its group; it is shown to
  compute, for every group, the aggregates of exactly the group's rows.
\<close>

section \<open>Predicates\<close>

datatype kv_compare_op = CEq | CNotEq | CGt | CGtEq | CLt | CLtEq

datatype kv_predicate =
    ColumnCompare nat kv_compare_op column_value
  | PAnd "kv_predicate list"
  | POr "kv_predicate list"
  | PNot kv_predicate
  | PIsNull nat
  | PIsNotNull nat
  | PBetween nat column_value column_value bool

definition compare_values :: "column_value \<Rightarrow> kv_compare_op \<Rightarrow> column_value \<Rightarrow> bool" where
  "compare_values left op right =
     (if is_null left \<or> is_null right then False
      else case op of
        CEq \<Rightarrow> value_eq left right
      | CNotEq \<Rightarrow> \<not> value_eq left right
      | CGt \<Rightarrow> partial_cmp left right = Some Greater
      | CGtEq \<Rightarrow> partial_cmp left right \<in> {Some Equal, Some Greater}
      | CLt \<Rightarrow> partial_cmp left right = Some Less
      | CLtEq \<Rightarrow> partial_cmp left right \<in> {Some Less, Some Equal})"

text \<open>\<open>row_value\<close>: the value of the column at a position, NULL when there is none.\<close>

definition value_at :: "table_schema \<Rightarrow> row_map \<Rightarrow> nat \<Rightarrow> column_value" where
  "value_at schema row idx =
     (case slice_get (columns schema) idx of
        Some c \<Rightarrow> (case row (col_name c) of Some v \<Rightarrow> v | None \<Rightarrow> VNull)
      | None \<Rightarrow> VNull)"

fun kv_predicate_matches :: "table_schema \<Rightarrow> row_map \<Rightarrow> kv_predicate \<Rightarrow> bool" where
  "kv_predicate_matches schema row (ColumnCompare idx op v) = compare_values (value_at schema row idx) op v"
| "kv_predicate_matches schema row (PAnd ps) = list_all (kv_predicate_matches schema row) ps"
| "kv_predicate_matches schema row (POr ps) = list_ex (kv_predicate_matches schema row) ps"
| "kv_predicate_matches schema row (PNot p) = (\<not> kv_predicate_matches schema row p)"
| "kv_predicate_matches schema row (PIsNull idx) = is_null (value_at schema row idx)"
| "kv_predicate_matches schema row (PIsNotNull idx) = (\<not> is_null (value_at schema row idx))"
| "kv_predicate_matches schema row (PBetween idx low high negated) =
     (let v = value_at schema row idx;
          inside = (compare_values v CGtEq low \<and> compare_values v CLtEq high)
      in if negated then \<not> inside else inside)"

definition kv_row_matches :: "table_schema \<Rightarrow> row_map \<Rightarrow> kv_predicate list \<Rightarrow> bool" where
  "kv_row_matches schema row filters = list_all (kv_predicate_matches schema row) filters"

section \<open>Aggregate states\<close>

datatype kv_aggregate_op =
    CountStar | CountColumn nat | MaxColumn nat | MinColumn nat | SumColumn nat | AvgColumn nat

datatype kv_aggregate_state = StCount i64 | StValue column_value | StAvg u64 i64

fun kv_aggregate_initial_state :: "kv_aggregate_op \<Rightarrow> kv_aggregate_state" where
  "kv_aggregate_initial_state CountStar = StCount 0"
| "kv_aggregate_initial_state (CountColumn _) = StCount 0"
| "kv_aggregate_initial_state (MaxColumn _) = StValue VNull"
| "kv_aggregate_initial_state (MinColumn _) = StValue VNull"
| "kv_aggregate_initial_state (SumColumn _) = StValue VNull"
| "kv_aggregate_initial_state (AvgColumn _) = StAvg 0 0"

definition sum_values :: "column_value \<Rightarrow> column_value \<Rightarrow> column_value option" where
  "sum_values left right =
     (case (left, right) of
        (VNull, v) \<Rightarrow> Some v
      | (VInt32 a, VInt32 b) \<Rightarrow> Some (VInt64 (scast a + scast b))
      | (VInt32 a, VInt64 b) \<Rightarrow> Some (VInt64 (scast a + b))
      | (VInt64 a, VInt32 b) \<Rightarrow> Some (VInt64 (a + scast b))
      | (VInt64 a, VInt64 b) \<Rightarrow> Some (VInt64 (a + b))
      | (VFloat32 a, VFloat32 b) \<Rightarrow> Some (VFloat64 (f64_add (f32_as_f64 a) (f32_as_f64 b)))
      | (VFloat32 a, VFloat64 b) \<Rightarrow> Some (VFloat64 (f64_add (f32_as_f64 a) b))
      | (VFloat64 a, VFloat32 b) \<Rightarrow> Some (VFloat64 (f64_add a (f32_as_f64 b)))
      | (VFloat64 a, VFloat64 b) \<Rightarrow> Some (VFloat64 (f64_add a b))
      | _ \<Rightarrow> None)"

definition numeric_as_f64 :: "column_value \<Rightarrow> u64 option" where
  "numeric_as_f64 v =
     (case v of
        VInt32 i \<Rightarrow> Some (int_as_f64 (sint i))
      | VInt64 i \<Rightarrow> Some (int_as_f64 (sint i))
      | VFloat32 f \<Rightarrow> Some (f32_as_f64 f)
      | VFloat64 f \<Rightarrow> Some f
      | _ \<Rightarrow> None)"

text \<open>One aggregate and its state; \<open>lookup\<close> gives the row's value at a position.\<close>

definition keep_better :: "ordering \<Rightarrow> column_value \<Rightarrow> kv_aggregate_state \<Rightarrow> kv_aggregate_state" where
  "keep_better want v st =
     (case st of
        StValue s \<Rightarrow> if is_null s \<or> partial_cmp v s = Some want then StValue v else StValue s
      | _ \<Rightarrow> st)"

definition count_one :: "kv_aggregate_state \<Rightarrow> kv_aggregate_state" where
  "count_one st = (case st of StCount n \<Rightarrow> StCount (n + 1) | _ \<Rightarrow> st)"

definition add_sum :: "column_value \<Rightarrow> kv_aggregate_state \<Rightarrow> kv_aggregate_state" where
  "add_sum v st =
     (case st of
        StValue s \<Rightarrow> (case sum_values s v of Some t \<Rightarrow> StValue t | None \<Rightarrow> StValue s)
      | _ \<Rightarrow> st)"

definition add_avg :: "u64 \<Rightarrow> kv_aggregate_state \<Rightarrow> kv_aggregate_state" where
  "add_avg x st = (case st of StAvg s n \<Rightarrow> StAvg (f64_add s x) (n + 1) | _ \<Rightarrow> st)"

fun apply_one :: "(nat \<Rightarrow> column_value) \<Rightarrow> kv_aggregate_op \<Rightarrow> kv_aggregate_state \<Rightarrow> kv_aggregate_state" where
  "apply_one lookup CountStar st = count_one st"
| "apply_one lookup (CountColumn idx) st = (if is_null (lookup idx) then st else count_one st)"
| "apply_one lookup (MaxColumn idx) st =
     (if is_null (lookup idx) then st else keep_better Greater (lookup idx) st)"
| "apply_one lookup (MinColumn idx) st =
     (if is_null (lookup idx) then st else keep_better Less (lookup idx) st)"
| "apply_one lookup (SumColumn idx) st =
     (if is_null (lookup idx) then st else add_sum (lookup idx) st)"
| "apply_one lookup (AvgColumn idx) st =
     (case numeric_as_f64 (lookup idx) of None \<Rightarrow> st | Some x \<Rightarrow> add_avg x st)"

text \<open>The loop over the aggregates; there are as many states as aggregates.\<close>

fun apply_all :: "(nat \<Rightarrow> column_value) \<Rightarrow> kv_aggregate_op list \<Rightarrow> kv_aggregate_state list \<Rightarrow> kv_aggregate_state list"
where
  "apply_all lookup (op # ops) (st # sts) = apply_one lookup op st # apply_all lookup ops sts"
| "apply_all lookup _ sts = sts"

definition kv_apply_aggregate ::
    "table_schema \<Rightarrow> row_map \<Rightarrow> kv_aggregate_op list \<Rightarrow> kv_aggregate_state list \<Rightarrow> kv_aggregate_state list"
where
  "kv_apply_aggregate schema row aggs states = apply_all (value_at schema row) aggs states"

fun kv_finish_aggregate_state :: "kv_aggregate_state \<Rightarrow> column_value" where
  "kv_finish_aggregate_state (StCount n) = VInt64 n"
| "kv_finish_aggregate_state (StValue v) = v"
| "kv_finish_aggregate_state (StAvg s n) =
     (if n = 0 then VNull else VFloat64 (f64_div s (int_as_f64 (sint n))))"

section \<open>Groups\<close>

definition kv_group_values :: "table_schema \<Rightarrow> row_map \<Rightarrow> nat list \<Rightarrow> column_value list" where
  "kv_group_values schema row indices = map (value_at schema row) indices"

definition kv_group_key :: "text_env \<Rightarrow> column_value list \<Rightarrow> string" where
  "kv_group_key env vs =
     join [CHR 0x1F] (map (\<lambda>v. case to_text env v of Some t \<Rightarrow> t | None \<Rightarrow> debug_value env v) vs)"

text \<open>\<open>entry(key).or_insert_with(...)\<close> and the update of the entry's states.\<close>

definition group_step ::
    "('r \<Rightarrow> 'k::linorder) \<Rightarrow> ('r \<Rightarrow> 'g) \<Rightarrow> 's \<Rightarrow> ('r \<Rightarrow> 's \<Rightarrow> 's) \<Rightarrow> 'r \<Rightarrow> ('k, 'g \<times> 's) btree_map \<Rightarrow> ('k, 'g \<times> 's) btree_map"
where
  "group_step key gv init upd row groups =
     (let (g, st) = (case bt_get groups (key row) of Some e \<Rightarrow> e | None \<Rightarrow> (gv row, init))
      in bt_insert (key row) (g, upd row st) groups)"

text \<open>The scan loop: a record is decoded (an error ends the scan), perhaps passed over, and a row
  that matches changes the accumulator.\<close>

fun scan_loop :: "('e \<Rightarrow> 'r option res) \<Rightarrow> ('r \<Rightarrow> bool) \<Rightarrow> ('r \<Rightarrow> 'a \<Rightarrow> 'a) \<Rightarrow> 'e list \<Rightarrow> 'a \<Rightarrow> 'a res" where
  "scan_loop decode matched upd [] acc = Inr acc"
| "scan_loop decode matched upd (e # es) acc =
     res_bind (decode e) (\<lambda>r.
       case r of
         None \<Rightarrow> scan_loop decode matched upd es acc
       | Some row \<Rightarrow> scan_loop decode matched upd es (if matched row then upd row acc else acc))"

record kv_aggregate_scan =
  ag_schema :: table_schema
  ag_range_start :: bytes
  ag_range_end :: "bytes option"
  ag_scan_prefix :: "bytes option"
  filters :: "kv_predicate list"
  group_indices :: "nat list"
  aggregates :: "kv_aggregate_op list"
  required_indices :: "nat list"
  projection :: kv_scan_projection

definition is_pk_column :: "table_schema \<Rightarrow> nat \<Rightarrow> bool" where
  "is_pk_column schema idx =
     (case slice_get (columns schema) idx of Some c \<Rightarrow> col_name c = primary_key schema | None \<Rightarrow> False)"

definition aggregate_row :: "kv_aggregate_scan \<Rightarrow> bytes \<times> bytes option \<Rightarrow> row_map option res" where
  "aggregate_row plan kv =
     (let schema = ag_schema plan in
      if list_all (is_pk_column schema) (required_indices plan)
      then res_bind (decode_pk_from_row_key (fst kv) (table_id schema) (table_epoch schema)
                       (pk_data_type schema)) (\<lambda>pk. Inr (Some [primary_key schema \<mapsto> pk]))
      else
        (case snd kv of
           None \<Rightarrow> Inr None
         | Some v \<Rightarrow> res_bind (decode_row_record schema v) (\<lambda>row. Inr (Some row))))"

abbreviation initial_states :: "kv_aggregate_scan \<Rightarrow> kv_aggregate_state list" where
  "initial_states plan \<equiv> map kv_aggregate_initial_state (aggregates plan)"

definition finish_group :: "column_value list \<times> kv_aggregate_state list \<Rightarrow> column_value list" where
  "finish_group e = fst e @ map kv_finish_aggregate_state (snd e)"

definition aggregate_scan :: "text_env \<Rightarrow> kv_aggregate_scan \<Rightarrow> hash_map \<Rightarrow> column_value list list res" where
  "aggregate_scan env plan store =
     (let schema = ag_schema plan;
          rows = mem_scan_range_projected store (ag_range_start plan) (ag_range_end plan) None False
                   (projection plan);
          values = (\<lambda>row. kv_group_values schema row (group_indices plan))
      in res_bind
          (scan_loop (aggregate_row plan) (\<lambda>row. kv_row_matches schema row (filters plan))
            (group_step (\<lambda>row. kv_group_key env (values row)) values (initial_states plan)
              (\<lambda>row. kv_apply_aggregate schema row (aggregates plan))) rows [])
          (\<lambda>groups.
            let groups1 = (if groups = [] \<and> group_indices plan = []
                           then bt_insert [] ([], initial_states plan) groups else groups)
            in Inr (map (\<lambda>(_, e). finish_group e) groups1)))"

section \<open>The scan loop\<close>

text \<open>What the loop computes when every record decodes: a fold over the matching rows.\<close>

lemma scan_loop_rows:
  assumes "list_all2 (\<lambda>e r. decode e = Inr r) es rs"
  shows "scan_loop decode matched upd es acc =
    Inr (fold upd (filter matched (List.map_filter (\<lambda>r. r) rs)) acc)"
  using assms
  by (induction es rs arbitrary: acc rule: list_all2_induct)
    (auto simp: List.map_filter_simps split: option.splits)

lemma scan_loop_error:
  "scan_loop decode matched upd es acc = Inl err \<Longrightarrow> \<exists>e \<in> set es. decode e = Inl err"
  by (induction es arbitrary: acc) (auto simp: res_bind_eq_Inl split: option.splits)

section \<open>Grouping\<close>

text \<open>What a table of groups promises: it starts empty, and a step gives the row's group the
  update of its state (started from the initial one when the group is new) and leaves every other
  group alone. A client then knows the whole loop.\<close>

locale group_table =
  fixes inv :: "'m \<Rightarrow> bool"
    and get :: "'m \<Rightarrow> 'k \<Rightarrow> ('g \<times> 's) option"
    and empty :: 'm
    and key :: "'r \<Rightarrow> 'k"
    and gv :: "'r \<Rightarrow> 'g"
    and init :: 's
    and upd :: "'r \<Rightarrow> 's \<Rightarrow> 's"
    and step :: "'r \<Rightarrow> 'm \<Rightarrow> 'm"
  assumes inv_empty: "inv empty"
    and get_empty: "get empty k = None"
    and step_inv: "inv m \<Longrightarrow> inv (step r m)"
    and step_get: "inv m \<Longrightarrow> get (step r m) k =
     (if k = key r
      then Some (case get m k of Some (g, st) \<Rightarrow> (g, upd r st) | None \<Rightarrow> (gv r, upd r init))
      else get m k)"
begin

lemma fold_inv: "inv m \<Longrightarrow> inv (fold step rs m)"
  by (induction rs arbitrary: m) (auto intro: step_inv)

lemma fold_get:
  "inv m \<Longrightarrow> get (fold step rs m) k =
     (case get m k of
        Some (g, st) \<Rightarrow> Some (g, fold upd (filter (\<lambda>r. key r = k) rs) st)
      | None \<Rightarrow>
          (case filter (\<lambda>r. key r = k) rs of
             [] \<Rightarrow> None
           | r # rs' \<Rightarrow> Some (gv r, fold upd (r # rs') init)))"
proof (induction rs arbitrary: m)
  case (Cons r rs)
  show ?case unfolding fold.simps comp_apply Cons.IH [OF step_inv [OF Cons.prems]]
    by (auto simp: step_get [OF Cons.prems] split: option.splits list.splits)
qed (simp split: option.splits)

text \<open>The group of a key among the rows, as the loop leaves it.\<close>

lemma groups_get:
  "get (fold step rs empty) k =
     (case filter (\<lambda>r. key r = k) rs of
        [] \<Rightarrow> None
      | r # rs' \<Rightarrow> Some (gv r, fold upd (r # rs') init))"
  by (simp add: fold_get inv_empty get_empty)

lemma groups_inv: "inv (fold step rs empty)"
  by (rule fold_inv [OF inv_empty])

lemma groups_dom: "get (fold step rs empty) k \<noteq> None \<longleftrightarrow> k \<in> key ` set rs"
  by (auto simp: groups_get filter_empty_conv image_iff split: list.splits dest: filter_eq_ConsD)

end

interpretation sorted_groups: group_table bt_inv bt_get "[]" key gv init upd
    "group_step key gv init upd" for key gv init upd
  by unfold_locales
    (auto simp: bt_inv_def group_step_def Let_def bt_inv_insert [unfolded bt_inv_def] bt_get_insert
      bt_get_def [of "[]"] split: prod.splits option.splits)

text \<open>So the sorted table lists the groups of the rows in key order, each with the values of its
  first row and the fold over all its rows.\<close>

definition group_rows :: "('r \<Rightarrow> 'k) \<Rightarrow> 'r list \<Rightarrow> 'k \<Rightarrow> 'r list" where
  "group_rows key rs k = filter (\<lambda>r. key r = k) rs"

lemma sorted_groups_exact:
  "fold (group_step key gv init upd) rs [] =
     map (\<lambda>k. (k, gv (hd (group_rows key rs k)), fold upd (group_rows key rs k) init))
       (sorted_list_of_set (key ` set rs))"
proof -
  let ?m = "fold (group_step key gv init upd) rs []"
  have inv: "bt_inv ?m" by (rule sorted_groups.groups_inv)
  have "k \<in> set (map fst ?m) \<longleftrightarrow> k \<in> key ` set rs" for k
    using sorted_groups.groups_dom [of key gv init upd rs k]
    by (simp add: bt_get_def map_of_eq_None_iff)
  then have "set (map fst ?m) = key ` set rs" by blast
  moreover have "sorted_wrt (<) (map fst ?m)" using inv by (simp add: bt_inv_def)
  ultimately have keys: "map fst ?m = sorted_list_of_set (key ` set rs)"
    by (metis finite_set sorted_list_of_set.idem_if_sorted_distinct sorted_list_of_set_sort_remdups
        strict_sorted_iff)
  have "snd e = (gv (hd (group_rows key rs (fst e))), fold upd (group_rows key rs (fst e)) init)"
    if "e \<in> set ?m" for e
    using that bt.entries_mem [OF inv, of "fst e" "snd e"]
    by (auto simp: sorted_groups.groups_get group_rows_def split: list.splits)
  then have "?m = map (\<lambda>k. (k, gv (hd (group_rows key rs k)), fold upd (group_rows key rs k) init))
      (map fst ?m)"
    by (simp add: map_idI [symmetric] prod_eq_iff comp_def)
  then show ?thesis unfolding keys .
qed

text \<open>The states of a group are independent: each is its own aggregate of the group's rows.\<close>

lemma fold_apply_all:
  "fold (\<lambda>row. apply_all (look row) ops) rows (map st ops) =
     map (\<lambda>op. fold (\<lambda>row. apply_one (look row) op) rows (st op)) ops"
proof (induction rows arbitrary: st)
  case (Cons r rows)
  have "apply_all (look r) ops (map st ops) = map (\<lambda>op. apply_one (look r) op (st op)) ops"
    by (induction ops) auto
  then show ?case using Cons [of "\<lambda>op. apply_one (look r) op (st op)"] by simp
qed simp

definition aggregate_of :: "(nat \<Rightarrow> column_value) list \<Rightarrow> kv_aggregate_op \<Rightarrow> column_value" where
  "aggregate_of rows op =
     kv_finish_aggregate_state
       (fold (\<lambda>look. apply_one look op) rows (kv_aggregate_initial_state op))"

lemma finish_apply_all:
  "map kv_finish_aggregate_state
     (fold (\<lambda>row. apply_all (look row) ops) rows (map kv_aggregate_initial_state ops)) =
   map (aggregate_of (map look rows)) ops"
  unfolding fold_apply_all by (simp add: aggregate_of_def fold_map comp_def)

text \<open>The result a grouped aggregate query asks for: one output row per key, in key order, with the
  group's values and the aggregates of exactly its rows.\<close>

definition grouped_result ::
    "('r \<Rightarrow> 'k::linorder) \<Rightarrow> ('r \<Rightarrow> column_value list) \<Rightarrow> ('r \<Rightarrow> nat \<Rightarrow> column_value)
       \<Rightarrow> kv_aggregate_op list \<Rightarrow> 'r list \<Rightarrow> column_value list list" where
  "grouped_result key vals look ops rows =
     map (\<lambda>k. let g = group_rows key rows k
               in vals (hd g) @ map (aggregate_of (map look g)) ops)
       (sorted_list_of_set (key ` set rows))"

lemma finish_sorted_groups:
  "map (\<lambda>(_, e). finish_group e)
     (fold (group_step key vals (map kv_aggregate_initial_state ops)
        (\<lambda>row. apply_all (look row) ops)) rows []) =
   grouped_result key vals look ops rows"
  by (simp add: sorted_groups_exact grouped_result_def finish_group_def finish_apply_all Let_def)

lemma kv_apply_aggregate_fun [simp]:
  "kv_apply_aggregate schema row aggs = apply_all (value_at schema row) aggs"
  by (rule ext) (simp add: kv_apply_aggregate_def)

definition matching_rows :: "kv_aggregate_scan \<Rightarrow> row_map option list \<Rightarrow> row_map list" where
  "matching_rows plan rs =
     filter (\<lambda>row. kv_row_matches (ag_schema plan) row (filters plan)) (List.map_filter (\<lambda>r. r) rs)"

definition scan_groups :: "text_env \<Rightarrow> kv_aggregate_scan \<Rightarrow> row_map list \<Rightarrow> (string, column_value list \<times> kv_aggregate_state list) btree_map"
where
  "scan_groups env plan rows =
     (let vals = (\<lambda>row. kv_group_values (ag_schema plan) row (group_indices plan))
      in fold (group_step (\<lambda>row. kv_group_key env (vals row)) vals (initial_states plan)
           (\<lambda>row. apply_all (value_at (ag_schema plan) row) (aggregates plan))) rows [])"

lemma aggregate_scan_fold:
  assumes "list_all2 (\<lambda>e r. aggregate_row plan e = Inr r)
      (mem_scan_range_projected store (ag_range_start plan) (ag_range_end plan) None False (projection plan))
      rs"
  shows "aggregate_scan env plan store =
    (let groups = scan_groups env plan (matching_rows plan rs)
     in Inr (map (\<lambda>(_, e). finish_group e)
          (if groups = [] \<and> group_indices plan = [] then bt_insert [] ([], initial_states plan) groups
           else groups)))"
  unfolding aggregate_scan_def Let_def scan_loop_rows [OF assms] res_bind.simps
    matching_rows_def [symmetric] kv_apply_aggregate_fun scan_groups_def ..

lemma aggregate_scan_groups:
  assumes "list_all2 (\<lambda>e r. aggregate_row plan e = Inr r)
      (mem_scan_range_projected store (ag_range_start plan) (ag_range_end plan) None False (projection plan))
      rs"
    and "group_indices plan \<noteq> []"
  shows "aggregate_scan env plan store =
    (let vals = (\<lambda>row. kv_group_values (ag_schema plan) row (group_indices plan))
     in Inr (grouped_result (\<lambda>row. kv_group_key env (vals row)) vals (value_at (ag_schema plan))
          (aggregates plan) (matching_rows plan rs)))"
  using assms(2) by (simp add: aggregate_scan_fold [OF assms(1)] scan_groups_def Let_def finish_sorted_groups)

text \<open>Without grouping there is one output row, also when no row matches.\<close>

lemma aggregate_scan_ungrouped:
  assumes "list_all2 (\<lambda>e r. aggregate_row plan e = Inr r)
      (mem_scan_range_projected store (ag_range_start plan) (ag_range_end plan) None False (projection plan))
      rs"
    and "group_indices plan = []"
  shows "aggregate_scan env plan store =
    Inr [map (aggregate_of (map (value_at (ag_schema plan)) (matching_rows plan rs))) (aggregates plan)]"
proof -
  let ?rows = "matching_rows plan rs"
  have *: "scan_groups env plan ?rows =
     (if ?rows = [] then [] else [([], [], fold (\<lambda>row. apply_all (value_at (ag_schema plan) row)
        (aggregates plan)) ?rows (initial_states plan))])"
    unfolding scan_groups_def Let_def sorted_groups_exact
    using assms(2) by (cases ?rows) (simp_all add: group_rows_def kv_group_values_def kv_group_key_def image_constant_conv)
  show ?thesis unfolding aggregate_scan_fold [OF assms(1)] *
    using assms(2) by (simp add: finish_group_def finish_apply_all aggregate_of_def)
qed

section \<open>What the aggregates are\<close>

lemma fold_if_filter: "fold (\<lambda>x s. if P x then f x s else s) xs s = fold f (filter P xs) s"
  by (induction xs arbitrary: s) auto

lemma fold_count_one: "fold (\<lambda>_. count_one) xs (StCount n) = StCount (n + of_nat (length xs))"
  by (induction xs arbitrary: n) (simp_all add: count_one_def ac_simps)

lemma count_star: "aggregate_of rows CountStar = VInt64 (of_nat (length rows))"
proof -
  have "(\<lambda>look. apply_one look CountStar) = (\<lambda>_. count_one)" by (simp add: fun_eq_iff)
  then show ?thesis by (simp add: aggregate_of_def fold_count_one)
qed

lemma count_column:
  "aggregate_of rows (CountColumn i) =
     VInt64 (of_nat (length (filter (\<lambda>look. \<not> is_null (look i)) rows)))"
proof -
  have "fold (\<lambda>look. apply_one look (CountColumn i)) rows s =
      fold (\<lambda>_. count_one) (filter (\<lambda>look. \<not> is_null (look i)) rows) s" for s
    by (induction rows arbitrary: s) auto
  then show ?thesis by (simp add: aggregate_of_def fold_count_one)
qed

text \<open>On a 64-bit column the sum wraps and the extremes are exact; a column with no value gives
  NULL.\<close>

definition bigint_cells :: "(nat \<Rightarrow> column_value) list \<Rightarrow> nat \<Rightarrow> i64 list" where
  "bigint_cells rows i = List.map_filter (\<lambda>look. case look i of VInt64 x \<Rightarrow> Some x | _ \<Rightarrow> None) rows"

abbreviation bigint_column :: "(nat \<Rightarrow> column_value) list \<Rightarrow> nat \<Rightarrow> bool" where
  "bigint_column rows i \<equiv> \<forall>look \<in> set rows. look i = VNull \<or> (\<exists>x. look i = VInt64 x)"

lemma bigint_cells_simps [simp]:
  "bigint_cells [] i = []"
  "bigint_cells (look # rows) i =
     (case look i of VInt64 x \<Rightarrow> x # bigint_cells rows i | _ \<Rightarrow> bigint_cells rows i)"
  by (auto simp: bigint_cells_def List.map_filter_simps split: column_value.splits)

lemma bigint_fold:
  assumes "bigint_column rows i"
    and "\<And>look s. look i = VNull \<Longrightarrow> apply_one look op s = s"
    and "\<And>look x s. look i = VInt64 x \<Longrightarrow> apply_one look op s = f x s"
  shows "fold (\<lambda>look. apply_one look op) rows s = fold f (bigint_cells rows i) s"
  using assms(1)
  by (induction rows arbitrary: s) (auto simp: assms(2,3) split: column_value.splits)

lemma sum_bigint:
  assumes "bigint_column rows i"
  shows "aggregate_of rows (SumColumn i) =
    (if bigint_cells rows i = [] then VNull else VInt64 (sum_list (bigint_cells rows i)))"
proof -
  have "fold (\<lambda>x. add_sum (VInt64 x)) xs (StValue (VInt64 a)) = StValue (VInt64 (a + sum_list xs))" for xs a
    by (induction xs arbitrary: a) (simp_all add: add_sum_def sum_values_def ac_simps)
  then have "fold (\<lambda>x. add_sum (VInt64 x)) xs (StValue VNull) =
      StValue (if xs = [] then VNull else VInt64 (sum_list xs))" for xs
    by (cases xs) (simp_all add: add_sum_def sum_values_def)
  then show ?thesis
    by (simp add: aggregate_of_def bigint_fold [OF assms, where f = "\<lambda>x. add_sum (VInt64 x)"] is_null_def)
qed

lemma keep_greater_fold:
  "fold (\<lambda>x. keep_better Greater (VInt64 x)) xs (StValue (VInt64 a)) =
     StValue (VInt64 (word_of_int (fold max (map sint xs) (sint a))))"
  by (induction xs arbitrary: a)
    (simp_all add: keep_better_def is_null_def partial_cmp_def int_cmp_def cmp_def max_def)

lemma keep_less_fold:
  "fold (\<lambda>x. keep_better Less (VInt64 x)) xs (StValue (VInt64 a)) =
     StValue (VInt64 (word_of_int (fold min (map sint xs) (sint a))))"
  by (induction xs arbitrary: a)
    (simp_all add: keep_better_def is_null_def partial_cmp_def int_cmp_def cmp_def min_def)

lemma extreme_bigint:
  assumes "bigint_column rows i"
  shows "aggregate_of rows (MaxColumn i) = (if bigint_cells rows i = [] then VNull
      else VInt64 (word_of_int (Max (sint ` set (bigint_cells rows i)))))"
    and "aggregate_of rows (MinColumn i) = (if bigint_cells rows i = [] then VNull
      else VInt64 (word_of_int (Min (sint ` set (bigint_cells rows i)))))"
proof -
  have first: "keep_better want (VInt64 x) (StValue VNull) = StValue (VInt64 x)" for want x
    by (simp add: keep_better_def is_null_def)
  have fm: "Max (insert (sint x) (sint ` set xs)) = fold max (map sint xs) (sint x)"
    "Min (insert (sint x) (sint ` set xs)) = fold min (map sint xs) (sint x)" for x :: i64 and xs
    using Max.set_eq_fold [of "sint x" "map sint xs"] Min.set_eq_fold [of "sint x" "map sint xs"]
    by simp_all
  show "aggregate_of rows (MaxColumn i) = (if bigint_cells rows i = [] then VNull
      else VInt64 (word_of_int (Max (sint ` set (bigint_cells rows i)))))"
    by (cases "bigint_cells rows i")
      (simp_all add: aggregate_of_def is_null_def first keep_greater_fold fm
        bigint_fold [OF assms, where f = "\<lambda>x. keep_better Greater (VInt64 x)"])
  show "aggregate_of rows (MinColumn i) = (if bigint_cells rows i = [] then VNull
      else VInt64 (word_of_int (Min (sint ` set (bigint_cells rows i)))))"
    by (cases "bigint_cells rows i")
      (simp_all add: aggregate_of_def is_null_def first keep_less_fold fm
        bigint_fold [OF assms, where f = "\<lambda>x. keep_better Less (VInt64 x)"])
qed

end
