(* ===== verification/Engine_Aggregates.thy ===== *)
theory Engine_Aggregates
  imports Aggregates Row_Project "HOL-Library.Multiset"
begin

text \<open>
  Aggregates computed inside a scan of the storage engine (\<open>kv_engine_store\<close>:
  \<open>projected_aggregate.rs\<close>, \<open>aggregate_scan.rs\<close> and the general scan of
  \<open>fast_numeric_plan.rs\<close>). The engine's cursor is a parameter: the records it hands out in
  order, and the error it ends with, if any. The counters and clocks of the profile are not
  modelled. The scans are shown to compute the aggregates of the rows the records hold, with
  group keys that keep distinct groups apart.
\<close>

section \<open>Projected rows\<close>

definition required_slot :: "kv_aggregate_scan \<Rightarrow> nat \<Rightarrow> nat option" where
  "required_slot plan idx =
     (let i = length (takeWhile (\<lambda>r. r \<noteq> idx) (required_indices plan))
      in if i < length (required_indices plan) then Some i else None)"

definition projected_value :: "kv_aggregate_scan \<Rightarrow> column_value list \<Rightarrow> nat \<Rightarrow> column_value option" where
  "projected_value plan row idx = Option.bind (required_slot plan idx) (slice_get row)"

fun override_pk ::
    "table_schema \<Rightarrow> bytes \<Rightarrow> nat list \<Rightarrow> nat \<Rightarrow> column_value list \<Rightarrow> column_value list res" where
  "override_pk schema key [] slot vs = Inr vs"
| "override_pk schema key (idx # idxs) slot vs =
     (if is_pk_column schema idx
      then res_bind (decode_pk_from_row_key key (table_id schema) (table_epoch schema)
                       (pk_data_type schema)) (\<lambda>pk.
             override_pk schema key idxs (slot + 1) (vs[slot := pk]))
      else override_pk schema key idxs (slot + 1) vs)"

definition projected_values_for_aggregate_record ::
    "table_schema \<Rightarrow> bytes \<Rightarrow> bytes \<Rightarrow> kv_aggregate_scan \<Rightarrow> column_value list res" where
  "projected_values_for_aggregate_record schema key value plan =
     (if list_all (is_pk_column schema) (required_indices plan)
      then collect_res (\<lambda>_. decode_pk_from_row_key key (table_id schema) (table_epoch schema)
             (pk_data_type schema)) (required_indices plan)
      else
        res_bind (decode_row_record_projected_values schema value (required_indices plan)) (\<lambda>vs.
          override_pk schema key (required_indices plan) 0 vs))"

fun projected_predicate_matches :: "kv_aggregate_scan \<Rightarrow> column_value list \<Rightarrow> kv_predicate \<Rightarrow> bool" where
  "projected_predicate_matches plan row (ColumnCompare idx op v) =
     (case projected_value plan row idx of Some left \<Rightarrow> compare_values left op v | None \<Rightarrow> False)"
| "projected_predicate_matches plan row (PAnd ps) = list_all (projected_predicate_matches plan row) ps"
| "projected_predicate_matches plan row (POr ps) = list_ex (projected_predicate_matches plan row) ps"
| "projected_predicate_matches plan row (PNot p) = (\<not> projected_predicate_matches plan row p)"
| "projected_predicate_matches plan row (PIsNull idx) =
     (case projected_value plan row idx of Some v \<Rightarrow> is_null v | None \<Rightarrow> True)"
| "projected_predicate_matches plan row (PIsNotNull idx) =
     (case projected_value plan row idx of Some v \<Rightarrow> \<not> is_null v | None \<Rightarrow> False)"
| "projected_predicate_matches plan row (PBetween idx low high negated) =
     (let inside =
            (case projected_value plan row idx of
               Some v \<Rightarrow> compare_values v CGtEq low \<and> compare_values v CLtEq high
             | None \<Rightarrow> False)
      in if negated then \<not> inside else inside)"

definition projected_row_matches :: "kv_aggregate_scan \<Rightarrow> column_value list \<Rightarrow> bool" where
  "projected_row_matches plan row = list_all (projected_predicate_matches plan row) (filters plan)"

definition projected_group_values :: "kv_aggregate_scan \<Rightarrow> column_value list \<Rightarrow> column_value list" where
  "projected_group_values plan row =
     map (\<lambda>idx. case projected_value plan row idx of Some v \<Rightarrow> v | None \<Rightarrow> VNull) (group_indices plan)"

section \<open>Group keys\<close>

definition push_group_key_bytes :: "bytes \<Rightarrow> byte \<Rightarrow> bytes \<Rightarrow> bytes" where
  "push_group_key_bytes out tag bs = out @ [tag] @ to_be_bytes (word_of_nat (length bs) :: u32) @ bs"

text \<open>The key of one value; \<open>typed_group_key\<close> appends those of the values one after another.\<close>

primrec group_key_value :: "column_value \<Rightarrow> bytes" where
  "group_key_value VNull = [0]"
| "group_key_value (VInt16 x) = 10 # to_be_bytes x"
| "group_key_value (VInt32 x) = 1 # to_be_bytes x"
| "group_key_value (VInt64 x) = 2 # to_be_bytes x"
| "group_key_value (VFloat32 x) = 3 # to_be_bytes x"
| "group_key_value (VFloat64 x) = 4 # to_be_bytes x"
| "group_key_value (VNumeric s) = push_group_key_bytes [] 5 (as_bytes s)"
| "group_key_value (VText s) = push_group_key_bytes [] 6 (as_bytes s)"
| "group_key_value (VDate s) = push_group_key_bytes [] 6 (as_bytes s)"
| "group_key_value (VTimestamp s) = push_group_key_bytes [] 6 (as_bytes s)"
| "group_key_value (VTimestampTz s) = push_group_key_bytes [] 6 (as_bytes s)"
| "group_key_value (VUuid s) = push_group_key_bytes [] 6 (as_bytes s)"
| "group_key_value (VJson s) = push_group_key_bytes [] 6 (as_bytes s)"
| "group_key_value (VJsonb s) = push_group_key_bytes [] 6 (as_bytes s)"
| "group_key_value (VBoolean b) = [7, if b then 1 else 0]"
| "group_key_value (VBytea bs) = push_group_key_bytes [] 8 bs"
| "group_key_value (VArray vs) =
     push_group_key_bytes [] 9 (concat (map group_key_value vs))"

definition typed_group_key :: "column_value list \<Rightarrow> bytes" where
  "typed_group_key vs = concat (map group_key_value vs)"

section \<open>Aggregates of projected rows\<close>

text \<open>A column that was not projected leaves every aggregate of it alone, as a NULL does.\<close>

definition projected_lookup :: "kv_aggregate_scan \<Rightarrow> column_value list \<Rightarrow> nat \<Rightarrow> column_value" where
  "projected_lookup plan row idx =
     (case projected_value plan row idx of Some v \<Rightarrow> v | None \<Rightarrow> VNull)"

definition apply_projected_aggregate ::
    "kv_aggregate_scan \<Rightarrow> column_value list \<Rightarrow> kv_aggregate_state list \<Rightarrow> kv_aggregate_state list" where
  "apply_projected_aggregate plan row states =
     apply_all (projected_lookup plan row) (aggregates plan) states"

section \<open>Scans\<close>

text \<open>What a cursor hands out, and the error it ends with.\<close>

type_synonym range_cursor = "(bytes \<times> bytes) list \<times> pg_error option"

text \<open>\<open>scan_ref\<close>: the visitor ends the scan with the first record it cannot decode.\<close>

definition scan_ref ::
    "(bytes \<times> bytes \<Rightarrow> 'r res) \<Rightarrow> ('r \<Rightarrow> bool) \<Rightarrow> ('r \<Rightarrow> 'a \<Rightarrow> 'a) \<Rightarrow> range_cursor \<Rightarrow> 'a \<Rightarrow> 'a res"
where
  "scan_ref decode matched upd cur acc =
     res_bind (scan_loop (\<lambda>kv. res_bind (decode kv) (\<lambda>r. Inr (Some r))) matched upd (fst cur) acc)
       (\<lambda>acc1. case snd cur of None \<Rightarrow> Inr acc1 | Some e \<Rightarrow> Inl e)"

definition aggregate_plan_uses_only_primary_key :: "kv_aggregate_scan \<Rightarrow> bool" where
  "aggregate_plan_uses_only_primary_key plan =
     (projection plan = KeyOnly \<and> list_all (is_pk_column (ag_schema plan)) (required_indices plan))"

definition key_only_plan_needs_primary_key_values :: "kv_aggregate_scan \<Rightarrow> bool" where
  "key_only_plan_needs_primary_key_values plan =
     (filters plan \<noteq> [] \<or> group_indices plan \<noteq> [] \<or>
      list_ex (\<lambda>a. case a of CountStar \<Rightarrow> False | CountColumn _ \<Rightarrow> False | _ \<Rightarrow> True) (aggregates plan))"

abbreviation projected_group_step ::
    "kv_aggregate_scan \<Rightarrow> column_value list \<Rightarrow> (bytes, column_value list \<times> kv_aggregate_state list) btree_map
       \<Rightarrow> (bytes, column_value list \<times> kv_aggregate_state list) btree_map" where
  "projected_group_step plan \<equiv>
     group_step (\<lambda>row. typed_group_key (projected_group_values plan row)) (projected_group_values plan)
       (initial_states plan) (apply_projected_aggregate plan)"

definition reduce_grouped_key_only_scan :: "range_cursor \<Rightarrow> kv_aggregate_scan \<Rightarrow> column_value list list res" where
  "reduce_grouped_key_only_scan cur plan =
     res_bind (scan_ref (\<lambda>(key, _). projected_values_for_aggregate_record (ag_schema plan) key [] plan)
                 (projected_row_matches plan) (projected_group_step plan) cur [])
       (\<lambda>groups. Inr (map (\<lambda>(_, e). finish_group e) groups))"

definition add_count :: "i64 \<Rightarrow> kv_aggregate_state \<Rightarrow> kv_aggregate_state" where
  "add_count n st = (case st of StCount c \<Rightarrow> StCount (c + n) | _ \<Rightarrow> st)"

definition cursor_count :: "range_cursor \<Rightarrow> nat res" where
  "cursor_count cur = (case snd cur of None \<Rightarrow> Inr (length (fst cur)) | Some e \<Rightarrow> Inl e)"

definition reduce_ungrouped_key_only_scan :: "range_cursor \<Rightarrow> kv_aggregate_scan \<Rightarrow> column_value list list res" where
  "reduce_ungrouped_key_only_scan cur plan =
     (if \<not> key_only_plan_needs_primary_key_values plan
      then res_bind (cursor_count cur) (\<lambda>n.
             Inr [map (\<lambda>st. kv_finish_aggregate_state (add_count (word_of_nat n) st)) (initial_states plan)])
      else
        res_bind (scan_ref (\<lambda>(key, _). projected_values_for_aggregate_record (ag_schema plan) key [] plan)
                    (projected_row_matches plan) (apply_projected_aggregate plan) cur (initial_states plan))
          (\<lambda>states. Inr [map kv_finish_aggregate_state states]))"

definition reduce_ungrouped_projected_scan :: "range_cursor \<Rightarrow> kv_aggregate_scan \<Rightarrow> column_value list list res" where
  "reduce_ungrouped_projected_scan cur plan =
     res_bind (scan_ref (\<lambda>(key, value). projected_values_for_aggregate_record (ag_schema plan) key value plan)
                 (projected_row_matches plan) (apply_projected_aggregate plan) cur (initial_states plan))
       (\<lambda>states. Inr [map kv_finish_aggregate_state states])"

text \<open>The grouped scan at the end of \<open>execute_aggregate_scan\<close>, reached with some group
  column.\<close>

definition reduce_grouped_projected_scan :: "range_cursor \<Rightarrow> kv_aggregate_scan \<Rightarrow> column_value list list res" where
  "reduce_grouped_projected_scan cur plan =
     res_bind (scan_ref (\<lambda>(key, value). projected_values_for_aggregate_record (ag_schema plan) key value plan)
                 (projected_row_matches plan) (projected_group_step plan) cur [])
       (\<lambda>groups.
         let groups1 = (if groups = [] \<and> group_indices plan = []
                        then bt_insert [] ([], initial_states plan) groups else groups)
         in Inr (map (\<lambda>(_, e). finish_group e) groups1))"

section \<open>Group keys keep groups apart\<close>

primrec group_ok :: "column_value \<Rightarrow> bool" where
  "group_ok VNull = True"
| "group_ok (VInt16 x) = True"
| "group_ok (VInt32 x) = True"
| "group_ok (VInt64 x) = True"
| "group_ok (VFloat32 x) = True"
| "group_ok (VFloat64 x) = True"
| "group_ok (VNumeric s) = (length s < 2 ^ 32)"
| "group_ok (VText s) = (length s < 2 ^ 32)"
| "group_ok (VDate s) = (length s < 2 ^ 32)"
| "group_ok (VTimestamp s) = (length s < 2 ^ 32)"
| "group_ok (VTimestampTz s) = (length s < 2 ^ 32)"
| "group_ok (VUuid s) = (length s < 2 ^ 32)"
| "group_ok (VJson s) = (length s < 2 ^ 32)"
| "group_ok (VJsonb s) = (length s < 2 ^ 32)"
| "group_ok (VBoolean b) = True"
| "group_ok (VBytea bs) = (length bs < 2 ^ 32)"
| "group_ok (VArray vs) =
     (list_all group_ok vs \<and> length (concat (map group_key_value vs)) < 2 ^ 32)"

lemma push_group_key_bytes_eq:
  assumes "length bs < 2 ^ 32" "length bs' < 2 ^ 32"
  shows "push_group_key_bytes [] t bs @ r = push_group_key_bytes [] t' bs' @ r' \<longleftrightarrow>
    t = t' \<and> bs = bs' \<and> r = r'"
proof
  assume eq: "push_group_key_bytes [] t bs @ r = push_group_key_bytes [] t' bs' @ r'"
  then have t: "t = t'" and len: "(word_of_nat (length bs) :: u32) = word_of_nat (length bs')"
    and rest: "bs @ r = bs' @ r'"
    by (simp_all add: push_group_key_bytes_def)
  from arg_cong [OF len, of unat] have "length bs = length bs'"
    using assms by (simp add: unat_of_nat)
  with rest t show "t = t' \<and> bs = bs' \<and> r = r'" by simp
qed simp

lemma hd_push_group_key_bytes: "hd (push_group_key_bytes [] t bs) = t" "push_group_key_bytes [] t bs \<noteq> []"
  by (simp_all add: push_group_key_bytes_def)

text \<open>The tag tells the kind of a value, apart from the kinds that are texts.\<close>

definition group_tag :: "column_value \<Rightarrow> byte" where
  "group_tag v = hd (group_key_value v)"

lemma group_tag_eq: "group_key_value v @ r = group_key_value w @ r' \<Longrightarrow> group_tag v = group_tag w"
proof -
  assume "group_key_value v @ r = group_key_value w @ r'"
  then have "hd (group_key_value v @ r) = hd (group_key_value w @ r')" by simp
  moreover have "group_key_value x \<noteq> []" for x by (cases x) (simp_all add: hd_push_group_key_bytes)
  ultimately show ?thesis by (simp add: group_tag_def)
qed

text \<open>Those the column's type tells apart.\<close>

primrec text_kind :: "column_value \<Rightarrow> nat" where
  "text_kind VNull = 0" | "text_kind (VInt16 x) = 0" | "text_kind (VInt32 x) = 0"
| "text_kind (VInt64 x) = 0" | "text_kind (VFloat32 x) = 0" | "text_kind (VFloat64 x) = 0"
| "text_kind (VNumeric x) = 0" | "text_kind (VText x) = 1" | "text_kind (VBoolean x) = 0"
| "text_kind (VDate x) = 2" | "text_kind (VTimestamp x) = 3" | "text_kind (VTimestampTz x) = 4"
| "text_kind (VUuid x) = 5" | "text_kind (VBytea x) = 0" | "text_kind (VJson x) = 6"
| "text_kind (VJsonb x) = 7" | "text_kind (VArray x) = 0"

fun type_text_kind :: "data_type \<Rightarrow> nat" where
  "type_text_kind TDate = 2"
| "type_text_kind TTimestamp = 3"
| "type_text_kind (TMySqlDateTime f) = 3"
| "type_text_kind (TMySqlTimestamp f) = 3"
| "type_text_kind TTimestampTz = 4"
| "type_text_kind TUuid = 5"
| "type_text_kind TJson = 6"
| "type_text_kind TJsonb = 7"
| "type_text_kind dt = 1"

lemmas disc_defs = column_value.is_VInt16_def column_value.is_VInt32_def column_value.is_VInt64_def
  column_value.is_VFloat32_def column_value.is_VFloat64_def column_value.is_VNumeric_def
  column_value.is_VText_def column_value.is_VBoolean_def column_value.is_VDate_def
  column_value.is_VTimestamp_def column_value.is_VTimestampTz_def column_value.is_VUuid_def
  column_value.is_VBytea_def column_value.is_VJson_def column_value.is_VJsonb_def

lemma text_kind_type: "has_type dt v \<Longrightarrow> text_kind v = 0 \<or> text_kind v = type_text_kind dt"
  by (cases dt) (auto simp: has_type_def disc_defs mysql_int_has_type_def
      split: my_sql_int_kind.splits if_splits column_value.splits)

lemma same_text_kind:
  "has_type dt v \<Longrightarrow> has_type dt w \<Longrightarrow> text_kind v \<noteq> 0 \<Longrightarrow> text_kind w \<noteq> 0 \<Longrightarrow> text_kind v = text_kind w"
  using text_kind_type by metis

lemma group_key_list_prefix_free:
  assumes "\<And>v w r r'. v \<in> set vs \<Longrightarrow> P v \<Longrightarrow> P w \<Longrightarrow> enc v @ r = enc w @ r' \<Longrightarrow> v = w \<and> r = r'"
    and "list_all P vs" "list_all P ws" "concat (map enc vs) = concat (map enc ws)"
    and "\<And>v. enc v \<noteq> []"
  shows "vs = ws"
  using assms(1-4)
proof (induction vs arbitrary: ws)
  case Nil
  then show ?case using assms(5) by (cases ws) auto
next
  case (Cons v vs)
  then obtain w ws' where ws: "ws = w # ws'" using assms(5) by (cases ws) auto
  have "v = w \<and> concat (map enc vs) = concat (map enc ws')"
    using Cons.prems(1) [of v w] Cons.prems(2-4) by (simp add: ws)
  moreover have "vs = ws'" using Cons.IH [of ws'] Cons.prems calculation by (auto simp: ws)
  ultimately show ?case by (simp add: ws)
qed

lemma group_key_value_nonempty: "group_key_value v \<noteq> []"
  by (cases v) (simp_all add: hd_push_group_key_bytes)

lemma group_key_scalar_prefix_free:
  assumes "\<not> is_VArray v" "group_ok v" "group_ok w"
    and "text_kind v \<noteq> 0 \<Longrightarrow> text_kind w \<noteq> 0 \<Longrightarrow> text_kind v = text_kind w"
    and "group_key_value v @ r = group_key_value w @ r'"
  shows "v = w \<and> r = r'"
  using assms group_tag_eq [OF assms(5)]
  by (cases v; cases w; simp add: group_tag_def hd_push_group_key_bytes push_group_key_bytes_eq split: if_splits)

lemma group_key_value_prefix_free:
  assumes "has_type dt v" "has_type dt w" "group_ok v" "group_ok w"
    and "group_key_value v @ r = group_key_value w @ r'"
  shows "v = w \<and> r = r'"
  using assms
proof (induction v arbitrary: dt w r r')
  case (VArray vs)
  then obtain ws where w: "w = VArray ws"
    using group_tag_eq [OF VArray.prems(5)]
    by (cases w) (auto simp: group_tag_def hd_push_group_key_bytes)
  have eq: "concat (map group_key_value vs) = concat (map group_key_value ws)" "r = r'"
    using VArray.prems by (simp_all add: w push_group_key_bytes_eq)
  obtain dt' where dt: "dt = TArray dt'"
    using VArray.prems(1) by (cases dt)
      (auto simp: has_type_def disc_defs mysql_int_has_type_def split: my_sql_int_kind.splits if_splits)
  have "vs = ws"
  proof (rule group_key_list_prefix_free [where P = "\<lambda>x. has_type dt' x \<and> group_ok x" and enc = group_key_value])
    show "v = w \<and> r = r'" if "v \<in> set vs" "has_type dt' v \<and> group_ok v" "has_type dt' w \<and> group_ok w"
      "group_key_value v @ r = group_key_value w @ r'" for v w r r'
      using VArray.IH [OF that(1)] that(2-4) by blast
    show "list_all (\<lambda>x. has_type dt' x \<and> group_ok x) vs" "list_all (\<lambda>x. has_type dt' x \<and> group_ok x) ws"
      using VArray.prems by (simp_all add: w dt list_all_iff)
  qed (simp_all add: eq group_key_value_nonempty)
  then show ?case using eq by (simp add: w)
qed (rule group_key_scalar_prefix_free; (simp; fail | assumption | rule same_text_kind; assumption))+

lemma typed_group_key_inj:
  assumes "list_all2 has_type dts vs" "list_all2 has_type dts ws" "list_all group_ok vs" "list_all group_ok ws"
  shows "typed_group_key vs = typed_group_key ws \<longleftrightarrow> vs = ws"
proof
  assume "typed_group_key vs = typed_group_key ws"
  then show "vs = ws" using assms
  proof (induction dts arbitrary: vs ws)
    case (Cons dt dts)
    then obtain v vs' w ws' where [simp]: "vs = v # vs'" "ws = w # ws'" by (auto simp: list_all2_Cons1)
    have "v = w \<and> typed_group_key vs' = typed_group_key ws'"
      using group_key_value_prefix_free [of dt v w "typed_group_key vs'" "typed_group_key ws'"] Cons.prems
      by (simp add: typed_group_key_def)
    then show ?case using Cons.IH [of vs' ws'] Cons.prems by simp
  qed simp
qed simp

section \<open>The result of a scan\<close>

lemma scan_ref_rows:
  assumes "list_all2 (\<lambda>e r. decode e = Inr r) recs rows"
  shows "scan_ref decode matched upd (recs, None) acc = Inr (fold upd (filter matched rows) acc)"
proof -
  have "list_all2 (\<lambda>e r. res_bind (decode e) (\<lambda>r. Inr (Some r)) = Inr r) recs (map Some rows)"
    using assms by (auto simp: list_all2_map2 elim: list_all2_mono)
  from scan_loop_rows [OF this, of matched upd acc] show ?thesis
    by (simp add: scan_ref_def List.map_filter_def comp_def)
qed

lemma apply_projected_aggregate_fun [simp]:
  "apply_projected_aggregate plan = (\<lambda>row. apply_all (projected_lookup plan row) (aggregates plan))"
  by (intro ext) (simp add: apply_projected_aggregate_def)

lemma grouped_projected_scan:
  assumes "list_all2 (\<lambda>e r. projected_values_for_aggregate_record (ag_schema plan) (fst e) (snd e) plan = Inr r) recs rows"
    and "group_indices plan \<noteq> []"
  shows "reduce_grouped_projected_scan (recs, None) plan =
    Inr (grouped_result (\<lambda>row. typed_group_key (projected_group_values plan row)) (projected_group_values plan)
      (projected_lookup plan) (aggregates plan) (filter (projected_row_matches plan) rows))"
  using assms(2)
  by (simp add: reduce_grouped_projected_scan_def case_prod_beta' scan_ref_rows [OF assms(1)]
      finish_sorted_groups [unfolded case_prod_beta'])

lemma ungrouped_projected_scan:
  assumes "list_all2 (\<lambda>e r. projected_values_for_aggregate_record (ag_schema plan) (fst e) (snd e) plan = Inr r) recs rows"
  shows "reduce_ungrouped_projected_scan (recs, None) plan =
    Inr [map (aggregate_of (map (projected_lookup plan) (filter (projected_row_matches plan) rows))) (aggregates plan)]"
  by (simp add: reduce_ungrouped_projected_scan_def case_prod_beta' scan_ref_rows [OF assms]
      finish_apply_all)

text \<open>The groups of a grouped result do not depend on how the keys are written, only their order
  does.\<close>

lemma mset_grouped_result:
  "mset (grouped_result key vals look ops rows) =
     image_mset (\<lambda>g. vals (hd g) @ map (aggregate_of (map look g)) ops)
       (mset_set ((\<lambda>x. filter (\<lambda>y. key y = key x) rows) ` set rows))"
proof -
  have inj: "inj_on (group_rows key rows) (key ` set rows)"
  proof (rule inj_onI)
    fix j k assume "j \<in> key ` set rows" and eq: "group_rows key rows j = group_rows key rows k"
    then obtain x where "x \<in> set (group_rows key rows j)" "j = key x" by (auto simp: group_rows_def)
    with eq show "j = k" by (simp add: group_rows_def)
  qed
  have "mset (grouped_result key vals look ops rows) =
      image_mset (\<lambda>k. (\<lambda>g. vals (hd g) @ map (aggregate_of (map look g)) ops) (group_rows key rows k))
        (mset_set (key ` set rows))"
    by (simp add: grouped_result_def Let_def flip: sorted_list_of_mset_set)
  also have "\<dots> = image_mset (\<lambda>g. vals (hd g) @ map (aggregate_of (map look g)) ops)
        (mset_set (group_rows key rows ` key ` set rows))"
    by (simp add: image_mset_mset_set [OF inj, symmetric] multiset.map_comp comp_def)
  finally show ?thesis by (simp add: image_image group_rows_def)
qed

lemma grouped_result_keys:
  assumes "\<forall>x \<in> set rows. \<forall>y \<in> set rows. key x = key y \<longleftrightarrow> key' x = key' y"
  shows "mset (grouped_result key vals look ops rows) = mset (grouped_result key' vals look ops rows)"
proof -
  have "(\<lambda>x. filter (\<lambda>y. key y = key x) rows) ` set rows = (\<lambda>x. filter (\<lambda>y. key' y = key' x) rows) ` set rows"
    by (intro image_cong refl filter_cong) (use assms in auto)
  then show ?thesis by (simp add: mset_grouped_result)
qed

end
