(* ===== verification/Engine_Agreement.thy ===== *)
theory Engine_Agreement
  imports Engine_Aggregates
begin

text \<open>
  The two stores answer aggregate queries alike: on the records of the same rows the engine's
  projected scans compute what the in-memory store computes from whole rows, provided that the
  plan projects every column it uses.
\<close>

section \<open>Plans that project what they use\<close>

fun predicate_columns :: "kv_predicate \<Rightarrow> nat set" where
  "predicate_columns (ColumnCompare idx op v) = {idx}"
| "predicate_columns (PAnd ps) = (\<Union>p \<in> set ps. predicate_columns p)"
| "predicate_columns (POr ps) = (\<Union>p \<in> set ps. predicate_columns p)"
| "predicate_columns (PNot p) = predicate_columns p"
| "predicate_columns (PIsNull idx) = {idx}"
| "predicate_columns (PIsNotNull idx) = {idx}"
| "predicate_columns (PBetween idx low high negated) = {idx}"

fun aggregate_columns :: "kv_aggregate_op \<Rightarrow> nat set" where
  "aggregate_columns CountStar = {}"
| "aggregate_columns (CountColumn i) = {i}"
| "aggregate_columns (MaxColumn i) = {i}"
| "aggregate_columns (MinColumn i) = {i}"
| "aggregate_columns (SumColumn i) = {i}"
| "aggregate_columns (AvgColumn i) = {i}"

definition plan_covers :: "kv_aggregate_scan \<Rightarrow> bool" where
  "plan_covers plan =
     ((\<Union>p \<in> set (filters plan). predicate_columns p) \<union> set (group_indices plan)
        \<union> (\<Union>a \<in> set (aggregates plan). aggregate_columns a) \<subseteq> set (required_indices plan)
      \<and> (\<forall>i \<in> set (required_indices plan). i < length (columns (ag_schema plan))))"

text \<open>The projection of a row.\<close>

definition projection_of :: "kv_aggregate_scan \<Rightarrow> row_map \<Rightarrow> column_value list" where
  "projection_of plan row = map (value_at (ag_schema plan) row) (required_indices plan)"

lemma required_slot_member:
  assumes "idx \<in> set (required_indices plan)"
  obtains i where "required_slot plan idx = Some i" "i < length (required_indices plan)"
    "required_indices plan ! i = idx"
proof -
  let ?i = "length (takeWhile (\<lambda>r. r \<noteq> idx) (required_indices plan))"
  have "?i < length (required_indices plan)"
    using assms by (metis (mono_tags) length_takeWhile_le nat_less_le set_takeWhileD takeWhile_eq_take take_all)
  moreover from this have "required_indices plan ! ?i = idx"
    using nth_length_takeWhile by blast
  ultimately show thesis using that by (simp add: required_slot_def)
qed

lemma projected_value_projection:
  "idx \<in> set (required_indices plan) \<Longrightarrow>
     projected_value plan (projection_of plan row) idx = Some (value_at (ag_schema plan) row idx)"
  by (erule required_slot_member) (simp add: projected_value_def projection_of_def)

lemma projected_predicate_projection:
  "predicate_columns p \<subseteq> set (required_indices plan) \<Longrightarrow>
     projected_predicate_matches plan (projection_of plan row) p = kv_predicate_matches (ag_schema plan) row p"
  by (induction p)
    (auto simp: projected_value_projection Let_def list_all_iff list_ex_iff)

lemma aggregate_of_cong:
  assumes "\<forall>r \<in> set rows. \<forall>i \<in> aggregate_columns op. look r i = look' r i"
  shows "aggregate_of (map look rows) op = aggregate_of (map look' rows) op"
proof -
  have "fold (\<lambda>l. apply_one l op) (map look rows) st = fold (\<lambda>l. apply_one l op) (map look' rows) st" for st
    using assms by (induction rows arbitrary: st) (cases op; simp)+
  then show ?thesis by (simp add: aggregate_of_def)
qed

lemma grouped_result_map:
  "grouped_result key vals look ops (map f rows) =
     grouped_result (\<lambda>r. key (f r)) (\<lambda>r. vals (f r)) (\<lambda>r. look (f r)) ops rows"
proof -
  have "vals (hd (group_rows key (map f rows) k)) @ map (aggregate_of (map look (group_rows key (map f rows) k))) ops =
      vals (f (hd (group_rows (\<lambda>r. key (f r)) rows k))) @
        map (aggregate_of (map (\<lambda>r. look (f r)) (group_rows (\<lambda>r. key (f r)) rows k))) ops"
    if k: "k \<in> (\<lambda>r. key (f r)) ` set rows" for k
  proof -
    have "group_rows (\<lambda>r. key (f r)) rows k \<noteq> []" using k by (auto simp: group_rows_def filter_empty_conv)
    then show ?thesis by (simp add: group_rows_def filter_map comp_def hd_map)
  qed
  then show ?thesis by (simp add: grouped_result_def Let_def image_image cong: map_cong)
qed

lemma grouped_result_cong:
  assumes "\<And>g op. op \<in> set ops \<Longrightarrow> aggregate_of (map look g) op = aggregate_of (map look' g) op"
  shows "grouped_result key vals look ops rows = grouped_result key vals look' ops rows"
  by (simp add: grouped_result_def Let_def assms cong: map_cong)

section \<open>Agreement\<close>

text \<open>A record that the memory store reads as a row and the engine as the row's projection.\<close>

definition reads_as :: "kv_aggregate_scan \<Rightarrow> bytes \<times> bytes \<Rightarrow> row_map \<Rightarrow> bool" where
  "reads_as plan e row =
     (aggregate_row plan (fst e, Some (snd e)) = Inr (Some row) \<and>
      projected_values_for_aggregate_record (ag_schema plan) (fst e) (snd e) plan =
        Inr (projection_of plan row))"

lemma covers_rows:
  assumes "plan_covers plan"
  shows "filter (projected_row_matches plan) (map (projection_of plan) rows) =
      map (projection_of plan) (matching_rows plan (map Some rows))"
    and "projected_group_values plan (projection_of plan row) =
      kv_group_values (ag_schema plan) row (group_indices plan)"
    and "op \<in> set (aggregates plan) \<Longrightarrow>
      aggregate_of (map (\<lambda>r. projected_lookup plan (projection_of plan r)) rows) op =
      aggregate_of (map (value_at (ag_schema plan)) rows) op"
proof -
  have "projected_row_matches plan (projection_of plan row) = kv_row_matches (ag_schema plan) row (filters plan)" for row
    using assms unfolding projected_row_matches_def kv_row_matches_def list_all_iff plan_covers_def
    by (intro ball_cong refl projected_predicate_projection) auto
  then show "filter (projected_row_matches plan) (map (projection_of plan) rows) =
      map (projection_of plan) (matching_rows plan (map Some rows))"
    by (simp add: filter_map comp_def matching_rows_def List.map_filter_def)
  show "projected_group_values plan (projection_of plan row) =
      kv_group_values (ag_schema plan) row (group_indices plan)"
    using assms by (auto simp: projected_group_values_def kv_group_values_def plan_covers_def projected_value_projection)
  show "aggregate_of (map (\<lambda>r. projected_lookup plan (projection_of plan r)) rows) op =
      aggregate_of (map (value_at (ag_schema plan)) rows) op" if "op \<in> set (aggregates plan)"
    using assms that
    by (intro aggregate_of_cong) (auto simp: plan_covers_def projected_lookup_def projected_value_projection)
qed

lemma scans_agree:
  assumes cov: "plan_covers plan" and reads: "list_all2 (reads_as plan) recs rows"
    and scan: "mem_scan_range store (ag_range_start plan) (ag_range_end plan) None False = recs"
    and kv: "projection plan = KeyValue"
  shows "group_indices plan = [] \<Longrightarrow>
      reduce_ungrouped_projected_scan (recs, None) plan = aggregate_scan env plan store"
    and "group_indices plan \<noteq> [] \<Longrightarrow>
      (\<forall>x \<in> set rows. \<forall>y \<in> set rows.
        let vals = (\<lambda>row. kv_group_values (ag_schema plan) row (group_indices plan)) in
        (kv_group_key env (vals x) = kv_group_key env (vals y)) = (typed_group_key (vals x) = typed_group_key (vals y))) \<Longrightarrow>
      \<exists>out out'. reduce_grouped_projected_scan (recs, None) plan = Inr out \<and>
        aggregate_scan env plan store = Inr out' \<and> mset out = mset out'"
proof -
  let ?rows = "matching_rows plan (map Some rows)"
  have mem: "list_all2 (\<lambda>e r. aggregate_row plan e = Inr r)
      (mem_scan_range_projected store (ag_range_start plan) (ag_range_end plan) None False (projection plan)) (map Some rows)"
    using reads by (auto simp: mem_scan_range_projected_def scan kv list_all2_map1 list_all2_map2 reads_as_def
        elim!: list_all2_mono)
  have eng: "list_all2 (\<lambda>e r. projected_values_for_aggregate_record (ag_schema plan) (fst e) (snd e) plan = Inr r)
      recs (map (projection_of plan) rows)"
    using reads by (auto simp: list_all2_map2 reads_as_def elim: list_all2_mono)
  show "reduce_ungrouped_projected_scan (recs, None) plan = aggregate_scan env plan store"
    if "group_indices plan = []"
    unfolding ungrouped_projected_scan [OF eng] aggregate_scan_ungrouped [OF mem that] covers_rows(1) [OF cov]
    by (simp add: comp_def covers_rows(3) [OF cov])
  let ?vals = "\<lambda>row. kv_group_values (ag_schema plan) row (group_indices plan)"
  assume grouped: "group_indices plan \<noteq> []"
    and keys: "\<forall>x \<in> set rows. \<forall>y \<in> set rows.
        let vals = (\<lambda>row. kv_group_values (ag_schema plan) row (group_indices plan)) in
        (kv_group_key env (vals x) = kv_group_key env (vals y)) = (typed_group_key (vals x) = typed_group_key (vals y))"
  have sub: "set ?rows \<subseteq> set rows" by (auto simp: matching_rows_def List.map_filter_def)
  have "reduce_grouped_projected_scan (recs, None) plan =
      Inr (grouped_result (\<lambda>row. typed_group_key (?vals row)) ?vals
        (\<lambda>row. projected_lookup plan (projection_of plan row)) (aggregates plan) ?rows)"
    unfolding grouped_projected_scan [OF eng grouped] covers_rows(1) [OF cov] grouped_result_map
      covers_rows(2) [OF cov] ..
  also have "\<dots> = Inr (grouped_result (\<lambda>row. typed_group_key (?vals row)) ?vals
        (value_at (ag_schema plan)) (aggregates plan) ?rows)"
    by (intro arg_cong [where f = Inr] grouped_result_cong covers_rows(3) [OF cov])
  finally show "\<exists>out out'. reduce_grouped_projected_scan (recs, None) plan = Inr out \<and>
        aggregate_scan env plan store = Inr out' \<and> mset out = mset out'"
    unfolding aggregate_scan_groups [OF mem grouped] Let_def
    using grouped_result_keys [of ?rows "\<lambda>row. typed_group_key (?vals row)" "\<lambda>row. kv_group_key env (?vals row)"]
      keys sub by (auto simp: subset_iff)
qed

section \<open>Written rows\<close>

text \<open>Every row that was written reads as itself in both stores.\<close>

definition row_entry :: "table_schema \<Rightarrow> mvcc_meta \<Rightarrow> row_map \<Rightarrow> bytes \<times> bytes" where
  "row_entry s mvcc row =
     (row_key (table_id s) (table_epoch s) (the (row (primary_key s))), encode_row_record_with_mvcc s row mvcc)"

definition row_writable :: "table_schema \<Rightarrow> row_map \<Rightarrow> bool" where
  "row_writable s row =
     (record_fits s row \<and> row_typed s row \<and> row (primary_key s) \<noteq> None \<and>
      has_type (pk_data_type s) (the (row (primary_key s))) \<and> key_ok (the (row (primary_key s))) \<and>
      key_type_readable (pk_data_type s))"

lemma override_pk_same:
  assumes "decode_pk_from_row_key key (table_id s) (table_epoch s) (pk_data_type s) = Inr pk"
    and "\<forall>i \<in> set idxs. is_pk_column s i \<longrightarrow> f i = pk" "length vs = slot"
  shows "override_pk s key idxs slot (vs @ map f idxs) = Inr (vs @ map f idxs)"
  using assms(2,3)
proof (induction idxs arbitrary: slot vs)
  case (Cons i idxs)
  have "override_pk s key idxs (slot + 1) ((vs @ [f i]) @ map f idxs) = Inr ((vs @ [f i]) @ map f idxs)"
    using Cons.prems by (intro Cons.IH) auto
  then show ?case using Cons.prems by (auto simp: assms(1) list_update_append)
qed simp

lemma collect_res_const: "collect_res (\<lambda>_. Inr x) xs = Inr (map (\<lambda>_. x) xs)"
  by (induction xs) simp_all

lemma row_entry_reads:
  assumes "row_writable s row" "distinct (column_names s)" "ag_schema plan = s"
    and "\<forall>i \<in> set (required_indices plan). i < length (columns s)"
  shows "\<exists>out. reads_as plan (row_entry s mvcc row) out \<and> projection_of plan out = projection_of plan row"
proof -
  obtain pk where pk: "row (primary_key s) = Some pk" and dec:
    "decode_pk_from_row_key (row_key (table_id s) (table_epoch s) pk) (table_id s) (table_epoch s) (pk_data_type s) = Inr pk"
    using assms(1) decode_pk_from_row_key_row_key by (fastforce simp: row_writable_def)
  obtain out where out: "decode_row_record s (encode_row_record_with_mvcc s row mvcc) = Inr out"
    and cell: "\<forall>c \<in> set (columns s). out (col_name c) = Some (row_value row c)"
    using decode_encode_row_record [of s row s "[]" mvcc] assms(1,2) by (auto simp: row_writable_def)
  have at: "value_at s out i = row_value row (columns s ! i)" if "i < length (columns s)" for i
    using cell that by (simp add: value_at_def slice_get_def)
  have at_row: "value_at s row i = row_value row (columns s ! i)" if "i < length (columns s)" for i
    using that by (simp add: value_at_def slice_get_def row_value_def)
  have at_pk: "is_pk_column s i \<Longrightarrow> i < length (columns s) \<and> row_value row (columns s ! i) = pk" for i
    using pk by (auto simp: is_pk_column_def slice_get_def row_value_def split: if_splits)
  show ?thesis
  proof (cases "list_all (is_pk_column s) (required_indices plan)")
    case True
    have "value_at s [primary_key s \<mapsto> pk] i = pk" if "i \<in> set (required_indices plan)" for i
      using True that by (auto simp: value_at_def is_pk_column_def list_all_iff split: option.splits)
    moreover have "value_at s row i = pk" if "i \<in> set (required_indices plan)" for i
      using True that at_pk at_row by (auto simp: list_all_iff)
    ultimately have "reads_as plan (row_entry s mvcc row) [primary_key s \<mapsto> pk] \<and>
        projection_of plan [primary_key s \<mapsto> pk] = projection_of plan row"
      using True dec pk
      by (simp add: reads_as_def aggregate_row_def assms(3) row_entry_def projection_of_def
          projected_values_for_aggregate_record_def collect_res_const)
    then show ?thesis by blast
  next
    case False
    have "decode_row_record_projected_values s (encode_row_record_with_mvcc s row mvcc) (required_indices plan) =
        Inr (map (value_at s out) (required_indices plan))"
      using projected_values_encode [of s row s "[]" "required_indices plan" mvcc] assms(1,4)
      by (simp add: row_writable_def at)
    moreover have "override_pk s (row_key (table_id s) (table_epoch s) pk) (required_indices plan) 0
        (map (value_at s out) (required_indices plan)) = Inr (map (value_at s out) (required_indices plan))"
      using override_pk_same [OF dec, of "required_indices plan" "value_at s out" "[]" 0] at at_pk by simp
    moreover have "map (value_at s out) (required_indices plan) = map (value_at s row) (required_indices plan)"
      using assms(4) by (simp add: at at_row)
    ultimately have "reads_as plan (row_entry s mvcc row) out \<and> projection_of plan out = projection_of plan row"
      using False out pk
      by (simp add: reads_as_def aggregate_row_def assms(3) row_entry_def projection_of_def
          projected_values_for_aggregate_record_def)
    then show ?thesis by blast
  qed
qed

text \<open>So the two stores agree on the tables they hold.\<close>

lemma written_rows_read:
  assumes "\<forall>row \<in> set rows. row_writable s row" "distinct (column_names s)" "ag_schema plan = s" "plan_covers plan"
  shows "\<exists>outs. list_all2 (reads_as plan) (map (row_entry s mvcc) rows) outs \<and>
    (\<forall>out \<in> set outs. \<exists>row \<in> set rows.
      kv_group_values s out (group_indices plan) = kv_group_values s row (group_indices plan))"
  using assms(1)
proof (induction rows)
  case (Cons row rows)
  obtain out where out: "reads_as plan (row_entry s mvcc row) out" "projection_of plan out = projection_of plan row"
    using row_entry_reads [OF _ assms(2,3), of row mvcc] assms(3,4) Cons.prems by (auto simp: plan_covers_def)
  have "kv_group_values s out (group_indices plan) = kv_group_values s row (group_indices plan)"
    using covers_rows(2) [OF assms(4), of out] covers_rows(2) [OF assms(4), of row] out(2) assms(3) by simp
  moreover obtain outs where "list_all2 (reads_as plan) (map (row_entry s mvcc) rows) outs"
    "\<forall>out \<in> set outs. \<exists>row \<in> set rows.
      kv_group_values s out (group_indices plan) = kv_group_values s row (group_indices plan)"
    using Cons by auto
  ultimately show ?case using out(1) by (intro exI [of _ "out # outs"]) auto
qed simp

lemma written_scans_agree:
  assumes "plan_covers plan" "ag_schema plan = s" "projection plan = KeyValue" "distinct (column_names s)"
    and "\<forall>row \<in> set rows. row_writable s row"
    and "mem_scan_range store (ag_range_start plan) (ag_range_end plan) None False = map (row_entry s mvcc) rows"
  shows "group_indices plan = [] \<Longrightarrow>
      reduce_ungrouped_projected_scan (map (row_entry s mvcc) rows, None) plan = aggregate_scan env plan store"
    and "group_indices plan \<noteq> [] \<Longrightarrow>
      inj_on (kv_group_key env) ((\<lambda>row. kv_group_values s row (group_indices plan)) ` set rows) \<Longrightarrow>
      inj_on typed_group_key ((\<lambda>row. kv_group_values s row (group_indices plan)) ` set rows) \<Longrightarrow>
      \<exists>out out'. reduce_grouped_projected_scan (map (row_entry s mvcc) rows, None) plan = Inr out \<and>
        aggregate_scan env plan store = Inr out' \<and> mset out = mset out'"
proof -
  obtain outs where reads: "list_all2 (reads_as plan) (map (row_entry s mvcc) rows) outs"
    and vals: "\<forall>out \<in> set outs. \<exists>row \<in> set rows.
      kv_group_values s out (group_indices plan) = kv_group_values s row (group_indices plan)"
    using written_rows_read [OF assms(5,4,2,1)] by blast
  note agree = scans_agree [OF assms(1) reads assms(6,3)]
  show "reduce_ungrouped_projected_scan (map (row_entry s mvcc) rows, None) plan = aggregate_scan env plan store"
    if "group_indices plan = []" using agree(1) that by blast
  let ?vals = "\<lambda>row. kv_group_values s row (group_indices plan)"
  assume "group_indices plan \<noteq> []"
    and inj: "inj_on (kv_group_key env) (?vals ` set rows)" "inj_on typed_group_key (?vals ` set rows)"
  then show "\<exists>out out'. reduce_grouped_projected_scan (map (row_entry s mvcc) rows, None) plan = Inr out \<and>
        aggregate_scan env plan store = Inr out' \<and> mset out = mset out'"
  proof (intro agree(2) ballI)
    fix x y assume "x \<in> set outs" "y \<in> set outs"
    then have "?vals x \<in> ?vals ` set rows" "?vals y \<in> ?vals ` set rows" using vals by auto
    then show "let vals = \<lambda>row. kv_group_values (ag_schema plan) row (group_indices plan)
        in (kv_group_key env (vals x) = kv_group_key env (vals y)) = (typed_group_key (vals x) = typed_group_key (vals y))"
      using inj by (simp add: assms(2) inj_on_eq_iff)
  qed
qed

end
