(* ===== verification/Engine_Numeric.thy ===== *)
theory Engine_Numeric
  imports Engine_Agreement "HOL-Library.AList"
begin

text \<open>
  The numeric fast path of the engine's aggregate scans (\<open>kv_engine_store\<close>:
  \<open>fast_numeric_plan.rs\<close>, \<open>fast_numeric_eval.rs\<close> and the plan types of
  \<open>profile.rs\<close>): a plan whose columns are all plain numbers reads them into slots of one
  reused buffer and folds 64-bit states. A hash map of groups is an association list in order of
  insertion; the order in which the code iterates over it is a parameter.
\<close>

section \<open>Numbers\<close>

definition fast_numeric_data_type :: "data_type \<Rightarrow> bool" where
  "fast_numeric_data_type dt = (dt \<in> {TInt16, TInt32, TInt64, TFloat32, TFloat64})"

definition fast_numeric_to_column_value :: "data_type \<Rightarrow> fast_numeric_value \<Rightarrow> column_value" where
  "fast_numeric_to_column_value dt v =
     (case v of
        FNull \<Rightarrow> VNull
      | FI64 x \<Rightarrow>
          (case dt of
             TInt16 \<Rightarrow> VInt16 (ucast x)
           | TInt32 \<Rightarrow> VInt32 (ucast x)
           | _ \<Rightarrow> VInt64 x)
      | FF64 x \<Rightarrow> (case dt of TFloat32 \<Rightarrow> VFloat32 (f64_as_f32 x) | _ \<Rightarrow> VFloat64 x))"

definition fast_numeric_as_f64 :: "fast_numeric_value \<Rightarrow> u64 option" where
  "fast_numeric_as_f64 v =
     (case v of FNull \<Rightarrow> None | FI64 x \<Rightarrow> Some (int_as_f64 (sint x)) | FF64 x \<Rightarrow> Some x)"

definition fast_numeric_cmp :: "fast_numeric_value \<Rightarrow> fast_numeric_value \<Rightarrow> ordering option" where
  "fast_numeric_cmp left right =
     (case (left, right) of
        (FI64 a, FI64 b) \<Rightarrow> int_cmp (sint a) (sint b)
      | (l, r) \<Rightarrow>
          Option.bind (fast_numeric_as_f64 l) (\<lambda>a.
          Option.bind (fast_numeric_as_f64 r) (\<lambda>b. f64_partial_cmp a b)))"

definition compare_fast_numeric_values :: "fast_numeric_value \<Rightarrow> kv_compare_op \<Rightarrow> fast_numeric_value \<Rightarrow> bool"
where
  "compare_fast_numeric_values left op right =
     (case fast_numeric_cmp left right of
        None \<Rightarrow> False
      | Some ord \<Rightarrow>
          (case op of
             CEq \<Rightarrow> ord = Equal
           | CNotEq \<Rightarrow> ord \<noteq> Equal
           | CGt \<Rightarrow> ord = Greater
           | CGtEq \<Rightarrow> ord \<noteq> Less
           | CLt \<Rightarrow> ord = Less
           | CLtEq \<Rightarrow> ord \<noteq> Greater))"

section \<open>Plans\<close>

record fast_numeric_aggregate_plan =
  projector :: fast_numeric_projector
  filter_slots :: "nat list"
  group_slots :: "nat list"
  aggregate_slots :: "nat list"
  matched_slots :: "nat list"
  column_slots :: "nat option list"

definition column_slot :: "nat option list \<Rightarrow> nat \<Rightarrow> nat option" where
  "column_slot slots idx = Option.bind (slice_get slots idx) (\<lambda>s. s)"

text \<open>A \<open>BTreeSet\<close> of slots is a sorted list without repetitions.\<close>

fun collect_fast_aggregate_filter_slots :: "kv_predicate \<Rightarrow> nat option list \<Rightarrow> nat list \<Rightarrow> nat list option"
where
  "collect_fast_aggregate_filter_slots (ColumnCompare idx op v) cs slots =
     Option.bind (column_value_to_fast_numeric v) (\<lambda>_.
     Option.bind (column_slot cs idx) (\<lambda>s. Some (insort_insert s slots)))"
| "collect_fast_aggregate_filter_slots (PIsNull idx) cs slots =
     Option.bind (column_slot cs idx) (\<lambda>s. Some (insort_insert s slots))"
| "collect_fast_aggregate_filter_slots (PIsNotNull idx) cs slots =
     Option.bind (column_slot cs idx) (\<lambda>s. Some (insort_insert s slots))"
| "collect_fast_aggregate_filter_slots (PBetween idx low high negated) cs slots =
     Option.bind (column_value_to_fast_numeric low) (\<lambda>_.
     Option.bind (column_value_to_fast_numeric high) (\<lambda>_.
     Option.bind (column_slot cs idx) (\<lambda>s. Some (insort_insert s slots))))"
| "collect_fast_aggregate_filter_slots (PAnd []) cs slots = Some slots"
| "collect_fast_aggregate_filter_slots (PAnd (p # ps)) cs slots =
     Option.bind (collect_fast_aggregate_filter_slots p cs slots) (\<lambda>slots1.
       collect_fast_aggregate_filter_slots (PAnd ps) cs slots1)"
| "collect_fast_aggregate_filter_slots (POr []) cs slots = Some slots"
| "collect_fast_aggregate_filter_slots (POr (p # ps)) cs slots =
     Option.bind (collect_fast_aggregate_filter_slots p cs slots) (\<lambda>slots1.
       collect_fast_aggregate_filter_slots (POr ps) cs slots1)"
| "collect_fast_aggregate_filter_slots (PNot p) cs slots = collect_fast_aggregate_filter_slots p cs slots"

fun fill_column_slots :: "nat \<Rightarrow> nat list \<Rightarrow> nat option list \<Rightarrow> nat option list" where
  "fill_column_slots slot [] cs = cs"
| "fill_column_slots slot (idx # idxs) cs = fill_column_slots (slot + 1) idxs (cs[idx := Some slot])"

fun collect_slots :: "('a \<Rightarrow> nat list \<Rightarrow> nat list option) \<Rightarrow> 'a list \<Rightarrow> nat list \<Rightarrow> nat list option" where
  "collect_slots f [] slots = Some slots"
| "collect_slots f (x # xs) slots = Option.bind (f x slots) (collect_slots f xs)"

fun collect_aggregate_slot :: "nat option list \<Rightarrow> kv_aggregate_op \<Rightarrow> nat list \<Rightarrow> nat list option" where
  "collect_aggregate_slot cs CountStar slots = Some slots"
| "collect_aggregate_slot cs (CountColumn i) slots =
     Option.bind (column_slot cs i) (\<lambda>s. Some (insort_insert s slots))"
| "collect_aggregate_slot cs (MaxColumn i) slots =
     Option.bind (column_slot cs i) (\<lambda>s. Some (insort_insert s slots))"
| "collect_aggregate_slot cs (MinColumn i) slots =
     Option.bind (column_slot cs i) (\<lambda>s. Some (insort_insert s slots))"
| "collect_aggregate_slot cs (SumColumn i) slots =
     Option.bind (column_slot cs i) (\<lambda>s. Some (insort_insert s slots))"
| "collect_aggregate_slot cs (AvgColumn i) slots =
     Option.bind (column_slot cs i) (\<lambda>s. Some (insort_insert s slots))"

definition build_fast_numeric_aggregate_plan :: "kv_aggregate_scan \<Rightarrow> fast_numeric_aggregate_plan option" where
  "build_fast_numeric_aggregate_plan plan =
     (let schema = ag_schema plan in
      if projection plan = KeyOnly then None
      else if \<not> list_all (\<lambda>idx. case slice_get (columns schema) idx of
                 Some c \<Rightarrow> fast_numeric_data_type (col_type c) | None \<Rightarrow> False) (required_indices plan)
        then None
      else
        (let cs = fill_column_slots 0 (required_indices plan) (replicate (length (columns schema)) None) in
         Option.bind (collect_slots (\<lambda>p. collect_fast_aggregate_filter_slots p cs) (filters plan) []) (\<lambda>fs.
         Option.bind (collect_slots (\<lambda>idx slots. map_option (\<lambda>s. slots @ [s]) (column_slot cs idx))
                        (group_indices plan) []) (\<lambda>gs.
         Option.bind (collect_slots (collect_aggregate_slot cs) (aggregates plan) []) (\<lambda>ags.
           Some \<lparr>projector = fast_numeric_projector_new schema (required_indices plan),
                 filter_slots = fs, group_slots = gs, aggregate_slots = ags,
                 matched_slots = fold insort_insert (gs @ ags) [], column_slots = cs\<rparr>)))))"

section \<open>Predicates and states\<close>

definition fast_aggregate_column_value ::
    "fast_numeric_aggregate_plan \<Rightarrow> fast_numeric_value list \<Rightarrow> nat \<Rightarrow> fast_numeric_value option" where
  "fast_aggregate_column_value fp values idx =
     Option.bind (column_slot (column_slots fp) idx) (slice_get values)"

fun fast_aggregate_predicate_matches ::
    "kv_predicate \<Rightarrow> fast_numeric_aggregate_plan \<Rightarrow> fast_numeric_value list \<Rightarrow> bool" where
  "fast_aggregate_predicate_matches (ColumnCompare idx op v) fp values =
     (case (fast_aggregate_column_value fp values idx, column_value_to_fast_numeric v) of
        (Some left, Some right) \<Rightarrow> compare_fast_numeric_values left op right
      | _ \<Rightarrow> False)"
| "fast_aggregate_predicate_matches (PAnd ps) fp values =
     list_all (\<lambda>p. fast_aggregate_predicate_matches p fp values) ps"
| "fast_aggregate_predicate_matches (POr ps) fp values =
     list_ex (\<lambda>p. fast_aggregate_predicate_matches p fp values) ps"
| "fast_aggregate_predicate_matches (PNot p) fp values = (\<not> fast_aggregate_predicate_matches p fp values)"
| "fast_aggregate_predicate_matches (PIsNull idx) fp values =
     (case fast_aggregate_column_value fp values idx of None \<Rightarrow> True | Some v \<Rightarrow> v = FNull)"
| "fast_aggregate_predicate_matches (PIsNotNull idx) fp values =
     (case fast_aggregate_column_value fp values idx of None \<Rightarrow> False | Some v \<Rightarrow> v \<noteq> FNull)"
| "fast_aggregate_predicate_matches (PBetween idx low high negated) fp values =
     (let inside =
            (case (fast_aggregate_column_value fp values idx, column_value_to_fast_numeric low,
                   column_value_to_fast_numeric high) of
               (Some v, Some l, Some h) \<Rightarrow>
                 compare_fast_numeric_values v CGtEq l \<and> compare_fast_numeric_values v CLtEq h
             | _ \<Rightarrow> False)
      in if negated then \<not> inside else inside)"

datatype fast_aggregate_state =
    FCount i64 | FSumI64 i64 | FSumF64 u64 | FMin fast_numeric_value | FMax fast_numeric_value | FAvg u64 i64

fun fast_aggregate_initial_state :: "kv_aggregate_scan \<Rightarrow> kv_aggregate_op \<Rightarrow> fast_aggregate_state option" where
  "fast_aggregate_initial_state plan CountStar = Some (FCount 0)"
| "fast_aggregate_initial_state plan (CountColumn _) = Some (FCount 0)"
| "fast_aggregate_initial_state plan (SumColumn idx) =
     map_option (\<lambda>c. if col_type c \<in> {TFloat32, TFloat64} then FSumF64 0 else FSumI64 0)
       (slice_get (columns (ag_schema plan)) idx)"
| "fast_aggregate_initial_state plan (MaxColumn _) = Some (FMax FNull)"
| "fast_aggregate_initial_state plan (MinColumn _) = Some (FMin FNull)"
| "fast_aggregate_initial_state plan (AvgColumn _) = Some (FAvg 0 0)"

definition initial_fast_aggregate_states :: "kv_aggregate_scan \<Rightarrow> fast_aggregate_state list option" where
  "initial_fast_aggregate_states plan =
     those (map (fast_aggregate_initial_state plan) (aggregates plan))"

definition fast_count_one :: "fast_aggregate_state \<Rightarrow> fast_aggregate_state" where
  "fast_count_one st = (case st of FCount n \<Rightarrow> FCount (n + 1) | _ \<Rightarrow> st)"

text \<open>One aggregate; \<open>v\<close> is the column's value, when it has a slot.\<close>

fun apply_fast_one :: "(nat \<Rightarrow> fast_numeric_value option) \<Rightarrow> kv_aggregate_op \<Rightarrow> fast_aggregate_state \<Rightarrow> fast_aggregate_state"
where
  "apply_fast_one look CountStar st = fast_count_one st"
| "apply_fast_one look (CountColumn i) st =
     (case look i of Some v \<Rightarrow> if v \<noteq> FNull then fast_count_one st else st | None \<Rightarrow> st)"
| "apply_fast_one look (SumColumn i) st =
     (case look i of
        None \<Rightarrow> st
      | Some v \<Rightarrow>
          (case (st, v) of
             (_, FNull) \<Rightarrow> st
           | (FSumI64 s, FI64 x) \<Rightarrow> FSumI64 (s + x)
           | (FSumF64 s, x) \<Rightarrow>
               (case fast_numeric_as_f64 x of Some y \<Rightarrow> FSumF64 (f64_add s y) | None \<Rightarrow> st)
           | _ \<Rightarrow> st))"
| "apply_fast_one look (AvgColumn i) st =
     (case Option.bind (look i) fast_numeric_as_f64 of
        None \<Rightarrow> st
      | Some x \<Rightarrow> (case st of FAvg s n \<Rightarrow> FAvg (f64_add s x) (n + 1) | _ \<Rightarrow> st))"
| "apply_fast_one look (MaxColumn i) st =
     (case look i of
        None \<Rightarrow> st
      | Some v \<Rightarrow>
          if v = FNull then st
          else (case st of
                  FMax s \<Rightarrow> if s = FNull \<or> fast_numeric_cmp v s = Some Greater then FMax v else st
                | _ \<Rightarrow> st))"
| "apply_fast_one look (MinColumn i) st =
     (case look i of
        None \<Rightarrow> st
      | Some v \<Rightarrow>
          if v = FNull then st
          else (case st of
                  FMin s \<Rightarrow> if s = FNull \<or> fast_numeric_cmp v s = Some Less then FMin v else st
                | _ \<Rightarrow> st))"

fun apply_fast_all ::
    "(nat \<Rightarrow> fast_numeric_value option) \<Rightarrow> kv_aggregate_op list \<Rightarrow> fast_aggregate_state list \<Rightarrow> fast_aggregate_state list"
where
  "apply_fast_all look (op # ops) (st # sts) = apply_fast_one look op st # apply_fast_all look ops sts"
| "apply_fast_all look _ sts = sts"

definition apply_fast_aggregates ::
    "kv_aggregate_scan \<Rightarrow> fast_numeric_aggregate_plan \<Rightarrow> fast_numeric_value list \<Rightarrow> fast_aggregate_state list
       \<Rightarrow> fast_aggregate_state list" where
  "apply_fast_aggregates plan fp values states =
     apply_fast_all (fast_aggregate_column_value fp values) (aggregates plan) states"

definition finish_fast_extreme :: "kv_aggregate_scan \<Rightarrow> nat \<Rightarrow> fast_numeric_value \<Rightarrow> column_value" where
  "finish_fast_extreme plan idx v =
     (case slice_get (columns (ag_schema plan)) idx of
        Some c \<Rightarrow> fast_numeric_to_column_value (col_type c) v
      | None \<Rightarrow> VNull)"

definition finish_fast_one :: "kv_aggregate_scan \<Rightarrow> fast_aggregate_state \<Rightarrow> kv_aggregate_op \<Rightarrow> column_value" where
  "finish_fast_one plan st op =
     (case (st, op) of
        (FCount n, _) \<Rightarrow> VInt64 n
      | (FSumI64 s, _) \<Rightarrow> VInt64 s
      | (FSumF64 s, _) \<Rightarrow> VFloat64 s
      | (FAvg s n, _) \<Rightarrow> if n = 0 then VNull else VFloat64 (f64_div s (int_as_f64 (sint n)))
      | (FMax v, MaxColumn idx) \<Rightarrow> finish_fast_extreme plan idx v
      | (FMin v, MinColumn idx) \<Rightarrow> finish_fast_extreme plan idx v
      | _ \<Rightarrow> VNull)"

definition finish_fast_aggregates :: "kv_aggregate_scan \<Rightarrow> fast_aggregate_state list \<Rightarrow> column_value list" where
  "finish_fast_aggregates plan states = map (\<lambda>(st, op). finish_fast_one plan st op) (zip states (aggregates plan))"

section \<open>Groups\<close>

datatype fast_group_key = SingleNull | SingleI64 i64 | SingleF64 u64 | Composite bytes

definition slot_value :: "fast_numeric_value list \<Rightarrow> nat \<Rightarrow> fast_numeric_value" where
  "slot_value values slot = (case slice_get values slot of Some v \<Rightarrow> v | None \<Rightarrow> FNull)"

fun composite_part :: "fast_numeric_value \<Rightarrow> bytes" where
  "composite_part FNull = [0]"
| "composite_part (FI64 x) = 1 # to_be_bytes x"
| "composite_part (FF64 x) = 2 # to_be_bytes x"

fun single_key :: "fast_numeric_value \<Rightarrow> fast_group_key" where
  "single_key FNull = SingleNull"
| "single_key (FI64 x) = SingleI64 x"
| "single_key (FF64 x) = SingleF64 x"

definition fast_numeric_group_key :: "fast_numeric_value list \<Rightarrow> nat list \<Rightarrow> fast_group_key" where
  "fast_numeric_group_key values slots =
     (case slots of
        [slot] \<Rightarrow> single_key (slot_value values slot)
      | _ \<Rightarrow> Composite (concat (map (\<lambda>slot. composite_part (slot_value values slot)) slots)))"

definition fast_numeric_group_values :: "fast_numeric_value list \<Rightarrow> nat list \<Rightarrow> fast_numeric_value list" where
  "fast_numeric_group_values values slots = map (slot_value values) slots"

fun finish_group_values :: "kv_aggregate_scan \<Rightarrow> (fast_numeric_value \<times> nat) list \<Rightarrow> column_value list res" where
  "finish_group_values plan [] = Inr []"
| "finish_group_values plan ((v, idx) # vs) =
     (case slice_get (columns (ag_schema plan)) idx of
        None \<Rightarrow> Inl (user_error ''XX000'' ''group column index out of bounds'')
      | Some c \<Rightarrow>
          res_bind (finish_group_values plan vs) (\<lambda>row.
            Inr (fast_numeric_to_column_value (col_type c) v # row)))"

definition finish_fast_grouped_aggregate_row ::
    "kv_aggregate_scan \<Rightarrow> fast_numeric_value list \<Rightarrow> fast_aggregate_state list \<Rightarrow> column_value list res" where
  "finish_fast_grouped_aggregate_row plan group_values states =
     res_bind (finish_group_values plan (zip group_values (group_indices plan))) (\<lambda>row.
       Inr (row @ finish_fast_aggregates plan states))"

section \<open>Scans\<close>

text \<open>The visitor of one record: the filter columns are read into the buffer, and for a matching
  record the columns \<open>slots\<close> before the accumulator changes.\<close>

definition fast_record_step ::
    "kv_aggregate_scan \<Rightarrow> fast_numeric_aggregate_plan \<Rightarrow> nat list \<Rightarrow> (fast_numeric_value list \<Rightarrow> 'a \<Rightarrow> 'a)
       \<Rightarrow> bytes \<Rightarrow> fast_numeric_value list \<times> 'a \<Rightarrow> (fast_numeric_value list \<times> 'a) res" where
  "fast_record_step plan fp slots upd value st =
     (let (values, acc) = st in
      res_bind (decode_row_record_fast_numeric_slots_with (projector fp) value values (filter_slots fp)) (\<lambda>values1.
        if \<not> list_all (\<lambda>p. fast_aggregate_predicate_matches p fp values1) (filters plan)
        then Inr (values1, acc)
        else
          res_bind (decode_row_record_fast_numeric_slots_with (projector fp) value values1 slots) (\<lambda>values2.
            Inr (values2, upd values2 acc))))"

fun fast_scan :: "(bytes \<Rightarrow> 's \<Rightarrow> 's res) \<Rightarrow> (bytes \<times> bytes) list \<Rightarrow> 's \<Rightarrow> 's res" where
  "fast_scan step [] st = Inr st"
| "fast_scan step (kv # recs) st = res_bind (step (snd kv) st) (fast_scan step recs)"

definition fast_scan_ref :: "(bytes \<Rightarrow> 's \<Rightarrow> 's res) \<Rightarrow> range_cursor \<Rightarrow> 's \<Rightarrow> 's res" where
  "fast_scan_ref step cur st =
     res_bind (fast_scan step (fst cur) st) (\<lambda>st1. case snd cur of None \<Rightarrow> Inr st1 | Some e \<Rightarrow> Inl e)"

definition unsupported_state :: pg_error where
  "unsupported_state = user_error ''XX000'' ''unsupported fast aggregate state''"

definition reduce_ungrouped_fast_numeric_scan ::
    "range_cursor \<Rightarrow> kv_aggregate_scan \<Rightarrow> fast_numeric_aggregate_plan \<Rightarrow> column_value list list res" where
  "reduce_ungrouped_fast_numeric_scan cur plan fp =
     (let values = replicate (fnp_output_len (projector fp)) FNull in
      res_bind (ok_or (initial_fast_aggregate_states plan) unsupported_state) (\<lambda>states.
      res_bind (fast_scan_ref (fast_record_step plan fp (aggregate_slots fp) (apply_fast_aggregates plan fp))
                  cur (values, states)) (\<lambda>(_, states1).
        Inr [finish_fast_aggregates plan states1])))"

type_synonym fast_groups =
  "(fast_group_key \<times> fast_numeric_value list \<times> fast_aggregate_state list) list"

definition hash_group_step ::
    "('r \<Rightarrow> 'k) \<Rightarrow> ('r \<Rightarrow> 'g) \<Rightarrow> 's \<Rightarrow> ('r \<Rightarrow> 's \<Rightarrow> 's) \<Rightarrow> 'r \<Rightarrow> ('k \<times> 'g \<times> 's) list \<Rightarrow> ('k \<times> 'g \<times> 's) list"
where
  "hash_group_step key gv init upd row groups =
     (let (g, st) = (case map_of groups (key row) of Some e \<Rightarrow> e | None \<Rightarrow> (gv row, init))
      in AList.update (key row) (g, upd row st) groups)"

definition reduce_grouped_fast_numeric_scan ::
    "(fast_groups \<Rightarrow> fast_groups) \<Rightarrow> range_cursor \<Rightarrow> kv_aggregate_scan \<Rightarrow> fast_numeric_aggregate_plan
       \<Rightarrow> column_value list list res" where
  "reduce_grouped_fast_numeric_scan hash_order cur plan fp =
     (let values = replicate (fnp_output_len (projector fp)) FNull in
      res_bind (ok_or (initial_fast_aggregate_states plan) unsupported_state) (\<lambda>states.
      res_bind (fast_scan_ref
                  (fast_record_step plan fp (matched_slots fp)
                    (hash_group_step (\<lambda>vs. fast_numeric_group_key vs (group_slots fp))
                       (\<lambda>vs. fast_numeric_group_values vs (group_slots fp)) states
                       (apply_fast_aggregates plan fp)))
                  cur (values, [])) (\<lambda>(_, groups).
        collect_res (\<lambda>(_, group_values, sts). finish_fast_grouped_aggregate_row plan group_values sts)
          (hash_order groups))))"

section \<open>The whole scan\<close>

definition execute_aggregate_scan ::
    "(kv_aggregate_scan \<Rightarrow> range_cursor res) \<Rightarrow> (fast_groups \<Rightarrow> fast_groups) \<Rightarrow> kv_aggregate_scan
       \<Rightarrow> column_value list list res" where
  "execute_aggregate_scan range_query hash_order plan =
     res_bind (range_query plan) (\<lambda>cur.
       if aggregate_plan_uses_only_primary_key plan then
         (if group_indices plan = [] then reduce_ungrouped_key_only_scan cur plan
          else reduce_grouped_key_only_scan cur plan)
       else case build_fast_numeric_aggregate_plan plan of
         Some fp \<Rightarrow>
           (if group_indices plan = [] then reduce_ungrouped_fast_numeric_scan cur plan fp
            else reduce_grouped_fast_numeric_scan hash_order cur plan fp)
       | None \<Rightarrow>
           (if group_indices plan = [] then reduce_ungrouped_projected_scan cur plan
            else reduce_grouped_projected_scan cur plan))"

end
