(* ===== verification/Numeric_Agreement.thy ===== *)
theory Numeric_Agreement
  imports Engine_Numeric
begin

text \<open>
  The numeric fast path against the general scan. The buffer is reused from record to record and
  only some slots are refreshed, so each step is shown to look at refreshed slots alone; for
  integer columns the filters and the COUNT, MIN, MAX and AVG states then agree with those of the
  general scan, and SUM over a BIGINT column that has a value in some row read; over no values it is
  0 here and NULL there.
\<close>

section \<open>Slots\<close>

lemma find_direct_slot:
  assumes "\<forall>i \<in> set idxs. i < length (columns s)" "n \<le> out" "out < n + length idxs"
  shows "find (\<lambda>slot. slot_output_idx slot = out) (List.map_filter (direct_slot s) (List.enumerate n idxs)) =
    direct_slot s (out, idxs ! (out - n))"
  using assms
proof (induction idxs arbitrary: n)
  case (Cons i idxs)
  have "direct_slot s (n, i) \<noteq> None" using Cons.prems(1) by (simp add: direct_slot_def Let_def)
  then obtain slot where slot: "direct_slot s (n, i) = Some slot" by blast
  then have "slot_output_idx slot = n" by (auto simp: direct_slot_def Let_def)
  then show ?case using Cons.IH [of "Suc n"] Cons.prems slot
    by (cases "out = n") (auto simp: List.map_filter_simps nth_Cons')
qed simp

definition numeric_plan :: "table_schema \<Rightarrow> nat list \<Rightarrow> bool" where
  "numeric_plan s req = (\<forall>i \<in> set req. i < length (columns s) \<and> numeric_column (columns s ! i))"

lemma output_slots_encode:
  assumes "record_fits s row" "row_typed s row" "numeric_plan s req"
    and "\<forall>out \<in> set outs. out < length req" "length vs = length req"
  shows "\<exists>vs'. output_slots_loop (fast_numeric_projector_new s req) (encode_row_record_with_mvcc s row mvcc) outs vs
      = Inr vs' \<and> length vs' = length req \<and>
    (\<forall>out < length req. vs' ! out = (if out \<in> set outs then numeric_of s row (req ! out) else vs ! out))"
  using assms(4,5)
proof (induction outs arbitrary: vs)
  case (Cons out outs)
  have out: "out < length req" using Cons.prems(1) by simp
  then have i: "req ! out < length (columns s)" "numeric_column (columns s ! (req ! out))"
    using assms(3) by (simp_all add: numeric_plan_def)
  then obtain slot where slot: "direct_slot s (out, req ! out) = Some slot"
    by (auto simp: direct_slot_def Let_def slice_get_def)
  obtain x where x: "column_value_to_fast_numeric (row_value row (columns s ! (req ! out))) = Some x"
    "decode_fixed_row_numeric_slot (encode_row_record_with_mvcc s row mvcc) vs slot = Inr (vs[out := x])"
    using decode_fixed_row_numeric_slot_encode [OF assms(1,2) i slot] by blast
  have "find (\<lambda>slot. slot_output_idx slot = out) (fnp_direct_slots (fast_numeric_projector_new s req)) = Some slot"
    using find_direct_slot [of req s 0 out] assms(3) out slot
    by (simp add: fast_numeric_projector_new_def numeric_plan_def)
  moreover obtain vs' where "output_slots_loop (fast_numeric_projector_new s req)
      (encode_row_record_with_mvcc s row mvcc) outs (vs[out := x]) = Inr vs'" "length vs' = length req"
    "\<forall>out' < length req. vs' ! out' = (if out' \<in> set outs then numeric_of s row (req ! out') else vs[out := x] ! out')"
    using Cons.IH [of "vs[out := x]"] Cons.prems by auto
  ultimately show ?case using x Cons.prems(2) by (auto simp: nth_list_update)
qed simp

lemma decode_slots_encode:
  assumes "record_fits s row" "row_typed s row" "numeric_plan s req"
    and "\<forall>out \<in> set outs. out < length req" "length vs = length req"
  shows "\<exists>vs'. decode_row_record_fast_numeric_slots_with (fast_numeric_projector_new s req)
      (encode_row_record_with_mvcc s row mvcc) vs outs = Inr vs' \<and> length vs' = length req \<and>
    (\<forall>out < length req. vs' ! out = (if out \<in> set outs then numeric_of s row (req ! out) else vs ! out))"
  using output_slots_encode [OF assms, of mvcc] encode_row_version(2) [OF assms(1) refl, of mvcc] assms(5)
  by (simp add: decode_row_record_fast_numeric_slots_with_def fast_numeric_projector_new_def
      del: slice_get_eq_Some)

section \<open>The columns' slots\<close>

definition slots_of :: "nat list \<Rightarrow> nat option list \<Rightarrow> bool" where
  "slots_of req cs = (\<forall>i slot. column_slot cs i = Some slot \<longrightarrow> slot < length req \<and> req ! slot = i)"

lemma column_slot_update:
  "column_slot (cs[i := Some k]) j = (if j = i \<and> i < length cs then Some k else column_slot cs j)"
  by (auto simp: column_slot_def slice_get_def nth_list_update)

lemma fill_column_slots_inv:
  "req = pre @ idxs \<Longrightarrow> k = length pre \<Longrightarrow> slots_of req cs \<Longrightarrow> slots_of req (fill_column_slots k idxs cs)"
proof (induction idxs arbitrary: pre k cs)
  case (Cons i idxs)
  have "slots_of req (cs[i := Some k])"
    unfolding slots_of_def column_slot_update
  proof (intro allI impI)
    fix j slot assume "(if j = i \<and> i < length cs then Some k else column_slot cs j) = Some slot"
    then show "slot < length req \<and> req ! slot = j"
      using Cons.prems by (cases "j = i \<and> i < length cs") (auto simp: slots_of_def)
  qed
  with Cons.IH [of "pre @ [i]" "Suc k"] Cons.prems show ?case by simp
qed simp

lemma fill_column_slots_some:
  "i < length cs \<Longrightarrow> i \<in> set idxs \<or> column_slot cs i \<noteq> None \<Longrightarrow>
     \<exists>slot. column_slot (fill_column_slots k idxs cs) i = Some slot"
  by (induction idxs arbitrary: k cs) (auto simp: column_slot_update)

lemma built_column_slots:
  assumes "cs = fill_column_slots 0 req (replicate n None)" "\<forall>i \<in> set req. i < n"
  shows "slots_of req cs" and "i \<in> set req \<Longrightarrow> \<exists>slot. column_slot cs i = Some slot"
proof -
  have "slots_of req (replicate n None)" by (auto simp: slots_of_def column_slot_def slice_get_def split: if_splits)
  then show "slots_of req cs" unfolding assms(1) by (intro fill_column_slots_inv [of req "[]"]) simp_all
  show "i \<in> set req \<Longrightarrow> \<exists>slot. column_slot cs i = Some slot"
    unfolding assms(1) using assms(2) by (intro fill_column_slots_some) auto
qed

text \<open>What the plan collects: the slots of the columns used, each of which has one.\<close>

definition covers_columns :: "nat option list \<Rightarrow> nat set \<Rightarrow> nat list \<Rightarrow> bool" where
  "covers_columns cs cols slots = (\<forall>i \<in> cols. \<exists>slot \<in> set slots. column_slot cs i = Some slot)"

definition in_slots :: "nat option list \<Rightarrow> nat list \<Rightarrow> bool" where
  "in_slots cs slots = (\<forall>slot \<in> set slots. \<exists>i. column_slot cs i = Some slot)"

lemma set_insort_insert [simp]: "set (insort_insert (x :: nat) xs) = insert x (set xs)"
  by (simp add: set_insort_insert)

lemma collect_filter_slots:
  "collect_fast_aggregate_filter_slots p cs slots = Some slots' \<Longrightarrow>
     set slots \<subseteq> set slots' \<and> covers_columns cs (predicate_columns p) slots' \<and> (in_slots cs slots \<longrightarrow> in_slots cs slots')"
proof (induction p cs slots arbitrary: slots' rule: collect_fast_aggregate_filter_slots.induct)
qed (fastforce simp: covers_columns_def in_slots_def split: bind_splits)+

lemma collect_aggregate_slot_ok:
  "collect_aggregate_slot cs a slots = Some slots' \<Longrightarrow>
     set slots \<subseteq> set slots' \<and> covers_columns cs (aggregate_columns a) slots' \<and> (in_slots cs slots \<longrightarrow> in_slots cs slots')"
  by (cases a) (auto simp: covers_columns_def in_slots_def split: bind_splits)

lemma collect_slots_ok:
  assumes "\<And>x slots slots'. f x slots = Some slots' \<Longrightarrow>
      set slots \<subseteq> set slots' \<and> covers_columns cs (cols x) slots' \<and> (in_slots cs slots \<longrightarrow> in_slots cs slots')"
    and "collect_slots f xs slots = Some slots'"
  shows "set slots \<subseteq> set slots' \<and> covers_columns cs (\<Union>x \<in> set xs. cols x) slots' \<and>
    (in_slots cs slots \<longrightarrow> in_slots cs slots')"
  using assms(2)
proof (induction xs arbitrary: slots)
  case (Cons x xs)
  then obtain s1 where s1: "f x slots = Some s1" "collect_slots f xs s1 = Some slots'"
    by (auto split: bind_splits)
  have "covers_columns cs (cols x) slots'"
    using assms(1) [OF s1(1)] Cons.IH [OF s1(2)] unfolding covers_columns_def by (meson subsetD)
  then show ?case using assms(1) [OF s1(1)] Cons.IH [OF s1(2)] by (auto simp: covers_columns_def)
qed (simp add: covers_columns_def)

text \<open>The parts of a built plan.\<close>

lemma built_plan:
  assumes "build_fast_numeric_aggregate_plan plan = Some fp"
  defines "s \<equiv> ag_schema plan" and "req \<equiv> required_indices plan"
  shows "projector fp = fast_numeric_projector_new s req" "numeric_plan s req" "slots_of req (column_slots fp)"
    "covers_columns (column_slots fp) (\<Union>p \<in> set (filters plan). predicate_columns p) (filter_slots fp)"
    "covers_columns (column_slots fp) (\<Union>a \<in> set (aggregates plan). aggregate_columns a) (aggregate_slots fp)"
    "in_slots (column_slots fp) (filter_slots fp)" "in_slots (column_slots fp) (aggregate_slots fp)"
    "projection plan = KeyValue"
proof -
  let ?cs = "fill_column_slots 0 req (replicate (length (columns s)) None)"
  have kv: "projection plan \<noteq> KeyOnly" and types: "list_all (\<lambda>idx. case slice_get (columns s) idx of
      Some c \<Rightarrow> fast_numeric_data_type (col_type c) | None \<Rightarrow> False) req"
    using assms(1) by (auto simp: build_fast_numeric_aggregate_plan_def s_def req_def Let_def split: if_splits)
  then obtain fs ags where fs: "collect_slots (\<lambda>p. collect_fast_aggregate_filter_slots p ?cs) (filters plan) [] = Some fs"
    and ags: "collect_slots (collect_aggregate_slot ?cs) (aggregates plan) [] = Some ags"
    and fp: "projector fp = fast_numeric_projector_new s req" "filter_slots fp = fs" "aggregate_slots fp = ags"
      "column_slots fp = ?cs"
    using assms(1) by (auto simp: build_fast_numeric_aggregate_plan_def s_def req_def Let_def split: bind_splits)
  show "projector fp = fast_numeric_projector_new s req" by (rule fp)
  show "projection plan = KeyValue" using kv by (cases "projection plan") auto
  show np: "numeric_plan s req"
    using types by (fastforce simp: numeric_plan_def list_all_iff fast_numeric_data_type_def numeric_column_def
        is_variable_def fixed_width_def slice_get_def split: if_splits option.splits)
  show "slots_of req (column_slots fp)"
    using built_column_slots(1) [OF refl] np by (simp add: fp numeric_plan_def)
  show "covers_columns (column_slots fp) (\<Union>p \<in> set (filters plan). predicate_columns p) (filter_slots fp)"
    "in_slots (column_slots fp) (filter_slots fp)"
    using collect_slots_ok [OF collect_filter_slots fs] by (simp_all add: fp in_slots_def)
  show "covers_columns (column_slots fp) (\<Union>a \<in> set (aggregates plan). aggregate_columns a) (aggregate_slots fp)"
    "in_slots (column_slots fp) (aggregate_slots fp)"
    using collect_slots_ok [OF collect_aggregate_slot_ok ags] by (simp_all add: fp in_slots_def)
qed

section \<open>One record\<close>

text \<open>A buffer that shows a row on some columns.\<close>

definition shows_row :: "table_schema \<Rightarrow> fast_numeric_aggregate_plan \<Rightarrow> row_map \<Rightarrow> nat set \<Rightarrow> fast_numeric_value list \<Rightarrow> bool"
where
  "shows_row s fp row cols values = (\<forall>i \<in> cols. fast_aggregate_column_value fp values i = Some (numeric_of s row i))"

lemma decode_shows_row:
  assumes "record_fits s row" "row_typed s row" "numeric_plan s req" "slots_of req (column_slots fp)"
    and "projector fp = fast_numeric_projector_new s req"
    and "covers_columns (column_slots fp) cols outs" "in_slots (column_slots fp) outs" "length vs = length req"
  shows "\<exists>vs'. decode_row_record_fast_numeric_slots_with (projector fp) (encode_row_record_with_mvcc s row mvcc) vs outs
      = Inr vs' \<and> length vs' = length req \<and> shows_row s fp row cols vs'"
proof -
  have "\<forall>out \<in> set outs. out < length req" using assms(4,7) by (auto simp: slots_of_def in_slots_def)
  from decode_slots_encode [OF assms(1-3) this assms(8), of mvcc] obtain vs' where vs':
    "decode_row_record_fast_numeric_slots_with (projector fp) (encode_row_record_with_mvcc s row mvcc) vs outs = Inr vs'"
    "length vs' = length req"
    "\<forall>out < length req. vs' ! out = (if out \<in> set outs then numeric_of s row (req ! out) else vs ! out)"
    by (auto simp: assms(5))
  have "fast_aggregate_column_value fp vs' i = Some (numeric_of s row i)" if "i \<in> cols" for i
  proof -
    from assms(6) that obtain slot where slot: "slot \<in> set outs" "column_slot (column_slots fp) i = Some slot"
      by (auto simp: covers_columns_def)
    then have "slot < length req" "req ! slot = i" using assms(4) by (auto simp: slots_of_def)
    then show ?thesis using slot vs' by (simp add: fast_aggregate_column_value_def)
  qed
  with vs' show ?thesis by (auto simp: shows_row_def)
qed

text \<open>The reused buffer makes no difference: what a scan computes is a fold over the rows.\<close>

lemma fast_scan_rows:
  assumes fp: "build_fast_numeric_aggregate_plan plan = Some fp"
    and rows: "\<forall>row \<in> set rows. record_fits (ag_schema plan) row \<and> row_typed (ag_schema plan) row"
    and upd: "\<And>row vs acc. row \<in> set rows \<Longrightarrow> length vs = length (required_indices plan) \<Longrightarrow>
        shows_row (ag_schema plan) fp row (\<Union>a \<in> set (aggregates plan). aggregate_columns a) vs \<Longrightarrow> upd vs acc = g row acc"
    and match: "\<And>row vs. row \<in> set rows \<Longrightarrow>
        shows_row (ag_schema plan) fp row (\<Union>p \<in> set (filters plan). predicate_columns p) vs \<Longrightarrow>
        list_all (\<lambda>p. fast_aggregate_predicate_matches p fp vs) (filters plan) = m row"
    and "length vs = length (required_indices plan)"
  shows "\<exists>vs'. fast_scan (fast_record_step plan fp (aggregate_slots fp) upd)
      (map (row_entry (ag_schema plan) mvcc) rows) (vs, acc) = Inr (vs', fold g (filter m rows) acc)"
  using rows upd match assms(5)
proof (induction rows arbitrary: vs acc)
  case (Cons row rows)
  note b = built_plan [OF fp]
  let ?s = "ag_schema plan" and ?bs = "encode_row_record_with_mvcc (ag_schema plan) row mvcc"
  have row: "record_fits ?s row" "row_typed ?s row" using Cons.prems(1) by simp_all
  obtain vs1 where vs1: "decode_row_record_fast_numeric_slots_with (projector fp) ?bs vs (filter_slots fp) = Inr vs1"
    "length vs1 = length (required_indices plan)" "shows_row ?s fp row (\<Union>p \<in> set (filters plan). predicate_columns p) vs1"
    using decode_shows_row [OF row b(2,3,1,4,6) Cons.prems(4), of mvcc] by blast
  obtain vs2 where vs2: "decode_row_record_fast_numeric_slots_with (projector fp) ?bs vs1 (aggregate_slots fp) = Inr vs2"
    "length vs2 = length (required_indices plan)" "shows_row ?s fp row (\<Union>a \<in> set (aggregates plan). aggregate_columns a) vs2"
    using decode_shows_row [OF row b(2,3,1,5,7) vs1(2), of mvcc] by blast
  have m: "list_all (\<lambda>p. fast_aggregate_predicate_matches p fp vs1) (filters plan) = m row"
    using Cons.prems(3) vs1(3) by simp
  have u: "upd vs2 acc = g row acc" using Cons.prems(2) vs2 by simp
  have IH: "length vs = length (required_indices plan) \<Longrightarrow>
      \<exists>vs'. fast_scan (fast_record_step plan fp (aggregate_slots fp) upd)
      (map (row_entry (ag_schema plan) mvcc) rows) (vs, acc) = Inr (vs', fold g (filter m rows) acc)" for vs acc
    using Cons.prems by (intro Cons.IH) auto
  have step: "fast_record_step plan fp (aggregate_slots fp) upd (snd (row_entry ?s mvcc row)) (vs, acc) =
      Inr (if m row then (vs2, g row acc) else (vs1, acc))"
    by (simp add: row_entry_def fast_record_step_def vs1(1) vs2(1) m u)
  show ?case
    using IH [OF vs1(2), of acc] IH [OF vs2(2), of "g row acc"]
    by (simp add: step)
qed simp

section \<open>Integer columns\<close>

definition int_type :: "data_type \<Rightarrow> bool" where
  "int_type dt = (dt \<in> {TInt16, TInt32, TInt64})"

abbreviation number :: "column_value \<Rightarrow> fast_numeric_value" where
  "number v \<equiv> the (column_value_to_fast_numeric v)"

lemma sint_scast_up [simp]:
  "sint (scast (x :: i16) :: i64) = sint x" "sint (scast (y :: i32) :: i64) = sint y"
  by (simp_all add: is_up sint_up_scast)

lemma ucast_scast_down [simp]:
  "(ucast (scast (x :: i16) :: i64) :: i16) = x" "(ucast (scast (y :: i32) :: i64) :: i32) = y"
  by (transfer; simp add: signed_take_bit_take_bit take_bit_signed_take_bit min_def)+

lemma sint_eq_iff: "sint x = sint y \<longleftrightarrow> x = (y :: 'a::len word)"
  by (metis signed_word_eqI)

text \<open>A value of an integer column is NULL or a number, and determined by its number.\<close>

definition as_number :: "data_type \<Rightarrow> column_value \<Rightarrow> i64 \<Rightarrow> bool" where
  "as_number dt v x = (v \<noteq> VNull \<and> number v = FI64 x \<and> fast_numeric_to_column_value dt (FI64 x) = v)"

lemma int_cases:
  assumes "int_type dt" "has_type dt v"
  obtains (null) "v = VNull" | (int) x where "as_number dt v x"
proof -
  have "v = VNull \<or> (\<exists>x. as_number dt v x)"
    using assms by (auto simp: int_type_def has_type_def disc_defs as_number_def
        column_value_to_fast_numeric_def fast_numeric_to_column_value_def)
  with that show thesis by blast
qed

lemma as_number_cmp:
  assumes "int_type dt" "has_type dt v" "has_type dt w" "as_number dt v x" "as_number dt w y"
  shows "partial_cmp v w = int_cmp (sint x) (sint y)" "value_eq v w \<longleftrightarrow> sint x = sint y"
  using assms
  by (auto simp: int_type_def has_type_def disc_defs as_number_def column_value_to_fast_numeric_def
      partial_cmp_def sint_eq_iff)

lemma number_null [simp]: "number VNull = FNull"
  by (simp add: column_value_to_fast_numeric_def)

lemma number_eq_null: "int_type dt \<Longrightarrow> has_type dt v \<Longrightarrow> number v = FNull \<longleftrightarrow> v = VNull"
  by (erule (1) int_cases) (auto simp: as_number_def)

lemma compare_int:
  assumes "int_type dt" "has_type dt v" "has_type dt w"
  shows "compare_fast_numeric_values (number v) op (number w) = compare_values v op w"
  using assms(1,2)
proof (cases rule: int_cases)
  case null
  then show ?thesis
    by (simp add: compare_fast_numeric_values_def fast_numeric_cmp_def fast_numeric_as_f64_def compare_values_def is_null_def
        split: fast_numeric_value.splits)
next
  case (int x)
  note v = int
  show ?thesis using assms(1,3)
  proof (cases rule: int_cases)
    case null
    then show ?thesis using v
      by (simp add: as_number_def compare_fast_numeric_values_def fast_numeric_cmp_def fast_numeric_as_f64_def compare_values_def is_null_def)
  next
    case (int y)
    then show ?thesis
      using v as_number_cmp [OF assms v int]
      by (cases op) (auto simp: as_number_def compare_fast_numeric_values_def fast_numeric_cmp_def
          compare_values_def is_null_def int_cmp_def cmp_def)
  qed
qed

fun predicate_typed :: "table_schema \<Rightarrow> kv_predicate \<Rightarrow> bool" where
  "predicate_typed s (ColumnCompare i op v) = has_type (col_type (columns s ! i)) v"
| "predicate_typed s (PAnd ps) = list_all (predicate_typed s) ps"
| "predicate_typed s (POr ps) = list_all (predicate_typed s) ps"
| "predicate_typed s (PNot p) = predicate_typed s p"
| "predicate_typed s (PIsNull i) = True"
| "predicate_typed s (PIsNotNull i) = True"
| "predicate_typed s (PBetween i low high neg) =
     (has_type (col_type (columns s ! i)) low \<and> has_type (col_type (columns s ! i)) high)"

definition int_columns :: "table_schema \<Rightarrow> nat set \<Rightarrow> bool" where
  "int_columns s cols = (\<forall>i \<in> cols. i < length (columns s) \<and> int_type (col_type (columns s ! i)))"

lemma value_at_row: "i < length (columns s) \<Longrightarrow> value_at s row i = row_value row (columns s ! i)"
  by (simp add: value_at_def slice_get_def row_value_def)

lemma value_at_typed:
  "row_typed s row \<Longrightarrow> i < length (columns s) \<Longrightarrow> has_type (col_type (columns s ! i)) (value_at s row i)"
  by (simp add: row_typed_def value_at_row)

lemma int_cell:
  assumes "row_typed s row" "int_columns s cols" "i \<in> cols" "shows_row s fp row cols vs"
  shows "int_type (col_type (columns s ! i))" "has_type (col_type (columns s ! i)) (value_at s row i)"
    "fast_aggregate_column_value fp vs i = Some (number (value_at s row i))"
  using assms by (auto simp: int_columns_def row_typed_def value_at_row shows_row_def)

lemma literal_number: "int_type dt \<Longrightarrow> has_type dt v \<Longrightarrow> \<exists>x. column_value_to_fast_numeric v = Some x"
  by (auto simp: int_type_def has_type_def disc_defs column_value_to_fast_numeric_def)

lemma fast_predicate_int:
  assumes "row_typed s row" "int_columns s cols" "shows_row s fp row cols vs"
    and "predicate_columns p \<subseteq> cols" "predicate_typed s p"
  shows "fast_aggregate_predicate_matches p fp vs = kv_predicate_matches s row p"
  using assms(4,5)
proof (induction p)
  case (ColumnCompare i op v)
  then have i: "i \<in> cols" "has_type (col_type (columns s ! i)) v" by simp_all
  note c = int_cell [OF assms(1,2) i(1) assms(3)]
  obtain x where x: "column_value_to_fast_numeric v = Some x" using literal_number [OF c(1) i(2)] by blast
  show ?case using compare_int [OF c(1,2) i(2), of op] by (simp add: c(3) x)
next
  case (PBetween i low high neg)
  then have i: "i \<in> cols" "has_type (col_type (columns s ! i)) low" "has_type (col_type (columns s ! i)) high"
    by simp_all
  note c = int_cell [OF assms(1,2) i(1) assms(3)]
  obtain x y where x: "column_value_to_fast_numeric low = Some x" "column_value_to_fast_numeric high = Some y"
    using literal_number [OF c(1) i(2)] literal_number [OF c(1) i(3)] by blast
  show ?case using compare_int [OF c(1,2) i(2), of CGtEq] compare_int [OF c(1,2) i(3), of CLtEq]
    by (simp add: c(3) x Let_def)
next
  case (PIsNull i)
  then show ?case using int_cell [OF assms(1,2) _ assms(3), of i] by (simp add: number_eq_null is_null_def)
next
  case (PIsNotNull i)
  then show ?case using int_cell [OF assms(1,2) _ assms(3), of i] by (simp add: number_eq_null is_null_def)
qed (auto simp: list_all_iff list_ex_iff UN_subset_iff)

section \<open>States\<close>

text \<open>The aggregates on which the two agree; SUM as long as there is something to add up.\<close>

fun agreeing :: "table_schema \<Rightarrow> kv_aggregate_op \<Rightarrow> bool" where
  "agreeing s CountStar = True"
| "agreeing s (CountColumn i) = (i < length (columns s) \<and> int_type (col_type (columns s ! i)))"
| "agreeing s (MaxColumn i) = (i < length (columns s) \<and> int_type (col_type (columns s ! i)))"
| "agreeing s (MinColumn i) = (i < length (columns s) \<and> int_type (col_type (columns s ! i)))"
| "agreeing s (AvgColumn i) = (i < length (columns s) \<and> col_type (columns s ! i) \<in> {TInt32, TInt64})"
| "agreeing s (SumColumn i) = (i < length (columns s) \<and> col_type (columns s ! i) = TInt64)"

fun simulates :: "table_schema \<Rightarrow> kv_aggregate_op \<Rightarrow> kv_aggregate_state \<Rightarrow> fast_aggregate_state \<Rightarrow> bool" where
  "simulates s CountStar st f = (\<exists>n. st = StCount n \<and> f = FCount n)"
| "simulates s (CountColumn i) st f = (\<exists>n. st = StCount n \<and> f = FCount n)"
| "simulates s (MaxColumn i) st f =
     (\<exists>v. st = StValue v \<and> f = FMax (number v) \<and> has_type (col_type (columns s ! i)) v)"
| "simulates s (MinColumn i) st f =
     (\<exists>v. st = StValue v \<and> f = FMin (number v) \<and> has_type (col_type (columns s ! i)) v)"
| "simulates s (AvgColumn i) st f = (\<exists>a n. st = StAvg a n \<and> f = FAvg a n)"
| "simulates s (SumColumn i) st f =
     (\<exists>a. f = FSumI64 a \<and> (st = StValue (VInt64 a) \<or> st = StValue VNull \<and> a = 0))"

lemma simulates_init:
  "agreeing s op \<Longrightarrow> ag_schema plan = s \<Longrightarrow>
     \<exists>f. fast_aggregate_initial_state plan op = Some f \<and> simulates s op (kv_aggregate_initial_state op) f"
  by (cases op) (auto simp: slice_get_def)

lemma fast_cmp_int:
  assumes "int_type dt" "has_type dt v" "has_type dt w" "v \<noteq> VNull" "w \<noteq> VNull"
  shows "fast_numeric_cmp (number v) (number w) = partial_cmp v w"
proof -
  obtain x y where "as_number dt v x" "as_number dt w y"
    using assms by (metis int_cases)
  with as_number_cmp(1) [OF assms(1-3) this] show ?thesis by (simp add: as_number_def fast_numeric_cmp_def)
qed

lemma avg_number:
  assumes "dt \<in> {TInt32, TInt64}" "has_type dt v"
  shows "fast_numeric_as_f64 (number v) = numeric_as_f64 v"
  using assms by (auto simp: has_type_def disc_defs numeric_as_f64_def fast_numeric_as_f64_def column_value_to_fast_numeric_def)

lemma simulates_step:
  assumes "agreeing s op" "simulates s op st f"
    and "\<And>i. i \<in> aggregate_columns op \<Longrightarrow> has_type (col_type (columns s ! i)) (look i) \<and> flook i = Some (number (look i))"
  shows "simulates s op (apply_one look op st) (apply_fast_one flook op f)"
proof (cases op)
  case (CountColumn i)
  then have "int_type (col_type (columns s ! i))" "has_type (col_type (columns s ! i)) (look i)"
    "flook i = Some (number (look i))" using assms by simp_all
  then show ?thesis using assms(2) CountColumn
    by (auto simp: number_eq_null is_null_def count_one_def fast_count_one_def)
next
  case (MaxColumn i)
  then have i: "int_type (col_type (columns s ! i))" "has_type (col_type (columns s ! i)) (look i)"
    "flook i = Some (number (look i))" using assms by simp_all
  then show ?thesis using assms(2) MaxColumn number_eq_null [OF i(1)] fast_cmp_int [OF i(1)]
    by (auto simp: is_null_def keep_better_def)
next
  case (MinColumn i)
  then have i: "int_type (col_type (columns s ! i))" "has_type (col_type (columns s ! i)) (look i)"
    "flook i = Some (number (look i))" using assms by simp_all
  then show ?thesis using assms(2) MinColumn number_eq_null [OF i(1)] fast_cmp_int [OF i(1)]
    by (auto simp: is_null_def keep_better_def)
next
  case (AvgColumn i)
  then have "col_type (columns s ! i) \<in> {TInt32, TInt64}" "has_type (col_type (columns s ! i)) (look i)"
    "flook i = Some (number (look i))" using assms by simp_all
  with avg_number [OF this(1,2)] show ?thesis using assms(2) AvgColumn
    by (auto simp: add_avg_def split: option.splits)
next
  case (SumColumn i)
  then have i: "col_type (columns s ! i) = TInt64" "has_type (col_type (columns s ! i)) (look i)"
    "flook i = Some (number (look i))" using assms by simp_all
  then consider "look i = VNull" | x where "look i = VInt64 x" by (auto simp: has_type_def disc_defs)
  then show ?thesis
    using assms(2) SumColumn i
    by cases (auto simp: is_null_def add_sum_def sum_values_def column_value_to_fast_numeric_def add.commute)
qed (use assms in \<open>auto simp: count_one_def fast_count_one_def\<close>)

text \<open>The sum is no longer NULL once a value was added.\<close>

lemma sum_not_null:
  assumes "agreeing s (SumColumn i)" "\<forall>row \<in> set rows. has_type (col_type (columns s ! i)) (look row i)"
    and "simulates s (SumColumn i) st f" "st \<noteq> StValue VNull \<or> (\<exists>row \<in> set rows. look row i \<noteq> VNull)"
  shows "fold (\<lambda>row. apply_one (look row) (SumColumn i)) rows st \<noteq> StValue VNull"
  using assms(2-4)
proof (induction rows arbitrary: st f)
  case (Cons row rows)
  have ty: "has_type TInt64 (look row i)" using assms(1) Cons.prems(1) by simp
  let ?st = "apply_one (look row) (SumColumn i) st"
  have sim: "simulates s (SumColumn i) ?st (apply_fast_one (\<lambda>j. Some (number (look row j))) (SumColumn i) f)"
    using Cons.prems by (intro simulates_step [OF assms(1)]) auto
  have "?st \<noteq> StValue VNull" if "st \<noteq> StValue VNull \<or> look row i \<noteq> VNull"
    using that ty Cons.prems(2)
    by (auto simp: has_type_def disc_defs is_null_def add_sum_def sum_values_def)
  then have "?st \<noteq> StValue VNull \<or> (\<exists>row \<in> set rows. look row i \<noteq> VNull)" using Cons.prems(3) by auto
  then show ?case using Cons.IH [OF _ sim] Cons.prems(1) by simp
qed simp

lemma simulates_finish:
  assumes "agreeing s op" "simulates s op st f" "ag_schema plan = s" "\<And>i. op = SumColumn i \<Longrightarrow> st \<noteq> StValue VNull"
  shows "finish_fast_one plan f op = kv_finish_aggregate_state st"
proof -
  have "fast_numeric_to_column_value dt (number v) = v" if "int_type dt" "has_type dt v" for dt v
    using that by (cases rule: int_cases) (auto simp: as_number_def fast_numeric_to_column_value_def)
  then show ?thesis using assms
    by (cases op) (auto simp: finish_fast_one_def finish_fast_extreme_def slice_get_def)
qed

lemma apply_fast_all_cong:
  assumes "\<forall>i \<in> (\<Union>a \<in> set ops. aggregate_columns a). look i = look' i"
  shows "apply_fast_all look ops sts = apply_fast_all look' ops sts"
  using assms
proof (induction look ops sts rule: apply_fast_all.induct)
  case (1 look op ops st sts)
  then show ?case by (cases op) auto
qed simp_all

lemma fold_apply_fast_all:
  "fold (\<lambda>row. apply_fast_all (look row) ops) rows (map st ops) =
     map (\<lambda>op. fold (\<lambda>row. apply_fast_one (look row) op) rows (st op)) ops"
proof (induction rows arbitrary: st)
  case (Cons r rows)
  have "apply_fast_all (look r) ops (map st ops) = map (\<lambda>op. apply_fast_one (look r) op (st op)) ops"
    by (induction ops) auto
  then show ?case using Cons [of "\<lambda>op. apply_fast_one (look r) op (st op)"] by simp
qed simp

lemma those_map_Some: "\<forall>x \<in> set xs. f x \<noteq> None \<Longrightarrow> those (map f xs) = Some (map (\<lambda>x. the (f x)) xs)"
  by (induction xs) auto

definition row_look :: "table_schema \<Rightarrow> row_map \<Rightarrow> nat \<Rightarrow> fast_numeric_value option" where
  "row_look s row i = Some (number (value_at s row i))"

lemma fold_simulates:
  assumes "agreeing s op" "\<forall>row \<in> set rows. row_typed s row" "simulates s op st f"
  shows "simulates s op (fold (\<lambda>row. apply_one (value_at s row) op) rows st)
    (fold (\<lambda>row. apply_fast_one (row_look s row) op) rows f)"
  using assms(2,3)
proof (induction rows arbitrary: st f)
  case (Cons row rows)
  have "has_type (col_type (columns s ! i)) (value_at s row i)" if "i \<in> aggregate_columns op" for i
  proof (rule value_at_typed)
    show "i < length (columns s)" using that assms(1) by (cases op) auto
  qed (use Cons.prems(1) in simp)
  then have "simulates s op (apply_one (value_at s row) op st) (apply_fast_one (row_look s row) op f)"
    using Cons.prems by (intro simulates_step [OF assms(1)]) (auto simp: row_look_def)
  then show ?case using Cons by simp
qed simp

lemma ungrouped_fast_numeric_scan:
  assumes fp: "build_fast_numeric_aggregate_plan plan = Some fp" and s: "ag_schema plan = s"
    and rows: "\<forall>row \<in> set rows. row_writable s row"
    and ints: "int_columns s (\<Union>p \<in> set (filters plan). predicate_columns p)"
    and typed: "list_all (predicate_typed s) (filters plan)" and ops: "list_all (agreeing s) (aggregates plan)"
    and sums: "\<And>i. SumColumn i \<in> set (aggregates plan) \<Longrightarrow>
      \<exists>row \<in> set rows. kv_row_matches s row (filters plan) \<and> value_at s row i \<noteq> VNull"
  shows "reduce_ungrouped_fast_numeric_scan (map (row_entry s mvcc) rows, None) plan fp =
    Inr [map (aggregate_of (map (value_at s) (matching_rows plan (map Some rows)))) (aggregates plan)]"
proof -
  let ?agg = "aggregates plan" and ?init = "\<lambda>op. the (fast_aggregate_initial_state plan op)"
  let ?g = "\<lambda>row. apply_fast_all (row_look s row) ?agg" and ?m = "\<lambda>row. kv_row_matches s row (filters plan)"
  have ok: "\<forall>row \<in> set rows. record_fits s row \<and> row_typed s row" using rows by (simp add: row_writable_def)
  have sim: "fast_aggregate_initial_state plan op \<noteq> None \<and> simulates s op (kv_aggregate_initial_state op) (?init op)"
    if "op \<in> set ?agg" for op
    using simulates_init [of s op plan] ops that s by (auto simp: list_all_iff)
  have agg_int: "i < length (columns s)" if "i \<in> (\<Union>a \<in> set ?agg. aggregate_columns a)" for i
  proof -
    from that obtain a where "a \<in> set ?agg" "i \<in> aggregate_columns a" by blast
    with ops show ?thesis by (cases a) (auto simp: list_all_iff)
  qed
  have upd: "apply_fast_aggregates plan fp vs acc = ?g row acc"
    if "shows_row s fp row (\<Union>a \<in> set ?agg. aggregate_columns a) vs" for row vs acc
    unfolding apply_fast_aggregates_def
    using that agg_int by (intro apply_fast_all_cong) (simp add: shows_row_def row_look_def value_at_row)
  have match: "list_all (\<lambda>p. fast_aggregate_predicate_matches p fp vs) (filters plan) = ?m row"
    if "row \<in> set rows" "shows_row s fp row (\<Union>p \<in> set (filters plan). predicate_columns p) vs" for row vs
    unfolding kv_row_matches_def list_all_iff
    using fast_predicate_int [OF _ ints that(2)] ok that(1) typed by (intro ball_cong) (auto simp: list_all_iff)
  have "\<exists>vs'. fast_scan (fast_record_step plan fp (aggregate_slots fp) (apply_fast_aggregates plan fp))
      (map (row_entry s mvcc) rows) (replicate (fnp_output_len (projector fp)) FNull, map ?init ?agg) =
      Inr (vs', fold ?g (filter ?m rows) (map ?init ?agg))"
    using fast_scan_rows [OF fp, of rows "apply_fast_aggregates plan fp" ?g ?m] ok upd match built_plan(1) [OF fp]
    by (simp add: s fast_numeric_projector_new_def)
  moreover have "finish_fast_one plan (fold (\<lambda>row. apply_fast_one (row_look s row) op) (filter ?m rows) (?init op)) op =
      aggregate_of (map (value_at s) (filter ?m rows)) op" if "op \<in> set ?agg" for op
  proof -
    have op: "agreeing s op" using ops that by (simp add: list_all_iff)
    have "fold (\<lambda>row. apply_one (value_at s row) op) (filter ?m rows) (kv_aggregate_initial_state op) \<noteq> StValue VNull"
      if "op = SumColumn i" for i
      unfolding that
    proof (rule sum_not_null)
      show ag: "agreeing s (SumColumn i)" using op that by simp
      have "i < length (columns s)" using ag by simp
      then show "\<forall>row \<in> set (filter ?m rows). has_type (col_type (columns s ! i)) (value_at s row i)"
        using ok by (auto intro: value_at_typed)
      show "simulates s (SumColumn i) (kv_aggregate_initial_state (SumColumn i)) (?init (SumColumn i))"
        using sim \<open>op \<in> set ?agg\<close> that by blast
    qed (use sums \<open>op \<in> set ?agg\<close> that in auto)
    then show ?thesis
      using fold_simulates [of s op "filter ?m rows" "kv_aggregate_initial_state op" "?init op"] sim [OF that] ok op
      by (simp add: aggregate_of_def fold_map comp_def simulates_finish [OF _ _ s])
  qed
  moreover have "initial_fast_aggregate_states plan = Some (map ?init ?agg)"
    unfolding initial_fast_aggregate_states_def using sim by (intro those_map_Some) blast
  ultimately show ?thesis
    by (auto simp: reduce_ungrouped_fast_numeric_scan_def fast_scan_ref_def fold_apply_fast_all s
        finish_fast_aggregates_def matching_rows_def List.map_filter_def comp_def zip_map1 zip_same_conv_map)
qed

text \<open>The general scan of the same records.\<close>

lemma ungrouped_projected_rows:
  assumes "\<forall>row \<in> set rows. row_writable s row" "distinct (column_names s)" "ag_schema plan = s" "plan_covers plan"
  shows "reduce_ungrouped_projected_scan (map (row_entry s mvcc) rows, None) plan =
    Inr [map (aggregate_of (map (value_at s) (matching_rows plan (map Some rows)))) (aggregates plan)]"
proof -
  have "list_all2 (\<lambda>e r. projected_values_for_aggregate_record (ag_schema plan) (fst e) (snd e) plan = Inr r)
      (map (row_entry s mvcc) rows) (map (projection_of plan) rows)"
    using assms row_entry_reads [OF _ assms(2,3), of _ mvcc]
    by (fastforce simp: list_all2_map1 list_all2_map2 list_all2_same reads_as_def plan_covers_def)
  from ungrouped_projected_scan [OF this] show ?thesis
    unfolding covers_rows(1) [OF assms(4)]
    by (simp add: comp_def covers_rows(3) [OF assms(4)] assms(3))
qed

section \<open>Where the fast path differs\<close>

lemma fast_sum_of_nothing:
  assumes "aggregates plan = [SumColumn i]" "i < length (columns (ag_schema plan))"
    and "col_type (columns (ag_schema plan) ! i) = TInt64"
  shows "reduce_ungrouped_fast_numeric_scan ([], None) plan fp = Inr [[VInt64 0]]"
    and "reduce_ungrouped_projected_scan ([], None) plan = Inr [[VNull]]"
  using assms
  by (simp_all add: reduce_ungrouped_fast_numeric_scan_def initial_fast_aggregate_states_def fast_scan_ref_def
      finish_fast_aggregates_def finish_fast_one_def slice_get_def ok_or_def
      reduce_ungrouped_projected_scan_def scan_ref_def)

section \<open>Groups in a hash map\<close>

interpretation hash_groups: group_table "\<lambda>m. distinct (map fst m)" map_of "[]" key gv init upd
    "hash_group_step key gv init upd" for key gv init upd
  by unfold_locales
    (simp_all add: hash_group_step_def Let_def update_conv' distinct_update del: map_of_eq_Some_iff
      split: prod.splits option.splits)

text \<open>So a hash map of groups holds every group of the rows once, each with the fold over its rows,
  whatever the order of iteration.\<close>

lemma hash_groups_exact:
  "map_of (fold (hash_group_step key gv init upd) rows []) k =
     (if k \<in> key ` set rows
      then Some (gv (hd (group_rows key rows k)), fold upd (group_rows key rows k) init) else None)"
  using hash_groups.groups_dom [of key gv init upd rows k]
  by (auto simp: hash_groups.groups_get group_rows_def filter_empty_conv split: list.splits)

text \<open>The keys of the hash map keep groups apart.\<close>

lemma composite_part_prefix_free:
  "composite_part v @ r = composite_part w @ r' \<Longrightarrow> v = w \<and> r = r'"
  by (cases v; cases w) auto

lemma fast_numeric_group_key_inj:
  "fast_numeric_group_key vs slots = fast_numeric_group_key ws slots \<longleftrightarrow>
     fast_numeric_group_values vs slots = fast_numeric_group_values ws slots"
proof -
  have single: "single_key v = single_key w \<longleftrightarrow> v = w" for v w by (cases v; cases w) auto
  have parts: "concat (map (\<lambda>slot. composite_part (slot_value vs slot)) slots) =
      concat (map (\<lambda>slot. composite_part (slot_value ws slot)) slots) \<longleftrightarrow>
    map (slot_value vs) slots = map (slot_value ws) slots"
    by (induction slots) (auto dest: composite_part_prefix_free)
  show ?thesis
  proof (cases "length slots = 1")
    case True
    then obtain slot where "slots = [slot]" by (auto simp: length_Suc_conv)
    then show ?thesis by (simp add: fast_numeric_group_key_def fast_numeric_group_values_def single)
  next
    case False
    then have "fast_numeric_group_key xs slots =
        Composite (concat (map (\<lambda>slot. composite_part (slot_value xs slot)) slots))" for xs
      by (auto simp: fast_numeric_group_key_def split: list.splits)
    then show ?thesis using parts by (simp add: fast_numeric_group_values_def)
  qed
qed

section \<open>Counting keys\<close>

text \<open>A count of a key-only scan is the number of the engine's records.\<close>

lemma key_only_count:
  assumes "\<not> key_only_plan_needs_primary_key_values plan"
  shows "reduce_ungrouped_key_only_scan (recs, None) plan =
    Inr [map (\<lambda>_. VInt64 (word_of_nat (length recs))) (aggregates plan)]"
proof -
  have "kv_finish_aggregate_state (add_count n (kv_aggregate_initial_state a)) = VInt64 n"
    if "a \<in> set (aggregates plan)" for a n
    using assms that
    by (cases a) (auto simp: key_only_plan_needs_primary_key_values_def list_ex_iff add_count_def)
  then show ?thesis using assms by (simp add: reduce_ungrouped_key_only_scan_def cursor_count_def)
qed

end
