(* ===== verification/Examples.thy ===== *)
theory Examples
  imports Row_Project Kv_Store Mysql_Locks Text_Roundtrip Numeric_Agreement
begin

text \<open>
  Concrete tables, rows and sessions at which the properties are instantiated: a table with
  an integer key, a float and a text column, the same table with a column added later, one
  row, one record in the version-2 format, and two sessions asking for locks.
\<close>

definition ex_column :: "u32 \<Rightarrow> string \<Rightarrow> data_type \<Rightarrow> bool \<Rightarrow> column_schema" where
  "ex_column cid name ty pk =
     \<lparr>column_id = cid, col_name = name, col_type = ty, col_primary_key = pk, col_nullable = \<not> pk,
      col_default = None, col_on_update = None, col_character_set = None, col_collation = None\<rparr>"

definition ex_added :: column_schema where
  "ex_added = ex_column 4 ''note'' TText False"

definition ex_schema :: table_schema where
  "ex_schema =
     \<lparr>table_name = ''t'', table_id = 5, schema_version = 1, table_epoch = 1,
      primary_key = ''id'', check_constraints = [], unique_constraints = [], foreign_keys = [],
      columns = [ex_column 1 ''id'' TInt64 True, ex_column 2 ''score'' TFloat64 False,
                 ex_column 3 ''name'' TText False]\<rparr>"

definition ex_schema_added :: table_schema where
  "ex_schema_added = ex_schema\<lparr>columns := columns ex_schema @ [ex_added]\<rparr>"

definition ex_row :: row_map where
  "ex_row = [''id'' \<mapsto> VInt64 7, ''name'' \<mapsto> VText ''ab'']"

text \<open>A version-2 record of the same row, with a column the schema does not know.\<close>

definition ex_entries :: "(u32 \<times> column_value) list" where
  "ex_entries = [(1, VInt64 7), (9, VInt32 5)]"

definition legacy_entry :: "u32 \<times> column_value \<Rightarrow> bytes" where
  "legacy_entry e = to_be_bytes (fst e) @ encode_tuple_value (snd e)"

definition ex_record :: bytes where
  "ex_record =
     [2] @ to_be_bytes (1 :: u32) @ to_be_bytes (1 :: u64) @ to_be_bytes (1 :: u64)
       @ to_be_bytes (0 :: u64) @ to_be_bytes (2 :: u32) @ concat (map legacy_entry ex_entries)"

definition ex_raw :: row_record where
  "ex_raw =
     \<lparr>rec_schema_version = 1, rec_table_epoch = 1, rec_mvcc = \<lparr>xmin = 1, xmax = 0\<rparr>,
      rec_values = ex_entries\<rparr>"

lemmas ex_defs =
  ex_schema_def ex_schema_added_def ex_column_def ex_added_def ex_row_def

lemma ascii_str_ok: "(\<forall>c \<in> set s. of_char c < (128 :: nat)) \<Longrightarrow> length s < 2 ^ 32 \<Longrightarrow> str_ok s"
proof -
  assume *: "\<forall>c \<in> set s. of_char c < (128 :: nat)" "length s < 2 ^ 32"
  have "\<forall>b \<in> set (as_bytes s). b < 0x80"
    using *(1) by (auto simp: as_bytes_def word_less_nat_alt unat_of_char)
  then show "str_ok s" using *(2) by (simp add: str_ok_def valid_string_def utf8_valid_def ascii_utf8_valid)
qed

lemma ex_values:
  "map (row_value ex_row) (columns ex_schema) = [VInt64 7, VNull, VText ''ab'']"
  by (simp add: ex_defs row_value_def)

lemma ex_columns_kind:
  "map is_variable (columns ex_schema) = [False, False, True]"
  "map width_of (columns ex_schema) = [8, 8, 0]"
  by (simp_all add: ex_defs is_variable_def width_of_def fixed_width_def)

lemma ex_typed: "row_typed ex_schema ex_row"
  by (simp add: row_typed_def ex_defs row_value_def has_type_def ascii_str_ok)

lemma ex_fits: "record_fits ex_schema ex_row"
  by (simp add: record_fits_def payload_sec_def var_bytes_def fixed_region_len_sum div_ceil_def
      is_variable_def width_of_def fixed_width_def ex_defs row_value_def is_null_def)

lemma ex_names: "distinct (column_names ex_schema)" "distinct (column_names ex_schema_added)"
  "columns ex_schema_added = columns ex_schema @ [ex_added]"
  by (simp_all add: column_names_def ex_defs)

text \<open>The entries of a version-2 record are read in order into the map.\<close>

lemma legacy_row_values_entries:
  assumes "\<forall>e \<in> set es. value_ok (snd e)" "cursor_ok c" "rest c = concat (map legacy_entry es) @ ys"
  shows "legacy_row_values (length es) c m =
    Inr (fold (\<lambda>(k, v). bt_insert k v) es m, advance (length (concat (map legacy_entry es))) c)"
  using assms
proof (induction es arbitrary: c m)
  case (Cons e es)
  obtain cid v where e: "e = (cid, v)" by (cases e)
  let ?n = "length (encode_tuple_value v)"
  have r: "rest c = to_be_bytes cid @ encode_tuple_value v @ concat (map legacy_entry es) @ ys"
    using Cons.prems(3) by (simp add: e legacy_entry_def [of "(cid, v)"])
  have r1: "rest (advance 4 c) = encode_tuple_value v @ concat (map legacy_entry es) @ ys"
    using rest_advance [OF r] by simp
  have ok1: "cursor_ok (advance 4 c)" using Cons.prems(2) r by (simp add: cursor_ok_advance)
  have dec: "decode_tuple_value (advance 4 c) = Inr (v, advance (4 + ?n) c)"
    using tuple.dec_enc [OF _ ok1 r1] Cons.prems(1) by (simp add: e)
  have "rest (advance (4 + ?n) c) = concat (map legacy_entry es) @ ys"
    using rest_advance [OF r1] by simp
  moreover have "cursor_ok (advance (4 + ?n) c)"
    using Cons.prems(2) r by (simp add: cursor_ok_advance)
  ultimately show ?case
    using Cons.IH [of "advance (4 + ?n) c" "bt_insert cid v m"] Cons.prems(1) r dec
    by (simp add: e legacy_entry_def [of "(cid, v)"])
qed simp

lemma ex_record_raw: "decode_row_record_raw ex_record = Inr ex_raw"
proof -
  let ?c = "cursor_new ex_record"
  have hdr: "read_row_header (advance 1 ?c) =
      Inr (\<lparr>hdr_schema_version = 1, hdr_table_epoch = 1, hdr_mvcc = \<lparr>xmin = 1, xmax = 0\<rparr>,
            hdr_count = 2\<rparr>, advance 33 ?c)"
    using read_row_header_rest [of "advance 1 ?c" 1 1 1 0 2] by (simp add: rest_cursor_new_advance ex_record_def)
  have len: "length ex_record = 55" by (simp add: ex_record_def ex_entries_def legacy_entry_def)
  have "legacy_row_values (length ex_entries) (advance 33 ?c) [] =
      Inr (ex_entries, advance 55 ?c)"
    by (subst legacy_row_values_entries [where ys = "[]"])
       (simp_all add: rest_cursor_new_advance cursor_ok_new_advance len,
        simp_all add: ex_record_def ex_entries_def legacy_entry_def)
  moreover have "length ex_entries = 2" by (simp add: ex_entries_def)
  moreover have "cursor_u8 ?c = Inr (2, advance 1 ?c)"
    by (rule cursor_u8_rest) (simp add: ex_record_def)
  ultimately show ?thesis
    using hdr len
    by (simp add: decode_row_record_raw_def VERSION_def FAST_ROW_VERSION_def is_done_advance
        record_of_def ex_raw_def)
qed

text \<open>A text environment without floats and JSON documents.\<close>

definition ex_env :: text_env where
  "ex_env =
     \<lparr>show_f32 = (\<lambda>_. ''NaN''), show_f64 = (\<lambda>_. ''NaN''), read_f32 = (\<lambda>_. None), read_f64 = (\<lambda>_. None),
      json_error = (\<lambda>_. Some ''not a document''), debug_value = (\<lambda>_. ''?'')\<rparr>"

text \<open>Aggregate plans over the whole table.\<close>

definition ex_plan :: "nat list \<Rightarrow> nat list \<Rightarrow> kv_aggregate_op list \<Rightarrow> kv_aggregate_scan" where
  "ex_plan groups required ops =
     \<lparr>ag_schema = ex_schema, ag_range_start = [], ag_range_end = None, ag_scan_prefix = None,
      filters = [ColumnCompare 0 CGtEq (VInt64 5)], group_indices = groups, aggregates = ops,
      required_indices = required, projection = KeyValue\<rparr>"

lemma ex_writable: "row_writable ex_schema ex_row"
  using ex_fits ex_typed
  by (simp add: row_writable_def pk_data_type_def ex_defs has_type_def)

definition ex_store :: hash_map where
  "ex_store = [row_entry ex_schema mvcc_default ex_row]"

lemma ex_store_scan: "mem_scan_range ex_store [] None None False = map (row_entry ex_schema mvcc_default) [ex_row]"
  by (simp add: mem_scan_range_def ex_store_def in_bounds_def case_prod_beta take_limit_def)

definition ex_lock :: "i32 \<Rightarrow> string \<Rightarrow> mysql_lock" where
  "ex_lock session table = mysql_lock session ''db'' ''public'' table LTable"

lemma ex_two_sessions:
  "lock_step\<^sup>*\<^sup>* lock_init \<lparr>held = [ex_lock 1 ''a'', ex_lock 2 ''b''], queue = [], waits = []\<rparr>"
proof -
  let ?one = "\<lparr>held = [ex_lock 1 ''a''], queue = [], waits = []\<rparr>"
  let ?two = "\<lparr>held = [ex_lock 1 ''a'', ex_lock 2 ''b''], queue = [], waits = []\<rparr>"
  have own: "\<forall>l \<in> set [ex_lock s t]. owner l = s" for s t
    by (simp add: ex_lock_def mysql_lock_def mysql_lock_with_duration_def)
  have "fst (acquire_round 1 [ex_lock 1 ''a''] lock_init) = ?one"
    by (simp add: acquire_round_def lock_blocker_def conflict_owner_def lock_init_def grant_locks_def
        remove_mysql_lock_waiter_def List.map_filter_simps)
  with ls_round [OF own [of 1 "''a''"], of lock_init] have one: "lock_step lock_init ?one" by (simp only:)
  have "fst (acquire_round 2 [ex_lock 2 ''b''] ?one) = ?two"
    by (simp add: acquire_round_def lock_blocker_def conflict_owner_def grant_locks_def
        remove_mysql_lock_waiter_def List.map_filter_simps ex_lock_def mysql_lock_def
        mysql_lock_with_duration_def mysql_locks_conflict_def mysql_object_scopes_overlap_def
        normalize_mysql_lock_name_def to_ascii_lowercase_def ascii_lower_char_def)
  with ls_round [OF own [of 2 "''b''"], of ?one] have two: "lock_step ?one ?two" by (simp only:)
  show ?thesis by (intro rtranclp.rtrancl_into_rtrancl [where r = lock_step, OF _ two]
      r_into_rtranclp [where r = lock_step]) (rule one)
qed

end
