(* ===== verification/Catalog_Examples.thy ===== *)
theory Catalog_Examples
  imports Catalog_Ops Examples
begin

text \<open>
  A printer and a reader of JSON documents that fulfil \<open>json_reads_back\<close>, and the catalog the
  in-memory store holds after the bootstrap: the instances at which the properties of the catalog are
  shown to apply. Documents are written with a tag byte, texts and lists with a mark before every
  element.
\<close>

section \<open>A document format\<close>

fun put_string :: "string \<Rightarrow> bytes" where
  "put_string [] = [0]"
| "put_string (c # s) = 1 # of_char c # put_string s"

fun get_string :: "bytes \<Rightarrow> (string \<times> bytes) option" where
  "get_string (m # bs) =
     (if m = 0 then Some ([], bs)
      else case bs of
        [] \<Rightarrow> None
      | b # r \<Rightarrow> (case get_string r of None \<Rightarrow> None | Some (s, r') \<Rightarrow> Some (char_of (unat b) # s, r')))"
| "get_string [] = None"

lemma get_put_string: "get_string (put_string s @ r) = Some (s, r)"
  by (induction s) (simp_all add: char_of_unat_of_char)

fun put_json :: "json \<Rightarrow> bytes" where
  "put_json JNull = [0]"
| "put_json (JBool b) = [if b then 2 else 1]"
| "put_json (JNumber n) = (if n < 0 then 3 # to_be_bytes (word_of_int (- n - 1) :: u64) else 4 # to_be_bytes (word_of_int n :: u64))"
| "put_json (JString s) = 5 # put_string s"
| "put_json (JArray vs) = 6 # concat (map (\<lambda>v. 1 # put_json v) vs) @ [0]"
| "put_json (JObject kvs) = 7 # concat (map (\<lambda>(k, v). 1 # put_string k @ put_json v) kvs) @ [0]"

fun get_json :: "nat \<Rightarrow> bytes \<Rightarrow> (json \<times> bytes) option"
  and get_array :: "nat \<Rightarrow> bytes \<Rightarrow> (json list \<times> bytes) option"
  and get_object :: "nat \<Rightarrow> bytes \<Rightarrow> ((string \<times> json) list \<times> bytes) option"
where
  "get_json 0 bs = None"
| "get_json (Suc n) bs =
     (case bs of
        [] \<Rightarrow> None
      | t # r \<Rightarrow>
          if t = 0 then Some (JNull, r)
          else if t = 1 then Some (JBool False, r)
          else if t = 2 then Some (JBool True, r)
          else if t = 3 then Some (JNumber (- 1 - uint (from_be_bytes (take 8 r) :: u64)), drop 8 r)
          else if t = 4 then Some (JNumber (uint (from_be_bytes (take 8 r) :: u64)), drop 8 r)
          else if t = 5 then map_option (apfst JString) (get_string r)
          else if t = 6 then map_option (apfst JArray) (get_array n r)
          else map_option (apfst JObject) (get_object n r))"
| "get_array 0 bs = None"
| "get_array (Suc n) bs =
     (case bs of
        [] \<Rightarrow> None
      | m # r \<Rightarrow>
          if m = 0 then Some ([], r)
          else case get_json n r of
            None \<Rightarrow> None
          | Some (v, r') \<Rightarrow> map_option (apfst (Cons v)) (get_array n r'))"
| "get_object 0 bs = None"
| "get_object (Suc n) bs =
     (case bs of
        [] \<Rightarrow> None
      | m # r \<Rightarrow>
          if m = 0 then Some ([], r)
          else case get_string r of
            None \<Rightarrow> None
          | Some (k, r') \<Rightarrow>
              (case get_json n r' of
                 None \<Rightarrow> None
               | Some (v, r'') \<Rightarrow> map_option (apfst (Cons (k, v))) (get_object n r'')))"

text \<open>Enough fuel: one more than the nodes and list cells of the document.\<close>

fun weight :: "json \<Rightarrow> nat" where
  "weight (JArray vs) = 2 + length vs + sum_list (map weight vs)"
| "weight (JObject kvs) = 2 + length kvs + sum_list (map (\<lambda>kv. weight (snd kv)) kvs)"
| "weight _ = 1"

lemma weight_pos: "0 < weight v"
  by (cases v) simp_all

lemma get_put_json: "json_wf v \<Longrightarrow> weight v \<le> n \<Longrightarrow> get_json n (put_json v @ r) = Some (v, r)"
proof (induction v arbitrary: n r)
  case (JNumber k)
  have "uint (word_of_int (- k - 1) :: u64) = - k - 1" if "k < 0"
    using that JNumber.prems(1) by (intro word_of_int_inverse [OF refl]) auto
  then show ?case using JNumber.prems by (cases n) (auto simp: uint_word_of_int simp del: of_int_diff of_int_minus)
next
  case (JString s)
  then show ?case by (cases n) (simp_all add: get_put_string)
next
  case (JArray vs)
  have "get_array m (concat (map (\<lambda>v. 1 # put_json v) us) @ 0 # r) = Some (us, r)"
    if "set us \<subseteq> set vs" "1 + length us + sum_list (map weight us) \<le> m" for us m
    using that
  proof (induction us arbitrary: m)
    case Nil
    then show ?case by (cases m) simp_all
  next
    case (Cons u us)
    obtain m' where m: "m = Suc m'" using Cons.prems(2) by (cases m) auto
    have "get_json m' (put_json u @ x) = Some (u, x)" for x
      by (rule JArray.IH) (use JArray.prems(1) Cons.prems m in auto)
    then show ?case using Cons.IH [of m'] Cons.prems m weight_pos [of u] by simp
  qed
  from this [of vs] JArray.prems(2) show ?case by (cases n) simp_all
next
  case (JObject kvs)
  have "get_object m (concat (map (\<lambda>(k, v). 1 # put_string k @ put_json v) us) @ 0 # r) = Some (us, r)"
    if "set us \<subseteq> set kvs" "1 + length us + sum_list (map (\<lambda>kv. weight (snd kv)) us) \<le> m" for us m
    using that
  proof (induction us arbitrary: m)
    case Nil
    then show ?case by (cases m) simp_all
  next
    case (Cons u us)
    obtain m' where m: "m = Suc m'" using Cons.prems(2) by (cases m) auto
    have "get_json m' (put_json (snd u) @ x) = Some (snd u, x)" for x
      by (rule JObject.IH [of u]) (use JObject.prems(1) Cons.prems m in \<open>auto simp: snds.simps\<close>)
    then show ?case using Cons.IH [of m'] Cons.prems m weight_pos [of "snd u"]
      by (cases u) (simp add: get_put_string)
  qed
  from this [of kvs] JObject.prems(2) show ?case by (cases n) simp_all
next
  case JNull
  then show ?case by (cases n) simp_all
next
  case (JBool b)
  then show ?case by (cases n) simp_all
qed

lemma weight_sum:
  "(\<And>x. x \<in> set xs \<Longrightarrow> f x \<le> g x) \<Longrightarrow> length xs + sum_list (map f xs) \<le> sum_list (map (\<lambda>x. Suc (g x)) xs)" for f g :: "'a \<Rightarrow> nat"
proof (induction xs)
  case (Cons x xs)
  have "f x \<le> g x" by (rule Cons.prems) simp
  moreover have "length xs + sum_list (map f xs) \<le> sum_list (map (\<lambda>x. Suc (g x)) xs)" by (rule Cons.IH) (simp add: Cons.prems)
  ultimately show ?case by simp
qed simp

lemma weight_length: "weight v \<le> length (put_json v)"
proof (induction v)
  case (JArray vs)
  then show ?case using weight_sum [of vs weight "\<lambda>v. length (put_json v)"] by (simp add: length_concat comp_def)
next
  case (JObject kvs)
  have "weight (snd kv) \<le> length (put_string (fst kv)) + length (put_json (snd kv))" if "kv \<in> set kvs" for kv
    using JObject.IH [of kv "snd kv"] that by (cases kv) (simp add: snds.intros)
  from weight_sum [of kvs "\<lambda>kv. weight (snd kv)", OF this] show ?case
    by (simp add: length_concat comp_def case_prod_beta)
qed simp_all

definition ex_lib :: json_lib where
  "ex_lib =
     \<lparr>to_vec = (\<lambda>v. Inr (put_json v)),
      from_slice = (\<lambda>bs. case get_json (Suc (length bs)) bs of
        Some (v, []) \<Rightarrow> Inr v | _ \<Rightarrow> Inl ''malformed document'')\<rparr>"

lemma ex_lib_reads_back: "json_reads_back ex_lib"
  unfolding json_reads_back_def
proof (intro allI impI)
  fix v assume "json_wf v"
  then have "get_json (Suc (length (put_json v))) (put_json v @ []) = Some (v, [])"
    by (rule get_put_json) (use weight_length [of v] in simp)
  then show "\<exists>bs. to_vec ex_lib v = Inr bs \<and> from_slice ex_lib bs = Inr v" by (simp add: ex_lib_def)
qed

section \<open>The catalog after the bootstrap\<close>

definition ex_catalog :: hash_map where
  "ex_catalog = (case ensure_bootstrap ex_lib mem_ops [] of Some (_, s) \<Rightarrow> s | None \<Rightarrow> [])"

lemma ex_catalog_boots:
  obtains p q where "decode_database_catalog ex_lib p = Inr default_database" "decode_schema_catalog ex_lib q = Inr default_schema"
    "ref_holds ex_catalog (booted_view Map.empty p q)"
proof -
  obtain p q where pq: "decode_database_catalog ex_lib p = Inr default_database" "decode_schema_catalog ex_lib q = Inr default_schema"
    and run: "computes ref_holds (ensure_bootstrap ex_lib mem_ops) Map.empty (Inr ()) (booted_view Map.empty p q)"
    by (rule mem_store.bootstrap_computes [OF ex_lib_reads_back, of Map.empty]) simp_all
  have "ref_holds [] Map.empty" by (simp add: ref_holds_def store_inv_def mem_get_def fun_eq_iff)
  with run have "ref_holds ex_catalog (booted_view Map.empty p q)" by (auto simp: computes_def ex_catalog_def)
  with pq show ?thesis by (rule that)
qed

lemma ex_catalog_facts:
  shows "store_inv ex_catalog" "catalog_inv ex_lib (mem_get ex_catalog)"
    "in_schema ex_lib (mem_get ex_catalog) DEFAULT_DATABASE_NAME DEFAULT_SCHEMA_NAME default_database default_schema"
    "databases.holds ex_lib (mem_get ex_catalog) n d = (n = DEFAULT_DATABASE_NAME \<and> d = default_database)"
    "\<not> tables.holds ex_lib (mem_get ex_catalog) k t" "\<not> indexes.holds ex_lib (mem_get ex_catalog) k x"
    "key \<in> COUNTERS \<Longrightarrow> \<not> exhausted (mem_get ex_catalog) key" "kv_at (mem_get ex_catalog) (schema_key m) = None"
proof -
  obtain p q where pq: "decode_database_catalog ex_lib p = Inr default_database" "decode_schema_catalog ex_lib q = Inr default_schema"
    and r: "ref_holds ex_catalog (booted_view Map.empty p q)" by (rule ex_catalog_boots)
  then have view: "mem_get ex_catalog = booted_view Map.empty p q" and inv: "store_inv ex_catalog" by (simp_all add: ref_holds_def)
  note facts = booted_view_inv [of Map.empty ex_lib p q, OF _ pq]
  show "store_inv ex_catalog" by (rule inv)
  show "catalog_inv ex_lib (mem_get ex_catalog)"
    "in_schema ex_lib (mem_get ex_catalog) DEFAULT_DATABASE_NAME DEFAULT_SCHEMA_NAME default_database default_schema"
    "databases.holds ex_lib (mem_get ex_catalog) n d = (n = DEFAULT_DATABASE_NAME \<and> d = default_database)"
    "\<not> tables.holds ex_lib (mem_get ex_catalog) k t" "\<not> indexes.holds ex_lib (mem_get ex_catalog) k x"
    "key \<in> COUNTERS \<Longrightarrow> \<not> exhausted (mem_get ex_catalog) key" "kv_at (mem_get ex_catalog) (schema_key m) = None"
    unfolding view using facts by simp_all
qed

text \<open>The same catalog with the example table.\<close>

definition ex_tables :: hash_map where
  "ex_tables =
     (case st_bind (allocate_table_id ex_lib mem_ops) (\<lambda>i.
        store_table ex_lib mem_ops DEFAULT_DATABASE_NAME DEFAULT_SCHEMA_NAME (ex_schema\<lparr>table_id := i\<rparr>)) ex_catalog of
        Some (_, s) \<Rightarrow> s | None \<Rightarrow> [])"

lemma schema_wf_reload_ex: "schema_wf (tc_schema (stored_table d s sn (ex_schema\<lparr>table_id := i\<rparr>)))"
  by (simp add: stored_table_def schema_wf_def reload_schema_def normalize_descriptor_def reload_column_def ex_defs)

lemma ex_stored_schema: "tc_schema (stored_table d s sn (ex_schema\<lparr>table_id := i\<rparr>)) = ex_schema\<lparr>table_id := i\<rparr>"
  by (simp add: stored_table_def reload_schema_def normalize_descriptor_def reload_column_def ex_defs)

lemma ex_tables_facts:
  obtains t where "catalog_state ex_lib ex_tables"
    "in_schema ex_lib (mem_get ex_tables) DEFAULT_DATABASE_NAME DEFAULT_SCHEMA_NAME default_database default_schema"
    "tables.holds ex_lib (mem_get ex_tables) (dc_id default_database, sc_id default_schema, ''t'') t" "schema_wf (tc_schema t)"
    "\<And>k t. tables.holds ex_lib (mem_get ex_tables) k t \<Longrightarrow> k = (dc_id default_database, sc_id default_schema, ''t'')"
    "mem_get ex_tables (as_bytes (schema_key ''u'')) = None" "\<not> exhausted (mem_get ex_tables) NEXT_INDEX_ID_KEY"
    "\<And>k x. \<not> indexes.holds ex_lib (mem_get ex_tables) k x"
    "tc_schema t = ex_schema\<lparr>table_id := table_id (tc_schema t)\<rparr>"
proof -
  have wf: "schema_wf ex_schema" and name: "table_name ex_schema = ''t''" by (simp_all add: schema_wf_def ex_defs)
  have room: "\<not> exhausted (mem_get ex_catalog) NEXT_TABLE_ID_KEY" by (rule ex_catalog_facts(7)) simp
  obtain i w1 w2 where run: "computes ref_holds (allocate_table_id ex_lib mem_ops) (mem_get ex_catalog) (Inr i) w1"
      "computes ref_holds (store_table ex_lib mem_ops DEFAULT_DATABASE_NAME DEFAULT_SCHEMA_NAME (ex_schema\<lparr>table_id := i\<rparr>)) w1 (Inr ()) w2"
    and w2: "catalog_inv ex_lib w2" "in_schema ex_lib w2 DEFAULT_DATABASE_NAME DEFAULT_SCHEMA_NAME default_database default_schema"
      "\<forall>n. n \<noteq> ''t'' \<longrightarrow> kv_at w2 (schema_key n) = kv_at (mem_get ex_catalog) (schema_key n)"
      "exhausted w2 NEXT_INDEX_ID_KEY = exhausted (mem_get ex_catalog) NEXT_INDEX_ID_KEY" "indexes.holds ex_lib w2 = indexes.holds ex_lib (mem_get ex_catalog)"
      "tables.holds ex_lib w2 = (tables.holds ex_lib (mem_get ex_catalog))((dc_id default_database, sc_id default_schema, ''t'') :=
        (\<lambda>t. t = stored_table default_database default_schema DEFAULT_SCHEMA_NAME (ex_schema\<lparr>table_id := i\<rparr>)))"
    using mem_store.create_table_computes [OF ex_lib_reads_back ex_catalog_facts(2,3) wf ex_catalog_facts(5) room, unfolded name]
    by (elim exE conjE) (rule that)
  have "ref_holds ex_catalog (mem_get ex_catalog)" using ex_catalog_facts(1) by (simp add: ref_holds_def)
  with run have "ref_holds ex_tables w2" by (fastforce simp: computes_def ex_tables_def st_bind_def)
  then have view: "mem_get ex_tables = w2" and inv: "store_inv ex_tables" by (simp_all add: ref_holds_def)
  show ?thesis
    by (rule that [of "stored_table default_database default_schema DEFAULT_SCHEMA_NAME (ex_schema\<lparr>table_id := i\<rparr>)"])
      (use w2 inv ex_catalog_facts(5,6,8) ex_catalog_facts(7) [of NEXT_INDEX_ID_KEY] in \<open>auto simp: catalog_state_def view schema_wf_reload_ex [unfolded ex_stored_schema] ex_stored_schema split: if_splits\<close>)
qed

text \<open>And with an index on it.\<close>

definition ex_indexed :: hash_map where
  "ex_indexed =
     (case create_index ex_lib mem_ops DEFAULT_DATABASE_NAME DEFAULT_SCHEMA_NAME ''t'' ''t_name'' [''name''] False False ex_tables of
        Some (_, s) \<Rightarrow> s | None \<Rightarrow> [])"

lemma ex_indexed_facts:
  obtains t x where "catalog_state ex_lib ex_indexed"
    "in_schema ex_lib (mem_get ex_indexed) DEFAULT_DATABASE_NAME DEFAULT_SCHEMA_NAME default_database default_schema"
    "tables.holds ex_lib (mem_get ex_indexed) (dc_id default_database, sc_id default_schema, ''t'') t"
    "indexes.holds ex_lib (mem_get ex_indexed) (dc_id default_database, sc_id default_schema, ''t_name'') x"
proof -
  obtain t where t: "catalog_state ex_lib ex_tables"
    "in_schema ex_lib (mem_get ex_tables) DEFAULT_DATABASE_NAME DEFAULT_SCHEMA_NAME default_database default_schema"
    "tables.holds ex_lib (mem_get ex_tables) (dc_id default_database, sc_id default_schema, ''t'') t"
    "\<not> exhausted (mem_get ex_tables) NEXT_INDEX_ID_KEY" "\<And>k x. \<not> indexes.holds ex_lib (mem_get ex_tables) k x"
    by (rule ex_tables_facts) blast
  then have inv: "store_inv ex_tables" "catalog_inv ex_lib (mem_get ex_tables)" by (simp_all add: catalog_state_def)
  obtain x w' where run: "computes ref_holds (create_index ex_lib mem_ops DEFAULT_DATABASE_NAME DEFAULT_SCHEMA_NAME ''t'' ''t_name'' [''name''] False False)
        (mem_get ex_tables) (Inr (Some x)) w'" and facts: "catalog_inv ex_lib w'"
      "indexes.holds ex_lib w' = (indexes.holds ex_lib (mem_get ex_tables))((dc_id default_database, sc_id default_schema, ''t_name'') := (\<lambda>y. y = x))"
      "tables.holds ex_lib w' = tables.holds ex_lib (mem_get ex_tables)"
      "in_schema ex_lib w' DEFAULT_DATABASE_NAME DEFAULT_SCHEMA_NAME default_database default_schema"
    using mem_store.create_index_new [OF ex_lib_reads_back inv(2) t(2,3,5,4), of "''t_name''" "''name''" "[]" False False]
    by (elim exE conjE) (rule that)
  from mem_runs_ex [OF run inv(1)] have "store_inv ex_indexed" "mem_get ex_indexed = w'" by (auto simp: ex_indexed_def)
  with facts t(3) show ?thesis by (intro that [of t x]) (simp_all add: catalog_state_def)
qed

end
