(* ===== verification/Catalog_Rows.thy ===== *)
theory Catalog_Rows
  imports Catalog_Ops Row_Codec
begin

text \<open>
  Rows and the catalog together: a row is written under the descriptor of the running statement and
  read under the one the catalog gives back. The record depends on the names of the columns and on
  which of them have a slot of their own; the catalog changes the latter for one type only.
\<close>

section \<open>Records depend on names and widths\<close>

definition same_layout :: "column_schema \<Rightarrow> column_schema \<Rightarrow> bool" where
  "same_layout c c' = (col_name c = col_name c' \<and> fixed_width (col_type c) = fixed_width (col_type c'))"

lemma same_layout_parts:
  assumes "same_layout c c'"
  shows "row_value row c = row_value row c'" "is_variable c = is_variable c'" "width_of c = width_of c'"
    "var_bytes row c = var_bytes row c'"
    "encode_row_column ns fs ds row idx c st = encode_row_column ns fs ds row idx c' st"
  using assms by (simp_all add: same_layout_def row_value_def is_variable_def width_of_def var_bytes_def encode_row_column_def)

lemma encode_columns_layout:
  "list_all2 same_layout cols cols' \<Longrightarrow> encode_row_columns ns fs ds row idx cols st = encode_row_columns ns fs ds row idx cols' st"
  by (induction cols cols' arbitrary: idx st rule: list_all2_induct) (simp_all add: same_layout_parts(5))

lemma layout_sizes:
  assumes "list_all2 same_layout cols cols'"
  shows "length cols = length cols'" "fixed_region_len cols = fixed_region_len cols'"
    "length (filter is_variable cols) = length (filter is_variable cols')" "payload_sec row cols = payload_sec row cols'"
  using assms
  by (induction cols cols' rule: list_all2_induct)
    (simp_all add: same_layout_parts payload_sec_def)

lemma encode_layout:
  assumes "list_all2 same_layout (columns s) cols'"
  shows "encode_row_record_with_mvcc (s\<lparr>columns := cols'\<rparr>) row mvcc = encode_row_record_with_mvcc s row mvcc"
  using layout_sizes [OF assms] encode_columns_layout [OF assms]
  by (simp add: encode_row_record_with_mvcc_def row_header_bytes_def filter_is_variable)

section \<open>Rows under the descriptor of the catalog\<close>

lemma normalize_columns_same: "list_all2 same_layout cs (normalize_columns i cs)"
  by (induction i cs rule: normalize_columns.induct) (simp_all add: same_layout_def)

lemma reload_layout:
  assumes "\<forall>c \<in> set cs. col_type c \<noteq> TMySqlInt IntKind False"
  shows "list_all2 same_layout cs (map reload_column cs)"
proof -
  have "same_layout c (reload_column c)" if "c \<in> set cs" for c
    using assms that reloaded_width [of "col_type c"] by (simp add: same_layout_def reload_column_def)
  then show ?thesis by (simp add: list_all2_map2 list_all2_same)
qed

lemma same_layout_trans: "same_layout a b \<Longrightarrow> same_layout b c \<Longrightarrow> same_layout a c"
  by (simp add: same_layout_def)

lemma columns_reload: "columns (reload_schema s) = normalize_columns 0 (map reload_column (columns s))"
  by (simp add: reload_schema_def normalize_descriptor_def Let_def)

lemma reload_column_names: "map col_name (columns (reload_schema s)) = map col_name (columns s)"
proof -
  have "map col_name (normalize_columns i cs) = map col_name cs" for i cs
    by (induction i cs rule: normalize_columns.induct) simp_all
  then show ?thesis by (simp add: columns_reload reload_column_def comp_def)
qed

lemma reload_columns_typed:
  "map (\<lambda>c. (col_name c, col_type c)) (columns (reload_schema s)) = map (\<lambda>c. (col_name c, reloaded (col_type c))) (columns s)"
proof -
  have "map (\<lambda>c. (col_name c, col_type c)) (normalize_columns i cs) = map (\<lambda>c. (col_name c, col_type c)) cs" for i cs
    by (induction i cs rule: normalize_columns.induct) simp_all
  then show ?thesis by (simp add: columns_reload reload_column_def comp_def)
qed

definition typed_cell :: "row_map \<Rightarrow> string \<times> data_type \<Rightarrow> bool" where
  "typed_cell row p = (let v = (case row (fst p) of Some v \<Rightarrow> v | None \<Rightarrow> VNull) in has_type (snd p) v \<and> value_ok v)"

lemma row_typed_cells: "row_typed s row = list_all (typed_cell row) (map (\<lambda>c. (col_name c, col_type c)) (columns s))"
  by (simp add: row_typed_def row_value_def typed_cell_def list_all_iff Let_def)

lemma row_typed_reload: "row_typed (s\<lparr>columns := columns (reload_schema s)\<rparr>) row = row_typed s row"
proof -
  have "columns (s\<lparr>columns := columns (reload_schema s)\<rparr>) = columns (reload_schema s)" by simp
  then show ?thesis
    unfolding row_typed_cells by (simp only: reload_columns_typed)
      (simp add: list.pred_map comp_def typed_cell_def reloaded_type)
qed

lemma rows_survive_reload:
  assumes "record_fits s row" "row_typed s row" "distinct (column_names s)"
    "\<forall>c \<in> set (columns s). col_type c \<noteq> TMySqlInt IntKind False"
  shows "\<exists>out. decode_row_record (reload_schema s) (encode_row_record_with_mvcc s row mvcc) = Inr out \<and>
    dom out = set (column_names s) \<and> (\<forall>c \<in> set (columns s). out (col_name c) = Some (row_value row c))"
proof -
  let ?s = "s\<lparr>columns := columns (reload_schema s)\<rparr>"
  have layout: "list_all2 same_layout (columns s) (columns (reload_schema s))"
    unfolding columns_reload
    by (rule list_all2_trans [OF same_layout_trans reload_layout [OF assms(4)] normalize_columns_same])
  have fits: "record_fits ?s row" using assms(1) layout_sizes [OF layout] by (simp add: record_fits_def)
  have typed: "row_typed ?s row" using assms(2) by (simp only: row_typed_reload)
  have names: "column_names (reload_schema s) = column_names s" by (simp add: column_names_def reload_column_names)
  obtain out where out: "decode_row_record (reload_schema s) (encode_row_record_with_mvcc ?s row mvcc) = Inr out"
      "dom out = set (column_names (reload_schema s))" "\<forall>c \<in> set (columns ?s). out (col_name c) = Some (row_value row c)"
    using decode_encode_row_record [OF fits typed, of "reload_schema s" "[]" mvcc] assms(3) names by auto
  have "out (col_name c) = Some (row_value row c)" if "c \<in> set (columns s)" for c
  proof -
    have "col_name c \<in> set (map col_name (columns (reload_schema s)))" using that by (simp only: reload_column_names) auto
    then obtain c' where "c' \<in> set (columns (reload_schema s))" "col_name c' = col_name c" by auto
    then show ?thesis using out(3) by (auto simp: row_value_def)
  qed
  then show ?thesis using out(1,2) names by (auto simp: encode_layout [OF layout])
qed

end
