(* ===== verification/Gateway_Session.thy ===== *)
theory Gateway_Session
  imports Catalog_Store Mysql_Locks "HOL-Library.Sublist"
begin

text \<open>
  The state the server keeps for its sessions and the store calls of a session
  (\<open>core/server/context_session.rs\<close>, \<open>transactions.rs\<close>, \<open>context.rs\<close>, \<open>dialect/mod.rs\<close>): a call goes to
  the session's transaction when it has one and to the store otherwise. The transactions are those
  of the in-memory store. What a client sends with a statement (its metadata) is part of the state.
\<close>

section \<open>Sessions\<close>

datatype transaction_isolation = ReadCommitted | RepeatableRead | Serializable

fun as_pg_str :: "transaction_isolation \<Rightarrow> string" where
  "as_pg_str ReadCommitted = ''read committed''"
| "as_pg_str RepeatableRead = ''repeatable read''"
| "as_pg_str Serializable = ''serializable''"

datatype transaction_status = StatusIdle | StatusTransaction | StatusError

text \<open>\<open>trim_end_matches(';')\<close> and \<open>contains\<close>.\<close>

definition trim_end_matches :: "char \<Rightarrow> string \<Rightarrow> string" where
  "trim_end_matches c s = rev (dropWhile (\<lambda>d. d = c) (rev s))"

definition parse_transaction_isolation :: "string \<Rightarrow> transaction_isolation option" where
  "parse_transaction_isolation raw =
     (let lower = replace_char CHR ''_'' '' '' (to_ascii_lowercase (trim (trim_end_matches CHR '';'' (trim raw))))
      in if sublist ''read committed'' lower then Some ReadCommitted
         else if sublist ''repeatable read'' lower then Some RepeatableRead
         else if sublist ''serializable'' lower then Some Serializable else None)"

fun default_transaction_isolation :: "gateway_mode \<Rightarrow> transaction_isolation" where
  "default_transaction_isolation Postgres = ReadCommitted"
| "default_transaction_isolation MySql = RepeatableRead"

record gateway =
  gw_mode :: gateway_mode
  gw_store :: hash_map
  active_transactions :: "i32 \<rightharpoonup> mem_txn"
  active_transaction_snapshots :: "i32 \<rightharpoonup> u64"
  active_transaction_isolations :: "i32 \<rightharpoonup> transaction_isolation"
  active_transaction_read_only :: "i32 set"
  active_mysql_current_reads :: "i32 set"
  gw_locks :: lock_state
  mvcc_clock :: u64
  client_isolation :: "i32 \<rightharpoonup> string"
  client_autocommit :: "i32 \<rightharpoonup> string"
  client_status :: "i32 \<Rightarrow> transaction_status"

definition set_status :: "i32 \<Rightarrow> transaction_status \<Rightarrow> gateway \<Rightarrow> gateway" where
  "set_status sid st g = g\<lparr>client_status := (client_status g)(sid := st)\<rparr>"

text \<open>What ending a transaction removes, in every way of ending it.\<close>

definition forget_transaction :: "i32 \<Rightarrow> gateway \<Rightarrow> gateway" where
  "forget_transaction sid g =
     g\<lparr>active_transactions := (active_transactions g)(sid := None),
       active_transaction_snapshots := (active_transaction_snapshots g)(sid := None),
       active_transaction_isolations := (active_transaction_isolations g)(sid := None),
       active_transaction_read_only := active_transaction_read_only g - {sid},
       active_mysql_current_reads := active_mysql_current_reads g - {sid},
       gw_locks := release_session_table_locks sid (gw_locks g)\<rparr>"

definition commit_to_store :: "mem_txn option \<Rightarrow> gateway \<Rightarrow> gateway" where
  "commit_to_store t g = (case t of None \<Rightarrow> g | Some txn \<Rightarrow> g\<lparr>gw_store := txn_commit txn (gw_store g)\<rparr>)"

definition mark_read_only :: "i32 \<Rightarrow> bool \<Rightarrow> gateway \<Rightarrow> gateway" where
  "mark_read_only sid read_only g =
     (if read_only then g\<lparr>active_transaction_read_only := insert sid (active_transaction_read_only g)\<rparr> else g)"

text \<open>The part of \<open>begin_session_transaction_with_options\<close> that opens the transaction.\<close>

definition open_transaction :: "i32 \<Rightarrow> transaction_isolation option \<Rightarrow> bool \<Rightarrow> gateway \<Rightarrow> gateway" where
  "open_transaction sid isolation read_only g =
     (let lvl = (case isolation of
            Some i \<Rightarrow> i
          | None \<Rightarrow> (case Option.bind (client_isolation g sid) parse_transaction_isolation of
              Some i \<Rightarrow> i | None \<Rightarrow> default_transaction_isolation (gw_mode g)))
      in set_status sid StatusTransaction
          (g\<lparr>active_transactions := (active_transactions g)(sid \<mapsto> begin_transaction (gw_store g)),
             active_transaction_snapshots := (active_transaction_snapshots g)(sid \<mapsto> mvcc_clock g),
             active_transaction_isolations := (active_transaction_isolations g)(sid \<mapsto> lvl),
             active_transaction_read_only :=
               (if read_only then insert sid else (\<lambda>s. s - {sid})) (active_transaction_read_only g),
             client_isolation := (client_isolation g)(sid \<mapsto> as_pg_str lvl)\<rparr>))"

definition begin_session_transaction_with_options ::
    "i32 \<Rightarrow> transaction_isolation option \<Rightarrow> bool \<Rightarrow> gateway \<Rightarrow> gateway" where
  "begin_session_transaction_with_options sid isolation read_only g =
     (if active_transactions g sid \<noteq> None then
        (if gw_mode g = MySql then
           open_transaction sid isolation read_only
             (set_status sid StatusIdle (commit_to_store (active_transactions g sid) (forget_transaction sid g)))
         else set_status sid StatusTransaction (mark_read_only sid read_only g))
      else open_transaction sid isolation read_only g)"

definition begin_session_transaction :: "i32 \<Rightarrow> gateway \<Rightarrow> gateway" where
  "begin_session_transaction sid g = begin_session_transaction_with_options sid None False g"

definition mysql_autocommit_disabled :: "i32 \<Rightarrow> gateway \<Rightarrow> bool" where
  "mysql_autocommit_disabled sid g =
     (gw_mode g = MySql \<and>
      (case client_autocommit g sid of None \<Rightarrow> False | Some v \<Rightarrow> v = ''0'' \<or> eq_ignore_ascii_case v ''off''))"

definition restart_mysql_autocommit_transaction :: "i32 \<Rightarrow> gateway \<Rightarrow> gateway" where
  "restart_mysql_autocommit_transaction sid g =
     (if mysql_autocommit_disabled sid g then begin_session_transaction sid g else g)"

definition commit_session_transaction :: "i32 \<Rightarrow> gateway \<Rightarrow> gateway" where
  "commit_session_transaction sid g =
     restart_mysql_autocommit_transaction sid
       (set_status sid StatusIdle (commit_to_store (active_transactions g sid) (forget_transaction sid g)))"

definition rollback_session_transaction :: "i32 \<Rightarrow> gateway \<Rightarrow> gateway" where
  "rollback_session_transaction sid g =
     restart_mysql_autocommit_transaction sid (set_status sid StatusIdle (forget_transaction sid g))"

definition rollback_session_by_id :: "i32 \<Rightarrow> gateway \<Rightarrow> gateway" where
  "rollback_session_by_id sid g = forget_transaction sid g"

definition implicit_commit_active_transaction :: "i32 \<Rightarrow> gateway \<Rightarrow> gateway" where
  "implicit_commit_active_transaction sid g =
     set_status sid StatusIdle (commit_to_store (active_transactions g sid) (forget_transaction sid g))"

section \<open>Savepoints and isolation\<close>

definition put_txn :: "i32 \<Rightarrow> mem_txn \<Rightarrow> gateway \<Rightarrow> gateway" where
  "put_txn sid t g = g\<lparr>active_transactions := (active_transactions g)(sid \<mapsto> t)\<rparr>"

text \<open>The three savepoint commands: the session's transaction, or the error of the command.\<close>

definition in_block :: "string \<Rightarrow> i32 \<Rightarrow> (mem_txn \<Rightarrow> (gateway, unit) prog) \<Rightarrow> (gateway, unit) prog" where
  "in_block command sid f g =
     (case active_transactions g sid of
        None \<Rightarrow> Some (Inl (user_error ''25P01'' (command @ '' can only be used in transaction blocks'')), g)
      | Some t \<Rightarrow> f t g)"

definition savepoint_step :: "i32 \<Rightarrow> string + mem_txn \<Rightarrow> (gateway, unit) prog" where
  "savepoint_step sid r g =
     (case r of
        Inl e \<Rightarrow> Some (Inl (user_error ''3B001'' e), g)
      | Inr t \<Rightarrow> Some (Inr (), set_status sid StatusTransaction (put_txn sid t g)))"

definition savepoint_session_transaction :: "i32 \<Rightarrow> string \<Rightarrow> (gateway, unit) prog" where
  "savepoint_session_transaction sid name =
     in_block ''SAVEPOINT'' sid (\<lambda>t. savepoint_step sid (Inr (txn_savepoint name t)))"

definition rollback_to_session_savepoint :: "i32 \<Rightarrow> string \<Rightarrow> (gateway, unit) prog" where
  "rollback_to_session_savepoint sid name =
     in_block ''ROLLBACK TO SAVEPOINT'' sid (\<lambda>t. savepoint_step sid (txn_rollback_to_savepoint name t))"

definition release_session_savepoint :: "i32 \<Rightarrow> string \<Rightarrow> (gateway, unit) prog" where
  "release_session_savepoint sid name =
     in_block ''RELEASE SAVEPOINT'' sid (\<lambda>t. savepoint_step sid (txn_release_savepoint name t))"

definition set_session_transaction_isolation :: "i32 \<Rightarrow> transaction_isolation \<Rightarrow> gateway \<Rightarrow> gateway" where
  "set_session_transaction_isolation sid lvl g =
     (let g1 = g\<lparr>client_isolation := (client_isolation g)(sid \<mapsto> as_pg_str lvl)\<rparr>
      in if active_transactions g1 sid \<noteq> None then
           g1\<lparr>active_transaction_isolations := (active_transaction_isolations g1)(sid \<mapsto> lvl),
              active_transaction_snapshots := (active_transaction_snapshots g1)(sid \<mapsto> mvcc_clock g1)\<rparr>
         else g1)"

definition has_active_transaction :: "i32 option \<Rightarrow> gateway \<Rightarrow> bool" where
  "has_active_transaction s g = (case s of None \<Rightarrow> False | Some sid \<Rightarrow> active_transactions g sid \<noteq> None)"

definition is_repeatable_read_transaction :: "i32 option \<Rightarrow> gateway \<Rightarrow> bool" where
  "is_repeatable_read_transaction s g =
     (case s of None \<Rightarrow> False | Some sid \<Rightarrow> active_transaction_isolations g sid = Some RepeatableRead)"

definition use_consistent_read :: "i32 option \<Rightarrow> gateway \<Rightarrow> bool" where
  "use_consistent_read s g =
     (case s of
        None \<Rightarrow> False
      | Some sid \<Rightarrow> is_repeatable_read_transaction (Some sid) g \<and> sid \<notin> active_mysql_current_reads g)"

definition enter_mysql_current_read :: "i32 \<Rightarrow> gateway \<Rightarrow> gateway" where
  "enter_mysql_current_read sid g = g\<lparr>active_mysql_current_reads := insert sid (active_mysql_current_reads g)\<rparr>"

definition exit_mysql_current_read :: "i32 \<Rightarrow> gateway \<Rightarrow> gateway" where
  "exit_mysql_current_read sid g = g\<lparr>active_mysql_current_reads := active_mysql_current_reads g - {sid}\<rparr>"

section \<open>Store calls of a session\<close>

text \<open>The transaction of the session, if it has one.\<close>

definition session_txn :: "i32 option \<Rightarrow> gateway \<Rightarrow> mem_txn option" where
  "session_txn s g = Option.bind s (active_transactions g)"

definition gw_txn_get :: "i32 option \<Rightarrow> bytes \<Rightarrow> (gateway, bytes option) prog" where
  "gw_txn_get s key g =
     Some (Inr (case session_txn s g of Some t \<Rightarrow> txn_get (gw_store g) t key | None \<Rightarrow> mem_get (gw_store g) key), g)"

definition gw_txn_snapshot_get :: "i32 option \<Rightarrow> bytes \<Rightarrow> (gateway, bytes option) prog" where
  "gw_txn_snapshot_get s key g =
     Some (Inr (case session_txn s g of Some t \<Rightarrow> Kv_Store.txn_snapshot_get t key | None \<Rightarrow> mem_get (gw_store g) key), g)"

definition gw_txn_has_pending_key :: "i32 option \<Rightarrow> bytes \<Rightarrow> (gateway, bool) prog" where
  "gw_txn_has_pending_key s key g =
     Some (Inr (case session_txn s g of Some t \<Rightarrow> txn_has_pending_key t key | None \<Rightarrow> False), g)"

text \<open>A write changes the transaction, or the store.\<close>

definition session_write :: "i32 option \<Rightarrow> (mem_txn \<Rightarrow> mem_txn) \<Rightarrow> (hash_map \<Rightarrow> hash_map) \<Rightarrow> (gateway, unit) prog" where
  "session_write s in_txn in_store g =
     Some (Inr (), case (s, session_txn s g) of
        (Some sid, Some t) \<Rightarrow> put_txn sid (in_txn t) g
      | _ \<Rightarrow> g\<lparr>gw_store := in_store (gw_store g)\<rparr>)"

definition gw_txn_put :: "i32 option \<Rightarrow> bytes \<Rightarrow> bytes \<Rightarrow> (gateway, unit) prog" where
  "gw_txn_put s key v = session_write s (txn_put key v) (mem_put key v)"

definition gw_txn_put_batch :: "i32 option \<Rightarrow> kv_rows \<Rightarrow> (gateway, unit) prog" where
  "gw_txn_put_batch s entries = session_write s (txn_put_batch entries) (mem_put_batch entries)"

definition gw_txn_delete :: "i32 option \<Rightarrow> bytes \<Rightarrow> (gateway, unit) prog" where
  "gw_txn_delete s key = session_write s (txn_delete key) (mem_delete key)"

definition gw_txn_scan_prefix :: "i32 option \<Rightarrow> bytes \<Rightarrow> (gateway, kv_rows) prog" where
  "gw_txn_scan_prefix s p g =
     Some (Inr (case session_txn s g of Some t \<Rightarrow> txn_scan_prefix (gw_store g) t p | None \<Rightarrow> mem_scan_prefix (gw_store g) p), g)"

definition gw_txn_snapshot_scan_prefix :: "i32 option \<Rightarrow> bytes \<Rightarrow> (gateway, kv_rows) prog" where
  "gw_txn_snapshot_scan_prefix s p g =
     Some (Inr (case session_txn s g of Some t \<Rightarrow> txn_snapshot_scan_prefix t p | None \<Rightarrow> mem_scan_prefix (gw_store g) p), g)"

definition gw_txn_scan_range :: "i32 option \<Rightarrow> range_scan \<Rightarrow> (gateway, kv_rows) prog" where
  "gw_txn_scan_range s r g =
     Some (Inr (case session_txn s g of
        Some t \<Rightarrow> txn_scan_range (gw_store g) t (range_start r) (range_end r) (range_limit r) (range_reverse r)
      | None \<Rightarrow> mem_scan_range (gw_store g) (range_start r) (range_end r) (range_limit r) (range_reverse r)), g)"

definition gw_txn_snapshot_scan_range :: "i32 option \<Rightarrow> range_scan \<Rightarrow> (gateway, kv_rows) prog" where
  "gw_txn_snapshot_scan_range s r g =
     Some (Inr (case session_txn s g of
        Some t \<Rightarrow> txn_snapshot_scan_range t (range_start r) (range_end r) (range_limit r) (range_reverse r)
      | None \<Rightarrow> mem_scan_range (gw_store g) (range_start r) (range_end r) (range_limit r) (range_reverse r)), g)"

text \<open>\<open>if consistent_read { snapshot } else { current }\<close>, with the error given its code.\<close>

definition visible_get :: "i32 option \<Rightarrow> bytes \<Rightarrow> (gateway, bytes option) prog" where
  "visible_get s key = st_catch (\<lambda>g. if use_consistent_read s g then gw_txn_snapshot_get s key g else gw_txn_get s key g)"

definition visible_scan_prefix :: "i32 option \<Rightarrow> bytes \<Rightarrow> (gateway, kv_rows) prog" where
  "visible_scan_prefix s p =
     st_catch (\<lambda>g. if use_consistent_read s g then gw_txn_snapshot_scan_prefix s p g else gw_txn_scan_prefix s p g)"

definition visible_scan_range :: "i32 option \<Rightarrow> range_scan \<Rightarrow> (gateway, kv_rows) prog" where
  "visible_scan_range s r =
     st_catch (\<lambda>g. if use_consistent_read s g then gw_txn_snapshot_scan_range s r g else gw_txn_scan_range s r g)"

text \<open>\<open>self.store\<close> itself, for the catalog and the counters.\<close>

definition store_call :: "(hash_map, 'a) prog \<Rightarrow> (gateway, 'a) prog" where
  "store_call m g =
     (case m (gw_store g) of None \<Rightarrow> None | Some (r, s) \<Rightarrow> Some (r, g\<lparr>gw_store := s\<rparr>))"

definition gateway_store :: "gateway kv_ops" where
  "gateway_store =
     \<lparr>kv_get = (\<lambda>k. store_call (kv_get mem_ops k)), kv_put = (\<lambda>k v. store_call (kv_put mem_ops k v)),
      kv_delete = (\<lambda>k. store_call (kv_delete mem_ops k)), kv_put_batch = (\<lambda>es. store_call (kv_put_batch mem_ops es)),
      kv_scan_prefix = (\<lambda>p. store_call (kv_scan_prefix mem_ops p)),
      kv_scan_range = (\<lambda>a b l r. store_call (kv_scan_range mem_ops a b l r))\<rparr>"

end
