(* ===== verification/Session_Laws.thy ===== *)
theory Session_Laws
  imports Gateway_Session Catalog_Ops
begin

text \<open>
  What a session sees. A session without a transaction reads and writes the store; one with a
  transaction reads its own writes over the store (or over its snapshot) and writes into its buffer,
  while the catalog always goes to the store. \<open>session_view\<close> records exactly that, \<open>session_shows\<close>
  relates it to the state of the server, and the laws give every store call of a session as a
  computation on the view.
\<close>

section \<open>The view of a session\<close>

record session_view =
  sv_store :: kv_view
  sv_txn :: "(kv_view \<times> (bytes \<rightharpoonup> bytes option)) option"
  sv_repeatable :: bool
  sv_consistent :: bool

definition overlay :: "(bytes \<rightharpoonup> bytes option) \<Rightarrow> kv_view \<Rightarrow> kv_view" where
  "overlay pend w k = (case pend k of Some x \<Rightarrow> x | None \<Rightarrow> w k)"

definition sv_read :: "session_view \<Rightarrow> kv_view" where
  "sv_read v = (case sv_txn v of None \<Rightarrow> sv_store v | Some (snap, pend) \<Rightarrow> overlay pend (sv_store v))"

definition sv_snap :: "session_view \<Rightarrow> kv_view" where
  "sv_snap v = (case sv_txn v of None \<Rightarrow> sv_store v | Some (snap, pend) \<Rightarrow> overlay pend snap)"

definition sv_visible :: "session_view \<Rightarrow> kv_view" where
  "sv_visible v = (if sv_consistent v then sv_snap v else sv_read v)"

definition sv_pending :: "session_view \<Rightarrow> bytes \<Rightarrow> bool" where
  "sv_pending v k = (case sv_txn v of None \<Rightarrow> False | Some (snap, pend) \<Rightarrow> pend k \<noteq> None)"

definition sv_write :: "bytes \<Rightarrow> bytes option \<Rightarrow> session_view \<Rightarrow> session_view" where
  "sv_write k x v =
     (case sv_txn v of
        None \<Rightarrow> v\<lparr>sv_store := (sv_store v)(k := x)\<rparr>
      | Some (snap, pend) \<Rightarrow> v\<lparr>sv_txn := Some (snap, pend(k \<mapsto> x))\<rparr>)"

definition session_shows :: "i32 option \<Rightarrow> gateway \<Rightarrow> session_view \<Rightarrow> bool" where
  "session_shows s g v =
     (store_inv (gw_store g) \<and> sv_store v = mem_get (gw_store g) \<and>
      (case session_txn s g of
         None \<Rightarrow> sv_txn v = None
       | Some t \<Rightarrow> txn_inv t \<and> sv_txn v = Some (mem_get (txn_snapshot t), bt_get (txn_pending t))) \<and>
      sv_repeatable v = is_repeatable_read_transaction s g \<and> sv_consistent v = use_consistent_read s g)"

text \<open>A write is seen by every way of reading; the transaction, the isolation and what other sessions
  have committed stay.\<close>

lemma sv_write_seen [simp]:
  "sv_read (sv_write k x v) = (sv_read v)(k := x)"
  "sv_snap (sv_write k x v) = (sv_snap v)(k := x)"
  "sv_visible (sv_write k x v) = (sv_visible v)(k := x)"
  "sv_repeatable (sv_write k x v) = sv_repeatable v"
  "sv_consistent (sv_write k x v) = sv_consistent v"
  by (auto simp: sv_write_def sv_read_def sv_snap_def sv_visible_def overlay_def fun_eq_iff split: option.splits)

lemma sv_write_txn [simp]: "(sv_txn (sv_write k x v) = None) = (sv_txn v = None)"
  by (simp add: sv_write_def split: option.splits)

lemma sv_write_store: "sv_store (sv_write k x v) = (if sv_txn v = None then (sv_store v)(k := x) else sv_store v)"
  by (auto simp: sv_write_def split: option.splits)

lemma sv_write_store_other: "j \<noteq> k \<Longrightarrow> sv_store (sv_write k x v) j = sv_store v j"
  by (simp add: sv_write_store)

definition sv_puts :: "kv_rows \<Rightarrow> session_view \<Rightarrow> session_view" where
  "sv_puts es v = fold (\<lambda>(k, x). sv_write k (Some x)) es v"

lemma sv_no_txn: "sv_txn v = None \<Longrightarrow> sv_read v = sv_store v" "sv_txn v = None \<Longrightarrow> sv_snap v = sv_store v"
  by (simp_all add: sv_read_def sv_snap_def)

section \<open>The calls\<close>

lemma session_txn_Some: "session_txn s g = Some t \<Longrightarrow> \<exists>sid. s = Some sid \<and> active_transactions g sid = Some t"
  by (cases s) (simp_all add: session_txn_def)

lemma shown_reads:
  assumes "session_shows s g v"
  shows "sv_read v = (case session_txn s g of Some t \<Rightarrow> txn_view (gw_store g) t | None \<Rightarrow> mem_get (gw_store g))"
    and "sv_snap v = (case session_txn s g of Some t \<Rightarrow> txn_view (txn_snapshot t) t | None \<Rightarrow> mem_get (gw_store g))"
  using assms by (auto simp: session_shows_def sv_read_def sv_snap_def overlay_def txn_view_def fun_eq_iff split: option.splits)

lemma shown_inv:
  assumes "session_shows s g v"
  shows "store_inv (gw_store g)" "session_txn s g = Some t \<Longrightarrow> txn_inv t" "session_txn s g = Some t \<Longrightarrow> store_inv (txn_snapshot t)"
  using assms by (auto simp: session_shows_def txn_inv_def split: option.splits)

lemma finite_shown:
  assumes "session_shows s g v"
  shows "finite (dom (sv_store v))" "finite (dom (sv_read v))" "finite (dom (sv_snap v))" "finite (dom (sv_visible v))"
proof -
  show f: "finite (dom (sv_store v))" using assms by (simp add: session_shows_def mem.finite_view)
  show "finite (dom (sv_read v))" "finite (dom (sv_snap v))"
    unfolding shown_reads [OF assms] using f assms
    by (auto simp: session_shows_def finite_dom_view split: option.splits)
  then show "finite (dom (sv_visible v))" by (simp add: sv_visible_def)
qed

text \<open>A call that only reads.\<close>

lemma computes_read:
  "(\<And>g. session_shows s g v \<Longrightarrow> m g = Some (r, g)) \<Longrightarrow> computes (session_shows s) m v r v"
  by (fastforce simp: computes_def)

lemma get_computes: "computes (session_shows s) (gw_txn_get s k) v (Inr (sv_read v k)) v"
  by (rule computes_read) (auto simp: gw_txn_get_def shown_reads txn_get_view split: option.splits)

lemma snapshot_get_computes: "computes (session_shows s) (gw_txn_snapshot_get s k) v (Inr (sv_snap v k)) v"
  by (rule computes_read) (auto simp: gw_txn_snapshot_get_def shown_reads txn_get_view split: option.splits)

lemma pending_computes: "computes (session_shows s) (gw_txn_has_pending_key s k) v (Inr (sv_pending v k)) v"
  by (rule computes_read)
    (auto simp: gw_txn_has_pending_key_def session_shows_def sv_pending_def txn_has_pending_key_def split: option.splits)

lemma scan_prefix_computes:
  "computes (session_shows s) (gw_txn_scan_prefix s p) v (Inr (scan_spec (sv_read v) (\<lambda>k. starts_with k p))) v"
  by (rule computes_read)
    (auto simp: gw_txn_scan_prefix_def shown_reads txn_scan_prefix_def materialize_prefix_view mem_scan_prefix_def
      sorted_filter_spec shown_inv split: option.splits)

lemma snapshot_scan_prefix_computes:
  "computes (session_shows s) (gw_txn_snapshot_scan_prefix s p) v (Inr (scan_spec (sv_snap v) (\<lambda>k. starts_with k p))) v"
  by (rule computes_read)
    (auto simp: gw_txn_snapshot_scan_prefix_def shown_reads txn_snapshot_scan_prefix_def materialize_prefix_view mem_scan_prefix_def
      sorted_filter_spec shown_inv split: option.splits)

definition range_rows :: "kv_view \<Rightarrow> range_scan \<Rightarrow> kv_rows" where
  "range_rows w r = take_limit (range_limit r) ((if range_reverse r then rev else id) (scan_spec w (in_range r)))"

lemma scan_range_computes: "computes (session_shows s) (gw_txn_scan_range s r) v (Inr (range_rows (sv_read v) r)) v"
  by (rule computes_read)
    (auto simp: gw_txn_scan_range_def shown_reads txn_scan_range_def materialize_range_view mem_scan_range_spec range_rows_def
      in_range_def [abs_def] shown_inv split: option.splits)

lemma snapshot_scan_range_computes:
  "computes (session_shows s) (gw_txn_snapshot_scan_range s r) v (Inr (range_rows (sv_snap v) r)) v"
  by (rule computes_read)
    (auto simp: gw_txn_snapshot_scan_range_def shown_reads txn_snapshot_scan_range_def materialize_range_view mem_scan_range_spec
      range_rows_def in_range_def [abs_def] shown_inv split: option.splits)

lemma visible_computes:
  assumes "computes (session_shows s) m1 v r1 v" "computes (session_shows s) m2 v r2 v"
  shows "computes (session_shows s) (\<lambda>g. if use_consistent_read s g then m1 g else m2 g) v (if sv_consistent v then r1 else r2) v"
  using assms by (auto simp: computes_def) (metis session_shows_def)+

lemma visible_get_computes: "computes (session_shows s) (visible_get s k) v (Inr (sv_visible v k)) v"
  unfolding visible_get_def
  using visible_computes [OF snapshot_get_computes [of s k v] get_computes [of s k v]]
  by (intro computes_catch) (simp add: sv_visible_def split: if_splits)

lemma visible_scan_prefix_computes:
  "computes (session_shows s) (visible_scan_prefix s p) v (Inr (scan_spec (sv_visible v) (\<lambda>k. starts_with k p))) v"
  unfolding visible_scan_prefix_def
  using visible_computes [OF snapshot_scan_prefix_computes [of s p v] scan_prefix_computes [of s p v]]
  by (intro computes_catch) (simp add: sv_visible_def split: if_splits)

lemma visible_scan_range_computes:
  "computes (session_shows s) (visible_scan_range s r) v (Inr (range_rows (sv_visible v) r)) v"
  unfolding visible_scan_range_def
  using visible_computes [OF snapshot_scan_range_computes [of s r v] scan_range_computes [of s r v]]
  by (intro computes_catch) (simp add: sv_visible_def split: if_splits)

text \<open>Writes.\<close>

lemma flags_put_txn [simp]:
  "is_repeatable_read_transaction s (put_txn sid t g) = is_repeatable_read_transaction s g"
  "use_consistent_read s (put_txn sid t g) = use_consistent_read s g"
  "is_repeatable_read_transaction s (g\<lparr>gw_store := h\<rparr>) = is_repeatable_read_transaction s g"
  "use_consistent_read s (g\<lparr>gw_store := h\<rparr>) = use_consistent_read s g"
  by (simp_all add: is_repeatable_read_transaction_def use_consistent_read_def put_txn_def split: option.splits)

lemma session_write_computes:
  assumes "\<And>t. txn_inv t \<Longrightarrow> txn_inv (f t) \<and> txn_snapshot (f t) = txn_snapshot t \<and> bt_get (txn_pending (f t)) = upd (bt_get (txn_pending t))"
    and "\<And>h. store_inv h \<Longrightarrow> store_inv (f' h) \<and> mem_get (f' h) = upd' (mem_get h)"
    and "\<And>w. sv_txn v = None \<Longrightarrow> v' = v\<lparr>sv_store := upd' (sv_store v)\<rparr>"
    and "\<And>snap pend. sv_txn v = Some (snap, pend) \<Longrightarrow> v' = v\<lparr>sv_txn := Some (snap, upd pend)\<rparr>"
  shows "computes (session_shows s) (session_write s f f') v (Inr ()) v'"
  unfolding computes_def
proof (intro allI impI)
  fix g assume g: "session_shows s g v"
  show "\<exists>g'. session_write s f f' g = Some (Inr (), g') \<and> session_shows s g' v'"
  proof (cases "session_txn s g")
    case None
    then have "session_txn s (g\<lparr>gw_store := f' (gw_store g)\<rparr>) = None" by (simp add: session_txn_def bind_eq_None_conv split: option.splits)
    with None g assms(2) [of "gw_store g"] show ?thesis
      by (auto simp: session_write_def session_shows_def assms(3) split: option.splits)
  next
    case (Some t)
    then obtain sid where s: "s = Some sid" using session_txn_Some by blast
    have "session_txn s (put_txn sid (f t) g) = Some (f t)" by (simp add: s session_txn_def put_txn_def)
    moreover have "gw_store (put_txn sid (f t) g) = gw_store g" by (simp add: put_txn_def)
    ultimately show ?thesis using Some g s assms(1) [of t] by (simp add: session_write_def session_shows_def assms(4))
  qed
qed

lemma put_computes: "computes (session_shows s) (gw_txn_put s k x) v (Inr ()) (sv_write k (Some x) v)"
  unfolding gw_txn_put_def
  by (rule session_write_computes [where upd = "\<lambda>p. p(k \<mapsto> Some x)" and upd' = "\<lambda>w. w(k \<mapsto> x)"])
    (auto simp: txn_inv_writes txn_put_def bt_get_insert fun_eq_iff store_inv_put mem_get_put sv_write_def txn_inv_def bt_inv_insert)

lemma delete_computes: "computes (session_shows s) (gw_txn_delete s k) v (Inr ()) (sv_write k None v)"
  unfolding gw_txn_delete_def
  by (rule session_write_computes [where upd = "\<lambda>p. p(k \<mapsto> None)" and upd' = "\<lambda>w. w(k := None)"])
    (auto simp: txn_delete_def bt_get_insert fun_eq_iff store_inv_delete mem_get_delete sv_write_def txn_inv_def bt_inv_insert)

lemma put_batch_computes: "computes (session_shows s) (gw_txn_put_batch s es) v (Inr ()) (sv_puts es v)"
  unfolding gw_txn_put_batch_def
proof (rule session_write_computes [where upd = "fold (\<lambda>(k, x) p. p(k \<mapsto> Some x)) es" and upd' = "fold (\<lambda>(k, x) w. w(k \<mapsto> x)) es"])
  fix t assume t: "txn_inv t"
  have "bt_inv p \<Longrightarrow> bt_inv (fold (\<lambda>(k, x). bt_insert k (Some x)) es p) \<and>
      bt_get (fold (\<lambda>(k, x). bt_insert k (Some x)) es p) = fold (\<lambda>(k, x) p. p(k \<mapsto> Some x)) es (bt_get p)" for p
  proof (induction es arbitrary: p)
    case (Cons e es)
    have "bt_get (bt_insert k (Some x) p) = (bt_get p)(k \<mapsto> Some x)" for k x by (auto simp: bt_get_insert)
    then show ?case using Cons by (auto simp: bt_inv_insert split_beta)
  qed simp
  then show "txn_inv (txn_put_batch es t) \<and> txn_snapshot (txn_put_batch es t) = txn_snapshot t \<and>
      bt_get (txn_pending (txn_put_batch es t)) = fold (\<lambda>(k, x) p. p(k \<mapsto> Some x)) es (bt_get (txn_pending t))"
    using t by (simp add: txn_inv_def txn_put_batch_def)
next
  show "store_inv (mem_put_batch es h) \<and> mem_get (mem_put_batch es h) = fold (\<lambda>(k, x) w. w(k \<mapsto> x)) es (mem_get h)"
    if "store_inv h" for h by (simp add: store_inv_put_batch that mem_get_put_batch)
next
  assume "sv_txn v = None"
  then show "sv_puts es v = v\<lparr>sv_store := fold (\<lambda>(k, x) w. w(k \<mapsto> x)) es (sv_store v)\<rparr>"
    unfolding sv_puts_def
    by (induction es arbitrary: v) (auto simp: sv_write_def split_beta)
next
  fix snap pend assume "sv_txn v = Some (snap, pend)"
  then show "sv_puts es v = v\<lparr>sv_txn := Some (snap, fold (\<lambda>(k, x) p. p(k \<mapsto> Some x)) es pend)\<rparr>"
    unfolding sv_puts_def
    by (induction es arbitrary: v pend) (auto simp: sv_write_def split_beta)
qed

lemma sv_puts_seen [simp]:
  "sv_read (sv_puts es v) = fold (\<lambda>(k, x) w. w(k \<mapsto> x)) es (sv_read v)"
  "sv_visible (sv_puts es v) = fold (\<lambda>(k, x) w. w(k \<mapsto> x)) es (sv_visible v)"
  "sv_repeatable (sv_puts es v) = sv_repeatable v" "sv_consistent (sv_puts es v) = sv_consistent v"
  unfolding sv_puts_def by (induction es arbitrary: v) (auto simp: split_beta)

lemma sv_puts_store_other: "k \<notin> fst ` set es \<Longrightarrow> sv_store (sv_puts es v) k = sv_store v k"
  unfolding sv_puts_def by (induction es arbitrary: v) (auto simp: sv_write_store_other split_beta)

section \<open>The catalog of a session\<close>

lemma store_call_computes:
  assumes "computes ref_holds m w r w'"
  shows "computes (\<lambda>g w. session_shows s g (v\<lparr>sv_store := w\<rparr>)) (store_call m) w r w'"
  unfolding computes_def
proof (intro allI impI)
  fix g assume g: "session_shows s g (v\<lparr>sv_store := w\<rparr>)"
  then have "ref_holds (gw_store g) w" by (simp add: session_shows_def ref_holds_def)
  with assms obtain h where h: "m (gw_store g) = Some (r, h)" "ref_holds h w'" by (auto simp: computes_def)
  have "session_txn s (g\<lparr>gw_store := h\<rparr>) = session_txn s g" by (simp add: session_txn_def)
  then show "\<exists>g'. store_call m g = Some (r, g') \<and> session_shows s g' (v\<lparr>sv_store := w'\<rparr>)"
    using g h by (cases "session_txn s g") (simp_all add: store_call_def session_shows_def ref_holds_def)
qed

interpretation gateway_catalog: kv_implementation gateway_store "\<lambda>g w. session_shows s g (v\<lparr>sv_store := w\<rparr>)" for s v
proof (unfold_locales, goal_cases)
  case (1 g w)
  then show ?case using finite_shown(1) [OF 1] by simp
qed (simp_all add: gateway_store_def store_call_computes mem_store.get mem_store.put mem_store.delete mem_store.put_batch
  mem_store.scan_prefix mem_store.scan_range)

text \<open>A catalog program of a session: what it does to the store, the session sees.\<close>

lemma on_store:
  assumes "\<And>v. computes (\<lambda>g w. session_shows s g (v\<lparr>sv_store := w\<rparr>)) m (sv_store v) r w'"
  shows "computes (session_shows s) m v r (v\<lparr>sv_store := w'\<rparr>)"
  using assms [of v] by (simp add: computes_def)

lemma on_store_read:
  assumes "computes (\<lambda>g w. session_shows s g (v\<lparr>sv_store := w\<rparr>)) m (sv_store v) r (sv_store v)"
  shows "computes (session_shows s) m v r v"
  using assms by (simp add: computes_def)

end
