(* ===== verification/Row_Access.thy ===== *)
theory Row_Access
  imports Session_Laws Value_Order Olap_Stats
begin

text \<open>
  How a session reads the rows of a table (\<open>core/server/executor_reads.rs\<close>, \<open>scans.rs\<close>), and the
  counters behind row ids and sequences (\<open>transactions.rs\<close>, \<open>shared.rs\<close>). A filter is the predicate
  \<open>row_matches_filter\<close> gives for the filter's expression and the table's schema. A row is looked for
  under its key first and then among the cells of the older format.
\<close>

section \<open>Sequences\<close>

definition sequence_state_key :: "string \<Rightarrow> string \<Rightarrow> string \<Rightarrow> bytes" where
  "sequence_state_key db sn q = as_bytes (''__catalog__/sequences/'' @ db @ ''/'' @ sn @ ''/'' @ q)"

definition encode_sequence_state :: "i64 \<Rightarrow> i64 \<Rightarrow> bytes" where
  "encode_sequence_state nxt increment = to_be_bytes nxt @ to_be_bytes increment"

definition decode_sequence_state :: "bytes \<Rightarrow> (i64 \<times> i64) res" where
  "decode_sequence_state bs =
     (if length bs \<noteq> 16 then Inl (user_error ''XX000'' ''sequence state is malformed'')
      else Inr (from_be_bytes (take 8 bs), from_be_bytes (drop 8 bs)))"

definition store_get_bytes :: "bytes \<Rightarrow> (gateway, bytes option) prog" where
  "store_get_bytes key = st_catch (kv_get gateway_store key)"

definition store_put_bytes :: "bytes \<Rightarrow> bytes \<Rightarrow> (gateway, unit) prog" where
  "store_put_bytes key v = st_catch (kv_put gateway_store key v)"

text \<open>\<open>i64 + 1\<close> panics when it overflows in a build with overflow checks, and wraps in a release
  build; the model wraps.\<close>

definition allocate_internal_row_id :: "u32 \<Rightarrow> (gateway, column_value) prog" where
  "allocate_internal_row_id tid =
     (let key = as_bytes (''__catalog__/tables/next-row-id/'' @ show_nat (unat tid)) in
      st_bind (store_get_bytes key) (\<lambda>cur.
      st_bind (st_lift (case cur of
           None \<Rightarrow> Inr 1
         | Some bs \<Rightarrow> if length bs \<noteq> 8 then Inl (user_error ''XX000'' ''row id counter is malformed'')
                     else Inr (from_be_bytes bs + 1))) (\<lambda>nxt :: i64.
      st_seq (store_put_bytes key (to_be_bytes nxt)) (st_return (VInt64 nxt)))))"

definition resolve_sequence_name :: "string \<Rightarrow> string \<Rightarrow> (string \<times> string) res" where
  "resolve_sequence_name dsn q =
     (if CHR ''.'' \<in> set q then resolve_table_reference q else Inr (dsn, q))"

definition no_sequence :: "string \<Rightarrow> string \<Rightarrow> pg_error" where
  "no_sequence sn q = user_error ''42P01'' (quoted ''sequence '' (sn @ ''.'' @ q) '' does not exist'')"

definition create_sequence_at :: "string \<Rightarrow> string \<Rightarrow> string \<Rightarrow> bool \<Rightarrow> i64 \<Rightarrow> i64 \<Rightarrow> (gateway, unit) prog" where
  "create_sequence_at db sn q if_not_exists start increment =
     (let key = sequence_state_key db sn q in
      st_bind (store_get_bytes key) (\<lambda>cur.
        if cur \<noteq> None then
          (if if_not_exists then st_return ()
           else st_raise (user_error ''42P07'' (quoted ''sequence '' (sn @ ''.'' @ q) '' already exists'')))
        else store_put_bytes key (encode_sequence_state start increment)))"

text \<open>The state of a sequence, as three operations read it.\<close>

definition sequence_state :: "string \<Rightarrow> string \<Rightarrow> string \<Rightarrow> (gateway, bytes \<times> i64 \<times> i64) prog" where
  "sequence_state db dsn q =
     st_bind (st_lift (resolve_sequence_name dsn q)) (\<lambda>(sn, n).
     let key = sequence_state_key db sn n in
     st_bind (st_require (no_sequence sn n) (store_get_bytes key)) (\<lambda>bs.
     st_bind (st_lift (decode_sequence_state bs)) (\<lambda>(current, increment). st_return (key, current, increment))))"

definition checked_add_i64 :: "i64 \<Rightarrow> i64 \<Rightarrow> i64 option" where
  "checked_add_i64 a b =
     (let x = sint a + sint b in if - (2 ^ 63) \<le> x \<and> x < 2 ^ 63 then Some (word_of_int x) else None)"

definition sequence_value :: "data_type \<Rightarrow> i64 \<Rightarrow> column_value res" where
  "sequence_value dt current =
     (let narrow16 = (\<lambda>msg. if - (2 ^ 15) \<le> sint current \<and> sint current < 2 ^ 15
            then Inr (VInt16 (word_of_int (sint current))) else Inl (user_error ''22003'' msg));
          narrow32 = (\<lambda>msg. if - (2 ^ 31) \<le> sint current \<and> sint current < 2 ^ 31
            then Inr (VInt32 (word_of_int (sint current))) else Inl (user_error ''22003'' msg))
      in case dt of
        TInt16 \<Rightarrow> narrow16 ''sequence value is out of range for INT2''
      | TInt32 \<Rightarrow> narrow32 ''sequence value is out of range for INT4''
      | TInt64 \<Rightarrow> Inr (VInt64 current)
      | TMySqlInt ik uns \<Rightarrow>
          if ik \<in> {Tiny, Small} \<and> \<not> uns then narrow16 ''sequence value is out of range''
          else if ik \<in> {Medium, IntKind} \<and> \<not> uns then narrow32 ''sequence value is out of range''
          else Inr (VInt64 current)
      | _ \<Rightarrow> Inr (VInt64 current))"

definition allocate_sequence_value :: "string \<Rightarrow> string \<Rightarrow> string \<Rightarrow> data_type \<Rightarrow> (gateway, column_value) prog" where
  "allocate_sequence_value db dsn q dt =
     st_bind (sequence_state db dsn q) (\<lambda>(key, current, increment).
     st_bind (st_lift (ok_or (checked_add_i64 current increment) (user_error ''2200H'' ''sequence generator limit exceeded''))) (\<lambda>nxt.
     st_seq (store_put_bytes key (encode_sequence_state nxt increment)) (st_lift (sequence_value dt current))))"

definition advance_sequence_to_at_least :: "string \<Rightarrow> string \<Rightarrow> string \<Rightarrow> i64 \<Rightarrow> (gateway, unit) prog" where
  "advance_sequence_to_at_least db dsn q minimum_next =
     st_bind (sequence_state db dsn q) (\<lambda>(key, current, increment).
       if sint minimum_next > sint current then store_put_bytes key (encode_sequence_state minimum_next increment)
       else st_return ())"

text \<open>\<open>default_expr.rs\<close>: the sequence a default draws from. \<open>trim_matches\<close> takes the character off
  both ends, \<open>trim_end_matches\<close> the text off the end, as often as it is there.\<close>

function trim_end_text :: "string \<Rightarrow> string \<Rightarrow> string" where
  "trim_end_text suf s =
     (case strip_suffix suf s of None \<Rightarrow> s | Some r \<Rightarrow> if suf = [] then s else trim_end_text suf r)"
  by pat_completeness auto
termination
  by (relation "measure (\<lambda>(suf, s). length s)")
    (auto simp: strip_suffix_eq_Some)

declare trim_end_text.simps [simp del]

definition nextval_sequence_name :: "string \<Rightarrow> string option" where
  "nextval_sequence_name default_sql =
     (let lower = to_ascii_lowercase (trim default_sql) in
      if \<not> starts_with lower ''nextval('' \<or> strip_suffix '')'' lower = None then None
      else Option.bind (strip_prefix ''nextval('' (trim default_sql)) (\<lambda>a.
           map_option (\<lambda>b. trim_matches (CHR 0x27) (trim_end_text ''::regclass'' (trim_matches (CHR 0x22) (trim_matches (CHR 0x27) (trim b)))))
             (strip_suffix '')'' a)))"

definition mysql_auto_increment_column :: "table_schema \<Rightarrow> column_schema option" where
  "mysql_auto_increment_column sch =
     find (\<lambda>c. (col_primary_key c \<or> col_name c = primary_key sch) \<and>
               Option.bind (col_default c) nextval_sequence_name \<noteq> None) (columns sch)"

definition column_value_to_i64 :: "column_value \<Rightarrow> i64 option" where
  "column_value_to_i64 v =
     (case v of
        VInt16 i \<Rightarrow> Some (word_of_int (sint i))
      | VInt32 i \<Rightarrow> Some (word_of_int (sint i))
      | VInt64 i \<Rightarrow> Some i
      | VNumeric t \<Rightarrow> map_option word_of_int (parse_signed 64 t)
      | VText t \<Rightarrow> map_option word_of_int (parse_signed 64 t)
      | _ \<Rightarrow> None)"

definition saturating_succ_i64 :: "i64 \<Rightarrow> i64" where
  "saturating_succ_i64 a = (if sint a = 2 ^ 63 - 1 then a else a + 1)"

definition advance_auto_increment_from_row :: "string \<Rightarrow> string \<Rightarrow> table_schema \<Rightarrow> row_map \<Rightarrow> (gateway, i64 option) prog" where
  "advance_auto_increment_from_row db sn sch row =
     (case mysql_auto_increment_column sch of
        None \<Rightarrow> st_return None
      | Some c \<Rightarrow>
          case Option.bind (row (col_name c)) column_value_to_i64 of
            None \<Rightarrow> st_return None
          | Some value \<Rightarrow>
              st_seq (case Option.bind (col_default c) nextval_sequence_name of
                        None \<Rightarrow> st_return ()
                      | Some q \<Rightarrow> advance_sequence_to_at_least db sn q (saturating_succ_i64 value))
                (st_return (Some value)))"

definition reset_auto_increment_sequence :: "string \<Rightarrow> string \<Rightarrow> table_schema \<Rightarrow> (gateway, unit) prog" where
  "reset_auto_increment_sequence db sn sch =
     (case mysql_auto_increment_column sch of
        None \<Rightarrow> st_return ()
      | Some c \<Rightarrow>
          case Option.bind (col_default c) nextval_sequence_name of
            None \<Rightarrow> st_return ()
          | Some q \<Rightarrow> st_bind (sequence_state db sn q) (\<lambda>(key, _, increment).
              store_put_bytes key (encode_sequence_state 1 increment)))"

text \<open>\<open>column_default_value\<close> parses the default with the SQL parser and evaluates the expression; it is
  a parameter.\<close>

definition column_default_value_at ::
    "(string \<Rightarrow> data_type \<Rightarrow> column_value res) \<Rightarrow> string \<Rightarrow> string \<Rightarrow> column_schema \<Rightarrow> (gateway, column_value) prog" where
  "column_default_value_at column_default_value db sn c =
     (case col_default c of
        None \<Rightarrow> st_return VNull
      | Some default_sql \<Rightarrow>
          case nextval_sequence_name default_sql of
            Some q \<Rightarrow> allocate_sequence_value db sn q (col_type c)
          | None \<Rightarrow> st_lift (column_default_value default_sql (col_type c)))"

section \<open>One row\<close>

fun read_cells ::
    "i32 option \<Rightarrow> string \<Rightarrow> string \<Rightarrow> string \<Rightarrow> column_value \<Rightarrow> column_schema list \<Rightarrow> row_map \<Rightarrow> (gateway, row_map) prog" where
  "read_cells s db sn tn pk [] row = st_return row"
| "read_cells s db sn tn pk (c # cs) row =
     st_bind (st_lift (cell_key db sn tn (col_name c) pk)) (\<lambda>key.
     st_bind (visible_get s key) (\<lambda>value.
     st_bind (st_lift (case value of Some bs \<Rightarrow> decode_cell_value (col_type c) bs | None \<Rightarrow> Inr VNull)) (\<lambda>d.
       read_cells s db sn tn pk cs (row(col_name c \<mapsto> d)))))"

definition decoded :: "table_schema \<Rightarrow> bytes \<Rightarrow> (gateway, row_map option) prog" where
  "decoded sch bs = st_bind (st_lift (decode_row_record sch bs)) (\<lambda>row. st_return (Some row))"

definition read_legacy_row ::
    "i32 option \<Rightarrow> string \<Rightarrow> string \<Rightarrow> table_schema \<Rightarrow> column_value \<Rightarrow> (gateway, row_map option) prog" where
  "read_legacy_row s db sn sch pk =
     st_bind (st_lift (row_marker_key db sn (table_name sch) pk)) (\<lambda>marker.
     st_bind (visible_get s marker) (\<lambda>found.
       if found = None then st_return None
       else st_bind (read_cells s db sn (table_name sch) pk (columns sch) Map.empty) (\<lambda>row. st_return (Some row))))"

definition read_visible_row_at ::
    "i32 option \<Rightarrow> string \<Rightarrow> string \<Rightarrow> table_schema \<Rightarrow> column_value \<Rightarrow> (gateway, row_map option) prog" where
  "read_visible_row_at s db sn sch pk =
     (let key = row_key (table_id sch) (table_epoch sch) pk in
      st_bind (\<lambda>g. if has_active_transaction s g then st_catch (gw_txn_has_pending_key s key) g else Some (Inr False, g)) (\<lambda>pending.
        if pending then
          st_bind (st_catch (gw_txn_get s key)) (\<lambda>value.
            case value of Some bs \<Rightarrow> decoded sch bs | None \<Rightarrow> st_return None)
        else
          st_bind (visible_get s key) (\<lambda>value.
            case value of Some bs \<Rightarrow> decoded sch bs | None \<Rightarrow> read_legacy_row s db sn sch pk)))"

definition ensure_row_write_not_stale :: "i32 option \<Rightarrow> table_schema \<Rightarrow> column_value \<Rightarrow> (gateway, unit) prog" where
  "ensure_row_write_not_stale s sch pk =
     (let key = row_key (table_id sch) (table_epoch sch) pk in
      (\<lambda>g. if \<not> is_repeatable_read_transaction s g then st_return () g
          else st_bind (st_catch (gw_txn_has_pending_key s key)) (\<lambda>pending.
            if pending then st_return ()
            else
              st_bind (st_catch (gw_txn_snapshot_get s key)) (\<lambda>snapshot.
              st_bind (store_get_bytes key) (\<lambda>latest.
                if snapshot \<noteq> latest
                then st_raise (user_error ''40001'' ''could not serialize access due to concurrent update'')
                else st_return ()))) g))"

text \<open>\<open>read_visible_rows_by_pk_in_at\<close>: without a transaction the records are fetched at once, and rows of
  the older format are not looked for.\<close>

definition keep_some :: "'a option list \<Rightarrow> 'a list" where
  "keep_some xs = map the (filter (\<lambda>x. x \<noteq> None) xs)"

definition read_visible_rows_by_pk_in_at ::
    "i32 option \<Rightarrow> string \<Rightarrow> string \<Rightarrow> table_schema \<Rightarrow> column_value list \<Rightarrow> (gateway, row_map list) prog" where
  "read_visible_rows_by_pk_in_at s db sn sch pks =
     (\<lambda>g. if pks = [] then st_return [] g
          else if has_active_transaction s g then
            st_bind (st_collect (read_visible_row_at s db sn sch) pks) (\<lambda>rows. st_return (keep_some rows)) g
          else
            st_bind (st_lift (Inr (mem_multi_get (gw_store g) (map (row_key (table_id sch) (table_epoch sch)) pks)))) (\<lambda>found.
              st_collect (\<lambda>bs. st_lift (decode_row_record sch bs)) (keep_some found)) g)"

section \<open>Scans\<close>

type_synonym row_filter = "(row_map \<Rightarrow> bool) option"
type_synonym row_entries = "(column_value \<times> row_map) list"
type_synonym key_bound = "(column_value \<times> bool) option"

definition passes :: "row_filter \<Rightarrow> row_map \<Rightarrow> bool" where
  "passes flt row = (case flt of None \<Rightarrow> True | Some p \<Rightarrow> p row)"

text \<open>The loop of every scan: read an entry, filter, skip the offset, stop at the limit. The result
  carries the offset still to skip and whether the limit was reached.\<close>

fun take_rows ::
    "('k \<Rightarrow> (gateway, (column_value \<times> row_map) option) prog) \<Rightarrow> row_filter \<Rightarrow> nat option \<Rightarrow> nat \<Rightarrow> row_entries \<Rightarrow> 'k list
       \<Rightarrow> (gateway, row_entries \<times> nat \<times> bool) prog" where
  "take_rows rd flt lmt off acc [] = st_return (acc, off, False)"
| "take_rows rd flt lmt off acc (k # ks) =
     st_bind (rd k) (\<lambda>found.
       case found of
         None \<Rightarrow> take_rows rd flt lmt off acc ks
       | Some (pk, row) \<Rightarrow>
           if \<not> passes flt row then take_rows rd flt lmt off acc ks
           else if off > 0 then take_rows rd flt lmt (off - 1) acc ks
           else let acc' = acc @ [(pk, row)] in
                if (case lmt of None \<Rightarrow> False | Some n \<Rightarrow> n \<le> length acc') then st_return (acc', off, True)
                else take_rows rd flt lmt off acc' ks)"

definition all_rows ::
    "('k \<Rightarrow> (gateway, (column_value \<times> row_map) option) prog) \<Rightarrow> row_filter \<Rightarrow> 'k list \<Rightarrow> (gateway, row_entries) prog" where
  "all_rows rd flt ks = st_bind (take_rows rd flt None 0 [] ks) (\<lambda>(rows, _, _). st_return rows)"

text \<open>The ways an entry becomes a row: from the record scanned, or read again under its primary key.\<close>

definition entry_record :: "table_schema \<Rightarrow> bytes \<times> bytes \<Rightarrow> (gateway, (column_value \<times> row_map) option) prog" where
  "entry_record sch kv =
     st_bind (st_lift (decode_pk_from_row_key (fst kv) (table_id sch) (table_epoch sch) (pk_data_type sch))) (\<lambda>pk.
     st_bind (st_lift (decode_row_record sch (snd kv))) (\<lambda>row. st_return (Some (pk, row))))"

definition reread ::
    "i32 option \<Rightarrow> string \<Rightarrow> string \<Rightarrow> table_schema \<Rightarrow> column_value res \<Rightarrow> (gateway, (column_value \<times> row_map) option) prog" where
  "reread s db sn sch r =
     st_bind (st_lift r) (\<lambda>pk.
     st_bind (read_visible_row_at s db sn sch pk) (\<lambda>row. st_return (map_option (Pair pk) row)))"

definition entry_reread ::
    "i32 option \<Rightarrow> string \<Rightarrow> string \<Rightarrow> table_schema \<Rightarrow> bytes \<times> bytes \<Rightarrow> (gateway, (column_value \<times> row_map) option) prog" where
  "entry_reread s db sn sch kv =
     reread s db sn sch (decode_pk_from_row_key (fst kv) (table_id sch) (table_epoch sch) (pk_data_type sch))"

definition marker_reread ::
    "i32 option \<Rightarrow> string \<Rightarrow> string \<Rightarrow> table_schema \<Rightarrow> bytes \<times> bytes \<Rightarrow> (gateway, (column_value \<times> row_map) option) prog" where
  "marker_reread s db sn sch kv =
     reread s db sn sch (decode_pk_from_row_marker_key (fst kv) db sn (table_name sch) (pk_data_type sch))"

definition scan_visible_row_entries_at ::
    "i32 option \<Rightarrow> string \<Rightarrow> string \<Rightarrow> table_schema \<Rightarrow> row_filter \<Rightarrow> (gateway, row_entries) prog" where
  "scan_visible_row_entries_at s db sn sch flt =
     st_bind (visible_scan_range s (row_range (table_id sch) (table_epoch sch) None)) (\<lambda>entries.
       if entries \<noteq> [] then all_rows (entry_record sch) flt entries
       else
         st_bind (visible_scan_prefix s (row_marker_prefix db sn (table_name sch))) (\<lambda>markers.
           all_rows (marker_reread s db sn sch) flt markers))"

definition scan_visible_rows_at ::
    "i32 option \<Rightarrow> string \<Rightarrow> string \<Rightarrow> table_schema \<Rightarrow> row_filter \<Rightarrow> (gateway, row_map list) prog" where
  "scan_visible_rows_at s db sn sch flt =
     st_bind (scan_visible_row_entries_at s db sn sch flt) (\<lambda>rows. st_return (map snd rows))"

subsection \<open>Ranges of primary keys\<close>

definition FILTERED_LIMIT_SCAN_BATCH_SIZE :: nat where "FILTERED_LIMIT_SCAN_BATCH_SIZE = 4096"

definition filtered_limit_scan_batch_size :: "nat option \<Rightarrow> nat \<Rightarrow> nat" where
  "filtered_limit_scan_batch_size lmt off =
     min (max (case lmt of Some n \<Rightarrow> saturating_mul_usize (saturating_add_usize n off) 4 | None \<Rightarrow> FILTERED_LIMIT_SCAN_BATCH_SIZE) 256)
       FILTERED_LIMIT_SCAN_BATCH_SIZE"

text \<open>The loop over batches inside a transaction: it continues after the last key of a full batch.
  \<open>None\<close> when it does not end.\<close>

partial_function (option) v2_batches ::
    "i32 option \<Rightarrow> string \<Rightarrow> string \<Rightarrow> table_schema \<Rightarrow> key_bound \<Rightarrow> row_filter \<Rightarrow> nat option \<Rightarrow> nat \<Rightarrow>
       key_bound \<Rightarrow> nat \<Rightarrow> row_entries \<Rightarrow> bool \<Rightarrow> gateway \<Rightarrow> ((row_entries \<times> bool) res \<times> gateway) option" where
  "v2_batches s db sn sch upper flt lmt batch lower off acc saw g =
     Option.bind (visible_scan_range s (row_range_between (table_id sch) (table_epoch sch) lower upper (Some batch)) g) (\<lambda>(r, g1).
       case r of
         Inl e \<Rightarrow> Some (Inl e, g1)
       | Inr entries \<Rightarrow>
           if entries = [] then Some (Inr (acc, saw), g1)
           else Option.bind (take_rows (entry_reread s db sn sch) flt lmt off acc entries g1) (\<lambda>(r, g2).
             case r of
               Inl e \<Rightarrow> Some (Inl e, g2)
             | Inr (rows, off', stop) \<Rightarrow>
                 if stop \<or> length entries < batch then Some (Inr (rows, True), g2)
                 else case decode_pk_from_row_key (fst (last entries)) (table_id sch) (table_epoch sch) (pk_data_type sch) of
                   Inl e \<Rightarrow> Some (Inl e, g2)
                 | Inr pk \<Rightarrow> v2_batches s db sn sch upper flt lmt batch (Some (pk, False)) off' rows True g2))"

text \<open>Without a transaction one visitor runs over the range. Its state is the rows taken, the offset
  still to skip and whether it saw an entry. An error is passed on as a text.\<close>

definition limit_visitor :: "table_schema \<Rightarrow> row_filter \<Rightarrow> nat option \<Rightarrow> (row_entries \<times> nat \<times> bool) visitor" where
  "limit_visitor sch flt lmt key value st =
     (let (rows, off, _) = st in
      res_bind (decode_pk_from_row_key key (table_id sch) (table_epoch sch) (pk_data_type sch)) (\<lambda>pk.
      res_bind (ok_or value (user_error ''XX000'' ''v2 row visitor missing row value'')) (\<lambda>bs.
      res_bind (decode_row_record sch bs) (\<lambda>row.
        if \<not> passes flt row then Inr (True, (rows, off, True))
        else if off > 0 then Inr (True, (rows, off - 1, True))
        else let rows' = rows @ [(pk, row)] in
             Inr (\<not> (case lmt of None \<Rightarrow> False | Some n \<Rightarrow> n \<le> length rows'), (rows', off, True))))))"

definition scan_v2_row_entries_by_pk_range_batched_at ::
    "i32 option \<Rightarrow> string \<Rightarrow> string \<Rightarrow> table_schema \<Rightarrow> key_bound \<Rightarrow> key_bound \<Rightarrow> row_filter \<Rightarrow> nat option \<Rightarrow> nat \<Rightarrow>
       (gateway, row_entries \<times> bool) prog" where
  "scan_v2_row_entries_by_pk_range_batched_at s db sn sch lower upper flt lmt off =
     (\<lambda>g. if \<not> has_active_transaction s g then
            (let r = row_range_between (table_id sch) (table_epoch sch) lower upper None in
             st_bind (st_catch (\<lambda>g. Some (mem_visit_range (gw_store g) (range_start r) (range_end r) (range_reverse r) KeyValue
                 (limit_visitor sch flt lmt) ([], off, False), g)))
               (\<lambda>(rows, _, saw). st_return (rows, saw)) g)
          else v2_batches s db sn sch upper flt lmt (filtered_limit_scan_batch_size lmt off) lower off [] False g)"

text \<open>The range of row markers between two bounds.\<close>

definition marker_start :: "string \<Rightarrow> string \<Rightarrow> string \<Rightarrow> key_bound \<Rightarrow> bytes res" where
  "marker_start db sn tn lower =
     (case lower of
        Some (v, incl) \<Rightarrow> res_bind (row_marker_key db sn tn v) (\<lambda>key. Inr (if incl then key else key @ [0]))
      | None \<Rightarrow> Inr (row_marker_prefix db sn tn))"

definition marker_end :: "string \<Rightarrow> string \<Rightarrow> string \<Rightarrow> key_bound \<Rightarrow> bytes option res" where
  "marker_end db sn tn upper =
     (case upper of
        Some (v, incl) \<Rightarrow> res_bind (row_marker_key db sn tn v) (\<lambda>key. Inr (Some (if incl then key @ [0] else key)))
      | None \<Rightarrow> Inr (next_prefix (row_marker_prefix db sn tn)))"

definition storage_limit :: "row_filter \<Rightarrow> nat option \<Rightarrow> nat \<Rightarrow> nat option" where
  "storage_limit flt lmt off = (if flt = None then map_option (\<lambda>n. saturating_add_usize n off) lmt else None)"

definition scan_legacy_row_marker_entries_by_pk_range_at ::
    "i32 option \<Rightarrow> string \<Rightarrow> string \<Rightarrow> table_schema \<Rightarrow> key_bound \<Rightarrow> key_bound \<Rightarrow> row_filter \<Rightarrow> nat option \<Rightarrow> nat \<Rightarrow>
       (gateway, row_entries) prog" where
  "scan_legacy_row_marker_entries_by_pk_range_at s db sn sch lower upper flt lmt off =
     st_bind (st_lift (marker_start db sn (table_name sch) lower)) (\<lambda>start.
     st_bind (st_lift (marker_end db sn (table_name sch) upper)) (\<lambda>end'.
     st_bind (visible_scan_range s
         \<lparr>range_start = start, range_end = end', range_limit = storage_limit flt lmt off, range_reverse = False\<rparr>) (\<lambda>entries.
     st_bind (take_rows (marker_reread s db sn sch) flt lmt off [] entries) (\<lambda>(rows, _, _). st_return rows))))"

partial_function (option) legacy_batches ::
    "i32 option \<Rightarrow> string \<Rightarrow> string \<Rightarrow> table_schema \<Rightarrow> bytes option \<Rightarrow> row_filter \<Rightarrow> nat option \<Rightarrow> nat \<Rightarrow>
       bytes \<Rightarrow> nat \<Rightarrow> row_entries \<Rightarrow> gateway \<Rightarrow> (row_entries res \<times> gateway) option" where
  "legacy_batches s db sn sch end' flt lmt batch start off acc g =
     Option.bind (visible_scan_range s
         \<lparr>range_start = start, range_end = end', range_limit = Some batch, range_reverse = False\<rparr> g) (\<lambda>(r, g1).
       case r of
         Inl e \<Rightarrow> Some (Inl e, g1)
       | Inr entries \<Rightarrow>
           if entries = [] then Some (Inr acc, g1)
           else Option.bind (take_rows (marker_reread s db sn sch) flt lmt off acc entries g1) (\<lambda>(r, g2).
             case r of
               Inl e \<Rightarrow> Some (Inl e, g2)
             | Inr (rows, off', stop) \<Rightarrow>
                 if stop \<or> length entries < batch then Some (Inr rows, g2)
                 else legacy_batches s db sn sch end' flt lmt batch (fst (last entries) @ [0]) off' rows g2))"

definition scan_legacy_row_marker_entries_by_pk_range_batched_at ::
    "i32 option \<Rightarrow> string \<Rightarrow> string \<Rightarrow> table_schema \<Rightarrow> key_bound \<Rightarrow> key_bound \<Rightarrow> row_filter \<Rightarrow> nat option \<Rightarrow> nat \<Rightarrow>
       (gateway, row_entries) prog" where
  "scan_legacy_row_marker_entries_by_pk_range_batched_at s db sn sch lower upper flt lmt off =
     st_bind (st_lift (marker_start db sn (table_name sch) lower)) (\<lambda>start.
     st_bind (st_lift (marker_end db sn (table_name sch) upper)) (\<lambda>end'.
       legacy_batches s db sn sch end' flt lmt (filtered_limit_scan_batch_size lmt off) start off []))"

definition scan_visible_row_entries_by_pk_range_at ::
    "i32 option \<Rightarrow> string \<Rightarrow> string \<Rightarrow> table_schema \<Rightarrow> key_bound \<Rightarrow> key_bound \<Rightarrow> row_filter \<Rightarrow> nat option \<Rightarrow> nat \<Rightarrow>
       (gateway, row_entries) prog" where
  "scan_visible_row_entries_by_pk_range_at s db sn sch lower upper flt lmt off =
     (if flt \<noteq> None \<and> lmt \<noteq> None then
        st_bind (scan_v2_row_entries_by_pk_range_batched_at s db sn sch lower upper flt lmt off) (\<lambda>(rows, saw).
          if saw then st_return rows
          else scan_legacy_row_marker_entries_by_pk_range_batched_at s db sn sch lower upper flt lmt off)
      else
        st_bind (visible_scan_range s
            (row_range_between (table_id sch) (table_epoch sch) lower upper (storage_limit flt lmt off))) (\<lambda>entries.
          if entries \<noteq> [] then
            st_bind (take_rows (entry_reread s db sn sch) flt lmt off [] entries) (\<lambda>(rows, _, _). st_return rows)
          else scan_legacy_row_marker_entries_by_pk_range_at s db sn sch lower upper flt lmt off))"

subsection \<open>Indexes\<close>

definition next_key_prefix :: "bytes \<Rightarrow> bytes option" where
  "next_key_prefix p = next_prefix_loop (length p) p"

text \<open>The end of a prefix range written out in the scans: a prefix of \<open>0xFF\<close> bytes is its own end.\<close>

definition prefix_upper :: "bytes \<Rightarrow> bytes" where
  "prefix_upper p = (case next_prefix_loop (length p) p of Some u \<Rightarrow> u | None \<Rightarrow> p)"

definition index_value_range :: "u32 \<Rightarrow> column_value \<Rightarrow> range_scan" where
  "index_value_range iid v =
     \<lparr>range_start = index_prefix iid v, range_end = Some (prefix_upper (index_prefix iid v)), range_limit = None,
      range_reverse = False\<rparr>"

definition scan_index_row_entries_at ::
    "json_lib \<Rightarrow> i32 option \<Rightarrow> string \<Rightarrow> string \<Rightarrow> table_schema \<Rightarrow> string \<Rightarrow> column_value \<Rightarrow> row_filter \<Rightarrow>
       (gateway, row_entries) prog" where
  "scan_index_row_entries_at lib s db sn sch index value flt =
     st_bind (list_indexes_for_table lib gateway_store (table_id sch)) (\<lambda>indexes.
     let legacy =
           st_bind (visible_scan_prefix s (index_entry_prefix db sn (table_name sch) index value)) (\<lambda>entries.
             all_rows (\<lambda>kv. reread s db sn sch
                 (legacy_decode_pk_from_index_entry_key (fst kv) db sn (table_name sch) index value (pk_data_type sch)))
               flt entries)
     in case find (\<lambda>x. ix_name x = index) indexes of
          None \<Rightarrow> legacy
        | Some x \<Rightarrow>
            st_bind (visible_scan_range s (index_value_range (ix_id x) value)) (\<lambda>entries.
              if entries \<noteq> [] then
                all_rows (\<lambda>kv. reread s db sn sch
                    (decode_pk_from_index_entry_key (fst kv) (ix_id x) value (pk_data_type sch))) flt entries
              else legacy))"

definition scan_index_rows_at ::
    "json_lib \<Rightarrow> i32 option \<Rightarrow> string \<Rightarrow> string \<Rightarrow> table_schema \<Rightarrow> string \<Rightarrow> column_value \<Rightarrow> row_filter \<Rightarrow>
       (gateway, row_map list) prog" where
  "scan_index_rows_at lib s db sn sch index value flt =
     st_bind (scan_index_row_entries_at lib s db sn sch index value flt) (\<lambda>rows. st_return (map snd rows))"

definition value_in_bounds :: "column_value \<Rightarrow> key_bound \<Rightarrow> key_bound \<Rightarrow> bool" where
  "value_in_bounds value lower upper =
     ((case Option.bind lower (\<lambda>(b, incl). map_option (\<lambda>ord. (ord, incl)) (partial_cmp value b)) of
         Some (Less, _) \<Rightarrow> False | Some (Equal, incl) \<Rightarrow> incl | _ \<Rightarrow> True) \<and>
      (case Option.bind upper (\<lambda>(b, incl). map_option (\<lambda>ord. (ord, incl)) (partial_cmp value b)) of
         Some (Greater, _) \<Rightarrow> False | Some (Equal, incl) \<Rightarrow> incl | _ \<Rightarrow> True))"

text \<open>An entry of the range of an index: the value first, then the primary key.\<close>

definition index_range_entry ::
    "i32 option \<Rightarrow> string \<Rightarrow> string \<Rightarrow> table_schema \<Rightarrow> u32 \<Rightarrow> data_type \<Rightarrow> key_bound \<Rightarrow> key_bound \<Rightarrow> bytes \<times> bytes \<Rightarrow>
       (gateway, (column_value \<times> row_map) option) prog" where
  "index_range_entry s db sn sch iid dt lower upper kv =
     st_bind (st_lift (ok_or (strip_prefix (index_all_prefix iid) (fst kv))
         (user_error ''XX000'' ''v2 index key missing expected all-index prefix''))) (\<lambda>suffix.
     st_bind (st_lift (decode_key_value dt suffix)) (\<lambda>(v, consumed).
       if \<not> value_in_bounds v lower upper then st_return None
       else
         st_bind (st_lift (decode_key_value (pk_data_type sch) (drop consumed suffix))) (\<lambda>(pk, pk_consumed).
           if consumed + pk_consumed \<noteq> length suffix
           then st_raise (user_error ''XX000'' ''malformed v2 index range key suffix'')
           else reread s db sn sch (Inr pk))))"

definition index_range_start :: "u32 \<Rightarrow> key_bound \<Rightarrow> bytes" where
  "index_range_start iid lower =
     (case lower of
        Some (v, incl) \<Rightarrow>
          if incl then index_prefix iid v
          else (case next_key_prefix (index_prefix iid v) of Some u \<Rightarrow> u | None \<Rightarrow> index_prefix iid v)
      | None \<Rightarrow> index_all_prefix iid)"

definition index_range_end :: "u32 \<Rightarrow> key_bound \<Rightarrow> bytes option" where
  "index_range_end iid upper =
     (case upper of
        Some (v, incl) \<Rightarrow> if incl then next_key_prefix (index_prefix iid v) else Some (index_prefix iid v)
      | None \<Rightarrow> next_key_prefix (index_all_prefix iid))"

definition scan_index_row_entries_by_range_at ::
    "json_lib \<Rightarrow> i32 option \<Rightarrow> string \<Rightarrow> string \<Rightarrow> table_schema \<Rightarrow> string \<Rightarrow> key_bound \<Rightarrow> key_bound \<Rightarrow> row_filter \<Rightarrow>
       (gateway, row_entries) prog" where
  "scan_index_row_entries_by_range_at lib s db sn sch index lower upper flt =
     st_bind (list_indexes_for_table lib gateway_store (table_id sch)) (\<lambda>indexes.
       case find (\<lambda>x. ix_name x = index) indexes of
         None \<Rightarrow> scan_visible_row_entries_at s db sn sch flt
       | Some x \<Rightarrow>
           case (case ix_column_names x of [] \<Rightarrow> None | n # _ \<Rightarrow> find_column sch n) of
             None \<Rightarrow> st_return []
           | Some c \<Rightarrow>
               let start = index_range_start (ix_id x) lower; end' = index_range_end (ix_id x) upper in
               if (case end' of None \<Rightarrow> False | Some e \<Rightarrow> e \<le> start) then st_return []
               else
                 st_bind (visible_scan_range s
                     \<lparr>range_start = start, range_end = end', range_limit = None, range_reverse = False\<rparr>) (\<lambda>entries.
                   all_rows (index_range_entry s db sn sch (ix_id x) (col_type c) lower upper) flt entries))"

end
