(* ===== verification/Row_Write.thy ===== *)
theory Row_Write
  imports Row_Access
begin

text \<open>
  How a session writes the rows of a table (\<open>core/server/row_write.rs\<close>, \<open>row_constraints.rs\<close>,
  \<open>row_indexes.rs\<close>, \<open>olap_refresh.rs\<close>): the constraints checked first, the entries of the indexes in
  both key formats, the record itself, and the column chunks and statistics rebuilt from all rows.
  A check constraint is parsed by the SQL parser and evaluated as a filter; the parameter \<open>checks\<close>
  gives the predicate of an expression, or the error of the parser.
\<close>

section \<open>Constraints\<close>

type_synonym check_parser = "string \<Rightarrow> (table_schema \<Rightarrow> row_map \<Rightarrow> bool) res"

definition or_null :: "column_value option \<Rightarrow> column_value" where
  "or_null v = (case v of Some x \<Rightarrow> x | None \<Rightarrow> VNull)"

fun check_not_null :: "column_schema list \<Rightarrow> row_map \<Rightarrow> unit res" where
  "check_not_null [] row = Inr ()"
| "check_not_null (c # cs) row =
     (if \<not> col_nullable c \<and> is_null (or_null (row (col_name c)))
      then Inl (user_error ''23502'' (quoted ''null value in column '' (col_name c) '' violates not-null constraint''))
      else check_not_null cs row)"

fun check_all :: "check_parser \<Rightarrow> table_schema \<Rightarrow> check_constraint_schema list \<Rightarrow> row_map \<Rightarrow> unit res" where
  "check_all checks sch [] row = Inr ()"
| "check_all checks sch (k # ks) row =
     res_bind (checks (check_expr k)) (\<lambda>p.
       if \<not> p sch row then Inl (user_error ''23514'' (quoted ''check constraint '' (check_name k) '' is violated''))
       else check_all checks sch ks row)"

definition validate_row_constraints :: "check_parser \<Rightarrow> table_schema \<Rightarrow> row_map \<Rightarrow> unit res" where
  "validate_row_constraints checks sch row =
     res_bind (check_not_null (columns sch) row) (\<lambda>_. check_all checks sch (check_constraints sch) row)"

definition resolve_foreign_table_reference :: "string \<Rightarrow> string \<Rightarrow> (string \<times> string) res" where
  "resolve_foreign_table_reference current tn =
     (if CHR ''.'' \<in> set tn then resolve_table_reference tn else Inr (current, tn))"

definition foreign_key_values :: "row_map \<Rightarrow> string list \<Rightarrow> column_value list" where
  "foreign_key_values row cols = map (\<lambda>c. or_null (row c)) cols"

definition row_matches_columns :: "row_map \<Rightarrow> string list \<Rightarrow> column_value list \<Rightarrow> bool" where
  "row_matches_columns row cols vals =
     list_all (\<lambda>(c, v). case row c of Some x \<Rightarrow> value_eq x v | None \<Rightarrow> False) (zip cols vals)"

definition values_eq :: "column_value list \<Rightarrow> column_value list \<Rightarrow> bool" where
  "values_eq xs ys = list_all2 value_eq xs ys"

text \<open>\<open>resolve_table_schema\<close> (\<open>datafusion.rs\<close>): the table a name means along the search path.\<close>

fun search_schemas :: "json_lib \<Rightarrow> string \<Rightarrow> string \<Rightarrow> string list \<Rightarrow> (gateway, (string \<times> table_schema) option) prog" where
  "search_schemas lib db tn [] = st_return None"
| "search_schemas lib db tn (sn # path) =
     st_bind (load_table lib gateway_store db sn tn) (\<lambda>t.
       case t of Some t \<Rightarrow> st_return (Some (sn, tc_schema t)) | None \<Rightarrow> search_schemas lib db tn path)"

definition resolve_table_schema ::
    "json_lib \<Rightarrow> string \<Rightarrow> string list \<Rightarrow> string \<Rightarrow> (gateway, string \<times> table_schema option) prog" where
  "resolve_table_schema lib db path tn =
     (if CHR ''.'' \<in> set tn then
        st_bind (st_lift (resolve_table_reference tn)) (\<lambda>(sn, n).
        st_bind (load_table lib gateway_store db sn n) (\<lambda>t. st_return (sn, map_option tc_schema t)))
      else
        st_bind (search_schemas lib db tn path) (\<lambda>found.
          case found of
            Some (sn, sch) \<Rightarrow> st_return (sn, Some sch)
          | None \<Rightarrow> st_return (case path of [] \<Rightarrow> DEFAULT_SCHEMA_NAME | sn # _ \<Rightarrow> sn, None)))"

definition malformed_fk :: "foreign_key_constraint_schema \<Rightarrow> bool" where
  "malformed_fk fk = (length (fk_columns fk) \<noteq> length (fk_referred_columns fk) \<or> fk_columns fk = [])"

definition validate_foreign_key ::
    "json_lib \<Rightarrow> i32 option \<Rightarrow> string \<Rightarrow> string \<Rightarrow> table_schema \<Rightarrow> row_map \<Rightarrow> foreign_key_constraint_schema \<Rightarrow> (gateway, unit) prog" where
  "validate_foreign_key lib s db sn sch row fk =
     (if malformed_fk fk
      then st_raise (user_error ''42830'' (quoted ''foreign key constraint '' (fk_name fk) '' is malformed''))
      else let vals = foreign_key_values row (fk_columns fk) in
      if list_ex is_null vals then st_return ()
      else
        st_bind (st_lift (resolve_foreign_table_reference sn (fk_foreign_table fk))) (\<lambda>(fsn, ftn).
        st_bind (resolve_table_schema lib db [fsn] ftn) (\<lambda>(_, fsch).
        st_bind (st_lift (ok_or fsch
            (user_error ''42P01'' (quoted ''referenced table '' (fk_foreign_table fk) '' does not exist'')))) (\<lambda>fsch.
          if list_ex (\<lambda>c. find_column fsch c = None) (fk_referred_columns fk)
          then st_raise (user_error ''42830''
            (''there is no unique constraint matching given keys for referenced table '' @ [CHR 0x27] @ ftn @ [CHR 0x27]))
          else
            st_bind
              (if length (fk_referred_columns fk) = 1 \<and> hd (fk_referred_columns fk) = primary_key fsch
               then st_bind (read_visible_row_at s db fsn fsch (hd vals)) (\<lambda>r. st_return (r \<noteq> None))
               else st_bind (scan_visible_rows_at s db fsn fsch None) (\<lambda>rows.
                 st_return (list_ex (\<lambda>r. row_matches_columns r (fk_referred_columns fk) vals) rows))) (\<lambda>found.
              if \<not> found
              then st_raise (user_error ''23503'' (quoted ''insert or update on table '' (table_name sch) ''''
                @ quoted '' violates foreign key constraint '' (fk_name fk) ''''))
              else st_return ())))))"

definition validate_foreign_keys_at ::
    "json_lib \<Rightarrow> i32 option \<Rightarrow> string \<Rightarrow> string \<Rightarrow> table_schema \<Rightarrow> row_map \<Rightarrow> (gateway, unit) prog" where
  "validate_foreign_keys_at lib s db sn sch row = st_each (validate_foreign_key lib s db sn sch row) (foreign_keys sch)"

text \<open>A foreign key of another table that may refer to the row.\<close>

definition validate_reference ::
    "i32 option \<Rightarrow> string \<Rightarrow> string \<Rightarrow> table_schema \<Rightarrow> row_map \<Rightarrow> table_catalog \<Rightarrow> foreign_key_constraint_schema \<Rightarrow> (gateway, unit) prog" where
  "validate_reference s db sn sch row t fk =
     (if malformed_fk fk then st_return ()
      else
        st_bind (st_lift (resolve_foreign_table_reference (tc_schema_name t) (fk_foreign_table fk))) (\<lambda>(fsn, ftn).
          if fsn \<noteq> sn \<or> ftn \<noteq> table_name sch then st_return ()
          else let vals = foreign_key_values row (fk_referred_columns fk) in
          if list_ex is_null vals then st_return ()
          else
            st_bind (scan_visible_rows_at s db (tc_schema_name t) (tc_schema t) None) (\<lambda>rows.
              if list_ex (\<lambda>child. values_eq (foreign_key_values child (fk_columns fk)) vals) rows
              then st_raise (user_error ''23503'' (quoted ''update or delete on table '' (table_name sch) ''''
                @ quoted '' violates foreign key constraint '' (fk_name fk) ''''))
              else st_return ())))"

definition validate_no_foreign_key_references_at ::
    "json_lib \<Rightarrow> i32 option \<Rightarrow> string \<Rightarrow> string \<Rightarrow> table_schema \<Rightarrow> row_map \<Rightarrow> (gateway, unit) prog" where
  "validate_no_foreign_key_references_at lib s db sn sch row =
     st_bind (list_tables lib gateway_store db) (\<lambda>tables.
       st_each (\<lambda>t. st_each (validate_reference s db sn sch row t) (foreign_keys (tc_schema t))) tables)"

subsection \<open>Unique constraints\<close>

text \<open>\<open>format!("{key:?}")\<close>: the derived rendering tells values apart by constructor and content, a float
  by its shortest text; every NaN renders the same. The rendering stands for itself through the value
  with every NaN replaced by one.\<close>

fun debug_value :: "column_value \<Rightarrow> column_value" where
  "debug_value (VFloat32 a) = VFloat32 (if fp_is_nan 23 8 (unat a) then 0x7FC00000 else a)"
| "debug_value (VFloat64 a) = VFloat64 (if fp_is_nan 52 11 (unat a) then 0x7FF8000000000000 else a)"
| "debug_value (VArray vs) = VArray (map debug_value vs)"
| "debug_value v = v"

definition constraint_key :: "unique_constraint_schema \<Rightarrow> row_map \<Rightarrow> column_value list" where
  "constraint_key k row = map (\<lambda>c. or_null (row c)) (unique_columns k)"

definition unique_violation :: "string \<Rightarrow> pg_error" where
  "unique_violation name = user_error ''23505'' (quoted ''duplicate key value violates unique constraint '' name '''')"

fun unique_loop ::
    "unique_constraint_schema \<Rightarrow> column_value option \<Rightarrow> column_value list option \<Rightarrow> column_value list list \<Rightarrow> row_entries \<Rightarrow> unit res" where
  "unique_loop k cur_pk cur_key seen [] = Inr ()"
| "unique_loop k cur_pk cur_key seen ((pk, row) # rows) =
     (if (case cur_pk of Some p \<Rightarrow> value_eq p pk | None \<Rightarrow> False) then unique_loop k cur_pk cur_key seen rows
      else let key = constraint_key k row in
      if list_ex is_null key then unique_loop k cur_pk cur_key seen rows
      else if (case cur_key of Some c \<Rightarrow> values_eq c key | None \<Rightarrow> False) then Inl (unique_violation (unique_name k))
      else if map debug_value key \<in> set seen then Inl (unique_violation (unique_name k))
      else unique_loop k cur_pk cur_key (map debug_value key # seen) rows)"

definition validate_unique_constraint_at ::
    "i32 option \<Rightarrow> string \<Rightarrow> string \<Rightarrow> table_schema \<Rightarrow> unique_constraint_schema \<Rightarrow> column_value option \<Rightarrow> row_map option \<Rightarrow>
       (gateway, unit) prog" where
  "validate_unique_constraint_at s db sn sch k cur_pk cur_row =
     st_bind (scan_visible_row_entries_at s db sn sch None) (\<lambda>rows.
       st_lift (unique_loop k cur_pk (map_option (constraint_key k) cur_row) [] rows))"

definition validate_unique_constraints_at ::
    "i32 option \<Rightarrow> string \<Rightarrow> string \<Rightarrow> table_schema \<Rightarrow> column_value \<Rightarrow> row_map \<Rightarrow> (gateway, unit) prog" where
  "validate_unique_constraints_at s db sn sch pk row =
     st_each (\<lambda>k. if unique_primary_key k then st_return ()
                  else validate_unique_constraint_at s db sn sch k (Some pk) (Some row)) (unique_constraints sch)"

section \<open>Index entries\<close>

definition indexed_value_for_columns :: "row_map \<Rightarrow> string list \<Rightarrow> column_value" where
  "indexed_value_for_columns row cols =
     (case cols of [c] \<Rightarrow> or_null (row c) | _ \<Rightarrow> VArray (map (\<lambda>c. or_null (row c)) cols))"

definition indexed_value :: "row_map \<Rightarrow> index_catalog \<Rightarrow> column_value" where
  "indexed_value row x = indexed_value_for_columns row (ix_column_names x)"

definition index_value_has_null :: "column_value \<Rightarrow> bool" where
  "index_value_has_null v = (case v of VNull \<Rightarrow> True | VArray vs \<Rightarrow> list_ex is_null vs | _ \<Rightarrow> False)"

definition put_session :: "i32 option \<Rightarrow> bytes \<Rightarrow> bytes \<Rightarrow> (gateway, unit) prog" where
  "put_session s key v = st_catch (gw_txn_put s key v)"

definition delete_session :: "i32 option \<Rightarrow> bytes \<Rightarrow> (gateway, unit) prog" where
  "delete_session s key = st_catch (gw_txn_delete s key)"

definition legacy_entry_key :: "string \<Rightarrow> string \<Rightarrow> table_schema \<Rightarrow> column_value \<Rightarrow> row_map \<Rightarrow> index_catalog \<Rightarrow> bytes res" where
  "legacy_entry_key db sn sch pk row x =
     legacy_index_entry_key db sn (table_name sch) (ix_name x) (indexed_value row x) pk"

definition write_index_entries_at ::
    "json_lib \<Rightarrow> i32 option \<Rightarrow> string \<Rightarrow> string \<Rightarrow> table_schema \<Rightarrow> column_value \<Rightarrow> row_map \<Rightarrow> (gateway, unit) prog" where
  "write_index_entries_at lib s db sn sch pk row =
     st_bind (list_indexes_for_table lib gateway_store (table_id sch)) (\<lambda>indexes.
       st_each (\<lambda>x.
         st_seq (put_session s (index_entry_key (ix_id x) (indexed_value row x) pk) [1])
         (st_bind (st_lift (legacy_entry_key db sn sch pk row x)) (\<lambda>key. put_session s key [1]))) indexes)"

definition validate_index_entry ::
    "i32 option \<Rightarrow> string \<Rightarrow> string \<Rightarrow> table_schema \<Rightarrow> column_value \<Rightarrow> row_map \<Rightarrow> index_catalog \<Rightarrow> (gateway, unit) prog" where
  "validate_index_entry s db sn sch pk row x =
     (let v = indexed_value row x in
      if \<not> ix_unique x \<or> is_null v then st_return ()
      else
        st_bind (st_catch (gw_txn_scan_range s (index_value_range (ix_id x) v))) (\<lambda>entries.
          if list_ex (\<lambda>(k, _). k \<noteq> index_entry_key (ix_id x) v pk) entries then st_raise (unique_violation (ix_name x))
          else
            st_bind (st_lift (legacy_entry_key db sn sch pk row x)) (\<lambda>key.
            st_bind (st_catch (gw_txn_scan_prefix s (index_entry_prefix db sn (table_name sch) (ix_name x) v))) (\<lambda>entries.
              if list_ex (\<lambda>(k, _). k \<noteq> key) entries then st_raise (unique_violation (ix_name x)) else st_return ()))))"

definition validate_index_entries_at ::
    "json_lib \<Rightarrow> i32 option \<Rightarrow> string \<Rightarrow> string \<Rightarrow> table_schema \<Rightarrow> column_value \<Rightarrow> row_map \<Rightarrow> (gateway, unit) prog" where
  "validate_index_entries_at lib s db sn sch pk row =
     st_bind (list_indexes_for_table lib gateway_store (table_id sch)) (\<lambda>indexes.
       st_each (validate_index_entry s db sn sch pk row) indexes)"

definition delete_index_entries_at ::
    "json_lib \<Rightarrow> i32 option \<Rightarrow> string \<Rightarrow> string \<Rightarrow> table_schema \<Rightarrow> column_value \<Rightarrow> row_map \<Rightarrow> (gateway, unit) prog" where
  "delete_index_entries_at lib s db sn sch pk row =
     st_bind (list_indexes_for_table lib gateway_store (table_id sch)) (\<lambda>indexes.
       st_each (\<lambda>x.
         st_seq (delete_session s (index_entry_key (ix_id x) (indexed_value row x) pk))
         (st_bind (st_lift (legacy_entry_key db sn sch pk row x)) (delete_session s))) indexes)"

text \<open>\<open>for (key, _) in scan_prefix { delete }\<close>, which several operations do.\<close>

definition delete_prefix :: "i32 option \<Rightarrow> bytes \<Rightarrow> (gateway, unit) prog" where
  "delete_prefix s p =
     st_bind (st_catch (gw_txn_scan_prefix s p)) (\<lambda>entries. st_each (\<lambda>kv. delete_session s (fst kv)) entries)"

definition delete_index_data_for_table ::
    "json_lib \<Rightarrow> i32 option \<Rightarrow> string \<Rightarrow> string \<Rightarrow> string \<Rightarrow> (gateway, unit) prog" where
  "delete_index_data_for_table lib s db sn tn =
     st_bind (load_table lib gateway_store db sn tn) (\<lambda>t.
     st_seq (case t of
         None \<Rightarrow> st_return ()
       | Some t \<Rightarrow> st_bind (list_indexes_for_table lib gateway_store (table_id (tc_schema t))) (\<lambda>indexes.
           st_each (\<lambda>x. delete_prefix s (index_all_prefix (ix_id x))) indexes))
       (delete_prefix s (index_table_prefix db sn tn)))"

section \<open>Column chunks and statistics\<close>

definition OLAP_CHUNK_ROW_TARGET :: nat where "OLAP_CHUNK_ROW_TARGET = 1024"

definition saturating_inc_u64 :: "u64 \<Rightarrow> u64" where
  "saturating_inc_u64 n = (if n = - 1 then n else n + 1)"

definition update_zone :: "column_value \<Rightarrow> column_zone_map \<Rightarrow> column_zone_map" where
  "update_zone v z =
     (if is_null v then z\<lparr>zone_null_count := saturating_inc_u64 (zone_null_count z)\<rparr>
      else
        let z1 = (if (case zone_min z of None \<Rightarrow> True | Some cur \<Rightarrow> partial_cmp v cur = Some Less) then z\<lparr>zone_min := Some v\<rparr> else z)
        in if (case zone_max z1 of None \<Rightarrow> True | Some cur \<Rightarrow> partial_cmp v cur = Some Greater) then z1\<lparr>zone_max := Some v\<rparr> else z1)"

definition empty_zone :: "column_schema \<Rightarrow> column_zone_map" where
  "empty_zone c = \<lparr>zone_column_id = column_id c, zone_null_count = 0, zone_min = None, zone_max = None\<rparr>"

text \<open>The rows outside, the columns inside: each column's zone sees the values of its column in order.\<close>

definition zone_maps_for_rows :: "table_schema \<Rightarrow> row_map list \<Rightarrow> column_zone_map list" where
  "zone_maps_for_rows sch rows =
     fold (\<lambda>row zones. map2 (\<lambda>c z. update_zone (or_null (row (col_name c))) z) (columns sch) zones) rows
       (map empty_zone (columns sch))"

text \<open>\<open>rows.chunks(n)\<close>, for \<open>n\<close> at least 1.\<close>

function chunks :: "nat \<Rightarrow> 'a list \<Rightarrow> 'a list list" where
  "chunks n xs = (if xs = [] \<or> n = 0 then [] else take n xs # chunks n (drop n xs))"
  by pat_completeness auto
termination
  by (relation "measure (\<lambda>(n, xs). length xs)") auto

declare chunks.simps [simp del]

definition chunk_entries :: "table_schema \<Rightarrow> nat \<times> row_map list \<Rightarrow> kv_rows" where
  "chunk_entries sch numbered =
     (let (idx, rows) = numbered; cid = word_of_nat idx + 1
      in (olap_chunk_meta_key (table_id sch) (table_epoch sch) cid,
          encode_olap_chunk_meta \<lparr>chunk_id = cid, chunk_row_count = word_of_nat (length rows),
            chunk_zones = zone_maps_for_rows sch rows\<rparr>)
         # map (\<lambda>c. (olap_chunk_column_key (table_id sch) (table_epoch sch) cid (column_id c),
                     encode_olap_column_chunk (map (\<lambda>row. or_null (row (col_name c))) rows))) (columns sch))"

definition stats_entries :: "table_schema \<Rightarrow> row_map list \<Rightarrow> kv_rows" where
  "stats_entries sch rows =
     (let zones = zone_maps_for_rows sch rows; n = word_of_nat (length rows)
      in (stats_key (table_id sch) (table_epoch sch) None, encode_table_stats \<lparr>stats_row_count = n, stats_zones = zones\<rparr>)
         # map (\<lambda>z. (stats_key (table_id sch) (table_epoch sch) (Some (zone_column_id z)),
                     encode_table_stats \<lparr>stats_row_count = n, stats_zones = [z]\<rparr>)) zones)"

definition olap_entries :: "table_schema \<Rightarrow> row_map list \<Rightarrow> kv_rows" where
  "olap_entries sch rows =
     concat (map (chunk_entries sch) (enumerate 0 (chunks OLAP_CHUNK_ROW_TARGET rows))) @ stats_entries sch rows"

definition refresh_olap_storage_at ::
    "i32 option \<Rightarrow> string \<Rightarrow> string \<Rightarrow> table_schema \<Rightarrow> (gateway, unit) prog" where
  "refresh_olap_storage_at s db sn sch =
     st_bind (scan_visible_row_entries_at s db sn sch None) (\<lambda>rows.
     st_seq (st_each (delete_prefix s)
         [olap_chunk_meta_prefix (table_id sch) (table_epoch sch), olap_chunk_column_prefix (table_id sch) (table_epoch sch),
          stats_prefix (table_id sch) (table_epoch sch)])
       (let entries = olap_entries sch (map snd rows)
        in if entries = [] then st_return () else st_catch (gw_txn_put_batch s entries)))"

section \<open>Rows\<close>

text \<open>\<open>let _ = txn_delete(..)\<close>: an error is dropped.\<close>

definition st_ignore :: "('s, unit) prog \<Rightarrow> ('s, unit) prog" where
  "st_ignore m s = map_option (\<lambda>(_, s'). (Inr (), s')) (m s)"

text \<open>The marker and the cells of the older format.\<close>

definition delete_legacy_row ::
    "(bytes \<Rightarrow> (gateway, unit) prog) \<Rightarrow> string \<Rightarrow> string \<Rightarrow> table_schema \<Rightarrow> column_value \<Rightarrow> (gateway, unit) prog" where
  "delete_legacy_row del db sn sch pk =
     st_bind (st_lift (row_marker_key db sn (table_name sch) pk)) (\<lambda>marker.
     st_seq (del marker)
       (st_each (\<lambda>c. st_bind (st_lift (cell_key db sn (table_name sch) (col_name c) pk)) del) (columns sch)))"

definition write_row_at_with_olap_refresh ::
    "json_lib \<Rightarrow> check_parser \<Rightarrow> i32 option \<Rightarrow> string \<Rightarrow> string \<Rightarrow> table_schema \<Rightarrow> column_value \<Rightarrow> row_map \<Rightarrow> bool \<Rightarrow> (gateway, unit) prog" where
  "write_row_at_with_olap_refresh lib checks s db sn sch pk row refresh =
     st_seq (st_lift (validate_row_constraints checks sch row))
     (st_bind (read_visible_row_at s db sn sch pk) (\<lambda>old_row.
     st_seq (if old_row \<noteq> None then ensure_row_write_not_stale s sch pk else st_return ())
     (st_seq (validate_foreign_keys_at lib s db sn sch row)
     (st_seq (validate_index_entries_at lib s db sn sch pk row)
     (st_seq (validate_unique_constraints_at s db sn sch pk row)
     (st_seq (case old_row of None \<Rightarrow> st_return () | Some old \<Rightarrow> delete_index_entries_at lib s db sn sch pk old)
     (st_seq (put_session s (row_key (table_id sch) (table_epoch sch) pk) (encode_row_record sch row))
     (st_seq (delete_legacy_row (\<lambda>key. st_ignore (gw_txn_delete s key)) db sn sch pk)
     (st_seq (write_index_entries_at lib s db sn sch pk row)
       (if refresh then refresh_olap_storage_at s db sn sch else st_return ()))))))))))"

definition write_row_at ::
    "json_lib \<Rightarrow> check_parser \<Rightarrow> i32 option \<Rightarrow> string \<Rightarrow> string \<Rightarrow> table_schema \<Rightarrow> column_value \<Rightarrow> row_map \<Rightarrow> (gateway, unit) prog" where
  "write_row_at lib checks s db sn sch pk row = write_row_at_with_olap_refresh lib checks s db sn sch pk row True"

text \<open>The marker's key is made before the record is deleted.\<close>

definition delete_row_at ::
    "json_lib \<Rightarrow> i32 option \<Rightarrow> string \<Rightarrow> string \<Rightarrow> table_schema \<Rightarrow> column_value \<Rightarrow> (gateway, unit) prog" where
  "delete_row_at lib s db sn sch pk =
     st_bind (read_visible_row_at s db sn sch pk) (\<lambda>found.
     st_seq (case found of
         None \<Rightarrow> st_return ()
       | Some row \<Rightarrow>
           st_seq (ensure_row_write_not_stale s sch pk)
           (st_seq (validate_no_foreign_key_references_at lib s db sn sch row)
             (delete_index_entries_at lib s db sn sch pk row)))
     (st_bind (st_lift (row_marker_key db sn (table_name sch) pk)) (\<lambda>marker.
     st_seq (delete_session s (row_key (table_id sch) (table_epoch sch) pk))
     (st_seq (delete_session s marker)
     (st_seq (st_each (\<lambda>c. st_bind (st_lift (cell_key db sn (table_name sch) (col_name c) pk)) (delete_session s)) (columns sch))
       (refresh_olap_storage_at s db sn sch))))))"

end
