(* ===== verification/Row_Statements.thy ===== *)
theory Row_Statements
  imports Row_Write
begin

text \<open>
  Statements on the rows of a table (\<open>core/server/mutations.rs\<close>, \<open>dml_conflict.rs\<close>, and the plans
  \<open>InsertRows\<close>, \<open>SelectRows\<close>, \<open>UpdateRows\<close>, \<open>DeleteRows\<close> of \<open>executor.rs\<close>): which rows a statement takes,
  what it makes of them and the order in which it writes them. An expression of the SQL parser is the
  function its evaluation gives: of the schema, the row and, in \<open>ON CONFLICT\<close>, the row that was
  excluded. \<open>column_default_value\<close>, which parses and evaluates a text, is a parameter.
\<close>

section \<open>Expressions and assignments\<close>

type_synonym row_expr = "table_schema \<Rightarrow> row_map \<Rightarrow> row_map option \<Rightarrow> column_value res"
type_synonym row_condition = "table_schema \<Rightarrow> row_map \<Rightarrow> row_map option \<Rightarrow> bool res"
type_synonym default_eval = "string \<Rightarrow> data_type \<Rightarrow> column_value res"

datatype update_assignment = AssignExpr (ua_column: string) (ua_expr: row_expr)

record insert_conflict_assignment =
  ica_column :: string
  ica_value :: row_expr

datatype insert_conflict_action =
    DoNothing
  | DoNothingAnyUnique "string list list"
  | ReplaceAnyUnique "string list list"
  | DoUpdate "string list" "insert_conflict_assignment list" "row_condition option"
  | DoUpdateAnyUnique "string list list" "insert_conflict_assignment list"

fun on_update_loop :: "default_eval \<Rightarrow> string list \<Rightarrow> column_schema list \<Rightarrow> row_map \<Rightarrow> row_map res" where
  "on_update_loop eval assigned [] row = Inr row"
| "on_update_loop eval assigned (c # cs) row =
     (case col_on_update c of
        None \<Rightarrow> on_update_loop eval assigned cs row
      | Some on_update \<Rightarrow>
          if list_ex (\<lambda>a. eq_ignore_ascii_case a (col_name c)) assigned then on_update_loop eval assigned cs row
          else res_bind (eval on_update (col_type c)) (\<lambda>v. on_update_loop eval assigned cs (row(col_name c \<mapsto> v))))"

definition apply_on_update_columns :: "default_eval \<Rightarrow> table_schema \<Rightarrow> string list \<Rightarrow> row_map \<Rightarrow> row_map res" where
  "apply_on_update_columns eval sch assigned row = on_update_loop eval assigned (columns sch) row"

text \<open>Every expression sees the row as it was before the first assignment.\<close>

fun update_loop :: "text_env \<Rightarrow> table_schema \<Rightarrow> row_map \<Rightarrow> update_assignment list \<Rightarrow> row_map \<Rightarrow> row_map res" where
  "update_loop env sch base [] row = Inr row"
| "update_loop env sch base (AssignExpr column expr # as) row =
     res_bind (ok_or (find_column sch column) (user_error ''42703'' (quoted ''column '' column '' not found''))) (\<lambda>target.
     res_bind (expr sch base None) (\<lambda>x.
     res_bind (coerce_column_value env x (col_type target)) (\<lambda>v. update_loop env sch base as (row(column \<mapsto> v)))))"

text \<open>\<open>row.len()\<close>; at the end the columns of the row before that are missing are put back.\<close>

definition row_len :: "row_map \<Rightarrow> nat" where
  "row_len row = card (dom row)"

definition apply_update_assignments ::
    "text_env \<Rightarrow> default_eval \<Rightarrow> table_schema \<Rightarrow> update_assignment list \<Rightarrow> row_map \<Rightarrow> row_map res" where
  "apply_update_assignments env eval sch as base =
     res_bind (update_loop env sch base as base) (\<lambda>row.
     res_bind (apply_on_update_columns eval sch (map ua_column as) row) (\<lambda>row.
       Inr (if row_len row \<noteq> row_len base then base ++ row else row)))"

fun conflict_update_loop ::
    "text_env \<Rightarrow> table_schema \<Rightarrow> row_map \<Rightarrow> row_map \<Rightarrow> insert_conflict_assignment list \<Rightarrow> row_map \<Rightarrow> row_map res" where
  "conflict_update_loop env sch source excluded [] row = Inr row"
| "conflict_update_loop env sch source excluded (a # as) row =
     res_bind (ok_or (find_column sch (ica_column a)) (user_error ''42703'' ''column does not exist'')) (\<lambda>target.
     res_bind (ica_value a sch source (Some excluded)) (\<lambda>x.
     res_bind (coerce_column_value env x (col_type target)) (\<lambda>v.
       if ica_column a = primary_key sch \<and> (case row (primary_key sch) of None \<Rightarrow> False | Some cur \<Rightarrow> \<not> value_eq cur v)
       then Inl (unsupported ''ON CONFLICT DO UPDATE cannot modify the primary key in fast path'')
       else conflict_update_loop env sch source excluded as (row(ica_column a \<mapsto> v)))))"

definition apply_insert_conflict_update ::
    "text_env \<Rightarrow> default_eval \<Rightarrow> table_schema \<Rightarrow> row_map \<Rightarrow> row_map \<Rightarrow> insert_conflict_assignment list \<Rightarrow> row_condition option \<Rightarrow>
       row_map option res" where
  "apply_insert_conflict_update env eval sch existing excluded as selection =
     res_bind (case selection of None \<Rightarrow> Inr True | Some c \<Rightarrow> c sch existing (Some excluded)) (\<lambda>wanted.
       if \<not> wanted then Inr None
       else
         res_bind (conflict_update_loop env sch existing excluded as existing) (\<lambda>row.
         res_bind (apply_on_update_columns eval sch (map ica_column as) row) (\<lambda>row. Inr (Some row))))"

section \<open>The row an insert conflicts with\<close>

definition conflict_values :: "row_map \<Rightarrow> string list \<Rightarrow> column_value list res" where
  "conflict_values row cols = collect_res (\<lambda>c. ok_or (row c) (user_error ''23502'' (''null value for '' @ c))) cols"

definition matching_entries :: "string list \<Rightarrow> column_value list \<Rightarrow> row_entries \<Rightarrow> row_entries" where
  "matching_entries cols vals rows = filter (\<lambda>e. row_matches_columns (snd e) cols vals) rows"

definition find_existing_row_for_conflict_columns ::
    "json_lib \<Rightarrow> i32 option \<Rightarrow> string \<Rightarrow> string \<Rightarrow> table_schema \<Rightarrow> string list \<Rightarrow> row_map \<Rightarrow> (gateway, (column_value \<times> row_map) option) prog" where
  "find_existing_row_for_conflict_columns lib s db sn sch cols row =
     st_bind (st_lift (conflict_values row cols)) (\<lambda>vals.
       if list_ex is_null vals then st_return None
       else if length cols = 1 \<and> hd cols = primary_key sch then
         st_bind (read_visible_row_at s db sn sch (hd vals)) (\<lambda>found. st_return (map_option (Pair (hd vals)) found))
       else
         st_bind (list_indexes_for_table lib gateway_store (table_id sch)) (\<lambda>indexes.
         st_bind (case find (\<lambda>x. ix_column_names x = cols \<and> ix_table_id x = table_id sch) indexes of
             None \<Rightarrow> st_return []
           | Some x \<Rightarrow>
               st_bind (scan_index_row_entries_at lib s db sn sch (ix_name x) (if length vals = 1 then hd vals else VArray vals) None)
                 (\<lambda>rows. st_return (matching_entries cols vals rows))) (\<lambda>candidates.
         st_bind (if candidates = []
             then st_bind (scan_visible_row_entries_at s db sn sch None) (\<lambda>rows. st_return (matching_entries cols vals rows))
             else st_return candidates) (\<lambda>candidates.
           case candidates of
             [] \<Rightarrow> st_return None
           | [e] \<Rightarrow> st_return (Some e)
           | _ \<Rightarrow> st_raise (user_error ''23505'' ''duplicate key value violates unique constraint'')))))"

fun find_existing_any ::
    "json_lib \<Rightarrow> i32 option \<Rightarrow> string \<Rightarrow> string \<Rightarrow> table_schema \<Rightarrow> string list list \<Rightarrow> row_map \<Rightarrow> (gateway, (column_value \<times> row_map) option) prog" where
  "find_existing_any lib s db sn sch [] row = st_return None"
| "find_existing_any lib s db sn sch (cols # sets) row =
     st_bind (find_existing_row_for_conflict_columns lib s db sn sch cols row) (\<lambda>found.
       case found of Some e \<Rightarrow> st_return (Some e) | None \<Rightarrow> find_existing_any lib s db sn sch sets row)"

definition find_existing_row_for_conflict ::
    "json_lib \<Rightarrow> i32 option \<Rightarrow> string \<Rightarrow> string \<Rightarrow> table_schema \<Rightarrow> insert_conflict_action \<Rightarrow> row_map \<Rightarrow> (gateway, (column_value \<times> row_map) option) prog" where
  "find_existing_row_for_conflict lib s db sn sch action row =
     (case action of
        DoNothing \<Rightarrow> find_existing_row_for_conflict_columns lib s db sn sch [primary_key sch] row
      | DoNothingAnyUnique sets \<Rightarrow> find_existing_any lib s db sn sch sets row
      | ReplaceAnyUnique sets \<Rightarrow> find_existing_any lib s db sn sch sets row
      | DoUpdate cols _ _ \<Rightarrow> find_existing_row_for_conflict_columns lib s db sn sch cols row
      | DoUpdateAnyUnique sets _ \<Rightarrow> find_existing_any lib s db sn sch sets row)"

section \<open>The rows a statement changes\<close>

datatype write_access =
    PointLookup column_value
  | PrimaryKeyRangeScan key_bound key_bound row_filter
  | SecondaryIndexLookup string column_value row_filter
  | SecondaryIndexRangeScan string key_bound key_bound row_filter
  | PrefixScan row_filter

text \<open>A stable sort. Keys of which neither is greater, also those that do not compare, keep their order.\<close>

fun insert_by :: "('a \<Rightarrow> 'a \<Rightarrow> bool) \<Rightarrow> 'a \<Rightarrow> 'a list \<Rightarrow> 'a list" where
  "insert_by gt x [] = [x]"
| "insert_by gt x (y # ys) = (if gt x y then y # insert_by gt x ys else x # y # ys)"

definition sort_by :: "('a \<Rightarrow> 'a \<Rightarrow> bool) \<Rightarrow> 'a list \<Rightarrow> 'a list" where
  "sort_by gt xs = foldr (insert_by gt) xs []"

definition apply_write_limit :: "nat option \<Rightarrow> bool \<Rightarrow> row_entries \<Rightarrow> row_entries" where
  "apply_write_limit lmt order_by_primary_key rows =
     (let rows = (if order_by_primary_key then sort_by (\<lambda>a b. partial_cmp (fst a) (fst b) = Some Greater) rows else rows)
      in case lmt of None \<Rightarrow> rows | Some n \<Rightarrow> take n rows)"

text \<open>The scan of each access but the first, which four functions write out in the same way.\<close>

definition access_rows ::
    "json_lib \<Rightarrow> i32 option \<Rightarrow> string \<Rightarrow> string \<Rightarrow> table_schema \<Rightarrow> write_access \<Rightarrow> (gateway, row_entries) prog" where
  "access_rows lib s db sn sch access =
     (case access of
        PointLookup _ \<Rightarrow> st_return []
      | PrimaryKeyRangeScan lower upper flt \<Rightarrow> scan_visible_row_entries_by_pk_range_at s db sn sch lower upper flt None 0
      | SecondaryIndexLookup index key flt \<Rightarrow> scan_index_row_entries_at lib s db sn sch index key flt
      | SecondaryIndexRangeScan index lower upper flt \<Rightarrow> scan_index_row_entries_by_range_at lib s db sn sch index lower upper flt
      | PrefixScan flt \<Rightarrow> scan_visible_row_entries_at s db sn sch flt)"

fun st_count :: "('a \<Rightarrow> ('s, 'b) prog) \<Rightarrow> nat \<Rightarrow> 'a list \<Rightarrow> ('s, nat) prog" where
  "st_count f n [] = st_return n"
| "st_count f n (x # xs) = st_bind (f x) (\<lambda>_. st_count f (Suc n) xs)"

definition no_row_for_update :: pg_error where
  "no_row_for_update = user_error ''02000'' ''no row found for UPDATE''"

text \<open>The body of every loop: the assignments, then the row written under the key it was found with.\<close>

definition update_one ::
    "json_lib \<Rightarrow> text_env \<Rightarrow> default_eval \<Rightarrow> check_parser \<Rightarrow> i32 option \<Rightarrow> string \<Rightarrow> string \<Rightarrow> table_schema \<Rightarrow> update_assignment list \<Rightarrow>
       column_value \<times> row_map \<Rightarrow> (gateway, row_map) prog" where
  "update_one lib env eval checks s db sn sch as e =
     st_bind (st_lift (apply_update_assignments env eval sch as (snd e))) (\<lambda>row.
     st_seq (write_row_at_with_olap_refresh lib checks s db sn sch (fst e) row True) (st_return row))"

definition apply_update_rows ::
    "json_lib \<Rightarrow> text_env \<Rightarrow> default_eval \<Rightarrow> check_parser \<Rightarrow> i32 option \<Rightarrow> string \<Rightarrow> string \<Rightarrow> table_schema \<Rightarrow> update_assignment list \<Rightarrow>
       write_access \<Rightarrow> nat option \<Rightarrow> bool \<Rightarrow> (gateway, nat) prog" where
  "apply_update_rows lib env eval checks s db sn sch as access lmt ord =
     (if lmt = Some 0 then st_return 0
      else case access of
        PointLookup key \<Rightarrow>
          st_bind (st_require no_row_for_update (read_visible_row_at s db sn sch key)) (\<lambda>row.
          st_bind (update_one lib env eval checks s db sn sch as (key, row)) (\<lambda>_. st_return 1))
      | _ \<Rightarrow>
          st_bind (access_rows lib s db sn sch access) (\<lambda>rows.
            st_count (update_one lib env eval checks s db sn sch as) 0 (apply_write_limit lmt ord rows)))"

definition collect_updated_rows ::
    "json_lib \<Rightarrow> text_env \<Rightarrow> default_eval \<Rightarrow> check_parser \<Rightarrow> i32 option \<Rightarrow> string \<Rightarrow> string \<Rightarrow> table_schema \<Rightarrow> update_assignment list \<Rightarrow>
       write_access \<Rightarrow> nat option \<Rightarrow> bool \<Rightarrow> (gateway, row_map list) prog" where
  "collect_updated_rows lib env eval checks s db sn sch as access lmt ord =
     (if lmt = Some 0 then st_return []
      else case access of
        PointLookup key \<Rightarrow>
          st_bind (st_require no_row_for_update (read_visible_row_at s db sn sch key)) (\<lambda>row.
          st_bind (update_one lib env eval checks s db sn sch as (key, row)) (\<lambda>row. st_return [row]))
      | _ \<Rightarrow>
          st_bind (access_rows lib s db sn sch access) (\<lambda>rows.
            st_collect (update_one lib env eval checks s db sn sch as) (apply_write_limit lmt ord rows)))"

definition delete_one ::
    "json_lib \<Rightarrow> i32 option \<Rightarrow> string \<Rightarrow> string \<Rightarrow> table_schema \<Rightarrow> column_value \<times> row_map \<Rightarrow> (gateway, row_map) prog" where
  "delete_one lib s db sn sch e = st_seq (delete_row_at lib s db sn sch (fst e)) (st_return (snd e))"

definition apply_delete_rows ::
    "json_lib \<Rightarrow> i32 option \<Rightarrow> string \<Rightarrow> string \<Rightarrow> table_schema \<Rightarrow> write_access \<Rightarrow> nat option \<Rightarrow> bool \<Rightarrow> (gateway, nat) prog" where
  "apply_delete_rows lib s db sn sch access lmt ord =
     (if lmt = Some 0 then st_return 0
      else case access of
        PointLookup key \<Rightarrow>
          st_bind (read_visible_row_at s db sn sch key) (\<lambda>found.
            case found of
              None \<Rightarrow> st_return 0
            | Some _ \<Rightarrow> st_seq (delete_row_at lib s db sn sch key) (st_return 1))
      | _ \<Rightarrow>
          st_bind (access_rows lib s db sn sch access) (\<lambda>rows.
            st_count (delete_one lib s db sn sch) 0 (apply_write_limit lmt ord rows)))"

definition collect_deleted_rows ::
    "json_lib \<Rightarrow> i32 option \<Rightarrow> string \<Rightarrow> string \<Rightarrow> table_schema \<Rightarrow> write_access \<Rightarrow> nat option \<Rightarrow> bool \<Rightarrow> (gateway, row_map list) prog" where
  "collect_deleted_rows lib s db sn sch access lmt ord =
     (if lmt = Some 0 then st_return []
      else case access of
        PointLookup key \<Rightarrow>
          st_bind (read_visible_row_at s db sn sch key) (\<lambda>found.
            case found of
              None \<Rightarrow> st_return []
            | Some row \<Rightarrow> st_seq (delete_row_at lib s db sn sch key) (st_return [row]))
      | _ \<Rightarrow>
          st_bind (access_rows lib s db sn sch access) (\<lambda>rows.
            st_collect (delete_one lib s db sn sch) (apply_write_limit lmt ord rows)))"

section \<open>INSERT\<close>

text \<open>\<open>==\<close> of two rows.\<close>

definition row_eq :: "row_map \<Rightarrow> row_map \<Rightarrow> bool" where
  "row_eq a b = (\<forall>c. rel_option value_eq (a c) (b c))"

record insert_state =
  ins_inserted :: nat
  ins_affected :: nat
  ins_first_id :: "i64 option"
  ins_returned :: "row_map list"

definition add_affected :: "nat \<Rightarrow> insert_state \<Rightarrow> insert_state" where
  "add_affected n st = st\<lparr>ins_affected := ins_affected st + n\<rparr>"

text \<open>The end of the loop's body: the row written, the sequence behind it moved on, and the counts.\<close>

definition insert_write ::
    "json_lib \<Rightarrow> check_parser \<Rightarrow> i32 option \<Rightarrow> string \<Rightarrow> string \<Rightarrow> table_schema \<Rightarrow> bool \<Rightarrow> column_value \<Rightarrow> row_map \<Rightarrow> insert_state \<Rightarrow>
       (gateway, insert_state) prog" where
  "insert_write lib checks s db sn sch returning pk row st =
     st_seq (write_row_at lib checks s db sn sch pk row)
     (st_bind (advance_auto_increment_from_row db sn sch row) (\<lambda>insert_id.
       st_return (st\<lparr>
         ins_first_id := (case ins_first_id st of Some i \<Rightarrow> Some i | None \<Rightarrow> insert_id),
         ins_returned := ins_returned st @ (if returning then [row] else []),
         ins_inserted := ins_inserted st + 1\<rparr>)))"

definition duplicate_pkey :: "table_schema \<Rightarrow> pg_error" where
  "duplicate_pkey sch = user_error ''23505'' (quoted ''duplicate key value violates unique constraint '' (table_name sch @ ''_pkey'') [])"

definition insert_row ::
    "json_lib \<Rightarrow> text_env \<Rightarrow> default_eval \<Rightarrow> check_parser \<Rightarrow> i32 option \<Rightarrow> string \<Rightarrow> string \<Rightarrow> table_schema \<Rightarrow> insert_conflict_action option \<Rightarrow>
       bool \<Rightarrow> row_map \<Rightarrow> insert_state \<Rightarrow> (gateway, insert_state) prog" where
  "insert_row lib env eval checks s db sn sch on_conflict returning row st =
     st_bind (if has_user_primary_key sch then st_return (or_null (row (primary_key sch))) else allocate_internal_row_id (table_id sch)) (\<lambda>pk.
       if is_null pk then st_raise (user_error ''23502'' (quoted ''null value for primary key '' (primary_key sch) []))
       else
         st_bind (case on_conflict of None \<Rightarrow> st_return None | Some action \<Rightarrow> find_existing_row_for_conflict lib s db sn sch action row) (\<lambda>existing.
         let write = insert_write lib checks s db sn sch returning;
             update = (\<lambda>key old as selection.
               st_bind (st_lift (apply_insert_conflict_update env eval sch old row as selection)) (\<lambda>updated.
                 case updated of
                   None \<Rightarrow> st_return st
                 | Some new \<Rightarrow> write key new (add_affected (if row_eq new old then 0 else 2) st)))
         in case existing of
           Some (key, old) \<Rightarrow>
             (case on_conflict of
                None \<Rightarrow> write pk row st
              | Some DoNothing \<Rightarrow> st_return st
              | Some (DoNothingAnyUnique _) \<Rightarrow> st_return st
              | Some (ReplaceAnyUnique _) \<Rightarrow> st_seq (delete_row_at lib s db sn sch key) (write pk row (add_affected 2 st))
              | Some (DoUpdate _ as selection) \<Rightarrow> update key old as selection
              | Some (DoUpdateAnyUnique _ as) \<Rightarrow> update key old as None)
         | None \<Rightarrow>
             st_bind (if (case on_conflict of None \<Rightarrow> has_user_primary_key sch | Some _ \<Rightarrow> False)
                 then st_bind (read_visible_row_at s db sn sch pk) (\<lambda>found. st_return (found \<noteq> None))
                 else st_return False) (\<lambda>taken.
               if taken then st_raise (duplicate_pkey sch) else write pk row (add_affected 1 st))))"

fun insert_loop ::
    "json_lib \<Rightarrow> text_env \<Rightarrow> default_eval \<Rightarrow> check_parser \<Rightarrow> i32 option \<Rightarrow> string \<Rightarrow> string \<Rightarrow> table_schema \<Rightarrow> insert_conflict_action option \<Rightarrow>
       bool \<Rightarrow> row_map list \<Rightarrow> insert_state \<Rightarrow> (gateway, insert_state) prog" where
  "insert_loop lib env eval checks s db sn sch on_conflict returning [] st = st_return st"
| "insert_loop lib env eval checks s db sn sch on_conflict returning (row # rows) st =
     st_bind (insert_row lib env eval checks s db sn sch on_conflict returning row st) (\<lambda>st.
       insert_loop lib env eval checks s db sn sch on_conflict returning rows st)"

definition insert_start :: insert_state where
  "insert_start = \<lparr>ins_inserted = 0, ins_affected = 0, ins_first_id = None, ins_returned = []\<rparr>"

definition insert_rows ::
    "json_lib \<Rightarrow> text_env \<Rightarrow> default_eval \<Rightarrow> check_parser \<Rightarrow> i32 option \<Rightarrow> string \<Rightarrow> string \<Rightarrow> table_schema \<Rightarrow> insert_conflict_action option \<Rightarrow>
       bool \<Rightarrow> row_map list \<Rightarrow> (gateway, insert_state) prog" where
  "insert_rows lib env eval checks s db sn sch on_conflict returning rows =
     st_bind (insert_loop lib env eval checks s db sn sch on_conflict returning rows insert_start) (\<lambda>st.
     st_seq (store_table lib gateway_store db sn sch) (st_return st))"

section \<open>SELECT\<close>

datatype read_access =
    ReadPoint column_value
  | ReadKeys "column_value list"
  | ReadKeyRange key_bound key_bound row_filter
  | ReadIndex string string column_value row_filter
  | ReadIndexRange string string key_bound key_bound row_filter
  | ReadPrefix row_filter

text \<open>The rows of an access, and whether offset and limit were applied in the scan.\<close>

definition read_access_rows ::
    "json_lib \<Rightarrow> i32 option \<Rightarrow> string \<Rightarrow> string \<Rightarrow> table_schema \<Rightarrow> read_access \<Rightarrow> nat option \<Rightarrow> nat \<Rightarrow> (gateway, row_map list \<times> bool) prog" where
  "read_access_rows lib s db sn sch access lmt off =
     (let window = (off > 0 \<or> lmt \<noteq> None);
          unwindowed = (\<lambda>m. st_bind m (\<lambda>rows. st_return (rows, False)))
      in case access of
        ReadPoint key \<Rightarrow> unwindowed (st_bind (read_visible_row_at s db sn sch key) (\<lambda>r. st_return (case r of None \<Rightarrow> [] | Some row \<Rightarrow> [row])))
      | ReadKeys keys \<Rightarrow> unwindowed (read_visible_rows_by_pk_in_at s db sn sch keys)
      | ReadKeyRange lower upper flt \<Rightarrow>
          st_bind (scan_visible_row_entries_by_pk_range_at s db sn sch lower upper flt (if window then lmt else None) (if window then off else 0))
            (\<lambda>rows. st_return (map snd rows, window))
      | ReadIndex index _ key flt \<Rightarrow> unwindowed (scan_index_rows_at lib s db sn sch index key flt)
      | ReadIndexRange index _ lower upper flt \<Rightarrow>
          unwindowed (st_bind (scan_index_row_entries_by_range_at lib s db sn sch index lower upper flt) (\<lambda>rows. st_return (map snd rows)))
      | ReadPrefix flt \<Rightarrow>
          if window then
            st_bind (scan_visible_row_entries_by_pk_range_at s db sn sch None None flt lmt off) (\<lambda>rows. st_return (map snd rows, True))
          else unwindowed (scan_visible_rows_at s db sn sch flt))"

definition select_rows ::
    "json_lib \<Rightarrow> i32 option \<Rightarrow> string \<Rightarrow> string \<Rightarrow> table_schema \<Rightarrow> read_access \<Rightarrow> nat option \<Rightarrow> nat \<Rightarrow> (gateway, row_map list) prog" where
  "select_rows lib s db sn sch access lmt off =
     st_bind (read_access_rows lib s db sn sch access lmt off) (\<lambda>(rows, windowed).
       st_return (if windowed then rows
         else if off > 0 \<or> lmt \<noteq> None then (case lmt of Some n \<Rightarrow> take n (drop off rows) | None \<Rightarrow> drop off rows)
         else rows))"

section \<open>The conflict clause of an INSERT\<close>

text \<open>The clause as the parser gives it. An assignment is its column, as \<open>extract_assignment_column\<close> finds
  it, with its expression; a constraint's name is what \<open>object_name_to_string\<close> makes of it.\<close>

type_synonym sql_assignment = "string res \<times> row_expr"

datatype conflict_target = TargetColumns "string list" | OnConstraint "string res"

datatype on_conflict_action = AstDoNothing | AstDoUpdate "sql_assignment list" "row_condition option"

datatype on_insert =
    OnConflict "conflict_target option" on_conflict_action
  | DuplicateKeyUpdate "sql_assignment list"
  | OtherOnInsert

definition resolve_insert_conflict_assignment ::
    "table_schema \<Rightarrow> string list \<Rightarrow> sql_assignment \<Rightarrow> insert_conflict_assignment res" where
  "resolve_insert_conflict_assignment sch targets a =
     res_bind (fst a) (\<lambda>column.
     res_bind (ok_or (find_column sch column) (user_error ''42703'' (quoted ''column '' column '' not found''))) (\<lambda>_.
       if column \<in> set targets
       then Inl (unsupported ''ON CONFLICT DO UPDATE cannot update the conflict target columns in fast path'')
       else Inr \<lparr>ica_column = column, ica_value = snd a\<rparr>))"

definition resolve_update_assignment :: "table_schema \<Rightarrow> sql_assignment \<Rightarrow> update_assignment res" where
  "resolve_update_assignment sch a =
     res_bind (fst a) (\<lambda>column.
     res_bind (ok_or (find_column sch column) (user_error ''42703'' (quoted ''column '' column '' not found''))) (\<lambda>_.
       Inr (AssignExpr column (snd a))))"

definition add_target :: "string list \<Rightarrow> string list list \<Rightarrow> string list list" where
  "add_target cols targets = (if cols = [] \<or> cols \<in> set targets then targets else targets @ [cols])"

definition mysql_duplicate_key_targets :: "json_lib \<Rightarrow> table_schema \<Rightarrow> (gateway, string list list) prog" where
  "mysql_duplicate_key_targets lib sch =
     (let targets = (if has_user_primary_key sch then [[primary_key sch]] else []);
          targets = fold (\<lambda>k. add_target (unique_columns k)) (unique_constraints sch) targets
      in st_bind (list_indexes_for_table lib gateway_store (table_id sch)) (\<lambda>indexes.
           st_return (fold (\<lambda>x ts. if ix_unique x then add_target (ix_column_names x) ts else ts) indexes targets)))"

definition conflict_target_columns :: "table_schema \<Rightarrow> conflict_target option \<Rightarrow> string list res" where
  "conflict_target_columns sch target =
     (case target of
        None \<Rightarrow>
          if has_user_primary_key sch then Inr [primary_key sch]
          else Inl (unsupported ''ON CONFLICT without target requires a user-defined primary key in fast path'')
      | Some (TargetColumns cols) \<Rightarrow> if cols = [] then Inl (unsupported ''ON CONFLICT target cannot be empty'') else Inr cols
      | Some (OnConstraint name) \<Rightarrow>
          res_bind name (\<lambda>name.
          res_bind (ok_or (find (\<lambda>k. eq_ignore_ascii_case (unique_name k) name) (unique_constraints sch))
              (user_error ''42704'' (quoted ''constraint '' name '' does not exist''))) (\<lambda>k.
            if unique_columns k = []
            then Inl (unsupported ''ON CONFLICT ON CONSTRAINT requires constraint with at least one column'')
            else Inr (unique_columns k))))"

definition target_is_keyed :: "table_schema \<Rightarrow> string list \<Rightarrow> insert_conflict_action \<Rightarrow> bool" where
  "target_is_keyed sch cols action =
     (case action of
        DoUpdateAnyUnique _ _ \<Rightarrow> True
      | DoNothingAnyUnique _ \<Rightarrow> True
      | ReplaceAnyUnique _ \<Rightarrow> True
      | _ \<Rightarrow> cols = [primary_key sch] \<or> list_ex (\<lambda>k. unique_primary_key k \<or> unique_columns k = cols) (unique_constraints sch))"

definition resolve_insert_on_conflict ::
    "json_lib \<Rightarrow> table_schema \<Rightarrow> on_insert option \<Rightarrow> bool \<Rightarrow> bool \<Rightarrow> (gateway, insert_conflict_action option) prog" where
  "resolve_insert_on_conflict lib sch on_clause ignore replace_into =
     (if replace_into then
        st_bind (mysql_duplicate_key_targets lib sch) (\<lambda>sets. st_return (if sets = [] then None else Some (ReplaceAnyUnique sets)))
      else if ignore then
        st_bind (mysql_duplicate_key_targets lib sch) (\<lambda>sets. st_return (if sets = [] then None else Some (DoNothingAnyUnique sets)))
      else case on_clause of
        None \<Rightarrow> st_return None
      | Some clause \<Rightarrow>
          st_bind (case clause of
              OnConflict target action \<Rightarrow>
                st_lift (res_bind (conflict_target_columns sch target) (\<lambda>cols.
                  case action of
                    AstDoNothing \<Rightarrow> Inr (cols, DoNothing)
                  | AstDoUpdate as selection \<Rightarrow>
                      res_bind (collect_res (resolve_insert_conflict_assignment sch cols) as) (\<lambda>as. Inr (cols, DoUpdate cols as selection))))
            | DuplicateKeyUpdate as \<Rightarrow>
                st_bind (st_lift (collect_res (resolve_insert_conflict_assignment sch []) as)) (\<lambda>as.
                st_bind (mysql_duplicate_key_targets lib sch) (\<lambda>sets.
                  if sets = []
                  then st_raise (unsupported ''ON DUPLICATE KEY UPDATE requires a primary key, unique constraint, or unique index'')
                  else st_return (hd sets, DoUpdateAnyUnique sets as)))
            | OtherOnInsert \<Rightarrow>
                st_raise (unsupported ''only ON CONFLICT and ON DUPLICATE KEY UPDATE are supported in fast path'')) (\<lambda>(cols, action).
            if \<not> list_all (\<lambda>c. find_column sch c \<noteq> None) cols then st_raise (unsupported ''upsert target column not found'')
            else if \<not> target_is_keyed sch cols action
            then st_raise (unsupported ''upsert target must match the primary key or a unique constraint'')
            else st_return (Some action)))"

end
