(* ===== verification/Row_Laws.thy ===== *)
theory Row_Laws
  imports Row_Write
begin

text \<open>
  What the row operations do to the view of a session. A write is a list of key updates; the keys of
  rows, indexes, chunks, statistics, the older format and the catalog lie in areas that do not meet,
  so each update is seen where it belongs and nowhere else. The rows of a table are a map from primary
  keys to rows; reading, scanning, writing and deleting are then operations on that map.
\<close>

section \<open>Areas of keys\<close>

definition area :: "bytes \<Rightarrow> bytes" where
  "area k = (if take 1 k = [VERSION] then take 2 k else take 3 k)"

definition same_area :: "bytes \<Rightarrow> kv_view \<Rightarrow> kv_view \<Rightarrow> bool" where
  "same_area a w w' = (\<forall>k. area k = a \<longrightarrow> w' k = w k)"

named_theorems area_simps \<open>the areas of the keys\<close>

lemma area_v2 [area_simps]:
  "area (row_key t e pk) = [VERSION, ROW_PREFIX]"
  "area (index_entry_key i v pk) = [VERSION, INDEX_PREFIX]"
  "area (olap_chunk_meta_key t e c) = [VERSION, OLAP_PREFIX]"
  "area (olap_chunk_column_key t e c cid) = [VERSION, OLAP_PREFIX]"
  "area (stats_key t e col) = [VERSION, STATS_PREFIX]"
  by (simp_all add: area_def row_key_def row_prefix_def index_entry_key_def index_prefix_def olap_chunk_meta_key_def
      olap_chunk_column_key_def stats_key_def)

lemma area_prefixes [area_simps]:
  "starts_with k (row_prefix t e) \<Longrightarrow> area k = [VERSION, ROW_PREFIX]"
  "starts_with k (index_all_prefix i) \<Longrightarrow> area k = [VERSION, INDEX_PREFIX]"
  "starts_with k (olap_chunk_meta_prefix t e) \<Longrightarrow> area k = [VERSION, OLAP_PREFIX]"
  "starts_with k (olap_chunk_column_prefix t e) \<Longrightarrow> area k = [VERSION, OLAP_PREFIX]"
  "starts_with k (stats_prefix t e) \<Longrightarrow> area k = [VERSION, STATS_PREFIX]"
  by (auto simp: starts_with_iff area_def row_prefix_def index_all_prefix_def olap_chunk_meta_prefix_def
      olap_chunk_column_prefix_def stats_prefix_def)

abbreviation "TABLE_AREA \<equiv> as_bytes ''__t''"
abbreviation "NAMED_INDEX_AREA \<equiv> as_bytes ''__i''"
abbreviation "CATALOG_AREA \<equiv> as_bytes ''__c''"

lemma underscore_not_version [simp]: "VERSION \<noteq> 95"
  by (simp add: VERSION_def)

lemma area_names [area_simps]:
  "row_marker_key db sn tn pk = Inr k \<Longrightarrow> area k = TABLE_AREA"
  "cell_key db sn tn col pk = Inr k \<Longrightarrow> area k = TABLE_AREA"
  "legacy_index_entry_key db sn tn n v pk = Inr k \<Longrightarrow> area k = NAMED_INDEX_AREA"
  "starts_with k (row_marker_prefix db sn tn) \<Longrightarrow> area k = TABLE_AREA"
  "starts_with k (index_table_prefix db sn tn) \<Longrightarrow> area k = NAMED_INDEX_AREA"
  by (auto simp: row_marker_key_def cell_key_def legacy_index_entry_key_def row_marker_prefix_def cell_prefix_def
      index_entry_prefix_def index_table_prefix_def colon_path_def TABLE_DATA_PREFIX_def INDEX_DATA_PREFIX_def as_bytes_def
      area_def starts_with_iff res_bind_eq_Inr)

lemma area_catalog: "area (as_bytes (''__catalog__/'' @ r)) = CATALOG_AREA"
  by (simp add: area_def as_bytes_def)

lemma areas_apart [simp]:
  "[VERSION, a] \<noteq> TABLE_AREA" "[VERSION, a] \<noteq> NAMED_INDEX_AREA" "[VERSION, a] \<noteq> CATALOG_AREA"
  "TABLE_AREA \<noteq> [VERSION, a]" "NAMED_INDEX_AREA \<noteq> [VERSION, a]" "CATALOG_AREA \<noteq> [VERSION, a]"
  "TABLE_AREA \<noteq> NAMED_INDEX_AREA" "TABLE_AREA \<noteq> CATALOG_AREA" "NAMED_INDEX_AREA \<noteq> CATALOG_AREA"
  "NAMED_INDEX_AREA \<noteq> TABLE_AREA" "CATALOG_AREA \<noteq> TABLE_AREA" "CATALOG_AREA \<noteq> NAMED_INDEX_AREA"
  "ROW_PREFIX \<noteq> INDEX_PREFIX" "ROW_PREFIX \<noteq> OLAP_PREFIX" "ROW_PREFIX \<noteq> STATS_PREFIX" "INDEX_PREFIX \<noteq> OLAP_PREFIX"
  "INDEX_PREFIX \<noteq> STATS_PREFIX" "OLAP_PREFIX \<noteq> STATS_PREFIX" "INDEX_PREFIX \<noteq> ROW_PREFIX" "OLAP_PREFIX \<noteq> ROW_PREFIX"
  "STATS_PREFIX \<noteq> ROW_PREFIX" "OLAP_PREFIX \<noteq> INDEX_PREFIX" "STATS_PREFIX \<noteq> INDEX_PREFIX" "STATS_PREFIX \<noteq> OLAP_PREFIX"
  by (simp_all add: as_bytes_def key_constants)

section \<open>Updates\<close>

type_synonym updates = "(bytes \<times> bytes option) list"

definition upds :: "updates \<Rightarrow> kv_view \<Rightarrow> kv_view" where
  "upds us w = fold (\<lambda>(k, x) w. w(k := x)) us w"

definition sv_upds :: "updates \<Rightarrow> session_view \<Rightarrow> session_view" where
  "sv_upds us v = fold (\<lambda>(k, x). sv_write k x) us v"

lemma upds_simps [simp]: "upds [] w = w" "upds ((k, x) # us) w = upds us (w(k := x))" "upds (us @ us') w = upds us' (upds us w)"
  by (simp_all add: upds_def)

lemma sv_upds_simps [simp]:
  "sv_upds [] v = v" "sv_upds ((k, x) # us) v = sv_upds us (sv_write k x v)" "sv_upds (us @ us') v = sv_upds us' (sv_upds us v)"
  by (simp_all add: sv_upds_def)

lemma upds_map_of: "upds us w k = (case map_of (rev us) k of Some x \<Rightarrow> x | None \<Rightarrow> w k)"
  by (induction us arbitrary: w) (auto simp: map_add_def split: option.splits)

lemma upds_other: "k \<notin> fst ` set us \<Longrightarrow> upds us w k = w k"
  by (simp add: upds_map_of map_of_eq_None_iff [THEN iffD2] split: option.splits)

lemma upds_same_area: "(\<And>k x. (k, x) \<in> set us \<Longrightarrow> area k \<noteq> a) \<Longrightarrow> same_area a w (upds us w)"
  unfolding same_area_def by (intro allI impI upds_other) force

lemma sv_upds_seen [simp]:
  "sv_read (sv_upds us v) = upds us (sv_read v)" "sv_visible (sv_upds us v) = upds us (sv_visible v)"
  "sv_repeatable (sv_upds us v) = sv_repeatable v" "sv_consistent (sv_upds us v) = sv_consistent v"
  "(sv_txn (sv_upds us v) = None) = (sv_txn v = None)"
  by (induction us arbitrary: v) (auto simp: sv_upds_def)

lemma sv_upds_store: "sv_store (sv_upds us v) = (if sv_txn v = None then upds us (sv_store v) else sv_store v)"
  by (induction us arbitrary: v) (auto simp: sv_write_store)

lemma sv_puts_upds: "sv_puts es v = sv_upds (map (\<lambda>(k, x). (k, Some x)) es) v"
  unfolding sv_puts_def by (induction es arbitrary: v) auto

lemma same_catalog_upds: "(\<And>k x. (k, x) \<in> set us \<Longrightarrow> area k \<noteq> CATALOG_AREA) \<Longrightarrow> same_catalog (sv_store v) (sv_store (sv_upds us v))"
  using upds_same_area [of us CATALOG_AREA "sv_store v"] area_catalog
  unfolding same_catalog_def sv_upds_store same_area_def by presburger

lemma upds_const: "snd ` set us \<subseteq> {c} \<Longrightarrow> upds us w k = (if k \<in> fst ` set us then c else w k)"
  by (induction us arbitrary: w) force+

lemma fold_sv_upds: "fold (\<lambda>x. sv_upds (u x)) xs v = sv_upds (concat (map u xs)) v"
  by (induction xs arbitrary: v) simp_all

lemma computes_each_upds:
  "(\<And>x v. x \<in> set xs \<Longrightarrow> computes R (f x) v (Inr ()) (sv_upds (u x) v)) \<Longrightarrow>
     computes R (st_each f xs) v (Inr ()) (sv_upds (concat (map u xs)) v)"
  using computes_each [of xs R f "\<lambda>x. sv_upds (u x)" v] by (simp add: fold_sv_upds)

section \<open>Calls\<close>

lemma computes_shown: "(\<And>g. R g v \<Longrightarrow> computes R m v r v') \<Longrightarrow> computes R m v r v'"
  by (auto simp: computes_def)

lemma put_session_computes: "computes (session_shows s) (put_session s k x) v (Inr ()) (sv_upds [(k, Some x)] v)"
  unfolding put_session_def using computes_catch [OF put_computes] by simp

lemma delete_session_computes: "computes (session_shows s) (delete_session s k) v (Inr ()) (sv_upds [(k, None)] v)"
  unfolding delete_session_def using computes_catch [OF delete_computes] by simp

lemma ignored_delete_computes: "computes (session_shows s) (st_ignore (gw_txn_delete s k)) v (Inr ()) (sv_upds [(k, None)] v)"
  using delete_computes [of s k v] by (fastforce simp: computes_def st_ignore_def)

lemma store_get_computes: "computes (session_shows s) (store_get_bytes k) v (Inr (sv_store v k)) v"
  unfolding store_get_bytes_def
  by (rule on_store_read) (rule gateway_catalog.store_calls(1))

lemma indexes_computes:
  assumes "catalog_inv lib (sv_store v)"
  shows "computes (session_shows s) (list_indexes_for_table lib gateway_store t) v (Inr (index_list lib (sv_store v) t)) v"
  by (rule computes_shown, rule on_store_read, rule gateway_catalog.index_list_computes(1))
    (simp_all add: assms finite_shown)

lemma delete_prefix_computes:
  "computes (session_shows s) (delete_prefix s p) v (Inr ())
     (sv_upds (map (\<lambda>kv. (fst kv, None)) (scan_spec (sv_read v) (\<lambda>k. starts_with k p))) v)"
  unfolding delete_prefix_def
proof (rule computes_bind [OF computes_catch [OF scan_prefix_computes]])
  let ?rows = "scan_spec (sv_read v) (\<lambda>k. starts_with k p)"
  have "computes (session_shows s) (st_each (\<lambda>kv. delete_session s (fst kv)) ?rows) v (Inr ())
      (sv_upds (concat (map (\<lambda>kv. [(fst kv, None)]) ?rows)) v)"
    by (rule computes_each_upds) (rule delete_session_computes)
  then show "computes (session_shows s) (st_each (\<lambda>kv. delete_session s (fst kv)) ?rows) v (Inr ())
      (sv_upds (map (\<lambda>kv. (fst kv, None)) ?rows) v)"
    by (simp add: concat_map_singleton)
qed

section \<open>The rows of a table\<close>

definition schema_ok :: "table_schema \<Rightarrow> bool" where
  "schema_ok sch = (key_type_readable (pk_data_type sch) \<and> segment_type (pk_data_type sch) \<and> distinct (column_names sch))"

definition pk_ok :: "table_schema \<Rightarrow> column_value \<Rightarrow> bool" where
  "pk_ok sch pk = (has_shape (pk_data_type sch) pk \<and> key_ok pk \<and> value_ok pk)"

definition row_fine :: "table_schema \<Rightarrow> row_map \<Rightarrow> bool" where
  "row_fine sch row = (dom row = set (column_names sch) \<and> row_typed sch row)"

abbreviation table_key :: "table_schema \<Rightarrow> column_value \<Rightarrow> bytes" where
  "table_key sch pk \<equiv> row_key (table_id sch) (table_epoch sch) pk"

abbreviation table_prefix :: "table_schema \<Rightarrow> bytes" where
  "table_prefix sch \<equiv> row_prefix (table_id sch) (table_epoch sch)"

text \<open>Every record of the table can be read.\<close>

definition table_ok :: "table_schema \<Rightarrow> kv_view \<Rightarrow> bool" where
  "table_ok sch w =
     (\<forall>k b. starts_with k (table_prefix sch) \<longrightarrow> w k = Some b \<longrightarrow>
        (\<exists>pk row. pk_ok sch pk \<and> k = table_key sch pk \<and> decode_row_record sch b = Inr row \<and> row_fine sch row))"

definition table_of :: "table_schema \<Rightarrow> kv_view \<Rightarrow> (column_value \<rightharpoonup> row_map)" where
  "table_of sch w pk =
     (if pk_ok sch pk then Option.bind (w (table_key sch pk)) (\<lambda>b. case decode_row_record sch b of Inr row \<Rightarrow> Some row | Inl _ \<Rightarrow> None)
      else None)"

definition no_legacy_rows :: "string \<Rightarrow> string \<Rightarrow> table_schema \<Rightarrow> kv_view \<Rightarrow> bool" where
  "no_legacy_rows db sn sch w = (\<forall>k. starts_with k (row_marker_prefix db sn (table_name sch)) \<longrightarrow> w k = None)"

lemma pk_typed: "pk_ok sch pk \<Longrightarrow> has_type (pk_data_type sch) pk"
  by (simp add: pk_ok_def has_type_def)

lemma table_key_inj: "pk_ok sch pk \<Longrightarrow> pk_ok sch pk' \<Longrightarrow> (table_key sch pk = table_key sch pk') = (pk = pk')"
  using encode_key_value_inj [of "pk_data_type sch" pk pk'] by (auto simp: row_key_def pk_typed pk_ok_def)

lemma table_key_prefix [simp]: "starts_with (table_key sch pk) (table_prefix sch)"
  by (simp add: row_key_def starts_with_iff)

lemma decode_table_key: "schema_ok sch \<Longrightarrow> pk_ok sch pk \<Longrightarrow>
    decode_pk_from_row_key (table_key sch pk) (table_id sch) (table_epoch sch) (pk_data_type sch) = Inr pk"
  by (rule decode_pk_from_row_key_row_key) (auto simp: schema_ok_def pk_typed pk_ok_def)

lemma segment_of_pk:
  assumes "schema_ok sch" "pk_ok sch pk"
  obtains seg where "encode_primary_key_segment pk = Inr seg"
  using primary_key_segment_exists assms by (auto simp: schema_ok_def pk_ok_def)

lemma table_of_record:
  "table_ok sch w \<Longrightarrow> pk_ok sch pk \<Longrightarrow> w (table_key sch pk) = Some b \<Longrightarrow>
     \<exists>row. decode_row_record sch b = Inr row \<and> row_fine sch row \<and> table_of sch w pk = Some row"
  unfolding table_ok_def by (drule spec [of _ "table_key sch pk"], drule spec [of _ b]) (auto simp: table_of_def)

lemma table_of_absent: "table_ok sch w \<Longrightarrow> pk_ok sch pk \<Longrightarrow> (table_of sch w pk = None) = (w (table_key sch pk) = None)"
  using table_of_record [of sch w pk] by (cases "w (table_key sch pk)") (auto simp: table_of_def)

lemma table_of_some: "table_ok sch w \<Longrightarrow> table_of sch w pk = Some row \<Longrightarrow> pk_ok sch pk \<and> row_fine sch row"
proof -
  assume ok: "table_ok sch w" and row: "table_of sch w pk = Some row"
  then have pk: "pk_ok sch pk" by (simp add: table_of_def split: if_splits)
  with row obtain b where "w (table_key sch pk) = Some b" by (auto simp: table_of_def bind_eq_Some_conv)
  with table_of_record [OF ok pk] row pk show ?thesis by auto
qed

lemma table_frame:
  assumes "same_area [VERSION, ROW_PREFIX] w w'"
  shows "table_of sch w' = table_of sch w" "table_ok sch w' = table_ok sch w"
proof -
  have eq: "w' k = w k" if "area k = [VERSION, ROW_PREFIX]" for k using assms that by (simp add: same_area_def)
  show "table_of sch w' = table_of sch w" by (simp add: fun_eq_iff table_of_def eq area_simps)
  have "w' k = w k" if "starts_with k (table_prefix sch)" for k using eq area_prefixes(1) [OF that] by simp
  then show "table_ok sch w' = table_ok sch w" by (auto simp: table_ok_def)
qed

subsection \<open>Reading a row\<close>

lemma no_marker:
  assumes "no_legacy_rows db sn sch w" "row_marker_key db sn (table_name sch) pk = Inr marker"
  shows "w marker = None"
proof -
  have "starts_with marker (row_marker_prefix db sn (table_name sch))"
    using assms(2) by (auto simp: row_marker_key_def res_bind_eq_Inr starts_with_iff)
  then show ?thesis using assms(1) by (simp add: no_legacy_rows_def)
qed

lemma read_legacy_row_computes:
  assumes "schema_ok sch" "pk_ok sch pk" "no_legacy_rows db sn sch (sv_visible v)"
  shows "computes (session_shows s) (read_legacy_row s db sn sch pk) v (Inr None) v"
proof -
  obtain seg where seg: "encode_primary_key_segment pk = Inr seg" using segment_of_pk [OF assms(1,2)] .
  let ?marker = "row_marker_prefix db sn (table_name sch) @ seg"
  have key: "row_marker_key db sn (table_name sch) pk = Inr ?marker" by (simp add: row_marker_key_def seg)
  show ?thesis unfolding read_legacy_row_def key
    by (rule computes_bind [OF computes_lift], rule computes_bind [OF visible_get_computes])
      (simp add: no_marker [OF assms(3) key] computes_return)
qed

lemma decoded_computes: "decode_row_record sch b = Inr row \<Longrightarrow> computes R (decoded sch b) v (Inr (Some row)) v"
  unfolding decoded_def by (rule computes_bind [OF computes_lift_eq computes_return])

lemma txn_pending_computes:
  "computes (session_shows s) (\<lambda>g. if has_active_transaction s g then st_catch (gw_txn_has_pending_key s key) g else Some (Inr False, g)) v
     (Inr (sv_pending v key)) v"
proof (rule computes_read)
  fix g assume g: "session_shows s g v"
  have "has_active_transaction s g = (session_txn s g \<noteq> None)"
    by (simp add: has_active_transaction_def session_txn_def split: option.splits)
  then show "(if has_active_transaction s g then st_catch (gw_txn_has_pending_key s key) g else Some (Inr False, g)) = Some (Inr (sv_pending v key), g)"
    using g by (auto simp: session_shows_def gw_txn_has_pending_key_def st_catch_def sv_pending_def txn_has_pending_key_def split: option.splits)
qed

lemma pending_visible: "sv_pending v k \<Longrightarrow> sv_read v k = sv_visible v k"
  by (auto simp: sv_pending_def sv_read_def sv_visible_def sv_snap_def overlay_def split: option.splits)

lemma read_row_computes:
  assumes "schema_ok sch" "pk_ok sch pk" "table_ok sch (sv_visible v)" "no_legacy_rows db sn sch (sv_visible v)"
  shows "computes (session_shows s) (read_visible_row_at s db sn sch pk) v (Inr (table_of sch (sv_visible v) pk)) v"
  unfolding read_visible_row_at_def Let_def
proof (rule computes_bind [OF txn_pending_computes])
  let ?k = "table_key sch pk" and ?w = "sv_visible v"
  have found: "computes (session_shows s) (case ?w ?k of Some bs \<Rightarrow> decoded sch bs | None \<Rightarrow> m) v (Inr (table_of sch ?w pk)) v"
    if "?w ?k = None \<Longrightarrow> computes (session_shows s) m v (Inr None) v" for m
    using that table_of_record [OF assms(3,2)] table_of_absent [OF assms(3,2)]
    by (cases "?w ?k") (auto intro: decoded_computes)
  show "computes (session_shows s)
     (if sv_pending v ?k then st_bind (st_catch (gw_txn_get s ?k)) (\<lambda>value. case value of Some bs \<Rightarrow> decoded sch bs | None \<Rightarrow> st_return None)
      else st_bind (visible_get s ?k) (\<lambda>value. case value of Some bs \<Rightarrow> decoded sch bs | None \<Rightarrow> read_legacy_row s db sn sch pk))
     v (Inr (table_of sch ?w pk)) v"
  proof (cases "sv_pending v ?k")
    case True
    then show ?thesis
      using computes_bind [OF computes_catch [OF get_computes [of s ?k v]], of "\<lambda>value. case value of Some bs \<Rightarrow> decoded sch bs | None \<Rightarrow> st_return None"]
        found [of "st_return None"] by (simp add: pending_visible computes_return)
  next
    case False
    then show ?thesis
      using computes_bind [OF visible_get_computes [of s ?k v]] found [of "read_legacy_row s db sn sch pk"]
        read_legacy_row_computes [OF assms(1,2,4)] by simp
  qed
qed

subsection \<open>Scanning\<close>

text \<open>The rows in the order of their keys.\<close>

definition entry_row :: "table_schema \<Rightarrow> bytes \<times> bytes \<Rightarrow> column_value \<times> row_map" where
  "entry_row sch kv =
     (projr (decode_pk_from_row_key (fst kv) (table_id sch) (table_epoch sch) (pk_data_type sch)), projr (decode_row_record sch (snd kv)))"

definition table_rows_in :: "table_schema \<Rightarrow> kv_view \<Rightarrow> (bytes \<Rightarrow> bool) \<Rightarrow> row_entries" where
  "table_rows_in sch w sel = map (entry_row sch) (scan_spec w (\<lambda>k. starts_with k (table_prefix sch) \<and> sel k))"

abbreviation table_list :: "table_schema \<Rightarrow> kv_view \<Rightarrow> row_entries" where
  "table_list sch w \<equiv> table_rows_in sch w (\<lambda>_. True)"

lemma entry_row_of:
  assumes "schema_ok sch" "table_ok sch w" "starts_with k (table_prefix sch)" "w k = Some b"
  obtains pk row where "pk_ok sch pk" "k = table_key sch pk" "decode_row_record sch b = Inr row" "table_of sch w pk = Some row"
    "entry_row sch (k, b) = (pk, row)" "decode_pk_from_row_key k (table_id sch) (table_epoch sch) (pk_data_type sch) = Inr pk"
proof -
  obtain pk row where "pk_ok sch pk" "k = table_key sch pk" "decode_row_record sch b = Inr row"
    using assms(2-4) unfolding table_ok_def by blast
  then show ?thesis using that [of pk row] decode_table_key [OF assms(1), of pk] assms(4) by (simp add: entry_row_def table_of_def)
qed

lemma rows_in_mem:
  assumes "schema_ok sch" "table_ok sch w" "finite (dom w)"
  shows "((pk, row) \<in> set (table_rows_in sch w sel)) = (table_of sch w pk = Some row \<and> sel (table_key sch pk))"
proof
  assume "(pk, row) \<in> set (table_rows_in sch w sel)"
  then obtain k b where kb: "starts_with k (table_prefix sch)" "sel k" "w k = Some b" "(pk, row) = entry_row sch (k, b)"
    by (auto simp: table_rows_in_def scan_spec_props(2) [OF assms(3)])
  from entry_row_of [OF assms(1,2) kb(1,3)] kb(2,4) show "table_of sch w pk = Some row \<and> sel (table_key sch pk)" by (metis Pair_inject)
next
  assume r: "table_of sch w pk = Some row \<and> sel (table_key sch pk)"
  then obtain b where b: "w (table_key sch pk) = Some b" "pk_ok sch pk"
    by (auto simp: table_of_def bind_eq_Some_conv split: if_splits)
  have "entry_row sch (table_key sch pk, b) = (pk, row)"
  proof (rule entry_row_of [OF assms(1,2) table_key_prefix b(1)])
    fix pk' row' assume e: "pk_ok sch pk'" "table_key sch pk = table_key sch pk'" "table_of sch w pk' = Some row'"
      "entry_row sch (table_key sch pk, b) = (pk', row')"
    then show ?thesis using r table_key_inj [OF b(2) e(1)] by simp
  qed
  moreover have "(table_key sch pk, b) \<in> set (scan_spec w (\<lambda>k. starts_with k (table_prefix sch) \<and> sel k))"
    using r b by (simp add: scan_spec_props(2) [OF assms(3)])
  ultimately show "(pk, row) \<in> set (table_rows_in sch w sel)" unfolding table_rows_in_def by (auto intro: rev_image_eqI)
qed

lemma rows_in_distinct:
  assumes "schema_ok sch" "table_ok sch w" "finite (dom w)"
  shows "distinct (map fst (table_rows_in sch w sel))"
proof -
  let ?rows = "scan_spec w (\<lambda>k. starts_with k (table_prefix sch) \<and> sel k)"
  have d: "distinct (map fst ?rows)" using scan_spec_props(1) [OF assms(3)] by (auto simp: strict_sorted_iff)
  have "inj_on (fst \<circ> entry_row sch) (set ?rows)"
  proof (rule inj_onI)
    fix a b assume ab: "a \<in> set ?rows" "b \<in> set ?rows" "(fst \<circ> entry_row sch) a = (fst \<circ> entry_row sch) b"
    have "starts_with (fst a) (table_prefix sch)" "w (fst a) = Some (snd a)" "starts_with (fst b) (table_prefix sch)" "w (fst b) = Some (snd b)"
      using ab(1,2) scan_spec_props(2) [OF assms(3)] by (metis prod.collapse)+
    then have "fst a = table_key sch (fst (entry_row sch a))" "fst b = table_key sch (fst (entry_row sch b))"
      using entry_row_of [OF assms(1,2)] by (metis fst_conv prod.collapse)+
    with ab(3) have "fst a = fst b" by simp
    then show "a = b" using \<open>w (fst a) = Some (snd a)\<close> \<open>w (fst b) = Some (snd b)\<close> by (simp add: prod_eq_iff)
  qed
  moreover have "distinct ?rows" using d by (simp add: distinct_map)
  ultimately show ?thesis by (simp add: table_rows_in_def distinct_map comp_def)
qed

text \<open>The loop of the scans without the store.\<close>

fun pick :: "row_filter \<Rightarrow> nat option \<Rightarrow> nat \<Rightarrow> row_entries \<Rightarrow> row_entries \<Rightarrow> row_entries \<times> nat \<times> bool" where
  "pick flt lmt off acc [] = (acc, off, False)"
| "pick flt lmt off acc (e # es) =
     (if \<not> passes flt (snd e) then pick flt lmt off acc es
      else if off > 0 then pick flt lmt (off - 1) acc es
      else if (case lmt of None \<Rightarrow> False | Some n \<Rightarrow> n \<le> length acc + 1) then (acc @ [e], off, True)
      else pick flt lmt off (acc @ [e]) es)"

lemma take_rows_computes:
  assumes "\<And>k. k \<in> set ks \<Longrightarrow> computes R (rd k) v (Inr (Some (f k))) v"
  shows "computes R (take_rows rd flt lmt off acc ks) v (Inr (pick flt lmt off acc (map f ks))) v"
  using assms
proof (induction ks arbitrary: off acc)
  case Nil
  show ?case by (simp add: computes_return)
next
  case (Cons k ks)
  have IH: "computes R (take_rows rd flt lmt off acc ks) v (Inr (pick flt lmt off acc (map f ks))) v" for off acc
    using Cons by simp
  have k: "computes R (rd k) v (Inr (Some (f k))) v" using Cons.prems by simp
  show ?case unfolding take_rows.simps
    by (rule computes_bind [OF k])
      (auto simp: Let_def split_beta IH computes_return split: option.splits)
qed

lemma pick_all: "pick flt None off acc es = (acc @ drop off (filter (\<lambda>e. passes flt (snd e)) es), off - length (filter (\<lambda>e. passes flt (snd e)) es), False)"
  by (induction es arbitrary: off acc) (auto simp: drop_Cons' Suc_diff_Suc split: nat.splits)

lemma pick_limit:
  assumes "length acc < n"
  shows "fst (pick flt (Some n) off acc es) = acc @ take (n - length acc) (drop off (filter (\<lambda>e. passes flt (snd e)) es))"
  using assms
proof (induction es arbitrary: off acc)
  case (Cons e es)
  show ?case
  proof (cases "passes flt (snd e) \<and> off = 0")
    case True
    then show ?thesis
    proof (cases "n \<le> length acc + 1")
      case False
      then have "n - length acc = Suc (n - length (acc @ [e]))" by simp
      then show ?thesis using True False Cons.IH [of "acc @ [e]" 0] by simp
    qed (use Cons.prems in \<open>simp add: le_Suc_eq\<close>)
  next
    case False
    then show ?thesis using Cons.IH [OF Cons.prems] Cons.IH [OF Cons.prems, of "off - 1"] by (auto simp: drop_Cons')
  qed
qed simp

lemma all_rows_computes:
  assumes "\<And>k. k \<in> set ks \<Longrightarrow> computes R (rd k) v (Inr (Some (f k))) v"
  shows "computes R (all_rows rd flt ks) v (Inr (filter (\<lambda>e. passes flt (snd e)) (map f ks))) v"
  unfolding all_rows_def
  by (rule computes_bind [OF take_rows_computes [OF assms]]) (simp_all add: pick_all computes_return)

lemma scan_spec_empty: "(\<And>k. sel k \<Longrightarrow> w k = None) \<Longrightarrow> scan_spec w sel = []"
proof -
  assume "\<And>k. sel k \<Longrightarrow> w k = None"
  then have none: "{k \<in> dom w. sel k} = {}" by fastforce
  show ?thesis unfolding scan_spec_def none by simp
qed

lemma prefix_bounds: "in_bounds p (next_prefix p) = (\<lambda>k. starts_with k p)"
  by (rule ext) (rule in_bounds_next_prefix)

lemma range_rows_all [simp]: "range_rows w (row_range t e None) = scan_spec w (\<lambda>k. starts_with k (row_prefix t e))"
  by (simp add: range_rows_def row_range_def prefix_range_def take_limit_def in_range_def [abs_def] prefix_bounds)

lemma entry_record_computes:
  assumes "schema_ok sch" "table_ok sch w" "starts_with (fst kb) (table_prefix sch)" "w (fst kb) = Some (snd kb)"
  shows "computes R (entry_record sch kb) v (Inr (Some (entry_row sch kb))) v"
proof -
  obtain pk row where e: "decode_row_record sch (snd kb) = Inr row" "entry_row sch kb = (pk, row)"
      "decode_pk_from_row_key (fst kb) (table_id sch) (table_epoch sch) (pk_data_type sch) = Inr pk"
    using entry_row_of [OF assms] by (metis prod.collapse)
  show ?thesis unfolding entry_record_def e
    by (rule computes_bind [OF computes_lift], rule computes_bind [OF computes_lift], rule computes_return)
qed

lemma scan_rows_computes:
  assumes "schema_ok sch" "table_ok sch (sv_visible v)" "no_legacy_rows db sn sch (sv_visible v)"
  shows "computes (session_shows s) (scan_visible_row_entries_at s db sn sch flt) v
    (Inr (filter (\<lambda>e. passes flt (snd e)) (table_list sch (sv_visible v)))) v"
proof (rule computes_shown)
  fix g assume g: "session_shows s g v"
  let ?w = "sv_visible v"
  let ?rows = "scan_spec ?w (\<lambda>k. starts_with k (table_prefix sch))"
  have fin: "finite (dom ?w)" by (rule finite_shown(4) [OF g])
  have list: "table_list sch ?w = map (entry_row sch) ?rows" by (simp add: table_rows_in_def)
  have "scan_spec ?w (\<lambda>k. starts_with k (row_marker_prefix db sn (table_name sch))) = []"
    by (rule scan_spec_empty) (use assms(3) in \<open>simp add: no_legacy_rows_def\<close>)
  then have legacy: "computes (session_shows s) (st_bind (visible_scan_prefix s (row_marker_prefix db sn (table_name sch)))
      (all_rows (marker_reread s db sn sch) flt)) v (Inr []) v"
    using all_rows_computes [of "[]" "session_shows s" "marker_reread s db sn sch" v undefined flt]
    by (intro computes_bind [OF visible_scan_prefix_computes]) simp
  have "computes (session_shows s) (all_rows (entry_record sch) flt ?rows) v
      (Inr (filter (\<lambda>e. passes flt (snd e)) (map (entry_row sch) ?rows))) v"
  proof (rule all_rows_computes)
    fix kb assume "kb \<in> set ?rows"
    then have "starts_with (fst kb) (table_prefix sch)" "?w (fst kb) = Some (snd kb)"
      using scan_spec_props(2) [OF fin] by (metis prod.collapse)+
    then show "computes (session_shows s) (entry_record sch kb) v (Inr (Some (entry_row sch kb))) v"
      by (rule entry_record_computes [OF assms(1,2)])
  qed
  then show "computes (session_shows s) (scan_visible_row_entries_at s db sn sch flt) v
      (Inr (filter (\<lambda>e. passes flt (snd e)) (table_list sch ?w))) v"
    unfolding scan_visible_row_entries_at_def list
    by (intro computes_bind [OF visible_scan_range_computes]) (use legacy in \<open>auto split: if_splits\<close>)
qed

end
