(* ===== verification/Row_Checks.thy ===== *)
theory Row_Checks
  imports Row_Laws
begin

text \<open>
  The checks before a write only look: they return, with or without an error, in a state that shows the
  session what it saw before. \<open>succeeds_or_keeps\<close> is the outcome of an operation made of checks and an
  effect: it fails and nothing has changed, or it succeeds with the effect.
\<close>

section \<open>Checks leave everything as it is\<close>

definition settles :: "('s \<Rightarrow> 'v \<Rightarrow> bool) \<Rightarrow> ('s, 'a) prog \<Rightarrow> 'v \<Rightarrow> bool" where
  "settles R m v = (\<forall>g. R g v \<longrightarrow> (\<exists>r g'. m g = Some (r, g') \<and> R g' v))"

named_theorems settles_intros \<open>programs that only look\<close>

lemma settles_computes: "computes R m v r v \<Longrightarrow> settles R m v"
  by (fastforce simp: settles_def computes_def)

lemma settles_pure [settles_intros]: "settles R (st_return x) v" "settles R (st_raise e) v" "settles R (st_lift r) v"
  by (simp_all add: settles_def st_return_def st_raise_def st_lift_def)

lemma settles_bind [settles_intros]:
  assumes "settles R m v" "\<And>x. settles R (f x) v"
  shows "settles R (st_bind m f) v"
  unfolding settles_def
proof (intro allI impI)
  fix g assume "R g v"
  then obtain r g1 where m: "m g = Some (r, g1)" "R g1 v" using assms(1) by (auto simp: settles_def)
  show "\<exists>r g'. st_bind m f g = Some (r, g') \<and> R g' v"
    using m assms(2) by (cases r) (simp_all add: st_bind_def settles_def)
qed

lemma settles_seq [settles_intros]: "settles R m v \<Longrightarrow> settles R m' v \<Longrightarrow> settles R (st_seq m m') v"
  unfolding st_seq_def by (rule settles_bind)

lemma settles_catch [settles_intros]: "settles R m v \<Longrightarrow> settles R (st_catch m) v"
  unfolding settles_def st_catch_def by (fastforce split: option.splits sum.splits)

lemma settles_each [settles_intros]: "(\<And>x. x \<in> set xs \<Longrightarrow> settles R (f x) v) \<Longrightarrow> settles R (st_each f xs) v"
  by (induction xs) (simp_all add: settles_pure settles_seq)

lemma settles_collect [settles_intros]: "(\<And>x. x \<in> set xs \<Longrightarrow> settles R (f x) v) \<Longrightarrow> settles R (st_collect f xs) v"
  by (induction xs) (simp_all add: settles_pure settles_bind)

lemma settles_let [settles_intros]: "settles R (f x) v \<Longrightarrow> settles R (let y = x in f y) v"
  by simp

lemma settles_if [settles_intros]: "(b \<Longrightarrow> settles R m v) \<Longrightarrow> (\<not> b \<Longrightarrow> settles R m' v) \<Longrightarrow> settles R (if b then m else m') v"
  by simp

lemma settles_option [settles_intros]:
  "(o' = None \<Longrightarrow> settles R m v) \<Longrightarrow> (\<And>x. o' = Some x \<Longrightarrow> settles R (f x) v) \<Longrightarrow> settles R (case o' of None \<Rightarrow> m | Some x \<Rightarrow> f x) v"
  by (cases o') simp_all

lemma settles_prod [settles_intros]: "(\<And>a b. settles R (f a b) v) \<Longrightarrow> settles R (case p of (a, b) \<Rightarrow> f a b) v"
  by (cases p) simp

lemma settles_if_state: "settles R m v \<Longrightarrow> settles R m' v \<Longrightarrow> settles R (\<lambda>g. if b g then m g else m' g) v"
  by (simp add: settles_def)

text \<open>The calls of a session that read.\<close>

lemma settles_session [settles_intros]:
  "settles (session_shows s) (gw_txn_get s k) v" "settles (session_shows s) (gw_txn_snapshot_get s k) v"
  "settles (session_shows s) (gw_txn_has_pending_key s k) v" "settles (session_shows s) (gw_txn_scan_prefix s p) v"
  "settles (session_shows s) (gw_txn_scan_range s r) v" "settles (session_shows s) (visible_get s k) v"
  "settles (session_shows s) (visible_scan_prefix s p) v" "settles (session_shows s) (visible_scan_range s r) v"
  "settles (session_shows s) (store_get_bytes k) v"
  by (rule settles_computes, rule get_computes snapshot_get_computes pending_computes scan_prefix_computes scan_range_computes
      visible_get_computes visible_scan_prefix_computes visible_scan_range_computes store_get_computes)+

text \<open>The catalog that reads, once the default database is there.\<close>

lemma settles_cat [settles_intros]:
  "settles (session_shows s) (cat_get gateway_store key) v" "settles (session_shows s) (cat_scan gateway_store p) v"
  by (rule settles_computes, rule on_store_read, rule gateway_catalog.call_get gateway_catalog.call_scan)+

lemma settles_bootstrap: "booted (sv_store v) \<Longrightarrow> settles (session_shows s) (ensure_bootstrap lib gateway_store) v"
  by (rule settles_computes, rule on_store_read, rule gateway_catalog.bootstrapped)

lemma settles_by_name [settles_intros]:
  "settles (session_shows s) absent v \<Longrightarrow> settles (session_shows s) (by_name gateway_store what field id_key dec found absent) v"
  unfolding by_name_def payload_missing_def by (intro settles_intros)

lemma settles_else [settles_intros]:
  "settles R o' v \<Longrightarrow> settles R m v \<Longrightarrow> (\<And>x. settles R (f x) v) \<Longrightarrow> settles R (st_else o' m f) v"
  unfolding st_else_def by (intro settles_intros)

lemma settles_require [settles_intros]: "settles R m v \<Longrightarrow> settles R (st_require e m) v"
  unfolding st_require_def by (intro settles_intros)

lemma settles_catalog_reads:
  assumes "booted (sv_store v)"
  shows "settles (session_shows s) (get_database lib gateway_store n) v"
    and "settles (session_shows s) (get_schema lib gateway_store d n) v"
    and "settles (session_shows s) (list_indexes_for_table lib gateway_store t) v"
  unfolding get_database_def get_schema_def list_indexes_for_table_def load_index_def payload_missing_def
  by (intro settles_intros settles_bootstrap [OF assms])+

lemma settles_load_table: "booted (sv_store v) \<Longrightarrow> settles (session_shows s) (load_table lib gateway_store db sn n) v"
  unfolding load_table_def load_legacy_default_table_def
  by (intro settles_intros settles_bootstrap settles_catalog_reads; assumption?)

lemma settles_list_tables: "booted (sv_store v) \<Longrightarrow> settles (session_shows s) (list_tables lib gateway_store db) v"
  unfolding list_tables_def append_legacy_default_tables_def
  by (intro settles_intros settles_bootstrap settles_catalog_reads; assumption?)

text \<open>Reading rows, and the checks before a write.\<close>

lemma settles_read_cells: "settles (session_shows s) (read_cells s db sn tn pk cs row) v"
  by (induction cs arbitrary: row) (auto intro!: settles_intros)

lemma settles_read_row [settles_intros]: "settles (session_shows s) (read_visible_row_at s db sn sch pk) v"
  unfolding read_visible_row_at_def read_legacy_row_def decoded_def
  by (intro settles_intros settles_read_cells settles_computes [OF txn_pending_computes])

lemma settles_take_rows: "(\<And>k. settles R (rd k) v) \<Longrightarrow> settles R (take_rows rd flt lmt off acc ks) v"
  by (induction ks arbitrary: off acc) (auto intro!: settles_intros simp: Let_def)

lemma settles_all_rows [settles_intros]: "(\<And>k. settles R (rd k) v) \<Longrightarrow> settles R (all_rows rd flt ks) v"
  unfolding all_rows_def by (intro settles_intros settles_take_rows)

lemma settles_scan [settles_intros]:
  "settles (session_shows s) (scan_visible_row_entries_at s db sn sch flt) v"
  "settles (session_shows s) (scan_visible_rows_at s db sn sch flt) v"
  unfolding scan_visible_rows_at_def scan_visible_row_entries_at_def entry_record_def marker_reread_def reread_def
  by (intro settles_intros)+

lemma settles_stale [settles_intros]: "settles (session_shows s) (ensure_row_write_not_stale s sch pk) v"
  unfolding ensure_row_write_not_stale_def Let_def by (intro settles_if_state settles_intros)

lemma settles_search: "booted (sv_store v) \<Longrightarrow> settles (session_shows s) (search_schemas lib db tn path) v"
  by (induction path) (auto intro!: settles_intros settles_load_table)

lemma settles_resolve: "booted (sv_store v) \<Longrightarrow> settles (session_shows s) (resolve_table_schema lib db path tn) v"
  unfolding resolve_table_schema_def by (intro settles_intros settles_search settles_load_table)

lemma settles_foreign_keys: "booted (sv_store v) \<Longrightarrow> settles (session_shows s) (validate_foreign_keys_at lib s db sn sch row) v"
  unfolding validate_foreign_keys_at_def validate_foreign_key_def by (intro settles_intros settles_resolve)

lemma settles_references:
  "booted (sv_store v) \<Longrightarrow> settles (session_shows s) (validate_no_foreign_key_references_at lib s db sn sch row) v"
  unfolding validate_no_foreign_key_references_at_def validate_reference_def by (intro settles_intros settles_list_tables)

lemma settles_unique [settles_intros]: "settles (session_shows s) (validate_unique_constraints_at s db sn sch pk row) v"
  unfolding validate_unique_constraints_at_def validate_unique_constraint_at_def by (intro settles_intros)

lemma settles_index_check:
  "booted (sv_store v) \<Longrightarrow> settles (session_shows s) (validate_index_entries_at lib s db sn sch pk row) v"
  unfolding validate_index_entries_at_def validate_index_entry_def by (intro settles_intros settles_catalog_reads)

section \<open>Outcomes\<close>

text \<open>A program that either fails and changes nothing the session sees, or succeeds with the effect.\<close>

definition succeeds_or_keeps :: "('s \<Rightarrow> 'v \<Rightarrow> bool) \<Rightarrow> ('s, unit) prog \<Rightarrow> 'v \<Rightarrow> ('v \<Rightarrow> bool) \<Rightarrow> bool" where
  "succeeds_or_keeps R m v Q =
     (\<forall>g. R g v \<longrightarrow> (\<exists>r g' v'. m g = Some (r, g') \<and> R g' v' \<and> (case r of Inl e \<Rightarrow> v' = v | Inr _ \<Rightarrow> Q v')))"

lemma check_first:
  assumes "settles R m v" "\<And>g x. R g v \<Longrightarrow> m g = Some (Inr x, g) \<or> (\<exists>g'. m g = Some (Inr x, g')) \<Longrightarrow> succeeds_or_keeps R (f x) v Q"
  shows "succeeds_or_keeps R (st_bind m f) v Q"
  unfolding succeeds_or_keeps_def
proof (intro allI impI)
  fix g assume g: "R g v"
  then obtain r g1 where m: "m g = Some (r, g1)" "R g1 v" using assms(1) by (auto simp: settles_def)
  show "\<exists>r g' v'. st_bind m f g = Some (r, g') \<and> R g' v' \<and> (case r of Inl e \<Rightarrow> v' = v | Inr _ \<Rightarrow> Q v')"
  proof (cases r)
    case (Inl e)
    then show ?thesis using m by (auto simp: st_bind_def)
  next
    case (Inr x)
    then have "succeeds_or_keeps R (f x) v Q" using assms(2) [OF g] m(1) by blast
    then show ?thesis using m Inr by (simp add: st_bind_def succeeds_or_keeps_def)
  qed
qed

lemma check_seq: "settles R m v \<Longrightarrow> succeeds_or_keeps R m' v Q \<Longrightarrow> succeeds_or_keeps R (st_seq m m') v Q"
  unfolding st_seq_def by (rule check_first)

lemma check_computes: "computes R m v (Inr x) v \<Longrightarrow> succeeds_or_keeps R (f x) v Q \<Longrightarrow> succeeds_or_keeps R (st_bind m f) v Q"
  by (rule check_first) (auto intro: settles_computes dest: computes_unique)

text \<open>A check whose outcome is known.\<close>

lemma check_passed:
  assumes "computes R m v r v" "r = Inr () \<Longrightarrow> succeeds_or_keeps R m' v Q"
  shows "succeeds_or_keeps R (st_seq m m') v Q"
  unfolding st_seq_def
proof (rule check_first [OF settles_computes [OF assms(1)]])
  fix g and x :: unit assume "R g v" "m g = Some (Inr x, g) \<or> (\<exists>g'. m g = Some (Inr x, g'))"
  then have "r = Inr ()" using computes_unique [OF assms(1)] by (metis (full_types) unit.exhaust)
  then show "succeeds_or_keeps R m' v Q" by (rule assms(2))
qed

lemma outcome_computes: "computes R m v (Inr ()) v' \<Longrightarrow> Q v' \<Longrightarrow> succeeds_or_keeps R m v Q"
  by (fastforce simp: computes_def succeeds_or_keeps_def)

end
