(* ===== verification/Row_Effects.thy ===== *)
theory Row_Effects
  imports Row_Checks
begin

text \<open>
  Writing and deleting a row, as operations on the map from primary keys to rows: either the operation
  fails and the session sees what it saw before, or the map changes at the one key, the entries of
  every index are again exactly those of the rows, and the statistics are those of the rows.
\<close>

section \<open>The updates of each step\<close>

abbreviation pk_segment :: "column_value \<Rightarrow> bytes" where
  "pk_segment pk \<equiv> projr (encode_primary_key_segment pk)"

text \<open>The two keys of an index entry.\<close>

definition entry_key :: "index_catalog \<Rightarrow> column_value \<Rightarrow> row_map \<Rightarrow> bytes" where
  "entry_key x pk row = index_entry_key (ix_id x) (indexed_value row x) pk"

definition named_entry_key :: "string \<Rightarrow> string \<Rightarrow> table_schema \<Rightarrow> index_catalog \<Rightarrow> column_value \<Rightarrow> row_map \<Rightarrow> bytes" where
  "named_entry_key db sn sch x pk row = index_entry_prefix db sn (table_name sch) (ix_name x) (indexed_value row x) @ pk_segment pk"

definition entry_upds ::
    "string \<Rightarrow> string \<Rightarrow> table_schema \<Rightarrow> index_catalog list \<Rightarrow> column_value \<Rightarrow> row_map \<Rightarrow> bytes option \<Rightarrow> updates" where
  "entry_upds db sn sch xs pk row b = concat (map (\<lambda>x. [(entry_key x pk row, b), (named_entry_key db sn sch x pk row, b)]) xs)"

definition legacy_upds :: "string \<Rightarrow> string \<Rightarrow> table_schema \<Rightarrow> column_value \<Rightarrow> updates" where
  "legacy_upds db sn sch pk =
     (row_marker_prefix db sn (table_name sch) @ pk_segment pk, None)
       # map (\<lambda>c. (cell_prefix db sn (table_name sch) (col_name c) @ pk_segment pk, None)) (columns sch)"

lemma legacy_keys:
  assumes "schema_ok sch" "pk_ok sch pk"
  shows "legacy_entry_key db sn sch pk row x = Inr (named_entry_key db sn sch x pk row)"
    "row_marker_key db sn tn pk = Inr (row_marker_prefix db sn tn @ pk_segment pk)"
    "cell_key db sn tn n pk = Inr (cell_prefix db sn tn n @ pk_segment pk)"
  by (rule segment_of_pk [OF assms],
      simp add: legacy_entry_key_def legacy_index_entry_key_def named_entry_key_def row_marker_key_def cell_key_def)+

lemma legacy_key_areas [area_simps]:
  "area (named_entry_key db sn sch x pk row) = NAMED_INDEX_AREA"
  "area (row_marker_prefix db sn tn @ seg) = TABLE_AREA"
  "area (cell_prefix db sn tn n @ seg) = TABLE_AREA"
  by (simp_all add: named_entry_key_def row_marker_prefix_def cell_prefix_def index_entry_prefix_def index_table_prefix_def
      colon_path_def TABLE_DATA_PREFIX_def INDEX_DATA_PREFIX_def as_bytes_def area_def)

lemma entry_areas: "(k, b') \<in> set (entry_upds db sn sch xs pk row b) \<Longrightarrow> area k \<in> {[VERSION, INDEX_PREFIX], NAMED_INDEX_AREA}"
  by (auto simp: entry_upds_def entry_key_def area_simps)

lemma legacy_areas: "(k, b') \<in> set (legacy_upds db sn sch pk) \<Longrightarrow> area k = TABLE_AREA"
  by (auto simp: legacy_upds_def area_simps)

lemma delete_entries_computes:
  assumes "schema_ok sch" "pk_ok sch pk" "catalog_inv lib (sv_store v)"
  shows "computes (session_shows s) (delete_index_entries_at lib s db sn sch pk row) v (Inr ())
    (sv_upds (entry_upds db sn sch (index_list lib (sv_store v) (table_id sch)) pk row None) v)"
  unfolding delete_index_entries_at_def entry_upds_def entry_key_def
  by (rule computes_bind [OF indexes_computes [OF assms(3)]], rule computes_each_upds)
    (use computes_seq [OF delete_session_computes computes_bind [OF computes_lift delete_session_computes]]
      in \<open>simp add: legacy_keys [OF assms(1,2)]\<close>)

lemma write_entries_computes:
  assumes "schema_ok sch" "pk_ok sch pk" "catalog_inv lib (sv_store v)"
  shows "computes (session_shows s) (write_index_entries_at lib s db sn sch pk row) v (Inr ())
    (sv_upds (entry_upds db sn sch (index_list lib (sv_store v) (table_id sch)) pk row (Some [1])) v)"
  unfolding write_index_entries_at_def entry_upds_def entry_key_def
  by (rule computes_bind [OF indexes_computes [OF assms(3)]], rule computes_each_upds)
    (use computes_seq [OF put_session_computes computes_bind [OF computes_lift put_session_computes]]
      in \<open>simp add: legacy_keys [OF assms(1,2)]\<close>)

lemma delete_cells_computes:
  assumes "schema_ok sch" "pk_ok sch pk" "\<And>k v. computes (session_shows s) (del k) v (Inr ()) (sv_upds [(k, None)] v)"
  shows "computes (session_shows s)
     (st_each (\<lambda>c. st_bind (st_lift (cell_key db sn (table_name sch) (col_name c) pk)) del) (columns sch)) v (Inr ())
     (sv_upds (map (\<lambda>c. (cell_prefix db sn (table_name sch) (col_name c) @ pk_segment pk, None)) (columns sch)) v)"
proof -
  have "computes (session_shows s)
     (st_each (\<lambda>c. st_bind (st_lift (cell_key db sn (table_name sch) (col_name c) pk)) del) (columns sch)) v (Inr ())
     (sv_upds (concat (map (\<lambda>c. [(cell_prefix db sn (table_name sch) (col_name c) @ pk_segment pk, None)]) (columns sch))) v)"
    unfolding legacy_keys(3) [OF assms(1,2)]
    by (rule computes_each_upds, rule computes_bind [OF computes_lift], rule assms(3))
  then show ?thesis by (simp only: concat_map_singleton)
qed

lemma delete_legacy_computes:
  assumes "schema_ok sch" "pk_ok sch pk" "\<And>k v. computes (session_shows s) (del k) v (Inr ()) (sv_upds [(k, None)] v)"
  shows "computes (session_shows s) (delete_legacy_row del db sn sch pk) v (Inr ()) (sv_upds (legacy_upds db sn sch pk) v)"
  unfolding delete_legacy_row_def legacy_keys(2) [OF assms(1,2)] legacy_upds_def sv_upds_simps(2)
  using computes_seq [OF assms(3) delete_cells_computes [OF assms]] by (intro computes_bind [OF computes_lift]) simp

section \<open>Chunks and statistics\<close>

definition table_statistics :: "table_schema \<Rightarrow> row_map list \<Rightarrow> table_stats" where
  "table_statistics sch rows = \<lparr>stats_row_count = word_of_nat (length rows), stats_zones = zone_maps_for_rows sch rows\<rparr>"

definition columns_numbered :: "table_schema \<Rightarrow> bool" where
  "columns_numbered sch = (\<forall>c \<in> set (columns sch). column_id c \<noteq> 0)"

lemma olap_entry_areas: "(k, b) \<in> set (olap_entries sch rows) \<Longrightarrow> area k \<in> {[VERSION, OLAP_PREFIX], [VERSION, STATS_PREFIX]}"
  by (auto simp: olap_entries_def chunk_entries_def stats_entries_def Let_def area_simps split_beta)

lemma zone_ids: "map zone_column_id (zone_maps_for_rows sch rows) = map column_id (columns sch)"
proof -
  have upd: "zone_column_id (update_zone v z) = zone_column_id z" for v z by (simp add: update_zone_def Let_def)
  have step: "map zone_column_id (map2 (\<lambda>c z. update_zone (or_null (row (col_name c))) z) cs zs) = map zone_column_id zs"
    if "length cs = length zs" for row cs zs using that by (induction cs zs rule: list_induct2) (simp_all add: upd)
  have "map zone_column_id zs = map column_id cs \<Longrightarrow>
      map zone_column_id (fold (\<lambda>row zones. map2 (\<lambda>c z. update_zone (or_null (row (col_name c))) z) cs zones) rows zs) = map column_id cs" for zs cs
  proof (induction rows arbitrary: zs)
    case (Cons row rows)
    have "length cs = length zs" using Cons.prems by (metis length_map)
    then show ?case using Cons step [of cs zs row] by simp
  qed simp
  from this [of "map empty_zone (columns sch)" "columns sch"] show ?thesis
    unfolding zone_maps_for_rows_def by (simp add: empty_zone_def comp_def)
qed

lemma stats_written:
  assumes "columns_numbered sch"
  shows "upds (map (\<lambda>(k, x). (k, Some x)) (olap_entries sch rows)) w (stats_key (table_id sch) (table_epoch sch) None) =
    Some (encode_table_stats (table_statistics sch rows))"
proof -
  let ?k = "stats_key (table_id sch) (table_epoch sch) None"
  have "set (map zone_column_id (zone_maps_for_rows sch rows)) = column_id ` set (columns sch)" unfolding zone_ids by simp
  then have "zone_column_id z \<noteq> 0" if "z \<in> set (zone_maps_for_rows sch rows)" for z
    using assms that by (auto simp: columns_numbered_def) (metis imageE image_eqI)
  then have "?k \<noteq> stats_key (table_id sch) (table_epoch sch) (Some (zone_column_id z))" if "z \<in> set (zone_maps_for_rows sch rows)" for z
    using that by (simp add: stats_key_def)
  then show ?thesis
    by (auto simp: olap_entries_def stats_entries_def table_statistics_def Let_def upds_other image_def)
qed

lemma deletes_scanned:
  assumes "finite (dom w)"
  shows "upds (map (\<lambda>kv. (fst kv, None)) (scan_spec w sel)) w = (\<lambda>k. if sel k then None else w k)"
proof
  fix k
  have "(k \<in> fst ` set (scan_spec w sel)) = (sel k \<and> w k \<noteq> None)"
    using scan_spec_props(2) [OF assms] by (auto simp: image_iff Bex_def)
  then show "upds (map (\<lambda>kv. (fst kv, None)) (scan_spec w sel)) w k = (if sel k then None else w k)"
    by (subst upds_const [where c = None]) (auto simp: image_image)
qed

text \<open>The keys of the chunks and the statistics of a table.\<close>

definition olap_prefixes :: "table_schema \<Rightarrow> bytes list" where
  "olap_prefixes sch =
     [olap_chunk_meta_prefix (table_id sch) (table_epoch sch), olap_chunk_column_prefix (table_id sch) (table_epoch sch),
      stats_prefix (table_id sch) (table_epoch sch)]"

definition olap_key :: "table_schema \<Rightarrow> bytes \<Rightarrow> bool" where
  "olap_key sch k = (\<exists>p \<in> set (olap_prefixes sch). starts_with k p)"

abbreviation "OLAP_AREAS \<equiv> {[VERSION, OLAP_PREFIX], [VERSION, STATS_PREFIX]}"

lemma olap_key_area: "olap_key sch k \<Longrightarrow> area k \<in> OLAP_AREAS"
  by (auto simp: olap_key_def olap_prefixes_def area_prefixes)

lemma delete_prefixes_computes:
  assumes "finite (dom (sv_read v))"
  shows "\<exists>us. computes (session_shows s) (st_each (delete_prefix s) ps) v (Inr ()) (sv_upds us v) \<and>
    (\<forall>(k, b) \<in> set us. \<exists>p \<in> set ps. starts_with k p) \<and>
    upds us (sv_read v) = (\<lambda>k. if \<exists>p \<in> set ps. starts_with k p then None else sv_read v k)"
  using assms
proof (induction ps arbitrary: v)
  case Nil
  show ?case by (intro exI [of _ "[]"]) (simp add: computes_return)
next
  case (Cons p ps)
  let ?d = "map (\<lambda>kv. (fst kv, None :: bytes option)) (scan_spec (sv_read v) (\<lambda>k. starts_with k p))"
  let ?v = "sv_upds ?d v"
  have read: "sv_read ?v = (\<lambda>k. if starts_with k p then None else sv_read v k)" by (simp add: deletes_scanned [OF Cons.prems])
  have "dom (sv_read ?v) \<subseteq> dom (sv_read v)" unfolding read by (auto split: if_splits)
  then have "finite (dom (sv_read ?v))" using Cons.prems finite_subset by blast
  from Cons.IH [OF this] obtain us where us:
      "computes (session_shows s) (st_each (delete_prefix s) ps) ?v (Inr ()) (sv_upds us ?v)"
      "\<forall>(k, b) \<in> set us. \<exists>p \<in> set ps. starts_with k p"
      "upds us (sv_read ?v) = (\<lambda>k. if \<exists>p \<in> set ps. starts_with k p then None else sv_read ?v k)" by blast
  have "computes (session_shows s) (st_each (delete_prefix s) (p # ps)) v (Inr ()) (sv_upds (?d @ us) v)"
    using computes_seq [OF delete_prefix_computes us(1)] by simp
  moreover have "\<forall>(k, b) \<in> set ?d. starts_with k p" using scan_spec_props(2) [OF Cons.prems] by auto
  moreover have "upds (?d @ us) (sv_read v) = (\<lambda>k. if \<exists>p \<in> set (p # ps). starts_with k p then None else sv_read v k)"
    using us(3) read by (auto simp: fun_eq_iff)
  ultimately show ?case using us(2) by (intro exI [of _ "?d @ us"]) auto
qed

text \<open>The refresh leaves exactly the chunks and statistics of the rows the session sees.\<close>

lemma refresh_computes:
  assumes "schema_ok sch" "table_ok sch (sv_visible v)" "no_legacy_rows db sn sch (sv_visible v)" "finite (dom (sv_read v))"
  shows "\<exists>us. computes (session_shows s) (refresh_olap_storage_at s db sn sch) v (Inr ()) (sv_upds us v) \<and>
    (\<forall>(k, b) \<in> set us. area k \<in> OLAP_AREAS) \<and>
    upds us (sv_read v) = upds (map (\<lambda>(k, x). (k, Some x)) (olap_entries sch (map snd (table_list sch (sv_visible v)))))
      (\<lambda>k. if olap_key sch k then None else sv_read v k)"
proof -
  let ?rows = "table_list sch (sv_visible v)"
  let ?es = "olap_entries sch (map snd ?rows)"
  obtain us where us: "computes (session_shows s) (st_each (delete_prefix s) (olap_prefixes sch)) v (Inr ()) (sv_upds us v)"
      "\<forall>(k, b) \<in> set us. olap_key sch k" "upds us (sv_read v) = (\<lambda>k. if olap_key sch k then None else sv_read v k)"
    using delete_prefixes_computes [OF assms(4), of s "olap_prefixes sch"] unfolding olap_key_def by blast
  have all: "computes (session_shows s) (scan_visible_row_entries_at s db sn sch None) v (Inr ?rows) v"
    using scan_rows_computes [OF assms(1-3), of s None] by (simp add: passes_def)
  have "?es \<noteq> []" by (simp add: olap_entries_def stats_entries_def Let_def)
  then have "computes (session_shows s) (if ?es = [] then st_return () else st_catch (gw_txn_put_batch s ?es)) (sv_upds us v) (Inr ())
      (sv_puts ?es (sv_upds us v))"
    using computes_catch [OF put_batch_computes] by simp
  then have "computes (session_shows s) (refresh_olap_storage_at s db sn sch) v (Inr ())
      (sv_upds (us @ map (\<lambda>(k, x). (k, Some x)) ?es) v)"
    unfolding refresh_olap_storage_at_def Let_def olap_prefixes_def [symmetric] sv_puts_upds sv_upds_simps(3)
    by (rule computes_bind [OF all computes_seq [OF us(1)]])
  moreover have "\<forall>(k, b) \<in> set us. area k \<in> OLAP_AREAS" using us(2) olap_key_area by blast
  moreover have "area (fst e) \<in> OLAP_AREAS" if "e \<in> set ?es" for e
    by (rule olap_entry_areas [of _ "snd e"]) (use that in simp)
  then have "\<forall>(k, b) \<in> set (map (\<lambda>(k, x). (k, Some x)) ?es). area k \<in> OLAP_AREAS"
    by (simp only: set_map ball_simps split_beta fst_conv) blast
  ultimately show ?thesis
    by (intro exI [of _ "us @ map (\<lambda>(k, x). (k, Some x)) ?es"] conjI)
      (simp_all only: set_append ball_Un upds_simps(3) us(3))
qed

section \<open>One record of a table\<close>

text \<open>The row as it is read back: every column of the schema, a missing one as NULL.\<close>

definition stored_row :: "table_schema \<Rightarrow> row_map \<Rightarrow> row_map" where
  "stored_row sch row = map_of (map (\<lambda>c. (col_name c, row_value row c)) (columns sch))"

definition row_fits :: "table_schema \<Rightarrow> row_map \<Rightarrow> bool" where
  "row_fits sch row = (record_fits sch row \<and> row_typed sch row \<and> dom row \<subseteq> set (column_names sch))"

lemma stored_row_at: "schema_ok sch \<Longrightarrow> c \<in> set (columns sch) \<Longrightarrow> stored_row sch row (col_name c) = Some (row_value row c)"
  unfolding stored_row_def by (rule map_of_is_SomeI) (auto simp: schema_ok_def column_names_def comp_def)

lemma dom_stored_row: "dom (stored_row sch row) = set (column_names sch)"
  by (auto simp: stored_row_def dom_map_of_conv_image_fst column_names_def image_image)

lemma record_read_back:
  assumes "schema_ok sch" "row_fits sch row"
  shows "decode_row_record sch (encode_row_record sch row) = Inr (stored_row sch row)" "row_fine sch (stored_row sch row)"
proof -
  have d: "distinct (column_names sch)" using assms(1) by (simp add: schema_ok_def)
  obtain out where out: "decode_row_record sch (encode_row_record sch row) = Inr out" "dom out = set (column_names sch)"
      "\<forall>c \<in> set (columns sch). out (col_name c) = Some (row_value row c)"
    using decode_encode_row_record [of sch row sch "[]" mvcc_default] assms(2) d by (auto simp: row_fits_def encode_row_record_def)
  have "out n = stored_row sch row n" for n
  proof (cases "n \<in> set (column_names sch)")
    case True
    then obtain c where "c \<in> set (columns sch)" "n = col_name c" by (auto simp: column_names_def)
    then show ?thesis using out(3) stored_row_at [OF assms(1)] by simp
  next
    case False
    then have "n \<notin> dom out" "n \<notin> dom (stored_row sch row)" by (simp_all only: out(2) dom_stored_row not_False_eq_True)
    then show ?thesis by (simp only: domIff not_not)
  qed
  then have "out = stored_row sch row" ..
  then show "decode_row_record sch (encode_row_record sch row) = Inr (stored_row sch row)" using out(1) by simp
  have "row_value (stored_row sch row) c = row_value row c" if "c \<in> set (columns sch)" for c
    using stored_row_at [OF assms(1) that] by (simp add: row_value_def)
  then show "row_fine sch (stored_row sch row)"
    using assms(2) by (simp add: row_fine_def row_fits_def row_typed_def dom_stored_row)
qed

lemma table_put:
  assumes "schema_ok sch" "pk_ok sch pk" "row_fits sch row"
  shows "table_of sch (w(table_key sch pk \<mapsto> encode_row_record sch row)) = (table_of sch w)(pk \<mapsto> stored_row sch row)"
    and "table_ok sch w \<Longrightarrow> table_ok sch (w(table_key sch pk \<mapsto> encode_row_record sch row))"
  using record_read_back [OF assms(1,3)] assms(2) table_key_inj [OF _ assms(2)]
  by (auto simp: table_of_def table_ok_def fun_eq_iff)

lemma table_delete:
  assumes "pk_ok sch pk"
  shows "table_of sch (w(table_key sch pk := None)) = (table_of sch w)(pk := None)"
    and "table_ok sch w \<Longrightarrow> table_ok sch (w(table_key sch pk := None))"
  using assms table_key_inj [OF _ assms] by (auto simp: table_of_def table_ok_def fun_eq_iff)

lemma other_table:
  assumes "(table_id sch', table_epoch sch') \<noteq> (table_id sch, table_epoch sch)"
  shows "table_of sch' (w(table_key sch pk := x)) = table_of sch' w"
  using assms by (auto simp: table_of_def fun_eq_iff row_key_def row_prefix_def)

end
