(* ===== verification/Index_Entries.thy ===== *)
theory Index_Entries
  imports Row_Effects
begin

text \<open>
  The entries of the indexes of a table. An entry format gives a key for an index, a primary key and
  the row; the laws are that a key tells the index, the primary key and the indexed value. Both
  formats of the store, by identifier and by name, have them, and then replacing the entries of one
  row keeps the entries of every index exactly those of the rows.
\<close>

section \<open>Entry formats\<close>

definition entries_exact :: "(column_value \<Rightarrow> row_map \<Rightarrow> bytes) \<Rightarrow> (bytes \<Rightarrow> bool) \<Rightarrow> (column_value \<rightharpoonup> row_map) \<Rightarrow> kv_view \<Rightarrow> bool" where
  "entries_exact ekey own t w = (\<forall>k. own k \<longrightarrow> (w k \<noteq> None) = (\<exists>pk row. t pk = Some row \<and> k = ekey pk row))"

locale entry_format =
  fixes valid :: "'x list \<Rightarrow> bool"
    and good :: "'x \<Rightarrow> column_value \<Rightarrow> row_map \<Rightarrow> bool"
    and ekey :: "'x \<Rightarrow> column_value \<Rightarrow> row_map \<Rightarrow> bytes"
    and own :: "'x \<Rightarrow> bytes \<Rightarrow> bool"
  assumes own_entry: "valid xs \<Longrightarrow> x \<in> set xs \<Longrightarrow> y \<in> set xs \<Longrightarrow> own x (ekey y pk row) = (y = x)"
    and entry_pk: "good x pk row \<Longrightarrow> good x pk' row' \<Longrightarrow> ekey x pk row = ekey x pk' row' \<Longrightarrow> pk = pk'"
begin

text \<open>The entries of one row, set to a value or removed.\<close>

lemma one_row:
  assumes "valid xs" "x \<in> set xs" "own x k"
  shows "upds (map (\<lambda>y. (ekey y pk row, b)) xs) w k = (if k = ekey x pk row then b else w k)"
  using assms own_entry [OF assms(1,2)] by (subst upds_const [where c = b]) (auto simp: image_image)

lemma exact_cong: "(\<And>k. own x k \<Longrightarrow> w' k = w k) \<Longrightarrow> entries_exact (ekey x) (own x) t w' = entries_exact (ekey x) (own x) t w"
  by (simp add: entries_exact_def)

lemma exact_delete:
  assumes "valid xs" "x \<in> set xs" "entries_exact (ekey x) (own x) t w" "t pk = Some old"
    and "\<And>pk row. t pk = Some row \<Longrightarrow> good x pk row"
  shows "entries_exact (ekey x) (own x) (t(pk := None)) (upds (map (\<lambda>y. (ekey y pk old, None)) xs) w)"
  unfolding entries_exact_def
proof (intro allI impI)
  fix k assume own: "own x k"
  have same: "pk' = pk" if "t pk' = Some row'" "ekey x pk' row' = ekey x pk old" for pk' row'
    using entry_pk [OF assms(5) [OF that(1)] assms(5) [OF assms(4)] that(2)] .
  show "(upds (map (\<lambda>y. (ekey y pk old, None)) xs) w k \<noteq> None) = (\<exists>pk' row. (t(pk := None)) pk' = Some row \<and> k = ekey x pk' row)"
  proof (cases "k = ekey x pk old")
    case True
    then show ?thesis unfolding one_row [OF assms(1,2) own] using same by auto
  next
    case False
    have "(w k \<noteq> None) = (\<exists>pk row. t pk = Some row \<and> k = ekey x pk row)" using assms(3) own by (simp add: entries_exact_def)
    also have "\<dots> = (\<exists>pk' row. (t(pk := None)) pk' = Some row \<and> k = ekey x pk' row)"
      using False assms(4) by (metis fun_upd_other fun_upd_same option.distinct(1) option.sel)
    finally show ?thesis using False by (simp add: one_row [OF assms(1,2) own])
  qed
qed

lemma exact_insert:
  assumes "valid xs" "x \<in> set xs" "entries_exact (ekey x) (own x) t w" "t pk = None"
  shows "entries_exact (ekey x) (own x) (t(pk \<mapsto> row)) (upds (map (\<lambda>y. (ekey y pk row, Some b)) xs) w)"
  using assms(3,4) one_row [OF assms(1,2)] unfolding entries_exact_def by (auto split: if_splits) (metis option.distinct(1))

text \<open>The entries of the old row are taken away before those of the new one are written.\<close>

lemma exact_change:
  assumes "valid xs" "x \<in> set xs" "entries_exact (ekey x) (own x) t w" "\<And>pk row. t pk = Some row \<Longrightarrow> good x pk row"
  shows "entries_exact (ekey x) (own x) (t(pk := new)) (upds (case new of None \<Rightarrow> [] | Some row \<Rightarrow> map (\<lambda>y. (ekey y pk row, Some b)) xs)
    (upds (case t pk of None \<Rightarrow> [] | Some old \<Rightarrow> map (\<lambda>y. (ekey y pk old, None)) xs) w))"
proof -
  let ?w = "upds (case t pk of None \<Rightarrow> [] | Some old \<Rightarrow> map (\<lambda>y. (ekey y pk old, None)) xs) w"
  have removed: "entries_exact (ekey x) (own x) (t(pk := None)) ?w"
  proof (cases "t pk")
    case None
    then show ?thesis using assms(3) by (simp add: fun_upd_idem)
  next
    case (Some old)
    then show ?thesis using exact_delete [OF assms(1-3) Some assms(4)] by simp
  qed
  show ?thesis
  proof (cases new)
    case None
    then show ?thesis using removed by simp
  next
    case (Some row)
    then show ?thesis using exact_insert [OF assms(1,2) removed, of pk row b] by simp
  qed
qed

end

section \<open>The two formats\<close>

text \<open>The values of an index have the types of its columns, and fit the length fields of the keys.\<close>

definition index_fits :: "index_catalog \<Rightarrow> row_map \<Rightarrow> bool" where
  "index_fits x row = (key_ok (indexed_value row x) \<and> cell_ok (indexed_value row x))"

definition entry_good :: "table_schema \<Rightarrow> index_catalog \<Rightarrow> column_value \<Rightarrow> row_map \<Rightarrow> bool" where
  "entry_good sch x pk row = (pk_ok sch pk \<and> row_fine sch row \<and> index_fits x row)"

definition column_type :: "table_schema \<Rightarrow> string \<Rightarrow> data_type" where
  "column_type sch n = (case find (\<lambda>c. col_name c = n) (columns sch) of Some c \<Rightarrow> col_type c | None \<Rightarrow> TBoolean)"

lemma cell_typed: "row_fine sch row \<Longrightarrow> has_type (column_type sch n) (or_null (row n))"
proof (cases "find (\<lambda>c. col_name c = n) (columns sch)")
  case None
  assume "row_fine sch row"
  moreover have "n \<notin> set (column_names sch)" using None by (auto simp: find_None_iff column_names_def)
  ultimately have "row n = None" by (auto simp: row_fine_def)
  then show ?thesis by (simp add: or_null_def)
next
  case (Some c)
  assume "row_fine sch row"
  moreover have "c \<in> set (columns sch)" "col_name c = n" using Some by (auto simp: find_Some_iff)
  ultimately show ?thesis
    by (auto simp: row_fine_def row_typed_def row_value_def or_null_def column_type_def Some split: option.splits)
qed

lemma index_value_typed: "row_fine sch row \<Longrightarrow> index_typed (map (column_type sch) (ix_column_names x)) (indexed_value row x)"
proof -
  assume row: "row_fine sch row"
  have "list_all2 has_type (map (column_type sch) ns) (map (\<lambda>c. or_null (row c)) ns)" for ns
    by (induction ns) (simp_all add: cell_typed [OF row])
  then show ?thesis
    by (auto simp: index_typed_def indexed_value_def indexed_value_for_columns_def cell_typed [OF row] split: list.splits)
qed

lemma key_elems_prefix_free:
  assumes "list_all2 has_type dts vs" "list_all2 has_type dts ws" "\<forall>v \<in> set vs \<union> set ws. key_ok v \<and> length (encode_key_value v) < 2 ^ 32"
    "key_elems vs @ xs = key_elems ws @ ys"
  shows "vs = ws \<and> xs = ys"
  using assms
proof (induction dts arbitrary: vs ws)
  case (Cons dt dts)
  then obtain v vs' w ws' where e: "vs = v # vs'" "ws = w # ws'" "has_type dt v" "has_type dt w" "list_all2 has_type dts vs'" "list_all2 has_type dts ws'"
    by (auto simp: list_all2_Cons1)
  have "encode_key_value v = encode_key_value w \<and> key_elems vs' @ xs = key_elems ws' @ ys"
    using Cons.prems(3,4) by (intro push_bytes_segment_prefix_free) (simp_all add: e)
  then show ?case using Cons e encode_key_value_inj [of dt v w] by simp
qed simp

lemma index_key_prefix_free:
  assumes "index_typed dts v" "index_typed dts w" "key_ok v" "key_ok w" "encode_key_value v @ xs = encode_key_value w @ ys"
  shows "v = w \<and> xs = ys"
proof (cases "\<exists>dt. dts = [dt]")
  case True
  then obtain dt where "has_type dt v" "has_type dt w" using assms(1,2) by (auto simp: index_typed_def)
  then show ?thesis by (rule encode_key_value_prefix_free [OF _ assms(3) _ assms(4,5)])
next
  case False
  then obtain vs ws where v: "v = VArray vs" "list_all2 has_type dts vs" and w: "w = VArray ws" "list_all2 has_type dts ws"
    using assms(1,2) by (auto simp: index_typed_def split: list.splits)
  have "length vs = length ws" using v(2) w(2) by (metis list_all2_lengthD)
  then show ?thesis using key_elems_prefix_free [OF v(2) w(2), of xs ys] assms(3-5) by (simp add: v(1) w(1) ball_Un)
qed

text \<open>By identifier.\<close>

definition ids_valid :: "index_catalog list \<Rightarrow> bool" where
  "ids_valid xs = distinct (map ix_id xs)"

definition own_entry_key :: "index_catalog \<Rightarrow> bytes \<Rightarrow> bool" where
  "own_entry_key x k = starts_with k (index_all_prefix (ix_id x))"

interpretation id_entries: entry_format ids_valid "entry_good sch" entry_key own_entry_key for sch
proof
  fix xs x y pk row assume "ids_valid xs" "x \<in> set xs" "y \<in> set xs"
  then have "(ix_id y = ix_id x) = (y = x)" by (auto simp: ids_valid_def distinct_map inj_on_def)
  then show "own_entry_key x (entry_key y pk row) = (y = x)"
    by (auto simp: own_entry_key_def entry_key_def index_entry_key_def index_prefix_def index_all_prefix_def starts_with_iff)
next
  fix x pk row pk' row' assume g: "entry_good sch x pk row" "entry_good sch x pk' row'" "entry_key x pk row = entry_key x pk' row'"
  then have "encode_key_value (indexed_value row x) @ encode_key_value pk = encode_key_value (indexed_value row' x) @ encode_key_value pk'"
    by (simp add: entry_key_def index_entry_key_def index_prefix_def)
  then have "encode_key_value pk = encode_key_value pk'"
    using index_key_prefix_free index_value_typed g(1,2) unfolding entry_good_def index_fits_def by blast
  then show "pk = pk'" using g(1,2) encode_key_value_inj [of "pk_data_type sch" pk pk'] by (simp add: entry_good_def pk_typed pk_ok_def)
qed

text \<open>By name. Names hold no colon, which the keys do not escape.\<close>

definition names_valid :: "index_catalog list \<Rightarrow> bool" where
  "names_valid xs = (distinct (map ix_name xs) \<and> list_all (\<lambda>x. CHR '':'' \<notin> set (ix_name x)) xs)"

definition own_named_key :: "string \<Rightarrow> string \<Rightarrow> table_schema \<Rightarrow> index_catalog \<Rightarrow> bytes \<Rightarrow> bool" where
  "own_named_key db sn sch x k = starts_with k (as_bytes (colon_path [INDEX_DATA_PREFIX, db, sn, table_name sch, ix_name x]))"

lemma byte_of_colon: "((of_char c :: byte) = 58) = (c = CHR '':'')"
  using char_of_unat_of_char [of c] char_of_unat_of_char [of "CHR '':''"] by auto

lemma colon_free_prefix:
  assumes "CHR '':'' \<notin> set a" "CHR '':'' \<notin> set b" "map of_char a @ (58 :: byte) # xs = map of_char b @ 58 # ys"
  shows "a = b"
  using assms
proof (induction a arbitrary: b)
  case Nil
  then show ?case by (cases b) (auto simp: byte_of_colon)
next
  case (Cons c a)
  have "c = d" if "(of_char c :: byte) = of_char d" for d using that by (metis char_of_unat_of_char)
  then show ?case using Cons by (cases b) (auto simp: byte_of_colon)
qed

definition named_good :: "table_schema \<Rightarrow> index_catalog \<Rightarrow> column_value \<Rightarrow> row_map \<Rightarrow> bool" where
  "named_good sch x pk row = (schema_ok sch \<and> entry_good sch x pk row)"

lemma pk_segment_inj:
  assumes "schema_ok sch" "pk_ok sch pk" "pk_ok sch pk'" "pk_segment pk = pk_segment pk'"
  shows "pk = pk'"
proof -
  obtain seg seg' where e: "encode_primary_key_segment pk = Inr seg" "encode_primary_key_segment pk' = Inr seg'"
    using segment_of_pk [OF assms(1,2)] segment_of_pk [OF assms(1,3)] by metis
  then have "decode_primary_key_segment (pk_data_type sch) seg = Inr pk" "decode_primary_key_segment (pk_data_type sch) seg' = Inr pk'"
    using assms(1-3) decode_encode_primary_key_segment by (auto simp: pk_ok_def schema_ok_def)
  then show ?thesis using assms(4) e by simp
qed

interpretation named_entries: entry_format names_valid "named_good sch" "named_entry_key db sn sch" "own_named_key db sn sch" for db sn sch
proof
  fix xs x y pk row assume "names_valid xs" "x \<in> set xs" "y \<in> set xs"
  then have "CHR '':'' \<notin> set (ix_name x)" "CHR '':'' \<notin> set (ix_name y)" "(ix_name y = ix_name x) = (y = x)"
    by (auto simp: names_valid_def distinct_map inj_on_def list_all_iff)
  then show "own_named_key db sn sch x (named_entry_key db sn sch y pk row) = (y = x)"
    using colon_free_prefix [of "ix_name y" "ix_name x"]
    by (auto simp: own_named_key_def named_entry_key_def index_entry_prefix_def colon_path_def starts_with_iff as_bytes_def)
next
  fix x pk row pk' row' assume g: "named_good sch x pk row" "named_good sch x pk' row'"
    "named_entry_key db sn sch x pk row = named_entry_key db sn sch x pk' row'"
  then have "encode_index_value_segment (indexed_value row x) @ of_char CHR '':'' # pk_segment pk =
      encode_index_value_segment (indexed_value row' x) @ of_char CHR '':'' # pk_segment pk'"
    by (simp add: named_entry_key_def index_entry_prefix_def)
  then have "(of_char CHR '':'' :: byte) # pk_segment pk = of_char CHR '':'' # pk_segment pk'"
    using index_value_segment_prefix_free index_value_typed g(1,2) unfolding named_good_def entry_good_def index_fits_def by blast
  then show "pk = pk'" using pk_segment_inj g(1,2) by (auto simp: named_good_def entry_good_def)
qed

end
