(* ===== verification/Row_Outcome.thy ===== *)
theory Row_Outcome
  imports Index_Entries
begin

text \<open>
  Writing and deleting a row as one step of a table: the updates of the indexes, the record, the older
  format and the statistics are one list, each area of keys sees its own part of it, and the invariant
  of the table holds again. The checks before it are known by what their success means.
\<close>

section \<open>The invariant of a table\<close>

definition indexes_exact :: "string \<Rightarrow> string \<Rightarrow> table_schema \<Rightarrow> index_catalog list \<Rightarrow> kv_view \<Rightarrow> bool" where
  "indexes_exact db sn sch xs w =
     (\<forall>x \<in> set xs. entries_exact (entry_key x) (own_entry_key x) (table_of sch w) w \<and>
        entries_exact (named_entry_key db sn sch x) (own_named_key db sn sch x) (table_of sch w) w)"

definition table_inv :: "string \<Rightarrow> string \<Rightarrow> table_schema \<Rightarrow> index_catalog list \<Rightarrow> kv_view \<Rightarrow> bool" where
  "table_inv db sn sch xs w =
     (schema_ok sch \<and> table_ok sch w \<and> no_legacy_rows db sn sch w \<and> ids_valid xs \<and> names_valid xs \<and>
      (\<forall>pk row. table_of sch w pk = Some row \<longrightarrow> (\<forall>x \<in> set xs. index_fits x row)) \<and> indexes_exact db sn sch xs w)"

section \<open>All updates of a row\<close>

definition entry_changes ::
    "string \<Rightarrow> string \<Rightarrow> table_schema \<Rightarrow> index_catalog list \<Rightarrow> column_value \<Rightarrow> row_map option \<Rightarrow> bytes option \<Rightarrow> updates" where
  "entry_changes db sn sch xs pk r b = (case r of None \<Rightarrow> [] | Some row \<Rightarrow> entry_upds db sn sch xs pk row b)"

definition row_updates ::
    "string \<Rightarrow> string \<Rightarrow> table_schema \<Rightarrow> index_catalog list \<Rightarrow> column_value \<Rightarrow> row_map option \<Rightarrow> row_map option \<Rightarrow> updates" where
  "row_updates db sn sch xs pk old new =
     entry_changes db sn sch xs pk old None @ (table_key sch pk, map_option (encode_row_record sch) new) #
     legacy_upds db sn sch pk @ entry_changes db sn sch xs pk new (Some [1])"

text \<open>A key sees the updates of its area.\<close>

lemma upds_area: "upds us w k = upds (filter (\<lambda>u. area (fst u) = area k) us) w k"
  by (induction us arbitrary: w) (auto simp: upds_map_of split: option.splits)

lemma filter_entries [simp]:
  "a \<noteq> [VERSION, INDEX_PREFIX] \<Longrightarrow> a \<noteq> NAMED_INDEX_AREA \<Longrightarrow> filter (\<lambda>u. area (fst u) = a) (entry_changes db sn sch xs pk r b) = []"
  by (auto simp: entry_changes_def filter_empty_conv dest: entry_areas split: option.splits)

lemma filter_legacy [simp]: "a \<noteq> TABLE_AREA \<Longrightarrow> filter (\<lambda>u. area (fst u) = a) (legacy_upds db sn sch pk) = []"
  by (auto simp: filter_empty_conv dest: legacy_areas)

lemma filter_olap:
  "\<forall>(k, b) \<in> set us. area k \<in> OLAP_AREAS \<Longrightarrow> a \<notin> OLAP_AREAS \<Longrightarrow> filter (\<lambda>u. area (fst u) = a) us = []"
  by (auto simp: filter_empty_conv)

lemma upds_cong: "w k = w' k \<Longrightarrow> upds us w k = upds us w' k"
  by (simp add: upds_map_of split: option.splits)

lemma row_updates_areas:
  assumes olap: "\<forall>(k, b) \<in> set us. area k \<in> OLAP_AREAS"
    and w': "w' = upds (row_updates db sn sch xs pk old new @ us) w"
  shows "same_area [VERSION, ROW_PREFIX] (w(table_key sch pk := map_option (encode_row_record sch) new)) w'"
    and "same_area CATALOG_AREA w w'"
    and "area k = TABLE_AREA \<Longrightarrow> w' k = upds (legacy_upds db sn sch pk) w k"
    and "area k \<in> {[VERSION, INDEX_PREFIX], NAMED_INDEX_AREA} \<Longrightarrow>
      w' k = upds (entry_changes db sn sch xs pk new (Some [1])) (upds (entry_changes db sn sch xs pk old None) w) k"
    and "area k \<in> OLAP_AREAS \<Longrightarrow> w' k = upds us w k"
proof -
  have seen: "w' k = upds (filter (\<lambda>u. area (fst u) = area k) (row_updates db sn sch xs pk old new)
      @ filter (\<lambda>u. area (fst u) = area k) us) w k" for k
    unfolding w' by (subst upds_area) simp
  note simps = row_updates_def filter_olap [OF olap] area_simps
  show "same_area [VERSION, ROW_PREFIX] (w(table_key sch pk := map_option (encode_row_record sch) new)) w'"
    "same_area CATALOG_AREA w w'"
    unfolding same_area_def seen by (simp_all add: simps)
  show "w' k = upds (legacy_upds db sn sch pk) w k" if k: "area k = TABLE_AREA"
    unfolding seen k by (subst upds_area) (simp add: simps k)
  show "w' k = upds (entry_changes db sn sch xs pk new (Some [1])) (upds (entry_changes db sn sch xs pk old None) w) k"
    if k: "area k \<in> {[VERSION, INDEX_PREFIX], NAMED_INDEX_AREA}"
  proof -
    have "w' k = upds (filter (\<lambda>u. area (fst u) = area k) (entry_changes db sn sch xs pk old None @ entry_changes db sn sch xs pk new (Some [1]))) w k"
      unfolding seen using k by (auto simp: simps)
    then show ?thesis by (simp only: upds_area [symmetric] upds_simps)
  qed
  show "w' k = upds us w k" if k: "area k \<in> OLAP_AREAS"
    unfolding seen using k upds_area [of us w k] by (auto simp: simps)
qed

text \<open>Of the entries of a row, a key of one format sees that format.\<close>

lemma own_areas: "own_entry_key x k \<Longrightarrow> area k = [VERSION, INDEX_PREFIX]" "own_named_key db sn sch x k \<Longrightarrow> area k = NAMED_INDEX_AREA"
  unfolding own_entry_key_def by (erule area_prefixes(2))
    (auto simp: own_named_key_def starts_with_iff colon_path_def INDEX_DATA_PREFIX_def as_bytes_def area_def)

lemma entries_of_format:
  "area k = [VERSION, INDEX_PREFIX] \<Longrightarrow> upds (entry_upds db sn sch xs pk row b) w k = upds (map (\<lambda>y. (entry_key y pk row, b)) xs) w k"
  "area k = NAMED_INDEX_AREA \<Longrightarrow>
     upds (entry_upds db sn sch xs pk row b) w k = upds (map (\<lambda>y. (named_entry_key db sn sch y pk row, b)) xs) w k"
proof -
  have areas: "area (entry_key y pk row) = [VERSION, INDEX_PREFIX]" "area (named_entry_key db sn sch y pk row) = NAMED_INDEX_AREA" for y
    by (simp_all add: entry_key_def area_simps)
  have all: "filter (\<lambda>u. area (fst u) = a) (entry_upds db sn sch xs pk row b) =
      concat (map (\<lambda>y. (if a = [VERSION, INDEX_PREFIX] then [(entry_key y pk row, b)] else []) @
        (if a = NAMED_INDEX_AREA then [(named_entry_key db sn sch y pk row, b)] else [])) xs)" for a
    by (induction xs) (auto simp: entry_upds_def areas)
  show "upds (entry_upds db sn sch xs pk row b) w k = upds (map (\<lambda>y. (entry_key y pk row, b)) xs) w k" if "area k = [VERSION, INDEX_PREFIX]"
    by (subst upds_area) (simp add: that all concat_map_singleton)
  show "upds (entry_upds db sn sch xs pk row b) w k = upds (map (\<lambda>y. (named_entry_key db sn sch y pk row, b)) xs) w k" if "area k = NAMED_INDEX_AREA"
    by (subst upds_area) (simp add: that all concat_map_singleton)
qed

text \<open>The indexed values of a row are those of the row read back.\<close>

lemma stored_indexed_value: "schema_ok sch \<Longrightarrow> row_fits sch row \<Longrightarrow> indexed_value (stored_row sch row) x = indexed_value row x"
proof -
  assume ok: "schema_ok sch" "row_fits sch row"
  have "or_null (stored_row sch row n) = or_null (row n)" for n
  proof (cases "n \<in> set (column_names sch)")
    case True
    then obtain c where "c \<in> set (columns sch)" "n = col_name c" by (auto simp: column_names_def)
    then show ?thesis using stored_row_at [OF ok(1)] by (simp add: or_null_def row_value_def)
  next
    case False
    then have "n \<notin> dom (stored_row sch row)" "n \<notin> dom row" using ok(2) by (auto simp: dom_stored_row row_fits_def)
    then have "stored_row sch row n = None" "row n = None" by (simp_all only: domIff not_not)
    then show ?thesis by simp
  qed
  then show ?thesis by (simp add: indexed_value_def indexed_value_for_columns_def cong: list.case_cong)
qed

lemma changes_cong:
  assumes "schema_ok sch" "\<And>row. new = Some row \<Longrightarrow> row_fits sch row"
  shows "entry_changes db sn sch xs pk new b = entry_changes db sn sch xs pk (map_option (stored_row sch) new) b"
  using assms by (cases new) (auto simp: entry_changes_def entry_upds_def entry_key_def named_entry_key_def stored_indexed_value)

text \<open>The invariant after the updates of one row.\<close>

lemma changes_exact:
  assumes inv: "table_inv db sn sch xs w" and x: "x \<in> set xs"
    and w1: "w1 = upds (entry_changes db sn sch xs pk new (Some [1])) (upds (entry_changes db sn sch xs pk (table_of sch w pk) None) w)"
  shows "entries_exact (entry_key x) (own_entry_key x) ((table_of sch w)(pk := new)) w1"
    and "entries_exact (named_entry_key db sn sch x) (own_named_key db sn sch x) ((table_of sch w)(pk := new)) w1"
proof -
  let ?t = "table_of sch w"
  have ok: "schema_ok sch" "table_ok sch w" "ids_valid xs" "names_valid xs" using inv by (simp_all add: table_inv_def)
  have good: "entry_good sch x pk row" if "?t pk = Some row" for pk row
    using inv x that table_of_some [OF ok(2) that] by (simp add: entry_good_def table_inv_def)
  then have named: "named_good sch x pk row" if "?t pk = Some row" for pk row using ok(1) that by (simp add: named_good_def)
  have ex: "entries_exact (entry_key x) (own_entry_key x) ?t w" "entries_exact (named_entry_key db sn sch x) (own_named_key db sn sch x) ?t w"
    using inv x by (auto simp: table_inv_def indexes_exact_def)
  let ?new = "case new of None \<Rightarrow> [] | Some row \<Rightarrow> map (\<lambda>y. (entry_key y pk row, Some [1])) xs"
  let ?old = "case ?t pk of None \<Rightarrow> [] | Some row \<Rightarrow> map (\<lambda>y. (entry_key y pk row, None)) xs"
  have "w1 k = upds ?new (upds ?old w) k" if "own_entry_key x k" for k
    unfolding w1 entry_changes_def using own_areas(1) [OF that]
    by (auto simp: entries_of_format(1) intro: upds_cong split: option.splits)
  then show "entries_exact (entry_key x) (own_entry_key x) (?t(pk := new)) w1"
    using id_entries.exact_change [OF ok(3) x ex(1) good, of pk new "[1]"] id_entries.exact_cong by blast
  let ?new = "case new of None \<Rightarrow> [] | Some row \<Rightarrow> map (\<lambda>y. (named_entry_key db sn sch y pk row, Some [1])) xs"
  let ?old = "case ?t pk of None \<Rightarrow> [] | Some row \<Rightarrow> map (\<lambda>y. (named_entry_key db sn sch y pk row, None)) xs"
  have "w1 k = upds ?new (upds ?old w) k" if "own_named_key db sn sch x k" for k
    unfolding w1 entry_changes_def using own_areas(2) [OF that]
    by (auto simp: entries_of_format(2) intro: upds_cong split: option.splits)
  then show "entries_exact (named_entry_key db sn sch x) (own_named_key db sn sch x) (?t(pk := new)) w1"
    using named_entries.exact_change [OF ok(4) x ex(2) named, of pk new "[1]"] named_entries.exact_cong by blast
qed

lemma row_updates_inv:
  assumes inv: "table_inv db sn sch xs w" and pk: "pk_ok sch pk" and olap: "\<forall>(k, b) \<in> set us. area k \<in> OLAP_AREAS"
    and new: "\<And>row. new = Some row \<Longrightarrow> row_fits sch row \<and> (\<forall>x \<in> set xs. index_fits x row)"
    and w': "w' = upds (row_updates db sn sch xs pk (table_of sch w pk) new @ us) w"
  shows "table_of sch w' = (table_of sch w)(pk := map_option (stored_row sch) new)" and "table_inv db sn sch xs w'"
    and "(table_id sch', table_epoch sch') \<noteq> (table_id sch, table_epoch sch) \<Longrightarrow> table_of sch' w' = table_of sch' w"
proof -
  note areas = row_updates_areas [OF olap w']
  have ok: "schema_ok sch" "table_ok sch w" "no_legacy_rows db sn sch w" using inv by (simp_all add: table_inv_def)
  let ?r = "map_option (encode_row_record sch) new" and ?new = "map_option (stored_row sch) new"
  let ?t = "(table_of sch w)(pk := ?new)"
  have "table_of sch (w(table_key sch pk := ?r)) = ?t" "table_ok sch (w(table_key sch pk := ?r))"
    using table_put [OF ok(1) pk, of _ w] table_delete [OF pk, of w] new ok(2) by (cases new; simp)+
  then have t: "table_of sch w' = ?t" and tok: "table_ok sch w'" using table_frame [OF areas(1)] by simp_all
  show "table_of sch w' = ?t" by (rule t)
  show "table_of sch' w' = table_of sch' w" if "(table_id sch', table_epoch sch') \<noteq> (table_id sch, table_epoch sch)"
    using table_frame(1) [OF areas(1)] other_table [OF that] by simp
  have "w' k = None" if "starts_with k (row_marker_prefix db sn (table_name sch))" for k
  proof -
    have "w' k = upds (legacy_upds db sn sch pk) w k" by (rule areas(3)) (rule area_names(4) [OF that])
    also have "\<dots> = None" using that ok(3) by (subst upds_const [where c = None]) (auto simp: legacy_upds_def no_legacy_rows_def)
    finally show ?thesis .
  qed
  then have legacy: "no_legacy_rows db sn sch w'" by (simp add: no_legacy_rows_def)
  have fits: "index_fits x row" if "?t p = Some row" "x \<in> set xs" for p row x
    using that inv new by (auto simp: table_inv_def index_fits_def stored_indexed_value [OF ok(1)] split: if_splits)
  let ?w1 = "upds (entry_changes db sn sch xs pk ?new (Some [1])) (upds (entry_changes db sn sch xs pk (table_of sch w pk) None) w)"
  have w1: "w' k = ?w1 k" if "area k \<in> {[VERSION, INDEX_PREFIX], NAMED_INDEX_AREA}" for k
    using areas(4) [OF that] changes_cong [OF ok(1), of new] new by simp
  have "entries_exact (entry_key x) (own_entry_key x) ?t w' = entries_exact (entry_key x) (own_entry_key x) ?t ?w1" for x
    by (rule id_entries.exact_cong, rule w1) (drule own_areas(1), simp)
  moreover have "entries_exact (named_entry_key db sn sch x) (own_named_key db sn sch x) ?t w' =
      entries_exact (named_entry_key db sn sch x) (own_named_key db sn sch x) ?t ?w1" for x
    by (rule named_entries.exact_cong, rule w1) (drule own_areas(2), simp)
  ultimately have "indexes_exact db sn sch xs w'"
    using changes_exact [OF inv _ refl, of _ pk ?new] by (simp add: indexes_exact_def t)
  then show "table_inv db sn sch xs w'" using inv t tok legacy fits by (simp add: table_inv_def)
qed

section \<open>What the checks establish\<close>

text \<open>A program that only looks, and what its success says.\<close>

definition ensures :: "('s \<Rightarrow> 'v \<Rightarrow> bool) \<Rightarrow> ('s, 'a) prog \<Rightarrow> 'v \<Rightarrow> ('a \<Rightarrow> bool) \<Rightarrow> bool" where
  "ensures R m v P = (\<forall>g. R g v \<longrightarrow> (\<exists>r g'. m g = Some (r, g') \<and> R g' v \<and> (\<forall>x. r = Inr x \<longrightarrow> P x)))"

lemma ensures_settles: "settles R m v \<Longrightarrow> ensures R m v (\<lambda>_. True)"
  by (simp add: ensures_def settles_def)

lemma ensures_computes: "computes R m v r v \<Longrightarrow> (\<And>x. r = Inr x \<Longrightarrow> P x) \<Longrightarrow> ensures R m v P"
  by (fastforce simp: ensures_def computes_def)

lemma ensures_weaken: "ensures R m v P \<Longrightarrow> (\<And>x. P x \<Longrightarrow> Q x) \<Longrightarrow> ensures R m v Q"
  by (fastforce simp: ensures_def)

lemma ensures_shown: "(\<And>g. R g v \<Longrightarrow> ensures R m v P) \<Longrightarrow> ensures R m v P"
  by (simp add: ensures_def)

lemma ensures_raise: "ensures R (st_raise e) v P"
  by (simp add: ensures_def st_raise_def)

lemma ensures_return: "P x \<Longrightarrow> ensures R (st_return x) v P"
  by (simp add: ensures_def st_return_def)

lemma ensures_bind:
  assumes "ensures R m v P" "\<And>x. P x \<Longrightarrow> ensures R (f x) v Q"
  shows "ensures R (st_bind m f) v Q"
  unfolding ensures_def
proof (intro allI impI)
  fix g assume "R g v"
  then obtain r g1 where m: "m g = Some (r, g1)" "R g1 v" "\<forall>x. r = Inr x \<longrightarrow> P x" using assms(1) by (auto simp: ensures_def)
  show "\<exists>r g'. st_bind m f g = Some (r, g') \<and> R g' v \<and> (\<forall>x. r = Inr x \<longrightarrow> Q x)"
    using m assms(2) by (cases r) (simp_all add: st_bind_def ensures_def)
qed

lemma ensures_each:
  assumes "\<And>x. x \<in> set xs \<Longrightarrow> ensures R (f x) v (\<lambda>_. P x)"
  shows "ensures R (st_each f xs) v (\<lambda>_. \<forall>x \<in> set xs. P x)"
  using assms
proof (induction xs)
  case (Cons x xs)
  have "ensures R (f x) v (\<lambda>_. P x)" "ensures R (st_each f xs) v (\<lambda>_. \<forall>y \<in> set xs. P y)" using Cons by simp_all
  then show ?case unfolding st_each.simps st_seq_def by (elim ensures_bind ensures_weaken) simp
qed (simp add: ensures_return)

lemma check_ensures:
  assumes "ensures R m v P" "P () \<Longrightarrow> succeeds_or_keeps R m' v Q"
  shows "succeeds_or_keeps R (st_seq m m') v Q"
  unfolding st_seq_def
proof (rule check_first)
  show "settles R m v" using assms(1) by (fastforce simp: settles_def ensures_def)
next
  fix g and x :: unit assume "R g v" "m g = Some (Inr x, g) \<or> (\<exists>g'. m g = Some (Inr x, g'))"
  then have "P ()" using assms(1) by (auto simp: ensures_def)
  then show "succeeds_or_keeps R m' v Q" by (rule assms(2))
qed

end
