(* ===== verification/Session_Ends.thy ===== *)
theory Session_Ends
  imports Session_Laws
begin

text \<open>
  The life of a session's transaction (\<open>core/server/transactions.rs\<close>) on its view: opening one takes the
  store as its snapshot, committing installs what the session reads, rolling back leaves the store,
  and no step touches the transaction of another session.
\<close>

lemma ended_store:
  "gw_store (restart_mysql_autocommit_transaction sid g) = gw_store g" if "active_transactions g sid = None"
  using that by (simp add: restart_mysql_autocommit_transaction_def begin_session_transaction_def
      begin_session_transaction_with_options_def open_transaction_def set_status_def Let_def)

lemma ended_others:
  "active_transactions (restart_mysql_autocommit_transaction sid g) j = active_transactions g j"
  if "active_transactions g sid = None" "j \<noteq> sid"
  using that by (simp add: restart_mysql_autocommit_transaction_def begin_session_transaction_def
      begin_session_transaction_with_options_def open_transaction_def set_status_def Let_def)

lemma commit_shows:
  assumes "session_shows (Some sid) g v"
  shows "store_inv (gw_store (commit_session_transaction sid g))"
    and "mem_get (gw_store (commit_session_transaction sid g)) = sv_read v"
    and "j \<noteq> sid \<Longrightarrow> active_transactions (commit_session_transaction sid g) j = active_transactions g j"
proof -
  let ?g = "set_status sid StatusIdle (commit_to_store (active_transactions g sid) (forget_transaction sid g))"
  have off: "active_transactions ?g sid = None"
    by (simp add: set_status_def commit_to_store_def forget_transaction_def split: option.splits)
  have "gw_store ?g = (case active_transactions g sid of None \<Rightarrow> gw_store g | Some t \<Rightarrow> txn_commit t (gw_store g))"
    by (simp add: set_status_def commit_to_store_def forget_transaction_def split: option.splits)
  then have "store_inv (gw_store ?g) \<and> mem_get (gw_store ?g) = sv_read v"
    using assms shown_reads(1) [OF assms]
    by (auto simp: session_shows_def session_txn_def txn_commit_view store_inv_commit split: option.splits)
  then show "store_inv (gw_store (commit_session_transaction sid g))" "mem_get (gw_store (commit_session_transaction sid g)) = sv_read v"
    by (simp_all add: commit_session_transaction_def ended_store [OF off])
  show "active_transactions (commit_session_transaction sid g) j = active_transactions g j" if "j \<noteq> sid"
    using that by (simp add: commit_session_transaction_def ended_others [OF off])
      (simp add: set_status_def commit_to_store_def forget_transaction_def split: option.splits)
qed

lemma rollback_shows:
  shows "gw_store (rollback_session_transaction sid g) = gw_store g"
    and "j \<noteq> sid \<Longrightarrow> active_transactions (rollback_session_transaction sid g) j = active_transactions g j"
proof -
  let ?g = "set_status sid StatusIdle (forget_transaction sid g)"
  have off: "active_transactions ?g sid = None" by (simp add: set_status_def forget_transaction_def)
  show "gw_store (rollback_session_transaction sid g) = gw_store g"
    by (simp add: rollback_session_transaction_def ended_store [OF off]) (simp add: set_status_def forget_transaction_def)
  show "active_transactions (rollback_session_transaction sid g) j = active_transactions g j" if "j \<noteq> sid"
    using that by (simp add: rollback_session_transaction_def ended_others [OF off]) (simp add: set_status_def forget_transaction_def)
qed

lemma begin_shows:
  assumes "store_inv (gw_store g)" "active_transactions g sid = None"
  shows "session_shows (Some sid) (begin_session_transaction_with_options sid (Some lvl) read_only g)
    \<lparr>sv_store = mem_get (gw_store g), sv_txn = Some (mem_get (gw_store g), Map.empty), sv_repeatable = (lvl = RepeatableRead),
     sv_consistent = (lvl = RepeatableRead \<and> sid \<notin> active_mysql_current_reads g)\<rparr>"
  using assms
  by (simp add: session_shows_def session_txn_def begin_session_transaction_with_options_def open_transaction_def set_status_def
      is_repeatable_read_transaction_def use_consistent_read_def begin_transaction_def txn_inv_def bt_inv_def fun_eq_iff Let_def)

end
