(* ===== verification/Row_Commands.thy ===== *)
theory Row_Commands
  imports Row_Outcome Session_Ends
begin

text \<open>
  The two commands on rows, \<open>write_row_at\<close> and \<open>delete_row_at\<close>, in one statement each: they fail and the
  session sees what it saw before, or they change the table at the one key, keep the invariant of the
  table and every other table, leave exactly the chunks and statistics of the rows, and have checked
  what they promise: constraints, unique indexes, and that no other session changed the row meanwhile.
\<close>

section \<open>Unique indexes and constraints\<close>

lemma index_range_rows: "range_rows w (index_value_range i v) = scan_spec w (\<lambda>k. starts_with k (index_prefix i v))"
proof -
  have "next_prefix (index_prefix i v) \<noteq> None" by (simp add: index_prefix_def next_prefix_Cons VERSION_def split: option.splits)
  then have "next_prefix (index_prefix i v) = Some (prefix_upper (index_prefix i v))" by (auto simp: prefix_upper_def next_prefix_def)
  then show ?thesis
    by (simp add: range_rows_def index_value_range_def take_limit_def in_range_def [abs_def] prefix_bounds [symmetric])
qed

text \<open>No other row has the value of the row in the index.\<close>

definition sole_value :: "table_schema \<Rightarrow> kv_view \<Rightarrow> column_value \<Rightarrow> row_map \<Rightarrow> index_catalog \<Rightarrow> bool" where
  "sole_value sch w pk row x =
     (ix_unique x \<longrightarrow> indexed_value row x \<noteq> VNull \<longrightarrow>
       (\<forall>pk' row'. table_of sch w pk' = Some row' \<longrightarrow> indexed_value row' x = indexed_value row x \<longrightarrow> pk' = pk))"

text \<open>The entries under the value of a row are those of the rows with that value.\<close>

definition index_value_ok :: "table_schema \<Rightarrow> index_catalog \<Rightarrow> column_value \<Rightarrow> bool" where
  "index_value_ok sch x val = (index_typed (map (column_type sch) (ix_column_names x)) val \<and> key_ok val \<and> cell_ok val)"

lemma entries_under_value:
  assumes inv: "table_inv db sn sch xs w" and x: "x \<in> set xs" and fin: "finite (dom w)"
    and val: "index_value_ok sch x val"
  shows "fst ` set (scan_spec w (\<lambda>k. starts_with k (index_prefix (ix_id x) val))) =
      {entry_key x pk' row' | pk' row'. table_of sch w pk' = Some row' \<and> indexed_value row' x = val}"
    and "fst ` set (scan_spec w (\<lambda>k. starts_with k (index_entry_prefix db sn (table_name sch) (ix_name x) val))) =
      {named_entry_key db sn sch x pk' row' | pk' row'. table_of sch w pk' = Some row' \<and> indexed_value row' x = val}"
proof -
  let ?t = "table_of sch w"
  have typed: "index_value_ok sch x (indexed_value r x)" if "?t p = Some r" for p r
    using that inv x table_of_some [of sch w p r] index_value_typed by (auto simp: table_inv_def index_fits_def index_value_ok_def)
  have scan: "fst ` set (scan_spec w sel) = {k. w k \<noteq> None \<and> sel k}" for sel
    using scan_spec_props(2) [OF fin] by (auto simp: image_iff Bex_def)
  have ex: "entries_exact (entry_key x) (own_entry_key x) ?t w" "entries_exact (named_entry_key db sn sch x) (own_named_key db sn sch x) ?t w"
    using inv x by (auto simp: table_inv_def indexes_exact_def)
  have under: "starts_with (entry_key x pk' row') (index_prefix (ix_id x) val) = (indexed_value row' x = val)" if "?t pk' = Some row'" for pk' row'
    using index_key_prefix_free [of _ "indexed_value row' x" val] typed [OF that] val unfolding index_value_ok_def
    by (auto simp: entry_key_def index_entry_key_def index_prefix_def starts_with_iff)
  have under': "starts_with (named_entry_key db sn sch x pk' row') (index_entry_prefix db sn (table_name sch) (ix_name x) val) =
      (indexed_value row' x = val)" if "?t pk' = Some row'" for pk' row'
    using index_value_segment_prefix_free [of _ "indexed_value row' x" val] typed [OF that] val unfolding index_value_ok_def
    by (auto simp: named_entry_key_def index_entry_prefix_def starts_with_iff)
  have own: "own_entry_key x k" if "starts_with k (index_prefix (ix_id x) val)" for k
    using that by (auto simp: own_entry_key_def index_all_prefix_def index_prefix_def starts_with_iff)
  have own': "own_named_key db sn sch x k" if "starts_with k (index_entry_prefix db sn (table_name sch) (ix_name x) val)" for k
    using that by (auto simp: own_named_key_def index_entry_prefix_def starts_with_iff)
  show "fst ` set (scan_spec w (\<lambda>k. starts_with k (index_prefix (ix_id x) val))) =
      {entry_key x pk' row' | pk' row'. ?t pk' = Some row' \<and> indexed_value row' x = val}"
    unfolding scan using ex(1) own under unfolding entries_exact_def by blast
  show "fst ` set (scan_spec w (\<lambda>k. starts_with k (index_entry_prefix db sn (table_name sch) (ix_name x) val))) =
      {named_entry_key db sn sch x pk' row' | pk' row'. ?t pk' = Some row' \<and> indexed_value row' x = val}"
    unfolding scan using ex(2) own' under' unfolding entries_exact_def by blast
qed

text \<open>The check of a unique index accepts exactly the rows whose value no other row has.\<close>

lemma index_entry_computes:
  assumes inv: "table_inv db sn sch xs (sv_read v)" and x: "x \<in> set xs" and pk: "pk_ok sch pk"
    and row: "row_fits sch row" "index_fits x row"
  shows "computes (session_shows s) (validate_index_entry s db sn sch pk row x) v
    (if sole_value sch (sv_read v) pk row x then Inr () else Inl (unique_violation (ix_name x))) v"
proof (rule computes_shown)
  fix g assume g: "session_shows s g v"
  let ?v = "indexed_value row x" and ?w = "sv_read v"
  have ok: "schema_ok sch" "table_ok sch ?w" using inv by (simp_all add: table_inv_def)
  note fine = record_read_back(2) [OF ok(1) row(1)]
  have same: "indexed_value (stored_row sch row) x = ?v" by (rule stored_indexed_value [OF ok(1) row(1)])
  have "index_value_ok sch x ?v" using row(2) index_value_typed [OF fine, of x] by (simp add: index_fits_def index_value_ok_def same)
  note under = entries_under_value [OF inv x finite_shown(2) [OF g] this]
  have pks: "(encode_key_value pk' = encode_key_value pk) = (pk' = pk)" "(pk_segment pk' = pk_segment pk) = (pk' = pk)"
    if "table_of sch ?w pk' = Some row'" for pk' row'
    using table_of_some [OF ok(2) that] pk encode_key_value_inj [of "pk_data_type sch" pk' pk] pk_segment_inj [OF ok(1)]
    by (auto simp: pk_typed pk_ok_def)
  have keys: "(entry_key x pk' row' = index_entry_key (ix_id x) ?v pk) = (pk' = pk)"
      "(named_entry_key db sn sch x pk' row' = named_entry_key db sn sch x pk row) = (pk' = pk)"
    if "table_of sch ?w pk' = Some row'" "indexed_value row' x = ?v" for pk' row'
    using pks [OF that(1)] that(2) by (simp_all add: entry_key_def index_entry_key_def named_entry_key_def)
  let ?others = "\<exists>pk' row'. table_of sch ?w pk' = Some row' \<and> indexed_value row' x = ?v \<and> pk' \<noteq> pk"
  have ex: "list_ex (\<lambda>(k, _). P k) l = (\<exists>k \<in> fst ` set l. P k)" for P and l :: kv_rows by (auto simp: list_ex_iff split_beta)
  have first: "list_ex (\<lambda>(k, _). k \<noteq> index_entry_key (ix_id x) ?v pk) (range_rows ?w (index_value_range (ix_id x) ?v)) = ?others"
    unfolding ex index_range_rows under using keys(1) by blast
  have second: "list_ex (\<lambda>(k, _). k \<noteq> named_entry_key db sn sch x pk row)
      (scan_spec ?w (\<lambda>k. starts_with k (index_entry_prefix db sn (table_name sch) (ix_name x) ?v))) = ?others"
    unfolding ex under using keys(2) by blast
  show "computes (session_shows s) (validate_index_entry s db sn sch pk row x) v
    (if sole_value sch ?w pk row x then Inr () else Inl (unique_violation (ix_name x))) v"
  proof (cases "\<not> ix_unique x \<or> is_null ?v")
    case True
    then show ?thesis by (auto simp: validate_index_entry_def sole_value_def is_null_def intro: computes_return)
  next
    case False
    then have "sole_value sch ?w pk row x = (\<not> ?others)" by (auto simp: sole_value_def is_null_def)
    then show ?thesis unfolding validate_index_entry_def Let_def if_not_P [OF False] legacy_keys(1) [OF ok(1) pk]
      by (intro computes_bind [OF computes_catch [OF scan_range_computes]])
        (auto simp: first second intro!: computes_raise computes_return computes_bind [OF computes_lift]
          computes_bind [OF computes_catch [OF scan_prefix_computes]])
  qed
qed

lemma indexes_ensure:
  assumes "catalog_inv lib (sv_store v)" "table_inv db sn sch (index_list lib (sv_store v) (table_id sch)) (sv_visible v)" "pk_ok sch pk"
    "row_fits sch row" "\<forall>x \<in> set (index_list lib (sv_store v) (table_id sch)). index_fits x row"
  shows "ensures (session_shows s) (validate_index_entries_at lib s db sn sch pk row) v
    (\<lambda>_. \<not> sv_consistent v \<longrightarrow> (\<forall>x \<in> set (index_list lib (sv_store v) (table_id sch)). sole_value sch (sv_visible v) pk row x))"
proof (cases "sv_consistent v")
  case True
  have "booted (sv_store v)" using assms(1) by (simp add: catalog_inv_def)
  then show ?thesis using True ensures_settles [OF settles_index_check] by simp
next
  case False
  then have read: "sv_visible v = sv_read v" by (simp add: sv_visible_def)
  have "ensures (session_shows s) (list_indexes_for_table lib gateway_store (table_id sch)) v (\<lambda>xs. xs = index_list lib (sv_store v) (table_id sch))"
    by (rule ensures_computes [OF indexes_computes [OF assms(1)]]) simp
  moreover have "ensures (session_shows s) (st_each (validate_index_entry s db sn sch pk row) xs) v (\<lambda>_. \<forall>x \<in> set xs. sole_value sch (sv_read v) pk row x)"
    if "xs = index_list lib (sv_store v) (table_id sch)" for xs
    by (rule ensures_each, rule ensures_computes [OF index_entry_computes [OF assms(2) [unfolded read] _ assms(3,4)]])
      (use assms(5) in \<open>auto simp: that split: if_splits\<close>)
  ultimately show ?thesis unfolding validate_index_entries_at_def read using ensures_weaken by (fastforce elim: ensures_bind)
qed

text \<open>A unique constraint compares with every other row that has no NULL in its columns.\<close>

definition sole_key :: "table_schema \<Rightarrow> kv_view \<Rightarrow> column_value \<Rightarrow> row_map \<Rightarrow> unique_constraint_schema \<Rightarrow> bool" where
  "sole_key sch w pk row k =
     (\<not> unique_primary_key k \<longrightarrow>
       (\<forall>pk' row'. table_of sch w pk' = Some row' \<longrightarrow> \<not> value_eq pk pk' \<longrightarrow> \<not> list_ex is_null (constraint_key k row') \<longrightarrow>
          \<not> values_eq (constraint_key k row) (constraint_key k row')))"

lemma unique_loop_passed:
  "unique_loop k (Some pk) (Some key) seen rows = Inr () \<Longrightarrow> (pk', row') \<in> set rows \<Longrightarrow> \<not> value_eq pk pk' \<Longrightarrow>
     \<not> list_ex is_null (constraint_key k row') \<Longrightarrow> \<not> values_eq key (constraint_key k row')"
  by (induction k "Some pk" "Some key" seen rows rule: unique_loop.induct) (auto simp: Let_def split: if_splits)

lemma unique_ensure:
  assumes "schema_ok sch" "table_ok sch (sv_visible v)" "no_legacy_rows db sn sch (sv_visible v)"
  shows "ensures (session_shows s) (validate_unique_constraints_at s db sn sch pk row) v
    (\<lambda>_. \<forall>k \<in> set (unique_constraints sch). sole_key sch (sv_visible v) pk row k)"
  unfolding validate_unique_constraints_at_def
proof (rule ensures_each, rule ensures_shown)
  fix k g assume g: "session_shows s g v"
  let ?rows = "table_list sch (sv_visible v)"
  have scan: "ensures (session_shows s) (scan_visible_row_entries_at s db sn sch None) v (\<lambda>r. r = ?rows)"
    by (rule ensures_computes [OF scan_rows_computes [OF assms]]) (simp add: passes_def)
  have passed: "sole_key sch (sv_visible v) pk row k" if "unique_loop k (Some pk) (Some (constraint_key k row)) [] ?rows = Inr ()"
    unfolding sole_key_def
    using unique_loop_passed [OF that] rows_in_mem [OF assms(1,2) finite_shown(4) [OF g], of _ _ "\<lambda>_. True"] by blast
  have "ensures (session_shows s) (validate_unique_constraint_at s db sn sch k (Some pk) (Some row)) v
      (\<lambda>_. sole_key sch (sv_visible v) pk row k)"
    unfolding validate_unique_constraint_at_def
    by (rule ensures_bind [OF scan], rule ensures_computes [OF computes_lift], rule passed) simp
  moreover have "unique_primary_key k \<Longrightarrow> sole_key sch (sv_visible v) pk row k" by (simp add: sole_key_def)
  ultimately show "ensures (session_shows s) (if unique_primary_key k then st_return ()
      else validate_unique_constraint_at s db sn sch k (Some pk) (Some row)) v (\<lambda>_. sole_key sch (sv_visible v) pk row k)"
    by (simp add: ensures_return)
qed

text \<open>The row that is replaced is the one the transaction read: the first to change a row wins.\<close>

definition not_stale :: "table_schema \<Rightarrow> session_view \<Rightarrow> column_value \<Rightarrow> bool" where
  "not_stale sch v pk =
     (sv_repeatable v \<longrightarrow> \<not> sv_pending v (table_key sch pk) \<longrightarrow> sv_store v (table_key sch pk) = sv_snap v (table_key sch pk))"

definition stale_error :: pg_error where
  "stale_error = user_error ''40001'' ''could not serialize access due to concurrent update''"

lemma computes_on: "(\<And>g. R g v \<Longrightarrow> m g = m' g) \<Longrightarrow> computes R m' v r v' \<Longrightarrow> computes R m v r v'"
  by (simp add: computes_def)

lemma stale_computes:
  "computes (session_shows s) (ensure_row_write_not_stale s sch pk) v (if not_stale sch v pk then Inr () else Inl stale_error) v"
proof (cases "sv_repeatable v")
  case False
  have "ensure_row_write_not_stale s sch pk g = st_return () g" if "session_shows s g v" for g
    using that False unfolding ensure_row_write_not_stale_def Let_def by (simp add: session_shows_def)
  then show ?thesis using False by (auto intro: computes_on computes_return simp: not_stale_def)
next
  case True
  let ?k = "table_key sch pk"
  let ?m = "st_bind (st_catch (gw_txn_has_pending_key s ?k)) (\<lambda>pending. if pending then st_return () else
      st_bind (st_catch (gw_txn_snapshot_get s ?k)) (\<lambda>snapshot. st_bind (store_get_bytes ?k) (\<lambda>latest.
        if snapshot \<noteq> latest then st_raise stale_error else st_return ())))"
  have read: "computes (session_shows s) (st_catch (gw_txn_has_pending_key s ?k)) v (Inr (sv_pending v ?k)) v"
    "computes (session_shows s) (st_catch (gw_txn_snapshot_get s ?k)) v (Inr (sv_snap v ?k)) v"
    "computes (session_shows s) (store_get_bytes ?k) v (Inr (sv_store v ?k)) v"
    by (rule computes_catch pending_computes snapshot_get_computes store_get_computes)+
  have "ensure_row_write_not_stale s sch pk g = ?m g" if "session_shows s g v" for g
    using that True unfolding ensure_row_write_not_stale_def Let_def stale_error_def by (simp add: session_shows_def)
  then show ?thesis
  proof (rule computes_on)
    show "computes (session_shows s) ?m v (if not_stale sch v pk then Inr () else Inl stale_error) v"
      by (rule computes_bind [OF read(1)])
        (use True in \<open>auto simp: not_stale_def intro!: computes_return computes_raise computes_bind [OF read(2)] computes_bind [OF read(3)]\<close>)
  qed
qed

lemma stale_ensure: "ensures (session_shows s) (ensure_row_write_not_stale s sch pk) v (\<lambda>_. not_stale sch v pk)"
  by (rule ensures_computes [OF stale_computes]) (simp split: if_splits)

section \<open>The commands\<close>

lemma outcome_cases:
  assumes "succeeds_or_keeps R m v Q" "R g v"
  obtains r g' v' where "m g = Some (r, g')" "R g' v'" "case r of Inl _ \<Rightarrow> v' = v | Inr _ \<Rightarrow> Q v'"
  using assms unfolding succeeds_or_keeps_def by blast

lemma outcome_shown: "(\<And>g. R g v \<Longrightarrow> succeeds_or_keeps R m v Q) \<Longrightarrow> succeeds_or_keeps R m v Q"
  by (simp add: succeeds_or_keeps_def)

definition row_changed ::
    "json_lib \<Rightarrow> string \<Rightarrow> string \<Rightarrow> table_schema \<Rightarrow> column_value \<Rightarrow> row_map option \<Rightarrow> session_view \<Rightarrow> session_view \<Rightarrow> bool" where
  "row_changed lib db sn sch pk new v v' =
     (table_of sch (sv_visible v') = (table_of sch (sv_visible v))(pk := new) \<and>
      table_inv db sn sch (index_list lib (sv_store v') (table_id sch)) (sv_visible v') \<and>
      same_catalog (sv_store v) (sv_store v') \<and>
      (sv_txn v \<noteq> None \<longrightarrow> sv_txn v' \<noteq> None \<and> sv_store v' = sv_store v) \<and> sv_consistent v' = sv_consistent v \<and>
      (\<forall>sch'. (table_id sch', table_epoch sch') \<noteq> (table_id sch, table_epoch sch) \<longrightarrow>
         table_of sch' (sv_visible v') = table_of sch' (sv_visible v)) \<and>
      (\<forall>k. olap_key sch k \<longrightarrow>
         sv_read v' k = map_of (rev (olap_entries sch (map snd (table_list sch (sv_visible v'))))) k))"

lemma finite_upds: "finite (dom w) \<Longrightarrow> finite (dom (upds us w))"
proof (rule finite_subset)
  show "dom (upds us w) \<subseteq> dom w \<union> fst ` set us"
    by (force simp: upds_map_of split: option.splits dest: map_of_SomeD)
qed simp

lemma map_of_rev_put: "map_of (map (\<lambda>(k, x). (k, Some x)) es) k = map_option Some (map_of es k)"
  by (induction es) auto

lemma upds_puts: "upds (map (\<lambda>(k, x). (k, Some x)) es) w k = (case map_of (rev es) k of Some x \<Rightarrow> Some x | None \<Rightarrow> w k)"
  unfolding upds_map_of rev_map map_of_rev_put by (cases "map_of (rev es) k") simp_all

lemma table_list_frame: "same_area [VERSION, ROW_PREFIX] w w' \<Longrightarrow> table_list sch w' = table_list sch w"
  unfolding table_rows_in_def same_area_def
  by (intro arg_cong [of _ _ "map (entry_row sch)"] scan_spec_cong) (simp add: area_prefixes(1))

lemma updates_keep_catalog:
  assumes "catalog_inv lib (sv_store v)" "\<And>k x. (k, x) \<in> set us \<Longrightarrow> area k \<noteq> CATALOG_AREA"
  shows "catalog_inv lib (sv_store (sv_upds us v))" "index_list lib (sv_store (sv_upds us v)) t = index_list lib (sv_store v) t"
proof -
  have same: "same_catalog (sv_store v) (sv_store (sv_upds us v))" by (rule same_catalog_upds) (rule assms(2))
  show "catalog_inv lib (sv_store (sv_upds us v))" by (rule catalog_frame(1) [OF same assms(1)])
  show "index_list lib (sv_store (sv_upds us v)) t = index_list lib (sv_store v) t" by (rule catalog_frame(2) [OF same])
qed

lemma changes_areas: "(k, x) \<in> set (entry_changes db sn sch xs pk r b) \<Longrightarrow> area k \<in> {[VERSION, INDEX_PREFIX], NAMED_INDEX_AREA}"
  by (cases r) (simp_all only: entry_changes_def option.case list.set empty_iff entry_areas)

lemma row_updates_no_catalog: "(k, x) \<in> set (row_updates db sn sch xs pk old new) \<Longrightarrow> area k \<noteq> CATALOG_AREA"
  by (auto simp: row_updates_def area_simps dest!: changes_areas legacy_areas)

text \<open>After the updates of a row, the refresh.\<close>

lemma refreshed:
  assumes cat: "catalog_inv lib (sv_store v)" and inv: "table_inv db sn sch xs (sv_visible v)" and pk: "pk_ok sch pk"
    and new: "\<And>row. new = Some row \<Longrightarrow> row_fits sch row \<and> (\<forall>x \<in> set xs. index_fits x row)"
    and fin: "finite (dom (sv_read v))" and xs: "xs = index_list lib (sv_store v) (table_id sch)"
    and v1: "v1 = sv_upds (row_updates db sn sch xs pk (table_of sch (sv_visible v) pk) new) v"
  obtains v' where "computes (session_shows s) (refresh_olap_storage_at s db sn sch) v1 (Inr ()) v'"
    "row_changed lib db sn sch pk (map_option (stored_row sch) new) v v'"
proof -
  let ?us = "row_updates db sn sch xs pk (table_of sch (sv_visible v) pk) new"
  have one: "table_inv db sn sch xs (sv_visible v1)"
    using row_updates_inv(2) [OF inv pk, of "[]" new] new by (simp add: v1)
  then have ok: "schema_ok sch" "table_ok sch (sv_visible v1)" "no_legacy_rows db sn sch (sv_visible v1)" by (simp_all add: table_inv_def)
  have "finite (dom (sv_read v1))" using finite_upds [OF fin] by (simp add: v1)
  from refresh_computes [OF ok this] obtain us where us: "computes (session_shows s) (refresh_olap_storage_at s db sn sch) v1 (Inr ()) (sv_upds us v1)"
      "\<forall>(k, b) \<in> set us. area k \<in> OLAP_AREAS"
      "upds us (sv_read v1) = upds (map (\<lambda>(k, x). (k, Some x)) (olap_entries sch (map snd (table_list sch (sv_visible v1)))))
        (\<lambda>k. if olap_key sch k then None else sv_read v1 k)" by blast
  obtain v' where v': "v' = sv_upds us v1" by simp
  have read: "sv_read v' = upds (map (\<lambda>(k, x). (k, Some x)) (olap_entries sch (map snd (table_list sch (sv_visible v1)))))
      (\<lambda>k. if olap_key sch k then None else sv_read v1 k)" using us(3) by (simp add: v')
  have seen: "sv_visible v' = upds (?us @ us) (sv_visible v)" by (simp add: v' v1)
  note eff = row_updates_inv [OF inv pk us(2) new seen]
  have noc: "area k \<noteq> CATALOG_AREA" if "(k, x) \<in> set (?us @ us)" for k x
    using that row_updates_no_catalog [of k x] us(2) by auto
  have whole: "v' = sv_upds (?us @ us) v" by (simp add: v' v1)
  have cats: "index_list lib (sv_store v') (table_id sch) = xs" "same_catalog (sv_store v) (sv_store v')"
    unfolding whole xs by (rule updates_keep_catalog(2) [OF cat] same_catalog_upds, erule noc [unfolded xs])+
  have still: "sv_txn v \<noteq> None \<longrightarrow> sv_txn v' \<noteq> None \<and> sv_store v' = sv_store v" "sv_consistent v' = sv_consistent v"
    unfolding whole by (simp_all only: sv_upds_seen sv_upds_store) simp
  have "same_area [VERSION, ROW_PREFIX] (sv_visible v1) (sv_visible v')"
    unfolding sv_upds_seen v' by (rule upds_same_area) (use us(2) in auto)
  then have rows: "table_list sch (sv_visible v') = table_list sch (sv_visible v1)" by (rule table_list_frame)
  have "sv_read v' k = map_of (rev (olap_entries sch (map snd (table_list sch (sv_visible v'))))) k" if "olap_key sch k" for k
    unfolding rows read using that by (simp add: upds_puts split: option.splits)
  then have "row_changed lib db sn sch pk (map_option (stored_row sch) new) v v'"
    unfolding row_changed_def cats(1) using eff cats(2) still by blast
  with us(1) v' show thesis by (intro that) simp_all
qed

text \<open>Writing a row. The conditions under which it succeeded are what the checks establish.\<close>

definition row_admitted :: "json_lib \<Rightarrow> check_parser \<Rightarrow> table_schema \<Rightarrow> column_value \<Rightarrow> row_map \<Rightarrow> session_view \<Rightarrow> bool" where
  "row_admitted lib checks sch pk row v =
     (validate_row_constraints checks sch row = Inr () \<and>
      (table_of sch (sv_visible v) pk \<noteq> None \<longrightarrow> not_stale sch v pk) \<and>
      (\<not> sv_consistent v \<longrightarrow> (\<forall>x \<in> set (index_list lib (sv_store v) (table_id sch)). sole_value sch (sv_visible v) pk row x)) \<and>
      (\<forall>k \<in> set (unique_constraints sch). sole_key sch (sv_visible v) pk row k))"

lemma computes_each_same: "(\<And>x. x \<in> set xs \<Longrightarrow> computes R (f x) v (Inr ()) v) \<Longrightarrow> computes R (st_each f xs) v (Inr ()) v"
  by (induction xs) (simp_all add: computes_return computes_seq [where ?w1.0 = v])

lemma old_entries_deleted:
  assumes "schema_ok sch" "pk_ok sch pk" "catalog_inv lib (sv_store v)"
  shows "computes (session_shows s) (case old of None \<Rightarrow> st_return () | Some row \<Rightarrow> delete_index_entries_at lib s db sn sch pk row) v (Inr ())
    (sv_upds (entry_changes db sn sch (index_list lib (sv_store v) (table_id sch)) pk old None) v)"
  using delete_entries_computes [OF assms] by (cases old) (simp_all add: entry_changes_def computes_return)

lemma row_written:
  assumes cat: "catalog_inv lib (sv_store v)" and ok: "schema_ok sch" "pk_ok sch pk" and xs: "xs = index_list lib (sv_store v) (table_id sch)"
    and after: "computes (session_shows s) m (sv_upds (row_updates db sn sch xs pk old (Some row)) v) (Inr ()) v'"
  shows "computes (session_shows s)
     (st_seq (case old of None \<Rightarrow> st_return () | Some row \<Rightarrow> delete_index_entries_at lib s db sn sch pk row)
     (st_seq (put_session s (table_key sch pk) (encode_row_record sch row))
     (st_seq (delete_legacy_row (\<lambda>key. st_ignore (gw_txn_delete s key)) db sn sch pk)
     (st_seq (write_index_entries_at lib s db sn sch pk row) m)))) v (Inr ()) v'"
proof -
  let ?us = "entry_changes db sn sch xs pk old None @ (table_key sch pk, Some (encode_row_record sch row)) # legacy_upds db sn sch pk"
  have noc: "area k \<noteq> CATALOG_AREA" if "(k, x) \<in> set ?us" for k x
    using that by (auto simp: area_simps dest!: changes_areas legacy_areas)
  let ?v = "sv_upds ?us v"
  have cat': "catalog_inv lib (sv_store ?v)" "index_list lib (sv_store ?v) (table_id sch) = xs"
    unfolding xs by (rule updates_keep_catalog [OF cat], erule noc [unfolded xs])+
  have "computes (session_shows s) (write_index_entries_at lib s db sn sch pk row) ?v (Inr ())
      (sv_upds (row_updates db sn sch xs pk old (Some row)) v)"
    using write_entries_computes [OF ok cat'(1), of s db sn row] unfolding cat'(2) by (simp add: row_updates_def entry_changes_def)
  note last = computes_seq [OF this after]
  show ?thesis
    apply (rule computes_seq [OF old_entries_deleted [OF ok cat]])
    apply (rule computes_seq [OF put_session_computes])
    apply (rule computes_seq [OF delete_legacy_computes [OF ok ignored_delete_computes]])
    using last by (simp add: xs)
qed

lemma write_row_outcome:
  assumes cat: "catalog_inv lib (sv_store v)" and inv: "table_inv db sn sch (index_list lib (sv_store v) (table_id sch)) (sv_visible v)"
    and row: "pk_ok sch pk" "row_fits sch row" "\<forall>x \<in> set (index_list lib (sv_store v) (table_id sch)). index_fits x row"
  shows "succeeds_or_keeps (session_shows s) (write_row_at lib checks s db sn sch pk row) v
    (\<lambda>v'. row_admitted lib checks sch pk row v \<and> row_changed lib db sn sch pk (Some (stored_row sch row)) v v')"
proof (rule outcome_shown)
  fix g assume g: "session_shows s g v"
  have ok: "schema_ok sch" "table_ok sch (sv_visible v)" "no_legacy_rows db sn sch (sv_visible v)" using inv by (simp_all add: table_inv_def)
  have boot: "booted (sv_store v)" using cat by (simp add: catalog_inv_def)
  let ?xs = "index_list lib (sv_store v) (table_id sch)" and ?old = "table_of sch (sv_visible v) pk"
  obtain v' where v': "computes (session_shows s) (refresh_olap_storage_at s db sn sch)
        (sv_upds (row_updates db sn sch ?xs pk ?old (Some row)) v) (Inr ()) v'"
      "row_changed lib db sn sch pk (Some (stored_row sch row)) v v'"
    by (rule refreshed [OF cat inv row(1) _ finite_shown(2) [OF g] refl refl, of "Some row"]) (use row in simp_all)
  note effect = outcome_computes [OF row_written [OF cat ok(1) row(1) refl v'(1)]]
  show "succeeds_or_keeps (session_shows s) (write_row_at lib checks s db sn sch pk row) v
      (\<lambda>v'. row_admitted lib checks sch pk row v \<and> row_changed lib db sn sch pk (Some (stored_row sch row)) v v')"
    unfolding write_row_at_def write_row_at_with_olap_refresh_def if_True
  proof (rule check_ensures, rule ensures_computes [OF computes_lift], assumption,
      rule check_computes [OF read_row_computes [OF ok(1) row(1) ok(2,3)]], rule check_ensures)
    show "ensures (session_shows s) (if ?old \<noteq> None then ensure_row_write_not_stale s sch pk else st_return ()) v
        (\<lambda>_. ?old \<noteq> None \<longrightarrow> not_stale sch v pk)"
      by (auto intro!: stale_ensure ensures_return)
  next
    assume a: "validate_row_constraints checks sch row = Inr ()" "?old \<noteq> None \<longrightarrow> not_stale sch v pk"
    show "succeeds_or_keeps (session_shows s)
      (st_seq (validate_foreign_keys_at lib s db sn sch row)
      (st_seq (validate_index_entries_at lib s db sn sch pk row)
      (st_seq (validate_unique_constraints_at s db sn sch pk row)
      (st_seq (case ?old of None \<Rightarrow> st_return () | Some old \<Rightarrow> delete_index_entries_at lib s db sn sch pk old)
      (st_seq (put_session s (table_key sch pk) (encode_row_record sch row))
      (st_seq (delete_legacy_row (\<lambda>key. st_ignore (gw_txn_delete s key)) db sn sch pk)
      (st_seq (write_index_entries_at lib s db sn sch pk row) (refresh_olap_storage_at s db sn sch)))))))) v
      (\<lambda>v'. row_admitted lib checks sch pk row v \<and> row_changed lib db sn sch pk (Some (stored_row sch row)) v v')"
      by (rule check_seq [OF settles_foreign_keys [OF boot]], rule check_ensures [OF indexes_ensure [OF cat inv row]],
          rule check_ensures [OF unique_ensure [OF ok]], rule effect)
        (use a v'(2) in \<open>simp add: row_admitted_def\<close>)
  qed
qed

text \<open>The row is written when the checks pass. The indexes are checked against what the session reads, which for a
  consistent read is not what it sees of the table.\<close>

lemma write_row_passes:
  assumes cat: "catalog_inv lib (sv_store v)" and inv: "table_inv db sn sch (index_list lib (sv_store v) (table_id sch)) (sv_visible v)"
    and row: "pk_ok sch pk" "row_fits sch row" "\<forall>x \<in> set (index_list lib (sv_store v) (table_id sch)). index_fits x row"
    and checks: "validate_row_constraints checks sch row = Inr ()" "table_of sch (sv_visible v) pk \<noteq> None \<longrightarrow> not_stale sch v pk"
      "computes (session_shows s) (validate_foreign_keys_at lib s db sn sch row) v (Inr ()) v"
      "table_inv db sn sch (index_list lib (sv_store v) (table_id sch)) (sv_read v)"
      "\<forall>x \<in> set (index_list lib (sv_store v) (table_id sch)). sole_value sch (sv_read v) pk row x"
      "\<forall>k \<in> set (unique_constraints sch). unique_primary_key k \<or>
         unique_loop k (Some pk) (Some (constraint_key k row)) [] (table_list sch (sv_visible v)) = Inr ()"
    and g: "session_shows s g v"
  shows "\<exists>v'. computes (session_shows s) (write_row_at lib checks s db sn sch pk row) v (Inr ()) v' \<and>
    row_changed lib db sn sch pk (Some (stored_row sch row)) v v'"
proof -
  have ok: "schema_ok sch" "table_ok sch (sv_visible v)" "no_legacy_rows db sn sch (sv_visible v)" using inv by (simp_all add: table_inv_def)
  let ?xs = "index_list lib (sv_store v) (table_id sch)" and ?old = "table_of sch (sv_visible v) pk"
  obtain v' where v': "computes (session_shows s) (refresh_olap_storage_at s db sn sch)
        (sv_upds (row_updates db sn sch ?xs pk ?old (Some row)) v) (Inr ()) v'"
      "row_changed lib db sn sch pk (Some (stored_row sch row)) v v'"
    by (rule refreshed [OF cat inv row(1) _ finite_shown(2) [OF g] refl refl, of "Some row"]) (use row in simp_all)
  have stale: "computes (session_shows s) (if ?old \<noteq> None then ensure_row_write_not_stale s sch pk else st_return ()) v (Inr ()) v"
    using stale_computes [of s sch pk v] checks(2) by (auto intro: computes_return)
  have indexes: "computes (session_shows s) (validate_index_entries_at lib s db sn sch pk row) v (Inr ()) v"
    unfolding validate_index_entries_at_def
  proof (rule computes_bind [OF indexes_computes [OF cat]], rule computes_each_same)
    fix x assume x: "x \<in> set ?xs"
    then show "computes (session_shows s) (validate_index_entry s db sn sch pk row x) v (Inr ()) v"
      using index_entry_computes [OF checks(4) x row(1,2), of s] row(3) checks(5) by simp
  qed
  have unique: "computes (session_shows s) (validate_unique_constraints_at s db sn sch pk row) v (Inr ()) v"
    unfolding validate_unique_constraints_at_def validate_unique_constraint_at_def
  proof (rule computes_each_same)
    fix k assume "k \<in> set (unique_constraints sch)"
    then show "computes (session_shows s) (if unique_primary_key k then st_return ()
        else st_bind (scan_visible_row_entries_at s db sn sch None) (\<lambda>rows.
          st_lift (unique_loop k (Some pk) (map_option (constraint_key k) (Some row)) [] rows))) v (Inr ()) v"
      using checks(6) scan_rows_computes [OF ok, of s None] by (auto simp: passes_def intro!: computes_return computes_bind computes_lift_eq)
  qed
  have "computes (session_shows s) (write_row_at lib checks s db sn sch pk row) v (Inr ()) v'"
    unfolding write_row_at_def write_row_at_with_olap_refresh_def if_True
    by (rule computes_seq [OF computes_lift_eq [OF checks(1)]], rule computes_bind [OF read_row_computes [OF ok(1) row(1) ok(2,3)]],
        rule computes_seq [OF stale], rule computes_seq [OF checks(3)], rule computes_seq [OF indexes], rule computes_seq [OF unique],
        rule row_written [OF cat ok(1) row(1) refl v'(1)])
  with v'(2) show ?thesis by blast
qed

lemma write_row_succeeds:
  assumes "catalog_inv lib (sv_store v)" "table_inv db sn sch (index_list lib (sv_store v) (table_id sch)) (sv_visible v)"
    and "pk_ok sch pk" "row_fits sch row" "\<forall>x \<in> set (index_list lib (sv_store v) (table_id sch)). index_fits x row"
    and "validate_row_constraints checks sch row = Inr ()" "table_of sch (sv_visible v) pk \<noteq> None \<longrightarrow> not_stale sch v pk"
      "computes (session_shows s) (validate_foreign_keys_at lib s db sn sch row) v (Inr ()) v" "\<not> sv_consistent v"
      "\<forall>x \<in> set (index_list lib (sv_store v) (table_id sch)). sole_value sch (sv_visible v) pk row x"
      "\<forall>k \<in> set (unique_constraints sch). unique_primary_key k \<or>
         unique_loop k (Some pk) (Some (constraint_key k row)) [] (table_list sch (sv_visible v)) = Inr ()"
    and "session_shows s g v"
  shows "\<exists>v'. computes (session_shows s) (write_row_at lib checks s db sn sch pk row) v (Inr ()) v' \<and>
    row_changed lib db sn sch pk (Some (stored_row sch row)) v v'"
proof -
  have "sv_visible v = sv_read v" using assms(9) by (simp add: sv_visible_def)
  with assms(2,10) show ?thesis by (intro write_row_passes [OF assms(1-8) _ _ assms(11,12)]) simp_all
qed

text \<open>A row another session changed since the snapshot is not written.\<close>

lemma stale_write_fails:
  assumes "schema_ok sch" "pk_ok sch pk" "table_ok sch (sv_visible v)" "no_legacy_rows db sn sch (sv_visible v)"
    and "validate_row_constraints checks sch row = Inr ()" "table_of sch (sv_visible v) pk \<noteq> None" "\<not> not_stale sch v pk"
  shows "computes (session_shows s) (write_row_at lib checks s db sn sch pk row) v (Inl stale_error) v"
proof -
  have stale: "computes (session_shows s) (if table_of sch (sv_visible v) pk \<noteq> None then ensure_row_write_not_stale s sch pk else st_return ()) v
      (Inl stale_error) v"
    using stale_computes [of s sch pk v] assms(6,7) by simp
  show ?thesis unfolding write_row_at_def write_row_at_with_olap_refresh_def st_seq_def assms(5)
    by (rule computes_bind [OF computes_lift], rule computes_bind [OF read_row_computes [OF assms(1-4)]], rule computes_bind_error [OF stale])
qed

text \<open>Deleting a row.\<close>

lemma st_seq_assoc: "st_seq (st_seq a b) c = st_seq a (st_seq b c)"
  by (rule ext) (simp add: st_seq_def st_bind_def split: option.splits sum.splits)

lemma row_deleted:
  assumes ok: "schema_ok sch" "pk_ok sch pk" and cat: "catalog_inv lib (sv_store v)" and xs: "xs = index_list lib (sv_store v) (table_id sch)"
    and after: "computes (session_shows s) m (sv_upds (row_updates db sn sch xs pk old None) v) (Inr ()) v'"
  shows "computes (session_shows s)
     (st_seq (case old of None \<Rightarrow> st_return () | Some row \<Rightarrow> delete_index_entries_at lib s db sn sch pk row)
     (st_bind (st_lift (row_marker_key db sn (table_name sch) pk)) (\<lambda>marker.
     st_seq (delete_session s (table_key sch pk))
     (st_seq (delete_session s marker)
     (st_seq (st_each (\<lambda>c. st_bind (st_lift (cell_key db sn (table_name sch) (col_name c) pk)) (delete_session s)) (columns sch))
       m))))) v (Inr ()) v'"
  unfolding legacy_keys(2) [OF ok]
  apply (rule computes_seq [OF old_entries_deleted [OF ok cat]], rule computes_bind [OF computes_lift])
  apply (rule computes_seq [OF delete_session_computes], rule computes_seq [OF delete_session_computes])
  apply (rule computes_seq [OF delete_cells_computes [OF ok delete_session_computes]])
  using after by (simp add: row_updates_def legacy_upds_def xs entry_changes_def)

lemma delete_row_outcome:
  assumes cat: "catalog_inv lib (sv_store v)" and inv: "table_inv db sn sch (index_list lib (sv_store v) (table_id sch)) (sv_visible v)"
    and pk: "pk_ok sch pk"
  shows "succeeds_or_keeps (session_shows s) (delete_row_at lib s db sn sch pk) v
    (\<lambda>v'. (table_of sch (sv_visible v) pk \<noteq> None \<longrightarrow> not_stale sch v pk) \<and> row_changed lib db sn sch pk None v v')"
proof (rule outcome_shown)
  fix g assume g: "session_shows s g v"
  have ok: "schema_ok sch" "table_ok sch (sv_visible v)" "no_legacy_rows db sn sch (sv_visible v)" using inv by (simp_all add: table_inv_def)
  have boot: "booted (sv_store v)" using cat by (simp add: catalog_inv_def)
  let ?xs = "index_list lib (sv_store v) (table_id sch)" and ?old = "table_of sch (sv_visible v) pk"
  let ?rest = "st_bind (st_lift (row_marker_key db sn (table_name sch) pk)) (\<lambda>marker. st_seq (delete_session s (table_key sch pk))
       (st_seq (delete_session s marker)
       (st_seq (st_each (\<lambda>c. st_bind (st_lift (cell_key db sn (table_name sch) (col_name c) pk)) (delete_session s)) (columns sch))
         (refresh_olap_storage_at s db sn sch))))"
  let ?first = "case ?old of None \<Rightarrow> st_return () | Some row \<Rightarrow> st_seq (ensure_row_write_not_stale s sch pk)
       (st_seq (validate_no_foreign_key_references_at lib s db sn sch row) (delete_index_entries_at lib s db sn sch pk row))"
  let ?Q = "\<lambda>v'. (?old \<noteq> None \<longrightarrow> not_stale sch v pk) \<and> row_changed lib db sn sch pk None v v'"
  obtain v' where v': "computes (session_shows s) (refresh_olap_storage_at s db sn sch)
        (sv_upds (row_updates db sn sch ?xs pk ?old None) v) (Inr ()) v'" "row_changed lib db sn sch pk None v v'"
    by (rule refreshed [OF cat inv pk _ finite_shown(2) [OF g] refl refl, of None]) simp_all
  note effect = outcome_computes [OF row_deleted [OF ok(1) pk cat refl v'(1)], of ?Q]
  show "succeeds_or_keeps (session_shows s) (delete_row_at lib s db sn sch pk) v ?Q"
    unfolding delete_row_at_def
  proof (rule check_computes [OF read_row_computes [OF ok(1) pk ok(2,3)]], cases ?old)
    case None
    then show "succeeds_or_keeps (session_shows s) (st_seq ?first ?rest) v ?Q"
      using effect v'(2) by simp
  next
    case (Some row)
    have "succeeds_or_keeps (session_shows s) (st_seq (delete_index_entries_at lib s db sn sch pk row)
       ?rest) v ?Q" if "not_stale sch v pk"
      using effect v'(2) that by (simp add: Some)
    then show "succeeds_or_keeps (session_shows s) (st_seq ?first ?rest) v ?Q"
      unfolding Some option.case st_seq_assoc
      by (intro check_ensures [OF stale_ensure] check_seq [OF settles_references [OF boot]])
  qed
qed

section \<open>A row in a transaction\<close>

text \<open>A transaction that reads what is committed writes a row: nobody else sees it; committing gives the
  store the changed table, rolling back leaves the store.\<close>

lemma row_in_transaction:
  assumes st: "store_inv (gw_store g)" "active_transactions g sid = None" and cat: "catalog_inv lib (mem_get (gw_store g))"
    and inv: "table_inv db sn sch (index_list lib (mem_get (gw_store g)) (table_id sch)) (mem_get (gw_store g))"
    and row: "pk_ok sch pk" "row_fits sch row" "\<forall>x \<in> set (index_list lib (mem_get (gw_store g)) (table_id sch)). index_fits x row"
    and g1: "g1 = begin_session_transaction_with_options sid (Some ReadCommitted) False g"
  shows "\<exists>r g2. write_row_at lib checks (Some sid) db sn sch pk row g1 = Some (r, g2) \<and>
    mem_get (gw_store g2) = mem_get (gw_store g) \<and>
    mem_get (gw_store (rollback_session_transaction sid g2)) = mem_get (gw_store g) \<and>
    (let w = mem_get (gw_store (commit_session_transaction sid g2)) in case r of
       Inl _ \<Rightarrow> w = mem_get (gw_store g)
     | Inr _ \<Rightarrow> table_of sch w = (table_of sch (mem_get (gw_store g)))(pk \<mapsto> stored_row sch row) \<and>
         table_inv db sn sch (index_list lib (mem_get (gw_store g)) (table_id sch)) w)"
proof -
  let ?w = "mem_get (gw_store g)"
  let ?v = "\<lparr>sv_store = ?w, sv_txn = Some (?w, Map.empty), sv_repeatable = False, sv_consistent = False\<rparr>"
  have shows1: "session_shows (Some sid) g1 ?v" using begin_shows [OF st, of ReadCommitted False] by (simp add: g1)
  have seen: "sv_visible ?v = ?w" "sv_read ?v = ?w" by (simp_all add: sv_visible_def sv_read_def overlay_def fun_eq_iff)
  have "succeeds_or_keeps (session_shows (Some sid)) (write_row_at lib checks (Some sid) db sn sch pk row) ?v
      (\<lambda>v'. row_admitted lib checks sch pk row ?v \<and> row_changed lib db sn sch pk (Some (stored_row sch row)) ?v v')"
    by (rule write_row_outcome) (use cat inv row seen in simp_all)
  from outcome_cases [OF this shows1] obtain r g2 v' where
      run: "write_row_at lib checks (Some sid) db sn sch pk row g1 = Some (r, g2)" "session_shows (Some sid) g2 v'"
      "case r of Inl _ \<Rightarrow> v' = ?v | Inr _ \<Rightarrow> row_admitted lib checks sch pk row ?v \<and> row_changed lib db sn sch pk (Some (stored_row sch row)) ?v v'" .
  have kept: "sv_store v' = ?w" "sv_consistent v' = False" using run(3) by (auto simp: row_changed_def split: sum.splits)
  have "sv_store v' = mem_get (gw_store g2)" using run(2) by (simp add: session_shows_def)
  then have same: "mem_get (gw_store g2) = ?w" using kept(1) by simp
  have vis: "sv_visible v' = sv_read v'" using kept(2) by (simp add: sv_visible_def)
  note end_commit = commit_shows(2) [OF run(2)]
  have "case r of Inl _ \<Rightarrow> sv_read v' = ?w
     | Inr _ \<Rightarrow> table_of sch (sv_read v') = (table_of sch ?w)(pk \<mapsto> stored_row sch row) \<and>
         table_inv db sn sch (index_list lib ?w (table_id sch)) (sv_read v')"
    using run(3) kept(1) seen vis by (auto simp: row_changed_def split: sum.splits)
  then show ?thesis using run(1) same by (intro exI [of _ r] exI [of _ g2]) (simp add: rollback_shows(1) end_commit Let_def)
qed

end
