(* ===== verification/Row_Scans.thy ===== *)
theory Row_Scans
  imports Row_Commands
begin

text \<open>
  Scans against the table as a map: a scan of an index finds exactly the rows a full scan with the same
  condition finds, and the scan in batches ends and returns the rows of the range under filter,
  offset and limit.
\<close>

section \<open>Index scans\<close>

definition index_row :: "table_schema \<Rightarrow> kv_view \<Rightarrow> index_catalog \<Rightarrow> column_value \<Rightarrow> bytes \<times> bytes \<Rightarrow> column_value \<times> row_map" where
  "index_row sch w x val kv =
     (let pk = projr (decode_pk_from_index_entry_key (fst kv) (ix_id x) val (pk_data_type sch)) in (pk, the (table_of sch w pk)))"

definition index_rows :: "table_schema \<Rightarrow> kv_view \<Rightarrow> index_catalog \<Rightarrow> column_value \<Rightarrow> row_entries" where
  "index_rows sch w x val = map (index_row sch w x val) (scan_spec w (\<lambda>k. starts_with k (index_prefix (ix_id x) val)))"

lemma index_entry_row:
  assumes inv: "table_inv db sn sch xs w" and x: "x \<in> set xs" and fin: "finite (dom w)" and val: "index_value_ok sch x val"
    and kv: "kv \<in> set (scan_spec w (\<lambda>k. starts_with k (index_prefix (ix_id x) val)))"
  obtains pk row where "table_of sch w pk = Some row" "indexed_value row x = val" "fst kv = index_entry_key (ix_id x) val pk" "pk_ok sch pk"
    "decode_pk_from_index_entry_key (fst kv) (ix_id x) val (pk_data_type sch) = Inr pk" "index_row sch w x val kv = (pk, row)"
proof -
  have "fst kv \<in> fst ` set (scan_spec w (\<lambda>k. starts_with k (index_prefix (ix_id x) val)))" using kv by simp
  then obtain pk row where r: "table_of sch w pk = Some row" "indexed_value row x = val" "fst kv = entry_key x pk row"
    unfolding entries_under_value(1) [OF inv x fin val] by blast
  have ok: "schema_ok sch" "table_ok sch w" using inv by (simp_all add: table_inv_def)
  have pk: "pk_ok sch pk" using table_of_some [OF ok(2) r(1)] by simp
  have key: "fst kv = index_entry_key (ix_id x) val pk" using r(2,3) by (simp add: entry_key_def)
  have dec: "decode_pk_from_index_entry_key (fst kv) (ix_id x) val (pk_data_type sch) = Inr pk"
    unfolding key by (rule decode_pk_from_index_entry_key_index_entry_key) (use ok(1) pk in \<open>simp_all add: schema_ok_def pk_typed pk_ok_def\<close>)
  show thesis by (rule that [OF r(1,2) key pk dec]) (simp add: index_row_def dec r(1))
qed

lemma index_rows_mem:
  assumes inv: "table_inv db sn sch xs w" and x: "x \<in> set xs" and fin: "finite (dom w)" and val: "index_value_ok sch x val"
  shows "set (index_rows sch w x val) = {(pk, row). table_of sch w pk = Some row \<and> indexed_value row x = val}"
    and "distinct (map fst (index_rows sch w x val))"
proof -
  let ?es = "scan_spec w (\<lambda>k. starts_with k (index_prefix (ix_id x) val))"
  note row = index_entry_row [OF inv x fin val]
  have key: "fst kv = index_entry_key (ix_id x) val (fst (index_row sch w x val kv))" if "kv \<in> set ?es" for kv
    using row [OF that] by (metis fst_conv)
  have "(pk, r) \<in> set (index_rows sch w x val)" if pr: "table_of sch w pk = Some r" "indexed_value r x = val" for pk r
  proof -
    have "entry_key x pk r \<in> fst ` set ?es" unfolding entries_under_value(1) [OF inv x fin val] using pr by blast
    then obtain kv where kv: "kv \<in> set ?es" "fst kv = entry_key x pk r" by auto
    have "pk_ok sch pk" using table_of_some [OF _ pr(1)] inv by (simp add: table_inv_def)
    then have "index_row sch w x val kv = (pk, r)"
      using kv(2) pr inv decode_pk_from_index_entry_key_index_entry_key [of "pk_data_type sch" pk "ix_id x" val]
      by (simp add: index_row_def entry_key_def pk_typed pk_ok_def table_inv_def schema_ok_def)
    then show ?thesis unfolding index_rows_def set_map using kv(1) by (metis imageI)
  qed
  moreover have "table_of sch w pk = Some r \<and> indexed_value r x = val" if "(pk, r) \<in> set (index_rows sch w x val)" for pk r
  proof -
    from that obtain kv where kv: "kv \<in> set ?es" "index_row sch w x val kv = (pk, r)" unfolding index_rows_def by fastforce
    from row [OF kv(1)] kv(2) show ?thesis by (metis Pair_inject)
  qed
  ultimately have "((pk, r) \<in> set (index_rows sch w x val)) = (table_of sch w pk = Some r \<and> indexed_value r x = val)" for pk r by blast
  then show "set (index_rows sch w x val) = {(pk, row). table_of sch w pk = Some row \<and> indexed_value row x = val}"
    by (simp only: set_eq_iff split_paired_All mem_Collect_eq case_prod_conv) blast
  have "distinct (map fst ?es)" using scan_spec_props(1) [OF fin] by (auto simp: strict_sorted_iff)
  moreover have "map fst ?es = map (index_entry_key (ix_id x) val) (map fst (index_rows sch w x val))"
    using key by (simp add: index_rows_def)
  ultimately show "distinct (map fst (index_rows sch w x val))" by (metis distinct_map)
qed

lemma find_distinct_name: "distinct (map ix_name xs) \<Longrightarrow> x \<in> set xs \<Longrightarrow> find (\<lambda>y. ix_name y = ix_name x) xs = Some x"
  by (induction xs) (auto simp: rev_image_eqI)

lemma index_scan_computes:
  assumes cat: "catalog_inv lib (sv_store v)" and inv: "table_inv db sn sch (index_list lib (sv_store v) (table_id sch)) (sv_visible v)"
    and x: "x \<in> set (index_list lib (sv_store v) (table_id sch))" and val: "index_value_ok sch x val"
  shows "computes (session_shows s) (scan_index_row_entries_at lib s db sn sch (ix_name x) val flt) v
    (Inr (filter (\<lambda>e. passes flt (snd e)) (index_rows sch (sv_visible v) x val))) v"
proof (rule computes_shown)
  fix g assume g: "session_shows s g v"
  let ?w = "sv_visible v" and ?xs = "index_list lib (sv_store v) (table_id sch)"
  let ?es = "scan_spec ?w (\<lambda>k. starts_with k (index_prefix (ix_id x) val))"
  have fin: "finite (dom ?w)" by (rule finite_shown(4) [OF g])
  have ok: "schema_ok sch" "table_ok sch ?w" "no_legacy_rows db sn sch ?w" using inv by (simp_all add: table_inv_def)
  have "distinct (map ix_name ?xs)" using inv by (simp add: table_inv_def names_valid_def)
  then have found: "find (\<lambda>y. ix_name y = ix_name x) ?xs = Some x" using x by (rule find_distinct_name)
  have entry: "computes (session_shows s) (reread s db sn sch (decode_pk_from_index_entry_key (fst kv) (ix_id x) val (pk_data_type sch))) v
      (Inr (Some (index_row sch ?w x val kv))) v" if kv: "kv \<in> set ?es" for kv
  proof -
    obtain pk row where r: "table_of sch ?w pk = Some row" "pk_ok sch pk"
      "decode_pk_from_index_entry_key (fst kv) (ix_id x) val (pk_data_type sch) = Inr pk" "index_row sch ?w x val kv = (pk, row)"
      by (rule index_entry_row [OF inv x fin val kv])
    show ?thesis unfolding reread_def r(3)
      by (rule computes_bind [OF computes_lift], rule computes_bind [OF read_row_computes [OF ok(1) r(2) ok(2,3)]])
        (simp add: r(1,4) computes_return)
  qed
  let ?legacy = "st_bind (visible_scan_prefix s (index_entry_prefix db sn (table_name sch) (ix_name x) val)) (\<lambda>entries.
      all_rows (\<lambda>kv. reread s db sn sch
        (legacy_decode_pk_from_index_entry_key (fst kv) db sn (table_name sch) (ix_name x) val (pk_data_type sch))) flt entries)"
  have legacy: "computes (session_shows s) ?legacy v (Inr []) v" if "?es = []"
  proof -
    have "fst ` set (scan_spec ?w (\<lambda>k. starts_with k (index_entry_prefix db sn (table_name sch) (ix_name x) val))) = {}"
      using entries_under_value [OF inv x fin val] that by auto
    then have "scan_spec ?w (\<lambda>k. starts_with k (index_entry_prefix db sn (table_name sch) (ix_name x) val)) = []" by simp
    then show ?thesis
      by (intro computes_bind [OF visible_scan_prefix_computes]) (simp add: all_rows_def st_bind_def st_return_def computes_def)
  qed
  have all: "computes (session_shows s) (all_rows (\<lambda>kv. reread s db sn sch (decode_pk_from_index_entry_key (fst kv) (ix_id x) val (pk_data_type sch))) flt ?es) v
      (Inr (filter (\<lambda>e. passes flt (snd e)) (index_rows sch ?w x val))) v"
    unfolding index_rows_def by (rule all_rows_computes) (rule entry)
  show "computes (session_shows s) (scan_index_row_entries_at lib s db sn sch (ix_name x) val flt) v
      (Inr (filter (\<lambda>e. passes flt (snd e)) (index_rows sch ?w x val))) v"
    unfolding scan_index_row_entries_at_def Let_def
  proof (rule computes_bind [OF indexes_computes [OF cat]], unfold found option.case,
      rule computes_bind [OF visible_scan_range_computes], unfold index_range_rows)
    show "computes (session_shows s) (if ?es \<noteq> [] then all_rows (\<lambda>kv. reread s db sn sch
          (decode_pk_from_index_entry_key (fst kv) (ix_id x) val (pk_data_type sch))) flt ?es else ?legacy) v
        (Inr (filter (\<lambda>e. passes flt (snd e)) (index_rows sch ?w x val))) v"
      using all legacy by (auto simp: index_rows_def)
  qed
qed

section \<open>Scans of a range of primary keys\<close>

subsection \<open>The keys of a range\<close>

definition bound_ok :: "table_schema \<Rightarrow> key_bound \<Rightarrow> bool" where
  "bound_ok sch b = (case b of None \<Rightarrow> True | Some (val, _) \<Rightarrow> pk_ok sch val)"

abbreviation key_range :: "table_schema \<Rightarrow> key_bound \<Rightarrow> key_bound \<Rightarrow> range_scan" where
  "key_range sch lower upper \<equiv> row_range_between (table_id sch) (table_epoch sch) lower upper None"

text \<open>An interval between two extensions of a prefix lies under the prefix.\<close>

lemma interval_under_prefix:
  assumes "in_bounds a e k" "starts_with a p" "e = next_prefix p \<or> (\<exists>b. e = Some b \<and> starts_with b p)"
  shows "starts_with k p"
proof -
  have "p \<le> a" using assms(2) in_bounds_next_prefix [of p a] by (simp add: in_bounds_def)
  then have "p \<le> k" using assms(1) by (auto simp: in_bounds_def)
  moreover have "case next_prefix p of None \<Rightarrow> True | Some u \<Rightarrow> k < u"
  proof (cases "next_prefix p")
    case (Some u)
    show ?thesis
    proof (cases "e = next_prefix p")
      case True
      then show ?thesis using assms(1) Some by (simp add: in_bounds_def)
    next
      case False
      then obtain b where b: "e = Some b" "starts_with b p" using assms(3) by blast
      then have "b < u" using in_bounds_next_prefix [of p b] Some by (simp add: in_bounds_def)
      then show ?thesis using assms(1) b(1) Some by (auto simp: in_bounds_def)
    qed
  qed simp
  ultimately show ?thesis using in_bounds_next_prefix [of p k] by (auto simp: in_bounds_def split: option.splits)
qed

lemma range_under_table: "in_range (row_range_between (table_id sch) (table_epoch sch) lower upper l) k \<Longrightarrow> starts_with k (table_prefix sch)"
  unfolding in_range_def
  by (erule interval_under_prefix) (auto simp: row_range_between_def row_key_def starts_with_iff split: option.splits prod.splits bool.splits)

text \<open>After a key of the list, the rest of the list.\<close>

lemma scan_after:
  assumes "finite (dom w)" "es = scan_spec w sel" "i < length es"
  shows "scan_spec w (\<lambda>k. sel k \<and> fst (es ! i) < k) = drop (Suc i) es"
proof (rule scan_spec_unique [symmetric])
  have sorted: "sorted_wrt (<) (map fst es)" unfolding assms(2) by (rule scan_spec_props(1) [OF assms(1)])
  then show "sorted_wrt (<) (map fst (drop (Suc i) es))" by (simp add: drop_map [symmetric] sorted_wrt_drop)
  have mem: "((k, b) \<in> set es) = (sel k \<and> w k = Some b)" for k b unfolding assms(2) by (rule scan_spec_props(2) [OF assms(1)])
  have less: "(fst (es ! i) < fst (es ! j)) = (i < j)" if "j < length es" for j
    using sorted_wrt_nth_less [OF sorted] that assms(3) by (cases i j rule: linorder_cases) fastforce+
  show "((k, b) \<in> set (drop (Suc i) es)) = ((sel k \<and> fst (es ! i) < k) \<and> w k = Some b)" for k b
  proof
    assume "(k, b) \<in> set (drop (Suc i) es)"
    then obtain m where "m < length (drop (Suc i) es)" "drop (Suc i) es ! m = (k, b)" unfolding in_set_conv_nth by blast
    then have j: "Suc i \<le> Suc i + m" "Suc i + m < length es" "es ! (Suc i + m) = (k, b)" by simp_all
    then have "(k, b) \<in> set es" using nth_mem [OF j(2)] by simp
    then show "(sel k \<and> fst (es ! i) < k) \<and> w k = Some b" using mem less [OF j(2)] j by simp
  next
    assume r: "(sel k \<and> fst (es ! i) < k) \<and> w k = Some b"
    then obtain j where j: "j < length es" "es ! j = (k, b)" using mem by (auto simp: in_set_conv_nth)
    then have "i < j" using less [OF j(1)] r by simp
    then have "drop (Suc i) es ! (j - Suc i) = (k, b)" "j - Suc i < length (drop (Suc i) es)" using j by simp_all
    then show "(k, b) \<in> set (drop (Suc i) es)" by (metis nth_mem)
  qed
qed

lemma range_after:
  assumes "in_range (key_range sch lower upper) (table_key sch pk)"
  shows "in_range (key_range sch (Some (pk, False)) upper) k = (in_range (key_range sch lower upper) k \<and> table_key sch pk < k)"
  using assms snoc_zero_le_iff [of "table_key sch pk" k]
  by (auto simp: in_range_def in_bounds_def row_range_between_def split: option.splits)

subsection \<open>The loop over batches\<close>

lemma pick_append:
  "pick flt lmt off acc (xs @ ys) =
     (let (rows, off', stop) = pick flt lmt off acc xs in if stop then (rows, off', True) else pick flt lmt off' rows ys)"
  by (induction flt lmt off acc xs rule: pick.induct) (auto simp: Let_def split: option.splits)

lemma v2_batches_step:
  "v2_batches s db sn sch upper flt lmt batch lower off acc saw =
     st_bind (visible_scan_range s (row_range_between (table_id sch) (table_epoch sch) lower upper (Some batch))) (\<lambda>entries.
       if entries = [] then st_return (acc, saw)
       else st_bind (take_rows (entry_reread s db sn sch) flt lmt off acc entries) (\<lambda>(rows, off', stop).
         if stop \<or> length entries < batch then st_return (rows, True)
         else st_bind (st_lift (decode_pk_from_row_key (fst (last entries)) (table_id sch) (table_epoch sch) (pk_data_type sch))) (\<lambda>pk.
           v2_batches s db sn sch upper flt lmt batch (Some (pk, False)) off' rows True)))"
proof
  fix g
  show "v2_batches s db sn sch upper flt lmt batch lower off acc saw g =
     st_bind (visible_scan_range s (row_range_between (table_id sch) (table_epoch sch) lower upper (Some batch))) (\<lambda>entries.
       if entries = [] then st_return (acc, saw)
       else st_bind (take_rows (entry_reread s db sn sch) flt lmt off acc entries) (\<lambda>(rows, off', stop).
         if stop \<or> length entries < batch then st_return (rows, True)
         else st_bind (st_lift (decode_pk_from_row_key (fst (last entries)) (table_id sch) (table_epoch sch) (pk_data_type sch))) (\<lambda>pk.
           v2_batches s db sn sch upper flt lmt batch (Some (pk, False)) off' rows True))) g"
    by (subst v2_batches.simps)
      (auto simp: st_bind_def st_return_def st_lift_def Option.bind_def split: option.splits sum.splits prod.splits)
qed

lemma range_rows_between:
  "range_rows w (row_range_between t e lower upper l) = take_limit l (scan_spec w (in_range (row_range_between t e lower upper None)))"
proof -
  have "range_limit (row_range_between t e lower upper l) = l" "\<not> range_reverse (row_range_between t e lower upper l)"
    "in_range (row_range_between t e lower upper l) = in_range (row_range_between t e lower upper None)"
    by (simp_all add: fun_eq_iff in_range_def row_range_between_def)
  then show ?thesis by (simp add: range_rows_def)
qed

lemma entry_reread_computes:
  assumes "schema_ok sch" "table_ok sch (sv_visible v)" "no_legacy_rows db sn sch (sv_visible v)"
    "starts_with (fst kb) (table_prefix sch)" "sv_visible v (fst kb) = Some (snd kb)"
  shows "computes (session_shows s) (entry_reread s db sn sch kb) v (Inr (Some (entry_row sch kb))) v"
proof -
  obtain pk row where e: "pk_ok sch pk" "table_of sch (sv_visible v) pk = Some row" "entry_row sch kb = (pk, row)"
      "decode_pk_from_row_key (fst kb) (table_id sch) (table_epoch sch) (pk_data_type sch) = Inr pk"
    using entry_row_of [OF assms(1,2,4,5)] by (metis prod.collapse)
  show ?thesis unfolding entry_reread_def reread_def e(4)
    by (rule computes_bind [OF computes_lift], rule computes_bind [OF read_row_computes [OF assms(1) e(1) assms(2,3)]])
      (simp add: e(2,3) computes_return)
qed

lemma v2_batches_computes:
  assumes ok: "schema_ok sch" "table_ok sch (sv_visible v)" "no_legacy_rows db sn sch (sv_visible v)" and fin: "finite (dom (sv_visible v))"
    and batch: "0 < batch" and es: "es = scan_spec (sv_visible v) (in_range (key_range sch lower upper))"
  shows "computes (session_shows s) (v2_batches s db sn sch upper flt lmt batch lower off acc saw) v
    (Inr (fst (pick flt lmt off acc (map (entry_row sch) es)), saw \<or> es \<noteq> [])) v"
  using es
proof (induction "length es" arbitrary: es lower off acc saw rule: less_induct)
  case less
  let ?w = "sv_visible v" and ?now = "take batch es"
  have mem: "(kb \<in> set es) = (in_range (key_range sch lower upper) (fst kb) \<and> ?w (fst kb) = Some (snd kb))" for kb
    using scan_spec_props(2) [OF fin, of "fst kb" "snd kb"] less.prems by simp
  have now: "computes (session_shows s) (visible_scan_range s (row_range_between (table_id sch) (table_epoch sch) lower upper (Some batch))) v (Inr ?now) v"
    using visible_scan_range_computes [of s "row_range_between (table_id sch) (table_epoch sch) lower upper (Some batch)" v]
    by (simp add: range_rows_between take_limit_def less.prems)
  have rows: "computes (session_shows s) (take_rows (entry_reread s db sn sch) flt lmt off acc ?now) v
      (Inr (pick flt lmt off acc (map (entry_row sch) ?now))) v"
    by (rule take_rows_computes, rule entry_reread_computes [OF ok])
      (auto dest!: in_set_takeD simp: mem range_under_table)
  obtain rs o' stop where p: "pick flt lmt off acc (map (entry_row sch) ?now) = (rs, o', stop)" by (metis prod_cases3)
  have all: "pick flt lmt off acc (map (entry_row sch) es) =
      (if stop then (rs, o', True) else pick flt lmt o' rs (map (entry_row sch) (drop batch es)))"
    using pick_append [of flt lmt off acc "map (entry_row sch) ?now" "map (entry_row sch) (drop batch es)"] p by (simp flip: map_append)
  show ?case
  proof (cases "es = []")
    case True
    then show ?thesis by (subst v2_batches_step, intro computes_bind [OF now]) (simp add: computes_return)
  next
    case False
    then have ne: "?now \<noteq> []" using batch by simp
    have rest: "computes (session_shows s) (st_bind (st_lift (decode_pk_from_row_key (fst (last ?now)) (table_id sch) (table_epoch sch) (pk_data_type sch)))
        (\<lambda>pk. v2_batches s db sn sch upper flt lmt batch (Some (pk, False)) o' rs True)) v
        (Inr (fst (pick flt lmt o' rs (map (entry_row sch) (drop batch es))), True)) v" if full: "\<not> length ?now < batch"
    proof -
      have i: "batch - 1 < length es" "last ?now = es ! (batch - 1)" "Suc (batch - 1) = batch"
        using full batch ne by (auto simp: last_conv_nth)
      have "last ?now \<in> set es" using ne by (meson in_set_takeD last_in_set)
      then have key: "in_range (key_range sch lower upper) (fst (last ?now))" "?w (fst (last ?now)) = Some (snd (last ?now))" using mem by simp_all
      obtain pk where pk: "fst (last ?now) = table_key sch pk"
          "decode_pk_from_row_key (fst (last ?now)) (table_id sch) (table_epoch sch) (pk_data_type sch) = Inr pk"
        by (rule entry_row_of [OF ok(1,2) range_under_table [OF key(1)] key(2)])
      have "in_range (key_range sch (Some (pk, False)) upper) = (\<lambda>k. in_range (key_range sch lower upper) k \<and> fst (es ! (batch - 1)) < k)"
        using range_after [of sch lower upper pk] key(1) pk(1) i(2) by auto
      then have later: "drop batch es = scan_spec ?w (in_range (key_range sch (Some (pk, False)) upper))"
        using scan_after [OF fin less.prems i(1)] i(3) by simp
      show ?thesis unfolding pk(2)
        by (rule computes_bind [OF computes_lift], use less.hyps [OF _ later, of o' rs True] batch False in simp)
    qed
    show ?thesis
      by (subst v2_batches_step, rule computes_bind [OF now], simp only: ne if_False, rule computes_bind [OF rows],
          unfold p split_conv, cases "stop \<or> length ?now < batch")
        (use all rest False in \<open>auto intro: computes_return\<close>)
  qed
qed

subsection \<open>The visitor\<close>

lemma visit_rows_pick:
  assumes "\<forall>kb \<in> set es. decode_pk_from_row_key (fst kb) (table_id sch) (table_epoch sch) (pk_data_type sch) = Inr (fst (entry_row sch kb)) \<and>
      decode_row_record sch (snd kb) = Inr (snd (entry_row sch kb))"
  shows "visit_rows (limit_visitor sch flt lmt) (map (\<lambda>(k, b). (k, Some b)) es) (acc, off, saw) =
    (let (rows, off', stop) = pick flt lmt off acc (map (entry_row sch) es) in Inr (\<not> stop, rows, off', saw \<or> es \<noteq> []))"
  using assms
proof (induction es arbitrary: acc off saw)
  case (Cons kb es)
  obtain k b where kb: "kb = (k, b)" by (cases kb)
  have d: "decode_pk_from_row_key k (table_id sch) (table_epoch sch) (pk_data_type sch) = Inr (fst (entry_row sch (k, b)))"
    "decode_row_record sch b = Inr (snd (entry_row sch (k, b)))" using Cons.prems by (simp_all add: kb)
  have IH: "visit_rows (limit_visitor sch flt lmt) (map (\<lambda>(k, b). (k, Some b)) es) (acc, off, True) =
      (let (rows, off', stop) = pick flt lmt off acc (map (entry_row sch) es) in Inr (\<not> stop, rows, off', True))" for acc off
    using Cons by simp
  let ?e = "entry_row sch (k, b)"
  have step: "limit_visitor sch flt lmt k (Some b) (acc, off, saw) =
      (if \<not> passes flt (snd ?e) then Inr (True, acc, off, True) else if off > 0 then Inr (True, acc, off - 1, True)
       else Inr (\<not> (case lmt of None \<Rightarrow> False | Some n \<Rightarrow> n \<le> length acc + 1), acc @ [?e], off, True))"
    by (simp add: limit_visitor_def d Let_def split: option.splits)
  show ?case unfolding kb list.map split_conv visit_rows.simps step
    by (auto simp: IH [unfolded Let_def] Let_def split: option.splits)
qed simp

subsection \<open>Marker rows\<close>

lemma marker_range_empty:
  assumes "no_legacy_rows db sn sch w" "marker_start db sn (table_name sch) lower = Inr a" "marker_end db sn (table_name sch) upper = Inr e"
  shows "range_rows w \<lparr>range_start = a, range_end = e, range_limit = l, range_reverse = False\<rparr> = []"
proof -
  let ?p = "row_marker_prefix db sn (table_name sch)"
  have "starts_with a ?p" using assms(2)
    by (auto simp: marker_start_def starts_with_iff row_marker_key_def res_bind_eq_Inr split: option.splits prod.splits if_splits)
  moreover have "e = next_prefix ?p \<or> (\<exists>b. e = Some b \<and> starts_with b ?p)" using assms(3)
    by (auto simp: marker_end_def starts_with_iff row_marker_key_def res_bind_eq_Inr split: option.splits prod.splits if_splits)
  ultimately have "starts_with k ?p" if "in_bounds a e k" for k using interval_under_prefix that by blast
  then have "scan_spec w (in_bounds a e) = []" using assms(1) by (intro scan_spec_empty) (simp add: no_legacy_rows_def)
  then show ?thesis by (simp add: range_rows_def in_range_def [abs_def] take_limit_def split: option.splits)
qed

lemma marker_bounds:
  assumes "schema_ok sch" "bound_ok sch lower" "bound_ok sch upper"
  obtains a e where "marker_start db sn (table_name sch) lower = Inr a" "marker_end db sn (table_name sch) upper = Inr e"
proof -
  have "\<exists>a. marker_start db sn (table_name sch) lower = Inr a" "\<exists>e. marker_end db sn (table_name sch) upper = Inr e"
    using assms legacy_keys(2) [OF assms(1)] by (auto simp: marker_start_def marker_end_def bound_ok_def split: option.splits)
  then show thesis using that by blast
qed

lemma legacy_scans_empty:
  assumes "schema_ok sch" "bound_ok sch lower" "bound_ok sch upper" "no_legacy_rows db sn sch (sv_visible v)"
  shows "computes (session_shows s) (scan_legacy_row_marker_entries_by_pk_range_at s db sn sch lower upper flt lmt off) v (Inr []) v"
    and "computes (session_shows s) (scan_legacy_row_marker_entries_by_pk_range_batched_at s db sn sch lower upper flt lmt off) v (Inr []) v"
proof -
  obtain a e where b: "marker_start db sn (table_name sch) lower = Inr a" "marker_end db sn (table_name sch) upper = Inr e"
    by (rule marker_bounds [OF assms(1-3)])
  have none: "computes (session_shows s) (visible_scan_range s \<lparr>range_start = a, range_end = e, range_limit = l, range_reverse = False\<rparr>) v (Inr []) v" for l
    using visible_scan_range_computes [of s "\<lparr>range_start = a, range_end = e, range_limit = l, range_reverse = False\<rparr>" v]
    unfolding marker_range_empty [OF assms(4) b] .
  show "computes (session_shows s) (scan_legacy_row_marker_entries_by_pk_range_at s db sn sch lower upper flt lmt off) v (Inr []) v"
    unfolding scan_legacy_row_marker_entries_by_pk_range_at_def b
    by (rule computes_bind [OF computes_lift], rule computes_bind [OF computes_lift], rule computes_bind [OF none])
      (simp add: st_bind_def st_return_def computes_def)
  have "computes (session_shows s) (legacy_batches s db sn sch e flt lmt batch a off []) v (Inr []) v" for batch
    unfolding computes_def by (subst legacy_batches.simps) (use none [of "Some batch"] in \<open>fastforce simp: computes_def Option.bind_def\<close>)
  then show "computes (session_shows s) (scan_legacy_row_marker_entries_by_pk_range_batched_at s db sn sch lower upper flt lmt off) v (Inr []) v"
    unfolding scan_legacy_row_marker_entries_by_pk_range_batched_at_def b
    by (intro computes_bind [OF computes_lift])
qed

subsection \<open>Pages\<close>

definition page :: "nat option \<Rightarrow> nat \<Rightarrow> 'a list \<Rightarrow> 'a list" where
  "page lmt off xs = (case lmt of None \<Rightarrow> drop off xs | Some n \<Rightarrow> take n (drop off xs))"

lemma pick_page: "lmt \<noteq> Some 0 \<Longrightarrow> fst (pick flt lmt off [] es) = page lmt off (filter (\<lambda>e. passes flt (snd e)) es)"
  using pick_limit [of "[]" _ flt off es] by (cases lmt) (auto simp: pick_all page_def)

text \<open>The rows of a range, in the order of their keys.\<close>

definition rows_between :: "table_schema \<Rightarrow> kv_view \<Rightarrow> key_bound \<Rightarrow> key_bound \<Rightarrow> row_entries" where
  "rows_between sch w lower upper = map (entry_row sch) (scan_spec w (in_range (key_range sch lower upper)))"

lemma rows_between_in: "rows_between sch w lower upper = table_rows_in sch w (in_range (key_range sch lower upper))"
proof -
  have "(\<lambda>k. starts_with k (table_prefix sch) \<and> in_range (key_range sch lower upper) k) = in_range (key_range sch lower upper)"
    using range_under_table by blast
  then show ?thesis by (simp add: rows_between_def table_rows_in_def)
qed

lemma batched_computes:
  assumes ok: "schema_ok sch" "table_ok sch (sv_visible v)" "no_legacy_rows db sn sch (sv_visible v)"
  shows "computes (session_shows s) (scan_v2_row_entries_by_pk_range_batched_at s db sn sch lower upper flt lmt off) v
    (Inr (fst (pick flt lmt off [] (rows_between sch (sv_visible v) lower upper)), rows_between sch (sv_visible v) lower upper \<noteq> [])) v"
proof (rule computes_shown)
  fix g assume g: "session_shows s g v"
  let ?w = "sv_visible v"
  let ?es = "scan_spec ?w (in_range (key_range sch lower upper))"
  have fin: "finite (dom ?w)" by (rule finite_shown(4) [OF g])
  have active: "has_active_transaction s h = (sv_txn v \<noteq> None)" if "session_shows s h v" for h
    using that by (cases s) (auto simp: has_active_transaction_def session_shows_def session_txn_def split: option.splits)
  show "computes (session_shows s) (scan_v2_row_entries_by_pk_range_batched_at s db sn sch lower upper flt lmt off) v
      (Inr (fst (pick flt lmt off [] (rows_between sch ?w lower upper)), rows_between sch ?w lower upper \<noteq> [])) v"
  proof (cases "sv_txn v")
    case (Some t)
    have "0 < filtered_limit_scan_batch_size lmt off" by (simp add: filtered_limit_scan_batch_size_def FILTERED_LIMIT_SCAN_BATCH_SIZE_def)
    note run = v2_batches_computes [OF ok fin this refl, of s upper flt lmt lower off "[]" False]
    show ?thesis
    proof (rule computes_on)
      show "computes (session_shows s) (v2_batches s db sn sch upper flt lmt (filtered_limit_scan_batch_size lmt off) lower off [] False) v
          (Inr (fst (pick flt lmt off [] (rows_between sch ?w lower upper)), rows_between sch ?w lower upper \<noteq> [])) v"
        using run by (simp add: rows_between_def)
    qed (simp add: scan_v2_row_entries_by_pk_range_batched_at_def active Some)
  next
    case None
    let ?m = "st_catch (\<lambda>g. Some (mem_visit_range (gw_store g) (range_start (key_range sch lower upper)) (range_end (key_range sch lower upper))
        (range_reverse (key_range sch lower upper)) KeyValue (limit_visitor sch flt lmt) ([], off, False), g))"
    obtain rs o' stop where p: "pick flt lmt off [] (map (entry_row sch) ?es) = (rs, o', stop)" by (metis prod_cases3)
    have "\<forall>kb \<in> set ?es. decode_pk_from_row_key (fst kb) (table_id sch) (table_epoch sch) (pk_data_type sch) = Inr (fst (entry_row sch kb)) \<and>
        decode_row_record sch (snd kb) = Inr (snd (entry_row sch kb))"
    proof
      fix kb assume "kb \<in> set ?es"
      then have "starts_with (fst kb) (table_prefix sch)" "?w (fst kb) = Some (snd kb)"
        using scan_spec_props(2) [OF fin, of "fst kb" "snd kb"] range_under_table by auto
      from entry_row_of [OF ok(1,2) this] show "decode_pk_from_row_key (fst kb) (table_id sch) (table_epoch sch) (pk_data_type sch) = Inr (fst (entry_row sch kb)) \<and>
          decode_row_record sch (snd kb) = Inr (snd (entry_row sch kb))" by (metis fst_conv prod.collapse snd_conv)
    qed
    note visited = visit_rows_pick [OF this, of flt lmt "[]" off False, unfolded p]
    have run: "?m h = Some (Inr (rs, o', ?es \<noteq> []), h)" if h: "session_shows s h v" for h
    proof -
      have "store_inv (gw_store h)" "mem_get (gw_store h) = ?w" using h None by (simp_all add: session_shows_def sv_visible_def sv_no_txn)
      then have "mem_scan_range (gw_store h) (range_start (key_range sch lower upper)) (range_end (key_range sch lower upper)) None False = ?es"
        by (simp add: mem_scan_range_spec take_limit_def in_range_def [abs_def])
      moreover have "\<not> range_reverse (key_range sch lower upper)" by (simp add: row_range_between_def)
      ultimately show ?thesis using visited by (simp add: mem_visit_range_def mem_scan_range_projected_def st_catch_def)
    qed
    have visit: "computes (session_shows s) (st_bind ?m (\<lambda>(rows, _, saw). st_return (rows, saw))) v (Inr (rs, ?es \<noteq> [])) v"
      by (rule computes_bind [OF computes_read [OF run]]) (simp_all add: computes_return)
    have same: "scan_v2_row_entries_by_pk_range_batched_at s db sn sch lower upper flt lmt off h =
        st_bind ?m (\<lambda>(rows, _, saw). st_return (rows, saw)) h" if "session_shows s h v" for h
      by (simp add: scan_v2_row_entries_by_pk_range_batched_at_def active [OF that] None Let_def)
    have ends: "fst (pick flt lmt off [] (rows_between sch ?w lower upper)) = rs" "(rows_between sch ?w lower upper \<noteq> []) = (?es \<noteq> [])"
      by (simp_all add: rows_between_def p)
    show ?thesis unfolding ends by (rule computes_on [OF same visit])
  qed
qed

lemma page_scan_computes:
  assumes ok: "schema_ok sch" "table_ok sch (sv_visible v)" "no_legacy_rows db sn sch (sv_visible v)"
    and bounds: "bound_ok sch lower" "bound_ok sch upper" and lmt: "lmt \<noteq> Some 0" "\<And>n. lmt = Some n \<Longrightarrow> n + off < 2 ^ 64"
  shows "computes (session_shows s) (scan_visible_row_entries_by_pk_range_at s db sn sch lower upper flt lmt off) v
    (Inr (page lmt off (filter (\<lambda>e. passes flt (snd e)) (rows_between sch (sv_visible v) lower upper)))) v"
proof (rule computes_shown)
  fix g assume g: "session_shows s g v"
  let ?w = "sv_visible v" and ?rows = "rows_between sch (sv_visible v) lower upper"
  let ?es = "scan_spec ?w (in_range (key_range sch lower upper))" and ?l = "storage_limit flt lmt off"
  have fin: "finite (dom ?w)" by (rule finite_shown(4) [OF g])
  note legacy = legacy_scans_empty [OF ok(1) bounds ok(3)]
  show "computes (session_shows s) (scan_visible_row_entries_by_pk_range_at s db sn sch lower upper flt lmt off) v
      (Inr (page lmt off (filter (\<lambda>e. passes flt (snd e)) ?rows))) v"
  proof (cases "flt \<noteq> None \<and> lmt \<noteq> None")
    case True
    have "page lmt off ([] :: row_entries) = []" by (simp add: page_def split: option.splits)
    then show ?thesis unfolding scan_visible_row_entries_by_pk_range_at_def if_P [OF True]
      by (intro computes_bind [OF batched_computes [OF ok]])
        (use legacy(2) in \<open>auto simp: pick_page [OF lmt(1)] intro: computes_return\<close>)
  next
    case False
    have cut: "page lmt off (filter (\<lambda>e. passes flt (snd e)) (map (entry_row sch) (take_limit ?l ?es))) =
        page lmt off (filter (\<lambda>e. passes flt (snd e)) ?rows)"
    proof (cases "flt = None \<and> lmt \<noteq> None")
      case True
      then obtain n where n: "lmt = Some n" by blast
      have "saturating_add_usize n off = n + off" using lmt(2) [OF n] by (simp add: saturating_add_usize_def)
      then show ?thesis using True n by (simp add: storage_limit_def page_def take_limit_def rows_between_def passes_def take_map drop_map drop_take)
    qed (use False in \<open>auto simp: storage_limit_def take_limit_def rows_between_def\<close>)
    have scan: "computes (session_shows s) (visible_scan_range s (row_range_between (table_id sch) (table_epoch sch) lower upper ?l)) v
        (Inr (take_limit ?l ?es)) v"
      using visible_scan_range_computes [of s "row_range_between (table_id sch) (table_epoch sch) lower upper ?l" v]
      by (simp add: range_rows_between)
    have rows: "computes (session_shows s) (take_rows (entry_reread s db sn sch) flt lmt off [] (take_limit ?l ?es)) v
        (Inr (pick flt lmt off [] (map (entry_row sch) (take_limit ?l ?es)))) v"
    proof (rule take_rows_computes, rule entry_reread_computes [OF ok])
      fix kb assume "kb \<in> set (take_limit ?l ?es)"
      then have "kb \<in> set ?es" by (auto simp: take_limit_def dest: in_set_takeD split: option.splits)
      then have "in_range (key_range sch lower upper) (fst kb) \<and> ?w (fst kb) = Some (snd kb)"
        using scan_spec_props(2) [OF fin, of "fst kb" "snd kb"] by simp
      then show "starts_with (fst kb) (table_prefix sch)" "?w (fst kb) = Some (snd kb)" using range_under_table by auto
    qed
    have some: "computes (session_shows s) (st_bind (take_rows (entry_reread s db sn sch) flt lmt off [] (take_limit ?l ?es)) (\<lambda>(rows, _, _). st_return rows)) v
        (Inr (page lmt off (filter (\<lambda>e. passes flt (snd e)) ?rows))) v"
      by (rule computes_bind [OF rows]) (simp add: split_beta computes_return pick_page [OF lmt(1)] cut)
    have none: "page lmt off (filter (\<lambda>e. passes flt (snd e)) ?rows) = []" if "take_limit ?l ?es = []"
      using cut that by (simp add: page_def split: option.splits)
    show ?thesis unfolding scan_visible_row_entries_by_pk_range_at_def if_not_P [OF False]
      by (rule computes_bind [OF scan]) (use some none legacy(1) in auto)
  qed
qed

text \<open>A limit of zero is only noticed after a row was taken.\<close>

lemma pick_zero: "fst (pick flt (Some 0) off [] es) = take 1 (drop off (filter (\<lambda>e. passes flt (snd e)) es))"
  by (induction es arbitrary: off) (auto simp: drop_Cons')

lemma zero_limit_computes:
  assumes ok: "schema_ok sch" "table_ok sch (sv_visible v)" "no_legacy_rows db sn sch (sv_visible v)"
    and bounds: "bound_ok sch lower" "bound_ok sch upper"
  shows "computes (session_shows s) (scan_visible_row_entries_by_pk_range_at s db sn sch lower upper (Some p) (Some 0) off) v
    (Inr (take 1 (drop off (filter (\<lambda>e. p (snd e)) (rows_between sch (sv_visible v) lower upper))))) v"
proof -
  have "flt = Some p \<Longrightarrow> passes flt = p" for flt by (simp add: passes_def fun_eq_iff)
  then show ?thesis
    unfolding scan_visible_row_entries_by_pk_range_at_def
    by (simp, intro computes_bind [OF batched_computes [OF ok]])
      (use legacy_scans_empty(2) [OF ok(1) bounds ok(3)] in \<open>auto simp: pick_zero intro: computes_return\<close>)
qed

end
