(* ===== verification/Statement_Laws.thy ===== *)
theory Statement_Laws
  imports Row_Statements Row_Scans
begin

text \<open>
  What the statements do to a table, seen as a map: DELETE removes the rows its condition selects, UPDATE
  replaces them by what the assignments make of them, INSERT adds rows under new keys. A statement works
  row by row: when it fails, the rows before the failing one are changed and stay changed.
\<close>

section \<open>Programs that may fail half way\<close>

definition runs_to :: "('s \<Rightarrow> 'v \<Rightarrow> bool) \<Rightarrow> ('s, 'a) prog \<Rightarrow> 'v \<Rightarrow> ('a res \<Rightarrow> 'v \<Rightarrow> bool) \<Rightarrow> bool" where
  "runs_to R m v P = (\<forall>g. R g v \<longrightarrow> (\<exists>r g' v'. m g = Some (r, g') \<and> R g' v' \<and> P r v'))"

lemma runs_computes: "computes R m v r v' \<Longrightarrow> P r v' \<Longrightarrow> runs_to R m v P"
  by (fastforce simp: runs_to_def computes_def)

lemma runs_outcome: "succeeds_or_keeps R m v Q \<Longrightarrow> runs_to R m v (\<lambda>r v'. case r of Inl _ \<Rightarrow> v' = v | Inr _ \<Rightarrow> Q v')"
  by (simp add: runs_to_def succeeds_or_keeps_def)

lemma runs_weaken: "runs_to R m v P \<Longrightarrow> (\<And>r v'. P r v' \<Longrightarrow> Q r v') \<Longrightarrow> runs_to R m v Q"
  by (fastforce simp: runs_to_def)

lemma runs_shown: "(\<And>g. R g v \<Longrightarrow> runs_to R m v P) \<Longrightarrow> runs_to R m v P"
  by (simp add: runs_to_def)

lemma runs_bind:
  assumes "runs_to R m v P" "\<And>e v'. P (Inl e) v' \<Longrightarrow> Q (Inl e) v'" "\<And>x v'. P (Inr x) v' \<Longrightarrow> runs_to R (f x) v' Q"
  shows "runs_to R (st_bind m f) v Q"
  unfolding runs_to_def
proof (intro allI impI)
  fix g assume "R g v"
  then obtain r g1 v1 where m: "m g = Some (r, g1)" "R g1 v1" "P r v1" using assms(1) by (auto simp: runs_to_def)
  show "\<exists>r g' v'. st_bind m f g = Some (r, g') \<and> R g' v' \<and> Q r v'"
    using m assms(2,3) by (cases r) (fastforce simp: st_bind_def runs_to_def)+
qed

lemma runs_bind_computes: "computes R m v (Inr x) v' \<Longrightarrow> runs_to R (f x) v' Q \<Longrightarrow> runs_to R (st_bind m f) v Q"
  by (rule runs_bind [where P = "\<lambda>r w. r = Inr x \<and> w = v'"]) (auto intro: runs_computes)

lemma runs_cases:
  assumes "runs_to R m v P" "R g v"
  obtains r g' v' where "m g = Some (r, g')" "R g' v'" "P r v'"
  using assms unfolding runs_to_def by blast

text \<open>Counting is collecting.\<close>

lemma st_bind_assoc: "st_bind (st_bind m f) h = st_bind m (\<lambda>x. st_bind (f x) h)"
  by (rule ext) (auto simp: st_bind_def split: option.splits sum.splits)

lemma st_bind_return [simp]: "st_bind (st_return x) f = f x"
  by (rule ext) (simp add: st_bind_def st_return_def)

lemma st_count_collect: "st_count f n es = st_bind (st_collect f es) (\<lambda>xs. st_return (n + length xs))"
  by (induction es arbitrary: n) (simp_all add: st_bind_assoc)

section \<open>A table after a statement\<close>

definition table_became ::
    "json_lib \<Rightarrow> string \<Rightarrow> string \<Rightarrow> table_schema \<Rightarrow> session_view \<Rightarrow> (column_value \<rightharpoonup> row_map) \<Rightarrow> session_view \<Rightarrow> bool" where
  "table_became lib db sn sch v t v' =
     (table_of sch (sv_visible v') = t \<and> catalog_inv lib (sv_store v') \<and>
      table_inv db sn sch (index_list lib (sv_store v') (table_id sch)) (sv_visible v') \<and>
      same_catalog (sv_store v) (sv_store v') \<and>
      (sv_txn v \<noteq> None \<longrightarrow> sv_txn v' \<noteq> None \<and> sv_store v' = sv_store v) \<and> sv_consistent v' = sv_consistent v \<and>
      (\<forall>sch'. (table_id sch', table_epoch sch') \<noteq> (table_id sch, table_epoch sch) \<longrightarrow>
         table_of sch' (sv_visible v') = table_of sch' (sv_visible v)))"

lemma became_start:
  "catalog_inv lib (sv_store v) \<Longrightarrow> table_inv db sn sch (index_list lib (sv_store v) (table_id sch)) (sv_visible v) \<Longrightarrow>
     table_became lib db sn sch v (table_of sch (sv_visible v)) v"
  by (simp add: table_became_def same_catalog_def)

lemma became_index_list: "table_became lib db sn sch v t v' \<Longrightarrow> index_list lib (sv_store v') i = index_list lib (sv_store v) i"
  unfolding table_became_def using catalog_frame(2) by blast

lemma became_row:
  assumes "table_became lib db sn sch v t v1" "row_changed lib db sn sch pk new v1 v2"
  shows "table_became lib db sn sch v (t(pk := new)) v2"
proof -
  have cat: "catalog_inv lib (sv_store v2)" using assms catalog_frame(1) unfolding table_became_def row_changed_def by blast
  have "same_catalog (sv_store v) (sv_store v2)" using assms unfolding table_became_def row_changed_def same_catalog_def by auto
  then show ?thesis using assms cat unfolding table_became_def row_changed_def by auto
qed

text \<open>The rows of a list replaced, one by one.\<close>

definition replaced :: "(column_value \<times> row_map \<Rightarrow> row_map option) \<Rightarrow> row_entries \<Rightarrow> (column_value \<rightharpoonup> row_map) \<Rightarrow> (column_value \<rightharpoonup> row_map)" where
  "replaced new es t pk = (case map_of es pk of None \<Rightarrow> t pk | Some row \<Rightarrow> new (pk, row))"

lemma replaced_Nil [simp]: "replaced new [] t = t"
  by (rule ext) (simp add: replaced_def)

lemma replaced_Cons: "fst e \<notin> fst ` set es \<Longrightarrow> replaced new (e # es) t = replaced new es (t(fst e := new e))"
  using map_of_eq_None_iff [of es "fst e"] by (cases e) (auto simp: replaced_def fun_eq_iff split: option.split)

lemma loop_runs:
  assumes step: "\<And>e v1 t. e \<in> set es \<Longrightarrow> table_became lib db sn sch v t v1 \<Longrightarrow> runs_to R (f e) v1
      (\<lambda>r v2. case r of Inl _ \<Rightarrow> v2 = v1 | Inr x \<Rightarrow> x = out e \<and> row_changed lib db sn sch (fst e) (new e) v1 v2)"
    and "distinct (map fst es)" "table_became lib db sn sch v t v1"
  shows "runs_to R (st_collect f es) v1 (\<lambda>r v2. case r of
      Inr xs \<Rightarrow> xs = map out es \<and> table_became lib db sn sch v (replaced new es t) v2
    | Inl _ \<Rightarrow> \<exists>n < length es. table_became lib db sn sch v (replaced new (take n es) t) v2)"
  using assms
proof (induction es arbitrary: t v1)
  case Nil
  then show ?case by (auto intro!: runs_computes [OF computes_return])
next
  case (Cons e es)
  let ?P = "\<lambda>r v2. case r of Inl _ \<Rightarrow> v2 = v1 | Inr x \<Rightarrow> x = out e \<and> row_changed lib db sn sch (fst e) (new e) v1 v2"
  let ?Q = "\<lambda>r v2. case r of Inr xs \<Rightarrow> xs = map out (e # es) \<and> table_became lib db sn sch v (replaced new (e # es) t) v2
    | Inl _ \<Rightarrow> \<exists>n < length (e # es). table_became lib db sn sch v (replaced new (take n (e # es)) t) v2"
  have one: "runs_to R (f e) v1 ?P" by (rule Cons.prems(1) [OF _ Cons.prems(3)]) simp
  have fresh: "fst e \<notin> fst ` set es" "fst e \<notin> fst ` set (take n es)" for n using Cons.prems(2) by (auto dest: in_set_takeD)
  have later: "runs_to R (st_bind (st_collect f es) (\<lambda>ys. st_return (out e # ys))) v2 ?Q" if "row_changed lib db sn sch (fst e) (new e) v1 v2" for v2
  proof (rule runs_bind)
    show "runs_to R (st_collect f es) v2 (\<lambda>r v3. case r of
        Inr xs \<Rightarrow> xs = map out es \<and> table_became lib db sn sch v (replaced new es (t(fst e := new e))) v3
      | Inl _ \<Rightarrow> \<exists>n < length es. table_became lib db sn sch v (replaced new (take n es) (t(fst e := new e))) v3)"
      by (rule Cons.IH [OF _ _ became_row [OF Cons.prems(3) that]], rule Cons.prems(1)) (use Cons.prems(2) in simp_all)
  next
    fix err v3 assume "case Inl err of Inr xs \<Rightarrow> xs = map out es \<and> table_became lib db sn sch v (replaced new es (t(fst e := new e))) v3
      | Inl _ \<Rightarrow> \<exists>n < length es. table_became lib db sn sch v (replaced new (take n es) (t(fst e := new e))) v3"
    then obtain n where "n < length es" "table_became lib db sn sch v (replaced new (take (Suc n) (e # es)) t) v3"
      using fresh by (auto simp: replaced_Cons)
    then show "?Q (Inl err) v3" by (auto simp del: take_Suc_Cons intro!: exI [of _ "Suc n"])
  next
    fix xs v3 assume "case Inr xs of Inr xs \<Rightarrow> xs = map out es \<and> table_became lib db sn sch v (replaced new es (t(fst e := new e))) v3
      | Inl _ \<Rightarrow> \<exists>n < length es. table_became lib db sn sch v (replaced new (take n es) (t(fst e := new e))) v3"
    then show "runs_to R (st_return (out e # xs)) v3 ?Q" using fresh(1) by (auto simp: replaced_Cons intro!: runs_computes [OF computes_return])
  qed
  show ?case unfolding st_collect.simps
    by (rule runs_bind [OF one]) (use Cons.prems(3) later in \<open>auto intro!: exI [of _ 0]\<close>)
qed

section \<open>The rows a statement takes\<close>

text \<open>What an access means, and where it is read as meant: keys and bounds of the type of the primary key,
  and an index of the table with a value of its columns.\<close>

definition access_matches :: "table_schema \<Rightarrow> index_catalog list \<Rightarrow> write_access \<Rightarrow> column_value \<Rightarrow> row_map \<Rightarrow> bool" where
  "access_matches sch xs access pk row =
     (case access of
        PointLookup key \<Rightarrow> pk = key
      | PrimaryKeyRangeScan lower upper flt \<Rightarrow> in_range (key_range sch lower upper) (table_key sch pk) \<and> passes flt row
      | SecondaryIndexLookup index val flt \<Rightarrow> (\<exists>x \<in> set xs. ix_name x = index \<and> indexed_value row x = val) \<and> passes flt row
      | SecondaryIndexRangeScan _ _ _ _ \<Rightarrow> False
      | PrefixScan flt \<Rightarrow> passes flt row)"

definition access_ok :: "table_schema \<Rightarrow> index_catalog list \<Rightarrow> write_access \<Rightarrow> bool" where
  "access_ok sch xs access =
     (case access of
        PointLookup key \<Rightarrow> pk_ok sch key
      | PrimaryKeyRangeScan lower upper _ \<Rightarrow> bound_ok sch lower \<and> bound_ok sch upper
      | SecondaryIndexLookup index val _ \<Rightarrow> \<exists>x \<in> set xs. ix_name x = index \<and> index_value_ok sch x val
      | SecondaryIndexRangeScan _ _ _ _ \<Rightarrow> False
      | PrefixScan _ \<Rightarrow> True)"

definition selected :: "table_schema \<Rightarrow> index_catalog list \<Rightarrow> kv_view \<Rightarrow> write_access \<Rightarrow> (column_value \<times> row_map) set" where
  "selected sch xs w access = {(pk, row). table_of sch w pk = Some row \<and> access_matches sch xs access pk row}"

text \<open>The rows taken of a set: all of them, or as many as the limit allows.\<close>

definition takes_from :: "nat option \<Rightarrow> (column_value \<times> row_map) set \<Rightarrow> row_entries \<Rightarrow> bool" where
  "takes_from lmt M es =
     (distinct (map fst es) \<and> set es \<subseteq> M \<and> length es = (case lmt of None \<Rightarrow> card M | Some n \<Rightarrow> min n (card M)))"

lemma insert_by_props: "set (insert_by gt x ys) = insert x (set ys)" "length (insert_by gt x ys) = Suc (length ys)"
  "distinct (map fst (insert_by gt x ys)) = distinct (map fst (x # ys))"
  by (induction ys) auto

lemma sort_by_props: "set (sort_by gt xs) = set xs" "length (sort_by gt xs) = length xs"
  "distinct (map fst (sort_by gt xs)) = distinct (map fst xs)"
proof -
  show st: "set (sort_by gt xs) = set xs" for xs by (induction xs) (simp_all add: sort_by_def insert_by_props)
  show "length (sort_by gt xs) = length xs" by (induction xs) (simp_all add: sort_by_def insert_by_props)
  show "distinct (map fst (sort_by gt xs)) = distinct (map fst xs)"
    using st by (induction xs) (simp_all add: sort_by_def insert_by_props)
qed

lemma write_limit_takes:
  assumes "distinct (map fst rows)"
  shows "takes_from lmt (set rows) (apply_write_limit lmt ord rows)"
proof -
  have "distinct rows" using assms by (simp add: distinct_map)
  then show ?thesis using assms
    by (auto simp: takes_from_def apply_write_limit_def Let_def sort_by_props distinct_card take_map [symmetric] dest: in_set_takeD split: option.split)
qed

lemma selected_rows:
  assumes cat: "catalog_inv lib (sv_store v)" and xs: "xs = index_list lib (sv_store v) (table_id sch)"
    and inv: "table_inv db sn sch xs (sv_visible v)" and ok: "access_ok sch xs access" "\<And>key. access \<noteq> PointLookup key"
    and fin: "finite (dom (sv_visible v))"
  obtains rows where "computes (session_shows s) (access_rows lib s db sn sch access) v (Inr rows) v"
    "distinct (map fst rows)" "set rows = selected sch xs (sv_visible v) access"
proof (cases access)
  case (PointLookup key)
  then show ?thesis using ok(2) by simp
next
  case (SecondaryIndexRangeScan i lower upper flt)
  then show ?thesis using ok(1) by (simp add: access_ok_def)
next
  case (PrefixScan flt)
  have t: "schema_ok sch" "table_ok sch (sv_visible v)" "no_legacy_rows db sn sch (sv_visible v)" using inv by (simp_all add: table_inv_def)
  show ?thesis
    by (rule that [of "filter (\<lambda>e. passes flt (snd e)) (table_list sch (sv_visible v))"])
      (use scan_rows_computes [OF t] rows_in_distinct [OF t(1,2) fin] rows_in_mem [OF t(1,2) fin, where sel = "\<lambda>_. True"] PrefixScan in
        \<open>auto simp: access_rows_def selected_def access_matches_def intro: distinct_map_filter\<close>)
next
  case (PrimaryKeyRangeScan lower upper flt)
  have t: "schema_ok sch" "table_ok sch (sv_visible v)" "no_legacy_rows db sn sch (sv_visible v)" using inv by (simp_all add: table_inv_def)
  have b: "bound_ok sch lower" "bound_ok sch upper" using ok(1) PrimaryKeyRangeScan by (simp_all add: access_ok_def)
  have "computes (session_shows s) (access_rows lib s db sn sch access) v
      (Inr (filter (\<lambda>e. passes flt (snd e)) (rows_between sch (sv_visible v) lower upper))) v"
    using page_scan_computes [OF t b, of None 0 s flt] by (simp add: access_rows_def PrimaryKeyRangeScan page_def)
  then show ?thesis
    by (rule that) (use rows_in_distinct [OF t(1,2) fin] rows_in_mem [OF t(1,2) fin] PrimaryKeyRangeScan in
        \<open>auto simp: rows_between_in selected_def access_matches_def intro: distinct_map_filter\<close>)
next
  case (SecondaryIndexLookup index val flt)
  then obtain x where x: "x \<in> set xs" "ix_name x = index" "index_value_ok sch x val" using ok(1) by (auto simp: access_ok_def)
  have same: "y = x" if "y \<in> set xs" "ix_name y = index" for y
    using that x inv by (auto simp: table_inv_def names_valid_def inj_on_def distinct_map)
  have "computes (session_shows s) (access_rows lib s db sn sch access) v
      (Inr (filter (\<lambda>e. passes flt (snd e)) (index_rows sch (sv_visible v) x val))) v"
    using index_scan_computes [OF cat inv [unfolded xs] x(1) [unfolded xs] x(3)] x(2) by (simp add: access_rows_def SecondaryIndexLookup)
  moreover have "access_matches sch xs access pk row = (indexed_value row x = val \<and> passes flt row)" for pk row
    unfolding access_matches_def SecondaryIndexLookup write_access.case using same x(1,2) by blast
  then have "set (filter (\<lambda>e. passes flt (snd e)) (index_rows sch (sv_visible v) x val)) = selected sch xs (sv_visible v) access"
    unfolding selected_def set_filter index_rows_mem(1) [OF inv x(1) fin x(3)] by auto
  ultimately show ?thesis by (rule that [OF _ distinct_map_filter [OF index_rows_mem(2) [OF inv x(1) fin x(3)]]])
qed

section \<open>DELETE and UPDATE\<close>

text \<open>The outcome of a statement that replaces the selected rows one after the other.\<close>

definition statement_done ::
    "json_lib \<Rightarrow> string \<Rightarrow> string \<Rightarrow> table_schema \<Rightarrow> nat option \<Rightarrow> write_access \<Rightarrow> (column_value \<times> row_map \<Rightarrow> row_map option) \<Rightarrow>
       (column_value \<times> row_map \<Rightarrow> row_map) \<Rightarrow> session_view \<Rightarrow> row_map list res \<Rightarrow> session_view \<Rightarrow> bool" where
  "statement_done lib db sn sch lmt access new out v r v' =
     (\<exists>es. takes_from lmt (selected sch (index_list lib (sv_store v) (table_id sch)) (sv_visible v) access) es \<and>
       (case r of
          Inr rows \<Rightarrow> rows = map out es \<and> table_became lib db sn sch v (replaced new es (table_of sch (sv_visible v))) v'
        | Inl _ \<Rightarrow> \<exists>n < length es. table_became lib db sn sch v (replaced new (take n es) (table_of sch (sv_visible v))) v'))"

lemma selected_point:
  "selected sch xs w (PointLookup key) = (case table_of sch w key of None \<Rightarrow> {} | Some row \<Rightarrow> {(key, row)})"
  by (auto simp: selected_def access_matches_def split: option.splits)

lemma statement_runs:
  assumes cat: "catalog_inv lib (sv_store v)" and inv: "table_inv db sn sch (index_list lib (sv_store v) (table_id sch)) (sv_visible v)"
    and ok: "access_ok sch (index_list lib (sv_store v) (table_id sch)) access"
    and step: "\<And>e v1 t. table_of sch (sv_visible v) (fst e) = Some (snd e) \<Longrightarrow> table_became lib db sn sch v t v1 \<Longrightarrow> runs_to (session_shows s) (f e) v1
      (\<lambda>r v2. case r of Inl _ \<Rightarrow> v2 = v1 | Inr x \<Rightarrow> x = out e \<and> row_changed lib db sn sch (fst e) (new e) v1 v2)"
    and lmt: "lmt \<noteq> Some 0" and some: "\<And>key. access = PointLookup key \<Longrightarrow> table_of sch (sv_visible v) key \<noteq> None"
  shows "runs_to (session_shows s)
    (case access of
       PointLookup key \<Rightarrow> st_bind (read_visible_row_at s db sn sch key) (\<lambda>found. case found of None \<Rightarrow> m | Some row \<Rightarrow> st_collect f [(key, row)])
     | _ \<Rightarrow> st_bind (access_rows lib s db sn sch access) (\<lambda>rows. st_collect f (apply_write_limit lmt ord rows))) v
    (statement_done lib db sn sch lmt access new out v)"
proof (rule runs_shown)
  fix g assume g: "session_shows s g v"
  let ?w = "sv_visible v" and ?xs = "index_list lib (sv_store v) (table_id sch)"
  let ?M = "selected sch ?xs ?w access"
  have t: "schema_ok sch" "table_ok sch ?w" "no_legacy_rows db sn sch ?w" using inv by (simp_all add: table_inv_def)
  have loop: "runs_to (session_shows s) (st_collect f es) v (statement_done lib db sn sch lmt access new out v)"
    if es: "takes_from lmt ?M es" for es
  proof (rule runs_weaken [OF loop_runs [where es = es and f = f and out = out and new = new]])
    fix e v1 t assume "e \<in> set es" "table_became lib db sn sch v t v1"
    then show "runs_to (session_shows s) (f e) v1
      (\<lambda>r v2. case r of Inl _ \<Rightarrow> v2 = v1 | Inr x \<Rightarrow> x = out e \<and> row_changed lib db sn sch (fst e) (new e) v1 v2)"
      using es by (intro step) (auto simp: takes_from_def selected_def)
  next
    show "distinct (map fst es)" using es by (simp add: takes_from_def)
    show "table_became lib db sn sch v (table_of sch ?w) v" by (rule became_start [OF cat inv])
  next
    fix r :: "row_map list res" and v' assume "case r of Inr rows \<Rightarrow> rows = map out es \<and> table_became lib db sn sch v (replaced new es (table_of sch ?w)) v'
      | Inl _ \<Rightarrow> \<exists>n < length es. table_became lib db sn sch v (replaced new (take n es) (table_of sch ?w)) v'"
    then show "statement_done lib db sn sch lmt access new out v r v'" unfolding statement_done_def using es by blast
  qed
  show "runs_to (session_shows s)
    (case access of
       PointLookup key \<Rightarrow> st_bind (read_visible_row_at s db sn sch key) (\<lambda>found. case found of None \<Rightarrow> m | Some row \<Rightarrow> st_collect f [(key, row)])
     | _ \<Rightarrow> st_bind (access_rows lib s db sn sch access) (\<lambda>rows. st_collect f (apply_write_limit lmt ord rows))) v
    (statement_done lib db sn sch lmt access new out v)"
  proof (cases "\<exists>key. access = PointLookup key")
    case True
    then obtain key row where key: "access = PointLookup key" "table_of sch ?w key = Some row" using some by auto
    have "pk_ok sch key" using ok key(1) by (simp add: access_ok_def)
    then have read: "computes (session_shows s) (read_visible_row_at s db sn sch key) v (Inr (Some row)) v"
      using read_row_computes [OF t(1) _ t(2,3)] key(2) by fastforce
    have "takes_from lmt ?M [(key, row)]" using lmt by (auto simp: takes_from_def key selected_point split: option.splits)
    from loop [OF this] show ?thesis unfolding key(1) write_access.case by (intro runs_bind_computes [OF read]) (simp only: option.case)
  next
    case False
    then have scan: "(case access of
       PointLookup key \<Rightarrow> st_bind (read_visible_row_at s db sn sch key) (\<lambda>found. case found of None \<Rightarrow> m | Some row \<Rightarrow> st_collect f [(key, row)])
     | _ \<Rightarrow> st_bind (access_rows lib s db sn sch access) (\<lambda>rows. st_collect f (apply_write_limit lmt ord rows))) =
       st_bind (access_rows lib s db sn sch access) (\<lambda>rows. st_collect f (apply_write_limit lmt ord rows))"
      by (cases access) auto
    obtain rows where rows: "computes (session_shows s) (access_rows lib s db sn sch access) v (Inr rows) v"
      "distinct (map fst rows)" "set rows = ?M"
      by (rule selected_rows [OF cat refl inv ok _ finite_shown(4) [OF g]]) (use False in auto)
    show ?thesis unfolding scan
      by (rule runs_bind_computes [OF rows(1)], rule loop) (use write_limit_takes [OF rows(2)] rows(3) in simp)
  qed
qed

lemma delete_step:
  assumes "table_became lib db sn sch v t v1" "pk_ok sch (fst e)"
  shows "runs_to (session_shows s) (delete_one lib s db sn sch e) v1
    (\<lambda>r v2. case r of Inl _ \<Rightarrow> v2 = v1 | Inr x \<Rightarrow> x = snd e \<and> row_changed lib db sn sch (fst e) None v1 v2)"
  unfolding delete_one_def st_seq_def
  by (rule runs_bind [OF runs_outcome [OF delete_row_outcome [OF _ _ assms(2)]]])
    (use assms(1) in \<open>auto simp: table_became_def intro!: runs_computes [OF computes_return]\<close>)

lemma point_delete:
  "st_seq (delete_row_at lib s db sn sch key) (st_return [row]) = st_collect (delete_one lib s db sn sch) [(key, row)]"
  by (simp add: delete_one_def st_seq_def st_bind_assoc)

lemma became_none: "takes_from lmt {} es \<Longrightarrow> es = []"
  by (simp add: takes_from_def)

lemma statement_done_nothing:
  assumes "catalog_inv lib (sv_store v)" "table_inv db sn sch (index_list lib (sv_store v) (table_id sch)) (sv_visible v)"
    "lmt = Some 0 \<or> selected sch (index_list lib (sv_store v) (table_id sch)) (sv_visible v) access = {}"
  shows "statement_done lib db sn sch lmt access new out v (Inr []) v"
proof -
  have "takes_from lmt (selected sch (index_list lib (sv_store v) (table_id sch)) (sv_visible v) access) []"
    using assms(3) by (auto simp: takes_from_def split: option.split)
  then show ?thesis unfolding statement_done_def using became_start [OF assms(1,2)] by (intro exI [of _ "[]"]) simp
qed

lemma delete_rows_run:
  assumes cat: "catalog_inv lib (sv_store v)" and inv: "table_inv db sn sch (index_list lib (sv_store v) (table_id sch)) (sv_visible v)"
    and ok: "access_ok sch (index_list lib (sv_store v) (table_id sch)) access"
  shows "runs_to (session_shows s) (collect_deleted_rows lib s db sn sch access lmt ord) v
    (statement_done lib db sn sch lmt access (\<lambda>_. None) snd v)"
proof -
  have t: "schema_ok sch" "table_ok sch (sv_visible v)" "no_legacy_rows db sn sch (sv_visible v)" using inv by (simp_all add: table_inv_def)
  have step: "runs_to (session_shows s) (delete_one lib s db sn sch e) v1
      (\<lambda>r v2. case r of Inl _ \<Rightarrow> v2 = v1 | Inr x \<Rightarrow> x = snd e \<and> row_changed lib db sn sch (fst e) None v1 v2)"
    if "table_of sch (sv_visible v) (fst e) = Some (snd e)" "table_became lib db sn sch v t v1" for e v1 t
    using delete_step [OF that(2)] table_of_some [OF t(2) that(1)] by blast
  note none = statement_done_nothing [OF cat inv, of lmt access "\<lambda>_. None" snd]
  consider "lmt = Some 0" | key where "lmt \<noteq> Some 0" "access = PointLookup key" "table_of sch (sv_visible v) key = None"
    | "lmt \<noteq> Some 0" "\<And>key. access = PointLookup key \<Longrightarrow> table_of sch (sv_visible v) key \<noteq> None" by blast
  then show ?thesis
  proof cases
    case 1
    then show ?thesis using none by (simp add: collect_deleted_rows_def runs_computes [OF computes_return])
  next
    case 2
    have "pk_ok sch key" using ok 2(2) by (simp add: access_ok_def)
    from read_row_computes [OF t(1) this t(2,3), unfolded 2(3)] show ?thesis
      unfolding collect_deleted_rows_def if_not_P [OF 2(1)] 2(2) write_access.case
      by (rule runs_bind_computes) (use none in \<open>simp add: selected_point 2 runs_computes [OF computes_return]\<close>)
  next
    case 3
    show ?thesis unfolding collect_deleted_rows_def if_not_P [OF 3(1)] point_delete
      by (rule statement_runs [OF cat inv ok step 3])
  qed
qed

text \<open>A row after the assignments of an UPDATE.\<close>

definition assigned_row :: "text_env \<Rightarrow> default_eval \<Rightarrow> table_schema \<Rightarrow> update_assignment list \<Rightarrow> row_map \<Rightarrow> row_map" where
  "assigned_row env eval sch as row = (case apply_update_assignments env eval sch as row of Inr row' \<Rightarrow> row' | Inl _ \<Rightarrow> row)"

text \<open>What the assignments make of the rows of the table fits the table.\<close>

definition assignments_fit ::
    "text_env \<Rightarrow> default_eval \<Rightarrow> table_schema \<Rightarrow> index_catalog list \<Rightarrow> update_assignment list \<Rightarrow> kv_view \<Rightarrow> bool" where
  "assignments_fit env eval sch xs as w =
     (\<forall>pk row row'. table_of sch w pk = Some row \<longrightarrow> apply_update_assignments env eval sch as row = Inr row' \<longrightarrow>
        row_fits sch row' \<and> (\<forall>x \<in> set xs. index_fits x row'))"

lemma update_step:
  assumes became: "table_became lib db sn sch v t v1" and pk: "pk_ok sch (fst e)" and row: "table_of sch (sv_visible v) (fst e) = Some (snd e)"
    and fit: "assignments_fit env eval sch (index_list lib (sv_store v) (table_id sch)) as (sv_visible v)"
  shows "runs_to (session_shows s) (update_one lib env eval checks s db sn sch as e) v1
    (\<lambda>r v2. case r of Inl _ \<Rightarrow> v2 = v1
      | Inr x \<Rightarrow> x = assigned_row env eval sch as (snd e) \<and>
          row_changed lib db sn sch (fst e) (Some (stored_row sch (assigned_row env eval sch as (snd e)))) v1 v2)"
proof (cases "apply_update_assignments env eval sch as (snd e)")
  case (Inl err)
  then show ?thesis unfolding update_one_def by (intro runs_computes [OF computes_bind_error [OF computes_lift_eq]]) simp_all
next
  case (Inr row')
  then have new: "assigned_row env eval sch as (snd e) = row'" by (simp add: assigned_row_def)
  have fits: "row_fits sch row'" "\<forall>x \<in> set (index_list lib (sv_store v1) (table_id sch)). index_fits x row'"
    using fit row Inr unfolding assignments_fit_def became_index_list [OF became] by blast+
  have cat: "catalog_inv lib (sv_store v1)" "table_inv db sn sch (index_list lib (sv_store v1) (table_id sch)) (sv_visible v1)"
    using became by (simp_all add: table_became_def)
  show ?thesis unfolding update_one_def new st_seq_def write_row_at_def [symmetric]
    by (rule runs_bind_computes [OF computes_lift_eq [OF Inr]], rule runs_bind [OF runs_outcome [OF write_row_outcome [OF cat pk fits]]])
      (auto intro!: runs_computes [OF computes_return])
qed

lemma point_update:
  "st_bind (st_require e m) f = st_bind m (\<lambda>found. case found of None \<Rightarrow> st_raise e | Some row \<Rightarrow> f row)"
  by (rule ext) (auto simp: st_require_def st_bind_def st_raise_def st_return_def split: option.splits sum.splits)

lemma update_rows_run:
  assumes cat: "catalog_inv lib (sv_store v)" and inv: "table_inv db sn sch (index_list lib (sv_store v) (table_id sch)) (sv_visible v)"
    and ok: "access_ok sch (index_list lib (sv_store v) (table_id sch)) access"
    and fit: "assignments_fit env eval sch (index_list lib (sv_store v) (table_id sch)) as (sv_visible v)"
    and some: "lmt = Some 0 \<or> (\<forall>key. access = PointLookup key \<longrightarrow> table_of sch (sv_visible v) key \<noteq> None)"
  shows "runs_to (session_shows s) (collect_updated_rows lib env eval checks s db sn sch as access lmt ord) v
    (statement_done lib db sn sch lmt access (\<lambda>e. Some (stored_row sch (assigned_row env eval sch as (snd e))))
      (\<lambda>e. assigned_row env eval sch as (snd e)) v)"
proof -
  have t: "table_ok sch (sv_visible v)" using inv by (simp_all add: table_inv_def)
  show ?thesis
  proof (cases "lmt = Some 0")
    case True
    then show ?thesis using statement_done_nothing [OF cat inv] by (simp add: collect_updated_rows_def runs_computes [OF computes_return])
  next
    case False
    have one: "st_bind (update_one lib env eval checks s db sn sch as (key, row)) (\<lambda>row. st_return [row]) =
        st_collect (update_one lib env eval checks s db sn sch as) [(key, row)]" for key row by simp
    show ?thesis unfolding collect_updated_rows_def if_not_P [OF False] point_update one
      by (rule statement_runs [OF cat inv ok update_step [OF _ _ _ fit] False]) (use some False table_of_some [OF t] in blast)+
  qed
qed

text \<open>With no RETURNING the same rows are counted.\<close>

lemma update_counts:
  "apply_update_rows lib env eval checks s db sn sch as access lmt ord =
     st_bind (collect_updated_rows lib env eval checks s db sn sch as access lmt ord) (\<lambda>rows. st_return (length rows))"
  by (simp add: apply_update_rows_def collect_updated_rows_def st_count_collect st_bind_assoc split: write_access.split)

lemma delete_counts:
  "apply_delete_rows lib s db sn sch access lmt ord =
     st_bind (collect_deleted_rows lib s db sn sch access lmt ord) (\<lambda>rows. st_return (length rows))"
  by (auto simp: apply_delete_rows_def collect_deleted_rows_def st_count_collect st_bind_assoc st_seq_def fun_eq_iff st_bind_def st_return_def
      split: write_access.split option.splits sum.splits)

section \<open>INSERT\<close>

abbreviation row_pk :: "table_schema \<Rightarrow> row_map \<Rightarrow> column_value" where
  "row_pk sch row \<equiv> or_null (row (primary_key sch))"

definition row_insertable :: "table_schema \<Rightarrow> index_catalog list \<Rightarrow> row_map \<Rightarrow> bool" where
  "row_insertable sch xs row = (pk_ok sch (row_pk sch row) \<and> row_fits sch row \<and> (\<forall>x \<in> set xs. index_fits x row))"

lemma null_no_shape: "\<not> has_shape dt VNull"
  by (cases dt) (simp_all add: mysql_int_has_type_def split: my_sql_int_kind.split)

lemma pk_not_null: "pk_ok sch pk \<Longrightarrow> \<not> is_null pk"
  using null_no_shape by (auto simp: pk_ok_def is_null_def)

text \<open>The counts after one more row.\<close>

definition row_counted :: "bool \<Rightarrow> row_map \<Rightarrow> insert_state \<Rightarrow> insert_state" where
  "row_counted returning row st =
     st\<lparr>ins_inserted := ins_inserted st + 1, ins_affected := ins_affected st + 1, ins_returned := ins_returned st @ (if returning then [row] else [])\<rparr>"

lemma insert_write_runs:
  assumes "mysql_auto_increment_column sch = None" "catalog_inv lib (sv_store v)"
    "table_inv db sn sch (index_list lib (sv_store v) (table_id sch)) (sv_visible v)"
    "pk_ok sch pk" "row_fits sch row" "\<forall>x \<in> set (index_list lib (sv_store v) (table_id sch)). index_fits x row"
  shows "runs_to (session_shows s) (insert_write lib checks s db sn sch returning pk row (add_affected 1 st)) v
    (\<lambda>r v'. case r of Inl _ \<Rightarrow> v' = v
      | Inr st' \<Rightarrow> st' = row_counted returning row st \<and> row_admitted lib checks sch pk row v \<and>
          row_changed lib db sn sch pk (Some (stored_row sch row)) v v')"
  unfolding insert_write_def st_seq_def
  by (rule runs_bind [OF runs_outcome [OF write_row_outcome [OF assms(2-)]]])
    (auto simp: advance_auto_increment_from_row_def assms(1) row_counted_def add_affected_def
      intro!: runs_computes [OF computes_return] split: option.split)

lemma insert_row_step:
  assumes "has_user_primary_key sch" "pk_ok sch (row_pk sch row)" "schema_ok sch" "table_ok sch (sv_visible v)" "no_legacy_rows db sn sch (sv_visible v)"
  shows "table_of sch (sv_visible v) (row_pk sch row) \<noteq> None \<Longrightarrow>
      computes (session_shows s) (insert_row lib env eval checks s db sn sch None returning row st) v (Inl (duplicate_pkey sch)) v"
    and "table_of sch (sv_visible v) (row_pk sch row) = None \<Longrightarrow>
      runs_to (session_shows s) (insert_write lib checks s db sn sch returning (row_pk sch row) row (add_affected 1 st)) v Q \<Longrightarrow>
      runs_to (session_shows s) (insert_row lib env eval checks s db sn sch None returning row st) v Q"
proof -
  note read = read_row_computes [OF assms(3,2,4,5), of s]
  have body: "insert_row lib env eval checks s db sn sch None returning row st =
      st_bind (read_visible_row_at s db sn sch (row_pk sch row)) (\<lambda>found. if found \<noteq> None then st_raise (duplicate_pkey sch)
        else insert_write lib checks s db sn sch returning (row_pk sch row) row (add_affected 1 st))"
    using assms(1) pk_not_null [OF assms(2)] by (simp add: insert_row_def st_bind_assoc)
  show "computes (session_shows s) (insert_row lib env eval checks s db sn sch None returning row st) v (Inl (duplicate_pkey sch)) v"
    if "table_of sch (sv_visible v) (row_pk sch row) \<noteq> None"
    unfolding body by (rule computes_bind [OF read]) (use that in \<open>simp add: computes_raise\<close>)
  show "runs_to (session_shows s) (insert_row lib env eval checks s db sn sch None returning row st) v Q"
    if "table_of sch (sv_visible v) (row_pk sch row) = None"
      "runs_to (session_shows s) (insert_write lib checks s db sn sch returning (row_pk sch row) row (add_affected 1 st)) v Q"
    unfolding body by (rule runs_bind_computes [OF read]) (use that in simp)
qed

lemma insert_row_runs:
  assumes key: "has_user_primary_key sch" "mysql_auto_increment_column sch = None" and cat: "catalog_inv lib (sv_store v)"
    and inv: "table_inv db sn sch (index_list lib (sv_store v) (table_id sch)) (sv_visible v)"
    and row: "row_insertable sch (index_list lib (sv_store v) (table_id sch)) row"
  shows "runs_to (session_shows s) (insert_row lib env eval checks s db sn sch None returning row st) v
    (\<lambda>r v'. case r of Inl _ \<Rightarrow> v' = v
      | Inr st' \<Rightarrow> st' = row_counted returning row st \<and> table_of sch (sv_visible v) (row_pk sch row) = None \<and>
          row_changed lib db sn sch (row_pk sch row) (Some (stored_row sch row)) v v')"
proof -
  have t: "schema_ok sch" "table_ok sch (sv_visible v)" "no_legacy_rows db sn sch (sv_visible v)" using inv by (simp_all add: table_inv_def)
  have pk: "pk_ok sch (row_pk sch row)" "row_fits sch row" "\<forall>x \<in> set (index_list lib (sv_store v) (table_id sch)). index_fits x row"
    using row by (simp_all add: row_insertable_def)
  note step = insert_row_step [where sch = sch and row = row, OF key(1) pk(1) t]
  show ?thesis
  proof (cases "table_of sch (sv_visible v) (row_pk sch row)")
    case None
    show ?thesis
      by (rule step(2) [OF None], rule runs_weaken [OF insert_write_runs [OF key(2) cat inv pk]]) (use None in \<open>auto split: sum.splits\<close>)
  next
    case (Some old)
    then show ?thesis by (intro runs_computes [OF step(1)]) simp_all
  qed
qed

text \<open>The rows inserted by the first steps of the loop.\<close>

definition with_rows :: "table_schema \<Rightarrow> row_map list \<Rightarrow> (column_value \<rightharpoonup> row_map) \<Rightarrow> (column_value \<rightharpoonup> row_map)" where
  "with_rows sch rows t = t ++ map_of (map (\<lambda>row. (row_pk sch row, stored_row sch row)) rows)"

definition new_keys :: "table_schema \<Rightarrow> row_map list \<Rightarrow> (column_value \<rightharpoonup> row_map) \<Rightarrow> bool" where
  "new_keys sch rows t = (distinct (map (row_pk sch) rows) \<and> (\<forall>row \<in> set rows. t (row_pk sch row) = None))"

lemma with_rows_Cons:
  assumes "new_keys sch rows (t(row_pk sch row \<mapsto> stored_row sch row))"
  shows "with_rows sch (row # rows) t = with_rows sch rows (t(row_pk sch row \<mapsto> stored_row sch row))"
proof -
  have "row_pk sch row \<notin> row_pk sch ` set rows" using assms by (auto simp: new_keys_def)
  then have "map_of (map (\<lambda>row. (row_pk sch row, stored_row sch row)) rows) (row_pk sch row) = None"
    by (simp add: map_of_eq_None_iff image_image)
  then show ?thesis by (auto simp: with_rows_def fun_eq_iff map_add_def split: option.splits)
qed

lemma insert_loop_runs:
  assumes key: "has_user_primary_key sch" "mysql_auto_increment_column sch = None"
    and rows: "\<forall>row \<in> set rows. row_insertable sch (index_list lib (sv_store v) (table_id sch)) row"
    and "table_became lib db sn sch v t v1"
  shows "runs_to (session_shows s) (insert_loop lib env eval checks s db sn sch None returning rows st) v1
    (\<lambda>r v2. \<exists>n \<le> length rows. new_keys sch (take n rows) t \<and> table_became lib db sn sch v (with_rows sch (take n rows) t) v2 \<and>
      (case r of Inl _ \<Rightarrow> n < length rows | Inr st' \<Rightarrow> n = length rows \<and> st' = fold (row_counted returning) rows st))"
  using rows assms(4)
proof (induction rows arbitrary: t v1 st)
  case Nil
  then show ?case by (auto simp: with_rows_def new_keys_def intro!: runs_computes [OF computes_return])
next
  case (Cons row rows)
  let ?t = "t(row_pk sch row \<mapsto> stored_row sch row)"
  let ?Q = "\<lambda>r v2. \<exists>n \<le> length (row # rows). new_keys sch (take n (row # rows)) t \<and>
      table_became lib db sn sch v (with_rows sch (take n (row # rows)) t) v2 \<and>
      (case r of Inl _ \<Rightarrow> n < length (row # rows) | Inr st' \<Rightarrow> n = length (row # rows) \<and> st' = fold (row_counted returning) (row # rows) st)"
  have cat: "catalog_inv lib (sv_store v1)" "table_inv db sn sch (index_list lib (sv_store v1) (table_id sch)) (sv_visible v1)"
    "table_of sch (sv_visible v1) = t" using Cons.prems(2) by (simp_all add: table_became_def)
  have row: "row_insertable sch (index_list lib (sv_store v1) (table_id sch)) row"
    using Cons.prems(1) by (simp add: became_index_list [OF Cons.prems(2)])
  show ?case unfolding insert_loop.simps
  proof (rule runs_bind [OF insert_row_runs [OF key cat(1,2) row]], goal_cases)
    case (1 e v2)
    then have "new_keys sch (take 0 (row # rows)) t \<and> table_became lib db sn sch v (with_rows sch (take 0 (row # rows)) t) v2"
      using Cons.prems(2) by (simp add: new_keys_def with_rows_def)
    then show ?case by (intro exI [of _ 0]) simp
  next
    case (2 st' v2)
    then have st: "st' = row_counted returning row st" "t (row_pk sch row) = None" "row_changed lib db sn sch (row_pk sch row) (Some (stored_row sch row)) v1 v2"
      using cat(3) by simp_all
    have "\<forall>r \<in> set rows. row_insertable sch (index_list lib (sv_store v) (table_id sch)) r" using Cons.prems(1) by simp
    from Cons.IH [OF this became_row [OF Cons.prems(2) st(3)], of st'] show ?case
    proof (rule runs_weaken)
      fix r v3 assume "\<exists>n \<le> length rows. new_keys sch (take n rows) ?t \<and> table_became lib db sn sch v (with_rows sch (take n rows) ?t) v3 \<and>
        (case r of Inl _ \<Rightarrow> n < length rows | Inr st'' \<Rightarrow> n = length rows \<and> st'' = fold (row_counted returning) rows st')"
      then obtain n where n: "n \<le> length rows" "new_keys sch (take n rows) ?t" "table_became lib db sn sch v (with_rows sch (take n rows) ?t) v3"
        "case r of Inl _ \<Rightarrow> n < length rows | Inr st'' \<Rightarrow> n = length rows \<and> st'' = fold (row_counted returning) rows st'" by blast
      have "new_keys sch (take (Suc n) (row # rows)) t" using n(2) st(2) by (auto simp: new_keys_def split: if_splits)
      moreover have "table_became lib db sn sch v (with_rows sch (take (Suc n) (row # rows)) t) v3"
        using n(3) with_rows_Cons [OF n(2)] by simp
      ultimately show "?Q r v3" using n(1,4) st(1) by (intro exI [of _ "Suc n"]) (auto split: sum.splits)
    qed
  qed
qed

text \<open>Two rows with one key in a statement: the second fails, and the first stays.\<close>

lemma insert_twice_fails:
  assumes key: "has_user_primary_key sch" "mysql_auto_increment_column sch = None" and cat: "catalog_inv lib (sv_store v)"
    and inv: "table_inv db sn sch (index_list lib (sv_store v) (table_id sch)) (sv_visible v)"
    and row: "row_insertable sch (index_list lib (sv_store v) (table_id sch)) row" and same: "row_pk sch row' = row_pk sch row"
    and g: "session_shows s g v" and first: "insert_row lib env eval checks s db sn sch None returning row insert_start g = Some (Inr st, g1)"
  shows "\<exists>g2 v2. insert_rows lib env eval checks s db sn sch None returning (row # row' # rows) g = Some (Inl (duplicate_pkey sch), g2) \<and>
    session_shows s g2 v2 \<and> table_became lib db sn sch v ((table_of sch (sv_visible v))(row_pk sch row \<mapsto> stored_row sch row)) v2"
proof -
  obtain r g' v1 where "insert_row lib env eval checks s db sn sch None returning row insert_start g = Some (r, g')" "session_shows s g' v1"
    "case r of Inl _ \<Rightarrow> v1 = v | Inr st' \<Rightarrow> st' = row_counted returning row insert_start \<and> table_of sch (sv_visible v) (row_pk sch row) = None \<and>
       row_changed lib db sn sch (row_pk sch row) (Some (stored_row sch row)) v v1"
    by (rule runs_cases [OF insert_row_runs [OF key cat inv row] g])
  with first have v1: "session_shows s g1 v1" "row_changed lib db sn sch (row_pk sch row) (Some (stored_row sch row)) v v1" by simp_all
  note became = became_row [OF became_start [OF cat inv] v1(2)]
  have "computes (session_shows s) (insert_row lib env eval checks s db sn sch None returning row' st) v1 (Inl (duplicate_pkey sch)) v1"
    by (rule insert_row_step(1) [OF key(1)])
      (use became row in \<open>simp_all add: same table_became_def table_inv_def row_insertable_def\<close>)
  then obtain g2 where "insert_row lib env eval checks s db sn sch None returning row' st g1 = Some (Inl (duplicate_pkey sch), g2)" "session_shows s g2 v1"
    using v1(1) by (auto simp: computes_def)
  then show ?thesis using first became by (auto simp: insert_rows_def st_bind_def)
qed

text \<open>\<open>ON CONFLICT (..) DO NOTHING\<close> looks for the primary key, whatever the columns named.\<close>

lemma do_nothing_resolved:
  assumes "cols \<noteq> []" "list_all (\<lambda>c. find_column sch c \<noteq> None) cols" "target_is_keyed sch cols DoNothing"
  shows "resolve_insert_on_conflict lib sch (Some (OnConflict (Some (TargetColumns cols)) AstDoNothing)) False False = st_return (Some DoNothing)"
  using assms by (auto simp: resolve_insert_on_conflict_def conflict_target_columns_def st_bind_def st_lift_def st_return_def fun_eq_iff)

lemma do_nothing_runs:
  assumes key: "has_user_primary_key sch" and cat: "catalog_inv lib (sv_store v)"
    and inv: "table_inv db sn sch (index_list lib (sv_store v) (table_id sch)) (sv_visible v)" and read: "\<not> sv_consistent v"
    and row: "row_insertable sch (index_list lib (sv_store v) (table_id sch)) row" and new: "table_of sch (sv_visible v) (row_pk sch row) = None"
    and x: "x \<in> set (index_list lib (sv_store v) (table_id sch))" "\<not> sole_value sch (sv_visible v) (row_pk sch row) row x"
  shows "runs_to (session_shows s) (insert_row lib env eval checks s db sn sch (Some DoNothing) returning row st) v (\<lambda>r v'. (\<exists>e. r = Inl e) \<and> v' = v)"
proof -
  have pk: "pk_ok sch (row_pk sch row)" "row_fits sch row" "\<forall>x \<in> set (index_list lib (sv_store v) (table_id sch)). index_fits x row"
    using row by (simp_all add: row_insertable_def)
  note notnull = pk_not_null [OF pk(1)]
  then have present: "row (primary_key sch) = Some (row_pk sch row)" by (cases "row (primary_key sch)") (simp_all add: or_null_def is_null_def)
  have "conflict_values row [primary_key sch] = Inr [row_pk sch row]"
    by (simp add: conflict_values_def, subst (1) present) (simp add: ok_or_def)
  then have find: "find_existing_row_for_conflict lib s db sn sch DoNothing row =
      st_bind (read_visible_row_at s db sn sch (row_pk sch row)) (\<lambda>found. st_return (map_option (Pair (row_pk sch row)) found))"
    using notnull by (simp add: find_existing_row_for_conflict_def find_existing_row_for_conflict_columns_def st_bind_def [of "st_lift _"] st_lift_def fun_eq_iff)
  have rejected: "runs_to (session_shows s) (insert_write lib checks s db sn sch returning (row_pk sch row) row (add_affected 1 st)) v (\<lambda>r v'. (\<exists>e. r = Inl e) \<and> v' = v)"
    unfolding insert_write_def st_seq_def
    by (rule runs_bind [OF runs_outcome [OF write_row_outcome [OF cat inv pk]]]) (use x read in \<open>auto simp: row_admitted_def\<close>)
  have t: "schema_ok sch" "table_ok sch (sv_visible v)" "no_legacy_rows db sn sch (sv_visible v)" using inv by (simp_all add: table_inv_def)
  have body: "insert_row lib env eval checks s db sn sch (Some DoNothing) returning row st =
      st_bind (read_visible_row_at s db sn sch (row_pk sch row)) (\<lambda>found. case found of Some _ \<Rightarrow> st_return st
        | None \<Rightarrow> insert_write lib checks s db sn sch returning (row_pk sch row) row (add_affected 1 st))"
    using key notnull by (simp add: insert_row_def find st_bind_assoc) (rule arg_cong [of _ _ "st_bind _"], auto simp: fun_eq_iff split: option.split)
  show ?thesis unfolding body by (rule runs_bind_computes [OF read_row_computes [OF t(1) pk(1) t(2,3)]]) (use new rejected in simp)
qed

text \<open>An assignment to the column of the primary key.\<close>

lemma on_update_keeps: "on_update_loop eval assigned cs row = Inr row' \<Longrightarrow> c \<in> set assigned \<Longrightarrow> row' c = row c"
  by (induction eval assigned cs row rule: on_update_loop.induct)
    (auto simp: list_ex_iff eq_ignore_ascii_case_def res_bind_eq_Inr split: option.splits if_splits)

lemma assigned_value:
  assumes "find_column sch c = Some target" "expr sch row None = Inr x" "coerce_column_value env x (col_type target) = Inr val"
    "apply_update_assignments env eval sch [AssignExpr c expr] row = Inr row'"
  shows "row' c = Some val"
  using assms by (auto simp: apply_update_assignments_def apply_on_update_columns_def res_bind_eq_Inr ok_or_def map_add_def
      dest: on_update_keeps split: if_splits)

lemma stored_column: "schema_ok sch \<Longrightarrow> find_column sch c = Some target \<Longrightarrow> row c = Some val \<Longrightarrow> stored_row sch row c = Some val"
  using stored_row_at [of sch target row] by (auto simp: find_column_def find_Some_iff row_value_def)

lemma point_update_error:
  assumes "schema_ok sch" "pk_ok sch key" "table_ok sch (sv_visible v)" "no_legacy_rows db sn sch (sv_visible v)" "lmt \<noteq> Some 0"
    and "case table_of sch (sv_visible v) key of None \<Rightarrow> e = no_row_for_update | Some row \<Rightarrow> apply_update_assignments env eval sch as row = Inl e"
  shows "computes (session_shows s) (collect_updated_rows lib env eval checks s db sn sch as (PointLookup key) lmt ord) v (Inl e) v"
  unfolding collect_updated_rows_def if_not_P [OF assms(5)] write_access.case point_update
  by (rule computes_bind [OF read_row_computes [OF assms(1-4)]])
    (use assms(6) in \<open>auto simp: update_one_def split: option.splits intro!: computes_raise computes_bind_error [OF computes_bind_error [OF computes_lift_eq]]\<close>)

lemma point_delete_missing:
  assumes "schema_ok sch" "pk_ok sch key" "table_ok sch (sv_visible v)" "no_legacy_rows db sn sch (sv_visible v)" "table_of sch (sv_visible v) key = None"
  shows "computes (session_shows s) (apply_delete_rows lib s db sn sch (PointLookup key) lmt ord) v (Inr 0) v"
  unfolding apply_delete_rows_def write_access.case
  by (auto intro!: computes_return computes_bind [OF read_row_computes [OF assms(1-4)]] simp: assms(5))

text \<open>The statements that count, in the terms of the properties.\<close>

lemma counted_run:
  assumes "runs_to R m v (statement_done lib db sn sch lmt access new out v)"
  shows "runs_to R (st_bind m (\<lambda>rows. st_return (length rows))) v
    (\<lambda>r v'. \<exists>es. takes_from lmt (selected sch (index_list lib (sv_store v) (table_id sch)) (sv_visible v) access) es \<and>
      (case r of
         Inr n \<Rightarrow> n = length es \<and> table_became lib db sn sch v (replaced new es (table_of sch (sv_visible v))) v'
       | Inl _ \<Rightarrow> \<exists>n < length es. table_became lib db sn sch v (replaced new (take n es) (table_of sch (sv_visible v))) v'))"
  by (rule runs_bind [OF assms]) (auto simp: statement_done_def intro!: runs_computes [OF computes_return])

lemma replaced_none: "replaced (\<lambda>_. None) es t = t |` (- fst ` set es)"
proof
  fix x
  show "replaced (\<lambda>_. None) es t x = (t |` (- fst ` set es)) x"
    using map_of_eq_None_iff [of es x] by (cases "map_of es x") (simp_all add: replaced_def restrict_map_def)
qed

lemma rows_counted:
  "ins_inserted (fold (row_counted returning) rows st) = ins_inserted st + length rows"
  "ins_affected (fold (row_counted returning) rows st) = ins_affected st + length rows"
  "ins_returned (fold (row_counted returning) rows st) = ins_returned st @ (if returning then rows else [])"
  by (induction rows arbitrary: st) (simp_all add: row_counted_def)

end
