(* ===== verification/Row_Examples.thy ===== *)
theory Row_Examples
  imports Row_Commands Catalog_Examples
begin

text \<open>A server with the example table, a unique index on its name column, and no rows yet.\<close>

definition ex_unique_indexed :: hash_map where
  "ex_unique_indexed =
     (case create_index ex_lib mem_ops DEFAULT_DATABASE_NAME DEFAULT_SCHEMA_NAME ''t'' ''t_name'' [''name''] True False ex_tables of
        Some (_, s) \<Rightarrow> s | None \<Rightarrow> [])"

definition ex_rows_store :: hash_map where
  "ex_rows_store = filter (\<lambda>e. area (fst e) = CATALOG_AREA) ex_unique_indexed"

definition ex_gateway :: gateway where
  "ex_gateway =
     \<lparr>gw_mode = Postgres, gw_store = ex_rows_store, active_transactions = Map.empty, active_transaction_snapshots = Map.empty,
      active_transaction_isolations = Map.empty, active_transaction_read_only = {}, active_mysql_current_reads = {},
      gw_locks = lock_init, mvcc_clock = 0, client_isolation = Map.empty, client_autocommit = Map.empty,
      client_status = (\<lambda>_. StatusIdle)\<rparr>"

definition ex_view :: session_view where
  "ex_view = \<lparr>sv_store = mem_get ex_rows_store, sv_txn = None, sv_repeatable = False, sv_consistent = False\<rparr>"

text \<open>The table under the identifier the catalog gave it, its names declared unique.\<close>

definition ex_table :: "index_catalog \<Rightarrow> table_schema" where
  "ex_table x = ex_schema\<lparr>table_id := ix_table_id x,
     unique_constraints := [\<lparr>unique_name = ''t_name_key'', unique_columns = [''name''], unique_primary_key = False\<rparr>]\<rparr>"

text \<open>The catalog has the table under that identifier, as it was created.\<close>

definition ex_catalogued :: "index_catalog \<Rightarrow> kv_view \<Rightarrow> bool" where
  "ex_catalogued x w =
     (in_schema ex_lib w DEFAULT_DATABASE_NAME DEFAULT_SCHEMA_NAME default_database default_schema \<and>
      (\<exists>t. tables.holds ex_lib w (dc_id default_database, sc_id default_schema, ''t'') t \<and> tc_schema t = ex_schema\<lparr>table_id := ix_table_id x\<rparr>))"

lemma empty_table_list:
  assumes "schema_ok sch" "table_ok sch w" "finite (dom w)" "table_of sch w = Map.empty"
  shows "table_list sch w = []"
proof -
  have "(pk, row) \<notin> set (table_list sch w)" for pk row using rows_in_mem [OF assms(1-3), of pk row "\<lambda>_. True"] assms(4) by simp
  then show ?thesis by (cases "table_list sch w") (metis list.set_intros(1) prod.collapse)+
qed

lemma mem_get_filter: "store_inv h \<Longrightarrow> mem_get (filter (\<lambda>e. P (fst e)) h) k = (if P k then mem_get h k else None)"
  unfolding mem_get_def by (induction h) (auto simp: store_inv_def map_of_eq_None_iff)

lemma distinct_singleton_list: "set xs = {x} \<Longrightarrow> distinct xs \<Longrightarrow> xs = [x]"
  by (cases xs; cases "tl xs") auto

lemma ex_rows_store_facts:
  obtains x where "store_inv ex_rows_store" "catalog_inv ex_lib (mem_get ex_rows_store)"
    "index_list ex_lib (mem_get ex_rows_store) (ix_table_id x) = [x]" "ix_name x = ''t_name''" "ix_column_names x = [''name'']" "ix_unique x"
    "\<And>k. area k \<noteq> CATALOG_AREA \<Longrightarrow> mem_get ex_rows_store k = None" "ex_catalogued x (mem_get ex_rows_store)"
proof -
  obtain t where t: "catalog_state ex_lib ex_tables"
    "in_schema ex_lib (mem_get ex_tables) DEFAULT_DATABASE_NAME DEFAULT_SCHEMA_NAME default_database default_schema"
    "tables.holds ex_lib (mem_get ex_tables) (dc_id default_database, sc_id default_schema, ''t'') t"
    "\<not> exhausted (mem_get ex_tables) NEXT_INDEX_ID_KEY" "\<And>k x. \<not> indexes.holds ex_lib (mem_get ex_tables) k x"
    "tc_schema t = ex_schema\<lparr>table_id := table_id (tc_schema t)\<rparr>"
    by (rule ex_tables_facts) blast
  then have inv: "store_inv ex_tables" "catalog_inv ex_lib (mem_get ex_tables)" by (simp_all add: catalog_state_def)
  obtain x w' where run: "computes ref_holds (create_index ex_lib mem_ops DEFAULT_DATABASE_NAME DEFAULT_SCHEMA_NAME ''t'' ''t_name'' [''name''] True False)
        (mem_get ex_tables) (Inr (Some x)) w'" and facts: "catalog_inv ex_lib w'"
      "indexes.holds ex_lib w' = (indexes.holds ex_lib (mem_get ex_tables))((dc_id default_database, sc_id default_schema, ''t_name'') := (\<lambda>y. y = x))"
      "ix_name x = ''t_name''" "ix_column_names x = [''name'']" "ix_unique x = True"
      "ix_table_id x = table_id (tc_schema t)" "tables.holds ex_lib w' = tables.holds ex_lib (mem_get ex_tables)"
      "in_schema ex_lib w' DEFAULT_DATABASE_NAME DEFAULT_SCHEMA_NAME default_database default_schema"
    using mem_store.create_index_new [OF ex_lib_reads_back inv(2) t(2,3,5,4), of "''t_name''" "''name''" "[]" True False]
    by (elim exE conjE) (rule that)
  from mem_runs_ex [OF run inv(1)] have st: "store_inv ex_unique_indexed" "mem_get ex_unique_indexed = w'" by (auto simp: ex_unique_indexed_def)
  let ?w = "mem_get ex_rows_store"
  have w: "?w k = (if area k = CATALOG_AREA then w' k else None)" for k
    using mem_get_filter [OF st(1), of "\<lambda>k. area k = CATALOG_AREA" k] st(2) by (simp add: ex_rows_store_def)
  have s: "store_inv ex_rows_store" using st(1) unfolding ex_rows_store_def store_inv_def by (rule distinct_map_filter)
  have same: "same_catalog w' ?w" unfolding same_catalog_def w area_catalog by simp
  note frame = catalog_frame [OF same]
  have cat: "catalog_inv ex_lib ?w" by (rule frame(1) [OF facts(1)])
  have fin: "finite (dom ?w)" by (rule mem.finite_view) (rule s)
  have holds: "indexes.holds ex_lib ?w k y = (k = (dc_id default_database, sc_id default_schema, ''t_name'') \<and> y = x)" for k y
    unfolding frame(5) facts(2) using t(5) by auto
  moreover have "(ix_database_id x, ix_schema_id x, ix_name x) = (dc_id default_database, sc_id default_schema, ''t_name'')"
    using holds [of "(dc_id default_database, sc_id default_schema, ''t_name'')" x] by (auto simp: indexes.holds_def)
  ultimately have "table_indexes ex_lib ?w (ix_table_id x) = {x}" by (auto simp: table_indexes_def)
  then have "index_list ex_lib ?w (ix_table_id x) = [x]"
    using mem_store.index_list_computes(2,3) [OF cat fin, of "ix_table_id x"] by (intro distinct_singleton_list) simp_all
  moreover have "ex_catalogued x ?w"
    unfolding ex_catalogued_def frame(3,4) facts(6,7) by (intro conjI exI [of _ t] facts(8) t(3,6))
  ultimately show ?thesis by (intro that [of x]) (simp_all add: s cat facts(3-5) w)
qed

lemma ex_table_fits:
  shows "schema_ok (ex_table x)" "pk_ok (ex_table x) (VInt64 7)" "row_fits (ex_table x) ex_row"
    and "ix_column_names x = [''name''] \<Longrightarrow> index_fits x ex_row"
proof -
  have cols: "columns (ex_table x) = columns ex_schema" "primary_key (ex_table x) = primary_key ex_schema"
      "column_names (ex_table x) = column_names ex_schema" "pk_data_type (ex_table x) = pk_data_type ex_schema"
    by (simp_all add: ex_table_def column_names_def pk_data_type_def find_column_def)
  have pk: "pk_data_type ex_schema = TInt64" by (simp add: pk_data_type_def ex_defs find_column_def)
  show "schema_ok (ex_table x)" using ex_names(1) by (simp add: schema_ok_def cols pk segment_type_def)
  show "pk_ok (ex_table x) (VInt64 7)" by (simp add: pk_ok_def cols pk)
  show "row_fits (ex_table x) ex_row"
    using ex_fits ex_typed unfolding row_fits_def record_fits_def row_typed_def cols by (simp add: ex_row_def column_names_def ex_defs)
  show "index_fits x ex_row" if "ix_column_names x = [''name'']"
    using that by (simp add: index_fits_def indexed_value_def indexed_value_for_columns_def ex_row_def or_null_def ascii_str_ok)
qed

lemma ex_gateway_shows: "session_shows None ex_gateway ex_view" if "store_inv ex_rows_store"
  using that by (simp add: session_shows_def ex_gateway_def ex_view_def session_txn_def is_repeatable_read_transaction_def use_consistent_read_def)

text \<open>An empty table has no entries.\<close>

lemma empty_table_inv:
  assumes "schema_ok sch" "ids_valid xs" "names_valid xs" "\<And>k. area k \<noteq> CATALOG_AREA \<Longrightarrow> w k = None"
  shows "table_inv db sn sch xs w" "table_of sch w = Map.empty"
proof -
  have none: "w k = None" if "area k \<in> {[VERSION, ROW_PREFIX], [VERSION, INDEX_PREFIX], NAMED_INDEX_AREA, TABLE_AREA}" for k
    using assms(4) [of k] that by auto
  show t: "table_of sch w = Map.empty" by (simp add: fun_eq_iff table_of_def none area_simps)
  have "table_ok sch w" unfolding table_ok_def using none area_prefixes(1) by fastforce
  moreover have "no_legacy_rows db sn sch w" unfolding no_legacy_rows_def using none area_names(4) by blast
  moreover have "indexes_exact db sn sch xs w"
    unfolding indexes_exact_def entries_exact_def t using none own_areas by fastforce
  ultimately show "table_inv db sn sch xs w" using assms(1-3) t by (simp add: table_inv_def)
qed

lemma ex_rows_facts:
  obtains x where "store_inv ex_rows_store" "catalog_inv ex_lib (mem_get ex_rows_store)"
    "index_list ex_lib (mem_get ex_rows_store) (table_id (ex_table x)) = [x]" "ix_unique x"
    "table_inv DEFAULT_DATABASE_NAME DEFAULT_SCHEMA_NAME (ex_table x) [x] (mem_get ex_rows_store)"
    "table_of (ex_table x) (mem_get ex_rows_store) = Map.empty"
    "pk_ok (ex_table x) (VInt64 7)" "row_fits (ex_table x) ex_row" "index_fits x ex_row" "ix_column_names x = [''name'']"
    "ex_catalogued x (mem_get ex_rows_store)"
proof -
  obtain x where x: "store_inv ex_rows_store" "catalog_inv ex_lib (mem_get ex_rows_store)"
    "index_list ex_lib (mem_get ex_rows_store) (ix_table_id x) = [x]" "ix_name x = ''t_name''" "ix_column_names x = [''name'']" "ix_unique x"
    "\<And>k. area k \<noteq> CATALOG_AREA \<Longrightarrow> mem_get ex_rows_store k = None" "ex_catalogued x (mem_get ex_rows_store)"
    by (rule ex_rows_store_facts) blast
  have valid: "ids_valid [x]" "names_valid [x]" using x(4) by (simp_all add: ids_valid_def names_valid_def)
  show ?thesis
    by (rule that [of x]) (use x ex_table_fits empty_table_inv [OF ex_table_fits(1) valid x(7)] in \<open>simp_all add: ex_table_def\<close>)
qed

lemma ex_view_facts:
  obtains x where "session_shows None ex_gateway ex_view" "catalog_inv ex_lib (sv_store ex_view)"
    "table_inv DEFAULT_DATABASE_NAME DEFAULT_SCHEMA_NAME (ex_table x) (index_list ex_lib (sv_store ex_view) (table_id (ex_table x))) (sv_visible ex_view)"
    "pk_ok (ex_table x) (VInt64 7)" "row_fits (ex_table x) ex_row"
    "\<forall>y \<in> set (index_list ex_lib (sv_store ex_view) (table_id (ex_table x))). index_fits y ex_row"
    "index_list ex_lib (sv_store ex_view) (table_id (ex_table x)) = [x]" "ix_unique x" "table_of (ex_table x) (sv_visible ex_view) = Map.empty"
proof -
  obtain x where x: "store_inv ex_rows_store" "catalog_inv ex_lib (mem_get ex_rows_store)"
    "index_list ex_lib (mem_get ex_rows_store) (table_id (ex_table x)) = [x]" "ix_unique x"
    "table_inv DEFAULT_DATABASE_NAME DEFAULT_SCHEMA_NAME (ex_table x) [x] (mem_get ex_rows_store)"
    "table_of (ex_table x) (mem_get ex_rows_store) = Map.empty"
    "pk_ok (ex_table x) (VInt64 7)" "row_fits (ex_table x) ex_row" "index_fits x ex_row"
    by (rule ex_rows_facts)
  have seen: "sv_store ex_view = mem_get ex_rows_store" "sv_visible ex_view = mem_get ex_rows_store"
    by (simp_all add: ex_view_def sv_visible_def sv_read_def)
  show ?thesis by (rule that [OF ex_gateway_shows [OF x(1)]]) (use x seen in simp_all)
qed

definition ex_checks :: check_parser where
  "ex_checks e = Inr (\<lambda>_ _. True)"

lemma ex_admitted: "validate_row_constraints ex_checks (ex_table x) ex_row = Inr ()"
  by (simp add: validate_row_constraints_def ex_table_def ex_defs or_null_def is_null_def)

lemma ex_index_value: "ix_column_names x = [''name''] \<Longrightarrow> index_value_ok (ex_table x) x (VText ''ab'')"
  by (simp add: index_value_ok_def index_typed_def column_type_def ex_table_def ex_defs has_type_def ascii_str_ok)

text \<open>The server once the example row is written.\<close>

lemma ex_written:
  obtains x g v where "write_row_at ex_lib ex_checks None DEFAULT_DATABASE_NAME DEFAULT_SCHEMA_NAME (ex_table x) (VInt64 7) ex_row ex_gateway = Some (Inr (), g)"
    "session_shows None g v" "catalog_inv ex_lib (sv_store v)" "index_list ex_lib (sv_store v) (table_id (ex_table x)) = [x]" "ix_unique x"
    "table_inv DEFAULT_DATABASE_NAME DEFAULT_SCHEMA_NAME (ex_table x) [x] (sv_visible v)"
    "table_of (ex_table x) (sv_visible v) = [VInt64 7 \<mapsto> stored_row (ex_table x) ex_row]" "sv_visible v = mem_get (gw_store g)"
    "indexed_value ex_row x = VText ''ab''" "index_value_ok (ex_table x) x (VText ''ab'')" "pk_ok (ex_table x) (VInt64 7)" "row_fits (ex_table x) ex_row"
    "ix_column_names x = [''name'']"
    "computes (session_shows None) (write_row_at ex_lib ex_checks None DEFAULT_DATABASE_NAME DEFAULT_SCHEMA_NAME (ex_table x) (VInt64 7) ex_row) ex_view (Inr ()) v"
    "session_shows None ex_gateway ex_view" "catalog_inv ex_lib (sv_store ex_view)" "index_list ex_lib (sv_store ex_view) (table_id (ex_table x)) = [x]"
    "table_inv DEFAULT_DATABASE_NAME DEFAULT_SCHEMA_NAME (ex_table x) [x] (sv_visible ex_view)" "table_of (ex_table x) (sv_visible ex_view) = Map.empty"
    "ex_catalogued x (sv_store v)"
proof -
  obtain x where x: "store_inv ex_rows_store" "catalog_inv ex_lib (mem_get ex_rows_store)"
    "index_list ex_lib (mem_get ex_rows_store) (table_id (ex_table x)) = [x]" "ix_unique x"
    "table_inv DEFAULT_DATABASE_NAME DEFAULT_SCHEMA_NAME (ex_table x) [x] (mem_get ex_rows_store)"
    "table_of (ex_table x) (mem_get ex_rows_store) = Map.empty"
    "pk_ok (ex_table x) (VInt64 7)" "row_fits (ex_table x) ex_row" "index_fits x ex_row" "ix_column_names x = [''name'']"
    "ex_catalogued x (mem_get ex_rows_store)"
    by (rule ex_rows_facts)
  have seen: "sv_store ex_view = mem_get ex_rows_store" "sv_visible ex_view = mem_get ex_rows_store" "\<not> sv_consistent ex_view"
    by (simp_all add: ex_view_def sv_visible_def sv_read_def)
  note shows0 = ex_gateway_shows [OF x(1)]
  have none: "foreign_keys (ex_table x) = []" "table_list (ex_table x) (mem_get ex_rows_store) = []"
    using empty_table_list [OF _ _ _ x(6)] x(1,5) finite_shown(1) [OF shows0] by (simp_all add: ex_table_def ex_defs table_inv_def seen)
  obtain v where v: "computes (session_shows None) (write_row_at ex_lib ex_checks None DEFAULT_DATABASE_NAME DEFAULT_SCHEMA_NAME (ex_table x) (VInt64 7) ex_row)
        ex_view (Inr ()) v"
      "row_changed ex_lib DEFAULT_DATABASE_NAME DEFAULT_SCHEMA_NAME (ex_table x) (VInt64 7) (Some (stored_row (ex_table x) ex_row)) ex_view v"
    using write_row_succeeds [where s = None and lib = ex_lib and v = ex_view and checks = ex_checks and db = DEFAULT_DATABASE_NAME and
        sn = DEFAULT_SCHEMA_NAME and sch = "ex_table x" and pk = "VInt64 7" and row = ex_row, OF _ _ _ _ _ _ _ _ _ _ _ shows0]
      x seen none ex_admitted [of x]
    by (auto simp: sole_value_def validate_foreign_keys_at_def computes_return)
  from v(1) shows0 obtain g where g: "write_row_at ex_lib ex_checks None DEFAULT_DATABASE_NAME DEFAULT_SCHEMA_NAME (ex_table x) (VInt64 7) ex_row ex_gateway = Some (Inr (), g)"
      "session_shows None g v" by (auto simp: computes_def)
  have cat: "same_catalog (mem_get ex_rows_store) (sv_store v)" using v(2) by (simp add: row_changed_def seen)
  have catalogued: "ex_catalogued x (sv_store v)" using x(11) unfolding ex_catalogued_def catalog_frame(3,4) [OF cat] .
  have vis: "sv_visible v = mem_get (gw_store g)"
    using g(2) by (simp add: session_shows_def session_txn_def sv_visible_def sv_no_txn)
  show ?thesis
    by (rule that [OF g catalog_frame(1) [OF cat x(2)]])
      (use v(1,2) shows0 x catalogued catalog_frame(2) [OF cat, of ex_lib "table_id (ex_table x)"] ex_index_value in
        \<open>simp_all add: row_changed_def seen vis indexed_value_def indexed_value_for_columns_def ex_row_def or_null_def\<close>)
qed

end
