(* ===== verification/Statement_Examples.thy ===== *)
theory Statement_Examples
  imports Statement_Laws Row_Examples
begin

text \<open>The example table with one row, and rows for it with other keys; no expression of a default is
  evaluated.\<close>

definition ex_stored :: "i64 \<Rightarrow> row_map" where
  "ex_stored n = [''id'' \<mapsto> VInt64 n, ''score'' \<mapsto> VNull, ''name'' \<mapsto> VText ''ab'']"

definition ex_defaults :: default_eval where
  "ex_defaults e dt = Inl (unsupported e)"

lemma ex_stored_row: "stored_row (ex_table x) ex_row = ex_stored 7"
  by (rule ext) (simp add: stored_row_def ex_stored_def ex_table_def ex_defs row_value_def)

lemma ex_key: "has_user_primary_key (ex_table x)" "mysql_auto_increment_column (ex_table x) = None" "primary_key (ex_table x) = ''id''"
  by (simp_all add: has_user_primary_key_def mysql_auto_increment_column_def ex_table_def ex_defs)

lemma ex_column_types: "find_column (ex_table x) ''id'' = Some (ex_column 1 ''id'' TInt64 True)" "find_column (ex_table x) ''name'' = Some (ex_column 3 ''name'' TText False)"
  by (simp_all add: find_column_def ex_table_def ex_defs)

lemma ex_row_insertable:
  assumes "ix_column_names x = [''name'']"
  shows "row_insertable (ex_table x) [x] (ex_stored n)" "row_pk (ex_table x) (ex_stored n) = VInt64 n" "indexed_value (ex_stored n) x = VText ''ab''"
proof -
  have cols: "columns (ex_table x) = columns ex_schema" "pk_data_type (ex_table x) = pk_data_type ex_schema"
    by (simp_all add: ex_table_def pk_data_type_def find_column_def)
  have pk: "pk_data_type ex_schema = TInt64" by (simp add: pk_data_type_def ex_defs find_column_def)
  show id: "row_pk (ex_table x) (ex_stored n) = VInt64 n" by (simp add: ex_key ex_stored_def or_null_def)
  show val: "indexed_value (ex_stored n) x = VText ''ab''"
    using assms by (simp add: indexed_value_def indexed_value_for_columns_def ex_stored_def or_null_def)
  have "row_typed ex_schema (ex_stored n)" by (simp add: row_typed_def ex_defs ex_stored_def row_value_def has_type_def ascii_str_ok)
  moreover have "record_fits ex_schema (ex_stored n)"
    by (simp add: record_fits_def payload_sec_def var_bytes_def fixed_region_len_sum div_ceil_def
      is_variable_def width_of_def fixed_width_def ex_defs ex_stored_def row_value_def is_null_def)
  ultimately have "row_fits (ex_table x) (ex_stored n)"
    unfolding row_fits_def record_fits_def row_typed_def column_names_def cols by (simp add: ex_stored_def ex_defs)
  then show "row_insertable (ex_table x) [x] (ex_stored n)"
    unfolding row_insertable_def id by (simp add: pk_ok_def cols pk index_fits_def val ascii_str_ok)
qed

text \<open>The server with one row.\<close>

lemma ex_one_row:
  obtains x g v where "session_shows None g v" "catalog_inv ex_lib (sv_store v)" "index_list ex_lib (sv_store v) (table_id (ex_table x)) = [x]"
    "table_inv DEFAULT_DATABASE_NAME DEFAULT_SCHEMA_NAME (ex_table x) [x] (sv_visible v)" "table_of (ex_table x) (sv_visible v) = [VInt64 7 \<mapsto> ex_stored 7]"
    "ix_column_names x = [''name'']" "ix_unique x" "\<not> sv_consistent v"
proof -
  obtain x g v where w: "session_shows None g v" "catalog_inv ex_lib (sv_store v)" "index_list ex_lib (sv_store v) (table_id (ex_table x)) = [x]" "ix_unique x"
    "table_inv DEFAULT_DATABASE_NAME DEFAULT_SCHEMA_NAME (ex_table x) [x] (sv_visible v)"
    "table_of (ex_table x) (sv_visible v) = [VInt64 7 \<mapsto> stored_row (ex_table x) ex_row]" "ix_column_names x = [''name'']"
    by (rule ex_written)
  have "\<not> sv_consistent v" using w(1) by (simp add: session_shows_def use_consistent_read_def)
  with w show ?thesis by (intro that [of g v x]) (simp_all add: ex_stored_row)
qed

text \<open>The key of a row changed by an UPDATE.\<close>

lemma ex_moved:
  "apply_update_assignments ex_env ex_defaults (ex_table x) [AssignExpr ''id'' (\<lambda>_ _ _. Inr (VInt64 n))] (ex_stored m) = Inr (ex_stored n)"
  "stored_row (ex_table x) (assigned_row ex_env ex_defaults (ex_table x) [AssignExpr ''id'' (\<lambda>_ _ _. Inr (VInt64 n))] (ex_stored m)) = ex_stored n"
proof -
  have set_id: "(ex_stored m)(''id'' \<mapsto> VInt64 n) = ex_stored n" by (simp add: ex_stored_def fun_eq_iff)
  have none: "on_update_loop ex_defaults as (columns (ex_table x)) row = Inr row" for as row by (simp add: ex_table_def ex_defs)
  have "row_len (ex_stored n) = row_len (ex_stored m)" by (simp add: row_len_def ex_stored_def)
  then show moved: "apply_update_assignments ex_env ex_defaults (ex_table x) [AssignExpr ''id'' (\<lambda>_ _ _. Inr (VInt64 n))] (ex_stored m) = Inr (ex_stored n)"
    by (simp add: apply_update_assignments_def apply_on_update_columns_def none ex_column_types ok_or_def ex_column_def set_id coerce_scalar_def coerce_int64_def)
  show "stored_row (ex_table x) (assigned_row ex_env ex_defaults (ex_table x) [AssignExpr ''id'' (\<lambda>_ _ _. Inr (VInt64 n))] (ex_stored m)) = ex_stored n"
    unfolding assigned_row_def moved by (rule ext) (simp add: stored_row_def ex_stored_def ex_table_def ex_defs row_value_def)
qed

text \<open>The first row inserted into the empty table.\<close>

lemma ex_inserted:
  obtains x st g1 where "session_shows None ex_gateway ex_view" "catalog_inv ex_lib (sv_store ex_view)"
    "index_list ex_lib (sv_store ex_view) (table_id (ex_table x)) = [x]"
    "table_inv DEFAULT_DATABASE_NAME DEFAULT_SCHEMA_NAME (ex_table x) [x] (sv_visible ex_view)"
    "table_of (ex_table x) (sv_visible ex_view) = Map.empty" "row_insertable (ex_table x) [x] ex_row" "row_pk (ex_table x) ex_row = VInt64 7"
    "insert_row ex_lib ex_env ex_defaults ex_checks None DEFAULT_DATABASE_NAME DEFAULT_SCHEMA_NAME (ex_table x) None False ex_row insert_start ex_gateway = Some (Inr st, g1)"
proof -
  obtain x v where w: "ix_column_names x = [''name'']" "pk_ok (ex_table x) (VInt64 7)" "row_fits (ex_table x) ex_row" "indexed_value ex_row x = VText ''ab''"
    and run: "computes (session_shows None) (write_row_at ex_lib ex_checks None DEFAULT_DATABASE_NAME DEFAULT_SCHEMA_NAME (ex_table x) (VInt64 7) ex_row) ex_view (Inr ()) v"
    and view: "session_shows None ex_gateway ex_view" "catalog_inv ex_lib (sv_store ex_view)" "index_list ex_lib (sv_store ex_view) (table_id (ex_table x)) = [x]"
      "table_inv DEFAULT_DATABASE_NAME DEFAULT_SCHEMA_NAME (ex_table x) [x] (sv_visible ex_view)" "table_of (ex_table x) (sv_visible ex_view) = Map.empty"
    by (rule ex_written)
  have pk: "row_pk (ex_table x) ex_row = VInt64 7" by (simp add: ex_key ex_row_def or_null_def)
  have row: "row_insertable (ex_table x) [x] ex_row" using w pk by (simp add: row_insertable_def index_fits_def ascii_str_ok)
  have t: "schema_ok (ex_table x)" "table_ok (ex_table x) (sv_visible ex_view)" "no_legacy_rows DEFAULT_DATABASE_NAME DEFAULT_SCHEMA_NAME (ex_table x) (sv_visible ex_view)"
    using view(4) by (simp_all add: table_inv_def)
  have "runs_to (session_shows None) (insert_write ex_lib ex_checks None DEFAULT_DATABASE_NAME DEFAULT_SCHEMA_NAME (ex_table x) False (VInt64 7) ex_row
      (add_affected 1 insert_start)) ex_view (\<lambda>r v'. \<exists>st. r = Inr st)"
    unfolding insert_write_def advance_auto_increment_from_row_def ex_key option.case
    by (rule runs_computes [OF computes_seq [OF run computes_bind [OF computes_return computes_return]]]) simp
  from insert_row_step(2) [where sch = "ex_table x" and row = ex_row, OF ex_key(1) _ t, unfolded pk, OF w(2) _ this] view(5)
  have "runs_to (session_shows None) (insert_row ex_lib ex_env ex_defaults ex_checks None DEFAULT_DATABASE_NAME DEFAULT_SCHEMA_NAME (ex_table x) None False ex_row insert_start)
      ex_view (\<lambda>r v'. \<exists>st. r = Inr st)" by simp
  from runs_cases [OF this view(1)] obtain st g1 where
    "insert_row ex_lib ex_env ex_defaults ex_checks None DEFAULT_DATABASE_NAME DEFAULT_SCHEMA_NAME (ex_table x) None False ex_row insert_start ex_gateway = Some (Inr st, g1)"
    by metis
  then show ?thesis by (rule that [OF view row pk])
qed

text \<open>The UPDATE that changes the key succeeds.\<close>

lemma single_row_list:
  assumes "schema_ok sch" "table_ok sch w" "finite (dom w)" "table_of sch w = [pk \<mapsto> row]"
  shows "table_list sch w = [(pk, row)]"
proof (rule distinct_singleton_list)
  have "(p, r) \<in> set (table_list sch w) \<longleftrightarrow> (p, r) = (pk, row)" for p r using rows_in_mem [OF assms(1-3), of p r "\<lambda>_. True"] assms(4) by auto
  then show "set (table_list sch w) = {(pk, row)}" by (simp only: set_eq_iff split_paired_All singleton_iff) blast
  show "distinct (table_list sch w)" using rows_in_distinct [OF assms(1-3)] by (simp add: distinct_map)
qed

lemma ex_updated:
  obtains x g v n g' where "session_shows None g v" "catalog_inv ex_lib (sv_store v)" "index_list ex_lib (sv_store v) (table_id (ex_table x)) = [x]"
    "table_inv DEFAULT_DATABASE_NAME DEFAULT_SCHEMA_NAME (ex_table x) [x] (sv_visible v)" "table_of (ex_table x) (sv_visible v) = [VInt64 7 \<mapsto> ex_stored 7]"
    "ix_column_names x = [''name'']" "pk_ok (ex_table x) (VInt64 7)"
    "apply_update_rows ex_lib ex_env ex_defaults ex_checks None DEFAULT_DATABASE_NAME DEFAULT_SCHEMA_NAME (ex_table x)
      [AssignExpr ''id'' (\<lambda>_ _ _. Inr (VInt64 8))] (PointLookup (VInt64 7)) None False g = Some (Inr n, g')"
proof -
  let ?as = "[AssignExpr ''id'' (\<lambda>_ _ _. Inr (VInt64 8))]" and ?db = DEFAULT_DATABASE_NAME and ?sn = DEFAULT_SCHEMA_NAME
  obtain x g v where w: "session_shows None g v" "catalog_inv ex_lib (sv_store v)" "index_list ex_lib (sv_store v) (table_id (ex_table x)) = [x]"
    "table_inv ?db ?sn (ex_table x) [x] (sv_visible v)" "table_of (ex_table x) (sv_visible v) = [VInt64 7 \<mapsto> ex_stored 7]"
    "ix_column_names x = [''name'']" "ix_unique x" "\<not> sv_consistent v" by (rule ex_one_row)
  have t: "schema_ok (ex_table x)" "table_ok (ex_table x) (sv_visible v)" "no_legacy_rows ?db ?sn (ex_table x) (sv_visible v)"
    using w(4) by (simp_all add: table_inv_def)
  have pk: "pk_ok (ex_table x) (VInt64 7)" using table_of_some [OF t(2), of "VInt64 7"] w(5) by simp
  have row: "row_fits (ex_table x) (ex_stored 8)" "\<forall>y \<in> set [x]. index_fits y (ex_stored 8)" using ex_row_insertable(1) [OF w(6), of 8] by (simp_all add: row_insertable_def)
  have admitted: "validate_row_constraints ex_checks (ex_table x) (ex_stored 8) = Inr ()"
    by (simp add: validate_row_constraints_def ex_table_def ex_defs ex_stored_def or_null_def is_null_def)
  have fresh: "not_stale (ex_table x) v (VInt64 7)" using w(1) by (simp add: not_stale_def session_shows_def is_repeatable_read_transaction_def)
  have fk: "computes (session_shows None) (validate_foreign_keys_at ex_lib None ?db ?sn (ex_table x) (ex_stored 8)) v (Inr ()) v"
    by (simp add: validate_foreign_keys_at_def ex_table_def ex_defs computes_return)
  have sole: "\<forall>y \<in> set [x]. sole_value (ex_table x) (sv_visible v) (VInt64 7) (ex_stored 8) y" by (simp add: sole_value_def w(5))
  have unique: "\<forall>k \<in> set (unique_constraints (ex_table x)). unique_primary_key k \<or>
      unique_loop k (Some (VInt64 7)) (Some (constraint_key k (ex_stored 8))) [] (table_list (ex_table x) (sv_visible v)) = Inr ()"
    by (simp add: single_row_list [OF t(1,2) finite_shown(4) [OF w(1)] w(5)])
  obtain v' where run: "computes (session_shows None) (write_row_at ex_lib ex_checks None ?db ?sn (ex_table x) (VInt64 7) (ex_stored 8)) v (Inr ()) v'"
    using write_row_succeeds [OF w(2) _ pk row(1) _ admitted _ fk w(8) _ unique w(1), unfolded w(3), OF w(4) row(2) _ sole] fresh by blast
  have "computes (session_shows None) (apply_update_rows ex_lib ex_env ex_defaults ex_checks None ?db ?sn (ex_table x) ?as (PointLookup (VInt64 7)) None False) v (Inr 1) v'"
    unfolding apply_update_rows_def point_update update_one_def
    using computes_bind [OF read_row_computes [OF t(1) pk t(2,3), unfolded w(5)]] run
    by (auto simp: ex_moved write_row_at_def intro!: computes_bind [OF computes_bind [OF computes_lift computes_seq [OF _ computes_return]] computes_return]
        computes_bind [OF read_row_computes [OF t(1) pk t(2,3), unfolded w(5)]])
  then obtain g' where "apply_update_rows ex_lib ex_env ex_defaults ex_checks None ?db ?sn (ex_table x) ?as (PointLookup (VInt64 7)) None False g = Some (Inr 1, g')"
    using w(1) by (auto simp: computes_def)
  then show ?thesis by (rule that [OF w(1-6) pk])
qed

end
