(* ===== verification/Kv_Sessions.thy ===== *)
theory Kv_Sessions
  imports Kv_Store
begin

text \<open>
  A session's transaction on the in-memory store followed from its begin (\<open>mem_store.rs\<close>):
  the session performs its operations while other sessions begin, write, commit and roll back.
  The abstract side is a map and a stack of saved maps; the lemmas show that the snapshot reads
  of the transaction are the contents of the store at the begin with the session's own
  operations applied.
\<close>

section \<open>What a transaction reads from its begin on\<close>

text \<open>The operations a session performs inside its transaction, as the code runs them, and what
  each does to the contents the session reads: \<open>read_step\<close> knows nothing of buffers or snapshots,
  it updates a map and a stack of saved maps, the newest first.\<close>

datatype txn_op = OpPut bytes bytes | OpPutBatch kv_rows | OpDelete bytes
  | OpSavepoint string | OpRollbackTo string | OpRelease string

fun run_op :: "txn_op \<Rightarrow> mem_txn \<Rightarrow> string + mem_txn" where
  "run_op (OpPut k v) t = Inr (txn_put k v t)"
| "run_op (OpPutBatch es) t = Inr (txn_put_batch es t)"
| "run_op (OpDelete k) t = Inr (txn_delete k t)"
| "run_op (OpSavepoint n) t = Inr (txn_savepoint n t)"
| "run_op (OpRollbackTo n) t = txn_rollback_to_savepoint n t"
| "run_op (OpRelease n) t = txn_release_savepoint n t"

type_synonym contents = "bytes \<rightharpoonup> bytes"

fun read_step :: "txn_op \<Rightarrow> contents \<times> (string \<times> contents) list
    \<Rightarrow> contents \<times> (string \<times> contents) list" where
  "read_step (OpPut k v) (m, saved) = (m(k \<mapsto> v), saved)"
| "read_step (OpPutBatch es) (m, saved) = (fold (\<lambda>(k, v) m. m(k \<mapsto> v)) es m, saved)"
| "read_step (OpDelete k) (m, saved) = (m(k := None), saved)"
| "read_step (OpSavepoint n) (m, saved) = (m, (to_ascii_lowercase n, m) # saved)"
| "read_step (OpRollbackTo n) (m, saved) =
     (case dropWhile (\<lambda>(n', _). n' \<noteq> to_ascii_lowercase n) saved of
        [] \<Rightarrow> (m, saved) | (n', w) # older \<Rightarrow> (w, (n', w) # older))"
| "read_step (OpRelease n) (m, saved) =
     (case dropWhile (\<lambda>(n', _). n' \<noteq> to_ascii_lowercase n) saved of
        [] \<Rightarrow> (m, saved) | _ # older \<Rightarrow> (m, older))"

definition read_contents :: "contents \<Rightarrow> txn_op list \<Rightarrow> contents" where
  "read_contents m ops = fst (fold read_step ops (m, []))"

text \<open>A run of the system in which session \<open>i\<close> performs \<open>ops\<close> in its transaction while the other
  sessions take any steps in between.\<close>

inductive session_run :: "nat \<Rightarrow> txn_op list \<Rightarrow> mem_sys \<Rightarrow> mem_sys \<Rightarrow> bool" for i where
  sr_start: "session_run i [] g g"
| sr_own: "session_run i ops g g' \<Longrightarrow> sys_txns g' i = Some t \<Longrightarrow> run_op op t = Inr t' \<Longrightarrow>
    session_run i (ops @ [op]) g (g'\<lparr>sys_txns := (sys_txns g')(i \<mapsto> t')\<rparr>)"
| sr_other: "session_run i ops g g' \<Longrightarrow> others_step i g' g'' \<Longrightarrow> session_run i ops g g''"

definition buffer_view :: "hash_map \<Rightarrow> write_buffer \<Rightarrow> contents" where
  "buffer_view base p = (\<lambda>k. case bt_get p k of Some v \<Rightarrow> v | None \<Rightarrow> mem_get base k)"

definition contents_read :: "hash_map \<Rightarrow> mem_txn \<Rightarrow> contents \<times> (string \<times> contents) list \<Rightarrow> bool" where
  "contents_read base t c =
     (txn_inv t \<and> txn_snapshot t = base
      \<and> c = (buffer_view base (txn_pending t),
             map (\<lambda>(n, p). (n, buffer_view base p)) (rev (txn_savepoints t))))"

lemma rposition_dropWhile:
  "rposition p xs = Some i \<Longrightarrow> dropWhile (\<lambda>x. \<not> p x) (rev xs) = xs ! i # rev (take i xs)"
proof (induction xs rule: rev_induct)
  case (snoc x xs)
  show ?case
  proof (cases "p x")
    case True
    then show ?thesis using snoc.prems by (auto simp: rposition_append)
  next
    case False
    then have "rposition p xs = Some i" using snoc.prems by (simp add: rposition_append)
    with False snoc.IH [OF this] rposition_bound [OF this] show ?thesis
      by (simp add: nth_append)
  qed
qed (simp add: rposition_def)

lemma buffer_view_insert:
  "bt_inv p \<Longrightarrow> buffer_view base (bt_insert k v p) = (buffer_view base p)(k := v)"
  by (rule ext) (simp add: buffer_view_def bt_get_insert)

lemma buffer_view_batch:
  "bt_inv p \<Longrightarrow> buffer_view base (fold (\<lambda>(k, v). bt_insert k (Some v)) es p) =
     fold (\<lambda>(k, v) m. m(k \<mapsto> v)) es (buffer_view base p)"
  by (induction es arbitrary: p) (auto simp: buffer_view_insert bt_inv_insert)

lemma saved_dropWhile:
  "dropWhile (\<lambda>(n', _). n' \<noteq> l) (map (\<lambda>(n, p). (n, f p)) saved) =
   map (\<lambda>(n, p). (n, f p)) (dropWhile (\<lambda>x. \<not> (case x of (n, _) \<Rightarrow> n = l)) saved)"
  by (induction saved) auto

lemma write_fields:
  "txn_snapshot (txn_put k v t) = txn_snapshot t" "txn_snapshot (txn_delete k t) = txn_snapshot t"
  "txn_snapshot (txn_put_batch es t) = txn_snapshot t"
  "txn_snapshot (txn_savepoint n t) = txn_snapshot t"
  "txn_savepoints (txn_put k v t) = txn_savepoints t"
  "txn_savepoints (txn_delete k t) = txn_savepoints t"
  "txn_savepoints (txn_put_batch es t) = txn_savepoints t"
  "txn_savepoints (txn_savepoint n t) =
     txn_savepoints t @ [(to_ascii_lowercase n, txn_pending t)]"
  "txn_pending (txn_put k v t) = bt_insert k (Some v) (txn_pending t)"
  "txn_pending (txn_delete k t) = bt_insert k None (txn_pending t)"
  "txn_pending (txn_put_batch es t) =
     fold (\<lambda>(k, v). bt_insert k (Some v)) es (txn_pending t)"
  "txn_pending (txn_savepoint n t) = txn_pending t"
  by (simp_all add: txn_put_def txn_delete_def txn_put_batch_def txn_savepoint_def)

lemma run_op_reads:
  assumes "contents_read base t c" "run_op op t = Inr t'"
  shows "contents_read base t' (read_step op c)"
proof -
  have inv: "txn_inv t" and snap: "txn_snapshot t = base" and p: "bt_inv (txn_pending t)"
    and c: "c = (buffer_view base (txn_pending t),
      map (\<lambda>(n, p). (n, buffer_view base p)) (rev (txn_savepoints t)))"
    using assms(1) by (auto simp: contents_read_def txn_inv_def)
  show ?thesis
  proof (cases op)
    case (OpRollbackTo n)
    with assms(2) obtain j where
      j: "rposition (\<lambda>(saved, _). saved = to_ascii_lowercase n) (txn_savepoints t) = Some j"
      and t': "t' = t\<lparr>txn_savepoints := take (j + 1) (txn_savepoints t),
              txn_pending := snd (txn_savepoints t ! j)\<rparr>"
      by (auto simp: txn_rollback_to_savepoint_def Let_def split: option.splits)
    have "j < length (txn_savepoints t)" using rposition_bound [OF j] by simp
    moreover have "txn_inv t'"
      using txn_inv_savepoints(1) [OF inv] assms(2) OpRollbackTo by simp
    ultimately show ?thesis
      using rposition_dropWhile [OF j] OpRollbackTo
      by (simp add: contents_read_def c snap t' saved_dropWhile take_Suc_conv_app_nth
          split: prod.splits)
  next
    case (OpRelease n)
    with assms(2) obtain j where
      j: "rposition (\<lambda>(saved, _). saved = to_ascii_lowercase n) (txn_savepoints t) = Some j"
      and t': "t' = t\<lparr>txn_savepoints := take j (txn_savepoints t)\<rparr>"
      by (auto simp: txn_release_savepoint_def Let_def split: option.splits)
    moreover have "txn_inv t'"
      using txn_inv_savepoints(2) [OF inv] assms(2) OpRelease by simp
    ultimately show ?thesis
      using rposition_dropWhile [OF j] OpRelease
      by (simp add: contents_read_def c snap t' saved_dropWhile split: prod.splits)
  qed (use assms(2) inv snap p in \<open>auto simp: contents_read_def c txn_inv_writes buffer_view_insert
      buffer_view_batch write_fields\<close>)
qed

text \<open>From the begin on, the transaction reads the store of the begin with its own operations
  applied, whatever the other sessions do.\<close>

lemma session_run_reads:
  assumes "session_run i ops g g'" "sys_txns g i = Some (begin_transaction base)" "store_inv base"
  shows "\<exists>t. sys_txns g' i = Some t \<and> contents_read base t (fold read_step ops (mem_get base, []))"
  using assms(1,2)
proof (induction rule: session_run.induct)
  case (sr_start g)
  then show ?case using assms(3)
    by (simp add: contents_read_def txn_inv_begin)
       (simp add: begin_transaction_def buffer_view_def bt.get_empty)
next
  case (sr_own ops g g' t op t')
  then show ?case using run_op_reads by auto
next
  case (sr_other ops g g' g'')
  then have "sys_txns g'' i = sys_txns g' i" by (auto simp: others_step_def dest: mem_step_other)
  with sr_other show ?case by simp
qed

lemma contents_read_snapshot:
  assumes "contents_read base t c"
  shows "txn_snapshot_get t key = fst c key"
    and "txn_snapshot_scan_range t a b limit reverse =
      take_limit limit ((if reverse then rev else id) (scan_spec (fst c) (in_bounds a b)))"
    and "txn_snapshot_scan_prefix t p = scan_spec (fst c) (\<lambda>k. starts_with k p)"
proof -
  have inv: "txn_inv t" "store_inv base" and snap: "txn_snapshot t = base"
    and c: "fst c = txn_view base t"
    using assms by (auto simp: contents_read_def txn_inv_def buffer_view_def txn_view_def)
  show "txn_snapshot_get t key = fst c key" by (simp add: txn_get_view snap c)
  show "txn_snapshot_scan_range t a b limit reverse =
      take_limit limit ((if reverse then rev else id) (scan_spec (fst c) (in_bounds a b)))"
    by (simp add: txn_snapshot_scan_range_def snap c materialize_range_view [OF inv(2,1)])
  show "txn_snapshot_scan_prefix t p = scan_spec (fst c) (\<lambda>k. starts_with k p)"
    by (simp add: txn_snapshot_scan_prefix_def snap c materialize_prefix_view [OF inv(2,1)])
qed

end
