(* ===== verification/Engine_Limits.thy ===== *)
theory Engine_Limits
  imports Engine_Store
begin

text \<open>
  Scans with a limit in a transaction over the engine (\<open>kv_engine_store/transaction.rs\<close>,
  \<open>kv_engine_store/store.rs\<close>), for any engine in contract. The transaction reads stored rows up to the limit and
  overlays its pending writes afterwards. The lemmas give the rows such a scan returns, the condition under
  which they are those of the in-memory transaction, and the case where they are not.
\<close>

section \<open>The loop with a limit\<close>

text \<open>Filling the map and pushing the rows stop at the same record, since the keys are distinct.\<close>

lemma length_fold_insert:
  fixes kvs :: "('k::linorder \<times> 'v) list"
  assumes "distinct (map fst kvs)"
  shows "length (fold (\<lambda>(k, v). bt_insert k v) kvs []) = length kvs"
proof -
  let ?m = "fold (\<lambda>(k, v). bt_insert k v) kvs ([] :: ('k, 'v) btree_map)"
  have keys: "set (map fst (fold (\<lambda>(k, v). bt_insert k v) kvs m)) = fst ` set kvs \<union> set (map fst m)"
    for m :: "('k, 'v) btree_map"
    by (induction kvs arbitrary: m) (auto simp: set_bt_insert_keys simp del: set_map split: prod.splits)
  have "bt_inv ?m" by (intro bt.inv_fold_ins bt.inv_empty)
  then have "distinct (map fst ?m)" by (rule bt.distinct_keys)
  then have "length ?m = card (set (map fst ?m))" by (metis distinct_card length_map)
  also have "\<dots> = card (set (map fst kvs))" using keys [of "[]"] by simp
  also have "\<dots> = length kvs" using assms by (metis distinct_card length_map)
  finally show ?thesis .
qed

lemma push_records_prefix:
  "\<exists>n. push_records key_value limit rs rows = rows @ take n (List.map_filter key_value rs)"
proof (induction rs arbitrary: rows)
  case (Cons r rs)
  show ?case
  proof (cases "key_value r")
    case None
    then show ?thesis using Cons by (simp add: List.map_filter_simps)
  next
    case (Some x)
    obtain n where n: "push_records key_value limit rs (rows @ [x]) =
        (rows @ [x]) @ take n (List.map_filter key_value rs)"
      using Cons by blast
    show ?thesis
    proof (cases "reached limit (rows @ [x])")
      case True
      then show ?thesis using Some by (intro exI [of _ 1]) (simp add: List.map_filter_simps)
    next
      case False
      then show ?thesis using Some n by (intro exI [of _ "Suc n"]) (simp add: List.map_filter_simps)
    qed
  qed
qed (simp add: List.map_filter_simps)

lemma insert_records_push:
  assumes "distinct (map fst (rows @ List.map_filter key_value rs))"
  shows "insert_records limit rs (fold (\<lambda>(k, v). bt_insert k v) rows []) =
    fold (\<lambda>(k, v). bt_insert k v) (push_records key_value limit rs rows) []"
  using assms
proof (induction rs arbitrary: rows)
  case (Cons r rs)
  define rows1 where "rows1 = (case key_value r of Some x \<Rightarrow> rows @ [x] | None \<Rightarrow> rows)"
  have d: "distinct (map fst (rows1 @ List.map_filter key_value rs))"
    using Cons.prems by (cases "key_value r") (simp_all add: rows1_def List.map_filter_simps)
  have ins: "(case key_value r of Some (k, v) \<Rightarrow> bt_insert k v (fold (\<lambda>(k, v). bt_insert k v) rows [])
      | None \<Rightarrow> fold (\<lambda>(k, v). bt_insert k v) rows []) = fold (\<lambda>(k, v). bt_insert k v) rows1 []"
    by (auto simp: rows1_def split: option.splits)
  have "distinct (map fst rows1)" using d by simp
  then have "reached limit (fold (\<lambda>(k, v). bt_insert k v) rows1 []) = reached limit rows1"
    by (simp add: reached_def length_fold_insert split: option.splits)
  then show ?case
    using Cons.IH [OF d] ins by (simp add: Let_def flip: rows1_def)
qed simp

lemma distinct_take_middle:
  "distinct (map f (xs @ ys @ zs)) \<Longrightarrow> distinct (map f (xs @ take n ys @ zs))"
proof -
  assume "distinct (map f (xs @ ys @ zs))"
  then have "distinct (map f xs @ (take n (map f ys) @ drop n (map f ys)) @ map f zs)" by simp
  then have "distinct (map f xs @ take n (map f ys) @ map f zs)"
    unfolding distinct_append set_append by blast
  then show ?thesis by (simp add: take_map)
qed

lemma over_batches_insert:
  assumes "distinct (map fst (rows @ List.map_filter key_value (concat bs)))"
  shows "over_batches (\<lambda>rs m. Inr (insert_records limit rs m)) (reached limit) bs
      (fold (\<lambda>(k, v). bt_insert k v) rows []) =
    res_bind (over_batches (\<lambda>rs rows. Inr (push_records key_value limit rs rows)) (reached limit) bs rows)
      (\<lambda>rows'. Inr (fold (\<lambda>(k, v). bt_insert k v) rows' []))"
  using assms
proof (induction bs arbitrary: rows)
  case (Cons rs bs)
  have app: "List.map_filter key_value (concat (rs # bs)) =
      List.map_filter key_value rs @ List.map_filter key_value (concat bs)"
    by (simp add: List.map_filter_def)
  define rows1 where "rows1 = push_records key_value limit rs rows"
  obtain n where n: "rows1 = rows @ take n (List.map_filter key_value rs)"
    using push_records_prefix rows1_def by blast
  have d: "distinct (map fst (rows1 @ List.map_filter key_value (concat bs)))"
    using distinct_take_middle [OF Cons.prems [unfolded app]] by (simp add: n)
  have "distinct (map fst (rows @ List.map_filter key_value rs))"
    using Cons.prems [unfolded app] by simp blast
  from insert_records_push [OF this, of limit]
  have ins: "insert_records limit rs (fold (\<lambda>(k, v). bt_insert k v) rows []) =
      fold (\<lambda>(k, v). bt_insert k v) rows1 []" by (simp add: rows1_def)
  have "distinct (map fst rows1)" using d by simp
  then have "reached limit (fold (\<lambda>(k, v). bt_insert k v) rows1 []) = reached limit rows1"
    by (simp add: reached_def length_fold_insert split: option.splits)
  then show ?case using Cons.IH [OF d] by (simp add: ins flip: rows1_def)
qed simp

section \<open>What a limited scan returns\<close>

text \<open>The pending writes lie over the first stored rows of the range only; the result is cut again.\<close>

lemma etxn_scan_range_limited:
  assumes "engine_contract eng R" "R e view" "bt_inv pending" "limit \<noteq> Some 0"
    and first_def: "first = fst ` set (take_limit limit (ordered_scan view (in_bounds start end') reverse))"
  shows "etxn_scan_range eng e pending start end' limit reverse =
    Some (Inr (take_limit limit
      (ordered_scan (pending_view (view |` first) pending) (in_bounds start end') reverse)))"
proof -
  have fin: "finite (dom view)" by (rule contract_facts [OF assms(1,2)])
  define all_rows where "all_rows = ordered_scan view (in_bounds start end') reverse"
  define rows where "rows = take_limit limit all_rows"
  have dist: "distinct (map fst all_rows)" unfolding all_rows_def by (rule ordered_scan_set [OF fin])
  then have rows_dist: "distinct (map fst rows)"
    by (simp add: rows_def take_limit_def flip: take_map split: option.splits)
  have "run_query eng e (limited_query start end' limit reverse)
      (\<lambda>rs rows. Inr (insert_records limit rs rows)) (reached limit) [] =
      Some (Inr (fold (\<lambda>(k, v). bt_insert k v) rows []))"
  proof (rule run_query_ends [OF assms(1,2)])
    fix bs assume "concat bs = query_records view (limited_query start end' limit reverse)"
    then have kvs: "List.map_filter key_value (concat bs) = all_rows"
      by (simp add: query_records_values map_filter_key_value all_rows_def)
    have "over_batches (\<lambda>rs rows. Inr (push_records key_value limit rs rows)) (reached limit) bs [] = Inr rows"
      by (simp add: over_batches_push [OF assms(4)] kvs rows_def)
    with over_batches_insert [of "[]" bs limit] dist kvs
    show "over_batches (\<lambda>rs rows. Inr (insert_records limit rs rows)) (reached limit) bs [] =
        Inr (fold (\<lambda>(k, v). bt_insert k v) rows [])" by simp
  qed
  moreover have "fold (overlay_one (in_bounds start end')) pending (fold (\<lambda>(k, v). bt_insert k v) rows []) =
      scan_spec (pending_view (view |` first) pending) (in_bounds start end')"
  proof (rule overlay_records [OF _ assms(3) _ rows_dist])
    show fin': "finite (dom (view |` first))" using fin by simp
    have sub: "set rows \<subseteq> set (scan_spec view (in_bounds start end'))"
      unfolding rows_def all_rows_def ordered_scan_set(1) [OF fin, symmetric, of _ reverse]
      by (auto simp: take_limit_def dest: in_set_takeD split: option.splits)
    have first: "first = fst ` set rows" by (simp add: first_def rows_def all_rows_def)
    have row: "in_bounds start end' k \<and> view k = Some v" if "(k, v) \<in> set rows" for k v
      using subsetD [OF sub that] by (simp add: scan_spec_props(2) [OF fin])
    have "((k, v) \<in> set rows) = (in_bounds start end' k \<and> (view |` first) k = Some v)" for k v
    proof
      assume "in_bounds start end' k \<and> (view |` first) k = Some v"
      then have k: "k \<in> first" "view k = Some v" by (auto simp: restrict_map_def split: if_splits)
      then obtain v' where "(k, v') \<in> set rows" by (auto simp: first)
      with row [OF this] k(2) show "(k, v) \<in> set rows" by simp
    next
      assume kv: "(k, v) \<in> set rows"
      then have "k \<in> first" unfolding first by (rule rev_image_eqI) simp
      with row [OF kv] show "in_bounds start end' k \<and> (view |` first) k = Some v" by simp
    qed
    then show "set rows = set (scan_spec (view |` first) (in_bounds start end'))"
      by (auto simp: scan_spec_props(2) [OF fin'])
  qed
  ultimately show ?thesis by (simp add: etxn_scan_range_def collect_range_def)
qed

lemma etxn_scan_range_zero:
  assumes "engine_contract eng R" "R e view"
  shows "etxn_scan_range eng e pending start end' (Some 0) reverse = Some (Inr [])"
proof -
  let ?step = "\<lambda>rs rows. Inr (insert_records (Some 0) rs rows)"
  obtain c bs where c: "eng_range_query eng e (limited_query start end' (Some 0) reverse) = Inr c"
    "cursor_batches (eng_next_batch eng) c bs"
    using assms unfolding engine_contract_def by blast
  have "\<exists>m. over_batches ?step (reached (Some 0)) bs m0 = Inr m" for m0
    by (induction bs arbitrary: m0) (auto simp: reached_def)
  then obtain m where "over_batches ?step (reached (Some 0)) bs [] = Inr m" by blast
  with c show ?thesis
    by (simp add: etxn_scan_range_def run_query_def batch_loop_ends collect_range_def take_limit_def)
qed

section \<open>When the limit does no harm\<close>

lemma take_filter_first:
  assumes "\<And>i. i < n \<Longrightarrow> i < length xs \<Longrightarrow> P (xs ! i)"
  shows "take n (filter P xs) = take n xs"
proof -
  have "filter P (take n xs) = take n xs"
    using assms by (intro filter_True) (auto simp: set_conv_nth)
  then have "filter P xs = take n xs @ filter P (drop n xs)"
    by (metis append_take_drop_id filter_append)
  then show ?thesis by (cases "n \<le> length xs") simp_all
qed

lemma sorted_first:
  assumes "sorted_wrt r xs" "sorted_wrt r ys" "\<And>x. \<not> r x x" "\<And>x y. r x y \<Longrightarrow> \<not> r y x" "set ys \<subseteq> set xs"
    and "\<And>x. x \<in> set xs \<Longrightarrow> \<not> P x \<Longrightarrow> x \<in> set (drop n ys)"
    and i: "i < n" "i < length xs"
  shows "P (xs ! i)"
proof (rule ccontr)
  assume "\<not> P (xs ! i)"
  with i have drop: "xs ! i \<in> set (drop n ys)" using assms(6) nth_mem by blast
  then have len: "length (take n ys) = n" by (cases "n \<le> length ys") simp_all
  have "distinct ys" using assms(2,3) by (induction ys) auto
  have "set (take n ys) \<subseteq> set (take i xs)"
  proof
    fix y assume y: "y \<in> set (take n ys)"
    then have "r y (xs ! i)"
      using drop assms(2) by (metis append_take_drop_id sorted_wrt_append)
    moreover obtain j where j: "j < length xs" "xs ! j = y"
      using y assms(5) by (meson in_set_conv_nth in_set_takeD subsetD)
    ultimately have "j < i"
      using assms(1,3,4) i(2) by (metis linorder_neqE_nat sorted_wrt_nth_less)
    then show "y \<in> set (take i xs)" using j by (auto simp: in_set_conv_nth)
  qed
  then have "card (set (take n ys)) \<le> length (take i xs)"
    by (meson List.finite_set card_length card_mono le_trans)
  moreover have "card (set (take n ys)) = n"
    using len \<open>distinct ys\<close> by (metis distinct_card distinct_take)
  ultimately show False using i by simp
qed

abbreviation key_order :: "bool \<Rightarrow> bytes \<Rightarrow> bytes \<Rightarrow> bool" where
  "key_order reverse \<equiv> (if reverse then (>) else (<))"

lemma ordered_scan_sorted:
  assumes "finite (dom view)"
  shows "sorted_wrt (key_order reverse) (map fst (ordered_scan view inside reverse))"
  using scan_spec_props(1) [OF assms, of inside] by (simp add: rev_map [symmetric] sorted_wrt_rev)

lemma pending_view_finite: "finite (dom view) \<Longrightarrow> finite (dom (pending_view view pending))"
proof (rule finite_subset)
  show "dom (pending_view view pending) \<subseteq> dom (map_of pending) \<union> dom view"
    by (auto simp: pending_view_def bt_get_def split: option.splits)
qed (simp add: finite_dom_map_of)

lemma ordered_scan_keys:
  "finite (dom view) \<Longrightarrow>
     fst ` set (ordered_scan view inside reverse) = {k. inside k \<and> view k \<noteq> None}"
proof -
  assume fin: "finite (dom view)"
  have "k \<in> fst ` set (scan_spec view inside)" if "inside k" "view k = Some v" for k v
    using that by (intro image_eqI [of _ fst "(k, v)"]) (simp_all add: scan_spec_props(2) [OF fin])
  moreover have "inside k \<and> view k \<noteq> None" if "k \<in> fst ` set (scan_spec view inside)" for k
    using that by (auto simp: scan_spec_props(2) [OF fin])
  ultimately show ?thesis unfolding ordered_scan_set(1) [OF fin] by blast
qed

text \<open>Without a pending delete of a stored row in the range, a limited scan returns the first rows of
  the transaction's view.\<close>

lemma etxn_scan_range_agrees:
  assumes "engine_contract eng R" "R e view" "bt_inv pending"
    and "limit = None \<or> limit = Some 0 \<or> (\<forall>k. bt_get pending k = Some None \<longrightarrow> in_bounds start end' k \<longrightarrow> view k = None)"
  shows "etxn_scan_range eng e pending start end' limit reverse =
    Some (Inr (take_limit limit (ordered_scan (pending_view view pending) (in_bounds start end') reverse)))"
proof (cases "limit = None \<or> limit = Some 0")
  case True
  then show ?thesis
    using etxn_scan_range_ends [OF assms(1-3)] etxn_scan_range_zero [OF assms(1,2)]
    by (auto simp: take_limit_def)
next
  case False
  then obtain n where n: "limit = Some n" "0 < n" by auto
  let ?in = "in_bounds start end'"
  have fin: "finite (dom view)" by (rule contract_facts [OF assms(1,2)])
  have kept: "view k = None" if "bt_get pending k = Some None" "?in k" for k
    using assms(4) n that by auto
  define stored where "stored = map fst (ordered_scan view ?in reverse)"
  define all_rows where "all_rows = ordered_scan (pending_view view pending) ?in reverse"
  define first where "first = set (take n stored)"
  define P where "P k = (pending_view (view |` first) pending k \<noteq> None)" for k
  have fin': "finite (dom (pending_view view pending))" by (rule pending_view_finite [OF fin])
  have "scan_spec (pending_view (view |` first) pending) ?in =
      filter (\<lambda>(k, _). P k) (scan_spec (pending_view view pending) ?in)" (is "_ = ?f")
  proof (rule scan_spec_unique [symmetric])
    show "sorted_wrt (<) (map fst ?f)"
      using scan_spec_props(1) [OF fin', of ?in] by (simp add: sorted_wrt_map sorted_wrt_filter)
    show "((k, v) \<in> set ?f) = (?in k \<and> pending_view (view |` first) pending k = Some v)" for k v
    proof -
      have "((k, v) \<in> set ?f) = (P k \<and> ?in k \<and> pending_view view pending k = Some v)"
        by (auto simp: scan_spec_props(2) [OF fin'])
      then show ?thesis
        by (auto simp: P_def pending_view_def restrict_map_def split: option.splits if_splits)
    qed
  qed
  then have filt: "ordered_scan (pending_view (view |` first) pending) ?in reverse =
      filter (\<lambda>(k, _). P k) all_rows"
    by (simp add: all_rows_def rev_filter)
  have "P (map fst all_rows ! i)" if i: "i < n" "i < length (map fst all_rows)" for i
  proof (rule sorted_first [of "key_order reverse" _ stored P n])
    show "sorted_wrt (key_order reverse) (map fst all_rows)"
      unfolding all_rows_def by (rule ordered_scan_sorted [OF fin'])
    show "sorted_wrt (key_order reverse) stored"
      unfolding stored_def by (rule ordered_scan_sorted [OF fin])
    have st: "set stored = {k. ?in k \<and> view k \<noteq> None}"
      using ordered_scan_keys [OF fin] by (simp add: stored_def)
    have al: "set (map fst all_rows) = {k. ?in k \<and> pending_view view pending k \<noteq> None}"
      using ordered_scan_keys [OF fin'] by (simp add: all_rows_def)
    show "set stored \<subseteq> set (map fst all_rows)"
    proof
      fix k assume "k \<in> set stored"
      then show "k \<in> set (map fst all_rows)"
        unfolding st al using kept [of k]
        by (cases "bt_get pending k"; cases "the (bt_get pending k)") (auto simp: pending_view_def)
    qed
    show "k \<in> set (drop n stored)" if "k \<in> set (map fst all_rows)" "\<not> P k" for k
    proof -
      have "k \<notin> first" "k \<in> set stored"
        using that unfolding al st
        by (auto simp: P_def pending_view_def restrict_map_def split: option.splits)
      then show ?thesis unfolding first_def by (metis Un_iff append_take_drop_id set_append)
    qed
  qed (use i in \<open>auto split: if_splits\<close>)
  then have "take n (filter (\<lambda>(k, _). P k) all_rows) = take n all_rows"
    by (intro take_filter_first) (auto simp: case_prod_beta)
  moreover have "first = fst ` set (take_limit limit (ordered_scan view ?in reverse))"
    by (simp add: first_def stored_def n take_limit_def take_map)
  ultimately show ?thesis
    using etxn_scan_range_limited [OF assms(1-3), where limit = limit and first = first and start = start
        and end' = end' and reverse = reverse] n filt
    by (simp add: take_limit_def all_rows_def)
qed

text \<open>Every row the limit lets through is deleted by a pending write, nothing is put in the range: the
  scan returns nothing, whatever rows follow.\<close>

lemma etxn_scan_range_loses:
  assumes "engine_contract eng R" "R e view" "bt_inv pending" "0 < n"
    and "\<forall>k v. in_bounds start end' k \<longrightarrow> bt_get pending k \<noteq> Some (Some v)"
    and "\<forall>(k, v) \<in> set (take n (ordered_scan view (in_bounds start end') reverse)). bt_get pending k = Some None"
  shows "etxn_scan_range eng e pending start end' (Some n) reverse = Some (Inr [])"
proof -
  let ?first = "fst ` set (take_limit (Some n) (ordered_scan view (in_bounds start end') reverse))"
  have "pending_view (view |` ?first) pending k = None" if "in_bounds start end' k" for k
    using assms(5,6) that
    by (fastforce simp: pending_view_def restrict_map_def take_limit_def split: option.splits)
  then have "scan_spec (pending_view (view |` ?first) pending) (in_bounds start end') =
      scan_spec Map.empty (in_bounds start end')"
    by (intro scan_spec_cong) simp
  then show ?thesis
    using etxn_scan_range_limited [OF assms(1-3) _ refl, where limit = "Some n" and start = start and end' = end'
        and reverse = reverse] assms(4)
    by (simp add: take_limit_def scan_spec_def)
qed

section \<open>The engine and the in-memory store\<close>

lemma engine_scan_like_memory:
  assumes "engine_contract eng R" "R e (mem_get store)" "store_inv store" "txn_inv t"
    and "limit = None \<or> limit = Some 0 \<or> (\<forall>k. bt_get (txn_pending t) k = Some None \<longrightarrow>
      in_bounds start end' k \<longrightarrow> mem_get store k = None)"
  shows "etxn_scan_range eng e (txn_pending t) start end' limit reverse =
    Some (Inr (txn_scan_range store t start end' limit reverse))"
proof -
  have "pending_view (mem_get store) (txn_pending t) = txn_view store t"
    by (simp add: pending_view_def txn_view_def)
  then show ?thesis
    using etxn_scan_range_agrees [OF assms(1,2) _ assms(5)] assms(4)
    by (simp add: txn_inv_def txn_scan_range_def materialize_range_view [OF assms(3,4)])
qed

text \<open>With the first rows of the range deleted the in-memory transaction returns the rows that follow.\<close>

lemma memory_scan_keeps:
  assumes "store_inv store" "txn_inv t" "0 < n" "in_bounds start end' k" "mem_get store k = Some v"
    and "bt_get (txn_pending t) k = None"
  shows "txn_scan_range store t start end' (Some n) reverse \<noteq> []"
proof -
  have "txn_view store t k = Some v" using assms(5,6) by (simp add: txn_view_def)
  then have "(k, v) \<in> set (scan_spec (txn_view store t) (in_bounds start end'))"
    by (simp add: scan_spec_props(2) [OF finite_dom_view] assms(4))
  then show ?thesis using assms(3)
    by (auto simp: txn_scan_range_def materialize_range_view [OF assms(1,2)] take_limit_def)
qed

text \<open>A scan of the store with the limit 0 returns the first row of the range, if the engine hands out
  no empty batch before the last one.\<close>

lemma store_scan_limit_zero:
  assumes "engine_contract eng R" "R e view"
    and "\<And>c rs c1. eng_next_batch eng c = Inr ((rs, False), c1) \<Longrightarrow> rs \<noteq> []"
  shows "store_scan_range eng e start end' (Some 0) reverse =
    Some (Inr (take 1 (ordered_scan view (in_bounds start end') reverse)))"
proof -
  let ?q = "limited_query start end' (Some 0) reverse"
  obtain c bs where c: "eng_range_query eng e ?q = Inr c" "cursor_batches (eng_next_batch eng) c bs"
    "concat bs = query_records view ?q"
    using assms(1,2) unfolding engine_contract_def by blast
  have push: "push_records key_value (Some 0) rs [] = take 1 (List.map_filter key_value rs)"
    if "set rs \<subseteq> set (query_records view ?q)" for rs
    using that by (cases rs) (auto simp: query_records_values reached_def List.map_filter_simps key_value_def
        split: if_splits)
  from c(2) obtain rs bs' where bs: "bs = rs # bs'" "rs = [] \<longrightarrow> bs' = []"
    by cases (use assms(3) in auto)
  have sub: "set rs \<subseteq> set (query_records view ?q)" by (auto simp: bs(1) simp flip: c(3))
  from push [OF sub]
  have "over_batches (\<lambda>rs rows. Inr (push_records key_value (Some 0) rs rows)) (reached (Some 0)) bs [] =
      Inr (take 1 (List.map_filter key_value rs))"
    by (simp add: bs(1) reached_def)
  also have "take 1 (List.map_filter key_value rs) = take 1 (List.map_filter key_value (concat bs))"
  proof (cases rs)
    case (Cons r rs')
    then have "r \<in> set (query_records view ?q)" using sub by auto
    then have "key_value r \<noteq> None" by (auto simp: query_records_values key_value_def split: if_splits)
    then show ?thesis using Cons by (auto simp: bs List.map_filter_simps)
  qed (use bs in simp)
  finally show ?thesis
    using c by (simp add: store_scan_range_def run_query_def batch_loop_ends query_records_values
        map_filter_key_value)
qed

end
