(* ===== verification/Array_Text.thy ===== *)
theory Array_Text
  imports Text_Roundtrip
begin

text \<open>
  Which values of an array survive printing and parsing (\<open>types/column_value.rs\<close>,
  \<open>sql/values/array.rs\<close>), type by type: the numbers, booleans and byte strings always, the values kept as
  their text when the text is one the type's own check accepts and is not the word NULL, and
  nested arrays of these.
\<close>

abbreviation null_word :: "string \<Rightarrow> bool" where
  "null_word s \<equiv> eq_ignore_ascii_case s ''NULL''"

text \<open>The value is of a form that comes back under the element type.\<close>

primrec reads_back :: "data_type \<Rightarrow> column_value \<Rightarrow> bool" where
  "reads_back TInt16 v = is_VInt16 v"
| "reads_back TInt32 v = is_VInt32 v"
| "reads_back TInt64 v = is_VInt64 v"
| "reads_back TBoolean v = is_VBoolean v"
| "reads_back TBytea v = is_VBytea v"
| "reads_back TDate v = (case v of VDate s \<Rightarrow> validate_date s = Inr () | _ \<Rightarrow> False)"
| "reads_back TTimestamp v = (case v of VTimestamp s \<Rightarrow> validate_timestamp s = Inr () | _ \<Rightarrow> False)"
| "reads_back TTimestampTz v = (case v of VTimestampTz s \<Rightarrow> validate_timestamp s = Inr () | _ \<Rightarrow> False)"
| "reads_back TUuid v =
     (case v of VUuid s \<Rightarrow> validate_uuid s = Inr () \<and> to_ascii_lowercase s = s | _ \<Rightarrow> False)"
| "reads_back TText v = (case v of VText s \<Rightarrow> \<not> null_word s | _ \<Rightarrow> False)"
| "reads_back (TDomain n) v = (case v of VText s \<Rightarrow> \<not> null_word s | _ \<Rightarrow> False)"
| "reads_back (TGeometry n) v = (case v of VText s \<Rightarrow> \<not> null_word s | _ \<Rightarrow> False)"
| "reads_back (TEnum vs) v = (case v of VText s \<Rightarrow> s \<in> set vs \<and> \<not> null_word s | _ \<Rightarrow> False)"
| "reads_back (TVarChar limit) v =
     (case v of VText s \<Rightarrow> (case limit of None \<Rightarrow> True | Some n \<Rightarrow> chars_count s \<le> n) \<and> \<not> null_word s
      | _ \<Rightarrow> False)"
| "reads_back (TArray dt) v =
     (case v of VArray vs \<Rightarrow> (\<forall>x \<in> set vs. x = VNull \<or> reads_back dt x) | _ \<Rightarrow> False)"
| "reads_back (TMySqlInt k u) v = False"
| "reads_back TFloat32 v = False"
| "reads_back TFloat64 v = False"
| "reads_back (TMySqlFloat p) v = False"
| "reads_back (TMySqlDouble p) v = False"
| "reads_back (TNumeric p s) v = False"
| "reads_back (TMySqlText m n) v = False"
| "reads_back (TChar n) v = False"
| "reads_back (TBinary n) v = False"
| "reads_back (TVarBinary n) v = False"
| "reads_back (TBlob m n) v = False"
| "reads_back (TBit n) v = False"
| "reads_back TYear v = False"
| "reads_back TTime v = False"
| "reads_back (TMySqlTime f) v = False"
| "reads_back TTimeTz v = False"
| "reads_back TInterval v = False"
| "reads_back (TMySqlDateTime f) v = False"
| "reads_back (TMySqlTimestamp f) v = False"
| "reads_back TJson v = False"
| "reads_back TJsonb v = False"
| "reads_back (TSet vs) v = False"

lemma null_word_length: "eq_ignore_ascii_case s ''NULL'' \<Longrightarrow> length s = 4"
  unfolding eq_ignore_ascii_case_def to_ascii_lowercase_def by (drule arg_cong [of _ _ length]) simp

lemma temporal_text_stable:
  "validate_date s = Inr () \<Longrightarrow> text_stable env TDate (VDate s)"
  "validate_timestamp s = Inr () \<Longrightarrow> text_stable env TTimestamp (VTimestamp s)"
  "validate_timestamp s = Inr () \<Longrightarrow> text_stable env TTimestampTz (VTimestampTz s)"
  "validate_uuid s = Inr () \<Longrightarrow> to_ascii_lowercase s = s \<Longrightarrow> text_stable env TUuid (VUuid s)"
proof -
  have "length s \<noteq> 4" if "validate_date s = Inr ()"
    using that by (auto simp: validate_date_def date_shape_def split: if_splits)
  then show "validate_date s = Inr () \<Longrightarrow> text_stable env TDate (VDate s)"
    using null_word_length by (auto simp: text_stable_def)
  have "length s \<noteq> 4" if "validate_timestamp s = Inr ()"
    using that by (auto simp: validate_timestamp_def split: if_splits)
  then show "validate_timestamp s = Inr () \<Longrightarrow> text_stable env TTimestamp (VTimestamp s)"
    "validate_timestamp s = Inr () \<Longrightarrow> text_stable env TTimestampTz (VTimestampTz s)"
    using null_word_length by (auto simp: text_stable_def)
  have "length s \<noteq> 4" if "validate_uuid s = Inr ()"
    using that by (auto simp: validate_uuid_def split: if_splits)
  then show "validate_uuid s = Inr () \<Longrightarrow> to_ascii_lowercase s = s \<Longrightarrow> text_stable env TUuid (VUuid s)"
    using null_word_length by (auto simp: text_stable_def)
qed

lemma text_value_stable:
  assumes "\<not> null_word s"
  shows "text_stable env (TDomain n) (VText s)" "text_stable env (TGeometry n) (VText s)"
    and "s \<in> set vs \<Longrightarrow> text_stable env (TEnum vs) (VText s)"
    and "(case limit of None \<Rightarrow> True | Some n \<Rightarrow> chars_count s \<le> n) \<Longrightarrow>
      text_stable env (TVarChar limit) (VText s)"
  using assms by (auto simp: text_stable_def coerce_enum_def coerce_varchar_def split: option.splits)

lemma reads_back_stable: "reads_back dt v \<Longrightarrow> text_stable env dt v"
proof (induction dt arbitrary: v)
  case (TArray dt)
  then obtain vs where "v = VArray vs" "\<forall>x \<in> set vs. x = VNull \<or> reads_back dt x"
    by (cases v) auto
  with TArray.IH show ?case by (auto intro!: array_text_stable)
qed (auto simp: is_VInt16_def is_VInt32_def is_VInt64_def is_VBoolean_def is_VBytea_def
    intro: scalar_text_stable temporal_text_stable text_value_stable split: column_value.splits)

end
