(* ===== verification/Row_Drift.thy ===== *)
theory Row_Drift
  imports Catalog_Rows
begin

text \<open>
  Records read under a descriptor whose columns have other widths than those they were written
  with: \<open>ALTER TABLE .. MODIFY COLUMN\<close>, which stores the new type and leaves the records as they are, and a
  MySQL \<open>INT\<close> column of \<open>ALTER TABLE .. ADD COLUMN\<close>, which has a slot only once the descriptor was read from
  the catalog (\<open>codec.rs\<close>, \<open>core/server/row_write.rs\<close>, \<open>catalog\<close>).
\<close>

section \<open>The layout under other widths\<close>

lemma layout_under_other_columns:
  assumes "length (columns s) < 2 ^ 32" "length (payload_sec row (columns s)) < 2 ^ 32"
    and "length (columns s') = length (columns s)"
  shows "fixed_row_layout s' (encode_row_record_with_mvcc s row mvcc) =
    (if length (encode_row_record_with_mvcc s row mvcc) < variable_payload_start (layout_of (columns s'))
     then Inl (user_error ''XX000'' ''truncated fixed row header'') else Inr (layout_of (columns s')))"
proof -
  let ?bs = "encode_row_record_with_mvcc s row mvcc"
  let ?n = "word_of_nat (length (columns s)) :: u32"
  note bs = encode_row_record_sections [OF assms(2), of mvcc]
  have n: "unat ?n = length (columns s)" using assms(1) by (simp add: unat_of_nat)
  have u8: "cursor_u8 (cursor_new ?bs) = Inr (FIXED_ROW_VERSION, advance 1 (cursor_new ?bs))"
    by (rule cursor_u8_rest) (simp add: bs row_header_bytes_def)
  have hdr: "read_row_header (advance 1 (cursor_new ?bs)) =
      Inr (\<lparr>hdr_schema_version = schema_version s, hdr_table_epoch = table_epoch s,
            hdr_mvcc = \<lparr>xmin = xmin mvcc, xmax = xmax mvcc\<rparr>, hdr_count = length (columns s)\<rparr>,
           advance 33 (cursor_new ?bs))"
    using read_row_header_rest [of "advance 1 (cursor_new ?bs)" "schema_version s" "table_epoch s"
        "xmin mvcc" "xmax mvcc" ?n] n
    by (simp add: rest_cursor_new_advance bs row_header_bytes_def)
  have vc: "length (filter (\<lambda>p. p \<noteq> None) (variable_positions_for_columns (columns s')))
      = length (filter is_variable (columns s'))"
    unfolding variable_positions_for_columns_def by (rule count_variable_positions)
  have pos: "pos (advance 33 (cursor_new ?bs)) = 33" by (simp add: cursor_new_def advance_def)
  show ?thesis
    unfolding fixed_row_layout_def u8 res_bind.simps split_conv hdr Let_def row_header.simps pos
    using vc by (simp add: assms(3) [symmetric] layout_of_def Let_def)
qed

lemma record_is_fixed:
  assumes "length (payload_sec row (columns s)) < 2 ^ 32"
  shows "slice_get (encode_row_record_with_mvcc s row mvcc) 0 = Some FIXED_ROW_VERSION"
  by (simp add: encode_row_record_sections [OF assms] row_header_bytes_def)

section \<open>A widened column\<close>

lemma fixed_region_len_append: "fixed_region_len (xs @ ys) = fixed_region_len xs + fixed_region_len ys"
  by (simp add: fixed_region_len_sum)

lemma payload_all_null:
  assumes "\<forall>c \<in> set cols. is_variable c \<longrightarrow> is_null (row_value row c)"
  shows "payload_sec row cols = []"
  using assms by (auto simp: payload_sec_def var_bytes_def)

lemma widened_column_unreadable:
  assumes "columns s = xs @ c # ys" "columns s' = xs @ c\<lparr>col_type := TInt64\<rparr> # ys" "col_type c = TInt32"
    and "length (columns s) < 2 ^ 32"
    and null: "\<forall>c \<in> set (columns s). is_variable c \<longrightarrow> is_null (row_value row c)"
  shows "decode_row_record s' (encode_row_record_with_mvcc s row mvcc) =
    Inl (user_error ''XX000'' ''truncated fixed row header'')"
proof -
  let ?bs = "encode_row_record_with_mvcc s row mvcc" and ?c = "c\<lparr>col_type := TInt64\<rparr>"
  have p: "payload_sec row (columns s) = []" by (rule payload_all_null [OF null])
  then have small: "length (payload_sec row (columns s)) < 2 ^ 32" by simp
  have w: "\<not> is_variable c" "\<not> is_variable ?c" "width_of c = 4" "width_of ?c = 8"
    using assms(3) by (simp_all add: is_variable_def width_of_def fixed_width_def)
  have "length ?bs < variable_payload_start (layout_of (columns s'))"
    using w p by (simp add: encode_row_record_sections [OF small] layout_of_def Let_def assms(1,2)
        fixed_region_len_append)
  then have "fixed_row_layout s' ?bs = Inl (user_error ''XX000'' ''truncated fixed row header'')"
    using layout_under_other_columns [OF assms(4) small, of s' mvcc] by (simp add: assms(1,2))
  then show ?thesis
    by (simp add: decode_row_record_def decode_fixed_row_record_def record_is_fixed [OF small])
qed

section \<open>A column without a slot\<close>

text \<open>What the reader of a column with a slot takes from the layout.\<close>

lemma decode_fixed_row_column_cong:
  assumes "slice_get (columns s1) i = slice_get (columns s2) i"
    and "stored_column_count l1 = stored_column_count l2" "null_bitmap_start l1 = null_bitmap_start l2"
    and "fixed_region_start l1 = fixed_region_start l2"
    and "slice_get (layout_fixed_offsets l1) i = Some (Some off)"
    and "slice_get (layout_fixed_offsets l2) i = Some (Some off)"
  shows "decode_fixed_row_column s1 bs l1 i = decode_fixed_row_column s2 bs l2 i"
  unfolding decode_fixed_row_column_def fixed_row_is_null_def assms bind.bind_lunit option.case ..

lemma fixed_row_is_null_cong:
  "stored_column_count l1 = stored_column_count l2 \<Longrightarrow> null_bitmap_start l1 = null_bitmap_start l2 \<Longrightarrow>
     fixed_row_is_null bs l1 i = fixed_row_is_null bs l2 i"
  by (simp only: fixed_row_is_null_def)

lemma dir_sec_first:
  "\<exists>c \<in> set cols. is_variable c \<Longrightarrow> \<exists>tl'. dir_sec row off cols = to_be_bytes (word_of_nat off :: u32) @ tl'"
  by (induction cols) auto

lemma layout_of_same_length:
  "length cols = length cols' \<Longrightarrow> stored_column_count (layout_of cols) = stored_column_count (layout_of cols') \<and>
     null_bitmap_start (layout_of cols) = null_bitmap_start (layout_of cols') \<and>
     fixed_region_start (layout_of cols) = fixed_region_start (layout_of cols')"
  by (simp add: layout_of_def Let_def)

text \<open>The last column has no slot in the record and one of four bytes in the reader's schema: the reader takes
  the offset in the first directory entry, which is 0.\<close>

lemma added_slot_reads_zero:
  assumes "columns s = xs @ [c]" "columns s' = ps @ [p]" "list_all2 same_layout xs ps"
    and "is_variable c" "col_type p = TInt32" "\<not> is_null (row_value row c)" "record_fits s row"
  shows "fixed_row_layout s' (encode_row_record_with_mvcc s row mvcc) = Inr (layout_of (columns s'))"
    and "decode_fixed_row_column s' (encode_row_record_with_mvcc s row mvcc) (layout_of (columns s')) (length xs) =
      Inr (VInt32 0)"
proof -
  let ?bs = "encode_row_record_with_mvcc s row mvcc" and ?l = "layout_of (columns s')"
  have len: "length (columns s) < 2 ^ 32" "length (payload_sec row (columns s)) < 2 ^ 32"
    using assms(7) by (simp_all only: record_fits_def)
  have same: "length ps = length xs" "fixed_region_len ps = fixed_region_len xs"
    "length (filter is_variable ps) = length (filter is_variable xs)"
    using layout_sizes [OF assms(3)] by simp_all
  have w: "\<not> is_variable p" "width_of p = 4" "width_of c = 0"
    using assms(4,5) by (auto simp: is_variable_def width_of_def fixed_width_def)
  have cnt: "length (columns s') = length (columns s)" by (simp add: assms(1,2) same)
  have size: "variable_payload_start ?l + 4 \<le> length ?bs"
    using assms(4) w same
    by (simp add: encode_row_record_sections [OF len(2)] layout_of_def Let_def assms(1,2) fixed_region_len_append)
  then show layout: "fixed_row_layout s' ?bs = Inr ?l"
    using layout_under_other_columns [OF len cnt, of mvcc] by simp
  note fields = layout_of_same_length [OF cnt]
  have i: "length xs < length (columns s)" "length xs < length (columns s')" by (simp_all add: assms(1,2) same)
  have null: "fixed_row_is_null ?bs ?l (length xs) = Inr False"
    using fixed_row_is_null_encode [OF assms(7) i(1), of mvcc] assms(1,6)
      fixed_row_is_null_cong [of ?l "layout_of (columns s)"] fields by simp
  have off: "slice_get (layout_fixed_offsets ?l) (length xs) = Some (Some (fixed_region_len xs))"
    using layout_of_columns(2) [OF i(2) refl] w same
    by (simp add: assms(2) nth_append fixed_region_len_sum del: slice_get_eq_Some)
  let ?a = "fixed_region_start ?l + fixed_region_len xs"
  have read: "decode_fixed_row_column s' ?bs ?l (length xs) = decode_fixed_value (col_type p) (slice ?bs ?a (?a + width_of p))"
  proof (rule decode_fixed_row_column_slot [OF _ _ null off refl])
    show "slice_get (columns s') (length xs) = Some p" by (simp add: assms(2) same nth_append)
    show "length xs < stored_column_count ?l" using i(2) by (simp add: layout_of_def Let_def)
    show "?a + width_of p \<le> length ?bs"
      using size w same by (simp add: layout_of_def Let_def assms(2) fixed_region_len_append)
  qed
  obtain tl' where dir: "dir_sec row 0 (columns s) = to_be_bytes (word_of_nat 0 :: u32) @ tl'"
    using dir_sec_first [of "columns s" row 0] assms(1,4) by auto
  have "fixed_region_len (columns s) = fixed_region_len xs" by (simp add: assms(1) fixed_region_len_append w)
  then have fx: "length (fixed_sec row (columns s)) = fixed_region_len xs" by simp
  have "slice ?bs ?a (?a + 4) = slice (fixed_sec row (columns s) @ dir_sec row 0 (columns s) @ payload_sec row (columns s))
      (fixed_region_len xs) (fixed_region_len xs + 4)"
    using layout_of_slices(1) [OF assms(7) refl refl, of mvcc "fixed_region_len xs" "fixed_region_len xs + 4"] fields
    by (simp add: add.assoc)
  also have "\<dots> = slice (dir_sec row 0 (columns s) @ payload_sec row (columns s)) 0 4"
    using slice_within [OF fx, of _ 0 4] by simp
  also have "\<dots> = to_be_bytes (0 :: u32)" by (simp add: dir slice_def)
  finally have "slice ?bs ?a (?a + 4) = to_be_bytes (0 :: u32)" .
  with read show "decode_fixed_row_column s' ?bs ?l (length xs) = Inr (VInt32 0)"
    by (simp add: w assms(5) decode_fixed_value_def)
qed

text \<open>The columns before it read as they were written when all of them have slots.\<close>

lemma slots_before_read_back:
  assumes "columns s = xs @ [c]" "columns s' = ps @ [p]" "list_all2 same_layout xs ps"
    and "is_variable c" "col_type p = TInt32" "record_fits s row" "row_typed (s\<lparr>columns := ps @ [c]\<rparr>) row"
    and "\<forall>c \<in> set xs. \<not> is_variable c" "i < length xs"
  shows "decode_fixed_row_column s' (encode_row_record_with_mvcc s row mvcc) (layout_of (columns s')) i =
    Inr (row_value row (xs ! i))"
proof -
  let ?s = "s\<lparr>columns := ps @ [c]\<rparr>"
  have all: "list_all2 same_layout (columns s) (ps @ [c])"
    using assms(3) by (simp add: assms(1) list_all2_appendI same_layout_def)
  have bs: "encode_row_record_with_mvcc ?s row mvcc = encode_row_record_with_mvcc s row mvcc"
    by (rule encode_layout [OF all])
  have fits: "record_fits ?s row" using assms(6) layout_sizes [OF all] by (simp add: record_fits_def)
  have len: "length ps = length xs" using assms(3) by (simp add: list_all2_lengthD)
  have psi: "same_layout (xs ! i) (ps ! i)" using assms(3,9) by (simp add: list_all2_nthD)
  then have fixed: "\<not> is_variable (ps ! i)" using assms(8,9) same_layout_parts(2) [OF psi] by simp
  have i: "i < length (columns ?s)" "i < length (columns s')" using assms(9) len by (simp_all add: assms(2))
  have "decode_fixed_row_column s' (encode_row_record_with_mvcc s row mvcc) (layout_of (columns s')) i =
      decode_fixed_row_column ?s (encode_row_record_with_mvcc s row mvcc) (layout_of (columns ?s)) i"
  proof (rule decode_fixed_row_column_cong)
    show "slice_get (columns s') i = slice_get (columns ?s) i" using assms(9) len by (simp add: assms(2) slice_get_def nth_append)
    have "length (columns s') = length (columns ?s)" by (simp add: assms(2))
    note layout_of_same_length [OF this]
    then show "stored_column_count (layout_of (columns s')) = stored_column_count (layout_of (columns ?s))"
      "null_bitmap_start (layout_of (columns s')) = null_bitmap_start (layout_of (columns ?s))"
      "fixed_region_start (layout_of (columns s')) = fixed_region_start (layout_of (columns ?s))" by simp_all
    show "slice_get (layout_fixed_offsets (layout_of (columns s'))) i =
        Some (Some (sum_list (map width_of (take i ps))))"
      "slice_get (layout_fixed_offsets (layout_of (columns ?s))) i =
        Some (Some (sum_list (map width_of (take i ps))))"
      using layout_of_columns(2) [OF i(2) refl] layout_of_columns(2) [OF i(1) refl] fixed assms(9) len
      by (simp_all add: assms(2) nth_append del: slice_get_eq_Some)
  qed
  also have "\<dots> = Inr (row_value row (ps ! i))"
    using decode_fixed_row_column_encode [OF fits assms(7) _ i(1), of ?s "[]" mvcc] assms(9) len
    by (simp add: bs nth_append)
  also have "row_value row (ps ! i) = row_value row (xs ! i)" using same_layout_parts(1) [OF psi] by simp
  finally show ?thesis .
qed

lemma added_slot_record:
  assumes "columns s = xs @ [c]" "columns s' = ps @ [p]" "list_all2 same_layout xs ps"
    and "is_variable c" "col_type p = TInt32" "\<not> is_null (row_value row c)" "record_fits s row"
    and "row_typed (s\<lparr>columns := ps @ [c]\<rparr>) row" "\<forall>c \<in> set xs. \<not> is_variable c"
  shows "decode_row_record s' (encode_row_record_with_mvcc s row mvcc) =
    Inr [map col_name (columns s') [\<mapsto>] map (row_value row) xs @ [VInt32 0]]"
proof -
  let ?bs = "encode_row_record_with_mvcc s row mvcc" and ?l = "layout_of (columns s')"
  have small: "length (payload_sec row (columns s)) < 2 ^ 32" using assms(7) by (simp only: record_fits_def)
  have len: "length ps = length xs" using assms(3) by (simp add: list_all2_lengthD)
  note zero = added_slot_reads_zero [OF assms(1-7), of mvcc]
  have "decode_fixed_row_column s' ?bs ?l (0 + i) = Inr ((map (row_value row) xs @ [VInt32 0]) ! i)"
    if "i < length (columns s')" for i
  proof (cases "i < length xs")
    case True
    then show ?thesis using slots_before_read_back [OF assms(1-5,7-9) True] by (simp add: nth_append)
  next
    case False
    then have "i = length xs" using that len by (simp add: assms(2))
    then show ?thesis using zero(2) by (simp add: nth_append)
  qed
  then have "fixed_row_insert s' ?bs ?l 0 (columns s') Map.empty =
      Inr [map col_name (columns s') [\<mapsto>] map (row_value row) xs @ [VInt32 0]]"
    by (intro fixed_row_insert_upds) (simp_all add: assms(2) len)
  then show ?thesis
    by (simp add: decode_row_record_def decode_fixed_row_record_def record_is_fixed [OF small] zero(1))
qed

section \<open>The MySQL INT column after a reload\<close>

lemma reload_added_column:
  assumes "columns s = xs @ [c]" "col_type c = TMySqlInt IntKind False"
    and "\<forall>c' \<in> set xs. col_type c' \<noteq> TMySqlInt IntKind False"
  obtains ps p where "columns (reload_schema s) = ps @ [p]" "list_all2 same_layout xs ps" "col_type p = TInt32"
    "col_name p = col_name c"
proof -
  let ?f = "\<lambda>c. (col_name c, col_type c)" and ?g = "\<lambda>c. (col_name c, reloaded (col_type c))"
  have typed: "map ?f (columns (reload_schema s)) = map ?g xs @ [?g c]"
    using reload_columns_typed [of s] by (simp add: assms(1))
  then obtain ps p where cols: "columns (reload_schema s) = ps @ [p]"
    by (cases "columns (reload_schema s)" rule: rev_cases) auto
  with typed have ps: "map ?f ps = map ?g xs" and p: "?f p = ?g c" by simp_all
  have len: "length xs = length ps" using ps by (metis length_map)
  have "same_layout (xs ! i) (ps ! i)" if i: "i < length xs" for i
  proof -
    have "?f (ps ! i) = ?g (xs ! i)" using arg_cong [OF ps, of "\<lambda>zs. zs ! i"] i len by simp
    moreover have "fixed_width (reloaded (col_type (xs ! i))) = fixed_width (col_type (xs ! i))"
      using assms(3) i by (simp add: reloaded_width)
    ultimately show ?thesis by (simp add: same_layout_def)
  qed
  then have "list_all2 same_layout xs ps" using len by (simp add: list_all2_conv_all_nth)
  moreover have "col_type p = TInt32" "col_name p = col_name c" using p by (simp_all add: assms(2))
  ultimately show thesis using that cols by blast
qed

lemma mysql_int_read_as_zero:
  assumes "columns s = xs @ [c]" "col_type c = TMySqlInt IntKind False" "row_value row c = VInt32 x"
    and "\<forall>c' \<in> set xs. col_type c' \<noteq> TMySqlInt IntKind False" "record_fits s row"
  shows "\<exists>l. fixed_row_layout (reload_schema s) (encode_row_record_with_mvcc s row mvcc) = Inr l \<and>
    decode_fixed_row_column (reload_schema s) (encode_row_record_with_mvcc s row mvcc) l (length xs) = Inr (VInt32 0)"
proof -
  obtain ps p where cols: "columns (reload_schema s) = ps @ [p]" "list_all2 same_layout xs ps" "col_type p = TInt32"
    using reload_added_column [OF assms(1,2,4)] by metis
  have "is_variable c" "\<not> is_null (row_value row c)"
    using assms(2,3) by (simp_all add: is_variable_def fixed_width_def is_null_def)
  from added_slot_reads_zero [OF assms(1) cols(1,2) this(1) cols(3) this(2) assms(5)] show ?thesis by blast
qed

lemma mysql_int_record_misread:
  assumes "columns s = xs @ [c]" "col_type c = TMySqlInt IntKind False" "row_value row c = VInt32 x"
    and "\<forall>c' \<in> set xs. \<not> is_variable c'" "record_fits s row" "row_typed s row" "distinct (column_names s)"
  shows "\<exists>out. decode_row_record (reload_schema s) (encode_row_record_with_mvcc s row mvcc) = Inr out \<and>
    out (col_name c) = Some (VInt32 0) \<and> (\<forall>c' \<in> set xs. out (col_name c') = Some (row_value row c'))"
proof -
  have noint: "\<forall>c' \<in> set xs. col_type c' \<noteq> TMySqlInt IntKind False"
    using assms(4) by (auto simp: is_variable_def fixed_width_def)
  obtain ps p where cols: "columns (reload_schema s) = ps @ [p]" "list_all2 same_layout xs ps" "col_type p = TInt32"
    "col_name p = col_name c"
    using reload_added_column [OF assms(1,2) noint] by metis
  have c: "is_variable c" "\<not> is_null (row_value row c)"
    using assms(2,3) by (simp_all add: is_variable_def fixed_width_def is_null_def)
  have "row_typed (s\<lparr>columns := columns (reload_schema s)\<rparr>) row" using assms(6) by (simp only: row_typed_reload)
  then have typed: "row_typed (s\<lparr>columns := ps @ [c]\<rparr>) row"
    using assms(1,6) by (auto simp: row_typed_def cols(1))
  let ?out = "[map col_name (columns (reload_schema s)) [\<mapsto>] map (row_value row) xs @ [VInt32 0]]"
  have out: "decode_row_record (reload_schema s) (encode_row_record_with_mvcc s row mvcc) = Inr ?out"
    by (rule added_slot_record [OF assms(1) cols(1,2) c(1) cols(3) c(2) assms(5) typed assms(4)])
  have names: "map col_name (columns (reload_schema s)) = map col_name xs @ [col_name c]"
    by (simp add: reload_column_names assms(1))
  have dist: "distinct (map col_name xs @ [col_name c])" using assms(1,7) by (simp add: column_names_def)
  have "?out (col_name c) = Some (VInt32 0)"
    using map_upds_nth [OF dist, of "map (row_value row) xs @ [VInt32 0]" "length xs"] by (simp add: names nth_append)
  moreover have "?out (col_name c') = Some (row_value row c')" if c': "c' \<in> set xs" for c'
  proof -
    obtain i where i: "i < length xs" "c' = xs ! i" using c' by (auto simp: in_set_conv_nth)
    then show ?thesis
      using map_upds_nth [OF dist, of "map (row_value row) xs @ [VInt32 0]" i] by (simp add: names nth_append)
  qed
  ultimately show ?thesis using out by blast
qed

end
