(* ===== verification/Write_Checks.thy ===== *)
theory Write_Checks
  imports Row_Commands
begin

text \<open>
  The checks before a row is written, as conditions on what the session sees: a foreign key is checked by
  finding the referenced row in the table the catalog gives for its name, a unique constraint by
  comparing with every other row (\<open>core/server/row_write.rs\<close>, \<open>core/server/constraints.rs\<close>). With
  these the success of a write is stated without the code's own loops.
\<close>

section \<open>Foreign keys\<close>

text \<open>The schema and the table a reference means: a plain name is looked up in the schema of the
  referring table.\<close>

definition names_table :: "string \<Rightarrow> string \<Rightarrow> string \<Rightarrow> string \<Rightarrow> bool" where
  "names_table sn name fsn ftn =
     (CHR ''.'' \<notin> set ftn \<and> (name = ftn \<and> fsn = sn \<or> name = fsn @ ''.'' @ ftn \<and> CHR ''.'' \<notin> set fsn))"

text \<open>A row with the given values in the referred columns: a single primary key column is looked up as
  the key of the row, other columns are compared.\<close>

definition referenced :: "table_schema \<Rightarrow> kv_view \<Rightarrow> string list \<Rightarrow> column_value list \<Rightarrow> bool" where
  "referenced fsch w cols vals =
     (if cols = [primary_key fsch] then table_of fsch w (hd vals) \<noteq> None
      else \<exists>pk r. table_of fsch w pk = Some r \<and> list_all2 (\<lambda>c x. \<exists>y. r c = Some y \<and> value_eq y x) cols vals)"

text \<open>The table is in the catalog and its rows can be read.\<close>

definition reference_table :: "json_lib \<Rightarrow> string \<Rightarrow> string \<Rightarrow> session_view \<Rightarrow> string \<Rightarrow> string \<Rightarrow> table_schema \<Rightarrow> bool" where
  "reference_table lib db sn v name fsn fsch =
     (\<exists>ftn d s t. names_table sn name fsn ftn \<and> in_schema lib (sv_store v) db fsn d s \<and>
        tables.holds lib (sv_store v) (dc_id d, sc_id s, ftn) t \<and> fsch = tc_schema t \<and>
        schema_ok fsch \<and> table_ok fsch (sv_visible v) \<and> no_legacy_rows db fsn fsch (sv_visible v))"

definition fk_holds ::
    "json_lib \<Rightarrow> string \<Rightarrow> string \<Rightarrow> session_view \<Rightarrow> row_map \<Rightarrow> foreign_key_constraint_schema \<Rightarrow> bool" where
  "fk_holds lib db sn v row fk =
     (fk_columns fk \<noteq> [] \<and> length (fk_referred_columns fk) = length (fk_columns fk) \<and>
      ((\<exists>c \<in> set (fk_columns fk). or_null (row c) = VNull) \<or>
       (\<exists>fsn fsch. reference_table lib db sn v (fk_foreign_table fk) fsn fsch \<and>
          set (fk_referred_columns fk) \<subseteq> set (column_names fsch) \<and>
          referenced fsch (sv_visible v) (fk_referred_columns fk) (map (\<lambda>c. or_null (row c)) (fk_columns fk)))))"

lemma names_table_resolves:
  assumes "names_table sn name fsn ftn"
  shows "resolve_foreign_table_reference sn name = Inr (fsn, ftn)" "CHR ''.'' \<notin> set ftn"
  using assms split_char_append [of "CHR ''.''" fsn ftn]
  by (auto simp: names_table_def resolve_foreign_table_reference_def resolve_table_reference_def)

lemma resolve_computes:
  assumes "CHR ''.'' \<notin> set ftn" "in_schema lib (sv_store v) db fsn d c" "tables.holds lib (sv_store v) (dc_id d, sc_id c, ftn) t"
  shows "computes (session_shows s) (resolve_table_schema lib db [fsn] ftn) v (Inr (fsn, Some (tc_schema t))) v"
proof -
  have "computes (session_shows s) (load_table lib gateway_store db fsn ftn) v (Inr (Some t)) v"
    by (rule on_store_read) (rule gateway_catalog.load_table_found [OF assms(2,3)])
  then have "computes (session_shows s) (search_schemas lib db ftn [fsn]) v (Inr (Some (fsn, tc_schema t))) v"
    unfolding search_schemas.simps by (rule computes_bind) (simp add: computes_return)
  note found = this
  show ?thesis
    unfolding resolve_table_schema_def if_not_P [OF assms(1)]
    by (rule computes_bind [OF found]) (simp add: computes_return)
qed

lemma row_matches_spelled:
  "length cols = length vals \<Longrightarrow>
     row_matches_columns r cols vals = list_all2 (\<lambda>c x. \<exists>y. r c = Some y \<and> value_eq y x) cols vals"
  unfolding row_matches_columns_def
  by (induction cols vals rule: list_induct2) (auto split: option.splits)

lemma find_column_name: "(find_column s n = None) = (n \<notin> set (column_names s))"
  by (auto simp: find_column_def column_names_def find_None_iff)

definition fk_violation :: "table_schema \<Rightarrow> foreign_key_constraint_schema \<Rightarrow> pg_error" where
  "fk_violation sch fk = user_error ''23503'' (quoted ''insert or update on table '' (table_name sch) ''''
     @ quoted '' violates foreign key constraint '' (fk_name fk) '''')"

text \<open>With the referenced table there, the check is exact.\<close>

lemma foreign_key_computes:
  assumes wf: "\<not> malformed_fk fk" and vals: "vals = foreign_key_values row (fk_columns fk)" "\<not> list_ex is_null vals"
    and table: "reference_table lib db sn v (fk_foreign_table fk) fsn fsch"
    and cols: "set (fk_referred_columns fk) \<subseteq> set (column_names fsch)"
    and key: "fk_referred_columns fk = [primary_key fsch] \<longrightarrow> pk_ok fsch (hd vals)"
  shows "computes (session_shows s) (validate_foreign_key lib s db sn sch row fk) v
    (if referenced fsch (sv_visible v) (fk_referred_columns fk) vals then Inr () else Inl (fk_violation sch fk)) v"
proof (rule computes_shown)
  fix g assume g: "session_shows s g v"
  let ?rc = "fk_referred_columns fk" and ?w = "sv_visible v"
  obtain ftn d c t where t: "names_table sn (fk_foreign_table fk) fsn ftn" "in_schema lib (sv_store v) db fsn d c"
      "tables.holds lib (sv_store v) (dc_id d, sc_id c, ftn) t" and f: "fsch = tc_schema t"
    and ok: "schema_ok fsch" "table_ok fsch ?w" "no_legacy_rows db fsn fsch ?w"
    using table unfolding reference_table_def by blast
  note name = names_table_resolves [OF t(1)]
  have len: "length ?rc = length vals" using wf by (simp add: malformed_fk_def vals(1) foreign_key_values_def)
  have one: "(length ?rc = 1 \<and> hd ?rc = primary_key fsch) = (?rc = [primary_key fsch])"
    by (cases ?rc) auto
  have scan: "computes (session_shows s) (scan_visible_rows_at s db fsn fsch None) v (Inr (map snd (table_list fsch ?w))) v"
    unfolding scan_visible_rows_at_def
    by (rule computes_bind [OF scan_rows_computes [OF ok, of s None]]) (simp add: passes_def computes_return)
  have any: "list_ex (\<lambda>r. row_matches_columns r ?rc vals) (map snd (table_list fsch ?w)) = referenced fsch ?w ?rc vals"
    if "?rc \<noteq> [primary_key fsch]"
  proof -
    have "(\<exists>e \<in> set (table_list fsch ?w). row_matches_columns (snd e) ?rc vals) =
        (\<exists>pk r. table_of fsch ?w pk = Some r \<and> row_matches_columns r ?rc vals)"
      using rows_in_mem [OF ok(1,2) finite_shown(4) [OF g], of _ _ "\<lambda>_. True"] by (simp add: Bex_def)
    then show ?thesis
      using that by (simp add: referenced_def row_matches_spelled [OF len] list_ex_iff)
  qed
  have found: "computes (session_shows s)
      (if ?rc = [primary_key fsch] then st_bind (read_visible_row_at s db fsn fsch (hd vals)) (\<lambda>r. st_return (r \<noteq> None))
       else st_bind (scan_visible_rows_at s db fsn fsch None) (\<lambda>rows. st_return (list_ex (\<lambda>r. row_matches_columns r ?rc vals) rows)))
      v (Inr (referenced fsch ?w ?rc vals)) v"
  proof (cases "?rc = [primary_key fsch]")
    case True
    then show ?thesis
      using key computes_bind [OF read_row_computes [OF ok(1) _ ok(2,3), of "hd vals" s] computes_return] by (simp add: referenced_def)
  next
    case False
    show ?thesis unfolding if_not_P [OF False] any [OF False, symmetric] by (rule computes_bind [OF scan computes_return])
  qed
  have exist: "\<not> list_ex (\<lambda>c. find_column fsch c = None) ?rc" using cols by (auto simp: list_ex_iff find_column_name)
  have loaded: "ok_or (Some (tc_schema t)) e = Inr fsch" for e by (simp add: f)
  show "computes (session_shows s) (validate_foreign_key lib s db sn sch row fk) v
      (if referenced fsch ?w ?rc vals then Inr () else Inl (fk_violation sch fk)) v"
    unfolding validate_foreign_key_def Let_def vals(1) [symmetric] name(1)
    using wf vals(2)
    apply (simp only: if_False)
    apply (rule computes_bind [OF computes_lift], simp only: split_conv)
    apply (rule computes_bind [OF resolve_computes [OF name(2) t(2,3)]], simp only: split_conv)
    apply (rule computes_bind [OF computes_lift_eq [OF loaded]])
    apply (simp only: exist if_False one)
    apply (rule computes_bind [OF found])
    apply (simp add: computes_return computes_raise fk_violation_def)
    done
qed

lemma foreign_keys_hold:
  assumes "\<forall>fk \<in> set (foreign_keys sch). fk_holds lib db sn v row fk"
  shows "computes (session_shows s) (validate_foreign_keys_at lib s db sn sch row) v (Inr ()) v"
  unfolding validate_foreign_keys_at_def
proof (rule computes_each_same)
  fix fk assume "fk \<in> set (foreign_keys sch)"
  then have fk: "fk_holds lib db sn v row fk" using assms by blast
  let ?vals = "foreign_key_values row (fk_columns fk)"
  have wf: "\<not> malformed_fk fk" using fk by (auto simp: fk_holds_def malformed_fk_def)
  show "computes (session_shows s) (validate_foreign_key lib s db sn sch row fk) v (Inr ()) v"
  proof (cases "list_ex is_null ?vals")
    case True
    then show ?thesis using wf by (simp add: validate_foreign_key_def computes_return)
  next
    case False
    then have "\<forall>c \<in> set (fk_columns fk). or_null (row c) \<noteq> VNull"
      by (force simp: foreign_key_values_def list_ex_iff is_null_def)
    then obtain fsn fsch where f: "reference_table lib db sn v (fk_foreign_table fk) fsn fsch"
      "set (fk_referred_columns fk) \<subseteq> set (column_names fsch)" "referenced fsch (sv_visible v) (fk_referred_columns fk) ?vals"
      using fk unfolding fk_holds_def foreign_key_values_def by blast
    have "pk_ok fsch (hd ?vals)" if "fk_referred_columns fk = [primary_key fsch]"
      using f(3) that by (auto simp: referenced_def table_of_def split: if_splits)
    with foreign_key_computes [OF wf refl False f(1,2), of s sch] f(3) show ?thesis by simp
  qed
qed

section \<open>Unique constraints\<close>

text \<open>The rows other than the one under the key do not violate the constraint already.\<close>

definition keys_apart :: "table_schema \<Rightarrow> kv_view \<Rightarrow> column_value \<Rightarrow> unique_constraint_schema \<Rightarrow> bool" where
  "keys_apart sch w pk k =
     (\<not> unique_primary_key k \<longrightarrow>
       (\<forall>pk1 row1 pk2 row2. table_of sch w pk1 = Some row1 \<longrightarrow> table_of sch w pk2 = Some row2 \<longrightarrow> pk1 \<noteq> pk2 \<longrightarrow>
          \<not> value_eq pk pk1 \<longrightarrow> \<not> value_eq pk pk2 \<longrightarrow> VNull \<notin> set (constraint_key k row1) \<longrightarrow>
          map debug_value (constraint_key k row1) \<noteq> map debug_value (constraint_key k row2)))"

lemma unique_loop_passes:
  assumes "distinct (map fst rows)"
    and "\<And>pk' row'. (pk', row') \<in> set rows \<Longrightarrow> \<not> value_eq pk pk' \<Longrightarrow> \<not> list_ex is_null (constraint_key k row') \<Longrightarrow>
      \<not> values_eq key (constraint_key k row') \<and> map debug_value (constraint_key k row') \<notin> set seen"
    and "\<And>pk1 row1 pk2 row2. (pk1, row1) \<in> set rows \<Longrightarrow> (pk2, row2) \<in> set rows \<Longrightarrow> pk1 \<noteq> pk2 \<Longrightarrow>
      \<not> value_eq pk pk1 \<Longrightarrow> \<not> value_eq pk pk2 \<Longrightarrow> \<not> list_ex is_null (constraint_key k row1) \<Longrightarrow>
      map debug_value (constraint_key k row1) \<noteq> map debug_value (constraint_key k row2)"
  shows "unique_loop k (Some pk) (Some key) seen rows = Inr ()"
  using assms
proof (induction rows arbitrary: seen)
  case (Cons e rows)
  obtain p r where e: "e = (p, r)" by (cases e)
  have ind: "unique_loop k (Some pk) (Some key) seen' rows = Inr ()"
    if "\<And>pk' row'. (pk', row') \<in> set rows \<Longrightarrow> \<not> value_eq pk pk' \<Longrightarrow> \<not> list_ex is_null (constraint_key k row') \<Longrightarrow>
      map debug_value (constraint_key k row') \<notin> set seen'" for seen'
  proof (rule Cons.IH)
    show "map debug_value (constraint_key k row1) \<noteq> map debug_value (constraint_key k row2)"
      if "(pk1, row1) \<in> set rows" "(pk2, row2) \<in> set rows" "pk1 \<noteq> pk2" "\<not> value_eq pk pk1" "\<not> value_eq pk pk2"
        "\<not> list_ex is_null (constraint_key k row1)" for pk1 row1 pk2 row2
      by (rule Cons.prems(3) [OF list.set_intros(2) [OF that(1)] list.set_intros(2) [OF that(2)] that(3-6)])
  qed (use Cons.prems(1,2) that in auto)
  show ?case
  proof (cases "value_eq pk p \<or> list_ex is_null (constraint_key k r)")
    case True
    then show ?thesis using ind [of seen] Cons.prems(2) by (auto simp: e Let_def)
  next
    case False
    have "map debug_value (constraint_key k row') \<notin> set (map debug_value (constraint_key k r) # seen)"
      if "(pk', row') \<in> set rows" "\<not> value_eq pk pk'" "\<not> list_ex is_null (constraint_key k row')" for pk' row'
      using Cons.prems(3) [of p r pk' row'] Cons.prems(1,2) that False by (force simp: e)
    from ind [OF this] show ?thesis using Cons.prems(2) [of p r] False by (simp add: e Let_def)
  qed
qed simp

lemma unique_keys_pass:
  assumes "schema_ok sch" "table_ok sch w" "finite (dom w)" "sole_key sch w pk row k" "keys_apart sch w pk k"
    and "\<not> unique_primary_key k"
  shows "unique_loop k (Some pk) (Some (constraint_key k row)) [] (table_list sch w) = Inr ()"
proof (rule unique_loop_passes)
  show "distinct (map fst (table_list sch w))" by (rule rows_in_distinct [OF assms(1-3)])
qed (use assms(4-6) in \<open>auto simp: rows_in_mem [OF assms(1-3)] sole_key_def keys_apart_def list_ex_iff is_null_def\<close>)

end
