(* ===== verification/Check_Examples.thy ===== *)
theory Check_Examples
  imports Write_Checks Row_Examples
begin

text \<open>The example table with a foreign key on itself, once its row is there: the row may be written
  again, the key it refers to being its own.\<close>

text \<open>The constraints do not change which rows a table has.\<close>

lemma decode_by_columns: "columns s = columns s' \<Longrightarrow> decode_row_record s = decode_row_record s'"
proof -
  assume c: "columns s = columns s'"
  have "decode_fixed_row_column s = decode_fixed_row_column s'" "fixed_row_layout s = fixed_row_layout s'"
    unfolding decode_fixed_row_column_def [abs_def] fixed_row_layout_def [abs_def] c by (rule refl)+
  moreover from this(1) have "fixed_row_insert s bs l i cs row = fixed_row_insert s' bs l i cs row" for bs l i cs row
    by (induction cs arbitrary: i row) (auto intro: arg_cong [of _ _ "res_bind _"])
  ultimately show ?thesis by (intro ext) (simp add: decode_row_record_def decode_fixed_row_record_def c)
qed

lemma constraints_keep_rows:
  assumes "s' = s\<lparr>unique_constraints := u, foreign_keys := f\<rparr>"
  shows "table_of s' = table_of s" "schema_ok s' = schema_ok s" "table_ok s' = table_ok s" "no_legacy_rows db sn s' = no_legacy_rows db sn s"
    and "table_inv db sn s' xs = table_inv db sn s xs" "pk_ok s' = pk_ok s" "row_fits s' = row_fits s" "stored_row s' = stored_row s"
    and "column_names s' = column_names s" "sole_value s' = sole_value s"
proof -
  have dec: "decode_row_record s' = decode_row_record s" by (rule decode_by_columns) (simp add: assms)
  have names: "column_names s' = column_names s" and key: "pk_data_type s' = pk_data_type s"
    by (simp_all add: assms column_names_def pk_data_type_def)
  have pk: "pk_ok s' = pk_ok s" by (intro ext) (simp add: pk_ok_def key)
  have typed: "row_typed s' = row_typed s" by (intro ext) (simp add: row_typed_def assms)
  show t: "table_of s' = table_of s" by (intro ext) (simp add: table_of_def pk dec, simp add: assms)
  have fine: "row_fine s' = row_fine s" by (intro ext) (simp add: row_fine_def names typed)
  show ok: "schema_ok s' = schema_ok s" by (simp add: schema_ok_def key names)
  show rows: "table_ok s' = table_ok s" by (intro ext) (simp add: table_ok_def pk dec fine, simp add: assms)
  show legacy: "no_legacy_rows db sn s' = no_legacy_rows db sn s" by (intro ext) (simp add: no_legacy_rows_def assms)
  have "indexes_exact db sn s' xs = indexes_exact db sn s xs"
    by (intro ext) (simp add: indexes_exact_def t named_entry_key_def [abs_def] own_named_key_def [abs_def], simp add: assms)
  then show "table_inv db sn s' xs = table_inv db sn s xs" by (intro ext) (simp add: table_inv_def ok rows legacy t)
  show "row_fits s' = row_fits s" by (intro ext) (simp add: row_fits_def names typed, simp add: record_fits_def assms)
  show "stored_row s' = stored_row s" by (intro ext) (simp add: stored_row_def assms)
  show "sole_value s' = sole_value s" by (intro ext) (simp add: sole_value_def t)
qed (simp_all add: assms column_names_def pk_ok_def [abs_def] pk_data_type_def)

definition ex_self_reference :: foreign_key_constraint_schema where
  "ex_self_reference = \<lparr>fk_name = ''t_self'', fk_columns = [''id''], fk_foreign_table = ''t'', fk_referred_columns = [''id'']\<rparr>"

definition ex_referring :: "index_catalog \<Rightarrow> table_schema" where
  "ex_referring x = (ex_table x)\<lparr>foreign_keys := [ex_self_reference]\<rparr>"

lemma ex_rows_alike:
  "ex_table x = (ex_schema\<lparr>table_id := ix_table_id x\<rparr>)\<lparr>unique_constraints := unique_constraints (ex_table x), foreign_keys := []\<rparr>"
  "ex_referring x = (ex_table x)\<lparr>unique_constraints := unique_constraints (ex_table x), foreign_keys := [ex_self_reference]\<rparr>"
  by (simp_all add: ex_table_def ex_referring_def ex_defs)

lemmas ex_base_rows = constraints_keep_rows [OF ex_rows_alike(1)]
  and ex_referring_rows = constraints_keep_rows [OF ex_rows_alike(2)]

lemma ex_reference_holds:
  assumes "ex_catalogued x (sv_store v)" "table_inv DEFAULT_DATABASE_NAME DEFAULT_SCHEMA_NAME (ex_table x) xs (sv_visible v)"
    and "table_of (ex_table x) (sv_visible v) (VInt64 7) \<noteq> None"
  shows "fk_holds ex_lib DEFAULT_DATABASE_NAME DEFAULT_SCHEMA_NAME v ex_row ex_self_reference"
proof -
  let ?sch = "ex_schema\<lparr>table_id := ix_table_id x\<rparr>"
  obtain t where t: "in_schema ex_lib (sv_store v) DEFAULT_DATABASE_NAME DEFAULT_SCHEMA_NAME default_database default_schema"
      "tables.holds ex_lib (sv_store v) (dc_id default_database, sc_id default_schema, ''t'') t" and sch: "tc_schema t = ?sch"
    using assms(1) unfolding ex_catalogued_def by blast
  have name: "names_table DEFAULT_SCHEMA_NAME ''t'' DEFAULT_SCHEMA_NAME ''t''" by (simp add: names_table_def)
  have rows: "schema_ok ?sch" "table_ok ?sch (sv_visible v)" "no_legacy_rows DEFAULT_DATABASE_NAME DEFAULT_SCHEMA_NAME ?sch (sv_visible v)"
    using assms(2) unfolding table_inv_def ex_base_rows(2-4) by blast+
  have "reference_table ex_lib DEFAULT_DATABASE_NAME DEFAULT_SCHEMA_NAME v ''t'' DEFAULT_SCHEMA_NAME ?sch"
    unfolding reference_table_def using name t sch [symmetric] rows by blast
  moreover have "referenced ?sch (sv_visible v) [''id''] [VInt64 7]"
    using assms(3) ex_base_rows(1) [of x] by (simp add: referenced_def ex_defs)
  ultimately show ?thesis
    unfolding fk_holds_def
    by (intro conjI disjI2 exI [of _ DEFAULT_SCHEMA_NAME] exI [of _ ?sch])
      (simp_all add: ex_self_reference_def column_names_def ex_row_def or_null_def ex_defs)
qed

lemma ex_referring_facts:
  obtains x g v where "session_shows None g v" "catalog_inv ex_lib (sv_store v)"
    "table_inv DEFAULT_DATABASE_NAME DEFAULT_SCHEMA_NAME (ex_referring x) (index_list ex_lib (sv_store v) (table_id (ex_referring x))) (sv_visible v)"
    "pk_ok (ex_referring x) (VInt64 7)" "row_fits (ex_referring x) ex_row"
    "\<forall>y \<in> set (index_list ex_lib (sv_store v) (table_id (ex_referring x))). index_fits y ex_row"
    "validate_row_constraints ex_checks (ex_referring x) ex_row = Inr ()" "not_stale (ex_referring x) v (VInt64 7)"
    "\<forall>fk \<in> set (foreign_keys (ex_referring x)). fk_holds ex_lib DEFAULT_DATABASE_NAME DEFAULT_SCHEMA_NAME v ex_row fk"
    "sv_read v = sv_visible v" "table_of (ex_referring x) (sv_visible v) = [VInt64 7 \<mapsto> stored_row (ex_referring x) ex_row]"
    "index_list ex_lib (sv_store v) (table_id (ex_referring x)) = [x]" "ix_unique x"
proof -
  obtain x g v where w: "session_shows None g v" "catalog_inv ex_lib (sv_store v)" "index_list ex_lib (sv_store v) (table_id (ex_table x)) = [x]"
    "ix_unique x" "table_inv DEFAULT_DATABASE_NAME DEFAULT_SCHEMA_NAME (ex_table x) [x] (sv_visible v)"
    "table_of (ex_table x) (sv_visible v) = [VInt64 7 \<mapsto> stored_row (ex_table x) ex_row]" "pk_ok (ex_table x) (VInt64 7)" "row_fits (ex_table x) ex_row"
    "ix_column_names x = [''name'']" "ex_catalogued x (sv_store v)"
    by (rule ex_written)
  have none: "sv_txn v = None" "sv_repeatable v = False" using w(1) by (auto simp: session_shows_def session_txn_def is_repeatable_read_transaction_def)
  have id: "table_id (ex_referring x) = table_id (ex_table x)" by (simp add: ex_referring_def)
  have seen: "sv_read v = sv_visible v" using w(1) by (simp add: session_shows_def session_txn_def sv_visible_def sv_no_txn)
  show ?thesis
  proof (rule that [OF w(1,2)])
    show "not_stale (ex_referring x) v (VInt64 7)" by (simp add: not_stale_def none)
    show "validate_row_constraints ex_checks (ex_referring x) ex_row = Inr ()"
      by (simp add: validate_row_constraints_def ex_referring_def ex_table_def ex_defs or_null_def is_null_def)
    show "\<forall>fk \<in> set (foreign_keys (ex_referring x)). fk_holds ex_lib DEFAULT_DATABASE_NAME DEFAULT_SCHEMA_NAME v ex_row fk"
      using ex_reference_holds [OF w(10,5)] w(6) by (simp add: ex_referring_def)
  qed (simp_all add: ex_referring_rows id w ex_table_fits(4) [OF w(9)] seen)
qed

end
