(* ===== verification/Spec2Isabelle.thy ===== *)
theory Spec2Isabelle
  imports Catalog_Examples Catalog_Rows Statement_Examples Decimal Kv_Sessions Engine_Limits
    Array_Text Row_Drift Check_Examples
begin

text \<open>
  \<^bold>\<open>pg_gateway: a PostgreSQL and MySQL gateway over a key-value store.\<close>

  The program accepts SQL over two wire protocols, keeps table descriptors in a catalog, stores
  rows as records under typed keys in a key-value store (in memory or the external
  \<open>kv_engine\<close>), and runs queries either directly over the store or through DataFusion.
  This development models the core below the SQL syntax: the data, its encodings, the store with
  its transactions, the locks, the values' conversions and the aggregates pushed into scans.

  \<^bold>\<open>Conventions.\<close> A struct is a record, an enum a datatype; constructors of
  \<open>ColumnValue\<close> carry the prefix \<open>V\<close>, those of \<open>DataType\<close> the prefix \<open>T\<close>. Machine
  integers are words of their width, so arithmetic wraps as it does in a release build; floats
  are their bit patterns. A string is its UTF-8 bytes as characters. A fallible function returns
  \<open>'a res\<close>, with \<open>Inl\<close> the SQLSTATE and message of \<open>user_error\<close>; where the code turns an
  error into its text, the model keeps the error. A panic is an error of its own
  (\<open>Rust_Str.panic\<close>). A \<open>BTreeMap\<close> is a strictly sorted association list
  (\<open>Ordered_Map\<close>), a \<open>HashMap\<close> an association list without an order that matters. Code outside
  the repository is a parameter: printing and reading of floats, the JSON reader and the debug
  printer (\<open>Value_Text.text_env\<close>), the storage engine's cursor
  (\<open>Engine_Aggregates.range_cursor\<close>) and the iteration order of hash maps. The
  engine itself is a record of operations (\<open>Engine_Store.kv_engine\<close>) under a contract. Every
  definition is total, by structural recursion or a termination proof, but for the loops over the
  engine's batches (\<open>Engine_Store.batch_loop\<close>) and over batches of rows (\<open>Row_Access.v2_batches\<close>,
  \<open>legacy_batches\<close>), where not ending is the value \<open>None\<close>; no fuel is used.

  \<^bold>\<open>Theories and sources\<close> (paths below \<open>src/src\<close>).

  \<^item> \<open>Prelude\<close>, \<open>Rust_Str\<close>: words, bytes, UTF-8, the result type (\<open>error.rs\<close>), and the parts
    of the standard library the code uses on slices and strings.
  \<^item> \<open>Value_Types\<close>, \<open>Value_Order\<close>, \<open>Decimal\<close>, \<open>Ieee\<close>: cell values, column types and schemas
    (\<open>types/column_value.rs\<close>, \<open>types/data_type.rs\<close>, \<open>types/schema.rs\<close>, \<open>types/row.rs\<close>); their
    equality and order, with the comparison of decimal texts; IEEE numbers.
  \<^item> \<open>Value_Text\<close>, \<open>Value_Coerce\<close>, \<open>Text_Roundtrip\<close>, \<open>Array_Text\<close>: printing, parsing and coercion of values
    (\<open>types/column_value.rs\<close>, \<open>sql/values\<close>): what is accepted has the column's shape, MySQL
    integers are accepted exactly within their documented ranges, arrays of the element types whose
    text is read back (\<open>reads_back\<close>) survive printing and parsing.
  \<^item> \<open>Cursor\<close>, \<open>Tuple_Codec\<close>, \<open>Fixed_Codec\<close>: the byte cursor, self-describing values and
    fixed-width slots (\<open>storage_layout/cursor.rs\<close>, \<open>tuple_codec.rs\<close>): round trips, skipping.
  \<^item> \<open>Key_Codec\<close>, \<open>Keys\<close>: typed key segments, all key builders, ranges and key decoders
    (\<open>storage_layout/keys.rs\<close>, \<open>olap_stats.rs\<close>): keys are injective and prefix free, ranges hold
    exactly the rows within the bounds for the ordered key types.
  \<^item> \<open>Row_Records\<close>, \<open>Row_Codec\<close>, \<open>Row_Project\<close>: the three record formats, the in-place
    encoder, the full and projected readers and the numeric fast path
    (\<open>storage_layout/row_codec.rs\<close>, \<open>fast_row_decode.rs\<close>): rows read back, also under a schema
    with added columns, and every reader agrees with the full one.
  \<^item> \<open>Row_Drift\<close>: records under a descriptor whose column types have changed their widths since: a
    widened column, and a MySQL \<open>INT\<close> column read back from the catalog as \<open>INT\<close>.
  \<^item> \<open>Olap_Stats\<close>: column chunks, zone maps and statistics (\<open>olap_stats.rs\<close>): round trips.
  \<^item> \<open>Ordered_Map\<close>, \<open>Kv_Store\<close>, \<open>Kv_Sessions\<close>: the in-memory store and its transactions (\<open>mem_store.rs\<close>):
    scans refine the view of own writes over the store, snapshots, savepoints, commit, and
    sessions interleaving as a step relation; what a session reads from its begin on.
  \<^item> \<open>Mysql_Locks\<close>: the lock manager (\<open>core/server/mysql_locks.rs\<close>, \<open>shared.rs\<close>,
    \<open>context_session.rs\<close>) as a step relation: mutual exclusion, exact deadlock detection, no
    circular waits, progress of the head of the queue.
  \<^item> \<open>Aggregates\<close>, \<open>Engine_Aggregates\<close>, \<open>Engine_Agreement\<close>, \<open>Engine_Numeric\<close>,
    \<open>Numeric_Agreement\<close>: filters and aggregates inside scans (\<open>mem_store.rs\<close>,
    \<open>kv_engine_store/projected_aggregate.rs\<close>, \<open>aggregate_scan.rs\<close>, \<open>fast_numeric_plan.rs\<close>,
    \<open>fast_numeric_eval.rs\<close>, \<open>profile.rs\<close>): the groups are exact, the two stores agree, the
    numeric fast path agrees with the general scan on integer columns for the aggregates it computes
    the same way (\<open>agreeing\<close>).
  \<^item> \<open>Engine_Store\<close>, \<open>Engine_Limits\<close>: the store and the transactions over the external engine
    (\<open>kv_engine_store/store.rs\<close>, \<open>transaction.rs\<close>), with the engine as a record of operations.
    Under \<open>engine_contract\<close> every loop over its batches ends, transactions behave like the
    in-memory ones (limited scans only when no pending write deletes a stored row of the range), visiting a range meets the same rows and outdated records are rewritten;
    \<open>ref_engine\<close> is an engine that fulfils the contract.
  \<^item> \<open>Store_Ops\<close>: the trait \<open>KvStore\<close> as a record of operations, programs over it with their failures
    and what they compute on the view of a store; both stores fulfil the contract.
  \<^item> \<open>Type_Names\<close>: reading and printing type names (\<open>types/data_type.rs\<close>): what a type is after it has
    been stored under its name.
  \<^item> \<open>Cell_Codec\<close>: the older format with one entry per cell (\<open>codec.rs\<close>): cells and keys read back.
  \<^item> \<open>Catalog_Codec\<close>, \<open>Catalog_Store\<close>: the descriptors of databases, schemas, tables, indexes and views,
    their JSON documents and keys, and the operations of \<open>CatalogStore\<close> as programs over a store
    (\<open>catalog/types.rs\<close>, \<open>codec.rs\<close>, \<open>store.rs\<close>, \<open>legacy.rs\<close>, \<open>mode.rs\<close>, \<open>types/schema.rs\<close>).
    \<open>serde_json\<close> is the parameter \<open>json_lib\<close>, with the hypothesis that a printed document is read
    back (\<open>json_reads_back\<close>; stated for every document, used only on the shallow ones of the catalog).
  \<^item> \<open>Catalog_Laws\<close>, \<open>Catalog_Invariant\<close>, \<open>Catalog_Ops\<close>: objects under a name and an id (the locale
    \<open>catalog_kind\<close>, with counters \<open>counted_kind\<close>), the invariant \<open>catalog_inv\<close>, and what every operation
    returns and leaves, on every store of the contract of \<open>Store_Ops\<close>.
  \<^item> \<open>Catalog_Rows\<close>: rows written under one descriptor and read under the one the catalog returns.
  \<^item> \<open>Gateway_Session\<close>, \<open>Session_Laws\<close>, \<open>Session_Ends\<close>: sessions with their transactions, savepoints,
    isolation levels and store calls (\<open>core/server/transactions.rs\<close>, \<open>core/server.rs\<close>) over the
    in-memory store; what a session sees (\<open>session_view\<close>: the store, the snapshot, its pending
    writes), every call as a computation on it, and begin, commit and rollback.
  \<^item> \<open>Row_Access\<close>, \<open>Row_Write\<close>: reading, scanning, writing and deleting rows with constraints, foreign
    keys, both formats of index entries, column chunks and statistics (\<open>core/server/scans.rs\<close>,
    \<open>row_write.rs\<close>, \<open>row_constraints.rs\<close>, \<open>row_indexes.rs\<close>, \<open>olap_refresh.rs\<close>, sequences of
    \<open>search_path.rs\<close>). The parser of check constraints is a parameter (\<open>check_parser\<close>).
  \<^item> \<open>Row_Laws\<close>, \<open>Row_Checks\<close>, \<open>Row_Effects\<close>, \<open>Index_Entries\<close>, \<open>Row_Outcome\<close>, \<open>Row_Commands\<close>,
    \<open>Write_Checks\<close>, \<open>Row_Scans\<close>: the rows of a table as a map from primary keys (\<open>table_of\<close>) with its invariant
    (\<open>table_inv\<close>: readable records, entries of every index exactly those of the rows). The areas
    of keys do not meet, so the updates of a command act on one each; the checks only look; a
    command fails and changes nothing the session sees or changes the map at one key and keeps the
    invariant; a write succeeds when foreign keys (\<open>fk_holds\<close>), unique indexes and unique constraints
    allow it; scans by key range, in batches and through an index return the rows of the map.
  \<^item> \<open>Row_Statements\<close>: the statements on rows (\<open>core/server/mutations.rs\<close>, \<open>dml_conflict.rs\<close>, the plans
    of INSERT and SELECT in \<open>executor.rs\<close>). An expression is the function its evaluation gives, a
    filter its predicate; the evaluation of a default's text is a parameter (\<open>default_eval\<close>).
  \<^item> \<open>Statement_Laws\<close>: UPDATE, DELETE and INSERT on the table as a map. A statement works row by row
    (\<open>loop_runs\<close>): it changes all rows it takes, or fails and has changed a first part of them.
    The access through a range of an index is modelled and not covered by these laws.
  \<^item> \<open>Examples\<close>, \<open>Catalog_Examples\<close>, \<open>Row_Examples\<close>, \<open>Check_Examples\<close>,
    \<open>Statement_Examples\<close>: the concrete tables, rows, sessions and catalogs of the witnesses,
    with a document format that fulfils \<open>json_reads_back\<close>.

  The interfaces between the components are locales: what a reader promises after a writer
  (\<open>cursor_codec\<close>), an ordered map (\<open>ordered_map\<close>), a key type in its order (\<open>key_order\<close>), a space
  of keys with reads and writes (\<open>kv_space\<close>, interpreted on the store and on a transaction) and a
  table of groups (\<open>group_table\<close>, interpreted on the sorted map of the general scan and on the
  hash map of the fast path), a store that programs run on (\<open>kv_implementation\<close>, interpreted on the
  in-memory store, on the adapter over an engine and on the store under a session), a kind of catalog
  object (\<open>catalog_kind\<close>, interpreted on the five kinds) and a format of index entries
  (\<open>entry_format\<close>, interpreted on the entries by identifier and by name).

  \<^bold>\<open>Bounds.\<close> Lengths written as 32-bit numbers are assumed to fit (\<open>record_fits\<close>, \<open>key_ok\<close>,
  \<open>value_ok\<close>, \<open>group_ok\<close>, \<open>index_fits\<close>); every hypothesis has a witness. The laws of the row commands are
  for tables without rows of the older format (\<open>no_legacy_rows\<close>), which the commands also keep.

  \<^bold>\<open>Not modelled.\<close> The SQL syntax trees of the external \<open>sqlparser\<close> crate and what walks them
  (\<open>sql/eval_core.rs\<close>, \<open>filter.rs\<close>, the planners and the rest of the executor under \<open>core/server\<close>), the DataFusion
  bridge, the wire protocols, log lines and profile counters, process start-up, and the vendored
  MySQL protocol crate. \<open>ALTER TABLE\<close> and building an index over existing rows are not modelled
  either; they call the row commands above.
\<close>

section \<open>Rows\<close>

text \<open>C8. A row written by \<open>encode_row_record_with_mvcc\<close> is read back by
  \<open>decode_row_record\<close> under any schema that only adds columns to the writer's: every column
  of the writer has its value (NULL where the row had none), every added column is NULL, and
  the result has exactly the reader's columns.\<close>

theorem row_record_roundtrip:
  assumes "record_fits s row" "row_typed s row" "columns s' = columns s @ extra"
    and "distinct (column_names s')"
  shows "\<exists>out. decode_row_record s' (encode_row_record_with_mvcc s row mvcc) = Inr out \<and>
    dom out = set (column_names s') \<and>
    (\<forall>c \<in> set (columns s). out (col_name c) = Some (row_value row c)) \<and>
    (\<forall>c \<in> set extra. out (col_name c) = Some VNull)"
  by (rule decode_encode_row_record [OF assms])

theorem row_record_roundtrip_witness:
  "\<exists>out. decode_row_record ex_schema_added (encode_row_record_with_mvcc ex_schema ex_row mvcc_default)
      = Inr out \<and> out ''id'' = Some (VInt64 7) \<and> out ''name'' = Some (VText ''ab'') \<and>
    out ''score'' = Some VNull \<and> out ''note'' = Some VNull"
  using row_record_roundtrip [OF ex_fits ex_typed ex_names(3) ex_names(2), of mvcc_default]
  by (auto simp: ex_defs row_value_def)

text \<open>The encoder, which fills one buffer in place while it walks the columns, produces the
  header, the null bitmap, the slots, the directory and the payload one after the other.\<close>

theorem row_encoder_sections:
  assumes "length (payload_sec row (columns s)) < 2 ^ 32"
  shows "encode_row_record_with_mvcc s row mvcc =
    row_header_bytes s mvcc @ null_bitmap row (columns s) @ fixed_sec row (columns s)
      @ dir_sec row 0 (columns s) @ payload_sec row (columns s)"
  by (rule encode_row_record_sections [OF assms])

theorem row_encoder_sections_witness:
  "length (payload_sec ex_row (columns ex_schema)) < 2 ^ 32 \<and>
   take 34 (encode_row_record_with_mvcc ex_schema ex_row mvcc_default) =
     row_header_bytes ex_schema mvcc_default @ [2]"
proof -
  have "length (payload_sec ex_row (columns ex_schema)) < 2 ^ 32"
    using ex_fits by (simp only: record_fits_def)
  moreover have "null_bitmap ex_row (columns ex_schema) = [2]"
    by (simp add: ex_defs row_value_def is_null_def div_ceil_def set_null_bit_def)
  ultimately show ?thesis
    using row_encoder_sections [of ex_row ex_schema mvcc_default] by simp
qed

text \<open>The projected reader returns the values the full reader would, for any list of column
  positions, repeated or not, also for columns added after the row was written.\<close>

theorem projected_values_of_row:
  assumes "record_fits s row" "row_typed s row" "columns s' = columns s @ extra"
    and "\<forall>i \<in> set indices. i < length (columns s')"
  shows "decode_row_record_projected_values s' (encode_row_record_with_mvcc s row mvcc) indices =
    Inr (map (\<lambda>i. (map (row_value row) (columns s) @ replicate (length extra) VNull) ! i) indices)"
  by (rule projected_values_encode [OF assms])

theorem projected_values_of_row_witness:
  "decode_row_record_projected_values ex_schema_added
     (encode_row_record_with_mvcc ex_schema ex_row mvcc_default) [2, 0, 3, 0] =
   Inr [VText ''ab'', VInt64 7, VNull, VInt64 7]"
  using projected_values_of_row [OF ex_fits ex_typed ex_names(3), of "[2, 0, 3, 0]" mvcc_default]
  by (simp add: ex_values) (simp add: ex_defs)

text \<open>The numeric fast path, which reads slots at offsets computed from the schema alone,
  yields for every fixed-width numeric column the number the full reader's value converts to.\<close>

theorem fast_numeric_of_row:
  assumes "record_fits s row" "row_typed s row"
    and "\<forall>i \<in> set indices. i < length (columns s) \<and> numeric_column (columns s ! i)"
    and "length vs = length indices"
  shows "decode_row_record_fast_numeric_with (fast_numeric_projector_new s indices)
      (encode_row_record_with_mvcc s row mvcc) vs =
    Inr (map (\<lambda>i. the (column_value_to_fast_numeric (row_value row (columns s ! i)))) indices)"
  by (rule fast_numeric_encode [OF assms])

theorem fast_numeric_of_row_witness:
  "decode_row_record_fast_numeric_with (fast_numeric_projector_new ex_schema [1, 0])
     (encode_row_record_with_mvcc ex_schema ex_row mvcc_default) [FI64 1, FI64 2] =
   Inr [FNull, FI64 7]"
proof -
  have "\<forall>i \<in> set [1, 0]. i < length (columns ex_schema) \<and> numeric_column (columns ex_schema ! i)"
    by (simp add: ex_defs numeric_column_def is_variable_def fixed_width_def)
  from fast_numeric_of_row [OF ex_fits ex_typed this, of "[FI64 1, FI64 2]" mvcc_default]
  show ?thesis by (simp add: ex_defs row_value_def column_value_to_fast_numeric_def)
qed

text \<open>On a record of either older format the projected reader, which skips the columns it
  was not asked for, returns the values the raw decoder finds under the projected columns' ids,
  and NULL for an id the record does not have.\<close>

theorem projected_values_of_raw:
  assumes "decode_row_record_raw bs = Inr r" "\<forall>i \<in> set indices. i < length (columns s)"
    and "distinct (projected_ids s indices)"
  shows "decode_row_record_projected_values s bs indices =
    Inr (map (\<lambda>cid. case bt_get (rec_values r) cid of Some v \<Rightarrow> v | None \<Rightarrow> VNull)
           (projected_ids s indices))"
  by (rule projected_values_raw [OF assms])

theorem projected_values_of_raw_witness:
  "decode_row_record_projected_values ex_schema ex_record [2, 0] = Inr [VNull, VInt64 7]"
  using projected_values_of_raw [OF ex_record_raw, of "[2, 0]" ex_schema]
  by (simp add: ex_defs projected_ids_def ex_raw_def ex_entries_def)

text \<open>Rewriting a record of an older format in the current one does not change what it reads
  as.\<close>

theorem reencode_preserves_row:
  assumes "decode_row_record_raw bs = Inr r" "\<not> is_row_tombstone r"
    and "row = insert_record_columns (rec_values r) (columns s) Map.empty"
    and "record_fits s row" "row_typed s row" "distinct (column_names s)"
  shows "\<exists>bs'. reencode_row_record_fast s bs = Inr (Some bs') \<and>
    decode_row_record s bs' = decode_row_record s bs \<and> decode_row_record s bs = Inr row"
  by (rule reencode_row_record_fast_reads [OF assms])

theorem reencode_preserves_row_witness:
  "\<exists>bs'. reencode_row_record_fast ex_schema ex_record = Inr (Some bs') \<and>
    decode_row_record ex_schema bs' = decode_row_record ex_schema ex_record"
proof -
  define row where "row = insert_record_columns (rec_values ex_raw) (columns ex_schema) Map.empty"
  have "row_typed ex_schema row"
    by (simp add: row_def row_typed_def ex_defs row_value_def has_type_def ex_raw_def ex_entries_def)
  moreover have "record_fits ex_schema row"
    by (simp add: row_def record_fits_def payload_sec_def var_bytes_def fixed_region_len_sum
        div_ceil_def is_variable_def width_of_def fixed_width_def ex_defs row_value_def is_null_def
        ex_raw_def ex_entries_def)
  moreover have "\<not> is_row_tombstone ex_raw" by (simp add: is_row_tombstone_def ex_raw_def)
  ultimately show ?thesis
    using reencode_preserves_row [OF ex_record_raw _ row_def _ _ ex_names(1)] by blast
qed

text \<open>C30. Widening an \<open>INT\<close> column to \<open>BIGINT\<close> changes the layout the reader expects, at whatever place the
  column stands among others: a record written before, whose columns without a slot of their own are
  all NULL (every record of a table that has none), cannot be read after.\<close>

theorem widened_column_error:
  assumes "columns s = xs @ c # ys" "columns s' = xs @ c\<lparr>col_type := TInt64\<rparr> # ys" "col_type c = TInt32"
    and "length (columns s) < 2 ^ 32"
    and "\<forall>c' \<in> set (columns s). fixed_width (col_type c') = None \<longrightarrow> is_null (row_value row c')"
  shows "decode_row_record s' (encode_row_record_with_mvcc s row mvcc) =
    Inl (user_error ''XX000'' ''truncated fixed row header'')"
  using widened_column_unreadable [OF assms(1-4)] assms(5) by (simp add: is_variable_def)

theorem widened_column_error_witness:
  "decode_row_record (ex_schema\<lparr>columns := [ex_column 1 ''id'' TInt64 True, ex_column 2 ''name'' TText False]\<rparr>)
     (encode_row_record_with_mvcc
        (ex_schema\<lparr>columns := [ex_column 1 ''id'' TInt32 True, ex_column 2 ''name'' TText False]\<rparr>)
        [''id'' \<mapsto> VInt32 7] mvcc_default) =
   Inl (user_error ''XX000'' ''truncated fixed row header'')"
  by (rule widened_column_error [of _ "[]" "ex_column 1 ''id'' TInt32 True" "[ex_column 2 ''name'' TText False]"])
    (simp_all add: ex_column_def fixed_width_def row_value_def is_null_def)

section \<open>Values\<close>

text \<open>C24. Whatever \<open>coerce_column_value\<close> and \<open>parse_text_for_type\<close> accept for a column has the
  shape of the column's type, arrays and their elements included.\<close>

theorem coercion_type_sound:
  assumes "coerce_column_value env x dt = Inr v \<or> parse_text_for_type env dt raw = Inr v"
  shows "has_type dt v"
  using assms coerce_column_value_has_type parse_text_has_type by blast

theorem coercion_type_sound_witness:
  "has_type TInt16 (VInt16 7) \<and> coerce_column_value ex_env (VInt32 7) TInt16 = Inr (VInt16 7)"
proof -
  have "coerce_column_value ex_env (VInt32 7) TInt16 = Inr (VInt16 7)"
    by (simp add: coerce_scalar_def coerce_int32_def try_int16_def)
  then show ?thesis using coercion_type_sound [of ex_env "VInt32 7" TInt16 "VInt16 7" "[]"] by blast
qed

text \<open>C29. The MySQL integer types accept exactly the documented ranges, signed and unsigned, and what is
  stored denotes the number given, in the variant of the column's type; every other number is refused with
  SQLSTATE 22003.\<close>

theorem mysql_integer_range_exact:
  "let documented = (case (ik, uns) of
        (Tiny, False) \<Rightarrow> {- 128 .. 127} | (Tiny, True) \<Rightarrow> {0 .. 255}
      | (Small, False) \<Rightarrow> {- 32768 .. 32767} | (Small, True) \<Rightarrow> {0 .. 65535}
      | (Medium, False) \<Rightarrow> {- 8388608 .. 8388607} | (Medium, True) \<Rightarrow> {0 .. 16777215}
      | (IntKind, False) \<Rightarrow> {- 2147483648 .. 2147483647} | (IntKind, True) \<Rightarrow> {0 .. 4294967295}
      | (Big, False) \<Rightarrow> {- 9223372036854775808 .. 9223372036854775807}
      | (Big, True) \<Rightarrow> {0 .. 18446744073709551615})
   in (\<exists>v. mysql_integer_from_i128 k ik uns = Inr v \<and> stored_int v = Some k \<and> has_type (TMySqlInt ik uns) v)
        = (k \<in> documented) \<and>
      (\<exists>msg. mysql_integer_from_i128 k ik uns = Inl (user_error ''22003'' msg)) = (k \<notin> documented)"
proof -
  note shape = mysql_integer_shape [of k ik uns]
  show ?thesis
    using mysql_integer_exact [of k ik uns] shape
    by (cases ik; cases uns) (auto simp: mysql_integer_range_def mysql_integer_from_i128_def has_type_def)
qed



text \<open>An array element that is the text null is printed without quotes and read back as NULL.\<close>

theorem null_text_becomes_null:
  "\<exists>t. to_text env (VArray [VText ''null'']) = Some t \<and>
     parse_text_for_type env (TArray TText) t = Inr (VArray [VNull])"
  using null_word_lost by blast

text \<open>Reading a \<open>bytea\<close> text in hexadecimal form panics on some valid strings: the digits are
  taken two bytes at a time, and a pair may split a character.\<close>

theorem bytea_text_panics:
  "\<exists>raw. valid_string raw \<and> parse_bytea raw = Inl (panic ''byte index is not a char boundary'')"
  using parse_bytea_panics by blast

text \<open>The order of values is antisymmetric: comparing the other way round reverses the answer,
  and values that do not compare one way do not compare the other way either.\<close>

theorem value_order_antisymmetric:
  "partial_cmp y x = map_option reverse_ordering (partial_cmp x y)"
  by (simp add: partial_cmp_reverse)

text \<open>A number assigned to a \<open>VARCHAR(n)\<close> or \<open>ENUM\<close> column is stored as its digits without the
  checks that a text goes through.\<close>

theorem number_skips_text_checks:
  "coerce_column_value env (VInt32 i) (TVarChar (Some 0)) = Inr (VText (show_int (sint i))) \<and>
   coerce_column_value env (VInt32 i) (TEnum []) = Inr (VText (show_int (sint i)))"
  by (simp add: coerce_scalar_def coerce_int32_def)

section \<open>Aggregates\<close>

text \<open>C25. A grouped aggregate scan of the in-memory store returns one row per group key, in key
  order, with the group's values and each aggregate taken over exactly the rows of the group that
  pass the filters.\<close>

theorem aggregate_groups_exact:
  assumes "list_all2 (\<lambda>e r. aggregate_row plan e = Inr r)
      (mem_scan_range_projected store (ag_range_start plan) (ag_range_end plan) None False (projection plan)) rs"
    and "group_indices plan \<noteq> []"
    and "vals = (\<lambda>row. kv_group_values (ag_schema plan) row (group_indices plan))"
  shows "aggregate_scan env plan store =
    Inr (grouped_result (\<lambda>row. kv_group_key env (vals row)) vals (value_at (ag_schema plan))
      (aggregates plan) (matching_rows plan rs))"
  using aggregate_scan_groups [OF assms(1,2), of env] by (simp add: assms(3))

theorem aggregate_groups_exact_witness:
  "\<exists>row. aggregate_scan ex_env (ex_plan [0] [0] [CountStar]) ex_store =
     Inr (grouped_result (\<lambda>row. kv_group_key ex_env (kv_group_values ex_schema row [0]))
       (\<lambda>row. kv_group_values ex_schema row [0]) (value_at ex_schema) [CountStar]
       (matching_rows (ex_plan [0] [0] [CountStar]) [Some row]))"
proof -
  let ?plan = "ex_plan [0] [0] [CountStar]"
  obtain row where "reads_as ?plan (row_entry ex_schema mvcc_default ex_row) row"
    using row_entry_reads [OF ex_writable ex_names(1), of ?plan mvcc_default] by (auto simp: ex_plan_def ex_defs)
  then have "list_all2 (\<lambda>e r. aggregate_row ?plan e = Inr r)
      (mem_scan_range_projected ex_store (ag_range_start ?plan) (ag_range_end ?plan) None False (projection ?plan)) [Some row]"
    by (simp add: ex_plan_def mem_scan_range_projected_def ex_store_scan reads_as_def case_prod_beta)
  from aggregate_groups_exact [OF this _ refl, of ex_env] show ?thesis by (auto simp: ex_plan_def)
qed

text \<open>Over a \<open>BIGINT\<close> column the aggregates are what SQL asks for: the number of rows, the
  number of values, their sum modulo \<open>2 ^ 64\<close>, their greatest and least value, and NULL where
  there is no value.\<close>

theorem bigint_aggregates_exact:
  assumes "\<forall>look \<in> set rows. look i = VNull \<or> (\<exists>x. look i = VInt64 x)" "cells = bigint_cells rows i"
  shows "aggregate_of rows CountStar = VInt64 (of_nat (length rows)) \<and>
    aggregate_of rows (CountColumn i) = VInt64 (of_nat (length cells)) \<and>
    aggregate_of rows (SumColumn i) = (if cells = [] then VNull else VInt64 (sum_list cells)) \<and>
    aggregate_of rows (MaxColumn i) = (if cells = [] then VNull else VInt64 (word_of_int (Max (sint ` set cells)))) \<and>
    aggregate_of rows (MinColumn i) = (if cells = [] then VNull else VInt64 (word_of_int (Min (sint ` set cells))))"
proof -
  have "length (filter (\<lambda>look. \<not> is_null (look i)) rows) = length cells"
    using assms(1) unfolding assms(2) by (induction rows) (auto simp: is_null_def)
  then show ?thesis
    using count_star count_column sum_bigint [OF assms(1)] extreme_bigint [OF assms(1)] assms(2) by simp
qed

theorem bigint_aggregates_exact_witness:
  "aggregate_of [\<lambda>_. VInt64 3, \<lambda>_. VNull, \<lambda>_. VInt64 (- 2)] (MinColumn 0) = VInt64 (- 2)"
  using bigint_aggregates_exact [of "[\<lambda>_. VInt64 3, \<lambda>_. VNull, \<lambda>_. VInt64 (- 2)]" 0 "[3, - 2]"] by simp

text \<open>Group keys of the engine keep groups apart: for columns of given types, two lists of
  group values have the same key only if they are the same.\<close>

theorem typed_group_key_injective:
  assumes "list_all2 has_type dts vs" "list_all2 has_type dts ws" "list_all group_ok vs" "list_all group_ok ws"
    and "typed_group_key vs = typed_group_key ws"
  shows "vs = ws"
  using typed_group_key_inj [OF assms(1-4)] assms(5) by blast

theorem typed_group_key_injective_witness:
  "typed_group_key [VText ''a'', VText ''bc''] \<noteq> typed_group_key [VText ''ab'', VText ''c'']"
  using typed_group_key_injective [of "[TText, TText]" "[VText ''a'', VText ''bc'']" "[VText ''ab'', VText ''c'']"]
  by (auto simp: has_type_def)

text \<open>C21. The two stores agree on aggregate queries: for rows that were written and a plan that
  projects the columns it uses, the engine's projected scan of the records returns what the
  in-memory store computes from the whole rows. Without grouping the answers are equal; with
  grouping they have the same rows in perhaps another order, if the texts that the memory store
  groups by tell the groups apart.\<close>

theorem stores_aggregate_alike:
  assumes "plan_covers plan" "ag_schema plan = s" "projection plan = KeyValue" "distinct (column_names s)"
    and "\<forall>row \<in> set rows. row_writable s row"
    and "mem_scan_range store (ag_range_start plan) (ag_range_end plan) None False = map (row_entry s mvcc) rows"
    and "inj_on (kv_group_key env) (vals ` set rows)" "inj_on typed_group_key (vals ` set rows)"
    and "vals = (\<lambda>row. kv_group_values s row (group_indices plan))"
  shows "if group_indices plan = []
    then reduce_ungrouped_projected_scan (map (row_entry s mvcc) rows, None) plan = aggregate_scan env plan store
    else \<exists>out out'. reduce_grouped_projected_scan (map (row_entry s mvcc) rows, None) plan = Inr out \<and>
      aggregate_scan env plan store = Inr out' \<and> mset out = mset out'"
  using written_scans_agree [OF assms(1-6), of env] assms(7-9) by simp

theorem stores_aggregate_alike_witness:
  "reduce_ungrouped_projected_scan ([row_entry ex_schema mvcc_default ex_row], None) (ex_plan [] [0, 2] [CountColumn 2]) =
     aggregate_scan ex_env (ex_plan [] [0, 2] [CountColumn 2]) ex_store \<and>
   (\<exists>out out'. reduce_grouped_projected_scan ([row_entry ex_schema mvcc_default ex_row], None)
       (ex_plan [2] [0, 2] [CountStar]) = Inr out \<and>
     aggregate_scan ex_env (ex_plan [2] [0, 2] [CountStar]) ex_store = Inr out' \<and> mset out = mset out')"
proof -
  have *: "plan_covers (ex_plan [] [0, 2] [CountColumn 2])" "plan_covers (ex_plan [2] [0, 2] [CountStar])"
    "ag_schema (ex_plan g r a) = ex_schema" "projection (ex_plan g r a) = KeyValue"
    "ag_range_start (ex_plan g r a) = []" "ag_range_end (ex_plan g r a) = None" "group_indices (ex_plan g r a) = g" for g r a
    by (simp_all add: plan_covers_def ex_plan_def ex_defs)
  show ?thesis
    using stores_aggregate_alike [OF *(1,3,4) ex_names(1), of "[ex_row]" ex_store mvcc_default ex_env, OF _ _ _ _ refl]
      stores_aggregate_alike [OF *(2,3,4) ex_names(1), of "[ex_row]" ex_store mvcc_default ex_env, OF _ _ _ _ refl]
      ex_store_scan ex_writable by (simp add: *)
qed



text \<open>C34. A SUM over no rows is NULL in the general scan and 0 on the numeric fast path, which the
  same query takes when its columns are plain numbers.\<close>

theorem fast_sum_of_no_rows:
  assumes "build_fast_numeric_aggregate_plan plan = Some fp" "aggregates plan = [SumColumn i]"
    and "i < length (columns (ag_schema plan))" "col_type (columns (ag_schema plan) ! i) = TInt64"
  shows "reduce_ungrouped_fast_numeric_scan ([], None) plan fp = Inr [[VInt64 0]] \<and>
    reduce_ungrouped_projected_scan ([], None) plan = Inr [[VNull]]"
  using fast_sum_of_nothing [OF assms(2-4)] by simp

theorem fast_sum_of_no_rows_witness:
  "reduce_ungrouped_fast_numeric_scan ([], None) (ex_plan [] [0] [SumColumn 0])
     (the (build_fast_numeric_aggregate_plan (ex_plan [] [0] [SumColumn 0]))) = Inr [[VInt64 0]]"
proof -
  let ?plan = "ex_plan [] [0] [SumColumn 0]"
  have "build_fast_numeric_aggregate_plan ?plan = Some (the (build_fast_numeric_aggregate_plan ?plan))"
    by (simp add: build_fast_numeric_aggregate_plan_def ex_plan_def ex_defs fast_numeric_data_type_def
        column_slot_def slice_get_def column_value_to_fast_numeric_def)
  then show ?thesis using fast_sum_of_no_rows [of ?plan _ 0] by (simp add: ex_plan_def ex_defs)
qed

section \<open>Keys and ranges\<close>

text \<open>C12. No two objects of the store share a key: rows, row versions, index entries, column
  chunks, statistics and descriptors, of any tables and epochs, are kept apart by their keys,
  whatever types the schemas give to primary keys and indexed columns.\<close>

theorem storage_keys_injective:
  assumes "key_typed pkt ixt ipkt j" "key_typed pkt ixt ipkt k" "key_bytes j = key_bytes k"
  shows "j = k"
  by (rule key_bytes_inj [OF assms])

theorem storage_keys_injective_witness:
  "key_bytes (KRow 5 1 (VInt64 7)) \<noteq> key_bytes (KRowVersion 5 1 (VInt64 7) 3)"
  using storage_keys_injective [of "\<lambda>_. TInt64" "\<lambda>_. TText" "\<lambda>_. TInt64" "KRow 5 1 (VInt64 7)"
      "KRowVersion 5 1 (VInt64 7) 3"]
  by (auto simp: has_type_def)

text \<open>A range built with \<open>next_prefix\<close> holds exactly the keys that start with the prefix,
  also when the prefix ends in or consists of \<open>0xFF\<close> bytes.\<close>

theorem prefix_range_exact:
  "in_range (prefix_range p limit) k = starts_with k p"
  by (rule in_prefix_range)

text \<open>For a \<open>BIGINT\<close> primary key a range with any combination of missing, inclusive and
  exclusive bounds holds exactly the rows whose key lies within the bounds as signed numbers.\<close>

theorem int64_range_exact:
  "in_range (row_range_between t e (map_option (apfst VInt64) lower) (map_option (apfst VInt64) upper) lmt)
     (row_key t e (VInt64 x)) =
   ((case lower of None \<Rightarrow> True | Some (a, incl) \<Rightarrow> if incl then sint a \<le> sint x else sint a < sint x) \<and>
    (case upper of None \<Rightarrow> True | Some (b, incl) \<Rightarrow> if incl then sint x \<le> sint b else sint x < sint b))"
  using i64_keys.row_range_between_exact [of t e lower upper lmt x]
  unfolding i64_keys.bound_def i64_keys.above_def i64_keys.below_def
  by (simp add: not_less cong: option.case_cong prod.case_cong if_cong)

text \<open>For a \<open>DOUBLE\<close> primary key an inclusive lower and an exclusive upper bound select by
  the IEEE order, for all numbers but the two zeros against each other.\<close>

theorem float64_range_exact:
  assumes "f64_partial_cmp x a \<noteq> None" "f64_partial_cmp x b \<noteq> None"
    and "f64_partial_cmp x a = Some Equal \<longrightarrow> x = a" "f64_partial_cmp x b = Some Equal \<longrightarrow> x = b"
  shows "in_range (row_range_between t e (Some (VFloat64 a, True)) (Some (VFloat64 b, False)) lmt)
      (row_key t e (VFloat64 x)) =
    (f64_partial_cmp x a \<noteq> Some Less \<and> f64_partial_cmp x b = Some Less)"
proof -
  have "in_range (row_range_between t e (Some (VFloat64 a, True)) (Some (VFloat64 b, False)) lmt)
      (row_key t e (VFloat64 x)) =
    (\<not> fp_key_less 52 11 (unat x) (unat a) \<and> fp_key_less 52 11 (unat x) (unat b))"
    using f64_keys.row_range_between_exact [of t e "Some (a, True)" "Some (b, False)" lmt x]
    unfolding f64_keys.bound_def f64_keys.above_def f64_keys.below_def by simp
  also have "fp_key_less 52 11 (unat x) (unat a) = (f64_partial_cmp x a = Some Less)"
    by (rule f64_key_less_cmp [OF assms(1,3)])
  also have "fp_key_less 52 11 (unat x) (unat b) = (f64_partial_cmp x b = Some Less)"
    by (rule f64_key_less_cmp [OF assms(2,4)])
  finally show ?thesis .
qed

theorem float64_range_exact_witness:
  "in_range (row_range_between 5 1 (Some (VFloat64 0xC000000000000000, True))
     (Some (VFloat64 0x4008000000000000, False)) None) (row_key 5 1 (VFloat64 0xBFF0000000000000))"
  by (subst float64_range_exact)
     (simp_all add: f64_partial_cmp_def fp_partial_cmp_def fp_is_nan_def fp_exp_def fp_frac_def
       fp_key_def fp_neg_def cmp_def)

text \<open>The range of a row's versions holds exactly that row's versions, for every row and
  table of the same key type, and a scan of it meets a higher version before a lower one.\<close>

theorem row_versions_newest_first:
  assumes "has_type dt pk" "key_ok pk" "has_type dt pk'" "key_ok pk'"
  shows "in_range (row_version_range t e pk lmt) (row_version_key t' e' pk' v) =
      (t = t' \<and> e = e' \<and> pk = pk') \<and>
    (row_version_key t e pk v < row_version_key t e pk w) = (w < v)"
  by (intro conjI row_version_range_versions [OF assms] row_version_key_less_iff)

theorem row_versions_newest_first_witness:
  "in_range (row_version_range 5 1 (VInt64 7) None) (row_version_key 5 1 (VInt64 7) 9) \<and>
   row_version_key 5 1 (VInt64 7) 9 < row_version_key 5 1 (VInt64 7) 8"
  using row_versions_newest_first [of TInt64 "VInt64 7" "VInt64 7" 5 1 None 5 1 9 8]
  by (simp add: has_type_def)

text \<open>The primary key is read back from row keys, row version keys (with the version) and
  index entry keys, for every readable key type.\<close>

theorem primary_key_roundtrip:
  assumes "has_type dt pk" "key_ok pk" "key_type_readable dt"
  shows "decode_pk_from_row_key (row_key t e pk) t e dt = Inr pk \<and>
    decode_pk_from_row_version_key (row_version_key t e pk v) t e dt = Inr (pk, v) \<and>
    decode_pk_from_index_entry_key (index_entry_key i iv pk) i iv dt = Inr pk"
  using decode_pk_from_row_key_row_key [OF assms]
    decode_pk_from_row_version_key_row_version_key [OF assms]
    decode_pk_from_index_entry_key_index_entry_key [OF assms] by simp

theorem primary_key_roundtrip_witness:
  "decode_pk_from_row_version_key (row_version_key 5 1 (VInt64 7) 9) 5 1 TInt64 = Inr (VInt64 7, 9)"
  using primary_key_roundtrip [of TInt64 "VInt64 7" 5 1 9] by (simp add: has_type_def)

text \<open>A \<open>YEAR\<close> or \<open>BIT\<close> primary key is written to row keys that the decoder refuses.\<close>

theorem year_key_unreadable:
  "decode_pk_from_row_key (row_key t e (VInt32 y)) t e TYear =
     Inl (user_error ''XX000'' ''typed key value does not match column type'') \<and>
   decode_pk_from_row_key (row_key t e (VInt64 b)) t e (TBit n) =
     Inl (user_error ''XX000'' ''typed key value does not match column type'')"
  using decode_key_year_bit(1) [of y "[]"] decode_key_year_bit(2) [of n b "[]"]
  by (simp add: decode_pk_from_row_key_def row_key_def key_mismatch_def)

text \<open>The prefix of an indexed value holds exactly the index entries of that value in that
  index.\<close>

theorem index_lookup_exact:
  assumes "has_type dt v" "key_ok v" "has_type dt v'" "key_ok v'"
  shows "in_range (prefix_range (index_prefix i v) lmt) (index_entry_key i' v' pk) =
    (i = i' \<and> v = v')"
  using index_prefix_entries [OF assms] by simp

theorem index_lookup_exact_witness:
  "in_range (prefix_range (index_prefix 3 (VText ''a'')) None) (index_entry_key 3 (VText ''a'') (VInt64 7)) \<and>
   \<not> in_range (prefix_range (index_prefix 3 (VText ''a'')) None) (index_entry_key 3 (VText ''ab'') (VInt64 7))"
  using index_lookup_exact [of TText "VText ''a''" "VText ''a''" 3 None 3 "VInt64 7"]
    index_lookup_exact [of TText "VText ''a''" "VText ''ab''" 3 None 3 "VInt64 7"]
  by (simp add: has_type_def ascii_str_ok)

text \<open>Text keys are ordered by their length before their contents.\<close>

theorem text_key_order:
  assumes "length s < 2 ^ 32" "length u < 2 ^ 32"
  shows "(row_key t e (VText s) < row_key t e (VText u)) =
    (length s < length u \<or> length s = length u \<and> s < u)"
  using encode_key_text_less_iff [OF assms] by (simp add: row_key_def del: encode_key_value.simps)

theorem text_key_order_witness:
  "row_key 5 1 (VText ''b'') < row_key 5 1 (VText ''aa'')"
  using text_key_order [of "''b''" "''aa''" 5 1] by simp

text \<open>C32. So a range over text primary keys loses rows: \<open>'b'\<close> is above \<open>'aa'\<close> and not in the
  range from \<open>'aa'\<close> on.\<close>

theorem text_range_misses_row:
  "''aa'' < ''b'' \<and>
   \<not> in_range (row_range_between t e (Some (VText ''aa'', True)) None lmt) (row_key t e (VText ''b''))"
proof
  show "''aa'' < ''b''" by (simp add: less_char_def)
  have "row_key t e (VText ''b'') < row_key t e (VText ''aa'')"
    using encode_key_text_less_iff [of "''b''" "''aa''"]
    by (simp add: row_key_def del: encode_key_value.simps)
  then show "\<not> in_range (row_range_between t e (Some (VText ''aa'', True)) None lmt) (row_key t e (VText ''b''))"
    by (simp add: in_range_def in_bounds_def row_range_between_def linorder_not_le [symmetric])
qed

section \<open>Values and statistics\<close>

text \<open>Comparing \<open>NUMERIC\<close> texts compares the rational numbers they denote, whatever leading
  and trailing zeros they are written with.\<close>

theorem numeric_order_exact:
  assumes "decimal_ok ip fp" "decimal_ok ip' fp'"
  shows "numeric_cmp (decimal_text neg ip fp) (decimal_text neg' ip' fp') =
    Some (cmp (decimal_value neg ip fp) (decimal_value neg' ip' fp'))"
  by (rule numeric_cmp_text [OF assms])

theorem numeric_order_exact_witness: "numeric_cmp ''-007.50'' ''-7.5'' = Some Equal"
proof -
  have "decimal_ok ''007'' ''50''" "decimal_ok ''7'' ''5''"
    by (simp_all add: decimal_ok_def is_digit_def less_eq_char_def)
  from numeric_order_exact [OF this, of True True] show ?thesis
    by (simp add: decimal_text_def decimal_value_def digit_val_def cmp_def)
qed

text \<open>A tuple value is read back from its encoding wherever it stands, nested arrays
  included, and the cursor stops exactly behind it.\<close>

theorem tuple_value_roundtrip:
  assumes "value_ok v" "cursor_ok c" "rest c = encode_tuple_value v @ ys"
  shows "decode_tuple_value c = Inr (v, advance (length (encode_tuple_value v)) c)"
  by (rule tuple.dec_enc [OF assms])

theorem tuple_value_roundtrip_witness:
  "decode_tuple_value (cursor_new (encode_tuple_value (VArray [VInt32 5, VNull]) @ [9])) =
   Inr (VArray [VInt32 5, VNull],
        advance 11 (cursor_new (encode_tuple_value (VArray [VInt32 5, VNull]) @ [9])))"
  using tuple_value_roundtrip [of "VArray [VInt32 5, VNull]"
      "cursor_new (encode_tuple_value (VArray [VInt32 5, VNull]) @ [9])" "[9]"]
  by simp

text \<open>Skipping a value moves the cursor to where decoding it would, on every input the
  decoder accepts, and the numeric reader returns the converted value.\<close>

theorem skip_agrees_with_decode:
  assumes "decode_tuple_value c = Inr (v, c')"
  shows "skip_tuple_value c = Inr c' \<and>
    decode_tuple_numeric_value c =
      (case column_value_to_fast_numeric v of
         Some x \<Rightarrow> Inr (x, c')
       | None \<Rightarrow> Inl (user_error ''XX000'' ''tuple value is not numeric''))"
  using skip_tuple_of_decode(1) [OF assms] decode_tuple_numeric_of_decode [OF assms] by simp

theorem skip_agrees_with_decode_witness:
  "skip_tuple_value (cursor_new (encode_tuple_value (VInt32 5))) =
     Inr (advance 5 (cursor_new (encode_tuple_value (VInt32 5))))"
proof -
  have "decode_tuple_value (cursor_new (encode_tuple_value (VInt32 5))) =
      Inr (VInt32 5, advance 5 (cursor_new (encode_tuple_value (VInt32 5))))"
    using tuple.dec_enc [of "VInt32 5" "cursor_new (encode_tuple_value (VInt32 5))" "[]"] by simp
  then show ?thesis using skip_agrees_with_decode by blast
qed

text \<open>Chunk metadata, column chunks and table statistics are read back from their records.\<close>

theorem statistics_roundtrip:
  assumes "zones_ok (chunk_zones m)" "zones_ok (stats_zones s)"
    and "length vs < 2 ^ 32" "\<forall>v \<in> set vs. value_ok v"
  shows "decode_olap_chunk_meta (encode_olap_chunk_meta m) = Inr m \<and>
    decode_table_stats (encode_table_stats s) = Inr s \<and>
    decode_olap_column_chunk (encode_olap_column_chunk vs) = Inr vs"
  using decode_encode_olap_chunk_meta [OF assms(1)] decode_encode_table_stats [OF assms(2)]
    decode_encode_olap_column_chunk [OF assms(3,4)] by simp

theorem statistics_roundtrip_witness:
  "decode_table_stats (encode_table_stats
     \<lparr>stats_row_count = 2, stats_zones = [\<lparr>zone_column_id = 1, zone_null_count = 0,
        zone_min = Some (VInt64 1), zone_max = None\<rparr>]\<rparr>) =
   Inr \<lparr>stats_row_count = 2, stats_zones = [\<lparr>zone_column_id = 1, zone_null_count = 0,
        zone_min = Some (VInt64 1), zone_max = None\<rparr>]\<rparr>"
  using statistics_roundtrip [of "\<lparr>chunk_id = 0, chunk_row_count = 0, chunk_zones = []\<rparr>"
      "\<lparr>stats_row_count = 2, stats_zones = [\<lparr>zone_column_id = 1, zone_null_count = 0,
        zone_min = Some (VInt64 1), zone_max = None\<rparr>]\<rparr>" "[]"]
  by (simp add: zones_ok_def zone_ok_def)

text \<open>A tombstone decodes to a record without values that counts as a tombstone for every
  version but zero, and is visible from its version on.\<close>

theorem tombstone_visible:
  "\<exists>r. decode_row_record_raw (encode_row_tombstone s v) = Inr r \<and> rec_values r = [] \<and>
    is_row_tombstone r = (v \<noteq> 0) \<and> (\<forall>snapshot. is_row_visible r snapshot = (v \<le> snapshot))"
  by (auto simp: decode_row_tombstone is_row_tombstone_def is_row_visible_def)

text \<open>Whatever bytes a record has, the decoded values are in strictly ascending column id
  order, one per id.\<close>

theorem raw_record_sorted:
  assumes "decode_row_record_raw bs = Inr r"
  shows "sorted_wrt (<) (map fst (rec_values r))"
  using decode_row_record_raw_inv [OF assms] by (simp add: bt_inv_def)

theorem raw_record_sorted_witness: "sorted_wrt (<) (map fst (rec_values ex_raw))"
  by (rule raw_record_sorted [OF ex_record_raw])

section \<open>The store and its transactions\<close>

text \<open>C9. A range scan in a transaction returns the rows of the transaction's view, its own
  writes over the store, in key order, with reversal and limit applied to the whole view.\<close>

theorem txn_scan_refines_view:
  assumes "store_inv store" "txn_inv t"
  shows "txn_scan_range store t a b limit reverse =
    take_limit limit ((if reverse then rev else id) (scan_spec (txn_view store t) (in_bounds a b)))"
  unfolding txn_scan_range_def by (rule materialize_range_view [OF assms])

theorem txn_scan_refines_view_witness:
  "txn_scan_range [([2], [20]), ([1], [10])] (txn_put [3] [30] (txn_delete [1] (begin_transaction [])))
     [] None (Some 1) True = [([3], [30])]"
proof -
  let ?store = "[([2], [20]), ([1], [10])]" and ?t = "txn_put [3] [30] (txn_delete [1] (begin_transaction []))"
  have v: "txn_view ?store ?t = [[2] \<mapsto> [20], [3] \<mapsto> [30]]"
    by (auto simp: txn_view_def txn_put_def txn_delete_def begin_transaction_def mem_get_def
        bt_get_insert)
  have "{k \<in> dom [[2 :: byte] \<mapsto> [20 :: byte], [3] \<mapsto> [30]]. in_bounds [] None k} = {[2], [3]}"
    by (auto simp: in_bounds_def split: if_splits)
  moreover have "sorted_list_of_set {[2 :: byte], [3]} = [[2], [3]]" by simp
  ultimately have "scan_spec (txn_view ?store ?t) (in_bounds [] None) = [([2], [20]), ([3], [30])]"
    by (simp add: v scan_spec_def)
  moreover have "store_inv ?store" "txn_inv ?t"
    by (simp_all add: store_inv_def txn_inv_writes txn_inv_begin)
  ultimately show ?thesis
    using txn_scan_refines_view [of ?store ?t "[]" None "Some 1" True] by (simp add: take_limit_def)
qed

text \<open>Commit installs exactly what the transaction saw: afterwards the store answers every
  read as the transaction did, and a rollback leaves the store as it was.\<close>

theorem commit_installs_view:
  assumes "txn_inv t"
  shows "mem_get (txn_commit t store) key = txn_get store t key \<and> txn_rollback t store = store"
  using txn_commit_view [OF assms, of store] by (simp add: txn_get_view txn_rollback_def)

theorem commit_installs_view_witness:
  "mem_get (txn_commit (txn_delete [1] (begin_transaction [])) [([1], [10])]) [1] =
   txn_get [([1], [10])] (txn_delete [1] (begin_transaction [])) [1]"
  using commit_installs_view [of "txn_delete [1] (begin_transaction [])" "[([1], [10])]" "[1]"]
  by (simp add: txn_inv_writes txn_inv_begin store_inv_def)

text \<open>C20. Snapshot reads are repeatable: from its begin on, whatever other sessions do meanwhile,
  commits and writes outside a transaction included, a session's transaction reads from its
  snapshot exactly the contents the store had at the begin with the session's own operations
  applied: the point read, the prefix scan, and the range scan with limit and direction. The
  operations are puts, batches, deletes, savepoints, rollbacks to them and releases.\<close>

theorem snapshot_reads_repeatable:
  assumes "store_inv (sys_store g)" "sys_txns g i = None"
    and "session_run i ops
      (g\<lparr>sys_txns := (sys_txns g)(i \<mapsto> begin_transaction (sys_store g))\<rparr>) g'"
  shows "\<exists>t. sys_txns g' i = Some t \<and>
    (let m = read_contents (mem_get (sys_store g)) ops in
       txn_snapshot_get t key = m key \<and>
       txn_snapshot_scan_prefix t p = scan_spec m (\<lambda>k. starts_with k p) \<and>
       txn_snapshot_scan_range t a b limit reverse =
         take_limit limit ((if reverse then rev else id) (scan_spec m (in_bounds a b))))"
proof -
  from session_run_reads [OF assms(3) _ assms(1)]
  obtain t where t: "sys_txns g' i = Some t"
    and r: "contents_read (sys_store g) t (fold read_step ops (mem_get (sys_store g), []))"
    by auto
  from t show ?thesis
    by (auto simp: read_contents_def Let_def contents_read_snapshot [OF r])
qed

theorem snapshot_reads_repeatable_witness:
  "\<exists>t. txn_snapshot_get t [1] = Some [10] \<and> txn_snapshot_get t [2] = Some [20] \<and>
     sys_txns \<lparr>sys_store = mem_put [1] [11] [([1], [10])],
       sys_txns = [0 \<mapsto> txn_put [2] [20] (begin_transaction [([1], [10])])]\<rparr> 0 = Some t"
proof -
  let ?g = "\<lparr>sys_store = [([1], [10])], sys_txns = Map.empty\<rparr> :: mem_sys"
  let ?b = "?g\<lparr>sys_txns := (sys_txns ?g)(0 \<mapsto> begin_transaction (sys_store ?g))\<rparr>"
  let ?h = "?b\<lparr>sys_store := mem_put [1] [11] (sys_store ?b)\<rparr>"
  have "mem_step 1 ?b ?h" by (rule st_direct_put) simp
  then have "others_step 0 ?b ?h" by (auto simp: others_step_def)
  then have "session_run 0 [] ?b ?h" by (rule sr_other [OF sr_start])
  then have run: "session_run 0 ([] @ [OpPut [2] [20]]) ?b (?h\<lparr>sys_txns := (sys_txns ?h)
      (0 \<mapsto> txn_put [2] [20] (begin_transaction (sys_store ?g)))\<rparr>)"
    by (rule sr_own) simp_all
  have "store_inv (sys_store ?g)" "sys_txns ?g 0 = None" by (simp_all add: store_inv_def)
  note read = snapshot_reads_repeatable [OF this run]
  show ?thesis using read [of "[1]" "[]" "[]" None None False] read [of "[2]" "[]" "[]" None None False]
    by (simp add: Let_def read_contents_def mem_get_def)
qed

text \<open>A transaction's writes reach the store at its commit and not before: a step changes
  the store only if it commits the stepping session's transaction or is a write outside any.\<close>

theorem no_dirty_writes:
  assumes "mem_step j g g'" "sys_store g' \<noteq> sys_store g"
  shows "(\<exists>t. sys_txns g j = Some t \<and> sys_store g' = txn_commit t (sys_store g) \<and> sys_txns g' j = None)
    \<or> sys_txns g j = None"
  using mem_step_store [OF assms(1)] assms(2) by auto

theorem no_dirty_writes_witness:
  "sys_txns \<lparr>sys_store = [], sys_txns = Map.empty :: nat \<Rightarrow> mem_txn option\<rparr> 0 = None"
proof -
  let ?g = "\<lparr>sys_store = [], sys_txns = Map.empty\<rparr> :: mem_sys"
  have "mem_step 0 ?g (?g\<lparr>sys_store := mem_put [1] [11] (sys_store ?g)\<rparr>)"
    by (rule st_direct_put) simp
  from no_dirty_writes [OF this] show ?thesis by (simp add: mem_put_def)
qed

text \<open>The store and every open transaction stay well formed along any interleaving of
  sessions.\<close>

theorem sessions_keep_invariant:
  assumes "(\<lambda>g g'. \<exists>i. mem_step i g g')\<^sup>*\<^sup>* g g'" "sys_inv g"
  shows "sys_inv g'"
  using assms by (induction rule: rtranclp_induct) (auto intro: mem_step_inv)

theorem sessions_keep_invariant_witness:
  "sys_inv \<lparr>sys_store = [], sys_txns = [0 \<mapsto> begin_transaction []]\<rparr>"
proof -
  let ?g = "\<lparr>sys_store = [], sys_txns = Map.empty\<rparr> :: mem_sys"
  have "mem_step 0 ?g (?g\<lparr>sys_txns := (sys_txns ?g)(0 \<mapsto> begin_transaction (sys_store ?g))\<rparr>)"
    by (rule st_begin) simp
  then have "(\<lambda>g g'. \<exists>i. mem_step i g g')\<^sup>*\<^sup>* ?g \<lparr>sys_store = [], sys_txns = [0 \<mapsto> begin_transaction []]\<rparr>"
    by (intro r_into_rtranclp) auto
  moreover have "sys_inv ?g" by (simp add: sys_inv_def store_inv_def)
  ultimately show ?thesis by (rule sessions_keep_invariant)
qed

text \<open>Rolling back to a savepoint, under any spelling of its name in ASCII case, undoes
  every write since and keeps the savepoint.\<close>

theorem savepoint_rollback:
  assumes "saved_step\<^sup>*\<^sup>* (txn_savepoint name t) t'" "to_ascii_lowercase name' = to_ascii_lowercase name"
  shows "txn_rollback_to_savepoint name' t' = Inr (txn_savepoint name t)"
  by (rule rollback_to_savepoint_restores [OF assms])

theorem savepoint_rollback_witness:
  "txn_rollback_to_savepoint ''SP'' (txn_delete [1] (txn_savepoint ''sp'' (begin_transaction []))) =
   Inr (txn_savepoint ''sp'' (begin_transaction []))"
proof (rule savepoint_rollback)
  show "saved_step\<^sup>*\<^sup>* (txn_savepoint ''sp'' (begin_transaction []))
      (txn_delete [1] (txn_savepoint ''sp'' (begin_transaction [])))"
    by (intro r_into_rtranclp ss_delete)
  show "to_ascii_lowercase ''SP'' = to_ascii_lowercase ''sp''"
    by code_simp
qed

text \<open>A row put in a transaction is found by the transaction's scan of its table, replacing
  the row with the same key, and the scans of all other tables and epochs are unchanged.\<close>

theorem table_scan_after_put:
  assumes "store_inv store" "txn_inv tx" "(t, e) \<noteq> (t', e')"
    and "r = row_range t e None" "r' = row_range t' e' None"
  shows "set (txn_scan_range store (txn_put (row_key t e pk) v tx) (range_start r) (range_end r) None False) =
      insert (row_key t e pk, v)
        {kv \<in> set (txn_scan_range store tx (range_start r) (range_end r) None False). fst kv \<noteq> row_key t e pk} \<and>
    txn_scan_range store (txn_put (row_key t e pk) v tx) (range_start r') (range_end r') None False =
      txn_scan_range store tx (range_start r') (range_end r') None False"
  using txn.table_rows_put [of "(store, tx)" t e pk v]
    txn.table_rows_put_other [of "(store, tx)" t e t' e' pk v] assms
  unfolding txn.table_rows_def by simp

theorem table_scan_after_put_witness:
  "(row_key 5 1 (VInt64 7), [1]) \<in> set (txn_scan_range [] (txn_put (row_key 5 1 (VInt64 7)) [1]
     (begin_transaction [])) (range_start (row_range 5 1 None)) (range_end (row_range 5 1 None)) None False)"
  using table_scan_after_put [of "[]" "begin_transaction []" 5 1 6 1 _ _ "VInt64 7" "[1]", OF _ _ _ refl refl]
  by (simp add: store_inv_def txn_inv_begin)

section \<open>The storage engine\<close>

text \<open>C23. The scan loops over the engine's cursor end: whatever the sizes of the batches, a scan of the
  store returns the entries of its range or prefix in order, cut at the limit, and a count returns
  their number. The engine is any that keeps its contract.\<close>

theorem engine_scans_end:
  assumes "engine_contract eng R" "R e view" "limit \<noteq> Some 0"
    and "length (scan_spec view (in_bounds start end')) < 2 ^ 64"
  shows "store_scan_range eng e start end' limit reverse =
      Some (Inr (take_limit limit ((if reverse then rev else id) (scan_spec view (in_bounds start end'))))) \<and>
    store_scan_prefix eng e p = Some (Inr (scan_spec view (\<lambda>k. starts_with k p))) \<and>
    store_count_range eng e start end' = Some (Inr (of_nat (length (scan_spec view (in_bounds start end')))))"
  using store_scan_range_ends [OF assms(1-3)] store_scan_prefix_ends [OF assms(1,2)]
    store_count_range_ends [OF assms(1,2,4)] by blast

theorem engine_scans_end_witness:
  "store_scan_prefix (ref_engine 0) [([1], [7]), ([2], [8])] [] =
     Some (Inr (scan_spec (mem_get [([1], [7]), ([2], [8])]) (\<lambda>k. starts_with k [])))"
proof -
  let ?s = "[([1], [7]), ([2], [8])] :: hash_map"
  have inv: "store_inv ?s" by (simp add: store_inv_def)
  have "length (scan_spec (mem_get ?s) (in_bounds [] None)) < 2 ^ 64"
    unfolding sorted_filter_spec [OF inv, symmetric] by (simp add: in_bounds_def)
  with engine_scans_end [OF ref_engine_contract [of 0], of ?s "mem_get ?s" None "[]" None False "[]"] inv
  show ?thesis by (simp add: ref_holds_def)
qed

text \<open>C22. A transaction over the engine and one over the in-memory store that hold the same entries and
  the same pending writes see the same: point reads, prefix scans, the store after commit, and range
  scans in both directions, without a limit, with the limit 0, and with any limit as long as no pending
  write deletes a stored row of the range (C33 is the other case).\<close>

theorem engine_transactions_like_memory:
  assumes "engine_contract eng R" "R e (mem_get store)" "store_inv store" "txn_inv t"
    and "limit = None \<or> limit = Some 0 \<or> (\<forall>k. bt_get (txn_pending t) k = Some None \<longrightarrow>
      in_bounds start end' k \<longrightarrow> mem_get store k = None)"
  shows "etxn_get eng e (txn_pending t) k = Inr (txn_get store t k) \<and>
    etxn_scan_range eng e (txn_pending t) start end' limit reverse =
      Some (Inr (txn_scan_range store t start end' limit reverse)) \<and>
    etxn_scan_prefix eng e (txn_pending t) p = Some (Inr (txn_scan_prefix store t p)) \<and>
    (\<exists>e'. etxn_commit eng (txn_pending t) e = ([], Inr e') \<and> R e' (mem_get (txn_commit t store)))"
  using engine_txn_like_memory [OF assms(1-4)] engine_scan_like_memory [OF assms] by blast

theorem engine_transactions_like_memory_witness:
  "etxn_get (ref_engine 3) [([1], [7])] (txn_pending (txn_put [2] [9] (begin_transaction []))) [2] = Inr (Some [9]) \<and>
   (\<exists>rows. etxn_scan_range (ref_engine 3) [([1], [7])] (txn_pending (txn_put [2] [9] (begin_transaction [])))
      [] None (Some 1) False = Some (Inr rows))"
proof -
  let ?t = "txn_put [2] [9] (begin_transaction [])"
  have "ref_holds [([1], [7])] (mem_get [([1], [7])])" "store_inv [([1 :: byte], [7 :: byte])]" "txn_inv ?t"
    by (simp_all add: ref_holds_def store_inv_def txn_put_def txn_inv_def begin_transaction_def bt_inv_def)
  note * = engine_transactions_like_memory [OF ref_engine_contract this, of "Some 1" "[]" None 3 "[2]" False "[]"]
  show ?thesis using * by (simp add: txn_get_def txn_put_def begin_transaction_def)
qed

text \<open>C33. With a limit and pending deletes they differ, for any engine in contract: the engine's transaction
  cuts the stored rows at the limit before it overlays the pending writes. When the first rows of the
  range, as many as the limit, are deleted by pending writes and no pending write puts a row into the
  range, its scan returns no row at all, although the in-memory transaction returns one whenever the
  range holds a row that is not deleted.\<close>

theorem engine_limit_loses_rows:
  assumes "engine_contract eng R" "R e (mem_get store)" "store_inv store" "txn_inv t" "0 < n"
    and "\<forall>(k, v) \<in> set (mem_scan_range store start end' (Some n) reverse). bt_get (txn_pending t) k = Some None"
    and "\<forall>k v. in_bounds start end' k \<longrightarrow> bt_get (txn_pending t) k \<noteq> Some (Some v)"
    and "in_bounds start end' key" "mem_get store key = Some val" "bt_get (txn_pending t) key = None"
  shows "etxn_scan_range eng e (txn_pending t) start end' (Some n) reverse = Some (Inr []) \<and>
    txn_scan_range store t start end' (Some n) reverse \<noteq> []"
proof -
  have "bt_inv (txn_pending t)" using assms(4) by (simp add: txn_inv_def)
  moreover have "\<forall>(k, v) \<in> set (take n (ordered_scan (mem_get store) (in_bounds start end') reverse)).
      bt_get (txn_pending t) k = Some None"
    using assms(6) by (simp add: mem_scan_range_spec [OF assms(3)] take_limit_def)
  ultimately show ?thesis
    using etxn_scan_range_loses [OF assms(1,2) _ assms(5,7)] memory_scan_keeps [OF assms(3-5,8-10)] by blast
qed

theorem engine_limit_loses_rows_witness:
  "etxn_scan_range (ref_engine 7) [([1], [7]), ([2], [8])] [([1], None)] [] None (Some 1) False = Some (Inr [])"
proof -
  let ?store = "[([1], [7]), ([2], [8])] :: hash_map"
  let ?t = "txn_delete [1] (begin_transaction ?store)"
  have "ref_holds ?store (mem_get ?store)" "store_inv ?store" "txn_inv ?t"
    by (simp_all add: ref_holds_def store_inv_def txn_delete_def txn_inv_def begin_transaction_def bt_inv_def)
  from engine_limit_loses_rows [OF ref_engine_contract this, of 1 "[]" None False "[2]" "[8]" 7]
  show ?thesis
    by (simp add: txn_delete_def begin_transaction_def mem_scan_range_def in_bounds_def take_limit_def
        mem_get_def)
qed

text \<open>A scan of the engine's store with the limit 0 returns the first row of the range, for every engine in
  contract that hands out no empty batch before its last; the in-memory store returns none.\<close>

theorem engine_limit_zero:
  assumes "engine_contract eng R" "R e (mem_get store)" "store_inv store"
    and "\<And>c rs c1. eng_next_batch eng c = Inr ((rs, False), c1) \<Longrightarrow> rs \<noteq> []"
  shows "store_scan_range eng e start end' (Some 0) reverse =
      Some (Inr (mem_scan_range store start end' (Some 1) reverse)) \<and>
    mem_scan_range store start end' (Some 0) reverse = []"
  using store_scan_limit_zero [OF assms(1,2,4)] by (simp add: mem_scan_range_spec [OF assms(3)] take_limit_def)

theorem engine_limit_zero_witness:
  "store_scan_range (ref_engine 7) [([1], [7]), ([2], [8])] [] None (Some 0) False = Some (Inr [([1], [7])])"
proof -
  let ?store = "[([1], [7]), ([2], [8])] :: hash_map"
  have "ref_holds ?store (mem_get ?store)" "store_inv ?store"
    by (simp_all add: ref_holds_def store_inv_def)
  from engine_limit_zero [OF ref_engine_contract this, of 7 "[]" None False]
  show ?thesis
    by (fastforce simp: ref_engine_def mem_scan_range_def in_bounds_def take_limit_def)
qed

text \<open>Rewriting a table to the current record format reads every row of the table once, and ends
  with exactly the outdated records replaced by their rewritten form, however the writes are batched;
  no other entry changes.\<close>

theorem rewrite_replaces_outdated_rows:
  assumes "engine_contract eng R" "R e view"
    and "rows = scan_spec view (in_range (row_range (table_id s) (table_epoch s) None))"
    and "\<forall>(k, v) \<in> set rows. \<exists>out. reencode_row_record_fast s v = Inr out"
  shows "\<exists>e'. rewrite_table_rows_to_fast_format eng s n e =
      Some (Inr (e', length rows, length (rewritten s rows))) \<and>
    R e' (fold apply_op (map (\<lambda>(k, v). WPut k v) (rewritten s rows)) view)"
  by (rule rewrite_table_rows [OF assms])

theorem rewrite_replaces_outdated_rows_witness:
  "\<exists>e'. rewrite_table_rows_to_fast_format (ref_engine 0) ex_schema 10 [] = Some (Inr (e', 0, 0))"
proof -
  have "scan_spec (mem_get []) inside = []" for inside by (simp add: scan_spec_def mem_get_def dom_def)
  with rewrite_replaces_outdated_rows [OF ref_engine_contract [of 0], of "[]" "mem_get []" _ ex_schema 10, OF _ refl]
  show ?thesis by (auto simp: ref_holds_def store_inv_def rewritten_def List.map_filter_simps)
qed

section \<open>Locks\<close>

text \<open>C11. In every reachable state of the lock manager two different sessions hold no
  conflicting locks, and every session has at most one place in the queue.\<close>

theorem locks_mutually_exclusive:
  assumes "lock_step\<^sup>*\<^sup>* lock_init st" "a \<in> set (held st)" "b \<in> set (held st)" "owner a \<noteq> owner b"
  shows "\<not> mysql_locks_conflict a b \<and> distinct (map waiter_session (queue st))"
  using lock_inv_reachable [OF assms(1)] assms(2-4)
  by (auto simp: lock_inv_def no_conflicts_def one_place_def)

theorem locks_mutually_exclusive_witness:
  "\<not> mysql_locks_conflict (ex_lock 1 ''a'') (ex_lock 2 ''b'')"
  using locks_mutually_exclusive [OF ex_two_sessions, of "ex_lock 1 ''a''" "ex_lock 2 ''b''"]
  by (simp add: ex_lock_def mysql_lock_def mysql_lock_with_duration_def)

text \<open>Deadlock detection is exact: a wait is refused if and only if it would close a cycle of
  waits through the waiting session.\<close>

theorem deadlock_detection_exact:
  "(snd (mysql_register_lock_wait w own ws) \<noteq> None) =
    ((w, w) \<in> (wait_edges (AList.update w own ws))\<^sup>+)"
  by (rule register_lock_wait_iff)

text \<open>C15. The sessions never wait in a circle: in every reachable state, following the waits of
  any waiting session leads to a session that does not wait.\<close>

theorem no_deadlock_among_waiters:
  assumes "lock_step\<^sup>*\<^sup>* lock_init st" "a \<in> dom (map_of (waits st))"
  shows "acyclic (wait_edges (waits st)) \<and>
    (\<exists>b. (a, b) \<in> (wait_edges (waits st))\<^sup>+ \<and> b \<notin> dom (map_of (waits st)))"
  using lock_inv_reachable [OF assms(1)] wait_chain_ends [OF _ assms(2)]
  by (simp add: lock_inv_def)

theorem no_deadlock_among_waiters_witness:
  "\<exists>b. (1, b) \<in> (wait_edges [(1 :: i32, 2)])\<^sup>+ \<and> b \<notin> dom (map_of [(1 :: i32, 2 :: i32)])"
proof -
  have "lock_step lock_init (fst (register_wait 1 2 lock_init))" by (rule ls_register)
  moreover have "waits (fst (register_wait 1 2 lock_init)) = [(1, 2)]"
    by (simp add: register_wait_def mysql_register_lock_wait_def lock_init_def deadlock_loop.simps)
  ultimately show ?thesis
    using no_deadlock_among_waiters [of "fst (register_wait 1 2 lock_init)" 1] by auto
qed

text \<open>C27. The session at the head of the queue is granted its locks once the sessions whose locks
  conflict with them have released theirs, whatever happened before and whoever waits behind.\<close>

theorem head_waiter_progress:
  assumes "queue st = w # q" "waiter_session w = session" "session \<notin> set blockers"
    and "\<forall>l \<in> set (held st). owner l \<noteq> session \<and> (\<exists>r \<in> set requested. mysql_locks_conflict l r) \<longrightarrow>
      owner l \<in> set blockers"
  shows "snd (acquire_round session requested (fold release_session_table_locks blockers st)) = Granted"
  by (rule head_waiter_granted [OF assms])

theorem head_waiter_progress_witness:
  "snd (acquire_round 2 [ex_lock 2 ''a''] (release_session_table_locks 1
     (enqueue_waiter 2 [ex_lock 2 ''a''] \<lparr>held = [ex_lock 1 ''a''], queue = [], waits = []\<rparr>))) = Granted"
proof -
  let ?st = "enqueue_waiter 2 [ex_lock 2 ''a''] \<lparr>held = [ex_lock 1 ''a''], queue = [], waits = []\<rparr>"
  obtain w q where "queue ?st = w # q" "waiter_session w = 2" "held ?st = [ex_lock 1 ''a'']"
    by (auto simp: enqueue_waiter_def)
  with head_waiter_progress [of ?st w q 2 "[1]" "[ex_lock 2 ''a'']"] show ?thesis
    by (simp add: ex_lock_def mysql_lock_def mysql_lock_with_duration_def)
qed

text \<open>Conflicts do not depend on which lock came first, and two range locks conflict
  whenever some value lies in both ranges.\<close>

theorem lock_conflict_symmetric:
  assumes "mysql_range_contains_value a b v" "mysql_range_contains_value c d v"
  shows "mysql_locks_conflict l l' = mysql_locks_conflict l' l \<and> mysql_ranges_overlap a b c d"
  using mysql_locks_conflict_sym ranges_overlap_of_common [OF assms] by blast

theorem lock_conflict_symmetric_witness:
  "mysql_ranges_overlap (Some ''a'') None None (Some ''c'')"
proof -
  have "mysql_range_contains_value (Some ''a'') None ''b''"
    "mysql_range_contains_value None (Some ''c'') ''b''"
    by (simp_all add: mysql_range_contains_value_def less_char_def less_eq_char_def)
  then show ?thesis using lock_conflict_symmetric by blast
qed

text \<open>Range locks compare the debug renderings of the values as strings, so the number 10 is
  not in a lock range from 5 to 20.\<close>

theorem lock_range_misses_number:
  "\<not> mysql_range_contains_value (Some (normalize_mysql_lock_value dbg (VInt64 5)))
     (Some (normalize_mysql_lock_value dbg (VInt64 20)))
     (normalize_mysql_lock_value dbg (VInt64 10))"
  by (simp add: mysql_range_contains_value_def normalize_mysql_lock_value_def show_int_def
      show_nat.simps less_char_def less_eq_char_def)

section \<open>The catalog\<close>

text \<open>C10. \<open>CREATE TABLE\<close> over any engine that fulfils its contract: the id is new, and the stored
  table is loaded again with its types as the catalog spells them, every other table staying as it
  is and the catalog consistent.\<close>

theorem catalog_table_created:
  assumes "json_reads_back lib" "engine_contract eng R" "R e w" "catalog_inv lib w" "in_schema lib w db sn d sc"
    and "schema_wf sch" "\<And>t. \<not> tables.holds lib w (dc_id d, sc_id sc, table_name sch) t" "\<not> exhausted w NEXT_TABLE_ID_KEY"
  shows "\<exists>i e1 e2 w2. allocate_table_id lib (engine_ops eng) e = Some (Inr i, e1) \<and>
    store_table lib (engine_ops eng) db sn (sch\<lparr>table_id := i\<rparr>) e1 = Some (Inr (), e2) \<and> R e2 w2 \<and> catalog_inv lib w2 \<and>
    (\<exists>e3. load_table lib (engine_ops eng) db sn (table_name sch) e2 =
       Some (Inr (Some (stored_table d sc sn (sch\<lparr>table_id := i\<rparr>))), e3)) \<and>
    (\<forall>k t. tables.holds lib w k t \<longrightarrow> table_id (tc_schema t) \<noteq> i) \<and>
    (\<forall>k. k \<noteq> (dc_id d, sc_id sc, table_name sch) \<longrightarrow> tables.holds lib w2 k = tables.holds lib w k)"
proof -
  obtain i w1 w2 where run: "computes R (allocate_table_id lib (engine_ops eng)) w (Inr i) w1"
      "computes R (store_table lib (engine_ops eng) db sn (sch\<lparr>table_id := i\<rparr>)) w1 (Inr ()) w2"
      "computes R (load_table lib (engine_ops eng) db sn (table_name sch)) w2
         (Inr (Some (stored_table d sc sn (sch\<lparr>table_id := i\<rparr>)))) w2"
    and facts: "catalog_inv lib w2" "\<forall>k t. tables.holds lib w k t \<longrightarrow> table_id (tc_schema t) \<noteq> i"
      "tables.holds lib w2 =
        (tables.holds lib w)((dc_id d, sc_id sc, table_name sch) := (\<lambda>t. t = stored_table d sc sn (sch\<lparr>table_id := i\<rparr>)))"
    using engine_create_table [OF assms(2,1,4-8)] by blast
  from run assms(3) obtain e1 e2 e3 where "allocate_table_id lib (engine_ops eng) e = Some (Inr i, e1)"
      "store_table lib (engine_ops eng) db sn (sch\<lparr>table_id := i\<rparr>) e1 = Some (Inr (), e2)" "R e2 w2"
      "load_table lib (engine_ops eng) db sn (table_name sch) e2 = Some (Inr (Some (stored_table d sc sn (sch\<lparr>table_id := i\<rparr>))), e3)"
    by (fastforce simp: computes_def)
  with facts show ?thesis by (intro exI conjI) (assumption | simp)+
qed

theorem catalog_table_created_witness:
  "\<exists>i e1 e2 e3. allocate_table_id ex_lib (engine_ops (ref_engine 1)) ex_catalog = Some (Inr i, e1) \<and>
    store_table ex_lib (engine_ops (ref_engine 1)) DEFAULT_DATABASE_NAME DEFAULT_SCHEMA_NAME (ex_schema\<lparr>table_id := i\<rparr>) e1 = Some (Inr (), e2) \<and>
    load_table ex_lib (engine_ops (ref_engine 1)) DEFAULT_DATABASE_NAME DEFAULT_SCHEMA_NAME ''t'' e2 =
      Some (Inr (Some (stored_table default_database default_schema DEFAULT_SCHEMA_NAME (ex_schema\<lparr>table_id := i\<rparr>))), e3)"
proof -
  have holds: "ref_holds ex_catalog (mem_get ex_catalog)" using ex_catalog_facts(1) by (simp add: ref_holds_def)
  have wf: "schema_wf ex_schema" by (simp add: schema_wf_def ex_defs)
  have room: "\<not> exhausted (mem_get ex_catalog) NEXT_TABLE_ID_KEY" by (rule ex_catalog_facts(7)) simp
  have name: "table_name ex_schema = ''t''" by (simp add: ex_schema_def)
  from catalog_table_created [OF ex_lib_reads_back ref_engine_contract [of 1] holds ex_catalog_facts(2,3) wf ex_catalog_facts(5) room,
    unfolded name] show ?thesis by blast
qed

text \<open>Every store without catalog keys is made a catalog by the first operation: the default
  database with its schema, consistent, and nothing else.\<close>

theorem catalog_bootstraps:
  assumes "json_reads_back lib" "store_inv s" "\<And>r. mem_get s (as_bytes (''__catalog__/'' @ r)) = None"
  shows "\<exists>s'. ensure_bootstrap lib mem_ops s = Some (Inr (), s') \<and> catalog_state lib s' \<and>
    in_schema lib (mem_get s') DEFAULT_DATABASE_NAME DEFAULT_SCHEMA_NAME default_database default_schema \<and>
    (\<forall>n d. databases.holds lib (mem_get s') n d \<longrightarrow> d = default_database) \<and>
    ensure_bootstrap lib mem_ops s' = Some (Inr (), s')"
proof -
  obtain p q where pq: "decode_database_catalog lib p = Inr default_database" "decode_schema_catalog lib q = Inr default_schema"
    and run: "computes ref_holds (ensure_bootstrap lib mem_ops) (mem_get s) (Inr ()) (booted_view (mem_get s) p q)"
    by (rule mem_store.bootstrap_computes [of lib "mem_get s", OF assms(1,3)])
  obtain s' where s': "ensure_bootstrap lib mem_ops s = Some (Inr (), s')" "store_inv s'" "mem_get s' = booted_view (mem_get s) p q"
    by (rule mem_runs [OF run assms(2) refl])
  note facts = booted_view_inv [of "mem_get s" lib p q, OF assms(3) pq, folded s'(3)]
  have "booted (mem_get s')" using facts(2) by (simp add: in_schema_def)
  then have "ensure_bootstrap lib mem_ops s' = Some (Inr (), s')"
    by (auto simp: ensure_bootstrap_def booted_def st_bind_def cat_get_def st_catch_def mem_ops_def st_return_def)
  with s' facts(1-3) show ?thesis by (auto simp: catalog_state_def)
qed

theorem catalog_bootstraps_witness:
  "\<exists>s'. ensure_bootstrap ex_lib mem_ops [] = Some (Inr (), s') \<and> ensure_bootstrap ex_lib mem_ops s' = Some (Inr (), s')"
  using catalog_bootstraps [OF ex_lib_reads_back, of "[]"] by (auto simp: store_inv_def mem_get_def)

text \<open>C13. \<open>DROP TABLE\<close> removes the table and exactly the indexes on it.\<close>

theorem catalog_table_dropped:
  assumes "catalog_state lib s" "in_schema lib (mem_get s) db sn d sc" "tables.holds lib (mem_get s) (dc_id d, sc_id sc, n) t"
  shows "\<exists>s'. drop_table lib mem_ops db sn n s = Some (Inr (Some t), s') \<and> catalog_state lib s' \<and>
    tables.holds lib (mem_get s') = (tables.holds lib (mem_get s))((dc_id d, sc_id sc, n) := (\<lambda>_. False)) \<and>
    (\<forall>k x. indexes.holds lib (mem_get s') k x =
      (indexes.holds lib (mem_get s) k x \<and> ix_table_id x \<noteq> table_id (tc_schema t)))"
proof -
  have inv: "store_inv s" "catalog_inv lib (mem_get s)" using assms(1) by (simp_all add: catalog_state_def)
  have fin: "finite (dom (mem_get s))" using mem_store.finite_view [of s "mem_get s"] inv(1) by (simp add: ref_holds_def)
  obtain w' where run: "computes ref_holds (drop_table lib mem_ops db sn n) (mem_get s) (Inr (Some t)) w'"
    and facts: "catalog_inv lib w'" "tables.holds lib w' = (tables.holds lib (mem_get s))((dc_id d, sc_id sc, n) := (\<lambda>_. False))"
      "\<forall>k x. indexes.holds lib w' k x = (indexes.holds lib (mem_get s) k x \<and> ix_table_id x \<noteq> table_id (tc_schema t))"
    using mem_store.drop_table_computes [OF inv(2) fin assms(2,3)] by blast
  obtain s' where "drop_table lib mem_ops db sn n s = Some (Inr (Some t), s')" "store_inv s'" "mem_get s' = w'"
    by (rule mem_runs [OF run inv(1) refl])
  with facts show ?thesis by (intro exI [of _ s']) (simp add: catalog_state_def)
qed

theorem catalog_table_dropped_witness:
  "\<exists>t s'. drop_table ex_lib mem_ops DEFAULT_DATABASE_NAME DEFAULT_SCHEMA_NAME ''t'' ex_tables = Some (Inr (Some t), s') \<and>
    catalog_state ex_lib s'"
proof -
  obtain t where t: "catalog_state ex_lib ex_tables"
    "in_schema ex_lib (mem_get ex_tables) DEFAULT_DATABASE_NAME DEFAULT_SCHEMA_NAME default_database default_schema"
    "tables.holds ex_lib (mem_get ex_tables) (dc_id default_database, sc_id default_schema, ''t'') t"
    by (rule ex_tables_facts)
  from catalog_table_dropped [OF t] show ?thesis by blast
qed

text \<open>\<open>ALTER TABLE .. RENAME\<close> moves the descriptor to the new name and leaves every other table,
  and the catalog consistent.\<close>

theorem catalog_table_renamed:
  assumes "json_reads_back lib" "catalog_state lib s" "in_schema lib (mem_get s) db sn d sc"
    and "tables.holds lib (mem_get s) (dc_id d, sc_id sc, old) t" "schema_wf (tc_schema t)"
    and "\<And>t'. \<not> tables.holds lib (mem_get s) (dc_id d, sc_id sc, new) t'"
    and "is_default_schema db sn \<longrightarrow> mem_get s (as_bytes (schema_key new)) = None"
  shows "\<exists>s'. rename_table lib mem_ops db sn old new s =
      Some (Inr (t\<lparr>tc_table_name := new, tc_schema := (tc_schema t)\<lparr>table_name := new\<rparr>\<rparr>), s') \<and> catalog_state lib s' \<and>
    tables.holds lib (mem_get s') = (tables.holds lib (mem_get s))((dc_id d, sc_id sc, old) := (\<lambda>_. False),
      (dc_id d, sc_id sc, new) := (\<lambda>x. x = stored_table d sc sn ((tc_schema t)\<lparr>table_name := new\<rparr>)))"
proof -
  have inv: "store_inv s" "catalog_inv lib (mem_get s)" using assms(2) by (simp_all add: catalog_state_def)
  let ?t = "t\<lparr>tc_table_name := new, tc_schema := (tc_schema t)\<lparr>table_name := new\<rparr>\<rparr>"
  obtain w' where run: "computes ref_holds (rename_table lib mem_ops db sn old new) (mem_get s) (Inr ?t) w'"
    and facts: "catalog_inv lib w'" "tables.holds lib w' = (tables.holds lib (mem_get s))((dc_id d, sc_id sc, old) := (\<lambda>_. False),
      (dc_id d, sc_id sc, new) := (\<lambda>x. x = stored_table d sc sn (tc_schema ?t)))"
    using mem_store.rename_table_computes [OF assms(1) inv(2) assms(3-7)] by blast
  obtain s' where "rename_table lib mem_ops db sn old new s = Some (Inr ?t, s')" "store_inv s'" "mem_get s' = w'"
    by (rule mem_runs [OF run inv(1) refl])
  with facts show ?thesis by (intro exI [of _ s']) (simp add: catalog_state_def)
qed

theorem catalog_table_renamed_witness:
  "\<exists>t s'. rename_table ex_lib mem_ops DEFAULT_DATABASE_NAME DEFAULT_SCHEMA_NAME ''t'' ''u'' ex_tables = Some (Inr t, s') \<and>
    catalog_state ex_lib s'"
proof -
  obtain t where t: "catalog_state ex_lib ex_tables"
    "in_schema ex_lib (mem_get ex_tables) DEFAULT_DATABASE_NAME DEFAULT_SCHEMA_NAME default_database default_schema"
    "tables.holds ex_lib (mem_get ex_tables) (dc_id default_database, sc_id default_schema, ''t'') t" "schema_wf (tc_schema t)"
    "\<And>k t. tables.holds ex_lib (mem_get ex_tables) k t \<Longrightarrow> k = (dc_id default_database, sc_id default_schema, ''t'')"
    "mem_get ex_tables (as_bytes (schema_key ''u'')) = None"
    by (rule ex_tables_facts) blast
  have "\<not> tables.holds ex_lib (mem_get ex_tables) (dc_id default_database, sc_id default_schema, ''u'') t'" for t'
    using t(5) by fastforce
  from catalog_table_renamed [OF ex_lib_reads_back t(1-4) this] t(6) show ?thesis by blast
qed

text \<open>A name that is taken is refused and nothing changes: databases, schemas and indexes answer
  with their own code unless \<open>IF NOT EXISTS\<close> was given, and a view never takes the name of a table.\<close>

theorem catalog_names_taken:
  assumes "catalog_state lib s" "in_schema lib (mem_get s) db sn d sc" "tables.holds lib (mem_get s) (dc_id d, sc_id sc, n) t"
    and "indexes.holds lib (mem_get s) (dc_id d, sc_id sc, m) x"
  shows "(\<exists>s'. create_database lib mem_ops db ine s =
        Some (if ine then Inr d else Inl (user_error ''42P04'' (quoted ''database '' db '' already exists'')), s') \<and> mem_get s' = mem_get s) \<and>
    (\<exists>s'. create_schema lib mem_ops db sn ine s =
        Some (if ine then Inr sc else Inl (user_error ''42P06'' (quoted ''schema '' sn '' already exists'')), s') \<and> mem_get s' = mem_get s) \<and>
    (\<exists>s'. create_index lib mem_ops db sn n m cols uniq ine s =
        Some (if ine then Inr None else Inl (user_error ''42P07'' (quoted ''relation '' m '' already exists'')), s') \<and> mem_get s' = mem_get s) \<and>
    (\<exists>s'. store_view lib mem_ops db sn n def orr ine s =
        Some (Inl (user_error ''42P07'' (quoted ''relation '' n '' already exists'')), s') \<and> mem_get s' = mem_get s)"
proof -
  have inv: "store_inv s" "catalog_inv lib (mem_get s)" using assms(1) by (simp_all add: catalog_state_def)
  have d: "databases.holds lib (mem_get s) db d" "schemas.holds lib (mem_get s) (dc_id d, sn) sc"
    using assms(2) by (simp_all add: in_schema_def)
  note runs = mem_store.create_database_existing [OF inv(2) d(1), of ine] mem_store.create_schema_existing [OF inv(2) d, of ine]
    mem_store.create_index_existing [OF inv(2) assms(2-4), of cols uniq ine] mem_store.store_view_over_table [OF assms(2,3), of "def" orr ine]
  show ?thesis
    using runs [THEN mem_runs_ex, OF inv(1)] by (auto simp: quoted_def)
qed

theorem catalog_names_taken_witness:
  "\<exists>s'. create_index ex_lib mem_ops DEFAULT_DATABASE_NAME DEFAULT_SCHEMA_NAME ''t'' ''t_name'' [''id''] False False ex_indexed =
    Some (Inl (user_error ''42P07'' (quoted ''relation '' ''t_name'' '' already exists'')), s') \<and> mem_get s' = mem_get ex_indexed"
proof -
  obtain t x where t: "catalog_state ex_lib ex_indexed"
    "in_schema ex_lib (mem_get ex_indexed) DEFAULT_DATABASE_NAME DEFAULT_SCHEMA_NAME default_database default_schema"
    "tables.holds ex_lib (mem_get ex_indexed) (dc_id default_database, sc_id default_schema, ''t'') t"
    "indexes.holds ex_lib (mem_get ex_indexed) (dc_id default_database, sc_id default_schema, ''t_name'') x"
    by (rule ex_indexed_facts)
  from catalog_names_taken [OF t, of False "[''id'']" False] show ?thesis by auto
qed

text \<open>What the catalog writes for a type is read back as the type it stands for: values have the
  same shapes under both, and rows are laid out alike, except for MySQL \<open>INT\<close>.\<close>

theorem type_name_reload:
  assumes "type_wf dt"
  shows "from_sql_with_mode (to_str dt) False = reloaded dt \<and> has_type (reloaded dt) v = has_type dt v \<and>
    ((fixed_width (reloaded dt) = fixed_width dt) = (dt \<noteq> TMySqlInt IntKind False))"
  using reload_type [OF assms] reloaded_type reloaded_width by blast

theorem type_name_reload_witness:
  "from_sql_with_mode (to_str (TArray (TVarChar (Some 3)))) False = TArray (TVarChar (Some 3))"
  using type_name_reload [of "TArray (TVarChar (Some 3))" VNull] by (simp add: num_ok_def)

text \<open>C14. A row written under the descriptor of the running statement is read back under the
  descriptor the catalog returns for it, when no column is a MySQL \<open>INT\<close>.\<close>

theorem rows_readable_after_reload:
  assumes "record_fits s row" "row_typed s row" "distinct (column_names s)"
    and "\<forall>c \<in> set (columns s). col_type c \<noteq> TMySqlInt IntKind False"
  shows "\<exists>out. decode_row_record (reload_schema s) (encode_row_record_with_mvcc s row mvcc) = Inr out \<and>
    dom out = set (column_names s) \<and> (\<forall>c \<in> set (columns s). out (col_name c) = Some (row_value row c))"
  by (rule rows_survive_reload [OF assms])

theorem rows_readable_after_reload_witness:
  "\<exists>out. decode_row_record (reload_schema ex_schema) (encode_row_record_with_mvcc ex_schema ex_row mvcc_default) = Inr out \<and>
    out ''id'' = Some (VInt64 7)"
proof -
  have "\<forall>c \<in> set (columns ex_schema). col_type c \<noteq> TMySqlInt IntKind False" by (simp add: ex_defs)
  from rows_readable_after_reload [OF ex_fits ex_typed ex_names(1) this, of mvcc_default] show ?thesis
    by (auto simp: ex_defs row_value_def)
qed

text \<open>C31. A MySQL \<open>INT\<close> column that \<open>ALTER TABLE .. ADD COLUMN\<close> puts behind other columns reads as 0 after the
  catalog was read again: the records written under the type of the statement have no slot for it, and
  the reader takes the first directory entry for the number, whatever the other columns are and
  hold. When the columns before it all have slots, the whole record reads without an error, with the
  0 in place of the number and the other columns as they were written.\<close>

theorem mysql_int_column_misread:
  assumes "columns s = xs @ [c]" "col_type c = TMySqlInt IntKind False" "row_value row c = VInt32 x"
    and "\<forall>c' \<in> set xs. col_type c' \<noteq> TMySqlInt IntKind False"
    and "record_fits s row" "row_typed s row" "distinct (column_names s)"
  shows "(\<exists>l. fixed_row_layout (reload_schema s) (encode_row_record_with_mvcc s row mvcc) = Inr l \<and>
      decode_fixed_row_column (reload_schema s) (encode_row_record_with_mvcc s row mvcc) l (length xs) =
        Inr (VInt32 0)) \<and>
    ((\<forall>c' \<in> set xs. fixed_width (col_type c') \<noteq> None) \<longrightarrow>
      (\<exists>out. decode_row_record (reload_schema s) (encode_row_record_with_mvcc s row mvcc) = Inr out \<and>
        out (col_name c) = Some (VInt32 0) \<and> (\<forall>c' \<in> set xs. out (col_name c') = Some (row_value row c'))))"
  using mysql_int_read_as_zero [OF assms(1-5)] mysql_int_record_misread [OF assms(1-3) _ assms(5-7)]
  by (auto simp: is_variable_def)

theorem mysql_int_column_misread_witness:
  "\<exists>out. decode_row_record
       (reload_schema (ex_schema\<lparr>columns := [ex_column 1 ''id'' TInt64 True, ex_column 2 ''n'' (TMySqlInt IntKind False) False]\<rparr>))
       (encode_row_record_with_mvcc
          (ex_schema\<lparr>columns := [ex_column 1 ''id'' TInt64 True, ex_column 2 ''n'' (TMySqlInt IntKind False) False]\<rparr>)
          [''id'' \<mapsto> VInt64 7, ''n'' \<mapsto> VInt32 42] mvcc_default) = Inr out \<and>
     out ''n'' = Some (VInt32 0) \<and> out ''id'' = Some (VInt64 7)"
proof -
  let ?id = "ex_column 1 ''id'' TInt64 True" and ?n = "ex_column 2 ''n'' (TMySqlInt IntKind False) False"
  let ?s = "ex_schema\<lparr>columns := [?id, ?n]\<rparr>" and ?row = "[''id'' \<mapsto> VInt64 7, ''n'' \<mapsto> VInt32 42] :: row_map"
  have "record_fits ?s ?row"
    by (simp add: record_fits_def payload_sec_def var_bytes_def is_variable_def fixed_width_def ex_column_def
        row_value_def is_null_def fixed_region_len_sum width_of_def div_ceil_def)
  moreover have "row_typed ?s ?row"
    by (simp add: row_typed_def ex_column_def row_value_def has_type_def mysql_int_has_type_def)
  ultimately show ?thesis
    using mysql_int_column_misread [of ?s "[?id]" ?n ?row 42 mvcc_default]
    by (fastforce simp: ex_column_def row_value_def column_names_def fixed_width_def)
qed

text \<open>Cells of the older storage format are read back, and so are the primary keys in its row
  markers, cell keys and index entries.\<close>

theorem legacy_cells_roundtrip:
  assumes "has_type dt v" "cell_ok v" "has_shape pkt pk" "segment_type pkt" "value_ok pk"
  shows "decode_cell_value dt (encode_cell_value v) = Inr v \<and>
    (\<exists>key. row_marker_key db schema tab pk = Inr key \<and> decode_pk_from_row_marker_key key db schema tab pkt = Inr pk) \<and>
    (\<exists>key. cell_key db schema tab column pk = Inr key \<and> decode_pk_from_cell_key key db schema tab column pkt = Inr pk) \<and>
    (\<exists>key. legacy_index_entry_key db schema tab index iv pk = Inr key \<and>
      legacy_decode_pk_from_index_entry_key key db schema tab index iv pkt = Inr pk)"
  using decode_encode_cell_value [OF assms(1,2)] decode_pk_of_legacy_keys [OF assms(3-5)] by blast

theorem legacy_cells_roundtrip_witness:
  "decode_cell_value TInt32 (encode_cell_value (VInt32 5)) = Inr (VInt32 5)"
  using legacy_cells_roundtrip [of TInt32 "VInt32 5" TInt64 "VInt64 7"] by (simp add: has_type_def segment_type_def)

section \<open>Rows of a session\<close>

text \<open>C4. Writing a row, in any session and under any isolation: the call returns; on an error the
  session sees what it saw before, on success the table has the row at its key and every other row as
  it was, the entries of every index are exactly those of the rows again, chunks and statistics are
  those of the rows, no other table and nothing of the catalog changed, and the constraints, the unique
  indexes and constraints and the check for concurrent changes were passed.\<close>

theorem write_row_effect:
  assumes "session_shows s g v" "catalog_inv lib (sv_store v)"
    and "table_inv db sn sch (index_list lib (sv_store v) (table_id sch)) (sv_visible v)"
    and "pk_ok sch pk" "row_fits sch row" "\<forall>x \<in> set (index_list lib (sv_store v) (table_id sch)). index_fits x row"
  shows "\<exists>r g' v'. write_row_at lib checks s db sn sch pk row g = Some (r, g') \<and> session_shows s g' v' \<and>
    (case r of Inl e \<Rightarrow> v' = v
     | Inr _ \<Rightarrow> row_admitted lib checks sch pk row v \<and> row_changed lib db sn sch pk (Some (stored_row sch row)) v v')"
  using write_row_outcome [OF assms(2-6), of s checks] assms(1) unfolding succeeds_or_keeps_def by blast

theorem write_row_effect_witness:
  "\<exists>x r g' v'. index_list ex_lib (sv_store ex_view) (table_id (ex_table x)) = [x] \<and>
    write_row_at ex_lib ex_checks None DEFAULT_DATABASE_NAME DEFAULT_SCHEMA_NAME (ex_table x) (VInt64 7) ex_row ex_gateway = Some (r, g') \<and>
    session_shows None g' v' \<and>
    (case r of Inl e \<Rightarrow> v' = ex_view
     | Inr _ \<Rightarrow> row_admitted ex_lib ex_checks (ex_table x) (VInt64 7) ex_row ex_view \<and>
         row_changed ex_lib DEFAULT_DATABASE_NAME DEFAULT_SCHEMA_NAME (ex_table x) (VInt64 7) (Some (stored_row (ex_table x) ex_row)) ex_view v')"
proof -
  obtain x where hyps: "session_shows None ex_gateway ex_view" "catalog_inv ex_lib (sv_store ex_view)"
    "table_inv DEFAULT_DATABASE_NAME DEFAULT_SCHEMA_NAME (ex_table x) (index_list ex_lib (sv_store ex_view) (table_id (ex_table x))) (sv_visible ex_view)"
    "pk_ok (ex_table x) (VInt64 7)" "row_fits (ex_table x) ex_row"
    "\<forall>y \<in> set (index_list ex_lib (sv_store ex_view) (table_id (ex_table x))). index_fits y ex_row"
    and x: "index_list ex_lib (sv_store ex_view) (table_id (ex_table x)) = [x]" by (rule ex_view_facts)
  show ?thesis using write_row_effect [OF hyps, of ex_checks] x by blast
qed

text \<open>C7. The write succeeds whenever it may: the column and check constraints hold, the row is not
  stale, each foreign key has a NULL column or finds the row it refers to in the table the catalog has
  under that name, no other row the session reads has the values of the row in a unique index, and no
  other row it sees has them in a unique constraint (nor do two of the others already share theirs, which
  the check of a unique constraint also refuses). The tables may have foreign keys, and the session may
  read as of a snapshot.\<close>

theorem write_row_done:
  assumes "session_shows s g v" "catalog_inv lib (sv_store v)"
    and "table_inv db sn sch (index_list lib (sv_store v) (table_id sch)) (sv_visible v)"
    and "table_inv db sn sch (index_list lib (sv_store v) (table_id sch)) (sv_read v)"
    and "pk_ok sch pk" "row_fits sch row" "\<forall>x \<in> set (index_list lib (sv_store v) (table_id sch)). index_fits x row"
    and "validate_row_constraints checks sch row = Inr ()" "table_of sch (sv_visible v) pk \<noteq> None \<longrightarrow> not_stale sch v pk"
    and "\<forall>fk \<in> set (foreign_keys sch). fk_holds lib db sn v row fk"
    and "\<forall>x \<in> set (index_list lib (sv_store v) (table_id sch)). sole_value sch (sv_read v) pk row x"
    and "\<forall>k \<in> set (unique_constraints sch). sole_key sch (sv_visible v) pk row k \<and> keys_apart sch (sv_visible v) pk k"
  shows "\<exists>g' v'. write_row_at lib checks s db sn sch pk row g = Some (Inr (), g') \<and> session_shows s g' v' \<and>
    row_changed lib db sn sch pk (Some (stored_row sch row)) v v'"
proof -
  have ok: "schema_ok sch" "table_ok sch (sv_visible v)" using assms(3) by (simp_all add: table_inv_def)
  have "\<forall>k \<in> set (unique_constraints sch). unique_primary_key k \<or>
      unique_loop k (Some pk) (Some (constraint_key k row)) [] (table_list sch (sv_visible v)) = Inr ()"
    using unique_keys_pass [OF ok finite_shown(4) [OF assms(1)]] assms(12) by blast
  from write_row_passes [OF assms(2,3,5-9) foreign_keys_hold [OF assms(10)] assms(4,11) this assms(1)] assms(1)
  show ?thesis by (fastforce simp: computes_def)
qed

theorem write_row_done_witness:
  "\<exists>x g v g' v'. foreign_keys (ex_referring x) = [ex_self_reference] \<and> ix_unique x \<and>
    index_list ex_lib (sv_store v) (table_id (ex_referring x)) = [x] \<and>
    write_row_at ex_lib ex_checks None DEFAULT_DATABASE_NAME DEFAULT_SCHEMA_NAME (ex_referring x) (VInt64 7) ex_row g = Some (Inr (), g') \<and>
    session_shows None g' v' \<and>
    row_changed ex_lib DEFAULT_DATABASE_NAME DEFAULT_SCHEMA_NAME (ex_referring x) (VInt64 7) (Some (stored_row (ex_referring x) ex_row)) v v'"
proof -
  obtain x g v where hyps: "session_shows None g v" "catalog_inv ex_lib (sv_store v)"
    "table_inv DEFAULT_DATABASE_NAME DEFAULT_SCHEMA_NAME (ex_referring x) (index_list ex_lib (sv_store v) (table_id (ex_referring x))) (sv_visible v)"
    "pk_ok (ex_referring x) (VInt64 7)" "row_fits (ex_referring x) ex_row"
    "\<forall>y \<in> set (index_list ex_lib (sv_store v) (table_id (ex_referring x))). index_fits y ex_row"
    "validate_row_constraints ex_checks (ex_referring x) ex_row = Inr ()" and stale: "not_stale (ex_referring x) v (VInt64 7)"
    and fk: "\<forall>fk \<in> set (foreign_keys (ex_referring x)). fk_holds ex_lib DEFAULT_DATABASE_NAME DEFAULT_SCHEMA_NAME v ex_row fk"
    and seen: "sv_read v = sv_visible v" "table_of (ex_referring x) (sv_visible v) = [VInt64 7 \<mapsto> stored_row (ex_referring x) ex_row]"
    and x: "index_list ex_lib (sv_store v) (table_id (ex_referring x)) = [x]" "ix_unique x" by (rule ex_referring_facts)
  have only: "pk' = VInt64 7" if "table_of (ex_referring x) (sv_visible v) pk' = Some row'" for pk' row'
    using that by (simp add: seen(2) split: if_splits)
  have sole: "sole_value (ex_referring x) (sv_read v) (VInt64 7) ex_row y" for y using only by (auto simp: sole_value_def seen(1))
  have keys: "sole_key (ex_referring x) (sv_visible v) (VInt64 7) ex_row k \<and> keys_apart (ex_referring x) (sv_visible v) (VInt64 7) k" for k
    using only unfolding sole_key_def keys_apart_def by (metis value_eq.simps)
  have "foreign_keys (ex_referring x) = [ex_self_reference]" by (simp add: ex_referring_def)
  moreover have "\<exists>g' v'. write_row_at ex_lib ex_checks None DEFAULT_DATABASE_NAME DEFAULT_SCHEMA_NAME (ex_referring x) (VInt64 7) ex_row g = Some (Inr (), g') \<and>
      session_shows None g' v' \<and>
      row_changed ex_lib DEFAULT_DATABASE_NAME DEFAULT_SCHEMA_NAME (ex_referring x) (VInt64 7) (Some (stored_row (ex_referring x) ex_row)) v v'"
    by (rule write_row_done [OF hyps(1-3) hyps(3) [folded seen(1)] hyps(4-7)]) (use stale fk sole keys in blast)+
  ultimately show ?thesis using x by blast
qed

text \<open>C16. Deleting a row: on an error nothing changed for the session, on success the row is gone from
  the table and from every index, everything else as for a write.\<close>

theorem delete_row_effect:
  assumes "session_shows s g v" "catalog_inv lib (sv_store v)"
    and "table_inv db sn sch (index_list lib (sv_store v) (table_id sch)) (sv_visible v)" "pk_ok sch pk"
  shows "\<exists>r g' v'. delete_row_at lib s db sn sch pk g = Some (r, g') \<and> session_shows s g' v' \<and>
    (case r of Inl e \<Rightarrow> v' = v
     | Inr _ \<Rightarrow> (table_of sch (sv_visible v) pk \<noteq> None \<longrightarrow> not_stale sch v pk) \<and> row_changed lib db sn sch pk None v v')"
  using delete_row_outcome [OF assms(2-4), of s] assms(1) unfolding succeeds_or_keeps_def by blast

theorem delete_row_effect_witness:
  "\<exists>x g r g' v v'. table_of (ex_table x) (sv_visible v) = [VInt64 7 \<mapsto> stored_row (ex_table x) ex_row] \<and>
    delete_row_at ex_lib None DEFAULT_DATABASE_NAME DEFAULT_SCHEMA_NAME (ex_table x) (VInt64 7) g = Some (r, g') \<and> session_shows None g' v' \<and>
    (case r of Inl e \<Rightarrow> v' = v
     | Inr _ \<Rightarrow> not_stale (ex_table x) v (VInt64 7) \<and>
         row_changed ex_lib DEFAULT_DATABASE_NAME DEFAULT_SCHEMA_NAME (ex_table x) (VInt64 7) None v v')"
proof -
  obtain x g v where w: "session_shows None g v" "catalog_inv ex_lib (sv_store v)" "index_list ex_lib (sv_store v) (table_id (ex_table x)) = [x]"
    "table_inv DEFAULT_DATABASE_NAME DEFAULT_SCHEMA_NAME (ex_table x) [x] (sv_visible v)"
    "table_of (ex_table x) (sv_visible v) = [VInt64 7 \<mapsto> stored_row (ex_table x) ex_row]" "pk_ok (ex_table x) (VInt64 7)"
    by (rule ex_written)
  have present: "table_of (ex_table x) (sv_visible v) (VInt64 7) \<noteq> None" by (simp add: w(5))
  from delete_row_effect [OF w(1,2) _ w(6), of DEFAULT_DATABASE_NAME DEFAULT_SCHEMA_NAME, unfolded w(3), OF w(4)] obtain r g' v' where
    "delete_row_at ex_lib None DEFAULT_DATABASE_NAME DEFAULT_SCHEMA_NAME (ex_table x) (VInt64 7) g = Some (r, g')" "session_shows None g' v'"
    "case r of Inl e \<Rightarrow> v' = v | Inr _ \<Rightarrow> (table_of (ex_table x) (sv_visible v) (VInt64 7) \<noteq> None \<longrightarrow> not_stale (ex_table x) v (VInt64 7)) \<and>
       row_changed ex_lib DEFAULT_DATABASE_NAME DEFAULT_SCHEMA_NAME (ex_table x) (VInt64 7) None v v'" by blast
  with present w(5) show ?thesis by (intro exI conjI) (assumption | simp split: sum.splits)+
qed

text \<open>C17. The check of a unique index accepts a row exactly when no other row the session reads has its
  value; otherwise it is the error 23505, and looking changed nothing.\<close>

theorem unique_index_exact:
  assumes "session_shows s g v" "table_inv db sn sch xs (sv_read v)" "x \<in> set xs" "pk_ok sch pk" "row_fits sch row" "index_fits x row"
    and "ix_unique x" "indexed_value row x \<noteq> VNull"
  shows "\<exists>g'. session_shows s g' v \<and> validate_index_entry s db sn sch pk row x g =
    Some (if \<exists>pk' row'. table_of sch (sv_read v) pk' = Some row' \<and> indexed_value row' x = indexed_value row x \<and> pk' \<noteq> pk
      then Inl (unique_violation (ix_name x)) else Inr (), g')"
proof -
  have "sole_value sch (sv_read v) pk row x =
      (\<not> (\<exists>pk' row'. table_of sch (sv_read v) pk' = Some row' \<and> indexed_value row' x = indexed_value row x \<and> pk' \<noteq> pk))"
    using assms(7,8) by (auto simp: sole_value_def)
  then show ?thesis using index_entry_computes [OF assms(2-6), of s] assms(1) by (auto simp: computes_def split: if_splits)
qed

theorem unique_index_exact_witness:
  "\<exists>x g g'. validate_index_entry None DEFAULT_DATABASE_NAME DEFAULT_SCHEMA_NAME (ex_table x) (VInt64 7) ex_row x g = Some (Inr (), g')"
proof -
  obtain x g v where w: "session_shows None g v" "table_inv DEFAULT_DATABASE_NAME DEFAULT_SCHEMA_NAME (ex_table x) [x] (sv_visible v)"
    "table_of (ex_table x) (sv_visible v) = [VInt64 7 \<mapsto> stored_row (ex_table x) ex_row]" "sv_visible v = mem_get (gw_store g)" "ix_unique x"
    "indexed_value ex_row x = VText ''ab''" "index_value_ok (ex_table x) x (VText ''ab'')" "pk_ok (ex_table x) (VInt64 7)" "row_fits (ex_table x) ex_row"
    by (rule ex_written)
  have read: "sv_read v = sv_visible v" using w(1,4) by (simp add: session_shows_def session_txn_def sv_no_txn)
  have "index_fits x ex_row" using w(6,7) by (simp add: index_fits_def index_value_ok_def)
  from unique_index_exact [OF w(1) _ _ w(8,9) this w(5), of DEFAULT_DATABASE_NAME DEFAULT_SCHEMA_NAME "[x]"] w(2,3,6) read
  show ?thesis by (auto split: if_splits)
qed

text \<open>C5. A row written in a transaction: while the transaction is open, and after a rollback, the store
  is as before; committing gives the store the table with the row and exact indexes.\<close>

theorem transaction_writes_row:
  assumes "store_inv (gw_store g)" "active_transactions g sid = None" "catalog_inv lib (mem_get (gw_store g))"
    and "table_inv db sn sch (index_list lib (mem_get (gw_store g)) (table_id sch)) (mem_get (gw_store g))"
    and "pk_ok sch pk" "row_fits sch row" "\<forall>x \<in> set (index_list lib (mem_get (gw_store g)) (table_id sch)). index_fits x row"
    and "g1 = begin_session_transaction_with_options sid (Some ReadCommitted) False g"
  shows "\<exists>r g2. write_row_at lib checks (Some sid) db sn sch pk row g1 = Some (r, g2) \<and>
    mem_get (gw_store g2) = mem_get (gw_store g) \<and>
    mem_get (gw_store (rollback_session_transaction sid g2)) = mem_get (gw_store g) \<and>
    (let w = mem_get (gw_store (commit_session_transaction sid g2)) in case r of
       Inl _ \<Rightarrow> w = mem_get (gw_store g)
     | Inr _ \<Rightarrow> table_of sch w = (table_of sch (mem_get (gw_store g)))(pk \<mapsto> stored_row sch row) \<and>
         table_inv db sn sch (index_list lib (mem_get (gw_store g)) (table_id sch)) w)"
  by (rule row_in_transaction [OF assms])

theorem transaction_writes_row_witness:
  "\<exists>x r g2. write_row_at ex_lib ex_checks (Some 1) DEFAULT_DATABASE_NAME DEFAULT_SCHEMA_NAME (ex_table x) (VInt64 7) ex_row
      (begin_session_transaction_with_options 1 (Some ReadCommitted) False ex_gateway) = Some (r, g2) \<and>
    mem_get (gw_store (rollback_session_transaction 1 g2)) = mem_get ex_rows_store \<and>
    (case r of Inl _ \<Rightarrow> True | Inr _ \<Rightarrow>
       table_of (ex_table x) (mem_get (gw_store (commit_session_transaction 1 g2))) (VInt64 7) = Some (stored_row (ex_table x) ex_row))"
proof -
  obtain x where x: "store_inv ex_rows_store" "catalog_inv ex_lib (mem_get ex_rows_store)"
    "index_list ex_lib (mem_get ex_rows_store) (table_id (ex_table x)) = [x]"
    "table_inv DEFAULT_DATABASE_NAME DEFAULT_SCHEMA_NAME (ex_table x) [x] (mem_get ex_rows_store)"
    "pk_ok (ex_table x) (VInt64 7)" "row_fits (ex_table x) ex_row" "index_fits x ex_row"
    by (rule ex_rows_facts)
  have g: "gw_store ex_gateway = ex_rows_store" "active_transactions ex_gateway 1 = None" by (simp_all add: ex_gateway_def)
  have "\<forall>y \<in> set [x]. index_fits y ex_row" using x(7) by simp
  from transaction_writes_row [of ex_gateway 1 ex_lib, unfolded g(1), OF x(1) g(2) x(2) _ x(5,6) _ refl,
      of DEFAULT_DATABASE_NAME DEFAULT_SCHEMA_NAME ex_checks, unfolded x(3), OF x(4) this]
  obtain r g2 where "write_row_at ex_lib ex_checks (Some 1) DEFAULT_DATABASE_NAME DEFAULT_SCHEMA_NAME (ex_table x) (VInt64 7) ex_row
      (begin_session_transaction_with_options 1 (Some ReadCommitted) False ex_gateway) = Some (r, g2)"
    "mem_get (gw_store (rollback_session_transaction 1 g2)) = mem_get ex_rows_store"
    "let w = mem_get (gw_store (commit_session_transaction 1 g2)) in case r of Inl _ \<Rightarrow> w = mem_get ex_rows_store
     | Inr _ \<Rightarrow> table_of (ex_table x) w = (table_of (ex_table x) (mem_get ex_rows_store))(VInt64 7 \<mapsto> stored_row (ex_table x) ex_row) \<and>
         table_inv DEFAULT_DATABASE_NAME DEFAULT_SCHEMA_NAME (ex_table x) [x] w" by blast
  then show ?thesis by (intro exI [of _ x] exI [of _ r] exI [of _ g2]) (auto simp: Let_def split: sum.splits)
qed

text \<open>C19. First updater wins: in a REPEATABLE READ transaction, writing a row that another session
  changed since the snapshot is the error 40001, and the session sees what it saw.\<close>

theorem stale_write_rejected:
  assumes "session_shows s g v" "schema_ok sch" "pk_ok sch pk" "table_ok sch (sv_visible v)" "no_legacy_rows db sn sch (sv_visible v)"
    and "validate_row_constraints checks sch row = Inr ()" "table_of sch (sv_visible v) pk \<noteq> None"
    and "sv_repeatable v" "\<not> sv_pending v (table_key sch pk)" "sv_store v (table_key sch pk) \<noteq> sv_snap v (table_key sch pk)"
  shows "\<exists>g'. write_row_at lib checks s db sn sch pk row g =
      Some (Inl (user_error ''40001'' ''could not serialize access due to concurrent update''), g') \<and> session_shows s g' v"
proof -
  have "\<not> not_stale sch v pk" using assms(8-10) by (simp add: not_stale_def)
  from stale_write_fails [OF assms(2-7) this, of s lib] assms(1) show ?thesis by (simp add: computes_def stale_error_def)
qed

theorem stale_write_rejected_witness:
  "\<exists>x h g'. write_row_at ex_lib ex_checks (Some 1) DEFAULT_DATABASE_NAME DEFAULT_SCHEMA_NAME (ex_table x) (VInt64 7) ex_row
      (ex_gateway\<lparr>active_transactions := [1 \<mapsto> begin_transaction h], active_transaction_isolations := [1 \<mapsto> RepeatableRead]\<rparr>) =
    Some (Inl (user_error ''40001'' ''could not serialize access due to concurrent update''), g')"
proof -
  obtain x g v where w: "session_shows None g v" "table_inv DEFAULT_DATABASE_NAME DEFAULT_SCHEMA_NAME (ex_table x) [x] (sv_visible v)"
    "table_of (ex_table x) (sv_visible v) = [VInt64 7 \<mapsto> stored_row (ex_table x) ex_row]" "sv_visible v = mem_get (gw_store g)" "pk_ok (ex_table x) (VInt64 7)"
    by (rule ex_written)
  let ?g = "ex_gateway\<lparr>active_transactions := [1 \<mapsto> begin_transaction (gw_store g)], active_transaction_isolations := [1 \<mapsto> RepeatableRead]\<rparr>"
  let ?v = "\<lparr>sv_store = mem_get ex_rows_store, sv_txn = Some (sv_visible v, Map.empty), sv_repeatable = True, sv_consistent = True\<rparr>"
  obtain y where empty: "store_inv ex_rows_store" "table_of (ex_table y) (mem_get ex_rows_store) = Map.empty"
      "\<And>k. area k \<noteq> CATALOG_AREA \<Longrightarrow> mem_get ex_rows_store k = None"
    by (rule ex_rows_store_facts) (metis ex_rows_facts)
  have inv: "store_inv (gw_store g)" using w(1) by (simp add: session_shows_def)
  have shows2: "session_shows (Some 1) ?g ?v"
    using empty(1) inv by (simp add: session_shows_def ex_gateway_def session_txn_def begin_transaction_def txn_inv_def bt_inv_def fun_eq_iff w(4)
        is_repeatable_read_transaction_def use_consistent_read_def)
  have seen: "sv_visible ?v = sv_visible v" "sv_snap ?v = sv_visible v" by (simp_all add: sv_visible_def [of ?v] sv_snap_def overlay_def fun_eq_iff)
  have row: "sv_visible v (table_key (ex_table x) (VInt64 7)) \<noteq> None"
    using table_of_absent [OF _ w(5), of "sv_visible v"] w(2,3) by (simp add: table_inv_def)
  moreover have "mem_get ex_rows_store (table_key (ex_table x) (VInt64 7)) = None" by (rule empty(3)) (simp add: area_simps)
  ultimately have "\<exists>g'. write_row_at ex_lib ex_checks (Some 1) DEFAULT_DATABASE_NAME DEFAULT_SCHEMA_NAME (ex_table x) (VInt64 7) ex_row ?g =
      Some (Inl (user_error ''40001'' ''could not serialize access due to concurrent update''), g') \<and> session_shows (Some 1) g' ?v"
    by (intro stale_write_rejected [OF shows2]) (use w(2,3,5) ex_admitted [of x] seen in \<open>auto simp: table_inv_def sv_pending_def\<close>)
  then show ?thesis by blast
qed

text \<open>C6. An index scan finds exactly the rows a full scan finds with the condition on the indexed
  value: the same set, each row once.\<close>

theorem index_scan_like_full_scan:
  assumes "session_shows s g v" "catalog_inv lib (sv_store v)"
    and "table_inv db sn sch (index_list lib (sv_store v) (table_id sch)) (sv_visible v)"
    and "x \<in> set (index_list lib (sv_store v) (table_id sch))" "index_value_ok sch x val"
  shows "\<exists>rows all g1 g2. scan_index_row_entries_at lib s db sn sch (ix_name x) val flt g = Some (Inr rows, g1) \<and> session_shows s g1 v \<and>
    scan_visible_row_entries_at s db sn sch (Some (\<lambda>row. indexed_value row x = val \<and> passes flt row)) g = Some (Inr all, g2) \<and>
    set rows = set all \<and> distinct (map fst rows) \<and> distinct (map fst all) \<and>
    set rows = {(pk, row). table_of sch (sv_visible v) pk = Some row \<and> indexed_value row x = val \<and> passes flt row}"
proof -
  let ?w = "sv_visible v" and ?flt = "Some (\<lambda>row. indexed_value row x = val \<and> passes flt row)"
  let ?rows = "filter (\<lambda>e. passes flt (snd e)) (index_rows sch ?w x val)" and ?all = "filter (\<lambda>e. passes ?flt (snd e)) (table_list sch ?w)"
  have ok: "schema_ok sch" "table_ok sch ?w" "no_legacy_rows db sn sch ?w" using assms(3) by (simp_all add: table_inv_def)
  note fin = finite_shown(4) [OF assms(1)]
  obtain g1 where g1: "scan_index_row_entries_at lib s db sn sch (ix_name x) val flt g = Some (Inr ?rows, g1)" "session_shows s g1 v"
    using index_scan_computes [OF assms(2-5), of s flt] assms(1) by (auto simp: computes_def)
  obtain g2 where g2: "scan_visible_row_entries_at s db sn sch ?flt g = Some (Inr ?all, g2)"
    using scan_rows_computes [OF ok, of s ?flt] assms(1) by (auto simp: computes_def)
  have rows: "set ?rows = {(pk, row). table_of sch ?w pk = Some row \<and> indexed_value row x = val \<and> passes flt row}"
    using index_rows_mem(1) [OF assms(3,4) fin assms(5)] by auto
  have all: "(pk, row) \<in> set ?all \<longleftrightarrow> table_of sch ?w pk = Some row \<and> indexed_value row x = val \<and> passes flt row" for pk row
    using rows_in_mem [OF ok(1,2) fin, of pk row "\<lambda>_. True"] by (auto simp: passes_def [of ?flt])
  have "distinct (map fst ?rows)" "distinct (map fst ?all)"
    using index_rows_mem(2) [OF assms(3,4) fin assms(5)] rows_in_distinct [OF ok(1,2) fin, of "\<lambda>_. True"] by (simp_all add: distinct_map_filter)
  moreover have "set ?rows = set ?all" unfolding rows set_eq_iff split_paired_All mem_Collect_eq case_prod_conv all by blast
  ultimately show ?thesis using g1 g2 rows by blast
qed

theorem index_scan_like_full_scan_witness:
  "\<exists>x g rows g1. scan_index_row_entries_at ex_lib None DEFAULT_DATABASE_NAME DEFAULT_SCHEMA_NAME (ex_table x) (ix_name x) (VText ''ab'') None g =
      Some (Inr rows, g1) \<and> set rows = {(VInt64 7, stored_row (ex_table x) ex_row)}"
proof -
  obtain x g v where w: "session_shows None g v" "catalog_inv ex_lib (sv_store v)" "index_list ex_lib (sv_store v) (table_id (ex_table x)) = [x]"
    "table_inv DEFAULT_DATABASE_NAME DEFAULT_SCHEMA_NAME (ex_table x) [x] (sv_visible v)"
    "table_of (ex_table x) (sv_visible v) = [VInt64 7 \<mapsto> stored_row (ex_table x) ex_row]"
    "indexed_value ex_row x = VText ''ab''" "index_value_ok (ex_table x) x (VText ''ab'')" "row_fits (ex_table x) ex_row"
    by (rule ex_written)
  have same: "indexed_value (stored_row (ex_table x) ex_row) x = VText ''ab''"
    using stored_indexed_value [OF _ w(8), of x] w(4,6) by (simp add: table_inv_def)
  have "x \<in> set [x]" by simp
  from index_scan_like_full_scan [OF w(1,2), of DEFAULT_DATABASE_NAME DEFAULT_SCHEMA_NAME "ex_table x", unfolded w(3), OF w(4) this w(7), of None]
  obtain rows g1 where r: "scan_index_row_entries_at ex_lib None DEFAULT_DATABASE_NAME DEFAULT_SCHEMA_NAME (ex_table x) (ix_name x) (VText ''ab'') None g =
      Some (Inr rows, g1)"
    "set rows = {(pk, row). table_of (ex_table x) (sv_visible v) pk = Some row \<and> indexed_value row x = VText ''ab'' \<and> passes None row}" by blast
  have "set rows = {(VInt64 7, stored_row (ex_table x) ex_row)}" unfolding r(2) w(5) using same by (auto simp: passes_def split: if_splits)
  with r(1) show ?thesis by blast
qed

text \<open>C18. The scan of a range with filter, limit and offset ends, in a transaction (in batches) and outside
  of one (in one visit), and returns the page of the rows of the range that pass, in the order of
  their keys.\<close>

theorem page_scan_exact:
  assumes "session_shows s g v" "schema_ok sch" "table_ok sch (sv_visible v)" "no_legacy_rows db sn sch (sv_visible v)"
    and "bound_ok sch lower" "bound_ok sch upper" "0 < n" "n + off < 2 ^ 64"
  shows "\<exists>g'. scan_visible_row_entries_by_pk_range_at s db sn sch lower upper flt (Some n) off g =
      Some (Inr (take n (drop off (filter (\<lambda>e. passes flt (snd e)) (rows_between sch (sv_visible v) lower upper)))), g') \<and> session_shows s g' v"
  using page_scan_computes [OF assms(2-6), of "Some n" off s flt] assms(1,7,8) by (auto simp: computes_def page_def)

theorem page_scan_exact_witness:
  "\<exists>x g v g'. scan_visible_row_entries_by_pk_range_at None DEFAULT_DATABASE_NAME DEFAULT_SCHEMA_NAME (ex_table x)
      (Some (VInt64 7, True)) None (Some (\<lambda>row. row ''id'' = Some (VInt64 7))) (Some 10) 0 g =
    Some (Inr (take 10 (filter (\<lambda>e. snd e ''id'' = Some (VInt64 7)) (rows_between (ex_table x) (sv_visible v) (Some (VInt64 7, True)) None))), g')"
proof -
  obtain x g v where w: "session_shows None g v" "table_inv DEFAULT_DATABASE_NAME DEFAULT_SCHEMA_NAME (ex_table x) [x] (sv_visible v)"
    "pk_ok (ex_table x) (VInt64 7)" by (rule ex_written)
  then show ?thesis
    using page_scan_exact [OF w(1), of "ex_table x" DEFAULT_DATABASE_NAME DEFAULT_SCHEMA_NAME "Some (VInt64 7, True)" None 10 0
        "Some (\<lambda>row. row ''id'' = Some (VInt64 7))"]
    by (auto simp: table_inv_def bound_ok_def passes_def)
qed

text \<open>C40. A filtered scan with \<open>LIMIT 0\<close> returns the first row that passes: the limit is compared after a
  row was taken.\<close>

theorem limit_zero_returns_row:
  assumes "session_shows s g v" "schema_ok sch" "table_ok sch (sv_visible v)" "no_legacy_rows db sn sch (sv_visible v)"
    and "rows_between sch (sv_visible v) None None = e # es" "p (snd e)"
  shows "\<exists>g'. scan_visible_row_entries_by_pk_range_at s db sn sch None None (Some p) (Some 0) 0 g = Some (Inr [e], g')"
  using zero_limit_computes [OF assms(2-4), of None None s p 0] assms(1,5,6) by (auto simp: computes_def bound_ok_def)

theorem limit_zero_returns_row_witness:
  "\<exists>x g g'. scan_visible_row_entries_by_pk_range_at None DEFAULT_DATABASE_NAME DEFAULT_SCHEMA_NAME (ex_table x)
      None None (Some (\<lambda>row. True)) (Some 0) 0 g = Some (Inr [(VInt64 7, stored_row (ex_table x) ex_row)], g')"
proof -
  obtain x g v where w: "session_shows None g v" "table_inv DEFAULT_DATABASE_NAME DEFAULT_SCHEMA_NAME (ex_table x) [x] (sv_visible v)"
    "table_of (ex_table x) (sv_visible v) = [VInt64 7 \<mapsto> stored_row (ex_table x) ex_row]" by (rule ex_written)
  have ok: "schema_ok (ex_table x)" "table_ok (ex_table x) (sv_visible v)" "no_legacy_rows DEFAULT_DATABASE_NAME DEFAULT_SCHEMA_NAME (ex_table x) (sv_visible v)"
    using w(2) by (simp_all add: table_inv_def)
  let ?rows = "rows_between (ex_table x) (sv_visible v) None None" and ?e = "(VInt64 7, stored_row (ex_table x) ex_row)"
  have all: "in_range (key_range (ex_table x) None None) = (\<lambda>k. starts_with k (table_prefix (ex_table x)))"
    by (simp add: row_range_between_def in_range_def [abs_def] prefix_bounds)
  have "(a, r) \<in> set ?rows \<longleftrightarrow> (a, r) = ?e" for a r
    unfolding rows_between_in all rows_in_mem [OF ok(1,2) finite_shown(4) [OF w(1)]] w(3) by auto
  then have "set ?rows = {?e}" by auto
  moreover have "distinct ?rows"
    using rows_in_distinct [OF ok(1,2) finite_shown(4) [OF w(1)]] unfolding rows_between_in by (simp add: distinct_map)
  ultimately have "?rows = [?e]" by (rule distinct_singleton_list)
  then show ?thesis using limit_zero_returns_row [OF w(1) ok, of ?e "[]" "\<lambda>row. True"] by blast
qed

section \<open>Statements\<close>

text \<open>C1. DELETE, through any of the accesses by key, range of keys, index value or full scan: it returns;
  it takes as many of the selected rows as the limit allows, removes exactly these from the table and
  from every index and returns their number. When it fails, a first part of them is removed.\<close>

theorem delete_statement_exact:
  assumes "session_shows s g v" "catalog_inv lib (sv_store v)"
    and "table_inv db sn sch (index_list lib (sv_store v) (table_id sch)) (sv_visible v)"
    and "access_ok sch (index_list lib (sv_store v) (table_id sch)) access"
  shows "\<exists>r g' v' es. apply_delete_rows lib s db sn sch access lmt ord g = Some (r, g') \<and> session_shows s g' v' \<and>
    takes_from lmt (selected sch (index_list lib (sv_store v) (table_id sch)) (sv_visible v) access) es \<and>
    (case r of
       Inr n \<Rightarrow> n = length es \<and> table_became lib db sn sch v (table_of sch (sv_visible v) |` (- fst ` set es)) v'
     | Inl _ \<Rightarrow> \<exists>n < length es. table_became lib db sn sch v (table_of sch (sv_visible v) |` (- fst ` set (take n es))) v')"
proof -
  note run = runs_cases [OF counted_run [OF delete_rows_run [OF assms(2-4)]] assms(1), folded delete_counts, unfolded replaced_none]
  show ?thesis by (rule run) blast
qed

theorem delete_statement_exact_witness:
  "\<exists>x g r g' v'. apply_delete_rows ex_lib None DEFAULT_DATABASE_NAME DEFAULT_SCHEMA_NAME (ex_table x) (PrefixScan None) None False g = Some (r, g') \<and>
    session_shows None g' v' \<and> (case r of Inr n \<Rightarrow> n = 1 \<and> table_of (ex_table x) (sv_visible v') = Map.empty | Inl _ \<Rightarrow> True)"
proof -
  obtain x g v where w: "session_shows None g v" "catalog_inv ex_lib (sv_store v)" "index_list ex_lib (sv_store v) (table_id (ex_table x)) = [x]"
    "table_inv DEFAULT_DATABASE_NAME DEFAULT_SCHEMA_NAME (ex_table x) [x] (sv_visible v)" "table_of (ex_table x) (sv_visible v) = [VInt64 7 \<mapsto> ex_stored 7]"
    by (rule ex_one_row)
  have ok: "access_ok (ex_table x) [x] (PrefixScan None)" by (simp add: access_ok_def)
  have sel: "selected (ex_table x) [x] (sv_visible v) (PrefixScan None) = {(VInt64 7, ex_stored 7)}"
    by (auto simp: selected_def access_matches_def passes_def w(5) split: if_splits)
  from delete_statement_exact [OF w(1,2), of DEFAULT_DATABASE_NAME DEFAULT_SCHEMA_NAME "ex_table x", unfolded w(3), OF w(4) ok, of None False]
  obtain r g' v' es where r: "apply_delete_rows ex_lib None DEFAULT_DATABASE_NAME DEFAULT_SCHEMA_NAME (ex_table x) (PrefixScan None) None False g = Some (r, g')"
    "session_shows None g' v'" "takes_from None {(VInt64 7, ex_stored 7)} es"
    "case r of Inr n \<Rightarrow> n = length es \<and> table_became ex_lib DEFAULT_DATABASE_NAME DEFAULT_SCHEMA_NAME (ex_table x) v
         (table_of (ex_table x) (sv_visible v) |` (- fst ` set es)) v'
     | Inl _ \<Rightarrow> \<exists>n < length es. table_became ex_lib DEFAULT_DATABASE_NAME DEFAULT_SCHEMA_NAME (ex_table x) v
         (table_of (ex_table x) (sv_visible v) |` (- fst ` set (take n es))) v'" unfolding sel by blast
  then have es: "es = [(VInt64 7, ex_stored 7)]" by (cases es) (auto simp: takes_from_def)
  have "[VInt64 7 \<mapsto> ex_stored 7] |` (- {VInt64 7}) = Map.empty" by (simp add: restrict_map_def fun_eq_iff)
  with r(4) have "case r of Inr n \<Rightarrow> n = 1 \<and> table_of (ex_table x) (sv_visible v') = Map.empty | Inl _ \<Rightarrow> True"
    unfolding es w(5) by (cases r) (simp_all add: table_became_def)
  with r(1,2) show ?thesis by blast
qed

text \<open>C2. UPDATE: the rows taken, as many as the limit allows, are replaced under their keys by what the
  assignments make of them, all of which see the row as it was; every other row stays, the indexes
  follow, and the number of rows is returned. When it fails, a first part of them is changed.\<close>

theorem update_statement_exact:
  assumes "session_shows s g v" "catalog_inv lib (sv_store v)"
    and "table_inv db sn sch (index_list lib (sv_store v) (table_id sch)) (sv_visible v)"
    and "access_ok sch (index_list lib (sv_store v) (table_id sch)) access"
    and "assignments_fit env eval sch (index_list lib (sv_store v) (table_id sch)) as (sv_visible v)"
    and "\<forall>key. access = PointLookup key \<longrightarrow> table_of sch (sv_visible v) key \<noteq> None"
  shows "\<exists>r g' v' es. apply_update_rows lib env eval checks s db sn sch as access lmt ord g = Some (r, g') \<and> session_shows s g' v' \<and>
    takes_from lmt (selected sch (index_list lib (sv_store v) (table_id sch)) (sv_visible v) access) es \<and>
    (let new = (\<lambda>e. Some (stored_row sch (assigned_row env eval sch as (snd e)))) in
     case r of
       Inr n \<Rightarrow> n = length es \<and> table_became lib db sn sch v (replaced new es (table_of sch (sv_visible v))) v'
     | Inl _ \<Rightarrow> \<exists>n < length es. table_became lib db sn sch v (replaced new (take n es) (table_of sch (sv_visible v))) v')"
proof -
  have some: "lmt = Some 0 \<or> (\<forall>key. access = PointLookup key \<longrightarrow> table_of sch (sv_visible v) key \<noteq> None)" using assms(6) by blast
  note run = runs_cases [OF counted_run [OF update_rows_run [OF assms(2-5) some]] assms(1), folded update_counts]
  show ?thesis unfolding Let_def by (rule run) blast
qed

theorem update_statement_exact_witness:
  "\<exists>x g r g' v'. apply_update_rows ex_lib ex_env ex_defaults ex_checks None DEFAULT_DATABASE_NAME DEFAULT_SCHEMA_NAME (ex_table x)
      [AssignExpr ''id'' (\<lambda>_ _ _. Inr (VInt64 8))] (PrefixScan None) None False g = Some (r, g') \<and> session_shows None g' v' \<and>
    (case r of Inr n \<Rightarrow> n = 1 \<and> table_of (ex_table x) (sv_visible v') (VInt64 7) = Some (ex_stored 8) | Inl _ \<Rightarrow> True)"
proof -
  let ?as = "[AssignExpr ''id'' (\<lambda>_ _ _. Inr (VInt64 8))]"
  obtain x g v where w: "session_shows None g v" "catalog_inv ex_lib (sv_store v)" "index_list ex_lib (sv_store v) (table_id (ex_table x)) = [x]"
    "table_inv DEFAULT_DATABASE_NAME DEFAULT_SCHEMA_NAME (ex_table x) [x] (sv_visible v)" "table_of (ex_table x) (sv_visible v) = [VInt64 7 \<mapsto> ex_stored 7]"
    "ix_column_names x = [''name'']" by (rule ex_one_row)
  have ok: "access_ok (ex_table x) [x] (PrefixScan None)" by (simp add: access_ok_def)
  note moved = ex_moved [of x]
  have fit: "assignments_fit ex_env ex_defaults (ex_table x) [x] ?as (sv_visible v)"
    using ex_row_insertable [OF w(6), of 8] moved(1) by (auto simp: assignments_fit_def w(5) row_insertable_def split: if_splits)
  have sel: "selected (ex_table x) [x] (sv_visible v) (PrefixScan None) = {(VInt64 7, ex_stored 7)}"
    by (auto simp: selected_def access_matches_def passes_def w(5) split: if_splits)
  from update_statement_exact [OF w(1,2), of DEFAULT_DATABASE_NAME DEFAULT_SCHEMA_NAME "ex_table x", unfolded w(3), OF w(4) ok fit, of ex_checks None False]
  obtain r g' v' es where r: "apply_update_rows ex_lib ex_env ex_defaults ex_checks None DEFAULT_DATABASE_NAME DEFAULT_SCHEMA_NAME (ex_table x) ?as (PrefixScan None) None False g = Some (r, g')"
    "session_shows None g' v'" "takes_from None {(VInt64 7, ex_stored 7)} es"
    "let new = (\<lambda>e. Some (stored_row (ex_table x) (assigned_row ex_env ex_defaults (ex_table x) ?as (snd e)))) in case r of
       Inr n \<Rightarrow> n = length es \<and> table_became ex_lib DEFAULT_DATABASE_NAME DEFAULT_SCHEMA_NAME (ex_table x) v (replaced new es (table_of (ex_table x) (sv_visible v))) v'
     | Inl _ \<Rightarrow> \<exists>n < length es. table_became ex_lib DEFAULT_DATABASE_NAME DEFAULT_SCHEMA_NAME (ex_table x) v (replaced new (take n es) (table_of (ex_table x) (sv_visible v))) v'"
    unfolding sel by (auto simp: Let_def)
  then have "es = [(VInt64 7, ex_stored 7)]" by (cases es) (auto simp: takes_from_def)
  with r moved show ?thesis
    by (intro exI [of _ x] exI [of _ g] exI [of _ r] exI [of _ g'] exI [of _ v']) (auto simp: table_became_def replaced_def Let_def split: sum.splits)
qed

text \<open>C3. INSERT of several rows into a table with a primary key: the rows are added one after the other,
  each under a key that was not taken, with exact indexes; all of them when it succeeds, and a first
  part of them when it fails.\<close>

theorem insert_statement_exact:
  assumes "session_shows s g v" "catalog_inv lib (sv_store v)"
    and "table_inv db sn sch (index_list lib (sv_store v) (table_id sch)) (sv_visible v)"
    and "has_user_primary_key sch" "mysql_auto_increment_column sch = None"
    and "\<forall>row \<in> set rows. row_insertable sch (index_list lib (sv_store v) (table_id sch)) row"
  shows "\<exists>r g' v' n. insert_loop lib env eval checks s db sn sch None returning rows insert_start g = Some (r, g') \<and> session_shows s g' v' \<and>
    n \<le> length rows \<and> new_keys sch (take n rows) (table_of sch (sv_visible v)) \<and>
    table_became lib db sn sch v (with_rows sch (take n rows) (table_of sch (sv_visible v))) v' \<and>
    (case r of Inl _ \<Rightarrow> n < length rows
     | Inr st \<Rightarrow> n = length rows \<and> ins_inserted st = n \<and> ins_affected st = n \<and> ins_returned st = (if returning then rows else []))"
proof -
  obtain r g' v' where run: "insert_loop lib env eval checks s db sn sch None returning rows insert_start g = Some (r, g')" "session_shows s g' v'"
    "\<exists>n \<le> length rows. new_keys sch (take n rows) (table_of sch (sv_visible v)) \<and>
       table_became lib db sn sch v (with_rows sch (take n rows) (table_of sch (sv_visible v))) v' \<and>
       (case r of Inl _ \<Rightarrow> n < length rows | Inr st' \<Rightarrow> n = length rows \<and> st' = fold (row_counted returning) rows insert_start)"
    by (rule runs_cases [OF insert_loop_runs [OF assms(4-6) became_start [OF assms(2,3)]] assms(1)])
  from run(3) obtain n where "n \<le> length rows" "new_keys sch (take n rows) (table_of sch (sv_visible v))"
    "table_became lib db sn sch v (with_rows sch (take n rows) (table_of sch (sv_visible v))) v'"
    "case r of Inl _ \<Rightarrow> n < length rows | Inr st' \<Rightarrow> n = length rows \<and> st' = fold (row_counted returning) rows insert_start" by blast
  with run(1,2) show ?thesis
    by (intro exI [of _ r] exI [of _ g'] exI [of _ v'] exI [of _ n]) (auto simp: rows_counted insert_start_def split: sum.splits)
qed

theorem insert_statement_exact_witness:
  "\<exists>x st g' v'. insert_loop ex_lib ex_env ex_defaults ex_checks None DEFAULT_DATABASE_NAME DEFAULT_SCHEMA_NAME (ex_table x) None False
      [ex_row] insert_start ex_gateway = Some (Inr st, g') \<and> session_shows None g' v' \<and> ins_inserted st = 1 \<and>
    table_of (ex_table x) (sv_visible v') = [VInt64 7 \<mapsto> ex_stored 7]"
proof -
  obtain x st0 g1 where w: "session_shows None ex_gateway ex_view" "catalog_inv ex_lib (sv_store ex_view)"
    "index_list ex_lib (sv_store ex_view) (table_id (ex_table x)) = [x]"
    "table_inv DEFAULT_DATABASE_NAME DEFAULT_SCHEMA_NAME (ex_table x) [x] (sv_visible ex_view)"
    "table_of (ex_table x) (sv_visible ex_view) = Map.empty" "row_insertable (ex_table x) [x] ex_row" "row_pk (ex_table x) ex_row = VInt64 7"
    "insert_row ex_lib ex_env ex_defaults ex_checks None DEFAULT_DATABASE_NAME DEFAULT_SCHEMA_NAME (ex_table x) None False ex_row insert_start ex_gateway = Some (Inr st0, g1)"
    by (rule ex_inserted)
  have "\<forall>row \<in> set [ex_row]. row_insertable (ex_table x) [x] row" using w(6) by simp
  from insert_statement_exact [OF w(1,2), of DEFAULT_DATABASE_NAME DEFAULT_SCHEMA_NAME "ex_table x", unfolded w(3), OF w(4) ex_key(1,2) this,
      of ex_env ex_defaults ex_checks False]
  obtain r g' v' n where run: "insert_loop ex_lib ex_env ex_defaults ex_checks None DEFAULT_DATABASE_NAME DEFAULT_SCHEMA_NAME (ex_table x) None False
      [ex_row] insert_start ex_gateway = Some (r, g')" "session_shows None g' v'"
    "table_became ex_lib DEFAULT_DATABASE_NAME DEFAULT_SCHEMA_NAME (ex_table x) ex_view (with_rows (ex_table x) (take n [ex_row]) (table_of (ex_table x) (sv_visible ex_view))) v'"
    "case r of Inl _ \<Rightarrow> n < length [ex_row]
     | Inr st \<Rightarrow> n = length [ex_row] \<and> ins_inserted st = n \<and> ins_affected st = n \<and> ins_returned st = (if False then [ex_row] else [])" by blast
  from run(1) w(8) have "r = Inr st0" by (simp add: st_bind_def st_return_def)
  then show ?thesis using run w(5,7) by (intro exI [of _ x] exI [of _ st0] exI [of _ g'] exI [of _ v']) (simp add: table_became_def with_rows_def ex_stored_row)
qed

text \<open>C35. A statement is not atomic: an INSERT of two rows with one key fails with 23505 and leaves the first
  row in the table, which outside a transaction is the table of every session.\<close>

theorem failed_insert_keeps_row:
  assumes "session_shows s g v" "catalog_inv lib (sv_store v)"
    and "table_inv db sn sch (index_list lib (sv_store v) (table_id sch)) (sv_visible v)"
    and "has_user_primary_key sch" "mysql_auto_increment_column sch = None"
    and "row_insertable sch (index_list lib (sv_store v) (table_id sch)) row" "row_pk sch row' = row_pk sch row"
    and "insert_row lib env eval checks s db sn sch None returning row insert_start g = Some (Inr st, g1)"
  shows "\<exists>g2 v2. insert_rows lib env eval checks s db sn sch None returning [row, row'] g = Some (Inl (duplicate_pkey sch), g2) \<and>
    session_shows s g2 v2 \<and> table_of sch (sv_visible v2) = (table_of sch (sv_visible v))(row_pk sch row \<mapsto> stored_row sch row)"
  using insert_twice_fails [where sch = sch and row = row and row' = row' and rows = "[]", OF assms(4,5,2,3,6,7,1,8)] by (auto simp: table_became_def)

theorem failed_insert_keeps_row_witness:
  "\<exists>x g2 v2. insert_rows ex_lib ex_env ex_defaults ex_checks None DEFAULT_DATABASE_NAME DEFAULT_SCHEMA_NAME (ex_table x) None False
      [ex_row, ex_row] ex_gateway = Some (Inl (duplicate_pkey (ex_table x)), g2) \<and> session_shows None g2 v2 \<and>
    table_of (ex_table x) (sv_visible v2) = [VInt64 7 \<mapsto> ex_stored 7]"
proof -
  obtain x st g1 where w: "session_shows None ex_gateway ex_view" "catalog_inv ex_lib (sv_store ex_view)"
    "index_list ex_lib (sv_store ex_view) (table_id (ex_table x)) = [x]"
    "table_inv DEFAULT_DATABASE_NAME DEFAULT_SCHEMA_NAME (ex_table x) [x] (sv_visible ex_view)"
    "table_of (ex_table x) (sv_visible ex_view) = Map.empty" "row_insertable (ex_table x) [x] ex_row" "row_pk (ex_table x) ex_row = VInt64 7"
    "insert_row ex_lib ex_env ex_defaults ex_checks None DEFAULT_DATABASE_NAME DEFAULT_SCHEMA_NAME (ex_table x) None False ex_row insert_start ex_gateway = Some (Inr st, g1)"
    by (rule ex_inserted)
  from failed_insert_keeps_row [OF w(1,2), of DEFAULT_DATABASE_NAME DEFAULT_SCHEMA_NAME "ex_table x" ex_row ex_row, unfolded w(3), OF w(4) ex_key(1,2) w(6) refl w(8)]
  show ?thesis unfolding w(5,7) ex_stored_row by blast
qed

text \<open>C36. An UPDATE of the column of the primary key leaves the row under its old key: it is found under the
  old value, where the column no longer has it, and not under the new one.\<close>

theorem update_keeps_old_key:
  assumes "session_shows s g v" "catalog_inv lib (sv_store v)"
    and "table_inv db sn sch (index_list lib (sv_store v) (table_id sch)) (sv_visible v)" "pk_ok sch key" "table_of sch (sv_visible v) key = Some row"
    and "assignments_fit env eval sch (index_list lib (sv_store v) (table_id sch)) [AssignExpr (primary_key sch) expr] (sv_visible v)"
    and "find_column sch (primary_key sch) = Some target" "expr sch row None = Inr x" "coerce_column_value env x (col_type target) = Inr key'"
    and "key' \<noteq> key" "table_of sch (sv_visible v) key' = None"
    and "apply_update_rows lib env eval checks s db sn sch [AssignExpr (primary_key sch) expr] (PointLookup key) None ord g = Some (Inr n, g')"
  shows "\<exists>v' row'. session_shows s g' v' \<and> table_of sch (sv_visible v') key = Some row' \<and> row' (primary_key sch) = Some key' \<and>
    table_of sch (sv_visible v') key' = None"
proof -
  let ?as = "[AssignExpr (primary_key sch) expr]" and ?t = "table_of sch (sv_visible v)"
  have ok: "access_ok sch (index_list lib (sv_store v) (table_id sch)) (PointLookup key)" using assms(4) by (simp add: access_ok_def)
  obtain r g1 v' where run: "collect_updated_rows lib env eval checks s db sn sch ?as (PointLookup key) None ord g = Some (r, g1)" "session_shows s g1 v'"
    "statement_done lib db sn sch None (PointLookup key) (\<lambda>e. Some (stored_row sch (assigned_row env eval sch ?as (snd e)))) (\<lambda>e. assigned_row env eval sch ?as (snd e)) v r v'"
    by (rule runs_cases [OF update_rows_run [OF assms(2,3) ok assms(6)] assms(1)]) (use assms(5) in simp)
  have g1: "g1 = g'" and "\<exists>rows. r = Inr rows" using run(1) assms(12) unfolding update_counts by (auto simp: st_bind_def st_return_def split: sum.splits)
  then obtain es rows where es: "takes_from None (selected sch (index_list lib (sv_store v) (table_id sch)) (sv_visible v) (PointLookup key)) es"
    "table_became lib db sn sch v (replaced (\<lambda>e. Some (stored_row sch (assigned_row env eval sch ?as (snd e)))) es ?t) v'"
    using run(3) by (auto simp: statement_done_def)
  have "es = [(key, row)]" using es(1) by (cases es) (auto simp: takes_from_def selected_point assms(5))
  then have t: "table_of sch (sv_visible v') = ?t(key \<mapsto> stored_row sch (assigned_row env eval sch ?as row))"
    using es(2) by (auto simp: table_became_def replaced_def fun_eq_iff)
  have sch: "schema_ok sch" "table_ok sch (sv_visible v)" "no_legacy_rows db sn sch (sv_visible v)" using assms(3) by (simp_all add: table_inv_def)
  obtain row' where new: "apply_update_assignments env eval sch ?as row = Inr row'"
  proof (cases "apply_update_assignments env eval sch ?as row")
    case (Inl e)
    then show ?thesis
      using point_update_error [OF sch(1) assms(4) sch(2,3), of None e env eval ?as s lib checks ord] assms(1,5) run(1) \<open>\<exists>rows. r = Inr rows\<close>
      by (auto simp: computes_def)
  qed (rule that)
  have "stored_row sch (assigned_row env eval sch ?as row) (primary_key sch) = Some key'"
    using stored_column [where row = row', OF sch(1) assms(7) assigned_value [OF assms(7-9) new]] by (simp add: assigned_row_def new)
  then show ?thesis using run(2) t assms(10,11) unfolding g1 by (intro exI [of _ v']) simp
qed

theorem update_keeps_old_key_witness:
  "\<exists>x g v n g' v' row'. apply_update_rows ex_lib ex_env ex_defaults ex_checks None DEFAULT_DATABASE_NAME DEFAULT_SCHEMA_NAME (ex_table x)
      [AssignExpr ''id'' (\<lambda>_ _ _. Inr (VInt64 8))] (PointLookup (VInt64 7)) None False g = Some (Inr n, g') \<and>
    table_of (ex_table x) (sv_visible v) = [VInt64 7 \<mapsto> ex_stored 7] \<and> session_shows None g' v' \<and>
    table_of (ex_table x) (sv_visible v') (VInt64 7) = Some row' \<and> row' ''id'' = Some (VInt64 8) \<and> table_of (ex_table x) (sv_visible v') (VInt64 8) = None"
proof -
  let ?e = "\<lambda>_ _ _. Inr (VInt64 8) :: column_value res"
  obtain x g v n g' where w: "session_shows None g v" "catalog_inv ex_lib (sv_store v)" "index_list ex_lib (sv_store v) (table_id (ex_table x)) = [x]"
    "table_inv DEFAULT_DATABASE_NAME DEFAULT_SCHEMA_NAME (ex_table x) [x] (sv_visible v)" "table_of (ex_table x) (sv_visible v) = [VInt64 7 \<mapsto> ex_stored 7]"
    "ix_column_names x = [''name'']" "pk_ok (ex_table x) (VInt64 7)"
    "apply_update_rows ex_lib ex_env ex_defaults ex_checks None DEFAULT_DATABASE_NAME DEFAULT_SCHEMA_NAME (ex_table x)
      [AssignExpr ''id'' ?e] (PointLookup (VInt64 7)) None False g = Some (Inr n, g')" by (rule ex_updated)
  have fit: "assignments_fit ex_env ex_defaults (ex_table x) [x] [AssignExpr ''id'' ?e] (sv_visible v)"
    using ex_row_insertable [OF w(6), of 8] ex_moved(1) [of x 8] by (auto simp: assignments_fit_def w(5) row_insertable_def split: if_splits)
  have co: "coerce_column_value ex_env (VInt64 8) (col_type (ex_column 1 ''id'' TInt64 True)) = Inr (VInt64 8)"
    by (simp add: ex_column_def coerce_scalar_def coerce_int64_def)
  have rows: "table_of (ex_table x) (sv_visible v) (VInt64 7) = Some (ex_stored 7)" "table_of (ex_table x) (sv_visible v) (VInt64 8) = None" "VInt64 8 \<noteq> VInt64 7"
    by (simp_all add: w(5))
  from update_keeps_old_key [OF w(1,2), of DEFAULT_DATABASE_NAME DEFAULT_SCHEMA_NAME "ex_table x" "VInt64 7", unfolded w(3) ex_key(3),
      OF w(4) w(7) rows(1) fit ex_column_types(1) refl co rows(3,2) w(8)]
  show ?thesis using w(5,8) by blast
qed

text \<open>C37. \<open>ON CONFLICT (columns) DO NOTHING\<close> is resolved to an action that forgets the columns and looks only
  for the primary key: a row whose primary key is new and whose value in a unique index another row
  has is an error, where the statement asks for it to be skipped.\<close>

theorem do_nothing_forgets_target:
  assumes "session_shows s g v" "catalog_inv lib (sv_store v)"
    and "table_inv db sn sch (index_list lib (sv_store v) (table_id sch)) (sv_visible v)" "\<not> sv_consistent v" "has_user_primary_key sch"
    and "cols \<noteq> []" "list_all (\<lambda>c. find_column sch c \<noteq> None) cols" "\<exists>k \<in> set (unique_constraints sch). unique_columns k = cols"
    and "x \<in> set (index_list lib (sv_store v) (table_id sch))" "ix_unique x" "ix_column_names x = cols"
    and "row_insertable sch (index_list lib (sv_store v) (table_id sch)) row" "table_of sch (sv_visible v) (row_pk sch row) = None"
    and "table_of sch (sv_visible v) pk = Some old" "indexed_value old x = indexed_value row x" "indexed_value row x \<noteq> VNull"
  shows "resolve_insert_on_conflict lib sch (Some (OnConflict (Some (TargetColumns cols)) AstDoNothing)) False False g = Some (Inr (Some DoNothing), g) \<and>
    (\<exists>e g'. insert_row lib env eval checks s db sn sch (Some DoNothing) returning row st g = Some (Inl e, g') \<and> session_shows s g' v)"
proof
  have "target_is_keyed sch cols DoNothing" using assms(8) by (auto simp: target_is_keyed_def list_ex_iff)
  from do_nothing_resolved [OF assms(6,7) this]
  show "resolve_insert_on_conflict lib sch (Some (OnConflict (Some (TargetColumns cols)) AstDoNothing)) False False g = Some (Inr (Some DoNothing), g)"
    by (simp add: st_return_def)
  have "pk \<noteq> row_pk sch row" using assms(13,14) by auto
  then have "\<not> sole_value sch (sv_visible v) (row_pk sch row) row x" unfolding sole_value_def using assms(10,14-16) by blast
  from runs_cases [OF do_nothing_runs [OF assms(5,2,3,4,12,13,9) this] assms(1)]
  show "\<exists>e g'. insert_row lib env eval checks s db sn sch (Some DoNothing) returning row st g = Some (Inl e, g') \<and> session_shows s g' v" by metis
qed

theorem do_nothing_forgets_target_witness:
  "\<exists>x g e g'. resolve_insert_on_conflict ex_lib (ex_table x) (Some (OnConflict (Some (TargetColumns [''name''])) AstDoNothing)) False False g = Some (Inr (Some DoNothing), g) \<and>
    insert_row ex_lib ex_env ex_defaults ex_checks None DEFAULT_DATABASE_NAME DEFAULT_SCHEMA_NAME (ex_table x) (Some DoNothing) False (ex_stored 8) insert_start g = Some (Inl e, g')"
proof -
  obtain x g v where w: "session_shows None g v" "catalog_inv ex_lib (sv_store v)" "index_list ex_lib (sv_store v) (table_id (ex_table x)) = [x]"
    "table_inv DEFAULT_DATABASE_NAME DEFAULT_SCHEMA_NAME (ex_table x) [x] (sv_visible v)" "table_of (ex_table x) (sv_visible v) = [VInt64 7 \<mapsto> ex_stored 7]"
    "ix_column_names x = [''name'']" "ix_unique x" "\<not> sv_consistent v" by (rule ex_one_row)
  note row = ex_row_insertable [OF w(6)]
  have cols: "[''name''] \<noteq> []" "list_all (\<lambda>c. find_column (ex_table x) c \<noteq> None) [''name'']" "\<exists>k \<in> set (unique_constraints (ex_table x)). unique_columns k = [''name'']"
    using ex_column_types(2) [of x] by (simp_all add: ex_table_def)
  have rows: "table_of (ex_table x) (sv_visible v) (row_pk (ex_table x) (ex_stored 8)) = None" "table_of (ex_table x) (sv_visible v) (VInt64 7) = Some (ex_stored 7)"
    "indexed_value (ex_stored 7) x = indexed_value (ex_stored 8) x" "indexed_value (ex_stored 8) x \<noteq> VNull" "x \<in> set [x]"
    by (simp_all add: row(2,3) w(5))
  from do_nothing_forgets_target [OF w(1,2), of DEFAULT_DATABASE_NAME DEFAULT_SCHEMA_NAME "ex_table x" "[''name'']" x "ex_stored 8", unfolded w(3),
      OF w(4,8) ex_key(1) cols rows(5) w(7,6) row(1) rows(1-4), of ex_env ex_defaults ex_checks False insert_start]
  show ?thesis by blast
qed

text \<open>C38. An UPDATE by a primary key that no row has is the error 02000, while the DELETE with the same
  condition affects no row.\<close>

theorem update_of_missing_row_fails:
  assumes "session_shows s g v" "schema_ok sch" "pk_ok sch key" "table_ok sch (sv_visible v)" "no_legacy_rows db sn sch (sv_visible v)"
    and "table_of sch (sv_visible v) key = None" "lmt \<noteq> Some 0"
  shows "\<exists>g1 g2. apply_update_rows lib env eval checks s db sn sch as (PointLookup key) lmt ord g =
      Some (Inl (user_error ''02000'' ''no row found for UPDATE''), g1) \<and> session_shows s g1 v \<and>
    apply_delete_rows lib s db sn sch (PointLookup key) lmt ord g = Some (Inr 0, g2) \<and> session_shows s g2 v"
proof -
  have "computes (session_shows s) (apply_update_rows lib env eval checks s db sn sch as (PointLookup key) lmt ord) v (Inl no_row_for_update) v"
    unfolding update_counts by (rule computes_bind_error [OF point_update_error [OF assms(2-5,7)]]) (simp add: assms(6))
  with point_delete_missing [OF assms(2-6), of s lib lmt ord] assms(1) show ?thesis by (auto simp: computes_def no_row_for_update_def)
qed

theorem update_of_missing_row_fails_witness:
  "\<exists>x g1 g2. apply_update_rows ex_lib ex_env ex_defaults ex_checks None DEFAULT_DATABASE_NAME DEFAULT_SCHEMA_NAME (ex_table x) [] (PointLookup (VInt64 7)) None False ex_gateway =
      Some (Inl (user_error ''02000'' ''no row found for UPDATE''), g1) \<and>
    apply_delete_rows ex_lib None DEFAULT_DATABASE_NAME DEFAULT_SCHEMA_NAME (ex_table x) (PointLookup (VInt64 7)) None False ex_gateway = Some (Inr 0, g2)"
proof -
  obtain x where x: "session_shows None ex_gateway ex_view"
    "table_inv DEFAULT_DATABASE_NAME DEFAULT_SCHEMA_NAME (ex_table x) (index_list ex_lib (sv_store ex_view) (table_id (ex_table x))) (sv_visible ex_view)"
    "pk_ok (ex_table x) (VInt64 7)" "table_of (ex_table x) (sv_visible ex_view) = Map.empty" by (rule ex_view_facts)
  have t: "schema_ok (ex_table x)" "table_ok (ex_table x) (sv_visible ex_view)" "no_legacy_rows DEFAULT_DATABASE_NAME DEFAULT_SCHEMA_NAME (ex_table x) (sv_visible ex_view)"
    using x(2) by (simp_all add: table_inv_def)
  have none: "table_of (ex_table x) (sv_visible ex_view) (VInt64 7) = None" "(None :: nat option) \<noteq> Some 0" by (simp_all add: x(4))
  from update_of_missing_row_fails [OF x(1) t(1) x(3) t(2,3) none, of ex_lib ex_env ex_defaults ex_checks "[]" False] show ?thesis by blast
qed

text \<open>C39. With and without RETURNING, UPDATE and DELETE do the same: the count is the number of the rows
  returned, with the same errors and the same state after.\<close>

theorem returning_counts_agree:
  "apply_update_rows lib env eval checks s db sn sch as access lmt ord =
      st_bind (collect_updated_rows lib env eval checks s db sn sch as access lmt ord) (\<lambda>rows. st_return (length rows)) \<and>
    apply_delete_rows lib s db sn sch access lmt ord =
      st_bind (collect_deleted_rows lib s db sn sch access lmt ord) (\<lambda>rows. st_return (length rows))"
  using update_counts delete_counts by blast

end
